(* ===== verification/Prelude.thy ===== *)
theory Prelude
  imports Main "HOL-Library.AList" "HOL-Library.Word"
begin

text \<open>
  Shared vocabulary of the development.

  \<^item> \<open>py_error\<close>: the exceptions the modelled scripts raise, as values.  A fallible Python
    function returns \<open>'a res\<close>, with \<open>Inl\<close> for a raised exception.
  \<^item> \<open>bind_res\<close>, \<open>map_res\<close>, \<open>fold_res\<close>, \<open>require\<close>: sequencing, list comprehension and loops over
    fallible bodies, and the \<open>if not condition: raise\<close> idiom.
  \<^item> Python integers are \<open>int\<close>; Python dictionaries keep insertion order and are association
    lists read by \<open>map_of\<close> and written by \<open>AList.update\<close>, which replaces in place and appends
    a new key at the end, exactly as a Python dictionary does.
  \<^item> \<open>aligner\<close>: the interface of an alignment routine, interpreted below its providers.
\<close>

unbundle bit_operations_syntax

named_theorems res_simps \<open>rewrite rules for the result type\<close>

section \<open>Exceptions as values\<close>

datatype py_error =
    ValueError string
  | VectorError string
  | KeyError
  | IndexError
  | TypeError
  | AssertionError string
  | RuntimeError string
  | StructError
  | OverflowError
  | ZeroDivisionError
  | UnicodeError
  | SystemExit string
  | StopIteration
  | FileNotFoundError
  | AttributeError

type_synonym 'a res = "py_error + 'a"

definition bind_res :: "'a res \<Rightarrow> ('a \<Rightarrow> 'b res) \<Rightarrow> 'b res" where
  "bind_res r f = (case r of Inl e \<Rightarrow> Inl e | Inr x \<Rightarrow> f x)"

definition require :: "bool \<Rightarrow> py_error \<Rightarrow> unit res" where
  "require c e = (if c then Inr () else Inl e)"

fun map_res :: "('a \<Rightarrow> 'b res) \<Rightarrow> 'a list \<Rightarrow> 'b list res" where
  "map_res f [] = Inr []"
| "map_res f (x # xs) = bind_res (f x) (\<lambda>y. bind_res (map_res f xs) (\<lambda>ys. Inr (y # ys)))"

fun fold_res :: "('s \<Rightarrow> 'a \<Rightarrow> 's res) \<Rightarrow> 's \<Rightarrow> 'a list \<Rightarrow> 's res" where
  "fold_res f s [] = Inr s"
| "fold_res f s (x # xs) = bind_res (f s x) (\<lambda>s'. fold_res f s' xs)"

lemma bind_res_simps [simp, res_simps]:
  "bind_res (Inl e) f = Inl e" "bind_res (Inr x) f = f x"
  by (simp_all add: bind_res_def)

lemma bind_res_Inr_iff [res_simps]: "bind_res r f = Inr y \<longleftrightarrow> (\<exists>x. r = Inr x \<and> f x = Inr y)"
  by (cases r) auto

lemma bind_res_Inl_iff [res_simps]:
  "bind_res r f = Inl e \<longleftrightarrow> r = Inl e \<or> (\<exists>x. r = Inr x \<and> f x = Inl e)"
  by (cases r) auto

lemma bind_res_split:
  "P (bind_res r f) \<longleftrightarrow> (\<forall>e. r = Inl e \<longrightarrow> P (Inl e)) \<and> (\<forall>x. r = Inr x \<longrightarrow> P (f x))"
  by (cases r) auto

lemma bind_res_cong: "r = r' \<Longrightarrow> bind_res r f = bind_res r' f"
  by simp

lemma bind_res_assoc: "bind_res (bind_res r f) g = bind_res r (\<lambda>x. bind_res (f x) g)"
  by (cases r) simp_all

lemma bind_res_fundef_cong [fundef_cong]:
  "r = r' \<Longrightarrow> (\<And>x. r' = Inr x \<Longrightarrow> f x = g x) \<Longrightarrow> bind_res r f = bind_res r' g"
  by (cases r') auto

lemma require_simps [simp, res_simps]:
  "require True e = Inr ()" "require False e = Inl e"
  by (simp_all add: require_def)

lemma require_iff [simp, res_simps]:
  "require c e = Inr u \<longleftrightarrow> c" "require c e = Inl e' \<longleftrightarrow> \<not> c \<and> e = e'"
  by (auto simp: require_def)

lemma map_res_Inr: "(\<And>x. x \<in> set xs \<Longrightarrow> f x = Inr (g x)) \<Longrightarrow> map_res f xs = Inr (map g xs)"
  by (induction xs) auto

lemma map_res_length: "map_res f xs = Inr ys \<Longrightarrow> length ys = length xs"
  by (induction xs arbitrary: ys) (auto simp: bind_res_Inr_iff)

lemma map_res_list_all2: "map_res f xs = Inr ys \<longleftrightarrow> list_all2 (\<lambda>x y. f x = Inr y) xs ys"
  by (induction xs arbitrary: ys) (auto simp: bind_res_Inr_iff list_all2_Cons1)

lemma map_res_mem: "map_res f xs = Inr ys \<Longrightarrow> x \<in> set xs \<Longrightarrow> \<exists>y \<in> set ys. f x = Inr y"
  by (induction xs arbitrary: ys) (auto simp: bind_res_Inr_iff)

lemma map_res_origin: "map_res f xs = Inr ys \<Longrightarrow> y \<in> set ys \<Longrightarrow> \<exists>x \<in> set xs. f x = Inr y"
  by (induction xs arbitrary: ys) (auto simp: bind_res_Inr_iff)

lemma fold_res_append:
  "fold_res f s (xs @ ys) = bind_res (fold_res f s xs) (\<lambda>s'. fold_res f s' ys)"
  by (induction xs arbitrary: s) (simp_all add: bind_res_assoc)

lemma fold_res_invariant:
  assumes step: "\<And>s x s'. x \<in> set xs \<Longrightarrow> P s \<Longrightarrow> f s x = Inr s' \<Longrightarrow> P s'"
    and "P s" and "fold_res f s xs = Inr s'"
  shows "P s'"
  using assms
proof (induction xs arbitrary: s)
  case Nil
  then show ?case by simp
next
  case (Cons x xs)
  then obtain t where t: "f s x = Inr t" and rest: "fold_res f t xs = Inr s'"
    by (auto simp: bind_res_Inr_iff)
  have "P t" using Cons.prems(1)[OF _ Cons.prems(2) t] by simp
  then show ?case using Cons.prems(1) rest by (intro Cons.IH[of t]) auto
qed

section \<open>Dictionaries\<close>

definition lookup_res :: "('k \<times> 'v) list \<Rightarrow> 'k \<Rightarrow> 'v res" where
  "lookup_res d k = (case map_of d k of None \<Rightarrow> Inl KeyError | Some v \<Rightarrow> Inr v)"

definition get_default :: "('k \<times> 'v) list \<Rightarrow> 'k \<Rightarrow> 'v \<Rightarrow> 'v" where
  "get_default d k v = (case map_of d k of None \<Rightarrow> v | Some w \<Rightarrow> w)"

lemma lookup_res_iff [simp]:
  "lookup_res d k = Inr v \<longleftrightarrow> map_of d k = Some v"
  "lookup_res d k = Inl e \<longleftrightarrow> map_of d k = None \<and> e = KeyError"
  by (auto simp: lookup_res_def split: option.splits)

lemma get_default_simps [simp]:
  "map_of d k = None \<Longrightarrow> get_default d k v = v"
  "map_of d k = Some w \<Longrightarrow> get_default d k v = w"
  by (simp_all add: get_default_def)

lemma get_default_update [simp]:
  "get_default (AList.update k w d) k' v = (if k' = k then w else get_default d k' v)"
  by (simp add: get_default_def update_conv)

lemma update_map:
  "distinct (map fst al) \<Longrightarrow> k \<in> set (map fst al) \<Longrightarrow>
    AList.update k v al = map (\<lambda>(k', w). if k' = k then (k', v) else (k', w)) al"
proof (induction al)
  case (Cons a al)
  show ?case
  proof (cases "fst a = k")
    case True
    with Cons.prems have "k \<notin> set (map fst al)" by auto
    then have "map (\<lambda>(k', w). if k' = k then (k', v) else (k', w)) al = al"
      by (induction al) auto
    with True show ?thesis by (cases a) simp
  next
    case False
    with Cons show ?thesis by (cases a) auto
  qed
qed simp

section \<open>Alignment interface\<close>

text \<open>
  The contract of an alignment routine on the domain where it is used: a non-negative value and
  an alignment accepted by \<open>ok\<close>.  Everything the clients need follows from three laws.
\<close>

definition least_aligned :: "int \<Rightarrow> int \<Rightarrow> int \<Rightarrow> bool" where
  "least_aligned a v w \<longleftrightarrow> a dvd w \<and> v \<le> w \<and> (\<forall>u. a dvd u \<longrightarrow> v \<le> u \<longrightarrow> w \<le> u)"

lemma least_aligned_unique: "least_aligned a v w \<Longrightarrow> least_aligned a v w' \<Longrightarrow> w = w'"
  by (meson antisym least_aligned_def)

locale aligner =
  fixes al :: "int \<Rightarrow> int \<Rightarrow> int" and ok :: "int \<Rightarrow> bool"
  assumes ok_pos: "ok a \<Longrightarrow> 0 < a"
    and al_dvd: "ok a \<Longrightarrow> a dvd al v a"
    and al_ge: "ok a \<Longrightarrow> v \<le> al v a"
    and al_lt: "ok a \<Longrightarrow> al v a < v + a"
begin

lemma al_unique:
  assumes "ok a" "a dvd w" "v \<le> w" "w < v + a"
  shows "al v a = w"
proof -
  have "a dvd al v a - w" using assms(1,2) al_dvd dvd_diff by blast
  moreover have "\<bar>al v a - w\<bar> < a"
    using assms al_ge[of a v] al_lt[of a v] by linarith
  ultimately show ?thesis using ok_pos[OF assms(1)] dvd_imp_le_int[of "al v a - w" a] by fastforce
qed

lemma al_closed: "ok a \<Longrightarrow> al v a = (v + a - 1) div a * a"
proof (rule al_unique)
  assume "ok a"
  then have a: "0 < a" by (rule ok_pos)
  have eq: "(v + a - 1) div a * a = v + a - 1 - (v + a - 1) mod a"
    by (simp add: minus_mod_eq_div_mult)
  show "v \<le> (v + a - 1) div a * a" "(v + a - 1) div a * a < v + a"
    using eq a pos_mod_bound[of a "v + a - 1"] pos_mod_sign[of a "v + a - 1"] by linarith+
qed auto

lemma al_id: "ok a \<Longrightarrow> a dvd v \<Longrightarrow> al v a = v"
  using ok_pos by (intro al_unique) auto

lemma al_idem: "ok a \<Longrightarrow> al (al v a) a = al v a"
  by (intro al_id al_dvd)

lemma al_least: "ok a \<Longrightarrow> a dvd w \<Longrightarrow> v \<le> w \<Longrightarrow> al v a \<le> w"
proof (rule ccontr)
  assume "ok a" "a dvd w" "v \<le> w" "\<not> al v a \<le> w"
  then have "a dvd al v a - w" "0 < al v a - w" using al_dvd dvd_diff by auto
  then have "a \<le> al v a - w" using zdvd_imp_le by blast
  then show False using al_lt[OF \<open>ok a\<close>, of v] \<open>v \<le> w\<close> by linarith
qed

lemma al_least_aligned: "ok a \<Longrightarrow> least_aligned a v (al v a)"
  by (simp add: least_aligned_def al_dvd al_ge al_least)

lemma least_aligned_iff: "ok a \<Longrightarrow> least_aligned a v w \<longleftrightarrow> w = al v a"
  using al_least_aligned least_aligned_unique by blast

lemma al_mono: "ok a \<Longrightarrow> v \<le> w \<Longrightarrow> al v a \<le> al w a"
  using al_ge[of a w] by (intro al_least al_dvd) auto

lemma al_add: "ok a \<Longrightarrow> a dvd s \<Longrightarrow> al (s + v) a = s + al v a"
  using al_dvd[of a v] al_ge[of a v] al_lt[of a v] by (intro al_unique) auto

lemma al_nonneg: "ok a \<Longrightarrow> 0 \<le> v \<Longrightarrow> 0 \<le> al v a"
  using al_ge[of a v] by linarith

end

section \<open>Powers of two and masks on Python integers\<close>

lemma int_and_not_mask: "(x::int) AND NOT (mask k) = x div 2 ^ k * 2 ^ k"
proof -
  have "x AND NOT (mask k) = push_bit k (drop_bit k x)"
    by (rule bit_eqI) (auto simp: bit_simps)
  then show ?thesis by (simp add: push_bit_eq_mult drop_bit_eq_div)
qed

lemma and_not_pow2_minus_1: "(x::int) AND NOT (2 ^ k - 1) = x div 2 ^ k * 2 ^ k"
  using int_and_not_mask[of x k] by (simp add: mask_eq_exp_minus_1)

definition is_pow2 :: "int \<Rightarrow> bool" where
  "is_pow2 a \<longleftrightarrow> 0 < a \<and> a AND (a - 1) = 0"

lemma and_pred_even: "(2 * b) AND (2 * b - 1) = 2 * (b AND (b - 1))" for b :: int
proof -
  have "(2 * b - 1) div 2 = b - 1" by presburger
  then show ?thesis by (subst and_rec) simp
qed

lemma and_pred_odd: "(2 * b + 1) AND (2 * b) = 2 * b" for b :: int
  by (subst and_rec) simp

lemma is_pow2_double [simp]: "is_pow2 (2 * b) \<longleftrightarrow> is_pow2 b"
  by (simp add: is_pow2_def and_pred_even)

lemma is_pow2_power [simp]: "is_pow2 (2 ^ k)"
  by (induction k) (auto simp: is_pow2_def[of 1])

lemma is_pow2_ex: "is_pow2 a \<Longrightarrow> \<exists>k. a = 2 ^ k"
proof (induction "nat a" arbitrary: a rule: less_induct)
  case less
  from less.prems have pos: "0 < a" by (simp add: is_pow2_def)
  show ?case
  proof (cases "even a")
    case True
    then obtain b where b: "a = 2 * b" by blast
    with pos less.prems have "0 < b" "is_pow2 b" by auto
    then obtain k where "b = 2 ^ k" using less.hyps[of b] b by auto
    then have "a = 2 ^ Suc k" using b by simp
    then show ?thesis by blast
  next
    case False
    then obtain b where b: "a = 2 * b + 1" by (auto elim: oddE)
    with less.prems have "a = 2 ^ 0" by (simp add: is_pow2_def and_pred_odd)
    then show ?thesis by blast
  qed
qed

lemma is_pow2_iff: "is_pow2 a \<longleftrightarrow> (\<exists>k. a = 2 ^ k)"
  using is_pow2_ex by auto

lemma is_pow2_pos: "is_pow2 a \<Longrightarrow> 0 < a"
  by (simp add: is_pow2_def)

lemma and_not_pred_pow2: "is_pow2 a \<Longrightarrow> (x::int) AND NOT (a - 1) = x div a * a"
  using is_pow2_ex and_not_pow2_minus_1 by blast

section \<open>Selection: min and max with a key\<close>

text \<open>
  Python's \<open>min(xs, key=f)\<close> returns the first minimal element; that is \<open>arg_min_list\<close> of the
  library.  \<open>argmax_list\<close> is the same for \<open>max\<close>.
\<close>

fun argmax_list :: "('a \<Rightarrow> 'b :: linorder) \<Rightarrow> 'a list \<Rightarrow> 'a" where
  "argmax_list f [x] = x"
| "argmax_list f (x # y # zs) = (let m = argmax_list f (y # zs) in if f m \<le> f x then x else m)"

lemma argmax_list_in: "xs \<noteq> [] \<Longrightarrow> argmax_list f xs \<in> set xs"
  by (induction f xs rule: argmax_list.induct) (auto simp: Let_def)

lemma argmax_list_ge: "x \<in> set xs \<Longrightarrow> f x \<le> f (argmax_list f xs)"
  by (induction f xs rule: argmax_list.induct) (auto simp: Let_def intro: order_trans)

lemma arg_min_list_le: "x \<in> set xs \<Longrightarrow> f (arg_min_list f xs) \<le> (f x :: 'b :: linorder)"
  by (induction f xs rule: arg_min_list.induct) (auto simp: Let_def intro: order_trans)

end
