(* ===== verification/Bytes.thy ===== *)
theory Bytes
  imports Prelude
begin

text \<open>
  Byte strings and the part of the \<open>struct\<close> module the scripts use: little-endian packing and
  unpacking of fixed-width integers at an offset, with the errors \<open>struct\<close> raises.  A Python
  \<open>bytes\<close> or \<open>bytearray\<close> value is a list of 8-bit words.  \<open>fromhex\<close> is \<open>bytes.fromhex\<close>.
\<close>

type_synonym bytes = "8 word list"

section \<open>Little-endian integers\<close>

fun le_enc :: "nat \<Rightarrow> int \<Rightarrow> bytes" where
  "le_enc 0 v = []"
| "le_enc (Suc n) v = word_of_int v # le_enc n (v div 256)"

fun le_dec :: "bytes \<Rightarrow> int" where
  "le_dec [] = 0"
| "le_dec (b # bs) = uint b + 256 * le_dec bs"

lemma length_le_enc [simp]: "length (le_enc n v) = n"
  by (induction n arbitrary: v) auto

lemma le_dec_nonneg [simp]: "0 \<le> le_dec bs"
  by (induction bs) auto

lemma uint_byte_less: "uint (b :: 8 word) < 256"
  using uint_lt2p[of b] by simp

lemma le_dec_less: "le_dec bs < 256 ^ length bs"
proof (induction bs)
  case (Cons b bs)
  then have "256 * le_dec bs + 256 \<le> 256 * 256 ^ length bs" by simp
  then show ?case using uint_byte_less[of b] by simp
qed simp

lemma le_dec_enc: "le_dec (le_enc n v) = v mod 256 ^ n"
proof (induction n arbitrary: v)
  case (Suc n)
  have "v mod 256 ^ Suc n = v mod 256 + 256 * (v div 256 mod 256 ^ n)"
    by (simp add: zmod_zmult2_eq)
  then show ?case using Suc by (simp add: uint_word_of_int)
qed simp

lemma le_dec_enc_id: "0 \<le> v \<Longrightarrow> v < 256 ^ n \<Longrightarrow> le_dec (le_enc n v) = v"
  by (simp add: le_dec_enc)

lemma le_enc_dec: "length bs = n \<Longrightarrow> le_enc n (le_dec bs) = bs"
proof (induction bs arbitrary: n)
  case (Cons b bs)
  have b: "0 \<le> uint b" "uint b < 256" using uint_byte_less by auto
  have "uint (word_of_int (uint b + 256 * le_dec bs) :: 8 word) = uint b"
    by (simp only: uint_word_of_int) (use b in simp)
  then have "word_of_int (uint b + 256 * le_dec bs) = b" by (rule word_uint_eqI)
  moreover have "(uint b + 256 * le_dec bs) div 256 = le_dec bs"
    using b by simp
  ultimately show ?case using Cons by auto
qed simp

lemma le_enc_inject:
  "\<lbrakk>le_enc n v = le_enc n w; 0 \<le> v; v < 256 ^ n; 0 \<le> w; w < 256 ^ n\<rbrakk> \<Longrightarrow> v = w"
  by (metis le_dec_enc_id)

lemma le_dec_append: "le_dec (xs @ ys) = le_dec xs + 256 ^ length xs * le_dec ys"
  by (induction xs) (auto simp: algebra_simps)

section \<open>The struct module\<close>

definition pack_le :: "nat \<Rightarrow> int \<Rightarrow> bytes res" where
  "pack_le n v = (if 0 \<le> v \<and> v < 256 ^ n then Inr (le_enc n v) else Inl StructError)"

definition unpack_le :: "nat \<Rightarrow> bytes \<Rightarrow> nat \<Rightarrow> int res" where
  "unpack_le n raw off =
     (if off + n \<le> length raw then Inr (le_dec (take n (drop off raw))) else Inl StructError)"

definition pack_les :: "nat \<Rightarrow> int list \<Rightarrow> bytes res" where
  "pack_les n vs = bind_res (map_res (pack_le n) vs) (\<lambda>bs. Inr (concat bs))"

definition pack_signed :: "nat \<Rightarrow> int \<Rightarrow> bytes res" where
  "pack_signed n v =
     (if - (2 ^ (8 * n - 1)) \<le> v \<and> v < 2 ^ (8 * n - 1) then Inr (le_enc n v) else Inl StructError)"

definition byte_at :: "bytes \<Rightarrow> nat \<Rightarrow> int res" where
  "byte_at raw i = (if i < length raw then Inr (uint (raw ! i)) else Inl IndexError)"

lemma pack_le_Inr [simp]: "pack_le n v = Inr bs \<longleftrightarrow> 0 \<le> v \<and> v < 256 ^ n \<and> bs = le_enc n v"
  by (auto simp: pack_le_def)

lemma pack_unpack:
  assumes "pack_le n v = Inr bs"
  shows "unpack_le n (pre @ bs @ suf) (length pre) = Inr v"
  using assms by (simp add: unpack_le_def le_dec_enc_id)

lemma unpack_le_prefix:
  assumes "off + n \<le> length raw"
  shows "unpack_le n (raw @ suf) off = unpack_le n raw off"
  using assms by (simp add: unpack_le_def)

lemma unpack_le_bounds: "unpack_le n raw off = Inr v \<Longrightarrow> 0 \<le> v \<and> v < 256 ^ n"
  using le_dec_less[of "take n (drop off raw)"]
  by (auto simp: unpack_le_def simp del: take_drop split: if_splits)

section \<open>bytes.fromhex\<close>

definition hex_digit :: "char \<Rightarrow> int option" where
  "hex_digit c = (let n = of_char c :: int in
     if 48 \<le> n \<and> n \<le> 57 then Some (n - 48)
     else if 65 \<le> n \<and> n \<le> 70 then Some (n - 55)
     else if 97 \<le> n \<and> n \<le> 102 then Some (n - 87)
     else None)"

definition is_space :: "char \<Rightarrow> bool" where
  "is_space c = (let n = of_char c :: int in n = 32 \<or> (9 \<le> n \<and> n \<le> 13))"

fun fromhex :: "string \<Rightarrow> bytes res" where
  "fromhex [] = Inr []"
| "fromhex (c # cs) =
     (if is_space c then fromhex cs
      else case cs of [] \<Rightarrow> Inl (ValueError ''fromhex'')
        | d # ds \<Rightarrow> (case (hex_digit c, hex_digit d) of
            (Some h, Some l) \<Rightarrow> bind_res (fromhex ds) (\<lambda>bs. Inr (word_of_int (16 * h + l) # bs))
          | _ \<Rightarrow> Inl (ValueError ''fromhex'')))"

end
