(* ===== verification/Json.thy ===== *)
theory Json
  imports Prelude "HOL-Library.List_Lexorder" "HOL-Library.Char_ord"
begin

text \<open>
  JSON documents as the scripts handle them: the values of \<open>json.loads\<close> and the dictionaries that are
  written by \<open>json.dumps\<close>.  An object keeps insertion order, as a Python dictionary does.  A decimal
  literal \<open>m / 10 ^ e\<close> is \<open>JDec m e\<close>; a float known only by its bit pattern (GGUF metadata) is \<open>JBits\<close>;
  the float quotient of two integers, \<open>p / q\<close>, is \<open>JQuot p q\<close>.
\<close>

datatype json =
    JNull
  | JBool bool
  | JInt int
  | JDec int nat
  | JBits nat int
  | JQuot int int
  | JStr string
  | JArr "json list"
  | JObj "(string \<times> json) list"

section \<open>Access\<close>

text \<open>\<open>d["k"]\<close>, \<open>d.get("k", v)\<close>, \<open>"k" in d\<close>, and the iteration over a list.\<close>

definition jget :: "json \<Rightarrow> string \<Rightarrow> json res" where
  "jget d k = (case d of JObj kvs \<Rightarrow> lookup_res kvs k | _ \<Rightarrow> Inl TypeError)"

definition jget_default :: "json \<Rightarrow> string \<Rightarrow> json \<Rightarrow> json res" where
  "jget_default d k v = (case d of JObj kvs \<Rightarrow> Inr (get_default kvs k v) | _ \<Rightarrow> Inl TypeError)"

definition jhas :: "json \<Rightarrow> string \<Rightarrow> bool res" where
  "jhas d k = (case d of JObj kvs \<Rightarrow> Inr (k \<in> fst ` set kvs) | JArr xs \<Rightarrow> Inr (JStr k \<in> set xs) | _ \<Rightarrow> Inl TypeError)"

fun jpath :: "json \<Rightarrow> string list \<Rightarrow> json res" where
  "jpath d [] = Inr d"
| "jpath d (k # ks) = bind_res (jget d k) (\<lambda>v. jpath v ks)"

definition jlist :: "json \<Rightarrow> json list res" where
  "jlist d = (case d of JArr xs \<Rightarrow> Inr xs | JObj kvs \<Rightarrow> Inr (map (\<lambda>(k, _). JStr k) kvs)
     | JStr s \<Rightarrow> Inr (map (\<lambda>c. JStr [c]) s) | _ \<Rightarrow> Inl TypeError)"

definition jget_list :: "json \<Rightarrow> string \<Rightarrow> json list res" where
  "jget_list d k = bind_res (jget d k) jlist"

definition jstr :: "json \<Rightarrow> string res" where
  "jstr d = (case d of JStr s \<Rightarrow> Inr s | _ \<Rightarrow> Inl TypeError)"

definition jint :: "json \<Rightarrow> int res" where
  "jint d = (case d of JInt n \<Rightarrow> Inr n | JBool b \<Rightarrow> Inr (of_bool b) | _ \<Rightarrow> Inl TypeError)"

definition jget_int :: "json \<Rightarrow> string \<Rightarrow> int res" where
  "jget_int d k = bind_res (jget d k) jint"

definition jget_str :: "json \<Rightarrow> string \<Rightarrow> string res" where
  "jget_str d k = bind_res (jget d k) jstr"

lemmas json_access = jget_def jget_default_def jhas_def jlist_def jget_list_def jstr_def jint_def
  jget_int_def jget_str_def

section \<open>Equality\<close>

text \<open>
  Python's \<open>==\<close>: numbers (a \<open>bool\<close> among them) by value, objects without regard to the order of
  their keys.
\<close>

fun jnum :: "json \<Rightarrow> (int \<times> nat) option" where
  "jnum (JBool b) = Some (of_bool b, 0)"
| "jnum (JInt n) = Some (n, 0)"
| "jnum (JDec m e) = Some (m, e)"
| "jnum _ = None"

definition same_number :: "int \<times> nat \<Rightarrow> int \<times> nat \<Rightarrow> bool" where
  "same_number x y \<longleftrightarrow> fst x * 10 ^ snd y = fst y * 10 ^ snd x"

lemma zip_size [termination_simp]: "(x, y) \<in> set (zip xs ys) \<Longrightarrow> size x < Suc (size_list size xs)"
  by (meson le_imp_less_Suc order_refl set_zip_leftD size_list_estimation')

fun jeq :: "json \<Rightarrow> json \<Rightarrow> bool" where
  "jeq (JArr xs) b = (case b of JArr ys \<Rightarrow> length xs = length ys \<and> (\<forall>(x, y) \<in> set (zip xs ys). jeq x y) | _ \<Rightarrow> False)"
| "jeq (JObj kvs) b = (case b of JObj kws \<Rightarrow> length kvs = length kws \<and>
     (\<forall>(k, v) \<in> set kvs. case map_of kws k of None \<Rightarrow> False | Some w \<Rightarrow> jeq v w) | _ \<Rightarrow> False)"
| "jeq JNull b = (b = JNull)"
| "jeq (JStr s) b = (b = JStr s)"
| "jeq (JBits w n) b = (b = JBits w n)"
| "jeq (JQuot p q) b = (b = JQuot p q)"
| "jeq a b = (case (jnum a, jnum b) of (Some x, Some y) \<Rightarrow> same_number x y | _ \<Rightarrow> False)"

lemma jeq_JInt [simp]: "jeq (JInt m) (JInt n) \<longleftrightarrow> m = n"
  by (simp add: same_number_def)

lemma jeq_JBool [simp]: "jeq (JBool a) (JBool b) \<longleftrightarrow> a = b"
  by (simp add: same_number_def)

lemma same_number_simps [simp]: "same_number x x" "same_number (m, 0) (n, 0) \<longleftrightarrow> m = n"
  by (simp_all add: same_number_def)

text \<open>\<open>distinct_keys\<close> holds of every Python dictionary; on such documents \<open>==\<close> is reflexive.\<close>

fun distinct_keys :: "json \<Rightarrow> bool" where
  "distinct_keys (JArr xs) = (\<forall>x \<in> set xs. distinct_keys x)"
| "distinct_keys (JObj kvs) = (distinct (map fst kvs) \<and> (\<forall>(k, v) \<in> set kvs. distinct_keys v))"
| "distinct_keys _ = True"

lemma zip_same_mem: "(x, y) \<in> set (zip xs xs) \<Longrightarrow> x = y \<and> x \<in> set xs"
  by (induction xs) auto

lemma jeq_refl: "distinct_keys j \<Longrightarrow> jeq j j"
proof (induction j)
  case (JArr xs)
  then show ?case by (auto dest!: zip_same_mem)
next
  case (JObj kvs)
  have "jeq v v" if "(k, v) \<in> set kvs" for k v
    using JObj that by (auto simp: split_beta)
  moreover have "map_of kvs k = Some v" if "(k, v) \<in> set kvs" for k v
    using JObj.prems that by simp
  ultimately show ?case by auto
qed (simp_all add: same_number_def)

text \<open>
  The key under which a value sits in a Python set or dictionary: equal numbers share it, and
  lists and dictionaries have none.
\<close>

fun decimal_key :: "int \<Rightarrow> nat \<Rightarrow> json" where
  "decimal_key m 0 = JInt m"
| "decimal_key m (Suc e) = (if m mod 10 = 0 then decimal_key (m div 10) e else JDec m (Suc e))"

fun hkey :: "json \<Rightarrow> json res" where
  "hkey (JBool b) = Inr (JInt (of_bool b))"
| "hkey (JDec m e) = Inr (decimal_key m e)"
| "hkey (JArr _) = Inl TypeError"
| "hkey (JObj _) = Inl TypeError"
| "hkey v = Inr v"

definition key_set :: "json list \<Rightarrow> json list res" where
  "key_set vs = map_res hkey vs"

definition in_keys :: "json \<Rightarrow> json list \<Rightarrow> bool res" where
  "in_keys v keys = bind_res (hkey v) (\<lambda>k. Inr (k \<in> set keys))"

section \<open>Loops\<close>

text \<open>A loop whose body only raises or falls through, and \<open>next(x for x in xs if p(x))\<close>.\<close>

fun each :: "('a \<Rightarrow> unit res) \<Rightarrow> 'a list \<Rightarrow> unit res" where
  "each f [] = Inr ()"
| "each f (x # xs) = bind_res (f x) (\<lambda>_. each f xs)"

lemma each_Inr: "each f xs = Inr () \<longleftrightarrow> (\<forall>x \<in> set xs. f x = Inr ())"
  by (induction xs) (auto simp: bind_res_Inr_iff)

fun next_res :: "('a \<Rightarrow> bool res) \<Rightarrow> 'a list \<Rightarrow> 'a res" where
  "next_res p [] = Inl StopIteration"
| "next_res p (x # xs) = bind_res (p x) (\<lambda>b. if b then Inr x else next_res p xs)"

section \<open>Rows\<close>

text \<open>A set built from a list has as many elements as the list exactly when the list is distinct.\<close>

definition all_distinct :: "'a list \<Rightarrow> bool" where
  "all_distinct xs \<longleftrightarrow> length (remdups xs) = length xs"

lemma all_distinct_iff [simp]: "all_distinct xs \<longleftrightarrow> distinct xs"
  by (metis all_distinct_def length_remdups_eq distinct_remdups remdups_id_iff_distinct)

definition opt_json :: "int option \<Rightarrow> json" where
  "opt_json x = (case x of None \<Rightarrow> JNull | Some n \<Rightarrow> JInt n)"

text \<open>\<open>p / q if q else None\<close>.\<close>

definition quot_json :: "int \<Rightarrow> int \<Rightarrow> json" where
  "quot_json p q = (if q = 0 then JNull else JQuot p q)"

definition int_list :: "int list \<Rightarrow> json" where
  "int_list xs = JArr (map JInt xs)"

definition str_list :: "string list \<Rightarrow> json" where
  "str_list xs = JArr (map JStr xs)"

lemma jget_JObj [simp]: "jget (JObj kvs) k = lookup_res kvs k"
  by (simp add: jget_def)

lemma jlist_JArr [simp]: "jlist (JArr xs) = Inr xs"
  by (simp add: jlist_def)

lemma jlist_str_list [simp]: "jlist (str_list xs) = Inr (map JStr xs)"
  by (simp add: str_list_def)

lemma lookup_res_Cons [simp]: "lookup_res ((k, v) # kvs) k' = (if k = k' then Inr v else lookup_res kvs k')"
  by (simp add: lookup_res_def)

end
