(* ===== verification/Gguf.thy ===== *)
theory Gguf
  imports Bytes Json "HOL-Library.Product_Lexorder" "HOL-Library.List_Lexorder" "HOL-Library.Char_ord" "HOL-Library.Option_ord"
begin

text \<open>
  The GGUF reader of \<open>scripts/qualify_step16.py\<close>: the type tables, the checked arithmetic, the
  \<open>Reader\<close> class, \<open>tensor_size\<close>, \<open>classify\<close> and \<open>parse\<close>.

  A decoded string is represented by its UTF-8 bytes as characters, so that comparison of strings
  (by code point) is comparison of their bytes; \<open>lower\<close> and \<open>\d\<close> are those of ASCII.  A float of the
  metadata is kept as its bit pattern.  \<open>int()\<close> of a float or string metadata value is the
  parameter \<open>coerce\<close>, and \<open>hashlib.sha256\<close> the parameter \<open>sha\<close>.  Python's recursion limit is not
  modelled: the nesting of metadata arrays has fuel, one unit per level.
\<close>

section \<open>Tables and checked arithmetic\<close>

definition TYPES :: "(int \<times> string \<times> int \<times> int) list" where
  "TYPES = [
     (0, ''F32'', 1, 4), (1, ''F16'', 1, 2), (2, ''Q4_0'', 32, 18), (3, ''Q4_1'', 32, 20),
     (4, ''Q4_2'', 32, 18), (5, ''Q4_3'', 32, 20), (6, ''Q5_0'', 32, 22), (7, ''Q5_1'', 32, 24),
     (8, ''Q8_0'', 32, 34), (9, ''Q8_1'', 32, 36), (10, ''Q2_K'', 256, 84), (11, ''Q3_K'', 256, 110),
     (12, ''Q4_K'', 256, 144), (13, ''Q5_K'', 256, 176), (14, ''Q6_K'', 256, 210),
     (15, ''Q8_K'', 256, 292), (16, ''IQ2_XXS'', 256, 66), (17, ''IQ2_XS'', 256, 74),
     (18, ''IQ3_XXS'', 256, 98), (19, ''IQ1_S'', 256, 50), (20, ''IQ4_NL'', 32, 18),
     (21, ''IQ3_S'', 256, 110), (22, ''IQ2_S'', 256, 82), (23, ''IQ4_XS'', 256, 136),
     (24, ''I8'', 1, 1), (25, ''I16'', 1, 2), (26, ''I32'', 1, 4), (27, ''I64'', 1, 8),
     (28, ''F64'', 1, 8), (29, ''IQ1_M'', 256, 56), (30, ''BF16'', 1, 2)]"

datatype scalar_kind = Unsigned | Signed | Float | Boolean

definition META_TYPES :: "(int \<times> scalar_kind \<times> nat) list" where
  "META_TYPES = [(0, Unsigned, 1), (1, Signed, 1), (2, Unsigned, 2), (3, Signed, 2), (4, Unsigned, 4),
     (5, Signed, 4), (6, Float, 4), (7, Boolean, 1), (10, Unsigned, 8), (11, Signed, 8), (12, Float, 8)]"

definition checked_add16 :: "int \<Rightarrow> int \<Rightarrow> int res" where
  "checked_add16 a b = (let value = a + b in
     if value < a \<or> value > push_bit 64 1 - 1 then Inl (ValueError ''u64 addition overflow'') else Inr value)"

definition checked_mul16 :: "int \<Rightarrow> int \<Rightarrow> int res" where
  "checked_mul16 a b = (let value = a * b in
     if value < 0 \<or> value > push_bit 64 1 - 1 then Inl (ValueError ''u64 multiplication overflow'') else Inr value)"

definition align_up16 :: "int \<Rightarrow> int \<Rightarrow> int res" where
  "align_up16 value alignment =
     (if alignment \<le> 0 \<or> alignment AND (alignment - 1) \<noteq> 0
      then Inl (ValueError ''alignment is not a positive power of two'')
      else Inr ((value + alignment - 1) div alignment * alignment))"

section \<open>The reader\<close>

text \<open>A \<open>Reader\<close> is the rest of the stream and the position.\<close>

type_synonym reader = "bytes \<times> int"
type_synonym 'a parser = "reader \<Rightarrow> ('a \<times> reader) res"

definition rbind :: "'a parser \<Rightarrow> ('a \<Rightarrow> 'b parser) \<Rightarrow> 'b parser" where
  "rbind p f r = bind_res (p r) (\<lambda>(x, r'). f x r')"

definition rreturn :: "'a \<Rightarrow> 'a parser" where
  "rreturn x r = Inr (x, r)"

definition rlift :: "'a res \<Rightarrow> 'a parser" where
  "rlift v r = bind_res v (\<lambda>x. Inr (x, r))"

fun rtimes :: "nat \<Rightarrow> 'a parser \<Rightarrow> 'a list parser" where
  "rtimes 0 p = rreturn []"
| "rtimes (Suc n) p = rbind p (\<lambda>x. rbind (rtimes n p) (\<lambda>xs. rreturn (x # xs)))"

definition rd_read :: "nat \<Rightarrow> bytes parser" where
  "rd_read count r = (case r of (stream, pos) \<Rightarrow>
     if length stream < count then Inl (ValueError ''truncated GGUF'')
     else Inr (take count stream, (drop count stream, pos + int count)))"

definition rd_unsigned :: "nat \<Rightarrow> int parser" where
  "rd_unsigned n = rbind (rd_read n) (\<lambda>b. rreturn (le_dec b))"

definition to_signed :: "nat \<Rightarrow> int \<Rightarrow> int" where
  "to_signed n v = (if v < 2 ^ (8 * n - 1) then v else v - 2 ^ (8 * n))"

fun utf8_valid :: "int list \<Rightarrow> bool" where
  "utf8_valid [] = True"
| "utf8_valid (a # bs) = (if a < 0x80 then utf8_valid bs else
     (case bs of
        b # cs \<Rightarrow>
          if 0xC2 \<le> a \<and> a \<le> 0xDF \<and> 0x80 \<le> b \<and> b \<le> 0xBF then utf8_valid cs else
          (case cs of
             c # ds \<Rightarrow>
               if 0x80 \<le> c \<and> c \<le> 0xBF \<and>
                  (a = 0xE0 \<and> 0xA0 \<le> b \<and> b \<le> 0xBF \<or> a = 0xED \<and> 0x80 \<le> b \<and> b \<le> 0x9F \<or>
                   0xE1 \<le> a \<and> a \<le> 0xEF \<and> a \<noteq> 0xED \<and> 0x80 \<le> b \<and> b \<le> 0xBF) then utf8_valid ds else
               (case ds of
                  d # es \<Rightarrow>
                    if 0x80 \<le> c \<and> c \<le> 0xBF \<and> 0x80 \<le> d \<and> d \<le> 0xBF \<and>
                       (a = 0xF0 \<and> 0x90 \<le> b \<and> b \<le> 0xBF \<or> a = 0xF4 \<and> 0x80 \<le> b \<and> b \<le> 0x8F \<or>
                        0xF1 \<le> a \<and> a \<le> 0xF3 \<and> 0x80 \<le> b \<and> b \<le> 0xBF) then utf8_valid es else False
                | [] \<Rightarrow> False)
           | [] \<Rightarrow> False)
      | [] \<Rightarrow> False))"

definition decode_utf8 :: "bytes \<Rightarrow> string res" where
  "decode_utf8 raw = (if utf8_valid (map uint raw) then Inr (map (\<lambda>b. char_of (uint b)) raw) else Inl UnicodeError)"

definition rd_string :: "string parser" where
  "rd_string = rbind (rd_unsigned 8) (\<lambda>n. rbind (rd_read (nat n)) (\<lambda>raw. rlift (decode_utf8 raw)))"

datatype meta_value = MInt int | MFloat nat int | MBool bool | MStr string | MArr "meta_value list"

definition scalar_of :: "scalar_kind \<Rightarrow> nat \<Rightarrow> int \<Rightarrow> meta_value" where
  "scalar_of k n v = (case k of Unsigned \<Rightarrow> MInt v | Signed \<Rightarrow> MInt (to_signed n v) | Float \<Rightarrow> MFloat n v
     | Boolean \<Rightarrow> MBool (v \<noteq> 0))"

text \<open>\<open>Reader.value\<close>; the fuel bounds the nesting of arrays.\<close>

fun rd_value :: "nat \<Rightarrow> int \<Rightarrow> meta_value parser" where
  "rd_value 0 value_type = rlift (Inl (RuntimeError ''nesting''))"
| "rd_value (Suc fuel) value_type =
     (case map_of META_TYPES value_type of
        Some (k, n) \<Rightarrow> rbind (rd_unsigned n) (\<lambda>v. rreturn (scalar_of k n v))
      | None \<Rightarrow>
          if value_type = 8 then rbind rd_string (\<lambda>s. rreturn (MStr s))
          else if value_type = 9 then
            rbind (rd_unsigned 4) (\<lambda>element_type. rbind (rd_unsigned 8) (\<lambda>count.
            if count > 10000000 then rlift (Inl (ValueError ''metadata array is unreasonably large''))
            else rbind (rtimes (nat count) (rd_value fuel element_type)) (\<lambda>vs. rreturn (MArr vs))))
          else rlift (Inl (ValueError ''unsupported GGUF metadata type'')))"

section \<open>Tensors\<close>

record tensor =
  tn_ordinal :: int
  tn_name :: string
  tn_shape :: "int list"
  tn_type_id :: int
  tn_type_name :: string
  tn_elements :: "int option"
  tn_payload_size :: "int option"
  tn_relative_offset :: int
  tn_absolute_start :: int
  tn_absolute_end :: "int option"
  tn_layer :: "int option"
  tn_role :: string
  tn_group :: string
  tn_role_detail :: string
  tn_gap_before :: "int option"

record artifact =
  ar_sha256 :: string
  ar_size :: int
  ar_version :: int
  ar_tensor_count :: int
  ar_metadata_count :: int
  ar_metadata :: "(string \<times> meta_value) list"
  ar_alignment :: int
  ar_data_start :: int
  ar_tensors :: "tensor list"
  ar_tensor_info_end :: int

definition tensor_size :: "int list \<Rightarrow> int \<Rightarrow> (int \<times> int option) res" where
  "tensor_size dims type_id =
     bind_res (fold_res checked_mul16 1 dims) (\<lambda>elements.
     case map_of TYPES type_id of
       None \<Rightarrow> Inr (elements, None)
     | Some (_, block, bytes_per_block) \<Rightarrow>
         if block = 1 then bind_res (checked_mul16 elements bytes_per_block) (\<lambda>n. Inr (elements, Some n))
         else if elements mod block \<noteq> 0 then Inr (elements, None)
         else bind_res (checked_mul16 (elements div block) bytes_per_block) (\<lambda>n. Inr (elements, Some n)))"

text \<open>
  The search for \<open>(?:^|\.)(?:blk|block|layers?|h)\.(\d+)(?:\.|$)\<close>: the digits and what follows the
  match.
\<close>

definition is_digit :: "char \<Rightarrow> bool" where
  "is_digit c \<longleftrightarrow> (48 :: int) \<le> of_char c \<and> of_char c \<le> (57 :: int)"

fun strip_prefix :: "string \<Rightarrow> string \<Rightarrow> string option" where
  "strip_prefix [] s = Some s"
| "strip_prefix (p # ps) [] = None"
| "strip_prefix (p # ps) (c # cs) = (if p = c then strip_prefix ps cs else None)"

definition layer_digits :: "string \<Rightarrow> (string \<times> string) option" where
  "layer_digits s = (case s of c # cs \<Rightarrow>
       (let ds = takeWhile is_digit cs; rest = dropWhile is_digit cs in
        if c \<noteq> CHR ''.'' \<or> ds = [] then None
        else (case rest of [] \<Rightarrow> Some (ds, []) | r # rs \<Rightarrow>
          if r = CHR ''.'' then Some (ds, rs) else if rest = [char_of (10 :: int)] then Some (ds, rest) else None))
     | [] \<Rightarrow> None)"

fun first_some :: "('a \<Rightarrow> 'b option) \<Rightarrow> 'a list \<Rightarrow> 'b option" where
  "first_some f [] = None"
| "first_some f (x # xs) = (case f x of None \<Rightarrow> first_some f xs | Some y \<Rightarrow> Some y)"

definition layer_keyword :: "string \<Rightarrow> (string \<times> string) option" where
  "layer_keyword s = first_some (\<lambda>k. Option.bind (strip_prefix k s) layer_digits)
     [''blk'', ''block'', ''layers'', ''layer'', ''h'']"

fun layer_search :: "bool \<Rightarrow> string \<Rightarrow> (string \<times> string) option" where
  "layer_search at_start s = (case (if at_start then layer_keyword s else None) of Some m \<Rightarrow> Some m
     | None \<Rightarrow> (case s of [] \<Rightarrow> None
        | c # cs \<Rightarrow> (case (if c = CHR ''.'' then layer_keyword cs else None) of Some m \<Rightarrow> Some m
            | None \<Rightarrow> layer_search False cs)))"

definition decimal :: "string \<Rightarrow> int" where
  "decimal ds = fold (\<lambda>c n. 10 * n + (of_char c - 48)) ds 0"

definition lower :: "string \<Rightarrow> string" where
  "lower s = map (\<lambda>c. if (65 :: int) \<le> of_char c \<and> of_char c \<le> (90 :: int) then char_of (of_char c + 32 :: int) else c) s"

fun contains :: "string \<Rightarrow> string \<Rightarrow> bool" where
  "contains t [] = (t = [])"
| "contains t (c # cs) = (strip_prefix t (c # cs) \<noteq> None \<or> contains t cs)"

definition any_token :: "string list \<Rightarrow> string \<Rightarrow> bool" where
  "any_token tokens s = list_ex (\<lambda>t. contains t s) tokens"

definition ends_with :: "string \<Rightarrow> string \<Rightarrow> bool" where
  "ends_with suffix s \<longleftrightarrow> strip_prefix (rev suffix) (rev s) \<noteq> None"

definition classify :: "tensor \<Rightarrow> tensor" where
  "classify t = (let name = tn_name t in
     case layer_search True name of
       Some (digits, detail) \<Rightarrow>
         t\<lparr>tn_layer := Some (decimal digits), tn_group := ''Layer'', tn_role_detail := detail,
           tn_role := (if detail \<noteq> [] then detail else ''Unknown'')\<rparr>
     | None \<Rightarrow> (let lo = lower name;
         (group, role) =
           (if any_token [''token_embd'', ''tok_embeddings'', ''embed_tokens'', ''wte''] lo then (''GlobalPre'', ''TokenEmbedding'')
            else if any_token [''output_norm'', ''final_norm'', ''ln_f''] lo then (''GlobalPost'', ''FinalNorm'')
            else if lo = ''output'' \<or> strip_prefix ''output.'' lo \<noteq> None \<or> ends_with ''.output'' lo \<or> contains ''lm_head'' lo
              then (''GlobalPost'', ''OutputProjection'')
            else if any_token [''rope'', ''freqs'', ''attn_scale''] lo then (''GlobalPre'', ''OtherGlobal'')
            else (''Unknown'', ''Unknown'')) in
         t\<lparr>tn_group := group, tn_role := role, tn_role_detail := name\<rparr>))"

section \<open>parse\<close>

definition rd_meta_entry :: "nat \<Rightarrow> (string \<times> meta_value) parser" where
  "rd_meta_entry fuel = rbind rd_string (\<lambda>key. rbind (rd_unsigned 4) (\<lambda>value_type.
     rbind (rd_value fuel value_type) (\<lambda>v. rreturn (key, v))))"

fun show_nat_digits :: "nat \<Rightarrow> string" where
  "show_nat_digits n = (if n < 10 then [char_of (n + 48)] else show_nat_digits (n div 10) @ [char_of (n mod 10 + 48)])"

definition type_name_of :: "int \<Rightarrow> string" where
  "type_name_of type_id = (case map_of TYPES type_id of Some (name, _, _) \<Rightarrow> name
     | None \<Rightarrow> ''UNKNOWN_'' @ show_nat_digits (nat type_id))"

definition rd_tensor :: "int \<Rightarrow> tensor parser" where
  "rd_tensor ordinal = rbind rd_string (\<lambda>name. rbind (rd_unsigned 4) (\<lambda>rank.
     rbind (rtimes (nat rank) (rd_unsigned 8)) (\<lambda>dims. rbind (rd_unsigned 4) (\<lambda>type_id.
     rbind (rd_unsigned 8) (\<lambda>relative_offset. rbind (rlift (tensor_size dims type_id)) (\<lambda>(elements, payload_size).
     rreturn \<lparr>tn_ordinal = ordinal, tn_name = name, tn_shape = dims, tn_type_id = type_id,
       tn_type_name = type_name_of type_id, tn_elements = Some elements, tn_payload_size = payload_size,
       tn_relative_offset = relative_offset, tn_absolute_start = 0, tn_absolute_end = None, tn_layer = None,
       tn_role = ''Unknown'', tn_group = ''Unknown'', tn_role_detail = '''', tn_gap_before = None\<rparr>))))))"

fun rd_tensors :: "int \<Rightarrow> nat \<Rightarrow> tensor list parser" where
  "rd_tensors ordinal 0 = rreturn []"
| "rd_tensors ordinal (Suc n) = rbind (rd_tensor ordinal) (\<lambda>t. rbind (rd_tensors (ordinal + 1) n) (\<lambda>ts. rreturn (t # ts)))"

definition place_tensor :: "int \<Rightarrow> tensor \<Rightarrow> tensor res" where
  "place_tensor data_start t =
     bind_res (checked_add16 data_start (tn_relative_offset t)) (\<lambda>start.
     bind_res (case tn_payload_size t of None \<Rightarrow> Inr None
               | Some n \<Rightarrow> bind_res (checked_add16 start n) (\<lambda>e. Inr (Some e))) (\<lambda>stop.
     Inr (classify (t\<lparr>tn_absolute_start := start, tn_absolute_end := stop\<rparr>))))"

text \<open>The loop over \<open>ordered\<close>: gaps by ordinal, written back to the tensors of the artifact.\<close>

fun gaps :: "int \<Rightarrow> tensor list \<Rightarrow> (int \<times> int) list" where
  "gaps previous_end [] = []"
| "gaps previous_end (t # ts) = (tn_ordinal t, tn_absolute_start t - previous_end) #
     gaps (case tn_absolute_end t of None \<Rightarrow> previous_end | Some e \<Rightarrow> max previous_end e) ts"

definition source_order :: "tensor list \<Rightarrow> tensor list" where
  "source_order ts = sort_key (\<lambda>t. (tn_absolute_start t, tn_ordinal t)) ts"

definition set_gaps :: "int \<Rightarrow> tensor list \<Rightarrow> tensor list" where
  "set_gaps data_start ts = (let g = gaps data_start (source_order ts) in
     map (\<lambda>t. t\<lparr>tn_gap_before := map_of g (tn_ordinal t)\<rparr>) ts)"

definition meta_int :: "(meta_value \<Rightarrow> int res) \<Rightarrow> meta_value \<Rightarrow> int res" where
  "meta_int coerce v = (case v of MInt n \<Rightarrow> Inr n | MBool b \<Rightarrow> Inr (of_bool b) | MArr _ \<Rightarrow> Inl TypeError | _ \<Rightarrow> coerce v)"

definition rd_header :: "nat \<Rightarrow> (int \<times> int \<times> int \<times> (string \<times> meta_value) list \<times> tensor list) parser" where
  "rd_header fuel = rbind (rd_read 4) (\<lambda>magic.
     if magic \<noteq> [0x47, 0x47, 0x55, 0x46] then rlift (Inl (ValueError ''invalid GGUF magic'')) else
     rbind (rd_unsigned 4) (\<lambda>version.
     if \<not> (version = 2 \<or> version = 3) then rlift (Inl (ValueError ''unsupported GGUF version'')) else
     rbind (rd_unsigned 8) (\<lambda>tensor_count. rbind (rd_unsigned 8) (\<lambda>metadata_count.
     rbind (rtimes (nat metadata_count) (rd_meta_entry fuel)) (\<lambda>entries.
     rbind (rd_tensors 0 (nat tensor_count)) (\<lambda>tensors.
     rreturn (version, tensor_count, metadata_count, entries, tensors)))))))"

definition parse_gguf :: "(bytes \<Rightarrow> string) \<Rightarrow> (meta_value \<Rightarrow> int res) \<Rightarrow> bytes \<Rightarrow> artifact res" where
  "parse_gguf sha coerce file =
     bind_res (rd_header (length file) (file, 0))
     (\<lambda>((version, tensor_count, metadata_count, entries, tensors), (rest, tensor_info_end)).
     let metadata = fold (\<lambda>(k, v) d. AList.update k v d) entries [] in
     bind_res (case map_of metadata ''general.alignment'' of None \<Rightarrow> Inr 32 | Some v \<Rightarrow> meta_int coerce v) (\<lambda>alignment.
     bind_res (align_up16 tensor_info_end alignment) (\<lambda>data_start.
     bind_res (map_res (place_tensor data_start) tensors) (\<lambda>placed.
     Inr \<lparr>ar_sha256 = sha file, ar_size = int (length file), ar_version = version, ar_tensor_count = tensor_count,
          ar_metadata_count = metadata_count, ar_metadata = metadata, ar_alignment = alignment,
          ar_data_start = data_start, ar_tensors = set_gaps data_start placed,
          ar_tensor_info_end = tensor_info_end\<rparr>))))"

text \<open>\<open>layer_count\<close> and \<open>metadata_number\<close>; a Python \<open>bool\<close> is an \<open>int\<close> for the first.\<close>

definition layer_count :: "artifact \<Rightarrow> int option" where
  "layer_count a = (let
     values = concat (map (\<lambda>k. case map_of (ar_metadata a) k of Some (MInt n) \<Rightarrow> [n] | Some (MBool b) \<Rightarrow> [of_bool b] | _ \<Rightarrow> [])
       [''qwen3.block_count'', ''llama.block_count'', ''block_count'']);
     layers = concat (map (\<lambda>t. case tn_layer t of None \<Rightarrow> [] | Some l \<Rightarrow> [l]) (ar_tensors a)) in
     if values \<noteq> [] then Some (hd values)
     else if layers \<noteq> [] then Some (fold max (tl layers) (hd layers) + 1) else None)"

fun metadata_number :: "(meta_value \<Rightarrow> int res) \<Rightarrow> artifact \<Rightarrow> string list \<Rightarrow> int option res" where
  "metadata_number coerce a [] = Inr None"
| "metadata_number coerce a (k # ks) = (case map_of (ar_metadata a) k of
       Some (MInt n) \<Rightarrow> Inr (Some n)
     | Some (MFloat n bits) \<Rightarrow> bind_res (coerce (MFloat n bits)) (\<lambda>v. Inr (Some v))
     | _ \<Rightarrow> metadata_number coerce a ks)"

text \<open>A metadata value as a JSON value; a float is carried by its bit pattern.\<close>

fun meta_json :: "meta_value \<Rightarrow> json" where
  "meta_json (MInt n) = JInt n"
| "meta_json (MFloat w n) = JBits w n"
| "meta_json (MBool b) = JBool b"
| "meta_json (MStr s) = JStr s"
| "meta_json (MArr vs) = JArr (map meta_json vs)"

definition starts_with :: "string \<Rightarrow> string \<Rightarrow> bool" where
  "starts_with p s \<longleftrightarrow> strip_prefix p s \<noteq> None"

text \<open>\<open>str\<close> of an integer and of a metadata value; floats and lists are rendered by the parameter.\<close>

definition show_int :: "int \<Rightarrow> string" where
  "show_int n = (if n < 0 then CHR ''-'' # show_nat_digits (nat (- n)) else show_nat_digits (nat n))"

definition py_str :: "(meta_value \<Rightarrow> string) \<Rightarrow> meta_value \<Rightarrow> string" where
  "py_str render v = (case v of MStr s \<Rightarrow> s | MInt n \<Rightarrow> show_int n | MBool b \<Rightarrow> if b then ''True'' else ''False''
     | _ \<Rightarrow> render v)"

lemma rbind_Inr: "rbind p f r = Inr z \<longleftrightarrow> (\<exists>x r'. p r = Inr (x, r') \<and> f x r' = Inr z)"
  by (auto simp: rbind_def bind_res_Inr_iff)

end
