(* ===== verification/Text.thy ===== *)
theory Text
  imports Gguf
begin

text \<open>
  Text as the scripts read it: \<open>int\<close> of a string, \<open>str.split\<close> with a limit, \<open>str.splitlines\<close>, and the
  regular expressions of the log readers (literals, greedy runs of a character class, an optional
  sign), matched by backtracking from the longest run down and searched from the left, as \<open>re\<close> does.
  Texts are ASCII: the white space, digits and line breaks that Unicode adds are left out.
\<close>

section \<open>Integers\<close>

definition py_space :: "char \<Rightarrow> bool" where
  "py_space c \<longleftrightarrow> (let n = of_char c :: int in 9 \<le> n \<and> n \<le> 13 \<or> 28 \<le> n \<and> n \<le> 32)"

definition strip :: "string \<Rightarrow> string" where
  "strip s = rev (dropWhile py_space (rev (dropWhile py_space s)))"

fun digits :: "int \<Rightarrow> bool \<Rightarrow> string \<Rightarrow> int option" where
  "digits acc ok [] = (if ok then Some acc else None)"
| "digits acc ok (c # cs) = (if is_digit c then digits (10 * acc + (of_char c - 48)) True cs
     else if c = CHR ''_'' \<and> ok then digits acc False cs else None)"

definition parse_int :: "string \<Rightarrow> int res" where
  "parse_int s = (let r = (case strip s of [] \<Rightarrow> None
       | c # cs \<Rightarrow> if c = CHR ''-'' then map_option uminus (digits 0 False cs)
           else if c = CHR ''+'' then digits 0 False cs else digits 0 False (c # cs)) in
     case r of None \<Rightarrow> Inl (ValueError ''invalid literal for int()'') | Some n \<Rightarrow> Inr n)"

section \<open>Splitting\<close>

fun split_once :: "char \<Rightarrow> string \<Rightarrow> (string \<times> string) option" where
  "split_once sep [] = None"
| "split_once sep (c # cs) = (if c = sep then Some ([], cs) else map_option (\<lambda>(a, b). (c # a, b)) (split_once sep cs))"

fun split_on :: "char \<Rightarrow> string \<Rightarrow> string list" where
  "split_on sep [] = [[]]"
| "split_on sep (c # cs) = (if c = sep then [] # split_on sep cs
     else case split_on sep cs of [] \<Rightarrow> [[c]] | w # ws \<Rightarrow> (c # w) # ws)"

definition line_break :: "char \<Rightarrow> bool" where
  "line_break c \<longleftrightarrow> (let n = of_char c :: int in 10 \<le> n \<and> n \<le> 13 \<or> 28 \<le> n \<and> n \<le> 30)"

text \<open>The flag says that the last character was a carriage return, whose line feed belongs to it.\<close>

fun split_lines :: "bool \<Rightarrow> string \<Rightarrow> string \<Rightarrow> string list" where
  "split_lines cr acc [] = (if acc = [] then [] else [rev acc])"
| "split_lines cr acc (c # cs) = (if cr \<and> of_char c = (10 :: int) then split_lines False [] cs
     else if line_break c then rev acc # split_lines (of_char c = (13 :: int)) [] cs
     else split_lines False (c # acc) cs)"

definition splitlines :: "string \<Rightarrow> string list" where
  "splitlines s = split_lines False [] s"

section \<open>Containment\<close>

text \<open>\<open>p in s\<close> for strings.\<close>

fun is_infix :: "string \<Rightarrow> string \<Rightarrow> bool" where
  "is_infix p [] \<longleftrightarrow> p = []"
| "is_infix p (c # cs) \<longleftrightarrow> take (length p) (c # cs) = p \<or> is_infix p cs"

lemma is_infix_iff: "is_infix p s \<longleftrightarrow> (\<exists>a b. s = a @ p @ b)"
proof (induction s)
  case (Cons c s)
  have "(\<exists>a b. c # s = a @ p @ b) \<longleftrightarrow> (\<exists>b. c # s = p @ b) \<or> (\<exists>a b. s = a @ p @ b)"
    by (metis append_Cons append_Nil list.exhaust list.sel(3))
  moreover have "(\<exists>b. c # s = p @ b) \<longleftrightarrow> take (length p) (c # s) = p"
    by (metis append_eq_conv_conj append_take_drop_id)
  ultimately show ?case using Cons.IH by simp
qed simp

section \<open>Patterns\<close>

datatype atom = Run "char \<Rightarrow> bool" nat | Maybe char
datatype pat = Lit string | Grp "atom list" | Skip "char \<Rightarrow> bool"

definition run_prefixes :: "(char \<Rightarrow> bool) \<Rightarrow> nat \<Rightarrow> string \<Rightarrow> (string \<times> string) list" where
  "run_prefixes P least s = map (\<lambda>k. (take k s, drop k s)) (rev [least..<Suc (length (takeWhile P s))])"

fun atom_prefixes :: "atom list \<Rightarrow> string \<Rightarrow> (string \<times> string) list" where
  "atom_prefixes [] s = [([], s)]"
| "atom_prefixes (Run P least # as) s =
     concat (map (\<lambda>(t, r). map (\<lambda>(u, q). (t @ u, q)) (atom_prefixes as r)) (run_prefixes P least s))"
| "atom_prefixes (Maybe c # as) s =
     concat (map (\<lambda>(t, r). map (\<lambda>(u, q). (t @ u, q)) (atom_prefixes as r))
       ((case s of d # ds \<Rightarrow> if d = c then [([c], ds)] else [] | [] \<Rightarrow> []) @ [([], s)]))"

fun match_here :: "pat list \<Rightarrow> string \<Rightarrow> string list option" where
  "match_here [] s = Some []"
| "match_here (Lit l # ps) s = Option.bind (strip_prefix l s) (match_here ps)"
| "match_here (Grp as # ps) s = first_some (\<lambda>(t, r). map_option (\<lambda>gs. t # gs) (match_here ps r)) (atom_prefixes as s)"
| "match_here (Skip P # ps) s = first_some (\<lambda>(t, r). match_here ps r) (run_prefixes P 0 s)"

fun search :: "pat list \<Rightarrow> string \<Rightarrow> string list option" where
  "search ps [] = match_here ps []"
| "search ps (c # cs) = (case match_here ps (c # cs) of Some gs \<Rightarrow> Some gs | None \<Rightarrow> search ps cs)"

definition non_space :: "char \<Rightarrow> bool" where "non_space c \<longleftrightarrow> \<not> py_space c"
definition not_newline :: "char \<Rightarrow> bool" where "not_newline c \<longleftrightarrow> of_char c \<noteq> (10 :: int)"

definition number :: pat where "number = Grp [Run is_digit 1]"
definition signed :: pat where "signed = Grp [Maybe (CHR ''-''), Run is_digit 1]"
definition word_pat :: pat where "word_pat = Grp [Run non_space 1]"
definition word0_pat :: pat where "word0_pat = Grp [Run non_space 0]"

section \<open>Reading back what was printed\<close>

lemma digit_of: "n < 10 \<Longrightarrow> is_digit (char_of (n + 48 :: nat)) \<and> of_char (char_of (n + 48 :: nat)) - 48 = (int n :: int)"
proof -
  assume "n < 10"
  then have "of_char (char_of (n + 48 :: nat)) = (n + 48 :: nat)" by simp
  then have "of_char (char_of (n + 48 :: nat)) = (int n + 48 :: int)"
    by (metis of_nat_add of_nat_numeral of_nat_of_char)
  then show ?thesis using \<open>n < 10\<close> by (simp add: is_digit_def)
qed

lemma digits_append: "list_all is_digit s \<Longrightarrow> s \<noteq> [] \<Longrightarrow> digits acc ok (s @ t) = digits (the (digits acc ok s)) True t"
proof (induction s arbitrary: acc ok)
  case (Cons c s)
  then show ?case by (cases "s = []") auto
qed simp

lemma digits_total: "list_all is_digit s \<Longrightarrow> s \<noteq> [] \<Longrightarrow> \<exists>n. digits acc ok s = Some n"
proof (induction s arbitrary: acc ok)
  case (Cons c s)
  then show ?case by (cases "s = []") auto
qed simp

lemma show_nat_digits: "list_all is_digit (show_nat_digits n) \<and> show_nat_digits n \<noteq> [] \<and>
    digits 0 ok (show_nat_digits n) = Some (int n)"
proof (induction n arbitrary: ok rule: show_nat_digits.induct)
  case (1 n)
  show ?case
  proof (cases "n < 10")
    case True
    then show ?thesis using digit_of[of n] by simp
  next
    case False
    let ?d = "char_of (n mod 10 + 48) :: char"
    have d: "is_digit ?d" "of_char ?d - 48 = (int (n mod 10) :: int)" using digit_of[of "n mod 10"] by simp_all
    note IH = "1.IH"[OF False]
    have "digits 0 ok (show_nat_digits (n div 10) @ [?d]) = digits (int (n div 10)) True [?d]"
      using IH[of ok] digits_append[of "show_nat_digits (n div 10)" 0 ok "[?d]"] by simp
    also have "\<dots> = Some (10 * int (n div 10) + int (n mod 10))" using d by simp
    also have "10 * int (n div 10) + int (n mod 10) = int n"
      by (metis mult_div_mod_eq of_nat_add of_nat_mult of_nat_numeral)
    finally have v: "digits 0 ok (show_nat_digits (n div 10) @ [?d]) = Some (int n)" .
    have e: "show_nat_digits n = show_nat_digits (n div 10) @ [?d]" using False by (subst show_nat_digits.simps) simp
    show ?thesis unfolding e using IH[of ok] d(1) v by simp
  qed
qed

declare show_nat_digits.simps [simp del]

lemma show_nat_is_digits: "list_all is_digit (show_nat_digits n)" "show_nat_digits n \<noteq> []"
    "digits 0 False (show_nat_digits n) = Some (int n)"
  using show_nat_digits[of n False] by simp_all

lemma digit_not_space: "is_digit c \<Longrightarrow> \<not> py_space c"
  by (auto simp: is_digit_def py_space_def Let_def)

lemma strip_id: "list_all (\<lambda>c. \<not> py_space c) s \<Longrightarrow> strip s = s"
proof -
  assume "list_all (\<lambda>c. \<not> py_space c) s"
  then have "dropWhile py_space t = t" if "set t = set s" for t
    using that by (cases t) (auto simp: list_all_iff)
  then show ?thesis by (simp add: strip_def)
qed

lemma show_int_chars: "list_all (\<lambda>c. is_digit c \<or> c = CHR ''-'') (show_int n) \<and> show_int n \<noteq> []"
proof -
  have "list_all (\<lambda>c. is_digit c \<or> c = CHR ''-'') (show_nat_digits k)" for k
    using show_nat_is_digits(1)[of k] by (simp add: list_all_iff)
  then show ?thesis by (simp add: show_int_def show_nat_is_digits(2))
qed

lemma minus_not_digit: "\<not> is_digit (CHR ''-'')" "\<not> is_digit (CHR ''+'')" "\<not> py_space (CHR ''-'')"
  by (simp_all add: is_digit_def py_space_def)

lemma parse_show_int: "parse_int (show_int n) = Inr n"
proof -
  have "list_all (\<lambda>c. \<not> py_space c) (show_int n)"
  proof (rule list.pred_mono_strong)
    show "list_all (\<lambda>c. is_digit c \<or> c = CHR ''-'') (show_int n)" using show_int_chars by blast
    show "\<not> py_space c" if "is_digit c \<or> c = CHR ''-''" for c
      using that digit_not_space minus_not_digit(3) by metis
  qed
  then have s: "strip (show_int n) = show_int n" by (rule strip_id)
  show ?thesis
  proof (cases "n < 0")
    case True
    then show ?thesis using s by (simp add: parse_int_def show_int_def show_nat_is_digits(3))
  next
    case False
    obtain c cs where c: "show_nat_digits (nat n) = c # cs" by (metis show_nat_is_digits(2) list.exhaust)
    then have "is_digit c" using show_nat_is_digits(1)[of "nat n"] by simp
    then have "c \<noteq> CHR ''-''" "c \<noteq> CHR ''+''" using minus_not_digit by metis+
    then show ?thesis using s False c show_nat_is_digits(3)[of "nat n"] by (simp add: parse_int_def show_int_def)
  qed
qed

lemma run_first: "list_all P t \<Longrightarrow> rest = [] \<or> \<not> P (hd rest) \<Longrightarrow> takeWhile P (t @ rest) = t"
  by (cases rest) (auto simp: list_all_iff takeWhile_append)

lemma match_run:
  assumes "list_all P t" "least \<le> length t" "rest = [] \<or> \<not> P (hd rest)" "match_here ps rest = Some gs"
  shows "match_here (Grp [Run P least] # ps) (t @ rest) = Some (t # gs)"
proof -
  have "run_prefixes P least (t @ rest) = (t, rest) # map (\<lambda>k. (take k (t @ rest), drop k (t @ rest))) (rev [least..<length t])"
    using assms(2) run_first[OF assms(1,3)] by (simp add: run_prefixes_def)
  then show ?thesis using assms(4) by simp
qed

lemma strip_prefix_append: "strip_prefix l (l @ s) = Some s"
  by (induction l) auto

lemma match_lit: "match_here ps s = Some gs \<Longrightarrow> match_here (Lit l # ps) (l @ s) = Some gs"
  by (simp add: strip_prefix_append)

lemma search_here: "match_here ps s = Some gs \<Longrightarrow> search ps s = Some gs"
  by (cases s) auto

end
