(* ===== verification/Bench_Trace.thy ===== *)
theory Bench_Trace
  imports Text Json "HOL-Library.Product_Lexorder"
begin

text \<open>
  The trace analysis of \<open>scripts/rv2_bench_analyze.py\<close>: \<open>trace\<close> with its EVENT and REPACK records, the
  bracketing of phases (\<open>pair\<close>, \<open>last_pair\<close>), the wall time covered by overlapping repack intervals
  (\<open>interval_union\<close>), the maxima over the CPU samples (\<open>sample_stats\<close>) and the phase rows and repack
  summary of \<open>main\<close>.  Reading \<open>run.json\<close> and the backend's log (\<open>log_stats\<close>) and writing CSV are left out.
\<close>

record bench_event =
  be_name :: string
  be_us :: int
  be_detail :: string

record repack =
  rk_tensor :: string
  rk_source_type :: string
  rk_destination :: string
  rk_source_bytes :: int
  rk_destination_bytes :: int
  rk_start_us :: int
  rk_end_us :: int
  rk_duration_us :: int

definition field_at :: "string list \<Rightarrow> nat \<Rightarrow> string res" where
  "field_at columns i = (if i < length columns then Inr (columns ! i) else Inl IndexError)"

definition int_at :: "string list \<Rightarrow> nat \<Rightarrow> int res" where
  "int_at columns i = bind_res (field_at columns i) parse_int"

definition repack_of :: "string list \<Rightarrow> repack res" where
  "repack_of columns =
     bind_res (field_at columns 1) (\<lambda>tensor. bind_res (field_at columns 2) (\<lambda>source_type. bind_res (field_at columns 3) (\<lambda>destination.
     bind_res (map_res (int_at columns) [4, 5, 6, 7, 8]) (\<lambda>n.
     Inr \<lparr>rk_tensor = tensor, rk_source_type = source_type, rk_destination = destination, rk_source_bytes = n ! 0,
       rk_destination_bytes = n ! 1, rk_start_us = n ! 2, rk_end_us = n ! 3, rk_duration_us = n ! 4\<rparr>))))"

definition event_of_fields :: "string list \<Rightarrow> bench_event res" where
  "event_of_fields columns = bind_res (field_at columns 1) (\<lambda>name. bind_res (int_at columns 2) (\<lambda>us.
     Inr \<lparr>be_name = name, be_us = us, be_detail = (if length columns > 5 then columns ! 5 else '''')\<rparr>))"

definition trace_step :: "bench_event list \<times> repack list \<Rightarrow> string \<Rightarrow> (bench_event list \<times> repack list) res" where
  "trace_step acc line = (case acc of (events, repacks) \<Rightarrow> (let columns = split_on (CHR '','') line in
     if hd columns = ''EVENT'' then bind_res (event_of_fields columns) (\<lambda>e. Inr (events @ [e], repacks))
     else if hd columns = ''REPACK'' then bind_res (repack_of columns) (\<lambda>r. Inr (events, repacks @ [r]))
     else Inr acc))"

definition trace :: "string \<Rightarrow> (bench_event list \<times> repack list) res" where
  "trace content = fold_res trace_step ([], []) (splitlines content)"

section \<open>Phases\<close>

definition has_detail :: "string option \<Rightarrow> bench_event \<Rightarrow> bool" where
  "has_detail detail x \<longleftrightarrow> (case detail of None \<Rightarrow> True | Some d \<Rightarrow> be_detail x = d)"

fun first_pair :: "(bench_event \<Rightarrow> bool) \<Rightarrow> bench_event list \<Rightarrow> bench_event list \<Rightarrow> (int \<times> int) option" where
  "first_pair is_end events [] = None"
| "first_pair is_end events (start # starts) =
     (case filter (\<lambda>x. is_end x \<and> be_us x \<ge> be_us start) events of
        [] \<Rightarrow> first_pair is_end events starts | e # _ \<Rightarrow> Some (be_us start, be_us e))"

definition pair :: "bench_event list \<Rightarrow> string \<Rightarrow> string \<Rightarrow> string option \<Rightarrow> (int \<times> int) option" where
  "pair events start_name finish detail =
     first_pair (\<lambda>x. be_name x = finish \<and> has_detail detail x) events
       (filter (\<lambda>x. be_name x = start_name \<and> has_detail detail x) events)"

definition last_pair :: "bench_event list \<Rightarrow> string \<Rightarrow> string \<Rightarrow> (int \<times> int) option" where
  "last_pair events start_name finish =
     first_pair (\<lambda>x. be_name x = finish) events (rev (filter (\<lambda>x. be_name x = start_name) events))"

definition or_else :: "'a option \<Rightarrow> 'a option \<Rightarrow> 'a option" where
  "or_else a b = (case a of None \<Rightarrow> b | Some _ \<Rightarrow> a)"

definition phases :: "bench_event list \<Rightarrow> (string \<times> (int \<times> int) option) list" where
  "phases events = (let p = (\<lambda>a b. pair events a b None) in
    [(''format_open'', p ''FORMAT_OPEN_BEGIN'' ''FORMAT_OPEN_END''),
     (''metadata'', or_else (pair events ''MODEL_METADATA_BEGIN'' ''MODEL_METADATA_END'' (Some ''vbuf''))
        (p ''MODEL_METADATA_BEGIN'' ''MODEL_METADATA_END'')),
     (''tokenizer'', last_pair events ''TOKENIZER_BEGIN'' ''TOKENIZER_END''),
     (''tensor_enumeration'', pair events ''TENSOR_ENUMERATION_BEGIN'' ''TENSOR_ENUMERATION_END'' (Some ''runtime'')),
     (''model_structure_construction'', p ''MODEL_OPEN_BEGIN'' ''MODEL_STRUCTURE_READY''),
     (''backend_allocation'', p ''BACKEND_BUFFER_ALLOCATION_BEGIN'' ''BACKEND_BUFFER_ALLOCATION_END''),
     (''payload_materialization'', p ''PAYLOAD_MATERIALIZATION_BEGIN'' ''PAYLOAD_MATERIALIZATION_END''),
     (''graph_reserve'', p ''GRAPH_RESERVE_BEGIN'' ''GRAPH_RESERVE_END''),
     (''context_create'', p ''CONTEXT_CREATE_BEGIN'' ''CONTEXT_CREATE_END''),
     (''execution_ready_total'', p ''PROCESS_START'' ''EXECUTION_READY''),
     (''prompt_eval'', p ''PROMPT_EVAL_BEGIN'' ''PROMPT_EVAL_END''),
     (''first_decode'', p ''FIRST_DECODE_BEGIN'' ''FIRST_DECODE_END''),
     (''first_token'', p ''FIRST_TOKEN'' ''FIRST_TOKEN''),
     (''total_run'', p ''PROCESS_START'' ''RUN_END'')])"

record phase_row =
  ph_run :: string
  ph_kind :: string
  ph_regime :: string
  ph_phase :: string
  ph_bounds :: "(int \<times> int) option"
  ph_duration_us :: int
  ph_classification :: string

definition regime :: "string \<Rightarrow> string" where
  "regime name = (if is_infix ''warm'' name then ''warm'' else ''cold'')"

definition duration :: "(int \<times> int) option \<Rightarrow> int" where
  "duration bounds = (case bounds of None \<Rightarrow> 0 | Some (s, e) \<Rightarrow> e - s)"

text \<open>A start is looked up first (\<open>next\<close> without default), so a trace without PROCESS_START raises.\<close>

definition phase_rows :: "string \<Rightarrow> string \<Rightarrow> bench_event list \<Rightarrow> phase_row list res" where
  "phase_rows name kind events =
     bind_res (case find (\<lambda>x. be_name x = ''PROCESS_START'') events of None \<Rightarrow> Inl StopIteration | Some x \<Rightarrow> Inr (be_us x)) (\<lambda>_.
     Inr (map (\<lambda>(phase, bounds). \<lparr>ph_run = name, ph_kind = kind, ph_regime = regime name, ph_phase = phase, ph_bounds = bounds,
       ph_duration_us = duration bounds, ph_classification = (if bounds \<noteq> None then ''MEASURED'' else ''NOT_REQUIRED'')\<rparr>) (phases events)))"

section \<open>Repacking\<close>

definition union_step :: "int \<times> int \<Rightarrow> int \<times> (int \<times> int) option \<Rightarrow> int \<times> (int \<times> int) option" where
  "union_step p acc = (case p of (start, stop) \<Rightarrow> (case acc of
       (t, None) \<Rightarrow> (t, Some (start, stop))
     | (t, Some (current_start, current_end)) \<Rightarrow>
         if start > current_end then (t + (current_end - current_start), Some (start, stop))
         else (t, Some (current_start, max current_end stop))))"

definition close_union :: "int \<times> (int \<times> int) option \<Rightarrow> int" where
  "close_union acc = (case acc of (t, None) \<Rightarrow> t | (t, Some (s, e)) \<Rightarrow> t + (e - s))"

definition interval_union :: "repack list \<Rightarrow> int" where
  "interval_union repacks = close_union (fold union_step (sort (map (\<lambda>x. (rk_start_us x, rk_end_us x)) repacks)) (0, None))"

record repack_summary =
  rs_tensors :: int
  rs_wall_us :: int
  rs_cpu_sum_us :: int
  rs_source :: int
  rs_destination :: int
  rs_throughput :: json

text \<open>The throughput, \<open>bytes / cpu * 1e6 / 1024**3\<close>, is the quotient of its exact numerator and denominator.\<close>

definition repack_summary_of :: "repack list \<Rightarrow> repack_summary" where
  "repack_summary_of repacks = (let cpu = (\<Sum>x\<leftarrow>repacks. rk_duration_us x); n = (\<Sum>x\<leftarrow>repacks. rk_source_bytes x) in
     \<lparr>rs_tensors = int (length repacks), rs_wall_us = interval_union repacks, rs_cpu_sum_us = cpu, rs_source = n,
      rs_destination = (\<Sum>x\<leftarrow>repacks. rk_destination_bytes x),
      rs_throughput = (if cpu \<noteq> 0 then JQuot (n * 10 ^ 6) (cpu * 1024 ^ 3) else JInt 0)\<rparr>)"

section \<open>What the union measures\<close>

fun union_of :: "int \<times> (int \<times> int) option \<Rightarrow> int set \<Rightarrow> bool" where
  "union_of (t, None) A \<longleftrightarrow> t = 0 \<and> A = {}"
| "union_of (t, Some (s, e)) A \<longleftrightarrow> s \<le> e \<and> (\<exists>B. finite B \<and> int (card B) = t \<and> (\<forall>x \<in> B. x < s) \<and> A = B \<union> {s..<e})"

lemma card_below: "finite B \<Longrightarrow> \<forall>x \<in> B. x < s \<Longrightarrow> card (B \<union> {s..<e :: int}) = card B + card {s..<e}"
  by (rule card_Un_disjoint) auto

lemma union_of_close: "union_of acc A \<Longrightarrow> close_union acc = int (card A)"
proof (cases acc)
  case (Pair t c)
  assume u: "union_of acc A"
  show ?thesis
  proof (cases c)
    case None
    then show ?thesis using u Pair by (simp add: close_union_def)
  next
    case (Some se)
    obtain s e where se: "se = (s, e)" by (cases se)
    then obtain B where B: "s \<le> e" "finite B" "int (card B) = t" "\<forall>x \<in> B. x < s" "A = B \<union> {s..<e}"
      using u Pair Some by auto
    then have "card A = card B + card {s..<e}" using card_below[of B s e] by simp
    then show ?thesis using B Pair Some se by (simp add: close_union_def)
  qed
qed

lemma union_of_step:
  assumes "union_of acc A" "a \<le> b" "case acc of (_, None) \<Rightarrow> True | (_, Some (s, _)) \<Rightarrow> s \<le> a"
  shows "union_of (union_step (a, b) acc) (A \<union> {a..<b})"
proof (cases acc)
  case (Pair t c)
  show ?thesis
  proof (cases c)
    case None
    then show ?thesis using assms Pair by (auto simp: union_step_def intro!: exI[of _ "{}"])
  next
    case (Some se)
    obtain s e where se: "se = (s, e)" by (cases se)
    then obtain B where B: "s \<le> e" "finite B" "int (card B) = t" "\<forall>x \<in> B. x < s" "A = B \<union> {s..<e}"
      using assms(1) Pair Some by auto
    have sa: "s \<le> a" using assms(3) Pair Some se by simp
    show ?thesis
    proof (cases "a > e")
      case True
      have "card (B \<union> {s..<e}) = card B + card {s..<e}" using card_below[of B s e] B by simp
      then have "int (card (B \<union> {s..<e})) = t + (e - s)" using B by simp
      then show ?thesis using True B assms(2) Pair Some se
        by (auto simp: union_step_def intro!: exI[of _ "B \<union> {s..<e}"])
    next
      case False
      then have "{s..<e} \<union> {a..<b} = {s..<max e b}" using sa assms(2) by auto
      then have "A \<union> {a..<b} = B \<union> {s..<max e b}" using B by auto
      then show ?thesis using False B Pair Some se by (auto simp: union_step_def intro!: exI[of _ B])
    qed
  qed
qed

lemma union_fold:
  assumes "sorted (map fst ps)" "\<forall>p \<in> set ps. fst p \<le> snd p" "union_of acc A"
    and "case acc of (_, None) \<Rightarrow> True | (_, Some (s, _)) \<Rightarrow> \<forall>p \<in> set ps. s \<le> fst p"
  shows "union_of (fold union_step ps acc) (A \<union> (\<Union>p \<in> set ps. {fst p..<snd p}))"
  using assms
proof (induction ps arbitrary: acc A)
  case (Cons p ps)
  obtain a b where p: "p = (a, b)" by (cases p)
  have "union_of (union_step p acc) (A \<union> {a..<b})"
    unfolding p using Cons.prems p by (intro union_of_step) (auto split: prod.splits option.splits)
  moreover have "case union_step p acc of (_, None) \<Rightarrow> True | (_, Some (s, _)) \<Rightarrow> \<forall>q \<in> set ps. s \<le> fst q"
    using Cons.prems p by (auto simp: union_step_def split: prod.splits option.splits)
  ultimately have "union_of (fold union_step ps (union_step p acc)) ((A \<union> {a..<b}) \<union> (\<Union>p \<in> set ps. {fst p..<snd p}))"
    using Cons.prems by (intro Cons.IH) auto
  then show ?case using p by (simp add: Un_assoc)
qed simp

lemma sorted_fst: "sorted (ps :: (int \<times> int) list) \<Longrightarrow> sorted (map fst ps)"
  by (induction ps) (auto simp: less_eq_prod_def)

text \<open>
  The repack wall time is the measure of the union of the repack intervals: the number of microseconds
  covered by at least one of them, however they overlap and in whatever order they were logged.
\<close>

theorem interval_union_exact:
  assumes "list_all (\<lambda>x. rk_start_us x \<le> rk_end_us x) repacks"
  shows "interval_union repacks = int (card (\<Union>x \<in> set repacks. {rk_start_us x..<rk_end_us x}))"
proof -
  let ?ps = "sort (map (\<lambda>x. (rk_start_us x, rk_end_us x)) repacks)"
  have "\<forall>p \<in> set ?ps. fst p \<le> snd p" using assms by (auto simp: list_all_iff)
  then have "union_of (fold union_step ?ps (0, None)) ({} \<union> (\<Union>p \<in> set ?ps. {fst p..<snd p}))"
    by (intro union_fold sorted_fst) simp_all
  then show ?thesis using union_of_close by (simp add: interval_union_def)
qed

definition sample_repack :: "int \<Rightarrow> int \<Rightarrow> repack" where
  "sample_repack s e = \<lparr>rk_tensor = ''t'', rk_source_type = ''q8_0'', rk_destination = ''q8_0_8x8'', rk_source_bytes = 34,
     rk_destination_bytes = 34, rk_start_us = s, rk_end_us = e, rk_duration_us = e - s\<rparr>"

theorem interval_union_exact_witness:
  "interval_union [sample_repack 10 20, sample_repack 0 12, sample_repack 30 31] =
    int (card (\<Union>x \<in> set [sample_repack 10 20, sample_repack 0 12, sample_repack 30 31]. {rk_start_us x..<rk_end_us x})) \<and>
   interval_union [sample_repack 10 20, sample_repack 0 12, sample_repack 30 31] = 21"
  using interval_union_exact[of "[sample_repack 10 20, sample_repack 0 12, sample_repack 30 31]"]
  by (simp add: sample_repack_def interval_union_def union_step_def close_union_def)

section \<open>Phase bounds\<close>

lemma first_pair_sound: "first_pair is_end events starts = Some (s, t) \<Longrightarrow>
    s \<le> t \<and> (\<exists>x \<in> set starts. be_us x = s) \<and> (\<exists>x \<in> set events. is_end x \<and> be_us x = t)"
  by (induction starts) (auto split: list.splits simp: filter_eq_Cons_iff)

lemma first_pair_none: "first_pair is_end events starts = None \<longleftrightarrow>
    (\<forall>x \<in> set starts. \<forall>y \<in> set events. \<not> (is_end y \<and> be_us x \<le> be_us y))"
proof (induction starts)
  case (Cons x starts)
  then show ?case by (cases "filter (\<lambda>y. is_end y \<and> be_us y \<ge> be_us x) events") (auto simp: filter_empty_conv filter_eq_Cons_iff)
qed simp

text \<open>
  The phase brackets are sound and complete: a phase gets bounds exactly when some event that begins it
  is followed in time by one that ends it, with the details asked for; the bounds are the times of such
  events, so a phase row never has a negative duration, and it is marked MEASURED exactly when it has bounds.
\<close>

theorem phase_brackets:
  "(pair events start_name finish detail = None \<longleftrightarrow>
     \<not> list_ex (\<lambda>x. be_name x = start_name \<and> has_detail detail x \<and>
       list_ex (\<lambda>y. be_name y = finish \<and> has_detail detail y \<and> be_us x \<le> be_us y) events) events) \<and>
   0 \<le> duration (pair events start_name finish detail) \<and> 0 \<le> duration (last_pair events start_name finish) \<and>
   (last_pair events start_name finish = None \<longleftrightarrow> pair events start_name finish None = None)"
proof -
  have n: "pair events start_name finish detail = None \<longleftrightarrow>
     \<not> list_ex (\<lambda>x. be_name x = start_name \<and> has_detail detail x \<and>
       list_ex (\<lambda>y. be_name y = finish \<and> has_detail detail y \<and> be_us x \<le> be_us y) events) events"
    unfolding pair_def first_pair_none list_ex_iff by auto
  have d: "0 \<le> duration (first_pair p events starts)" for p starts
    using first_pair_sound[of p events starts] by (auto simp: duration_def split: option.splits)
  have l: "last_pair events start_name finish = None \<longleftrightarrow> pair events start_name finish None = None"
    unfolding last_pair_def pair_def first_pair_none by (auto simp: has_detail_def)
  show ?thesis using n l d unfolding pair_def last_pair_def by blast
qed

end
