(* ===== verification/Block_Formats.thy ===== *)
theory Block_Formats
  imports Bytes
begin

text \<open>
  The decoders of quantised blocks of \<open>scripts/qualify_ccc_structured_baseline.py\<close>: \<open>Q8_0\<close>, \<open>Q4_0\<close>, \<open>Q2_K\<close> and
  \<open>Q3_K\<close>.  A payload is a byte list; the scales and codes are taken from it as the script takes them, with the
  \<open>numpy\<close> widths written out.  The float32 values and their product and difference are the parameter \<open>f32\<close>,
  so a decoded weight is exactly the expression the script computes.
\<close>

record 'f f32 =
  f_half :: "16 word \<Rightarrow> 'f"
  f_int :: "int \<Rightarrow> 'f"
  f_mul :: "'f \<Rightarrow> 'f \<Rightarrow> 'f"
  f_sub :: "'f \<Rightarrow> 'f \<Rightarrow> 'f"

section \<open>Blocks\<close>

text \<open>Weights per block, bytes per block, type id of the container and bits of a code.\<close>

definition Q8_0 :: "nat \<times> nat \<times> int \<times> nat" where "Q8_0 = (32, 34, 8, 8)"
definition Q4_0 :: "nat \<times> nat \<times> int \<times> nat" where "Q4_0 = (32, 18, 2, 4)"
definition Q2_K :: "nat \<times> nat \<times> int \<times> nat" where "Q2_K = (256, 84, 10, 2)"
definition Q3_K :: "nat \<times> nat \<times> int \<times> nat" where "Q3_K = (256, 110, 11, 3)"

text \<open>\<open>np.frombuffer(payload, np.uint8).reshape(blocks, size)\<close>\<close>

definition block_rows :: "nat \<Rightarrow> nat \<Rightarrow> bytes \<Rightarrow> bytes list res" where
  "block_rows blocks size' payload = bind_res (require (length payload = blocks * size') (ValueError ''cannot reshape array'')) (\<lambda>_.
     Inr (map (\<lambda>i. take size' (drop (i * size') payload)) [0..<blocks]))"

definition half_at :: "bytes \<Rightarrow> nat \<Rightarrow> 16 word" where
  "half_at b i = ucast (b ! i) OR push_bit 8 (ucast (b ! (i + 1)))"

definition q8_0_block :: "'f f32 \<Rightarrow> bytes \<Rightarrow> 'f list" where
  "q8_0_block f b = map (\<lambda>i. f_mul f (f_int f (sint (b ! (2 + i)))) (f_half f (half_at b 0))) [0..<32]"

definition dequant_q8_0 :: "'f f32 \<Rightarrow> bytes \<Rightarrow> nat \<Rightarrow> 'f list res" where
  "dequant_q8_0 f payload n = bind_res (block_rows (n div fst Q8_0) (fst (snd Q8_0)) payload) (\<lambda>rows. Inr (concat (map (q8_0_block f) rows)))"

definition q4_0_block :: "'f f32 \<Rightarrow> bytes \<Rightarrow> 'f list" where
  "q4_0_block f b = (let d = f_half f (half_at b 0) in
     map (\<lambda>i. f_mul f (f_sub f (f_int f (uint (b ! (2 + i) AND 0x0F))) (f_int f 8)) d) [0..<16] @
     map (\<lambda>i. f_mul f (f_sub f (f_int f (uint (drop_bit 4 (b ! (2 + i))))) (f_int f 8)) d) [0..<16])"

definition dequant_q4_0 :: "'f f32 \<Rightarrow> bytes \<Rightarrow> nat \<Rightarrow> 'f list res" where
  "dequant_q4_0 f payload n = bind_res (block_rows (n div fst Q4_0) (fst (snd Q4_0)) payload) (\<lambda>rows. Inr (concat (map (q4_0_block f) rows)))"

text \<open>The loops over \<open>c\<close> and \<open>j\<close> write the columns of a block from left to right; \<open>h\<close> is the half of the 32 columns.\<close>

definition q2_K_block :: "'f f32 \<Rightarrow> bytes \<Rightarrow> 'f list" where
  "q2_K_block f b = (let d = f_half f (half_at b 80); dmin = f_half f (half_at b 82) in
     concat (map (\<lambda>c. concat (map (\<lambda>j. concat (map (\<lambda>h.
       let sc = b ! (c * 8 + 2 * j + h); dl = f_mul f d (f_int f (uint (sc AND 0x0F))); ml = f_mul f dmin (f_int f (uint (drop_bit 4 sc))) in
       map (\<lambda>k. f_sub f (f_mul f dl (f_int f (uint (drop_bit (2 * j) (b ! (16 + c * 32 + h * 16 + k)) AND 3)))) ml) [0..<16])
     [0..<2])) [0..<4])) [0..<2]))"

definition dequant_q2_K :: "'f f32 \<Rightarrow> bytes \<Rightarrow> nat \<Rightarrow> 'f list res" where
  "dequant_q2_K f payload n = bind_res (block_rows (n div fst Q2_K) (fst (snd Q2_K)) payload) (\<lambda>rows. Inr (concat (map (q2_K_block f) rows)))"

text \<open>The sixteen 6-bit scales of a \<open>Q3_K\<close> block, four at a time in a 32-bit word.\<close>

definition le_u4 :: "bytes \<Rightarrow> nat \<Rightarrow> 32 word" where
  "le_u4 b i = ucast (b ! i) OR push_bit 8 (ucast (b ! (i + 1))) OR push_bit 16 (ucast (b ! (i + 2))) OR push_bit 24 (ucast (b ! (i + 3)))"

definition byte_of :: "32 word \<Rightarrow> nat \<Rightarrow> 8 word" where
  "byte_of w k = ucast (drop_bit (8 * k) w)"

definition q3_K_scales :: "bytes \<Rightarrow> 8 word list" where
  "q3_K_scales b = (let aux0 = le_u4 b 96; aux1 = le_u4 b 100; tmp = le_u4 b 104;
     a0 = (aux0 AND 0x0F0F0F0F) OR push_bit 4 (drop_bit 0 tmp AND 0x03030303);
     a1 = (aux1 AND 0x0F0F0F0F) OR push_bit 4 (drop_bit 2 tmp AND 0x03030303);
     a2 = (drop_bit 4 aux0 AND 0x0F0F0F0F) OR push_bit 4 (drop_bit 4 tmp AND 0x03030303);
     a3 = (drop_bit 4 aux1 AND 0x0F0F0F0F) OR push_bit 4 (drop_bit 6 tmp AND 0x03030303) in
     concat (map (\<lambda>a. map (byte_of a) [0..<4]) [a0, a1, a2, a3]))"

definition q3_K_block :: "'f f32 \<Rightarrow> bytes \<Rightarrow> 'f list" where
  "q3_K_block f b = (let d = f_half f (half_at b 108); u = q3_K_scales b in
     concat (map (\<lambda>c. concat (map (\<lambda>j. concat (map (\<lambda>h.
       let dl = f_mul f d (f_sub f (f_int f (sint (u ! (c * 8 + 2 * j + h)))) (f_int f 32)) in
       map (\<lambda>k. f_mul f dl (f_sub f (f_int f (uint (drop_bit (2 * j) (b ! (32 + c * 32 + h * 16 + k)) AND 3)))
         (f_int f (if b ! (h * 16 + k) AND push_bit (c * 4 + j) 1 \<noteq> 0 then 0 else 4)))) [0..<16])
     [0..<2])) [0..<4])) [0..<2]))"

definition dequant_q3_K :: "'f f32 \<Rightarrow> bytes \<Rightarrow> nat \<Rightarrow> 'f list res" where
  "dequant_q3_K f payload n = bind_res (block_rows (n div fst Q3_K) (fst (snd Q3_K)) payload) (\<lambda>rows. Inr (concat (map (q3_K_block f) rows)))"

definition dequant_payload :: "'f f32 \<Rightarrow> int \<Rightarrow> bytes \<Rightarrow> nat \<Rightarrow> 'f list res" where
  "dequant_payload f type_id payload n =
     bind_res (lookup_res [(8, dequant_q8_0 f), (2, dequant_q4_0 f), (10, dequant_q2_K f), (11, dequant_q3_K f)] type_id)
       (\<lambda>decoder. decoder payload n)"

section \<open>Positions\<close>

lemma concat_upt: "concat (map (\<lambda>i. map (f i) [0..<n]) [0..<m]) = map (\<lambda>p. f (p div n) (p mod n)) [0..<m * n]"
proof (cases "n = 0")
  case False
  show ?thesis
  proof (induction m)
    case (Suc m)
    have "[0..<Suc m * n] = [0..<m * n] @ map (\<lambda>k. m * n + k) [0..<n]"
      by (rule nth_equalityI) (simp_all add: nth_append)
    then show ?case using Suc False by simp
  qed simp
qed simp

lemma mod_div: "p mod (a * b) div a = p div a mod (b :: nat)"
  by (cases "a = 0") (simp_all add: mod_mult2_eq)

text \<open>The columns of a block in one list: column \<open>p\<close> is \<open>c * 128 + j * 32 + h * 16 + k\<close>.\<close>

lemma columns: "concat (map (\<lambda>c. concat (map (\<lambda>j. concat (map (\<lambda>h. map (\<lambda>k. f c j h k) [0..<16]) [0..<2])) [0..<4])) [0..<2]) =
    map (\<lambda>p. f (p div 128) (p div 32 mod 4) (p div 16 mod 2) (p mod 16)) [0..<256]"
proof -
  have "concat (map (\<lambda>h. map (\<lambda>k. f c j h k) [0..<16]) [0..<2]) = map (\<lambda>r. f c j (r div 16) (r mod 16)) [0..<32]" for c j
    using concat_upt [of "\<lambda>h k. f c j h k" 16 2] by simp
  moreover have "concat (map (\<lambda>j. map (\<lambda>r. f c j (r div 16) (r mod 16)) [0..<32]) [0..<4]) =
      map (\<lambda>r. f c (r div 32) (r mod 32 div 16) (r mod 32 mod 16)) [0..<128]" for c
    using concat_upt [of "\<lambda>j r. f c j (r div 16) (r mod 16)" 32 4] by simp
  moreover have "concat (map (\<lambda>c. map (\<lambda>r. f c (r div 32) (r mod 32 div 16) (r mod 32 mod 16)) [0..<128]) [0..<2]) =
      map (\<lambda>p. f (p div 128) (p mod 128 div 32) (p mod 128 mod 32 div 16) (p mod 128 mod 32 mod 16)) [0..<256]"
    using concat_upt [of "\<lambda>c r. f c (r div 32) (r mod 32 div 16) (r mod 32 mod 16)" 128 2] by simp
  moreover have "p mod 128 div 32 = p div 32 mod 4" "p mod 32 div 16 = p div 16 mod 2" for p :: nat
    using mod_div [of p 32 4] mod_div [of p 16 2] by simp_all
  moreover have "p mod 128 mod 32 = p mod 32" "p mod 32 mod 16 = p mod 16" for p :: nat by (simp_all add: mod_mod_cancel)
  ultimately show ?thesis by (simp only: cong: map_cong)
qed

section \<open>The packed scales\<close>

lemma bit_byte_of: "k < 4 \<Longrightarrow> n < 8 \<Longrightarrow> bit (byte_of w k) n \<longleftrightarrow> bit w (8 * k + n)"
  by (auto simp: byte_of_def bit_ucast_iff bit_drop_bit_eq dest: bit_imp_le_length)

lemma byte_eqI: "(\<And>n. n < 8 \<Longrightarrow> bit v n \<longleftrightarrow> bit w n) \<Longrightarrow> v = (w :: 8 word)"
  by (rule bit_word_eqI) simp

lemma byte_of_and: "k < 4 \<Longrightarrow> byte_of (x AND y) k = byte_of x k AND byte_of y k"
  by (rule byte_eqI) (simp add: bit_byte_of bit_and_iff)

lemma byte_of_or: "k < 4 \<Longrightarrow> byte_of (x OR y) k = byte_of x k OR byte_of y k"
  by (rule byte_eqI) (simp add: bit_byte_of bit_or_iff)

lemma byte_of_masks:
  assumes "k < 4"
  shows "byte_of 0x0F0F0F0F k = 0x0F" "byte_of 0x03030303 k = 3"
proof -
  have "\<forall>k \<in> set [0..<4]. byte_of 0x0F0F0F0F k = 0x0F \<and> byte_of 0x03030303 k = 3" by code_simp
  then show "byte_of 0x0F0F0F0F k = 0x0F" "byte_of 0x03030303 k = 3" using assms by simp_all
qed

lemma low_masks: "0x0F = (mask 4 :: 8 word)" "3 = (mask 2 :: 8 word)"
  by (simp_all add: mask_eq_exp_minus_1)

text \<open>A shift moves bits between the bytes, but none that the mask keeps.\<close>

lemma masked_shift:
  assumes "k < 4" "s + m \<le> 8"
  shows "byte_of (drop_bit s w) k AND mask m = drop_bit s (byte_of w k) AND mask m"
proof (rule byte_eqI)
  fix n :: nat assume n: "n < 8"
  show "bit (byte_of (drop_bit s w) k AND mask m) n \<longleftrightarrow> bit (drop_bit s (byte_of w k) AND mask m) n"
  proof (cases "n < m")
    case True
    then have "s + n < 8" using assms(2) by simp
    then show ?thesis using n assms(1) by (simp add: bit_and_iff bit_byte_of bit_drop_bit_eq add.left_commute)
  qed (simp add: bit_and_iff bit_mask_iff)
qed

lemma byte_of_push:
  assumes "k < 4" "\<And>k. k < 4 \<Longrightarrow> byte_of y k = x k AND mask 4"
  shows "byte_of (push_bit 4 y) k = push_bit 4 (byte_of y k)"
proof (rule byte_eqI)
  fix n :: nat assume n: "n < 8"
  show "bit (byte_of (push_bit 4 y) k) n \<longleftrightarrow> bit (push_bit 4 (byte_of y k)) n"
  proof (cases "n < 4")
    case True
    have "\<not> bit y (8 * k + n - 4)" if "4 \<le> 8 * k + n"
    proof -
      have "k \<noteq> 0" using that True by auto
      then obtain k' where k': "k = Suc k'" by (cases k) simp_all
      have "\<not> bit (byte_of y k') (n + 4)" using assms k' True by (simp add: bit_and_iff bit_mask_iff)
      moreover have "8 * k + n - 4 = 8 * k' + (n + 4)" using k' by simp
      moreover have "bit (byte_of y k') (n + 4) \<longleftrightarrow> bit y (8 * k' + (n + 4))" using bit_byte_of [of k' "n + 4" y] assms(1) k' True by simp
      ultimately show ?thesis by simp
    qed
    then show ?thesis using True n assms(1) by (auto simp: bit_byte_of bit_push_bit_iff)
  next
    case False
    then have "8 * k + n - 4 = 8 * k + (n - 4)" "8 * k + n < 32" using n assms(1) by simp_all
    then show ?thesis using False n assms(1) by (simp add: bit_byte_of bit_push_bit_iff)
  qed
qed

text \<open>The masks work on the four bytes of a word at once: each byte of the result is computed from that byte alone.\<close>

lemma byte_of_scales:
  assumes "k < 4" "s \<le> 4" "t \<le> 6"
  shows "byte_of ((drop_bit s w AND 0x0F0F0F0F) OR push_bit 4 (drop_bit t v AND 0x03030303)) k =
    (drop_bit s (byte_of w k) AND 0x0F) OR push_bit 4 (drop_bit t (byte_of v k) AND 3)"
proof -
  have low: "byte_of (drop_bit s w AND 0x0F0F0F0F) k = drop_bit s (byte_of w k) AND 0x0F"
    using masked_shift [OF assms(1), of s 4] assms(1,2) by (simp add: byte_of_and byte_of_masks low_masks)
  have high: "byte_of (drop_bit t v AND 0x03030303) k = drop_bit t (byte_of v k) AND 3" if "k < 4" for k
    using masked_shift [OF that, of t 2] assms(3) that by (simp add: byte_of_and byte_of_masks low_masks)
  have "x AND 3 = (x AND 3) AND mask 4" for x :: "8 word" by (simp add: mask_eq_exp_minus_1 and.assoc)
  then have "byte_of (push_bit 4 (drop_bit t v AND 0x03030303)) k = push_bit 4 (byte_of (drop_bit t v AND 0x03030303) k)"
    using byte_of_push [OF assms(1), of "drop_bit t v AND 0x03030303" "\<lambda>k. drop_bit t (byte_of v k) AND 3"] high by metis
  then show ?thesis unfolding byte_of_or [OF assms(1)] low high [OF assms(1)] by simp
qed

lemma byte_of_le_u4:
  assumes "k < 4"
  shows "byte_of (le_u4 b i) k = b ! (i + k)"
proof (rule bit_word_eqI)
  fix n assume "n < LENGTH(8)"
  then have n: "n < 8" by simp
  have "k = 0 \<or> k = 1 \<or> k = 2 \<or> k = 3" using assms by auto
  then show "bit (byte_of (le_u4 b i) k) n \<longleftrightarrow> bit (b ! (i + k)) n"
    unfolding bit_byte_of [OF assms n] using n
    by (elim disjE) (auto simp: le_u4_def bit_or_iff bit_push_bit_iff bit_ucast_iff dest: bit_imp_le_length)
qed

text \<open>The reference: scale \<open>s\<close> has its low bits in a nibble and its high bits in a crumb of the twelve bytes.\<close>

definition q3_K_scale :: "bytes \<Rightarrow> nat \<Rightarrow> 8 word" where
  "q3_K_scale b s = (drop_bit (if s < 8 then 0 else 4) (b ! (96 + s mod 8)) AND 0x0F) OR
     push_bit 4 (drop_bit (2 * (s div 4)) (b ! (104 + s mod 4)) AND 3)"

text \<open>
  The word-parallel unpacking of the \<open>Q3_K\<close> scales is right: the sixteen values it takes from three 32-bit words are the scales
  as the format lays them out, byte by byte.
\<close>

theorem q3_K_scales_exact: "q3_K_scales b = map (q3_K_scale b) [0..<16]"
proof -
  define group where "group w s v t = (drop_bit s w AND 0x0F0F0F0F) OR push_bit 4 (drop_bit t v AND 0x03030303)" for w v :: "32 word" and s t
  have "q3_K_scales b = concat (map (\<lambda>a. map (byte_of a) [0..<4]) [group (le_u4 b 96) 0 (le_u4 b 104) 0, group (le_u4 b 100) 0 (le_u4 b 104) 2,
      group (le_u4 b 96) 4 (le_u4 b 104) 4, group (le_u4 b 100) 4 (le_u4 b 104) 6])"
    by (simp add: q3_K_scales_def group_def Let_def)
  also have "\<dots> = map (q3_K_scale b) [0..<16]"
  proof -
    have g: "byte_of (group (le_u4 b i) s (le_u4 b j) t) k = (drop_bit s (b ! (i + k)) AND 0x0F) OR push_bit 4 (drop_bit t (b ! (j + k)) AND 3)"
      if "k < 4" "s \<le> 4" "t \<le> 6" for i j k s t
      unfolding group_def byte_of_scales [OF that] byte_of_le_u4 [OF that(1)] ..
    have "[0..<4] = [0, 1, 2, 3 :: nat]" "[0..<16] = [0, 1, 2, 3, 4, 5, 6, 7, 8, 9, 10, 11, 12, 13, 14, 15 :: nat]" by (simp_all add: upt_rec)
    then show ?thesis by (simp add: g q3_K_scale_def)
  qed
  finally show ?thesis .
qed

section \<open>Every code is read back\<close>

text \<open>The encoders of the formats: four 2-bit codes in a byte, in each 32-byte half the code of column \<open>j * 32 + r\<close> at shift \<open>2 * j\<close>.\<close>

definition half_bytes :: "16 word \<Rightarrow> bytes" where
  "half_bytes d = [ucast d, ucast (drop_bit 8 d)]"

definition crumbs :: "(nat \<Rightarrow> int) \<Rightarrow> bytes" where
  "crumbs code = map (\<lambda>i. let p = i div 32 * 128 + i mod 32 in
     word_of_int (code p + 4 * code (p + 32) + 16 * code (p + 64) + 64 * code (p + 96))) [0..<64]"

definition q2_K_encode :: "16 word \<Rightarrow> 16 word \<Rightarrow> (nat \<Rightarrow> int) \<Rightarrow> (nat \<Rightarrow> int) \<Rightarrow> (nat \<Rightarrow> int) \<Rightarrow> bytes" where
  "q2_K_encode d dmin scale floor' code =
     map (\<lambda>s. word_of_int (scale s + 16 * floor' s)) [0..<16] @ crumbs code @ half_bytes d @ half_bytes dmin"

lemma half_bytes_joined: "(ucast (ucast d :: 8 word) OR push_bit 8 (ucast (ucast (drop_bit 8 d) :: 8 word)) :: 16 word) = d"
proof (rule bit_word_eqI)
  fix n assume "n < LENGTH(16)"
  then show "bit (ucast (ucast d :: 8 word) OR push_bit 8 (ucast (ucast (drop_bit 8 d) :: 8 word)) :: 16 word) n \<longleftrightarrow> bit d n"
    by (auto simp: bit_or_iff bit_push_bit_iff bit_ucast_iff bit_drop_bit_eq)
qed

lemma crumb:
  assumes "v = a + 4 * b + 16 * c + 64 * d" "0 \<le> a" "a < 4" "0 \<le> b" "b < 4" "0 \<le> c" "c < 4" "0 \<le> d" "d < (4 :: int)"
  shows "0 \<le> v \<and> v < 256 \<and> v mod 4 = a \<and> v div 4 mod 4 = b \<and> v div 16 mod 4 = c \<and> v div 64 mod 4 = d"
proof -
  have split: "(x + 4 * y) mod 4 = x" "(x + 4 * y) div 4 = y" if "0 \<le> x" "x < 4" for x y :: int using that by simp_all
  have v: "v = a + 4 * (b + 4 * (c + 4 * d))" using assms(1) by simp
  have "v div 4 = b + 4 * (c + 4 * d)" "v mod 4 = a" unfolding v using split assms(2,3) by blast+
  moreover have "(b + 4 * (c + 4 * d)) div 4 = c + 4 * d" "(b + 4 * (c + 4 * d)) mod 4 = b" using split assms(4,5) by blast+
  moreover have "(c + 4 * d) div 4 = d" "(c + 4 * d) mod 4 = c" using split assms(6,7) by blast+
  moreover have "v div 16 = v div 4 div 4" "v div 64 = v div 4 div 4 div 4" using zdiv_zmult2_eq [of 4 v 4] zdiv_zmult2_eq [of 4 "v div 4" 4] zdiv_zmult2_eq [of 16 v 4] by simp_all
  moreover have "d mod 4 = d" using assms(8,9) by simp
  moreover have "0 \<le> v" "v < 256" using assms by linarith+
  ultimately show ?thesis by presburger
qed

lemma shifted_crumb:
  assumes "0 \<le> v" "v < 256"
  shows "uint (drop_bit s (word_of_int v :: 8 word) AND 3) = v div 2 ^ s mod 4"
proof -
  have w: "uint (word_of_int v :: 8 word) = v" using assms by (simp add: uint_word_of_int)
  have "x AND 3 = take_bit 2 x" for x :: "8 word" by (simp add: take_bit_eq_mask mask_eq_exp_minus_1)
  then have "uint (drop_bit s (word_of_int v :: 8 word) AND 3) = uint (take_bit 2 (drop_bit s (word_of_int v :: 8 word)))" by simp
  also have "\<dots> = take_bit 2 (drop_bit s (take_bit 8 (uint (word_of_int v :: 8 word))))" by (simp add: unsigned_take_bit_eq unsigned_drop_bit_eq)
  also have "take_bit 8 (uint (word_of_int v :: 8 word)) = v" unfolding w using assms by (simp add: take_bit_int_eq_self)
  finally show ?thesis by (simp add: take_bit_eq_mod drop_bit_eq_div)
qed

lemma crumbs_read:
  assumes "\<forall>p < 256. 0 \<le> code p \<and> code p < 4" "p < 256"
  shows "uint (drop_bit (2 * (p div 32 mod 4)) (crumbs code ! (p div 128 * 32 + p div 16 mod 2 * 16 + p mod 16)) AND 3) = code p"
proof -
  define i where "i = p div 128 * 32 + p mod 32"
  define q where "q = i div 32 * 128 + i mod 32"
  have r: "p div 16 mod 2 * 16 + p mod 16 = p mod 32" using mod_mult2_eq [of p 16 2] by simp
  have i: "i < 64" "i div 32 = p div 128" "i mod 32 = p mod 32" proof -
    have "p div 128 < 2" "p mod 32 < 32" using assms(2) by (simp_all add: less_mult_imp_div_less)
    then show "i < 64" "i div 32 = p div 128" "i mod 32 = p mod 32" by (simp_all add: i_def)
  qed
  define j where "j = p div 32 mod 4"
  have p: "p = q + 32 * j" using mod_mult2_eq [of p 32 4] div_mult_mod_eq [of p 128] i by (simp add: q_def j_def)
  have "i div 32 < 2" "i mod 32 < 32" using i(1) by simp_all
  then have q: "q + 96 < 256" by (simp add: q_def)
  define w where "w = code q + 4 * code (q + 32) + 16 * code (q + 64) + 64 * code (q + 96)"
  have v: "0 \<le> w" "w < 256" "w mod 4 = code q" "w div 4 mod 4 = code (q + 32)" "w div 16 mod 4 = code (q + 64)" "w div 64 mod 4 = code (q + 96)"
    using crumb [OF w_def] assms(1) q by simp_all
  have "crumbs code ! i = word_of_int w" using i(1) by (simp add: crumbs_def q_def Let_def w_def)
  then have e: "uint (drop_bit s (crumbs code ! i) AND 3) = w div 2 ^ s mod 4" for s using shifted_crumb [OF v(1,2)] by simp
  have "j < 4" by (simp add: j_def)
  then have "j = 0 \<or> j = 1 \<or> j = 2 \<or> j = 3" by linarith
  moreover have "w div 2 ^ (2 * 0) mod 4 = code (q + 32 * 0)" "w div 2 ^ (2 * 1) mod 4 = code (q + 32 * 1)"
    "w div 2 ^ (2 * 2) mod 4 = code (q + 32 * 2)" "w div 2 ^ (2 * 3) mod 4 = code (q + 32 * 3)"
    by (simp_all add: v(3-6))
  ultimately have "w div 2 ^ (2 * j) mod 4 = code (q + 32 * j)" by blast
  then have "uint (drop_bit (2 * j) (crumbs code ! i) AND 3) = code (q + 32 * j)" unfolding e .
  moreover have "p div 128 * 32 + p div 16 mod 2 * 16 + p mod 16 = i" using r by (simp add: i_def)
  ultimately show ?thesis unfolding p [symmetric] j_def [symmetric] by (simp only:)
qed

lemma length_crumbs [simp]: "length (crumbs code) = 64"
  by (simp add: crumbs_def)

lemma two_nibbles:
  assumes "0 \<le> a" "a < 16" "0 \<le> b" "b < (16 :: int)"
  shows "uint ((word_of_int (a + 16 * b) :: 8 word) AND 0x0F) = a" "uint (drop_bit 4 (word_of_int (a + 16 * b) :: 8 word)) = b"
proof -
  define v where "v = a + 16 * b"
  have v: "0 \<le> v" "v < 256" "v mod 16 = a" "v div 16 = b" using assms by (simp_all add: v_def)
  have w: "uint (word_of_int v :: 8 word) = v" using v by (simp add: uint_word_of_int)
  have "(word_of_int v :: 8 word) AND 0x0F = take_bit 4 (word_of_int v)" by (simp add: take_bit_eq_mask mask_eq_exp_minus_1)
  then have "uint ((word_of_int v :: 8 word) AND 0x0F) = take_bit 4 (uint (word_of_int v :: 8 word))" by (simp only: unsigned_take_bit_eq)
  then show "uint ((word_of_int (a + 16 * b) :: 8 word) AND 0x0F) = a" unfolding v_def [symmetric] w using v by (simp add: take_bit_eq_mod)
  have "uint (drop_bit 4 (word_of_int v :: 8 word)) = drop_bit 4 (take_bit 8 (uint (word_of_int v :: 8 word)))"
    by (simp only: unsigned_drop_bit_eq) simp
  also have "take_bit 8 (uint (word_of_int v :: 8 word)) = v" unfolding w using v by (simp add: take_bit_int_eq_self)
  finally show "uint (drop_bit 4 (word_of_int (a + 16 * b) :: 8 word)) = b" unfolding v_def [symmetric] using v by (simp add: drop_bit_eq_div)
qed

lemma column_index: "p div 128 * 8 + 2 * (p div 32 mod 4) + p div 16 mod 2 = p div 16" for p :: nat
proof -
  have "p div 16 = 2 * (p div 32) + p div 16 mod 2" using div_mult_mod_eq [of "p div 16" 2] by (simp add: div_mult2_eq [symmetric])
  moreover have "p div 32 = 4 * (p div 128) + p div 32 mod 4" using div_mult_mod_eq [of "p div 32" 4] by (simp add: div_mult2_eq [symmetric])
  ultimately show ?thesis by linarith
qed

text \<open>
  C28. A \<open>Q2_K\<close> block holds what was put into it: for all scales and minima of 4 bits and all 256 codes of 2 bits there are 84 bytes
  which the decoder reads as exactly these, column by column: no code or scale is read twice, shifted or lost.
\<close>

theorem q2_K_roundtrip:
  assumes "\<forall>s < 16. 0 \<le> scale s \<and> scale s < 16 \<and> 0 \<le> floor' s \<and> floor' s < 16" "\<forall>p < 256. 0 \<le> code p \<and> code p < 4"
  shows "dequant_q2_K f (q2_K_encode d dmin scale floor' code) 256 = Inr (map (\<lambda>p. f_sub f
      (f_mul f (f_mul f (f_half f d) (f_int f (scale (p div 16)))) (f_int f (code p))) (f_mul f (f_half f dmin) (f_int f (floor' (p div 16))))) [0..<256])"
proof -
  let ?b = "q2_K_encode d dmin scale floor' code"
  have len: "length ?b = 84" by (simp add: q2_K_encode_def half_bytes_def)
  have halves: "half_at ?b 80 = d" "half_at ?b 82 = dmin"
    by (simp_all add: half_at_def q2_K_encode_def half_bytes_def nth_append half_bytes_joined)
  have sc: "?b ! s = word_of_int (scale s + 16 * floor' s)" if "s < 16" for s using that by (simp add: q2_K_encode_def nth_append)
  have qs: "?b ! (16 + i) = crumbs code ! i" if "i < 64" for i using that by (simp add: q2_K_encode_def nth_append)
  have "q2_K_block f ?b = map (\<lambda>p. f_sub f (f_mul f (f_mul f (f_half f d) (f_int f (uint (?b ! (p div 128 * 8 + 2 * (p div 32 mod 4) + p div 16 mod 2) AND 0x0F))))
      (f_int f (uint (drop_bit (2 * (p div 32 mod 4)) (?b ! (16 + p div 128 * 32 + p div 16 mod 2 * 16 + p mod 16)) AND 3))))
      (f_mul f (f_half f dmin) (f_int f (uint (drop_bit 4 (?b ! (p div 128 * 8 + 2 * (p div 32 mod 4) + p div 16 mod 2))))))) [0..<256]"
    unfolding q2_K_block_def Let_def halves by (rule columns)
  also have "\<dots> = map (\<lambda>p. f_sub f
      (f_mul f (f_mul f (f_half f d) (f_int f (scale (p div 16)))) (f_int f (code p))) (f_mul f (f_half f dmin) (f_int f (floor' (p div 16))))) [0..<256]"
  proof (rule map_cong [OF refl])
    fix p assume "p \<in> set [0..<256 :: nat]"
    then have p: "p < 256" "p div 16 < 16" by (simp_all add: less_mult_imp_div_less)
    have "p div 128 < 2" "p div 16 mod 2 < 2" "p mod 16 < 16" using p by (simp_all add: less_mult_imp_div_less)
    then have i: "p div 128 * 32 + p div 16 mod 2 * 16 + p mod 16 < 64" by linarith
    have "uint (drop_bit (2 * (p div 32 mod 4)) (?b ! (16 + p div 128 * 32 + p div 16 mod 2 * 16 + p mod 16)) AND 3) = code p"
      using qs [OF i] crumbs_read [OF assms(2) p(1)] by (simp only: add.assoc)
    then show "f_sub f (f_mul f (f_mul f (f_half f d) (f_int f (uint (?b ! (p div 128 * 8 + 2 * (p div 32 mod 4) + p div 16 mod 2) AND 0x0F))))
        (f_int f (uint (drop_bit (2 * (p div 32 mod 4)) (?b ! (16 + p div 128 * 32 + p div 16 mod 2 * 16 + p mod 16)) AND 3))))
        (f_mul f (f_half f dmin) (f_int f (uint (drop_bit 4 (?b ! (p div 128 * 8 + 2 * (p div 32 mod 4) + p div 16 mod 2)))))) =
      f_sub f (f_mul f (f_mul f (f_half f d) (f_int f (scale (p div 16)))) (f_int f (code p))) (f_mul f (f_half f dmin) (f_int f (floor' (p div 16))))"
      using two_nibbles assms(1) p(2) unfolding column_index sc [OF p(2)] by simp
  qed
  finally show ?thesis using len by (simp add: dequant_q2_K_def Q2_K_def block_rows_def)
qed

theorem q2_K_roundtrip_witness:
  "dequant_q2_K \<lparr>f_half = uint, f_int = (\<lambda>x. x), f_mul = (*), f_sub = (-)\<rparr> (q2_K_encode 5 2 (\<lambda>s. 3) (\<lambda>s. 1) (\<lambda>p. int p mod 4)) 256 =
    Inr (map (\<lambda>p. 5 * 3 * (int p mod 4) - 2 * 1) [0..<256])"
  using q2_K_roundtrip [of "\<lambda>s. 3" "\<lambda>s. 1" "\<lambda>p. int p mod 4" "\<lparr>f_half = uint, f_int = (\<lambda>x. x), f_mul = (*), f_sub = (-)\<rparr>" 5 2] by simp

end
