(* ===== verification/Gguf_Roundtrip.thy ===== *)
theory Gguf_Roundtrip
  imports Gguf
begin

text \<open>
  Correctness of the GGUF reader: exact tensor sizes, and the round trip with a reference encoder of
  the GGUF layout (strings and arrays length-prefixed, little-endian scalars).  \<open>parses p bs x\<close> says
  that parser \<open>p\<close> consumes exactly \<open>bs\<close>, whatever follows, and returns \<open>x\<close>.
\<close>

section \<open>Tensor sizes\<close>

lemma checked_mul16_Inr: "checked_mul16 a b = Inr v \<longleftrightarrow> v = a * b \<and> 0 \<le> v \<and> v < 2 ^ 64"
  by (auto simp: checked_mul16_def Let_def push_bit_eq_mult)

lemma checked_add16_Inr: "checked_add16 a b = Inr v \<longleftrightarrow> v = a + b \<and> 0 \<le> b \<and> v < 2 ^ 64"
  by (auto simp: checked_add16_def Let_def push_bit_eq_mult)

lemma fold_checked_mul:
  "fold_res checked_mul16 a dims = Inr v \<Longrightarrow> v = a * prod_list dims \<and> (0 \<le> a \<longrightarrow> a < 2 ^ 64 \<longrightarrow> 0 \<le> v \<and> v < 2 ^ 64)"
proof (induction dims arbitrary: a)
  case (Cons d dims)
  then have "fold_res checked_mul16 (a * d) dims = Inr v" "0 \<le> a * d" "a * d < 2 ^ 64"
    by (auto simp: bind_res_Inr_iff checked_mul16_Inr)
  with Cons.IH[of "a * d"] show ?case by (simp add: mult.assoc)
qed simp

lemma TYPES_block_pos: "map_of TYPES ty = Some (name, block, n) \<Longrightarrow> 0 < block \<and> 0 < n"
proof -
  assume "map_of TYPES ty = Some (name, block, n)"
  then have "(ty, name, block, n) \<in> set TYPES" by (rule map_of_SomeD)
  moreover have "list_all (\<lambda>(t, m, b, n). 0 < b \<and> 0 < n) TYPES" by (simp add: TYPES_def)
  ultimately show ?thesis by (auto simp: list_all_iff)
qed

lemma tensor_size_result:
  assumes "tensor_size dims ty = Inr (elements, sz)"
  shows "elements = prod_list dims \<and> 0 \<le> elements \<and> elements < 2 ^ 64 \<and>
    (case map_of TYPES ty of
       None \<Rightarrow> sz = None
     | Some (name, block, n) \<Rightarrow> if block dvd elements then sz = Some (elements div block * n) \<and> elements div block * n < 2 ^ 64
                              else sz = None)"
proof -
  obtain e where e: "fold_res checked_mul16 1 dims = Inr e"
    and r: "(case map_of TYPES ty of None \<Rightarrow> Inr (e, None)
     | Some (_, block, n) \<Rightarrow>
         if block = 1 then bind_res (checked_mul16 e n) (\<lambda>k. Inr (e, Some k))
         else if e mod block \<noteq> 0 then Inr (e, None)
         else bind_res (checked_mul16 (e div block) n) (\<lambda>k. Inr (e, Some k))) = Inr (elements, sz)"
    using assms unfolding tensor_size_def bind_res_Inr_iff by blast
  have "elements = e" using r by (auto simp: bind_res_Inr_iff split: option.splits prod.splits if_splits)
  note el = fold_checked_mul[OF e[folded this]]
  have "case map_of TYPES ty of
       None \<Rightarrow> sz = None
     | Some (name, block, n) \<Rightarrow> if block dvd elements then sz = Some (elements div block * n) \<and> elements div block * n < 2 ^ 64
                              else sz = None"
    using r \<open>elements = e\<close>
    by (cases "map_of TYPES ty")
      (auto simp: bind_res_Inr_iff checked_mul16_Inr dvd_eq_mod_eq_0 split: prod.splits if_splits)
  with el show ?thesis by simp
qed

text \<open>
  Tensor sizes are exact: when \<open>tensor_size\<close> returns, the elements are the product of the
  dimensions, within 64 bits; a size is given exactly when the type is in the table and its block
  divides the elements, and then it is the block size times the number of blocks, within 64 bits.
\<close>

theorem tensor_size_exact:
  assumes "tensor_size dims ty = Inr (elements, sz)"
  shows "elements = prod_list dims \<and> 0 \<le> elements \<and> elements < 2 ^ 64 \<and>
    (case map_of TYPES ty of
       None \<Rightarrow> sz = None
     | Some (name, block, n) \<Rightarrow> if block dvd elements then sz = Some (elements div block * n) \<and> elements div block * n < 2 ^ 64
                              else sz = None)"
  by (rule tensor_size_result[OF assms])

theorem tensor_size_exact_witness:
  "tensor_size [64, 3] 8 = Inr (192, Some 204) \<and> (192 :: int) = prod_list [64, 3]"
proof -
  have "tensor_size [64, 3] 8 = Inr (192, Some 204)"
    by code_simp
  from this conjunct1[OF tensor_size_exact[OF this]] show ?thesis by blast
qed

section \<open>Parsers and what they consume\<close>

definition parses :: "'a parser \<Rightarrow> bytes \<Rightarrow> 'a \<Rightarrow> bool" where
  "parses p bs x \<longleftrightarrow> (\<forall>rest pos. p (bs @ rest, pos) = Inr (x, (rest, pos + int (length bs))))"

named_theorems parses_intros

lemma parses_return [parses_intros]: "parses (rreturn x) [] x"
  by (simp add: parses_def rreturn_def)

lemma parses_bind [parses_intros]: "parses p bs x \<Longrightarrow> parses (f x) cs y \<Longrightarrow> parses (rbind p f) (bs @ cs) y"
  by (simp add: parses_def rbind_def add.assoc)

lemma parses_bind_nil: "parses p bs x \<Longrightarrow> f x = rreturn y \<Longrightarrow> parses (rbind p f) bs y"
  by (metis append_Nil2 parses_bind parses_return)

lemma parses_read: "length bs = n \<Longrightarrow> parses (rd_read n) bs bs"
  by (simp add: parses_def rd_read_def)

lemma parses_unsigned: "0 \<le> v \<Longrightarrow> v < 256 ^ n \<Longrightarrow> parses (rd_unsigned n) (le_enc n v) v"
  unfolding rd_unsigned_def by (rule parses_bind_nil[OF parses_read]) (simp_all add: le_dec_enc_id)

lemma parses_lift: "v = Inr x \<Longrightarrow> parses (rlift v) [] x"
  by (simp add: parses_def rlift_def)

lemma parses_times: "list_all2 (parses p) bss xs \<Longrightarrow> parses (rtimes (length xs) p) (concat bss) xs"
proof (induction bss xs rule: list_all2_induct)
  case (Cons b bss x xs)
  have "parses (rbind (rtimes (length xs) p) (\<lambda>ys. rreturn (x # ys))) (concat bss) (x # xs)"
    by (rule parses_bind_nil[OF Cons.IH]) simp
  with Cons.hyps(1) show ?case by (simp add: parses_bind)
qed (simp add: parses_intros)

section \<open>Strings and values\<close>

definition str_bytes :: "string \<Rightarrow> bytes" where
  "str_bytes s = map (\<lambda>c. word_of_int (of_char c)) s"

definition enc_string :: "string \<Rightarrow> bytes" where
  "enc_string s = le_enc 8 (int (length s)) @ str_bytes s"

definition string_ok :: "string \<Rightarrow> bool" where
  "string_ok s \<longleftrightarrow> utf8_valid (map of_char s) \<and> int (length s) < 256 ^ 8"

lemma of_char_less: "(of_char c :: int) < 256" "0 \<le> (of_char c :: int)"
proof -
  have "of_char c = (of_nat (of_char c :: nat) :: int)" by (rule of_nat_of_char[symmetric])
  then show "(of_char c :: int) < 256" "0 \<le> (of_char c :: int)"
    using nat_of_char_less_256[of c] by (metis of_nat_less_iff of_nat_numeral, metis of_nat_0_le_iff)
qed

lemma uint_of_char: "uint (word_of_int (of_char c) :: 8 word) = of_char c"
  using of_char_less[of c] by (simp add: uint_word_of_int)

lemma decode_str_bytes: "utf8_valid (map of_char s) \<Longrightarrow> decode_utf8 (str_bytes s) = Inr s"
  by (simp add: decode_utf8_def str_bytes_def comp_def uint_of_char)

lemma parses_string [parses_intros]: "string_ok s \<Longrightarrow> parses rd_string (enc_string s) s"
  unfolding rd_string_def enc_string_def
proof (rule parses_bind[OF parses_unsigned])
  assume s: "string_ok s"
  show "int (length s) < 256 ^ 8" using s by (simp add: string_ok_def)
  have "parses (rbind (rd_read (length s)) (\<lambda>raw. rlift (decode_utf8 raw))) (str_bytes s @ []) s"
    using s by (intro parses_bind[OF parses_read] parses_lift)
      (simp_all add: str_bytes_def[symmetric] string_ok_def decode_str_bytes, simp add: str_bytes_def)
  then show "parses (rbind (rd_read (nat (int (length s)))) (\<lambda>raw. rlift (decode_utf8 raw))) (str_bytes s) s"
    by simp
qed simp

text \<open>A metadata value with the type id it is stored under.\<close>

datatype gguf_value = GScalar int int | GString string | GArray int "gguf_value list"

fun type_of :: "gguf_value \<Rightarrow> int" where
  "type_of (GScalar ty raw) = ty"
| "type_of (GString s) = 8"
| "type_of (GArray et vs) = 9"

fun value_of :: "gguf_value \<Rightarrow> meta_value" where
  "value_of (GScalar ty raw) = (case map_of META_TYPES ty of Some (k, n) \<Rightarrow> scalar_of k n raw | None \<Rightarrow> MInt raw)"
| "value_of (GString s) = MStr s"
| "value_of (GArray et vs) = MArr (map value_of vs)"

fun enc_value :: "gguf_value \<Rightarrow> bytes" where
  "enc_value (GScalar ty raw) = (case map_of META_TYPES ty of Some (k, n) \<Rightarrow> le_enc n raw | None \<Rightarrow> [])"
| "enc_value (GString s) = enc_string s"
| "enc_value (GArray et vs) = le_enc 4 et @ le_enc 8 (int (length vs)) @ concat (map enc_value vs)"

fun value_ok :: "nat \<Rightarrow> gguf_value \<Rightarrow> bool" where
  "value_ok 0 v = False"
| "value_ok (Suc d) (GScalar ty raw) = (case map_of META_TYPES ty of Some (k, n) \<Rightarrow> 0 \<le> raw \<and> raw < 256 ^ n | None \<Rightarrow> False)"
| "value_ok (Suc d) (GString s) = string_ok s"
| "value_ok (Suc d) (GArray et vs) = (0 \<le> et \<and> et < 256 ^ 4 \<and> int (length vs) \<le> 10000000 \<and>
     list_all (\<lambda>v. type_of v = et \<and> value_ok d v) vs)"

lemma parses_value: "value_ok d v \<Longrightarrow> parses (rd_value d (type_of v)) (enc_value v) (value_of v)"
proof (induction d v rule: value_ok.induct)
  case (2 d ty raw)
  then obtain k n where "map_of META_TYPES ty = Some (k, n)" "0 \<le> raw" "raw < 256 ^ n" by (auto split: option.splits)
  then show ?case by (auto intro: parses_bind_nil[OF parses_unsigned])
next
  case (3 d s)
  have "map_of META_TYPES 8 = None" by (simp add: META_TYPES_def)
  then show ?case using 3 by (auto intro: parses_bind_nil[OF parses_string])
next
  case (4 d et vs)
  have m: "map_of META_TYPES 9 = None" by (simp add: META_TYPES_def)
  have "list_all2 (parses (rd_value d et)) (map enc_value vs) (map value_of vs)"
    using 4 by (auto simp: list_all2_conv_all_nth list_all_length)
  from parses_times[OF this] have t: "parses (rtimes (length vs) (rd_value d et)) (concat (map enc_value vs)) (map value_of vs)"
    by simp
  have "parses (rbind (rd_unsigned 4) (\<lambda>element_type. rbind (rd_unsigned 8) (\<lambda>count.
      if count > 10000000 then rlift (Inl (ValueError ''metadata array is unreasonably large''))
      else rbind (rtimes (nat count) (rd_value d element_type)) (\<lambda>vs. rreturn (MArr vs)))))
    (le_enc 4 et @ le_enc 8 (int (length vs)) @ concat (map enc_value vs)) (MArr (map value_of vs))"
    using 4(2) by (intro parses_bind[OF parses_unsigned]) (auto intro: parses_bind_nil[OF t])
  then show ?case using m by simp
qed simp

section \<open>Whole files\<close>

record tensor_info =
  ti_name :: string
  ti_dims :: "int list"
  ti_type :: int
  ti_offset :: int

definition enc_tensor :: "tensor_info \<Rightarrow> bytes" where
  "enc_tensor t = enc_string (ti_name t) @ le_enc 4 (int (length (ti_dims t))) @
     concat (map (le_enc 8) (ti_dims t)) @ le_enc 4 (ti_type t) @ le_enc 8 (ti_offset t)"

definition info_ok :: "tensor_info \<Rightarrow> bool" where
  "info_ok t \<longleftrightarrow> string_ok (ti_name t) \<and> int (length (ti_dims t)) < 256 ^ 4 \<and>
     list_all (\<lambda>d. 0 \<le> d \<and> d < 256 ^ 8) (ti_dims t) \<and> 0 \<le> ti_type t \<and> ti_type t < 256 ^ 4 \<and>
     0 \<le> ti_offset t \<and> ti_offset t < 256 ^ 8 \<and> (\<exists>r. tensor_size (ti_dims t) (ti_type t) = Inr r)"

definition tensor_of :: "int \<Rightarrow> tensor_info \<Rightarrow> tensor" where
  "tensor_of ordinal t = (case tensor_size (ti_dims t) (ti_type t) of
       Inr (elements, payload_size) \<Rightarrow>
         \<lparr>tn_ordinal = ordinal, tn_name = ti_name t, tn_shape = ti_dims t, tn_type_id = ti_type t,
          tn_type_name = type_name_of (ti_type t), tn_elements = Some elements, tn_payload_size = payload_size,
          tn_relative_offset = ti_offset t, tn_absolute_start = 0, tn_absolute_end = None, tn_layer = None,
          tn_role = ''Unknown'', tn_group = ''Unknown'', tn_role_detail = '''', tn_gap_before = None\<rparr>)"

lemma parses_tensor: "info_ok t \<Longrightarrow> parses (rd_tensor ordinal) (enc_tensor t) (tensor_of ordinal t)"
proof -
  assume ok: "info_ok t"
  then obtain el sz where sz: "tensor_size (ti_dims t) (ti_type t) = Inr (el, sz)" by (auto simp: info_ok_def)
  have "list_all2 (parses (rd_unsigned 8)) (map (le_enc 8) (ti_dims t)) (ti_dims t)"
    using ok by (auto simp: list_all2_conv_all_nth info_ok_def list_all_length intro: parses_unsigned)
  from parses_times[OF this]
  have dims: "parses (rtimes (nat (int (length (ti_dims t)))) (rd_unsigned 8)) (concat (map (le_enc 8) (ti_dims t))) (ti_dims t)"
    by simp
  have o: "parses (rbind (rd_unsigned 8) (\<lambda>relative_offset. rbind (rlift (tensor_size (ti_dims t) (ti_type t))) (\<lambda>(elements, payload_size).
     rreturn \<lparr>tn_ordinal = ordinal, tn_name = ti_name t, tn_shape = ti_dims t, tn_type_id = ti_type t,
       tn_type_name = type_name_of (ti_type t), tn_elements = Some elements, tn_payload_size = payload_size,
       tn_relative_offset = relative_offset, tn_absolute_start = 0, tn_absolute_end = None, tn_layer = None,
       tn_role = ''Unknown'', tn_group = ''Unknown'', tn_role_detail = '''', tn_gap_before = None\<rparr>)))
     (le_enc 8 (ti_offset t) @ []) (tensor_of ordinal t)"
    using ok by (intro parses_bind[OF parses_unsigned] parses_bind_nil[OF parses_lift[OF sz]])
      (simp_all add: info_ok_def tensor_of_def sz)
  have ty: "0 \<le> ti_type t" "ti_type t < 256 ^ 4" "string_ok (ti_name t)" "int (length (ti_dims t)) < 256 ^ 4"
    using ok by (auto simp: info_ok_def)
  show ?thesis
    unfolding rd_tensor_def enc_tensor_def
    by (rule parses_bind, rule parses_string[OF ty(3)], rule parses_bind, rule parses_unsigned[OF _ ty(4)], simp,
        rule parses_bind, rule dims, rule parses_bind, rule parses_unsigned[OF ty(1,2)], rule o[unfolded append_Nil2])
qed

definition enc_entry :: "string \<times> gguf_value \<Rightarrow> bytes" where
  "enc_entry e = enc_string (fst e) @ le_enc 4 (type_of (snd e)) @ enc_value (snd e)"

definition enc_header :: "int \<Rightarrow> (string \<times> gguf_value) list \<Rightarrow> tensor_info list \<Rightarrow> bytes" where
  "enc_header version entries infos = [0x47, 0x47, 0x55, 0x46] @ le_enc 4 version @
     le_enc 8 (int (length infos)) @ le_enc 8 (int (length entries)) @
     concat (map enc_entry entries) @ concat (map enc_tensor infos)"

fun number_tensors :: "int \<Rightarrow> tensor_info list \<Rightarrow> tensor list" where
  "number_tensors n [] = []"
| "number_tensors n (t # ts) = tensor_of n t # number_tensors (n + 1) ts"

lemma value_ok_mono: "value_ok d v \<Longrightarrow> d \<le> e \<Longrightarrow> value_ok e v"
proof (induction d v arbitrary: e rule: value_ok.induct)
  case (4 d et vs)
  then obtain e' where e: "e = Suc e'" "d \<le> e'" by (cases e) auto
  have "list_all (\<lambda>v. type_of v = et \<and> value_ok d v) vs" using 4(2) by simp
  then have "list_all (\<lambda>v. type_of v = et \<and> value_ok e' v) vs"
    using 4(1)[OF _ _ e(2)] by (auto simp: list_all_iff)
  with 4(2) show ?case by (simp add: e)
qed (case_tac e; simp)+

lemma value_ok_length: "value_ok d v \<Longrightarrow> value_ok (Suc (length (enc_value v))) v"
proof (induction d v rule: value_ok.induct)
  case (4 d et vs)
  have "value_ok (length (enc_value (GArray et vs))) v" if v: "v \<in> set vs" for v
  proof -
    have "value_ok d v" using 4(2) v by (auto simp: list_all_iff)
    then have ok: "value_ok (Suc (length (enc_value v))) v" using 4(1)[OF v] by simp
    have "length (enc_value v) \<le> length (concat (map enc_value vs))"
      using v by (induction vs) auto
    then have "Suc (length (enc_value v)) \<le> length (enc_value (GArray et vs))" by simp
    with ok show ?thesis by (rule value_ok_mono)
  qed
  then have "list_all (\<lambda>v. type_of v = et \<and> value_ok (length (enc_value (GArray et vs))) v) vs"
    using 4(2) by (auto simp: list_all_iff)
  then show ?case using 4(2)[unfolded value_ok.simps] unfolding value_ok.simps by blast
qed simp_all

definition entry_ok :: "string \<times> gguf_value \<Rightarrow> bool" where
  "entry_ok e \<longleftrightarrow> string_ok (fst e) \<and> value_ok (Suc (length (enc_value (snd e)))) (snd e) \<and>
     0 \<le> type_of (snd e) \<and> type_of (snd e) < 256 ^ 4"

lemma entry_okI:
  "string_ok (fst e) \<Longrightarrow> value_ok d (snd e) \<Longrightarrow> 0 \<le> type_of (snd e) \<Longrightarrow> type_of (snd e) < 256 ^ 4 \<Longrightarrow> entry_ok e"
  by (simp add: entry_ok_def value_ok_length)

lemma parses_entry:
  assumes "entry_ok e" "length (enc_value (snd e)) < fuel"
  shows "parses (rd_meta_entry fuel) (enc_entry e) (fst e, value_of (snd e))"
proof -
  have "value_ok fuel (snd e)" by (rule value_ok_mono) (use assms in \<open>auto simp: entry_ok_def\<close>)
  note v = parses_value[OF this]
  have ok: "string_ok (fst e)" "0 \<le> type_of (snd e)" "type_of (snd e) < 256 ^ 4" using assms(1) by (auto simp: entry_ok_def)
  show ?thesis
    unfolding rd_meta_entry_def enc_entry_def
    by (rule parses_bind, rule parses_string[OF ok(1)], rule parses_bind, rule parses_unsigned[OF ok(2,3)],
        rule parses_bind_nil[OF v], rule refl)
qed

lemma parses_tensors:
  "list_all info_ok infos \<Longrightarrow> parses (rd_tensors n (length infos)) (concat (map enc_tensor infos)) (number_tensors n infos)"
proof (induction infos arbitrary: n)
  case (Cons t ts)
  then have t: "parses (rd_tensor n) (enc_tensor t) (tensor_of n t)" by (simp add: parses_tensor)
  have "parses (rd_tensors (n + 1) (length ts)) (concat (map enc_tensor ts)) (number_tensors (n + 1) ts)"
    using Cons by simp
  then have "parses (rbind (rd_tensors (n + 1) (length ts)) (\<lambda>xs. rreturn (tensor_of n t # xs)))
      (concat (map enc_tensor ts)) (tensor_of n t # number_tensors (n + 1) ts)"
    by (rule parses_bind_nil) simp
  from parses_bind[OF t, of "\<lambda>t. rbind (rd_tensors (n + 1) (length ts)) (\<lambda>xs. rreturn (t # xs))", OF this]
  show ?case by (simp only: list.map concat.simps number_tensors.simps list.size add_0_right add_Suc_right rd_tensors.simps)
qed (simp add: parses_return)

definition header_ok :: "int \<Rightarrow> (string \<times> gguf_value) list \<Rightarrow> tensor_info list \<Rightarrow> bool" where
  "header_ok version entries infos \<longleftrightarrow> (version = 2 \<or> version = 3) \<and> list_all entry_ok entries \<and>
     list_all info_ok infos \<and> int (length infos) < 256 ^ 8 \<and> int (length entries) < 256 ^ 8"

lemma enc_value_fits: "e \<in> set entries \<Longrightarrow> length (enc_value (snd e)) < length (enc_header version entries infos @ data)"
proof -
  assume e: "e \<in> set entries"
  have "length (enc_value (snd e)) \<le> length (concat (map enc_entry entries))"
    using e by (induction entries) (auto simp: enc_entry_def)
  then show ?thesis by (simp add: enc_header_def)
qed

text \<open>
  C6. The reader inverts the GGUF encoding: from the encoding of any version 2 or 3 header with
  well-formed strings, nested arrays within the size limit and tensors whose sizes do not
  overflow, followed by any data, it reads back the metadata values and the tensor records in
  order, and stops exactly at the end of the header. The length of the file is enough fuel for the
  nesting.
\<close>

theorem gguf_header_roundtrip:
  assumes "header_ok version entries infos"
  shows "rd_header (length (enc_header version entries infos @ data)) (enc_header version entries infos @ data, 0) =
    Inr ((version, int (length infos), int (length entries), map (\<lambda>e. (fst e, value_of (snd e))) entries,
          number_tensors 0 infos), (data, int (length (enc_header version entries infos))))"
proof -
  define fuel where "fuel = length (enc_header version entries infos @ data)"
  have v: "version = 2 \<or> version = 3" "0 \<le> version" "version < 256 ^ 4" using assms by (auto simp: header_ok_def)
  have n: "int (length infos) < 256 ^ 8" "int (length entries) < 256 ^ 8" using assms by (auto simp: header_ok_def)
  have "list_all2 (parses (rd_meta_entry fuel)) (map enc_entry entries) (map (\<lambda>e. (fst e, value_of (snd e))) entries)"
    unfolding list_all2_conv_all_nth
  proof (intro conjI allI impI)
    fix i assume "i < length (map enc_entry entries)"
    then have i: "entries ! i \<in> set entries" "entry_ok (entries ! i)" "i < length entries"
      using assms by (auto simp: header_ok_def list_all_length)
    show "parses (rd_meta_entry fuel) (map enc_entry entries ! i) (map (\<lambda>e. (fst e, value_of (snd e))) entries ! i)"
      using parses_entry[OF i(2) enc_value_fits[OF i(1), of version infos data, folded fuel_def]] i(3) by simp
  qed simp
  from parses_times[OF this] have es: "parses (rtimes (nat (int (length entries))) (rd_meta_entry fuel))
      (concat (map enc_entry entries)) (map (\<lambda>e. (fst e, value_of (snd e))) entries)" by simp
  have ts: "parses (rd_tensors 0 (nat (int (length infos)))) (concat (map enc_tensor infos)) (number_tensors 0 infos)"
    using parses_tensors assms by (simp add: header_ok_def)
  have body: "parses (rbind (rd_unsigned 8) (\<lambda>tensor_count. rbind (rd_unsigned 8) (\<lambda>metadata_count.
     rbind (rtimes (nat metadata_count) (rd_meta_entry fuel)) (\<lambda>entries.
     rbind (rd_tensors 0 (nat tensor_count)) (\<lambda>tensors.
     rreturn (version, tensor_count, metadata_count, entries, tensors))))))
     (le_enc 8 (int (length infos)) @ le_enc 8 (int (length entries)) @ concat (map enc_entry entries) @ concat (map enc_tensor infos))
     (version, int (length infos), int (length entries), map (\<lambda>e. (fst e, value_of (snd e))) entries, number_tensors 0 infos)"
    by (rule parses_bind, rule parses_unsigned[OF _ n(1)], simp, rule parses_bind, rule parses_unsigned[OF _ n(2)], simp,
        rule parses_bind, rule es, rule parses_bind_nil, rule ts, rule refl)
  have body2: "parses (if \<not> (version = 2 \<or> version = 3) then rlift (Inl e) else p) bs x" if "parses p bs x" for e p bs and x :: 'b
    using that v by simp
  have "parses (rd_header fuel) (enc_header version entries infos)
     (version, int (length infos), int (length entries), map (\<lambda>e. (fst e, value_of (snd e))) entries, number_tensors 0 infos)"
    unfolding rd_header_def enc_header_def
    by (rule parses_bind, rule parses_read, simp, simp only: simp_thms if_False,
        rule parses_bind, rule parses_unsigned[OF v(2,3)], rule body2, rule body)
  then show ?thesis unfolding fuel_def[symmetric] by (simp add: parses_def)
qed

definition sample_entries :: "(string \<times> gguf_value) list" where
  "sample_entries = [(''general.alignment'', GScalar 4 64), (''ids'', GArray 5 [GScalar 5 7, GScalar 5 4294967295])]"

definition sample_infos :: "tensor_info list" where
  "sample_infos = [\<lparr>ti_name = ''blk.0.attn_q.weight'', ti_dims = [32, 2], ti_type = 8, ti_offset = 0\<rparr>]"

theorem gguf_header_roundtrip_witness:
  "\<exists>tensors n. rd_header (length (enc_header 3 sample_entries sample_infos @ [1, 2])) (enc_header 3 sample_entries sample_infos @ [1, 2], 0) =
     Inr ((3, 1, 2, [(''general.alignment'', MInt 64), (''ids'', MArr [MInt 7, MInt (-1)])], tensors), ([1, 2], n))"
proof -
  have sz: "tensor_size [32, 2] 8 = Inr (64, Some 68)" by code_simp
  have "utf8_valid (map of_char ''blk.0.attn_q.weight'')" "utf8_valid (map of_char ''general.alignment'')"
    "utf8_valid (map of_char ''ids'')" by simp_all
  then have "string_ok ''blk.0.attn_q.weight''" "string_ok ''general.alignment''" "string_ok ''ids''"
    by (simp_all add: string_ok_def)
  moreover have "value_ok (Suc (Suc 0)) (snd e) \<and> 0 \<le> type_of (snd e) \<and> type_of (snd e) < 256 ^ 4"
    if "e \<in> set sample_entries" for e
    using that by (auto simp: sample_entries_def META_TYPES_def)
  ultimately have ok: "header_ok 3 sample_entries sample_infos"
    by (auto simp: header_ok_def sample_infos_def info_ok_def sz list_all_iff
        intro!: entry_okI[where d = "Suc (Suc 0)"]) (auto simp: sample_entries_def)
  have v: "map (\<lambda>e. (fst e, value_of (snd e))) sample_entries =
      [(''general.alignment'', MInt 64), (''ids'', MArr [MInt 7, MInt (-1)])]"
    by (simp add: sample_entries_def META_TYPES_def scalar_of_def to_signed_def)
  from gguf_header_roundtrip[OF ok, of "[1, 2]"] show ?thesis
    unfolding v by (simp add: sample_entries_def sample_infos_def)
qed

end
