(* ===== verification/Fast_Gguf.thy ===== *)
theory Fast_Gguf
  imports Gguf_Roundtrip
begin

text \<open>
  The two tensor finders \<open>fast_gguf_find_tensor\<close> of the compression experiments
  (\<open>scripts/qualify_ccc_hard_gate.py\<close>, \<open>scripts/qualify_ccc_experiment.py\<close>): they skip the metadata with
  \<open>seek\<close> instead of decoding it.  A file object is the rest of the file and the position, as in \<open>Gguf\<close>; here
  \<open>read\<close> may return less than asked for and \<open>seek\<close> may pass the end.  A count that does not fit a file offset
  raises \<open>OverflowError\<close> (Python raises it or \<open>OSError\<close>, depending on the sum).  The main result is that they find
  what the checked reader of \<open>Gguf\<close> finds, on every file that reader accepts with the default alignment.
\<close>

section \<open>File objects\<close>

definition read_short :: "int \<Rightarrow> bytes parser" where
  "read_short n r = (case r of (stream, pos) \<Rightarrow>
     if n \<ge> 2 ^ 63 then Inl OverflowError
     else Inr (take (nat n) stream, (drop (nat n) stream, pos + min n (int (length stream)))))"

definition seek_by :: "int \<Rightarrow> unit parser" where
  "seek_by n r = (case r of (stream, pos) \<Rightarrow>
     if pos + n \<ge> 2 ^ 63 then Inl OverflowError else Inr ((), (drop (nat n) stream, pos + n)))"

text \<open>\<open>struct.unpack\<close> of one and of two little-endian fields.\<close>

definition unpack1 :: "nat \<Rightarrow> int parser" where
  "unpack1 n = rbind (read_short (int n)) (\<lambda>b. if length b = n then rreturn (le_dec b) else rlift (Inl StructError))"

definition unpack2 :: "nat \<Rightarrow> nat \<Rightarrow> (int \<times> int) parser" where
  "unpack2 m n = rbind (read_short (int (m + n))) (\<lambda>b.
     if length b = m + n then rreturn (le_dec (take m b), le_dec (drop m b)) else rlift (Inl StructError))"

text \<open>
  \<open>decode('utf-8', errors='ignore')\<close> keeps the well-formed sequences.  \<open>utf8_step\<close> gives the length of the sequence at the
  front and whether it is complete; of an ill-formed one the longest prefix of a well-formed sequence is dropped.
\<close>

definition utf8_second :: "int \<Rightarrow> int \<Rightarrow> bool" where
  "utf8_second a b \<longleftrightarrow> (if a = 0xE0 then 0xA0 \<le> b \<and> b \<le> 0xBF else if a = 0xED then 0x80 \<le> b \<and> b \<le> 0x9F
     else if a = 0xF0 then 0x90 \<le> b \<and> b \<le> 0xBF else if a = 0xF4 then 0x80 \<le> b \<and> b \<le> 0x8F else 0x80 \<le> b \<and> b \<le> 0xBF)"

definition utf8_width :: "int \<Rightarrow> nat" where
  "utf8_width a = (if a < 0x80 then 1 else if a < 0xC2 then 0 else if a \<le> 0xDF then 2 else if a \<le> 0xEF then 3 else if a \<le> 0xF4 then 4 else 0)"

definition utf8_step :: "int \<Rightarrow> int list \<Rightarrow> nat \<times> bool" where
  "utf8_step a bs = (let w = utf8_width a; cont = (\<lambda>c. 0x80 \<le> c \<and> c \<le> 0xBF) in
     if w = 0 then (1, False) else if w = 1 then (1, True) else
     (case bs of [] \<Rightarrow> (1, False) | b # cs \<Rightarrow>
       if \<not> utf8_second a b then (1, False) else if w = 2 then (2, True) else
       (case cs of [] \<Rightarrow> (2, False) | c # ds \<Rightarrow>
         if \<not> cont c then (2, False) else if w = 3 then (3, True) else
         (case ds of [] \<Rightarrow> (3, False) | d # es \<Rightarrow> if cont d then (4, True) else (3, False)))))"

fun utf8_ignore :: "int list \<Rightarrow> int list" where
  "utf8_ignore [] = []"
| "utf8_ignore (a # bs) = (case utf8_step a bs of (n, complete) \<Rightarrow>
     (if complete then a # take (n - 1) bs else []) @ utf8_ignore (drop (n - 1) bs))"

definition decode_ignore :: "bytes \<Rightarrow> string" where
  "decode_ignore raw = map (\<lambda>b. char_of b) (utf8_ignore (map uint raw))"

definition read_str :: "string parser" where
  "read_str = rbind (unpack1 8) (\<lambda>l. rbind (read_short l) (\<lambda>raw. rreturn (decode_ignore raw)))"

section \<open>Skipping the metadata\<close>

definition skip_width :: "int \<Rightarrow> int option" where
  "skip_width t = (if t \<in> {0, 1, 7} then Some 1 else if t \<in> {2, 3} then Some 2 else if t \<in> {4, 5, 6} then Some 4
     else if t \<in> {10, 11, 12} then Some 8 else None)"

definition skip_string :: "unit parser" where
  "skip_string = rbind (unpack1 8) seek_by"

definition repeat_unit :: "nat \<Rightarrow> unit parser \<Rightarrow> unit parser" where
  "repeat_unit n p = rbind (rtimes n p) (\<lambda>_. rreturn ())"

text \<open>\<open>skip_val\<close>; an unknown type skips nothing.  The fuel bounds the nesting of arrays, one unit per level.\<close>

fun skip_val :: "nat \<Rightarrow> int \<Rightarrow> unit parser" where
  "skip_val 0 t = rlift (Inl (RuntimeError ''nesting''))"
| "skip_val (Suc fuel) t = (case skip_width t of
       Some w \<Rightarrow> seek_by w
     | None \<Rightarrow>
         if t = 8 then skip_string
         else if t = 9 then rbind (unpack2 4 8) (\<lambda>(itype, icount). case skip_width itype of
             Some w \<Rightarrow> seek_by (icount * w)
           | None \<Rightarrow> if itype = 8 then repeat_unit (nat icount) skip_string
               else if itype = 9 then repeat_unit (nat icount) (skip_val fuel 9)
               else rreturn ())
         else rreturn ())"

definition skip_entry :: "nat \<Rightarrow> unit parser" where
  "skip_entry fuel = rbind read_str (\<lambda>k. rbind (unpack1 4) (skip_val fuel))"

section \<open>The finders\<close>

record tensor_entry =
  te_name :: string
  te_shape :: "int list"
  te_type :: int
  te_offset :: int

record located = tensor_entry +
  lo_start :: int
  lo_elements :: int
  lo_payload :: int

definition read_entry :: "tensor_entry parser" where
  "read_entry = rbind read_str (\<lambda>name. rbind (unpack1 4) (\<lambda>n_dims. rbind (rtimes (nat n_dims) (unpack1 8)) (\<lambda>dims.
     rbind (unpack2 4 8) (\<lambda>(ggml_type, offset).
     rreturn \<lparr>te_name = name, te_shape = dims, te_type = ggml_type, te_offset = offset\<rparr>))))"

definition fast_scan :: "nat \<Rightarrow> tensor_entry list parser" where
  "fast_scan fuel = rbind (read_short 4) (\<lambda>magic.
     if magic \<noteq> [0x47, 0x47, 0x55, 0x46] then rlift (Inl (AssertionError ''Invalid magic'')) else
     rbind (unpack1 4) (\<lambda>version. rbind (unpack2 8 8) (\<lambda>(tensor_count, kv_count).
     rbind (repeat_unit (nat kv_count) (skip_entry fuel)) (\<lambda>_. rtimes (nat tensor_count) read_entry))))"

definition locate :: "int \<Rightarrow> tensor_entry \<Rightarrow> located" where
  "locate tell t = (let data_offset = (tell + 31) div 32 * 32; elements = prod_list (te_shape t) in
     tensor_entry.extend t \<lparr>lo_start = data_offset + te_offset t, lo_elements = elements, lo_payload = elements div 32 * 34\<rparr>)"

text \<open>\<open>fast_gguf_find_tensor\<close> of the hard gate, and the one of the first experiment, which falls back to the first tensor.\<close>

definition hard_gate_find :: "string \<Rightarrow> bytes \<Rightarrow> located res" where
  "hard_gate_find target file = bind_res (fast_scan (length file) (file, 0)) (\<lambda>(tensors, _, tell).
     case find (\<lambda>t. te_name t = target) tensors of
       Some t \<Rightarrow> Inr (locate tell t)
     | None \<Rightarrow> Inl (ValueError ''tensor not found in GGUF''))"

definition experiment_find :: "string list \<Rightarrow> bytes \<Rightarrow> located res" where
  "experiment_find targets file = bind_res (fast_scan (length file) (file, 0)) (\<lambda>(tensors, _, tell).
     case find (\<lambda>t. te_name t \<in> set targets) tensors of
       Some t \<Rightarrow> Inr (locate tell t)
     | None \<Rightarrow> (case tensors of t # _ \<Rightarrow> Inr (locate tell t) | [] \<Rightarrow> Inl IndexError))"


section \<open>A checked parser and its fast counterpart\<close>

text \<open>
  \<open>covers p q g\<close>: where the checked parser \<open>p\<close> succeeds, the fast one \<open>q\<close> ends at the same place with the image of the result.
  The file is shorter than the largest file offset.
\<close>

definition in_file :: "reader \<Rightarrow> bool" where
  "in_file r \<longleftrightarrow> 0 \<le> snd r \<and> snd r + int (length (fst r)) < 2 ^ 63"

definition covers :: "'a parser \<Rightarrow> 'b parser \<Rightarrow> ('a \<Rightarrow> 'b) \<Rightarrow> bool" where
  "covers p q g \<longleftrightarrow> (\<forall>r x r'. in_file r \<longrightarrow> p r = Inr (x, r') \<longrightarrow> q r = Inr (g x, r') \<and> in_file r')"

named_theorems covers_intros

lemma coversD: "covers p q g \<Longrightarrow> in_file r \<Longrightarrow> p r = Inr (x, r') \<Longrightarrow> q r = Inr (g x, r') \<and> in_file r'"
  unfolding covers_def by blast

lemma covers_return: "covers (rreturn x) (rreturn (g x)) g"
  by (auto simp: covers_def rreturn_def)

lemma covers_fail [covers_intros]: "covers (rlift (Inl e)) q g"
  by (simp add: covers_def rlift_def)

lemma covers_bind:
  assumes "covers p q g" "\<And>x. covers (f x) (h (g x)) k"
  shows "covers (rbind p f) (rbind q h) k"
  unfolding covers_def
proof (intro allI impI)
  fix r y r''
  assume r: "in_file r" "rbind p f r = Inr (y, r'')"
  then obtain x r' where x: "p r = Inr (x, r')" "f x r' = Inr (y, r'')" by (auto simp: rbind_def bind_res_Inr_iff)
  have q: "q r = Inr (g x, r')" "in_file r'" using coversD [OF assms(1) r(1) x(1)] by simp_all
  show "rbind q h r = Inr (k y, r'') \<and> in_file r''" using coversD [OF assms(2) q(2) x(2)] q(1) by (simp add: rbind_def)
qed

lemma covers_check: "(\<And>x. covers (f x) q k) \<Longrightarrow> covers (rbind (rlift v) f) q k"
  by (auto simp: covers_def rbind_def rlift_def bind_res_Inr_iff)

lemma covers_times:
  assumes "covers p q g"
  shows "covers (rtimes n p) (rtimes n q) (map g)"
proof (induction n)
  case 0
  show ?case using covers_return [of "[]" "map g"] by simp
next
  case (Suc n)
  have "covers (rbind (rtimes n p) (\<lambda>xs. rreturn (x # xs))) (rbind (rtimes n q) (\<lambda>ys. rreturn (g x # ys))) (map g)" for x
    by (rule covers_bind [OF Suc]) (use covers_return [of "x # xs" "map g" for xs] in simp)
  then show ?case unfolding rtimes.simps by (rule covers_bind [OF assms])
qed

lemma covers_repeat: "covers p q (\<lambda>_. ()) \<Longrightarrow> covers (rtimes n p) (repeat_unit n q) (\<lambda>_. ())"
  unfolding repeat_unit_def
  by (drule covers_times [of _ _ _ n]) (auto simp: covers_def rbind_def rreturn_def)

lemma rd_unsigned_Inr:
  "rd_unsigned n (stream, pos) = Inr (v, r) \<longleftrightarrow> n \<le> length stream \<and> v = le_dec (take n stream) \<and> r = (drop n stream, pos + int n)"
  by (auto simp: rd_unsigned_def rbind_Inr rd_read_def rreturn_def)

lemma covers_read: "covers (rd_read n) (read_short (int n)) (\<lambda>b. b)"
  by (auto simp: covers_def rd_read_def read_short_def in_file_def)

lemma covers_unsigned: "covers (rd_unsigned n) (unpack1 n) (\<lambda>v. v)"
  by (auto simp: covers_def rd_unsigned_def unpack1_def rbind_def rd_read_def read_short_def in_file_def rreturn_def split: if_splits)

lemma covers_two:
  assumes "\<And>a b. 0 \<le> a \<Longrightarrow> 0 \<le> b \<Longrightarrow> covers (f a b) (h (a, b)) k"
  shows "covers (rbind (rd_unsigned m) (\<lambda>a. rbind (rd_unsigned n) (f a))) (rbind (unpack2 m n) h) k"
  unfolding covers_def
proof (intro allI impI)
  fix r y r''
  assume r: "in_file r" "rbind (rd_unsigned m) (\<lambda>a. rbind (rd_unsigned n) (f a)) r = Inr (y, r'')"
  obtain stream pos where s: "r = (stream, pos)" by (cases r)
  let ?a = "le_dec (take m stream)" and ?b = "le_dec (take n (drop m stream))"
  let ?r = "(drop (m + n) stream, pos + int (m + n))"
  have e: "drop n (drop m stream) = drop (m + n) stream" "pos + int m + int n = pos + int (m + n)" by (simp_all add: add.commute)
  have l: "m + n \<le> length stream" "f ?a ?b ?r = Inr (y, r'')"
    using r(2) unfolding s by (auto simp: rbind_Inr rd_unsigned_Inr e simp del: drop_drop)
  have i: "in_file ?r" using r(1) l(1) by (auto simp: s in_file_def)
  have "unpack2 m n r = Inr ((?a, ?b), ?r)"
    using l(1) r(1) by (auto simp: s unpack2_def rbind_def read_short_def rreturn_def in_file_def min_def drop_take)
  then show "rbind (unpack2 m n) h r = Inr (k y, r'') \<and> in_file r''"
    using coversD [OF assms i l(2)] by (simp add: rbind_def)
qed

section \<open>Strings\<close>

lemma utf8_valid_step:
  assumes "utf8_valid (a # bs)"
  shows "\<exists>n. utf8_step a bs = (n, True) \<and> utf8_valid (drop (n - 1) bs)"
proof (cases "a < 0x80")
  case True
  then have "utf8_step a bs = (1, True)" by (simp add: utf8_step_def utf8_width_def)
  then show ?thesis using assms True by simp
next
  case False
  then obtain b cs where bs: "bs = b # cs" using assms by (cases bs) simp_all
  show ?thesis
  proof (cases "0xC2 \<le> a \<and> a \<le> 0xDF \<and> 0x80 \<le> b \<and> b \<le> 0xBF")
    case True
    then have "utf8_width a = 2" "utf8_second a b" by (auto simp: utf8_width_def utf8_second_def)
    then have "utf8_step a bs = (2, True)" by (simp add: utf8_step_def bs)
    then show ?thesis using assms True False by (simp add: bs)
  next
    case two: False
    then obtain c ds where cs: "cs = c # ds" using assms False two by (cases cs) (simp_all only: bs utf8_valid.simps if_False list.case)
    let ?three = "0x80 \<le> c \<and> c \<le> 0xBF \<and> (a = 0xE0 \<and> 0xA0 \<le> b \<and> b \<le> 0xBF \<or> a = 0xED \<and> 0x80 \<le> b \<and> b \<le> 0x9F \<or>
        0xE1 \<le> a \<and> a \<le> 0xEF \<and> a \<noteq> 0xED \<and> 0x80 \<le> b \<and> b \<le> 0xBF)"
    show ?thesis
    proof (cases ?three)
      case True
      then have "utf8_width a = 3" "utf8_second a b" by (auto simp: utf8_width_def utf8_second_def)
      then have "utf8_step a bs = (3, True)" using True by (simp add: utf8_step_def bs cs)
      then show ?thesis using assms True False two by (simp only: bs cs utf8_valid.simps list.case if_True if_False) simp
    next
      case three: False
      have v: "case ds of [] \<Rightarrow> False | d # es \<Rightarrow> if 0x80 \<le> c \<and> c \<le> 0xBF \<and> 0x80 \<le> d \<and> d \<le> 0xBF \<and>
          (a = 0xF0 \<and> 0x90 \<le> b \<and> b \<le> 0xBF \<or> a = 0xF4 \<and> 0x80 \<le> b \<and> b \<le> 0x8F \<or>
           0xF1 \<le> a \<and> a \<le> 0xF3 \<and> 0x80 \<le> b \<and> b \<le> 0xBF) then utf8_valid es else False"
        using assms False two three by (simp only: bs cs utf8_valid.simps list.case if_False)
      then obtain d es where ds: "ds = d # es" by (cases ds) simp_all
      then have f: "0x80 \<le> c" "c \<le> 0xBF" "0x80 \<le> d" "d \<le> 0xBF" "a = 0xF0 \<and> 0x90 \<le> b \<and> b \<le> 0xBF \<or> a = 0xF4 \<and> 0x80 \<le> b \<and> b \<le> 0x8F \<or>
           0xF1 \<le> a \<and> a \<le> 0xF3 \<and> 0x80 \<le> b \<and> b \<le> 0xBF" "utf8_valid es"
        using v by (simp_all split: if_splits)
      then have "utf8_width a = 4" "utf8_second a b" by (auto simp: utf8_width_def utf8_second_def)
      then have "utf8_step a bs = (4, True)" using f by (simp add: utf8_step_def bs cs ds)
      then show ?thesis using f by (simp add: bs cs ds)
    qed
  qed
qed

lemma utf8_ignore_valid: "utf8_valid bs \<Longrightarrow> utf8_ignore bs = bs"
proof (induction "length bs" arbitrary: bs rule: less_induct)
  case less
  show ?case
  proof (cases bs)
    case (Cons a cs)
    then obtain n where n: "utf8_step a cs = (n, True)" "utf8_valid (drop (n - 1) cs)" using utf8_valid_step less.prems by blast
    then have "utf8_ignore (drop (n - 1) cs) = drop (n - 1) cs" using less.hyps Cons by simp
    then show ?thesis using n(1) Cons by simp
  qed simp
qed

lemma decode_ignore_valid: "decode_utf8 raw = Inr s \<Longrightarrow> decode_ignore raw = s"
  by (auto simp: decode_utf8_def decode_ignore_def utf8_ignore_valid split: if_splits)

lemma covers_unsigned_bind:
  assumes "\<And>v. 0 \<le> v \<Longrightarrow> covers (f v) (h v) k"
  shows "covers (rbind (rd_unsigned n) f) (rbind (unpack1 n) h) k"
proof -
  have "rbind (rd_unsigned n) f = rbind (rd_unsigned n) (\<lambda>v. if 0 \<le> v then f v else rlift (Inl KeyError))"
    by (rule ext) (auto simp: rbind_def rd_unsigned_def rd_read_def rreturn_def split: sum.splits)
  then show ?thesis using covers_bind [OF covers_unsigned [of n], of "\<lambda>v. if 0 \<le> v then f v else rlift (Inl KeyError)" h k] assms
    by (simp add: covers_fail)
qed

lemma covers_string: "covers rd_string read_str (\<lambda>s. s)"
  unfolding rd_string_def read_str_def
proof (rule covers_unsigned_bind)
  fix n :: int assume n: "0 \<le> n"
  have "covers (rlift (decode_utf8 raw)) (rreturn (decode_ignore raw)) (\<lambda>s. s)" for raw
    by (auto simp: covers_def rlift_def rreturn_def bind_res_Inr_iff decode_ignore_valid)
  then show "covers (rbind (rd_read (nat n)) (\<lambda>raw. rlift (decode_utf8 raw))) (rbind (read_short n) (\<lambda>raw. rreturn (decode_ignore raw))) (\<lambda>s. s)"
    using covers_bind [OF covers_read [of "nat n"], of "\<lambda>raw. rlift (decode_utf8 raw)" "\<lambda>raw. rreturn (decode_ignore raw)" "\<lambda>s. s"] n by simp
qed

lemma covers_skip_read: "0 \<le> n \<Longrightarrow> covers (rd_read (nat n)) (seek_by n) (\<lambda>_. ())"
  by (auto simp: covers_def rd_read_def seek_by_def in_file_def split: if_splits)

lemma covers_then_return: "covers p q (\<lambda>_. ()) \<Longrightarrow> covers (rbind p (\<lambda>x. rreturn (f x))) q (\<lambda>_. ())"
  by (auto simp: covers_def rbind_def rreturn_def bind_res_Inr_iff)

lemma covers_then_lift: "covers p q (\<lambda>_. ()) \<Longrightarrow> covers (rbind p (\<lambda>x. rlift (f x))) q (\<lambda>_. ())"
  by (auto simp: covers_def rbind_def rlift_def bind_res_Inr_iff)

lemma covers_skip_string: "covers rd_string skip_string (\<lambda>_. ())"
  unfolding rd_string_def skip_string_def
  by (rule covers_unsigned_bind, rule covers_then_lift, rule covers_skip_read)

section \<open>Values and entries\<close>

lemma skip_width_scalar: "map_of META_TYPES t = Some (k, n) \<Longrightarrow> skip_width t = Some (int n)"
  by (auto simp: META_TYPES_def skip_width_def split: if_splits)

lemma skip_width_none: "map_of META_TYPES t = None \<Longrightarrow> skip_width t = None"
  by (auto simp: META_TYPES_def skip_width_def split: if_splits)

lemma covers_scalar: "covers (rbind (rd_unsigned n) (\<lambda>v. rreturn (f v))) (seek_by (int n)) (\<lambda>_. ())"
  by (auto simp: covers_def rbind_def rd_unsigned_def rd_read_def rreturn_def seek_by_def in_file_def bind_res_Inr_iff split: if_splits)

text \<open>An array of scalars is one \<open>seek\<close> over all its elements.\<close>

lemma scalars_read:
  assumes "rtimes c (rbind (rd_unsigned n) (\<lambda>v. rreturn (f v))) (stream, pos) = Inr (xs, r')"
  shows "c * n \<le> length stream \<and> r' = (drop (c * n) stream, pos + int (c * n))"
  using assms
proof (induction c arbitrary: stream pos xs)
  case (Suc c)
  then obtain ys where l: "n \<le> length stream"
    and ys: "rtimes c (rbind (rd_unsigned n) (\<lambda>v. rreturn (f v))) (drop n stream, pos + int n) = Inr (ys, r')"
    unfolding rtimes.simps rbind_Inr by (auto simp: rd_unsigned_Inr rreturn_def)
  have "c * n \<le> length (drop n stream)" "r' = (drop (c * n) (drop n stream), pos + int n + int (c * n))" using Suc.IH [OF ys] by simp_all
  then show ?case using l by (simp add: add.commute)
qed (simp add: rreturn_def)

lemma covers_scalars:
  "covers (rtimes c (rbind (rd_unsigned n) (\<lambda>v. rreturn (f v)))) (seek_by (int c * int n)) (\<lambda>_. ())"
  unfolding covers_def
proof (intro allI impI)
  fix r xs r'
  assume r: "in_file r" "rtimes c (rbind (rd_unsigned n) (\<lambda>v. rreturn (f v))) r = Inr (xs, r')"
  obtain stream pos where s: "r = (stream, pos)" by (cases r)
  show "seek_by (int c * int n) r = Inr ((), r') \<and> in_file r'"
    using scalars_read [OF r(2) [unfolded s]] r(1) by (auto simp: s seek_by_def in_file_def nat_mult_distrib simp flip: of_nat_mult)
qed

lemma covers_value: "covers (rd_value fuel t) (skip_val fuel t) (\<lambda>_. ())"
proof (induction fuel arbitrary: t)
  case 0
  show ?case by (simp add: covers_fail)
next
  case (Suc fuel)
  have elements: "covers (rtimes (nat c) (rd_value fuel et)) (case skip_width et of Some w \<Rightarrow> seek_by (c * w)
      | None \<Rightarrow> if et = 8 then repeat_unit (nat c) skip_string else if et = 9 then repeat_unit (nat c) (skip_val fuel 9) else rreturn ()) (\<lambda>_. ())"
    if c: "0 \<le> c" for c et
  proof (cases "nat c = 0 \<or> fuel = 0")
    case True
    then consider "c = 0" | "nat c \<noteq> 0" "fuel = 0" using c by auto
    then show ?thesis
    proof cases
      case 1
      then show ?thesis
        by (auto simp: covers_def rreturn_def seek_by_def repeat_unit_def rbind_def in_file_def split: option.splits)
    next
      case 2
      then obtain m where "nat c = Suc m" by (cases "nat c") simp_all
      then show ?thesis using 2 by (auto simp: covers_def rbind_def rlift_def)
    qed
  next
    case False
    then obtain f where f: "fuel = Suc f" by (cases fuel) simp_all
    show ?thesis
    proof (cases "map_of META_TYPES et")
      case (Some kn)
      obtain k n where kn: "kn = (k, n)" by (cases kn)
      show ?thesis using covers_scalars [of "nat c" n "scalar_of k n"] c by (simp add: f Some kn skip_width_scalar [OF Some [unfolded kn]])
    next
      case None
      have "covers (rd_value fuel et) skip_string (\<lambda>_. ())" if "et = 8"
        using covers_then_return [OF covers_skip_string, of MStr] None that by (simp add: f)
      moreover have "covers (rtimes (nat c) (rd_value fuel et)) q (\<lambda>_. ())" if "et \<noteq> 8" "et \<noteq> 9" for q :: "unit parser"
      proof -
        obtain m where "nat c = Suc m" using False by (cases "nat c") simp_all
        then show ?thesis using None that by (auto simp: f covers_def rbind_def rlift_def)
      qed
      ultimately show ?thesis using Suc [of 9] skip_width_none [OF None] by (auto intro: covers_repeat)
    qed
  qed
  show ?case
  proof (cases "map_of META_TYPES t")
    case (Some kn)
    obtain k n where kn: "kn = (k, n)" by (cases kn)
    show ?thesis using covers_scalar [of n "scalar_of k n"] by (simp add: Some kn skip_width_scalar [OF Some [unfolded kn]])
  next
    case None
    note w = skip_width_none [OF None]
    have s: "covers (rbind rd_string (\<lambda>s. rreturn (MStr s))) skip_string (\<lambda>_. ())"
      by (rule covers_then_return [OF covers_skip_string])
    have a: "covers (rbind (rd_unsigned 4) (\<lambda>et. rbind (rd_unsigned 8) (\<lambda>count.
        if count > 10000000 then rlift (Inl (ValueError ''metadata array is unreasonably large''))
        else rbind (rtimes (nat count) (rd_value fuel et)) (\<lambda>vs. rreturn (MArr vs)))))
      (rbind (unpack2 4 8) (\<lambda>(et, c). case skip_width et of Some w \<Rightarrow> seek_by (c * w)
        | None \<Rightarrow> if et = 8 then repeat_unit (nat c) skip_string else if et = 9 then repeat_unit (nat c) (skip_val fuel 9) else rreturn ())) (\<lambda>_. ())"
    proof (rule covers_two)
      fix et c :: int assume "0 \<le> c"
      then show "covers (if c > 10000000 then rlift (Inl (ValueError ''metadata array is unreasonably large''))
          else rbind (rtimes (nat c) (rd_value fuel et)) (\<lambda>vs. rreturn (MArr vs)))
        (case (et, c) of (et, c) \<Rightarrow> case skip_width et of Some w \<Rightarrow> seek_by (c * w)
          | None \<Rightarrow> if et = 8 then repeat_unit (nat c) skip_string else if et = 9 then repeat_unit (nat c) (skip_val fuel 9) else rreturn ()) (\<lambda>_. ())"
        using covers_then_return [OF elements, of c et MArr] by (simp add: covers_fail)
    qed
    have "covers (rlift (Inl e)) q g" for e and q :: "unit parser" and g :: "meta_value \<Rightarrow> unit" by (rule covers_fail)
    then show ?thesis using s a by (simp add: None w)
  qed
qed

lemma covers_meta_entry: "covers (rd_meta_entry fuel) (skip_entry fuel) (\<lambda>_. ())"
  unfolding rd_meta_entry_def skip_entry_def
  by (rule covers_bind [OF covers_string], rule covers_bind [OF covers_unsigned], rule covers_then_return, rule covers_value)

definition entry_of :: "tensor \<Rightarrow> tensor_entry" where
  "entry_of t = \<lparr>te_name = tn_name t, te_shape = tn_shape t, te_type = tn_type_id t, te_offset = tn_relative_offset t\<rparr>"

lemma covers_tensor: "covers (rd_tensor ordinal) read_entry entry_of"
  unfolding rd_tensor_def read_entry_def
proof (rule covers_bind [OF covers_string], rule covers_unsigned_bind, rule covers_bind [OF covers_times [OF covers_unsigned]])
  fix name and rank :: int and dims
  show "covers (rbind (rd_unsigned 4) (\<lambda>type_id. rbind (rd_unsigned 8) (\<lambda>relative_offset. rbind (rlift (tensor_size dims type_id)) (\<lambda>(elements, payload_size).
     rreturn \<lparr>tn_ordinal = ordinal, tn_name = name, tn_shape = dims, tn_type_id = type_id,
       tn_type_name = type_name_of type_id, tn_elements = Some elements, tn_payload_size = payload_size,
       tn_relative_offset = relative_offset, tn_absolute_start = 0, tn_absolute_end = None, tn_layer = None,
       tn_role = ''Unknown'', tn_group = ''Unknown'', tn_role_detail = '''', tn_gap_before = None\<rparr>))))
    (rbind (unpack2 4 8) (\<lambda>(ggml_type, offset). rreturn \<lparr>te_name = name, te_shape = map (\<lambda>v. v) dims, te_type = ggml_type, te_offset = offset\<rparr>)) entry_of"
    by (rule covers_two, rule covers_check) (auto simp: covers_def rreturn_def entry_of_def)
qed

lemma covers_tensors: "covers (rd_tensors ordinal n) (rtimes n read_entry) (map entry_of)"
proof (induction n arbitrary: ordinal)
  case 0
  show ?case using covers_return [of "[]" "map entry_of"] by simp
next
  case (Suc n)
  have "covers (rbind (rd_tensors (ordinal + 1) n) (\<lambda>ts. rreturn (t # ts))) (rbind (rtimes n read_entry) (\<lambda>es. rreturn (entry_of t # es))) (map entry_of)" for t
    by (rule covers_bind [OF Suc]) (use covers_return [of "t # ts" "map entry_of" for ts] in simp)
  then show ?case unfolding rd_tensors.simps rtimes.simps by (rule covers_bind [OF covers_tensor])
qed

lemma covers_header: "covers (rd_header fuel) (fast_scan fuel) (\<lambda>(_, _, _, _, tensors). map entry_of tensors)"
proof -
  let ?strict = "\<lambda>version. rbind (rd_unsigned 8) (\<lambda>tensor_count. rbind (rd_unsigned 8) (\<lambda>metadata_count.
       rbind (rtimes (nat metadata_count) (rd_meta_entry fuel)) (\<lambda>entries.
       rbind (rd_tensors 0 (nat tensor_count)) (\<lambda>tensors. rreturn (version :: int, tensor_count, metadata_count, entries, tensors)))))"
  let ?fast = "rbind (unpack2 8 8) (\<lambda>(tensor_count, kv_count). rbind (repeat_unit (nat kv_count) (skip_entry fuel)) (\<lambda>_. rtimes (nat tensor_count) read_entry))"
  let ?g = "\<lambda>(_ :: int, _ :: int, _ :: int, _ :: (string \<times> meta_value) list, tensors). map entry_of tensors"
  have tensors: "covers (rbind (rd_tensors 0 (nat tc)) (\<lambda>ts. rreturn (version, tc, mc, entries, ts))) (rtimes (nat tc) read_entry) ?g" for version tc mc entries
    using covers_tensors [of 0 "nat tc"] by (auto simp: covers_def rbind_def rreturn_def bind_res_Inr_iff)
  have body: "covers (?strict version) ?fast ?g" for version
    by (rule covers_two, unfold prod.case, rule covers_bind [OF covers_repeat [OF covers_meta_entry]], rule tensors)
  have "covers (if \<not> (version = 2 \<or> version = 3) then rlift (Inl (ValueError ''unsupported GGUF version'')) else ?strict version) ?fast ?g" for version
    using body by (simp add: covers_fail)
  then have "covers (rbind (rd_unsigned 4) (\<lambda>version. if \<not> (version = 2 \<or> version = 3) then rlift (Inl (ValueError ''unsupported GGUF version'')) else ?strict version))
      (rbind (unpack1 4) (\<lambda>version. ?fast)) ?g"
    by (rule covers_bind [OF covers_unsigned])
  then have "covers (if magic \<noteq> [0x47, 0x47, 0x55, 0x46] then rlift (Inl (ValueError ''invalid GGUF magic''))
        else rbind (rd_unsigned 4) (\<lambda>version. if \<not> (version = 2 \<or> version = 3) then rlift (Inl (ValueError ''unsupported GGUF version'')) else ?strict version))
      (if magic \<noteq> [0x47, 0x47, 0x55, 0x46] then rlift (Inl (AssertionError ''Invalid magic'')) else rbind (unpack1 4) (\<lambda>version. ?fast)) ?g" for magic
    by (simp add: covers_fail)
  then show ?thesis
    unfolding rd_header_def fast_scan_def by (rule covers_bind [OF covers_read [of 4, simplified]])
qed


section \<open>The fuel is enough\<close>

definition shrinks :: "'a parser \<Rightarrow> bool" where
  "shrinks p \<longleftrightarrow> (\<forall>r x r'. p r = Inr (x, r') \<longrightarrow> length (fst r') \<le> length (fst r))"

definition fuelled :: "nat \<Rightarrow> 'a parser \<Rightarrow> bool" where
  "fuelled n p \<longleftrightarrow> (\<forall>r. length (fst r) < n \<longrightarrow> p r \<noteq> Inl (RuntimeError ''nesting''))"

lemma rbind_Inl: "rbind p f r = Inl e \<longleftrightarrow> p r = Inl e \<or> (\<exists>x r'. p r = Inr (x, r') \<and> f x r' = Inl e)"
  by (auto simp: rbind_def bind_res_Inl_iff)

lemma shrinks_bind: "shrinks p \<Longrightarrow> (\<And>x. shrinks (f x)) \<Longrightarrow> shrinks (rbind p f)"
  unfolding shrinks_def rbind_Inr by (meson le_trans)

lemma shrinks_basic: "shrinks (rreturn x)" "shrinks (rlift v)" "shrinks (read_short n)" "shrinks (seek_by n)"
  by (auto simp: shrinks_def rreturn_def rlift_def read_short_def seek_by_def bind_res_Inr_iff split: if_splits)

lemma shrinks_times: "shrinks p \<Longrightarrow> shrinks (rtimes n p)"
  by (induction n) (auto intro: shrinks_bind shrinks_basic)

lemma shrinks_unpack: "shrinks (unpack1 n)" "shrinks (unpack2 m n)"
  unfolding unpack1_def unpack2_def by (auto intro!: shrinks_bind shrinks_basic simp: shrinks_basic)

lemma shrinks_skip: "shrinks (skip_val fuel t)"
proof (induction fuel arbitrary: t)
  case (Suc fuel)
  have "shrinks skip_string" unfolding skip_string_def by (intro shrinks_bind shrinks_unpack shrinks_basic)
  then show ?case using Suc [of 9]
    by (auto simp: repeat_unit_def intro!: shrinks_bind shrinks_unpack shrinks_basic shrinks_times split: option.split)
qed (simp add: shrinks_basic)

lemma fuelled_bind: "fuelled n p \<Longrightarrow> shrinks p \<Longrightarrow> (\<And>x. fuelled n (f x)) \<Longrightarrow> fuelled n (rbind p f)"
  unfolding fuelled_def shrinks_def rbind_Inl by (meson le_less_trans)

lemma fuelled_basic: "fuelled n (rreturn x)" "e \<noteq> RuntimeError ''nesting'' \<Longrightarrow> fuelled n (rlift (Inl e))" "fuelled n (read_short k)" "fuelled n (seek_by k)"
  by (auto simp: fuelled_def rreturn_def rlift_def read_short_def seek_by_def)

lemma fuelled_times: "fuelled n p \<Longrightarrow> shrinks p \<Longrightarrow> fuelled n (rtimes k p)"
  by (induction k) (auto intro!: fuelled_bind fuelled_basic shrinks_times)

lemma fuelled_unpack: "fuelled k (unpack1 n)" "fuelled k (unpack2 m n)"
  unfolding unpack1_def unpack2_def by (auto intro!: fuelled_bind shrinks_basic fuelled_basic)

lemma fuelled_mono: "fuelled n p \<Longrightarrow> m \<le> n \<Longrightarrow> fuelled m p"
  by (simp add: fuelled_def)

lemma fuelled_string: "fuelled n skip_string" "shrinks skip_string" "fuelled n read_str" "shrinks read_str"
  unfolding skip_string_def read_str_def
  by (intro fuelled_bind shrinks_bind fuelled_unpack shrinks_unpack fuelled_basic shrinks_basic)+

text \<open>A nested array is reached only after the twelve bytes of the head of its list.\<close>

lemma unpack2_consumes: "unpack2 m n r = Inr (x, r') \<Longrightarrow> length (fst r') + m + n \<le> length (fst r)"
  by (auto simp: unpack2_def rbind_Inr read_short_def rreturn_def rlift_def min_def split: if_splits prod.splits)

lemma fuelled_after:
  assumes "\<And>x. fuelled fuel (f x)"
  shows "fuelled (Suc fuel) (rbind (unpack2 4 8) f)"
  unfolding fuelled_def rbind_Inl
proof (intro allI impI notI)
  fix r assume r: "length (fst r) < Suc fuel"
    and "unpack2 4 8 r = Inl (RuntimeError ''nesting'') \<or> (\<exists>x r'. unpack2 4 8 r = Inr (x, r') \<and> f x r' = Inl (RuntimeError ''nesting''))"
  then obtain x r' where u: "unpack2 4 8 r = Inr (x, r')" "f x r' = Inl (RuntimeError ''nesting'')"
    using fuelled_unpack(2) [of "Suc fuel" 4 8] unfolding fuelled_def by blast
  have "length (fst r') < fuel" using unpack2_consumes [OF u(1)] r by simp
  then show False using assms [of x] u(2) unfolding fuelled_def by blast
qed

lemma fuelled_skip: "fuelled fuel (skip_val fuel t)"
proof (induction fuel arbitrary: t)
  case (Suc fuel)
  show ?case
  proof (cases "skip_width t = None \<and> t = 9")
    case True
    define rest where "rest = (\<lambda>itype icount. case skip_width itype of Some w \<Rightarrow> seek_by (icount * w)
      | None \<Rightarrow> if itype = 8 then repeat_unit (nat icount) skip_string
          else if itype = 9 then repeat_unit (nat icount) (skip_val fuel 9) else rreturn ())"
    have "fuelled fuel (rest itype icount)" for itype icount
      using Suc [of 9] by (auto simp: rest_def repeat_unit_def intro!: fuelled_bind fuelled_times fuelled_basic fuelled_string shrinks_times shrinks_skip
        split: option.split)
    then have "fuelled (Suc fuel) (rbind (unpack2 4 8) (\<lambda>x. rest (fst x) (snd x)))"
      by (intro fuelled_after) simp
    moreover have "skip_width 9 = None" by (simp add: skip_width_def)
    ultimately show ?thesis using True by (simp add: rest_def case_prod_beta')
  next
    case False
    then show ?thesis by (auto intro!: fuelled_basic fuelled_string split: option.split)
  qed
qed (simp add: fuelled_def)

lemma fuelled_body: "fuelled fuel (rbind (unpack1 4) (\<lambda>version. rbind (unpack2 8 8) (\<lambda>(tensor_count, kv_count).
    rbind (repeat_unit (nat kv_count) (skip_entry fuel)) (\<lambda>_. rtimes (nat tensor_count) read_entry))))"
proof -
  have entry: "fuelled fuel (skip_entry fuel)" "shrinks (skip_entry fuel)"
    unfolding skip_entry_def
    by (intro fuelled_bind shrinks_bind fuelled_string shrinks_unpack fuelled_unpack fuelled_skip shrinks_skip)+
  have tensor: "fuelled fuel read_entry" "shrinks read_entry"
    unfolding read_entry_def
    by (auto intro!: fuelled_bind shrinks_bind fuelled_string shrinks_unpack fuelled_unpack fuelled_times shrinks_times fuelled_basic shrinks_basic)
  have body: "fuelled fuel (rbind (repeat_unit k (skip_entry fuel)) (\<lambda>_. rtimes n read_entry))" for k n
    unfolding repeat_unit_def
    by (intro fuelled_bind shrinks_bind fuelled_times shrinks_times entry tensor fuelled_basic shrinks_basic)
  show ?thesis
    by (rule fuelled_bind, rule fuelled_unpack, rule shrinks_unpack, rule fuelled_bind, rule fuelled_unpack, rule shrinks_unpack)
      (simp add: case_prod_beta body)
qed

lemma fuelled_scan: "fast_scan (length file) (file, 0) \<noteq> Inl (RuntimeError ''nesting'')"
proof
  assume e: "fast_scan (length file) (file, 0) = Inl (RuntimeError ''nesting'')"
  define body where "body = rbind (unpack1 4) (\<lambda>version. rbind (unpack2 8 8) (\<lambda>(tensor_count, kv_count).
    rbind (repeat_unit (nat kv_count) (skip_entry (length file))) (\<lambda>_. rtimes (nat tensor_count) read_entry)))"
  have b: "fuelled (length file) body" unfolding body_def by (rule fuelled_body)
  have "take 4 file = [0x47, 0x47, 0x55, 0x46] \<and> body (drop 4 file, min 4 (int (length file))) = Inl (RuntimeError ''nesting'')"
    using e unfolding fast_scan_def body_def [symmetric] rbind_Inl [of "read_short 4"] by (auto simp: read_short_def rlift_def split: if_splits)
  moreover have "length (drop 4 file) < length file" if "take 4 file = [0x47, 0x47, 0x55, 0x46]"
    using arg_cong [OF that, of length] by simp
  ultimately show False using b unfolding fuelled_def by (metis fst_conv)
qed

text \<open>
  The scan of the metadata ends: the length of the file is enough fuel for every nesting of arrays, so the
  finder returns a tensor or one of the errors of the source.
\<close>

theorem finder_never_out_of_fuel:
  "hard_gate_find target file \<noteq> Inl (RuntimeError ''nesting'') \<and> experiment_find targets file \<noteq> Inl (RuntimeError ''nesting'')"
  using fuelled_scan [of "file"] by (auto simp: hard_gate_find_def experiment_find_def bind_res_Inl_iff split: option.splits list.splits)

section \<open>The finders agree with the checked reader\<close>

lemma rd_tensor_sized:
  "rd_tensor ordinal r = Inr (t, r') \<Longrightarrow> \<exists>n. tn_elements t = Some n \<and> tensor_size (tn_shape t) (tn_type_id t) = Inr (n, tn_payload_size t)"
  unfolding rd_tensor_def rbind_Inr by (auto simp: rlift_def rreturn_def bind_res_Inr_iff)

lemma rd_tensors_sized:
  "rd_tensors ordinal n r = Inr (ts, r') \<Longrightarrow> \<forall>t \<in> set ts. \<exists>n. tn_elements t = Some n \<and> tensor_size (tn_shape t) (tn_type_id t) = Inr (n, tn_payload_size t)"
proof (induction n arbitrary: ordinal r ts)
  case (Suc n)
  then obtain t us r1 where "rd_tensor ordinal r = Inr (t, r1)" "rd_tensors (ordinal + 1) n r1 = Inr (us, r')" "ts = t # us"
    unfolding rd_tensors.simps rbind_Inr by (auto simp: rreturn_def)
  then show ?case using Suc.IH rd_tensor_sized by auto
qed (simp add: rreturn_def)

lemma classify_keeps:
  "tn_name (classify t) = tn_name t" "tn_shape (classify t) = tn_shape t" "tn_type_id (classify t) = tn_type_id t"
  "tn_relative_offset (classify t) = tn_relative_offset t" "tn_elements (classify t) = tn_elements t"
  "tn_payload_size (classify t) = tn_payload_size t" "tn_absolute_start (classify t) = tn_absolute_start t"
  "tn_absolute_end (classify t) = tn_absolute_end t" "tn_type_name (classify t) = tn_type_name t"
  by (auto simp: classify_def Let_def split: option.split prod.split)

text \<open>What placing a tensor keeps, and where it puts it.\<close>

definition placed_as :: "int \<Rightarrow> tensor \<Rightarrow> tensor \<Rightarrow> bool" where
  "placed_as data_start t t' \<longleftrightarrow> entry_of t' = entry_of t \<and> tn_elements t' = tn_elements t \<and> tn_payload_size t' = tn_payload_size t \<and>
     tn_absolute_start t' = data_start + tn_relative_offset t"

lemma place_tensor_placed: "place_tensor data_start t = Inr t' \<Longrightarrow> placed_as data_start t t'"
  by (auto simp: place_tensor_def placed_as_def entry_of_def classify_keeps bind_res_Inr_iff checked_add16_Inr)

lemma parse_gguf_tensors:
  assumes "parse_gguf sha coerce file = Inr a"
  obtains version tc mc entries tensors rest where
    "rd_header (length file) (file, 0) = Inr ((version, tc, mc, entries, tensors), (rest, ar_tensor_info_end a))"
    "align_up16 (ar_tensor_info_end a) (ar_alignment a) = Inr (ar_data_start a)"
    "list_all2 (placed_as (ar_data_start a)) tensors (ar_tensors a)"
proof -
  obtain h rest pos where h: "rd_header (length file) (file, 0) = Inr (h, (rest, pos))"
    using assms by (auto simp: parse_gguf_def bind_res_Inr_iff)
  obtain version tc mc entries tensors where hh: "h = (version, tc, mc, entries, tensors)" by (cases h)
  obtain alignment data_start placed where p: "align_up16 pos alignment = Inr data_start" "map_res (place_tensor data_start) tensors = Inr placed"
    "ar_tensor_info_end a = pos" "ar_alignment a = alignment" "ar_data_start a = data_start" "ar_tensors a = set_gaps data_start placed"
    using assms h hh unfolding parse_gguf_def by (auto simp: bind_res_Inr_iff Let_def)
  have "list_all2 (placed_as data_start) tensors (set_gaps data_start placed)"
    using p(2) unfolding map_res_list_all2 set_gaps_def Let_def list_all2_map2
    by (rule list_all2_mono) (use place_tensor_placed in \<open>fastforce simp: placed_as_def entry_of_def\<close>)
  then show ?thesis using that h hh p by simp
qed

lemma find_image:
  assumes "list_all2 R xs ys" "\<And>x y. R x y \<Longrightarrow> P (f x) \<longleftrightarrow> Q y"
  shows "case find Q ys of None \<Rightarrow> find P (map f xs) = None | Some y \<Rightarrow> y \<in> set ys \<and> (\<exists>x \<in> set xs. R x y \<and> find P (map f xs) = Some (f x))"
  using assms(1)
proof (induction xs ys rule: list_all2_induct)
  case (Cons x xs y ys)
  then show ?case using assms(2) [OF Cons.hyps(1)] by (auto split: option.splits)
qed simp

text \<open>
  C8. The fast finder agrees with the checked reader: on every file which the reader accepts and whose payloads are aligned to 32,
  the finder succeeds exactly when a tensor has the name; it then gives the shape, type and element count of the first such
  tensor and the absolute position the reader computed, and for a \<open>Q8_0\<close> tensor also its payload size.
\<close>

theorem fast_finder_agrees:
  assumes "parse_gguf sha coerce file = Inr a" "ar_alignment a = 32" "int (length file) < 2 ^ 63"
  shows "case find (\<lambda>t. tn_name t = target) (ar_tensors a) of
      None \<Rightarrow> hard_gate_find target file = Inl (ValueError ''tensor not found in GGUF'')
    | Some t \<Rightarrow> \<exists>info. hard_gate_find target file = Inr info \<and> te_name info = target \<and> te_shape info = tn_shape t \<and>
        te_type info = tn_type_id t \<and> lo_start info = tn_absolute_start t \<and> Some (lo_elements info) = tn_elements t \<and>
        (tn_type_id t = 8 \<longrightarrow> tn_payload_size t \<in> {None, Some (lo_payload info)})"
proof -
  obtain version tc mc entries tensors rest where h: "rd_header (length file) (file, 0) = Inr ((version, tc, mc, entries, tensors), (rest, ar_tensor_info_end a))"
    "align_up16 (ar_tensor_info_end a) (ar_alignment a) = Inr (ar_data_start a)" "list_all2 (placed_as (ar_data_start a)) tensors (ar_tensors a)"
    using parse_gguf_tensors [OF assms(1)] by blast
  have start: "ar_data_start a = (ar_tensor_info_end a + 31) div 32 * 32" using h(2) assms(2) by (simp add: align_up16_def add.commute split: if_splits)
  have "in_file (file, 0)" using assms(3) by (simp add: in_file_def)
  then have scan: "fast_scan (length file) (file, 0) = Inr (map entry_of tensors, (rest, ar_tensor_info_end a))"
    using coversD [OF covers_header _ h(1)] by simp
  have sized: "\<forall>t \<in> set tensors. \<exists>n. tn_elements t = Some n \<and> tensor_size (tn_shape t) (tn_type_id t) = Inr (n, tn_payload_size t)"
  proof -
    have "\<exists>r n. rd_tensors 0 n r = Inr (tensors, (rest, ar_tensor_info_end a))"
      using h(1) unfolding rd_header_def rbind_Inr by (auto simp: rlift_def rreturn_def rbind_Inr split: if_splits)
    then show ?thesis using rd_tensors_sized by blast
  qed
  have image: "case find (\<lambda>t. tn_name t = target) (ar_tensors a) of None \<Rightarrow> find (\<lambda>e. te_name e = target) (map entry_of tensors) = None
      | Some t \<Rightarrow> t \<in> set (ar_tensors a) \<and> (\<exists>x \<in> set tensors. placed_as (ar_data_start a) x t \<and> find (\<lambda>e. te_name e = target) (map entry_of tensors) = Some (entry_of x))"
    by (rule find_image [OF h(3)]) (simp add: placed_as_def entry_of_def)
  show ?thesis
  proof (cases "find (\<lambda>t. tn_name t = target) (ar_tensors a)")
    case None
    then show ?thesis using image scan by (simp add: hard_gate_find_def)
  next
    case (Some t)
    then obtain x where x: "x \<in> set tensors" "placed_as (ar_data_start a) x t" "find (\<lambda>e. te_name e = target) (map entry_of tensors) = Some (entry_of x)"
      using image by auto
    let ?info = "locate (ar_tensor_info_end a) (entry_of x)"
    obtain n where n: "tn_elements x = Some n" "tensor_size (tn_shape x) (tn_type_id x) = Inr (n, tn_payload_size x)" using sized x(1) by blast
    have "hard_gate_find target file = Inr ?info" using scan x(3) by (simp add: hard_gate_find_def)
    moreover have "te_name ?info = target" using x(3) by (auto simp: locate_def Let_def find_Some_iff tensor_entry.defs)
    moreover have "n = prod_list (tn_shape x)" "tn_type_id x = 8 \<longrightarrow> tn_payload_size x \<in> {None, Some (n div 32 * 34)}"
      using tensor_size_result [OF n(2)] by (auto simp: TYPES_def split: if_splits)
    ultimately show ?thesis using x(2) n Some
      by (auto simp: locate_def Let_def placed_as_def entry_of_def start tensor_entry.defs)
  qed
qed

section \<open>A minimal container\<close>

text \<open>
  \<open>write_minimal_gguf\<close> of \<open>scripts/qualify_ccc_structured_baseline.py\<close>: one float32 tensor (as bit patterns) behind nine metadata
  entries; \<open>1e-5\<close> is its float32 bit pattern.
\<close>

datatype kv_value = Kv_Str string | Kv_Float "32 word" | Kv_Int int

definition minimal_kv :: "(string \<times> kv_value) list" where
  "minimal_kv = [(''general.architecture'', Kv_Str ''qwen3''), (''general.name'', Kv_Str ''ccc-qualification-tensor''),
     (''qwen3.block_count'', Kv_Int 64), (''qwen3.context_length'', Kv_Int 32768), (''qwen3.embedding_length'', Kv_Int 5120),
     (''qwen3.head_count'', Kv_Int 40), (''qwen3.attention.head_count_kv'', Kv_Int 8), (''qwen3.feed_forward_length'', Kv_Int 20480),
     (''qwen3.attention.layer_norm_rms_epsilon'', Kv_Float 0x3727C5AC)]"

definition TENSOR_NAME :: string where "TENSOR_NAME = ''blk.0.attn_k.weight''"

definition s_bytes :: "string \<Rightarrow> bytes" where
  "s_bytes x = le_enc 8 (int (length x)) @ str_bytes x"

definition kv_bytes :: "string \<times> kv_value \<Rightarrow> bytes" where
  "kv_bytes kv = s_bytes (fst kv) @ (case snd kv of
       Kv_Str v \<Rightarrow> le_enc 4 8 @ s_bytes v
     | Kv_Float v \<Rightarrow> le_enc 4 6 @ le_enc 4 (uint v)
     | Kv_Int v \<Rightarrow> le_enc 4 4 @ le_enc 4 v)"

definition write_minimal_gguf :: "32 word list \<Rightarrow> int \<Rightarrow> int \<Rightarrow> int \<Rightarrow> bytes res" where
  "write_minimal_gguf w ne0 ne1 type_id =
     bind_res (pack_le 8 ne0) (\<lambda>d0. bind_res (pack_le 8 ne1) (\<lambda>d1. bind_res (pack_le 4 type_id) (\<lambda>ty.
     let blob = [0x47, 0x47, 0x55, 0x46] @ le_enc 4 3 @ le_enc 8 1 @ le_enc 8 (int (length minimal_kv)) @ concat (map kv_bytes minimal_kv) @
           s_bytes TENSOR_NAME @ le_enc 4 2 @ d0 @ d1 @ ty @ le_enc 8 0;
         pad = (length blob + 31) div 32 * 32 - length blob in
     Inr (blob @ replicate pad 0 @ concat (map (\<lambda>x. le_enc 4 (uint x)) w)))))"

text \<open>It is the encoding of a header in the sense of \<open>Gguf_Roundtrip\<close>.\<close>

fun stored :: "kv_value \<Rightarrow> gguf_value" where
  "stored (Kv_Str v) = GString v"
| "stored (Kv_Float v) = GScalar 6 (uint v)"
| "stored (Kv_Int v) = GScalar 4 v"

definition minimal_entries :: "(string \<times> gguf_value) list" where
  "minimal_entries = map (\<lambda>(k, v). (k, stored v)) minimal_kv"

definition minimal_info :: "int \<Rightarrow> int \<Rightarrow> tensor_info" where
  "minimal_info ne0 ne1 = \<lparr>ti_name = TENSOR_NAME, ti_dims = [ne0, ne1], ti_type = 0, ti_offset = 0\<rparr>"

lemma kv_bytes_entry: "kv_bytes (k, v) = enc_entry (k, stored v)"
  by (cases v) (simp_all add: kv_bytes_def enc_entry_def s_bytes_def enc_string_def META_TYPES_def)

lemma write_minimal_header:
  assumes "write_minimal_gguf w ne0 ne1 0 = Inr file"
  defines "header \<equiv> enc_header 3 minimal_entries [minimal_info ne0 ne1]"
  shows "file = header @ replicate ((length header + 31) div 32 * 32 - length header) 0 @ concat (map (\<lambda>x. le_enc 4 (uint x)) w)"
    "0 \<le> ne0" "ne0 < 256 ^ 8" "0 \<le> ne1" "ne1 < 256 ^ 8"
proof -
  have e: "map kv_bytes minimal_kv = map enc_entry minimal_entries"
    unfolding minimal_entries_def map_map by (rule map_cong) (auto simp: kv_bytes_entry)
  then have "concat (map kv_bytes minimal_kv) = concat (map enc_entry minimal_entries)" "length minimal_kv = length minimal_entries"
    by (simp_all only: e) (simp add: minimal_entries_def)
  then have "header = [0x47, 0x47, 0x55, 0x46] @ le_enc 4 3 @ le_enc 8 1 @ le_enc 8 (int (length minimal_kv)) @ concat (map kv_bytes minimal_kv) @
      s_bytes TENSOR_NAME @ le_enc 4 2 @ le_enc 8 ne0 @ le_enc 8 ne1 @ le_enc 4 0 @ le_enc 8 0"
    unfolding header_def enc_header_def minimal_info_def enc_tensor_def s_bytes_def enc_string_def by (simp del: le_enc.simps)
  then show "file = header @ replicate ((length header + 31) div 32 * 32 - length header) 0 @ concat (map (\<lambda>x. le_enc 4 (uint x)) w)"
    "0 \<le> ne0" "ne0 < 256 ^ 8" "0 \<le> ne1" "ne1 < 256 ^ 8"
    using assms(1) unfolding write_minimal_gguf_def by (simp_all add: bind_res_Inr_iff Let_def del: le_enc.simps)
qed

lemma minimal_strings_ok: "\<forall>(k, v) \<in> set minimal_kv. string_ok k" "string_ok ''qwen3''" "string_ok ''ccc-qualification-tensor''" "string_ok TENSOR_NAME"
  by (simp_all add: minimal_kv_def TENSOR_NAME_def string_ok_def)

lemma minimal_header_ok:
  assumes "0 \<le> ne0" "ne0 < 256 ^ 8" "0 \<le> ne1" "ne1 < 256 ^ 8" "tensor_size [ne0, ne1] 0 = Inr r"
  shows "header_ok 3 minimal_entries [minimal_info ne0 ne1]"
proof -
  have "value_ok 1 (stored v) \<and> 0 \<le> type_of (stored v) \<and> type_of (stored v) < 256 ^ 4" if "(k, v) \<in> set minimal_kv" for k v
    using that minimal_strings_ok(2,3) by (auto simp: minimal_kv_def META_TYPES_def)
  then have "entry_ok (k, stored v)" if "(k, v) \<in> set minimal_kv" for k v
    using minimal_strings_ok(1) that by (intro entry_okI [where d = 1]) auto
  then have "list_all entry_ok minimal_entries" by (auto simp: minimal_entries_def list_all_iff)
  moreover have "info_ok (minimal_info ne0 ne1)" using assms minimal_strings_ok(4) by (auto simp: info_ok_def minimal_info_def)
  ultimately show ?thesis by (simp add: header_ok_def minimal_entries_def minimal_kv_def)
qed

lemma minimal_size:
  assumes "0 \<le> ne0" "0 \<le> ne1" "4 * (ne0 * ne1) < 2 ^ 64" "ne0 < 2 ^ 64"
  shows "tensor_size [ne0, ne1] 0 = Inr (ne0 * ne1, Some (ne0 * ne1 * 4))"
proof -
  have "0 \<le> ne0 * ne1" using assms by simp
  then have "checked_mul16 1 ne0 = Inr ne0" "checked_mul16 ne0 ne1 = Inr (ne0 * ne1)" "checked_mul16 (ne0 * ne1) 4 = Inr (ne0 * ne1 * 4)"
    using assms by (simp_all add: checked_mul16_Inr)
  then show ?thesis by (simp add: tensor_size_def TYPES_def)
qed

lemma set_gaps_single: "set_gaps d [t] = [t\<lparr>tn_gap_before := Some (tn_absolute_start t - d)\<rparr>]"
  by (simp add: set_gaps_def source_order_def)

lemma length_float_bytes: "length (concat (map (\<lambda>x. le_enc 4 (uint (x :: 32 word))) w)) = 4 * length w"
  by (induction w) (simp_all del: le_enc.simps)

lemma minimal_container_read:
  assumes "write_minimal_gguf w ne0 ne1 0 = Inr file" "int (length w) = ne0 * ne1" "int (length file) < 2 ^ 63"
  shows "\<exists>a t. parse_gguf sha coerce file = Inr a \<and> ar_alignment a = 32 \<and> ar_tensors a = [t] \<and> tn_name t = TENSOR_NAME \<and>
    tn_shape t = [ne0, ne1] \<and> tn_type_name t = ''F32'' \<and> tn_absolute_end t = Some (int (length file)) \<and>
    drop (nat (tn_absolute_start t)) file = concat (map (\<lambda>x. le_enc 4 (uint x)) w) \<and>
    map_of (ar_metadata a) ''qwen3.block_count'' = Some (MInt 64)"
proof -
  define header where "header = enc_header 3 minimal_entries [minimal_info ne0 ne1]"
  define data_start where "data_start = (length header + 31) div 32 * 32"
  define data where "data = concat (map (\<lambda>x. le_enc 4 (uint x)) w)"
  note written = write_minimal_header [OF assms(1), folded header_def]
  have f: "file = header @ replicate (data_start - length header) 0 @ data" using written(1) by (simp add: data_start_def data_def)
  have ds: "length header \<le> data_start" by (simp add: data_start_def)
  have len: "length file = data_start + 4 * length w" using ds unfolding f data_def by (simp only: length_append length_replicate length_float_bytes)
  have n: "int (length file) = int data_start + 4 * (ne0 * ne1)" using len assms(2) by simp
  then have "4 * (ne0 * ne1) < 2 ^ 64" using assms(3) by simp
  then have size: "tensor_size [ne0, ne1] 0 = Inr (ne0 * ne1, Some (ne0 * ne1 * 4))" using written by (intro minimal_size) simp_all
  have read: "rd_header (length file) (file, 0) = Inr ((3, 1, int (length minimal_entries), map (\<lambda>e. (fst e, value_of (snd e))) minimal_entries,
      [tensor_of 0 (minimal_info ne0 ne1)]), (replicate (data_start - length header) 0 @ data, int (length header)))"
    using gguf_header_roundtrip [OF minimal_header_ok [OF written(2-5) size], of "replicate (data_start - length header) 0 @ data", folded header_def] f by simp
  define metadata where "metadata = fold (\<lambda>(k, v) d. AList.update k v d) (map (\<lambda>e. (fst e, value_of (snd e))) minimal_entries) []"
  have metadata: "map_of metadata ''general.alignment'' = None" "map_of metadata ''qwen3.block_count'' = Some (MInt 64)"
    by (simp_all add: metadata_def minimal_entries_def minimal_kv_def META_TYPES_def scalar_of_def)
  have aligned: "align_up16 (int (length header)) 32 = Inr (int data_start)"
    by (simp add: align_up16_def data_start_def zdiv_int)
  define t where "t = classify ((tensor_of 0 (minimal_info ne0 ne1))\<lparr>tn_absolute_start := int data_start, tn_absolute_end := Some (int (length file))\<rparr>)"
  have "0 \<le> ne0 * ne1" using written by simp
  then have "int data_start < 2 ^ 64" "int (length file) < 2 ^ 64" "0 \<le> ne0 * ne1 * 4" using n assms(3) by simp_all
  then have "checked_add16 (int data_start) 0 = Inr (int data_start)" "checked_add16 (int data_start) (ne0 * ne1 * 4) = Inr (int (length file))"
    unfolding checked_add16_Inr using n by simp_all
  then have place: "place_tensor (int data_start) (tensor_of 0 (minimal_info ne0 ne1)) = Inr t"
    by (simp add: place_tensor_def tensor_of_def minimal_info_def size t_def)
  have t: "tn_name t = TENSOR_NAME" "tn_shape t = [ne0, ne1]" "tn_type_name t = ''F32''" "tn_absolute_end t = Some (int (length file))" "tn_absolute_start t = int data_start"
    by (simp_all add: t_def classify_keeps tensor_of_def minimal_info_def size type_name_of_def TYPES_def)
  have "drop data_start file = data" using ds unfolding f by simp
  then show ?thesis
    unfolding parse_gguf_def read by (simp add: metadata_def [symmetric] metadata aligned place set_gaps_single t data_def)
qed


text \<open>
  C22. The container written for the external quantiser reads back: the checked reader finds one float32 tensor of the given name and
  dimensions behind the nine entries, its payload is exactly the written weights, and it ends with the file.
\<close>

theorem minimal_container_roundtrip:
  assumes "write_minimal_gguf w ne0 ne1 0 = Inr file" "int (length w) = ne0 * ne1" "int (length file) < 2 ^ 63"
  shows "\<exists>a t. parse_gguf sha coerce file = Inr a \<and> ar_alignment a = 32 \<and> ar_tensors a = [t] \<and> tn_name t = TENSOR_NAME \<and>
    tn_shape t = [ne0, ne1] \<and> tn_type_name t = ''F32'' \<and> tn_absolute_end t = Some (int (length file)) \<and>
    drop (nat (tn_absolute_start t)) file = concat (map (\<lambda>x. le_enc 4 (uint x)) w) \<and>
    map_of (ar_metadata a) ''qwen3.block_count'' = Some (MInt 64)"
  by (rule minimal_container_read [OF assms])

definition sample_container :: bytes where
  "sample_container = projr (write_minimal_gguf [1, 2, 3, 4, 5, 6] 3 2 0)"

lemma sample_container: "write_minimal_gguf [1, 2, 3, 4, 5, 6] 3 2 0 = Inr sample_container"
  by (simp add: sample_container_def write_minimal_gguf_def pack_le_def Let_def del: le_enc.simps)

lemma sample_container_length: "length sample_container = 504"
  by (simp add: sample_container_def write_minimal_gguf_def pack_le_def Let_def minimal_kv_def kv_bytes_def s_bytes_def str_bytes_def TENSOR_NAME_def
      del: le_enc.simps)

theorem minimal_container_roundtrip_witness:
  "\<exists>a t. parse_gguf (\<lambda>_. []) (\<lambda>_. Inl TypeError) sample_container = Inr a \<and> ar_alignment a = 32 \<and> ar_tensors a = [t] \<and> tn_name t = TENSOR_NAME \<and>
    tn_shape t = [3, 2] \<and> drop (nat (tn_absolute_start t)) sample_container = concat (map (\<lambda>x. le_enc 4 (uint x)) [1, 2, 3, 4, 5, 6 :: 32 word])"
proof -
  have "int (length [1, 2, 3, 4, 5, 6 :: 32 word]) = 3 * 2" "int (length sample_container) < 2 ^ 63" by (simp_all add: sample_container_length)
  from minimal_container_roundtrip [OF sample_container this, of "\<lambda>_. []" "\<lambda>_. Inl TypeError"] show ?thesis by blast
qed

theorem fast_finder_agrees_witness:
  "\<exists>info. hard_gate_find TENSOR_NAME sample_container = Inr info \<and> te_shape info = [3, 2]"
proof -
  have b: "int (length sample_container) < 2 ^ 63" "int (length [1, 2, 3, 4, 5, 6 :: 32 word]) = 3 * 2" by (simp_all add: sample_container_length)
  obtain a t where a: "parse_gguf (\<lambda>_. []) (\<lambda>_. Inl TypeError) sample_container = Inr a" "ar_alignment a = 32" "ar_tensors a = [t]"
    "tn_name t = TENSOR_NAME" "tn_shape t = [3, 2]"
    using minimal_container_read [OF sample_container b(2,1), of "\<lambda>_. []" "\<lambda>_. Inl TypeError"] by blast
  from fast_finder_agrees [OF a(1,2) b(1), of TENSOR_NAME] show ?thesis by (auto simp: a)
qed

end
