(* ===== verification/Procedural.thy ===== *)
theory Procedural
  imports Complex_Main Prelude "HOL-Library.Product_Lexorder" "HOL-Library.Multiset"
begin

text \<open>
  The procedural weight generators of \<open>scripts/qualify_implicit_weight_feasibility.py\<close>: the 32-bit hash and
  the code books (\<open>mix32\<close>, \<open>popcount8\<close>, \<open>generator_codebook\<close>), the descriptor accounting, the split of the
  activation vectors, the rotated control, and the exact segmentation by dynamic programming.  A
  \<open>numpy.uint32\<close> is a 32-bit word.  The float32 values of the code books are dyadic and exact, so they are
  rationals; only the quotient by the square root of 8 in the last family rounds, and is a parameter.
\<close>

section \<open>Hash and code books\<close>

definition mix32 :: "32 word \<Rightarrow> 32 word" where
  "mix32 v = (let v1 = v XOR drop_bit 16 v; v2 = v1 * 0x7FEB352D; v3 = v2 XOR drop_bit 15 v2; v4 = v3 * 0x846CA68B in
     v4 XOR drop_bit 16 v4)"

definition popcount8 :: "8 word \<Rightarrow> 8 word" where
  "popcount8 v = (let v1 = v - (drop_bit 1 v AND 0x55); v2 = (v1 AND 0x33) + (drop_bit 2 v1 AND 0x33) in
     (v2 + drop_bit 4 v2) AND 0x0F)"

definition hashed :: "32 word \<Rightarrow> nat \<Rightarrow> 32 word" where
  "hashed seed i = mix32 (seed * 0x9E3779B9 + word_of_nat i * 0x85EBCA6B + 0xD1B54A35)"

definition signed16 :: "32 word \<Rightarrow> int" where
  "signed16 v = sint (ucast (drop_bit 16 v) :: 16 word)"

definition xorshift :: "32 word \<Rightarrow> 32 word" where
  "xorshift state = (let s1 = state XOR push_bit 13 state; s2 = s1 XOR drop_bit 17 s1 in s2 XOR push_bit 5 s2)"

definition hash_sign :: "32 word \<Rightarrow> nat \<Rightarrow> rat" where
  "hash_sign seed i = (if drop_bit 31 (hashed seed i) \<noteq> 0 then 1 else - 1)"

definition recurrence_row :: "nat \<Rightarrow> 32 word \<Rightarrow> rat list" where
  "recurrence_row length' seed = map (\<lambda>i. of_int (signed16 ((xorshift ^^ Suc i) (mix32 (seed + 0xA341316C) OR 1))) / 32768) [0..<length']"

definition FAMILIES :: "string list" where
  "FAMILIES = [''G0_HASH_SIGN'', ''G1_HASH_AFFINE'', ''G2_CENTER_DENSE'', ''G3_RECURRENCE'', ''G4_TINY_BASIS'']"

definition generator_codebook :: "(rat \<Rightarrow> rat) \<Rightarrow> string \<Rightarrow> nat \<Rightarrow> 32 word list \<Rightarrow> rat list list res" where
  "generator_codebook over_root8 family length' seeds =
     (if family = ''G0_HASH_SIGN'' then Inr (map (\<lambda>seed. map (hash_sign seed) [0..<length']) seeds)
      else if family = ''G1_HASH_AFFINE'' then Inr (map (\<lambda>seed. map (\<lambda>i. of_int (signed16 (hashed seed i)) / 32768) [0..<length']) seeds)
      else if family = ''G2_CENTER_DENSE'' then
        Inr (map (\<lambda>seed. map (\<lambda>i. (of_int (uint (popcount8 (ucast (hashed seed i)))) - 4) / 2) [0..<length']) seeds)
      else if family = ''G3_RECURRENCE'' then Inr (map (recurrence_row length') seeds)
      else if family = ''G4_TINY_BASIS'' then
        Inr (map (\<lambda>seed. map (\<lambda>i. over_root8 (\<Sum>k\<leftarrow>[0..<8].
          (if drop_bit k seed AND 1 \<noteq> 0 then 1 else - 1) * hash_sign (word_of_nat k + 0xB0) i)) [0..<length']) seeds)
      else Inl (ValueError ''unknown generator family''))"

section \<open>Descriptors\<close>

record descriptor =
  ds_segment_count :: int
  ds_descriptor_bits :: int
  ds_descriptor_bytes :: int
  ds_alignment_padding :: int
  ds_shared_bytes :: int
  ds_total_true_bytes :: int
  ds_true_bpw :: rat

definition TENSOR_METADATA_BYTES :: int where "TENSOR_METADATA_BYTES = 16"

text \<open>\<open>math.ceil(a / b)\<close> of integers whose quotient is exact in a float; the bits per weight are the value before rounding.\<close>

definition ceil_div :: "int \<Rightarrow> int \<Rightarrow> int" where
  "ceil_div a b = - (- a div b)"

definition descriptor_layout :: "string \<Rightarrow> int \<Rightarrow> int \<Rightarrow> descriptor res" where
  "descriptor_layout family length' element_count =
     (if length' = 0 then Inl ZeroDivisionError else
      let segment_count = ceil_div element_count length'; descriptor_bits = 8 + 16 + (if family = ''G1_HASH_AFFINE'' then 16 else 0);
          descriptor_bytes = ceil_div (segment_count * descriptor_bits) 8; base = TENSOR_METADATA_BYTES + descriptor_bytes;
          aligned = (base + 63) div 64 * 64; shared = (if family = ''G4_TINY_BASIS'' then 2048 else 16) in
      bind_res (require (element_count \<noteq> 0) ZeroDivisionError) (\<lambda>_.
      Inr \<lparr>ds_segment_count = segment_count, ds_descriptor_bits = descriptor_bits, ds_descriptor_bytes = descriptor_bytes,
        ds_alignment_padding = aligned - base, ds_shared_bytes = shared, ds_total_true_bytes = aligned + shared,
        ds_true_bpw = of_int ((aligned + shared) * 8) / of_int element_count\<rparr>))"

section \<open>Splitting and rotating\<close>

definition splitmix64 :: "nat \<Rightarrow> 64 word" where
  "splitmix64 i = (let v = word_of_nat i; v1 = (v XOR drop_bit 30 v) * 0xBF58476D1CE4E5B9; v2 = (v1 XOR drop_bit 27 v1) * 0x94D049BB133111EB in
     v2 XOR drop_bit 31 v2)"

definition vector_split :: "nat \<Rightarrow> nat list \<times> nat list" where
  "vector_split total_count = (let order = sort_key (\<lambda>i. uint (splitmix64 i)) [0..<total_count]; midpoint = total_count div 2 in
     (sort (take midpoint order), sort (drop midpoint order)))"

definition rotate_segment :: "nat \<Rightarrow> 'a list \<Rightarrow> nat \<Rightarrow> 'a list" where
  "rotate_segment length' segment ordinal =
     (let shift = (ordinal * 13 + 7) mod length'; shift' = (if shift = 0 then 1 else shift) in
      map (\<lambda>i. segment ! ((i + shift') mod length')) [0..<length'])"

definition permuted_control :: "'a list \<Rightarrow> nat \<Rightarrow> 'a list res" where
  "permuted_control values length' =
     (if length' = 0 \<or> length values mod length' \<noteq> 0 then Inl (ValueError ''cannot reshape array'')
      else Inr (concat (map (\<lambda>k. rotate_segment length' (take length' (drop (k * length') values)) k) [0..<length values div length'])))"

section \<open>Choosing the best candidate\<close>

record validation_row =
  vr_candidate :: string
  vr_true_bpw :: rat
  vr_mean_relative_l2 :: rat

definition select_best_fixed :: "validation_row list \<Rightarrow> string res" where
  "select_best_fixed rows = (let eligible = filter (\<lambda>row. vr_true_bpw row \<le> 2) rows;
     pool = (if eligible = [] then rows else eligible) in
     bind_res (require (pool \<noteq> []) (ValueError ''min() arg is an empty sequence'')) (\<lambda>_.
     Inr (vr_candidate (arg_min_list (\<lambda>row. (vr_mean_relative_l2 row, vr_true_bpw row)) pool))))"

section \<open>Exact segmentation\<close>

type_synonym 'c costs = "((nat \<times> nat) \<times> 'c) list"
type_synonym 'c table = "'c option list \<times> (nat \<times> nat) option list"

text \<open>One candidate length at one end; \<open>None\<close> in the first list is infinity.\<close>

definition seg_step :: "'c :: linordered_ab_group_add costs \<Rightarrow> nat \<Rightarrow> nat \<Rightarrow> 'c table \<Rightarrow> 'c table" where
  "seg_step costs end' length' t = (case t of (best, previous) \<Rightarrow>
     if length' \<le> end' then
       (let start = end' - length' in case (best ! start, map_of costs (start, length')) of
          (Some b, Some c) \<Rightarrow>
            if (case best ! end' of None \<Rightarrow> True | Some w \<Rightarrow> b + c < w)
            then (best[end' := Some (b + c)], previous[end' := Some (start, length')]) else t
        | _ \<Rightarrow> t)
     else t)"

definition seg_table :: "'c :: linordered_ab_group_add costs \<Rightarrow> nat list \<Rightarrow> nat \<Rightarrow> 'c table" where
  "seg_table costs lengths whole = fold (\<lambda>end'. fold (seg_step costs end') lengths) [1..<Suc whole]
     (Some 0 # replicate whole None, replicate (Suc whole) None)"

text \<open>The walk back; \<open>None\<close> when the fuel runs out before the cursor is 0.\<close>

fun walk_back :: "nat \<Rightarrow> (nat \<times> nat) option list \<Rightarrow> nat \<Rightarrow> (nat \<times> nat) list res option" where
  "walk_back fuel previous 0 = Some (Inr [])"
| "walk_back 0 previous (Suc c) = None"
| "walk_back (Suc fuel) previous (Suc c) = (case previous ! Suc c of
       None \<Rightarrow> Some (Inl (AssertionError ''item is not None''))
     | Some item \<Rightarrow> map_option (\<lambda>r. bind_res r (\<lambda>rest. Inr (item # rest))) (walk_back fuel previous (fst item)))"

definition exact_segmentation :: "nat \<Rightarrow> nat list \<Rightarrow> 'c :: linordered_ab_group_add costs \<Rightarrow> (nat \<times> nat) list res option" where
  "exact_segmentation whole lengths costs = (case seg_table costs lengths whole of (best, previous) \<Rightarrow>
     if previous ! whole = None then Some (Inl (ValueError ''no exact segmentation''))
     else map_option (\<lambda>r. bind_res r (\<lambda>items. Inr (rev items))) (walk_back whole previous whole))"

section \<open>The segmentation is optimal\<close>

fun pieces :: "'c costs \<Rightarrow> nat list \<Rightarrow> nat \<Rightarrow> (nat \<times> nat) list \<Rightarrow> nat \<Rightarrow> bool" where
  "pieces costs lengths a [] b = (a = b)"
| "pieces costs lengths a ((s, l) # rest) b = (s = a \<and> l \<in> set lengths \<and> map_of costs (s, l) \<noteq> None \<and> pieces costs lengths (a + l) rest b)"

definition cost_of :: "'c :: linordered_ab_group_add costs \<Rightarrow> (nat \<times> nat) list \<Rightarrow> 'c" where
  "cost_of costs segs = (\<Sum>p\<leftarrow>segs. the (map_of costs p))"

lemma pieces_append: "pieces costs lengths a (xs @ ys) c \<longleftrightarrow> (\<exists>b. pieces costs lengths a xs b \<and> pieces costs lengths b ys c)"
  by (induction xs arbitrary: a) auto

lemma pieces_snoc: "pieces costs lengths 0 (xs @ [(s, l)]) n \<longleftrightarrow>
    pieces costs lengths 0 xs s \<and> n = s + l \<and> l \<in> set lengths \<and> map_of costs (s, l) \<noteq> None"
  by (auto simp: pieces_append)

lemma cost_snoc: "cost_of costs (xs @ [p]) = cost_of costs xs + the (map_of costs p)"
  by (simp add: cost_of_def)

lemma pieces_pos: "pieces costs lengths a xs b \<Longrightarrow> 0 \<notin> set lengths \<Longrightarrow> a < b \<or> xs = [] \<and> a = b"
  by (induction xs arbitrary: a) (auto, (metis add_gr_0 gr0I less_add_same_cancel1 less_trans)+)

text \<open>The costs of all segmentations of \<open>n\<close>, and of those whose last piece has a length in \<open>L\<close>.\<close>

definition all_costs :: "'c :: linordered_ab_group_add costs \<Rightarrow> nat list \<Rightarrow> nat \<Rightarrow> 'c set" where
  "all_costs costs lengths n = cost_of costs ` {xs. pieces costs lengths 0 xs n}"

definition ending_costs :: "'c :: linordered_ab_group_add costs \<Rightarrow> nat list \<Rightarrow> nat set \<Rightarrow> nat \<Rightarrow> 'c set" where
  "ending_costs costs lengths L n = {cost_of costs (xs @ [(s, l)]) | xs s l. pieces costs lengths 0 (xs @ [(s, l)]) n \<and> l \<in> L}"

definition least_of :: "'c :: linorder set \<Rightarrow> 'c option \<Rightarrow> bool" where
  "least_of C v \<longleftrightarrow> (case v of None \<Rightarrow> C = {} | Some w \<Rightarrow> w \<in> C \<and> (\<forall>c \<in> C. w \<le> c))"

lemma all_costs_0: "0 \<notin> set lengths \<Longrightarrow> all_costs costs lengths 0 = {0}"
proof -
  assume "0 \<notin> set lengths"
  then have "{xs. pieces costs lengths 0 xs 0} = {[]}"
    using pieces_pos by fastforce
  then show ?thesis by (simp add: all_costs_def cost_of_def)
qed

lemma all_costs_ending:
  assumes "0 < n"
  shows "all_costs costs lengths n = ending_costs costs lengths (set lengths) n"
proof -
  have "\<exists>ys s l. xs = ys @ [(s, l)] \<and> l \<in> set lengths" if "pieces costs lengths 0 xs n" for xs
    using that assms by (cases xs rule: rev_cases) (auto simp: pieces_snoc)
  then show ?thesis unfolding all_costs_def ending_costs_def by (fastforce simp: image_iff)
qed

lemma ending_empty: "ending_costs costs lengths {} n = {}"
  by (simp add: ending_costs_def)

lemma ending_insert: "ending_costs costs lengths (insert l L) n = ending_costs costs lengths L n \<union> ending_costs costs lengths {l} n"
  unfolding ending_costs_def by blast

lemma ending_one:
  assumes "l \<in> set lengths"
  shows "ending_costs costs lengths {l} n = (if l \<le> n then (case map_of costs (n - l, l) of None \<Rightarrow> {}
     | Some c \<Rightarrow> (\<lambda>b. b + c) ` all_costs costs lengths (n - l)) else {})"
proof -
  have "pieces costs lengths 0 (xs @ [(s, l)]) n \<longleftrightarrow> l \<le> n \<and> s = n - l \<and> pieces costs lengths 0 xs (n - l) \<and> map_of costs (n - l, l) \<noteq> None" for xs s
    using assms by (auto simp: pieces_snoc)
  then show ?thesis by (auto simp: ending_costs_def all_costs_def cost_snoc split: option.splits)
qed

lemma least_of_union:
  assumes "least_of A v" "least_of B u"
  shows "least_of (A \<union> B) (case (v, u) of (None, _) \<Rightarrow> u | (_, None) \<Rightarrow> v | (Some x, Some y) \<Rightarrow> if y < x then u else v)"
  using assms by (auto simp: least_of_def split: option.splits)

lemma least_of_add: "least_of A (Some b) \<Longrightarrow> least_of ((\<lambda>x. x + c) ` A) (Some (b + (c :: 'c :: linordered_ab_group_add)))"
  by (auto simp: least_of_def)

definition previous_ok :: "'c :: linordered_ab_group_add costs \<Rightarrow> nat list \<Rightarrow> 'c option list \<Rightarrow> nat \<Rightarrow> (nat \<times> nat) option \<Rightarrow> bool" where
  "previous_ok costs lengths best n p \<longleftrightarrow> (case p of
       None \<Rightarrow> best ! n = None
     | Some (s, l) \<Rightarrow> s + l = n \<and> s < n \<and> l \<in> set lengths \<and>
         (\<exists>b c. best ! s = Some b \<and> map_of costs (s, l) = Some c \<and> best ! n = Some (b + c)))"

definition settled :: "'c :: linordered_ab_group_add costs \<Rightarrow> nat list \<Rightarrow> 'c table \<Rightarrow> nat \<Rightarrow> bool" where
  "settled costs lengths t m \<longleftrightarrow> least_of (all_costs costs lengths m) (fst t ! m) \<and> (0 < m \<longrightarrow> previous_ok costs lengths (fst t) m (snd t ! m))"

text \<open>The state of the inner loop at end \<open>n\<close> once the lengths of \<open>L\<close> have been tried.\<close>

definition tried :: "'c :: linordered_ab_group_add costs \<Rightarrow> nat list \<Rightarrow> nat \<Rightarrow> nat set \<Rightarrow> 'c table \<Rightarrow> bool" where
  "tried costs lengths n L t \<longleftrightarrow> (\<forall>m < n. settled costs lengths t m) \<and> least_of (ending_costs costs lengths L n) (fst t ! n) \<and>
     previous_ok costs lengths (fst t) n (snd t ! n) \<and> n < length (fst t) \<and> n < length (snd t)"

lemma settled_update: "m < n \<Longrightarrow> settled costs lengths (best[n := x], previous[n := y]) m = settled costs lengths (best, previous) m"
  by (auto simp: settled_def previous_ok_def nth_list_update split: option.splits)

lemma seg_step_tried:
  assumes "tried costs lengths n L t" "l \<in> set lengths" "0 < l" "0 < n"
  shows "tried costs lengths n (insert l L) (seg_step costs n l t)"
proof -
  obtain best previous where t: "t = (best, previous)" by (cases t)
  have inv: "\<forall>m < n. settled costs lengths (best, previous) m" "least_of (ending_costs costs lengths L n) (best ! n)"
      "previous_ok costs lengths best n (previous ! n)" "n < length best" "n < length previous"
    using assms(1) by (auto simp: t tried_def)
  consider "n < l" | "l \<le> n" "map_of costs (n - l, l) = None" | "l \<le> n" "best ! (n - l) = None"
    | b c where "l \<le> n" "map_of costs (n - l, l) = Some c" "best ! (n - l) = Some b" by (cases "l \<le> n") fastforce+
  then show ?thesis
  proof cases
    case 1 then show ?thesis using assms by (simp add: t seg_step_def tried_def ending_insert [of costs lengths l L] ending_one)
  next
    case 2 then show ?thesis using assms by (simp add: t seg_step_def tried_def ending_insert [of costs lengths l L] ending_one Let_def split: option.splits)
  next
    case 3
    have "settled costs lengths (best, previous) (n - l)" using inv(1) assms(3,4) by simp
    then have "all_costs costs lengths (n - l) = {}" using 3(2) by (simp add: settled_def least_of_def)
    then show ?thesis using 3 assms by (simp add: t seg_step_def tried_def ending_insert [of costs lengths l L] ending_one Let_def split: option.splits)
  next
    case 4
    have "settled costs lengths (best, previous) (n - l)" using inv(1) assms(3,4) by simp
    then have "least_of (all_costs costs lengths (n - l)) (Some b)" using 4(3) by (simp add: settled_def)
    then have one: "least_of (ending_costs costs lengths {l} n) (Some (b + c))"
      using 4 least_of_add by (auto simp: ending_one [OF assms(2)])
    have lt: "n - l < n" using assms(3,4) by simp
    show ?thesis
    proof (cases "case best ! n of None \<Rightarrow> True | Some w \<Rightarrow> b + c < w")
      case True
      then have "least_of (ending_costs costs lengths (insert l L) n) (Some (b + c))"
        using least_of_union [OF inv(2) one] by (auto simp: ending_insert [of costs lengths l L] split: option.splits if_splits)
      then show ?thesis using True 4 inv lt assms(2)
        by (auto simp: t seg_step_def tried_def Let_def settled_update previous_ok_def)
    next
      case False
      then have "least_of (ending_costs costs lengths (insert l L) n) (best ! n)"
        using least_of_union [OF inv(2) one] by (auto simp: ending_insert [of costs lengths l L] split: option.splits if_splits)
      then show ?thesis using False 4 inv by (simp add: t seg_step_def tried_def Let_def)
    qed
  qed
qed

lemma inner_loop_tried:
  assumes "tried costs lengths n L t" "set ls \<subseteq> set lengths" "0 \<notin> set lengths" "0 < n"
  shows "tried costs lengths n (set ls \<union> L) (fold (seg_step costs n) ls t)"
  using assms
proof (induction ls arbitrary: t L)
  case (Cons l ls)
  have "l \<in> set lengths" "0 < l" using Cons.prems(2,3) by (auto intro: gr0I)
  then have "tried costs lengths n (insert l L) (seg_step costs n l t)" using seg_step_tried Cons.prems(1,4) by blast
  from Cons.IH [OF this] show ?case using Cons.prems by simp
qed simp

lemma seg_step_beyond: "n < m \<Longrightarrow> fst (seg_step costs n l t) ! m = fst t ! m \<and> snd (seg_step costs n l t) ! m = snd t ! m"
  by (auto simp: seg_step_def Let_def split: prod.splits option.splits)

lemma inner_loop_beyond: "n < m \<Longrightarrow> fst (fold (seg_step costs n) ls t) ! m = fst t ! m \<and> snd (fold (seg_step costs n) ls t) ! m = snd t ! m"
  by (induction ls arbitrary: t) (simp_all add: seg_step_beyond)

lemma seg_step_lengths: "length (fst (seg_step costs n l t)) = length (fst t) \<and> length (snd (seg_step costs n l t)) = length (snd t)"
  by (auto simp: seg_step_def Let_def split: prod.splits option.splits)

lemma inner_loop_lengths: "length (fst (fold (seg_step costs n) ls t)) = length (fst t) \<and> length (snd (fold (seg_step costs n) ls t)) = length (snd t)"
  by (induction ls arbitrary: t) (simp_all add: seg_step_lengths)

definition table_upto :: "'c :: linordered_ab_group_add costs \<Rightarrow> nat list \<Rightarrow> nat \<Rightarrow> nat \<Rightarrow> 'c table \<Rightarrow> bool" where
  "table_upto costs lengths whole n t \<longleftrightarrow> (\<forall>m < n. settled costs lengths t m) \<and> length (fst t) = Suc whole \<and> length (snd t) = Suc whole \<and>
     (\<forall>m. n \<le> m \<longrightarrow> m \<le> whole \<longrightarrow> fst t ! m = None \<and> snd t ! m = None)"

lemma outer_step:
  assumes "table_upto costs lengths whole n t" "0 < n" "n \<le> whole" "0 \<notin> set lengths"
  shows "table_upto costs lengths whole (Suc n) (fold (seg_step costs n) lengths t)"
proof -
  have "tried costs lengths n {} t" using assms by (simp add: table_upto_def tried_def ending_empty least_of_def previous_ok_def)
  then have tr: "tried costs lengths n (set lengths) (fold (seg_step costs n) lengths t)"
    using inner_loop_tried [of costs lengths n "{}" t lengths] assms by simp
  then have "settled costs lengths (fold (seg_step costs n) lengths t) n"
    using assms(2) by (simp add: tried_def settled_def all_costs_ending)
  then have "\<forall>m < Suc n. settled costs lengths (fold (seg_step costs n) lengths t) m"
    using tr by (auto simp: tried_def less_Suc_eq)
  then show ?thesis using assms(1) by (simp add: table_upto_def inner_loop_lengths inner_loop_beyond)
qed

lemma seg_table_settled:
  assumes "0 \<notin> set lengths" "n \<le> whole"
  shows "settled costs lengths (seg_table costs lengths whole) n"
proof -
  have "k \<le> whole \<Longrightarrow> table_upto costs lengths whole (Suc k) (fold (\<lambda>end'. fold (seg_step costs end') lengths) [1..<Suc k]
      (Some 0 # replicate whole None, replicate (Suc whole) None))" for k
  proof (induction k)
    case 0
    then show ?case using assms(1) by (auto simp: table_upto_def settled_def all_costs_0 least_of_def nth_Cons split: nat.splits)
  next
    case (Suc k)
    have "[1..<Suc (Suc k)] = [1..<Suc k] @ [Suc k]" by simp
    with outer_step [OF Suc.IH] Suc.prems assms(1) show ?case by simp
  qed
  from this [of whole] show ?thesis using assms(2) by (simp add: table_upto_def seg_table_def)
qed

lemma walk_back_chain:
  assumes "\<forall>m \<le> c. settled costs lengths (best, previous) m" "c \<le> fuel" "best ! c = Some w" "0 \<notin> set lengths"
  shows "\<exists>items. walk_back fuel previous c = Some (Inr items) \<and> pieces costs lengths 0 (rev items) c \<and> cost_of costs (rev items) = w"
  using assms
proof (induction fuel previous c arbitrary: w rule: walk_back.induct)
  case (1 fuel previous)
  then show ?case by (auto simp: settled_def all_costs_0 least_of_def cost_of_def)
next
  case (3 fuel previous c)
  obtain s l b v where p: "previous ! Suc c = Some (s, l)" "s + l = Suc c" "s < Suc c" "l \<in> set lengths"
      "best ! s = Some b" "map_of costs (s, l) = Some v" "w = b + v"
    using 3(2)[rule_format, of "Suc c"] 3(4) by (auto simp: settled_def previous_ok_def split: option.splits)
  obtain items where i: "walk_back fuel previous s = Some (Inr items)" "pieces costs lengths 0 (rev items) s" "cost_of costs (rev items) = b"
    using 3(1) [OF p(1), of b] 3(2,3,5) p by auto
  show ?case using i p by (auto simp: pieces_snoc cost_snoc)
qed simp

text \<open>
  C10. The segmentation is exact and optimal.  For positive candidate lengths the program returns a chain of
  priced pieces that covers the whole range and whose cost no other chain undercuts; it raises only when
  there is no chain at all, and its walk back always ends.
\<close>

theorem segmentation_optimal:
  assumes "0 \<notin> set lengths" "0 < whole"
  shows "(\<exists>segs. exact_segmentation whole lengths costs = Some (Inr segs) \<and> pieces costs lengths 0 segs whole \<and>
       (\<forall>other. pieces costs lengths 0 other whole \<longrightarrow> cost_of costs segs \<le> cost_of costs other)) \<or>
     (exact_segmentation whole lengths costs = Some (Inl (ValueError ''no exact segmentation'')) \<and>
       (\<forall>other. \<not> pieces costs lengths 0 other whole))"
proof -
  obtain best previous where t: "seg_table costs lengths whole = (best, previous)" by (cases "seg_table costs lengths whole")
  have all: "\<forall>m \<le> whole. settled costs lengths (best, previous) m" using seg_table_settled [OF assms(1)] by (metis t)
  then have top: "least_of (all_costs costs lengths whole) (best ! whole)" "previous_ok costs lengths best whole (previous ! whole)"
    using assms(2) by (auto simp: settled_def)
  show ?thesis
  proof (cases "previous ! whole")
    case None
    then have "all_costs costs lengths whole = {}" using top by (simp add: previous_ok_def least_of_def)
    then show ?thesis using None by (auto simp: exact_segmentation_def t all_costs_def)
  next
    case (Some p)
    then obtain w where w: "best ! whole = Some w" using top(2) by (cases p) (auto simp: previous_ok_def)
    obtain items where i: "walk_back whole previous whole = Some (Inr items)" "pieces costs lengths 0 (rev items) whole" "cost_of costs (rev items) = w"
      using walk_back_chain [OF all _ w assms(1)] by blast
    have "\<forall>other. pieces costs lengths 0 other whole \<longrightarrow> w \<le> cost_of costs other"
      using top(1) w by (auto simp: least_of_def all_costs_def)
    then show ?thesis using i Some by (simp add: exact_segmentation_def t)
  qed
qed

theorem segmentation_optimal_witness:
  "(\<exists>segs. exact_segmentation 4 [1, 3] [((0, 1), 5 :: int), ((1, 3), 2), ((0, 3), 1), ((3, 1), 7 )] = Some (Inr segs) \<and>
       pieces [((0, 1), 5 :: int), ((1, 3), 2), ((0, 3), 1), ((3, 1), 7)] [1, 3] 0 segs 4 \<and>
       (\<forall>other. pieces [((0, 1), 5 :: int), ((1, 3), 2), ((0, 3), 1), ((3, 1), 7)] [1, 3] 0 other 4 \<longrightarrow>
          cost_of [((0, 1), 5 :: int), ((1, 3), 2), ((0, 3), 1), ((3, 1), 7)] segs \<le> cost_of [((0, 1), 5 :: int), ((1, 3), 2), ((0, 3), 1), ((3, 1), 7)] other)) \<or>
     (exact_segmentation 4 [1, 3] [((0, 1), 5 :: int), ((1, 3), 2), ((0, 3), 1), ((3, 1), 7 )] = Some (Inl (ValueError ''no exact segmentation'')) \<and>
       (\<forall>other. \<not> pieces [((0, 1), 5 :: int), ((1, 3), 2), ((0, 3), 1), ((3, 1), 7 )] [1, 3] 0 other 4))"
  by (rule segmentation_optimal) simp_all

text \<open>With nothing to cover there is no previous item at all, and the function raises instead of returning no pieces.\<close>

lemma segmentation_of_nothing: "exact_segmentation 0 lengths costs = Some (Inl (ValueError ''no exact segmentation''))"
  by (simp add: exact_segmentation_def seg_table_def)

section \<open>The descriptor accounting\<close>

lemma ceil_div_bounds:
  assumes "0 < b"
  shows "a \<le> b * ceil_div a b \<and> b * ceil_div a b < a + b"
proof -
  have "b * ceil_div a b = a + (- a mod b)" using mult_div_mod_eq [of b "- a"] unfolding ceil_div_def by linarith
  then show ?thesis using pos_mod_bound [OF assms, of "- a"] pos_mod_sign [OF assms, of "- a"] by linarith
qed

text \<open>
  The descriptor accounting is tight: the segments cover the tensor with less than one segment to
  spare, their descriptors fit into the counted bytes with less than a byte to spare, and the padding completes
  the metadata and the descriptors to a multiple of 64 with less than 64 bytes.
\<close>

theorem descriptor_accounts:
  assumes "descriptor_layout family n elements = Inr d" "0 < n"
  shows "elements \<le> n * ds_segment_count d" "n * ds_segment_count d < elements + n"
    "ds_segment_count d * ds_descriptor_bits d \<le> 8 * ds_descriptor_bytes d"
    "8 * ds_descriptor_bytes d < ds_segment_count d * ds_descriptor_bits d + 8"
    "0 \<le> ds_alignment_padding d" "ds_alignment_padding d < 64"
    "64 dvd TENSOR_METADATA_BYTES + ds_descriptor_bytes d + ds_alignment_padding d"
    "ds_total_true_bytes d = TENSOR_METADATA_BYTES + ds_descriptor_bytes d + ds_alignment_padding d + ds_shared_bytes d"
proof -
  have d: "d = (let segment_count = ceil_div elements n; descriptor_bits = 8 + 16 + (if family = ''G1_HASH_AFFINE'' then 16 else 0);
          descriptor_bytes = ceil_div (segment_count * descriptor_bits) 8; base = TENSOR_METADATA_BYTES + descriptor_bytes;
          aligned = (base + 63) div 64 * 64; shared = (if family = ''G4_TINY_BASIS'' then 2048 else 16) in
      \<lparr>ds_segment_count = segment_count, ds_descriptor_bits = descriptor_bits, ds_descriptor_bytes = descriptor_bytes,
        ds_alignment_padding = aligned - base, ds_shared_bytes = shared, ds_total_true_bytes = aligned + shared,
        ds_true_bpw = of_int ((aligned + shared) * 8) / of_int elements\<rparr>)"
    using assms by (auto simp: descriptor_layout_def Let_def bind_res_Inr_iff split: if_splits)
  show "elements \<le> n * ds_segment_count d" "n * ds_segment_count d < elements + n"
    using ceil_div_bounds [OF assms(2), of elements] by (simp_all add: d Let_def)
  show "ds_segment_count d * ds_descriptor_bits d \<le> 8 * ds_descriptor_bytes d"
      "8 * ds_descriptor_bytes d < ds_segment_count d * ds_descriptor_bits d + 8"
    using ceil_div_bounds [of 8 "ds_segment_count d * ds_descriptor_bits d"] by (simp_all add: d Let_def)
  show "0 \<le> ds_alignment_padding d" "ds_alignment_padding d < 64"
      "64 dvd TENSOR_METADATA_BYTES + ds_descriptor_bytes d + ds_alignment_padding d"
    by (simp_all add: d Let_def)
  show "ds_total_true_bytes d = TENSOR_METADATA_BYTES + ds_descriptor_bytes d + ds_alignment_padding d + ds_shared_bytes d"
    by (simp add: d Let_def)
qed

section \<open>The chosen candidate\<close>

text \<open>
  The best fixed candidate is one of the rows; it keeps to two bits per weight whenever any row does, and among
  the rows it competes with none has a smaller validation error, nor the same error with fewer bits.
\<close>

theorem best_fixed_is_best:
  "case select_best_fixed rows of
       Inl e \<Rightarrow> rows = [] \<and> e = ValueError ''min() arg is an empty sequence''
     | Inr name \<Rightarrow> \<exists>row \<in> set rows. vr_candidate row = name \<and>
         ((\<exists>r \<in> set rows. vr_true_bpw r \<le> 2) \<longrightarrow> vr_true_bpw row \<le> 2) \<and>
         (\<forall>r \<in> set rows. (vr_true_bpw row \<le> 2 \<longrightarrow> vr_true_bpw r \<le> 2) \<longrightarrow>
            vr_mean_relative_l2 row < vr_mean_relative_l2 r \<or>
            vr_mean_relative_l2 row = vr_mean_relative_l2 r \<and> vr_true_bpw row \<le> vr_true_bpw r)"
proof -
  define pool where "pool = (let eligible = filter (\<lambda>row. vr_true_bpw row \<le> 2) rows in if eligible = [] then rows else eligible)"
  define best where "best = arg_min_list (\<lambda>row. (vr_mean_relative_l2 row, vr_true_bpw row)) pool"
  have pool: "set pool = (if \<exists>r \<in> set rows. vr_true_bpw r \<le> 2 then {r \<in> set rows. vr_true_bpw r \<le> 2} else set rows)"
    by (auto simp: pool_def Let_def filter_empty_conv)
  show ?thesis
  proof (cases "pool = []")
    case True
    then have "rows = []" using pool by (auto split: if_splits)
    then show ?thesis by (simp add: select_best_fixed_def)
  next
    case False
    have best: "best \<in> set pool" unfolding best_def using False by (rule arg_min_list_in)
    have "(vr_mean_relative_l2 best, vr_true_bpw best) \<le> (vr_mean_relative_l2 r, vr_true_bpw r)" if "r \<in> set pool" for r
      using arg_min_list_le [OF that, of "\<lambda>row. (vr_mean_relative_l2 row, vr_true_bpw row)"] unfolding best_def by simp
    then have "vr_mean_relative_l2 best < vr_mean_relative_l2 r \<or> vr_mean_relative_l2 best = vr_mean_relative_l2 r \<and> vr_true_bpw best \<le> vr_true_bpw r"
      if "r \<in> set pool" for r using that by (fastforce simp: less_eq_prod_def)
    moreover have "select_best_fixed rows = Inr (vr_candidate best)"
      using False by (simp add: select_best_fixed_def best_def pool_def Let_def)
    ultimately show ?thesis using best pool by (auto split: if_splits)
  qed
qed

theorem best_fixed_is_best_witness:
  "case select_best_fixed [\<lparr>vr_candidate = ''a'', vr_true_bpw = 3, vr_mean_relative_l2 = 1\<rparr>] of
       Inl e \<Rightarrow> False
     | Inr name \<Rightarrow> name = ''a''"
  using best_fixed_is_best [of "[\<lparr>vr_candidate = ''a'', vr_true_bpw = 3, vr_mean_relative_l2 = 1\<rparr>]"]
  by (auto split: sum.splits)

section \<open>The split and the control\<close>

lemma set_half: "set (take k xs) \<union> set (drop k xs) = set xs"
  by (metis append_take_drop_id set_append)

text \<open>
  The validation and the test vectors are a partition: each half is strictly increasing, the two have no
  vector in common and together they are all vectors, and the first is the smaller half.
\<close>

theorem split_is_partition:
  "case vector_split n of (validation, test) \<Rightarrow> set validation \<inter> set test = {} \<and> set validation \<union> set test = {0..<n} \<and>
     sorted validation \<and> distinct validation \<and> sorted test \<and> distinct test \<and> length validation = n div 2"
proof -
  define order where "order = sort_key (\<lambda>i. uint (splitmix64 i)) [0..<n]"
  have d: "distinct order" "set order = {0..<n}" "length order = n" by (simp_all add: order_def)
  have "set (take (n div 2) order) \<inter> set (drop (n div 2) order) = {}" using d(1) by (simp add: set_take_disj_set_drop_if_distinct)
  then show ?thesis using d by (auto simp: vector_split_def order_def [symmetric] Let_def set_half [of "n div 2" order, symmetric])
qed

lemma shifted_mod_inj:
  assumes "(x + k) mod n = (y + k) mod n" "x < n" "y \<le> (x :: nat)"
  shows "x = y"
proof -
  have "n dvd (x + k) - (y + k)" using assms(1,3) by (metis add_le_mono1 mod_eq_dvd_iff_nat)
  then have "n dvd x - y" by simp
  moreover have "x - y < n" using assms(2) by simp
  ultimately show ?thesis using assms(3) by (auto dest: dvd_imp_le)
qed

lemma rotation_permutes:
  assumes "0 < n"
  shows "bij_betw (\<lambda>i. (i + k) mod n) {0..<n} {0..<(n :: nat)}"
proof -
  have "inj_on (\<lambda>i. (i + k) mod n) {0..<n}"
    by (rule inj_onI) (metis atLeastLessThan_iff nat_le_linear shifted_mod_inj)
  moreover have "(\<lambda>i. (i + k) mod n) ` {0..<n} \<subseteq> {0..<n}" using assms by auto
  ultimately show ?thesis by (simp add: bij_betw_def endo_inj_surj)
qed

lemma rotated_mset:
  assumes "0 < n" "length segment = n"
  shows "mset (map (\<lambda>i. segment ! ((i + k) mod n)) [0..<n]) = mset segment"
proof -
  have "mset (map (\<lambda>i. segment ! ((i + k) mod n)) [0..<n]) = image_mset (\<lambda>i. segment ! i) (image_mset (\<lambda>i. (i + k) mod n) (mset_set {0..<n}))"
    by (simp add: mset_map mset_upt comp_def image_mset.compositionality)
  also have "image_mset (\<lambda>i. (i + k) mod n) (mset_set {0..<n}) = mset_set {0..<n}"
    using rotation_permutes [OF assms(1), of k] by (simp add: image_mset_mset_set bij_betw_def)
  also have "image_mset (\<lambda>i. segment ! i) (mset_set {0..<n}) = mset segment"
    by (simp flip: mset_upt mset_map assms(2) add: map_nth)
  finally show ?thesis .
qed

lemma rotate_segment_mset: "0 < n \<Longrightarrow> length segment = n \<Longrightarrow> mset (rotate_segment n segment k) = mset segment"
  unfolding rotate_segment_def Let_def by (rule rotated_mset)

text \<open>The source of position \<open>i\<close> of a rotated segment is another position, when there is another.\<close>

lemma rotate_segment_moves:
  assumes "1 < n" "i < n" "length segment = n"
  shows "\<exists>j < n. j \<noteq> i \<and> rotate_segment n segment k ! i = segment ! j"
proof -
  define sh where "sh = (let s = (k * 13 + 7) mod n in if s = 0 then 1 else s)"
  have sh: "0 < sh" "sh < n" using assms(1) by (auto simp: sh_def Let_def)
  have "(i + sh) mod n \<noteq> i"
  proof (cases "i + sh < n")
    case False
    then have "(i + sh) mod n = i + sh - n" using assms(2) sh by (simp add: mod_if)
    then show ?thesis using sh False by simp
  qed (use sh in simp)
  moreover have "rotate_segment n segment k ! i = segment ! ((i + sh) mod n)"
    using assms(2) by (simp add: rotate_segment_def sh_def Let_def)
  moreover have "(i + sh) mod n < n" using assms(1) by simp
  ultimately show ?thesis by blast
qed

definition segment_of :: "nat \<Rightarrow> 'a list \<Rightarrow> nat \<Rightarrow> 'a list" where
  "segment_of n xs k = take n (drop (k * n) xs)"

lemma concat_length: "\<forall>k < m. length (f k) = n \<Longrightarrow> length (concat (map f [0..<m])) = m * n"
  by (induction m) auto

lemma concat_segments_nth:
  assumes "\<forall>k < m. length (f k) = n" "k < m" "i < n"
  shows "concat (map f [0..<m]) ! (k * n + i) = f k ! i \<and> k * n + i < length (concat (map f [0..<m]))"
  using assms
proof (induction m)
  case (Suc m)
  have len: "length (concat (map f [0..<m])) = m * n"
    using Suc.prems(1) by (simp add: concat_length)
  show ?case
  proof (cases "k = m")
    case False
    then have "k < m" using Suc.prems(2) by simp
    then show ?thesis using Suc.IH Suc.prems by (simp add: nth_append)
  qed (use len Suc.prems in \<open>simp add: nth_append\<close>)
qed simp

lemma segment_of_concat:
  assumes "\<forall>k < m. length (f k) = n" "k < m"
  shows "segment_of n (concat (map f [0..<m])) k = f k"
proof (rule nth_equalityI)
  have len: "length (concat (map f [0..<m])) = m * n"
    using assms(1) by (simp add: concat_length)
  have "Suc k * n \<le> m * n" using assms(2) by (intro mult_le_mono1) simp
  then show l: "length (segment_of n (concat (map f [0..<m])) k) = length (f k)"
    using assms len by (simp add: segment_of_def)
  fix i assume "i < length (segment_of n (concat (map f [0..<m])) k)"
  then have i: "i < n" using l assms by simp
  have "k * n \<le> length (concat (map f [0..<m]))" using len \<open>Suc k * n \<le> m * n\<close> unfolding len by (simp only: mult_Suc)
  with len i \<open>Suc k * n \<le> m * n\<close> show "segment_of n (concat (map f [0..<m])) k ! i = f k ! i"
    using concat_segments_nth [OF assms(1,2) i] by (simp add: segment_of_def del: nth_drop) (simp add: nth_drop)
qed

text \<open>
  The control destroys the order and nothing else: it fails exactly on a tensor that the segment length
  does not divide; otherwise every segment keeps its values, and for segments longer than one
  element no position keeps its own.
\<close>

theorem control_permutes_segments:
  assumes "1 < n"
  shows "case permuted_control xs n of
       Inl _ \<Rightarrow> length xs mod n \<noteq> 0
     | Inr ys \<Rightarrow> length xs mod n = 0 \<and> length ys = length xs \<and>
         (\<forall>k < length xs div n. mset (segment_of n ys k) = mset (segment_of n xs k) \<and>
            (\<forall>i < n. \<exists>j < n. j \<noteq> i \<and> segment_of n ys k ! i = segment_of n xs k ! j))"
proof (cases "length xs mod n = 0")
  case True
  define f where "f k = rotate_segment n (segment_of n xs k) k" for k
  define m where "m = length xs div n"
  have m: "length xs = m * n" using True div_mult_mod_eq [of "length xs" n] by (simp add: m_def)
  have seg: "length (segment_of n xs k) = n" if "k < m" for k
  proof -
    have "Suc k * n \<le> m * n" using that by (intro mult_le_mono1) simp
    then show ?thesis using m by (simp add: segment_of_def)
  qed
  have f: "length (f k) = n" for k by (simp add: f_def rotate_segment_def Let_def)
  have out: "permuted_control xs n = Inr (concat (map f [0..<m]))"
    using True assms by (simp add: permuted_control_def f_def [abs_def] m_def segment_of_def)
  have "length (concat (map f [0..<m])) = length xs" using m f by (simp add: concat_length)
  moreover have "mset (f k) = mset (segment_of n xs k) \<and> (\<forall>i < n. \<exists>j < n. j \<noteq> i \<and> f k ! i = segment_of n xs k ! j)" if "k < m" for k
    using rotate_segment_mset [of n "segment_of n xs k" k] rotate_segment_moves [of n _ "segment_of n xs k" k] seg [OF that] assms
    by (simp add: f_def)
  ultimately show ?thesis unfolding out using True by (simp add: segment_of_concat f flip: m_def)
qed (use assms in \<open>simp add: permuted_control_def\<close>)

theorem control_permutes_segments_witness:
  "case permuted_control [1, 2, 3, 4 :: int] 2 of
       Inl _ \<Rightarrow> length [1, 2, 3, 4 :: int] mod 2 \<noteq> 0
     | Inr ys \<Rightarrow> length [1, 2, 3, 4 :: int] mod 2 = 0 \<and> length ys = length [1, 2, 3, 4 :: int] \<and>
         (\<forall>k < length [1, 2, 3, 4 :: int] div 2. mset (segment_of 2 ys k) = mset (segment_of 2 [1, 2, 3, 4] k) \<and>
            (\<forall>i < 2. \<exists>j < 2. j \<noteq> i \<and> segment_of 2 ys k ! i = segment_of 2 [1, 2, 3, 4] k ! j))"
  by (rule control_permutes_segments) simp

section \<open>The hash\<close>

text \<open>A word mixed with its own right shift determines it: the top bits are unchanged, and each lower bit is undone from above.\<close>

lemma xor_shift_inj:
  fixes v w :: "'a :: len word"
  assumes "v XOR drop_bit k v = w XOR drop_bit k w" "0 < k"
  shows "v = w"
proof (rule bit_eqI)
  have step: "bit v n = bit w n" if "bit v (n + k) = bit w (n + k)" for n
    using arg_cong [where f = "\<lambda>x. bit x n", OF assms(1)] that by (auto simp: bit_xor_iff bit_drop_bit_eq add.commute)
  have "bit v n = bit w n" for n
  proof (induction "LENGTH('a) - n" arbitrary: n rule: less_induct)
    case less
    then show ?case
    proof (cases "n < LENGTH('a)")
      case True
      then show ?thesis using step less assms(2) by simp
    qed (auto dest: bit_imp_le_length)
  qed
  then show "bit v n \<longleftrightarrow> bit w n" for n .
qed

lemma odd_factor_inj: "b * c = 1 \<Longrightarrow> v * b = w * b \<Longrightarrow> v = (w :: 'a :: comm_monoid_mult)"
  by (metis mult.assoc mult.right_neutral)

text \<open>
  The 32-bit hash loses nothing: two inputs with the same hash are the same, so distinct seeds
  never share a mixed state.
\<close>

theorem mix32_injective: "inj mix32"
proof (rule injI)
  fix v w assume "mix32 v = mix32 w"
  have a: "(0x7FEB352D :: 32 word) * 0x1D69E2A5 = 1" "(0x846CA68B :: 32 word) * 0x43021123 = 1" by simp_all
  show "v = w" using \<open>mix32 v = mix32 w\<close>
    by (auto simp: mix32_def Let_def dest!: xor_shift_inj odd_factor_inj [OF a(1)] odd_factor_inj [OF a(2)])
qed

lemma popcount8_sum: "uint (popcount8 v) = (\<Sum>i\<leftarrow>[0..<8]. if bit v i then 1 else 0)"
proof -
  have all: "\<forall>n \<in> set [0..255]. uint (popcount8 (word_of_int n)) = (\<Sum>i\<leftarrow>[0..<8]. if bit n i then 1 else 0)"
    by code_simp
  have b: "bit v i = bit (uint v) i" for i by (auto simp: bit_uint_iff dest: bit_imp_le_length)
  have "uint v \<in> set [0..255]" using uint_bounded [of v] by simp
  then show ?thesis using bspec [OF all, of "uint v"] by (simp add: b)
qed

text \<open>
  The parallel bit count is the number of set bits of the byte.
\<close>

theorem popcount8_counts_bits: "uint (popcount8 v) = (\<Sum>i\<leftarrow>[0..<8]. if bit v i then 1 else 0)"
  by (rule popcount8_sum)

section \<open>The code books\<close>

text \<open>The inverses of the hash and of the shift register, written with the inverses of the odd factors.\<close>

definition unmix32 :: "32 word \<Rightarrow> 32 word" where
  "unmix32 v = (let v4 = v XOR drop_bit 16 v; v3 = v4 * 0x43021123; v2 = v3 XOR drop_bit 15 v3 XOR drop_bit 30 v3; v1 = v2 * 0x1D69E2A5 in
     v1 XOR drop_bit 16 v1)"

definition unhash_seed :: "nat \<Rightarrow> 32 word \<Rightarrow> 32 word" where
  "unhash_seed i h = (unmix32 h - 0xD1B54A35 - word_of_nat i * 0x85EBCA6B) * 0x144CBC89"

definition unhash_position :: "32 word \<Rightarrow> 32 word \<Rightarrow> 32 word" where
  "unhash_position seed h = (unmix32 h - 0xD1B54A35 - seed * 0x9E3779B9) * 0xA5CB9243"

definition unxorshift :: "32 word \<Rightarrow> 32 word" where
  "unxorshift state = (let s2 = state XOR push_bit 5 state XOR push_bit 10 state XOR push_bit 15 state XOR push_bit 20 state XOR push_bit 25 state XOR push_bit 30 state;
     s1 = s2 XOR drop_bit 17 s2 in s1 XOR push_bit 13 s1 XOR push_bit 26 s1)"

lemma drop_beyond: "32 \<le> n \<Longrightarrow> drop_bit n (v :: 32 word) = 0"
  by (rule bit_word_eqI) (simp add: bit_drop_bit_eq bit_imp_le_length)

lemma push_beyond: "32 \<le> n \<Longrightarrow> push_bit n (v :: 32 word) = 0"
  by (rule bit_word_eqI) (simp add: bit_push_bit_iff)

lemma xor_cancel: "(a :: 32 word) XOR (a XOR b) = b"
  by (simp flip: xor.assoc)

lemmas shift_undo = push_bit_xor drop_bit_xor push_bit_push_bit drop_bit_drop_bit drop_beyond push_beyond xor_cancel
  xor.assoc xor.commute xor.left_commute

lemma undo_shifts:
  "(v XOR drop_bit 16 v) XOR drop_bit 16 (v XOR drop_bit 16 v) = (v :: 32 word)"
  "(v XOR drop_bit 15 v) XOR drop_bit 15 (v XOR drop_bit 15 v) XOR drop_bit 30 (v XOR drop_bit 15 v) = v"
  "(v XOR drop_bit 17 v) XOR drop_bit 17 (v XOR drop_bit 17 v) = v"
  "(v XOR push_bit 13 v) XOR push_bit 13 (v XOR push_bit 13 v) XOR push_bit 26 (v XOR push_bit 13 v) = v"
  by (simp_all add: shift_undo)

lemma undo_push5:
  fixes v :: "32 word"
  defines "y \<equiv> v XOR push_bit 5 v"
  shows "y XOR push_bit 5 y XOR push_bit 10 y XOR push_bit 15 y XOR push_bit 20 y XOR push_bit 25 y XOR push_bit 30 y = v"
  unfolding y_def by (simp add: shift_undo)

lemma unmix_mix: "unmix32 (mix32 v) = v"
proof -
  have "(0x846CA68B :: 32 word) * 0x43021123 = 1" "(0x7FEB352D :: 32 word) * 0x1D69E2A5 = 1" by simp_all
  then have a: "x * 0x846CA68B * 0x43021123 = x" "x * 0x7FEB352D * 0x1D69E2A5 = x" for x :: "32 word"
    by (simp_all only: mult.assoc mult_1_right)
  show ?thesis unfolding mix32_def unmix32_def Let_def undo_shifts a ..
qed

lemma unxorshift_xorshift: "unxorshift (xorshift state) = state"
  unfolding xorshift_def unxorshift_def Let_def undo_push5 undo_shifts ..

lemma unhash_hashed:
  "unhash_seed i (hashed seed i) = seed" "unhash_position seed (hashed seed i) = word_of_nat i"
proof -
  have "(0x9E3779B9 :: 32 word) * 0x144CBC89 = 1" "(0x85EBCA6B :: 32 word) * 0xA5CB9243 = 1" by simp_all
  then have a: "x * 0x9E3779B9 * 0x144CBC89 = x" "x * 0x85EBCA6B * 0xA5CB9243 = x" for x :: "32 word"
    by (simp_all only: mult.assoc mult_1_right)
  show "unhash_seed i (hashed seed i) = seed" "unhash_position seed (hashed seed i) = word_of_nat i"
    using a(1)[of seed] a(2)[of "word_of_nat i"] by (simp_all add: unhash_seed_def unhash_position_def hashed_def unmix_mix)
qed

text \<open>The shift register never reaches the absorbing state zero.\<close>

lemma xorshift_nonzero: "state \<noteq> 0 \<Longrightarrow> (xorshift ^^ n) state \<noteq> 0"
proof (induction n)
  case (Suc n)
  have "unxorshift 0 = 0" by (simp add: unxorshift_def)
  then show ?case using Suc unxorshift_xorshift[of "(xorshift ^^ n) state"] by auto
qed simp

lemma unxorshift_run: "(unxorshift ^^ n) ((xorshift ^^ n) state) = state"
  by (induction n arbitrary: state) (simp_all add: unxorshift_xorshift funpow_swap1)

lemma or_one_nonzero: "(v :: 32 word) OR 1 \<noteq> 0"
proof
  assume "v OR 1 = 0"
  then have "bit (v OR 1) 0 = bit (0 :: 32 word) 0" by simp
  then show False by (simp add: bit_or_iff)
qed

lemma signed16_word: "(word_of_int \<lfloor>(of_int (signed16 h) / 32768 :: rat) * 32768\<rfloor> :: 16 word) = ucast (drop_bit 16 h)"
proof -
  have "(of_int (signed16 h) / 32768 :: rat) * 32768 = of_int (signed16 h)" by simp
  then show ?thesis by (simp only: floor_of_int) (simp add: signed16_def)
qed

lemma low_bits: "2 * ((of_int (uint (popcount8 (ucast (h :: 32 word)))) - 4) / 2) + 4 = (of_nat (card {b. b < 8 \<and> bit h b}) :: rat)"
proof -
  have "(\<Sum>b\<leftarrow>[0..<8]. if bit (ucast h :: 8 word) b then 1 else 0 :: int) = (\<Sum>b \<in> {0..<8}. if bit (ucast h :: 8 word) b then 1 else 0)"
    by (simp add: interv_sum_list_conv_sum_set_nat del: upt_rec_numeral)
  also have "\<dots> = (\<Sum>b \<in> {0..<8}. if bit h b then 1 else 0)" by (intro sum.cong) (simp_all add: bit_simps)
  also have "\<dots> = int (card ({0..<8} \<inter> {b. bit h b}))" by (simp add: sum.If_cases)
  also have "{0..<8} \<inter> {b. bit h b} = {b. b < 8 \<and> bit h b}" by auto
  finally have "uint (popcount8 (ucast h)) = int (card {b. b < 8 \<and> bit h b})" unfolding popcount8_sum .
  then have "(of_int (uint (popcount8 (ucast h))) :: rat) = of_nat (card {b. b < 8 \<and> bit h b})" by (simp only: of_int_of_nat_eq)
  moreover have "2 * ((x - 4) / 2) + 4 = x" for x :: rat by (simp add: field_simps)
  ultimately show ?thesis by metis
qed

lemma top_bit: "drop_bit 31 (h :: 32 word) \<noteq> 0 \<longleftrightarrow> bit h 31"
proof
  assume "drop_bit 31 h \<noteq> 0"
  then obtain m where m: "bit (drop_bit 31 h) m" using bit_eq_iff[of "drop_bit 31 h" 0] by auto
  then have "31 + m < 32" using bit_imp_le_length[of h "31 + m"] by (simp add: bit_drop_bit_eq)
  then show "bit h 31" using m by (simp add: bit_drop_bit_eq)
next
  assume "bit h 31"
  then have "bit (drop_bit 31 h) 0" by (simp add: bit_drop_bit_eq)
  then show "drop_bit 31 h \<noteq> 0" by auto
qed

text \<open>
  C24. The code books carry their hash, and the hash can be traced back.  The first book shows the top bit of the hash of
  its seed and position, the second its upper half, the third the number of ones in its low byte; the hash gives back
  the seed when the position is known and the position when the seed is, and the shift register of the fourth book
  runs backwards from any state to its start and never reaches zero, from which it could not leave.
\<close>

theorem codebook_traceable:
  "(\<exists>rows. generator_codebook q ''G0_HASH_SIGN'' n seeds = Inr rows \<and>
      map (map (\<lambda>x. x = 1)) rows = map (\<lambda>seed. map (\<lambda>i. bit (hashed seed i) 31) [0..<n]) seeds) \<and>
   (\<exists>rows. generator_codebook q ''G1_HASH_AFFINE'' n seeds = Inr rows \<and>
      map (map (\<lambda>x. word_of_int \<lfloor>x * 32768\<rfloor> :: 16 word)) rows = map (\<lambda>seed. map (\<lambda>i. ucast (drop_bit 16 (hashed seed i))) [0..<n]) seeds) \<and>
   (\<exists>rows. generator_codebook q ''G2_CENTER_DENSE'' n seeds = Inr rows \<and>
      map (map (\<lambda>x. 2 * x + 4)) rows = map (\<lambda>seed. map (\<lambda>i. of_nat (card {b. b < 8 \<and> bit (hashed seed i) b})) [0..<n]) seeds) \<and>
   (\<exists>rows. generator_codebook q ''G3_RECURRENCE'' n seeds = Inr rows \<and>
      map (map (\<lambda>x. word_of_int \<lfloor>x * 32768\<rfloor> :: 16 word)) rows =
        map (\<lambda>seed. map (\<lambda>i. ucast (drop_bit 16 ((xorshift ^^ Suc i) (mix32 (seed + 0xA341316C) OR 1)))) [0..<n]) seeds) \<and>
   unhash_seed i (hashed seed i) = seed \<and> unhash_position seed (hashed seed i) = word_of_nat i \<and> unmix32 (mix32 state) = state \<and>
   (unxorshift ^^ k) ((xorshift ^^ k) state) = state \<and> (xorshift ^^ k) (mix32 (seed + 0xA341316C) OR 1) \<noteq> 0"
proof -
  have sign: "hash_sign s j = 1 \<longleftrightarrow> bit (hashed s j) 31" for s j
    using top_bit[of "hashed s j"] by (simp add: hash_sign_def)
  have rows: "map (map f) (map (\<lambda>s. map (g s) [0..<n]) seeds) = map (\<lambda>s. map (\<lambda>j. f (g s j)) [0..<n]) seeds"
    for f :: "rat \<Rightarrow> 'a" and g by simp
  have "generator_codebook q ''G0_HASH_SIGN'' n seeds = Inr (map (\<lambda>s. map (hash_sign s) [0..<n]) seeds)"
    "generator_codebook q ''G1_HASH_AFFINE'' n seeds = Inr (map (\<lambda>s. map (\<lambda>j. of_int (signed16 (hashed s j)) / 32768) [0..<n]) seeds)"
    "generator_codebook q ''G2_CENTER_DENSE'' n seeds =
       Inr (map (\<lambda>s. map (\<lambda>j. (of_int (uint (popcount8 (ucast (hashed s j)))) - 4) / 2) [0..<n]) seeds)"
    "generator_codebook q ''G3_RECURRENCE'' n seeds =
       Inr (map (\<lambda>s. map (\<lambda>j. of_int (signed16 ((xorshift ^^ Suc j) (mix32 (s + 0xA341316C) OR 1))) / 32768) [0..<n]) seeds)"
    by (simp_all add: generator_codebook_def recurrence_row_def [abs_def])
  note books = this
  have "(\<exists>r. Inr x = (Inr r :: rat list list res) \<and> P r) \<longleftrightarrow> P x" for x P by auto
  note one = this
  show ?thesis unfolding books one rows sign signed16_word low_bits
    by (simp only: unhash_hashed unmix_mix unxorshift_run xorshift_nonzero[OF or_one_nonzero] not_False_eq_True HOL.simp_thms)
qed

text \<open>One hash, computed, and traced back.\<close>

theorem codebook_traceable_witness: "unhash_seed 3 (hashed 7 3) = 7 \<and> unhash_position 7 (hashed 7 3) = 3"
  using codebook_traceable[of id 4 "[7]" 3 7 0 0] by simp

end
