(* ===== verification/Ccc_Data.thy ===== *)
theory Ccc_Data
  imports Fast_Gguf Block_Formats Procedural
begin

text \<open>
  What the compression experiments (\<open>scripts/qualify_ccc_hard_gate.py\<close>, \<open>qualify_ccc_experiment.py\<close>, \<open>qualify_ccc_geometric.py\<close>,
  \<open>qualify_ccc_structured_baseline.py\<close>) do around their floating point kernels: decoding the tensor found by \<open>Fast_Gguf\<close> into a
  matrix, the deterministic splits of the positions, the byte account of a candidate and the marking of the Pareto front.
  The fits and error statistics are left out.
\<close>

section \<open>Decoding a tensor\<close>

text \<open>
  \<open>decode_q8_tensor\<close>: the payload is read at its place, a short read fails in \<open>reshape\<close>.  The result is the shape and the
  elements in row-major order; the hard gate keeps the order of the dimensions of the file, the first experiment reverses it.
\<close>

record 'f tensor_values =
  tv_shape :: "int list"
  tv_flat :: "'f list"

definition read_payload :: "bytes \<Rightarrow> located \<Rightarrow> bytes res" where
  "read_payload file t = bind_res (require (lo_start t < 2 ^ 63 \<and> lo_payload t < 2 ^ 63) OverflowError) (\<lambda>_.
     Inr (take (nat (lo_payload t)) (drop (nat (lo_start t)) file)))"

definition decode_as :: "'f f32 \<Rightarrow> int list \<Rightarrow> bytes \<Rightarrow> located \<Rightarrow> 'f tensor_values res" where
  "decode_as f shape file t = bind_res (read_payload file t) (\<lambda>raw. bind_res (dequant_q8_0 f raw (nat (lo_elements t))) (\<lambda>flat.
     bind_res (require (prod_list shape = int (length flat)) (ValueError ''cannot reshape array'')) (\<lambda>_.
     Inr \<lparr>tv_shape = shape, tv_flat = flat\<rparr>)))"

definition hard_gate_decode :: "'f f32 \<Rightarrow> bytes \<Rightarrow> located \<Rightarrow> 'f tensor_values res" where
  "hard_gate_decode f file t = decode_as f (te_shape t) file t"

definition experiment_decode :: "'f f32 \<Rightarrow> bytes \<Rightarrow> located \<Rightarrow> 'f tensor_values res" where
  "experiment_decode f file t = decode_as f (rev (te_shape t)) file t"

section \<open>Orientation of the matrix\<close>











section \<open>Splits of the positions\<close>

text \<open>\<open>pos_hash\<close> of the hard gate and of the first experiment, with the three masks; nothing overflows 64 bits.\<close>

definition pos_hash :: "nat \<Rightarrow> nat \<Rightarrow> nat" where
  "pos_hash row col = (row * 65537 + col * 31) mod 100"

datatype partition = Fit | Validation | Test

definition mask_of :: "nat \<Rightarrow> partition" where
  "mask_of h = (if h < 70 then Fit else if 70 \<le> h \<and> h < 85 then Validation else Test)"

definition position_split :: "nat \<Rightarrow> nat \<Rightarrow> partition" where
  "position_split row col = mask_of (pos_hash row col)"

text \<open>A hundred consecutive columns of a row have a hundred different hashes.\<close>

lemma pos_hash_inj: "inj_on (pos_hash row) {c..<c + 100}"
proof (rule linorder_inj_onI', rule notI)
  fix i j assume ij: "i \<in> {c..<c + 100}" "j \<in> {c..<c + 100}" "i < j" "pos_hash row i = pos_hash row j"
  have "100 dvd (row * 65537 + j * 31) - (row * 65537 + i * 31)"
    using ij(3,4) mod_eq_dvd_iff_nat [of "row * 65537 + i * 31" "row * 65537 + j * 31" 100] by (simp add: pos_hash_def)
  then have "100 dvd (j - i) * 31" by (simp add: diff_mult_distrib)
  moreover have "coprime (100 :: nat) 31" by (simp add: coprime_iff_gcd_eq_1 gcd_non_0_nat)
  ultimately have "100 dvd j - i" by (simp add: coprime_dvd_mult_left_iff)
  then show False using ij(1-3) by (auto dest: dvd_imp_le)
qed

lemma pos_hash_image: "pos_hash row ` {c..<c + 100} = {..<100}"
proof (rule card_subset_eq)
  show "pos_hash row ` {c..<c + 100} \<subseteq> {..<100}" by (auto simp: pos_hash_def)
  show "card (pos_hash row ` {c..<c + 100}) = card {..<100 :: nat}" using card_image [OF pos_hash_inj] by simp
qed simp

lemma split_count: "card {col \<in> {c..<c + 100}. position_split row col = p} = card {h \<in> {..<100}. mask_of h = p}"
proof -
  have "pos_hash row ` {col \<in> {c..<c + 100}. position_split row col = p} = {h \<in> pos_hash row ` {c..<c + 100}. mask_of h = p}"
    by (auto simp: position_split_def)
  moreover have "inj_on (pos_hash row) {col \<in> {c..<c + 100}. position_split row col = p}" by (rule inj_on_subset [OF pos_hash_inj]) auto
  ultimately show ?thesis using card_image [of "pos_hash row" "{col \<in> {c..<c + 100}. position_split row col = p}"] unfolding pos_hash_image by simp
qed

text \<open>
  The split of the positions is exact and local: among any hundred consecutive columns of any row, seventy are in the fit
  part, fifteen in the validation part and fifteen in the test part.
\<close>

theorem split_exact:
  "card {col \<in> {c..<c + 100}. position_split row col = Fit} = 70 \<and> card {col \<in> {c..<c + 100}. position_split row col = Validation} = 15 \<and>
     card {col \<in> {c..<c + 100}. position_split row col = Test} = 15"
proof -
  have "{h \<in> {..<100}. mask_of h = Fit} = {..<70}" "{h \<in> {..<100}. mask_of h = Validation} = {70..<85}" "{h \<in> {..<100}. mask_of h = Test} = {85..<100}"
    by (auto simp: mask_of_def split: if_splits)
  then show ?thesis unfolding split_count by simp
qed

text \<open>
  The hash splits of \<open>qualify_ccc_geometric.py\<close> (\<open>split_positions\<close>) and of \<open>qualify_ccc_structured_baseline.py\<close>
  (\<open>splitmix64\<close> and the mask in \<open>main\<close>), on 64-bit words.
\<close>

definition finalise64 :: "64 word \<Rightarrow> 64 word" where
  "finalise64 v = (let v = v XOR drop_bit 30 v; v = v * 0xBF58476D1CE4E5B9; v = v XOR drop_bit 27 v; v = v * 0x94D049BB133111EB in
     v XOR drop_bit 31 v)"

definition split_positions :: "nat \<Rightarrow> nat list" where
  "split_positions n = map (\<lambda>i. let bucket = finalise64 (word_of_nat i) mod 100 in if bucket < 70 then 0 else if bucket < 85 then 1 else 2) [0..<n]"

definition splitmix64_hash :: "64 word \<Rightarrow> 64 word" where
  "splitmix64_hash idx = (let x = idx + 0x9E3779B97F4A7C15; x = (x XOR drop_bit 30 x) * 0xBF58476D1CE4E5B9; x = (x XOR drop_bit 27 x) * 0x94D049BB133111EB in
     x XOR drop_bit 31 x)"

definition structured_mask :: "nat \<Rightarrow> nat list" where
  "structured_mask n = map (\<lambda>i. let h = splitmix64_hash (word_of_nat i) mod 100 in if h < 50 then 0 else if h < 75 then 1 else 2) [0..<n]"

text \<open>
  Both hashes are injective: no two positions of a tensor share one, and they are the same function up to the added constant.
\<close>

theorem splitmix64_injective: "inj finalise64 \<and> inj splitmix64_hash \<and> splitmix64_hash x = finalise64 (x + 0x9E3779B97F4A7C15)"
proof -
  have a: "(0xBF58476D1CE4E5B9 :: 64 word) * 0x96DE1B173F119089 = 1" "(0x94D049BB133111EB :: 64 word) * 0x319642B2D24D8EC3 = 1" by simp_all
  have i: "inj finalise64"
    by (rule injI) (auto simp: finalise64_def Let_def dest!: xor_shift_inj odd_factor_inj [OF a(1)] odd_factor_inj [OF a(2)])
  have e: "splitmix64_hash = finalise64 \<circ> (\<lambda>x. x + 0x9E3779B97F4A7C15)" by (rule ext) (simp add: splitmix64_hash_def finalise64_def Let_def)
  have "inj (\<lambda>x :: 64 word. x + 0x9E3779B97F4A7C15)" by (rule injI) (simp only: add_right_cancel)
  then show ?thesis using i unfolding e by (simp add: inj_compose)
qed

section \<open>Byte account\<close>

definition HEADER_BYTES :: nat where "HEADER_BYTES = 16"
definition ALIGNMENT :: nat where "ALIGNMENT = 16"

record account =
  ac_payload :: nat
  ac_metadata :: nat
  ac_baseline :: nat
  ac_alphabet :: nat
  ac_block_metadata :: nat
  ac_padding :: nat
  ac_total :: nat
  ac_true_bpw :: rat

text \<open>\<open>math.ceil(count * bits / 8)\<close> is exact below \<open>2^53\<close>; the last entry divides by the number of weights.\<close>

definition byte_account :: "nat \<Rightarrow> nat \<Rightarrow> nat \<Rightarrow> nat \<Rightarrow> nat \<Rightarrow> account res" where
  "byte_account n bits baseline_bytes alphabet_bytes block_metadata_bytes =
     (let payload = (n * bits + 7) div 8; metadata = HEADER_BYTES + baseline_bytes + alphabet_bytes + block_metadata_bytes;
        unaligned = payload + metadata; padding = nat ((- int unaligned) mod int ALIGNMENT); stored = unaligned + padding in
      bind_res (require (n \<noteq> 0) ZeroDivisionError) (\<lambda>_.
      Inr \<lparr>ac_payload = payload, ac_metadata = metadata, ac_baseline = baseline_bytes, ac_alphabet = alphabet_bytes,
        ac_block_metadata = block_metadata_bytes, ac_padding = padding, ac_total = stored, ac_true_bpw = of_nat (stored * 8) / of_nat n\<rparr>))"

text \<open>
  C25. No byte is free in the account: the total is the smallest multiple of sixteen that holds the packed codes, the header and
  all tables, and the reported bits per weight times the number of weights are the bits of that total, never fewer than the codes have.
\<close>

theorem byte_account_exact:
  assumes "byte_account n bits baseline_bytes alphabet_bytes block_metadata_bytes = Inr a"
  shows "least_aligned 16 (int (ac_payload a + 16 + baseline_bytes + alphabet_bytes + block_metadata_bytes)) (int (ac_total a)) \<and>
    n * bits \<le> 8 * ac_payload a \<and> 8 * ac_payload a < n * bits + 8 \<and> ac_true_bpw a * of_nat n = of_nat (8 * ac_total a) \<and> of_nat bits < ac_true_bpw a"
proof -
  define unaligned where "unaligned = (n * bits + 7) div 8 + (16 + baseline_bytes + alphabet_bytes + block_metadata_bytes)"
  define padding where "padding = nat ((- int unaligned) mod int 16)"
  have "a = \<lparr>ac_payload = (n * bits + 7) div 8, ac_metadata = 16 + baseline_bytes + alphabet_bytes + block_metadata_bytes, ac_baseline = baseline_bytes,
      ac_alphabet = alphabet_bytes, ac_block_metadata = block_metadata_bytes, ac_padding = padding, ac_total = unaligned + padding,
      ac_true_bpw = of_nat ((unaligned + padding) * 8) / of_nat n\<rparr> \<and> n \<noteq> 0"
    using assms unfolding byte_account_def Let_def HEADER_BYTES_def ALIGNMENT_def unaligned_def [symmetric] padding_def [symmetric]
    by (cases n) simp_all
  then have a: "ac_payload a = (n * bits + 7) div 8" "ac_total a = unaligned + padding" "ac_true_bpw a = of_nat ((unaligned + padding) * 8) / of_nat n" "n \<noteq> 0"
    by simp_all
  have "least_aligned 16 (int unaligned) (int (unaligned + padding))" unfolding least_aligned_def padding_def
    by (auto simp: dvd_def) presburger+
  moreover have p: "n * bits \<le> 8 * ac_payload a" "8 * ac_payload a < n * bits + 8" unfolding a by linarith+
  moreover have "of_nat bits < ac_true_bpw a"
  proof -
    have "bits * n < (unaligned + padding) * 8" using p(1) unfolding a(1) by (simp add: unaligned_def mult.commute)
    then have "(of_nat bits * of_nat n :: rat) < of_nat ((unaligned + padding) * 8)" unfolding of_nat_mult [symmetric] of_nat_less_iff .
    then show ?thesis using a(4) unfolding a(3) by (simp only: pos_less_divide_eq of_nat_0_less_iff)
  qed
  moreover have "ac_true_bpw a * of_nat n = of_nat (8 * ac_total a)" using a(4) unfolding a(2,3) by simp
  moreover have "ac_payload a + 16 + baseline_bytes + alphabet_bytes + block_metadata_bytes = unaligned" unfolding a(1) unaligned_def by simp
  ultimately show ?thesis using a(2) by simp
qed

theorem byte_account_exact_witness:
  "\<exists>a. byte_account 100 3 4 32 0 = Inr a \<and> ac_total a = 96 \<and> 8 * ac_payload a < 100 * 3 + 8"
proof -
  obtain a where a: "byte_account 100 3 4 32 0 = Inr a" by (simp add: byte_account_def Let_def)
  have "ac_total a = 96" using a by (auto simp: byte_account_def HEADER_BYTES_def ALIGNMENT_def Let_def)
  then show ?thesis using byte_account_exact [OF a] a by blast
qed

section \<open>The Pareto front\<close>

record 'f result_row =
  rw_candidate :: string
  rw_bpw :: 'f
  rw_error :: 'f

definition reference_row :: "'f result_row \<Rightarrow> bool" where
  "reference_row r \<longleftrightarrow> rw_candidate r = ''Q8_0 Reference''"

text \<open>The marks of the hard gate; \<open>min_err_so_far\<close> starts at infinity, here \<open>None\<close> (there are no NaNs and no infinite errors).\<close>

fun pareto_marks :: "('f :: linorder) option \<Rightarrow> 'f result_row list \<Rightarrow> ('f result_row \<times> string) list" where
  "pareto_marks min_err [] = []"
| "pareto_marks min_err (r # rs) =
     (if reference_row r then (r, ''PARETO'') # pareto_marks min_err rs
      else if (case min_err of None \<Rightarrow> True | Some e \<Rightarrow> rw_error r < e) then (r, ''PARETO'') # pareto_marks (Some (rw_error r)) rs
      else (r, ''DOMINATED'') # pareto_marks min_err rs)"

definition mark_pareto :: "('f :: linorder) result_row list \<Rightarrow> ('f result_row \<times> string) list" where
  "mark_pareto rows = pareto_marks None (sort_key rw_bpw rows)"

text \<open>A row is marked by comparing it with the rows before it.\<close>

lemma pareto_marks_prefix:
  "pareto_marks m (xs @ r # ys) ! length xs = (r, if reference_row r \<or> (\<forall>e \<in> set_option m. rw_error r < e) \<and>
     (\<forall>q \<in> set xs. reference_row q \<or> rw_error r < rw_error q) then ''PARETO'' else ''DOMINATED'')"
proof (induction xs arbitrary: m)
  case Nil
  show ?case by (cases m) auto
next
  case (Cons x xs)
  show ?case
  proof (cases "reference_row x \<or> \<not> (case m of None \<Rightarrow> True | Some e \<Rightarrow> rw_error x < e)")
    case True
    then show ?thesis using Cons [of m] by (auto split: option.splits)
  next
    case False
    then show ?thesis using Cons [of "Some (rw_error x)"] by (cases m) auto
  qed
qed

lemma length_pareto_marks [simp]: "length (pareto_marks m rs) = length rs"
  by (induction m rs rule: pareto_marks.induct) simp_all

lemma pareto_marks_rows: "map fst (pareto_marks m rs) = rs"
  by (induction m rs rule: pareto_marks.induct) simp_all

lemma pareto_marks_unique:
  assumes "distinct (pre @ r # post)" "\<not> reference_row r"
  shows "(r, mark) \<in> set (pareto_marks None (pre @ r # post)) \<longleftrightarrow>
    mark = (if \<forall>q \<in> set pre. reference_row q \<or> rw_error r < rw_error q then ''PARETO'' else ''DOMINATED'')"
proof -
  let ?l = "pre @ r # post" and ?m = "pareto_marks None (pre @ r # post)"
  have at: "?m ! length pre = (r, if \<forall>q \<in> set pre. reference_row q \<or> rw_error r < rw_error q then ''PARETO'' else ''DOMINATED'')"
    using pareto_marks_prefix[of None pre r post] assms(2) by simp
  have only: "n = length pre" if "n < length ?l" "fst (?m ! n) = r" for n
  proof -
    have "?l ! n = ?l ! length pre" using arg_cong[OF pareto_marks_rows[of None ?l], of "\<lambda>l. l ! n"] that by simp
    then show ?thesis using nth_eq_iff_index_eq[OF assms(1), of n "length pre"] that(1) by simp
  qed
  have "(r, mark) \<in> set ?m \<longleftrightarrow> ?m ! length pre = (r, mark)"
  proof
    assume "(r, mark) \<in> set ?m"
    then obtain n where "n < length ?l" "?m ! n = (r, mark)" by (auto simp: in_set_conv_nth)
    then show "?m ! length pre = (r, mark)" using only[of n] by simp
  next
    assume "?m ! length pre = (r, mark)"
    then show "(r, mark) \<in> set ?m" using nth_mem[of "length pre" ?m] by simp
  qed
  then show ?thesis unfolding at by auto
qed

text \<open>
  What stands before an element after a stable sort: the elements of smaller key, and those of the same key
  that stood before it.
\<close>

lemma sort_key_before:
  assumes "distinct xs" "i < length xs" "sort_key f xs = pre @ xs ! i # post"
  shows "y \<in> set pre \<longleftrightarrow> y \<in> set xs \<and> f y < f (xs ! i) \<or> y \<in> set (take i xs) \<and> f y = f (xs ! i)"
proof -
  let ?x = "xs ! i" and ?k = "filter (\<lambda>y. f y = f (xs ! i))"
  have split: "xs = take i xs @ ?x # drop (Suc i) xs" using assms(2) by (rule id_take_nth_drop)
  have d: "distinct (pre @ ?x # post)" "distinct (take i xs @ ?x # drop (Suc i) xs)"
    using assms(1) assms(3)[symmetric] split by simp_all
  have st: "set (pre @ ?x # post) = set xs" "sorted (map f (pre @ ?x # post))"
    using set_sort[of f xs] sorted_sort_key[of f xs] unfolding assms(3) by auto
  have "?k (pre @ ?x # post) = ?k (take i xs @ ?x # drop (Suc i) xs)"
    using sort_key_stable[of f "f ?x" xs] unfolding assms(3) by (metis split)
  then have "?k pre @ ?x # ?k post = ?k (take i xs) @ ?x # ?k (drop (Suc i) xs)" by simp
  then have same: "?k pre = ?k (take i xs)" using d by (subst (asm) append_Cons_eq_iff) auto
  have eq: "y \<in> set pre \<and> f y = f ?x \<longleftrightarrow> y \<in> set (take i xs) \<and> f y = f ?x"
    using arg_cong[OF same, of "\<lambda>l. y \<in> set l"] by auto
  have le: "y \<in> set pre \<Longrightarrow> f y \<le> f ?x" and ge: "y \<in> set post \<Longrightarrow> f ?x \<le> f y"
    using st(2) by (auto simp: sorted_append)
  have mem: "y \<in> set xs \<longleftrightarrow> y \<in> set pre \<or> y = ?x \<or> y \<in> set post" using st(1) by auto
  show ?thesis
  proof (cases "f y = f ?x")
    case True
    then show ?thesis using eq by auto
  next
    case False
    then show ?thesis using mem le ge by fastforce
  qed
qed

text \<open>
  C26. The marks are the Pareto front up to ties, and this is exactly what they are on every table of differently
  named candidates: each row is in the marked table once, and a candidate is marked \<open>DOMINATED\<close> exactly when
  another one has an error that is not larger and takes fewer bits per weight, or as many bits and stands before it
  in the table.  So a candidate marked \<open>PARETO\<close> can be dominated, but only by one of the same bits per weight that
  stands after it, as \<open>Q4_K\<close> stands after \<open>Q4_0\<close>.
\<close>

theorem pareto_front_exact:
  assumes "distinct (map rw_candidate rows)" "i < length rows" "\<not> reference_row (rows ! i)"
  defines "beaten_by j \<equiv> \<not> reference_row (rows ! j) \<and> rw_error (rows ! j) \<le> rw_error (rows ! i)"
  shows "mset (map fst (mark_pareto rows)) = mset rows \<and>
    ((rows ! i, mark) \<in> set (mark_pareto rows) \<longleftrightarrow>
      mark = (if \<exists>j < length rows. beaten_by j \<and>
          (rw_bpw (rows ! j) < rw_bpw (rows ! i) \<or> rw_bpw (rows ! j) = rw_bpw (rows ! i) \<and> j < i) then ''DOMINATED'' else ''PARETO'')) \<and>
    ((rows ! i, ''PARETO'') \<in> set (mark_pareto rows) \<longrightarrow>
      (\<forall>j < length rows. beaten_by j \<and> rw_bpw (rows ! j) \<le> rw_bpw (rows ! i) \<and> j \<noteq> i \<longrightarrow>
         rw_bpw (rows ! j) = rw_bpw (rows ! i) \<and> i < j))"
proof -
  let ?r = "rows ! i" and ?s = "sort_key rw_bpw rows"
  let ?dom = "\<exists>j < length rows. beaten_by j \<and>
          (rw_bpw (rows ! j) < rw_bpw ?r \<or> rw_bpw (rows ! j) = rw_bpw ?r \<and> j < i)"
  have d: "distinct rows" "distinct ?s" using assms(1) by (simp_all add: distinct_map)
  obtain pre post where s: "?s = pre @ ?r # post"
    using assms(2) split_list[of ?r ?s] by auto
  have marked: "(?r, mark) \<in> set (mark_pareto rows) \<longleftrightarrow>
      mark = (if \<forall>q \<in> set pre. reference_row q \<or> rw_error ?r < rw_error q then ''PARETO'' else ''DOMINATED'')" for mark
    unfolding mark_pareto_def s by (rule pareto_marks_unique) (use d(2) s assms(3) in simp_all)
  have pre: "q \<in> set pre \<longleftrightarrow> (\<exists>j < length rows. q = rows ! j \<and>
      (rw_bpw (rows ! j) < rw_bpw ?r \<or> rw_bpw (rows ! j) = rw_bpw ?r \<and> j < i))" for q
    unfolding sort_key_before[OF d(1) assms(2) s] using assms(2) by (auto simp: in_set_conv_nth dest: less_trans)
  have "(\<forall>q \<in> set pre. reference_row q \<or> rw_error ?r < rw_error q) \<longleftrightarrow> \<not> ?dom"
    unfolding Ball_def pre beaten_by_def not_le[symmetric] by blast
  then have m: "(?r, mark) \<in> set (mark_pareto rows) \<longleftrightarrow> mark = (if ?dom then ''DOMINATED'' else ''PARETO'')" for mark
    unfolding marked by auto
  have "(?r, ''PARETO'') \<in> set (mark_pareto rows) \<longrightarrow> \<not> ?dom" unfolding m by simp
  then have "(?r, ''PARETO'') \<in> set (mark_pareto rows) \<longrightarrow>
      (\<forall>j < length rows. beaten_by j \<and> rw_bpw (rows ! j) \<le> rw_bpw ?r \<and> j \<noteq> i \<longrightarrow> rw_bpw (rows ! j) = rw_bpw ?r \<and> i < j)"
    by (metis le_less linorder_less_linear)
  moreover have "mset (map fst (mark_pareto rows)) = mset rows" by (simp add: mark_pareto_def pareto_marks_rows)
  ultimately show ?thesis using m[of mark] by blast
qed

text \<open>The table of the script, with its bits per weight in hundredths; \<open>Q4_0\<close> and \<open>Q4_K\<close> tie, and so do both \<open>C3-A\<close> candidates.\<close>

definition sample_rows3 :: "int result_row list" where
  "sample_rows3 = map (\<lambda>(n, b, e). \<lparr>rw_candidate = n, rw_bpw = b, rw_error = e\<rparr>)
     [(''Q8_0 Reference'', 850, 0), (''Canonical Q3_K'', 344, 22), (''Canonical Q4_0'', 450, 7), (''Canonical Q4_K'', 450, 5),
      (''C3-A Learned (Lloyd-Max)'', 300, 20), (''C3-A Geometric (Best)'', 300, 21)]"

theorem pareto_front_exact_witness:
  "(sample_rows3 ! 2, ''PARETO'') \<in> set (mark_pareto sample_rows3) \<and> (sample_rows3 ! 1, ''DOMINATED'') \<in> set (mark_pareto sample_rows3)"
proof -
  have d: "distinct (map rw_candidate sample_rows3)" by code_simp
  have n: "2 < length sample_rows3" "\<not> reference_row (sample_rows3 ! 2)" "1 < length sample_rows3" "\<not> reference_row (sample_rows3 ! 1)"
    by code_simp+
  have l: "(\<exists>j < length sample_rows3. P j) \<longleftrightarrow> P 0 \<or> P 1 \<or> P 2 \<or> P 3 \<or> P 4 \<or> P 5" for P
  proof -
    have "length sample_rows3 = 6" by code_simp
    then show ?thesis by (auto simp: less_Suc_eq numeral_eq_Suc)
  qed
  have r: "sample_rows3 ! 0 = \<lparr>rw_candidate = ''Q8_0 Reference'', rw_bpw = 850, rw_error = 0\<rparr>"
    "sample_rows3 ! 1 = \<lparr>rw_candidate = ''Canonical Q3_K'', rw_bpw = 344, rw_error = 22\<rparr>"
    "sample_rows3 ! 2 = \<lparr>rw_candidate = ''Canonical Q4_0'', rw_bpw = 450, rw_error = 7\<rparr>"
    "sample_rows3 ! 3 = \<lparr>rw_candidate = ''Canonical Q4_K'', rw_bpw = 450, rw_error = 5\<rparr>"
    "sample_rows3 ! 4 = \<lparr>rw_candidate = ''C3-A Learned (Lloyd-Max)'', rw_bpw = 300, rw_error = 20\<rparr>"
    "sample_rows3 ! 5 = \<lparr>rw_candidate = ''C3-A Geometric (Best)'', rw_bpw = 300, rw_error = 21\<rparr>"
    by (simp_all add: sample_rows3_def)
  show ?thesis
    using pareto_front_exact[OF d n(1,2), of "''PARETO''"] pareto_front_exact[OF d n(3,4), of "''DOMINATED''"]
    unfolding l r by (simp add: reference_row_def)
qed

text \<open>
  With equal bits per weight the marks are wrong: \<open>Q4_0\<close> and \<open>Q4_K\<close> both take 4.5 bits, and the first of them is marked
  \<open>PARETO\<close> also when the second has the smaller error.
\<close>

theorem pareto_ties_wrong:
  "map snd (mark_pareto [\<lparr>rw_candidate = ''Canonical Q4_0'', rw_bpw = 450, rw_error = (7 :: int)\<rparr>, \<lparr>rw_candidate = ''Canonical Q4_K'', rw_bpw = 450, rw_error = 5\<rparr>]) =
     [''PARETO'', ''PARETO'']"
  by (simp add: mark_pareto_def reference_row_def)

end
