(* ===== verification/Checkpoint.thy ===== *)
theory Checkpoint
  imports Complex_Main Gguf_Roundtrip Text Json
begin

text \<open>
  The files and tensors of the bounded reference, \<open>step32g_bounded_reference.py\<close> and
  \<open>step32g_router_near_tie.py\<close> under \<open>research/results/vbuf-ml-integration\<close>: the checkpoint records
  (\<open>read_records\<close>), the tensor manifest (\<open>read_manifest\<close>), the decoding of BF16 and FP8 payloads (\<open>Reader\<close>),
  the choice of experts (\<open>select\<close>, \<open>ranked_window\<close>) and the distance of two floats in units of the last place.
  A float32 value is its 32-bit pattern.
\<close>

section \<open>Checkpoint records\<close>

text \<open>\<open>data[pos:pos + size]\<close> is cut at the end of the data; \<open>struct\<close> and \<open>frombuffer\<close> are not.\<close>

definition take_le :: "nat \<Rightarrow> bytes \<Rightarrow> (int \<times> bytes) res" where
  "take_le n data = (if n \<le> length data then Inr (le_dec (take n data), drop n data) else Inl StructError)"

fun take_les :: "nat \<Rightarrow> nat \<Rightarrow> bytes \<Rightarrow> (int list \<times> bytes) res" where
  "take_les 0 n data = Inr ([], data)"
| "take_les (Suc k) n data = bind_res (take_le n data) (\<lambda>(v, rest). bind_res (take_les k n rest) (\<lambda>(vs, rest'). Inr (v # vs, rest')))"

definition take_words :: "nat \<Rightarrow> bytes \<Rightarrow> (32 word list \<times> bytes) res" where
  "take_words count data = (if 4 * count \<le> length data then bind_res (take_les count 4 data) (\<lambda>(vs, rest). Inr (map word_of_int vs, rest))
     else Inl (ValueError ''buffer is smaller than requested size''))"

text \<open>\<open>reshape\<close> is the comparison of the sizes; numpy's limits on the number of dimensions and on a single one are left out.\<close>

type_synonym tensor_value = "int list \<times> 32 word list"

definition read_record :: "bytes \<Rightarrow> ((string \<times> tensor_value) \<times> bytes) res" where
  "read_record data =
     bind_res (take_le 4 data) (\<lambda>(size', rest).
     bind_res (decode_utf8 (take (nat size') rest)) (\<lambda>name.
     bind_res (take_le 4 (drop (nat size') rest)) (\<lambda>(rank, rest1).
     bind_res (take_les (nat rank) 8 rest1) (\<lambda>(dimensions, rest2).
     bind_res (take_le 8 rest2) (\<lambda>(count, rest3).
     bind_res (take_words (nat count) rest3) (\<lambda>(value, rest4).
     bind_res (require (prod_list dimensions = count) (ValueError ''cannot reshape array'')) (\<lambda>_.
     Inr ((name, dimensions, value), rest4))))))))"

lemma take_le_shorter: "take_le n data = Inr (v, rest) \<Longrightarrow> length rest + n = length data"
  by (auto simp: take_le_def split: if_splits)

lemma take_les_shorter: "take_les k n data = Inr (vs, rest) \<Longrightarrow> length rest \<le> length data"
  by (induction k arbitrary: data vs rest) (fastforce simp: bind_res_Inr_iff dest: take_le_shorter)+

lemma read_record_shorter: "read_record data = Inr (r, rest) \<Longrightarrow> length rest < length data"
proof -
  assume "read_record data = Inr (r, rest)"
  then obtain s r0 k r1 d r2 c r3 v where "take_le 4 data = Inr (s, r0)" "take_le 4 (drop (nat s) r0) = Inr (k, r1)"
    "take_les (nat k) 8 r1 = Inr (d, r2)" "take_le 8 r2 = Inr (c, r3)" "take_words (nat c) r3 = Inr (v, rest)"
    by (auto simp: read_record_def bind_res_Inr_iff)
  then have "length r0 + 4 = length data" "length r1 + 4 = length (drop (nat s) r0)" "length r2 \<le> length r1" "length r3 + 8 = length r2"
    "length rest \<le> length r3"
    using take_le_shorter take_les_shorter by (auto simp: take_words_def bind_res_Inr_iff split: if_splits)
  then show ?thesis by simp
qed

text \<open>A name that occurs again replaces the earlier value.\<close>

function read_records_from :: "bytes \<Rightarrow> (string \<times> tensor_value) list \<Rightarrow> (string \<times> tensor_value) list res" where
  "read_records_from data result = (if data = [] then Inr result else
     case read_record data of Inl e \<Rightarrow> Inl e
     | Inr ((name, value), rest) \<Rightarrow> read_records_from rest (AList.update name value result))"
  by pat_completeness auto
termination by (relation "measure (length \<circ> fst)") (auto dest: read_record_shorter)

declare read_records_from.simps [simp del]

definition read_records :: "bytes \<Rightarrow> (string \<times> tensor_value) list res" where
  "read_records data = read_records_from data []"

section \<open>The manifest\<close>

text \<open>The lines of a text file: line feeds, carriage returns and their pairs, without the line end.\<close>

fun file_lines :: "bool \<Rightarrow> string \<Rightarrow> string \<Rightarrow> string list" where
  "file_lines cr acc [] = (if acc = [] then [] else [rev acc])"
| "file_lines cr acc (c # cs) = (let n = of_char c :: int in
     if cr \<and> n = 10 then file_lines False [] cs
     else if n = 10 \<or> n = 13 then rev acc # file_lines (n = 13) [] cs
     else file_lines False (c # acc) cs)"

record tensor_entry =
  te_rep :: string
  te_dims :: "int list"
  te_offset :: int
  te_length :: int
  te_scale :: int

record output_entry =
  oe_ident :: int
  oe_rep :: string
  oe_dims :: "int list"
  oe_offset :: int
  oe_length :: int

record manifest =
  mf_tensors :: "((int \<times> int) \<times> tensor_entry) list"
  mf_experts :: "((int \<times> int \<times> int) \<times> int \<times> int) list"
  mf_outputs :: "(string \<times> output_entry) list"

definition parse_dims :: "string \<Rightarrow> int list res" where
  "parse_dims s = map_res parse_int (split_on (CHR '','') s)"

definition manifest_line :: "manifest \<Rightarrow> string \<Rightarrow> manifest res" where
  "manifest_line m line = (let fs = split_on (char_of (9 :: nat)) line in
     if hd fs = ''tensor'' then
       (case fs of [_, layer, ident, rep, dims, offset, len, scale] \<Rightarrow>
          bind_res (parse_dims dims) (\<lambda>ds. bind_res (parse_int offset) (\<lambda>o'. bind_res (parse_int len) (\<lambda>n. bind_res (parse_int scale) (\<lambda>sc.
          bind_res (parse_int layer) (\<lambda>l. bind_res (parse_int ident) (\<lambda>i.
          Inr (m\<lparr>mf_tensors := AList.update (l, i) \<lparr>te_rep = rep, te_dims = ds, te_offset = o', te_length = n, te_scale = sc\<rparr> (mf_tensors m)\<rparr>)))))))
        | _ \<Rightarrow> Inl (ValueError ''values to unpack''))
     else if hd fs = ''expert'' then
       (case fs of [_, layer, expert, role, ident, scale] \<Rightarrow>
          bind_res (parse_int ident) (\<lambda>i. bind_res (parse_int scale) (\<lambda>sc. bind_res (parse_int layer) (\<lambda>l.
          bind_res (parse_int expert) (\<lambda>e. bind_res (parse_int role) (\<lambda>r.
          Inr (m\<lparr>mf_experts := AList.update (l, e, r) (i, sc) (mf_experts m)\<rparr>))))))
        | _ \<Rightarrow> Inl (ValueError ''values to unpack''))
     else if hd fs = ''output'' then
       (case fs of [_, _, ident, rep, dims, offset, len, _, label] \<Rightarrow>
          bind_res (parse_int ident) (\<lambda>i. bind_res (parse_dims dims) (\<lambda>ds. bind_res (parse_int offset) (\<lambda>o'. bind_res (parse_int len) (\<lambda>n.
          Inr (m\<lparr>mf_outputs := AList.update label \<lparr>oe_ident = i, oe_rep = rep, oe_dims = ds, oe_offset = o', oe_length = n\<rparr> (mf_outputs m)\<rparr>)))))
        | _ \<Rightarrow> Inl (ValueError ''values to unpack''))
     else Inr m)"

definition read_manifest :: "string \<Rightarrow> manifest res" where
  "read_manifest content = (case file_lines False [] content of
       [] \<Rightarrow> Inl StopIteration
     | _ # ls \<Rightarrow> fold_res manifest_line \<lparr>mf_tensors = [], mf_experts = [], mf_outputs = []\<rparr> ls)"

section \<open>Decoding payloads\<close>

text \<open>\<open>payload[a:b]\<close>.\<close>

definition slice :: "bytes \<Rightarrow> int \<Rightarrow> int \<Rightarrow> bytes" where
  "slice payload a b = (let n = int (length payload); clip = (\<lambda>i. if i < 0 then max 0 (i + n) else min i n) in
     take (nat (clip b - clip a)) (drop (nat (clip a)) payload))"

text \<open>\<open>frombuffer\<close> with \<open>"<u2"\<close>, widened and shifted into the upper half of a float32.\<close>

fun bf16_words :: "bytes \<Rightarrow> 32 word list res" where
  "bf16_words [] = Inr []"
| "bf16_words [b] = Inl (ValueError ''buffer size must be a multiple of element size'')"
| "bf16_words (b # c # bs) = bind_res (bf16_words bs) (\<lambda>ws. Inr (push_bit 16 (word_of_int (le_dec [b, c])) # ws))"

definition bf16_row :: "bytes \<Rightarrow> output_entry \<Rightarrow> int \<Rightarrow> int \<Rightarrow> 32 word list res" where
  "bf16_row payload e row_bytes token_id =
     (if token_id < 0 \<or> hd (oe_dims e) \<le> token_id then Inl (ValueError ''embedding token ID is outside vocabulary'')
      else bf16_words (slice payload (oe_offset e + token_id * row_bytes) (oe_offset e + (token_id + 1) * row_bytes)))"

text \<open>The last check is the one of \<open>asarray\<close> and \<open>reshape\<close>: every row has the full width.\<close>

definition bf16_rows :: "bytes \<Rightarrow> (string \<times> output_entry) list \<Rightarrow> string \<Rightarrow> int list \<Rightarrow> 32 word list list res" where
  "bf16_rows payload outputs label token_ids =
     bind_res (lookup_res outputs label) (\<lambda>e.
     if oe_rep e \<noteq> ''Bf16'' \<or> length (oe_dims e) \<noteq> 2 \<or> oe_dims e ! 1 \<noteq> 4096 then
       Inl (ValueError ''embedding tensor is not the qualified BF16 matrix'')
     else let row_bytes = oe_dims e ! 1 * 2 in
       if oe_length e \<noteq> hd (oe_dims e) * row_bytes then Inl (ValueError ''embedding tensor payload length is invalid'')
       else bind_res (map_res (bf16_row payload e row_bytes) token_ids) (\<lambda>rows.
         bind_res (require (list_all (\<lambda>r. length r = 4096) rows) (ValueError ''cannot reshape array'')) (\<lambda>_. Inr rows)))"

text \<open>An FP8 code, exactly; \<open>None\<close> is not-a-number.  \<open>F8_E4M3\<close> has no infinities.\<close>

definition decode_e4m3 :: "8 word \<Rightarrow> rat option" where
  "decode_e4m3 bits = (let sign = (if bits AND 0x80 \<noteq> 0 then - 1 else 1 :: rat); exponent = drop_bit 3 bits AND 0x0F; mantissa = bits AND 0x07 in
     if exponent = 0x0F \<and> mantissa = 0x07 then None
     else Some (sign * (if exponent = 0 then of_int (uint mantissa) / 2 ^ 9
       else (1 + of_int (uint mantissa) / 8) * 2 ^ unat exponent / 2 ^ 7)))"

section \<open>Experts\<close>

text \<open>\<open>argsort(-row, kind="stable")\<close>.\<close>

definition descending :: "'a :: linordered_ab_group_add list \<Rightarrow> nat list" where
  "descending row = sort_key (\<lambda>i. - row ! i) [0..<length row]"

definition TOP_K :: nat where "TOP_K = 8"

definition select :: "'a :: linordered_ab_group_add list list \<Rightarrow> nat list list" where
  "select rows = map (\<lambda>row. take TOP_K (descending row)) rows"

section \<open>Units in the last place\<close>

definition ordered_bits :: "32 word \<Rightarrow> int" where
  "ordered_bits bits = uint (if bits AND 0x80000000 \<noteq> 0 then NOT bits else bits OR 0x80000000)"

definition ulp_distance :: "32 word \<Rightarrow> 32 word \<Rightarrow> int" where
  "ulp_distance left right = \<bar>ordered_bits left - ordered_bits right\<bar>"


section \<open>Records are read back\<close>

text \<open>A record as the checkpoint format has it: name, rank, dimensions, count and the values.\<close>

definition enc_words :: "32 word list \<Rightarrow> bytes" where
  "enc_words ws = concat (map (\<lambda>w. le_enc 4 (uint w)) ws)"

definition enc_record :: "string \<times> tensor_value \<Rightarrow> bytes" where
  "enc_record r = (case r of (name, dimensions, value) \<Rightarrow>
     le_enc 4 (int (length name)) @ str_bytes name @ le_enc 4 (int (length dimensions)) @ concat (map (le_enc 8) dimensions) @
     le_enc 8 (int (length value)) @ enc_words value)"

definition record_ok :: "string \<times> tensor_value \<Rightarrow> bool" where
  "record_ok r \<longleftrightarrow> (case r of (name, dimensions, value) \<Rightarrow>
     utf8_valid (map of_char name) \<and> int (length name) < 2 ^ 32 \<and> int (length dimensions) < 2 ^ 32 \<and>
     list_all (\<lambda>d. 0 \<le> d \<and> d < 2 ^ 64) dimensions \<and> int (length value) < 2 ^ 64 \<and> prod_list dimensions = int (length value))"

lemma take_le_enc: "0 \<le> v \<Longrightarrow> v < 256 ^ n \<Longrightarrow> take_le n (le_enc n v @ rest) = Inr (v, rest)"
  by (simp add: take_le_def le_dec_enc_id)

lemma take_les_enc: "list_all (\<lambda>v. 0 \<le> v \<and> v < 256 ^ n) vs \<Longrightarrow> take_les (length vs) n (concat (map (le_enc n) vs) @ rest) = Inr (vs, rest)"
  by (induction vs) (simp_all add: take_le_enc)

lemma word_bound: "uint (w :: 32 word) < 256 ^ 4"
  using uint_lt2p[of w] by simp

lemma take_words_enc: "take_words (length ws) (enc_words ws @ rest) = Inr (ws, rest)"
proof -
  have "length (enc_words ws) = 4 * length ws" by (induction ws) (simp_all add: enc_words_def)
  moreover have "list_all (\<lambda>v. 0 \<le> v \<and> v < 256 ^ 4) (map uint ws)"
    using word_bound by (auto simp: list_all_iff)
  from take_les_enc[OF this, of rest] have "take_les (length ws) 4 (enc_words ws @ rest) = Inr (map uint ws, rest)"
    by (simp add: enc_words_def o_def)
  ultimately show ?thesis by (simp add: take_words_def o_def)
qed

lemma read_record_enc:
  assumes "record_ok r" shows "read_record (enc_record r @ rest) = Inr (r, rest)"
proof -
  obtain name dimensions vals where r: "r = (name, dimensions, vals)" by (cases r)
  have n: "take_le 4 (le_enc 4 (int (length name)) @ t) = Inr (int (length name), t)" for t
    using assms by (intro take_le_enc) (auto simp: r record_ok_def)
  have k: "take_le 4 (le_enc 4 (int (length dimensions)) @ t) = Inr (int (length dimensions), t)" for t
    using assms by (intro take_le_enc) (auto simp: r record_ok_def)
  have c: "take_le 8 (le_enc 8 (int (length vals)) @ t) = Inr (int (length vals), t)" for t
    using assms by (intro take_le_enc) (auto simp: r record_ok_def)
  have d: "take_les (length dimensions) 8 (concat (map (le_enc 8) dimensions) @ t) = Inr (dimensions, t)" for t
    using assms by (intro take_les_enc) (auto simp: r record_ok_def list_all_iff)
  have u: "decode_utf8 (str_bytes name) = Inr name" using assms by (simp add: r record_ok_def decode_str_bytes)
  have l: "length (str_bytes name) = length name" by (simp add: str_bytes_def)
  show ?thesis using assms
    by (simp add: read_record_def enc_record_def r n k c d u l take_words_enc record_ok_def)
qed

lemma read_records_enc:
  "list_all record_ok rs \<Longrightarrow> read_records_from (concat (map enc_record rs)) result =
    Inr (fold (\<lambda>(name, value). AList.update name value) rs result)"
proof (induction rs arbitrary: result)
  case (Cons r rs)
  obtain name v where r: "r = (name, v)" by (cases r)
  have "length (enc_record r) \<noteq> 0" by (cases r) (simp add: enc_record_def)
  then have "enc_record r @ concat (map enc_record rs) \<noteq> []" by auto
  then have "read_records_from (enc_record r @ concat (map enc_record rs)) result =
      read_records_from (concat (map enc_record rs)) (AList.update name v result)"
    using read_record_enc[of r "concat (map enc_record rs)"] Cons.prems
    by (subst read_records_from.simps) (simp only: r list_all_iff list.set_intros if_False sum.case prod.case)
  then show ?case using Cons r by simp
qed (simp add: read_records_from.simps)

text \<open>
  C16. A checkpoint file is read back: the dictionary read from any sequence of well-formed records has, for
  every name, the dimensions and the values of the last record of that name, and nothing else.
\<close>

theorem records_roundtrip:
  assumes "list_all record_ok rs"
  shows "\<exists>d. read_records (concat (map enc_record rs)) = Inr d \<and> map_of d = map_of (rev rs) \<and> distinct (map fst d)"
proof -
  let ?d = "fold (\<lambda>(name, value). AList.update name value) rs []"
  have "map_of (fold (\<lambda>(name, value). AList.update name value) rs d) = map_of d ++ map_of (rev rs)" for d
    by (induction rs arbitrary: d) (auto simp: update_conv' map_add_def fun_eq_iff split: option.splits)
  moreover have "distinct (map fst d) \<Longrightarrow> distinct (map fst (fold (\<lambda>(name, value). AList.update name value) rs d))" for d
    by (induction rs arbitrary: d) (auto simp: distinct_update)
  ultimately show ?thesis using read_records_enc[OF assms, of "[]"] by (simp add: read_records_def)
qed

theorem records_roundtrip_witness:
  "\<exists>d. read_records (concat (map enc_record [(''a'', [2, 1], [1, 0x3F800000]), (''b'', [], [7])])) = Inr d \<and> map_of d ''b'' = Some ([], [7])"
proof -
  have "list_all record_ok [(''a'', [2, 1], [1, 0x3F800000]), (''b'', [], [7])]" by (simp add: record_ok_def)
  from records_roundtrip[OF this] show ?thesis by (auto split: if_splits)
qed


section \<open>Rows stay inside their tensor\<close>

lemma bf16_words_Inr: "bf16_words bs = Inr ws \<Longrightarrow> length bs = 2 * length ws \<and>
    (\<forall>i < length ws. ws ! i = push_bit 16 (word_of_int (le_dec (take 2 (drop (2 * i) bs)))))"
proof (induction bs arbitrary: ws rule: bf16_words.induct)
  case (3 b c bs)
  then obtain vs where vs: "bf16_words bs = Inr vs" "ws = push_bit 16 (word_of_int (le_dec [b, c])) # vs"
    by (auto simp: bind_res_Inr_iff)
  show ?case
  proof (intro conjI allI impI)
    show "length (b # c # bs) = 2 * length ws" using 3(1)[OF vs(1)] vs(2) by simp
    fix i assume "i < length ws"
    then show "ws ! i = push_bit 16 (word_of_int (le_dec (take 2 (drop (2 * i) (b # c # bs)))))"
      using 3(1)[OF vs(1)] vs(2) by (cases i) auto
  qed
qed auto

lemma slice_inside: "0 \<le> a \<Longrightarrow> a \<le> b \<Longrightarrow> b \<le> int (length p) \<Longrightarrow> slice p a b = take (nat (b - a)) (drop (nat a) p)"
  by (simp add: slice_def Let_def)

text \<open>
  The embedding lookup never leaves the tensor: for an output entry that lies inside the payload, every
  row that is returned has 4096 values, and each of them is the pair of bytes at its place in the row of
  the token, between the start and the end of the tensor's payload, in the upper half of a float32.
\<close>

theorem embedding_rows_inside:
  assumes "bf16_rows payload outputs label ids = Inr rows" "map_of outputs label = Some e"
    and "0 \<le> oe_offset e" "oe_offset e + oe_length e \<le> int (length payload)" "k < length ids"
  shows "length rows = length ids \<and> length (rows ! k) = 4096 \<and> 0 \<le> ids ! k \<and> oe_offset e + (ids ! k + 1) * 8192 \<le> oe_offset e + oe_length e \<and>
    (\<forall>i < 4096. rows ! k ! i = push_bit 16 (word_of_int (le_dec (take 2 (drop (nat (oe_offset e + ids ! k * 8192) + 2 * i) payload)))))"
proof -
  have wide: "oe_dims e ! 1 = 4096" "oe_length e = hd (oe_dims e) * 8192"
    and rows: "map_res (bf16_row payload e 8192) ids = Inr rows" "list_all (\<lambda>r. length r = 4096) rows"
    using assms(1,2) by (auto simp: bf16_rows_def Let_def bind_res_Inr_iff split: if_splits)
  have l: "length rows = length ids" using map_res_length[OF rows(1)] .
  have row: "bf16_row payload e 8192 (ids ! k) = Inr (rows ! k)"
    using rows(1) assms(5) by (simp add: map_res_list_all2 list_all2_conv_all_nth)
  let ?a = "oe_offset e + ids ! k * 8192" and ?b = "oe_offset e + (ids ! k + 1) * 8192"
  have id: "0 \<le> ids ! k" "ids ! k < hd (oe_dims e)" and w: "bf16_words (slice payload ?a ?b) = Inr (rows ! k)"
    using row by (auto simp: bf16_row_def split: if_splits)
  have b: "?b \<le> oe_offset e + oe_length e" using id(2) wide(2) by simp
  have "slice payload ?a ?b = take (nat (?b - ?a)) (drop (nat ?a) payload)"
    using id(1) b assms(3,4) by (intro slice_inside) auto
  then have s: "slice payload ?a ?b = take 8192 (drop (nat ?a) payload)" by (simp add: algebra_simps)
  have k: "length (rows ! k) = 4096" using rows(2) assms(5) l by (simp add: list_all_length)
  have "rows ! k ! i = push_bit 16 (word_of_int (le_dec (take 2 (drop (nat ?a + 2 * i) payload))))" if "i < 4096" for i
  proof -
    have "take 2 (drop (2 * i) (take 8192 (drop (nat ?a) payload))) = take 2 (drop (nat ?a + 2 * i) payload)"
      using that by (simp add: drop_take min_def add.commute)
    then show ?thesis using bf16_words_Inr[OF w] that k s by simp
  qed
  then show ?thesis using l k id b by simp
qed

theorem embedding_rows_inside_witness:
  "\<exists>rows. bf16_rows (replicate 8194 1) [(''embedding'', \<lparr>oe_ident = 0, oe_rep = ''Bf16'', oe_dims = [1, 4096], oe_offset = 2, oe_length = 8192\<rparr>)]
     ''embedding'' [0] = Inr rows \<and> length (rows ! 0) = 4096"
proof -
  let ?e = "\<lparr>oe_ident = 0, oe_rep = ''Bf16'', oe_dims = [1, 4096], oe_offset = 2, oe_length = 8192\<rparr>"
  let ?p = "replicate 8194 1 :: bytes"
  have "\<exists>ws. bf16_words (replicate (2 * n) 1) = Inr ws \<and> length ws = n" for n
    by (induction n) (auto simp: bind_res_Inr_iff)
  from this[of 4096] obtain ws where ws: "bf16_words (replicate 8192 1) = Inr ws" "length ws = 4096" by auto
  have s: "slice ?p 2 8194 = replicate 8192 1" by (simp add: slice_def Let_def)
  have r: "bf16_rows ?p [(''embedding'', ?e)] ''embedding'' [0] = Inr [ws]"
    using ws s by (simp add: bf16_rows_def lookup_res_def bf16_row_def Let_def)
  from embedding_rows_inside[OF r, of ?e 0] show ?thesis using r by auto
qed

section \<open>The chosen experts\<close>

lemma descending_perm: "distinct (descending row) \<and> set (descending row) = {..<length row}"
  by (auto simp: descending_def atLeast0LessThan)

lemma descending_sorted: "sorted (map (\<lambda>i. - row ! i) (descending row))"
  by (simp add: descending_def)

text \<open>
  Routing takes the best experts: every row of scores chooses as many distinct experts as there are, at most
  eight, and no expert that is left out has a higher score than one that is chosen.
\<close>

theorem selection_is_top_k:
  assumes "select rows = sel" "k < length rows"
  shows "length sel = length rows \<and> distinct (sel ! k) \<and> length (sel ! k) = min TOP_K (length (rows ! k)) \<and>
    (\<forall>i \<in> set (sel ! k). i < length (rows ! k) \<and>
      (\<forall>j < length (rows ! k). j \<notin> set (sel ! k) \<longrightarrow> rows ! k ! j \<le> rows ! k ! i))"
proof -
  let ?row = "rows ! k" and ?d = "descending (rows ! k)"
  have s: "sel ! k = take TOP_K ?d" using assms by (auto simp: select_def)
  have d: "distinct ?d" "set ?d = {..<length ?row}" using descending_perm by blast+
  then have l: "length ?d = length ?row" by (metis card_lessThan distinct_card)
  have "?row ! j \<le> ?row ! i" if "i \<in> set (take TOP_K ?d)" "j < length ?row" "j \<notin> set (take TOP_K ?d)" for i j
  proof -
    have "set ?d = set (take TOP_K ?d) \<union> set (drop TOP_K ?d)" by (metis append_take_drop_id set_append)
    then have "j \<in> set (drop TOP_K ?d)" using that d(2) by auto
    moreover have "sorted (map (\<lambda>i. - ?row ! i) (take TOP_K ?d) @ map (\<lambda>i. - ?row ! i) (drop TOP_K ?d))"
      using descending_sorted[of ?row] by (metis append_take_drop_id map_append)
    ultimately have "- ?row ! i \<le> - ?row ! j" using that(1) by (auto simp: sorted_append)
    then show ?thesis by simp
  qed
  then show ?thesis using assms s d l by (auto simp: select_def dest: in_set_takeD)
qed

theorem selection_is_top_k_witness:
  "\<exists>sel. select [[3, 9, 1, 9, 4, 7, 2, 8, 6, 5 :: int]] = sel \<and> length (sel ! 0) = 8 \<and> distinct (sel ! 0)"
proof -
  have "length (select [[3, 9, 1, 9, 4, 7, 2, 8, 6, 5 :: int]] ! 0) = min TOP_K 10" "distinct (select [[3, 9, 1, 9, 4, 7, 2, 8, 6, 5 :: int]] ! 0)"
    using selection_is_top_k[OF refl, of 0 "[[3, 9, 1, 9, 4, 7, 2, 8, 6, 5 :: int]]"] by simp_all
  then show ?thesis by (simp add: TOP_K_def)
qed

section \<open>Adjacent floats\<close>

text \<open>The value of a finite pattern, as a multiple of \<open>2 ^ -149\<close>.\<close>

definition magnitude :: "int \<Rightarrow> int" where
  "magnitude n = (let e = n div 2 ^ 23; m = n mod 2 ^ 23 in if e = 0 then m else (2 ^ 23 + m) * 2 ^ nat (e - 1))"

definition float_value :: "32 word \<Rightarrow> int" where
  "float_value w = (if 2 ^ 31 \<le> uint w then - magnitude (uint w - 2 ^ 31) else magnitude (uint w))"

lemma magnitude_step: "0 \<le> n \<Longrightarrow> magnitude n < magnitude (n + 1)"
proof -
  assume n: "0 \<le> n"
  define e where "e = n div 2 ^ 23"
  define m where "m = n mod 2 ^ 23"
  have e: "0 \<le> e" using n by (simp add: e_def pos_imp_zdiv_nonneg_iff)
  have m: "0 \<le> m" "m < 2 ^ 23" by (simp_all add: m_def)
  have "n = e * 2 ^ 23 + m" by (simp add: e_def m_def)
  then have n1: "n + 1 = m + 1 + 2 ^ 23 * e" by simp
  have mag: "magnitude n = (if e = 0 then m else (2 ^ 23 + m) * 2 ^ nat (e - 1))" by (simp add: magnitude_def Let_def e_def m_def)
  show ?thesis
  proof (cases "m + 1 < 2 ^ 23")
    case True
    then have "(n + 1) div 2 ^ 23 = e" "(n + 1) mod 2 ^ 23 = m + 1" unfolding n1 using m by simp_all
    then have "magnitude (n + 1) = (if e = 0 then m + 1 else (2 ^ 23 + (m + 1)) * 2 ^ nat (e - 1))"
      by (simp only: magnitude_def Let_def)
    then show ?thesis unfolding mag by simp
  next
    case False
    then have m': "m + 1 = 2 ^ 23" using m by simp
    then have "n + 1 = (e + 1) * 2 ^ 23" unfolding n1 by simp
    then have "(n + 1) div 2 ^ 23 = e + 1" "(n + 1) mod 2 ^ 23 = 0" by simp_all
    then have mag1: "magnitude (n + 1) = 2 ^ 23 * 2 ^ nat e" using e by (simp add: magnitude_def Let_def)
    show ?thesis
    proof (cases "e = 0")
      case False
      then have "nat e = Suc (nat (e - 1))" using e by simp
      then have "(2 :: int) ^ 23 * 2 ^ nat e = (2 ^ 23 + 2 ^ 23) * 2 ^ nat (e - 1)" by simp
      also have "\<dots> > (2 ^ 23 + m) * 2 ^ nat (e - 1)" using m by (intro mult_strict_right_mono) auto
      finally show ?thesis using False mag mag1 by simp
    qed (use m mag mag1 in simp)
  qed
qed

lemma magnitude_mono: "0 \<le> a \<Longrightarrow> a < b \<Longrightarrow> magnitude a < magnitude b"
proof (induction "nat (b - a)" arbitrary: b)
  case (Suc k)
  show ?case
  proof (cases "a = b - 1")
    case False
    then have "magnitude a < magnitude (b - 1)" using Suc by auto
    moreover have "magnitude (b - 1) < magnitude b" using magnitude_step[of "b - 1"] Suc.prems by simp
    ultimately show ?thesis by simp
  qed (use magnitude_step[of a] Suc.prems in simp)
qed simp

lemma sign_bit: "(w :: 32 word) AND 0x80000000 \<noteq> 0 \<longleftrightarrow> 2 ^ 31 \<le> uint w"
proof -
  have "(w AND 0x80000000 \<noteq> 0) = bit w 31" using and_exp_eq_0_iff_not_bit[of w 31] by simp
  also have "\<dots> = bit (uint w) 31" by (simp add: bit_uint_iff)
  also have "\<dots> = odd (uint w div 2 ^ 31)" by (rule bit_iff_odd)
  also have "\<dots> = (2 ^ 31 \<le> uint w)"
  proof (cases "2 ^ 31 \<le> uint w")
    case True
    then have "uint w div 2 ^ 31 = 1" using uint_lt2p[of w] by (simp add: div_pos_pos_trivial int_div_pos_eq[of _ _ 1 "uint w - 2 ^ 31"])
    then show ?thesis using True by simp
  next
    case False
    then have "uint w div 2 ^ 31 = 0" by (simp add: div_pos_pos_trivial)
    then show ?thesis using False by simp
  qed
  finally show ?thesis .
qed

lemma ordered_bits_value: "ordered_bits w = (if 2 ^ 31 \<le> uint w then 2 ^ 32 - 1 - uint w else uint w + 2 ^ 31)"
proof (cases "2 ^ 31 \<le> uint w")
  case True
  have "uint (NOT w) = take_bit 32 (NOT (uint w))" by (simp add: unsigned_not_eq)
  also have "\<dots> = (- uint w - 1) mod 2 ^ 32" by (simp add: take_bit_eq_mod not_eq_complement)
  also have "\<dots> = (- uint w - 1 + 2 ^ 32) mod 2 ^ 32" by (rule mod_add_self2[symmetric])
  also have "\<dots> = (2 ^ 32 - 1 - uint w) mod 2 ^ 32" by (rule arg_cong[of _ _ "\<lambda>x. x mod 2 ^ 32"]) simp
  also have "\<dots> = 2 ^ 32 - 1 - uint w" proof (rule mod_pos_pos_trivial)
    have u: "uint w < 2 ^ 32" "0 \<le> uint w" using uint_lt2p[of w] by (simp_all only: len_bit0 len_num1 uint_ge_0) simp
    show "0 \<le> 2 ^ 32 - 1 - uint w" using u(1) by linarith
    show "2 ^ 32 - 1 - uint w < 2 ^ 32" using u(2) by linarith
  qed
  finally show ?thesis using True sign_bit[of w] by (simp add: ordered_bits_def)
next
  case False
  then have nb: "\<not> bit w 31" using sign_bit[of w] and_exp_eq_0_iff_not_bit[of w 31] by simp
  have "w OR 0x80000000 = w OR 2 ^ 31" by simp
  also have "\<dots> = w + 2 ^ 31" using nb by (intro disjunctive_add[symmetric]) (metis bit_exp_iff)
  finally have "uint (w OR 0x80000000) = (uint w + 2 ^ 31) mod 2 ^ 32" by (simp add: uint_word_ariths)
  also have "\<dots> = uint w + 2 ^ 31" using False by (intro mod_pos_pos_trivial) auto
  finally show ?thesis using False sign_bit[of w] by (simp add: ordered_bits_def)
qed

text \<open>
  The units in the last place measure the order of the reals: for finite float32 patterns, a larger value
  has a larger position, and two patterns are at distance 0 only if they are the same pattern; the two zeros,
  which are equal as values, are neighbours at distance 1.
\<close>

theorem ulp_order:
  assumes "uint a mod 2 ^ 31 < 0x7F800000" "uint b mod 2 ^ 31 < 0x7F800000"
  shows "(float_value a < float_value b \<longrightarrow> ordered_bits a < ordered_bits b) \<and>
    (ordered_bits a < ordered_bits b \<longrightarrow> float_value a \<le> float_value b) \<and>
    (ulp_distance a b = 0 \<longleftrightarrow> a = b) \<and> (float_value a = float_value b \<longrightarrow> ulp_distance a b \<le> 1)"
proof -
  have m: "0 \<le> x \<Longrightarrow> x < y \<Longrightarrow> magnitude x < magnitude y" for x y by (rule magnitude_mono)
  have z: "magnitude 0 = 0" by (simp add: magnitude_def)
  have m': "magnitude x < magnitude y \<longleftrightarrow> x < y" if "0 \<le> x" "0 \<le> y" for x y
    using m[of x y] m[of y x] that by (cases x y rule: linorder_cases) auto
  have eq: "magnitude x = magnitude y \<longleftrightarrow> x = y" if "0 \<le> x" "0 \<le> y" for x y
    using m[of x y] m[of y x] that by (cases x y rule: linorder_cases) auto
  have pos: "0 \<le> magnitude x" if "0 \<le> x" for x using m'[of 0 x] that z by (cases "x = 0") auto
  have zero: "magnitude x = 0 \<longleftrightarrow> x = 0" if "0 \<le> x" for x using eq[of x 0] that z by simp
  have le: "magnitude x \<le> magnitude y \<longleftrightarrow> x \<le> y" if "0 \<le> x" "0 \<le> y" for x y using m'[of y x] that by (auto simp: not_less[symmetric])
  define x where "x = uint a"
  define y where "y = uint b"
  have r: "0 \<le> x" "x < 2 ^ 32" "0 \<le> y" "y < 2 ^ 32" using uint_lt2p[of a] uint_lt2p[of b] by (simp_all add: x_def y_def)
  have same: "a = b \<longleftrightarrow> x = y" by (auto simp: x_def y_def intro: word_uint_eqI)
  have ob: "ordered_bits a = (if 2 ^ 31 \<le> x then 2 ^ 32 - 1 - x else x + 2 ^ 31)" "ordered_bits b = (if 2 ^ 31 \<le> y then 2 ^ 32 - 1 - y else y + 2 ^ 31)"
    by (simp_all only: ordered_bits_value x_def y_def)
  have fv: "float_value a = (if 2 ^ 31 \<le> x then - magnitude (x - 2 ^ 31) else magnitude x)"
    "float_value b = (if 2 ^ 31 \<le> y then - magnitude (y - 2 ^ 31) else magnitude y)"
    by (simp_all only: float_value_def x_def y_def)
  show ?thesis
  proof (cases "2 ^ 31 \<le> x"; cases "2 ^ 31 \<le> y")
    assume "2 ^ 31 \<le> x" "2 ^ 31 \<le> y"
    then show ?thesis using r m'[of "y - 2 ^ 31" "x - 2 ^ 31"] le[of "y - 2 ^ 31" "x - 2 ^ 31"] eq[of "x - 2 ^ 31" "y - 2 ^ 31"]
      by (auto simp: ulp_distance_def fv ob same)
  next
    assume s: "2 ^ 31 \<le> x" "\<not> 2 ^ 31 \<le> y"
    have "float_value a \<le> 0" "0 \<le> float_value b" "float_value a = 0 \<longleftrightarrow> x = 2 ^ 31" "float_value b = 0 \<longleftrightarrow> y = 0"
      using s r pos[of "x - 2 ^ 31"] pos[of y] zero[of "x - 2 ^ 31"] zero[of y] by (auto simp: fv)
    then show ?thesis using s r by (auto simp: ulp_distance_def ob same)
  next
    assume s: "\<not> 2 ^ 31 \<le> x" "2 ^ 31 \<le> y"
    have "float_value b \<le> 0" "0 \<le> float_value a" "float_value b = 0 \<longleftrightarrow> y = 2 ^ 31" "float_value a = 0 \<longleftrightarrow> x = 0"
      using s r pos[of "y - 2 ^ 31"] pos[of x] zero[of "y - 2 ^ 31"] zero[of x] by (auto simp: fv)
    then show ?thesis using s r by (auto simp: ulp_distance_def ob same)
  next
    assume "\<not> 2 ^ 31 \<le> x" "\<not> 2 ^ 31 \<le> y"
    then show ?thesis using r m'[of x y] le[of x y] eq[of x y] by (simp add: ulp_distance_def fv ob same)
  qed
qed

theorem ulp_order_witness:
  "float_value 0x3F800000 < float_value 0x40000000 \<and> ordered_bits 0x3F800000 < ordered_bits 0x40000000 \<and> ulp_distance 0 0x80000000 \<le> 1"
proof -
  have "float_value 0x3F800000 < float_value 0x40000000" by (simp add: float_value_def magnitude_def)
  moreover have "ordered_bits 0x3F800000 < ordered_bits 0x40000000"
    using ulp_order[of "0x3F800000" "0x40000000"] calculation by simp
  moreover have "float_value 0 = float_value 0x80000000" by (simp add: float_value_def magnitude_def)
  ultimately show ?thesis using ulp_order[of 0 "0x80000000"] by simp
qed

section \<open>The window around the cutoff\<close>

record window =
  wi_order :: "nat list"
  wi_rank_k_minus_2 :: "32 word"
  wi_rank_k_minus_1 :: "32 word"
  wi_rank_k :: "32 word"
  wi_rank_k_plus_1 :: "32 word"
  wi_rank_k_plus_2 :: "32 word"
  wi_cutoff_margin_ulps :: int

text \<open>The row of one token, of finite scores; a row of fewer than ten scores has no such window.\<close>

definition ranked_window :: "32 word list \<Rightarrow> window res" where
  "ranked_window row = (let order = descending (map float_value row); place = (\<lambda>k. row ! (order ! k)) in
     if length row < 10 then Inl IndexError
     else Inr \<lparr>wi_order = take 11 order, wi_rank_k_minus_2 = place 6, wi_rank_k_minus_1 = place 7, wi_rank_k = place 7,
       wi_rank_k_plus_1 = place 8, wi_rank_k_plus_2 = place 9, wi_cutoff_margin_ulps = ulp_distance (place 7) (place 8)\<rparr>)"

end
