(* ===== verification/Eviction.thy ===== *)
theory Eviction
  imports Prelude
begin

text \<open>
  The eviction loop shared by the replays of \<open>qualify_residency_policy_poc17.py\<close> and
  \<open>qualify_cost_aware_residency_poc20.py\<close>,
  \<open>while resident and used + size > capacity: ... del resident[victim]\<close>, over a dictionary from
  references to entries of any kind, with the choice of the victim as an argument; and the
  \<open>eviction_policy\<close> interface that such a choice implements.
\<close>

definition used :: "('v \<Rightarrow> int) \<Rightarrow> ('k \<times> 'v) list \<Rightarrow> int" where
  "used sz resident = sum_list (map (\<lambda>p. sz (snd p)) resident)"

text \<open>
  \<open>act\<close> is the set of leased references of this request (an error if the schedule is too short);
  the second result lists the decisions as (eligible references, victim).
\<close>

function evict_loop ::
  "('v \<Rightarrow> int) \<Rightarrow> int set res \<Rightarrow> ((int \<times> 'v) list \<Rightarrow> int list \<Rightarrow> int) \<Rightarrow> int \<Rightarrow> int \<Rightarrow>
   (int \<times> 'v) list \<Rightarrow> ((int \<times> 'v) list \<times> (int list \<times> int) list) res" where
  "evict_loop sz act victim need capacity resident =
     (if resident \<noteq> [] \<and> used sz resident + need > capacity then
        bind_res act (\<lambda>leased.
        let eligible = filter (\<lambda>r. r \<notin> leased) (map fst resident) in
        if eligible = [] then Inr (resident, [])
        else let v = victim resident eligible in
          if map_of resident v = None then Inl KeyError
          else bind_res (evict_loop sz act victim need capacity (AList.delete v resident))
            (\<lambda>(rest, steps). Inr (rest, (eligible, v) # steps)))
      else Inr (resident, []))"
  by pat_completeness auto

lemma length_delete_less: "map_of al k \<noteq> None \<Longrightarrow> length (AList.delete k al) < length al"
  by (induction al) (auto split: if_splits simp: le_imp_less_Suc length_delete_le)

termination evict_loop
  by (relation "measure (\<lambda>(sz, act, victim, need, capacity, resident). length resident)")
    (auto simp: length_delete_less)

declare evict_loop.simps [simp del]

lemma used_simps [simp]: "used sz [] = 0" "used sz (p # ps) = sz (snd p) + used sz ps"
  by (simp_all add: used_def)

lemma used_append [simp]: "used sz (xs @ ys) = used sz xs + used sz ys"
  by (simp add: used_def)

lemma used_nonneg: "(\<And>p. p \<in> set al \<Longrightarrow> 0 \<le> sz (snd p)) \<Longrightarrow> 0 \<le> used sz al"
  by (induction al) (auto simp: add_nonneg_nonneg)

lemma used_update_new: "map_of al k = None \<Longrightarrow> used sz (AList.update k v al) = used sz al + sz v"
  by (induction al) (auto split: if_splits)

lemma used_update_same:
  "map_of al k = Some w \<Longrightarrow> sz v = sz w \<Longrightarrow> used sz (AList.update k v al) = used sz al"
  by (induction al) (auto split: if_splits)

lemma used_update:
  "sz z = 0 \<Longrightarrow> used sz (AList.update k v d) = used sz d - sz (get_default d k z) + sz v"
  by (induction d) (auto simp: get_default_def)

lemma update_new: "map_of al k = None \<Longrightarrow> AList.update k v al = al @ [(k, v)]"
  by (induction al) (auto split: if_splits)

lemma distinct_delete [intro]: "distinct (map fst al) \<Longrightarrow> distinct (map fst (AList.delete k al))"
  by (rule distinct_delete)

lemma delete_keys: "map fst (AList.delete k al) = filter (\<lambda>x. x \<noteq> k) (map fst al)"
  by (induction al) auto

lemma used_delete:
  "distinct (map fst al) \<Longrightarrow> map_of al k = Some v \<Longrightarrow> used sz (AList.delete k al) = used sz al - sz v"
proof (induction al)
  case (Cons a al)
  show ?case
  proof (cases "fst a = k")
    case True
    with Cons.prems have "k \<notin> set (map fst al)" by auto
    then have "AList.delete k al = al" by (simp add: delete_id)
    with True Cons.prems show ?thesis by (cases a) auto
  next
    case False
    with Cons show ?thesis by (cases a) auto
  qed
qed simp


section \<open>Outcomes of the loop\<close>

text \<open>One run of the loop, with everything its clients use about the outcome.\<close>

definition outcome ::
  "('v \<Rightarrow> int) \<Rightarrow> int set \<Rightarrow> int \<Rightarrow> int \<Rightarrow> (int \<times> 'v) list \<Rightarrow> (int \<times> 'v) list \<Rightarrow> (int list \<times> int) list \<Rightarrow> bool" where
  "outcome sz leased need capacity resident rest steps \<longleftrightarrow>
     rest = filter (\<lambda>p. fst p \<notin> snd ` set steps) resident \<and>
     distinct (map snd steps) \<and> snd ` set steps \<subseteq> fst ` set resident - leased \<and>
     list_all (\<lambda>(eligible, v). v \<in> set eligible) steps \<and>
     (rest = [] \<or> used sz rest + need \<le> capacity \<or> list_all (\<lambda>p. fst p \<in> leased) rest)"

lemma outcome_length:
  assumes "outcome sz leased need capacity resident rest steps" and "distinct (map fst resident)"
  shows "length rest + length steps = length resident"
proof -
  have s: "distinct (map snd steps)" "set (map snd steps) \<subseteq> set (map fst resident)"
    using assms(1) by (auto simp: outcome_def)
  have "length (filter (\<lambda>p. fst p \<in> set (map snd steps)) resident) =
      length (filter (\<lambda>k. k \<in> set (map snd steps)) (map fst resident))"
    by (simp add: filter_map comp_def)
  also have "\<dots> = card (set (filter (\<lambda>k. k \<in> set (map snd steps)) (map fst resident)))"
    using assms(2) by (intro distinct_card[symmetric]) simp
  also have "set (filter (\<lambda>k. k \<in> set (map snd steps)) (map fst resident)) = set (map snd steps)"
    using s(2) by auto
  also have "card (set (map snd steps)) = length steps" using distinct_card[OF s(1)] by simp
  finally have "length (filter (\<lambda>p. fst p \<in> set (map snd steps)) resident) = length steps" .
  moreover have "rest = filter (\<lambda>p. \<not> fst p \<in> set (map snd steps)) resident"
    using assms(1) by (simp add: outcome_def)
  ultimately show ?thesis
    using sum_length_filter_compl[of "\<lambda>p. fst p \<in> set (map snd steps)" resident] by simp
qed

lemma outcome_used:
  assumes "outcome sz leased need capacity resident rest steps" "\<And>p. p \<in> set resident \<Longrightarrow> 0 \<le> sz (snd p)"
  shows "used sz rest \<le> used sz resident"
proof -
  have "list_all (\<lambda>p. 0 \<le> sz (snd p)) al \<Longrightarrow> used sz (filter P al) \<le> used sz al" for P al
    by (induction al) auto
  moreover have "list_all (\<lambda>p. 0 \<le> sz (snd p)) resident" using assms(2) by (simp add: list_all_iff)
  ultimately show ?thesis using assms(1) unfolding outcome_def by blast
qed

lemma outcome_distinct:
  "outcome sz leased need capacity resident rest steps \<Longrightarrow> distinct (map fst resident) \<Longrightarrow>
     distinct (map fst rest) \<and> set rest \<subseteq> set resident"
  by (auto simp: outcome_def distinct_map_filter)

lemma outcome_leased:
  "outcome sz leased need capacity resident rest steps \<Longrightarrow> p \<in> set resident \<Longrightarrow> fst p \<in> leased \<Longrightarrow> p \<in> set rest"
  by (auto simp: outcome_def)

section \<open>Two replays in step\<close>

definition shape :: "('v \<Rightarrow> int) \<Rightarrow> (int \<times> 'v) list \<Rightarrow> (int \<times> int) list" where
  "shape sz resident = map (\<lambda>p. (fst p, sz (snd p))) resident"

lemma shape_keys: "shape sz1 r1 = shape sz2 r2 \<Longrightarrow> map fst r1 = map fst r2"
proof -
  assume "shape sz1 r1 = shape sz2 r2"
  then have "map fst (shape sz1 r1) = map fst (shape sz2 r2)" by simp
  then show ?thesis by (simp add: shape_def comp_def)
qed

lemma shape_used: "shape sz1 r1 = shape sz2 r2 \<Longrightarrow> used sz1 r1 = used sz2 r2"
proof -
  assume "shape sz1 r1 = shape sz2 r2"
  then have "sum_list (map snd (shape sz1 r1)) = sum_list (map snd (shape sz2 r2))" by simp
  then show ?thesis by (simp add: shape_def used_def comp_def)
qed

lemma shape_delete: "shape sz (AList.delete k r) = AList.delete k (shape sz r)"
  by (induction r) (auto simp: shape_def)

lemma shape_update: "shape sz (AList.update k v r) = AList.update k (sz v) (shape sz r)"
  by (induction r) (auto simp: shape_def)

lemma shape_map_of: "map_of (shape sz r) k = map_option sz (map_of r k)"
  by (induction r) (auto simp: shape_def)

lemma evict_loop_sim:
  assumes "evict_loop sz1 act victim1 need capacity r1 = Inr (rest1, steps)"
    and "shape sz1 r1 = shape sz2 r2" and "I r1" and "\<And>r k. I r \<Longrightarrow> I (AList.delete k r)"
    and agree: "\<And>r1 r2 el. I r1 \<Longrightarrow> shape sz1 r1 = shape sz2 r2 \<Longrightarrow> el \<noteq> [] \<Longrightarrow> set el \<subseteq> set (map fst r1) \<Longrightarrow>
        victim1 r1 el = victim2 r2 el"
  shows "\<exists>rest2. evict_loop sz2 act victim2 need capacity r2 = Inr (rest2, steps) \<and>
    shape sz1 rest1 = shape sz2 rest2 \<and> I rest1"
  using assms(1-3)
proof (induction "length r1" arbitrary: r1 r2 steps rule: less_induct)
  case less
  note keys = shape_keys[OF less.prems(2)] and us = shape_used[OF less.prems(2)]
  have ne: "r1 = [] \<longleftrightarrow> r2 = []" using arg_cong[OF keys, of length] by auto
  show ?case
  proof (cases "r1 \<noteq> [] \<and> used sz1 r1 + need > capacity")
    case False
    then show ?thesis using less.prems us ne
      by (subst evict_loop.simps, subst (asm) evict_loop.simps) auto
  next
    case loop: True
    then obtain leased where act: "act = Inr leased"
      using less.prems(1) by (subst (asm) evict_loop.simps) (auto simp: bind_res_Inr_iff)
    define eligible where "eligible = filter (\<lambda>r. r \<notin> leased) (map fst r1)"
    show ?thesis
    proof (cases "eligible = []")
      case True
      then show ?thesis using loop less.prems us ne keys act
        by (subst evict_loop.simps, subst (asm) evict_loop.simps) (auto simp: eligible_def Let_def)
    next
      case False
      define v where "v = victim1 r1 eligible"
      have v2: "victim2 r2 eligible = v"
        using agree[OF less.prems(3,2) False] by (auto simp: eligible_def v_def)
      from less.prems(1) obtain steps' where mo: "map_of r1 v \<noteq> None"
        and run: "evict_loop sz1 act victim1 need capacity (AList.delete v r1) = Inr (rest1, steps')"
        and steps: "steps = (eligible, v) # steps'"
        using loop False by (subst (asm) evict_loop.simps)
          (auto simp: act eligible_def[symmetric] v_def[symmetric] Let_def bind_res_Inr_iff split: if_splits)
      have "shape sz1 (AList.delete v r1) = shape sz2 (AList.delete v r2)"
        using less.prems(2) by (simp add: shape_delete)
      from less.hyps[OF length_delete_less[OF mo] run this assms(4)[OF less.prems(3)]]
      obtain rest2 where rest2: "evict_loop sz2 act victim2 need capacity (AList.delete v r2) = Inr (rest2, steps')"
        "shape sz1 rest1 = shape sz2 rest2" "I rest1" by blast
      have "map_of r2 v \<noteq> None" using mo keys by (simp add: map_of_eq_None_iff flip: set_map)
      then have "evict_loop sz2 act victim2 need capacity r2 = Inr (rest2, steps)"
        using loop False us ne keys rest2(1) v2 unfolding steps
        by (subst evict_loop.simps) (auto simp: act eligible_def Let_def)
      with rest2 show ?thesis by blast
    qed
  qed
qed

section \<open>The interface\<close>

locale eviction_policy =
  fixes victim :: "(int \<times> 'v) list \<Rightarrow> int list \<Rightarrow> int"
  assumes victim_in: "eligible \<noteq> [] \<Longrightarrow> victim resident eligible \<in> set eligible"
begin

lemma evict_loop_outcome:
  assumes "distinct (map fst resident)"
  shows "\<exists>rest steps. evict_loop sz (Inr leased) victim need capacity resident = Inr (rest, steps) \<and>
     outcome sz leased need capacity resident rest steps"
  using assms
proof (induction "length resident" arbitrary: resident rule: less_induct)
  case less
  define eligible where "eligible = filter (\<lambda>r. r \<notin> leased) (map fst resident)"
  show ?case
  proof (cases "resident \<noteq> [] \<and> used sz resident + need > capacity")
    case False
    then show ?thesis
      by (subst evict_loop.simps) (auto simp: outcome_def not_less filter_id_conv)
  next
    case loop: True
    show ?thesis
    proof (cases "eligible = []")
      case True
      then have "fst ` set resident \<subseteq> leased" by (auto simp: eligible_def filter_empty_conv)
      with True loop show ?thesis
        by (subst evict_loop.simps) (auto simp: eligible_def Let_def outcome_def list_all_iff)
    next
      case False
      define v where "v = victim resident eligible"
      have v: "v \<in> set eligible" unfolding v_def by (rule victim_in[OF False])
      then have vk: "v \<in> set (map fst resident)" "v \<notin> leased" by (auto simp: eligible_def)
      then have mo: "map_of resident v \<noteq> None" by (auto simp: map_of_eq_None_iff)
      have "length (AList.delete v resident) < length resident" by (rule length_delete_less[OF mo])
      from less.hyps[OF this distinct_delete[OF less.prems]] obtain rest steps where
        run: "evict_loop sz (Inr leased) victim need capacity (AList.delete v resident) = Inr (rest, steps)"
        and out: "outcome sz leased need capacity (AList.delete v resident) rest steps" by blast
      have del: "AList.delete v resident = filter (\<lambda>p. fst p \<noteq> v) resident"
        unfolding AList.delete_eq by (rule filter_cong) auto
      have "evict_loop sz (Inr leased) victim need capacity resident = Inr (rest, (eligible, v) # steps)"
        using loop False mo run by (subst evict_loop.simps) (simp add: eligible_def[symmetric] Let_def v_def[symmetric])
      moreover have "outcome sz leased need capacity resident rest ((eligible, v) # steps)"
      proof -
        have "snd ` set steps \<subseteq> fst ` set (AList.delete v resident) - leased" using out by (simp add: outcome_def)
        then have "v \<notin> snd ` set steps" "snd ` set steps \<subseteq> fst ` set resident - leased" by (auto simp: del)
        moreover have "rest = filter (\<lambda>p. fst p \<notin> snd ` set ((eligible, v) # steps)) resident"
          using out by (auto simp: outcome_def del intro: filter_cong)
        ultimately show ?thesis
          using out v vk unfolding outcome_def by auto
      qed
      ultimately show ?thesis by blast
    qed
  qed
qed

lemma evict_loop_InrD:
  assumes "evict_loop sz (Inr leased) victim need capacity resident = Inr (rest, steps)" "distinct (map fst resident)"
  shows "outcome sz leased need capacity resident rest steps"
  using evict_loop_outcome[OF assms(2), of sz leased need capacity] assms(1) by simp

lemma evict_loop_elim:
  assumes "evict_loop sz act victim need capacity resident = Inr (rest, steps)" "distinct (map fst resident)"
  obtains leased where "outcome sz leased need capacity resident rest steps" "\<And>a. act = Inr a \<Longrightarrow> leased = a"
proof (cases act)
  case (Inl e)
  then have "rest = resident \<and> steps = [] \<and> (resident = [] \<or> used sz resident + need \<le> capacity)"
    using assms(1) by (subst (asm) evict_loop.simps) (auto split: if_splits)
  then show ?thesis by (intro that[of UNIV]) (auto simp: outcome_def Inl filter_id_conv)
next
  case (Inr a)
  then show ?thesis using evict_loop_InrD assms by (intro that[of a]) auto
qed

end

end
