(* ===== verification/Correction_Codec.thy ===== *)
theory Correction_Codec
  imports Complex_Main Bytes Eviction "HOL-Library.List_Lexorder" "HOL-Library.Product_Lexorder"
begin

text \<open>
  The lossless correction codec of \<open>scripts/qualify_lut_predictive_correction.py\<close>: the code fields of a
  canonical quantised payload (\<open>target_payload\<close>, \<open>restore_payload\<close>), the row and column classes and
  their prediction table, the packed match bitmap with its exact exceptions, the static code lengths,
  and the end-to-end check of \<open>main\<close>.  A numpy array is the list of its rows; a code array is a list of rows
  of blocks of code units, and \<open>width\<close> is its item size in bytes.
\<close>

section \<open>Packed bits and fixed-width integers\<close>

text \<open>\<open>int.to_bytes(n, "little")\<close>.\<close>

definition to_bytes :: "nat \<Rightarrow> int \<Rightarrow> bytes res" where
  "to_bytes n v = (if 0 \<le> v \<and> v < 256 ^ n then Inr (le_enc n v) else Inl OverflowError)"

text \<open>\<open>numpy.packbits\<close> and \<open>numpy.unpackbits\<close> with \<open>bitorder="little"\<close>.\<close>

function packbits :: "bool list \<Rightarrow> bytes" where
  "packbits bs = (if bs = [] then [] else horner_sum of_bool 2 (take 8 bs) # packbits (drop 8 bs))"
  by pat_completeness auto
termination by (relation "measure length") auto

definition unpackbits :: "bytes \<Rightarrow> bool list" where
  "unpackbits raw = concat (map (\<lambda>b. map (bit b) [0..<8]) raw)"

text \<open>The consecutive pieces \<open>xs[start:start + n]\<close> for \<open>start in range(0, len(xs), n)\<close>.\<close>

function chunks :: "nat \<Rightarrow> 'a list \<Rightarrow> 'a list list" where
  "chunks n xs = (if xs = [] \<or> n = 0 then [] else take n xs # chunks n (drop n xs))"
  by pat_completeness auto
termination by (relation "measure (length \<circ> snd)") auto

section \<open>Match bitmap and exceptions\<close>

definition exceptions_of :: "int list \<Rightarrow> int list \<Rightarrow> int list" where
  "exceptions_of target prediction = map fst (filter (\<lambda>(t, p). t \<noteq> p) (zip target prediction))"

definition pack_block :: "nat \<Rightarrow> int list \<times> int list \<Rightarrow> bytes res" where
  "pack_block width b = (case b of (target, prediction) \<Rightarrow>
     let exceptions = exceptions_of target prediction in
     bind_res (to_bytes 2 (int (length exceptions))) (\<lambda>count.
     bind_res (map_res (to_bytes width) exceptions) (\<lambda>values.
     Inr (count @ packbits (map2 (=) target prediction) @ concat values))))"

record packed =
  pk_bits :: int
  pk_exceptions :: int
  pk_payload :: bytes
  pk_matches :: "bool list"

text \<open>Both arguments are flattened arrays of one shape.  A block size of 0 is refused by \<open>range\<close>.\<close>

definition pack_match_exceptions :: "int list \<Rightarrow> int list \<Rightarrow> nat \<Rightarrow> nat \<Rightarrow> packed res" where
  "pack_match_exceptions target prediction symbol_bits block_size =
     (if block_size = 0 then Inl (ValueError ''range() arg 3 must not be zero'') else
      bind_res (map_res (pack_block ((symbol_bits + 7) div 8)) (zip (chunks block_size target) (chunks block_size prediction))) (\<lambda>blocks.
      Inr \<lparr>pk_bits = 8 * int (length (concat blocks)), pk_exceptions = int (length (exceptions_of target prediction)),
        pk_payload = concat blocks, pk_matches = map2 (=) target prediction\<rparr>))"

text \<open>
  The loop over \<open>np.flatnonzero(~match)\<close>: the positions of a block and its part of the bitmap, which a payload
  that ends early leaves shorter than the block.  A slice past the end of the payload is short or empty and
  reads as a smaller number, as \<open>int.from_bytes\<close> does.
\<close>

fun fill :: "nat \<Rightarrow> bytes \<Rightarrow> nat \<Rightarrow> bool list \<Rightarrow> int list \<Rightarrow> int list \<times> nat" where
  "fill width payload cursor [] ps = (ps, cursor)"
| "fill width payload cursor (m # ms) [] = ([], cursor)"
| "fill width payload cursor (m # ms) (p # ps) =
     (if m then (case fill width payload cursor ms ps of (vs, c) \<Rightarrow> (p # vs, c))
      else (case fill width payload (cursor + width) ms ps of (vs, c) \<Rightarrow> (le_dec (take width (drop cursor payload)) # vs, c)))"

definition unpack_block :: "nat \<Rightarrow> bytes \<Rightarrow> nat \<Rightarrow> int list \<Rightarrow> (int list \<times> nat) res" where
  "unpack_block width payload cursor prediction =
     (let exception_count = le_dec (take 2 (drop cursor payload));
          bitmap_bytes = (length prediction + 7) div 8;
          matches = take (length prediction) (unpackbits (take bitmap_bytes (drop (cursor + 2) payload))) in
      case fill width payload (cursor + 2 + bitmap_bytes) matches prediction of (values, after) \<Rightarrow>
        bind_res (require (int (length (filter Not matches)) = exception_count) (ValueError ''correction exception count mismatch'')) (\<lambda>_.
        Inr (values, after)))"

fun unpack_blocks :: "nat \<Rightarrow> bytes \<Rightarrow> nat \<Rightarrow> int list list \<Rightarrow> (int list \<times> nat) res" where
  "unpack_blocks width payload cursor [] = Inr ([], cursor)"
| "unpack_blocks width payload cursor (b # bs) =
     bind_res (unpack_block width payload cursor b) (\<lambda>(values, after).
     bind_res (unpack_blocks width payload after bs) (\<lambda>(rest, stop). Inr (values @ rest, stop)))"

definition unpack_match_exceptions :: "int list \<Rightarrow> bytes \<Rightarrow> nat \<Rightarrow> nat \<Rightarrow> int list res" where
  "unpack_match_exceptions prediction payload symbol_bits block_size =
     (if block_size = 0 then Inl (ValueError ''range() arg 3 must not be zero'') else
      bind_res (unpack_blocks ((symbol_bits + 7) div 8) payload 0 (chunks block_size prediction)) (\<lambda>(result, cursor).
      bind_res (require (cursor = length payload) (ValueError ''correction payload trailing bytes'')) (\<lambda>_. Inr result)))"

section \<open>Canonical payloads\<close>

record target_spec =
  tg_name :: string
  tg_block_bytes :: nat
  tg_code_offset :: nat
  tg_code_bytes :: nat
  tg_symbol_width :: nat
  tg_metadata_bytes :: nat

definition TARGETS :: "target_spec list" where
  "TARGETS =
    [\<lparr>tg_name = ''Q2_K'', tg_block_bytes = 84, tg_code_offset = 16, tg_code_bytes = 64, tg_symbol_width = 1, tg_metadata_bytes = 20\<rparr>,
     \<lparr>tg_name = ''IQ2_XS'', tg_block_bytes = 74, tg_code_offset = 2, tg_code_bytes = 64, tg_symbol_width = 2, tg_metadata_bytes = 10\<rparr>,
     \<lparr>tg_name = ''Q3_K'', tg_block_bytes = 110, tg_code_offset = 0, tg_code_bytes = 96, tg_symbol_width = 1, tg_metadata_bytes = 14\<rparr>,
     \<lparr>tg_name = ''IQ3_XXS'', tg_block_bytes = 98, tg_code_offset = 2, tg_code_bytes = 96, tg_symbol_width = 1, tg_metadata_bytes = 2\<rparr>]"

text \<open>The code units of a block: its bytes, or its 16-bit words when \<open>symbol_width\<close> is not 1.\<close>

definition block_codes :: "target_spec \<Rightarrow> bytes \<Rightarrow> int list" where
  "block_codes spec block = map le_dec (chunks (if tg_symbol_width spec = 1 then 1 else 2)
     (take (tg_code_bytes spec) (drop (tg_code_offset spec) block)))"

definition block_metadata :: "target_spec \<Rightarrow> bytes \<Rightarrow> bytes" where
  "block_metadata spec block = take (tg_code_offset spec) block @ drop (tg_code_offset spec + tg_code_bytes spec) block"

definition target_payload :: "bytes \<Rightarrow> target_spec \<Rightarrow> nat \<Rightarrow> nat \<Rightarrow> (int list list list \<times> bytes list list) res" where
  "target_payload raw spec rows blocks =
     bind_res (require (length raw = rows * blocks * tg_block_bytes spec) (ValueError ''cannot reshape array'')) (\<lambda>_.
     let matrix = chunks blocks (chunks (tg_block_bytes spec) raw) in
     Inr (map (map (block_codes spec)) matrix, map (map (block_metadata spec)) matrix))"

text \<open>\<open>codes.view("<u1")\<close>, and the two metadata ranges around it.\<close>

definition restore_block :: "target_spec \<Rightarrow> int list \<Rightarrow> bytes \<Rightarrow> bytes" where
  "restore_block spec codes metadata = take (tg_code_offset spec) metadata @
     concat (map (le_enc (if tg_symbol_width spec = 1 then 1 else 2)) codes) @ drop (tg_code_offset spec) metadata"

definition restore_payload :: "int list list list \<Rightarrow> bytes list list \<Rightarrow> target_spec \<Rightarrow> bytes res" where
  "restore_payload codes metadata spec =
     bind_res (require (list_all (list_all (\<lambda>b. (if tg_symbol_width spec = 1 then 1 else 2) * length b = tg_code_bytes spec)) codes)
       (ValueError ''cannot reshape array'')) (\<lambda>_.
     bind_res (require (list_all (list_all (\<lambda>m. length m + tg_code_bytes spec = tg_block_bytes spec)) metadata)
       (ValueError ''could not broadcast input array'')) (\<lambda>_.
     Inr (concat (map concat (map2 (map2 (restore_block spec)) codes metadata)))))"

section \<open>Classes and prediction tables\<close>

text \<open>Histograms of the low bytes in 32 buckets, with the zeros counted once more in bucket 0.\<close>

definition histogram_of :: "int list \<Rightarrow> int list" where
  "histogram_of values = map (\<lambda>bucket. int (length (filter (\<lambda>v. drop_bit 3 (v AND 0xFF) = int bucket) values)) +
     (if bucket = 0 then int (count_list values 0) else 0)) [0..<32]"

definition feature_matrix :: "int list list list \<Rightarrow> string \<Rightarrow> int list list" where
  "feature_matrix codes axis =
     (if axis = ''row'' then map (histogram_of \<circ> concat) codes
      else map (\<lambda>j. histogram_of (concat (map (\<lambda>row. row ! j) codes))) [0..<length (hd codes)])"

text \<open>\<open>numpy.lexsort\<close> over the reversed columns is the stable lexicographic order of the rows.\<close>

definition feature_order :: "int list list \<Rightarrow> nat list" where
  "feature_order features = sort_key (\<lambda>i. features ! i) [0..<length features]"

definition balanced_classes :: "int list list \<Rightarrow> nat \<Rightarrow> nat list" where
  "balanced_classes features count =
     (if count = 1 then replicate (length features) 0
      else fold (\<lambda>(rank, index) labels. labels[index := min (count - 1) (rank * count div length features)])
        (enumerate 0 (feature_order features)) (replicate (length features) 0))"

definition class_assignments :: "int list list list \<Rightarrow> nat \<Rightarrow> nat \<Rightarrow> nat list \<times> nat list" where
  "class_assignments codes rows columns =
     (balanced_classes (feature_matrix codes ''row'') rows, balanced_classes (feature_matrix codes ''column'') columns)"

text \<open>
  The most frequent value.  Ties go to the smallest key \<open>-unique\<close>, which for the unsigned item types wraps: 0
  first, then the largest value.
\<close>

definition mode_for :: "nat \<Rightarrow> int list \<Rightarrow> int" where
  "mode_for width values = (if values = [] then 0 else
     arg_min_list (\<lambda>u. (- int (count_list values u), (- u) mod 256 ^ width)) (sorted_list_of_set (set values)))"

definition selected :: "int list list list \<Rightarrow> nat list \<Rightarrow> nat list \<Rightarrow> nat \<Rightarrow> nat \<Rightarrow> int list" where
  "selected codes row_labels column_labels row_class column_class =
     concat (map (\<lambda>(row, _). concat (map fst (filter (\<lambda>(_, c). c = column_class) (zip row column_labels))))
       (filter (\<lambda>(_, r). r = row_class) (zip codes row_labels)))"

definition repeat_like :: "int list \<Rightarrow> int \<Rightarrow> int list" where
  "repeat_like block v = replicate (length block) v"

text \<open>The prediction and the bytes of its table.  \<open>max\<close> of an empty label array raises.\<close>

definition make_prediction :: "nat \<Rightarrow> int list list list \<Rightarrow> nat list \<Rightarrow> nat list \<Rightarrow> string \<Rightarrow> (int list list list \<times> int) res" where
  "make_prediction width codes row_labels column_labels level =
     (if level = ''L0'' then
        let v = mode_for width (concat (map concat codes)) in Inr (map (map (\<lambda>b. repeat_like b v)) codes, int width)
      else if level = ''L1'' then
        let table = map (\<lambda>j. mode_for width (concat (map (\<lambda>row. row ! j) codes))) [0..<length (hd codes)] in
        Inr (map (\<lambda>row. map2 repeat_like row table) codes, int (width * length table))
      else if level = ''L2'' then
        let table = map (\<lambda>row. mode_for width (concat row)) codes in
        Inr (map2 (\<lambda>row v. map (\<lambda>b. repeat_like b v) row) codes table, int (width * length table))
      else if row_labels = [] \<or> column_labels = [] then Inl (ValueError ''zero-size array to reduction operation'')
      else let height = Max (set row_labels) + 1; length' = Max (set column_labels) + 1;
          table = map (\<lambda>r. map (\<lambda>c. mode_for width (selected codes row_labels column_labels r c)) [0..<length']) [0..<height] in
        Inr (map2 (\<lambda>row r. map2 (\<lambda>b c. repeat_like b (table ! r ! c)) row column_labels) codes row_labels, int (width * (height * length'))))"

section \<open>Accounting\<close>

text \<open>\<open>math.ceil(math.log2(total / count))\<close>: the least \<open>n\<close> with \<open>total \<le> count * 2 ^ n\<close>.\<close>

function ceil_log2 :: "nat \<Rightarrow> nat \<Rightarrow> nat" where
  "ceil_log2 whole count = (if count = 0 \<or> whole \<le> count then 0 else Suc (ceil_log2 whole (2 * count)))"
  by pat_completeness auto
termination by (relation "measure (\<lambda>(t, c). t - c)") auto

definition bits_for_count :: "nat \<Rightarrow> nat" where
  "bits_for_count count = max 1 (ceil_log2 (max 2 count) 1)"

text \<open>
  \<open>math.ceil(-math.log2(count / total))\<close> is the least such exponent, at least 1; the heap walk before it in the
  source computes lengths that are then overwritten.
\<close>

definition code_length :: "nat \<Rightarrow> nat \<Rightarrow> nat" where
  "code_length whole count = max 1 (ceil_log2 whole count)"

definition huffman_lengths :: "int list \<Rightarrow> (int \<times> nat) list \<times> nat" where
  "huffman_lengths values = (let unique = sorted_list_of_set (set values) in
     if length unique = 1 then ([(hd unique, 1)], 8)
     else (map (\<lambda>u. (u, code_length (length values) (count_list values u))) unique, length unique * (8 + 4)))"

record entropy_account =
  ea_realized_bits :: nat
  ea_header_bits :: nat
  ea_unique_symbols :: nat
  ea_payload_bits :: nat

definition entropy_accounting :: "int list \<Rightarrow> entropy_account" where
  "entropy_accounting values = (case huffman_lengths values of (lengths, header_bits) \<Rightarrow>
     let payload_bits = (\<Sum>(u, n)\<leftarrow>lengths. count_list values u * n) in
     \<lparr>ea_realized_bits = payload_bits + header_bits, ea_header_bits = header_bits,
      ea_unique_symbols = length lengths, ea_payload_bits = payload_bits\<rparr>)"

section \<open>The end-to-end check\<close>

text \<open>\<open>reshape(prediction.shape)\<close>, for an array whose blocks all have \<open>units\<close> code units.\<close>

definition reshape :: "nat \<Rightarrow> nat \<Rightarrow> int list \<Rightarrow> int list list list" where
  "reshape blocks units flat = chunks blocks (chunks units flat)"

definition flatten :: "int list list list \<Rightarrow> int list" where
  "flatten codes = concat (map concat codes)"

definition item_width :: "target_spec \<Rightarrow> nat" where
  "item_width spec = (if tg_symbol_width spec = 1 then 1 else 2)"

record exact_row =
  ex_format :: string
  ex_payload_bytes :: int
  ex_correction_bytes :: int
  ex_exceptions :: int
  ex_passed :: bool

definition exact_row_of :: "nat \<Rightarrow> nat \<Rightarrow> bytes \<Rightarrow> target_spec \<Rightarrow> exact_row res" where
  "exact_row_of rows blocks original spec =
     bind_res (target_payload original spec rows blocks) (\<lambda>(codes, metadata).
     bind_res (case class_assignments codes 16 16 of (row_labels, column_labels) \<Rightarrow>
       make_prediction (item_width spec) codes row_labels column_labels ''L3'') (\<lambda>(prediction, _).
     bind_res (pack_match_exceptions (flatten codes) (flatten prediction) (8 * item_width spec) 256) (\<lambda>packed.
     bind_res (unpack_match_exceptions (flatten prediction) (pk_payload packed) (8 * item_width spec) 256) (\<lambda>restored_codes.
     bind_res (restore_payload (reshape blocks (tg_code_bytes spec div item_width spec) restored_codes) metadata spec) (\<lambda>restored.
     Inr \<lparr>ex_format = tg_name spec, ex_payload_bytes = int (length original), ex_correction_bytes = int (length (pk_payload packed)),
       ex_exceptions = pk_exceptions packed, ex_passed = (restored = original)\<rparr>)))))"

definition exactness :: "nat \<Rightarrow> nat \<Rightarrow> (string \<Rightarrow> bytes) \<Rightarrow> string res" where
  "exactness rows blocks raw_payloads =
     bind_res (map_res (\<lambda>spec. exact_row_of rows blocks (raw_payloads (tg_name spec)) spec) TARGETS) (\<lambda>exact_rows.
     Inr (if list_all ex_passed exact_rows then ''CANONICAL_ROUNDTRIP_EXACT'' else ''CANONICAL_ROUNDTRIP_FAILED''))"


declare packbits.simps [simp del] chunks.simps [simp del] ceil_log2.simps [simp del]

section \<open>The bitmap and the exceptions read back\<close>

abbreviation unit_ok :: "nat \<Rightarrow> int \<Rightarrow> bool" where
  "unit_ok width \<equiv> \<lambda>t. 0 \<le> t \<and> t < 256 ^ width"

lemma chunks_Nil [simp]: "chunks n [] = []" "chunks 0 xs = []"
  by (simp_all add: chunks.simps)

lemma chunks_step: "0 < n \<Longrightarrow> xs \<noteq> [] \<Longrightarrow> chunks n xs = take n xs # chunks n (drop n xs)"
  by (subst chunks.simps) simp

lemma concat_chunks [simp]: "0 < n \<Longrightarrow> concat (chunks n xs) = xs"
proof (induction n xs rule: chunks.induct)
  case (1 n xs)
  show ?case
  proof (cases "xs = []")
    case False
    then have "concat (chunks n (drop n xs)) = drop n xs" using 1 by simp
    then show ?thesis using False 1(2) by (simp only: chunks_step concat.simps append_take_drop_id not_False_eq_True)
  qed simp
qed

lemma packbits_Nil [simp]: "packbits [] = []"
  by (simp add: packbits.simps)

lemma bytes_step: "0 < n \<Longrightarrow> 1 + (n - 8 + 7) div 8 = (n + 7) div (8 :: nat)"
proof (cases "n \<le> 8")
  case True
  moreover assume "0 < n"
  ultimately have "(n + 7) div 8 = 1" by (intro div_nat_eqI) auto
  then show ?thesis using True by simp
next
  case False
  then obtain m where "n = m + 8" by (metis add.commute le_add_diff_inverse nat_le_linear)
  then have "(n + 7) div 8 = ((m + 7) + 8) div 8" by simp
  also have "\<dots> = (m + 7) div 8 + 1" by (subst div_add_self2) simp_all
  finally show ?thesis using \<open>n = m + 8\<close> by simp
qed

lemma length_packbits [simp]: "length (packbits bs) = (length bs + 7) div 8"
proof (induction bs rule: packbits.induct)
  case (1 bs)
  show ?case
  proof (cases "bs = []")
    case False
    then have "packbits bs = horner_sum of_bool 2 (take 8 bs) # packbits (drop 8 bs)" by (subst packbits.simps) (rule if_not_P)
    then have "length (packbits bs) = Suc (length (packbits (drop 8 bs)))" by (simp only: list.size)
    then have "length (packbits bs) = 1 + (length bs - 8 + 7) div 8" by (simp only: 1[OF False] length_drop)
    moreover have "0 < length bs" using False by simp
    ultimately show ?thesis by (simp only: bytes_step)
  qed simp
qed

lemma unpackbits_simps [simp]: "unpackbits [] = []" "unpackbits (b # bs) = map (bit b) [0..<8] @ unpackbits bs"
  by (simp_all add: unpackbits_def)

lemma take_byte_bits:
  assumes "length bs \<le> 8" shows "take (length bs) (map (bit (horner_sum of_bool 2 bs :: 8 word)) [0..<8]) = bs"
  using assms by (intro nth_equalityI) (auto simp: bit_horner_sum_bit_word_iff)

lemma unpackbits_packbits: "take (length bs) (unpackbits (packbits bs)) = bs"
proof (induction bs rule: packbits.induct)
  case (1 bs)
  show ?case
  proof (cases "length bs \<le> 8")
    case True
    then show ?thesis using take_byte_bits[OF True] by (cases "bs = []") (subst packbits.simps, simp)+
  next
    case False
    have p: "unpackbits (packbits bs) = map (bit (horner_sum of_bool 2 (take 8 bs) :: 8 word)) [0..<8] @ unpackbits (packbits (drop 8 bs))"
      using False by (subst packbits.simps) (auto split: if_splits)
    have "take 8 bs = map (bit (horner_sum of_bool 2 (take 8 bs) :: 8 word)) [0..<8]"
      using take_byte_bits[of "take 8 bs"] False by simp
    moreover have "take (length bs - 8) (unpackbits (packbits (drop 8 bs))) = drop 8 bs"
      using 1 False by (cases "bs = []") auto
    ultimately show ?thesis using False unfolding p by (metis append_take_drop_id length_map length_upt take_append take_all_iff
          diff_zero nat_le_linear order.refl)
  qed
qed

lemma exceptions_of_simps [simp]:
  "exceptions_of [] ps = []" "exceptions_of ts [] = []"
  "exceptions_of (t # ts) (p # ps) = (if t = p then [] else [t]) @ exceptions_of ts ps"
  by (simp_all add: exceptions_of_def)

lemma exceptions_of_append: "length ts = length ps \<Longrightarrow> exceptions_of (ts @ ts') (ps @ ps') = exceptions_of ts ps @ exceptions_of ts' ps'"
  by (simp add: exceptions_of_def)

lemma mismatches: "length ts = length ps \<Longrightarrow> length (filter Not (map2 (=) ts ps)) = length (exceptions_of ts ps)"
  by (induction ts ps rule: list_induct2) auto

lemma fill_exceptions:
  assumes "length ts = length ps" "list_all (\<lambda>t. 0 \<le> t \<and> t < 256 ^ width) ts"
    and "drop cursor payload = concat (map (le_enc width) (exceptions_of ts ps)) @ suf"
  shows "fill width payload cursor (map2 (=) ts ps) ps = (ts, cursor + width * length (exceptions_of ts ps))"
  using assms
proof (induction ts ps arbitrary: cursor rule: list_induct2)
  case (Cons t ts p ps)
  show ?case
  proof (cases "t = p")
    case False
    have "drop width (drop cursor payload) = concat (map (le_enc width) (exceptions_of ts ps)) @ suf"
      unfolding Cons.prems(2) using False by simp
    then have "drop (cursor + width) payload = concat (map (le_enc width) (exceptions_of ts ps)) @ suf"
      by (simp add: add.commute)
    then have "fill width payload (cursor + width) (map2 (=) ts ps) ps = (ts, cursor + width + width * length (exceptions_of ts ps))"
      using Cons.IH Cons.prems(1) by simp
    moreover have "le_dec (take width (drop cursor payload)) = t"
      unfolding Cons.prems(2) using False Cons.prems(1) by (simp add: le_dec_enc_id)
    ultimately show ?thesis using False by simp
  qed (use Cons in simp)
qed simp

lemma to_bytes_Inr [simp]: "to_bytes n v = Inr bs \<longleftrightarrow> 0 \<le> v \<and> v < 256 ^ n \<and> bs = le_enc n v"
  by (auto simp: to_bytes_def)

lemma map_to_bytes: "map_res (to_bytes n) vs = Inr bss \<longleftrightarrow> list_all (\<lambda>v. 0 \<le> v \<and> v < 256 ^ n) vs \<and> bss = map (le_enc n) vs"
  by (induction vs arbitrary: bss) (auto simp: bind_res_Inr_iff)


lemma exceptions_subset: "set (exceptions_of ts ps) \<subseteq> set ts"
  by (auto simp: exceptions_of_def dest: set_zip_leftD)

lemma exceptions_ok: "list_all (unit_ok width) ts \<Longrightarrow> list_all (unit_ok width) (exceptions_of ts ps)"
  using exceptions_subset by (auto simp: list_all_iff)

lemma length_exceptions_le: "length (exceptions_of ts ps) \<le> length ts"
  by (auto simp: exceptions_of_def intro: le_trans[OF length_filter_le])

lemma pack_block_Inr:
  assumes "list_all (unit_ok width) ts" "length ts < 2 ^ 16"
  shows "pack_block width (ts, ps) = Inr (le_enc 2 (int (length (exceptions_of ts ps))) @ packbits (map2 (=) ts ps) @
    concat (map (le_enc width) (exceptions_of ts ps)))"
proof -
  have "map_res (to_bytes width) (exceptions_of ts ps) = Inr (map (le_enc width) (exceptions_of ts ps))"
    using exceptions_ok[OF assms(1), of ps] by (simp add: map_to_bytes)
  moreover have "to_bytes 2 (int (length (exceptions_of ts ps))) = Inr (le_enc 2 (int (length (exceptions_of ts ps))))"
    using length_exceptions_le[of ts ps] assms(2) by (simp only: to_bytes_Inr) simp
  ultimately show ?thesis unfolding pack_block_def Let_def prod.case by (simp only: bind_res_simps)
qed

lemma unpack_pack_block:
  assumes "pack_block width (ts, ps) = Inr enc" "length ts = length ps" "list_all (unit_ok width) ts" "length ts < 2 ^ 16"
    and "drop cursor payload = enc @ suf"
  shows "unpack_block width payload cursor ps = Inr (ts, cursor + length enc)"
proof -
  let ?n = "le_enc 2 (int (length (exceptions_of ts ps)))" and ?m = "packbits (map2 (=) ts ps)"
    and ?v = "concat (map (le_enc width) (exceptions_of ts ps))"
  have enc: "enc = ?n @ ?m @ ?v" using assms(1) pack_block_Inr[OF assms(3,4)] by simp
  have bm: "(length ps + 7) div 8 = length ?m" using assms(2) by simp
  have d2: "drop (cursor + 2) payload = ?m @ ?v @ suf"
    using arg_cong[OF assms(5), of "drop 2"] by (simp add: enc add.commute)
  have d3: "drop (cursor + 2 + length ?m) payload = ?v @ suf"
    using arg_cong[OF d2, of "drop (length ?m)"] by (simp add: add.commute del: length_packbits)
  have n: "le_dec (take 2 (drop cursor payload)) = int (length (exceptions_of ts ps))"
    using length_exceptions_le[of ts ps] assms(4) unfolding assms(5) enc by (simp add: le_dec_enc_id)
  have m: "take (length ps) (unpackbits (take (length ?m) (drop (cursor + 2) payload))) = map2 (=) ts ps"
    unfolding d2 using unpackbits_packbits[of "map2 (=) ts ps"] assms(2) by simp
  note f = fill_exceptions[OF assms(2,3) d3]
  have "length ?v = width * length (exceptions_of ts ps)" by (simp add: length_concat o_def sum_list_triv)
  then show ?thesis
    unfolding unpack_block_def Let_def bm n m f using mismatches[OF assms(2)] by (simp add: enc del: length_packbits)
qed

lemma unpack_pack_blocks:
  assumes "map_res (pack_block width) (zip tss pss) = Inr encs" "list_all2 (\<lambda>ts ps. length ts = length ps) tss pss"
    and "list_all (\<lambda>ts. list_all (unit_ok width) ts \<and> length ts < 2 ^ 16) tss"
    and "drop cursor payload = concat encs @ suf"
  shows "unpack_blocks width payload cursor pss = Inr (concat tss, cursor + length (concat encs))"
  using assms(2,1,3,4)
proof (induction tss pss arbitrary: cursor encs rule: list_all2_induct)
  case (Cons ts tss ps pss)
  obtain e es where e: "pack_block width (ts, ps) = Inr e" "map_res (pack_block width) (zip tss pss) = Inr es" "encs = e # es"
    using Cons.prems(1) by (auto simp: bind_res_Inr_iff)
  have b: "unpack_block width payload cursor ps = Inr (ts, cursor + length e)"
    using unpack_pack_block[OF e(1) Cons.hyps(1)] Cons.prems e(3) by simp
  have "drop (cursor + length e) payload = concat es @ suf"
    using arg_cong[OF Cons.prems(3), of "drop (length e)"] e(3) by (simp add: add.commute)
  then have "unpack_blocks width payload (cursor + length e) pss = Inr (concat tss, cursor + length e + length (concat es))"
    using Cons.IH[OF e(2)] Cons.prems(2) by simp
  then show ?case using b e(3) by simp
qed simp

lemma chunks_lengths: "length ts = length ps \<Longrightarrow> list_all2 (\<lambda>ts ps. length ts = length ps) (chunks n ts) (chunks n ps)"
proof (induction n ts arbitrary: ps rule: chunks.induct)
  case (1 n ts)
  show ?case
  proof (cases "ts = [] \<or> n = 0")
    case False
    then have "ps \<noteq> []" using 1(2) by auto
    then show ?thesis using False 1 by (simp add: chunks_step)
  qed (use 1(2) in auto)
qed

lemma chunks_all: "list_all P xs \<Longrightarrow> list_all (\<lambda>c. list_all P c \<and> length c \<le> n) (chunks n xs)"
proof (induction n xs rule: chunks.induct)
  case (1 n xs)
  have "list_all P (take n xs)" "list_all P (drop n xs)" using 1(2) by (auto simp: list_all_iff dest: in_set_takeD in_set_dropD)
  then show ?case using 1(1) by (cases "xs = [] \<or> n = 0") (auto simp: chunks_step)
qed

lemma unpack_pack:
  assumes "pack_match_exceptions target prediction symbol_bits block_size = Inr p" "length target = length prediction"
    and "list_all (unit_ok ((symbol_bits + 7) div 8)) target" "block_size < 2 ^ 16"
  shows "unpack_match_exceptions prediction (pk_payload p) symbol_bits block_size = Inr target"
proof -
  let ?w = "(symbol_bits + 7) div 8"
  obtain encs where e: "map_res (pack_block ?w) (zip (chunks block_size target) (chunks block_size prediction)) = Inr encs"
    "pk_payload p = concat encs" and n: "0 < block_size"
    using assms(1) by (auto simp: pack_match_exceptions_def bind_res_Inr_iff split: if_splits)
  have "list_all (\<lambda>ts. list_all (unit_ok ?w) ts \<and> length ts < 2 ^ 16) (chunks block_size target)"
    using chunks_all[OF assms(3), of block_size] assms(4) by (auto simp: list_all_iff)
  from unpack_pack_blocks[OF e(1) chunks_lengths[OF assms(2)] this, of 0 "concat encs" "[]"]
  show ?thesis using n by (simp add: unpack_match_exceptions_def e(2))
qed


section \<open>The end-to-end check always passes\<close>

lemma concat_concat_map: "concat (map concat xs) = concat (concat xs)"
  by (induction xs) simp_all

lemma chunks_concat:
  assumes "0 < n" "list_all (\<lambda>b. length b = n) bs" shows "chunks n (concat bs) = bs"
  using assms(2)
proof (induction bs)
  case (Cons b bs)
  then have "chunks n (b @ concat bs) = take n (b @ concat bs) # chunks n (drop n (b @ concat bs))"
    using assms(1) by (intro chunks_step) auto
  then show ?case using Cons by simp
qed simp

lemma chunks_shape:
  assumes "0 < n" "length xs = k * n" shows "length (chunks n xs) = k \<and> list_all (\<lambda>c. length c = n) (chunks n xs)"
  using assms(2)
proof (induction k arbitrary: xs)
  case (Suc k)
  then have "xs \<noteq> []" using assms(1) by auto
  then have "chunks n xs = take n xs # chunks n (drop n xs)" using assms(1) by (rule chunks_step[rotated])
  moreover have "length (drop n xs) = k * n" using Suc.prems by simp
  ultimately show ?case using Suc by simp
qed simp

definition spec_ok :: "target_spec \<Rightarrow> bool" where
  "spec_ok spec \<longleftrightarrow> tg_code_offset spec + tg_code_bytes spec \<le> tg_block_bytes spec \<and> item_width spec dvd tg_code_bytes spec \<and>
     0 < tg_code_bytes spec"

lemma targets_ok: "list_all spec_ok TARGETS"
  by (simp add: TARGETS_def spec_ok_def item_width_def)

definition shaped :: "nat \<Rightarrow> nat \<Rightarrow> nat \<Rightarrow> 'a list list list \<Rightarrow> bool" where
  "shaped rows blocks units codes \<longleftrightarrow> length codes = rows \<and>
     (\<forall>row \<in> set codes. length row = blocks \<and> (\<forall>b \<in> set row. length b = units))"

lemma item_width_cases: "item_width spec = 1 \<or> item_width spec = 2" "(if tg_symbol_width spec = 1 then 1 else 2) = item_width spec"
  by (auto simp: item_width_def)

lemma block_codes_shape:
  assumes "spec_ok spec" "length b = tg_block_bytes spec"
  shows "length (block_codes spec b) = tg_code_bytes spec div item_width spec" "list_all (unit_ok (item_width spec)) (block_codes spec b)"
    "length (block_metadata spec b) + tg_code_bytes spec = tg_block_bytes spec"
    "restore_block spec (block_codes spec b) (block_metadata spec b) = b"
proof -
  let ?w = "item_width spec" and ?x = "take (tg_code_bytes spec) (drop (tg_code_offset spec) b)"
  have w: "0 < ?w" using item_width_cases(1)[of spec] by auto
  have "tg_code_bytes spec \<le> tg_block_bytes spec - tg_code_offset spec" using assms(1) unfolding spec_ok_def by linarith
  then have "length ?x = tg_code_bytes spec" using assms(2) by simp
  then have "length ?x = tg_code_bytes spec div ?w * ?w" using assms(1) by (simp only: spec_ok_def dvd_div_mult_self)
  from chunks_shape[OF w this] have c: "length (chunks ?w ?x) = tg_code_bytes spec div ?w" "list_all (\<lambda>c. length c = ?w) (chunks ?w ?x)" by auto
  show "length (block_codes spec b) = tg_code_bytes spec div ?w" using c(1) by (simp add: block_codes_def item_width_def)
  have "unit_ok ?w (le_dec c)" if "length c = ?w" for c using le_dec_less[of c] unfolding that by simp
  then show "list_all (unit_ok ?w) (block_codes spec b)"
    using c(2) unfolding block_codes_def item_width_cases(2) list_all_iff set_map by blast
  show "length (block_metadata spec b) + tg_code_bytes spec = tg_block_bytes spec" using assms by (simp add: block_metadata_def spec_ok_def)
  have "map (le_enc ?w \<circ> le_dec) (chunks ?w ?x) = chunks ?w ?x"
    using c(2) unfolding list_all_iff by (intro map_idI) (simp only: o_apply le_enc_dec)
  then have "concat (map (le_enc ?w) (block_codes spec b)) = ?x"
    unfolding block_codes_def item_width_cases(2) using w by (simp only: map_map concat_chunks)
  moreover have "take (tg_code_offset spec) (block_metadata spec b) = take (tg_code_offset spec) b"
    "drop (tg_code_offset spec) (block_metadata spec b) = drop (tg_code_offset spec + tg_code_bytes spec) b"
    using assms by (auto simp: block_metadata_def spec_ok_def)
  ultimately show "restore_block spec (block_codes spec b) (block_metadata spec b) = b"
    unfolding restore_block_def item_width_cases(2)
    by (metis append_take_drop_id drop_drop add.commute)
qed

lemma payload_matrix:
  assumes "0 < blocks" "0 < n" "length raw = rows * blocks * n"
  shows "shaped rows blocks n (chunks blocks (chunks n raw))" "concat (map concat (chunks blocks (chunks n raw))) = raw"
proof -
  have c: "length (chunks n raw) = rows * blocks" "list_all (\<lambda>c. length c = n) (chunks n raw)"
    using chunks_shape[OF assms(2,3)] by auto
  have "list_all (list_all (\<lambda>c. length c = n)) (chunks blocks (chunks n raw))"
    using chunks_all[OF c(2), of blocks] by (auto simp: list_all_iff)
  then show "shaped rows blocks n (chunks blocks (chunks n raw))"
    using chunks_shape[OF assms(1) c(1)] by (auto simp: shaped_def list_all_iff)
  have "concat (map concat (chunks blocks (chunks n raw))) = concat (concat (chunks blocks (chunks n raw)))"
    by (rule concat_concat_map)
  then show "concat (map concat (chunks blocks (chunks n raw))) = raw" using assms by simp
qed


lemma length_label_fold:
  "length (fold (\<lambda>(rank, index) labels. labels[index := f rank]) rs ls) = length ls"
  by (induction rs arbitrary: ls) auto

lemma length_balanced_classes [simp]: "length (balanced_classes features count) = length features"
  by (simp add: balanced_classes_def length_label_fold)

lemma class_assignments_lengths:
  assumes "shaped rows blocks units codes" "0 < rows" "class_assignments codes r c = (row_labels, column_labels)"
  shows "length row_labels = rows \<and> length column_labels = blocks"
proof -
  have "hd codes \<in> set codes" using assms(1,2) by (intro hd_in_set) (auto simp: shaped_def)
  then have "length (hd codes) = blocks" using assms(1) by (auto simp: shaped_def)
  moreover have "length codes = rows" using assms(1) by (simp add: shaped_def)
  moreover have "row_labels = balanced_classes (feature_matrix codes ''row'') r"
    "column_labels = balanced_classes (feature_matrix codes ''column'') c"
    using assms(3) by (simp_all add: class_assignments_def)
  ultimately show ?thesis by (simp add: feature_matrix_def)
qed

lemma shaped_map: "shaped rows blocks n m \<Longrightarrow> (\<And>b. length b = n \<Longrightarrow> length (f b) = k) \<Longrightarrow> shaped rows blocks k (map (map f) m)"
  by (auto simp: shaped_def)

lemma length_concat_const: "\<forall>x \<in> set xs. length x = n \<Longrightarrow> length (concat xs) = length xs * n"
  by (induction xs) simp_all

lemma length_flatten:
  assumes "shaped rows blocks units codes" shows "length (flatten codes) = rows * (blocks * units)"
proof -
  have "length (concat row) = blocks * units" if "row \<in> set codes" for row
    using assms that length_concat_const[of row units] by (simp add: shaped_def)
  then show ?thesis using assms length_concat_const[of "map concat codes" "blocks * units"] by (simp add: flatten_def shaped_def)
qed

lemma reshape_flatten:
  assumes "shaped rows blocks units codes" "0 < blocks" "0 < units" shows "reshape blocks units (flatten codes) = codes"
proof -
  have "chunks units (flatten codes) = concat codes" unfolding flatten_def concat_concat_map
    using assms(1) by (intro chunks_concat[OF assms(3)]) (auto simp: shaped_def list_all_iff)
  moreover have "chunks blocks (concat codes) = codes"
    using assms(1) by (intro chunks_concat[OF assms(2)]) (auto simp: shaped_def list_all_iff)
  ultimately show ?thesis by (simp add: reshape_def)
qed

lemma L3_prediction:
  assumes "length row_labels = rows" "length column_labels = blocks" "0 < rows" "0 < blocks" "shaped rows blocks units codes"
  shows "\<exists>prediction bytes. make_prediction width codes row_labels column_labels ''L3'' = Inr (prediction, bytes) \<and>
    shaped rows blocks units prediction"
proof -
  have "shaped rows blocks units (map2 (\<lambda>row r. map2 (\<lambda>b c. repeat_like b (t r c)) row column_labels) codes row_labels)" for t
    using assms(1,2,5) by (auto simp: shaped_def repeat_like_def dest!: set_zip_leftD)
  moreover have "row_labels \<noteq> []" "column_labels \<noteq> []" using assms(1-4) by auto
  ultimately show ?thesis by (simp add: make_prediction_def Let_def)
qed

lemma pack_exists:
  assumes "list_all (unit_ok ((symbol_bits + 7) div 8)) target" "0 < block_size" "block_size < 2 ^ 16"
  shows "\<exists>p. pack_match_exceptions target prediction symbol_bits block_size = Inr p"
proof -
  let ?w = "(symbol_bits + 7) div 8"
  have c: "list_all (\<lambda>ts. list_all (unit_ok ?w) ts \<and> length ts < 2 ^ 16) (chunks block_size target)"
    using chunks_all[OF assms(1), of block_size] assms(3) by (auto simp: list_all_iff)
  have "\<exists>e. pack_block ?w b = Inr e" if "b \<in> set (zip (chunks block_size target) (chunks block_size prediction))" for b
  proof -
    obtain ts ps where b: "b = (ts, ps)" by (cases b)
    then have "list_all (unit_ok ?w) ts \<and> length ts < 2 ^ 16" using that c by (auto simp: list_all_iff dest: set_zip_leftD)
    then show ?thesis using pack_block_Inr[of ?w ts ps] b by blast
  qed
  then have "\<exists>es. map_res (pack_block ?w) bs = Inr es"
    if "set bs \<subseteq> set (zip (chunks block_size target) (chunks block_size prediction))" for bs
    using that by (induction bs) fastforce+
  then obtain es where "map_res (pack_block ?w) (zip (chunks block_size target) (chunks block_size prediction)) = Inr es" by blast
  then show ?thesis using assms(2) by (simp add: pack_match_exceptions_def)
qed

lemma restore_matrix:
  assumes "spec_ok spec" "shaped rows blocks (tg_block_bytes spec) m"
  shows "restore_payload (map (map (block_codes spec)) m) (map (map (block_metadata spec)) m) spec = Inr (concat (map concat m))"
proof -
  have b: "item_width spec * length (block_codes spec b) = tg_code_bytes spec"
    "length (block_metadata spec b) + tg_code_bytes spec = tg_block_bytes spec"
    "restore_block spec (block_codes spec b) (block_metadata spec b) = b" if "length b = tg_block_bytes spec" for b
    using block_codes_shape[OF assms(1) that] assms(1) by (simp_all add: spec_ok_def)
  have "map2 (map2 (restore_block spec)) (map (map (block_codes spec)) m) (map (map (block_metadata spec)) m) = m"
    unfolding zip_map_map map_map
    using assms(2) b(3) by (auto simp: shaped_def zip_map_map zip_same_conv_map o_def intro!: map_idI)
  moreover have "list_all (list_all (\<lambda>b. item_width spec * length b = tg_code_bytes spec)) (map (map (block_codes spec)) m)"
    "list_all (list_all (\<lambda>m. length m + tg_code_bytes spec = tg_block_bytes spec)) (map (map (block_metadata spec)) m)"
    using assms(2) b(1,2) by (auto simp: shaped_def list_all_iff)
  ultimately show ?thesis unfolding restore_payload_def item_width_cases(2) by simp
qed

lemma exact_row_passes:
  assumes "spec_ok spec" "0 < rows" "0 < blocks" "length raw = rows * blocks * tg_block_bytes spec"
  shows "\<exists>r. exact_row_of rows blocks raw spec = Inr r \<and> ex_passed r"
proof -
  let ?w = "item_width spec"
  let ?m = "chunks blocks (chunks (tg_block_bytes spec) raw)"
  let ?codes = "map (map (block_codes spec)) ?m" and ?units = "tg_code_bytes spec div ?w"
  have bb: "0 < tg_block_bytes spec" using assms(1) unfolding spec_ok_def by linarith
  note m = payload_matrix[OF assms(3) bb assms(4)]
  have shape: "shaped rows blocks ?units ?codes" using shaped_map[OF m(1)] block_codes_shape(1)[OF assms(1)] by blast
  have units: "0 < ?units" using assms(1) item_width_cases(1)[of spec] by (auto simp: spec_ok_def)
  have w: "(8 * ?w + 7) div 8 = ?w" by simp
  have "unit_ok ?w t" if "t \<in> set (flatten ?codes)" for t
    using that m(1) block_codes_shape(2)[OF assms(1)] by (auto simp: flatten_def shaped_def list_all_iff)
  then have ok: "list_all (unit_ok ((8 * ?w + 7) div 8)) (flatten ?codes)" unfolding w by (auto simp: list_all_iff)
  obtain rl cl where labels: "class_assignments ?codes 16 16 = (rl, cl)" by fastforce
  obtain prediction tb where p: "make_prediction ?w ?codes rl cl ''L3'' = Inr (prediction, tb)" "shaped rows blocks ?units prediction"
    using L3_prediction[OF _ _ assms(2,3) shape] class_assignments_lengths[OF shape assms(2) labels] by blast
  obtain packed where k: "pack_match_exceptions (flatten ?codes) (flatten prediction) (8 * ?w) 256 = Inr packed"
    using pack_exists[OF ok, of 256] by auto
  have "unpack_match_exceptions (flatten prediction) (pk_payload packed) (8 * ?w) 256 = Inr (flatten ?codes)"
    using unpack_pack[OF k _ ok] length_flatten[OF shape] length_flatten[OF p(2)] by simp
  moreover have "target_payload raw spec rows blocks = Inr (?codes, map (map (block_metadata spec)) ?m)"
    using assms(4) by (simp add: target_payload_def Let_def)
  ultimately show ?thesis
    using labels p(1) k reshape_flatten[OF shape assms(3) units] restore_matrix[OF assms(1) m(1)] m(2)
    by (simp add: exact_row_of_def)
qed

text \<open>
  C9. The correction codec is lossless on every canonical payload: for any bytes of the right size, of any
  number of rows and blocks, the codes that are predicted by the class table, packed as a match bitmap with
  exact exceptions, unpacked and put back between the untouched metadata are the original payload byte for
  byte.  So the check of \<open>main\<close> raises nothing and always ends with CANONICAL_ROUNDTRIP_EXACT.
\<close>

theorem canonical_roundtrip_exact:
  assumes "0 < rows" "0 < blocks"
    and "list_all (\<lambda>spec. length (raw_payloads (tg_name spec)) = rows * blocks * tg_block_bytes spec) TARGETS"
  shows "exactness rows blocks raw_payloads = Inr ''CANONICAL_ROUNDTRIP_EXACT''"
proof -
  have "\<exists>rs. map_res (\<lambda>spec. exact_row_of rows blocks (raw_payloads (tg_name spec)) spec) specs = Inr rs \<and> list_all ex_passed rs"
    if "list_all spec_ok specs" "list_all (\<lambda>spec. length (raw_payloads (tg_name spec)) = rows * blocks * tg_block_bytes spec) specs" for specs
    using that
  proof (induction specs)
    case (Cons spec specs)
    then obtain r rs where "exact_row_of rows blocks (raw_payloads (tg_name spec)) spec = Inr r" "ex_passed r"
      "map_res (\<lambda>spec. exact_row_of rows blocks (raw_payloads (tg_name spec)) spec) specs = Inr rs" "list_all ex_passed rs"
      using exact_row_passes[OF _ assms(1,2), of spec "raw_payloads (tg_name spec)"] by auto
    then show ?case by simp
  qed simp
  from this[OF targets_ok assms(3)] show ?thesis by (auto simp: exactness_def)
qed

theorem canonical_roundtrip_exact_witness:
  "exactness 1 1 (\<lambda>name. if name = ''Q2_K'' then replicate 84 3 else if name = ''IQ2_XS'' then replicate 74 5
     else if name = ''Q3_K'' then replicate 110 7 else replicate 98 9) = Inr ''CANONICAL_ROUNDTRIP_EXACT''"
  by (rule canonical_roundtrip_exact) (simp_all add: TARGETS_def)


section \<open>Truncated payloads\<close>

lemma fill_cursor: "length ms \<le> length ps \<Longrightarrow> snd (fill width payload cursor ms ps) = cursor + width * length (filter Not ms)"
  by (induction width payload cursor ms ps rule: fill.induct) (auto split: prod.splits)

lemma fill_cursor_ge: "cursor \<le> snd (fill width payload cursor ms ps)"
  by (induction width payload cursor ms ps rule: fill.induct) (auto split: prod.splits)

lemma unpack_block_cursor:
  assumes "unpack_block width payload cursor ps = Inr (vs, after)"
  shows "after = cursor + 2 + (length ps + 7) div 8 + width * length (filter Not (take (length ps)
    (unpackbits (take ((length ps + 7) div 8) (drop (cursor + 2) payload)))))"
proof -
  let ?m = "take (length ps) (unpackbits (take ((length ps + 7) div 8) (drop (cursor + 2) payload)))"
  have "snd (fill width payload (cursor + 2 + (length ps + 7) div 8) ?m ps) = after"
    using assms by (auto simp: unpack_block_def Let_def bind_res_Inr_iff split: prod.splits)
  moreover have "length ?m \<le> length ps" by simp
  ultimately show ?thesis by (simp only: fill_cursor)
qed

lemma unpack_blocks_cursor: "unpack_blocks width payload cursor bs = Inr (vs, stop) \<Longrightarrow> cursor \<le> stop"
proof (induction bs arbitrary: cursor vs)
  case (Cons b bs)
  then obtain v after vs' where "unpack_block width payload cursor b = Inr (v, after)" "unpack_blocks width payload after bs = Inr (vs', stop)"
    by (auto simp: bind_res_Inr_iff)
  then have "cursor \<le> after" "after \<le> stop" using unpack_block_cursor Cons.IH by fastforce+
  then show ?case by simp
qed simp

text \<open>On a prefix of a payload the cursor is the same until it leaves the prefix.\<close>

lemma unpack_block_prefix:
  assumes "unpack_block width payload cursor ps = Inr (vs, after)" "unpack_block width (take k payload) cursor ps = Inr (vs', after')"
  shows "after' = after \<or> k < after'"
proof (cases "cursor + 2 + (length ps + 7) div 8 \<le> k")
  case True
  then have "take ((length ps + 7) div 8) (drop (cursor + 2) (take k payload)) = take ((length ps + 7) div 8) (drop (cursor + 2) payload)"
    by (simp add: drop_take min_def)
  then show ?thesis using unpack_block_cursor[OF assms(1)] unpack_block_cursor[OF assms(2)] by simp
next
  case False
  then show ?thesis using unpack_block_cursor[OF assms(2)] by linarith
qed

lemma unpack_blocks_prefix:
  "unpack_blocks width payload cursor bs = Inr (vs, stop) \<Longrightarrow> unpack_blocks width (take k payload) cursor bs = Inr (vs', stop') \<Longrightarrow>
    stop' = stop \<or> k < stop'"
proof (induction bs arbitrary: cursor vs vs')
  case (Cons b bs)
  obtain v after ws where f: "unpack_block width payload cursor b = Inr (v, after)" "unpack_blocks width payload after bs = Inr (ws, stop)"
    using Cons.prems(1) by (auto simp: bind_res_Inr_iff)
  obtain v' after' ws' where g: "unpack_block width (take k payload) cursor b = Inr (v', after')"
    "unpack_blocks width (take k payload) after' bs = Inr (ws', stop')"
    using Cons.prems(2) by (auto simp: bind_res_Inr_iff)
  from unpack_block_prefix[OF f(1) g(1)] show ?case
  proof
    assume "after' = after"
    then show ?thesis using Cons.IH[OF f(2)] g(2) by blast
  next
    assume "k < after'"
    then show ?thesis using unpack_blocks_cursor[OF g(2)] by simp
  qed
qed simp

text \<open>
  C17. A correction payload that is cut short is never accepted: if a payload unpacks, every proper prefix of it
  is refused with an error, although the slices of the decoder run past the end without one.
\<close>

theorem truncated_correction_rejected:
  assumes "unpack_match_exceptions prediction payload symbol_bits block_size = Inr result" "k < length payload"
  shows "\<exists>e. unpack_match_exceptions prediction (take k payload) symbol_bits block_size = Inl (ValueError e)"
proof -
  let ?w = "(symbol_bits + 7) div 8"
  have n: "block_size \<noteq> 0" and full: "unpack_blocks ?w payload 0 (chunks block_size prediction) = Inr (result, length payload)"
    using assms(1) by (auto simp: unpack_match_exceptions_def bind_res_Inr_iff split: if_splits)
  have errors: "\<exists>m. e = ValueError m" if "unpack_blocks w p c bs = Inl e" for w p c bs e
    using that by (induction w p c bs rule: unpack_blocks.induct) (auto simp: bind_res_Inl_iff unpack_block_def Let_def split: prod.splits)
  show ?thesis
  proof (cases "unpack_blocks ?w (take k payload) 0 (chunks block_size prediction)")
    case (Inl e)
    then show ?thesis using n errors[OF Inl] by (auto simp: unpack_match_exceptions_def)
  next
    case (Inr r)
    then obtain vs stop where r: "unpack_blocks ?w (take k payload) 0 (chunks block_size prediction) = Inr (vs, stop)" by (cases r) auto
    have "stop \<noteq> min (length payload) k" using unpack_blocks_prefix[OF full r] assms(2) by auto
    then show ?thesis using n r by (simp add: unpack_match_exceptions_def)
  qed
qed

theorem truncated_correction_rejected_witness:
  "unpack_match_exceptions [1, 1, 1] [1, 0, 5, 9] 8 256 = Inr [1, 9, 1] \<and>
   (\<exists>e. unpack_match_exceptions [1, 1, 1] (take 3 [1, 0, 5, 9]) 8 256 = Inl (ValueError e))"
proof -
  have "unpack_match_exceptions [1, 1, 1] [1, 0, 5, 9] 8 256 = Inr [1, 9, 1]" by code_simp
  with truncated_correction_rejected[OF this, of 3] show ?thesis by simp
qed

section \<open>Prediction tables\<close>

lemma mode_best: "int (count_list values v) \<le> int (count_list values (mode_for width values))"
proof (cases "v \<in> set values")
  case True
  let ?f = "\<lambda>u. (- int (count_list values u), (- u) mod 256 ^ width)" and ?us = "sorted_list_of_set (set values)"
  have "?us \<noteq> []" "v \<in> set ?us" using True by auto
  then have "?f (arg_min_list ?f ?us) \<le> ?f v" by (intro arg_min_list_le)
  then have "fst (?f (arg_min_list ?f ?us)) \<le> fst (?f v)" by (auto simp only: less_eq_prod_def)
  moreover have "mode_for width values = arg_min_list ?f ?us" using True unfolding mode_for_def by auto
  ultimately show ?thesis by (simp only: fst_conv neg_le_iff_le)
next
  case False
  then show ?thesis by (simp add: count_list_0_iff)
qed


text \<open>The prediction of a table that is indexed by the two classes of a block.\<close>

definition table_prediction :: "int list list list \<Rightarrow> nat list \<Rightarrow> nat list \<Rightarrow> (nat \<Rightarrow> nat \<Rightarrow> int) \<Rightarrow> int list list list" where
  "table_prediction codes rl cl g = map2 (\<lambda>row r. map2 (\<lambda>b c. repeat_like b (g r c)) row cl) codes rl"

definition matches :: "int list list list \<Rightarrow> nat list \<Rightarrow> nat list \<Rightarrow> (nat \<Rightarrow> nat \<Rightarrow> int) \<Rightarrow> nat" where
  "matches codes rl cl g = (\<Sum>(row, r)\<leftarrow>zip codes rl. \<Sum>(b, c)\<leftarrow>zip row cl. count_list b (g r c))"

lemma block_exceptions: "length (exceptions_of b (repeat_like b v)) + count_list b v = length b"
  by (induction b) (auto simp: repeat_like_def)

lemma row_prediction:
  "length row = length cl \<Longrightarrow> length (concat (map2 (\<lambda>b c. repeat_like b (h c)) row cl)) = length (concat row) \<and>
    length (exceptions_of (concat row) (concat (map2 (\<lambda>b c. repeat_like b (h c)) row cl))) +
      (\<Sum>(b, c)\<leftarrow>zip row cl. count_list b (h c)) = length (concat row)"
proof (induction row cl rule: list_induct2)
  case (Cons b row c cl)
  have "length b = length (repeat_like b (h c))" by (simp add: repeat_like_def)
  from exceptions_of_append[OF this] show ?case using Cons.IH block_exceptions[of b "h c"] by (simp add: repeat_like_def)
qed simp

lemma table_exceptions:
  "length codes = length rl \<Longrightarrow> \<forall>row \<in> set codes. length row = length cl \<Longrightarrow>
    length (flatten (table_prediction codes rl cl g)) = length (flatten codes) \<and>
    length (exceptions_of (flatten codes) (flatten (table_prediction codes rl cl g))) + matches codes rl cl g = length (flatten codes)"
proof (induction codes rl rule: list_induct2)
  case (Cons row codes r rl)
  have "length row = length cl" using Cons.prems by simp
  note row = row_prediction[OF this, of "g r"]
  have "length (concat row) = length (concat (map2 (\<lambda>b c. repeat_like b (g r c)) row cl))" using row by simp
  from exceptions_of_append[OF this] show ?case using row Cons by (simp add: flatten_def table_prediction_def matches_def)
qed (simp add: flatten_def table_prediction_def matches_def)

lemma count_list_concat: "count_list (concat xs) v = (\<Sum>x\<leftarrow>xs. count_list x v)"
  by (induction xs) simp_all

lemma sum_by_class:
  "\<forall>(x, k) \<in> set xs. k < (n :: nat) \<Longrightarrow> (\<Sum>(x, k)\<leftarrow>xs. f x k) = (\<Sum>k' < n. \<Sum>(x, k)\<leftarrow>filter (\<lambda>(x, k). k = k') xs. (f x k' :: nat))"
proof (induction xs)
  case (Cons a xs)
  obtain x k where a: "a = (x, k)" by (cases a)
  have "(\<Sum>k' < n. \<Sum>(x, k)\<leftarrow>filter (\<lambda>(x, k). k = k') (a # xs). f x k') =
    (\<Sum>k' < n. (if k' = k then f x k' else 0) + (\<Sum>(x, k)\<leftarrow>filter (\<lambda>(x, k). k = k') xs. f x k'))"
    by (rule sum.cong) (auto simp: a)
  also have "\<dots> = f x k + (\<Sum>k' < n. \<Sum>(x, k)\<leftarrow>filter (\<lambda>(x, k). k = k') xs. f x k')"
  proof -
    have "(\<Sum>k' < n. if k' = k then f x k' else 0) = f x k" using Cons.prems by (subst sum.delta) (auto simp: a)
    then show ?thesis by (simp add: sum.distrib)
  qed
  finally show ?case using Cons by (simp add: a)
qed simp

lemma count_selected: "count_list (selected codes rl cl r c) v =
    (\<Sum>(row, r)\<leftarrow>filter (\<lambda>(row, r'). r' = r) (zip codes rl). \<Sum>(b, c)\<leftarrow>filter (\<lambda>(b, c'). c' = c) (zip row cl). count_list b v)"
  by (simp add: selected_def count_list_concat o_def case_prod_unfold)

lemma matches_by_class:
  assumes "\<forall>r \<in> set rl. r < n" "\<forall>c \<in> set cl. c < m"
  shows "matches codes rl cl g = (\<Sum>r < n. \<Sum>c < m. count_list (selected codes rl cl r c) (g r c))"
proof -
  have cols: "(\<Sum>(b, c)\<leftarrow>zip row cl. count_list b (g r c)) =
      (\<Sum>c < m. \<Sum>(b, c')\<leftarrow>filter (\<lambda>(b, c'). c' = c) (zip row cl). count_list b (g r c))" for row r
    using assms(2) by (intro sum_by_class) (auto dest: set_zip_rightD)
  have "matches codes rl cl g = (\<Sum>r < n. \<Sum>(row, r')\<leftarrow>filter (\<lambda>(row, r'). r' = r) (zip codes rl).
      \<Sum>(b, c)\<leftarrow>zip row cl. count_list b (g r c))"
    unfolding matches_def using assms(1) by (intro sum_by_class) (auto dest: set_zip_rightD)
  also have "\<dots> = (\<Sum>r < n. \<Sum>c < m. count_list (selected codes rl cl r c) (g r c))"
  proof (rule sum.cong[OF refl])
    fix r
    have "(\<Sum>x\<leftarrow>xs. \<Sum>c < m. f x c) = (\<Sum>c < m. \<Sum>x\<leftarrow>xs. f x c)" for xs :: "(int list list \<times> nat) list" and f :: "int list list \<times> nat \<Rightarrow> nat \<Rightarrow> nat"
      by (induction xs) (simp_all add: sum.distrib)
    from this[of "\<lambda>x c. \<Sum>(b, c')\<leftarrow>filter (\<lambda>(b, c'). c' = c) (zip (fst x) cl). count_list b (g r c)" "filter (\<lambda>(row, r'). r' = r) (zip codes rl)"]
    show "(\<Sum>(row, r')\<leftarrow>filter (\<lambda>(row, r'). r' = r) (zip codes rl). \<Sum>(b, c)\<leftarrow>zip row cl. count_list b (g r c)) =
        (\<Sum>c < m. count_list (selected codes rl cl r c) (g r c))"
      by (simp only: cols[unfolded case_prod_unfold] count_selected case_prod_unfold)
  qed
  finally show ?thesis .
qed

lemma L3_table:
  assumes "make_prediction width codes rl cl ''L3'' = Inr (prediction, bytes)"
  shows "prediction = table_prediction codes rl cl (\<lambda>r c. mode_for width (selected codes rl cl r c))"
proof -
  have bound: "x \<le> Max (set xs)" if "x \<in> set xs" for x :: nat and xs using that by simp
  have "rl \<noteq> [] \<and> cl \<noteq> []" using assms by (auto simp: make_prediction_def split: if_splits)
  with assms have "prediction = map2 (\<lambda>row r. map2 (\<lambda>b c. repeat_like b (map (\<lambda>r. map (\<lambda>c. mode_for width (selected codes rl cl r c))
      [0..<Max (set cl) + 1]) [0..<Max (set rl) + 1] ! r ! c)) row cl) codes rl"
    by (simp add: make_prediction_def Let_def)
  also have "\<dots> = table_prediction codes rl cl (\<lambda>r c. mode_for width (selected codes rl cl r c))"
    unfolding table_prediction_def
    by (intro map_cong refl) (auto simp del: upt_Suc dest!: set_zip_rightD bound intro!: arg_cong[of _ _ "repeat_like _"])
  finally show ?thesis .
qed


text \<open>
  The class table is the best one for its classes: no prediction that is constant on every pair of a row
  class and a column class has fewer exceptions than level L3, so neither has the single value of level L0.
  The bitmap and the exceptions account for every code: matches and exceptions add up to the number of codes.
\<close>

theorem class_table_optimal:
  assumes "make_prediction width codes row_labels column_labels ''L3'' = Inr (p3, n3)"
    and "make_prediction width codes row_labels column_labels ''L0'' = Inr (p0, n0)"
    and "length codes = length row_labels" "\<forall>row \<in> set codes. length row = length column_labels"
  shows "length (exceptions_of (flatten codes) (flatten p3)) \<le>
      length (exceptions_of (flatten codes) (flatten (table_prediction codes row_labels column_labels g))) \<and>
    length (exceptions_of (flatten codes) (flatten p3)) \<le> length (exceptions_of (flatten codes) (flatten p0)) \<and>
    length (exceptions_of (flatten codes) (flatten p3)) +
      matches codes row_labels column_labels (\<lambda>r c. mode_for width (selected codes row_labels column_labels r c)) = length (flatten codes)"
proof -
  let ?m = "matches codes row_labels column_labels" and ?t = "\<lambda>r c. mode_for width (selected codes row_labels column_labels r c)"
  have bound: "\<forall>r \<in> set row_labels. r < Suc (Max (set row_labels))" "\<forall>c \<in> set column_labels. c < Suc (Max (set column_labels))"
    by (auto simp: less_Suc_eq_le)
  have best: "?m h \<le> ?m ?t" for h
    unfolding matches_by_class[OF bound] by (intro sum_mono) (use mode_best in simp)
  have p3: "p3 = table_prediction codes row_labels column_labels ?t" by (rule L3_table[OF assms(1)])
  have p0: "p0 = table_prediction codes row_labels column_labels (\<lambda>_ _. mode_for width (flatten codes))"
  proof (rule nth_equalityI)
    have e: "p0 = map (map (\<lambda>b. repeat_like b (mode_for width (flatten codes)))) codes"
      using assms(2) by (simp add: make_prediction_def Let_def flatten_def)
    then show "length p0 = length (table_prediction codes row_labels column_labels (\<lambda>_ _. mode_for width (flatten codes)))"
      using assms(3) by (simp add: table_prediction_def)
    fix i assume "i < length p0"
    then have i: "i < length codes" "length (codes ! i) = length column_labels" using e assms(4) by auto
    then show "p0 ! i = table_prediction codes row_labels column_labels (\<lambda>_ _. mode_for width (flatten codes)) ! i"
      using assms(3) by (auto simp: e table_prediction_def intro!: nth_equalityI)
  qed
  note total = table_exceptions[OF assms(3,4)]
  show ?thesis unfolding p3 p0
    using best[of g] best[of "\<lambda>_ _. mode_for width (flatten codes)"] total[of g] total[of ?t]
      total[of "\<lambda>_ _. mode_for width (flatten codes)"] by linarith
qed

theorem class_table_optimal_witness:
  "\<exists>p n p0 n0. make_prediction 1 [[[1, 2, 2], [3, 3, 1]], [[2, 2, 2], [4, 4, 4]]] [0, 1] [0, 1] ''L3'' = Inr (p, n) \<and>
    make_prediction 1 [[[1, 2, 2], [3, 3, 1]], [[2, 2, 2], [4, 4, 4]]] [0, 1] [0, 1] ''L0'' = Inr (p0, n0) \<and>
    length (exceptions_of [1, 2, 2, 3, 3, 1, 2, 2, 2, 4, 4, 4] (flatten p)) = 2 \<and>
    length (exceptions_of [1, 2, 2, 3, 3, 1, 2, 2, 2, 4, 4, 4] (flatten p)) \<le>
      length (exceptions_of [1, 2, 2, 3, 3, 1, 2, 2, 2, 4, 4, 4] (flatten p0))"
proof -
  let ?c = "[[[1, 2, 2], [3, 3, 1]], [[2, 2, 2], [4, 4, 4]]] :: int list list list" and ?l = "[0, 1] :: nat list"
  have "(case make_prediction 1 ?c ?l ?l ''L3'' of Inl _ \<Rightarrow> False | Inr (p, n) \<Rightarrow> length (exceptions_of (flatten ?c) (flatten p)) = 2)"
    by code_simp
  then obtain p n where p: "make_prediction 1 ?c ?l ?l ''L3'' = Inr (p, n)" "length (exceptions_of (flatten ?c) (flatten p)) = 2"
    by (auto split: sum.splits)
  obtain p0 n0 where p0: "make_prediction 1 ?c ?l ?l ''L0'' = Inr (p0, n0)" by (simp add: make_prediction_def Let_def)
  have l: "length ?c = length ?l" "\<forall>row \<in> set ?c. length row = length ?l" by simp_all
  have c: "flatten ?c = [1, 2, 2, 3, 3, 1, 2, 2, 2, 4, 4, 4]" by (simp add: flatten_def)
  from class_table_optimal[OF p(1) p0 l] p p0 show ?thesis unfolding c by blast
qed

section \<open>Code lengths\<close>

lemma ceil_log2_bound: "0 < count \<Longrightarrow> whole \<le> count * 2 ^ ceil_log2 whole count"
proof (induction whole count rule: ceil_log2.induct)
  case (1 whole count)
  show ?case
  proof (cases "whole \<le> count")
    case False
    then have "ceil_log2 whole count = Suc (ceil_log2 whole (2 * count))" using 1(2) by (subst ceil_log2.simps) simp
    then show ?thesis using 1 False by (simp add: mult.assoc)
  qed (simp add: ceil_log2.simps)
qed

text \<open>
  The static code lengths describe a prefix code: they satisfy Kraft's inequality, one code word of at
  least one bit for every distinct value, so the realised bits of the entropy control can be reached.
\<close>

theorem code_lengths_kraft:
  assumes "huffman_lengths values = (lengths, header_bits)" "values \<noteq> []"
  shows "map fst lengths = sorted_list_of_set (set values) \<and> (\<Sum>(u, n)\<leftarrow>lengths. 1 / 2 ^ n) \<le> (1 :: rat) \<and>
    list_all (\<lambda>(u, n). 1 \<le> n) lengths"
proof (cases "length (sorted_list_of_set (set values)) = 1")
  case True
  then obtain u where "sorted_list_of_set (set values) = [u]" unfolding One_nat_def length_Suc_conv length_0_conv by blast
  then show ?thesis using assms by (auto simp: huffman_lengths_def Let_def simp del: length_sorted_list_of_set)
next
  case False
  let ?us = "sorted_list_of_set (set values)" and ?n = "length values" and ?k = "\<lambda>u. count_list values u"
  have l: "lengths = map (\<lambda>u. (u, code_length ?n (?k u))) ?us" using assms(1) False by (simp add: huffman_lengths_def Let_def)
  have "1 / 2 ^ code_length ?n (?k u) \<le> (of_nat (?k u) / of_nat ?n :: rat)" if "u \<in> set ?us" for u
  proof -
    have "0 < ?k u" using that count_list_0_iff[of "values" u] by auto
    then have "?n \<le> ?k u * 2 ^ ceil_log2 ?n (?k u)" by (rule ceil_log2_bound)
    also have "\<dots> \<le> ?k u * 2 ^ code_length ?n (?k u)" by (simp add: code_length_def)
    finally have "of_nat ?n \<le> (of_nat (?k u) * 2 ^ code_length ?n (?k u) :: rat)" by (metis of_nat_le_iff of_nat_mult of_nat_numeral of_nat_power)
    then show ?thesis using assms(2) by (simp add: field_simps)
  qed
  then have "(\<Sum>(u, n)\<leftarrow>lengths. 1 / 2 ^ n) \<le> (\<Sum>u\<leftarrow>?us. of_nat (?k u) / of_nat ?n :: rat)"
    unfolding l by (auto simp: o_def intro!: sum_list_mono)
  also have "\<dots> = of_nat (\<Sum>u\<in>set values. ?k u) / of_nat ?n"
    by (simp add: sum_list_distinct_conv_sum_set sum_divide_distrib)
  also have "\<dots> = 1" using sum_count_set[of "values" "set values"] assms(2) by simp
  finally show ?thesis by (auto simp: l o_def code_length_def list_all_iff)
qed

theorem code_lengths_kraft_witness:
  "map fst (fst (huffman_lengths [3, 1, 3, 3, 2, 3])) = [1, 2, 3] \<and> snd (huffman_lengths [3, 1, 3, 3, 2, 3]) = 36 \<and>
   (\<Sum>(u, n)\<leftarrow>fst (huffman_lengths [3, 1, 3, 3, 2, 3]). 1 / 2 ^ n) \<le> (1 :: rat)"
proof -
  obtain l h where h: "huffman_lengths [3, 1, 3, 3, 2, 3] = (l, h)" by fastforce
  have "snd (huffman_lengths [3, 1, 3, 3, 2, 3]) = 36" by code_simp
  moreover have "map fst (fst (huffman_lengths [3, 1, 3, 3, 2, 3])) = [1, 2, 3]" by code_simp
  moreover have "(\<Sum>(u, n)\<leftarrow>l. 1 / 2 ^ n) \<le> (1 :: rat)" using code_lengths_kraft[OF h] by blast
  ultimately show ?thesis by (simp add: h)
qed

end
