(* ===== verification/Trace.thy ===== *)
theory Trace
  imports Prelude
begin

text \<open>
  Residency traces, from \<open>scripts/qualify_residency_policy_poc17.py\<close>: the dataclasses \<open>Identity\<close>
  and \<open>Event\<close>, the line loop of \<open>parse_trace\<close> after its three regular expressions, the request
  projection, the next-use table (\<open>next_uses\<close>) and the replay of leases (\<open>active_sets\<close>).
\<close>

section \<open>Data\<close>

record identity =
  id_ref :: int
  id_offset :: int
  id_bytes :: int
  id_class :: string
  id_expert :: int
  id_name :: string

record event =
  ev_ordinal :: int
  ev_ref :: int
  ev_name :: string
  ev_kind :: string
  ev_before :: int
  ev_after :: int
  ev_leases :: int
  ev_timestamp_ns :: int
  ev_offset :: int
  ev_bytes :: int
  ev_class :: string
  ev_expert :: int
  ev_source :: string

text \<open>A line of the log, by the first of the three patterns that matches it.\<close>

datatype trace_line =
    IdentityLine int int int string int
  | EventLine event
  | PhaseLine string int
  | OtherLine

type_synonym trace = "(int \<times> identity) list \<times> event list \<times> (string \<times> int) list"

definition parse_line :: "trace_line \<Rightarrow> trace \<Rightarrow> trace" where
  "parse_line l t = (case t of (identities, events, phases) \<Rightarrow> (case l of
       IdentityLine r off n cls ex \<Rightarrow>
         (AList.update r \<lparr>id_ref = r, id_offset = off, id_bytes = n, id_class = cls, id_expert = ex, id_name = ''''\<rparr>
            identities, events, phases)
     | EventLine e \<Rightarrow> (identities, events @ [e], phases)
     | PhaseLine name begin \<Rightarrow> (identities, events, phases @ [(name, begin)])
     | OtherLine \<Rightarrow> t))"

definition name_identity :: "event \<Rightarrow> (int \<times> identity) list \<Rightarrow> (int \<times> identity) list" where
  "name_identity e identities = (case map_of identities (ev_ref e) of
       None \<Rightarrow> identities
     | Some i \<Rightarrow> (if id_name i = '''' then AList.update (ev_ref e) (i\<lparr>id_name := ev_name e\<rparr>) identities
                 else identities))"

definition parse_trace :: "trace_line list \<Rightarrow> trace res" where
  "parse_trace lines = (case fold parse_line lines ([], [], []) of (identities, events, phases) \<Rightarrow>
     let identities' = fold name_identity events identities in
     if events = [] then Inl (RuntimeError ''no POC17 events found'') else Inr (identities', events, phases))"

definition requests :: "event list \<Rightarrow> event list" where
  "requests events = filter (\<lambda>e. ev_kind e = ''REQUEST'') events"

text \<open>
  \<open>next_uses\<close> walks the sequence from its end; the pair is (the tail of \<open>result\<close>, \<open>future\<close>).
\<close>

fun next_uses_from :: "nat \<Rightarrow> event list \<Rightarrow> nat option list \<times> (int \<times> nat) list" where
  "next_uses_from i [] = ([], [])"
| "next_uses_from i (e # es) = (let (result, future) = next_uses_from (Suc i) es in
     (map_of future (ev_ref e) # result, AList.update (ev_ref e) i future))"

definition next_uses :: "event list \<Rightarrow> nat option list" where
  "next_uses sequence = fst (next_uses_from 0 sequence)"

record lease_state =
  ls_resident :: "int set"
  ls_leases :: "(int \<times> int) list"
  ls_result :: "int set list"

definition lease_count :: "lease_state \<Rightarrow> int \<Rightarrow> int" where
  "lease_count s r = get_default (ls_leases s) r 0"

definition active_step :: "event \<Rightarrow> lease_state \<Rightarrow> lease_state" where
  "active_step e s =
     (if ev_kind e = ''REQUEST'' then
        s\<lparr>ls_result := ls_result s @ [Set.filter (\<lambda>r. lease_count s r \<noteq> 0) (ls_resident s)]\<rparr>
      else if ev_kind e = ''INSERT'' then s\<lparr>ls_resident := insert (ev_ref e) (ls_resident s)\<rparr>
      else if ev_kind e = ''EVICT'' then
        s\<lparr>ls_resident := Set.remove (ev_ref e) (ls_resident s), ls_leases := AList.delete (ev_ref e) (ls_leases s)\<rparr>
      else if ev_kind e = ''LEASE_ACQUIRE'' then
        s\<lparr>ls_resident := insert (ev_ref e) (ls_resident s),
          ls_leases := AList.update (ev_ref e) (lease_count s (ev_ref e) + 1) (ls_leases s)\<rparr>
      else if ev_kind e = ''LEASE_RELEASE'' \<and> lease_count s (ev_ref e) \<noteq> 0 then
        s\<lparr>ls_leases := AList.update (ev_ref e) (lease_count s (ev_ref e) - 1) (ls_leases s)\<rparr>
      else s)"

definition active_sets :: "event list \<Rightarrow> int set list" where
  "active_sets events =
     ls_result (fold active_step events \<lparr>ls_resident = {}, ls_leases = [], ls_result = []\<rparr>)"

section \<open>Next uses\<close>

lemma next_uses_from_length: "length (fst (next_uses_from i es)) = length es"
  by (induction es arbitrary: i) (auto simp: Let_def split_beta)

fun next_at :: "nat \<Rightarrow> event list \<Rightarrow> int \<Rightarrow> nat option" where
  "next_at i [] r = None"
| "next_at i (e # es) r = (if ev_ref e = r then Some i else next_at (Suc i) es r)"

lemma next_at_None: "next_at i es r = None \<longleftrightarrow> (\<forall>e \<in> set es. ev_ref e \<noteq> r)"
  by (induction es arbitrary: i) auto

lemma next_at_Some:
  "next_at i es r = Some j \<Longrightarrow>
     i \<le> j \<and> j < i + length es \<and> ev_ref (es ! (j - i)) = r \<and> (\<forall>m < j - i. ev_ref (es ! m) \<noteq> r)"
proof (induction es arbitrary: i)
  case (Cons e es)
  show ?case
  proof (cases "ev_ref e = r")
    case False
    with Cons.prems have "next_at (Suc i) es r = Some j" by simp
    from Cons.IH[OF this] have *: "Suc i \<le> j" "j < Suc i + length es" "ev_ref (es ! (j - Suc i)) = r"
      "\<forall>m < j - Suc i. ev_ref (es ! m) \<noteq> r" by auto
    then have "j - i = Suc (j - Suc i)" by simp
    with * False show ?thesis by (auto simp: nth_Cons split: nat.splits)
  qed (use Cons.prems in simp)
qed simp

lemma next_at_drop:
  "next_at k (drop k es) r = Some j \<longleftrightarrow>
     k \<le> j \<and> j < length es \<and> ev_ref (es ! j) = r \<and> (\<forall>m. k \<le> m \<longrightarrow> m < j \<longrightarrow> ev_ref (es ! m) \<noteq> r)"
proof -
  have fwd: "k \<le> j \<and> j < length es \<and> ev_ref (es ! j) = r \<and> (\<forall>m. k \<le> m \<longrightarrow> m < j \<longrightarrow> ev_ref (es ! m) \<noteq> r)"
    if "next_at k (drop k es) r = Some j" for j
  proof -
    have *: "k \<le> j" "j - k < length (drop k es)" "ev_ref (drop k es ! (j - k)) = r"
      "\<And>m. m < j - k \<Longrightarrow> ev_ref (drop k es ! m) \<noteq> r"
      using next_at_Some[OF that] by auto
    have "ev_ref (es ! m) \<noteq> r" if "k \<le> m" "m < j" for m
      using *(2) *(4)[of "m - k"] that by simp
    with * show ?thesis by simp
  qed
  have "next_at k (drop k es) r = Some j"
    if "k \<le> j" "j < length es" "ev_ref (es ! j) = r" "\<forall>m. k \<le> m \<longrightarrow> m < j \<longrightarrow> ev_ref (es ! m) \<noteq> r"
  proof (cases "next_at k (drop k es) r")
    case None
    have "es ! j \<in> set (drop k es)"
      unfolding in_set_conv_nth using that(1,2) by (intro exI[of _ "j - k"]) simp
    with None that(3) show ?thesis by (auto simp: next_at_None)
  next
    case (Some j')
    from fwd[OF this] that have "j' = j" by (metis linorder_neqE_nat)
    with Some show ?thesis by simp
  qed
  with fwd show ?thesis by blast
qed

lemma next_uses_from_future: "map_of (snd (next_uses_from i es)) r = next_at i es r"
  by (induction es arbitrary: i) (auto simp: Let_def split_beta update_conv')

lemma next_uses_from_nth:
  "k < length es \<Longrightarrow> fst (next_uses_from i es) ! k = next_at (i + Suc k) (drop (Suc k) es) (ev_ref (es ! k))"
proof (induction es arbitrary: i k)
  case (Cons e es)
  then show ?case
    by (cases k) (auto simp: Let_def split_beta next_uses_from_future)
qed simp

text \<open>
  The next-use table is exact: entry \<open>k\<close> is the position of the first later request of the
  same tensor, and \<open>None\<close> exactly when there is none.
\<close>

theorem next_uses_exact:
  assumes "k < length sequence"
  shows "length (next_uses sequence) = length sequence \<and> (case next_uses sequence ! k of
       Some j \<Rightarrow> k < j \<and> j < length sequence \<and> ev_ref (sequence ! j) = ev_ref (sequence ! k) \<and>
         ev_ref (sequence ! k) \<notin> ev_ref ` set (take (j - Suc k) (drop (Suc k) sequence))
     | None \<Rightarrow> ev_ref (sequence ! k) \<notin> ev_ref ` set (drop (Suc k) sequence))"
proof -
  have n: "next_uses sequence ! k = next_at (Suc k) (drop (Suc k) sequence) (ev_ref (sequence ! k))"
    using next_uses_from_nth[OF assms, of 0] by (simp add: next_uses_def)
  have l: "length (next_uses sequence) = length sequence"
    by (simp add: next_uses_def next_uses_from_length)
  show ?thesis
  proof (cases "next_uses sequence ! k")
    case None
    then have "\<forall>e \<in> set (drop (Suc k) sequence). ev_ref e \<noteq> ev_ref (sequence ! k)"
      unfolding n next_at_None .
    then have "ev_ref (sequence ! k) \<notin> ev_ref ` set (drop (Suc k) sequence)" by force
    with l None show ?thesis by simp
  next
    case (Some j)
    from next_at_Some[OF Some[unfolded n]] assms
    have j: "Suc k \<le> j" "j < length sequence" "ev_ref (sequence ! j) = ev_ref (sequence ! k)"
      "\<forall>m < j - Suc k. ev_ref (drop (Suc k) sequence ! m) \<noteq> ev_ref (sequence ! k)" by auto
    then have "ev_ref (sequence ! k) \<notin> ev_ref ` set (take (j - Suc k) (drop (Suc k) sequence))"
      by (fastforce simp: in_set_conv_nth)
    with j l Some show ?thesis by simp
  qed
qed

definition sample_event :: "int \<Rightarrow> string \<Rightarrow> int \<Rightarrow> event" where
  "sample_event r k n = \<lparr>ev_ordinal = 0, ev_ref = r, ev_name = ''t'', ev_kind = k, ev_before = 0, ev_after = 0,
     ev_leases = 0, ev_timestamp_ns = 0, ev_offset = 0, ev_bytes = n, ev_class = ''weights'', ev_expert = -1,
     ev_source = ''''\<rparr>"

definition sample_requests :: "(int \<times> int) list \<Rightarrow> event list" where
  "sample_requests rs = map (\<lambda>(r, n). sample_event r ''REQUEST'' n) rs"

theorem next_uses_exact_witness:
  "next_uses (sample_requests [(1, 4), (2, 4), (1, 4)]) ! 0 = Some 2 \<and>
   length (next_uses (sample_requests [(1, 4), (2, 4), (1, 4)])) = 3"
proof -
  have n: "0 < length (sample_requests [(1, 4), (2, 4), (1, 4)])" by (simp add: sample_requests_def)
  have "next_uses (sample_requests [(1, 4), (2, 4), (1, 4)]) ! 0 = Some 2" by code_simp
  then show ?thesis using next_uses_exact[OF n] by (simp add: sample_requests_def)
qed

section \<open>Leases\<close>

text \<open>
  The number of leases a tensor holds after a prefix of the log: acquisitions minus releases since
  its last eviction, where a release without a lease is ignored.
\<close>

definition lease_effect :: "int \<Rightarrow> event \<Rightarrow> int \<Rightarrow> int" where
  "lease_effect r e n =
     (if ev_ref e \<noteq> r then n
      else if ev_kind e = ''EVICT'' then 0
      else if ev_kind e = ''LEASE_ACQUIRE'' then n + 1
      else if ev_kind e = ''LEASE_RELEASE'' then max 0 (n - 1) else n)"

definition lease_balance :: "int \<Rightarrow> event list \<Rightarrow> int" where
  "lease_balance r es = fold (lease_effect r) es 0"

fun request_prefixes :: "event list \<Rightarrow> event list \<Rightarrow> event list list" where
  "request_prefixes before [] = []"
| "request_prefixes before (e # es) =
     (if ev_kind e = ''REQUEST'' then [before] else []) @ request_prefixes (before @ [e]) es"

lemma lease_balance_snoc: "lease_balance r (es @ [e]) = lease_effect r e (lease_balance r es)"
  by (simp add: lease_balance_def)

lemma lease_balance_nonneg: "0 \<le> lease_balance r es"
proof (induction es rule: rev_induct)
  case (snoc e es)
  then show ?case by (simp add: lease_balance_snoc lease_effect_def)
qed (simp add: lease_balance_def)

definition lease_inv :: "event list \<Rightarrow> lease_state \<Rightarrow> bool" where
  "lease_inv before s \<longleftrightarrow> (\<forall>r. lease_count s r = lease_balance r before) \<and>
     (\<forall>r. lease_count s r \<noteq> 0 \<longrightarrow> r \<in> ls_resident s)"

lemma get_default_delete [simp]:
  "get_default (AList.delete k d) k' v = (if k' = k then v else get_default d k' v)"
  by (simp add: get_default_def delete_conv')

lemma event_kind_cases:
  obtains "ev_kind e = ''REQUEST''" | "ev_kind e = ''INSERT''" | "ev_kind e = ''EVICT''"
    | "ev_kind e = ''LEASE_ACQUIRE''" | "ev_kind e = ''LEASE_RELEASE''"
    | "ev_kind e \<noteq> ''REQUEST''" "ev_kind e \<noteq> ''INSERT''" "ev_kind e \<noteq> ''EVICT''"
      "ev_kind e \<noteq> ''LEASE_ACQUIRE''" "ev_kind e \<noteq> ''LEASE_RELEASE''"
  by blast

lemma active_step_leases:
  assumes "\<And>r. 0 \<le> lease_count s r"
  shows "lease_count (active_step e s) r = lease_effect r e (lease_count s r)"
  using assms[of r]
  by (cases e rule: event_kind_cases) (simp_all add: active_step_def lease_effect_def lease_count_def max_def)

lemma active_step_resident:
  assumes "lease_count s r \<noteq> 0 \<Longrightarrow> r \<in> ls_resident s" and "lease_count (active_step e s) r \<noteq> 0"
  shows "r \<in> ls_resident (active_step e s)"
  using assms
  by (cases e rule: event_kind_cases; cases "r = ev_ref e"; cases "lease_count s (ev_ref e) = 0")
    (simp_all add: active_step_def lease_count_def)

lemma lease_inv_step:
  assumes "lease_inv before s"
  shows "lease_inv (before @ [e]) (active_step e s)"
proof -
  have c: "lease_count s r = lease_balance r before" for r using assms by (simp add: lease_inv_def)
  have "0 \<le> lease_count s r" for r unfolding c by (rule lease_balance_nonneg)
  from active_step_leases[OF this] have "lease_count (active_step e s) r = lease_balance r (before @ [e])" for r
    by (simp add: lease_balance_snoc c)
  moreover have "lease_count (active_step e s) r \<noteq> 0 \<Longrightarrow> r \<in> ls_resident (active_step e s)" for r
    using assms by (intro active_step_resident) (auto simp: lease_inv_def)
  ultimately show ?thesis by (simp add: lease_inv_def)
qed

lemma active_fold:
  assumes "lease_inv before s"
  shows "ls_result (fold active_step es s) =
    ls_result s @ map (\<lambda>p. {r. 0 < lease_balance r p}) (request_prefixes before es)"
  using assms
proof (induction es arbitrary: before s)
  case (Cons e es)
  have "Set.filter (\<lambda>r. lease_count s r \<noteq> 0) (ls_resident s) = {r. 0 < lease_balance r before}"
    using Cons.prems lease_balance_nonneg by (auto simp: lease_inv_def less_le)
  then have "ls_result (active_step e s) = ls_result s @
      (if ev_kind e = ''REQUEST'' then [{r. 0 < lease_balance r before}] else [])"
    by (simp add: active_step_def)
  then show ?case using Cons.IH[OF lease_inv_step[OF Cons.prems]] by simp
qed simp

lemma active_sets_prefixes:
  "active_sets events = map (\<lambda>before. {r. 0 < lease_balance r before}) (request_prefixes [] events)"
proof -
  have "lease_inv [] \<lparr>ls_resident = {}, ls_leases = [], ls_result = []\<rparr>"
    by (simp add: lease_inv_def lease_count_def lease_balance_def get_default_def)
  from active_fold[OF this] show ?thesis by (simp add: active_sets_def)
qed

lemma active_sets_length: "length (active_sets events) = length (requests events)"
proof -
  have "length (request_prefixes before events) = length (requests events)" for before
    by (induction events arbitrary: before) (auto simp: requests_def)
  then show ?thesis by (simp add: active_sets_prefixes)
qed

text \<open>
  The replayed lease schedule: one set per request, and the set of a request holds exactly the
  tensors whose acquisitions exceed their releases since their last eviction. The residency test
  of \<open>active_sets\<close> never removes one of them.
\<close>

theorem active_sets_exact:
  "active_sets events = map (\<lambda>before. {r. 0 < lease_balance r before}) (request_prefixes [] events) \<and>
   length (active_sets events) = length (requests events)"
  using active_sets_prefixes active_sets_length by blast

end
