(* ===== verification/Residency.thy ===== *)
theory Residency
  imports Trace Eviction "HOL-Library.Product_Lexorder" "HOL-Library.Multiset"
begin

text \<open>
  The cache replay of \<open>scripts/qualify_residency_policy_poc17.py\<close>: \<open>simulate\<close> under the policies
  \<open>lru\<close>, \<open>lfu\<close>, \<open>min\<close> and \<open>admission-repeated\<close>, and the per-class summary \<open>class_report\<close>.  The
  field \<open>hit_rate\<close>, the quotient of two modelled fields as a float, is left out.
\<close>

section \<open>Replay\<close>

text \<open>An entry is \<open>(bytes, last use, use count)\<close>.\<close>

type_synonym entry = "int \<times> nat \<times> int"

record sim_state =
  si_resident :: "(int \<times> entry) list"
  si_seen :: "int set"
  si_hits :: int
  si_loads :: int
  si_reloads :: int
  si_load_bytes :: int
  si_reload_bytes :: int
  si_evictions :: int
  si_reload_refs :: "(int \<times> int) list"
  si_reload_bytes_by_ref :: "(int \<times> int) list"
  si_loaded_indices :: "nat list"

definition sim_start :: sim_state where
  "sim_start = \<lparr>si_resident = [], si_seen = {}, si_hits = 0, si_loads = 0, si_reloads = 0, si_load_bytes = 0,
     si_reload_bytes = 0, si_evictions = 0, si_reload_refs = [], si_reload_bytes_by_ref = [], si_loaded_indices = []\<rparr>"

text \<open>\<open>active is None or ref not in active[index]\<close>: no leases without a schedule.\<close>

definition active_at :: "int set list option \<Rightarrow> nat \<Rightarrow> int set res" where
  "active_at active index = (case active of None \<Rightarrow> Inr {}
     | Some a \<Rightarrow> (if index < length a then Inr (a ! index) else Inl IndexError))"

definition first_use_after :: "event list \<Rightarrow> nat \<Rightarrow> int \<Rightarrow> nat option" where
  "first_use_after sequence index r = find (\<lambda>p. ev_ref (sequence ! p) = r) [Suc index..<length sequence]"

definition entry_of :: "(int \<times> entry) list \<Rightarrow> int \<Rightarrow> entry" where
  "entry_of resident r = get_default resident r (0, 0, 0)"

definition choose_victim :: "string \<Rightarrow> event list \<Rightarrow> nat \<Rightarrow> (int \<times> entry) list \<Rightarrow> int list \<Rightarrow> int" where
  "choose_victim policy sequence index resident eligible =
     (if policy = ''min'' then
        argmax_list (\<lambda>r. (case first_use_after sequence index r of None \<Rightarrow> 10 ^ 9 | Some p \<Rightarrow> int p, r)) eligible
      else if policy = ''lfu'' then
        arg_min_list (\<lambda>r. (snd (snd (entry_of resident r)), fst (snd (entry_of resident r)), r)) eligible
      else arg_min_list (\<lambda>r. (fst (snd (entry_of resident r)), r)) eligible)"

definition bump :: "int \<Rightarrow> int \<Rightarrow> (int \<times> int) list \<Rightarrow> (int \<times> int) list" where
  "bump k n counter = AList.update k (get_default counter k 0 + n) counter"

definition sim_admit :: "nat \<Rightarrow> event \<Rightarrow> sim_state \<Rightarrow> sim_state" where
  "sim_admit index e s = (let size = ev_bytes e; r = ev_ref e;
     s1 = s\<lparr>si_resident := AList.update r (size, index, 1) (si_resident s),
            si_loaded_indices := si_loaded_indices s @ [index],
            si_loads := si_loads s + 1, si_load_bytes := si_load_bytes s + size\<rparr>;
     s2 = (if r \<in> si_seen s then
             s1\<lparr>si_reloads := si_reloads s + 1, si_reload_bytes := si_reload_bytes s + size,
                si_reload_refs := bump r 1 (si_reload_refs s),
                si_reload_bytes_by_ref := bump r size (si_reload_bytes_by_ref s)\<rparr>
           else s1)
     in s2\<lparr>si_seen := insert r (si_seen s)\<rparr>)"

definition sim_step :: "string \<Rightarrow> int \<Rightarrow> int set list option \<Rightarrow> event list \<Rightarrow> nat \<Rightarrow> event \<Rightarrow> sim_state \<Rightarrow> sim_state res" where
  "sim_step policy capacity active sequence index e s =
     (case map_of (si_resident s) (ev_ref e) of
        Some (b, _, c) \<Rightarrow>
          Inr (s\<lparr>si_hits := si_hits s + 1,
                 si_resident := AList.update (ev_ref e) (b, index, c + 1) (si_resident s)\<rparr>)
      | None \<Rightarrow>
          if policy = ''admission-repeated'' \<and> ev_ref e \<notin> si_seen s then
            Inr (s\<lparr>si_loads := si_loads s + 1, si_load_bytes := si_load_bytes s + ev_bytes e,
                   si_seen := insert (ev_ref e) (si_seen s)\<rparr>)
          else bind_res (evict_loop fst (active_at active index) (choose_victim policy sequence index)
                           (ev_bytes e) capacity (si_resident s)) (\<lambda>(rest, steps).
            let s' = s\<lparr>si_resident := rest, si_evictions := si_evictions s + int (length steps)\<rparr> in
            if used fst rest + ev_bytes e > capacity then Inr s' else Inr (sim_admit index e s')))"

fun sim_loop :: "string \<Rightarrow> int \<Rightarrow> int set list option \<Rightarrow> event list \<Rightarrow> nat \<Rightarrow> event list \<Rightarrow> sim_state \<Rightarrow> sim_state res" where
  "sim_loop policy capacity active sequence index [] s = Inr s"
| "sim_loop policy capacity active sequence index (e # es) s =
     bind_res (sim_step policy capacity active sequence index e s)
       (\<lambda>s'. sim_loop policy capacity active sequence (Suc index) es s')"

record sim_report =
  sr_policy :: string
  sr_capacity :: int
  sr_requests :: int
  sr_unique :: int
  sr_hits :: int
  sr_loads :: int
  sr_evictions :: int
  sr_reload_events :: int
  sr_load_bytes :: int
  sr_reload_bytes :: int
  sr_reload_refs :: "(int \<times> int) list"
  sr_reload_bytes_by_ref :: "(int \<times> int) list"
  sr_loaded_indices :: "nat list"

definition simulate :: "event list \<Rightarrow> int \<Rightarrow> string \<Rightarrow> int set list option \<Rightarrow> sim_report res" where
  "simulate sequence capacity policy active =
     bind_res (sim_loop policy capacity active sequence 0 sequence sim_start) (\<lambda>s.
     Inr \<lparr>sr_policy = policy, sr_capacity = capacity, sr_requests = int (length sequence),
          sr_unique = int (card (ev_ref ` set sequence)), sr_hits = si_hits s, sr_loads = si_loads s,
          sr_evictions = si_evictions s, sr_reload_events = si_reloads s, sr_load_bytes = si_load_bytes s,
          sr_reload_bytes = si_reload_bytes s, sr_reload_refs = si_reload_refs s,
          sr_reload_bytes_by_ref = si_reload_bytes_by_ref s, sr_loaded_indices = si_loaded_indices s\<rparr>)"

section \<open>The policies implement the interface\<close>

interpretation sim_policy: eviction_policy "choose_victim policy sequence index"
  by unfold_locales (simp add: choose_victim_def argmax_list_in arg_min_list_in)

section \<open>Accounting\<close>

definition entries_ok :: "nat \<Rightarrow> sim_state \<Rightarrow> bool" where
  "entries_ok index s \<longleftrightarrow> distinct (map fst (si_resident s)) \<and>
     list_all (\<lambda>(r, b, l, c). 0 \<le> b \<and> l < index \<and> r \<in> si_seen s) (si_resident s)"

definition counts_ok :: "event list \<Rightarrow> nat \<Rightarrow> sim_state \<Rightarrow> bool" where
  "counts_ok sequence index s \<longleftrightarrow>
     si_loads s = int (length (si_loaded_indices s)) \<and>
     sorted_wrt (<) (si_loaded_indices s) \<and> list_all (\<lambda>i. i < index) (si_loaded_indices s) \<and>
     si_load_bytes s = (\<Sum>i\<leftarrow>si_loaded_indices s. ev_bytes (sequence ! i)) \<and>
     si_seen s = (\<lambda>i. ev_ref (sequence ! i)) ` set (si_loaded_indices s) \<and>
     si_loads s - si_reloads s = int (card (si_seen s)) \<and>
     0 \<le> si_reload_bytes s \<and> si_reload_bytes s \<le> si_load_bytes s \<and>
     si_evictions s + int (length (si_resident s)) = si_loads s \<and>
     0 \<le> si_hits s \<and> si_hits s + si_loads s \<le> int index"

lemma sim_stepE:
  assumes "sim_step policy capacity active sequence index e s = Inr s'" and "distinct (map fst (si_resident s))"
  obtains (hit) b l c where "map_of (si_resident s) (ev_ref e) = Some (b, l, c)"
      "s' = s\<lparr>si_hits := si_hits s + 1, si_resident := AList.update (ev_ref e) (b, index, c + 1) (si_resident s)\<rparr>"
    | (deferred) "map_of (si_resident s) (ev_ref e) = None" "policy = ''admission-repeated''" "ev_ref e \<notin> si_seen s"
      "s' = s\<lparr>si_loads := si_loads s + 1, si_load_bytes := si_load_bytes s + ev_bytes e,
              si_seen := insert (ev_ref e) (si_seen s)\<rparr>"
    | (bypass) rest steps leased where "map_of (si_resident s) (ev_ref e) = None" "map_of rest (ev_ref e) = None"
      "outcome fst leased (ev_bytes e) capacity (si_resident s) rest steps"
      "\<And>a. active_at active index = Inr a \<Longrightarrow> leased = a"
      "used fst rest + ev_bytes e > capacity"
      "s' = s\<lparr>si_resident := rest, si_evictions := si_evictions s + int (length steps)\<rparr>"
    | (admit) rest steps leased where "map_of (si_resident s) (ev_ref e) = None" "map_of rest (ev_ref e) = None"
      "outcome fst leased (ev_bytes e) capacity (si_resident s) rest steps"
      "\<And>a. active_at active index = Inr a \<Longrightarrow> leased = a"
      "used fst rest + ev_bytes e \<le> capacity"
      "s' = sim_admit index e (s\<lparr>si_resident := rest, si_evictions := si_evictions s + int (length steps)\<rparr>)"
proof (cases "map_of (si_resident s) (ev_ref e)")
  case (Some t)
  then show ?thesis using assms(1) hit by (cases t) (simp add: sim_step_def)
next
  case None
  show ?thesis
  proof (cases "policy = ''admission-repeated'' \<and> ev_ref e \<notin> si_seen s")
    case True
    then show ?thesis using assms(1) None deferred by (simp add: sim_step_def)
  next
    case False
    then obtain rest steps where run: "evict_loop fst (active_at active index) (choose_victim policy sequence index)
        (ev_bytes e) capacity (si_resident s) = Inr (rest, steps)"
      and s': "s' = (let s' = s\<lparr>si_resident := rest, si_evictions := si_evictions s + int (length steps)\<rparr> in
          if used fst rest + ev_bytes e > capacity then s' else sim_admit index e s')"
      using assms(1) None by (auto simp: sim_step_def bind_res_Inr_iff Let_def split: if_splits)
    obtain leased where out: "outcome fst leased (ev_bytes e) capacity (si_resident s) rest steps"
      "\<And>a. active_at active index = Inr a \<Longrightarrow> leased = a"
      using sim_policy.evict_loop_elim[OF run assms(2)] by blast
    have "map_of rest (ev_ref e) = None"
      using outcome_distinct[OF out(1) assms(2)] None by (auto simp: map_of_eq_None_iff)
    then show ?thesis
      using None out s' bypass admit by (cases "used fst rest + ev_bytes e > capacity") (auto simp: Let_def)
  qed
qed

lemma entries_ok_step:
  assumes "sim_step policy capacity active sequence index e s = Inr s'" and ok: "entries_ok index s"
    and "0 \<le> ev_bytes e"
  shows "entries_ok (Suc index) s'"
proof -
  have d: "distinct (map fst (si_resident s))" using ok by (simp add: entries_ok_def)
  have all: "list_all (\<lambda>(r, b, l, c). 0 \<le> b \<and> l < Suc index \<and> r \<in> si_seen s) (si_resident s)"
    using ok by (fastforce simp: entries_ok_def list_all_iff)
  have old: "outcome fst leased need capacity (si_resident s) rest steps \<Longrightarrow> distinct (map fst rest) \<and>
      list_all (\<lambda>(r, b, l, c). 0 \<le> b \<and> l < Suc index \<and> r \<in> si_seen s) rest" for leased need rest steps
    using outcome_distinct[OF _ d] all unfolding list_all_iff by blast
  have weak: "list_all (\<lambda>(r, b, l, c). 0 \<le> b \<and> l < Suc index \<and> r \<in> si_seen s) al \<Longrightarrow>
      list_all (\<lambda>(r, b, l, c). 0 \<le> b \<and> l < Suc index \<and> (r = x \<or> r \<in> si_seen s)) al" for al x
    by (auto simp: list_all_iff)
  from assms(1) d show ?thesis
  proof (cases rule: sim_stepE)
    case (hit b l c)
    then have "(ev_ref e, b, l, c) \<in> set (si_resident s)" by (simp add: map_of_SomeD)
    then have e: "0 \<le> b" "ev_ref e \<in> si_seen s" using all by (auto simp: list_all_iff)
    have "list_all (\<lambda>(r, b, l, c). 0 \<le> b \<and> l < Suc index \<and> r \<in> si_seen s)
        (AList.update (ev_ref e) (b, index, c + 1) al)"
      if "list_all (\<lambda>(r, b, l, c). 0 \<le> b \<and> l < Suc index \<and> r \<in> si_seen s) al" for al
      using that e by (induction al) auto
    with hit d all show ?thesis by (simp add: entries_ok_def distinct_update)
  next
    case deferred
    with d weak[OF all] show ?thesis by (simp add: entries_ok_def)
  next
    case (bypass rest steps leased)
    with old show ?thesis by (simp add: entries_ok_def)
  next
    case (admit rest steps leased)
    from old[OF admit(3)] weak[of rest] admit(2,6) assms(3) show ?thesis
      by (simp add: entries_ok_def sim_admit_def Let_def update_new map_of_eq_None_iff)
  qed
qed

lemma length_update_old: "map_of al k \<noteq> None \<Longrightarrow> length (AList.update k v al) = length al"
  by (induction al) auto

lemma counts_ok_step:
  assumes "sim_step policy capacity active sequence index e s = Inr s'" and ok: "entries_ok index s" "counts_ok sequence index s"
    and "0 \<le> ev_bytes e" and e: "e = sequence ! index" and pol: "policy \<noteq> ''admission-repeated''"
  shows "counts_ok sequence (Suc index) s'"
proof -
  have d: "distinct (map fst (si_resident s))" using ok by (simp add: entries_ok_def)
  note c = ok(2)[unfolded counts_ok_def]
  have lt: "list_all (\<lambda>i. i < Suc index) (si_loaded_indices s)"
    using c by (auto simp: list_all_iff less_Suc_eq)
  from assms(1) d show ?thesis
  proof (cases rule: sim_stepE)
    case (hit b l c')
    then have "length (si_resident s') = length (si_resident s)" by (simp add: length_update_old)
    with hit c lt show ?thesis by (auto simp: counts_ok_def)
  next
    case deferred
    with pol show ?thesis by simp
  next
    case (bypass rest steps leased)
    with c lt outcome_length[OF bypass(3) d] show ?thesis by (auto simp: counts_ok_def)
  next
    case (admit rest steps leased)
    have fin: "finite (si_seen s)" using c by simp
    have card: "card (insert (ev_ref e) (si_seen s)) = (if ev_ref e \<in> si_seen s then card (si_seen s) else Suc (card (si_seen s)))"
      using fin by (simp add: card_insert_if)
    have sw: "sorted_wrt (<) (si_loaded_indices s @ [index])"
      using c by (auto simp: sorted_wrt_append list_all_iff)
    show ?thesis
      using c lt sw card assms(4) outcome_length[OF admit(3) d] admit(2,6)
      by (auto simp: counts_ok_def sim_admit_def Let_def update_new e[symmetric])
  qed
qed

lemma entries_ok_start: "entries_ok i sim_start"
  by (simp add: entries_ok_def sim_start_def)

lemma counts_ok_start: "counts_ok sequence 0 sim_start"
  by (simp add: counts_ok_def sim_start_def)

text \<open>Induction along the request loop.\<close>

lemma sim_loop_invariant:
  assumes "sim_loop policy capacity active sequence i es s = Inr s'" and "P i s"
    and "\<And>k e s s'. \<lbrakk>k < i + length es; i \<le> k; e = es ! (k - i); P k s;
        sim_step policy capacity active sequence k e s = Inr s'\<rbrakk> \<Longrightarrow> P (Suc k) s'"
  shows "P (i + length es) s'"
  using assms
proof (induction es arbitrary: i s)
  case (Cons e es)
  then obtain s1 where s1: "sim_step policy capacity active sequence i e s = Inr s1"
    "sim_loop policy capacity active sequence (Suc i) es s1 = Inr s'" by (auto simp: bind_res_Inr_iff)
  have "P (Suc i) s1" by (rule Cons.prems(3)[OF _ _ _ Cons.prems(2) s1(1)]) auto
  moreover have "P (Suc k) t'" if "k < Suc i + length es" "Suc i \<le> k" "e' = es ! (k - Suc i)" "P k t"
    "sim_step policy capacity active sequence k e' t = Inr t'" for k e' t t'
  proof (rule Cons.prems(3)[OF _ _ _ that(4,5)])
    have "k - i = Suc (k - Suc i)" using that(2) by simp
    then show "e' = (e # es) ! (k - i)" using that(3) by simp
  qed (use that in auto)
  ultimately have "P (Suc i + length es) s'" by (rule Cons.IH[OF s1(2)])
  then show ?case by simp
qed simp

lemma sim_loop_entries:
  assumes "sim_loop policy capacity active sequence 0 es sim_start = Inr s" and "list_all (\<lambda>e. 0 \<le> ev_bytes e) es"
  shows "entries_ok (length es) s"
  using sim_loop_invariant[OF assms(1), of entries_ok] assms(2) entries_ok_start
  by (auto intro: entries_ok_step simp: list_all_length)

lemma sim_loop_counts:
  assumes "sim_loop policy capacity active sequence 0 sequence sim_start = Inr s"
    and "list_all (\<lambda>e. 0 \<le> ev_bytes e) sequence" and "policy \<noteq> ''admission-repeated''"
  shows "counts_ok sequence (length sequence) s"
proof -
  have "(\<lambda>k s. entries_ok k s \<and> counts_ok sequence k s) (0 + length sequence) s"
    by (rule sim_loop_invariant[OF assms(1)])
      (use assms entries_ok_start counts_ok_start in
        \<open>auto simp: list_all_length intro: entries_ok_step counts_ok_step\<close>)
  then show ?thesis by simp
qed

lemma simulate_loaded:
  assumes "simulate sequence capacity policy active = Inr r"
    and "list_all (\<lambda>e. 0 \<le> ev_bytes e) sequence" and "policy \<noteq> ''admission-repeated''"
  shows "sorted_wrt (<) (sr_loaded_indices r) \<and> set (sr_loaded_indices r) \<subseteq> {..<length sequence} \<and>
    sr_loads r = int (length (sr_loaded_indices r)) \<and>
    sr_load_bytes r = (\<Sum>i\<leftarrow>sr_loaded_indices r. ev_bytes (sequence ! i)) \<and>
    sr_loads r - sr_reload_events r = int (card ((\<lambda>i. ev_ref (sequence ! i)) ` set (sr_loaded_indices r))) \<and>
    sr_reload_bytes r \<le> sr_load_bytes r \<and> sr_evictions r \<le> sr_loads r \<and>
    sr_hits r + sr_loads r \<le> sr_requests r"
proof -
  obtain s where run: "sim_loop policy capacity active sequence 0 sequence sim_start = Inr s"
    and r: "sr_requests r = int (length sequence)" "sr_hits r = si_hits s" "sr_loads r = si_loads s"
      "sr_evictions r = si_evictions s" "sr_reload_events r = si_reloads s" "sr_load_bytes r = si_load_bytes s"
      "sr_reload_bytes r = si_reload_bytes s" "sr_loaded_indices r = si_loaded_indices s"
    using assms(1) by (auto simp: simulate_def bind_res_Inr_iff)
  from sim_loop_counts[OF run assms(2,3)] show ?thesis
    unfolding r counts_ok_def by (auto simp: list_all_iff)
qed

text \<open>
  C4. The accounts of a replay balance, for every policy but the deferred-admission one: the loaded
  positions are strictly increasing positions of the sequence, one per load; the loaded bytes are
  the bytes at those positions; first loads, loads minus reloads, are as many as the distinct
  tensors loaded; reloaded bytes are part of the loaded ones; evictions never exceed loads and
  hits and loads together never exceed the requests.
\<close>

theorem simulate_accounts:
  assumes "simulate sequence capacity policy active = Inr r"
    and "list_all (\<lambda>e. 0 \<le> ev_bytes e) sequence" and "policy \<noteq> ''admission-repeated''"
  shows "sorted_wrt (<) (sr_loaded_indices r) \<and> set (sr_loaded_indices r) \<subseteq> {..<length sequence} \<and>
    sr_loads r = int (length (sr_loaded_indices r)) \<and>
    sr_load_bytes r = (\<Sum>i\<leftarrow>sr_loaded_indices r. ev_bytes (sequence ! i)) \<and>
    sr_loads r - sr_reload_events r = int (card ((\<lambda>i. ev_ref (sequence ! i)) ` set (sr_loaded_indices r))) \<and>
    sr_reload_bytes r \<le> sr_load_bytes r \<and> sr_evictions r \<le> sr_loads r \<and>
    sr_hits r + sr_loads r \<le> sr_requests r"
  using assms by (rule simulate_loaded)

theorem simulate_accounts_witness:
  "\<exists>r. simulate (sample_requests [(1, 4), (2, 4), (1, 4), (3, 4)]) 8 ''lru'' None = Inr r \<and>
     sr_hits r = 1 \<and> sr_hits r + sr_loads r \<le> sr_requests r"
proof -
  let ?q = "sample_requests [(1, 4), (2, 4), (1, 4), (3, 4)]"
  have "(case simulate ?q 8 ''lru'' None of Inl _ \<Rightarrow> False | Inr r \<Rightarrow> sr_hits r = 1)" by code_simp
  then obtain r where r: "simulate ?q 8 ''lru'' None = Inr r" "sr_hits r = 1" by (auto split: sum.splits)
  have "list_all (\<lambda>e. 0 \<le> ev_bytes e) ?q" by (simp add: sample_requests_def sample_event_def)
  from simulate_accounts[OF r(1) this] r show ?thesis by auto
qed

section \<open>Capacity and leases\<close>

lemma within_capacity_step:
  assumes "sim_step policy capacity active sequence index e s = Inr s'" and ok: "entries_ok index s"
    and "used fst (si_resident s) \<le> capacity"
  shows "used fst (si_resident s') \<le> capacity"
proof -
  have d: "distinct (map fst (si_resident s))" and nn: "p \<in> set (si_resident s) \<Longrightarrow> 0 \<le> fst (snd p)" for p
    using ok by (auto simp: entries_ok_def list_all_iff)
  from assms(1) d show ?thesis
  proof (cases rule: sim_stepE)
    case (hit b l c)
    then show ?thesis using assms(3) by (simp add: used_update_same)
  next
    case deferred
    then show ?thesis using assms(3) by simp
  next
    case (bypass rest steps leased)
    then show ?thesis using outcome_used[OF bypass(3) nn] assms(3) by auto
  next
    case (admit rest steps leased)
    then show ?thesis by (simp add: sim_admit_def Let_def used_update_new)
  qed
qed

text \<open>
  C5. The cache never exceeds its capacity: after any prefix of the requests, under every policy
  and lease schedule, the resident bytes are within the capacity and every tensor is resident at
  most once.
\<close>

theorem within_capacity:
  assumes "sim_loop policy capacity active sequence 0 (take k sequence) sim_start = Inr s"
    and "list_all (\<lambda>e. 0 \<le> ev_bytes e) sequence" and "0 \<le> capacity"
  shows "used fst (si_resident s) \<le> capacity \<and> distinct (map fst (si_resident s))"
proof -
  have nn: "list_all (\<lambda>e. 0 \<le> ev_bytes e) (take k sequence)"
    using assms(2) by (auto simp: list_all_iff dest: in_set_takeD)
  have "(\<lambda>k s. entries_ok k s \<and> used fst (si_resident s) \<le> capacity) (0 + length (take k sequence)) s"
  proof (rule sim_loop_invariant[OF assms(1)])
    show "entries_ok 0 sim_start \<and> used fst (si_resident sim_start) \<le> capacity"
      using entries_ok_start assms(3) by (simp add: sim_start_def)
  next
    fix i e t t'
    assume i: "i < 0 + length (take k sequence)" "e = take k sequence ! (i - 0)"
      and t: "entries_ok i t \<and> used fst (si_resident t) \<le> capacity"
      and step: "sim_step policy capacity active sequence i e t = Inr t'"
    have "0 \<le> ev_bytes e" using nn i by (simp add: list_all_length)
    then show "entries_ok (Suc i) t' \<and> used fst (si_resident t') \<le> capacity"
      using entries_ok_step[OF step] within_capacity_step[OF step] t by blast
  qed
  then show ?thesis by (simp add: entries_ok_def)
qed

theorem within_capacity_witness:
  "\<exists>s. sim_loop ''lfu'' 8 None (sample_requests [(1, 4), (2, 8), (1, 4)]) 0
       (take 2 (sample_requests [(1, 4), (2, 8), (1, 4)])) sim_start = Inr s \<and>
     map fst (si_resident s) = [2] \<and> used fst (si_resident s) \<le> 8"
proof -
  let ?q = "sample_requests [(1, 4), (2, 8), (1, 4)]"
  have "(case sim_loop ''lfu'' 8 None ?q 0 (take 2 ?q) sim_start of Inl _ \<Rightarrow> False
      | Inr s \<Rightarrow> map fst (si_resident s) = [2])" by code_simp
  then obtain s where s: "sim_loop ''lfu'' 8 None ?q 0 (take 2 ?q) sim_start = Inr s" "map fst (si_resident s) = [2]"
    by (auto split: sum.splits)
  have "list_all (\<lambda>e. 0 \<le> ev_bytes e) ?q" by (simp add: sample_requests_def sample_event_def)
  from within_capacity[OF s(1) this] s show ?thesis by auto
qed

text \<open>
  C38. A leased tensor is never an eviction victim: a resident tensor that the schedule marks leased
  at a request is still resident, with its size, after the request was served.
\<close>

theorem leased_stays_resident:
  assumes "sim_step policy capacity active sequence index e s = Inr s'"
    and "distinct (map fst (si_resident s))"
    and "active_at active index = Inr leased" and "r \<in> leased" and "map_of (si_resident s) r = Some (b, l, c)"
  shows "\<exists>l' c'. map_of (si_resident s') r = Some (b, l', c')"
proof -
  have mem: "(r, b, l, c) \<in> set (si_resident s)" using assms(5) by (rule map_of_SomeD)
  have keep: "map_of rest r = Some (b, l, c)" if "outcome fst leased n cap (si_resident s) rest steps" for n cap rest steps
    using outcome_leased[OF that mem] outcome_distinct[OF that assms(2)] assms(4) by simp
  from assms(1,2) show ?thesis
  proof (cases rule: sim_stepE)
    case (hit b' l' c')
    then show ?thesis using assms(5) by (auto simp: update_conv')
  next
    case deferred
    then show ?thesis using assms(5) by simp
  next
    case (bypass rest steps leased')
    then show ?thesis using keep assms(3) by auto
  next
    case (admit rest steps leased')
    then show ?thesis using keep assms(3,5) by (auto simp: sim_admit_def Let_def update_conv')
  qed
qed

theorem leased_stays_resident_witness:
  "\<exists>s s'. sim_loop ''lru'' 8 (Some [{}, {}, {1}]) (sample_requests [(1, 4), (2, 4), (3, 4)]) 0
        (take 2 (sample_requests [(1, 4), (2, 4), (3, 4)])) sim_start = Inr s \<and>
     sim_step ''lru'' 8 (Some [{}, {}, {1}]) (sample_requests [(1, 4), (2, 4), (3, 4)]) 2 (sample_event 3 ''REQUEST'' 4) s = Inr s' \<and>
     map_of (si_resident s) 1 \<noteq> None \<and> (\<exists>l c. map_of (si_resident s') 1 = Some (4, l, c)) \<and> map_of (si_resident s') 2 = None"
proof -
  let ?q = "sample_requests [(1, 4), (2, 4), (3, 4)]" and ?a = "Some [{}, {}, {1}] :: int set list option"
  let ?s = "sim_start\<lparr>si_resident := [(1, 4, 0, 1), (2, 4, 1, 1)], si_seen := {1, 2}, si_loads := 2,
     si_load_bytes := 8, si_loaded_indices := [0, 1]\<rparr>"
  have s: "sim_loop ''lru'' 8 ?a ?q 0 (take 2 ?q) sim_start = Inr ?s" by code_simp
  have "(case sim_step ''lru'' 8 ?a ?q 2 (sample_event 3 ''REQUEST'' 4) ?s of Inl _ \<Rightarrow> False
     | Inr s' \<Rightarrow> map_of (si_resident s') 2 = None)" by code_simp
  then obtain s' where s': "sim_step ''lru'' 8 ?a ?q 2 (sample_event 3 ''REQUEST'' 4) ?s = Inr s'"
    "map_of (si_resident s') 2 = None" by (auto split: sum.splits)
  have "\<exists>l c. map_of (si_resident s') 1 = Some (4, l, c)"
    by (rule leased_stays_resident[OF s'(1), of "{1}"]) (auto simp: active_at_def)
  then show ?thesis using s s' by (intro exI[of _ ?s] exI[of _ s']) auto
qed

section \<open>The replay always returns\<close>

lemma sim_step_total:
  assumes "active_at active index = Inr leased" and "distinct (map fst (si_resident s))"
  shows "\<exists>s'. sim_step policy capacity active sequence index e s = Inr s'"
proof -
  obtain rest steps where run: "evict_loop fst (Inr leased) (choose_victim policy sequence index) (ev_bytes e)
      capacity (si_resident s) = Inr (rest, steps)"
    using sim_policy.evict_loop_outcome[OF assms(2)] by blast
  show ?thesis
    by (cases "map_of (si_resident s) (ev_ref e)") (auto simp: sim_step_def assms(1) run Let_def)
qed

lemma sim_step_distinct:
  assumes "sim_step policy capacity active sequence index e s = Inr s'" and "distinct (map fst (si_resident s))"
  shows "distinct (map fst (si_resident s'))"
  using assms
proof (cases rule: sim_stepE)
  case (admit rest steps leased)
  then show ?thesis using outcome_distinct[OF admit(3) assms(2)]
    by (simp add: sim_admit_def Let_def distinct_update)
next
  case (bypass rest steps leased)
  then show ?thesis using outcome_distinct[OF bypass(3) assms(2)] by simp
qed (use assms in \<open>auto simp: distinct_update\<close>)

lemma sim_loop_total:
  assumes "\<And>k. k < i + length es \<Longrightarrow> \<exists>a. active_at active k = Inr a" and "distinct (map fst (si_resident s))"
  shows "\<exists>s'. sim_loop policy capacity active sequence i es s = Inr s'"
  using assms
proof (induction es arbitrary: i s)
  case (Cons e es)
  obtain a where "active_at active i = Inr a" using Cons.prems(1)[of i] by auto
  from sim_step_total[OF this Cons.prems(2)] obtain s1 where
    s1: "sim_step policy capacity active sequence i e s = Inr s1" by blast
  have "\<exists>s'. sim_loop policy capacity active sequence (Suc i) es s1 = Inr s'"
    using Cons.prems(1) sim_step_distinct[OF s1 Cons.prems(2)] by (intro Cons.IH) auto
  with s1 show ?case by simp
qed simp

lemma replay_total:
  "\<exists>r. simulate (requests events) capacity policy (Some (active_sets events)) = Inr r"
proof -
  have "length (active_sets events) = length (requests events)" by (rule active_sets_length)
  then have "\<exists>s. sim_loop policy capacity (Some (active_sets events)) (requests events) 0 (requests events) sim_start = Inr s"
    by (intro sim_loop_total) (auto simp: active_at_def sim_start_def)
  then show ?thesis by (auto simp: simulate_def)
qed

section \<open>What each policy evicts\<close>

definition key_lru :: "(int \<times> entry) list \<Rightarrow> int \<Rightarrow> nat" where
  "key_lru resident r = fst (snd (entry_of resident r))"

definition key_lfu :: "(int \<times> entry) list \<Rightarrow> int \<Rightarrow> int" where
  "key_lfu resident r = snd (snd (entry_of resident r))"

definition reuse_position :: "event list \<Rightarrow> nat \<Rightarrow> int \<Rightarrow> int" where
  "reuse_position sequence index r = (case first_use_after sequence index r of None \<Rightarrow> 10 ^ 9 | Some p \<Rightarrow> int p)"

text \<open>
  The victim is one of the eligible tensors and extremal for its policy: \<open>min\<close> evicts a tensor
  whose next use is not earlier than that of any other eligible one, \<open>lfu\<close> one with the least use
  count, and every other policy name the least recently used one.
\<close>

theorem victim_extremal:
  assumes "r \<in> set eligible"
  shows "choose_victim policy sequence index resident eligible \<in> set eligible \<and>
    (if policy = ''min'' then reuse_position sequence index r \<le>
       reuse_position sequence index (choose_victim policy sequence index resident eligible)
     else if policy = ''lfu'' then
       key_lfu resident (choose_victim policy sequence index resident eligible) \<le> key_lfu resident r
     else key_lru resident (choose_victim policy sequence index resident eligible) \<le> key_lru resident r)"
proof -
  have "choose_victim policy sequence index resident eligible \<in> set eligible"
    using assms by (intro sim_policy.victim_in) auto
  moreover have "(reuse_position sequence index r, r) \<le> (reuse_position sequence index v, v)"
    if "v = argmax_list (\<lambda>r. (reuse_position sequence index r, r)) eligible" for v
    using argmax_list_ge[OF assms, of "\<lambda>r. (reuse_position sequence index r, r)"] that by simp
  moreover have "(key_lfu resident v, key_lru resident v, v) \<le> (key_lfu resident r, key_lru resident r, r)"
    if "v = arg_min_list (\<lambda>r. (key_lfu resident r, key_lru resident r, r)) eligible" for v
    using arg_min_list_le[OF assms, of "\<lambda>r. (key_lfu resident r, key_lru resident r, r)"] that by simp
  moreover have "(key_lru resident v, v) \<le> (key_lru resident r, r)"
    if "v = arg_min_list (\<lambda>r. (key_lru resident r, r)) eligible" for v
    using arg_min_list_le[OF assms, of "\<lambda>r. (key_lru resident r, r)"] that by simp
  ultimately show ?thesis
    unfolding choose_victim_def key_lru_def[symmetric] key_lfu_def[symmetric] reuse_position_def[symmetric]
    by (auto simp: less_eq_prod_def)
qed

theorem victim_extremal_witness:
  "choose_victim ''min'' (sample_requests [(1, 4), (2, 4), (3, 4), (1, 4)]) 2 [(1, 4, 0, 1), (2, 4, 1, 1)] [1, 2] = 2 \<and>
   reuse_position (sample_requests [(1, 4), (2, 4), (3, 4), (1, 4)]) 2 1 \<le>
     reuse_position (sample_requests [(1, 4), (2, 4), (3, 4), (1, 4)]) 2 2"
proof -
  let ?q = "sample_requests [(1, 4), (2, 4), (3, 4), (1, 4)]"
  have v: "choose_victim ''min'' ?q 2 [(1, 4, 0, 1), (2, 4, 1, 1)] [1, 2] = 2" by code_simp
  from victim_extremal[where r = 1 and eligible = "[1, 2]" and policy = "''min''" and sequence = ?q and index = 2
    and resident = "[(1, 4, 0, 1), (2, 4, 1, 1)]"] v show ?thesis by simp
qed

end
