(* ===== verification/Cost_Aware.thy ===== *)
theory Cost_Aware
  imports Residency
begin

text \<open>
  The second replay, \<open>simulate\<close> of \<open>scripts/qualify_cost_aware_residency_poc20.py\<close>, which keeps its
  own recency table and logs its decisions, and the acceptance gate of its \<open>main\<close>.  The
  cost-aware retention score is float arithmetic; it is the parameter \<open>score\<close>, with values in any
  linear order, and the victim is its minimum with the reference as tie-break, as in the code.
  For \<open>lru\<close> and \<open>min\<close> the replay is shown equivalent to \<open>simulate\<close> of \<open>Residency\<close>.
\<close>

section \<open>Replay\<close>

type_synonym cost_entry = "int \<times> nat"

record decision =
  de_request_index :: nat
  de_incoming_ref :: int
  de_incoming_bytes :: int
  de_eligible :: "int list"
  de_victim :: int
  de_policy :: string

record cost_state =
  cs_resident :: "(int \<times> cost_entry) list"
  cs_seen :: "int set"
  cs_requests_seen :: "(int \<times> int) list"
  cs_last_request :: "(int \<times> nat) list"
  cs_loads :: int
  cs_reloads :: int
  cs_load_bytes :: int
  cs_reload_bytes :: int
  cs_hits :: int
  cs_evictions :: int
  cs_decisions :: int
  cs_candidates_evaluated :: int
  cs_decision_rows :: "decision list"

definition cost_start :: cost_state where
  "cost_start = \<lparr>cs_resident = [], cs_seen = {}, cs_requests_seen = [], cs_last_request = [], cs_loads = 0,
     cs_reloads = 0, cs_load_bytes = 0, cs_reload_bytes = 0, cs_hits = 0, cs_evictions = 0, cs_decisions = 0,
     cs_candidates_evaluated = 0, cs_decision_rows = []\<rparr>"

text \<open>
  The score of a candidate sees the request index and, of every eligible entry, its request count, its size
  and its last request, since the density and the recency are normalised by their maxima over the eligible.
\<close>

type_synonym candidate_facts = "int \<times> int \<times> int \<times> nat"
type_synonym 's scoring = "nat \<Rightarrow> candidate_facts list \<Rightarrow> int \<Rightarrow> 's"

definition facts_of :: "(int \<times> int) list \<Rightarrow> (int \<times> nat) list \<Rightarrow> (int \<times> cost_entry) list \<Rightarrow> int list \<Rightarrow> candidate_facts list" where
  "facts_of requests_seen last_request resident eligible =
     map (\<lambda>c. (c, get_default requests_seen c 0, fst (get_default resident c (0, 0)), get_default last_request c 0)) eligible"

definition cost_victim ::
  "'s :: linorder scoring \<Rightarrow> string \<Rightarrow> event list \<Rightarrow> nat \<Rightarrow> (int \<times> int) list \<Rightarrow> (int \<times> nat) list \<Rightarrow>
   (int \<times> cost_entry) list \<Rightarrow> int list \<Rightarrow> int" where
  "cost_victim score policy sequence index requests_seen last_request resident eligible =
     (if policy = ''lru'' then arg_min_list (\<lambda>c. (get_default last_request c 0, c)) eligible
      else if policy = ''min'' then
        argmax_list (\<lambda>c. (case first_use_after sequence index c of None \<Rightarrow> 10 ^ 9 | Some p \<Rightarrow> int p, c)) eligible
      else arg_min_list (\<lambda>c. (score index (facts_of requests_seen last_request resident eligible) c, c)) eligible)"

definition cost_admit :: "nat \<Rightarrow> event \<Rightarrow> cost_state \<Rightarrow> cost_state" where
  "cost_admit index e s = (let r = ev_ref e;
     s1 = s\<lparr>cs_resident := AList.update r (ev_bytes e, index) (cs_resident s),
            cs_last_request := AList.update r index (cs_last_request s),
            cs_load_bytes := cs_load_bytes s + ev_bytes e\<rparr>;
     s2 = (if r \<in> cs_seen s then
             s1\<lparr>cs_reloads := cs_reloads s + 1, cs_reload_bytes := cs_reload_bytes s + ev_bytes e\<rparr>
           else s1\<lparr>cs_loads := cs_loads s + 1\<rparr>)
     in s2\<lparr>cs_seen := insert r (cs_seen s)\<rparr>)"

definition cost_step ::
  "'s :: linorder scoring \<Rightarrow> event list \<Rightarrow> int set list \<Rightarrow> int \<Rightarrow> string \<Rightarrow> nat \<Rightarrow> event \<Rightarrow> cost_state \<Rightarrow> cost_state res" where
  "cost_step score sequence active capacity policy index e s0 = (let r = ev_ref e;
     s = s0\<lparr>cs_requests_seen := AList.update r (get_default (cs_requests_seen s0) r 0 + 1) (cs_requests_seen s0)\<rparr> in
     if map_of (cs_resident s) r \<noteq> None then
       Inr (s\<lparr>cs_hits := cs_hits s + 1, cs_last_request := AList.update r index (cs_last_request s)\<rparr>)
     else bind_res (evict_loop fst (active_at (Some active) index)
            (cost_victim score policy sequence index (cs_requests_seen s) (cs_last_request s))
            (ev_bytes e) capacity (cs_resident s)) (\<lambda>(rest, steps).
       let s' = s\<lparr>cs_resident := rest, cs_evictions := cs_evictions s + int (length steps),
                  cs_decisions := cs_decisions s + int (length steps),
                  cs_candidates_evaluated := cs_candidates_evaluated s + sum_list (map (\<lambda>(el, v). int (length el)) steps),
                  cs_decision_rows := cs_decision_rows s @ map (\<lambda>(el, v).
                    \<lparr>de_request_index = index, de_incoming_ref = r, de_incoming_bytes = ev_bytes e,
                     de_eligible = el, de_victim = v, de_policy = policy\<rparr>) steps\<rparr> in
       if used fst rest + ev_bytes e > capacity then Inr s' else Inr (cost_admit index e s')))"

fun cost_loop ::
  "'s :: linorder scoring \<Rightarrow> event list \<Rightarrow> int set list \<Rightarrow> int \<Rightarrow> string \<Rightarrow> nat \<Rightarrow> event list \<Rightarrow> cost_state \<Rightarrow> cost_state res" where
  "cost_loop score sequence active capacity policy index [] s = Inr s"
| "cost_loop score sequence active capacity policy index (e # es) s =
     bind_res (cost_step score sequence active capacity policy index e s)
       (\<lambda>s'. cost_loop score sequence active capacity policy (Suc index) es s')"

record cost_report =
  co_policy :: string
  co_capacity :: int
  co_requests :: int
  co_unique :: int
  co_hits :: int
  co_loads :: int
  co_evictions :: int
  co_reload_events :: int
  co_load_bytes :: int
  co_source_bytes :: int
  co_reload_bytes :: int
  co_policy_decisions :: int
  co_policy_candidates_evaluated :: int
  co_decision_rows :: "decision list"

definition cost_simulate ::
  "'s :: linorder scoring \<Rightarrow> event list \<Rightarrow> int set list \<Rightarrow> int \<Rightarrow> string \<Rightarrow> cost_report res" where
  "cost_simulate score sequence active capacity policy =
     bind_res (cost_loop score sequence active capacity policy 0 sequence cost_start) (\<lambda>s.
     Inr \<lparr>co_policy = policy, co_capacity = capacity, co_requests = int (length sequence),
          co_unique = int (card (ev_ref ` set sequence)), co_hits = cs_hits s, co_loads = cs_loads s,
          co_evictions = cs_evictions s, co_reload_events = cs_reloads s, co_load_bytes = cs_load_bytes s,
          co_source_bytes = cs_load_bytes s, co_reload_bytes = cs_reload_bytes s,
          co_policy_decisions = cs_decisions s, co_policy_candidates_evaluated = cs_candidates_evaluated s,
          co_decision_rows = cs_decision_rows s\<rparr>)"

text \<open>The gate of \<open>main\<close>; the percentage, a float quotient, is the pair (saved, available).\<close>

record gate_row =
  ga_lru_reload_bytes :: int
  ga_min_reload_bytes :: int
  ga_cost_aware_reload_bytes :: int
  ga_saved_vs_lru :: int
  ga_headroom :: "int \<times> int"

definition acceptance_gate :: "cost_report \<Rightarrow> cost_report \<Rightarrow> cost_report \<Rightarrow> gate_row" where
  "acceptance_gate lru cost oracle = (let available = co_reload_bytes lru - co_reload_bytes oracle;
     saved = co_reload_bytes lru - co_reload_bytes cost in
     \<lparr>ga_lru_reload_bytes = co_reload_bytes lru, ga_min_reload_bytes = co_reload_bytes oracle,
      ga_cost_aware_reload_bytes = co_reload_bytes cost, ga_saved_vs_lru = saved,
      ga_headroom = (saved, available)\<rparr>)"

interpretation cost_policy: eviction_policy "cost_victim score policy sequence index requests_seen last_request"
  by unfold_locales (simp add: cost_victim_def argmax_list_in arg_min_list_in)

section \<open>Equivalence with the first replay\<close>

definition recency_ok :: "(int \<times> nat) list \<Rightarrow> (int \<times> entry) list \<Rightarrow> bool" where
  "recency_ok last_request resident \<longleftrightarrow> distinct (map fst resident) \<and>
     (\<forall>k v. map_of resident k = Some v \<longrightarrow> get_default last_request k 0 = fst (snd v))"

definition in_step :: "sim_state \<Rightarrow> cost_state \<Rightarrow> bool" where
  "in_step s t \<longleftrightarrow> shape fst (si_resident s) = shape fst (cs_resident t) \<and> si_seen s = cs_seen t \<and>
     recency_ok (cs_last_request t) (si_resident s) \<and>
     si_hits s = cs_hits t \<and> si_loads s = cs_loads t + cs_reloads t \<and> si_reloads s = cs_reloads t \<and>
     si_load_bytes s = cs_load_bytes t \<and> si_reload_bytes s = cs_reload_bytes t \<and>
     si_evictions s = cs_evictions t \<and> cs_decisions t = cs_evictions t"

lemma recency_ok_delete: "recency_ok lr r \<Longrightarrow> recency_ok lr (AList.delete k r)"
  by (auto simp: recency_ok_def delete_conv')

lemma arg_min_list_cong: "xs \<noteq> [] \<Longrightarrow> (\<And>x. x \<in> set xs \<Longrightarrow> f x = g x) \<Longrightarrow> arg_min_list f xs = arg_min_list g xs"
proof (induction f xs rule: arg_min_list.induct)
  case (2 f x y zs)
  then have "arg_min_list f (y # zs) = arg_min_list g (y # zs)" by simp
  moreover have "arg_min_list g (y # zs) \<in> set (y # zs)" by (rule arg_min_list_in) simp
  then have "f (arg_min_list g (y # zs)) = g (arg_min_list g (y # zs))" using 2(3) by auto
  ultimately show ?case using 2(3)[of x] by (simp add: Let_def)
qed auto

lemma victims_agree:
  assumes "policy = ''lru'' \<or> policy = ''min''" and "recency_ok lr r1" and "el \<noteq> []" "set el \<subseteq> set (map fst r1)"
  shows "choose_victim policy sequence index r1 el = cost_victim score policy sequence index rs lr r2 el"
proof (cases "policy = ''min''")
  case True
  then show ?thesis by (simp add: choose_victim_def cost_victim_def)
next
  case False
  then have lru: "policy = ''lru''" using assms(1) by simp
  have "fst (snd (entry_of r1 k)) = get_default lr k 0" if k: "k \<in> set el" for k
  proof -
    obtain v where v: "map_of r1 k = Some v"
      using assms(4) k by (metis map_of_eq_None_iff not_None_eq subsetD list.set_map)
    then have "get_default lr k 0 = fst (snd v)" using assms(2) unfolding recency_ok_def by blast
    with v show ?thesis by (simp add: entry_of_def)
  qed
  then show ?thesis unfolding lru using assms(3) by (auto simp: choose_victim_def cost_victim_def intro!: arg_min_list_cong)
qed

lemma update_id: "map_of al k = Some v \<Longrightarrow> AList.update k v al = al"
  by (induction al) (auto split: if_splits)

lemma recency_update:
  "recency_ok lr al \<Longrightarrow> recency_ok (AList.update k i lr) (AList.update k (b, i, c) al)"
  by (auto simp: recency_ok_def distinct_update update_conv')

lemma step_in_step:
  assumes "sim_step policy capacity (Some active) sequence index e s = Inr s'" and "in_step s t"
    and pol: "policy = ''lru'' \<or> policy = ''min''"
  shows "\<exists>t'. cost_step score sequence active capacity policy index e t = Inr t' \<and> in_step s' t'"
proof -
  have sh: "shape fst (si_resident s) = shape fst (cs_resident t)"
    and rec: "recency_ok (cs_last_request t) (si_resident s)"
    using assms(2) by (auto simp: in_step_def)
  have keys: "map_of (si_resident s) r = None \<longleftrightarrow> map_of (cs_resident t) r = None" for r
  proof -
    have "map_option fst (map_of (si_resident s) r) = map_option fst (map_of (cs_resident t) r)"
      using arg_cong[OF sh, of "\<lambda>m. map_of m r"] by (simp add: shape_map_of)
    then show ?thesis by (cases "map_of (si_resident s) r"; cases "map_of (cs_resident t) r") auto
  qed
  show ?thesis
  proof (cases "map_of (si_resident s) (ev_ref e)")
    case (Some v)
    obtain b l c where v: "v = (b, l, c)" by (cases v)
    have s': "s' = s\<lparr>si_hits := si_hits s + 1,
        si_resident := AList.update (ev_ref e) (b, index, c + 1) (si_resident s)\<rparr>"
      using assms(1) Some v by (simp add: sim_step_def)
    have "map_of (shape fst (si_resident s)) (ev_ref e) = Some b" using Some v by (simp add: shape_map_of)
    then have "shape fst (si_resident s') = shape fst (cs_resident t)"
      using sh by (simp add: s' shape_update update_id)
    then show ?thesis
      using assms(2) recency_update[OF rec, of "ev_ref e" index b "c + 1"] Some keys[of "ev_ref e"]
      by (simp add: cost_step_def Let_def in_step_def s')
  next
    case None
    define lr where "lr = cs_last_request t"
    have none2: "map_of (cs_resident t) (ev_ref e) = None" using None keys by simp
    obtain rest steps where run: "evict_loop fst (active_at (Some active) index) (choose_victim policy sequence index)
        (ev_bytes e) capacity (si_resident s) = Inr (rest, steps)"
      and s': "s' = (let s' = s\<lparr>si_resident := rest, si_evictions := si_evictions s + int (length steps)\<rparr> in
          if used fst rest + ev_bytes e > capacity then s' else sim_admit index e s')"
      using assms(1) None pol by (auto simp: sim_step_def bind_res_Inr_iff Let_def split: if_splits)
    define rs where "rs = AList.update (ev_ref e) (get_default (cs_requests_seen t) (ev_ref e) 0 + 1) (cs_requests_seen t)"
    obtain rest2 where run2: "evict_loop fst (active_at (Some active) index)
        (cost_victim score policy sequence index rs lr) (ev_bytes e) capacity (cs_resident t) = Inr (rest2, steps)"
      and sh2: "shape fst rest = shape fst rest2" and rec2: "recency_ok lr rest"
      using evict_loop_sim[OF run sh, of "recency_ok lr" "cost_victim score policy sequence index rs lr"]
        rec recency_ok_delete victims_agree[OF pol] unfolding lr_def by blast
    have us: "used fst rest2 = used fst rest" by (rule shape_used[OF sh2[symmetric]])
    show ?thesis
    proof (cases "used fst rest + ev_bytes e > capacity")
      case True
      then show ?thesis using assms(2) none2 run2 sh2 rec2 us
        by (simp add: cost_step_def Let_def s' in_step_def rs_def[symmetric] lr_def)
    next
      case False
      then show ?thesis
        using assms(2) none2 run2 sh2 recency_update[OF rec2, of "ev_ref e" index "ev_bytes e" 1] us
        by (simp add: cost_step_def Let_def s' in_step_def rs_def[symmetric] lr_def
            sim_admit_def cost_admit_def shape_update)
    qed
  qed
qed

lemma loop_in_step:
  assumes "sim_loop policy capacity (Some active) sequence index es s = Inr s'" and "in_step s t"
    and "policy = ''lru'' \<or> policy = ''min''"
  shows "\<exists>t'. cost_loop score sequence active capacity policy index es t = Inr t' \<and> in_step s' t'"
  using assms(1,2)
proof (induction es arbitrary: index s t)
  case (Cons e es)
  then obtain s1 where s1: "sim_step policy capacity (Some active) sequence index e s = Inr s1"
    "sim_loop policy capacity (Some active) sequence (Suc index) es s1 = Inr s'" by (auto simp: bind_res_Inr_iff)
  obtain t1 where "cost_step score sequence active capacity policy index e t = Inr t1" "in_step s1 t1"
    using step_in_step[OF s1(1) Cons.prems(2) assms(3)] by blast
  with Cons.IH[OF s1(2)] show ?case by simp
qed simp

lemma replay_reports:
  assumes "simulate sequence capacity policy (Some active) = Inr r"
    and "policy = ''lru'' \<or> policy = ''min''"
  shows "\<exists>q. cost_simulate score sequence active capacity policy = Inr q \<and>
    co_hits q = sr_hits r \<and> co_evictions q = sr_evictions r \<and> co_policy_decisions q = sr_evictions r \<and>
    co_load_bytes q = sr_load_bytes r \<and> co_source_bytes q = sr_load_bytes r \<and>
    co_reload_bytes q = sr_reload_bytes r \<and> co_reload_events q = sr_reload_events r \<and>
    sr_loads r = co_loads q + co_reload_events q \<and> co_unique q = sr_unique r \<and> co_requests q = sr_requests r"
proof -
  obtain s where run: "sim_loop policy capacity (Some active) sequence 0 sequence sim_start = Inr s"
    and r: "sr_requests r = int (length sequence)" "sr_unique r = int (card (ev_ref ` set sequence))"
      "sr_hits r = si_hits s" "sr_loads r = si_loads s" "sr_evictions r = si_evictions s"
      "sr_reload_events r = si_reloads s" "sr_load_bytes r = si_load_bytes s" "sr_reload_bytes r = si_reload_bytes s"
    using assms(1) by (auto simp: simulate_def bind_res_Inr_iff)
  have "in_step sim_start cost_start" by (simp add: in_step_def sim_start_def cost_start_def shape_def recency_ok_def)
  from loop_in_step[OF run this assms(2)] obtain t where
    t: "cost_loop score sequence active capacity policy 0 sequence cost_start = Inr t" "in_step s t" by blast
  then show ?thesis by (simp add: cost_simulate_def r in_step_def)
qed

text \<open>
  C13. The two replays agree: under \<open>lru\<close> and \<open>min\<close>, whenever the replay of POC17 returns a report,
  the one of POC20 returns one too, with the same hits, evictions, loaded and reloaded bytes and
  reload events. Its \<open>loads\<close> counts first loads only, so the loads of POC17 are its loads plus
  reloads, and its decisions are its evictions.
\<close>

theorem replays_agree:
  assumes "simulate sequence capacity policy (Some active) = Inr r"
    and "policy = ''lru'' \<or> policy = ''min''"
  shows "\<exists>q. cost_simulate score sequence active capacity policy = Inr q \<and>
    co_hits q = sr_hits r \<and> co_evictions q = sr_evictions r \<and> co_policy_decisions q = sr_evictions r \<and>
    co_load_bytes q = sr_load_bytes r \<and> co_source_bytes q = sr_load_bytes r \<and>
    co_reload_bytes q = sr_reload_bytes r \<and> co_reload_events q = sr_reload_events r \<and>
    sr_loads r = co_loads q + co_reload_events q \<and> co_unique q = sr_unique r \<and> co_requests q = sr_requests r"
  using assms by (rule replay_reports)

theorem replays_agree_witness:
  "\<exists>r q. simulate (sample_requests [(1, 4), (2, 4), (3, 4), (1, 4)]) 8 ''min'' (Some [{}, {}, {2}, {}]) = Inr r \<and>
     cost_simulate (\<lambda>_ facts _. length facts) (sample_requests [(1, 4), (2, 4), (3, 4), (1, 4)]) [{}, {}, {2}, {}] 8 ''min'' = Inr q \<and>
     sr_loads r = 4 \<and> co_loads q + co_reload_events q = 4 \<and> co_evictions q = 2"
proof -
  let ?q = "sample_requests [(1, 4), (2, 4), (3, 4), (1, 4)]" and ?a = "[{}, {}, {2}, {}] :: int set list"
  have "(case simulate ?q 8 ''min'' (Some ?a) of Inl _ \<Rightarrow> False | Inr r \<Rightarrow> sr_loads r = 4 \<and> sr_evictions r = 2)"
    by code_simp
  then obtain r where r: "simulate ?q 8 ''min'' (Some ?a) = Inr r" "sr_loads r = 4" "sr_evictions r = 2"
    by (auto split: sum.splits)
  from replays_agree[OF r(1), of "\<lambda>_ facts _. length facts"] r(2,3) show ?thesis using r(1) by auto
qed

end
