(* ===== verification/Log_Reader.thy ===== *)
theory Log_Reader
  imports Text Trace
begin

text \<open>
  The text of a residency log: the three patterns \<open>scripts/qualify_residency_policy_poc17.py\<close> and
  \<open>scripts/qualify_deep_stack_poc19.py\<close> search each line for, the conversion of their groups, and the line
  loop of POC 17's \<open>parse_trace\<close> over the text of a file.  The log is written by \<open>print_poc17_trace\<close> of
  \<open>integrations/ggml/tools/multi_layer_poc16.cpp\<close>, whose \<open>printf\<close> formats are the printers below.
\<close>

section \<open>Patterns\<close>

definition IDENTITY :: "pat list" where
  "IDENTITY = [Lit ''poc17_identity ref='', number, Lit '' offset='', number, Lit '' bytes='', number,
     Lit '' class='', word_pat, Lit '' expert='', signed]"

definition EVENT :: "pat list" where
  "EVENT = [Lit ''poc17_event ordinal='', number, Lit '' ref='', number, Lit '' name='', word_pat, Lit '' kind='', word_pat,
     Lit '' before='', number, Lit '' after='', number, Lit '' leases='', number, Lit '' timestamp_ns='', number,
     Lit '' offset='', number, Lit '' bytes='', number, Lit '' class='', word_pat, Lit '' expert='', signed,
     Lit '' source='', word0_pat]"

definition PHASE :: "pat list" where
  "PHASE = [Lit ''poc17_phase name='', word_pat, Lit '' event_begin='', number]"

definition group_int :: "string list \<Rightarrow> nat \<Rightarrow> int res" where
  "group_int values i = parse_int (values ! i)"

definition identity_of :: "string list \<Rightarrow> identity res" where
  "identity_of values =
     bind_res (group_int values 0) (\<lambda>ref. bind_res (group_int values 1) (\<lambda>offset.
     bind_res (group_int values 2) (\<lambda>n. bind_res (group_int values 4) (\<lambda>expert.
     Inr \<lparr>id_ref = ref, id_offset = offset, id_bytes = n, id_class = values ! 3, id_expert = expert, id_name = ''''\<rparr>))))"

definition event_of :: "string list \<Rightarrow> event res" where
  "event_of values =
     bind_res (group_int values 0) (\<lambda>ordinal. bind_res (group_int values 1) (\<lambda>ref.
     bind_res (group_int values 4) (\<lambda>before. bind_res (group_int values 5) (\<lambda>after.
     bind_res (group_int values 6) (\<lambda>leases. bind_res (group_int values 7) (\<lambda>timestamp.
     bind_res (group_int values 8) (\<lambda>offset. bind_res (group_int values 9) (\<lambda>n.
     bind_res (group_int values 11) (\<lambda>expert.
     Inr \<lparr>ev_ordinal = ordinal, ev_ref = ref, ev_name = values ! 2, ev_kind = values ! 3, ev_before = before,
       ev_after = after, ev_leases = leases, ev_timestamp_ns = timestamp, ev_offset = offset, ev_bytes = n,
       ev_class = values ! 10, ev_expert = expert, ev_source = values ! 12\<rparr>)))))))))"

definition phase_of :: "string list \<Rightarrow> (string \<times> int) res" where
  "phase_of values = bind_res (group_int values 1) (\<lambda>n. Inr (values ! 0, n))"

section \<open>The loop of POC 17\<close>

definition read_line :: "string \<Rightarrow> trace_line res" where
  "read_line line = (case search IDENTITY line of
       Some values \<Rightarrow> bind_res (identity_of values) (\<lambda>i.
         Inr (IdentityLine (id_ref i) (id_offset i) (id_bytes i) (id_class i) (id_expert i)))
     | None \<Rightarrow> (case search EVENT line of
         Some values \<Rightarrow> bind_res (event_of values) (\<lambda>e. Inr (EventLine e))
       | None \<Rightarrow> (case search PHASE line of
           Some values \<Rightarrow> bind_res (phase_of values) (\<lambda>(name, n). Inr (PhaseLine name n))
         | None \<Rightarrow> Inr OtherLine)))"

definition parse_trace_text :: "string \<Rightarrow> trace res" where
  "parse_trace_text content = bind_res (map_res read_line (splitlines content)) parse_trace"

section \<open>Printed lines\<close>

definition event_line :: "event \<Rightarrow> string" where
  "event_line e = ''poc17_event ordinal='' @ show_int (ev_ordinal e) @ '' ref='' @ show_int (ev_ref e) @
     '' name='' @ ev_name e @ '' kind='' @ ev_kind e @ '' before='' @ show_int (ev_before e) @ '' after='' @ show_int (ev_after e) @
     '' leases='' @ show_int (ev_leases e) @ '' timestamp_ns='' @ show_int (ev_timestamp_ns e) @
     '' offset='' @ show_int (ev_offset e) @ '' bytes='' @ show_int (ev_bytes e) @ '' class='' @ ev_class e @
     '' expert='' @ show_int (ev_expert e) @ '' source='' @ ev_source e"

definition identity_line :: "identity \<Rightarrow> string" where
  "identity_line i = ''poc17_identity ref='' @ show_int (id_ref i) @ '' offset='' @ show_int (id_offset i) @
     '' bytes='' @ show_int (id_bytes i) @ '' class='' @ id_class i @ '' expert='' @ show_int (id_expert i)"

definition phase_line :: "string \<times> int \<Rightarrow> string" where
  "phase_line p = ''poc17_phase name='' @ fst p @ '' event_begin='' @ show_int (snd p)"

definition a_word :: "string \<Rightarrow> bool" where
  "a_word s \<longleftrightarrow> s \<noteq> [] \<and> list_all non_space s"

definition printable_event :: "event \<Rightarrow> bool" where
  "printable_event e \<longleftrightarrow> 0 \<le> ev_ordinal e \<and> 0 \<le> ev_ref e \<and> a_word (ev_name e) \<and> a_word (ev_kind e) \<and> 0 \<le> ev_before e \<and>
     0 \<le> ev_after e \<and> 0 \<le> ev_leases e \<and> 0 \<le> ev_timestamp_ns e \<and> 0 \<le> ev_offset e \<and> 0 \<le> ev_bytes e \<and> a_word (ev_class e) \<and>
     list_all non_space (ev_source e)"

definition printable_identity :: "identity \<Rightarrow> bool" where
  "printable_identity i \<longleftrightarrow> 0 \<le> id_ref i \<and> 0 \<le> id_offset i \<and> 0 \<le> id_bytes i \<and> a_word (id_class i)"

section \<open>Matching what was printed\<close>

lemma match_number: "0 \<le> n \<Longrightarrow> rest = [] \<or> \<not> is_digit (hd rest) \<Longrightarrow> match_here ps rest = Some gs \<Longrightarrow>
    match_here (number # ps) (show_int n @ rest) = Some (show_int n # gs)"
  unfolding number_def using show_nat_is_digits(2) 
  by (intro match_run) (auto simp: show_int_def show_nat_is_digits Suc_le_eq)

lemma match_word: "a_word w \<Longrightarrow> rest = [] \<or> \<not> non_space (hd rest) \<Longrightarrow> match_here ps rest = Some gs \<Longrightarrow>
    match_here (word_pat # ps) (w @ rest) = Some (w # gs)"
  unfolding word_pat_def by (intro match_run) (auto simp: a_word_def Suc_le_eq)

lemma match_word0: "list_all non_space w \<Longrightarrow> rest = [] \<or> \<not> non_space (hd rest) \<Longrightarrow> match_here ps rest = Some gs \<Longrightarrow>
    match_here (word0_pat # ps) (w @ rest) = Some (w # gs)"
  unfolding word0_pat_def by (intro match_run) auto

lemma match_signed_neg:
  assumes "n < 0" "rest = [] \<or> \<not> is_digit (hd rest)" "match_here ps rest = Some gs"
  shows "match_here (signed # ps) (show_int n @ rest) = Some (show_int n # gs)"
proof -
  let ?d = "show_nat_digits (nat (- n))"
  have "run_prefixes is_digit 1 (?d @ rest) =
      (?d, rest) # map (\<lambda>k. (take k (?d @ rest), drop k (?d @ rest))) (rev [1..<length ?d])"
    using run_first[OF show_nat_is_digits(1) assms(2)] show_nat_is_digits(2) by (simp add: run_prefixes_def Suc_le_eq)
  then show ?thesis using assms(1,3) by (simp add: signed_def show_int_def)
qed

lemma match_signed_pos:
  assumes "0 \<le> n" "rest = [] \<or> \<not> is_digit (hd rest)" "match_here ps rest = Some gs"
  shows "match_here (signed # ps) (show_int n @ rest) = Some (show_int n # gs)"
proof -
  let ?d = "show_nat_digits (nat n)"
  obtain c cs where c: "?d = c # cs" using show_nat_is_digits(2) by (metis list.exhaust)
  then have "c \<noteq> CHR ''-''" using show_nat_is_digits(1)[of "nat n"] minus_not_digit(1) by auto
  moreover have "run_prefixes is_digit 1 (?d @ rest) =
      (?d, rest) # map (\<lambda>k. (take k (?d @ rest), drop k (?d @ rest))) (rev [1..<length ?d])"
    using run_first[OF show_nat_is_digits(1) assms(2)] show_nat_is_digits(2) by (simp add: run_prefixes_def Suc_le_eq)
  ultimately show ?thesis using assms(1,3) c by (simp add: signed_def show_int_def)
qed

lemma match_signed: "rest = [] \<or> \<not> is_digit (hd rest) \<Longrightarrow> match_here ps rest = Some gs \<Longrightarrow>
    match_here (signed # ps) (show_int n @ rest) = Some (show_int n # gs)"
  using match_signed_neg match_signed_pos by (cases "n < 0") auto

lemma space_facts: "\<not> is_digit (CHR '' '')" "\<not> non_space (CHR '' '')"
  by (simp_all add: is_digit_def non_space_def py_space_def)

lemma event_groups:
  assumes "printable_event e"
  shows "search EVENT (event_line e) = Some [show_int (ev_ordinal e), show_int (ev_ref e), ev_name e, ev_kind e,
    show_int (ev_before e), show_int (ev_after e), show_int (ev_leases e), show_int (ev_timestamp_ns e),
    show_int (ev_offset e), show_int (ev_bytes e), ev_class e, show_int (ev_expert e), ev_source e]"
proof (rule search_here)
  note p = assms[unfolded printable_event_def]
  have s: "match_here [word0_pat] (ev_source e) = Some [ev_source e]"
    using match_word0[of "ev_source e" "[]" "[]" "[]"] p by simp
  show "match_here EVENT (event_line e) = Some [show_int (ev_ordinal e), show_int (ev_ref e), ev_name e, ev_kind e,
    show_int (ev_before e), show_int (ev_after e), show_int (ev_leases e), show_int (ev_timestamp_ns e),
    show_int (ev_offset e), show_int (ev_bytes e), ev_class e, show_int (ev_expert e), ev_source e]"
    unfolding EVENT_def event_line_def
    by (intro match_lit match_number match_word match_signed s) (use p in \<open>simp_all add: space_facts\<close>)
qed

lemma strip_prefix_Some: "strip_prefix p s = Some t \<Longrightarrow> s = p @ t"
  by (induction p s rule: strip_prefix.induct) (auto split: if_splits)

lemma search_occurs: "search (Lit l # ps) s \<noteq> None \<Longrightarrow> \<exists>a b. s = a @ l @ b"
proof (induction s)
  case Nil
  then show ?case by (cases "strip_prefix l []") (auto dest: strip_prefix_Some)
next
  case (Cons c s)
  show ?case
  proof (cases "match_here (Lit l # ps) (c # s)")
    case None
    then have "search (Lit l # ps) s \<noteq> None" using Cons.prems by simp
    then obtain a b where "s = a @ l @ b" using Cons.IH by blast
    then have "c # s = (c # a) @ l @ b" by simp
    then show ?thesis by blast
  next
    case (Some gs)
    then obtain t where "strip_prefix l (c # s) = Some t" by (cases "strip_prefix l (c # s)") auto
    then have "c # s = [] @ l @ t" using strip_prefix_Some by fastforce
    then show ?thesis by blast
  qed
qed

lemma split_on_nonempty [simp]: "split_on sep s \<noteq> []"
  by (induction s) (auto split: list.splits)

lemma split_on_append: "split_on sep (s @ sep # t) = split_on sep s @ split_on sep t"
  by (induction s) (auto split: list.splits)

lemma split_on_word: "sep \<notin> set w \<Longrightarrow> split_on sep w = [w]"
  by (induction w) auto

lemma split_on_snoc: "sep \<notin> set u \<Longrightarrow> split_on sep (a @ u) = butlast (split_on sep a) @ [last (split_on sep a) @ u]"
proof (induction a)
  case Nil
  then show ?case by (simp add: split_on_word)
next
  case (Cons c a)
  then show ?case by (cases "split_on sep a") (auto split: list.splits)
qed

lemma split_on_last: "sep \<notin> set u \<Longrightarrow> last (split_on sep (a @ u)) = last (split_on sep a) @ u"
  by (simp add: split_on_snoc)

lemma split_on_hd: "sep \<notin> set v \<Longrightarrow> \<exists>y. hd (split_on sep (v @ b)) = v @ y"
proof (induction v)
  case Nil
  then show ?case by simp
next
  case (Cons c v)
  then obtain y where "hd (split_on sep (v @ b)) = v @ y" by auto
  then show ?case using Cons.prems by (auto split: list.splits)
qed

text \<open>Two words in a row, of which the first ends in \<open>c\<close> and the second starts with \<open>v\<close>.\<close>

fun adjacent :: "char \<Rightarrow> string \<Rightarrow> string list \<Rightarrow> bool" where
  "adjacent c v (x # y # ws) = (x \<noteq> [] \<and> last x = c \<and> take (length v) y = v \<or> adjacent c v (y # ws))"
| "adjacent c v _ = False"

lemma adjacent_append: "W1 \<noteq> [] \<Longrightarrow> W2 \<noteq> [] \<Longrightarrow> last W1 \<noteq> [] \<Longrightarrow> last (last W1) = c \<Longrightarrow>
    take (length v) (hd W2) = v \<Longrightarrow> adjacent c v (W1 @ W2)"
proof (induction W1)
  case (Cons x W1)
  show ?case
  proof (cases W1)
    case Nil
    then show ?thesis using Cons.prems by (cases W2) auto
  next
    case (Cons y W)
    then show ?thesis using Cons.prems Cons.IH by auto
  qed
qed simp

lemma search_none:
  assumes "\<not> adjacent (last u) v (split_on (CHR '' '') s)" "u \<noteq> []" "CHR '' '' \<notin> set u" "CHR '' '' \<notin> set v"
    and "l = u @ CHR '' '' # v"
  shows "search (Lit l # ps) s = None"
proof (rule ccontr)
  assume "search (Lit l # ps) s \<noteq> None"
  then obtain a b where s: "s = a @ u @ CHR '' '' # v @ b" using search_occurs assms(5) by fastforce
  let ?W1 = "split_on (CHR '' '') (a @ u)" and ?W2 = "split_on (CHR '' '') (v @ b)"
  have w: "split_on (CHR '' '') s = ?W1 @ ?W2" using split_on_append[of "CHR '' ''" "a @ u" "v @ b"] s by simp
  have "last ?W1 = last (split_on (CHR '' '') a) @ u" using split_on_last[OF assms(3)] .
  moreover obtain y where "hd ?W2 = v @ y" using split_on_hd[OF assms(4)] by blast
  ultimately have "adjacent (last u) v (?W1 @ ?W2)" using assms(2) by (intro adjacent_append) auto
  then show False using assms(1) w by simp
qed

lemma no_space: "a_word w \<Longrightarrow> CHR '' '' \<notin> set w" "list_all non_space w \<Longrightarrow> CHR '' '' \<notin> set w"
  "CHR '' '' \<notin> set (show_int n)"
  using space_facts show_int_chars[of n] by (auto simp: a_word_def list_all_iff)

lemma last_show_int [simp]: "show_int n \<noteq> []" "last (show_int n) = c \<Longrightarrow> is_digit c"
  using show_nat_is_digits[of "nat n"] show_nat_is_digits[of "nat (- n)"] last_in_set
  by (auto simp: show_int_def list_all_iff split: if_splits)
fun join_words :: "string list \<Rightarrow> string" where
  "join_words [] = []"
| "join_words [w] = w"
| "join_words (w # ws) = w @ CHR '' '' # join_words ws"

lemma split_on_word_then: "CHR '' '' \<notin> set w \<Longrightarrow> split_on (CHR '' '') (w @ CHR '' '' # t) = w # split_on (CHR '' '') t"
  by (simp add: split_on_append split_on_word)

lemma split_join_words: "ws \<noteq> [] \<Longrightarrow> \<forall>w \<in> set ws. CHR '' '' \<notin> set w \<Longrightarrow> split_on (CHR '' '') (join_words ws) = ws"
  by (induction ws rule: join_words.induct) (simp_all add: split_on_word split_on_word_then)

lemma event_words:
  assumes "printable_event e"
  shows "split_on (CHR '' '') (event_line e) = [''poc17_event'', ''ordinal='' @ show_int (ev_ordinal e), ''ref='' @ show_int (ev_ref e),
    ''name='' @ ev_name e, ''kind='' @ ev_kind e, ''before='' @ show_int (ev_before e), ''after='' @ show_int (ev_after e),
    ''leases='' @ show_int (ev_leases e), ''timestamp_ns='' @ show_int (ev_timestamp_ns e), ''offset='' @ show_int (ev_offset e),
    ''bytes='' @ show_int (ev_bytes e), ''class='' @ ev_class e, ''expert='' @ show_int (ev_expert e), ''source='' @ ev_source e]"
    (is "_ = ?ws")
proof -
  have "event_line e = join_words ?ws" by (simp add: event_line_def)
  moreover have "\<forall>w \<in> set ?ws. CHR '' '' \<notin> set w"
    using no_space assms by (simp add: printable_event_def)
  ultimately show ?thesis using split_join_words[of ?ws] by simp
qed

lemma identity_words:
  assumes "printable_identity i"
  shows "split_on (CHR '' '') (identity_line i) = [''poc17_identity'', ''ref='' @ show_int (id_ref i), ''offset='' @ show_int (id_offset i),
    ''bytes='' @ show_int (id_bytes i), ''class='' @ id_class i, ''expert='' @ show_int (id_expert i)]"
    (is "_ = ?ws")
proof -
  have "identity_line i = join_words ?ws" by (simp add: identity_line_def)
  moreover have "\<forall>w \<in> set ?ws. CHR '' '' \<notin> set w"
    using no_space assms by (simp add: printable_identity_def)
  ultimately show ?thesis using split_join_words[of ?ws] by simp
qed

lemma phase_words:
  assumes "a_word (fst p)"
  shows "split_on (CHR '' '') (phase_line p) = [''poc17_phase'', ''name='' @ fst p, ''event_begin='' @ show_int (snd p)]"
    (is "_ = ?ws")
proof -
  have "phase_line p = join_words ?ws" by (simp add: phase_line_def)
  moreover have "\<forall>w \<in> set ?ws. CHR '' '' \<notin> set w" using no_space assms by simp
  ultimately show ?thesis using split_join_words[of ?ws] by simp
qed

lemma digit_ends: "last (show_int n) \<noteq> CHR ''y''" "last (show_int n) \<noteq> CHR ''e''" "last (show_int n) \<noteq> CHR ''t''"
  using last_show_int(2)[of n] by (auto simp: is_digit_def)

lemma no_identity:
  "printable_event e \<Longrightarrow> search IDENTITY (event_line e) = None"
  "a_word (fst p) \<Longrightarrow> search IDENTITY (phase_line p) = None"
  unfolding IDENTITY_def
  by (rule search_none[where u = "''poc17_identity''" and v = "''ref=''"]; simp add: event_words phase_words digit_ends)+

lemma no_event:
  "printable_identity i \<Longrightarrow> search EVENT (identity_line i) = None"
  "a_word (fst p) \<Longrightarrow> search EVENT (phase_line p) = None"
  unfolding EVENT_def
  by (rule search_none[where u = "''poc17_event''" and v = "''ordinal=''"]; simp add: identity_words phase_words digit_ends)+

lemma no_phase:
  "printable_event e \<Longrightarrow> search PHASE (event_line e) = None"
  "printable_identity i \<Longrightarrow> search PHASE (identity_line i) = None"
  unfolding PHASE_def
  by (rule search_none[where u = "''poc17_phase''" and v = "''name=''"]; simp add: event_words identity_words digit_ends)+

lemma event_of_groups: "event_of [show_int (ev_ordinal e), show_int (ev_ref e), ev_name e, ev_kind e,
    show_int (ev_before e), show_int (ev_after e), show_int (ev_leases e), show_int (ev_timestamp_ns e),
    show_int (ev_offset e), show_int (ev_bytes e), ev_class e, show_int (ev_expert e), ev_source e] = Inr e"
  by (simp add: event_of_def group_int_def parse_show_int)

lemma identity_groups:
  assumes "printable_identity i"
  shows "search IDENTITY (identity_line i) =
    Some [show_int (id_ref i), show_int (id_offset i), show_int (id_bytes i), id_class i, show_int (id_expert i)]"
proof (rule search_here)
  note p = assms[unfolded printable_identity_def]
  have s: "match_here [signed] (show_int (id_expert i)) = Some [show_int (id_expert i)]"
    using match_signed[of "[]" "[]" "[]"] by simp
  show "match_here IDENTITY (identity_line i) =
    Some [show_int (id_ref i), show_int (id_offset i), show_int (id_bytes i), id_class i, show_int (id_expert i)]"
    unfolding IDENTITY_def identity_line_def
    by (intro match_lit match_number match_word s) (use p in \<open>simp_all add: space_facts\<close>)
qed

lemma identity_of_groups:
  "identity_of [show_int (id_ref i), show_int (id_offset i), show_int (id_bytes i), id_class i, show_int (id_expert i)]
    = Inr (i\<lparr>id_name := ''''\<rparr>)"
  by (simp add: identity_of_def group_int_def parse_show_int)

lemma phase_groups:
  assumes "a_word (fst p)" "0 \<le> snd p"
  shows "search PHASE (phase_line p) = Some [fst p, show_int (snd p)]"
proof (rule search_here)
  have s: "match_here [number] (show_int (snd p)) = Some [show_int (snd p)]"
    using match_number[of "snd p" "[]" "[]" "[]"] assms by simp
  show "match_here PHASE (phase_line p) = Some [fst p, show_int (snd p)]"
    unfolding PHASE_def phase_line_def
    by (intro match_lit match_word s) (use assms in \<open>simp_all add: space_facts\<close>)
qed

lemma phase_of_groups: "phase_of [fst p, show_int (snd p)] = Inr p"
  by (simp add: phase_of_def group_int_def parse_show_int)

lemma read_printed:
  "printable_event e \<Longrightarrow> read_line (event_line e) = Inr (EventLine e)"
  "printable_identity i \<Longrightarrow> read_line (identity_line i) = Inr (IdentityLine (id_ref i) (id_offset i) (id_bytes i) (id_class i) (id_expert i))"
  "a_word (fst p) \<Longrightarrow> 0 \<le> snd p \<Longrightarrow> read_line (phase_line p) = Inr (PhaseLine (fst p) (snd p))"
  by (simp_all add: read_line_def no_identity no_event event_groups event_of_groups identity_groups
    identity_of_groups phase_groups phase_of_groups case_prod_beta)

section \<open>Lines\<close>

definition one_line :: "string \<Rightarrow> bool" where
  "one_line l \<longleftrightarrow> list_all (\<lambda>c. \<not> line_break c) l"

definition text_of :: "string list \<Rightarrow> string" where
  "text_of ls = concat (map (\<lambda>l. l @ [CHR 0x0A]) ls)"

lemma split_lines_line: "one_line l \<Longrightarrow> split_lines False acc (l @ CHR 0x0A # t) = (rev acc @ l) # split_lines False [] t"
proof (induction l arbitrary: acc)
  case Nil
  then show ?case by (simp add: line_break_def)
next
  case (Cons c l)
  then show ?case by (simp add: one_line_def)
qed

lemma splitlines_text: "list_all one_line ls \<Longrightarrow> splitlines (text_of ls) = ls"
  by (induction ls) (auto simp: splitlines_def text_of_def split_lines_line)

lemma word_no_break: "non_space c \<Longrightarrow> \<not> line_break c" "is_digit c \<or> c = CHR ''-'' \<Longrightarrow> \<not> line_break c"
  by (auto simp: non_space_def py_space_def line_break_def is_digit_def Let_def)

lemma one_line_append [simp]: "one_line (a @ b) \<longleftrightarrow> one_line a \<and> one_line b"
  by (simp add: one_line_def)

lemma one_line_parts: "one_line (show_int n)" "list_all non_space w \<Longrightarrow> one_line w" "a_word w \<Longrightarrow> one_line w"
  using show_int_chars[of n] word_no_break by (auto simp: one_line_def list_all_iff a_word_def)

lemma printed_one_line:
  "printable_event e \<Longrightarrow> one_line (event_line e)" "printable_identity i \<Longrightarrow> one_line (identity_line i)"
  "a_word (fst p) \<Longrightarrow> one_line (phase_line p)"
proof -
  have lit: "one_line ''poc17_event ordinal=''" "one_line '' ref=''" "one_line '' name=''" "one_line '' kind=''" "one_line '' before=''"
    "one_line '' after=''" "one_line '' leases=''" "one_line '' timestamp_ns=''" "one_line '' offset=''" "one_line '' bytes=''"
    "one_line '' class=''" "one_line '' expert=''" "one_line '' source=''" "one_line ''poc17_identity ref=''" "one_line ''poc17_phase name=''"
    "one_line '' event_begin=''"
    by (simp_all add: one_line_def line_break_def)
  show "printable_event e \<Longrightarrow> one_line (event_line e)"
    unfolding event_line_def printable_event_def using lit one_line_parts by (simp only: one_line_append; blast)
  show "printable_identity i \<Longrightarrow> one_line (identity_line i)"
    unfolding identity_line_def printable_identity_def using lit one_line_parts by (simp only: one_line_append; blast)
  show "a_word (fst p) \<Longrightarrow> one_line (phase_line p)"
    unfolding phase_line_def using lit one_line_parts by (simp only: one_line_append; blast)
qed

section \<open>A printed log is read back\<close>

text \<open>
  What the runtime writes: identity, event and phase lines, and any other line.  Nothing is known of the
  other lines but that the prefix of the three formats does not occur in them.
\<close>

datatype log_output =
    Identity_Output identity
  | Event_Output event
  | Phase_Output "string \<times> int"
  | Other_Output string

fun print_line :: "log_output \<Rightarrow> string" where
  "print_line (Identity_Output i) = identity_line i"
| "print_line (Event_Output e) = event_line e"
| "print_line (Phase_Output p) = phase_line p"
| "print_line (Other_Output s) = s"

fun printable_line :: "log_output \<Rightarrow> bool" where
  "printable_line (Identity_Output i) \<longleftrightarrow> printable_identity i"
| "printable_line (Event_Output e) \<longleftrightarrow> printable_event e"
| "printable_line (Phase_Output p) \<longleftrightarrow> a_word (fst p) \<and> 0 \<le> snd p"
| "printable_line (Other_Output s) \<longleftrightarrow> one_line s \<and> \<not> is_infix ''poc17_'' s"

fun logged_line :: "log_output \<Rightarrow> trace_line" where
  "logged_line (Identity_Output i) = IdentityLine (id_ref i) (id_offset i) (id_bytes i) (id_class i) (id_expert i)"
| "logged_line (Event_Output e) = EventLine e"
| "logged_line (Phase_Output p) = PhaseLine (fst p) (snd p)"
| "logged_line (Other_Output s) = OtherLine"

fun identity_of_output :: "log_output \<Rightarrow> identity option" where
  "identity_of_output (Identity_Output i) = Some i"
| "identity_of_output _ = None"

fun event_of_output :: "log_output \<Rightarrow> event option" where
  "event_of_output (Event_Output e) = Some e"
| "event_of_output _ = None"

fun phase_of_output :: "log_output \<Rightarrow> (string \<times> int) option" where
  "phase_of_output (Phase_Output p) = Some p"
| "phase_of_output _ = None"

lemma search_other: "\<not> is_infix ''poc17_'' s \<Longrightarrow> search (Lit (''poc17_'' @ l) # ps) s = None"
proof (rule ccontr)
  assume n: "\<not> is_infix ''poc17_'' s" and "search (Lit (''poc17_'' @ l) # ps) s \<noteq> None"
  then obtain a b where "s = a @ (''poc17_'' @ l) @ b" using search_occurs[of "''poc17_'' @ l" ps s] by blast
  then have "s = a @ ''poc17_'' @ (l @ b)" by simp
  then show False using n is_infix_iff by blast
qed

lemma read_other: "\<not> is_infix ''poc17_'' s \<Longrightarrow> read_line s = Inr OtherLine"
  using search_other[of s "''identity ref=''"] search_other[of s "''event ordinal=''"] search_other[of s "''phase name=''"]
  by (simp add: read_line_def IDENTITY_def EVENT_def PHASE_def)

lemma read_print: "printable_line l \<Longrightarrow> read_line (print_line l) = Inr (logged_line l)"
  by (cases l) (simp_all add: read_printed read_other)

lemma print_one_line: "printable_line l \<Longrightarrow> one_line (print_line l)"
  by (cases l) (simp_all add: printed_one_line)

lemma parse_printed:
  assumes "list_all printable_line ls"
  shows "parse_trace_text (text_of (map print_line ls)) = parse_trace (map logged_line ls)"
proof -
  have "splitlines (text_of (map print_line ls)) = map print_line ls"
    using assms print_one_line by (intro splitlines_text) (auto simp: list_all_iff)
  moreover have "map_res read_line (map print_line ls) = Inr (map logged_line ls)"
    using assms read_print by (induction ls) auto
  ultimately show ?thesis
    by (simp add: parse_trace_text_def)
qed

section \<open>What the table of identities holds\<close>

text \<open>The last identity line of a reference counts, and its name is that of the first event of the reference.\<close>

definition last_identity :: "int \<Rightarrow> log_output list \<Rightarrow> identity option" where
  "last_identity r ls = find (\<lambda>i. id_ref i = r) (rev (List.map_filter identity_of_output ls))"

definition first_name :: "int \<Rightarrow> event list \<Rightarrow> string" where
  "first_name r es = (case find (\<lambda>e. ev_ref e = r) es of None \<Rightarrow> '''' | Some e \<Rightarrow> ev_name e)"

lemma find_append: "find P (xs @ ys) = (case find P xs of None \<Rightarrow> find P ys | Some x \<Rightarrow> Some x)"
  by (induction xs) auto

lemma parse_line_fold: "fold parse_line (map logged_line ls) (ids, es, ps) = (ids', es', ps') \<Longrightarrow>
    es' = es @ List.map_filter event_of_output ls \<and> ps' = ps @ List.map_filter phase_of_output ls \<and>
    (\<forall>r. map_of ids' r = (case last_identity r ls of None \<Rightarrow> map_of ids r | Some i \<Rightarrow> Some (i\<lparr>id_name := ''''\<rparr>)))"
proof (induction ls arbitrary: ids es ps)
  case Nil
  then show ?case by (simp add: List.map_filter_simps last_identity_def)
next
  case (Cons l ls)
  obtain i2 e2 p2 where s: "parse_line (logged_line l) (ids, es, ps) = (i2, e2, p2)"
    by (cases "parse_line (logged_line l) (ids, es, ps)")
  then have "e2 @ List.map_filter event_of_output ls = es @ List.map_filter event_of_output (l # ls) \<and>
      p2 @ List.map_filter phase_of_output ls = ps @ List.map_filter phase_of_output (l # ls)"
    by (cases l) (auto simp: parse_line_def List.map_filter_simps)
  moreover have "(case last_identity r ls of None \<Rightarrow> map_of i2 r | Some i \<Rightarrow> Some (i\<lparr>id_name := ''''\<rparr>)) =
      (case last_identity r (l # ls) of None \<Rightarrow> map_of ids r | Some i \<Rightarrow> Some (i\<lparr>id_name := ''''\<rparr>))" for r
    using s by (cases l) (auto simp: parse_line_def List.map_filter_simps last_identity_def find_append update_conv'
      split: option.splits)
  ultimately show ?case using Cons.IH[of i2 e2 p2] Cons.prems s by simp
qed

lemma name_fold:
  assumes "\<forall>e \<in> set es. ev_name e \<noteq> ''''"
  shows "map_of (fold name_identity es ids) r =
    map_option (\<lambda>i. if id_name i = '''' then i\<lparr>id_name := first_name r es\<rparr> else i) (map_of ids r)"
  using assms
proof (induction es arbitrary: ids)
  case Nil
  show ?case by (cases "map_of ids r") (auto simp: first_name_def)
next
  case (Cons e es)
  have "map_of (name_identity e ids) r = (if ev_ref e = r
      then map_option (\<lambda>i. if id_name i = '''' then i\<lparr>id_name := ev_name e\<rparr> else i) (map_of ids r) else map_of ids r)"
    by (auto simp: name_identity_def update_conv' split: option.splits)
  then show ?case using Cons by (cases "map_of ids r") (auto simp: first_name_def)
qed

text \<open>
  C15. The text layer of the log reader loses nothing: a log of printed identity, event and phase lines, in
  any order and mixed with any other lines that do not contain the prefix \<open>poc17_\<close>, is read back line by
  line through \<open>splitlines\<close>, the three regular expressions and \<open>int\<close>.  It is refused exactly when no event was
  printed; otherwise every event and every phase mark comes back, in order, as it was before printing, and the
  table holds for each reference its last printed identity under the name of its first event.
\<close>

theorem log_text_roundtrip:
  assumes "list_all printable_line ls"
  shows "case parse_trace_text (text_of (map print_line ls)) of
      Inl e \<Rightarrow> e = RuntimeError ''no POC17 events found'' \<and> List.map_filter event_of_output ls = []
    | Inr (ids, es, ps) \<Rightarrow> es \<noteq> [] \<and> es = List.map_filter event_of_output ls \<and> ps = List.map_filter phase_of_output ls \<and>
        (\<forall>r. map_of ids r = map_option (\<lambda>i. i\<lparr>id_name := first_name r es\<rparr>) (last_identity r ls))"
proof -
  obtain ids es ps where f: "fold parse_line (map logged_line ls) ([], [], []) = (ids, es, ps)"
    by (cases "fold parse_line (map logged_line ls) ([], [], [])")
  note p = parse_line_fold[OF f]
  have "\<forall>e \<in> set (List.map_filter event_of_output ls). printable_event e"
    using assms by (induction ls) (auto simp: List.map_filter_simps elim!: event_of_output.elims split: option.splits)
  then have "\<forall>e \<in> set es. ev_name e \<noteq> ''''" using p by (auto simp: printable_event_def a_word_def)
  from name_fold[OF this] have "map_of (fold name_identity es ids) r =
      map_option (\<lambda>i. i\<lparr>id_name := first_name r es\<rparr>) (last_identity r ls)" for r
    using p by (cases "last_identity r ls") simp_all
  then show ?thesis using p f by (simp add: parse_printed[OF assms] parse_trace_def Let_def)
qed

definition sample_output :: "log_output list" where
  "sample_output = [Other_Output ''backend: CPU'', Identity_Output \<lparr>id_ref = 7, id_offset = 64, id_bytes = 128, id_class = ''norm'', id_expert = - 1, id_name = ''''\<rparr>,
     Event_Output \<lparr>ev_ordinal = 0, ev_ref = 7, ev_name = ''blk.0.norm'', ev_kind = ''REQUEST'', ev_before = 0, ev_after = 128, ev_leases = 1,
       ev_timestamp_ns = 90, ev_offset = 64, ev_bytes = 128, ev_class = ''norm'', ev_expert = - 1, ev_source = ''''\<rparr>,
     Other_Output '''', Phase_Output (''cold'', 0)]"

theorem log_text_roundtrip_witness:
  "case parse_trace_text (text_of (map print_line sample_output)) of
      Inl e \<Rightarrow> False
    | Inr (ids, es, ps) \<Rightarrow> map ev_name es = [''blk.0.norm''] \<and> ps = [(''cold'', 0)] \<and> map_option id_name (map_of ids 7) = Some ''blk.0.norm''"
proof -
  have p: "list_all printable_line sample_output" by code_simp
  have v: "map ev_name (List.map_filter event_of_output sample_output) = [''blk.0.norm'']"
    "List.map_filter event_of_output sample_output \<noteq> []" "List.map_filter phase_of_output sample_output = [(''cold'', 0)]"
    "map_option (\<lambda>i. i\<lparr>id_name := first_name 7 (List.map_filter event_of_output sample_output)\<rparr>) (last_identity 7 sample_output) =
       Some \<lparr>id_ref = 7, id_offset = 64, id_bytes = 128, id_class = ''norm'', id_expert = - 1, id_name = ''blk.0.norm''\<rparr>"
    by code_simp+
  show ?thesis using log_text_roundtrip[OF p] v
    by (cases "parse_trace_text (text_of (map print_line sample_output))") auto
qed

end
