(* ===== verification/Reuse.thy ===== *)
theory Reuse
  imports Residency "HOL-Library.List_Lexorder" "HOL-Library.Char_ord"
begin

text \<open>
  The two reports over a replay in \<open>scripts/qualify_residency_policy_poc17.py\<close>: \<open>reuse_report\<close>,
  one row per pair of consecutive requests of a tensor, and \<open>class_report\<close>, the summary per
  semantic class.
\<close>

section \<open>Reuse distances\<close>

record reuse_row =
  rr_ref :: int
  rr_name :: string
  rr_from :: nat
  rr_to :: nat
  rr_distance :: int
  rr_intervening_bytes :: int
  rr_bucket :: string
  rr_bytes :: int
  rr_reload :: bool

text \<open>\<open>positions[event.ref].append(index)\<close>, keys in order of first request.\<close>

fun add_positions :: "nat \<Rightarrow> event list \<Rightarrow> (int \<times> nat list) list \<Rightarrow> (int \<times> nat list) list" where
  "add_positions i [] d = d"
| "add_positions i (e # es) d =
     add_positions (Suc i) es (AList.update (ev_ref e) (get_default d (ev_ref e) [] @ [i]) d)"

definition first_bytes :: "event list \<Rightarrow> int \<Rightarrow> int" where
  "first_bytes sequence r = (case find (\<lambda>e. ev_ref e = r) sequence of None \<Rightarrow> 0 | Some e \<Rightarrow> ev_bytes e)"

definition reuse_bucket :: "int \<Rightarrow> string" where
  "reuse_bucket n =
     (if n \<le> 2 * 1024 ^ 2 then ''<=2MiB'' else if n \<le> 4 * 1024 ^ 2 then ''<=4MiB''
      else if n \<le> 8 * 1024 ^ 2 then ''<=8MiB'' else if n \<le> 16 * 1024 ^ 2 then ''<=16MiB'' else ''>16MiB'')"

text \<open>The set \<open>intervening\<close> is kept as the list of its distinct elements.\<close>

definition reuse_row_of :: "event list \<Rightarrow> nat set \<Rightarrow> int \<Rightarrow> nat \<times> nat \<Rightarrow> reuse_row" where
  "reuse_row_of sequence reload_indices r p = (case p of (previous, current) \<Rightarrow>
     let intervening = remdups (map ev_ref (take (current - Suc previous) (drop (Suc previous) sequence)));
         intervening_bytes = sum_list (map (first_bytes sequence) intervening) in
     \<lparr>rr_ref = r, rr_name = ev_name (sequence ! current), rr_from = previous, rr_to = current,
      rr_distance = int (length intervening), rr_intervening_bytes = intervening_bytes,
      rr_bucket = reuse_bucket intervening_bytes, rr_bytes = ev_bytes (sequence ! current),
      rr_reload = (current \<in> reload_indices)\<rparr>)"

record reuse_summary =
  rs_capacity :: int
  rs_rows :: "reuse_row list"
  rs_reuse_pair_counts :: "(string \<times> int) list"
  rs_reload_pair_counts :: "(string \<times> int) list"
  rs_reload_bytes_by_bucket :: "(string \<times> int) list"

definition bump_key :: "'k \<Rightarrow> int \<Rightarrow> ('k \<times> int) list \<Rightarrow> ('k \<times> int) list" where
  "bump_key k n counter = AList.update k (get_default counter k 0 + n) counter"

definition reuse_report :: "event list \<Rightarrow> event list \<Rightarrow> int \<Rightarrow> nat set \<Rightarrow> reuse_summary" where
  "reuse_report sequence events capacity reload_indices =
     (let rows = concat (map (\<lambda>(r, uses). map (reuse_row_of sequence reload_indices r) (zip uses (tl uses)))
            (add_positions 0 sequence []));
          reloaded = filter rr_reload rows in
      \<lparr>rs_capacity = capacity, rs_rows = rows,
       rs_reuse_pair_counts = fold (\<lambda>row. bump_key (rr_bucket row) 1) rows [],
       rs_reload_pair_counts = fold (\<lambda>row. bump_key (rr_bucket row) 1) reloaded [],
       rs_reload_bytes_by_bucket = fold (\<lambda>row. bump_key (rr_bucket row) (rr_bytes row)) reloaded []\<rparr>)"

section \<open>Per-class summary\<close>

record class_acc =
  ca_unique :: "int set"
  ca_bytes :: int
  ca_requests :: int
  ca_hits :: int
  ca_reloads :: int
  ca_reload_bytes :: int
  ca_reuse :: "int list"

definition class_zero :: class_acc where
  "class_zero = \<lparr>ca_unique = {}, ca_bytes = 0, ca_requests = 0, ca_hits = 0, ca_reloads = 0,
     ca_reload_bytes = 0, ca_reuse = []\<rparr>"

type_synonym class_state = "(string \<times> class_acc) list \<times> int set \<times> (int \<times> nat) list"

definition class_step :: "nat set \<Rightarrow> nat \<Rightarrow> event \<Rightarrow> class_state \<Rightarrow> class_state" where
  "class_step loaded_indices index e st = (case st of (result, seen, previous_by_ref) \<Rightarrow>
     let row = get_default result (ev_class e) class_zero;
         is_new = ev_ref e \<notin> ca_unique row;
         reload = index \<in> loaded_indices \<and> ev_ref e \<in> seen;
         row' = row\<lparr>ca_unique := insert (ev_ref e) (ca_unique row),
                    ca_bytes := ca_bytes row + (if is_new then ev_bytes e else 0),
                    ca_requests := ca_requests row + 1,
                    ca_hits := ca_hits row + (if index \<notin> loaded_indices then 1 else 0),
                    ca_reloads := ca_reloads row + (if reload then 1 else 0),
                    ca_reload_bytes := ca_reload_bytes row + (if reload then ev_bytes e else 0),
                    ca_reuse := ca_reuse row @ (case map_of previous_by_ref (ev_ref e) of
                       None \<Rightarrow> [] | Some p \<Rightarrow> [int index - int p - 1])\<rparr> in
     (AList.update (ev_class e) row' result, insert (ev_ref e) seen,
      AList.update (ev_ref e) index previous_by_ref))"

fun class_loop :: "nat set \<Rightarrow> nat \<Rightarrow> event list \<Rightarrow> class_state \<Rightarrow> class_state" where
  "class_loop loaded i [] st = st"
| "class_loop loaded i (e # es) st = class_loop loaded (Suc i) es (class_step loaded i e st)"

record class_row =
  cr_class :: string
  cr_unique :: int
  cr_bytes :: int
  cr_requests :: int
  cr_hits :: int
  cr_reloads :: int
  cr_reload_bytes :: int
  cr_median_reuse_distance :: int
  cr_max_reuse_distance :: int

definition class_row_of :: "string \<times> class_acc \<Rightarrow> class_row" where
  "class_row_of p = (case p of (k, a) \<Rightarrow>
     \<lparr>cr_class = k, cr_unique = int (card (ca_unique a)), cr_bytes = ca_bytes a, cr_requests = ca_requests a,
      cr_hits = ca_hits a, cr_reloads = ca_reloads a, cr_reload_bytes = ca_reload_bytes a,
      cr_median_reuse_distance = (if ca_reuse a \<noteq> [] then sort (ca_reuse a) ! (length (ca_reuse a) div 2) else 0),
      cr_max_reuse_distance = (if ca_reuse a \<noteq> [] then fold max (tl (ca_reuse a)) (hd (ca_reuse a)) else 0)\<rparr>)"

definition class_report :: "event list \<Rightarrow> sim_report \<Rightarrow> class_row list" where
  "class_report sequence baseline =
     (case class_loop (set (sr_loaded_indices baseline)) 0 sequence ([], {}, []) of
        (result, _, _) \<Rightarrow> map class_row_of (sort_key fst result))"

section \<open>Rows and next uses\<close>

lemma add_positions_get:
  "get_default (add_positions i es d) r [] = get_default d r [] @ map (\<lambda>k. i + k) (filter (\<lambda>k. ev_ref (es ! k) = r) [0..<length es])"
proof (induction es arbitrary: i d)
  case (Cons e es)
  have "filter (\<lambda>k. ev_ref ((e # es) ! k) = r) [0..<length (e # es)] =
      (if ev_ref e = r then [0] else []) @ map Suc (filter (\<lambda>k. ev_ref (es ! k) = r) [0..<length es])"
    by (simp add: upt_conv_Cons map_Suc_upt[symmetric] filter_map comp_def del: upt_Suc)
  then show ?case by (auto simp: Cons.IH comp_def)
qed simp

lemma add_positions_keys:
  "distinct (map fst d) \<Longrightarrow> distinct (map fst (add_positions i es d)) \<and>
     set (map fst (add_positions i es d)) = set (map fst d) \<union> ev_ref ` set es"
  by (induction es arbitrary: i d) (auto simp: distinct_update dom_update)

lemma zip_tl_iff:
  "(a, b) \<in> set (zip xs (tl xs)) \<longleftrightarrow> (\<exists>pre suf. xs = pre @ a # b # suf)"
proof (induction xs)
  case (Cons x xs)
  show ?case
  proof (cases xs)
    case (Cons y ys)
    have "(\<exists>pre suf. x # xs = pre @ a # b # suf) \<longleftrightarrow>
        (a = x \<and> b = y) \<or> (\<exists>pre suf. xs = pre @ a # b # suf)"
      unfolding Cons by (auto simp: Cons_eq_append_conv)
    with Cons.IH Cons show ?thesis by auto
  qed (auto simp: Cons_eq_append_conv)
qed simp

lemma zip_tl_snoc:
  "(a, b) \<in> set (zip (xs @ [y]) (tl (xs @ [y]))) \<longleftrightarrow>
     (a, b) \<in> set (zip xs (tl xs)) \<or> xs \<noteq> [] \<and> a = last xs \<and> b = y"
proof (induction xs)
  case (Cons x xs)
  then show ?case by (cases xs) auto
qed simp

lemma last_filter_upt:
  "filter P [0..<n] \<noteq> [] \<and> last (filter P [0..<n]) = a \<longleftrightarrow> a < n \<and> P a \<and> (\<forall>m. a < m \<longrightarrow> m < n \<longrightarrow> \<not> P m)"
proof (induction n)
  case (Suc n)
  show ?case
  proof (cases "P n")
    case True
    then show ?thesis by (auto simp: less_Suc_eq)
  next
    case False
    then have "filter P [0..<Suc n] = filter P [0..<n]" by simp
    with Suc False show ?thesis by (auto simp: less_Suc_eq)
  qed
qed simp

lemma consecutive_filter_upt:
  "(a, b) \<in> set (zip (filter P [0..<n]) (tl (filter P [0..<n]))) \<longleftrightarrow>
     a < b \<and> b < n \<and> P a \<and> P b \<and> (\<forall>m. a < m \<longrightarrow> m < b \<longrightarrow> \<not> P m)"
proof (induction n)
  case (Suc n)
  show ?case
  proof (cases "P n")
    case True
    then have "filter P [0..<Suc n] = filter P [0..<n] @ [n]" by simp
    then have "(a, b) \<in> set (zip (filter P [0..<Suc n]) (tl (filter P [0..<Suc n]))) \<longleftrightarrow>
        (a, b) \<in> set (zip (filter P [0..<n]) (tl (filter P [0..<n]))) \<or>
        (filter P [0..<n] \<noteq> [] \<and> last (filter P [0..<n]) = a) \<and> b = n"
      using zip_tl_snoc[of a b "filter P [0..<n]" n] by auto
    then show ?thesis unfolding Suc last_filter_upt using True by (auto simp: less_Suc_eq)
  next
    case False
    then show ?thesis using Suc by (auto simp: less_Suc_eq)
  qed
qed simp

lemma positions_of:
  "r \<in> set (map fst (add_positions 0 sequence [])) \<Longrightarrow>
     map_of (add_positions 0 sequence []) r = Some (filter (\<lambda>k. ev_ref (sequence ! k) = r) [0..<length sequence])"
  using add_positions_get[of 0 sequence "[]" r]
  by (cases "map_of (add_positions 0 sequence []) r") (auto simp: map_of_eq_None_iff get_default_def)

lemma reuse_row_of_simps [simp]:
  "rr_from (reuse_row_of s rl r p) = fst p" "rr_to (reuse_row_of s rl r p) = snd p"
  "rr_ref (reuse_row_of s rl r p) = r"
  by (simp_all add: reuse_row_of_def Let_def split_beta)

lemma rows_pairs:
  "(a, b, r) \<in> (\<lambda>w. (rr_from w, rr_to w, rr_ref w)) ` set (rs_rows (reuse_report sequence events capacity reloads)) \<longleftrightarrow>
     a < b \<and> b < length sequence \<and> ev_ref (sequence ! a) = r \<and> ev_ref (sequence ! b) = r \<and>
     (\<forall>m. a < m \<longrightarrow> m < b \<longrightarrow> ev_ref (sequence ! m) \<noteq> r)" (is "?L \<longleftrightarrow> ?R")
proof -
  let ?P = "add_positions 0 sequence []" and ?f = "\<lambda>r. filter (\<lambda>k. ev_ref (sequence ! k) = r) [0..<length sequence]"
  have d: "distinct (map fst ?P)" "set (map fst ?P) = ev_ref ` set sequence"
    using add_positions_keys[of "[]" 0 sequence] by simp_all
  have mem: "(r, uses) \<in> set ?P \<longleftrightarrow> r \<in> ev_ref ` set sequence \<and> uses = ?f r" for r uses
  proof -
    have "(r, uses) \<in> set ?P \<longleftrightarrow> map_of ?P r = Some uses" using d(1) by simp
    also have "\<dots> \<longleftrightarrow> r \<in> set (map fst ?P) \<and> uses = ?f r"
      using positions_of[of r sequence] map_of_eq_None_iff[of ?P r] by (cases "r \<in> set (map fst ?P)") auto
    finally show ?thesis unfolding d(2) .
  qed
  have "?L \<longleftrightarrow> r \<in> ev_ref ` set sequence \<and> (a, b) \<in> set (zip (?f r) (tl (?f r)))"
  proof -
    have "(\<lambda>w. (rr_from w, rr_to w, rr_ref w)) ` set (rs_rows (reuse_report sequence events capacity reloads)) =
        (\<Union>q \<in> set ?P. (\<lambda>p. (fst p, snd p, fst q)) ` set (zip (snd q) (tl (snd q))))"
      by (simp add: reuse_report_def Let_def image_UN image_image split_beta)
    also have "(a, b, r) \<in> \<dots> \<longleftrightarrow> (\<exists>uses. (r, uses) \<in> set ?P \<and> (a, b) \<in> set (zip uses (tl uses)))"
      by (auto simp: image_iff intro!: bexI[of _ "(r, _)"] bexI[of _ "(a, b)"])
    finally show ?thesis unfolding mem by blast
  qed
  also have "\<dots> \<longleftrightarrow> ?R" unfolding consecutive_filter_upt by auto
  finally show ?thesis .
qed

text \<open>
  The reuse table has one row for every pair of consecutive requests of the same tensor and no
  other: position \<open>b\<close> is paired with \<open>a\<close> exactly when \<open>b\<close> is the next use of \<open>a\<close> in the table of
  \<open>next_uses\<close>, and the row names the tensor of both.
\<close>

theorem reuse_rows_next_uses:
  "(a, b, r) \<in> (\<lambda>w. (rr_from w, rr_to w, rr_ref w)) ` set (rs_rows (reuse_report sequence events capacity reloads)) \<longleftrightarrow>
     a < length sequence \<and> next_uses sequence ! a = Some b \<and> ev_ref (sequence ! a) = r"
proof (cases "a < length sequence")
  case True
  have n: "next_uses sequence ! a = next_at (Suc a) (drop (Suc a) sequence) (ev_ref (sequence ! a))"
    using next_uses_from_nth[OF True, of 0] by (simp add: next_uses_def)
  have "next_at (Suc a) (drop (Suc a) sequence) q = Some b \<longleftrightarrow> a < b \<and> b < length sequence \<and>
      ev_ref (sequence ! b) = q \<and> (\<forall>m. a < m \<longrightarrow> m < b \<longrightarrow> ev_ref (sequence ! m) \<noteq> q)" for q
    unfolding next_at_drop by auto
  then show ?thesis unfolding rows_pairs n by auto
qed (auto simp: rows_pairs)

lemma reuse_rows_reload:
  "row \<in> set (rs_rows (reuse_report sequence events capacity reloads)) \<Longrightarrow> rr_reload row \<longleftrightarrow> rr_to row \<in> reloads"
  by (auto simp: reuse_report_def reuse_row_of_def Let_def)

section \<open>Class totals\<close>

definition class_total :: "(class_acc \<Rightarrow> int) \<Rightarrow> class_state \<Rightarrow> int" where
  "class_total f st = used f (fst st)"

lemma class_step_totals:
  "class_total ca_requests (class_step loaded i e st) = class_total ca_requests st + 1"
  "class_total ca_hits (class_step loaded i e st) = class_total ca_hits st + (if i \<notin> loaded then 1 else 0)"
  by (cases st; simp add: class_total_def class_step_def Let_def used_update[where z = class_zero] class_zero_def)+

lemma class_loop_totals:
  "class_total ca_requests (class_loop loaded i es st) = class_total ca_requests st + int (length es) \<and>
   class_total ca_hits (class_loop loaded i es st) =
     class_total ca_hits st + int (length (filter (\<lambda>k. k \<notin> loaded) [i..<i + length es]))"
proof (induction es arbitrary: i st)
  case (Cons e es)
  have "[i..<i + length (e # es)] = i # [Suc i..<Suc i + length es]"
    using upt_conv_Cons[of i "i + length (e # es)"] by simp
  then show ?case using Cons.IH[of "Suc i" "class_step loaded i e st"]
    by (simp add: class_step_totals del: upt_Suc)
qed simp

lemma class_report_total:
  assumes "\<And>p. f (class_row_of p) = g (snd p)"
  shows "sum_list (map f (class_report sequence b)) =
    class_total g (class_loop (set (sr_loaded_indices b)) 0 sequence ([], {}, []))"
proof -
  have "mset (map (\<lambda>p. g (snd p)) (sort_key fst result)) = mset (map (\<lambda>p. g (snd p)) result)" for result :: "(string \<times> class_acc) list"
    by simp
  then have "sum_list (map (\<lambda>p. g (snd p)) (sort_key fst result)) = sum_list (map (\<lambda>p. g (snd p)) result)"
    for result :: "(string \<times> class_acc) list" by (metis sum_mset_sum_list)
  then show ?thesis
    by (simp add: class_report_def class_total_def used_def comp_def assms split: prod.splits)
qed

lemma filter_not_in_length:
  "set ks \<subseteq> {..<n} \<Longrightarrow> distinct ks \<Longrightarrow> length (filter (\<lambda>k. k \<notin> set ks) [0..<n]) + length ks = n"
proof -
  assume s: "set ks \<subseteq> {..<n}" and d: "distinct ks"
  have "length (filter (\<lambda>k. k \<in> set ks) [0..<n]) = card (set (filter (\<lambda>k. k \<in> set ks) [0..<n]))"
    by (rule distinct_card[symmetric]) simp
  also have "set (filter (\<lambda>k. k \<in> set ks) [0..<n]) = set ks" using s by auto
  also have "card (set ks) = length ks" using d by (rule distinct_card)
  finally show ?thesis using sum_length_filter_compl[of "\<lambda>k. k \<in> set ks" "[0..<n]"] by simp
qed

text \<open>
  The class table accounts for every request, but its hits are not the replay's hits: summed
  over the classes they are the requests that loaded nothing. Whenever a request was bypassed,
  because its tensor did not fit beside the leased ones, the table counts that miss as a hit.
\<close>

theorem class_report_totals:
  assumes "simulate sequence capacity policy active = Inr r"
    and "list_all (\<lambda>e. 0 \<le> ev_bytes e) sequence" and "policy \<noteq> ''admission-repeated''"
  shows "(\<Sum>row\<leftarrow>class_report sequence r. cr_requests row) = sr_requests r \<and>
    (\<Sum>row\<leftarrow>class_report sequence r. cr_hits row) = sr_requests r - sr_loads r \<and>
    sr_hits r \<le> (\<Sum>row\<leftarrow>class_report sequence r. cr_hits row)"
proof -
  note acc = simulate_loaded[OF assms]
  have req: "(\<Sum>row\<leftarrow>class_report sequence r. cr_requests row) = int (length sequence)"
    "(\<Sum>row\<leftarrow>class_report sequence r. cr_hits row) =
       int (length (filter (\<lambda>k. k \<notin> set (sr_loaded_indices r)) [0..<length sequence]))"
    using class_report_total[of cr_requests ca_requests] class_report_total[of cr_hits ca_hits]
      class_loop_totals[of "set (sr_loaded_indices r)" 0 sequence "([], {}, [])"]
    by (simp_all add: class_row_of_def split_beta class_total_def)
  have "length (filter (\<lambda>k. k \<notin> set (sr_loaded_indices r)) [0..<length sequence]) + length (sr_loaded_indices r) = length sequence"
    using acc by (intro filter_not_in_length) (auto simp: strict_sorted_iff)
  moreover have "sr_requests r = int (length sequence)" using assms(1) by (auto simp: simulate_def bind_res_Inr_iff)
  ultimately show ?thesis using req acc by auto
qed

text \<open>
  The miss counted as a hit: one request of eight bytes against a capacity of four. The replay has
  no hit and no load; the class table reports one hit.
\<close>

theorem class_report_counts_bypass_as_hit:
  "\<exists>r. simulate (sample_requests [(1, 8)]) 4 ''lru'' None = Inr r \<and> sr_hits r = 0 \<and> sr_loads r = 0 \<and>
     map cr_hits (class_report (sample_requests [(1, 8)]) r) = [1]"
proof -
  have "(case simulate (sample_requests [(1, 8)]) 4 ''lru'' None of Inl _ \<Rightarrow> False
     | Inr r \<Rightarrow> sr_hits r = 0 \<and> sr_loads r = 0 \<and> map cr_hits (class_report (sample_requests [(1, 8)]) r) = [1])"
    by code_simp
  then show ?thesis by (auto split: sum.splits)
qed

theorem class_report_totals_witness:
  "\<exists>r. simulate (sample_requests [(1, 4), (1, 4), (2, 8)]) 4 ''lru'' None = Inr r \<and> sr_hits r = 1 \<and>
     (\<Sum>row\<leftarrow>class_report (sample_requests [(1, 4), (1, 4), (2, 8)]) r. cr_hits row) = 2"
proof -
  let ?q = "sample_requests [(1, 4), (1, 4), (2, 8)]"
  have "(case simulate ?q 4 ''lru'' None of Inl _ \<Rightarrow> False | Inr r \<Rightarrow> sr_hits r = 1 \<and> sr_loads r = 1 \<and> sr_requests r = 3)"
    by code_simp
  then obtain r where r: "simulate ?q 4 ''lru'' None = Inr r" "sr_hits r = 1" "sr_loads r = 1" "sr_requests r = 3"
    by (auto split: sum.splits)
  have "list_all (\<lambda>e. 0 \<le> ev_bytes e) ?q" by (simp add: sample_requests_def sample_event_def)
  from class_report_totals[OF r(1) this] r show ?thesis by auto
qed

end
