(* ===== verification/Deep_Stack.thy ===== *)
theory Deep_Stack
  imports Log_Reader Reuse Json
begin

text \<open>
  The POC 19 analysis, \<open>scripts/qualify_deep_stack_poc19.py\<close>: \<open>parse_log\<close> with its run summary,
  \<open>phase_events\<close>, the reuse distances (\<open>reuse_rows\<close>), what the residency store keeps from one token to the
  next (\<open>retention\<close>), and the capacity reports of \<open>main\<close>.  The patterns for identity, event and phase lines
  are those of POC 17 (\<open>Log_Reader\<close>); here every line is searched for all three.

  A float is kept as the decimal it was read from or the quotient it is computed as (\<open>JDec\<close>, \<open>JQuot\<close>);
  the knee of the capacity curve compares exact quotients.  A set is traversed in increasing order,
  which no result depends on.  Missing identities count 0 bytes, as in the code.
\<close>

section \<open>Reading a log\<close>

definition float_char :: "char \<Rightarrow> bool" where
  "float_char c \<longleftrightarrow> is_digit c \<or> c \<in> set ''eE+.-''"

definition float_pat :: pat where "float_pat = Grp [Run float_char 1]"
definition line_rest :: pat where "line_rest = Skip not_newline"

definition SUMMARY :: "pat list" where
  "SUMMARY = [Lit ''configured_residency_capacity_bytes='', number, line_rest, Lit [CHR 0x0A],
     Lit ''total_logical_persistent_bytes='', number, Lit '' peak_active_persistent_bytes='', number,
     Lit '' peak_active_fraction='', float_pat, Lit '' logical_to_active_ratio='', float_pat, line_rest, Lit [CHR 0x0A],
     line_rest, Lit [CHR 0x0A],
     line_rest, Lit ''residency_unique_loaded='', number, Lit '' residency_load_events='', number, Lit '' residency_hits='', number,
     Lit '' residency_misses='', number, Lit '' residency_evictions='', number, Lit '' residency_reload_events='', number,
     Lit '' residency_unique_reloaded='', number, Lit '' residency_reload_bytes='', number, Lit '' reload_fraction='', float_pat,
     Lit '' total_source_reads='', number, Lit '' total_source_bytes='', number, Lit '' peak_resident_bytes='', number,
     Lit '' average_resident_bytes='', number, Lit '' current_resident_bytes='', number]"

text \<open>\<open>float\<close> of a decimal literal, as mantissa and decimal exponent.\<close>

definition take_sign :: "string \<Rightarrow> int \<times> string" where
  "take_sign s = (case s of [] \<Rightarrow> (1, []) | c # cs \<Rightarrow>
     if c = CHR ''-'' then (- 1, cs) else if c = CHR ''+'' then (1, cs) else (1, s))"

definition exponent_of :: "string \<Rightarrow> int option" where
  "exponent_of s = (case s of [] \<Rightarrow> Some 0 | c # cs \<Rightarrow>
     if c = CHR ''e'' \<or> c = CHR ''E'' then
       (case take_sign cs of (sg, ds) \<Rightarrow> if ds \<noteq> [] \<and> list_all is_digit ds then map_option ((*) sg) (digits 0 False ds) else None)
     else None)"

definition parse_float :: "string \<Rightarrow> json res" where
  "parse_float s = (case take_sign s of (sg, r) \<Rightarrow>
     let whole = takeWhile is_digit r; r1 = dropWhile is_digit r;
         frac = (case r1 of [] \<Rightarrow> [] | c # cs \<Rightarrow> if c = CHR ''.'' then takeWhile is_digit cs else []);
         r2 = (case r1 of [] \<Rightarrow> [] | c # cs \<Rightarrow> if c = CHR ''.'' then dropWhile is_digit cs else r1) in
     case (if whole @ frac = [] then None else exponent_of r2, digits 0 False (whole @ frac)) of
       (Some ex, Some m) \<Rightarrow> (let e = int (length frac) - ex in
          Inr (if 0 \<le> e then JDec (sg * m) (nat e) else JDec (sg * m * 10 ^ nat (- e)) 0))
     | _ \<Rightarrow> Inl (ValueError ''could not convert string to float''))"

record run_summary =
  su_capacity :: int
  su_logical_bytes :: int
  su_peak_active_bytes :: int
  su_peak_active_fraction :: json
  su_logical_active_ratio :: json
  su_unique_loaded :: int
  su_load_events :: int
  su_hits :: int
  su_misses :: int
  su_evictions :: int
  su_reload_events :: int
  su_unique_reloaded :: int
  su_reload_bytes :: int
  su_reload_fraction :: json
  su_source_reads :: int
  su_source_bytes :: int
  su_peak_resident :: int
  su_average_resident :: int
  su_current_resident :: int

definition summary_of :: "string list \<Rightarrow> run_summary res" where
  "summary_of v =
     bind_res (group_int v 0) (\<lambda>capacity. bind_res (group_int v 1) (\<lambda>logical_bytes. bind_res (group_int v 2) (\<lambda>peak_active_bytes.
     bind_res (parse_float (v ! 3)) (\<lambda>peak_active_fraction. bind_res (parse_float (v ! 4)) (\<lambda>logical_active_ratio.
     bind_res (map_res (group_int v) [5..<13]) (\<lambda>n. bind_res (parse_float (v ! 13)) (\<lambda>reload_fraction.
     bind_res (map_res (group_int v) [14..<19]) (\<lambda>m.
     Inr \<lparr>su_capacity = capacity, su_logical_bytes = logical_bytes, su_peak_active_bytes = peak_active_bytes,
       su_peak_active_fraction = peak_active_fraction, su_logical_active_ratio = logical_active_ratio,
       su_unique_loaded = n ! 0, su_load_events = n ! 1, su_hits = n ! 2, su_misses = n ! 3, su_evictions = n ! 4,
       su_reload_events = n ! 5, su_unique_reloaded = n ! 6, su_reload_bytes = n ! 7, su_reload_fraction = reload_fraction,
       su_source_reads = m ! 0, su_source_bytes = m ! 1, su_peak_resident = m ! 2, su_average_resident = m ! 3,
       su_current_resident = m ! 4\<rparr>))))))))"

type_synonym identities = "(int \<times> identity) list"
type_synonym phases = "(string \<times> int) list"
type_synonym log = "identities \<times> event list \<times> phases"

definition log_line :: "log \<Rightarrow> string \<Rightarrow> log res" where
  "log_line l line = (case l of (identities, events, phases) \<Rightarrow>
     bind_res (case search IDENTITY line of None \<Rightarrow> Inr identities
       | Some v \<Rightarrow> bind_res (identity_of v) (\<lambda>i. Inr (AList.update (id_ref i) i identities))) (\<lambda>identities'.
     bind_res (case search EVENT line of None \<Rightarrow> Inr events
       | Some v \<Rightarrow> bind_res (event_of v) (\<lambda>e. Inr (events @ [e]))) (\<lambda>events'.
     bind_res (case search PHASE line of None \<Rightarrow> Inr phases
       | Some v \<Rightarrow> bind_res (phase_of v) (\<lambda>(name, n). Inr (AList.update name n phases))) (\<lambda>phases'.
     Inr (identities', events', phases')))))"

fun join_lines :: "string list \<Rightarrow> string" where
  "join_lines [] = []"
| "join_lines [l] = l"
| "join_lines (l # ls) = l @ CHR 0x0A # join_lines ls"

definition parse_log :: "string \<Rightarrow> (log \<times> run_summary) res" where
  "parse_log content = (let lines = splitlines content in
     bind_res (fold_res log_line ([], [], []) lines) (\<lambda>l.
     case search SUMMARY (join_lines lines) of
       None \<Rightarrow> Inl (RuntimeError ''incomplete POC19 log'')
     | Some v \<Rightarrow> if fst (snd l) = [] then Inl (RuntimeError ''incomplete POC19 log'')
         else bind_res (summary_of v) (\<lambda>s. Inr (l, s))))"

section \<open>Phases\<close>

definition phase_events :: "event list \<Rightarrow> phases \<Rightarrow> string \<Rightarrow> event list res" where
  "phase_events events phases name = bind_res (lookup_res phases name) (\<lambda>start.
     let later = filter (\<lambda>v. v > start) (map snd phases);
         stop = (if later \<noteq> [] then Min (set later) else int (length events)) in
     Inr (filter (\<lambda>e. start \<le> ev_ordinal e \<and> ev_ordinal e < stop) events))"

definition block :: "int \<Rightarrow> int" where
  "block ref = (if ref \<ge> 100000 then ref div 100000 else ref div 10000)"

section \<open>Reuse distances\<close>

record distance_row =
  dr_ref :: int
  dr_block :: int
  dr_class :: string
  dr_first_use_block :: int
  dr_request_distance :: int
  dr_intervening_unique_identities :: int
  dr_intervening_bytes :: int
  dr_tensor_bytes :: int
  dr_bucket :: string

definition distance_bucket :: "int \<Rightarrow> string" where
  "distance_bucket n = (case find (\<lambda>(limit, label). n \<le> limit * 1024 * 1024)
       [(8, ''<=8MiB''), (32, ''<=32MiB''), (64, ''<=64MiB''), (128, ''<=128MiB''), (256, ''<=256MiB'')] of
     Some (limit, label) \<Rightarrow> label | None \<Rightarrow> ''>256MiB'')"

definition distance_row_of :: "event list \<Rightarrow> int \<Rightarrow> nat \<times> nat \<Rightarrow> distance_row" where
  "distance_row_of sequence ref p = (case p of (previous, current) \<Rightarrow>
     let intervening = remdups (map ev_ref (take (current - Suc previous) (drop (Suc previous) sequence)));
         intervening_bytes = sum_list (map (first_bytes sequence) intervening) in
     \<lparr>dr_ref = ref, dr_block = block ref, dr_class = ev_class (sequence ! current), dr_first_use_block = block ref,
      dr_request_distance = int current - int previous, dr_intervening_unique_identities = int (length intervening),
      dr_intervening_bytes = intervening_bytes, dr_tensor_bytes = ev_bytes (sequence ! current),
      dr_bucket = distance_bucket intervening_bytes\<rparr>)"

definition reuse_rows :: "event list \<Rightarrow> distance_row list" where
  "reuse_rows sequence = concat (map (\<lambda>(ref, uses). map (distance_row_of sequence ref) (zip uses (tl uses)))
     (add_positions 0 sequence []))"

section \<open>Retention from token to token\<close>

definition bytes_of :: "identities \<Rightarrow> int \<Rightarrow> int" where
  "bytes_of identities ref = (case map_of identities ref of None \<Rightarrow> 0 | Some i \<Rightarrow> id_bytes i)"

definition class_of :: "identities \<Rightarrow> string \<Rightarrow> int \<Rightarrow> string" where
  "class_of identities missing ref = (case map_of identities ref of None \<Rightarrow> missing | Some i \<Rightarrow> id_class i)"

definition byte_total :: "identities \<Rightarrow> int set \<Rightarrow> int" where
  "byte_total identities refs = sum_list (map (bytes_of identities) (sorted_list_of_set refs))"

definition refs_used :: "event list \<Rightarrow> int set" where
  "refs_used events = ev_ref ` set (filter (\<lambda>e. ev_kind e = ''REQUEST'') events)"

definition resident_step :: "event \<Rightarrow> int set \<Rightarrow> int set" where
  "resident_step e resident =
     (if ev_kind e \<in> {''INSERT'', ''LEASE_ACQUIRE''} then insert (ev_ref e) resident
      else if ev_kind e = ''EVICT'' then resident - {ev_ref e} else resident)"

definition resident_at :: "int \<Rightarrow> event list \<Rightarrow> int set" where
  "resident_at boundary events = fold resident_step (takeWhile (\<lambda>e. ev_ordinal e < boundary) events) {}"

record retention_row =
  rt_ref :: int
  rt_block :: int
  rt_class :: string
  rt_bytes :: int
  rt_retained :: bool
  rt_reloaded :: bool

record block_row =
  br_token0_bytes :: int
  br_reused_bytes :: int
  br_retained_bytes :: int
  br_reloaded_bytes :: int

definition no_bytes :: block_row where
  "no_bytes = \<lparr>br_token0_bytes = 0, br_reused_bytes = 0, br_retained_bytes = 0, br_reloaded_bytes = 0\<rparr>"

record retention_summary =
  re_reusable_bytes :: int
  re_retained_bytes :: int
  re_token0_only_bytes :: int
  re_token1_only_bytes :: int
  re_routed_expert_bytes :: int

definition block_step :: "identities \<Rightarrow> int set \<Rightarrow> int set \<Rightarrow> int set \<Rightarrow> int \<Rightarrow> (int \<times> block_row) list \<Rightarrow> (int \<times> block_row) list" where
  "block_step identities reusable resident reloaded ref by_block = (let n = bytes_of identities ref;
     row = get_default by_block (block ref) no_bytes;
     row1 = row\<lparr>br_token0_bytes := br_token0_bytes row + n\<rparr>;
     row2 = (if ref \<in> reusable then
         row1\<lparr>br_reused_bytes := br_reused_bytes row1 + n,
              br_retained_bytes := br_retained_bytes row1 + (if ref \<in> resident then n else 0),
              br_reloaded_bytes := br_reloaded_bytes row1 + (if ref \<in> reloaded then n else 0)\<rparr> else row1) in
     AList.update (block ref) row2 by_block)"

definition retention_rate :: "int \<Rightarrow> int \<Rightarrow> json" where
  "retention_rate retained reused = (if reused \<noteq> 0 then JQuot retained reused else JDec 0 1)"

definition routed :: "string \<Rightarrow> bool" where
  "routed cls \<longleftrightarrow> starts_with ''routed_expert'' cls"

definition retention ::
  "identities \<Rightarrow> event list \<Rightarrow> phases \<Rightarrow> (retention_row list \<times> (int \<times> block_row \<times> json) list \<times> retention_summary) res" where
  "retention identities events phases =
     bind_res (phase_events events phases ''warm1_token0'') (\<lambda>token0.
     bind_res (phase_events events phases ''warm1_token1'') (\<lambda>token1.
     bind_res (lookup_res phases ''warm1_token1'') (\<lambda>boundary.
     let used0 = refs_used token0; used1 = refs_used token1; reusable = used0 \<inter> used1;
         resident = resident_at boundary events;
         reloaded = ev_ref ` set (filter (\<lambda>e. ev_kind e = ''MATERIALIZE'') token1);
         rows = map (\<lambda>ref. \<lparr>rt_ref = ref, rt_block = block ref, rt_class = class_of identities ''unknown'' ref,
             rt_bytes = bytes_of identities ref, rt_retained = (ref \<in> resident), rt_reloaded = (ref \<in> reloaded)\<rparr>)
           (sorted_list_of_set reusable);
         by_block = fold (block_step identities reusable resident reloaded) (sorted_list_of_set used0) [] in
     Inr (rows,
       map (\<lambda>(b, row). (b, row, retention_rate (br_retained_bytes row) (br_reused_bytes row))) (sort_key fst by_block),
       \<lparr>re_reusable_bytes = byte_total identities reusable,
        re_retained_bytes = byte_total identities (reusable \<inter> resident),
        re_token0_only_bytes = byte_total identities (used0 - used1),
        re_token1_only_bytes = byte_total identities (used1 - used0),
        re_routed_expert_bytes = byte_total identities (Set.filter (\<lambda>ref. routed (class_of identities '''' ref)) reusable)\<rparr>))))"

section \<open>The capacity reports\<close>

record capacity_report = run_summary +
  cr_configured_mib :: int
  cr_unused_capacity :: int
  cr_utilization_percent :: json
  cr_source_bytes_avoided :: int
  cr_reload_bytes_avoided :: int
  cr_source_reduction_percent :: json
  cr_reload_reduction_percent :: json

definition first_report :: "int \<Rightarrow> run_summary \<Rightarrow> capacity_report res" where
  "first_report mib s =
     bind_res (require (su_capacity s \<noteq> 0) ZeroDivisionError) (\<lambda>_.
     Inr (run_summary.extend s (capacity_report.fields mib (su_capacity s - su_peak_resident s)
       (JQuot (100 * su_peak_resident s) (su_capacity s)) 0 0 (JDec 0 1) (JDec 0 1))))"

definition against_baseline :: "capacity_report \<Rightarrow> capacity_report \<Rightarrow> capacity_report res" where
  "against_baseline baseline r = (let source = su_source_bytes baseline - su_source_bytes r;
       reload = su_reload_bytes baseline - su_reload_bytes r in
     bind_res (require (su_source_bytes baseline \<noteq> 0) ZeroDivisionError) (\<lambda>_.
     Inr (r\<lparr>cr_source_bytes_avoided := source, cr_reload_bytes_avoided := reload,
       cr_source_reduction_percent := JQuot (100 * source) (su_source_bytes baseline),
       cr_reload_reduction_percent := (if su_reload_bytes baseline \<noteq> 0 then JQuot (100 * reload) (su_reload_bytes baseline)
         else JDec 0 1)\<rparr>)))"

definition quotient_ge :: "int \<Rightarrow> json \<Rightarrow> bool" where
  "quotient_ge n q = (case q of JQuot a b \<Rightarrow> if 0 < b then a \<ge> n * b else a \<le> n * b | JDec m e \<Rightarrow> m \<ge> n * 10 ^ e | _ \<Rightarrow> False)"

definition capacity_knee :: "capacity_report list \<Rightarrow> int option" where
  "capacity_knee reports = map_option su_capacity
     (find (\<lambda>r. quotient_ge 25 (cr_source_reduction_percent r) \<or> quotient_ge 25 (cr_reload_reduction_percent r)) (tl reports))"

record poc19_result =
  pr_reports :: "capacity_report list"
  pr_reuse :: "retention_row list"
  pr_layer :: "(int \<times> block_row \<times> json) list"
  pr_retention_by_capacity :: "(int \<times> retention_summary \<times> json) list"
  pr_layers_by_capacity :: "(int \<times> (int \<times> block_row \<times> json) list) list"
  pr_distances :: "distance_row list"
  pr_bucket_counts :: "(string \<times> int) list"
  pr_knee :: "int option"
  pr_summary :: retention_summary
  pr_always_required_bytes :: int
  pr_routed_expert_bytes :: int

definition capacity_row ::
  "int \<times> log \<Rightarrow> ((int \<times> retention_summary \<times> json) \<times> (int \<times> (int \<times> block_row \<times> json) list)) res" where
  "capacity_row run = (case run of (mib, identities, events, phases) \<Rightarrow>
     bind_res (retention identities events phases) (\<lambda>(reuse, layer, s).
     Inr ((mib, s, retention_rate (re_retained_bytes s) (re_reusable_bytes s)), (mib, layer))))"

definition poc19_main :: "(int \<times> string) list \<Rightarrow> poc19_result res" where
  "poc19_main logs =
     bind_res (map_res (\<lambda>(mib, content). bind_res (parse_log content) (\<lambda>(l, s).
       bind_res (first_report mib s) (\<lambda>r. Inr ((mib, l), r)))) logs) (\<lambda>parsed.
     bind_res (if parsed = [] then Inl IndexError else Inr (hd parsed)) (\<lambda>first.
     bind_res (map_res (against_baseline (snd first)) (map snd parsed)) (\<lambda>reports.
     case snd (fst first) of (identities, events, phases) \<Rightarrow>
     bind_res (phase_events events phases ''warm1_token0'') (\<lambda>token0.
     bind_res (phase_events events phases ''warm1_token1'') (\<lambda>token1.
     bind_res (retention identities events phases) (\<lambda>(reuse, layer, s).
     bind_res (map_res capacity_row (map fst parsed)) (\<lambda>rows.
     let distances = reuse_rows (requests (token0 @ token1)) in
     Inr \<lparr>pr_reports = reports, pr_reuse = reuse, pr_layer = layer, pr_retention_by_capacity = map fst rows,
       pr_layers_by_capacity = map snd rows, pr_distances = distances,
       pr_bucket_counts = fold (\<lambda>row. bump_key (dr_bucket row) 1) distances [],
       pr_knee = capacity_knee reports, pr_summary = s,
       pr_always_required_bytes = (\<Sum>row\<leftarrow>filter (\<lambda>row. rt_class row \<notin> {''routed_expert_gate'', ''routed_expert_up'', ''routed_expert_down''}) reuse. rt_bytes row),
       pr_routed_expert_bytes = (\<Sum>row\<leftarrow>filter (\<lambda>row. routed (rt_class row)) reuse. rt_bytes row)\<rparr>)))))))"

section \<open>What the tables add up to\<close>

lemma byte_total_sum: "finite A \<Longrightarrow> byte_total ids A = sum (bytes_of ids) A"
  by (simp add: byte_total_def sum_list_distinct_conv_sum_set)

lemma finite_refs [simp]: "finite (refs_used es)"
  by (simp add: refs_used_def)

definition block_sum :: "(block_row \<Rightarrow> int) \<Rightarrow> (int \<times> block_row) list \<Rightarrow> int" where
  "block_sum f d = sum_list (map (f \<circ> snd) d)"

lemma block_sum_update: "distinct (map fst d) \<Longrightarrow>
    block_sum f (AList.update k v d) = block_sum f d + f v - (case map_of d k of None \<Rightarrow> 0 | Some w \<Rightarrow> f w)"
proof (induction d)
  case (Cons kv d)
  have "fst kv \<notin> fst ` set d" using Cons.prems by simp
  then have "fst kv = k \<Longrightarrow> map_of d k = None" by (metis map_of_eq_None_iff)
  then show ?case using Cons by (cases kv) (auto simp: block_sum_def)
qed (simp add: block_sum_def)

lemma block_step_sum:
  assumes "distinct (map fst d)"
  shows "block_sum br_token0_bytes (block_step ids reusable resident reloaded r d) = block_sum br_token0_bytes d + bytes_of ids r"
    "block_sum br_reused_bytes (block_step ids reusable resident reloaded r d) = block_sum br_reused_bytes d + (if r \<in> reusable then bytes_of ids r else 0)"
    "block_sum br_retained_bytes (block_step ids reusable resident reloaded r d) =
       block_sum br_retained_bytes d + (if r \<in> reusable \<and> r \<in> resident then bytes_of ids r else 0)"
    "block_sum br_reloaded_bytes (block_step ids reusable resident reloaded r d) =
       block_sum br_reloaded_bytes d + (if r \<in> reusable \<and> r \<in> reloaded then bytes_of ids r else 0)"
  using assms by (simp_all add: block_step_def Let_def block_sum_update no_bytes_def get_default_def split: option.splits)

lemma block_fold_sum:
  assumes "distinct (map fst d)"
  shows "block_sum br_token0_bytes (fold (block_step ids reusable resident reloaded) rs d) = block_sum br_token0_bytes d + sum_list (map (bytes_of ids) rs)"
    and "block_sum br_reused_bytes (fold (block_step ids reusable resident reloaded) rs d) =
       block_sum br_reused_bytes d + sum_list (map (\<lambda>r. if r \<in> reusable then bytes_of ids r else 0) rs)"
    and "block_sum br_retained_bytes (fold (block_step ids reusable resident reloaded) rs d) =
       block_sum br_retained_bytes d + sum_list (map (\<lambda>r. if r \<in> reusable \<and> r \<in> resident then bytes_of ids r else 0) rs)"
    and "block_sum br_reloaded_bytes (fold (block_step ids reusable resident reloaded) rs d) =
       block_sum br_reloaded_bytes d + sum_list (map (\<lambda>r. if r \<in> reusable \<and> r \<in> reloaded then bytes_of ids r else 0) rs)"
proof -
  have step: "distinct (map fst (block_step ids reusable resident reloaded r d))" if "distinct (map fst d)" for r and d :: "(int \<times> block_row) list"
    using that by (simp add: block_step_def Let_def distinct_update)
  note s = block_step_sum step
  show "block_sum br_token0_bytes (fold (block_step ids reusable resident reloaded) rs d) = block_sum br_token0_bytes d + sum_list (map (bytes_of ids) rs)"
    using assms by (induction rs arbitrary: d) (simp_all add: s)
  show "block_sum br_reused_bytes (fold (block_step ids reusable resident reloaded) rs d) =
       block_sum br_reused_bytes d + sum_list (map (\<lambda>r. if r \<in> reusable then bytes_of ids r else 0) rs)"
    using assms by (induction rs arbitrary: d) (simp_all add: s)
  show "block_sum br_retained_bytes (fold (block_step ids reusable resident reloaded) rs d) =
       block_sum br_retained_bytes d + sum_list (map (\<lambda>r. if r \<in> reusable \<and> r \<in> resident then bytes_of ids r else 0) rs)"
    using assms by (induction rs arbitrary: d) (simp_all add: s)
  show "block_sum br_reloaded_bytes (fold (block_step ids reusable resident reloaded) rs d) =
       block_sum br_reloaded_bytes d + sum_list (map (\<lambda>r. if r \<in> reusable \<and> r \<in> reloaded then bytes_of ids r else 0) rs)"
    using assms by (induction rs arbitrary: d) (simp_all add: s)
qed

lemma sum_list_sort_key: "sum_list (map f (sort_key g xs)) = (sum_list (map f xs) :: int)"
  by (metis mset_map mset_sort sum_mset_sum_list)

lemma sum_filtered: "finite A \<Longrightarrow> sum_list (map (\<lambda>r. if P r then f r else 0) (sorted_list_of_set A)) = (sum f {r \<in> A. P r} :: int)"
  by (simp add: sum_list_distinct_conv_sum_set sum.inter_filter)

lemma retention_cases:
  assumes "retention ids es phs = Inr (rows, blocks, s)"
  obtains token0 token1 boundary where "phase_events es phs ''warm1_token0'' = Inr token0"
    "phase_events es phs ''warm1_token1'' = Inr token1" "map_of phs ''warm1_token1'' = Some boundary"
    "rows = map (\<lambda>ref. \<lparr>rt_ref = ref, rt_block = block ref, rt_class = class_of ids ''unknown'' ref,
        rt_bytes = bytes_of ids ref, rt_retained = (ref \<in> resident_at boundary es),
        rt_reloaded = (ref \<in> ev_ref ` set (filter (\<lambda>e. ev_kind e = ''MATERIALIZE'') token1))\<rparr>)
      (sorted_list_of_set (refs_used token0 \<inter> refs_used token1))"
    "blocks = map (\<lambda>(b, row). (b, row, retention_rate (br_retained_bytes row) (br_reused_bytes row)))
      (sort_key fst (fold (block_step ids (refs_used token0 \<inter> refs_used token1) (resident_at boundary es)
        (ev_ref ` set (filter (\<lambda>e. ev_kind e = ''MATERIALIZE'') token1))) (sorted_list_of_set (refs_used token0)) []))"
    "s = \<lparr>re_reusable_bytes = byte_total ids (refs_used token0 \<inter> refs_used token1),
        re_retained_bytes = byte_total ids (refs_used token0 \<inter> refs_used token1 \<inter> resident_at boundary es),
        re_token0_only_bytes = byte_total ids (refs_used token0 - refs_used token1),
        re_token1_only_bytes = byte_total ids (refs_used token1 - refs_used token0),
        re_routed_expert_bytes = byte_total ids (Set.filter (\<lambda>ref. routed (class_of ids '''' ref)) (refs_used token0 \<inter> refs_used token1))\<rparr>"
proof -
  obtain token0 where 0: "phase_events es phs ''warm1_token0'' = Inr token0"
    using assms by (cases "phase_events es phs ''warm1_token0''") (simp_all add: retention_def)
  obtain token1 where 1: "phase_events es phs ''warm1_token1'' = Inr token1"
    using assms 0 by (cases "phase_events es phs ''warm1_token1''") (simp_all add: retention_def)
  obtain boundary where b: "lookup_res phs ''warm1_token1'' = Inr boundary"
    using assms 0 1 by (cases "lookup_res phs ''warm1_token1''") (simp_all add: retention_def)
  show ?thesis using that[of token0 token1 boundary] assms 0 1 b
    by (simp add: retention_def Let_def)
qed

lemma routed_missing: "routed (class_of ids ''unknown'' r) \<longleftrightarrow> routed (class_of ids '''' r)"
  by (simp add: class_of_def routed_def starts_with_def split: option.splits)

text \<open>
  C18. The retention tables of a run agree with its summary: summed over the blocks, the bytes of the first
  token are the reusable bytes plus those it alone used, the reused and retained bytes are the reusable and
  retained totals; summed over the rows, likewise, also for the routed experts, however the routed class of
  an unknown tensor is spelled.  Nothing is counted twice and nothing is lost between the tables.
\<close>

theorem retention_accounts:
  assumes "retention ids es phs = Inr (rows, blocks, s)"
  shows "(\<Sum>(b, row, rate)\<leftarrow>blocks. br_token0_bytes row) = re_reusable_bytes s + re_token0_only_bytes s \<and>
    (\<Sum>(b, row, rate)\<leftarrow>blocks. br_reused_bytes row) = re_reusable_bytes s \<and>
    (\<Sum>(b, row, rate)\<leftarrow>blocks. br_retained_bytes row) = re_retained_bytes s \<and>
    (\<Sum>row\<leftarrow>rows. rt_bytes row) = re_reusable_bytes s \<and>
    (\<Sum>row\<leftarrow>filter rt_retained rows. rt_bytes row) = re_retained_bytes s \<and>
    (\<Sum>row\<leftarrow>filter (\<lambda>row. routed (rt_class row)) rows. rt_bytes row) = re_routed_expert_bytes s"
proof -
  obtain token0 token1 boundary where
    "rows = map (\<lambda>ref. \<lparr>rt_ref = ref, rt_block = block ref, rt_class = class_of ids ''unknown'' ref,
        rt_bytes = bytes_of ids ref, rt_retained = (ref \<in> resident_at boundary es),
        rt_reloaded = (ref \<in> ev_ref ` set (filter (\<lambda>e. ev_kind e = ''MATERIALIZE'') token1))\<rparr>)
      (sorted_list_of_set (refs_used token0 \<inter> refs_used token1))" (is "rows = map ?row (sorted_list_of_set (?Ua \<inter> ?Ub))")
    and blocks: "blocks = map (\<lambda>(b, row). (b, row, retention_rate (br_retained_bytes row) (br_reused_bytes row)))
      (sort_key fst (fold (block_step ids (refs_used token0 \<inter> refs_used token1) (resident_at boundary es)
        (ev_ref ` set (filter (\<lambda>e. ev_kind e = ''MATERIALIZE'') token1))) (sorted_list_of_set (refs_used token0)) []))"
      (is "blocks = map ?rate (sort_key fst ?by)")
    and s: "s = \<lparr>re_reusable_bytes = byte_total ids (refs_used token0 \<inter> refs_used token1),
        re_retained_bytes = byte_total ids (refs_used token0 \<inter> refs_used token1 \<inter> resident_at boundary es),
        re_token0_only_bytes = byte_total ids (refs_used token0 - refs_used token1), re_token1_only_bytes = byte_total ids (refs_used token1 - refs_used token0),
        re_routed_expert_bytes = byte_total ids (Set.filter (\<lambda>ref. routed (class_of ids '''' ref)) (refs_used token0 \<inter> refs_used token1))\<rparr>"
    by (rule retention_cases[OF assms]) blast
  note rows = \<open>rows = map ?row (sorted_list_of_set (?Ua \<inter> ?Ub))\<close>
  have over: "(\<Sum>(b, row, rate)\<leftarrow>blocks. f row) = block_sum f ?by" for f
    unfolding blocks block_sum_def by (simp add: comp_def case_prod_beta sum_list_sort_key)
  have U: "sum (bytes_of ids) ?Ua = sum (bytes_of ids) (?Ua \<inter> ?Ub) + sum (bytes_of ids) (?Ua - ?Ub)"
    by (metis finite_refs sum.Int_Diff)
  have I: "{r \<in> ?Ua. r \<in> ?Ua \<inter> ?Ub} = ?Ua \<inter> ?Ub" "{r \<in> ?Ua. r \<in> ?Ua \<inter> ?Ub \<and> r \<in> resident_at boundary es} = ?Ua \<inter> ?Ub \<inter> resident_at boundary es"
    by auto
  note sums = block_fold_sum[of "[]", simplified] sum_list_distinct_conv_sum_set byte_total_sum
  have b: "(\<Sum>(b, row, rate)\<leftarrow>blocks. br_token0_bytes row) = re_reusable_bytes s + re_token0_only_bytes s"
    unfolding over s by (simp add: block_fold_sum byte_total_sum sum_list_distinct_conv_sum_set U block_sum_def[of _ "[]"])
  have c: "(\<Sum>(b, row, rate)\<leftarrow>blocks. br_reused_bytes row) = re_reusable_bytes s"
    "(\<Sum>(b, row, rate)\<leftarrow>blocks. br_retained_bytes row) = re_retained_bytes s"
    unfolding over s using I
    by (simp_all only: block_fold_sum(2,3)[of "[]", simplified] sum_filtered[OF finite_refs] byte_total_sum finite_Int finite_refs
      simp_thms block_sum_def[of _ "[]"] list.map sum_list.Nil add_0 retention_summary.select_convs)
  have sel: "(\<Sum>row\<leftarrow>filter P rows. rt_bytes row) = sum (bytes_of ids) {r \<in> ?Ua \<inter> ?Ub. P (?row r)}" for P
    unfolding rows by (simp add: filter_map comp_def sum_list_distinct_conv_sum_set Collect_conj_eq Int_commute)
  have r: "(\<Sum>row\<leftarrow>rows. rt_bytes row) = re_reusable_bytes s"
    using sel[of "\<lambda>_. True"] unfolding s by (simp add: byte_total_sum Int_def)
  have t: "(\<Sum>row\<leftarrow>filter rt_retained rows. rt_bytes row) = re_retained_bytes s"
    unfolding sel s by (simp add: byte_total_sum Collect_conj_eq Int_assoc)
  have q: "(\<Sum>row\<leftarrow>filter (\<lambda>row. routed (rt_class row)) rows. rt_bytes row) = re_routed_expert_bytes s"
    unfolding sel s by (simp add: byte_total_sum routed_missing)
  show ?thesis using b c r t q by blast
qed

definition sample_log :: log where
  "sample_log =
    ([(10001, \<lparr>id_ref = 10001, id_offset = 0, id_bytes = 64, id_class = ''norm'', id_expert = - 1, id_name = ''''\<rparr>),
      (20001, \<lparr>id_ref = 20001, id_offset = 64, id_bytes = 32, id_class = ''routed_expert_up'', id_expert = 3, id_name = ''''\<rparr>)],
     map (\<lambda>(n, r, k). \<lparr>ev_ordinal = n, ev_ref = r, ev_name = ''t'', ev_kind = k, ev_before = 0, ev_after = 0, ev_leases = 0,
       ev_timestamp_ns = n, ev_offset = 0, ev_bytes = 8, ev_class = ''norm'', ev_expert = - 1, ev_source = ''''\<rparr>)
       [(0, 10001, ''REQUEST''), (1, 10001, ''INSERT''), (2, 20001, ''REQUEST''), (3, 20001, ''INSERT''), (4, 20001, ''EVICT''),
        (5, 10001, ''REQUEST''), (6, 20001, ''REQUEST''), (7, 20001, ''MATERIALIZE'')],
     [(''warm1_token0'', 0), (''warm1_token1'', 5)])"

theorem retention_accounts_witness:
  "\<exists>rows blocks s. retention (fst sample_log) (fst (snd sample_log)) (snd (snd sample_log)) = Inr (rows, blocks, s) \<and>
    (\<Sum>(b, row, rate)\<leftarrow>blocks. br_token0_bytes row) = re_reusable_bytes s + re_token0_only_bytes s \<and> re_retained_bytes s = 64"
proof -
  have "case retention (fst sample_log) (fst (snd sample_log)) (snd (snd sample_log)) of Inl _ \<Rightarrow> False
      | Inr (rows, blocks, s) \<Rightarrow> re_retained_bytes s = 64" by code_simp
  then obtain rows blocks s where r: "retention (fst sample_log) (fst (snd sample_log)) (snd (snd sample_log)) = Inr (rows, blocks, s)"
      and "re_retained_bytes s = 64" by (auto split: sum.splits)
  then show ?thesis using retention_accounts[OF r] by blast
qed

definition kept_by :: "int \<Rightarrow> event list \<Rightarrow> bool" where
  "kept_by r es \<longleftrightarrow> (\<exists>before e after. es = before @ e # after \<and> ev_ref e = r \<and> ev_kind e \<in> {''INSERT'', ''LEASE_ACQUIRE''} \<and>
     (\<forall>x \<in> set after. \<not> (ev_kind x = ''EVICT'' \<and> ev_ref x = r)))"

lemma kept_by_snoc:
  "kept_by r (es @ [x]) \<longleftrightarrow> (ev_ref x = r \<and> ev_kind x \<in> {''INSERT'', ''LEASE_ACQUIRE''}) \<or>
     (\<not> (ev_kind x = ''EVICT'' \<and> ev_ref x = r) \<and> kept_by r es)"
proof
  assume "kept_by r (es @ [x])"
  then obtain before e after where s: "es @ [x] = before @ e # after" and e: "ev_ref e = r"
      "ev_kind e \<in> {''INSERT'', ''LEASE_ACQUIRE''}" "\<forall>x \<in> set after. \<not> (ev_kind x = ''EVICT'' \<and> ev_ref x = r)"
    unfolding kept_by_def by blast
  show "(ev_ref x = r \<and> ev_kind x \<in> {''INSERT'', ''LEASE_ACQUIRE''}) \<or> (\<not> (ev_kind x = ''EVICT'' \<and> ev_ref x = r) \<and> kept_by r es)"
  proof (cases after rule: rev_cases)
    case Nil
    then show ?thesis using s e by simp
  next
    case (snoc ys y)
    then have "es = before @ e # ys" "x = y" using s by simp_all
    then show ?thesis using e snoc unfolding kept_by_def by auto
  qed
next
  assume "(ev_ref x = r \<and> ev_kind x \<in> {''INSERT'', ''LEASE_ACQUIRE''}) \<or> (\<not> (ev_kind x = ''EVICT'' \<and> ev_ref x = r) \<and> kept_by r es)"
  then show "kept_by r (es @ [x])"
  proof
    assume "ev_ref x = r \<and> ev_kind x \<in> {''INSERT'', ''LEASE_ACQUIRE''}"
    then show ?thesis unfolding kept_by_def by (intro exI[of _ es] exI[of _ x] exI[of _ "[]"]) simp
  next
    assume a: "\<not> (ev_kind x = ''EVICT'' \<and> ev_ref x = r) \<and> kept_by r es"
    then obtain before e after where "es = before @ e # after" "ev_ref e = r"
      "ev_kind e \<in> {''INSERT'', ''LEASE_ACQUIRE''}" "\<forall>x \<in> set after. \<not> (ev_kind x = ''EVICT'' \<and> ev_ref x = r)"
      unfolding kept_by_def by blast
    then show ?thesis using a unfolding kept_by_def by (intro exI[of _ before] exI[of _ e] exI[of _ "after @ [x]"]) auto
  qed
qed

text \<open>
  What the analysis takes to be resident when a token starts is the state of the store: a tensor is in
  the set exactly when, among the events before the boundary, it was inserted or leased and not evicted
  afterwards.
\<close>

theorem resident_at_exact:
  "r \<in> resident_at boundary events \<longleftrightarrow>
     (\<exists>before e after. takeWhile (\<lambda>e. ev_ordinal e < boundary) events = before @ e # after \<and> ev_ref e = r \<and>
        ev_kind e \<in> {''INSERT'', ''LEASE_ACQUIRE''} \<and> list_all (\<lambda>x. \<not> (ev_kind x = ''EVICT'' \<and> ev_ref x = r)) after)"
proof -
  have "r \<in> fold resident_step es {} \<longleftrightarrow> kept_by r es" for es
  proof (induction es rule: rev_induct)
    case Nil
    then show ?case by (simp add: kept_by_def)
  next
    case (snoc x es)
    have "r \<in> fold resident_step (es @ [x]) {} \<longleftrightarrow> (ev_ref x = r \<and> ev_kind x \<in> {''INSERT'', ''LEASE_ACQUIRE''}) \<or>
        (\<not> (ev_kind x = ''EVICT'' \<and> ev_ref x = r) \<and> r \<in> fold resident_step es {})"
      by (auto simp: resident_step_def)
    then show ?case using snoc.IH kept_by_snoc by blast
  qed
  then show ?thesis unfolding resident_at_def kept_by_def list_all_iff .
qed

end
