(* ===== verification/Expert_Bank.thy ===== *)
theory Expert_Bank
  imports Json Gguf
begin

text \<open>
  The expert-bank audit of \<open>scripts/audit_step31n_expert_bank_rank.py\<close>: a rank 3 tensor of a routed
  expert layer is read as one record per expert, and the records are checked against the bank and
  against every other tensor of the manifest.  Sizes, offsets and dimensions are JSON integers (any
  other value is a \<open>TypeError\<close> here); \<open>candidate is plan\<close> compares positions in the list of plans.
\<close>

section \<open>The audit\<close>

definition BLOCKS :: "(string \<times> int \<times> int) list" where
  "BLOCKS = [(''IQ2_XXS'', 256, 66), (''IQ4_NL'', 32, 18)]"

definition ROLES :: "string list" where
  "ROLES = [''ffn_gate_exps.weight'', ''ffn_up_exps.weight'', ''ffn_down_exps.weight'']"

definition expected_payload_bytes :: "string \<Rightarrow> int list \<Rightarrow> int res" where
  "expected_payload_bytes type_name shape = bind_res (lookup_res BLOCKS type_name) (\<lambda>(block_elements, block_bytes).
     if length shape \<noteq> 3 \<or> shape ! 0 = 0 \<or> shape ! 0 mod block_elements \<noteq> 0 then Inl (ValueError ''invalid bank shape'')
     else Inr (shape ! 1 * shape ! 2 * (shape ! 0 div block_elements) * block_bytes))"

record bank_record =
  br_expert :: int
  br_offset :: int
  br_length :: int

definition shape_of :: "json \<Rightarrow> int list res" where
  "shape_of plan = bind_res (jget_list plan ''source_shape'') (map_res jint)"

text \<open>An index past the end of a list raises.\<close>

definition item :: "'a list \<Rightarrow> nat \<Rightarrow> 'a res" where
  "item xs n = (if n < length xs then Inr (xs ! n) else Inl IndexError)"

definition floor_div :: "int \<Rightarrow> int \<Rightarrow> int res" where
  "floor_div a b = (if b = 0 then Inl ZeroDivisionError else Inr (a div b))"

definition bank_records :: "json \<Rightarrow> bank_record list res" where
  "bank_records plan = bind_res (shape_of plan) (\<lambda>shape.
     bind_res (jget_int plan ''source_payload_bytes'') (\<lambda>payload. bind_res (item shape 2) (\<lambda>experts.
     bind_res (floor_div payload experts) (\<lambda>stride.
     map_res (\<lambda>expert. bind_res (jget_int plan ''source_offset'') (\<lambda>base.
       Inr \<lparr>br_expert = expert, br_offset = base + expert * stride, br_length = stride\<rparr>)) [0..experts - 1]))))"

text \<open>\<open>name.split(".", 2)[2]\<close>.\<close>

fun split_max :: "nat \<Rightarrow> char \<Rightarrow> string \<Rightarrow> string list" where
  "split_max 0 sep s = [s]"
| "split_max (Suc n) sep [] = [[]]"
| "split_max (Suc n) sep (c # cs) = (if c = sep then [] # split_max n sep cs
     else case split_max (Suc n) sep cs of [] \<Rightarrow> [[c]] | w # ws \<Rightarrow> (c # w) # ws)"

definition overlap_check :: "int \<Rightarrow> int \<Rightarrow> json \<Rightarrow> unit res" where
  "overlap_check bank_start bank_end candidate = bind_res (jget_int candidate ''source_offset'') (\<lambda>start.
     bind_res (jget_int candidate ''source_payload_bytes'') (\<lambda>size.
     require (\<not> (start < bank_end \<and> bank_start < start + size)) (ValueError ''overlaps'')))"

record bank_view =
  bv_rank :: int
  bv_dims :: "int list"
  bv_base :: int
  bv_stride :: int
  bv_span :: int
  bv_dtype :: string
  bv_offsets :: "int list"

definition reconstructed_view :: "int list \<Rightarrow> string \<Rightarrow> bank_record list \<Rightarrow> int \<Rightarrow> bank_view" where
  "reconstructed_view shape dtype records stride = \<lparr>bv_rank = 3, bv_dims = [shape ! 0, shape ! 1, shape ! 2],
     bv_base = Min (set (map br_offset records)), bv_stride = stride, bv_span = stride * shape ! 2, bv_dtype = dtype,
     bv_offsets = map br_offset records\<rparr>"

definition original_view :: "int list \<Rightarrow> string \<Rightarrow> int \<Rightarrow> int \<Rightarrow> int \<Rightarrow> bank_view" where
  "original_view shape dtype base stride payload = \<lparr>bv_rank = int (length shape), bv_dims = shape, bv_base = base,
     bv_stride = stride, bv_span = payload, bv_dtype = dtype, bv_offsets = map (\<lambda>index. base + index * stride) [0..shape ! 2 - 1]\<rparr>"

record bank_result =
  bk_name :: string
  bk_role :: string
  bk_layer :: json
  bk_view :: bank_view
  bk_expert_count :: int
  bk_per_expert_dims :: "int list"
  bk_payload :: int
  bk_offsets_match :: bool
  bk_order_match :: bool

definition audit_bank :: "nat \<Rightarrow> json list \<Rightarrow> bank_result res" where
  "audit_bank i all_plans = (let plan = all_plans ! i in
     bind_res (shape_of plan) (\<lambda>shape. bind_res (jget_int plan ''source_payload_bytes'') (\<lambda>payload.
     bind_res (jget_str plan ''source_name'') (\<lambda>name.
     bind_res (require (length shape = 3) (ValueError ''not rank 3'')) (\<lambda>_.
     let expert_count = shape ! 2 in
     bind_res (require (expert_count \<noteq> 0 \<and> payload mod expert_count = 0) (ValueError ''invalid expert division'')) (\<lambda>_.
     bind_res (jget_str plan ''source_ggml_type'') (\<lambda>dtype. bind_res (expected_payload_bytes dtype shape) (\<lambda>expected.
     bind_res (require (expected = payload) (ValueError ''payload mismatch'')) (\<lambda>_.
     bind_res (bank_records plan) (\<lambda>records. bind_res (item records 0) (\<lambda>r.
     let stride = br_length r; offsets = map br_offset records in
     bind_res (require (list_all (\<lambda>(a, b). b - a = stride) (zip offsets (tl offsets))) (ValueError ''expert stride is not fixed'')) (\<lambda>_.
     bind_res (jget_int plan ''source_offset'') (\<lambda>bank_start.
     bind_res (require (br_offset (last records) + stride = bank_start + payload)
       (ValueError ''expert records do not cover bank span'')) (\<lambda>_.
     bind_res (each (\<lambda>(j, candidate). if j = i then Inr () else overlap_check bank_start (bank_start + payload) candidate)
       (List.enumerate 0 all_plans)) (\<lambda>_.
     let view = reconstructed_view shape dtype records stride; original = original_view shape dtype bank_start stride payload in
     bind_res (require (view = original) (ValueError ''rank round-trip mismatch'')) (\<lambda>_.
     bind_res (item (split_max 2 (CHR ''.'') name) 2) (\<lambda>role. bind_res (jget plan ''layer'') (\<lambda>layer.
     Inr \<lparr>bk_name = name, bk_role = role, bk_layer = layer, bk_view = original, bk_expert_count = expert_count,
       bk_per_expert_dims = take 2 shape, bk_payload = payload, bk_offsets_match = (bv_offsets view = bv_offsets original),
       bk_order_match = (map br_expert records = [0..expert_count - 1])\<rparr>))))))))))))))))))"

definition ends_with :: "string \<Rightarrow> string \<Rightarrow> bool" where
  "ends_with suffix s \<longleftrightarrow> length suffix \<le> length s \<and> drop (length s - length suffix) s = suffix"

definition bank_indices :: "json list \<Rightarrow> nat list res" where
  "bank_indices plans = bind_res (map_res (\<lambda>plan. bind_res (jget_str plan ''source_name'') (\<lambda>name.
     Inr (list_ex (\<lambda>role. ends_with role name) ROLES))) plans) (\<lambda>flags.
     Inr (map fst (filter snd (zip [0..<length plans] flags))))"

definition run_audit :: "json \<Rightarrow> bank_result list res" where
  "run_audit manifest = bind_res (jget_list manifest ''tensor_plans'') (\<lambda>plans. bind_res (bank_indices plans) (\<lambda>banks.
     bind_res (require (length banks = 78) (ValueError ''expected 78 routed expert banks'')) (\<lambda>_.
     map_res (\<lambda>i. audit_bank i plans) banks)))"

definition representatives :: "bank_result list \<Rightarrow> bank_result list" where
  "representatives results = filter (\<lambda>r. bk_name r \<in> {''blk.1.ffn_gate_exps.weight'', ''blk.1.ffn_up_exps.weight'',
     ''blk.1.ffn_down_exps.weight''}) results"

definition audit_main :: "json \<Rightarrow> int res" where
  "audit_main manifest = (case run_audit manifest of
       Inr _ \<Rightarrow> Inr 0
     | Inl e \<Rightarrow> (case e of KeyError \<Rightarrow> Inr 1 | TypeError \<Rightarrow> Inr 1 | ValueError _ \<Rightarrow> Inr 1 | _ \<Rightarrow> Inl e))"

section \<open>What a passed audit means\<close>

lemma bank_records_Inr:
  "bank_records plan = Inr rs \<Longrightarrow> jget_int plan ''source_offset'' = Inr base \<Longrightarrow> shape_of plan = Inr shape \<Longrightarrow> length shape = 3 \<Longrightarrow>
   jget_int plan ''source_payload_bytes'' = Inr payload \<Longrightarrow>
   shape ! 2 \<noteq> 0 \<and> rs = map (\<lambda>e. \<lparr>br_expert = e, br_offset = base + e * (payload div shape ! 2), br_length = payload div shape ! 2\<rparr>) [0..shape ! 2 - 1]"
  by (auto simp: bank_records_def bind_res_Inr_iff item_def floor_div_def map_res_list_all2 list_all2_conv_all_nth
      intro!: nth_equalityI split: if_splits)

text \<open>The record of each expert, and the region of the bank it lies in.\<close>

definition expert_record :: "bank_result \<Rightarrow> int \<Rightarrow> int \<times> int" where
  "expert_record r e = (bv_base (bk_view r) + e * bv_stride (bk_view r), bv_base (bk_view r) + (e + 1) * bv_stride (bk_view r))"

lemma upto_ends: "0 < e \<Longrightarrow> [0..e - 1] \<noteq> [] \<and> last [0..e - 1] = e - 1 \<and> [0..e - 1] ! 0 = (0 :: int)"
  by (metis diff_ge_0_iff_ge int_one_le_iff_zero_less last_snoc list.distinct(1) list.simps(3) nth_Cons_0 upto_rec1 upto_rec2 append_is_Nil_conv not_Cons_self2)

text \<open>The records of a bank of positive size, against the three checks that follow.\<close>

lemma records_checks:
  fixes base stride e :: int
  assumes "0 < e" "0 \<le> stride"
  defines "rs \<equiv> map (\<lambda>k. \<lparr>br_expert = k, br_offset = base + k * stride, br_length = stride\<rparr>) [0..e - 1]"
  shows "item rs 0 = Inr (rs ! 0)" "br_length (rs ! 0) = stride" "br_offset (last rs) + stride = base + e * stride"
    "list_all (\<lambda>(a, b). b - a = stride) (zip (map br_offset rs) (tl (map br_offset rs)))"
    "Min (set (map br_offset rs)) = base"
proof -
  note u = upto_ends[OF assms(1)]
  have len: "length rs = nat e" by (simp add: rs_def)
  have nth: "rs ! n = \<lparr>br_expert = int n, br_offset = base + int n * stride, br_length = stride\<rparr>" if "n < nat e" for n
    using that by (simp add: rs_def nth_upto)
  show "item rs 0 = Inr (rs ! 0)" using assms(1) len by (simp add: item_def)
  show "br_length (rs ! 0) = stride" using assms(1) nth[of 0] by simp
  have "last rs = \<lparr>br_expert = e - 1, br_offset = base + (e - 1) * stride, br_length = stride\<rparr>"
    using u by (simp add: rs_def last_map)
  then show "br_offset (last rs) + stride = base + e * stride" by (simp add: algebra_simps)
  show "list_all (\<lambda>(a, b). b - a = stride) (zip (map br_offset rs) (tl (map br_offset rs)))"
    by (auto simp: list_all_length len nth nth_tl algebra_simps)
  have "br_offset (rs ! 0) \<in> set (map br_offset rs)" using assms(1) len by simp
  then have "base \<in> set (map br_offset rs)" using assms(1) nth[of 0] by simp
  moreover have "base \<le> x" if "x \<in> set (map br_offset rs)" for x using that assms(2) by (auto simp: rs_def)
  ultimately show "Min (set (map br_offset rs)) = base" by (intro Min_eqI) auto
qed

lemma expected_payload_Inr:
  "expected_payload_bytes t shape = Inr n \<longleftrightarrow> (\<exists>k b. map_of BLOCKS t = Some (k, b) \<and> length shape = 3 \<and> shape ! 0 \<noteq> 0 \<and>
     k dvd shape ! 0 \<and> n = shape ! 1 * shape ! 2 * (shape ! 0 div k) * b)"
  by (auto simp: expected_payload_bytes_def bind_res_Inr_iff lookup_res_iff dvd_eq_mod_eq_0)

text \<open>A bank is tiled by the records of its experts and disjoint from every other tensor.\<close>

definition bank_tiled :: "json list \<Rightarrow> nat \<Rightarrow> bank_result \<Rightarrow> bool" where
  "bank_tiled plans i r = (let v = bk_view r; e = bk_expert_count r in
     0 < e \<and> bv_stride v * e = bk_payload r \<and> bv_span v = bk_payload r \<and> bv_offsets v = map (\<lambda>k. bv_base v + k * bv_stride v) [0..e - 1] \<and>
     (\<exists>k b. map_of BLOCKS (bv_dtype v) = Some (k, b) \<and> bv_dims v ! 2 = e \<and> k dvd bv_dims v ! 0 \<and>
        bv_stride v = bv_dims v ! 1 * (bv_dims v ! 0 div k) * b) \<and>
     list_all (\<lambda>(j, c). j = i \<or> (\<exists>start size. jget_int c ''source_offset'' = Inr start \<and> jget_int c ''source_payload_bytes'' = Inr size \<and>
        (start + size \<le> bv_base v \<or> bv_base v + bk_payload r \<le> start))) (List.enumerate 0 plans))"

lemma overlap_check_Inr:
  "overlap_check s e c = Inr () \<longleftrightarrow> (\<exists>start size. jget_int c ''source_offset'' = Inr start \<and>
     jget_int c ''source_payload_bytes'' = Inr size \<and> (start + size \<le> s \<or> e \<le> start))"
  by (auto simp: overlap_check_def bind_res_Inr_iff require_iff)

lemma audit_bank_tiled:
  assumes "audit_bank i plans = Inr r"
  shows "bank_tiled plans i r \<and> bk_offsets_match r \<and> bk_order_match r"
proof -
  let ?p = "plans ! i"
  obtain shape payload dtype rs r0 base where
    s: "shape_of ?p = Inr shape" "jget_int ?p ''source_payload_bytes'' = Inr payload" "length shape = 3"
    "shape ! 2 \<noteq> 0" "payload mod shape ! 2 = 0" "expected_payload_bytes dtype shape = Inr payload"
    "bank_records ?p = Inr rs" "item rs 0 = Inr r0" "jget_int ?p ''source_offset'' = Inr base"
    "each (\<lambda>(j, candidate). if j = i then Inr () else overlap_check base (base + payload) candidate) (List.enumerate 0 plans) = Inr ()"
    "reconstructed_view shape dtype rs (br_length r0) = original_view shape dtype base (br_length r0) payload"
    and r: "bk_view r = original_view shape dtype base (br_length r0) payload" "bk_expert_count r = shape ! 2" "bk_payload r = payload"
      "bk_offsets_match r" "bk_order_match r = (map br_expert rs = [0..shape ! 2 - 1])"
    using assms unfolding audit_bank_def Let_def
    by (auto simp: bind_res_Inr_iff require_iff)
  let ?e = "shape ! 2" and ?st = "payload div shape ! 2"
  have rs: "rs = map (\<lambda>e. \<lparr>br_expert = e, br_offset = base + e * ?st, br_length = ?st\<rparr>) [0..?e - 1]"
    using bank_records_Inr[OF s(7,9,1,3,2)] by blast
  have pos: "0 < ?e" using s(8) rs by (auto simp: item_def split: if_splits)
  have st: "br_length r0 = ?st" using s(8) rs pos by (auto simp: item_def split: if_splits)
  have pay: "?st * ?e = payload" using s(5) by (metis add.right_neutral div_mult_mod_eq)
  obtain k b where kb: "map_of BLOCKS dtype = Some (k, b)" "k dvd shape ! 0" "payload = shape ! 1 * ?e * (shape ! 0 div k) * b"
    using s(6) by (auto simp: expected_payload_Inr)
  have "?st * ?e = (shape ! 1 * (shape ! 0 div k) * b) * ?e" using pay kb(3) by (simp add: algebra_simps)
  then have stb: "?st = shape ! 1 * (shape ! 0 div k) * b" using pos by simp
  have other: "list_all (\<lambda>(j, c). j = i \<or> (\<exists>start size. jget_int c ''source_offset'' = Inr start \<and> jget_int c ''source_payload_bytes'' = Inr size \<and>
        (start + size \<le> base \<or> base + payload \<le> start))) (List.enumerate 0 plans)"
    unfolding list_all_iff
  proof
    fix x assume "x \<in> set (List.enumerate 0 plans)"
    then have "(\<lambda>(j, candidate). if j = i then Inr () else overlap_check base (base + payload) candidate) x = Inr ()"
      using s(10) by (simp add: each_Inr)
    then show "(\<lambda>(j, c). j = i \<or> (\<exists>start size. jget_int c ''source_offset'' = Inr start \<and> jget_int c ''source_payload_bytes'' = Inr size \<and>
        (start + size \<le> base \<or> base + payload \<le> start))) x" by (auto simp: overlap_check_Inr split: prod.splits if_splits)
  qed
  have "map br_expert rs = [0..?e - 1]" by (simp add: rs o_def)
  then show ?thesis using r pos pay kb(1,2) stb other s(3)
    by (auto simp: bank_tiled_def original_view_def st Let_def)
qed

text \<open>The three checks on the records themselves can never fail: a bank that passes the size check passes them.\<close>

definition record_check_errors :: "py_error set" where
  "record_check_errors = {ValueError ''expert stride is not fixed'', ValueError ''expert records do not cover bank span'',
     ValueError ''rank round-trip mismatch''}"

lemma access_errors:
  "jget d k = Inl e \<Longrightarrow> e \<notin> record_check_errors" "jget_int d k = Inl e \<Longrightarrow> e \<notin> record_check_errors"
  "jget_str d k = Inl e \<Longrightarrow> e \<notin> record_check_errors"
proof -
  have g: "e = KeyError \<or> e = TypeError" if "jget d k = Inl e" for e
    using that by (cases d) (auto simp: jget_def lookup_res_def split: option.splits)
  have i: "e = TypeError" if "jint v = Inl e" for v e using that by (cases v) (auto simp: jint_def)
  have s: "e = TypeError" if "jstr v = Inl e" for v e using that by (cases v) (auto simp: jstr_def)
  show "jget d k = Inl e \<Longrightarrow> e \<notin> record_check_errors" using g by (auto simp: record_check_errors_def)
  show "jget_int d k = Inl e \<Longrightarrow> e \<notin> record_check_errors" "jget_str d k = Inl e \<Longrightarrow> e \<notin> record_check_errors"
    using g by (auto simp: jget_int_def jget_str_def bind_res_Inl_iff record_check_errors_def dest: i s)
qed

lemma records_pass:
  assumes payload: "jget_int plan ''source_payload_bytes'' = Inr payload" "0 \<le> payload"
    and shape: "shape_of plan = Inr shape" "length shape = 3" "0 < shape ! 2" "payload mod shape ! 2 = 0"
    and rs: "bank_records plan = Inr rs" "item rs 0 = Inr r"
  shows "list_all (\<lambda>(a, b). b - a = br_length r) (zip (map br_offset rs) (tl (map br_offset rs)))"
    and "jget_int plan ''source_offset'' = Inr b \<Longrightarrow> br_offset (last rs) + br_length r = b + payload"
    and "jget_int plan ''source_offset'' = Inr b \<Longrightarrow>
      reconstructed_view shape dtype rs (br_length r) = original_view shape dtype b (br_length r) payload"
proof -
  let ?e = "shape ! 2" and ?st = "payload div shape ! 2"
  have st: "0 \<le> ?st" using payload(2) shape(3) by (simp add: pos_imp_zdiv_nonneg_iff)
  have pay: "?e * ?st = payload" using shape(4) by (metis add.right_neutral mult_div_mod_eq)
  have all: "list_all (\<lambda>(a, b). b - a = br_length r) (zip (map br_offset rs) (tl (map br_offset rs))) \<and>
      br_offset (last rs) + br_length r = b + payload \<and>
      reconstructed_view shape dtype rs (br_length r) = original_view shape dtype b (br_length r) payload"
    if b: "jget_int plan ''source_offset'' = Inr b" for b
  proof -
    have rs': "rs = map (\<lambda>k. \<lparr>br_expert = k, br_offset = b + k * ?st, br_length = ?st\<rparr>) [0..?e - 1]"
      using bank_records_Inr[OF rs(1) b shape(1,2) payload(1)] by blast
    note ck = records_checks[OF shape(3) st, of b, folded rs']
    have r: "br_length r = ?st" using ck(1,2) rs(2) by simp
    obtain n m e where three: "shape = [n, m, e]" using shape(2) by (auto simp: numeral_3_eq_3 length_Suc_conv)
    have "map br_offset rs = map (\<lambda>k. b + k * ?st) [0..?e - 1]" by (simp add: rs' o_def)
    then have "reconstructed_view shape dtype rs ?st = original_view shape dtype b ?st payload"
      using ck(5) pay three by (simp add: reconstructed_view_def original_view_def mult.commute del: set_map)
    then show ?thesis using ck(3,4) pay by (simp add: r)
  qed
  obtain b0 where b0: "jget_int plan ''source_offset'' = Inr b0"
  proof -
    obtain rs' where m: "map_res (\<lambda>k. bind_res (jget_int plan ''source_offset'') (\<lambda>base.
        Inr \<lparr>br_expert = k, br_offset = base + k * ?st, br_length = ?st\<rparr>)) [0..?e - 1] = Inr rs'"
      using rs(1) payload shape by (auto simp: bank_records_def item_def floor_div_def)
    have "0 \<in> set [0..?e - 1]" using shape(3) by simp
    from map_res_mem[OF m this] show thesis using that by (auto simp: bind_res_Inr_iff)
  qed
  show "list_all (\<lambda>(a, b). b - a = br_length r) (zip (map br_offset rs) (tl (map br_offset rs)))" using all[OF b0] by blast
  show "jget_int plan ''source_offset'' = Inr b \<Longrightarrow> br_offset (last rs) + br_length r = b + payload"
    "jget_int plan ''source_offset'' = Inr b \<Longrightarrow>
      reconstructed_view shape dtype rs (br_length r) = original_view shape dtype b (br_length r) payload"
    using all by blast+
qed

lemma each_Inl: "each f xs = Inl e \<Longrightarrow> \<exists>x \<in> set xs. f x = Inl e"
  by (induction xs) (auto simp: bind_res_Inl_iff)

lemma map_res_Inl: "map_res f xs = Inl e \<Longrightarrow> \<exists>x \<in> set xs. f x = Inl e"
  by (induction xs) (auto simp: bind_res_Inl_iff)

lemma audit_bank_failures:
  assumes payload: "jget_int (plans ! i) ''source_payload_bytes'' = Inr payload" "0 \<le> payload"
    and shape: "shape_of (plans ! i) = Inr shape" "length shape = 3" "0 < shape ! 2" and err: "audit_bank i plans = Inl e"
  shows "e \<notin> record_check_errors"
proof
  assume bad: "e \<in> record_check_errors"
  let ?p = "plans ! i" and ?e = "shape ! 2" and ?st = "payload div shape ! 2"
  have no: "jget ?p k \<noteq> Inl e" "jget_int c k \<noteq> Inl e" "jget_str ?p k \<noteq> Inl e" for k c
    using access_errors bad by blast+
  have ex: "expected_payload_bytes t shape \<noteq> Inl e" for t
    using bad by (auto simp: expected_payload_bytes_def bind_res_Inl_iff lookup_res_def record_check_errors_def split: option.splits if_splits)
  have it: "item xs n \<noteq> Inl e" for xs :: "'z list" and n using bad by (auto simp: item_def record_check_errors_def)
  have br: "bank_records ?p \<noteq> Inl e"
  proof
    assume "bank_records ?p = Inl e"
    then have "\<exists>k. (bind_res (jget_int ?p ''source_offset'') (\<lambda>base. Inr \<lparr>br_expert = k, br_offset = base + k * ?st, br_length = ?st\<rparr>)) = Inl e"
      using payload shape by (auto simp: bank_records_def item_def floor_div_def dest!: map_res_Inl)
    then show False using no by (auto simp: bind_res_Inl_iff)
  qed
  have ov: "each (\<lambda>(j, candidate). if j = i then Inr () else overlap_check b c candidate) xs \<noteq> Inl e" for b c xs
  proof
    assume "each (\<lambda>(j, candidate). if j = i then Inr () else overlap_check b c candidate) xs = Inl e"
    then obtain j d where "(if j = i then Inr () else overlap_check b c d) = Inl e" by (auto dest!: each_Inl)
    then show False using no bad by (auto simp: overlap_check_def bind_res_Inl_iff require_def record_check_errors_def split: if_splits)
  qed
  have rq: "require c (ValueError m) = Inl e \<longleftrightarrow> \<not> c \<and> e = ValueError m" for c m by (auto simp: require_def)
  have r0: "item rs 0 \<noteq> Inl e" for rs :: "bank_record list" using bad by (auto simp: item_def record_check_errors_def)
  have rl: "item (split_max 2 (CHR ''.'') name) 2 \<noteq> Inl e" for name using bad by (auto simp: item_def record_check_errors_def)
  have ne: "bind_res p f \<noteq> Inl e" if "p \<noteq> Inl e" "\<And>x. p = Inr x \<Longrightarrow> f x \<noteq> Inl e" for p :: "'p res" and f :: "'p \<Rightarrow> bank_result res"
    using that by (auto simp: bind_res_Inl_iff)
  have rn: "require c (ValueError m) \<noteq> Inl e" if "c \<or> ValueError m \<notin> record_check_errors" for c m
    using that bad by (auto simp: require_def)
  have "audit_bank i plans \<noteq> Inl e"
    unfolding audit_bank_def Let_def shape(1) payload(1) bind_res_simps
  proof (rule ne[OF no(3)], rule ne, goal_cases)
    case 1
    show ?case by (rule rn) (simp add: record_check_errors_def)
  next
    case (2 name u)
    show ?case
    proof (rule ne, goal_cases)
      case 1
      show ?case by (rule rn) (simp add: record_check_errors_def)
    next
      case (2 u)
      then have div: "payload mod ?e = 0" by (simp add: require_iff)
      note pass = records_pass[OF payload shape div]
      show ?case
      proof (rule ne[OF no(3)], rule ne[OF ex], rule ne, goal_cases)
        case 1
        show ?case by (rule rn) (simp add: record_check_errors_def)
      next
        case (2 dtype expected u)
        show ?case
        proof (rule ne[OF br], rule ne[OF r0], rule ne, goal_cases)
          case (1 rs r)
          show ?case by (rule rn) (use pass(1)[OF 1] in blast)
        next
          case (2 rs r u)
          show ?case
          proof (rule ne[OF no(2)], rule ne, goal_cases)
            case (1 b)
            show ?case by (rule rn) (use pass(2)[OF 2(1,2) 1] in blast)
          next
            case (2 b u)
            show ?case
            proof (rule ne[OF ov], rule ne, goal_cases)
              case 1
              show ?case by (rule rn) (use pass(3)[OF \<open>bank_records ?p = Inr rs\<close> \<open>item rs 0 = Inr r\<close> 2(1)] in blast)
            next
              case 2
              show ?case by (rule ne[OF rl], rule ne[OF no(1)]) simp
            qed
          qed
        qed
      qed
    qed
  qed
  then show False using err by simp
qed

text \<open>
  C35. A bank that passes the audit is tiled by its experts: the records are consecutive, one per expert,
  each of the size that the type and the dimensions require for one expert's matrix, they fill the
  payload exactly, and no other tensor of the manifest shares a byte with the bank. A passed audit
  reports that the offsets and the order match.
\<close>

theorem bank_audit_sound:
  assumes "audit_bank i plans = Inr r"
  shows "bank_tiled plans i r \<and> bk_offsets_match r \<and> bk_order_match r"
  using assms by (rule audit_bank_tiled)

definition sample_plans :: "json list" where
  "sample_plans = [JObj [(''source_name'', JStr ''blk.1.ffn_up_exps.weight''), (''source_shape'', int_list [64, 3, 2]),
       (''source_payload_bytes'', JInt 216), (''source_offset'', JInt 32), (''source_ggml_type'', JStr ''IQ4_NL''), (''layer'', JInt 1)],
     JObj [(''source_name'', JStr ''output.weight''), (''source_offset'', JInt 248), (''source_payload_bytes'', JInt 4)]]"

lemma sample_audit: "case audit_bank 0 sample_plans of Inl _ \<Rightarrow> False | Inr r \<Rightarrow> bv_stride (bk_view r) = 108 \<and> bk_payload r = 216"
  by code_simp

theorem bank_audit_sound_witness:
  "\<exists>r. audit_bank 0 sample_plans = Inr r \<and> bv_stride (bk_view r) = 108 \<and> bank_tiled sample_plans 0 r"
proof -
  obtain r where r: "audit_bank 0 sample_plans = Inr r" "bv_stride (bk_view r) = 108"
    using sample_audit by (cases "audit_bank 0 sample_plans") auto
  then show ?thesis using bank_audit_sound[OF r(1)] by blast
qed

text \<open>
  The three checks on the records are redundant: for a bank of rank 3 with a non-negative payload
  and a positive number of experts, the audit never fails with a stride that is not fixed, records that
  do not cover the bank, or a rank round trip that does not match.
\<close>

theorem bank_record_checks_redundant:
  assumes "jget_int (plans ! i) ''source_payload_bytes'' = Inr payload" "0 \<le> payload"
    and "shape_of (plans ! i) = Inr shape" "length shape = 3" "0 < shape ! 2" and "audit_bank i plans = Inl e"
  shows "e \<notin> record_check_errors"
  using assms by (rule audit_bank_failures)

definition clashing_plans :: "json list" where
  "clashing_plans = sample_plans @ [JObj [(''source_name'', JStr ''x''), (''source_offset'', JInt 40), (''source_payload_bytes'', JInt 4)]]"

theorem bank_record_checks_redundant_witness:
  "audit_bank 0 clashing_plans = Inl (ValueError ''overlaps'') \<and> ValueError ''overlaps'' \<notin> record_check_errors"
proof -
  have e: "audit_bank 0 clashing_plans = Inl (ValueError ''overlaps'')" by code_simp
  have "jget_int (clashing_plans ! 0) ''source_payload_bytes'' = Inr 216" "shape_of (clashing_plans ! 0) = Inr [64, 3, 2]"
    by (simp_all add: clashing_plans_def sample_plans_def jget_int_def jint_def shape_of_def jget_list_def int_list_def)
  from bank_record_checks_redundant[OF this(1) _ this(2) _ _ e] e show ?thesis by simp
qed

end
