(* ===== verification/V06_Geometry.thy ===== *)
theory V06_Geometry
  imports Bytes
begin

text \<open>
  Checked 64-bit geometry of the vBuf v0.6 container: the functions of
  \<open>scripts/verify_v06_spec_vectors.py\<close> that compute base steps, data-region starts, payload
  alignments and sizes, each failing with its \<open>VectorError\<close> code.  The bit-mask rounding of
  \<open>align_up\<close> is shown to be the least multiple above the value, and \<open>align_up\<close> is an
  instance of the \<open>aligner\<close> interface.
\<close>

section \<open>Operations\<close>

definition U64_MAX :: int where
  "U64_MAX = push_bit 64 1 - 1"

definition checked_add :: "int \<Rightarrow> int \<Rightarrow> int res" where
  "checked_add a b = (let value = a + b in
     if a < 0 \<or> b < 0 \<or> value > U64_MAX then Inl (VectorError ''u64_overflow'') else Inr value)"

definition checked_mul :: "int \<Rightarrow> int \<Rightarrow> int res" where
  "checked_mul a b = (let value = a * b in
     if a < 0 \<or> b < 0 \<or> value > U64_MAX then Inl (VectorError ''u64_overflow'') else Inr value)"

definition align_up :: "int \<Rightarrow> int \<Rightarrow> int res" where
  "align_up value alignment =
     (if alignment \<le> 0 \<or> alignment AND (alignment - 1) \<noteq> 0 then Inl (VectorError ''invalid_alignment'')
      else bind_res (checked_add value (alignment - 1)) (\<lambda>s. Inr (s AND NOT (alignment - 1))))"

definition base_step :: "int \<Rightarrow> int res" where
  "base_step base_shift =
     (if \<not> (3 \<le> base_shift \<and> base_shift \<le> 8) then Inl (VectorError ''invalid_base_shift'')
      else Inr (push_bit (nat base_shift) 1))"

definition data_region_start :: "int \<Rightarrow> int \<Rightarrow> int res" where
  "data_region_start base_shift_value header_size =
     (if header_size < 24 \<or> header_size mod 8 \<noteq> 0 then Inl (VectorError ''invalid_header_size'')
      else bind_res (base_step base_shift_value) (\<lambda>step. align_up header_size step))"

definition payload_alignment :: "int \<Rightarrow> int \<Rightarrow> int res" where
  "payload_alignment base_shift_value payload_shift = (let combined = base_shift_value + payload_shift in
     if payload_shift < 0 \<or> combined > 63 then Inl (VectorError ''invalid_payload_shift'')
     else if combined < 0 then Inl (ValueError ''negative shift count'')
     else Inr (push_bit (nat combined) 1))"

definition payload_bytes :: "int \<Rightarrow> int \<Rightarrow> int res" where
  "payload_bytes count bit_width =
     bind_res (checked_mul count bit_width) (\<lambda>bits. Inr (bits div 8 + (if bits mod 8 \<noteq> 0 then 1 else 0)))"

definition validate_count_form :: "bool \<Rightarrow> int \<Rightarrow> int \<Rightarrow> unit res" where
  "validate_count_form count64 count inline_count =
     (if count64 then
        (if count \<le> 65535 \<or> inline_count \<noteq> 0 then Inl (VectorError ''noncanonical_count'') else Inr ())
      else if count > 65535 \<or> inline_count \<noteq> count then Inl (VectorError ''noncanonical_count'')
      else Inr ())"

section \<open>Characterisations\<close>

lemma U64_MAX_eq: "U64_MAX = 2 ^ 64 - 1"
  by (simp add: U64_MAX_def push_bit_eq_mult)

lemma U64_MAX_code [code]: "U64_MAX = 18446744073709551615"
  by (simp add: U64_MAX_eq)

lemma checked_add_Inr [simp]:
  "checked_add a b = Inr v \<longleftrightarrow> 0 \<le> a \<and> 0 \<le> b \<and> v = a + b \<and> v < 2 ^ 64"
  by (auto simp: checked_add_def U64_MAX_eq Let_def split: if_splits)

lemma checked_mul_Inr [simp]:
  "checked_mul a b = Inr v \<longleftrightarrow> 0 \<le> a \<and> 0 \<le> b \<and> v = a * b \<and> v < 2 ^ 64"
  by (auto simp: checked_mul_def U64_MAX_eq Let_def split: if_splits)

lemma base_step_Inr [simp]:
  "base_step s = Inr v \<longleftrightarrow> 3 \<le> s \<and> s \<le> 8 \<and> v = 2 ^ nat s"
  by (auto simp: base_step_def push_bit_eq_mult)

lemma align_up_Inr_iff:
  "align_up v a = Inr w \<longleftrightarrow>
     is_pow2 a \<and> 0 \<le> v \<and> v + (a - 1) < 2 ^ 64 \<and> w = (v + a - 1) div a * a"
proof (cases "is_pow2 a")
  case True
  then have "0 < a" "a AND (a - 1) = 0" by (auto simp: is_pow2_def)
  then show ?thesis using True
    by (auto simp: align_up_def bind_res_Inr_iff and_not_pred_pow2 add_diff_eq)
next
  case False
  then show ?thesis by (auto simp: align_up_def is_pow2_def)
qed

text \<open>The total rounding function behind \<open>align_up\<close>; the interface is instantiated with it.\<close>

definition mask_align :: "int \<Rightarrow> int \<Rightarrow> int" where
  "mask_align value alignment = (value + alignment - 1) AND NOT (alignment - 1)"

lemma ceil_mult_bounds:
  fixes a :: int
  assumes "0 < a"
  shows "v \<le> (v + a - 1) div a * a" "(v + a - 1) div a * a < v + a" "a dvd (v + a - 1) div a * a"
proof -
  have "(v + a - 1) div a * a = v + a - 1 - (v + a - 1) mod a"
    by (simp add: minus_mod_eq_div_mult)
  then show "v \<le> (v + a - 1) div a * a" "(v + a - 1) div a * a < v + a"
    using pos_mod_bound[OF assms, of "v + a - 1"] pos_mod_sign[OF assms, of "v + a - 1"] by linarith+
qed simp

lemma mask_align_eq: "is_pow2 a \<Longrightarrow> mask_align v a = (v + a - 1) div a * a"
  by (simp add: mask_align_def and_not_pred_pow2)

interpretation mask_al: aligner mask_align is_pow2
proof unfold_locales
  fix a v :: int
  assume a: "is_pow2 a"
  then have pos: "0 < a" by (rule is_pow2_pos)
  show "0 < a" by (rule pos)
  show "a dvd mask_align v a" "v \<le> mask_align v a" "mask_align v a < v + a"
    using ceil_mult_bounds[OF pos] a by (simp_all add: mask_align_eq)
qed

lemma align_up_mask_align:
  "align_up v a = Inr w \<longleftrightarrow> is_pow2 a \<and> 0 \<le> v \<and> v + (a - 1) < 2 ^ 64 \<and> w = mask_align v a"
  by (auto simp: align_up_Inr_iff mask_align_eq)

lemma ceil_div8: "bits div 8 + (if bits mod 8 \<noteq> 0 then 1 else 0) = (bits + 7) div 8" for bits :: int
proof -
  have r: "0 \<le> bits mod 8" "bits mod 8 < 8" by simp_all
  have "bits + 7 = (bits mod 8 + 7) + (bits div 8) * 8"
    using div_mult_mod_eq[of bits 8] by linarith
  then have "(bits + 7) div 8 = bits div 8 + (bits mod 8 + 7) div 8"
    by (simp only: div_mult_self1)
  also have "(bits mod 8 + 7) div 8 = (if bits mod 8 \<noteq> 0 then 1 else 0)"
    using r by (auto intro: int_div_pos_eq[where r = "bits mod 8 - 1"])
  finally show ?thesis by simp
qed

lemma payload_bytes_Inr_iff:
  "payload_bytes c w = Inr n \<longleftrightarrow> 0 \<le> c \<and> 0 \<le> w \<and> c * w < 2 ^ 64 \<and> n = (c * w + 7) div 8"
  unfolding payload_bytes_def ceil_div8 by (auto simp: bind_res_Inr_iff)

lemma payload_alignment_Inr_iff:
  "payload_alignment s p = Inr a \<longleftrightarrow> 0 \<le> p \<and> 0 \<le> s + p \<and> s + p \<le> 63 \<and> a = 2 ^ nat (s + p)"
  by (auto simp: payload_alignment_def Let_def push_bit_eq_mult)

lemma validate_count_form_Inr:
  "validate_count_form c64 n i = Inr () \<longleftrightarrow>
     (if c64 then 65535 < n \<and> i = 0 else n \<le> 65535 \<and> i = n)"
  by (auto simp: validate_count_form_def)

section \<open>Rounding up\<close>

lemma pow2_fits:
  assumes "is_pow2 a" "0 \<le> v"
  shows "v + (a - 1) < 2 ^ 64 \<longleftrightarrow> (\<exists>k. k \<le> 64 \<and> a = 2 ^ k) \<and> mask_align v a < 2 ^ 64"
proof
  obtain k where k: "a = 2 ^ k" using assms(1) is_pow2_ex by blast
  assume l: "v + (a - 1) < 2 ^ 64"
  have "\<not> 64 < k"
  proof
    assume "64 < k"
    then have "(2::int) ^ 65 \<le> a" unfolding k by (intro power_increasing) auto
    then show False using l assms(2) by simp
  qed
  then show "(\<exists>k. k \<le> 64 \<and> a = 2 ^ k) \<and> mask_align v a < 2 ^ 64"
    using k mask_al.al_lt[OF assms(1), of v] l by auto
next
  assume "(\<exists>k. k \<le> 64 \<and> a = 2 ^ k) \<and> mask_align v a < 2 ^ 64"
  then obtain k where k: "k \<le> 64" "a = 2 ^ k" and lt: "mask_align v a < 2 ^ 64" by blast
  have "a dvd 2 ^ 64" unfolding k(2) using k(1) by (rule le_imp_power_dvd)
  then have "a dvd 2 ^ 64 - mask_align v a" using mask_al.al_dvd[OF assms(1), of v] by (rule dvd_diff)
  then have "a \<le> 2 ^ 64 - mask_align v a" using lt by (intro zdvd_imp_le) auto
  then show "v + (a - 1) < 2 ^ 64" using mask_al.al_ge[OF assms(1), of v] by simp
qed

text \<open>
  \<open>align_up\<close> returns exactly when the alignment is a power of two up to \<open>2^64\<close>, the value is
  not negative and the least multiple of the alignment not below the value still fits in 64
  bits; the result is that multiple.  So the overflow check, made on the intermediate sum
  \<open>value + alignment - 1\<close>, rejects nothing that would have fitted.
\<close>

theorem align_up_exact:
  "align_up v a = Inr w \<longleftrightarrow>
     (\<exists>k. k \<le> 64 \<and> a = 2 ^ k) \<and> 0 \<le> v \<and> w < 2 ^ 64 \<and> least_aligned a v w"
proof (cases "is_pow2 a \<and> 0 \<le> v")
  case True
  then have "least_aligned a v w \<longleftrightarrow> w = mask_align v a" using mask_al.least_aligned_iff by blast
  then show ?thesis using True pow2_fits[of a v] by (auto simp: align_up_mask_align)
next
  case False
  then show ?thesis by (auto simp: align_up_mask_align)
qed

end
