(* ===== verification/V06_Vectors.thy ===== *)
theory V06_Vectors
  imports V06_Geometry
begin

text \<open>
  The normative-vector verifier \<open>scripts/verify_v06_spec_vectors.py\<close>: one function per
  \<open>verify_*\<close> routine over the decoded JSON vectors (records here, one field per JSON key), the
  dispatcher \<open>run_invalid\<close>, and \<open>main\<close>'s total.  Every \<open>assert\<close> is an \<open>AssertionError\<close>
  branch; a routine returns the number of vectors it checked.
\<close>

record geometry_vector =
  gv_base_shift :: int
  gv_base_step :: int
  gv_header_size :: int
  gv_data_region_start :: int

record offset_vector =
  ov_base_shift :: int
  ov_cases :: "(int \<times> bool) list"

record block_geometry =
  bg_header_size :: int
  bg_payload_alignment :: int
  bg_payload_start :: int
  bg_payload_bytes :: int
  bg_payload_end :: int
  bg_next_block_start :: int
  bg_final_data_region_size :: int

record block_vector =
  bv_base_shift :: int
  bv_block_start :: int
  bv_payload_shift :: int
  bv_count64 :: bool
  bv_count :: int
  bv_bit_width :: int
  bv_expected :: block_geometry

record chain_block =
  cb_key_id :: int
  cb_continuation :: bool

record continuation_vector =
  cv_blocks :: "chain_block list"
  cv_accept :: bool
  cv_error :: "string option"

record file_vector =
  fv_hex :: string
  fv_file_size :: int
  fv_base_step :: int
  fv_data_region_start :: int
  fv_data_region_size :: int
  fv_payload_start :: int
  fv_payload_values_u32 :: "int list"

datatype invalid_op =
    OpBaseStep int
  | OpDataRegionStart int int
  | OpPayloadAlignment int int
  | OpPayloadBytes int int
  | OpAlignUp int int
  | OpCountForm bool int int
  | OpKnownDataEnd int int
  | OpUnknown string

record invalid_vector =
  iv_operation :: invalid_op
  iv_error :: string

record vectors =
  v_schema :: string
  v_valid_base_geometry :: "geometry_vector list"
  v_block_offset_cases :: "offset_vector list"
  v_valid_blocks :: "block_vector list"
  v_continuation_cases :: "continuation_vector list"
  v_canonical_file_hex :: "file_vector list"
  v_invalid :: "invalid_vector list"

abbreviation assert_py :: "bool \<Rightarrow> unit res" where
  "assert_py c \<equiv> require c (AssertionError '''')"

section \<open>Verification routines\<close>

definition verify_geometry_vector :: "geometry_vector \<Rightarrow> unit res" where
  "verify_geometry_vector v =
     bind_res (base_step (gv_base_shift v)) (\<lambda>step.
     bind_res (data_region_start (gv_base_shift v) (gv_header_size v)) (\<lambda>start.
     bind_res (assert_py (step = gv_base_step v)) (\<lambda>_.
     bind_res (assert_py (start = gv_data_region_start v)) (\<lambda>_.
     assert_py (start mod step = 0)))))"

definition verify_valid_geometry :: "vectors \<Rightarrow> int res" where
  "verify_valid_geometry vs =
     fold_res (\<lambda>checked v. bind_res (verify_geometry_vector v) (\<lambda>_. Inr (checked + 1)))
       0 (v_valid_base_geometry vs)"

definition verify_offset_case :: "int \<Rightarrow> int \<times> bool \<Rightarrow> unit res" where
  "verify_offset_case step c = (case c of (offset, representable) \<Rightarrow>
     bind_res (assert_py (0 \<le> offset \<and> offset \<le> U64_MAX)) (\<lambda>_.
     assert_py ((offset mod step = 0) = representable)))"

definition verify_block_offsets :: "vectors \<Rightarrow> int res" where
  "verify_block_offsets vs =
     fold_res (\<lambda>checked v.
       bind_res (base_step (ov_base_shift v)) (\<lambda>step.
       fold_res (\<lambda>checked' c. bind_res (verify_offset_case step c) (\<lambda>_. Inr (checked' + 1)))
         checked (ov_cases v)))
     0 (v_block_offset_cases vs)"

text \<open>
  The body of the loop of \<open>verify_valid_blocks\<close>: \<open>block_actual\<close> builds the dictionary
  \<open>actual\<close>; the \<open>min\<close> over the geometry vectors of the same shift with a 24-byte header raises
  \<open>ValueError\<close> on an empty selection.
\<close>

definition region_base :: "vectors \<Rightarrow> int \<Rightarrow> int res" where
  "region_base vs shift =
     (case [gv_data_region_start g. g \<leftarrow> v_valid_base_geometry vs,
            gv_base_shift g = shift \<and> gv_header_size g = 24] of
        [] \<Rightarrow> Inl (ValueError ''min() arg is an empty sequence'')
      | s # ss \<Rightarrow> Inr (fold min ss s))"

definition block_actual :: "vectors \<Rightarrow> block_vector \<Rightarrow> int \<Rightarrow> block_geometry res" where
  "block_actual vs v step = (let start = bv_block_start v; header_size = (if bv_count64 v then 16 else 8) in
     bind_res (validate_count_form (bv_count64 v) (bv_count v) (if bv_count64 v then 0 else bv_count v)) (\<lambda>_.
     bind_res (payload_alignment (bv_base_shift v) (bv_payload_shift v)) (\<lambda>alignment.
     bind_res (bind_res (checked_add start header_size) (\<lambda>h. align_up h alignment)) (\<lambda>payload_start.
     bind_res (payload_bytes (bv_count v) (bv_bit_width v)) (\<lambda>byte_count.
     bind_res (checked_add payload_start byte_count) (\<lambda>payload_end.
     bind_res (align_up payload_end step) (\<lambda>next_start.
     bind_res (region_base vs (bv_base_shift v)) (\<lambda>region.
     Inr \<lparr>bg_header_size = header_size, bg_payload_alignment = alignment,
          bg_payload_start = payload_start, bg_payload_bytes = byte_count,
          bg_payload_end = payload_end, bg_next_block_start = next_start,
          bg_final_data_region_size = payload_end - region\<rparr>))))))))"

definition verify_block_vector :: "vectors \<Rightarrow> block_vector \<Rightarrow> unit res" where
  "verify_block_vector vs v =
     bind_res (base_step (bv_base_shift v)) (\<lambda>step.
     bind_res (assert_py (bv_block_start v mod step = 0)) (\<lambda>_.
     bind_res (block_actual vs v step) (\<lambda>actual.
     bind_res (assert_py (actual = bv_expected v)) (\<lambda>_.
     bind_res (assert_py (bg_payload_start actual mod step = 0)) (\<lambda>_.
     assert_py (bg_payload_start actual mod bg_payload_alignment actual = 0))))))"

definition verify_valid_blocks :: "vectors \<Rightarrow> int res" where
  "verify_valid_blocks vs =
     fold_res (\<lambda>checked v. bind_res (verify_block_vector vs v) (\<lambda>_. Inr (checked + 1)))
       0 (v_valid_blocks vs)"

fun continuation_valid :: "chain_block list \<Rightarrow> bool" where
  "continuation_valid [] = True"
| "continuation_valid [b] = (\<not> cb_continuation b)"
| "continuation_valid (b # c # bs) =
     ((\<not> cb_continuation b \<or> cb_key_id c = cb_key_id b) \<and> continuation_valid (c # bs))"

definition verify_continuation_vector :: "continuation_vector \<Rightarrow> unit res" where
  "verify_continuation_vector v = (let valid = continuation_valid (cv_blocks v) in
     bind_res (assert_py (valid = cv_accept v)) (\<lambda>_.
     if \<not> valid then
       (case cv_error v of None \<Rightarrow> Inl KeyError | Some e \<Rightarrow> assert_py (e = ''invalid_continuation''))
     else Inr ()))"

definition verify_continuation :: "vectors \<Rightarrow> int res" where
  "verify_continuation vs =
     fold_res (\<lambda>checked v. bind_res (verify_continuation_vector v) (\<lambda>_. Inr (checked + 1)))
       0 (v_continuation_cases vs)"

text \<open>
  The body of \<open>verify_file_hex\<close> after \<open>bytes.fromhex\<close>.  The negative offsets and counts of the
  Python code cannot arise here: \<open>start\<close> and \<open>pstart\<close> come from checked non-negative values, so
  offsets are converted with \<open>nat\<close>.
\<close>

definition verify_file_bytes :: "file_vector \<Rightarrow> bytes \<Rightarrow> unit res" where
  "verify_file_bytes v raw =
     bind_res (assert_py (int (length raw) = fv_file_size v)) (\<lambda>_.
     bind_res (assert_py (take 4 raw = [0x56, 0x42, 0x55, 0x46])) (\<lambda>_.
     bind_res (unpack_le 4 raw 4) (\<lambda>version.
     bind_res (assert_py (version = 0x00060000)) (\<lambda>_.
     bind_res (byte_at raw 8) (\<lambda>shift.
     bind_res (base_step shift) (\<lambda>step.
     bind_res (assert_py (step = fv_base_step v)) (\<lambda>_.
     bind_res (unpack_le 2 raw 10) (\<lambda>header_size.
     bind_res (data_region_start shift header_size) (\<lambda>start.
     bind_res (unpack_le 8 raw 16) (\<lambda>region_size.
     bind_res (assert_py (start = fv_data_region_start v)) (\<lambda>_.
     bind_res (assert_py (region_size = fv_data_region_size v)) (\<lambda>_.
     bind_res (checked_add start region_size) (\<lambda>data_end.
     bind_res (assert_py (data_end = int (length raw))) (\<lambda>_.
     bind_res (unpack_le 8 raw (nat start)) (\<lambda>anchor.
     let count = drop_bit 48 anchor AND 0xFFFF; width = drop_bit 32 anchor AND 0xFFFF in
     bind_res (align_up (start + 8) step) (\<lambda>pstart.
     bind_res (payload_bytes count width) (\<lambda>pbytes.
     let pend = pstart + pbytes in
     bind_res (assert_py (pstart = fv_payload_start v \<and> pend = int (length raw))) (\<lambda>_.
     bind_res (map_res (\<lambda>i. unpack_le 4 raw (nat pstart + 4 * i)) [0..<nat count]) (\<lambda>values.
     assert_py (values = fv_payload_values_u32 v))))))))))))))))))))"

definition verify_file_vector :: "file_vector \<Rightarrow> unit res" where
  "verify_file_vector v = bind_res (fromhex (fv_hex v)) (verify_file_bytes v)"

definition verify_file_hex :: "vectors \<Rightarrow> int res" where
  "verify_file_hex vs =
     fold_res (\<lambda>checked v. bind_res (verify_file_vector v) (\<lambda>_. Inr (checked + 1)))
       0 (v_canonical_file_hex vs)"

definition discard :: "'a res \<Rightarrow> unit res" where
  "discard r = bind_res r (\<lambda>_. Inr ())"

definition run_invalid :: "invalid_op \<Rightarrow> unit res" where
  "run_invalid operation = (case operation of
       OpBaseStep shift \<Rightarrow> discard (base_step shift)
     | OpDataRegionStart shift header_size \<Rightarrow> discard (data_region_start shift header_size)
     | OpPayloadAlignment shift payload_shift \<Rightarrow> discard (payload_alignment shift payload_shift)
     | OpPayloadBytes count bit_width \<Rightarrow> discard (payload_bytes count bit_width)
     | OpAlignUp value alignment \<Rightarrow> discard (align_up value alignment)
     | OpCountForm count64 count inline_count \<Rightarrow> validate_count_form count64 count inline_count
     | OpKnownDataEnd start region_size \<Rightarrow> discard (checked_add start region_size)
     | OpUnknown name \<Rightarrow> Inl (AssertionError ''unknown operation''))"

definition verify_invalid_vector :: "invalid_vector \<Rightarrow> unit res" where
  "verify_invalid_vector v = (case run_invalid (iv_operation v) of
       Inl (VectorError code) \<Rightarrow> assert_py (code = iv_error v)
     | Inl e \<Rightarrow> Inl e
     | Inr _ \<Rightarrow> Inl (AssertionError ''invalid vector accepted''))"

definition verify_invalid :: "vectors \<Rightarrow> int res" where
  "verify_invalid vs =
     fold_res (\<lambda>checked v. bind_res (verify_invalid_vector v) (\<lambda>_. Inr (checked + 1)))
       0 (v_invalid vs)"

definition verify_total :: "vectors \<Rightarrow> int res" where
  "verify_total vs =
     bind_res (assert_py (v_schema vs = ''vbuf-v06-normative-vectors-1'')) (\<lambda>_.
     bind_res (verify_valid_geometry vs) (\<lambda>a.
     bind_res (verify_block_offsets vs) (\<lambda>b.
     bind_res (verify_valid_blocks vs) (\<lambda>c.
     bind_res (verify_continuation vs) (\<lambda>d.
     bind_res (verify_file_hex vs) (\<lambda>e.
     bind_res (verify_invalid vs) (\<lambda>f. Inr (a + b + c + d + e + f))))))))"

section \<open>Soundness of the verifier\<close>

lemma fold_count:
  "fold_res (\<lambda>checked v. bind_res (f v) (\<lambda>_. Inr (checked + 1))) c xs = Inr n \<longleftrightarrow>
     (\<forall>v \<in> set xs. f v = Inr ()) \<and> n = c + int (length xs)"
  by (induction xs arbitrary: c) (auto simp: bind_res_Inr_iff)

lemma verify_block_offsets_Inr:
  "fold_res (\<lambda>checked v. bind_res (base_step (ov_base_shift v)) (\<lambda>step.
       fold_res (\<lambda>checked' c. bind_res (verify_offset_case step c) (\<lambda>_. Inr (checked' + 1)))
         checked (ov_cases v))) c0 xs = Inr n \<longleftrightarrow>
   (\<forall>v \<in> set xs. \<exists>step. base_step (ov_base_shift v) = Inr step \<and>
      (\<forall>c \<in> set (ov_cases v). verify_offset_case step c = Inr ())) \<and>
   n = c0 + int (sum_list (map (\<lambda>v. length (ov_cases v)) xs))"
  by (induction xs arbitrary: c0) (auto simp: bind_res_Inr_iff fold_count simp del: base_step_Inr)

lemma verify_offset_case_Inr [simp]:
  "verify_offset_case step c = Inr () \<longleftrightarrow>
     0 \<le> fst c \<and> fst c < 2 ^ 64 \<and> (step dvd fst c \<longleftrightarrow> snd c)"
  by (cases c) (auto simp: verify_offset_case_def bind_res_Inr_iff U64_MAX_eq dvd_eq_mod_eq_0)

lemmas verify_defs = verify_total_def verify_valid_geometry_def verify_block_offsets_def
  verify_valid_blocks_def verify_continuation_def verify_file_hex_def verify_invalid_def

lemma block_actual_InrE:
  assumes "block_actual vs v step = Inr g" and "is_pow2 step"
  obtains al ps n region where
    "0 \<le> bv_payload_shift v" "0 \<le> bv_base_shift v + bv_payload_shift v"
    "al = 2 ^ nat (bv_base_shift v + bv_payload_shift v)"
    "ps = mask_align (bv_block_start v + (if bv_count64 v then 16 else 8)) al"
    "n = (bv_count v * bv_bit_width v + 7) div 8" "ps + n < 2 ^ 64"
    "g = \<lparr>bg_header_size = (if bv_count64 v then 16 else 8), bg_payload_alignment = al,
          bg_payload_start = ps, bg_payload_bytes = n, bg_payload_end = ps + n,
          bg_next_block_start = mask_align (ps + n) step,
          bg_final_data_region_size = ps + n - region\<rparr>"
proof -
  from assms(1) show ?thesis
    unfolding block_actual_def Let_def
    by (simp add: bind_res_Inr_iff align_up_mask_align payload_bytes_Inr_iff
        payload_alignment_Inr_iff del: if_split) (elim exE conjE, rule that[OF _ _ refl refl refl _ sym], assumption+, simp, assumption)
qed

lemma block_actual_placed:
  assumes "base_step (bv_base_shift v) = Inr step" and "block_actual vs v step = Inr g"
  shows "least_aligned (bg_payload_alignment g) (bv_block_start v + bg_header_size g) (bg_payload_start g)"
    and "step dvd bg_payload_alignment g"
    and "least_aligned step (bg_payload_end g) (bg_next_block_start g)"
    and "bg_payload_end g = bg_payload_start g + (bv_count v * bv_bit_width v + 7) div 8"
    and "bg_payload_end g < 2 ^ 64"
proof -
  have s: "is_pow2 step" "step = 2 ^ nat (bv_base_shift v)" "3 \<le> bv_base_shift v"
    using assms(1) by auto
  obtain al ps n region where g:
    "0 \<le> bv_payload_shift v" "al = 2 ^ nat (bv_base_shift v + bv_payload_shift v)"
    "ps = mask_align (bv_block_start v + (if bv_count64 v then 16 else 8)) al"
    "n = (bv_count v * bv_bit_width v + 7) div 8" "ps + n < 2 ^ 64"
    "g = \<lparr>bg_header_size = (if bv_count64 v then 16 else 8), bg_payload_alignment = al,
          bg_payload_start = ps, bg_payload_bytes = n, bg_payload_end = ps + n,
          bg_next_block_start = mask_align (ps + n) step,
          bg_final_data_region_size = ps + n - region\<rparr>"
    using assms(2) s(1) by (rule block_actual_InrE)
  have "nat (bv_base_shift v) \<le> nat (bv_base_shift v + bv_payload_shift v)" using g(1) by simp
  then have "step dvd al" unfolding s(2) g(2) by (rule le_imp_power_dvd)
  then show "step dvd bg_payload_alignment g" using g(6) by simp
  have "is_pow2 al" using g(2) by simp
  from mask_al.al_least_aligned[OF this, of "bv_block_start v + (if bv_count64 v then 16 else 8)"]
  show "least_aligned (bg_payload_alignment g) (bv_block_start v + bg_header_size g) (bg_payload_start g)"
    using g(3,6) by simp
  from mask_al.al_least_aligned[OF s(1), of "ps + n"]
  show "least_aligned step (bg_payload_end g) (bg_next_block_start g)" using g(6) by simp
  show "bg_payload_end g = bg_payload_start g + (bv_count v * bv_bit_width v + 7) div 8"
    "bg_payload_end g < 2 ^ 64" using g(4-6) by simp_all
qed

text \<open>
  Placement of one block: whenever the loop body of \<open>verify_valid_blocks\<close> computes its
  dictionary \<open>actual\<close>, the payload starts at the least multiple of the payload alignment not
  below the end of the block header, that start is a multiple of the base step too, the payload
  ends after the bits rounded up to bytes, and the next block starts at the least base-step
  multiple not below that end.
\<close>

theorem block_placement:
  assumes "base_step (bv_base_shift v) = Inr step" and "block_actual vs v step = Inr g"
  shows "least_aligned (bg_payload_alignment g) (bv_block_start v + bg_header_size g) (bg_payload_start g)
    \<and> step dvd bg_payload_start g
    \<and> bg_payload_end g = bg_payload_start g + (bv_count v * bv_bit_width v + 7) div 8
    \<and> least_aligned step (bg_payload_end g) (bg_next_block_start g)"
proof -
  note placed = block_actual_placed[OF assms]
  have "bg_payload_alignment g dvd bg_payload_start g" using placed(1) unfolding least_aligned_def by blast
  then have "step dvd bg_payload_start g" using placed(2) dvd_trans by blast
  then show ?thesis using placed(1,3,4) by blast
qed

definition sample_geometry :: geometry_vector where
  "sample_geometry = \<lparr>gv_base_shift = 3, gv_base_step = 8, gv_header_size = 24, gv_data_region_start = 24\<rparr>"

definition sample_block :: block_vector where
  "sample_block = \<lparr>bv_base_shift = 3, bv_block_start = 24, bv_payload_shift = 0, bv_count64 = False,
     bv_count = 3, bv_bit_width = 32,
     bv_expected = \<lparr>bg_header_size = 8, bg_payload_alignment = 8, bg_payload_start = 32,
       bg_payload_bytes = 12, bg_payload_end = 44, bg_next_block_start = 48,
       bg_final_data_region_size = 20\<rparr>\<rparr>"

definition sample_file :: file_vector where
  "sample_file = \<lparr>fv_hex = ''5642554600000600030018000000000014000000000000001000010020000300010000000200000003000000'',
     fv_file_size = 44, fv_base_step = 8, fv_data_region_start = 24, fv_data_region_size = 20,
     fv_payload_start = 32, fv_payload_values_u32 = [1, 2, 3]\<rparr>"

definition sample_vectors :: vectors where
  "sample_vectors = \<lparr>v_schema = ''vbuf-v06-normative-vectors-1'',
     v_valid_base_geometry = [sample_geometry],
     v_block_offset_cases = [\<lparr>ov_base_shift = 3, ov_cases = [(0, True), (7, False), (18446744073709551608, True)]\<rparr>],
     v_valid_blocks = [sample_block],
     v_continuation_cases = [\<lparr>cv_blocks = [\<lparr>cb_key_id = 7, cb_continuation = True\<rparr>, \<lparr>cb_key_id = 7, cb_continuation = False\<rparr>],
       cv_accept = True, cv_error = None\<rparr>,
       \<lparr>cv_blocks = [\<lparr>cb_key_id = 7, cb_continuation = True\<rparr>], cv_accept = False, cv_error = Some ''invalid_continuation''\<rparr>],
     v_canonical_file_hex = [sample_file],
     v_invalid = [\<lparr>iv_operation = OpBaseStep 2, iv_error = ''invalid_base_shift''\<rparr>,
       \<lparr>iv_operation = OpKnownDataEnd 24 18446744073709551615, iv_error = ''u64_overflow''\<rparr>]\<rparr>"

theorem block_placement_witness:
  "\<exists>g. block_actual sample_vectors sample_block 8 = Inr g \<and> bg_next_block_start g = 48 \<and>
     8 dvd bg_payload_start g"
proof -
  have step: "base_step (bv_base_shift sample_block) = Inr 8" by code_simp
  have actual: "block_actual sample_vectors sample_block 8 = Inr (bv_expected sample_block)"
    by (simp add: block_actual_def sample_block_def sample_vectors_def sample_geometry_def Let_def
        region_base_def bind_res_Inr_iff payload_alignment_Inr_iff align_up_Inr_iff payload_bytes_Inr_iff
        validate_count_form_def is_pow2_def)
  show ?thesis using block_placement[OF step actual] actual by (auto simp: sample_block_def)
qed

section \<open>Continuation chains\<close>

text \<open>
  The logical value of \<open>spec/spec_0.6.md\<close> section 4.2: physical blocks with one key, all but the
  last with the continuation bit.
\<close>

definition chain :: "chain_block list \<Rightarrow> bool" where
  "chain bs \<longleftrightarrow> bs \<noteq> [] \<and> (\<forall>b \<in> set (butlast bs). cb_continuation b) \<and> \<not> cb_continuation (last bs)
     \<and> (\<forall>b \<in> set bs. cb_key_id b = cb_key_id (hd bs))"

lemma chain_Cons:
  "chain (b # c # bs) \<longleftrightarrow> cb_continuation b \<and> cb_key_id c = cb_key_id b \<and> chain (c # bs)"
  by (auto simp: chain_def)

lemma chain_single [simp]: "chain [b] \<longleftrightarrow> \<not> cb_continuation b"
  by (simp add: chain_def)

lemma continuation_valid_append:
  "chain c \<Longrightarrow> continuation_valid bs \<Longrightarrow> continuation_valid (c @ bs)"
proof (induction c)
  case (Cons b c)
  show ?case
  proof (cases c)
    case Nil
    with Cons.prems show ?thesis by (cases bs) auto
  next
    case (Cons d ds)
    with Cons.IH Cons.prems show ?thesis by (simp add: chain_Cons)
  qed
qed (simp add: chain_def)

text \<open>
  The continuation test accepts a block sequence exactly when it splits into complete logical
  chains: every chain has one key, sets the continuation bit on all blocks but its last, and
  clears it on its last.
\<close>

theorem continuation_valid_iff_chains:
  "continuation_valid bs \<longleftrightarrow> (\<exists>chains. concat chains = bs \<and> list_all chain chains)"
proof
  show "continuation_valid bs \<Longrightarrow> \<exists>chains. concat chains = bs \<and> list_all chain chains"
  proof (induction bs rule: continuation_valid.induct)
    case (3 b c bs)
    then obtain chains where cs: "concat chains = c # bs" "list_all chain chains" by auto
    show ?case
    proof (cases "cb_continuation b")
      case True
      obtain ch rest where ch: "chains = ch # rest" using cs by (cases chains) auto
      with cs have "ch \<noteq> []" by (auto simp: chain_def)
      then obtain ds where "ch = c # ds" using cs(1) ch by (cases ch) auto
      with 3 True cs ch show ?thesis by (intro exI[of _ "(b # ch) # rest"]) (auto simp: chain_Cons)
    next
      case False
      with cs show ?thesis by (intro exI[of _ "[b] # chains"]) simp
    qed
  qed (auto intro: exI[of _ "[]"] exI[of _ "[[_]]"])
  show "\<exists>chains. concat chains = bs \<and> list_all chain chains \<Longrightarrow> continuation_valid bs"
  proof (elim exE conjE)
    fix chains assume "concat chains = bs" "list_all chain chains"
    then show "continuation_valid bs"
      by (induction chains arbitrary: bs) (auto intro: continuation_valid_append)
  qed
qed

section \<open>The gate\<close>

lemma verify_invalid_vector_Inr:
  "verify_invalid_vector v = Inr () \<longleftrightarrow> run_invalid (iv_operation v) = Inl (VectorError (iv_error v))"
  by (auto simp: verify_invalid_vector_def split: sum.splits py_error.splits)

lemma verify_continuation_vector_Inr:
  "verify_continuation_vector v = Inr () \<longleftrightarrow> continuation_valid (cv_blocks v) = cv_accept v \<and>
     (cv_accept v \<or> cv_error v = Some ''invalid_continuation'')"
  by (auto simp: verify_continuation_vector_def Let_def bind_res_Inr_iff split: option.splits)

lemma verify_block_vector_Inr:
  "verify_block_vector vs v = Inr () \<longleftrightarrow> (\<exists>step. base_step (bv_base_shift v) = Inr step \<and>
     step dvd bv_block_start v \<and> block_actual vs v step = Inr (bv_expected v))"
proof -
  have "\<lbrakk>base_step (bv_base_shift v) = Inr step; block_actual vs v step = Inr g\<rbrakk> \<Longrightarrow>
      bg_payload_start g mod step = 0 \<and> bg_payload_start g mod bg_payload_alignment g = 0" for step g
    using block_actual_placed[of v step vs g] by (auto simp: least_aligned_def mod_eq_0_iff_dvd intro: dvd_trans)
  then show ?thesis
    by (auto simp: verify_block_vector_def bind_res_Inr_iff mod_eq_0_iff_dvd simp del: base_step_Inr)
qed

lemma verify_geometry_vector_Inr:
  "verify_geometry_vector v = Inr () \<longleftrightarrow>
     base_step (gv_base_shift v) = Inr (gv_base_step v) \<and>
     data_region_start (gv_base_shift v) (gv_header_size v) = Inr (gv_data_region_start v)"
proof -
  have "base_step s = Inr step \<Longrightarrow> data_region_start s h = Inr st \<Longrightarrow> step dvd st" for s h step st
    using mask_al.al_dvd[of step]
    by (auto simp: data_region_start_def bind_res_Inr_iff align_up_mask_align split: if_splits)
  then show ?thesis
    by (auto simp: verify_geometry_vector_def bind_res_Inr_iff mod_eq_0_iff_dvd simp del: base_step_Inr)
qed

text \<open>
  What a green run of the vector verifier means: the total it prints is the number of vectors
  (offset cases counted one by one), and every vector holds of the modelled arithmetic. The
  alignment assertions of the geometry and block loops are implied by the equality checks, and
  an entry of the invalid list passes only if its operation fails with exactly its code.
\<close>

theorem verify_total_sound:
  "verify_total vs = Inr n \<longleftrightarrow>
     v_schema vs = ''vbuf-v06-normative-vectors-1'' \<and>
     list_all (\<lambda>v. base_step (gv_base_shift v) = Inr (gv_base_step v) \<and>
        data_region_start (gv_base_shift v) (gv_header_size v) = Inr (gv_data_region_start v))
       (v_valid_base_geometry vs) \<and>
     list_all (\<lambda>v. \<exists>step. base_step (ov_base_shift v) = Inr step \<and>
        list_all (\<lambda>(off, r). 0 \<le> off \<and> off < 2 ^ 64 \<and> (step dvd off \<longleftrightarrow> r)) (ov_cases v))
       (v_block_offset_cases vs) \<and>
     list_all (\<lambda>v. \<exists>step. base_step (bv_base_shift v) = Inr step \<and> step dvd bv_block_start v \<and>
        block_actual vs v step = Inr (bv_expected v)) (v_valid_blocks vs) \<and>
     list_all (\<lambda>v. continuation_valid (cv_blocks v) = cv_accept v \<and>
        (cv_accept v \<or> cv_error v = Some ''invalid_continuation'')) (v_continuation_cases vs) \<and>
     list_all (\<lambda>v. verify_file_vector v = Inr ()) (v_canonical_file_hex vs) \<and>
     list_all (\<lambda>v. run_invalid (iv_operation v) = Inl (VectorError (iv_error v))) (v_invalid vs) \<and>
     n = int (length (v_valid_base_geometry vs) + sum_list (map (length \<circ> ov_cases) (v_block_offset_cases vs))
       + length (v_valid_blocks vs) + length (v_continuation_cases vs)
       + length (v_canonical_file_hex vs) + length (v_invalid vs))"
  unfolding verify_defs fold_count verify_block_offsets_Inr bind_res_Inr_iff
    verify_invalid_vector_Inr verify_continuation_vector_Inr verify_block_vector_Inr
    verify_geometry_vector_Inr list_all_iff comp_def
  by (auto simp del: base_step_Inr simp: split_beta)

lemma sample_vectors_verified: "verify_total sample_vectors = Inr 10"
  by code_simp

end
