(* ===== verification/Wire_Format.thy ===== *)
theory Wire_Format
  imports V06_Vectors
begin

text \<open>
  The v0.6 writer of \<open>scripts/build_v06_conformance_fixtures.py\<close>: anchor packing, global header,
  canonical block stream and the in-place patches of the corpus, against a reference reader
  (\<open>spec_parse\<close>) transcribed from sections 3 to 6 of \<open>spec/spec_0.6.md\<close>, which uses the checked
  arithmetic of \<open>V06_Geometry\<close>.
\<close>

section \<open>The writer\<close>

definition VERSION :: int where
  "VERSION = 0x00060000"

definition fixture_align_up :: "int \<Rightarrow> int \<Rightarrow> int" where
  "fixture_align_up value alignment = (value + alignment - 1) AND NOT (alignment - 1)"

definition anchor ::
  "int \<Rightarrow> int \<Rightarrow> bool \<Rightarrow> bool \<Rightarrow> int \<Rightarrow> int \<Rightarrow> int \<Rightarrow> int \<Rightarrow> int option \<Rightarrow> int" where
  "anchor semantic physical continuation count64 payload_shift key width count inline_override =
     (let inline = (case inline_override of None \<Rightarrow> (if count64 then 0 else count) | Some i \<Rightarrow> i) in
      semantic OR push_bit 4 physical OR push_bit 8 (of_bool continuation) OR
      push_bit 9 (of_bool count64) OR push_bit 10 payload_shift OR push_bit 16 key OR
      push_bit 32 width OR push_bit 48 inline)"

definition zero_bytes :: "int \<Rightarrow> bytes res" where
  "zero_bytes n = (if n < 0 then Inl (ValueError ''negative count'') else Inr (replicate (nat n) 0))"

definition byte_pair :: "int \<Rightarrow> int \<Rightarrow> bytes res" where
  "byte_pair a b = (if 0 \<le> a \<and> a < 256 \<and> 0 \<le> b \<and> b < 256 then Inr [word_of_int a, word_of_int b]
     else Inl (ValueError ''bytes must be in range(0, 256)''))"

definition shift_left :: "int \<Rightarrow> int \<Rightarrow> int res" where
  "shift_left x n = (if n < 0 then Inl (ValueError ''negative shift count'') else Inr (push_bit (nat n) x))"

definition global_header :: "int \<Rightarrow> int \<Rightarrow> int \<Rightarrow> int \<Rightarrow> bytes \<Rightarrow> int \<Rightarrow> bytes res" where
  "global_header base_shift data_size flags header_size extension reserved =
     bind_res (pack_le 4 VERSION) (\<lambda>ver.
     bind_res (byte_pair base_shift flags) (\<lambda>bf.
     bind_res (pack_le 2 header_size) (\<lambda>hs.
     bind_res (pack_le 4 reserved) (\<lambda>rs.
     bind_res (pack_le 8 data_size) (\<lambda>ds.
     let raw = [0x56, 0x42, 0x55, 0x46] @ ver @ bf @ hs @ rs @ ds @ extension in
     bind_res (assert_py (int (length raw) = header_size)) (\<lambda>_.
     bind_res (shift_left 1 base_shift) (\<lambda>step.
     bind_res (zero_bytes (fixture_align_up header_size step - header_size)) (\<lambda>pad.
     Inr (raw @ pad)))))))))"

text \<open>A block of the corpus is a dictionary; every key but \<open>count\<close> has a default.\<close>

record block_spec =
  bs_semantic :: "int option"
  bs_physical :: "int option"
  bs_continuation :: "bool option"
  bs_count64 :: "bool option"
  bs_payload_shift :: "int option"
  bs_key :: "int option"
  bs_width :: "int option"
  bs_count :: int
  bs_payload :: "bytes option"

definition opt_get :: "'a \<Rightarrow> 'a option \<Rightarrow> 'a" where
  "opt_get d x = (case x of None \<Rightarrow> d | Some v \<Rightarrow> v)"

definition block_count64 :: "block_spec \<Rightarrow> bool" where
  "block_count64 b = opt_get (bs_count b > 65535) (bs_count64 b)"

definition block_anchor :: "block_spec \<Rightarrow> int" where
  "block_anchor b = anchor (opt_get 0 (bs_semantic b)) (opt_get 1 (bs_physical b))
     (opt_get False (bs_continuation b)) (block_count64 b) (opt_get 0 (bs_payload_shift b))
     (opt_get 1 (bs_key b)) (opt_get 8 (bs_width b)) (bs_count b) None"

definition emit_block :: "int \<Rightarrow> int \<Rightarrow> bytes \<Rightarrow> block_spec \<Rightarrow> bytes res" where
  "emit_block step data_start data b =
     bind_res (assert_py ((data_start + int (length data)) mod step = 0)) (\<lambda>_.
     bind_res (pack_le 8 (block_anchor b)) (\<lambda>a.
     bind_res (if block_count64 b then pack_le 8 (bs_count b) else Inr []) (\<lambda>c.
     bind_res (shift_left step (opt_get 0 (bs_payload_shift b))) (\<lambda>payload_alignment.
     let at = data_start + int (length (data @ a @ c)) in
     bind_res (zero_bytes (fixture_align_up at payload_alignment - at)) (\<lambda>pad.
     Inr (data @ a @ c @ pad @ opt_get [] (bs_payload b)))))))"

definition pad_block :: "int \<Rightarrow> int \<Rightarrow> bytes \<Rightarrow> bytes res" where
  "pad_block step data_start data = (let at = data_start + int (length data) in
     bind_res (zero_bytes (fixture_align_up at step - at)) (\<lambda>pad. Inr (data @ pad)))"

fun canonical_blocks :: "int \<Rightarrow> int \<Rightarrow> bytes \<Rightarrow> block_spec list \<Rightarrow> bytes res" where
  "canonical_blocks step data_start data [] = Inr data"
| "canonical_blocks step data_start data (b # bs) =
     bind_res (emit_block step data_start data b) (\<lambda>d.
     bind_res (if bs \<noteq> [] then pad_block step data_start d else Inr d) (\<lambda>d'.
     canonical_blocks step data_start d' bs))"

definition canonical :: "block_spec list \<Rightarrow> int \<Rightarrow> int \<Rightarrow> int \<Rightarrow> bytes \<Rightarrow> bytes res" where
  "canonical blocks base_shift flags header_size extension =
     bind_res (shift_left 1 base_shift) (\<lambda>step.
     bind_res (canonical_blocks step (fixture_align_up header_size step) [] blocks) (\<lambda>data.
     let data_size = (if flags AND 1 \<noteq> 0 then 0 else int (length data)) in
     bind_res (global_header base_shift data_size flags header_size extension 0) (\<lambda>header.
     Inr (header @ data))))"

text \<open>
  Slice assignment \<open>raw[offset:offset + n] = value\<close> on a \<open>bytearray\<close>, at non-negative offsets as
  the corpus uses it.
\<close>

definition slice_assign :: "bytes \<Rightarrow> nat \<Rightarrow> nat \<Rightarrow> bytes \<Rightarrow> bytes" where
  "slice_assign raw offset n value = take offset raw @ value @ drop (offset + n) raw"

definition set_u16 :: "bytes \<Rightarrow> nat \<Rightarrow> int \<Rightarrow> bytes res" where
  "set_u16 raw offset value = bind_res (pack_le 2 value) (\<lambda>b. Inr (slice_assign raw offset 2 b))"

definition set_u32 :: "bytes \<Rightarrow> nat \<Rightarrow> int \<Rightarrow> bytes res" where
  "set_u32 raw offset value = bind_res (pack_le 4 value) (\<lambda>b. Inr (slice_assign raw offset 4 b))"

definition set_u64 :: "bytes \<Rightarrow> nat \<Rightarrow> int \<Rightarrow> bytes res" where
  "set_u64 raw offset value = bind_res (pack_le 8 value) (\<lambda>b. Inr (slice_assign raw offset 8 b))"

section \<open>The reference reader\<close>

record anchor_view =
  av_semantic :: int
  av_physical :: int
  av_continuation :: bool
  av_count64 :: bool
  av_payload_shift :: int
  av_key :: int
  av_width :: int
  av_inline :: int

definition bits_at :: "nat \<Rightarrow> nat \<Rightarrow> int \<Rightarrow> int" where
  "bits_at k n a = a div 2 ^ k mod 2 ^ n"

definition read_anchor :: "int \<Rightarrow> anchor_view" where
  "read_anchor a = \<lparr>av_semantic = bits_at 0 4 a, av_physical = bits_at 4 4 a,
     av_continuation = (bits_at 8 1 a = 1), av_count64 = (bits_at 9 1 a = 1),
     av_payload_shift = bits_at 10 6 a, av_key = bits_at 16 16 a,
     av_width = bits_at 32 16 a, av_inline = bits_at 48 16 a\<rparr>"

record block_view =
  bw_anchor :: anchor_view
  bw_count :: int
  bw_payload :: bytes

definition legal_codes :: "int \<Rightarrow> int \<Rightarrow> int \<Rightarrow> int \<Rightarrow> bool" where
  "legal_codes semantic physical width count \<longleftrightarrow>
     (semantic = 0 \<and> width \<in> {8, 16, 32, 64} \<or> semantic = 1 \<and> width \<in> {32, 64} \<or>
      semantic = 2 \<and> width \<in> {8, 16, 32, 64} \<or> semantic = 3 \<and> width = 8) \<and>
     (physical = 0 \<and> count = 1 \<or> physical = 1)"

definition zero_range :: "bytes \<Rightarrow> int \<Rightarrow> int \<Rightarrow> bool" where
  "zero_range raw a b = list_all (\<lambda>x. x = 0) (take (nat (b - a)) (drop (nat a) raw))"

abbreviation spec_require :: "bool \<Rightarrow> string \<Rightarrow> unit res" where
  "spec_require c e \<equiv> require c (VectorError e)"

definition read_block :: "int \<Rightarrow> bytes \<Rightarrow> int \<Rightarrow> (block_view \<times> int) res" where
  "read_block base_shift raw pos =
     bind_res (unpack_le 8 raw (nat pos)) (\<lambda>a. let v = read_anchor a in
     bind_res (if av_count64 v then unpack_le 8 raw (nat pos + 8) else Inr (av_inline v)) (\<lambda>count.
     bind_res (validate_count_form (av_count64 v) count (av_inline v)) (\<lambda>_.
     bind_res (spec_require (legal_codes (av_semantic v) (av_physical v) (av_width v) count) ''codes'') (\<lambda>_.
     bind_res (checked_add pos (if av_count64 v then 16 else 8)) (\<lambda>header_end.
     bind_res (payload_alignment base_shift (av_payload_shift v)) (\<lambda>alignment.
     bind_res (align_up header_end alignment) (\<lambda>payload_start.
     bind_res (payload_bytes count (av_width v)) (\<lambda>n.
     bind_res (checked_add payload_start n) (\<lambda>payload_end.
     bind_res (spec_require (payload_end \<le> int (length raw)) ''truncated'') (\<lambda>_.
     bind_res (spec_require (zero_range raw header_end payload_start) ''padding'') (\<lambda>_.
     Inr (\<lparr>bw_anchor = v, bw_count = count,
           bw_payload = take (nat n) (drop (nat payload_start) raw)\<rparr>, payload_end))))))))))))"

text \<open>One unit of fuel per block; a block occupies at least eight bytes.\<close>

fun read_blocks :: "nat \<Rightarrow> int \<Rightarrow> int \<Rightarrow> bytes \<Rightarrow> int \<Rightarrow> block_view list res" where
  "read_blocks 0 base_shift step raw pos = Inl (VectorError ''fuel'')"
| "read_blocks (Suc fuel) base_shift step raw pos =
     bind_res (read_block base_shift raw pos) (\<lambda>(b, payload_end).
     if payload_end = int (length raw) then Inr [b]
     else bind_res (align_up payload_end step) (\<lambda>next.
       bind_res (spec_require (next < int (length raw)) ''tail'') (\<lambda>_.
       bind_res (spec_require (zero_range raw payload_end next) ''padding'') (\<lambda>_.
       bind_res (read_blocks fuel base_shift step raw next) (\<lambda>bs. Inr (b # bs))))))"

text \<open>Header extensions: only optional records can be skipped (section 3.1).\<close>

fun skip_extensions :: "nat \<Rightarrow> bytes \<Rightarrow> unit res" where
  "skip_extensions 0 ext = Inl (VectorError ''fuel'')"
| "skip_extensions (Suc fuel) ext =
     (if ext = [] then Inr ()
      else bind_res (unpack_le 2 ext 2) (\<lambda>ext_flags.
        bind_res (unpack_le 4 ext 4) (\<lambda>n.
        bind_res (spec_require (ext_flags = 0) ''extension_flags'') (\<lambda>_.
        bind_res (spec_require (8 \<le> n \<and> n mod 8 = 0 \<and> n \<le> int (length ext)) ''extension_size'') (\<lambda>_.
        skip_extensions fuel (drop (nat n) ext))))))"

definition chain_view :: "block_view \<Rightarrow> chain_block" where
  "chain_view b = \<lparr>cb_key_id = av_key (bw_anchor b), cb_continuation = av_continuation (bw_anchor b)\<rparr>"

definition spec_parse :: "bytes \<Rightarrow> (int \<times> bool \<times> block_view list) res" where
  "spec_parse raw =
     bind_res (spec_require (24 \<le> length raw) ''short'') (\<lambda>_.
     bind_res (spec_require (take 4 raw = [0x56, 0x42, 0x55, 0x46]) ''magic'') (\<lambda>_.
     bind_res (unpack_le 4 raw 4) (\<lambda>version.
     bind_res (spec_require (version = 0x00060000) ''version'') (\<lambda>_.
     bind_res (byte_at raw 8) (\<lambda>base_shift.
     bind_res (byte_at raw 9) (\<lambda>flags.
     bind_res (base_step base_shift) (\<lambda>step.
     bind_res (spec_require (flags = 0 \<or> flags = 1) ''flags'') (\<lambda>_.
     bind_res (unpack_le 2 raw 10) (\<lambda>header_size.
     bind_res (unpack_le 4 raw 12) (\<lambda>reserved.
     bind_res (spec_require (reserved = 0) ''reserved'') (\<lambda>_.
     bind_res (data_region_start base_shift header_size) (\<lambda>start.
     bind_res (spec_require (start \<le> int (length raw)) ''short'') (\<lambda>_.
     bind_res (skip_extensions (length raw) (take (nat header_size - 24) (drop 24 raw))) (\<lambda>_.
     bind_res (spec_require (zero_range raw header_size start) ''padding'') (\<lambda>_.
     bind_res (unpack_le 8 raw 16) (\<lambda>data_size.
     bind_res (if flags = 1 then spec_require (data_size = 0) ''indefinite''
               else bind_res (checked_add start data_size) (\<lambda>e. spec_require (e = int (length raw)) ''region'')) (\<lambda>_.
     bind_res (if start = int (length raw) then Inr []
               else read_blocks (length raw) base_shift step raw start) (\<lambda>blocks.
     bind_res (spec_require (continuation_valid (map chain_view blocks)) ''continuation'') (\<lambda>_.
     Inr (base_shift, flags = 1, blocks))))))))))))))))))))"

section \<open>Anchor fields\<close>

interpretation fixture_al: aligner fixture_align_up is_pow2
  using mask_al.aligner_axioms by (simp add: fixture_align_up_def[abs_def] mask_align_def[abs_def])

lemma fixture_align_up_eq: "fixture_align_up = mask_align"
  by (simp add: fun_eq_iff fixture_align_up_def mask_align_def)

lemma or_disjoint:
  assumes "0 \<le> a" "a < 2 ^ k"
  shows "a OR push_bit k b = a + 2 ^ k * (b :: int)"
proof -
  have "a AND push_bit k b = 0"
  proof (rule bit_eqI)
    fix n
    have "take_bit k a = a" using assms by (simp add: take_bit_int_eq_self_iff)
    then have "bit a n \<Longrightarrow> n < k" by (metis bit_take_bit_iff)
    then show "bit (a AND push_bit k b) n = bit 0 n" by (auto simp: bit_simps)
  qed
  then have "a OR push_bit k b = a + push_bit k b" using plus_and_or[of a "push_bit k b"] by simp
  then show ?thesis by (simp add: push_bit_eq_mult mult.commute)
qed

definition anchor_in_range :: "anchor_view \<Rightarrow> bool" where
  "anchor_in_range v \<longleftrightarrow> av_semantic v \<in> {0..<16} \<and> av_physical v \<in> {0..<16} \<and>
     av_payload_shift v \<in> {0..<64} \<and> av_key v \<in> {0..<65536} \<and> av_width v \<in> {0..<65536} \<and>
     av_inline v \<in> {0..<65536}"

lemma anchor_sum:
  assumes "0 \<le> s" "s < 16" "0 \<le> p" "p < 16" "0 \<le> sh" "sh < 64" "0 \<le> k" "k < 65536" "0 \<le> w" "w < 65536"
  shows "anchor s p c c64 sh k w n ov = s + 2 ^ 4 * p + 2 ^ 8 * of_bool c + 2 ^ 9 * of_bool c64 +
    2 ^ 10 * sh + 2 ^ 16 * k + 2 ^ 32 * w +
    2 ^ 48 * (case ov of None \<Rightarrow> if c64 then 0 else n | Some i \<Rightarrow> i)"
proof -
  obtain c' :: int where c: "of_bool c = c'" "0 \<le> c'" "c' < 2" by (cases c) auto
  obtain d' :: int where d: "of_bool c64 = d'" "0 \<le> d'" "d' < 2" by (cases c64) auto
  show ?thesis
    unfolding anchor_def Let_def c(1) d(1) or.assoc[symmetric]
    using assms c(2,3) d(2,3) by (simp only: or_disjoint power_numeral) (simp add: or_disjoint)
qed

lemma bits_at_sum:
  assumes "0 \<le> lo" "lo < 2 ^ k" "0 \<le> f" "f < 2 ^ n"
  shows "bits_at k n (lo + 2 ^ k * (f + 2 ^ n * hi)) = f"
  using assms by (simp add: bits_at_def)

lemma read_anchor_sum:
  assumes "0 \<le> s" "s < 2 ^ 4" "0 \<le> p" "p < 2 ^ 4" "0 \<le> c" "c < 2" "0 \<le> d" "d < 2"
    "0 \<le> sh" "sh < 2 ^ 6" "0 \<le> k" "k < 2 ^ 16" "0 \<le> w" "w < 2 ^ 16" "0 \<le> i" "i < 2 ^ 16"
    and A: "A = s + 2 ^ 4 * p + 2 ^ 8 * c + 2 ^ 9 * d + 2 ^ 10 * sh + 2 ^ 16 * k + 2 ^ 32 * w + 2 ^ 48 * i"
  shows "bits_at 0 4 A = s" "bits_at 4 4 A = p" "bits_at 8 1 A = c" "bits_at 9 1 A = d"
    "bits_at 10 6 A = sh" "bits_at 16 16 A = k" "bits_at 32 16 A = w" "bits_at 48 16 A = i"
    "0 \<le> A" "A < 256 ^ 8"
proof -
  have e: "A = 0 + 2 ^ 0 * (s + 2 ^ 4 * (p + 2 ^ 4 * (c + 2 * (d + 2 * (sh + 2 ^ 6 * (k + 2 ^ 16 * (w + 2 ^ 16 * i)))))))"
    "A = s + 2 ^ 4 * (p + 2 ^ 4 * (c + 2 * (d + 2 * (sh + 2 ^ 6 * (k + 2 ^ 16 * (w + 2 ^ 16 * i))))))"
    "A = (s + 2 ^ 4 * p) + 2 ^ 8 * (c + 2 ^ 1 * (d + 2 * (sh + 2 ^ 6 * (k + 2 ^ 16 * (w + 2 ^ 16 * i)))))"
    "A = (s + 2 ^ 4 * p + 2 ^ 8 * c) + 2 ^ 9 * (d + 2 ^ 1 * (sh + 2 ^ 6 * (k + 2 ^ 16 * (w + 2 ^ 16 * i))))"
    "A = (s + 2 ^ 4 * p + 2 ^ 8 * c + 2 ^ 9 * d) + 2 ^ 10 * (sh + 2 ^ 6 * (k + 2 ^ 16 * (w + 2 ^ 16 * i)))"
    "A = (s + 2 ^ 4 * p + 2 ^ 8 * c + 2 ^ 9 * d + 2 ^ 10 * sh) + 2 ^ 16 * (k + 2 ^ 16 * (w + 2 ^ 16 * i))"
    "A = (s + 2 ^ 4 * p + 2 ^ 8 * c + 2 ^ 9 * d + 2 ^ 10 * sh + 2 ^ 16 * k) + 2 ^ 32 * (w + 2 ^ 16 * i)"
    "A = (s + 2 ^ 4 * p + 2 ^ 8 * c + 2 ^ 9 * d + 2 ^ 10 * sh + 2 ^ 16 * k + 2 ^ 32 * w) + 2 ^ 48 * (i + 2 ^ 16 * 0)"
    unfolding A by simp_all
  show "bits_at 0 4 A = s" by (subst e(1), rule bits_at_sum) (use assms in simp_all)
  show "bits_at 4 4 A = p" by (subst e(2), rule bits_at_sum) (use assms in simp_all)
  show "bits_at 8 1 A = c" by (subst e(3), rule bits_at_sum) (use assms in simp_all)
  show "bits_at 9 1 A = d" by (subst e(4), rule bits_at_sum) (use assms in simp_all)
  show "bits_at 10 6 A = sh" by (subst e(5), rule bits_at_sum) (use assms in simp_all)
  show "bits_at 16 16 A = k" by (subst e(6), rule bits_at_sum) (use assms in simp_all)
  show "bits_at 32 16 A = w" by (subst e(7), rule bits_at_sum) (use assms in simp_all)
  show "bits_at 48 16 A = i" by (subst e(8), rule bits_at_sum) (use assms in simp_all)
  show "0 \<le> A" "A < 256 ^ 8" unfolding A using assms by simp_all
qed

lemma anchor_fields:
  assumes "anchor_in_range \<lparr>av_semantic = s, av_physical = p, av_continuation = c, av_count64 = c64,
      av_payload_shift = sh, av_key = k, av_width = w,
      av_inline = (case ov of None \<Rightarrow> if c64 then 0 else n | Some i \<Rightarrow> i)\<rparr>"
  shows "read_anchor (anchor s p c c64 sh k w n ov) =
      \<lparr>av_semantic = s, av_physical = p, av_continuation = c, av_count64 = c64,
       av_payload_shift = sh, av_key = k, av_width = w,
       av_inline = (case ov of None \<Rightarrow> if c64 then 0 else n | Some i \<Rightarrow> i)\<rparr> \<and>
    0 \<le> anchor s p c c64 sh k w n ov \<and> anchor s p c c64 sh k w n ov < 2 ^ 64"
proof -
  define i where "i = (case ov of None \<Rightarrow> if c64 then 0 else n | Some i \<Rightarrow> i)"
  have r: "0 \<le> s" "s < 2 ^ 4" "0 \<le> p" "p < 2 ^ 4" "0 \<le> (of_bool c :: int)" "(of_bool c :: int) < 2"
    "0 \<le> (of_bool c64 :: int)" "(of_bool c64 :: int) < 2" "0 \<le> sh" "sh < 2 ^ 6" "0 \<le> k" "k < 2 ^ 16"
    "0 \<le> w" "w < 2 ^ 16" "0 \<le> i" "i < 2 ^ 16"
    using assms by (auto simp: anchor_in_range_def i_def)
  have "anchor s p c c64 sh k w n ov = s + 2 ^ 4 * p + 2 ^ 8 * of_bool c + 2 ^ 9 * of_bool c64 +
      2 ^ 10 * sh + 2 ^ 16 * k + 2 ^ 32 * w + 2 ^ 48 * i"
    unfolding i_def using r by (intro anchor_sum) simp_all
  note read_anchor_sum[OF r this]
  then show ?thesis by (simp add: read_anchor_def i_def)
qed

text \<open>
  Anchor packing loses nothing: for fields within their widths the packed word fits in 64 bits
  and the layout of section 4 reads every field back, the inline count being the override when
  one is given, zero for the extended form, and the count otherwise.
\<close>

theorem anchor_roundtrip:
  assumes "anchor_in_range \<lparr>av_semantic = s, av_physical = p, av_continuation = c, av_count64 = c64,
      av_payload_shift = sh, av_key = k, av_width = w,
      av_inline = (case ov of None \<Rightarrow> if c64 then 0 else n | Some i \<Rightarrow> i)\<rparr>"
  shows "read_anchor (anchor s p c c64 sh k w n ov) =
      \<lparr>av_semantic = s, av_physical = p, av_continuation = c, av_count64 = c64,
       av_payload_shift = sh, av_key = k, av_width = w,
       av_inline = (case ov of None \<Rightarrow> if c64 then 0 else n | Some i \<Rightarrow> i)\<rparr> \<and>
    0 \<le> anchor s p c c64 sh k w n ov \<and> anchor s p c c64 sh k w n ov < 2 ^ 64"
  using assms by (rule anchor_fields)

theorem anchor_roundtrip_witness:
  "anchor 2 1 True False 3 4660 16 65535 None < 2 ^ 64 \<and>
   av_key (read_anchor (anchor 2 1 True False 3 4660 16 65535 None)) = 4660"
  using anchor_roundtrip[of 2 1 True False 3 4660 16 65535 None] by (simp add: anchor_in_range_def)

section \<open>Reading back what the writer wrote\<close>

definition spec_block_ok :: "int \<Rightarrow> block_spec \<Rightarrow> bool" where
  "spec_block_ok base_shift b \<longleftrightarrow>
     legal_codes (opt_get 0 (bs_semantic b)) (opt_get 1 (bs_physical b)) (opt_get 8 (bs_width b)) (bs_count b) \<and>
     0 \<le> bs_count b \<and> block_count64 b = (bs_count b > 65535) \<and>
     0 \<le> opt_get 0 (bs_payload_shift b) \<and> base_shift + opt_get 0 (bs_payload_shift b) \<le> 63 \<and>
     opt_get 1 (bs_key b) \<in> {0..<65536} \<and>
     int (length (opt_get [] (bs_payload b))) = (bs_count b * opt_get 8 (bs_width b) + 7) div 8"

definition block_view_of :: "block_spec \<Rightarrow> block_view" where
  "block_view_of b = \<lparr>bw_anchor = \<lparr>av_semantic = opt_get 0 (bs_semantic b), av_physical = opt_get 1 (bs_physical b),
       av_continuation = opt_get False (bs_continuation b), av_count64 = block_count64 b,
       av_payload_shift = opt_get 0 (bs_payload_shift b), av_key = opt_get 1 (bs_key b),
       av_width = opt_get 8 (bs_width b), av_inline = (if block_count64 b then 0 else bs_count b)\<rparr>,
     bw_count = bs_count b, bw_payload = opt_get [] (bs_payload b)\<rparr>"

lemma legal_codes_bounds:
  "legal_codes s p w c \<Longrightarrow> 0 \<le> s \<and> s < 16 \<and> 0 \<le> p \<and> p < 16 \<and> 0 \<le> w \<and> w < 65536"
  unfolding legal_codes_def by (elim conjE disjE; simp; elim disjE; simp)

lemma block_anchor_read:
  assumes "spec_block_ok base_shift b" "3 \<le> base_shift"
  shows "read_anchor (block_anchor b) = bw_anchor (block_view_of b)"
    and "0 \<le> block_anchor b" "block_anchor b < 256 ^ 8"
proof -
  have "anchor_in_range (bw_anchor (block_view_of b))"
    using assms unfolding spec_block_ok_def
    by (elim conjE) (drule legal_codes_bounds, simp add: anchor_in_range_def block_view_of_def)
  from anchor_fields[where ov = None and n = "bs_count b" and s = "opt_get 0 (bs_semantic b)", simplified option.case, OF this[unfolded block_view_of_def block_view.select_convs]]
  show "read_anchor (block_anchor b) = bw_anchor (block_view_of b)"
    "0 \<le> block_anchor b" "block_anchor b < 256 ^ 8"
    by (simp_all add: block_anchor_def block_view_of_def)
qed

lemma zero_bytes_Inr [simp]: "zero_bytes n = Inr z \<longleftrightarrow> 0 \<le> n \<and> z = replicate (nat n) 0"
  by (auto simp: zero_bytes_def)

lemma shift_left_Inr [simp]: "shift_left x n = Inr y \<longleftrightarrow> 0 \<le> n \<and> y = x * 2 ^ nat n"
  by (auto simp: shift_left_def push_bit_eq_mult)

lemma zero_range_replicate:
  "length pre = nat a \<Longrightarrow> 0 \<le> a \<Longrightarrow> zero_range (pre @ replicate (nat (b - a)) 0 @ suf) a b"
  by (simp add: zero_range_def list_all_iff)

text \<open>The bytes of one emitted block, and the reader on any file that has them at its position.\<close>

lemma emit_blockE:
  assumes "emit_block step ds data b = Inr d"
  obtains a c pad where
    "pack_le 8 (block_anchor b) = Inr a" "(if block_count64 b then pack_le 8 (bs_count b) else Inr []) = Inr c"
    "pad = replicate (nat (mask_align (ds + int (length data + length a + length c)) (step * 2 ^ nat (opt_get 0 (bs_payload_shift b)))
       - (ds + int (length data + length a + length c)))) 0"
    "d = data @ a @ c @ pad @ opt_get [] (bs_payload b)"
  using assms
  by (auto simp: emit_block_def Let_def bind_res_Inr_iff fixture_align_up_eq add.assoc simp del: pack_le_Inr)

lemma read_block_emit:
  assumes ok: "spec_block_ok base_shift b" and bs: "3 \<le> base_shift" "base_shift \<le> 8"
    and step: "step = 2 ^ nat base_shift"
    and pre: "int (length pre) = ds" and emit: "emit_block step ds data b = Inr d"
    and small: "int (length (pre @ d)) < 2 ^ 60"
  shows "read_block base_shift (pre @ d @ suf) (ds + int (length data)) =
    Inr (block_view_of b, ds + int (length d))"
proof -
  obtain a c pad where a: "pack_le 8 (block_anchor b) = Inr a"
    and c: "(if block_count64 b then pack_le 8 (bs_count b) else Inr []) = Inr c"
    and pad: "pad = replicate (nat (mask_align (ds + int (length data + length a + length c)) (step * 2 ^ nat (opt_get 0 (bs_payload_shift b)))
       - (ds + int (length data + length a + length c)))) 0"
    and d: "d = data @ a @ c @ pad @ opt_get [] (bs_payload b)"
    using emit by (rule emit_blockE)
  define P where "P = ds + int (length data)"
  define sh where "sh = opt_get 0 (bs_payload_shift b)"
  define he where "he = P + (if block_count64 b then 16 else 8)"
  define al where "al = (2::int) ^ nat (base_shift + sh)"
  define ps where "ps = mask_align he al"
  define raw where "raw = pre @ d @ suf"
  have sh: "0 \<le> sh" "base_shift + sh \<le> 63" using ok by (auto simp: spec_block_ok_def sh_def)
  have P0: "0 \<le> P" "length (pre @ data) = nat P" using pre by (auto simp: P_def)
  have lens: "length a = 8" "length c = (if block_count64 b then 8 else 0)" using a c by (auto split: if_splits)
  have al_step: "step * 2 ^ nat sh = al"
    unfolding step al_def using sh bs by (simp add: nat_add_distrib power_add)
  have he: "ds + int (length data + length a + length c) = he" using lens by (simp add: he_def P_def)
  have pw: "is_pow2 al" by (simp add: al_def)
  have he_ps: "he \<le> ps" unfolding ps_def by (rule mask_al.al_ge[OF pw])
  have pad': "pad = replicate (nat (ps - he)) 0" unfolding pad he sh_def[symmetric] al_step ps_def ..
  have len_front: "int (length (pre @ data @ a @ c @ pad)) = ps"
    using lens pre he_ps by (simp add: pad' he_def P_def)
  have end': "int (length (pre @ d)) = ps + int (length (opt_get [] (bs_payload b)))"
    using len_front by (simp add: d)
  have pl: "int (length (opt_get [] (bs_payload b))) = (bs_count b * opt_get 8 (bs_width b) + 7) div 8"
    using ok by (simp add: spec_block_ok_def)
  note view = block_anchor_read[OF ok bs(1)]
  have u1: "unpack_le 8 raw (nat P) = Inr (block_anchor b)"
    using pack_unpack[OF a, of "pre @ data" "c @ pad @ opt_get [] (bs_payload b) @ suf"] P0 by (simp add: raw_def d)
  have u2: "block_count64 b \<Longrightarrow> unpack_le 8 raw (nat P + 8) = Inr (bs_count b)"
  proof -
    assume c64: "block_count64 b"
    have "length (pre @ data @ a) = nat P + 8" using P0(2) lens by simp
    then show ?thesis
      using pack_unpack[of 8 "bs_count b" c "pre @ data @ a" "pad @ opt_get [] (bs_payload b) @ suf"] c c64
      by (simp add: raw_def d del: length_append pack_le_Inr)
  qed
  have al_up: "align_up he al = Inr ps"
  proof -
    have "ps < 2 ^ 64" using end' small by simp
    moreover have "\<exists>k. k \<le> 64 \<and> al = 2 ^ k" using sh by (intro exI[of _ "nat (base_shift + sh)"]) (auto simp: al_def)
    ultimately show ?thesis
      unfolding align_up_mask_align using pw P0(1) pow2_fits[OF pw, of he] by (simp add: ps_def he_def)
  qed
  have pay_al: "payload_alignment base_shift sh = Inr al"
    unfolding payload_alignment_Inr_iff using sh bs by (simp add: al_def)
  let ?bits = "bs_count b * opt_get 8 (bs_width b)"
  have w: "0 \<le> bs_count b" "0 \<le> opt_get 8 (bs_width b)"
    using ok by (auto simp: spec_block_ok_def dest!: legal_codes_bounds)
  have bits: "?bits < 2 ^ 64" and ps0: "0 \<le> ps"
    using end' small pl he_ps P0(1) by (simp_all add: he_def split: if_splits)
  have pb: "payload_bytes (bs_count b) (opt_get 8 (bs_width b)) = Inr (int (length (opt_get [] (bs_payload b))))"
    unfolding payload_bytes_Inr_iff using w bits pl by simp
  have end'': "ps + int (length (opt_get [] (bs_payload b))) = ds + int (length d)" using end' pre by simp
  have zr: "zero_range raw he ps"
    using zero_range_replicate[of "pre @ data @ a @ c" he ps "opt_get [] (bs_payload b) @ suf"] lens P0 he pre
    by (simp add: raw_def d pad' he_def)
  have payload: "take (length (opt_get [] (bs_payload b))) (drop (nat ps) raw) = opt_get [] (bs_payload b)"
  proof -
    have "length (pre @ data @ a @ c @ pad) = nat ps" using len_front by simp
    then have "drop (nat ps) ((pre @ data @ a @ c @ pad) @ opt_get [] (bs_payload b) @ suf) = opt_get [] (bs_payload b) @ suf"
      by (metis append_eq_conv_conj)
    then show ?thesis by (simp add: raw_def d)
  qed
  have vc: "validate_count_form (block_count64 b) (bs_count b) (if block_count64 b then 0 else bs_count b) = Inr ()"
    using ok by (auto simp: validate_count_form_Inr spec_block_ok_def)
  have lc: "legal_codes (opt_get 0 (bs_semantic b)) (opt_get 1 (bs_physical b)) (opt_get 8 (bs_width b)) (bs_count b)"
    using ok by (simp add: spec_block_ok_def)
  have ca: "checked_add P (if block_count64 b then 16 else 8) = Inr he"
    "checked_add ps (int (length (opt_get [] (bs_payload b)))) = Inr (ds + int (length d))"
    using P0(1) ps0 end' end'' small he_ps by (auto simp: he_def)
  have tr: "ds + int (length d) \<le> int (length raw)" using pre by (simp add: raw_def)
  show ?thesis
    unfolding read_block_def raw_def[symmetric] P_def[symmetric] u1
    by (simp add: view(1) block_view_of_def u2 vc lc ca pay_al[unfolded sh_def] al_up pb tr zr payload
        del: checked_add_Inr cong: if_cong)
qed

text \<open>
  The whole stream: the reader started at the position of the next block returns the views of the
  blocks that remain.
\<close>

lemma canonical_blocks_prefix:
  assumes "canonical_blocks step ds data bs = Inr out"
  shows "\<exists>suf. out = data @ suf"
  using assms
proof (induction bs arbitrary: data)
  case (Cons b bs)
  then obtain d d' where d: "emit_block step ds data b = Inr d" and
    d': "(if bs \<noteq> [] then pad_block step ds d else Inr d) = Inr d'" and rest: "canonical_blocks step ds d' bs = Inr out"
    by (auto simp: bind_res_Inr_iff simp del: if_split)
  from Cons.IH[OF rest] obtain s1 where "out = d' @ s1" by blast
  moreover obtain s2 where "d' = d @ s2"
    using d' by (auto simp: pad_block_def Let_def bind_res_Inr_iff split: if_splits)
  moreover obtain s3 where "d = data @ s3" using d by (elim emit_blockE) auto
  ultimately show ?case by simp
qed simp

lemma emit_block_length: "emit_block step ds data b = Inr d \<Longrightarrow> length data + 8 \<le> length d"
  by (elim emit_blockE) auto

lemma canonical_blocks_length:
  "canonical_blocks step ds data bs = Inr out \<Longrightarrow> length data + 8 * length bs \<le> length out"
proof (induction bs arbitrary: data)
  case (Cons b bs)
  then obtain d d' where d: "emit_block step ds data b = Inr d" and
    d': "(if bs \<noteq> [] then pad_block step ds d else Inr d) = Inr d'" and rest: "canonical_blocks step ds d' bs = Inr out"
    by (auto simp: bind_res_Inr_iff simp del: if_split)
  have "length d \<le> length d'"
    using d' by (auto simp: pad_block_def Let_def bind_res_Inr_iff split: if_splits)
  with emit_block_length[OF d] Cons.IH[OF rest] show ?case by simp
qed simp

lemma read_blocks_canonical:
  assumes "canonical_blocks step ds data bs = Inr out" and "bs \<noteq> []"
    and "list_all (spec_block_ok base_shift) bs" and bsh: "3 \<le> base_shift" "base_shift \<le> 8"
    and step: "step = 2 ^ nat base_shift" and pre: "int (length pre) = ds"
    and small: "int (length (pre @ out)) < 2 ^ 60" and "length bs \<le> fuel"
  shows "read_blocks fuel base_shift step (pre @ out) (ds + int (length data)) = Inr (map block_view_of bs)"
  using assms(1,2,3,9)
proof (induction bs arbitrary: data fuel)
  case (Cons b bs)
  then obtain fuel' where fuel: "fuel = Suc fuel'" by (cases fuel) auto
  from Cons.prems(1) obtain d d' where d: "emit_block step ds data b = Inr d" and
    d': "(if bs \<noteq> [] then pad_block step ds d else Inr d) = Inr d'" and rest: "canonical_blocks step ds d' bs = Inr out"
    by (auto simp: bind_res_Inr_iff simp del: if_split)
  obtain s1 where s1: "out = d' @ s1" using canonical_blocks_prefix[OF rest] by blast
  obtain s2 where s2: "d' = d @ s2"
    using d' by (auto simp: pad_block_def Let_def bind_res_Inr_iff split: if_splits)
  have out: "pre @ out = pre @ d @ (s2 @ s1)" by (simp add: s1 s2)
  have "read_block base_shift (pre @ d @ (s2 @ s1)) (ds + int (length data)) = Inr (block_view_of b, ds + int (length d))"
    by (rule read_block_emit) (use Cons.prems bsh step pre d small in \<open>simp_all add: s1 s2\<close>)
  then have read: "read_block base_shift (pre @ out) (ds + int (length data)) = Inr (block_view_of b, ds + int (length d))"
    using out by simp
  show ?case
  proof (cases "bs = []")
    case True
    then have "out = d" using d' rest by simp
    then show ?thesis using read pre by (simp add: fuel True)
  next
    case False
    let ?e = "ds + int (length d)"
    have pw: "is_pow2 step" by (simp add: step)
    have s2': "s2 = replicate (nat (mask_align ?e step - ?e)) 0"
      using d' False by (simp add: pad_block_def Let_def bind_res_Inr_iff fixture_align_up_eq s2)
    have ge: "?e \<le> mask_align ?e step" by (rule mask_al.al_ge[OF pw])
    then have nx: "mask_align ?e step = ds + int (length d')" by (simp add: s2 s2')
    have more: "length d' + 8 \<le> length out"
      using canonical_blocks_length[OF rest] False by (cases bs) auto
    then have lt: "?e \<noteq> int (length (pre @ out))" "mask_align ?e step < int (length (pre @ out))"
      using pre by (simp_all add: nx s2)
    have au: "align_up ?e step = Inr (mask_align ?e step)"
    proof -
      have "\<exists>k. k \<le> 64 \<and> step = 2 ^ k" using bsh by (intro exI[of _ "nat base_shift"]) (auto simp: step)
      then show ?thesis unfolding align_up_mask_align
        using pow2_fits[OF pw, of ?e] pw pre lt small by auto
    qed
    have zr: "zero_range (pre @ out) ?e (mask_align ?e step)"
    proof -
      have "length (pre @ d) = nat ?e" "0 \<le> ?e" using pre by auto
      from zero_range_replicate[OF this, of "mask_align ?e step" s1] show ?thesis
        by (simp only: s1 s2 s2' append_assoc)
    qed
    have "read_blocks fuel' base_shift step (pre @ out) (mask_align ?e step) = Inr (map block_view_of bs)"
      unfolding nx using rest False Cons.prems fuel by (intro Cons.IH) auto
    then show ?thesis using read lt au zr by (simp add: fuel)
  qed
qed simp

text \<open>Reading a plain 24-byte header back.\<close>

definition plain_header :: "int \<Rightarrow> int \<Rightarrow> int \<Rightarrow> bytes" where
  "plain_header base_shift data_size flags = [0x56, 0x42, 0x55, 0x46] @ le_enc 4 VERSION @
     [word_of_int base_shift, word_of_int flags] @ le_enc 2 24 @ le_enc 4 0 @ le_enc 8 data_size"

lemma global_header_plain:
  assumes "3 \<le> base_shift"
  shows "global_header base_shift data_size flags 24 [] 0 = Inr h \<longleftrightarrow>
     0 \<le> data_size \<and> data_size < 256 ^ 8 \<and> 0 \<le> flags \<and> flags < 256 \<and> base_shift < 256 \<and>
     h = plain_header base_shift data_size flags @
       replicate (nat (mask_align 24 (2 ^ nat base_shift) - 24)) 0"
proof -
  have "24 \<le> mask_align 24 (2 ^ nat base_shift)" by (rule mask_al.al_ge) simp
  then show ?thesis using assms
    by (auto simp: global_header_def bind_res_Inr_iff Let_def byte_pair_def VERSION_def plain_header_def
        fixture_align_up_eq)
qed

lemma plain_header_fields:
  fixes rest :: bytes
  assumes "0 \<le> data_size" "data_size < 256 ^ 8" "0 \<le> flags" "flags < 256" "0 \<le> base_shift" "base_shift < 256"
  defines "raw \<equiv> plain_header base_shift data_size flags @ rest"
  shows "take 4 raw = [0x56, 0x42, 0x55, 0x46]" "unpack_le 4 raw 4 = Inr 0x00060000"
    "byte_at raw 8 = Inr base_shift" "byte_at raw 9 = Inr flags" "unpack_le 2 raw 10 = Inr 24"
    "unpack_le 4 raw 12 = Inr 0" "unpack_le 8 raw 16 = Inr data_size" "24 \<le> length raw"
proof -
  let ?m = "[0x56, 0x42, 0x55, 0x46] :: bytes" and ?b = "[word_of_int base_shift, word_of_int flags] :: bytes"
  have p: "pack_le 4 VERSION = Inr (le_enc 4 VERSION)" "pack_le 2 24 = Inr (le_enc 2 24)"
    "pack_le 4 0 = Inr (le_enc 4 0)" "pack_le 8 data_size = Inr (le_enc 8 data_size)"
    using assms by (simp_all add: VERSION_def)
  have m: "length (?m @ le_enc 4 VERSION) = 8" "length (?m @ le_enc 4 VERSION @ ?b) = 10"
    "length (?m @ le_enc 4 VERSION @ ?b @ le_enc 2 24) = 12"
    "length (?m @ le_enc 4 VERSION @ ?b @ le_enc 2 24 @ le_enc 4 0) = 16" "length ?m = 4" by simp_all
  show "take 4 raw = ?m" by (simp add: raw_def plain_header_def)
  show "unpack_le 4 raw 4 = Inr 0x00060000"
    using pack_unpack[OF p(1), of ?m] unfolding m(5) by (simp add: raw_def plain_header_def VERSION_def)
  show "unpack_le 2 raw 10 = Inr 24"
    using pack_unpack[OF p(2), of "?m @ le_enc 4 VERSION @ ?b"] unfolding m(2) by (simp add: raw_def plain_header_def)
  show "unpack_le 4 raw 12 = Inr 0"
    using pack_unpack[OF p(3), of "?m @ le_enc 4 VERSION @ ?b @ le_enc 2 24"] unfolding m(3)
    by (simp add: raw_def plain_header_def)
  show "unpack_le 8 raw 16 = Inr data_size"
    using pack_unpack[OF p(4), of "?m @ le_enc 4 VERSION @ ?b @ le_enc 2 24 @ le_enc 4 0"] unfolding m(4)
    by (simp add: raw_def plain_header_def)
  show "24 \<le> length raw" by (simp add: raw_def plain_header_def)
  have "raw ! 8 = word_of_int base_shift" "raw ! 9 = word_of_int flags"
    by (simp_all add: raw_def plain_header_def nth_append)
  moreover have "9 < length raw" by (simp add: raw_def plain_header_def)
  ultimately show "byte_at raw 8 = Inr base_shift" "byte_at raw 9 = Inr flags"
    using assms by (simp_all add: byte_at_def uint_word_of_int)
qed

lemma spec_parse_canonical:
  assumes "canonical bs base_shift flags 24 [] = Inr raw"
    and "3 \<le> base_shift" "base_shift \<le> 8" "flags = 0 \<or> flags = 1"
    and "list_all (spec_block_ok base_shift) bs"
    and "continuation_valid (map (chain_view \<circ> block_view_of) bs)"
    and "int (length raw) < 2 ^ 60"
  shows "spec_parse raw = Inr (base_shift, flags = 1, map block_view_of bs)"
proof -
  define step :: int where "step = 2 ^ nat base_shift"
  define ds where "ds = mask_align 24 step"
  have pw: "is_pow2 step" by (simp add: step_def)
  have ds24: "24 \<le> ds" unfolding ds_def by (rule mask_al.al_ge[OF pw])
  have sl: "shift_left 1 base_shift = Inr step" using assms(2) by (simp add: step_def)
  obtain data h size where data: "canonical_blocks step ds [] bs = Inr data"
    and size: "size = (if flags AND 1 \<noteq> 0 then 0 else int (length data))"
    and h: "global_header base_shift size flags 24 [] 0 = Inr h" and raw: "raw = h @ data"
    using assms(1) by (auto simp: canonical_def bind_res_Inr_iff Let_def sl fixture_align_up_eq ds_def simp del: shift_left_Inr)
  from h have size': "0 \<le> size" "size < 256 ^ 8" "0 \<le> flags" "flags < 256" "0 \<le> base_shift" "base_shift < 256"
    and h': "h = plain_header base_shift size flags @ replicate (nat (ds - 24)) 0"
    using assms(2) by (simp_all add: global_header_plain ds_def step_def)
  have len_h: "int (length h) = ds" using ds24 by (simp add: h' plain_header_def)
  note fields = plain_header_fields[OF size', of "replicate (nat (ds - 24)) 0 @ data"]
  have raw': "raw = plain_header base_shift size flags @ replicate (nat (ds - 24)) 0 @ data" by (simp add: raw h')
  have start: "data_region_start base_shift 24 = Inr ds"
  proof -
    have "step \<le> 2 ^ 8" unfolding step_def using assms(3) by (intro power_increasing) auto
    then show ?thesis using assms(2,3) pw
      by (simp add: data_region_start_def bind_res_Inr_iff align_up_mask_align ds_def step_def)
  qed
  have step': "base_step base_shift = Inr step" using assms(2,3) by (simp add: step_def)
  have zr: "zero_range raw 24 ds"
    unfolding raw' by (rule zero_range_replicate) (simp_all add: plain_header_def)
  have region: "(if flags = 1 then spec_require (size = 0) ''indefinite''
      else bind_res (checked_add ds size) (\<lambda>e. spec_require (e = int (length raw)) ''region'')) = Inr ()"
    using assms(4,7) ds24 len_h by (auto simp: size raw bind_res_Inr_iff)
  have blocks: "(if ds = int (length raw) then Inr [] else read_blocks (length raw) base_shift step raw ds) =
      Inr (map block_view_of bs)"
  proof (cases bs)
    case Nil
    then show ?thesis using data len_h by (simp add: raw)
  next
    case (Cons b bs')
    have "8 * length bs \<le> length data" using canonical_blocks_length[OF data] by simp
    then have ne: "data \<noteq> []" and len: "length bs \<le> length raw" using Cons by (auto simp: raw)
    have "read_blocks (length raw) base_shift step (h @ data) (ds + int (length ([] :: bytes))) = Inr (map block_view_of bs)"
      using data assms(2,3,5,7) len_h len Cons by (intro read_blocks_canonical) (auto simp: step_def raw)
    then show ?thesis using len_h ne by (simp add: raw)
  qed
  have ds_le: "ds \<le> int (length raw)" using len_h by (simp add: raw)
  have skip: "skip_extensions (length raw) (take (nat 24 - 24) (drop 24 raw)) = Inr ()"
    using fields(8)[folded raw'] by (cases "length raw") auto
  have cont: "continuation_valid (map chain_view (map block_view_of bs))" using assms(6) by simp
  show ?thesis
    unfolding spec_parse_def
    by (simp only: fields[folded raw'] step' start zr region blocks cont bind_res_simps require_simps
        assms(4) ds_le skip) (simp add: cont)
qed

text \<open>
  C1. The writer is inverted by the specification's reader: for well-formed blocks (legal codes,
  canonical count form, payload of the declared size, payload shift within bounds), a known-size
  or indefinite stream and a valid continuation structure, \<open>canonical\<close> succeeds only with a file
  from which the strict reader of sections 3 to 6 recovers the base shift, the flag and every
  block's fields and payload, in order.
\<close>

theorem canonical_roundtrip:
  assumes "canonical bs base_shift flags 24 [] = Inr raw"
    and "3 \<le> base_shift" "base_shift \<le> 8" "flags = 0 \<or> flags = 1"
    and "list_all (spec_block_ok base_shift) bs"
    and "continuation_valid (map (chain_view \<circ> block_view_of) bs)"
    and "int (length raw) < 2 ^ 60"
  shows "spec_parse raw = Inr (base_shift, flags = 1, map block_view_of bs)"
  using assms by (rule spec_parse_canonical)

definition sample_blocks :: "block_spec list" where
  "sample_blocks =
    [\<lparr>bs_semantic = None, bs_physical = None, bs_continuation = Some True, bs_count64 = None, bs_payload_shift = Some 1,
      bs_key = Some 7, bs_width = None, bs_count = 3, bs_payload = Some [1, 2, 3]\<rparr>,
     \<lparr>bs_semantic = Some 2, bs_physical = Some 0, bs_continuation = None, bs_count64 = None, bs_payload_shift = None,
      bs_key = Some 7, bs_width = Some 16, bs_count = 1, bs_payload = Some [255, 127]\<rparr>]"

lemma sample_canonical:
  "\<exists>raw. canonical sample_blocks 4 0 24 [] = Inr raw \<and> length raw = 98"
proof -
  have "(case canonical sample_blocks 4 0 24 [] of Inl _ \<Rightarrow> False | Inr raw \<Rightarrow> length raw = 98)"
    by code_simp
  then show ?thesis by (auto split: sum.splits)
qed

theorem canonical_roundtrip_witness:
  "\<exists>raw. canonical sample_blocks 4 0 24 [] = Inr raw \<and>
     spec_parse raw = Inr (4, False, map block_view_of sample_blocks)"
proof -
  obtain raw where raw: "canonical sample_blocks 4 0 24 [] = Inr raw" "length raw = 98"
    using sample_canonical by blast
  have ok: "list_all (spec_block_ok 4) sample_blocks"
    "continuation_valid (map (chain_view \<circ> block_view_of) sample_blocks)"
    by (simp_all add: sample_blocks_def spec_block_ok_def opt_get_def block_count64_def legal_codes_def
        chain_view_def block_view_of_def)
  show ?thesis using canonical_roundtrip[OF raw(1) _ _ _ ok] raw by simp
qed

end
