(* ===== verification/Fixtures.thy ===== *)
theory Fixtures
  imports Wire_Format "HOL-Library.Multiset" "HOL-Library.List_Lexorder" "HOL-Library.Char_ord"
begin

text \<open>
  The conformance corpus of \<open>scripts/build_v06_conformance_fixtures.py\<close>: \<open>fixtures\<close>, entry by entry
  and patch by patch, \<open>manifest_for\<close> (with \<open>hashlib.sha256\<close> as the parameter \<open>sha\<close>) and the
  verification branch of \<open>main\<close>.  The corpus is evaluated in the kernel against the reference
  reader of \<open>Wire_Format\<close>.
\<close>

section \<open>Corpus\<close>

type_synonym fixture = "string \<times> bool \<times> bytes \<times> string"

definition default_block :: block_spec where
  "default_block = \<lparr>bs_semantic = None, bs_physical = None, bs_continuation = None, bs_count64 = None,
     bs_payload_shift = None, bs_key = None, bs_width = None, bs_count = 0, bs_payload = None\<rparr>"

text \<open>The literal dictionary \<open>{"key": .., "width": .., "count": .., "payload": ..}\<close>.\<close>

definition blk :: "int \<Rightarrow> int \<Rightarrow> int \<Rightarrow> bytes \<Rightarrow> block_spec" where
  "blk k w n p = default_block\<lparr>bs_key := Some k, bs_width := Some w, bs_count := n, bs_payload := Some p\<rparr>"

definition with_semantic :: "int \<Rightarrow> block_spec \<Rightarrow> block_spec" where
  "with_semantic s b = b\<lparr>bs_semantic := Some s\<rparr>"

definition with_continuation :: "block_spec \<Rightarrow> block_spec" where
  "with_continuation b = b\<lparr>bs_continuation := Some True\<rparr>"

text \<open>\<open>struct.pack\<close> of literals of one width; the literals of the corpus are in range.\<close>

definition packs :: "nat \<Rightarrow> int list \<Rightarrow> bytes" where
  "packs n vs = concat (map (le_enc n) vs)"

text \<open>\<open>struct.pack("<HHI", ..)\<close>, an extension header.\<close>

definition pack_hhi :: "int \<Rightarrow> int \<Rightarrow> int \<Rightarrow> bytes" where
  "pack_hhi a b c = le_enc 2 a @ le_enc 2 b @ le_enc 4 c"

text \<open>IEEE 754 bit patterns of the float literals: 1.5, -2.25 (binary32); 1.5, 3.5, -4.75 (binary64).\<close>

definition f32_1_5 :: int where "f32_1_5 = 0x3FC00000"
definition f32_m2_25 :: int where "f32_m2_25 = 0xC0100000"
definition f64_1_5 :: int where "f64_1_5 = 0x3FF8000000000000"
definition f64_3_5 :: int where "f64_3_5 = 0x400C000000000000"
definition f64_m4_75 :: int where "f64_m4_75 = 0xC013000000000000"

definition header3 :: "int \<Rightarrow> bytes res" where
  "header3 data_size = global_header 3 data_size 0 24 [] 0"

definition canonical3 :: "block_spec list \<Rightarrow> bytes res" where
  "canonical3 bs = canonical bs 3 0 24 []"

definition append_res :: "bytes res \<Rightarrow> bytes \<Rightarrow> bytes res" where
  "append_res r s = bind_res r (\<lambda>b. Inr (b @ s))"

definition basic :: "bytes res" where
  "basic = canonical3 [blk 1 32 3 (packs 4 [1, 2, 3])]"

definition primitive_blocks :: "block_spec list" where
  "primitive_blocks = [
     blk 10 8 3 [1, 2, 255],
     blk 11 16 2 (packs 2 [0x1234, 0xabcd]),
     blk 12 32 2 (packs 4 [1, 0xdeadbeef]),
     blk 13 64 2 (packs 8 [1, 0x0102030405060708]),
     with_semantic 2 (blk 14 8 2 (packs 1 [-1, 2])),
     with_semantic 2 (blk 15 16 2 (packs 2 [-2, 3])),
     with_semantic 2 (blk 16 32 2 (packs 4 [-3, 4])),
     with_semantic 2 (blk 17 64 2 (packs 8 [-4, 5])),
     with_semantic 1 (blk 18 32 2 (packs 4 [f32_1_5, f32_m2_25])),
     with_semantic 1 (blk 19 64 2 (packs 8 [f64_3_5, f64_m4_75])),
     with_semantic 3 (blk 20 8 3 [97, 98, 99]),
     (blk 21 32 1 (packs 4 [42]))\<lparr>bs_physical := Some 0\<rparr>,
     with_continuation (with_semantic 3 (blk 22 8 1 [65])),
     with_semantic 3 (blk 22 8 1 [66])]"

definition valid_items :: "(string \<times> bool \<times> bytes res \<times> string) list" where
  "valid_items = [
     (''valid-basic.vbuf'', True, basic, ''known-size u32 array; partial final BaseStep''),
     (''valid-empty.vbuf'', True, header3 0, ''known-size empty stream''),
     (''valid-zero-array.vbuf'', True, canonical3 [blk 2 8 0 []], ''zero-length array''),
     (''valid-duplicate-chain.vbuf'', True, canonical3
        [with_continuation (blk 7 8 1 [65]), with_continuation (blk 7 8 1 [66]), blk 7 8 1 [67]],
        ''three duplicate KeyIDs with valid 1-to-1-to-0 forward continuation''),
     (''valid-duplicate-unchained.vbuf'', True, canonical3 [blk 7 8 1 [65], blk 7 8 1 [66]],
        ''duplicate KeyID without grouping''),
     (''valid-optional-extension.vbuf'', True, canonical [] 3 0 32 (pack_hhi 99 0 8),
        ''unknown optional extension skipped''),
     (''valid-indefinite.vbuf'', True, canonical [blk 1 32 3 (packs 4 [1, 2, 3])] 3 1 24 [],
        ''complete indefinite stream at EOF''),
     (''valid-writer-primitives.vbuf'', True, canonical primitive_blocks 4 0 24 [],
        ''canonical portable primitives, scalar, and forward continuation'')]"

definition invalid_items :: "(string \<times> bool \<times> bytes res \<times> string) list" where
  "invalid_items = [
     (''short-header.vbuf'', False, Inr [0x56, 0x42, 0x55, 0x46, 0, 0, 6, 0], ''short global header''),
     (''bad-magic.vbuf'', False, basic, ''bad magic''),
     (''unsupported-version.vbuf'', False, basic, ''unsupported version''),
     (''base-shift-low.vbuf'', False, basic, ''BaseShift below range''),
     (''base-shift-high.vbuf'', False, basic, ''BaseShift above range''),
     (''unknown-flags.vbuf'', False, basic, ''unknown global flag''),
     (''invalid-header-size.vbuf'', False, basic, ''HeaderSize not divisible by eight''),
     (''reserved-nonzero.vbuf'', False, basic, ''reserved field non-zero''),
     (''nonzero-global-padding.vbuf'', False, canonical [] 4 0 24 [], ''non-zero global alignment padding''),
     (''truncated-anchor.vbuf'', False, append_res (header3 4) [0x10, 0, 0, 0], ''truncated block anchor''),
     (''truncated-extended-count.vbuf'', False,
        append_res (header3 8) (packs 8 [anchor 0 1 False True 0 1 8 70000 None]), ''truncated extended count''),
     (''count-overflow.vbuf'', False,
        append_res (header3 16) (packs 8 [anchor 0 1 False True 0 1 64 0 None, push_bit 64 1 - 1]),
        ''count times width overflow''),
     (''payload-truncated-byte.vbuf'', False,
        bind_res (canonical3 [blk 1 32 3 (packs 4 [1, 2, 3])]) (\<lambda>r. Inr (butlast r)), ''payload truncated by one byte''),
     (''payload-truncated-element.vbuf'', False,
        canonical3 [with_semantic 1 (blk 2 64 2 (packs 8 [f64_1_5]))], ''two Float64 declared; one available''),
     (''invalid-payload-shift.vbuf'', False,
        append_res (header3 8) (packs 8 [anchor 0 1 False False 61 1 8 1 None]), ''combined payload shift exceeds 63''),
     (''invalid-semantic.vbuf'', False, basic, ''reserved semantic''),
     (''invalid-physical.vbuf'', False, basic, ''reserved physical mode''),
     (''unsupported-width.vbuf'', False, basic, ''unsupported integer width''),
     (''impossible-scalar-count.vbuf'', False,
        append_res (header3 8) (packs 8 [anchor 0 0 False False 0 1 8 0 None]), ''scalar count is not one''),
     (''malformed-extension-zero.vbuf'', False, global_header 3 0 0 32 (pack_hhi 99 0 0) 0, ''zero extension length''),
     (''malformed-extension-overrun.vbuf'', False, global_header 3 0 0 32 (pack_hhi 99 0 16) 0,
        ''extension exceeds HeaderSize''),
     (''unknown-required-extension.vbuf'', False, global_header 3 0 0 32 (pack_hhi 99 1 8) 0,
        ''unknown required extension''),
     (''known-size-mismatch.vbuf'', False, basic, ''known DataRegionSize differs from physical length''),
     (''known-size-overflow.vbuf'', False, bind_res basic (\<lambda>r. Inr (take 24 r)), ''data-region end addition overflow''),
     (''known-size-over-4g.vbuf'', False, bind_res basic (\<lambda>r. Inr (take 24 r)),
        ''declared range exceeds 4 GiB and physical input''),
     (''indefinite-nonzero-size.vbuf'', False, basic, ''indefinite stream carries size''),
     (''indefinite-truncated.vbuf'', False,
        canonical [with_semantic 1 (blk 2 64 2 (packs 8 [f64_1_5]))] 3 1 24 [], ''truncated final indefinite block''),
     (''final-tail-padding.vbuf'', False, append_res basic [0, 0, 0, 0], ''unnecessary final padding''),
     (''nonzero-payload-padding.vbuf'', False, canonical [blk 1 32 1 (packs 4 [1])] 4 0 24 [],
        ''non-zero payload alignment padding''),
     (''unaligned-block-start.vbuf'', False, canonical3 [blk 1 8 1 [65], blk 2 8 1 [66]],
        ''non-zero bytes before canonical next block''),
     (''noncanonical-extended-small.vbuf'', False,
        append_res (header3 16) (packs 8 [anchor 0 1 False True 0 1 8 1 None, 1]), ''small count uses extended form''),
     (''noncanonical-extended-inline.vbuf'', False,
        append_res (header3 16) (packs 8 [anchor 0 1 False True 0 1 8 70000 (Some 1), 70000]),
        ''extended form has inline count''),
     (''continuation-final.vbuf'', False, canonical3 [with_continuation (blk 7 8 1 [65])],
        ''final block sets Continuation''),
     (''chain-key-mismatch.vbuf'', False, canonical3 [with_continuation (blk 7 8 1 [65]), blk 8 8 1 [66]],
        ''forward continuation KeyID differs from next block'')]"

definition build_item :: "string \<times> bool \<times> bytes res \<times> string \<Rightarrow> fixture res" where
  "build_item i = (case i of (name, accept, r, case_text) \<Rightarrow>
     bind_res r (\<lambda>raw. Inr (name, accept, raw, case_text)))"

text \<open>Patches: \<open>out[name][1][offset] = value\<close>, \<open>set_u16/32/64\<close> and \<open>struct.pack_into\<close>.\<close>

definition set_byte :: "nat \<Rightarrow> int \<Rightarrow> bytes \<Rightarrow> bytes res" where
  "set_byte offset value raw =
     (if offset < length raw
      then if 0 \<le> value \<and> value < 256 then Inr (raw[offset := word_of_int value])
           else Inl (ValueError ''byte must be in range(0, 256)'')
      else Inl IndexError)"

definition rewrite_anchor :: "(int \<Rightarrow> int) \<Rightarrow> bytes \<Rightarrow> bytes res" where
  "rewrite_anchor f raw = bind_res (unpack_le 8 raw 24) (\<lambda>raw_anchor. set_u64 raw 24 (f raw_anchor))"

definition patch :: "string \<times> (bytes \<Rightarrow> bytes res) \<Rightarrow> fixture list \<Rightarrow> fixture list res" where
  "patch p items = (case p of (name, f) \<Rightarrow> (case map_of items name of
       None \<Rightarrow> Inl KeyError
     | Some (accept, raw, case_text) \<Rightarrow>
         bind_res (f raw) (\<lambda>raw'. Inr (AList.update name (accept, raw', case_text) items))))"

definition fixture_patches :: "(string \<times> (bytes \<Rightarrow> bytes res)) list" where
  "fixture_patches = [
     (''bad-magic.vbuf'', set_byte 0 0),
     (''unsupported-version.vbuf'', \<lambda>r. set_u32 r 4 0x00050000),
     (''base-shift-low.vbuf'', set_byte 8 2),
     (''base-shift-high.vbuf'', set_byte 8 9),
     (''unknown-flags.vbuf'', set_byte 9 2),
     (''invalid-header-size.vbuf'', \<lambda>r. set_u16 r 10 25),
     (''reserved-nonzero.vbuf'', \<lambda>r. set_u32 r 12 1),
     (''nonzero-global-padding.vbuf'', set_byte 24 1),
     (''payload-truncated-byte.vbuf'', \<lambda>r. set_u64 r 16 (int (length r) - 24)),
     (''payload-truncated-element.vbuf'', \<lambda>r. set_u64 r 16 (int (length r) - 24)),
     (''invalid-semantic.vbuf'', rewrite_anchor (\<lambda>a. (a AND NOT 0xf) OR 4)),
     (''invalid-physical.vbuf'', rewrite_anchor (\<lambda>a. (a AND NOT (push_bit 4 0xf)) OR push_bit 4 2)),
     (''unsupported-width.vbuf'', rewrite_anchor (\<lambda>a. (a AND NOT (push_bit 32 0xffff)) OR push_bit 32 24)),
     (''known-size-mismatch.vbuf'', \<lambda>r. set_u64 r 16 21),
     (''known-size-overflow.vbuf'', \<lambda>r. set_u64 r 16 (push_bit 64 1 - 1)),
     (''known-size-over-4g.vbuf'', \<lambda>r. set_u64 r 16 (push_bit 32 1)),
     (''indefinite-nonzero-size.vbuf'', set_byte 9 1),
     (''final-tail-padding.vbuf'', \<lambda>r. set_u64 r 16 24),
     (''nonzero-payload-padding.vbuf'', set_byte 40 1),
     (''unaligned-block-start.vbuf'', set_byte 34 0x10)]"

definition fixtures :: "fixture list res" where
  "fixtures = bind_res (map_res build_item (valid_items @ invalid_items)) (\<lambda>out.
     fold_res (\<lambda>items p. patch p items) out fixture_patches)"

section \<open>Manifest and verification\<close>

record manifest_file =
  mf_path :: string
  mf_accept :: bool
  mf_size :: int
  mf_sha256 :: string
  mf_case :: string

record corpus_manifest =
  cm_schema :: string
  cm_authority :: string
  cm_files :: "manifest_file list"

definition manifest_for :: "(bytes \<Rightarrow> string) \<Rightarrow> fixture list \<Rightarrow> corpus_manifest" where
  "manifest_for sha items = \<lparr>
     cm_schema = ''vbuf-v06-cross-language-conformance-1'', cm_authority = ''spec/spec_0.6.md'',
     cm_files = map (\<lambda>(name, accept, raw, case_text).
        \<lparr>mf_path = name, mf_accept = accept, mf_size = int (length raw), mf_sha256 = sha raw, mf_case = case_text\<rparr>)
       (sort_key fst items)\<rparr>"

text \<open>The branch of \<open>main\<close> without \<open>--write\<close>; \<open>stored\<close> is the parsed manifest, \<open>read\<close> the directory.\<close>

definition verify_corpus ::
  "(bytes \<Rightarrow> string) \<Rightarrow> corpus_manifest \<Rightarrow> (string \<Rightarrow> bytes) \<Rightarrow> fixture list \<Rightarrow> int res" where
  "verify_corpus sha stored read items =
     (if stored \<noteq> manifest_for sha items
      then Inl (SystemExit ''v0.6 fixture manifest differs from deterministic source'')
      else bind_res (fold_res (\<lambda>_ (name, accept, raw, case_text).
             if read name \<noteq> raw then Inl (SystemExit (''v0.6 fixture differs: '' @ name)) else Inr ()) () items)
           (\<lambda>_. Inr (int (length items))))"

section \<open>The corpus is labelled correctly\<close>

text \<open>Each patch touches one entry, so the corpus can be read entry by entry.\<close>

definition apply_patch :: "(string \<times> (bytes \<Rightarrow> bytes res)) list \<Rightarrow> fixture \<Rightarrow> fixture res" where
  "apply_patch ps i = (case i of (name, accept, raw, case_text) \<Rightarrow> (case map_of ps name of
       None \<Rightarrow> Inr i
     | Some f \<Rightarrow> bind_res (f raw) (\<lambda>raw'. Inr (name, accept, raw', case_text))))"

lemma fold_patch:
  assumes "distinct (map fst items)" "distinct (map fst ps)" "fst ` set ps \<subseteq> fst ` set items"
    and "map_res (apply_patch ps) items = Inr out"
  shows "fold_res (\<lambda>its p. patch p its) items ps = Inr out"
  using assms
proof (induction ps arbitrary: items)
  case Nil
  have "map_res (apply_patch []) items = Inr (map id items)"
    by (rule map_res_Inr) (auto simp: apply_patch_def)
  with Nil show ?case by simp
next
  case (Cons p ps)
  obtain m f where p: "p = (m, f)" by (cases p)
  from Cons.prems(3) have m: "m \<in> set (map fst items)" by (auto simp: p)
  then obtain a r c where it: "(m, a, r, c) \<in> set items" by auto
  then have mo: "map_of items m = Some (a, r, c)" using Cons.prems(1) by simp
  obtain x where "apply_patch (p # ps) (m, a, r, c) = Inr x"
    using map_res_mem[OF Cons.prems(4) it] by blast
  then obtain r' where r': "f r = Inr r'" by (auto simp: apply_patch_def p bind_res_Inr_iff)
  define items' where "items' = map (\<lambda>(k, w). if k = m then (k, (a, r', c)) else (k, w)) items"
  have upd: "AList.update m (a, r', c) items = items'"
    unfolding items'_def using Cons.prems(1) m by (rule update_map)
  have keys: "map fst items' = map fst items" by (auto simp: items'_def)
  have nom: "map_of ps m = None" using Cons.prems(2) by (auto simp: p map_of_eq_None_iff)
  have same: "apply_patch ps (if k = m then (k, (a, r', c)) else (k, w)) = apply_patch (p # ps) (k, w)"
    if "(k, w) \<in> set items" for k w
  proof (cases "k = m")
    case True
    then have "w = (a, r, c)" using that mo Cons.prems(1) by (auto simp: map_of_is_SomeI)
    then show ?thesis using True r' nom by (simp add: apply_patch_def p)
  qed (auto simp: apply_patch_def p split: prod.splits)
  have "map_res (apply_patch ps) items' = map_res (apply_patch (p # ps)) items"
    unfolding items'_def using same by (induction items) auto
  then have "fold_res (\<lambda>its p. patch p its) items' ps = Inr out"
    using Cons.prems keys by (intro Cons.IH) (auto simp flip: set_map)
  then show ?case using r' mo upd by (simp add: patch_def p)
qed

definition patched :: "string \<times> bool \<times> bytes res \<times> string \<Rightarrow> fixture res" where
  "patched i = bind_res (build_item i) (apply_patch fixture_patches)"

lemma map_res_patched:
  "map_res patched is = Inr out \<Longrightarrow>
     \<exists>mid. map_res build_item is = Inr mid \<and> map_res (apply_patch fixture_patches) mid = Inr out"
  by (induction "is" arbitrary: out) (fastforce simp: patched_def bind_res_Inr_iff)+

definition accepted :: "bytes \<Rightarrow> bool" where
  "accepted raw = (case spec_parse raw of Inl _ \<Rightarrow> False | Inr _ \<Rightarrow> True)"

definition labelled_item :: "string \<times> bool \<times> bytes res \<times> string \<Rightarrow> bool" where
  "labelled_item i = (case patched i of Inl _ \<Rightarrow> False | Inr (n, a, raw, c) \<Rightarrow> a = accepted raw)"

lemma primitives_accepted:
  "labelled_item (n, True, canonical primitive_blocks 4 0 24 [], c)" if "map_of fixture_patches n = None"
proof -
  have "case canonical primitive_blocks 4 0 24 [] of Inl _ \<Rightarrow> False | Inr raw \<Rightarrow> length raw = 465" by code_simp
  then obtain raw where raw: "canonical primitive_blocks 4 0 24 [] = Inr raw" "length raw = 465"
    by (auto split: sum.splits)
  have ok: "list_all (spec_block_ok 4) primitive_blocks"
    by (simp add: primitive_blocks_def spec_block_ok_def opt_get_def block_count64_def legal_codes_def blk_def
        with_semantic_def with_continuation_def default_block_def packs_def)
  have cont: "continuation_valid (map (chain_view \<circ> block_view_of) primitive_blocks)"
    by (simp add: primitive_blocks_def opt_get_def blk_def chain_view_def block_view_of_def
        with_semantic_def with_continuation_def default_block_def)
  have "accepted raw" using spec_parse_canonical[OF raw(1) _ _ _ ok cont] raw(2) by (simp add: accepted_def)
  then show ?thesis using raw that by (simp add: labelled_item_def patched_def build_item_def apply_patch_def)
qed

lemma valid_labelled: "list_all labelled_item (take 7 valid_items)"
  by code_simp

lemma invalid_labelled_1: "list_all labelled_item (take 12 invalid_items)"
  by code_simp

lemma invalid_labelled_2: "list_all labelled_item (take 12 (drop 12 invalid_items))"
  by code_simp

lemma invalid_labelled_3: "list_all labelled_item (drop 24 invalid_items)"
  by code_simp

lemma valid_items_split: "valid_items = take 7 valid_items @
    [(''valid-writer-primitives.vbuf'', True, canonical primitive_blocks 4 0 24 [],
      ''canonical portable primitives, scalar, and forward continuation'')]"
  by (simp add: valid_items_def)

lemma all_labelled: "list_all labelled_item (valid_items @ invalid_items)"
proof -
  have "list_all labelled_item valid_items"
    by (subst valid_items_split) (simp add: valid_labelled primitives_accepted fixture_patches_def)
  moreover have "invalid_items = take 12 invalid_items @ take 12 (drop 12 invalid_items) @ drop 24 invalid_items"
    by (simp add: invalid_items_def)
  then have "list_all labelled_item invalid_items"
    by (metis invalid_labelled_1 invalid_labelled_2 invalid_labelled_3 list_all_append)
  ultimately show ?thesis by simp
qed

lemma map_res_labelled:
  "list_all labelled_item is \<Longrightarrow> \<exists>out. map_res patched is = Inr out \<and>
     list_all (\<lambda>(n, a, raw, c). a = accepted raw) out"
proof (induction "is")
  case (Cons i "is")
  then obtain out where "map_res patched is = Inr out" "list_all (\<lambda>(n, a, raw, c). a = accepted raw) out" by auto
  with Cons.prems show ?case by (auto simp: labelled_item_def split: sum.splits)
qed simp

lemma build_names: "map_res build_item is = Inr mid \<Longrightarrow> map fst mid = map fst is"
  by (induction "is" arbitrary: mid) (auto simp: bind_res_Inr_iff build_item_def split: prod.splits)

lemma apply_patch_names: "map_res (apply_patch ps) mid = Inr out \<Longrightarrow> map fst out = map fst mid"
  by (induction mid arbitrary: out)
    (auto simp: bind_res_Inr_iff apply_patch_def split: prod.splits option.splits)

definition corpus_names :: "string list" where
  "corpus_names = map fst (valid_items @ invalid_items)"

lemma corpus_names_ok:
  "distinct corpus_names \<and> distinct (map fst fixture_patches) \<and>
   list_all (\<lambda>n. n \<in> set corpus_names) (map fst fixture_patches)"
  by code_simp

lemmas corpus_distinct = corpus_names_ok[THEN conjunct1, unfolded corpus_names_def]
  corpus_names_ok[THEN conjunct2, THEN conjunct1]

lemma patch_names: "fst ` set fixture_patches \<subseteq> set corpus_names"
  using corpus_names_ok unfolding list_all_iff list.set_map by blast

text \<open>
  The corpus builds, with 42 distinct names, and its labels are right: for every file, the
  accept flag says exactly whether the strict reader of the specification accepts the bytes that
  remain after all patches.
\<close>

theorem fixtures_labelled:
  "\<exists>items. fixtures = Inr items \<and> length items = 42 \<and> distinct (map fst items) \<and>
     list_all (\<lambda>(name, accept, raw, case_text). accept = (\<exists>v. spec_parse raw = Inr v)) items"
proof -
  obtain out where out: "map_res patched (valid_items @ invalid_items) = Inr out"
    "list_all (\<lambda>(n, a, raw, c). a = accepted raw) out"
    using map_res_labelled[OF all_labelled] by blast
  obtain mid where mid: "map_res build_item (valid_items @ invalid_items) = Inr mid"
    "map_res (apply_patch fixture_patches) mid = Inr out"
    using map_res_patched[OF out(1)] by blast
  have names: "map fst mid = map fst (valid_items @ invalid_items)" "map fst out = map fst mid"
    using build_names[OF mid(1)] apply_patch_names[OF mid(2)] by simp_all
  have "fixtures = Inr out"
    unfolding fixtures_def mid(1) bind_res_simps
  proof (rule fold_patch)
    show "distinct (map fst mid)" unfolding names by (rule corpus_distinct)
    show "fst ` set fixture_patches \<subseteq> fst ` set mid"
      using patch_names unfolding corpus_names_def names(1)[symmetric] by simp
  qed (rule corpus_distinct mid)+
  moreover have "length out = 42"
    using arg_cong[OF names(1), of length] arg_cong[OF names(2), of length]
    by (simp add: valid_items_def invalid_items_def)
  moreover have "distinct (map fst out)" unfolding names by (rule corpus_distinct)
  moreover have "accepted raw = (\<exists>v. spec_parse raw = Inr v)" for raw
    by (auto simp: accepted_def split: sum.splits)
  ultimately show ?thesis using out(2) by (auto simp: list_all_iff)
qed

text \<open>
  The manifest lists every fixture once, sorted by path, with its size and digest; and the
  verification run of \<open>main\<close> returns normally exactly when the stored manifest is this one and
  every file read back equals its deterministic bytes.
\<close>

theorem corpus_verified_iff:
  "(verify_corpus sha stored read items = Inr n \<longleftrightarrow>
      stored = manifest_for sha items \<and> n = int (length items) \<and>
      list_all (\<lambda>(name, accept, raw, case_text). read name = raw) items) \<and>
   sorted (map mf_path (cm_files (manifest_for sha items))) \<and>
   mset (map (\<lambda>f. (mf_path f, mf_accept f, mf_size f, mf_sha256 f)) (cm_files (manifest_for sha items))) =
     mset (map (\<lambda>(name, accept, raw, case_text). (name, accept, int (length raw), sha raw)) items)"
proof (intro conjI)
  have "fold_res (\<lambda>_ (name, accept, raw, case_text).
      if read name \<noteq> raw then Inl (SystemExit (''v0.6 fixture differs: '' @ name)) else Inr ()) u items = Inr () \<longleftrightarrow>
      list_all (\<lambda>(name, accept, raw, case_text). read name = raw) items" for u
    by (induction items arbitrary: u) (auto simp: bind_res_Inr_iff split: if_splits prod.splits)
  then show "verify_corpus sha stored read items = Inr n \<longleftrightarrow>
      stored = manifest_for sha items \<and> n = int (length items) \<and>
      list_all (\<lambda>(name, accept, raw, case_text). read name = raw) items"
    by (auto simp: verify_corpus_def bind_res_Inr_iff)
  have "map mf_path (cm_files (manifest_for sha items)) = map fst (sort_key fst items)"
    by (auto simp: manifest_for_def split: prod.splits)
  then show "sorted (map mf_path (cm_files (manifest_for sha items)))" by simp
  have "(\<lambda>f. (mf_path f, mf_accept f, mf_size f, mf_sha256 f)) \<circ> (\<lambda>(name, accept, raw, case_text).
      \<lparr>mf_path = name, mf_accept = accept, mf_size = int (length raw), mf_sha256 = sha raw, mf_case = case_text\<rparr>) =
      (\<lambda>(name, accept, raw, case_text). (name, accept, int (length raw), sha raw))"
    by (simp add: fun_eq_iff split_beta)
  then show "mset (map (\<lambda>f. (mf_path f, mf_accept f, mf_size f, mf_sha256 f)) (cm_files (manifest_for sha items))) =
      mset (map (\<lambda>(name, accept, raw, case_text). (name, accept, int (length raw), sha raw)) items)"
    by (simp add: manifest_for_def multiset.map_comp)
qed

end
