(* ===== verification/Generation.thy ===== *)
theory Generation
  imports Text Json
begin

text \<open>
  The resumable generation check of \<open>research/results/vbuf-ml-integration/step32g_bounded_reference.py\<close>:
  \<open>generation_reference\<close> compares a bounded reference model with captured checkpoints step by step and
  writes its state after every step (\<open>write_generation_state\<close>, \<open>read_generation_state\<close>), so that a run that is
  interrupted can be continued.  The arrays and their arithmetic are parameters: \<open>numerics\<close> collects what
  the loop calls, for a type \<open>'v\<close> of arrays and a type \<open>'f\<close> of floats.  \<open>actual\<close> is the dictionary of
  captured arrays.  A JSON document is its value; a file that \<open>json.dump\<close> has not finished is \<open>Unfinished\<close>,
  which \<open>json.load\<close> refuses, since no proper prefix of an object's text is a document.
\<close>

section \<open>The state file\<close>

datatype contents = Unfinished | Complete json

type_synonym files = "string \<Rightarrow> contents option"

datatype file_op =
    Open_Write string
  | Dump string json
  | Flush string
  | Replace string string

fun apply_op :: "file_op \<Rightarrow> files \<Rightarrow> files" where
  "apply_op (Open_Write p) fs = fs(p \<mapsto> Unfinished)"
| "apply_op (Dump p j) fs = fs(p \<mapsto> Complete j)"
| "apply_op (Flush p) fs = fs"
| "apply_op (Replace p q) fs = fs(q := fs p, p := None)"

definition temporary :: "string \<Rightarrow> string" where
  "temporary path = path @ ''.tmp''"

definition write_generation_state :: "string \<Rightarrow> json \<Rightarrow> file_op list" where
  "write_generation_state path state =
     [Open_Write (temporary path), Dump (temporary path) state, Flush (temporary path), Replace (temporary path) path]"

definition required_fields :: "string list" where
  "required_fields = [''next_step'', ''reference_token_ids'', ''next_reference_token'', ''routing_mismatches'', ''order_mismatches'',
     ''argmax_mismatches'', ''top10_mismatches'', ''max_abs'', ''max_rel'', ''max_logit_abs'', ''max_logit_rel'', ''step_max_abs'',
     ''step_logits_abs'']"

text \<open>An empty path or a missing file is \<open>None\<close>.\<close>

definition read_generation_state :: "files \<Rightarrow> string \<Rightarrow> json option res" where
  "read_generation_state fs path =
     (if path = [] then Inr None
      else case fs path of
        None \<Rightarrow> Inr None
      | Some Unfinished \<Rightarrow> Inl (ValueError ''JSONDecodeError'')
      | Some (Complete state) \<Rightarrow>
          bind_res (map_res (jhas state) required_fields) (\<lambda>present.
          bind_res (require (list_all id present) (AssertionError ''reference state is missing required fields'')) (\<lambda>_. Inr (Some state))))"

section \<open>The state\<close>

record 'f gen_state =
  gs_next_step :: int
  gs_tokens :: "int list"
  gs_next_token :: int
  gs_routing :: int
  gs_order :: int
  gs_argmax :: int
  gs_top10 :: int
  gs_max_abs :: 'f
  gs_max_rel :: 'f
  gs_max_logit_abs :: 'f
  gs_max_logit_rel :: 'f
  gs_step_max_abs :: "'f list"
  gs_step_logits_abs :: "'f list"

definition encode_state :: "('f \<Rightarrow> json) \<Rightarrow> 'f gen_state \<Rightarrow> json" where
  "encode_state to_js s = JObj
     [(''next_step'', JInt (gs_next_step s)), (''reference_token_ids'', JArr (map JInt (gs_tokens s))),
      (''next_reference_token'', JInt (gs_next_token s)), (''routing_mismatches'', JInt (gs_routing s)),
      (''order_mismatches'', JInt (gs_order s)), (''argmax_mismatches'', JInt (gs_argmax s)),
      (''top10_mismatches'', JInt (gs_top10 s)), (''max_abs'', to_js (gs_max_abs s)), (''max_rel'', to_js (gs_max_rel s)),
      (''max_logit_abs'', to_js (gs_max_logit_abs s)), (''max_logit_rel'', to_js (gs_max_logit_rel s)),
      (''step_max_abs'', JArr (map to_js (gs_step_max_abs s))), (''step_logits_abs'', JArr (map to_js (gs_step_logits_abs s)))]"

text \<open>\<open>int\<close> of a JSON value: a decimal is cut towards zero.\<close>

definition as_int :: "json \<Rightarrow> int res" where
  "as_int v = (case v of JInt n \<Rightarrow> Inr n | JBool b \<Rightarrow> Inr (of_bool b) | JDec m e \<Rightarrow> Inr (sgn m * (\<bar>m\<bar> div 10 ^ e))
     | JStr s \<Rightarrow> parse_int s | _ \<Rightarrow> Inl TypeError)"

text \<open>
  The state of a continued run, in the order the fields are read; 4 is \<open>len(prefill_token_ids)\<close>.  The next token is
  read after the prefill (\<open>next_token_of\<close>).
\<close>

definition decode_state :: "(json \<Rightarrow> 'f res) \<Rightarrow> json \<Rightarrow> 'f gen_state res" where
  "decode_state of_js state =
     bind_res (bind_res (jget state ''next_step'') as_int) (\<lambda>start_step.
     bind_res (bind_res (jget_list state ''reference_token_ids'') (map_res as_int)) (\<lambda>tokens.
     bind_res (require (int (length tokens) = 4 + start_step) (AssertionError ''reference state token count is inconsistent'')) (\<lambda>_.
     bind_res (bind_res (jget state ''max_abs'') of_js) (\<lambda>max_abs.
     bind_res (bind_res (jget state ''max_rel'') of_js) (\<lambda>max_rel.
     bind_res (bind_res (jget state ''max_logit_abs'') of_js) (\<lambda>max_logit_abs.
     bind_res (bind_res (jget state ''max_logit_rel'') of_js) (\<lambda>max_logit_rel.
     bind_res (bind_res (jget state ''routing_mismatches'') as_int) (\<lambda>routing.
     bind_res (bind_res (jget state ''order_mismatches'') as_int) (\<lambda>order.
     bind_res (bind_res (jget state ''argmax_mismatches'') as_int) (\<lambda>argmax.
     bind_res (bind_res (jget state ''top10_mismatches'') as_int) (\<lambda>top10.
     bind_res (bind_res (jget_list state ''step_max_abs'') (map_res of_js)) (\<lambda>step_max_abs.
     bind_res (bind_res (jget_list state ''step_logits_abs'') (map_res of_js)) (\<lambda>step_logits_abs.
     Inr \<lparr>gs_next_step = start_step, gs_tokens = tokens, gs_next_token = 0, gs_routing = routing, gs_order = order,
       gs_argmax = argmax, gs_top10 = top10, gs_max_abs = max_abs, gs_max_rel = max_rel, gs_max_logit_abs = max_logit_abs,
       gs_max_logit_rel = max_logit_rel, gs_step_max_abs = step_max_abs, gs_step_logits_abs = step_logits_abs\<rparr>)))))))))))))"

section \<open>The loop\<close>

record ('v, 'f) numerics =
  nm_rows :: "int list \<Rightarrow> 'v res"
  nm_layer :: "nat \<Rightarrow> 'v \<Rightarrow> ('v \<times> int list list option \<times> (string \<times> 'v) list) res"
  nm_logits :: "'v \<Rightarrow> 'v res"
  nm_last :: "'v \<Rightarrow> 'v"
  nm_max_abs :: "'v \<Rightarrow> 'v \<Rightarrow> 'f"
  nm_max_rel :: "'v \<Rightarrow> 'v \<Rightarrow> 'f"
  nm_ints :: "'v \<Rightarrow> int list"
  nm_argmax :: "'v \<Rightarrow> int"
  nm_top10 :: "'v \<Rightarrow> int list"
  nm_max :: "'f \<Rightarrow> 'f \<Rightarrow> 'f"
  nm_zero :: 'f

definition step_prefix :: "int \<Rightarrow> nat \<Rightarrow> string" where
  "step_prefix step layer_id = ''generation.step'' @ show_int step @ ''.layer'' @ show_int (int layer_id)"

definition stage_step :: "('v, 'f) numerics \<Rightarrow> (string \<times> 'v) list \<Rightarrow> string \<Rightarrow> string \<times> 'v \<Rightarrow> 'f \<Rightarrow> 'f" where
  "stage_step nm actual prefix st step_max = (case st of (name, reference) \<Rightarrow>
     (case map_of actual (prefix @ ''.'' @ name) of None \<Rightarrow> step_max
      | Some expected_stage \<Rightarrow> nm_max nm step_max
          (nm_max_abs nm (if name \<in> {''kv_key'', ''kv_value''} then reference else nm_last nm reference) expected_stage)))"

definition selection_counts :: "int list \<Rightarrow> int list \<Rightarrow> int \<times> int" where
  "selection_counts expected reference =
     (int (length (filter (\<lambda>(a, b). a \<noteq> b) (zip expected reference))), of_bool (expected \<noteq> reference))"

definition layer_step :: "('v, 'f) numerics \<Rightarrow> (string \<times> 'v) list \<Rightarrow> int \<Rightarrow> 'v \<times> 'f \<times> 'f \<times> int \<times> int \<Rightarrow> nat \<Rightarrow>
    ('v \<times> 'f \<times> 'f \<times> int \<times> int) res" where
  "layer_step nm actual step acc layer_id = (case acc of (value0, step_max0, step_rel0, routing, order) \<Rightarrow>
     let prefix = step_prefix step layer_id in
     bind_res (nm_layer nm layer_id value0) (\<lambda>(value, selections, stages).
     bind_res (lookup_res actual (prefix @ ''.output'')) (\<lambda>output'.
     let step_max = nm_max nm step_max0 (nm_max_abs nm (nm_last nm value) output');
         step_rel = nm_max nm step_rel0 (nm_max_rel nm (nm_last nm value) output') in
     bind_res (case selections of None \<Rightarrow> Inr (routing, order)
       | Some rows \<Rightarrow> bind_res (lookup_res actual (prefix @ ''.selection_ids'')) (\<lambda>expected.
           case selection_counts (nm_ints nm expected) (last rows) of (r, d) \<Rightarrow> Inr (routing + r, order + d))) (\<lambda>(routing', order').
     Inr (value, fold (stage_step nm actual prefix) stages step_max, step_rel, routing', order')))))"

text \<open>Indexing of an array, with Python's negative positions.\<close>

definition py_nth :: "int list \<Rightarrow> int \<Rightarrow> int res" where
  "py_nth xs i = (if 0 \<le> i \<and> i < int (length xs) then Inr (xs ! nat i)
     else if - int (length xs) \<le> i \<and> i < 0 then Inr (xs ! nat (int (length xs) + i)) else Inl IndexError)"

definition gen_step :: "('v, 'f) numerics \<Rightarrow> (string \<times> 'v) list \<Rightarrow> int list \<Rightarrow> nat \<Rightarrow> 'f gen_state \<Rightarrow> int \<Rightarrow> 'f gen_state res" where
  "gen_step nm actual production depth s step =
     (let consumed_token = gs_next_token s; token_ids = gs_tokens s @ [consumed_token] in
     bind_res (nm_rows nm token_ids) (\<lambda>rows.
     bind_res (fold_res (layer_step nm actual step) (rows, nm_zero nm, nm_zero nm, gs_routing s, gs_order s) [0..<depth])
       (\<lambda>(value, step_max, step_rel, routing, order).
     bind_res (lookup_res actual (''generation.step'' @ show_int step @ ''.logits'')) (\<lambda>actual_logits.
     bind_res (nm_logits nm value) (\<lambda>logits.
     let logit_abs = nm_max_abs nm (nm_last nm logits) actual_logits; logit_rel = nm_max_rel nm (nm_last nm logits) actual_logits in
     bind_res (py_nth production step) (\<lambda>production_token.
     let reference_token = nm_argmax nm logits in
     bind_res (require (production_token = consumed_token) (AssertionError ''production/reference consumed token mismatch'')) (\<lambda>_.
     Inr \<lparr>gs_next_step = step + 1, gs_tokens = token_ids, gs_next_token = reference_token, gs_routing = routing, gs_order = order,
       gs_argmax = gs_argmax s + of_bool (nm_argmax nm actual_logits \<noteq> reference_token),
       gs_top10 = gs_top10 s + of_bool (nm_top10 nm actual_logits \<noteq> nm_top10 nm logits),
       gs_max_abs = nm_max nm (gs_max_abs s) step_max, gs_max_rel = nm_max nm (gs_max_rel s) step_rel,
       gs_max_logit_abs = nm_max nm (gs_max_logit_abs s) logit_abs, gs_max_logit_rel = nm_max nm (gs_max_logit_rel s) logit_rel,
       gs_step_max_abs = gs_step_max_abs s @ [step_max], gs_step_logits_abs = gs_step_logits_abs s @ [logit_abs]\<rparr>)))))))"

text \<open>The loop, with the states it writes.\<close>

definition run_steps :: "('f \<Rightarrow> json) \<Rightarrow> ('v, 'f) numerics \<Rightarrow> (string \<times> 'v) list \<Rightarrow> int list \<Rightarrow> nat \<Rightarrow> 'f gen_state \<Rightarrow> int list \<Rightarrow>
    ('f gen_state \<times> json list) res" where
  "run_steps to_js nm actual production depth s steps =
     fold_res (\<lambda>(s, written) step. bind_res (gen_step nm actual production depth s step) (\<lambda>s'.
       Inr (s', written @ [encode_state to_js s']))) (s, []) steps"

definition fresh_state :: "('v, 'f) numerics \<Rightarrow> 'f gen_state" where
  "fresh_state nm = \<lparr>gs_next_step = 0, gs_tokens = [51, 68, 82, 83], gs_next_token = 0, gs_routing = 0, gs_order = 0, gs_argmax = 0,
     gs_top10 = 0, gs_max_abs = nm_zero nm, gs_max_rel = nm_zero nm, gs_max_logit_abs = nm_zero nm, gs_max_logit_rel = nm_zero nm,
     gs_step_max_abs = [], gs_step_logits_abs = []\<rparr>"

text \<open>The prefill: the layers over the token ids of the state, and the logits of the last one.\<close>

definition prefill_logits :: "('v, 'f) numerics \<Rightarrow> nat \<Rightarrow> int list \<Rightarrow> 'v res" where
  "prefill_logits nm depth token_ids =
     bind_res (nm_rows nm token_ids) (\<lambda>rows.
     bind_res (fold_res (\<lambda>value layer_id. bind_res (nm_layer nm layer_id value) (\<lambda>(value', _, _). Inr value')) rows [0..<depth]) (nm_logits nm))"

definition next_token_of :: "('v, 'f) numerics \<Rightarrow> json option \<Rightarrow> 'v \<Rightarrow> int res" where
  "next_token_of nm state logits = (case state of
       None \<Rightarrow> Inr (nm_argmax nm logits)
     | Some j \<Rightarrow> bind_res (jget j ''next_reference_token'') as_int)"

definition generation_reference :: "('f \<Rightarrow> json) \<Rightarrow> (json \<Rightarrow> 'f res) \<Rightarrow> ('v, 'f) numerics \<Rightarrow> (string \<times> 'v) list \<Rightarrow> nat \<Rightarrow> int \<Rightarrow>
    files \<Rightarrow> string \<Rightarrow> ('f gen_state \<times> json list) res" where
  "generation_reference to_js of_js nm actual depth max_steps fs state_path =
     bind_res (lookup_res actual ''prefill.input_token_ids'') (\<lambda>prefill.
     bind_res (require (nm_ints nm prefill = [51, 68, 82, 83]) (AssertionError ''token ID reference mismatch'')) (\<lambda>_.
     bind_res (lookup_res actual ''generation.generated_token_ids'') (\<lambda>generated.
     let production = nm_ints nm generated in
     bind_res (require (int (length production) = max_steps) (AssertionError ''production token count'')) (\<lambda>_.
     bind_res (read_generation_state fs state_path) (\<lambda>state.
     bind_res (case state of None \<Rightarrow> Inr (fresh_state nm) | Some j \<Rightarrow> decode_state of_js j) (\<lambda>s0.
     bind_res (prefill_logits nm depth (gs_tokens s0)) (\<lambda>logits.
     bind_res (next_token_of nm state logits) (\<lambda>next_token.
     run_steps to_js nm actual production depth (s0\<lparr>gs_next_token := next_token\<rparr>) [gs_next_step s0..max_steps - 1]))))))))"

text \<open>The file operations of a run, in order; a run without a state path writes nothing.\<close>

definition state_writes :: "string \<Rightarrow> json list \<Rightarrow> file_op list" where
  "state_writes path written = (if path = [] then [] else concat (map (write_generation_state path) written))"

definition sequence_parity :: "('v, 'f) numerics \<Rightarrow> (string \<times> 'v) list \<Rightarrow> 'f gen_state \<Rightarrow> bool res" where
  "sequence_parity nm actual s = bind_res (lookup_res actual ''generation.generated_token_ids'') (\<lambda>generated.
     Inr (drop 4 (gs_tokens s) = nm_ints nm generated))"


section \<open>The state file is never torn\<close>

lemma temporary_neq [simp]: "temporary path \<noteq> path" "path \<noteq> temporary path"
  by (simp_all add: temporary_def)

lemma write_prefix:
  "(fold apply_op (take k (write_generation_state path j)) fs) path = (if k < 4 then fs path else Some (Complete j))"
  by (auto simp: write_generation_state_def take_Cons' numeral_eq_Suc split: if_splits)

lemma writes_prefix:
  "(fold apply_op (take k (concat (map (write_generation_state path) written))) fs) path \<in>
    insert (fs path) (Some ` Complete ` set written)"
proof (induction written arbitrary: k fs)
  case (Cons j written)
  have l: "length (write_generation_state path j) = 4" by (simp add: write_generation_state_def)
  show ?case
  proof (cases "k \<le> 4")
    case True
    then show ?thesis using write_prefix[of k path j fs] l by (simp split: if_splits)
  next
    case False
    let ?fs = "fold apply_op (write_generation_state path j) fs"
    have "?fs path = Some (Complete j)" using write_prefix[of 4 path j fs] l by simp
    then show ?thesis using Cons.IH[of "k - 4" ?fs] False l by auto
  qed
qed simp

section \<open>Resuming\<close>

lemma run_steps_Nil [simp]: "run_steps to_js nm actual production depth s [] = Inr (s, [])"
  by (simp add: run_steps_def)

lemma run_steps_prefix:
  "fold_res (\<lambda>(s, written) step. bind_res (gen_step nm actual production depth s step) (\<lambda>s'.
     Inr (s', written @ [encode_state to_js s']))) (s, ws) steps =
   bind_res (run_steps to_js nm actual production depth s steps) (\<lambda>(s', ws'). Inr (s', ws @ ws'))"
proof (induction steps arbitrary: s ws)
  case (Cons step steps)
  show ?case
  proof (cases "gen_step nm actual production depth s step")
    case (Inr s')
    then show ?thesis using Cons[of s' "ws @ [encode_state to_js s']"] Cons[of s' "[encode_state to_js s']"]
      by (auto simp: run_steps_def bind_res_assoc intro!: arg_cong[of _ _ "bind_res _"])
  qed (simp add: run_steps_def)
qed (simp add: run_steps_def)

lemma run_steps_Cons:
  "run_steps to_js nm actual production depth s (step # steps) =
   bind_res (gen_step nm actual production depth s step) (\<lambda>s'.
   bind_res (run_steps to_js nm actual production depth s' steps) (\<lambda>(t, ws). Inr (t, encode_state to_js s' # ws)))"
  using run_steps_prefix[of nm actual production depth to_js _ "[encode_state to_js _]" steps]
  by (cases "gen_step nm actual production depth s step") (simp_all add: run_steps_def)

definition reached :: "int list \<Rightarrow> int \<Rightarrow> 'f gen_state \<Rightarrow> bool" where
  "reached production step s \<longleftrightarrow> gs_next_step s = step \<and> gs_tokens s = [51, 68, 82, 83] @ take (nat step) production"

lemma prefill_of_step:
  assumes "fold_res (layer_step nm actual step) (v, a, b, c, d) ls = Inr (v', r)"
  shows "fold_res (\<lambda>value layer_id. bind_res (nm_layer nm layer_id value) (\<lambda>(value', _, _). Inr value')) v ls = Inr v'"
  using assms
proof (induction ls arbitrary: v a b c d)
  case (Cons l ls)
  obtain acc where acc: "layer_step nm actual step (v, a, b, c, d) l = Inr acc" "fold_res (layer_step nm actual step) acc ls = Inr (v', r)"
    using Cons.prems by (auto simp: bind_res_Inr_iff)
  obtain x a' b' c' d' where x: "acc = (x, a', b', c', d')" by (cases acc)
  then have "bind_res (nm_layer nm l v) (\<lambda>(value', _, _). Inr value') = Inr x"
    using acc(1) by (auto simp: layer_step_def Let_def bind_res_Inr_iff split: prod.splits)
  then show ?case using Cons.IH acc(2) x by (simp only: fold_res.simps bind_res_simps)
qed simp

lemma gen_stepE:
  assumes "gen_step nm actual production depth s step = Inr s'" "reached production step s" "0 \<le> step" "step < int (length production)"
  shows "reached production (step + 1) s' \<and> (\<exists>logits. prefill_logits nm depth (gs_tokens s') = Inr logits)"
proof -
  obtain rows where rows: "nm_rows nm (gs_tokens s @ [gs_next_token s]) = Inr rows"
    using assms(1) by (auto simp: gen_step_def Let_def bind_res_Inr_iff)
  obtain v r where v: "fold_res (layer_step nm actual step) (rows, nm_zero nm, nm_zero nm, gs_routing s, gs_order s) [0..<depth] = Inr (v, r)"
    using assms(1) rows by (fastforce simp: gen_step_def Let_def bind_res_Inr_iff)
  obtain logits where logits: "nm_logits nm v = Inr logits"
    using assms(1) rows v by (auto simp: gen_step_def Let_def bind_res_Inr_iff split: prod.splits)
  have p: "py_nth production step = Inr (gs_next_token s)" and s': "gs_tokens s' = gs_tokens s @ [gs_next_token s]" "gs_next_step s' = step + 1"
    using assms(1) rows v by (auto simp: gen_step_def Let_def bind_res_Inr_iff split: prod.splits)
  have "take (nat (step + 1)) production = take (nat step) production @ [gs_next_token s]"
    using p assms(3,4) by (simp add: py_nth_def nat_add_distrib take_Suc_conv_app_nth)
  then have "reached production (step + 1) s'" using assms(2) s' by (simp add: reached_def)
  moreover have "prefill_logits nm depth (gs_tokens s') = Inr logits"
    using rows prefill_of_step[OF v] logits s'(1) by (simp add: prefill_logits_def)
  ultimately show ?thesis by blast
qed

text \<open>From every state a run writes, the rest of the run is the run from there.\<close>

lemma run_from_written:
  assumes "run_steps to_js nm actual production depth s [step..n - 1] = Inr (t, ws)" "reached production step s" "0 \<le> step"
    "n = int (length production)" "step \<le> n"
  shows "reached production n t \<and> (\<forall>w \<in> set ws. \<exists>s' ws'. w = encode_state to_js s' \<and> reached production (gs_next_step s') s' \<and> 0 \<le> gs_next_step s' \<and>
     gs_next_step s' \<le> n \<and> run_steps to_js nm actual production depth s' [gs_next_step s'..n - 1] = Inr (t, ws') \<and>
     (\<exists>logits. prefill_logits nm depth (gs_tokens s') = Inr logits))"
  using assms
proof (induction "nat (n - step)" arbitrary: step s ws)
  case 0
  then have "step = n" by simp
  then show ?case using 0 by auto
next
  case (Suc k)
  then have step: "step < n" by simp
  then have u: "[step..n - 1] = step # [step + 1..n - 1]" by (simp add: upto_rec1)
  obtain s1 ws1 where s1: "gen_step nm actual production depth s step = Inr s1"
    "run_steps to_js nm actual production depth s1 [step + 1..n - 1] = Inr (t, ws1)" "ws = encode_state to_js s1 # ws1"
    using Suc.prems(1) unfolding u run_steps_Cons by (auto simp: bind_res_Inr_iff)
  have r: "reached production (step + 1) s1" "\<exists>logits. prefill_logits nm depth (gs_tokens s1) = Inr logits"
    using gen_stepE[OF s1(1) Suc.prems(2,3)] step Suc.prems(4) by auto
  then have next': "gs_next_step s1 = step + 1" by (simp add: reached_def)
  from Suc.hyps(1)[OF _ s1(2) r(1)] Suc.hyps(2) Suc.prems(3,4) step
  have rest: "reached production n t \<and> (\<forall>w \<in> set ws1. \<exists>s' ws'. w = encode_state to_js s' \<and> reached production (gs_next_step s') s' \<and>
     0 \<le> gs_next_step s' \<and> gs_next_step s' \<le> n \<and>
     run_steps to_js nm actual production depth s' [gs_next_step s'..n - 1] = Inr (t, ws') \<and>
     (\<exists>logits. prefill_logits nm depth (gs_tokens s') = Inr logits))" by simp
  moreover have "\<exists>s' ws'. encode_state to_js s1 = encode_state to_js s' \<and> reached production (gs_next_step s') s' \<and>
     0 \<le> gs_next_step s' \<and> gs_next_step s' \<le> n \<and>
     run_steps to_js nm actual production depth s' [gs_next_step s'..n - 1] = Inr (t, ws') \<and>
     (\<exists>logits. prefill_logits nm depth (gs_tokens s') = Inr logits)"
    using r s1(2) step Suc.prems(3) next' by (intro exI[of _ s1] exI[of _ ws1]) auto
  ultimately show ?case unfolding s1(3) by auto
qed


lemma map_res_map: "(\<And>x. f (g x) = Inr x) \<Longrightarrow> map_res f (map g xs) = Inr xs"
  by (induction xs) simp_all

lemma state_fields:
  "map_res (jhas (encode_state to_js s)) required_fields = Inr (replicate 13 True)"
  "jget (encode_state to_js s) ''next_step'' = Inr (JInt (gs_next_step s))"
  "jget_list (encode_state to_js s) ''reference_token_ids'' = Inr (map JInt (gs_tokens s))"
  "jget (encode_state to_js s) ''next_reference_token'' = Inr (JInt (gs_next_token s))"
  "jget (encode_state to_js s) ''routing_mismatches'' = Inr (JInt (gs_routing s))"
  "jget (encode_state to_js s) ''order_mismatches'' = Inr (JInt (gs_order s))"
  "jget (encode_state to_js s) ''argmax_mismatches'' = Inr (JInt (gs_argmax s))"
  "jget (encode_state to_js s) ''top10_mismatches'' = Inr (JInt (gs_top10 s))"
  "jget (encode_state to_js s) ''max_abs'' = Inr (to_js (gs_max_abs s))"
  "jget (encode_state to_js s) ''max_rel'' = Inr (to_js (gs_max_rel s))"
  "jget (encode_state to_js s) ''max_logit_abs'' = Inr (to_js (gs_max_logit_abs s))"
  "jget (encode_state to_js s) ''max_logit_rel'' = Inr (to_js (gs_max_logit_rel s))"
  "jget_list (encode_state to_js s) ''step_max_abs'' = Inr (map to_js (gs_step_max_abs s))"
  "jget_list (encode_state to_js s) ''step_logits_abs'' = Inr (map to_js (gs_step_logits_abs s))"
  by (simp_all add: encode_state_def required_fields_def jget_def jget_list_def jhas_def jlist_def lookup_res_def numeral_eq_Suc)

lemma as_int_JInt [simp]: "as_int (JInt n) = Inr n"
  by (simp add: as_int_def)

lemma decode_encode:
  assumes "\<And>x. of_js (to_js x) = Inr x" "int (length (gs_tokens s)) = 4 + gs_next_step s"
  shows "decode_state of_js (encode_state to_js s) = Inr (s\<lparr>gs_next_token := 0\<rparr>)"
  using assms by (simp add: decode_state_def state_fields map_res_map)

lemma resume_written:
  assumes "\<And>x. of_js (to_js x) = Inr x" "path \<noteq> []" "fs path = Some (Complete (encode_state to_js s))"
    and "lookup_res actual ''prefill.input_token_ids'' = Inr prefill" "nm_ints nm prefill = [51, 68, 82, 83]"
    and "lookup_res actual ''generation.generated_token_ids'' = Inr generated" "int (length (nm_ints nm generated)) = n"
    and "reached (nm_ints nm generated) (gs_next_step s) s" "0 \<le> gs_next_step s" "gs_next_step s \<le> n"
    and "prefill_logits nm depth (gs_tokens s) = Inr logits"
    and "run_steps to_js nm actual (nm_ints nm generated) depth s [gs_next_step s..n - 1] = Inr (t, ws)"
  shows "generation_reference to_js of_js nm actual depth n fs path = Inr (t, ws)"
proof -
  have "read_generation_state fs path = Inr (Some (encode_state to_js s))"
    using assms(2,3) by (simp add: read_generation_state_def state_fields numeral_eq_Suc)
  moreover have "int (length (gs_tokens s)) = 4 + gs_next_step s"
    using assms(7-10) by (simp add: reached_def)
  note d = decode_encode[OF assms(1) this]
  have s: "s\<lparr>gs_next_token := 0\<rparr>\<lparr>gs_next_token := gs_next_token s\<rparr> = s" by simp
  ultimately show ?thesis
    using assms(4-7,11,12) d by (simp add: generation_reference_def next_token_of_def state_fields Let_def del: lookup_res_iff)
qed

text \<open>
  A generation check that is killed can be continued: let a run that starts without a state file end with a
  final state.  Stop it after any number of its file operations, in the middle of a write or between two
  steps; then a new run on the files it left behind ends with the same final state, with all mismatch
  counts, maxima and per-step lists.  The state file is never half written, since it is replaced in one step.
  The one hypothesis on the libraries is that a float written by \<open>json.dump\<close> is read back as it was.
\<close>

theorem killed_run_resumes:
  assumes "\<And>x. of_js (to_js x) = Inr x" "path \<noteq> []" "fs path = None"
    and "generation_reference to_js of_js nm actual depth max_steps fs path = Inr (final, written)"
  shows "\<exists>written'. generation_reference to_js of_js nm actual depth max_steps
    (fold apply_op (take k (state_writes path written)) fs) path = Inr (final, written')"
proof -
  let ?fs = "fold apply_op (take k (state_writes path written)) fs"
  obtain prefill generated logits where pre: "lookup_res actual ''prefill.input_token_ids'' = Inr prefill" "nm_ints nm prefill = [51, 68, 82, 83]"
    "lookup_res actual ''generation.generated_token_ids'' = Inr generated" "int (length (nm_ints nm generated)) = max_steps"
    and logits: "prefill_logits nm depth [51, 68, 82, 83] = Inr logits"
    and run: "run_steps to_js nm actual (nm_ints nm generated) depth (fresh_state nm\<lparr>gs_next_token := nm_argmax nm logits\<rparr>) [0..max_steps - 1] =
      Inr (final, written)"
    using assms(2-4) by (auto simp: generation_reference_def read_generation_state_def next_token_of_def fresh_state_def bind_res_Inr_iff Let_def
        simp del: lookup_res_iff)
  have "reached (nm_ints nm generated) 0 (fresh_state nm\<lparr>gs_next_token := nm_argmax nm logits\<rparr>)"
    by (simp add: reached_def fresh_state_def)
  note states = run_from_written[OF run this order_refl pre(4)[symmetric]]
  have "?fs path \<in> insert (fs path) (Some ` Complete ` set written)"
    using writes_prefix[of k path written fs] assms(2) by (simp add: state_writes_def)
  then show ?thesis
  proof
    assume "?fs path = fs path"
    then have "read_generation_state ?fs path = read_generation_state fs path" by (simp add: read_generation_state_def)
    then have "generation_reference to_js of_js nm actual depth max_steps ?fs path = generation_reference to_js of_js nm actual depth max_steps fs path"
      by (simp add: generation_reference_def)
    then show ?thesis using assms(4) by auto
  next
    assume "?fs path \<in> Some ` Complete ` set written"
    then obtain w where w: "w \<in> set written" "?fs path = Some (Complete w)" by auto
    have "0 \<le> max_steps" using pre(4) by simp
    then obtain s' ws' logits' where s': "w = encode_state to_js s'" "reached (nm_ints nm generated) (gs_next_step s') s'" "0 \<le> gs_next_step s'"
      "gs_next_step s' \<le> max_steps" "prefill_logits nm depth (gs_tokens s') = Inr logits'"
      "run_steps to_js nm actual (nm_ints nm generated) depth s' [gs_next_step s'..max_steps - 1] = Inr (final, ws')"
      using states w(1) by blast
    from resume_written[OF assms(1,2) _ pre s'(2,3,4,5,6), of ?fs] w(2) s'(1) show ?thesis by blast
  qed
qed

text \<open>
  The token sequence that is printed for comparison is the production sequence: a run that ends has appended
  exactly the captured tokens to the four prefill tokens, so the parity flag it prints is always true; a
  divergence shows as an exception of the step that consumes the token.
\<close>

theorem parity_always_true:
  assumes "generation_reference to_js of_js nm actual depth max_steps fs path = Inr (final, written)" "fs path = None"
  shows "sequence_parity nm actual final = Inr True \<and> gs_next_step final = max_steps"
proof -
  obtain prefill generated logits where pre: "lookup_res actual ''generation.generated_token_ids'' = Inr generated"
      "int (length (nm_ints nm generated)) = max_steps"
    and run: "run_steps to_js nm actual (nm_ints nm generated) depth (fresh_state nm\<lparr>gs_next_token := nm_argmax nm logits\<rparr>) [0..max_steps - 1] =
      Inr (final, written)"
    using assms by (auto simp: generation_reference_def read_generation_state_def next_token_of_def fresh_state_def bind_res_Inr_iff Let_def
        simp del: lookup_res_iff split: if_splits)
  have "reached (nm_ints nm generated) 0 (fresh_state nm\<lparr>gs_next_token := nm_argmax nm logits\<rparr>)"
    by (simp add: reached_def fresh_state_def)
  from run_from_written[OF run this order_refl pre(2)[symmetric]] pre(2) have "reached (nm_ints nm generated) max_steps final" by simp
  then show ?thesis using pre by (auto simp: sequence_parity_def reached_def simp del: lookup_res_iff)
qed

text \<open>A concrete instance: arrays are integer lists, a layer adds one to every entry, floats are integers.\<close>

definition list_numerics :: "(int list, int) numerics" where
  "list_numerics = \<lparr>nm_rows = \<lambda>ids. Inr ids, nm_layer = \<lambda>l v. Inr (map ((+) 1) v, Some [v], [(''kv_key'', v)]),
     nm_logits = \<lambda>v. Inr v, nm_last = \<lambda>v. [last v], nm_max_abs = \<lambda>a b. \<bar>sum_list a - sum_list b\<bar>,
     nm_max_rel = \<lambda>a b. \<bar>sum_list a - sum_list b\<bar>, nm_ints = \<lambda>v. v, nm_argmax = \<lambda>v. last v, nm_top10 = \<lambda>v. v,
     nm_max = max, nm_zero = 0\<rparr>"

definition sample_actual :: "(string \<times> int list) list" where
  "sample_actual = [(''prefill.input_token_ids'', [51, 68, 82, 83]), (''generation.generated_token_ids'', [84, 85]),
     (''generation.step0.layer0.output'', [85]), (''generation.step0.layer0.selection_ids'', [51, 68, 82, 83, 84]),
     (''generation.step0.logits'', [85]), (''generation.step1.layer0.output'', [80]),
     (''generation.step1.layer0.selection_ids'', [51, 68, 82, 84, 83, 85]), (''generation.step1.layer0.kv_key'', [450]),
     (''generation.step1.logits'', [86])]"

definition int_js :: "json \<Rightarrow> int res" where "int_js v = as_int v"

definition sample_run :: "(int gen_state \<times> json list) res" where
  "sample_run = generation_reference JInt int_js list_numerics sample_actual 1 2 (\<lambda>_. None) ''s''"

lemma sample_run_value: "case sample_run of Inl _ \<Rightarrow> False | Inr (t, ws) \<Rightarrow> gs_routing t = 2 \<and> gs_order t = 1 \<and> length ws = 2"
  by code_simp

theorem killed_run_resumes_witness:
  "\<exists>t ws ws'. sample_run = Inr (t, ws) \<and> gs_routing t = 2 \<and> generation_reference JInt int_js list_numerics sample_actual 1 2
     (fold apply_op (take 6 (state_writes ''s'' ws)) (\<lambda>_. None)) ''s'' = Inr (t, ws')"
proof -
  obtain t ws where r: "sample_run = Inr (t, ws)" "gs_routing t = 2" using sample_run_value by (auto split: sum.splits)
  have "\<And>x. int_js (JInt x) = Inr x" by (simp add: int_js_def)
  from killed_run_resumes[OF this _ _ r(1)[unfolded sample_run_def], of 6] r show ?thesis by auto
qed

theorem parity_always_true_witness:
  "\<exists>t ws. sample_run = Inr (t, ws) \<and> sequence_parity list_numerics sample_actual t = Inr True"
proof -
  obtain t ws where r: "sample_run = Inr (t, ws)" using sample_run_value by (auto split: sum.splits)
  from parity_always_true[OF r[unfolded sample_run_def]] r show ?thesis by auto
qed

end
