(* ===== verification/Generation_Runs.thy ===== *)
theory Generation_Runs
  imports Generation
begin

text \<open>
  The resumable generation check of \<open>Generation\<close> as a state machine: the files and the operations the running
  process has still to do.  A step does one file operation, or kills the process, wherever it is, and starts a
  new run on the files as they are.  The invariant is that the state file is absent or holds a state from which
  the rest of the run ends as the first run did.
\<close>

section \<open>Processes and their steps\<close>

text \<open>\<open>run\<close> gives what a process would write, from the files it finds when it starts.\<close>

inductive process_step :: "(files \<Rightarrow> ('s \<times> json list) res) \<Rightarrow> string \<Rightarrow> files \<times> file_op list \<Rightarrow> files \<times> file_op list \<Rightarrow> bool"
  for run path where
  operate: "process_step run path (fs, op # ops) (apply_op op fs, ops)"
| restart: "run fs = Inr (t, written) \<Longrightarrow> process_step run path (fs, ops) (fs, state_writes path written)"

lemma process_operates:
  "(process_step run path)\<^sup>*\<^sup>* (fs, ops) (fold apply_op (take k ops) fs, drop k ops)"
proof (induction ops arbitrary: fs k)
  case (Cons op ops)
  have "process_step run path (fs, op # ops) (apply_op op fs, ops)" by (rule operate)
  then show ?case using Cons[of "apply_op op fs" "k - 1"] by (cases k) (auto intro: converse_rtranclp_into_rtranclp)
qed simp

section \<open>States a run can be continued from\<close>

definition continues :: "('f \<Rightarrow> json) \<Rightarrow> ('v, 'f) numerics \<Rightarrow> (string \<times> 'v) list \<Rightarrow> int list \<Rightarrow> nat \<Rightarrow> 'f gen_state \<Rightarrow> json \<Rightarrow> bool" where
  "continues to_js nm actual production depth final w \<longleftrightarrow>
     (\<exists>s logits ws. w = encode_state to_js s \<and> reached production (gs_next_step s) s \<and> 0 \<le> gs_next_step s \<and>
        gs_next_step s \<le> int (length production) \<and> prefill_logits nm depth (gs_tokens s) = Inr logits \<and>
        run_steps to_js nm actual production depth s [gs_next_step s..int (length production) - 1] = Inr (final, ws))"

definition resumable :: "('f \<Rightarrow> json) \<Rightarrow> ('v, 'f) numerics \<Rightarrow> (string \<times> 'v) list \<Rightarrow> int list \<Rightarrow> nat \<Rightarrow> 'f gen_state \<Rightarrow>
    contents option \<Rightarrow> bool" where
  "resumable to_js nm actual production depth final c \<longleftrightarrow>
     c = None \<or> c \<in> Some ` Complete ` {w. continues to_js nm actual production depth final w}"

lemma written_continues:
  assumes "run_steps to_js nm actual production depth s [step..int (length production) - 1] = Inr (final, ws)"
    "reached production step s" "0 \<le> step" "step \<le> int (length production)" "w \<in> set ws"
  shows "continues to_js nm actual production depth final w"
  using run_from_written[OF assms(1-3) refl assms(4)] assms(5) unfolding continues_def by blast

lemma run_steps_last:
  "run_steps to_js nm actual production depth s steps = Inr (t, ws) \<Longrightarrow>
   (steps = [] \<and> t = s \<and> ws = []) \<or> (steps \<noteq> [] \<and> ws \<noteq> [] \<and> last ws = encode_state to_js t)"
proof (induction steps arbitrary: s ws)
  case (Cons step steps)
  obtain s1 ws1 where "run_steps to_js nm actual production depth s1 steps = Inr (t, ws1)" "ws = encode_state to_js s1 # ws1"
    using Cons.prems unfolding run_steps_Cons by (auto simp: bind_res_Inr_iff)
  then show ?case using Cons.IH[of s1 ws1] by auto
qed simp

lemma writes_all:
  "(fold apply_op (concat (map (write_generation_state path) ws)) fs) path =
     (if ws = [] then fs path else Some (Complete (last ws)))"
proof (induction ws arbitrary: fs)
  case (Cons w ws)
  have "(fold apply_op (write_generation_state path w) fs) path = Some (Complete w)"
    using write_prefix[of 4 path w fs] by (simp add: write_generation_state_def)
  then show ?case using Cons by simp
qed simp

section \<open>Every run ends alike\<close>

text \<open>What the run on the first files establishes about the captured arrays.\<close>

lemma first_run:
  assumes "generation_reference to_js of_js nm actual depth max_steps fs path = Inr (final, written)" "fs path = None"
  obtains prefill generated logits where "lookup_res actual ''prefill.input_token_ids'' = Inr prefill"
    "nm_ints nm prefill = [51, 68, 82, 83]" "lookup_res actual ''generation.generated_token_ids'' = Inr generated"
    "int (length (nm_ints nm generated)) = max_steps" "prefill_logits nm depth [51, 68, 82, 83] = Inr logits"
    "run_steps to_js nm actual (nm_ints nm generated) depth (fresh_state nm\<lparr>gs_next_token := nm_argmax nm logits\<rparr>) [0..max_steps - 1] =
       Inr (final, written)"
  using assms by (auto simp: generation_reference_def read_generation_state_def next_token_of_def fresh_state_def bind_res_Inr_iff Let_def
      simp del: lookup_res_iff split: if_splits)

lemma fresh_reached: "reached production 0 (fresh_state nm\<lparr>gs_next_token := t\<rparr>)"
  by (simp add: reached_def fresh_state_def)

text \<open>Whatever is in the state file, the operations end as those of the first run, and every prefix of them is resumable.\<close>

lemma resumed_run:
  assumes "\<And>x. of_js (to_js x) = Inr x" "path \<noteq> []"
    and first: "generation_reference to_js of_js nm actual depth max_steps fs0 path = Inr (final, written)" "fs0 path = None"
    and gen: "lookup_res actual ''generation.generated_token_ids'' = Inr generated"
    and state: "resumable to_js nm actual (nm_ints nm generated) depth final (fs path)"
  obtains ws where "generation_reference to_js of_js nm actual depth max_steps fs path = Inr (final, ws)"
    "\<forall>w \<in> set ws. continues to_js nm actual (nm_ints nm generated) depth final w"
    "ws = [] \<Longrightarrow> 0 < max_steps \<Longrightarrow> fs path = Some (Complete (encode_state to_js final))"
    "ws \<noteq> [] \<Longrightarrow> last ws = encode_state to_js final"
proof -
  let ?p = "nm_ints nm generated"
  obtain prefill logits where pre: "lookup_res actual ''prefill.input_token_ids'' = Inr prefill" "nm_ints nm prefill = [51, 68, 82, 83]"
      "int (length ?p) = max_steps" "prefill_logits nm depth [51, 68, 82, 83] = Inr logits"
      "run_steps to_js nm actual ?p depth (fresh_state nm\<lparr>gs_next_token := nm_argmax nm logits\<rparr>) [0..max_steps - 1] = Inr (final, written)"
    using first_run[OF first] gen by (metis sum.inject(2))
  from state consider "fs path = None" | w where "fs path = Some (Complete w)" "continues to_js nm actual ?p depth final w"
    by (auto simp: resumable_def)
  then show thesis
  proof cases
    case 1
    then have "read_generation_state fs path = read_generation_state fs0 path"
      using first(2) by (simp add: read_generation_state_def)
    then have "generation_reference to_js of_js nm actual depth max_steps fs path = Inr (final, written)"
      using first(1) by (simp add: generation_reference_def)
    moreover have "\<forall>w \<in> set written. continues to_js nm actual ?p depth final w"
      using written_continues[OF pre(5)[folded pre(3)] fresh_reached] by simp
    ultimately show thesis using that run_steps_last[OF pre(5)] by auto
  next
    case 2
    then obtain s logits' ws where s: "w = encode_state to_js s" "reached ?p (gs_next_step s) s" "0 \<le> gs_next_step s"
        "gs_next_step s \<le> max_steps" "prefill_logits nm depth (gs_tokens s) = Inr logits'"
        "run_steps to_js nm actual ?p depth s [gs_next_step s..max_steps - 1] = Inr (final, ws)"
      unfolding continues_def pre(3) by blast
    have "generation_reference to_js of_js nm actual depth max_steps fs path = Inr (final, ws)"
      using resume_written[OF assms(1,2) _ pre(1,2) gen pre(3) s(2-6), of fs] 2(1) s(1) by simp
    moreover have "\<forall>w \<in> set ws. continues to_js nm actual ?p depth final w"
      using written_continues[OF s(6)[folded pre(3)] s(2,3)] s(4) pre(3) by simp
    ultimately show thesis using that run_steps_last[OF s(6)] 2(1) s(1) by auto
  qed
qed

lemma resumable_prefix:
  assumes "\<forall>w \<in> set ws. continues to_js nm actual production depth final w"
    "resumable to_js nm actual production depth final (fs path)"
  shows "resumable to_js nm actual production depth final ((fold apply_op (take k (state_writes path ws)) fs) path)"
  using writes_prefix[of k path ws fs] assms by (auto simp: resumable_def state_writes_def)

text \<open>
  The invariant: the state file is resumable now and after any number of the operations that are left.
\<close>

lemma reachable_resumable:
  assumes "\<And>x. of_js (to_js x) = Inr x" "path \<noteq> []" "fs0 path = None"
    and first: "generation_reference to_js of_js nm actual depth max_steps fs0 path = Inr (final, written)"
    and gen: "lookup_res actual ''generation.generated_token_ids'' = Inr generated"
    and "(process_step (\<lambda>fs. generation_reference to_js of_js nm actual depth max_steps fs path) path)\<^sup>*\<^sup>* (fs0, []) st"
  shows "resumable to_js nm actual (nm_ints nm generated) depth final ((fold apply_op (take k (snd st)) (fst st)) path)"
  using assms(6)
proof (induction arbitrary: k rule: rtranclp_induct)
  case base
  then show ?case using assms(3) by (simp add: resumable_def)
next
  case (step st st')
  from step(2) show ?case
  proof cases
    case (operate fs op ops)
    then show ?thesis using step.IH[of "Suc k"] by (simp only: operate fst_conv snd_conv take_Suc_Cons fold_simps)
  next
    case (restart fs t ws ops)
    have now: "resumable to_js nm actual (nm_ints nm generated) depth final (fs path)" using step.IH[of 0] restart by simp
    obtain ws' where "generation_reference to_js of_js nm actual depth max_steps fs path = Inr (final, ws')"
        "\<forall>w \<in> set ws'. continues to_js nm actual (nm_ints nm generated) depth final w"
      by (rule resumed_run[where fs = fs and path = path, OF assms(1,2) first assms(3) gen now], rule that)
    then have "\<forall>w \<in> set ws. continues to_js nm actual (nm_ints nm generated) depth final w" using restart(3) by simp
    from resumable_prefix[where path = path and fs = fs and k = k, OF this now] show ?thesis by (simp only: restart(2) fst_conv snd_conv)
  qed
qed

text \<open>
  C3. A generation check survives any number of kills: let a run that starts without a state file end with a final
  state.  However often the process is killed, between two file operations or in the middle of a write, and started again
  on the files it left, the state file is never half written, the next run ends with the same final state, with
  all mismatch counts, maxima and per-step lists, and letting it finish leaves that state in the file.
  The one hypothesis on the libraries is that a float written by \<open>json.dump\<close> is read back as it was.
\<close>

theorem killed_runs_agree:
  assumes "\<And>x. of_js (to_js x) = Inr x" "path \<noteq> []" "fs0 path = None" "0 < max_steps"
    and "generation_reference to_js of_js nm actual depth max_steps fs0 path = Inr (final, written)"
    and "(process_step (\<lambda>fs. generation_reference to_js of_js nm actual depth max_steps fs path) path)\<^sup>*\<^sup>* (fs0, []) (fs, ops)"
  shows "fs path \<noteq> Some Unfinished \<and>
    (\<exists>ws. generation_reference to_js of_js nm actual depth max_steps fs path = Inr (final, ws) \<and>
       (fold apply_op (state_writes path ws) fs) path = Some (Complete (encode_state to_js final)))"
proof -
  obtain generated where gen: "lookup_res actual ''generation.generated_token_ids'' = Inr generated"
    using first_run[OF assms(5,3)] by blast
  have now: "resumable to_js nm actual (nm_ints nm generated) depth final (fs path)"
    using reachable_resumable[where path = path and k = 0, OF assms(1-3,5) gen assms(6)] by simp
  obtain ws where ws: "generation_reference to_js of_js nm actual depth max_steps fs path = Inr (final, ws)"
      "ws = [] \<Longrightarrow> 0 < max_steps \<Longrightarrow> fs path = Some (Complete (encode_state to_js final))"
      "ws \<noteq> [] \<Longrightarrow> last ws = encode_state to_js final"
    using resumed_run[where fs = fs and path = path, OF assms(1,2,5,3) gen now] by blast
  have "(fold apply_op (state_writes path ws) fs) path = Some (Complete (encode_state to_js final))"
    using ws(2,3) assms(2,4) by (simp add: state_writes_def writes_all)
  then show ?thesis using now ws(1) by (auto simp: resumable_def)
qed

text \<open>The sample run of \<open>Generation\<close>, killed in its second write and started again.\<close>

theorem killed_runs_agree_witness:
  "\<exists>t ws ws'. sample_run = Inr (t, ws) \<and> gs_routing t = 2 \<and> generation_reference JInt int_js list_numerics sample_actual 1 2
     (fold apply_op (take 6 (state_writes ''s'' ws)) (\<lambda>_. None)) ''s'' = Inr (t, ws')"
proof -
  let ?run = "\<lambda>fs. generation_reference JInt int_js list_numerics sample_actual 1 2 fs ''s''"
  obtain t ws where r: "sample_run = Inr (t, ws)" "gs_routing t = 2" using sample_run_value by (auto split: sum.splits)
  have run: "?run (\<lambda>_. None) = Inr (t, ws)" using r(1) by (simp add: sample_run_def)
  have "(process_step ?run ''s'')\<^sup>*\<^sup>* (\<lambda>_. None, []) (\<lambda>_. None, state_writes ''s'' ws)"
    by (rule r_into_rtranclp) (rule restart[where run = ?run, OF run])
  from rtranclp_trans[OF this process_operates[of ?run "''s''" "\<lambda>_. None" "state_writes ''s'' ws" 6]]
  have killed: "(process_step ?run ''s'')\<^sup>*\<^sup>* (\<lambda>_. None, [])
    (fold apply_op (take 6 (state_writes ''s'' ws)) (\<lambda>_. None), drop 6 (state_writes ''s'' ws))" .
  have "int_js (JInt x) = Inr x" for x by (simp add: int_js_def)
  from killed_runs_agree[where of_js = int_js and path = "''s''", OF this _ refl _ run killed]
  obtain ws' where "?run (fold apply_op (take 6 (state_writes ''s'' ws)) (\<lambda>_. None)) = Inr (t, ws')" by auto
  then show ?thesis using r by blast
qed

end
