(* ===== verification/Geometry17.thy ===== *)
theory Geometry17
  imports Gguf_Roundtrip
begin

text \<open>
  \<open>scripts/qualify_step17.py\<close>: the payload geometry of the pinned consumer (\<open>expected_bytes\<close>), the
  search for pinned source lines (\<open>source_provenance\<close>) and the representation parity rows of \<open>main\<close>.
  The theorems compare \<open>expected_bytes\<close> with the geometry that the GGUF reader of step 16 assumes.
\<close>

section \<open>Expected payload sizes\<close>

definition checked_mul17 :: "int \<Rightarrow> int \<Rightarrow> int res" where
  "checked_mul17 a b = (let result = a * b in
     if result > push_bit 64 1 - 1 then Inl (ValueError ''u64 multiplication overflow'') else Inr result)"

text \<open>The body every block-quantised branch has: rows times blocks per row times bytes per block.\<close>

definition row_blocks :: "string \<Rightarrow> int list \<Rightarrow> int \<Rightarrow> int \<Rightarrow> int res" where
  "row_blocks name shape block block_bytes =
     (if shape = [] \<or> hd shape mod block \<noteq> 0
      then Inl (ValueError (name @ '' innermost row is not divisible by the block''))
      else bind_res (fold_res checked_mul17 1 (tl shape)) (\<lambda>rows.
           bind_res (checked_mul17 rows (hd shape div block)) (\<lambda>blocks. checked_mul17 blocks block_bytes)))"

definition expected_bytes :: "string \<Rightarrow> int list \<Rightarrow> int res" where
  "expected_bytes type_name shape =
     bind_res (fold_res checked_mul17 1 shape) (\<lambda>elements.
     if type_name = ''F32'' then checked_mul17 elements 4
     else if type_name = ''BF16'' then checked_mul17 elements 2
     else if type_name = ''Q8_0'' then row_blocks type_name shape 32 34
     else if type_name = ''Q4_0'' then row_blocks type_name shape 32 18
     else if type_name = ''Q2_K'' then row_blocks type_name shape 256 84
     else if type_name = ''IQ1_S'' then row_blocks type_name shape 256 50
     else if type_name \<in> {''Q4_K'', ''Q4_K_S'', ''Q4_K_M''} then row_blocks ''Q4_K'' shape 256 144
     else if type_name \<in> {''Q3_K'', ''Q3_K_S'', ''Q3_K_M''} then row_blocks ''Q3_K'' shape 256 110
     else if type_name = ''Q5_K'' then row_blocks type_name shape 256 176
     else if type_name = ''Q6_K'' then row_blocks type_name shape 256 210
     else let block_bytes = (if type_name = ''IQ2_XXS'' then Some 66 else if type_name = ''IQ2_XS'' then Some 74
         else if type_name = ''IQ2_S'' then Some 84 else None) in
       (case block_bytes of Some n \<Rightarrow> row_blocks type_name shape 256 n
        | None \<Rightarrow> if type_name = ''IQ4_NL'' then row_blocks type_name shape 32 18
            else if type_name = ''IQ4_XS'' then row_blocks type_name shape 256 136
            else Inl (ValueError ''unsupported Step-17 type'')))"

section \<open>Pinned sources and parity rows\<close>

text \<open>
  The first line that contains a needle, with its number.  \<open>lines\<close> gives the lines of a pinned file,
  \<open>None\<close> when the file is absent; \<open>strip\<close> is Python's \<open>str.strip\<close> on ASCII.
\<close>

definition is_blank :: "char \<Rightarrow> bool" where
  "is_blank c \<longleftrightarrow> of_char c \<in> {9 :: int, 10, 11, 12, 13, 28, 29, 30, 31, 32}"

definition strip :: "string \<Rightarrow> string" where
  "strip s = rev (dropWhile is_blank (rev (dropWhile is_blank s)))"

definition find_needle :: "string \<Rightarrow> string list \<Rightarrow> (int \<times> string) option" where
  "find_needle needle lines = (case find (\<lambda>(i, line). contains needle line) (List.enumerate 0 lines) of
     None \<Rightarrow> None | Some (i, line) \<Rightarrow> Some (int i + 1, strip line))"

definition needle_matches :: "string \<Rightarrow> string list \<Rightarrow> string list \<Rightarrow> (string \<times> int \<times> string) list res" where
  "needle_matches absent needles lines = map_res (\<lambda>needle. case find_needle needle lines of
     None \<Rightarrow> Inl (ValueError absent) | Some (line, text) \<Rightarrow> Inr (needle, line, text)) needles"

definition PROVENANCE_FILES :: "(string \<times> string list) list" where
  "PROVENANCE_FILES = [
     (''ggml/include/ggml.h'', [''GGML_TYPE_F32'', ''GGML_TYPE_Q8_0'', ''GGML_TYPE_BF16'']),
     (''ggml/src/ggml-common.h'', [''#define QK8_0 32'', ''typedef struct {'', ''block_q8_0'']),
     (''ggml/src/ggml.c'', [''[GGML_TYPE_Q8_0]'', ''[GGML_TYPE_BF16]'', ''size_t ggml_row_size'']),
     (''ggml/src/ggml-impl.h'', [''ggml_compute_bf16_to_fp32'', ''ggml_compute_fp32_to_bf16'']),
     (''ggml/src/ggml-quants.c'', [''quantize_row_q8_0_ref'', ''dequantize_row_q8_0'']),
     (''src/models/qwen3.cpp'', [''output = create_tensor'', ''TENSOR_DUPLICATED'']),
     (''src/llama-model-loader.cpp'', [''some models use the token embedding tensor as the output'', ''TENSOR_DUPLICATED''])]"

definition source_provenance :: "(string \<Rightarrow> string list option) \<Rightarrow> (string \<times> (string \<times> int \<times> string) list) list res" where
  "source_provenance files = map_res (\<lambda>(relative, needles). case files relative of
       None \<Rightarrow> Inl (ValueError ''pinned source file is absent'')
     | Some lines \<Rightarrow> bind_res (needle_matches ''pinned source symbol/text is absent'' needles lines) (\<lambda>m. Inr (relative, m)))
     PROVENANCE_FILES"

record parity_row =
  py_artifact :: string
  py_name :: string
  py_shape :: "int list"
  py_type_id :: int
  py_type :: string
  py_actual :: "int option"
  py_expected :: "int option"
  py_match :: bool
  py_failed :: bool

definition parity_row_of :: "string \<Rightarrow> tensor \<Rightarrow> parity_row" where
  "parity_row_of label t = (let expected = (case expected_bytes (tn_type_name t) (tn_shape t) of Inl _ \<Rightarrow> None | Inr n \<Rightarrow> Some n) in
     \<lparr>py_artifact = label, py_name = tn_name t, py_shape = tn_shape t, py_type_id = tn_type_id t, py_type = tn_type_name t,
      py_actual = tn_payload_size t, py_expected = expected, py_match = (expected = tn_payload_size t),
      py_failed = (expected = None)\<rparr>)"

definition parity_rows :: "(string \<times> artifact) list \<Rightarrow> parity_row list \<times> parity_row list" where
  "parity_rows artifacts = (let rows = concat (map (\<lambda>(label, a). map (parity_row_of label) (ar_tensors a)) artifacts) in
     (rows, filter (\<lambda>row. \<not> py_match row) rows))"


section \<open>Agreement with the GGUF reader\<close>

lemma checked_mul17_Inr: "checked_mul17 a b = Inr v \<longleftrightarrow> v = a * b \<and> v < 2 ^ 64"
  by (auto simp: checked_mul17_def Let_def push_bit_eq_mult)

lemma fold_mul17: "fold_res checked_mul17 a dims = Inr v \<Longrightarrow> v = a * prod_list dims \<and> (a < 2 ^ 64 \<longrightarrow> v < 2 ^ 64)"
proof (induction dims arbitrary: a)
  case (Cons d dims)
  then have "fold_res checked_mul17 (a * d) dims = Inr v" "a * d < 2 ^ 64"
    by (auto simp: bind_res_Inr_iff checked_mul17_Inr)
  with Cons.IH[of "a * d"] show ?case by (simp add: mult.assoc)
qed simp

lemma row_blocks_Inr:
  assumes "row_blocks name shape block n = Inr e"
  shows "block dvd prod_list shape \<and> e = prod_list shape div block * n \<and> e < 2 ^ 64"
proof -
  have shape: "shape = hd shape # tl shape" and dvd: "block dvd hd shape"
    using assms by (auto simp: row_blocks_def split: if_splits)
  obtain rows where rows: "fold_res checked_mul17 1 (tl shape) = Inr rows"
    and e: "e = rows * (hd shape div block) * n" "e < 2 ^ 64"
    using assms by (auto simp: row_blocks_def bind_res_Inr_iff checked_mul17_Inr split: if_splits)
  have "rows = prod_list (tl shape)" using fold_mul17[OF rows] by simp
  moreover have P: "prod_list shape = hd shape * prod_list (tl shape)" by (subst shape) simp
  moreover have "hd shape * prod_list (tl shape) div block = hd shape div block * prod_list (tl shape)"
    using dvd by (simp add: div_mult_swap mult.commute)
  moreover have "block dvd hd shape * prod_list (tl shape)" using dvd by simp
  ultimately show ?thesis using e by (simp add: ac_simps)
qed

text \<open>The geometry that \<open>expected_bytes\<close> encodes, as a table.\<close>

definition geometry17 :: "(string \<times> int \<times> int) list" where
  "geometry17 = [(''F32'', 1, 4), (''BF16'', 1, 2), (''Q8_0'', 32, 34), (''Q4_0'', 32, 18), (''Q2_K'', 256, 84),
     (''IQ1_S'', 256, 50), (''Q4_K'', 256, 144), (''Q4_K_S'', 256, 144), (''Q4_K_M'', 256, 144),
     (''Q3_K'', 256, 110), (''Q3_K_S'', 256, 110), (''Q3_K_M'', 256, 110), (''Q5_K'', 256, 176), (''Q6_K'', 256, 210),
     (''IQ2_XXS'', 256, 66), (''IQ2_XS'', 256, 74), (''IQ2_S'', 256, 84), (''IQ4_NL'', 32, 18), (''IQ4_XS'', 256, 136)]"

lemma geometry17_names: "map_of geometry17 name = Some (block, n) \<Longrightarrow> name \<in> set (map fst geometry17)"
  by (metis domI dom_map_of_conv_image_fst image_set)

lemma expected_bytes_cases:
  assumes "expected_bytes name shape = Inr e"
  shows "name \<in> set (map fst geometry17)"
proof (rule ccontr)
  assume "name \<notin> set (map fst geometry17)"
  then have "name \<notin> {''F32'', ''BF16'', ''Q8_0'', ''Q4_0'', ''Q2_K'', ''IQ1_S'', ''Q4_K'', ''Q4_K_S'', ''Q4_K_M'', ''Q3_K'', ''Q3_K_S'',
      ''Q3_K_M'', ''Q5_K'', ''Q6_K'', ''IQ2_XXS'', ''IQ2_XS'', ''IQ2_S'', ''IQ4_NL'', ''IQ4_XS''}"
    by (simp add: geometry17_def)
  then have "expected_bytes name shape =
      bind_res (fold_res checked_mul17 1 shape) (\<lambda>_. Inl (ValueError ''unsupported Step-17 type''))"
    by (simp add: expected_bytes_def)
  with assms show False by (simp add: bind_res_Inr_iff)
qed

lemma expected_bytes_primitive:
  "expected_bytes ''F32'' shape = bind_res (fold_res checked_mul17 1 shape) (\<lambda>el. checked_mul17 el 4)"
  "expected_bytes ''BF16'' shape = bind_res (fold_res checked_mul17 1 shape) (\<lambda>el. checked_mul17 el 2)"
  by (simp_all add: expected_bytes_def)

lemma expected_bytes_block:
  assumes "name \<in> set (map fst geometry17)" "name \<noteq> ''F32''" "name \<noteq> ''BF16''"
  shows "\<exists>nm block n. map_of geometry17 name = Some (block, n) \<and>
    expected_bytes name shape = bind_res (fold_res checked_mul17 1 shape) (\<lambda>_. row_blocks nm shape block n)"
proof -
  have "name \<in> {''Q8_0'', ''Q4_0'', ''Q2_K'', ''IQ1_S'', ''Q4_K'', ''Q4_K_S'', ''Q4_K_M'', ''Q3_K'', ''Q3_K_S'',
      ''Q3_K_M'', ''Q5_K'', ''Q6_K'', ''IQ2_XXS'', ''IQ2_XS'', ''IQ2_S'', ''IQ4_NL'', ''IQ4_XS''}"
    using assms by (simp add: geometry17_def)
  then show ?thesis
    by (elim insertE emptyE) (simp_all add: expected_bytes_def geometry17_def, blast+)
qed

lemma expected_bytes_table:
  assumes "expected_bytes name shape = Inr e"
  shows "\<exists>block n. map_of geometry17 name = Some (block, n) \<and> block dvd prod_list shape \<and>
    e = prod_list shape div block * n \<and> e < 2 ^ 64 \<and> prod_list shape < 2 ^ 64"
proof -
  obtain elements where el: "fold_res checked_mul17 1 shape = Inr elements"
    using assms unfolding expected_bytes_def bind_res_Inr_iff by blast
  have P: "elements = prod_list shape" "prod_list shape < 2 ^ 64" using fold_mul17[OF el] by simp_all
  consider "name = ''F32''" | "name = ''BF16''" | "name \<noteq> ''F32''" "name \<noteq> ''BF16''" by blast
  then show ?thesis
  proof cases
    case 3
    then obtain block n nm where "map_of geometry17 name = Some (block, n)" "row_blocks nm shape block n = Inr e"
      using expected_bytes_block[OF expected_bytes_cases[OF assms] 3, of shape] assms el by auto
    then show ?thesis using row_blocks_Inr P by blast
  qed (use assms el P in \<open>simp_all add: expected_bytes_primitive checked_mul17_Inr geometry17_def\<close>)
qed


lemma fold16_of_fold17:
  "fold_res checked_mul17 a dims = Inr v \<Longrightarrow> 0 \<le> a \<Longrightarrow> list_all (\<lambda>d. 0 \<le> d) dims \<Longrightarrow> fold_res checked_mul16 a dims = Inr v"
proof (induction dims arbitrary: a)
  case (Cons d dims)
  then have "fold_res checked_mul17 (a * d) dims = Inr v" "0 \<le> a * d" "a * d < 2 ^ 64"
    by (auto simp: bind_res_Inr_iff checked_mul17_Inr)
  moreover from this have "checked_mul16 a d = Inr (a * d)" by (simp add: checked_mul16_Inr)
  ultimately show ?case using Cons.IH[of "a * d"] Cons.prems by simp
qed simp

lemma types_agree:
  assumes "map_of TYPES ty = Some (name, block, n)" and "map_of geometry17 name = Some (block', n')"
  shows "block = block' \<and> (if name = ''IQ2_S'' then n = 82 \<and> n' = 84 else n = n')"
proof -
  have "list_all (\<lambda>(_, name, block, n). case map_of geometry17 name of None \<Rightarrow> True
     | Some (block', n') \<Rightarrow> block = block' \<and> (if name = ''IQ2_S'' then n = 82 \<and> n' = 84 else n = n')) TYPES"
    by code_simp
  moreover have "(ty, name, block, n) \<in> set TYPES" using assms(1) by (rule map_of_SomeD)
  ultimately show ?thesis using assms(2) by (fastforce simp: list_all_iff)
qed

lemma prod_list_nonneg: "list_all (\<lambda>d. 0 \<le> d) dims \<Longrightarrow> (0 :: int) \<le> prod_list dims"
  by (induction dims) auto

lemma reader_size:
  assumes ty: "map_of TYPES ty = Some (name, block, n)" and dims: "list_all (\<lambda>d. 0 \<le> d) shape"
    and e: "expected_bytes name shape = Inr e"
  shows "\<exists>k. block dvd prod_list shape \<and> k = prod_list shape div block \<and>
    e = (if name = ''IQ2_S'' then k * 84 else k * n) \<and> tensor_size shape ty = Inr (prod_list shape, Some (k * n))"
proof -
  obtain block' n' where g: "map_of geometry17 name = Some (block', n')" and d: "block' dvd prod_list shape"
    and ev: "e = prod_list shape div block' * n'" "e < 2 ^ 64" "prod_list shape < 2 ^ 64"
    using expected_bytes_table[OF e] by blast
  note ta = types_agree[OF ty g]
  define k where "k = prod_list shape div block"
  have pos: "0 < block" "0 < n" using TYPES_block_pos[OF ty] by simp_all
  have k0: "0 \<le> k" using prod_list_nonneg[OF dims] pos by (simp add: k_def pos_imp_zdiv_nonneg_iff)
  have blk: "block' = block" "n \<le> n'" using ta by (simp_all split: if_splits)
  have "k * n \<le> k * n'" using blk k0 by (simp add: mult_left_mono)
  then have lt: "k * n < 2 ^ 64" and k: "e = k * n'" using ev blk by (simp_all add: k_def)
  obtain el where el: "fold_res checked_mul17 1 shape = Inr el"
    using e unfolding expected_bytes_def bind_res_Inr_iff by blast
  have fold: "fold_res checked_mul16 1 shape = Inr (prod_list shape)"
    using fold16_of_fold17[OF el _ dims] fold_mul17[OF el] by simp
  have mul: "checked_mul16 k n = Inr (k * n)" using lt k0 pos by (simp add: checked_mul16_Inr)
  have md: "prod_list shape mod block = 0" using d blk by (simp add: dvd_eq_mod_eq_0)
  have "tensor_size shape ty = (if block = 1 then bind_res (checked_mul16 (prod_list shape) n) (\<lambda>m. Inr (prod_list shape, Some m))
     else bind_res (checked_mul16 k n) (\<lambda>m. Inr (prod_list shape, Some m)))"
    unfolding tensor_size_def fold bind_res_simps ty option.case prod.case md k_def by simp
  moreover have "block = 1 \<Longrightarrow> prod_list shape = k" by (simp add: k_def)
  ultimately have size: "tensor_size shape ty = Inr (prod_list shape, Some (k * n))" using mul by auto
  have "block dvd prod_list shape" "e = (if name = ''IQ2_S'' then k * 84 else k * n)"
    using ta d blk k by (simp_all split: if_splits)
  then show ?thesis using size k_def by blast
qed

text \<open>
  The two descriptions of the payload geometry agree except on \<open>IQ2_S\<close>: for a type of the GGUF
  table and a shape of unsigned dimensions, whenever the pinned consumer's \<open>expected_bytes\<close> gives a
  size, the GGUF reader gives a size too, and it is the same one unless the type is \<open>IQ2_S\<close>.
\<close>

theorem geometry_agrees:
  assumes "map_of TYPES ty = Some (name, block, n)" and "list_all (\<lambda>d. 0 \<le> d) shape"
    and "expected_bytes name shape = Inr e" and "name \<noteq> ''IQ2_S''"
  shows "tensor_size shape ty = Inr (prod_list shape, Some e)"
  using reader_size[OF assms(1-3)] assms(4) by auto

theorem geometry_agrees_witness:
  "expected_bytes ''Q8_0'' [64, 3] = Inr 204 \<and> tensor_size [64, 3] 8 = Inr (192, Some 204)"
proof -
  have "map_of TYPES 8 = Some (''Q8_0'', 32, 34)" by (simp add: TYPES_def)
  moreover have e: "expected_bytes ''Q8_0'' [64, 3] = Inr 204" by code_simp
  ultimately have "tensor_size [64, 3] 8 = Inr (prod_list [64, 3], Some 204)"
    using geometry_agrees[of 8 "''Q8_0''" 32 34 "[64, 3]" 204] by simp
  then show ?thesis using e by simp
qed

text \<open>
  C40. On \<open>IQ2_S\<close> they disagree, 82 bytes a block against 84: every non-empty \<open>IQ2_S\<close> tensor that the
  reader places has a payload size other than the one the manifest and parity checks expect.
\<close>

theorem IQ2_S_geometry_mismatch:
  assumes "list_all (\<lambda>d. 0 \<le> d) shape" and "expected_bytes ''IQ2_S'' shape = Inr e"
    and "tensor_size shape 22 = Inr (elements, sz)" and "e \<noteq> 0"
  shows "sz \<noteq> Some e"
proof -
  have "map_of TYPES 22 = Some (''IQ2_S'', 256, 82)" by (simp add: TYPES_def)
  from reader_size[OF this assms(1,2)] show ?thesis using assms(3,4) by auto
qed

theorem IQ2_S_geometry_mismatch_witness:
  "expected_bytes ''IQ2_S'' [256, 2] = Inr 168 \<and> tensor_size [256, 2] 22 = Inr (512, Some 164) \<and> Some (164 :: int) \<noteq> Some 168"
proof -
  have e: "expected_bytes ''IQ2_S'' [256, 2] = Inr 168" "tensor_size [256, 2] 22 = Inr (512, Some 164)" by code_simp+
  show ?thesis using e IQ2_S_geometry_mismatch[OF _ e] by simp
qed

end
