(* ===== verification/Legacy_Fixtures.thy ===== *)
theory Legacy_Fixtures
  imports Bytes Json
begin

text \<open>
  The verifier of the frozen v0.5 evidence, \<open>scripts/verify_vbuf_fixtures.py\<close>: the check of a file against
  its manifest entry, of a valid fixture's header and two blocks, and \<open>main\<close> over a directory (a list of
  names with their bytes) and its manifest.  SHA-256 in hexadecimal is the parameter \<open>sha\<close>.
  Messages are shortened to their fixed part.
\<close>

definition legacy_fail :: "string \<Rightarrow> py_error" where
  "legacy_fail message = SystemExit (''legacy fixture verification failed: '' @ message)"

definition hex_char :: "int \<Rightarrow> char" where
  "hex_char n = (if n < 10 then char_of (nat (48 + n)) else char_of (nat (87 + n)))"

definition hex_of :: "bytes \<Rightarrow> string" where
  "hex_of raw = concat (map (\<lambda>b. [hex_char (uint b div 16), hex_char (uint b mod 16)]) raw)"

definition read_file :: "(string \<times> bytes) list \<Rightarrow> json \<Rightarrow> bytes res" where
  "read_file files path = (case path of
       JStr name \<Rightarrow> (case map_of files name of None \<Rightarrow> Inl FileNotFoundError | Some data \<Rightarrow> Inr data)
     | _ \<Rightarrow> Inl FileNotFoundError)"

definition checked_file :: "(bytes \<Rightarrow> string) \<Rightarrow> (string \<times> bytes) list \<Rightarrow> json \<Rightarrow> bytes res" where
  "checked_file sha files entry =
     bind_res (jget entry ''path'') (\<lambda>path. bind_res (read_file files path) (\<lambda>data.
     bind_res (jget entry ''size'') (\<lambda>size.
     bind_res (require (jeq (JInt (int (length data))) size) (legacy_fail ''size mismatch'')) (\<lambda>_.
     bind_res (jget entry ''sha256'') (\<lambda>digest.
     bind_res (require (jeq (JStr (sha data)) digest) (legacy_fail ''SHA-256 mismatch'')) (\<lambda>_.
     Inr data))))))"

definition check_field :: "json \<Rightarrow> string \<times> int \<Rightarrow> unit res" where
  "check_field column p = (case p of (field, value) \<Rightarrow> bind_res (jget column field) (\<lambda>v.
     require (jeq (JInt value) v) (legacy_fail (field @ '' mismatch''))))"

definition align16 :: "int \<Rightarrow> int" where
  "align16 v = (v + 15) AND NOT 15"

definition check_column :: "bytes \<Rightarrow> json \<times> nat \<Rightarrow> unit res" where
  "check_column data p = (case p of (column, block_offset) \<Rightarrow>
     bind_res (unpack_le 8 data block_offset) (\<lambda>anchor.
     bind_res (unpack_le 8 data (block_offset + 8)) (\<lambda>count.
     let actual = [(''semantic'', anchor AND 0xF), (''key_id'', drop_bit 16 anchor AND 0xFFFF),
           (''bit_width'', drop_bit 32 anchor AND 0xFFFF), (''count'', count)] in
     bind_res (require (anchor AND push_bit 9 1 \<noteq> 0) (legacy_fail ''expected overflow-count encoding'')) (\<lambda>_.
     bind_res (map_res (check_field column) actual) (\<lambda>_.
     bind_res (jget column ''payload_offset'') (\<lambda>payload_offset.
     require (jeq (JInt (align16 (int block_offset + 16))) payload_offset) (legacy_fail ''payload offset mismatch'')))))))"

text \<open>\<open>zip(..., strict=True)\<close>: the shorter side is noticed after the pairs before it.\<close>

definition check_columns :: "bytes \<Rightarrow> json list \<Rightarrow> unit res" where
  "check_columns data columns =
     bind_res (map_res (check_column data) (zip columns [16, 48])) (\<lambda>_.
     require (length columns = 2) (ValueError ''zip() argument lengths''))"

definition verify_valid_fixture :: "json \<Rightarrow> bytes \<Rightarrow> json \<Rightarrow> unit res" where
  "verify_valid_fixture entry data shared =
     bind_res (jget shared ''magic_bytes_hex'') (\<lambda>magic.
     bind_res (require (jeq (JStr (hex_of (take 4 data))) magic) (legacy_fail ''magic mismatch'')) (\<lambda>_.
     bind_res (unpack_le 4 data 4) (\<lambda>version. bind_res (jget shared ''version_u32_le'') (\<lambda>version'.
     bind_res (require (jeq (JInt version) version') (legacy_fail ''version mismatch'')) (\<lambda>_.
     bind_res (byte_at data 8) (\<lambda>shift. bind_res (jget shared ''stored_a_shift'') (\<lambda>shift'.
     bind_res (require (jeq (JInt shift) shift') (legacy_fail ''stored AShift mismatch'')) (\<lambda>_.
     bind_res (unpack_le 4 data 12) (\<lambda>data_len. bind_res (jget entry ''data_len_u32_le'') (\<lambda>data_len'.
     bind_res (require (jeq (JInt data_len) data_len') (legacy_fail ''DataLen mismatch'')) (\<lambda>_.
     bind_res (jget_list entry ''columns'') (check_columns data))))))))))))"

definition check_entry :: "(bytes \<Rightarrow> string) \<Rightarrow> (string \<times> bytes) list \<Rightarrow> json \<Rightarrow> (json \<times> bytes) list \<Rightarrow> json \<Rightarrow> (json \<times> bytes) list res" where
  "check_entry sha files manifest bytes_by_name entry =
     bind_res (checked_file sha files entry) (\<lambda>data. bind_res (jget entry ''path'') (\<lambda>path.
     bind_res (jhas entry ''columns'') (\<lambda>has_columns.
     bind_res (if has_columns then bind_res (jget manifest ''shared_observations'') (verify_valid_fixture entry data)
       else bind_res (jhas entry ''observed_legacy_behavior'') (\<lambda>a. bind_res (jhas entry ''expected_v06'') (\<lambda>b.
         require (a \<and> b) (legacy_fail ''malformed evidence lacks behavior/v0.6 annotation'')))) (\<lambda>_.
     Inr (AList.update path data bytes_by_name)))))"

definition check_named :: "(json \<times> bytes) list \<Rightarrow> unit res" where
  "check_named bytes_by_name =
     bind_res (lookup_res bytes_by_name (JStr ''current-typescript.vbuf'')) (\<lambda>original.
     bind_res (lookup_res bytes_by_name (JStr ''truncated-typescript.vbuf'')) (\<lambda>truncated.
     bind_res (require (truncated = take (length original - 8) original) (legacy_fail ''not the one-Float64 truncation'')) (\<lambda>_.
     bind_res (unpack_le 8 truncated 48) (\<lambda>anchor. bind_res (unpack_le 8 truncated 56) (\<lambda>count.
     bind_res (require ((drop_bit 32 anchor AND 0xFFFF, count, int (length truncated) - 64) = (64, 2, 8))
       (legacy_fail ''truncated fixture no longer declares 2 x Float64 with one available'')) (\<lambda>_.
     bind_res (lookup_res bytes_by_name (JStr ''short.vbuf'')) (\<lambda>short.
     bind_res (require (length short < 16) (legacy_fail ''short.vbuf is not short'')) (\<lambda>_.
     bind_res (lookup_res bytes_by_name (JStr ''bad-magic.vbuf'')) (\<lambda>bad_magic.
     require (take 4 bad_magic \<noteq> [0x56, 0x42, 0x55, 0x46]) (legacy_fail ''bad-magic.vbuf unexpectedly has VBUF magic''))))))))))"

definition legacy_main :: "(bytes \<Rightarrow> string) \<Rightarrow> (string \<times> bytes) list \<Rightarrow> json \<Rightarrow> int res" where
  "legacy_main sha files manifest =
     bind_res (jget_list manifest ''files'') (\<lambda>listed_entries.
     bind_res (map_res (\<lambda>entry. jget entry ''path'') listed_entries) (\<lambda>listed.
     let present = map JStr (filter (\<lambda>name. name \<noteq> ''manifest.json'') (map fst files)) in
     bind_res (require (set listed = set present) (legacy_fail ''manifest/files differ'')) (\<lambda>_.
     bind_res (fold_res (check_entry sha files manifest) [] listed_entries) (\<lambda>bytes_by_name.
     bind_res (check_named bytes_by_name) (\<lambda>_.
     Inr (int (card (set listed))))))))"

section \<open>What a successful run shows\<close>

lemma check_entry_file:
  assumes "check_entry sha files manifest d entry = Inr d'"
  shows "\<exists>name data. jget entry ''path'' = Inr (JStr name) \<and> map_of files name = Some data \<and> d' = AList.update (JStr name) data d \<and>
    (\<exists>size. jget entry ''size'' = Inr size \<and> jeq (JInt (int (length data))) size) \<and>
    (\<exists>digest. jget entry ''sha256'' = Inr digest \<and> jeq (JStr (sha data)) digest)"
proof -
  obtain data path where c: "checked_file sha files entry = Inr data" and p: "jget entry ''path'' = Inr path" and d: "d' = AList.update path data d"
    using assms by (auto simp: check_entry_def bind_res_Inr_iff)
  have r: "read_file files path = Inr data" using c p by (auto simp: checked_file_def bind_res_Inr_iff)
  then obtain name where "path = JStr name" "map_of files name = Some data"
    by (auto simp: read_file_def split: json.splits option.splits)
  moreover have "(\<exists>size. jget entry ''size'' = Inr size \<and> jeq (JInt (int (length data))) size) \<and>
      (\<exists>digest. jget entry ''sha256'' = Inr digest \<and> jeq (JStr (sha data)) digest)"
    using c by (auto simp: checked_file_def bind_res_Inr_iff)
  ultimately show ?thesis using p d by blast
qed

lemma check_entries_files:
  "fold_res (check_entry sha files manifest) d entries = Inr d' \<Longrightarrow>
     (\<forall>name data. map_of d (JStr name) = Some data \<longrightarrow> map_of files name = Some data) \<Longrightarrow>
     map_of d' (JStr name) = Some data \<Longrightarrow> map_of files name = Some data"
proof (induction entries arbitrary: d)
  case (Cons e es)
  obtain d1 where d1: "check_entry sha files manifest d e = Inr d1" "fold_res (check_entry sha files manifest) d1 es = Inr d'"
    using Cons.prems(1) by (auto simp: bind_res_Inr_iff)
  obtain n x where "map_of files n = Some x" "d1 = AList.update (JStr n) x d" using check_entry_file[OF d1(1)] by blast
  then have "\<forall>name data. map_of d1 (JStr name) = Some data \<longrightarrow> map_of files name = Some data"
    using Cons.prems(2) by (simp add: update_conv')
  then show ?case using Cons.IH[OF d1(2)] Cons.prems(3) by blast
qed simp

lemma check_entries_mem:
  assumes "fold_res (check_entry sha files manifest) d entries = Inr d'" "e \<in> set entries"
  shows "\<exists>d d''. check_entry sha files manifest d e = Inr d''"
  using assms
proof (induction entries arbitrary: d)
  case (Cons x xs)
  then obtain d1 where d1: "check_entry sha files manifest d x = Inr d1" "fold_res (check_entry sha files manifest) d1 xs = Inr d'"
    by (auto simp: bind_res_Inr_iff)
  show ?case
  proof (cases "e = x")
    case False
    then show ?thesis using Cons.IH[OF d1(2)] Cons.prems(2) by simp
  qed (use d1(1) in blast)
qed simp

text \<open>
  When the verifier succeeds, every file it lists is present with the size and the digest of its
  entry, and the malformed fixtures are what they are named after: the truncated file is the original less
  eight bytes, and its second block declares two 64-bit values at offset 64, that is 80 bytes, of a file
  of 72; the short file does not hold a header; and the bad one does not start with the magic.
\<close>

theorem legacy_evidence_sound:
  assumes "legacy_main sha files manifest = Inr n" "jget_list manifest ''files'' = Inr entries"
  shows "(\<exists>original truncated short bad_magic anchor. map_of files ''current-typescript.vbuf'' = Some original \<and>
      map_of files ''truncated-typescript.vbuf'' = Some truncated \<and> map_of files ''short.vbuf'' = Some short \<and>
      map_of files ''bad-magic.vbuf'' = Some bad_magic \<and> truncated = take (length original - 8) original \<and>
      unpack_le 8 truncated 48 = Inr anchor \<and> unpack_le 8 truncated 56 = Inr 2 \<and>
      64 + 2 * (drop_bit 32 anchor AND 0xFFFF) div 8 = 80 \<and> length truncated = 72 \<and>
      length short < 16 \<and> take 4 bad_magic \<noteq> [0x56, 0x42, 0x55, 0x46]) \<and>
    list_all (\<lambda>entry. \<exists>name data size digest. jget entry ''path'' = Inr (JStr name) \<and> map_of files name = Some data \<and>
      jget entry ''size'' = Inr size \<and> jeq (JInt (int (length data))) size \<and>
      jget entry ''sha256'' = Inr digest \<and> jeq (JStr (sha data)) digest) entries"
proof
  obtain d where f: "fold_res (check_entry sha files manifest) [] entries = Inr d" and c: "check_named d = Inr ()"
    using assms by (auto simp: legacy_main_def bind_res_Inr_iff)
  have files: "map_of files name = Some data" if "map_of d (JStr name) = Some data" for name data
    using check_entries_files[OF f _ that] by simp
  obtain original truncated anchor short bad_magic where
    o: "map_of d (JStr ''current-typescript.vbuf'') = Some original" "map_of d (JStr ''truncated-typescript.vbuf'') = Some truncated"
      "truncated = take (length original - 8) original" "unpack_le 8 truncated 48 = Inr anchor" "unpack_le 8 truncated 56 = Inr 2"
      "drop_bit 32 anchor AND 0xFFFF = 64" "int (length truncated) - 64 = 8"
    and b: "map_of d (JStr ''short.vbuf'') = Some short" "length short < 16" "map_of d (JStr ''bad-magic.vbuf'') = Some bad_magic"
      "take 4 bad_magic \<noteq> [0x56, 0x42, 0x55, 0x46]"
    using c by (auto simp: check_named_def bind_res_Inr_iff)
  have len: "length truncated = 72" using o(7) by simp
  have w: "64 + 2 * (drop_bit 32 anchor AND 0xFFFF) div 8 = 80" unfolding o(6) by simp
  show "\<exists>original truncated short bad_magic anchor. map_of files ''current-typescript.vbuf'' = Some original \<and>
      map_of files ''truncated-typescript.vbuf'' = Some truncated \<and> map_of files ''short.vbuf'' = Some short \<and>
      map_of files ''bad-magic.vbuf'' = Some bad_magic \<and> truncated = take (length original - 8) original \<and>
      unpack_le 8 truncated 48 = Inr anchor \<and> unpack_le 8 truncated 56 = Inr 2 \<and>
      64 + 2 * (drop_bit 32 anchor AND 0xFFFF) div 8 = 80 \<and> length truncated = 72 \<and>
      length short < 16 \<and> take 4 bad_magic \<noteq> [0x56, 0x42, 0x55, 0x46]"
    using files[OF o(1)] files[OF o(2)] files[OF b(1)] files[OF b(3)] o(3,4,5) len w b(2,4) by blast
  show "list_all (\<lambda>entry. \<exists>name data size digest. jget entry ''path'' = Inr (JStr name) \<and> map_of files name = Some data \<and>
      jget entry ''size'' = Inr size \<and> jeq (JInt (int (length data))) size \<and>
      jget entry ''sha256'' = Inr digest \<and> jeq (JStr (sha data)) digest) entries"
    unfolding list_all_iff
  proof
    fix e
    assume "e \<in> set entries"
    then obtain d1 d2 where "check_entry sha files manifest d1 e = Inr d2" using check_entries_mem[OF f] by blast
    from check_entry_file[OF this] show "\<exists>name data size digest. jget e ''path'' = Inr (JStr name) \<and> map_of files name = Some data \<and>
      jget e ''size'' = Inr size \<and> jeq (JInt (int (length data))) size \<and>
      jget e ''sha256'' = Inr digest \<and> jeq (JStr (sha data)) digest" by blast
  qed
qed

definition sample_files :: "(string \<times> bytes) list" where
  "sample_files = (let whole = replicate 48 0 @ le_enc 8 (push_bit 32 64) @ le_enc 8 2 @ replicate 16 0 in
     [(''current-typescript.vbuf'', whole), (''truncated-typescript.vbuf'', take 72 whole), (''short.vbuf'', [1, 2]),
      (''bad-magic.vbuf'', [0, 0, 0, 0, 0])])"

definition sample_manifest :: json where
  "sample_manifest = JObj [(''files'', JArr (map (\<lambda>(name, n). JObj [(''path'', JStr name), (''size'', JInt n), (''sha256'', JStr ''h''),
     (''observed_legacy_behavior'', JNull), (''expected_v06'', JNull)])
     [(''current-typescript.vbuf'', 80), (''truncated-typescript.vbuf'', 72), (''short.vbuf'', 2), (''bad-magic.vbuf'', 5)]))]"

theorem legacy_evidence_sound_witness:
  "legacy_main (\<lambda>_. ''h'') sample_files sample_manifest = Inr 4 \<and>
   (\<exists>truncated. map_of sample_files ''truncated-typescript.vbuf'' = Some truncated \<and> length truncated = 72)"
proof -
  have r: "legacy_main (\<lambda>_. ''h'') sample_files sample_manifest = Inr 4" by code_simp
  have "case jget_list sample_manifest ''files'' of Inl _ \<Rightarrow> False | Inr e \<Rightarrow> True" by code_simp
  then obtain es where es: "jget_list sample_manifest ''files'' = Inr es" by (auto split: sum.splits)
  show ?thesis using legacy_evidence_sound[OF r es] r by blast
qed

end
