(* ===== verification/Lookahead.thy ===== *)
theory Lookahead
  imports Complex_Main Prelude
begin

text \<open>
  The bounded producer and consumer of \<open>scripts/run_step29_layer_io.py\<close>: the event simulation
  \<open>simulate\<close> of \<open>main\<close>, where a producer prepares one layer at a time, at most a window of prepared
  layers ahead, and a consumer computes them in order.  Times are rational milliseconds, where the script
  has floats.  The resident weight bytes of its result, a sum over the plan, are \<open>resident_weight_bytes\<close>.
  Both lists of times come from the same rows, so they have the same length.
  The loop needs no fuel: every round ends the producer's or the consumer's current layer.
\<close>

record sim =
  sm_ready :: "nat set"
  sm_p_next :: nat
  sm_c_next :: nat
  sm_p_busy :: "(rat \<times> nat) option"
  sm_c_busy :: "(rat \<times> nat) option"
  sm_now :: rat
  sm_stall_start :: "rat option"
  sm_stall_ms :: rat
  sm_stalls :: int
  sm_max_debt :: nat

definition sim_begin :: "nat \<Rightarrow> nat \<Rightarrow> sim" where
  "sim_begin prefix n = \<lparr>sm_ready = {0..<min prefix n}, sm_p_next = prefix, sm_c_next = 0, sm_p_busy = None, sm_c_busy = None,
     sm_now = 0, sm_stall_start = None, sm_stall_ms = 0, sm_stalls = 0, sm_max_debt = 0\<rparr>"

definition start_consumer :: "rat list \<Rightarrow> sim \<Rightarrow> sim" where
  "start_consumer compute_times s =
     (if sm_c_busy s \<noteq> None then s
      else if sm_c_next s \<in> sm_ready s then
        (let s1 = s\<lparr>sm_ready := sm_ready s - {sm_c_next s}, sm_c_busy := Some (sm_now s + compute_times ! sm_c_next s, sm_c_next s)\<rparr> in
         case sm_stall_start s of None \<Rightarrow> s1
         | Some t \<Rightarrow> s1\<lparr>sm_stall_ms := sm_stall_ms s + (sm_now s - t), sm_stall_start := None\<rparr>)
      else if sm_stall_start s = None then s\<lparr>sm_stall_start := Some (sm_now s), sm_stalls := sm_stalls s + 1\<rparr>
      else s)"

definition start_producer :: "nat \<Rightarrow> rat list \<Rightarrow> nat \<Rightarrow> sim \<Rightarrow> sim" where
  "start_producer window prep_times n s =
     (let s1 = (if sm_p_busy s = None \<and> sm_p_next s < n \<and> card (sm_ready s) < window then
          s\<lparr>sm_p_busy := Some (sm_now s + prep_times ! sm_p_next s, sm_p_next s), sm_p_next := sm_p_next s + 1\<rparr> else s) in
      s1\<lparr>sm_max_debt := max (sm_max_debt s1) (card (sm_ready s1) + (if sm_p_busy s1 \<noteq> None then 1 else 0))\<rparr>)"

definition event_times :: "sim \<Rightarrow> rat list" where
  "event_times s = (case sm_p_busy s of None \<Rightarrow> [] | Some (t, _) \<Rightarrow> [t]) @ (case sm_c_busy s of None \<Rightarrow> [] | Some (t, _) \<Rightarrow> [t])"

definition tolerance :: rat where "tolerance = 1 / 10 ^ 9"

definition finish :: "sim \<Rightarrow> sim" where
  "finish s =
     (let s1 = (case sm_p_busy s of Some (t, i) \<Rightarrow>
            if t \<le> sm_now s + tolerance then s\<lparr>sm_ready := insert i (sm_ready s), sm_p_busy := None\<rparr> else s
          | None \<Rightarrow> s) in
      case sm_c_busy s1 of Some (t, i) \<Rightarrow>
          if t \<le> sm_now s1 + tolerance then s1\<lparr>sm_c_next := sm_c_next s1 + 1, sm_c_busy := None\<rparr> else s1
        | None \<Rightarrow> s1)"

definition advance :: "sim \<Rightarrow> sim" where
  "advance s = finish (s\<lparr>sm_now := Min (set (event_times s))\<rparr>)"

definition remaining :: "nat \<Rightarrow> sim \<Rightarrow> nat" where
  "remaining n s = 2 * (n - sm_c_next s) + (if sm_c_busy s = None then 1 else 0) +
     2 * (n - sm_p_next s) + (if sm_p_busy s = None then 0 else 1)"

lemma tolerance_pos: "0 < tolerance"
  by (simp add: tolerance_def)

lemma event_times_nil: "event_times s = [] \<longleftrightarrow> sm_p_busy s = None \<and> sm_c_busy s = None"
  by (auto simp: event_times_def split: option.splits prod.splits)

lemma start_consumer_fields [simp]:
  "sm_c_next (start_consumer ct s) = sm_c_next s" "sm_p_next (start_consumer ct s) = sm_p_next s"
  "sm_p_busy (start_consumer ct s) = sm_p_busy s" "sm_now (start_consumer ct s) = sm_now s"
  "sm_max_debt (start_consumer ct s) = sm_max_debt s"
  by (auto simp: start_consumer_def Let_def split: option.splits)

lemma start_producer_fields [simp]:
  "sm_c_next (start_producer w pt n s) = sm_c_next s" "sm_c_busy (start_producer w pt n s) = sm_c_busy s"
  "sm_ready (start_producer w pt n s) = sm_ready s" "sm_now (start_producer w pt n s) = sm_now s"
  "sm_stall_start (start_producer w pt n s) = sm_stall_start s" "sm_stall_ms (start_producer w pt n s) = sm_stall_ms s"
  by (simp_all add: start_producer_def Let_def)

lemma remaining_consumer: "remaining n (start_consumer ct s) \<le> remaining n s"
  by (auto simp: remaining_def start_consumer_def Let_def split: option.splits)

lemma remaining_producer: "remaining n (start_producer w pt n s) \<le> remaining n s"
  by (auto simp: remaining_def start_producer_def Let_def)

lemma event_times_iff: "t \<in> set (event_times s) \<longleftrightarrow> (\<exists>i. sm_p_busy s = Some (t, i)) \<or> (\<exists>i. sm_c_busy s = Some (t, i))"
  by (cases "sm_p_busy s"; cases "sm_c_busy s") (auto simp: event_times_def)

lemma some_event_due:
  assumes "event_times s \<noteq> []"
  shows "(\<exists>t i. sm_p_busy s = Some (t, i) \<and> t \<le> Min (set (event_times s)) + tolerance) \<or>
    (\<exists>t i. sm_c_busy s = Some (t, i) \<and> t \<le> Min (set (event_times s)) + tolerance)"
proof -
  have "Min (set (event_times s)) \<in> set (event_times s)" using assms by (intro Min_in) auto
  moreover have "Min (set (event_times s)) \<le> Min (set (event_times s)) + tolerance" using tolerance_pos by simp
  ultimately show ?thesis unfolding event_times_iff by blast
qed

lemma remaining_advance:
  assumes "event_times s \<noteq> []" "sm_c_next s < n"
  shows "remaining n (advance s) < remaining n s"
proof (cases "sm_p_busy s")
  case None
  then obtain t i where c: "sm_c_busy s = Some (t, i)" "t \<le> Min (set (event_times s)) + tolerance"
    using some_event_due[OF assms(1)] by auto
  then show ?thesis using None assms(2) by (simp add: advance_def finish_def remaining_def)
next
  case (Some p)
  obtain t i where p: "p = (t, i)" by (cases p)
  show ?thesis
  proof (cases "sm_c_busy s")
    case None
    then have "t \<le> Min (set (event_times s)) + tolerance" using some_event_due[OF assms(1)] Some p by auto
    then show ?thesis using Some p None by (simp add: advance_def finish_def remaining_def)
  next
    case c: (Some q)
    obtain u j where q: "q = (u, j)" by (cases q)
    have "t \<le> Min (set (event_times s)) + tolerance \<or> u \<le> Min (set (event_times s)) + tolerance"
      using some_event_due[OF assms(1)] Some p c q by auto
    then show ?thesis using Some p c q assms(2) by (auto simp: advance_def finish_def remaining_def Let_def)
  qed
qed

function sim_rounds :: "nat \<Rightarrow> rat list \<Rightarrow> rat list \<Rightarrow> nat \<Rightarrow> sim \<Rightarrow> sim" where
  "sim_rounds window prep_times compute_times n s =
     (if sm_c_next s < n then
        (let s1 = start_producer window prep_times n (start_consumer compute_times s) in
         if event_times s1 = [] then s1 else sim_rounds window prep_times compute_times n (advance s1))
      else s)"
  by pat_completeness auto

termination sim_rounds
proof (relation "measure (\<lambda>(w, pt, ct, n, s). remaining n s)")
  fix w pt ct n s s1
  assume c: "sm_c_next s < n" and s1: "s1 = start_producer w pt n (start_consumer ct s)" and e: "event_times s1 \<noteq> []"
  have "remaining n (advance s1) < remaining n s1" using e c s1 by (intro remaining_advance) simp_all
  moreover have "remaining n s1 \<le> remaining n s" unfolding s1 using remaining_consumer remaining_producer le_trans by blast
  ultimately show "((w, pt, ct, n, advance s1), (w, pt, ct, n, s)) \<in> measure (\<lambda>(w, pt, ct, n, s). remaining n s)" by simp
qed simp

declare sim_rounds.simps [simp del]

record lookahead =
  la_prefix :: nat
  la_window :: nat
  la_stalls :: int
  la_stall_ms :: rat
  la_max_debt :: nat

definition close_stall :: "sim \<Rightarrow> rat" where
  "close_stall s = sm_stall_ms s + (case sm_stall_start s of None \<Rightarrow> 0 | Some t \<Rightarrow> sm_now s - t)"

definition simulate_lookahead :: "nat \<Rightarrow> nat \<Rightarrow> rat list \<Rightarrow> rat list \<Rightarrow> lookahead" where
  "simulate_lookahead prefix window prep_times compute_times = (let n = length compute_times;
     s = sim_rounds window prep_times compute_times n (sim_begin prefix n) in
     \<lparr>la_prefix = prefix, la_window = window, la_stalls = sm_stalls s, la_stall_ms = close_stall s, la_max_debt = sm_max_debt s\<rparr>)"

definition resident_weight_bytes :: "nat \<Rightarrow> nat \<Rightarrow> (nat \<times> int) list \<Rightarrow> int" where
  "resident_weight_bytes prefix window prep =
     (\<Sum>(layer, span)\<leftarrow>filter (\<lambda>(layer, span). layer < prefix) prep. span) +
     (\<Sum>(layer, span)\<leftarrow>filter (\<lambda>(layer, span). layer \<ge> prefix \<and> layer < prefix + window) prep. span)"

definition sweep :: "rat list \<Rightarrow> rat list \<Rightarrow> lookahead list" where
  "sweep prep_times compute_times =
     map (\<lambda>(prefix, window). simulate_lookahead prefix window prep_times compute_times) (List.product [1, 2, 4, 8, 16, 32] [1, 2, 4, 8, 16])"

section \<open>The run never gets stuck\<close>

definition low :: "sim \<Rightarrow> nat" where
  "low s = sm_c_next s + (if sm_c_busy s = None then 0 else 1)"

definition top :: "nat \<Rightarrow> sim \<Rightarrow> nat" where
  "top n s = (case sm_p_busy s of None \<Rightarrow> min (sm_p_next s) n | Some (_, i) \<Rightarrow> i)"

text \<open>The layers that are ready are those between the consumer and the producer.\<close>

definition layers_ok :: "nat \<Rightarrow> sim \<Rightarrow> bool" where
  "layers_ok n s \<longleftrightarrow> sm_ready s = {low s..<top n s} \<and> low s \<le> top n s \<and>
     (\<forall>t i. sm_c_busy s = Some (t, i) \<longrightarrow> i = sm_c_next s) \<and>
     (\<forall>t i. sm_p_busy s = Some (t, i) \<longrightarrow> sm_p_next s = i + 1 \<and> i < n)"

definition debt_ok :: "nat \<Rightarrow> sim \<Rightarrow> bool" where
  "debt_ok bound s \<longleftrightarrow> card (sm_ready s) + (if sm_p_busy s \<noteq> None then 1 else 0) \<le> bound \<and> sm_max_debt s \<le> bound"

definition clock_ok :: "sim \<Rightarrow> bool" where
  "clock_ok s \<longleftrightarrow> 0 \<le> sm_stall_ms s \<and> (\<forall>t. sm_stall_start s = Some t \<longrightarrow> t \<le> sm_now s) \<and>
     (\<forall>t i. sm_p_busy s = Some (t, i) \<longrightarrow> sm_now s \<le> t) \<and> (\<forall>t i. sm_c_busy s = Some (t, i) \<longrightarrow> sm_now s \<le> t)"

lemma layers_begin: "layers_ok n (sim_begin prefix n)"
  by (simp add: layers_ok_def sim_begin_def low_def top_def)

lemma layers_consumer:
  assumes "layers_ok n s"
  shows "layers_ok n (start_consumer ct s)"
proof (cases "sm_c_busy s = None \<and> sm_c_next s \<in> sm_ready s")
  case True
  have t: "top n (start_consumer ct s) = top n s" by (simp add: top_def cong: option.case_cong)
  have l: "low (start_consumer ct s) = Suc (sm_c_next s)" and r: "sm_ready (start_consumer ct s) = sm_ready s - {sm_c_next s}"
    and c: "\<exists>u. sm_c_busy (start_consumer ct s) = Some (u, sm_c_next s)"
    using True by (auto simp: low_def start_consumer_def Let_def split: option.splits)
  have R: "sm_ready s = {sm_c_next s..<top n s}" using assms True by (simp add: layers_ok_def low_def)
  have "sm_c_next s < top n s" using True unfolding R by simp
  then have d: "sm_ready s - {sm_c_next s} = {Suc (sm_c_next s)..<top n s}" "Suc (sm_c_next s) \<le> top n s" unfolding R by auto
  show ?thesis using assms c unfolding layers_ok_def t l r d(1) by (auto simp: d(2))
next
  case False
  have t: "top n (start_consumer ct s) = top n s" by (simp add: top_def cong: option.case_cong)
  have "sm_c_busy (start_consumer ct s) = sm_c_busy s" "sm_ready (start_consumer ct s) = sm_ready s"
    using False by (auto simp: start_consumer_def)
  then show ?thesis using assms t by (simp add: layers_ok_def low_def)
qed

lemma layers_producer:
  assumes "layers_ok n s"
  shows "layers_ok n (start_producer w pt n s)"
proof -
  have "top n (start_producer w pt n s) = top n s" by (auto simp: top_def start_producer_def Let_def split: option.split)
  moreover have "\<forall>t i. sm_p_busy (start_producer w pt n s) = Some (t, i) \<longrightarrow> sm_p_next (start_producer w pt n s) = i + 1 \<and> i < n"
    using assms by (auto simp: layers_ok_def start_producer_def Let_def)
  ultimately show ?thesis using assms by (simp add: layers_ok_def low_def)
qed

lemma layers_now: "layers_ok n (s\<lparr>sm_now := t\<rparr>) \<longleftrightarrow> layers_ok n s"
proof -
  have "top n (s\<lparr>sm_now := t\<rparr>) = top n s" by (simp add: top_def cong: option.case_cong)
  then show ?thesis by (simp add: layers_ok_def low_def)
qed

definition finish_producer :: "sim \<Rightarrow> sim" where
  "finish_producer s = (case sm_p_busy s of Some (t, i) \<Rightarrow>
     if t \<le> sm_now s + tolerance then s\<lparr>sm_ready := insert i (sm_ready s), sm_p_busy := None\<rparr> else s | None \<Rightarrow> s)"

definition finish_consumer :: "sim \<Rightarrow> sim" where
  "finish_consumer s = (case sm_c_busy s of Some (t, i) \<Rightarrow>
     if t \<le> sm_now s + tolerance then s\<lparr>sm_c_next := sm_c_next s + 1, sm_c_busy := None\<rparr> else s | None \<Rightarrow> s)"

lemma finish_parts: "finish s = finish_consumer (finish_producer s)"
  by (simp add: finish_def finish_consumer_def finish_producer_def Let_def)

lemma layers_finish: "layers_ok n s \<Longrightarrow> layers_ok n (finish s)"
proof -
  assume l: "layers_ok n s"
  have p: "layers_ok n (finish_producer s)"
  proof (cases "sm_p_busy s")
    case (Some ti)
    obtain t i where ti: "ti = (t, i)" by (cases ti)
    then have "sm_p_next s = i + 1" "i < n" "sm_ready s = {low s..<i}" "low s \<le> i"
      using l Some by (auto simp: layers_ok_def top_def)
    then show ?thesis using l Some ti by (auto simp: layers_ok_def finish_producer_def low_def top_def)
  qed (use l in \<open>simp add: finish_producer_def\<close>)
  then show ?thesis unfolding finish_parts
    by (auto simp: layers_ok_def finish_consumer_def low_def top_def split: option.splits)
qed

lemma no_deadlock:
  assumes "layers_ok n s" "sm_c_next s < n" "0 < w" "event_times (start_producer w pt n (start_consumer ct s)) = []"
  shows False
proof -
  let ?c = "start_consumer ct s"
  have l: "layers_ok n ?c" using assms(1) by (rule layers_consumer)
  have b: "sm_p_busy (start_producer w pt n ?c) = None" "sm_c_busy ?c = None"
    using assms(4) unfolding event_times_nil by simp_all
  then have p: "sm_p_busy ?c = None" "\<not> (sm_p_next ?c < n \<and> card (sm_ready ?c) < w)"
    by (auto simp: start_producer_def Let_def split: if_splits)
  have nr: "sm_c_next ?c \<notin> sm_ready ?c" using b(2) by (auto simp: start_consumer_def Let_def split: if_splits option.splits)
  have r: "sm_ready ?c = {sm_c_next s..<min (sm_p_next s) n}" "sm_c_next s \<le> min (sm_p_next s) n"
    using l b(2) p(1) by (simp_all add: layers_ok_def low_def top_def)
  then have "sm_ready ?c = {}" "sm_p_next s < n" using nr assms(2) by auto
  then show False using p(2) assms(3) by simp
qed

lemma debt_step:
  assumes "debt_ok bound s" "w \<le> bound" "finite (sm_ready s)"
  shows "debt_ok bound (start_producer w pt n (start_consumer ct s))"
proof -
  have "debt_ok bound (start_consumer ct s)"
    using assms(1,3) card_Diff1_le[of "sm_ready s" "sm_c_next s"]
    by (auto simp: debt_ok_def start_consumer_def Let_def split: option.splits)
  then show ?thesis using assms(2) by (auto simp: debt_ok_def start_producer_def Let_def)
qed

lemma debt_advance: "debt_ok bound s \<Longrightarrow> finite (sm_ready s) \<Longrightarrow> debt_ok bound (advance s)"
  using card_insert_le_m1
  by (auto simp: debt_ok_def advance_def finish_def Let_def card_insert_if split: option.splits prod.splits)

lemma nth_nonneg: "list_all (\<lambda>t. 0 \<le> t) ts \<Longrightarrow> i < length ts \<Longrightarrow> 0 \<le> (ts ! i :: rat)"
  by (simp add: list_all_length)

lemma clock_start:
  assumes "clock_ok s" "list_all (\<lambda>t. 0 \<le> t) pt" "list_all (\<lambda>t. 0 \<le> t) ct" "length pt = n" "length ct = n" "sm_c_next s < n"
  shows "clock_ok (start_producer w pt n (start_consumer ct s))"
proof -
  have "clock_ok (start_consumer ct s)"
    using assms(1) nth_nonneg[OF assms(3), of "sm_c_next s"] assms(5,6)
    by (auto simp: clock_ok_def start_consumer_def Let_def split: option.splits)
  then show ?thesis using nth_nonneg[OF assms(2)] assms(4)
    by (auto simp: clock_ok_def start_producer_def Let_def)
qed

lemma clock_advance:
  assumes "clock_ok s" "event_times s \<noteq> []"
  shows "clock_ok (advance s)"
proof -
  let ?m = "Min (set (event_times s))"
  have f: "finite (set (event_times s))" "set (event_times s) \<noteq> {}" using assms(2) by auto
  have "?m \<in> set (event_times s)" using f by (rule Min_in)
  then have later: "sm_now s \<le> ?m" using assms(1) unfolding event_times_iff clock_ok_def by blast
  have pc: "sm_p_busy s = Some (t, i) \<Longrightarrow> ?m \<le> t" "sm_c_busy s = Some (t, i) \<Longrightarrow> ?m \<le> t" for t i
    using Min_le[OF f(1), of t] unfolding event_times_iff by blast+
  have "clock_ok (s\<lparr>sm_now := ?m\<rparr>)" using assms(1) later pc by (force simp: clock_ok_def)
  then show ?thesis unfolding advance_def finish_parts
    by (auto simp: clock_ok_def finish_consumer_def finish_producer_def split: option.splits prod.splits if_splits)
qed

definition run_ok :: "nat \<Rightarrow> nat \<Rightarrow> sim \<Rightarrow> bool" where
  "run_ok n bound s \<longleftrightarrow> layers_ok n s \<and> debt_ok bound s \<and> clock_ok s \<and> sm_c_next s \<le> n"

lemma finish_c_next: "sm_c_next (finish s) \<le> sm_c_next s + 1"
  by (auto simp: finish_def Let_def split: option.splits prod.splits)

lemma rounds_complete:
  assumes "run_ok n bound s" "0 < w" "w \<le> bound" "list_all (\<lambda>t. 0 \<le> t) pt" "list_all (\<lambda>t. 0 \<le> t) ct" "length pt = n" "length ct = n"
  shows "run_ok n bound (sim_rounds w pt ct n s) \<and> sm_c_next (sim_rounds w pt ct n s) = n"
  using assms
proof (induction w pt ct n s rule: sim_rounds.induct)
  case (1 w pt ct n s)
  let ?s1 = "start_producer w pt n (start_consumer ct s)"
  show ?case
  proof (cases "sm_c_next s < n")
    case True
    have l: "layers_ok n ?s1" using 1(2) layers_consumer layers_producer by (simp add: run_ok_def)
    have fin: "finite (sm_ready s)" "finite (sm_ready ?s1)" using 1(2) l by (simp_all add: run_ok_def layers_ok_def)
    have d: "debt_ok bound ?s1" using debt_step[OF _ 1(4) fin(1)] 1(2) by (simp add: run_ok_def)
    have c: "clock_ok ?s1" using clock_start[OF _ 1(5,6,7,8) True] 1(2) by (simp add: run_ok_def)
    have e: "event_times ?s1 \<noteq> []" using no_deadlock[of n s w pt ct] 1(2,3) True by (auto simp: run_ok_def)
    have "layers_ok n (advance ?s1)" unfolding advance_def using l layers_now layers_finish by blast
    moreover have "sm_c_next (advance ?s1) \<le> n" unfolding advance_def using finish_c_next[of "?s1\<lparr>sm_now := Min (set (event_times ?s1))\<rparr>"] True by simp
    ultimately have "run_ok n bound (advance ?s1)"
      unfolding run_ok_def using debt_advance[OF d fin(2)] clock_advance[OF c e] by blast
    then show ?thesis using "1.IH"[OF True refl e _ 1(3-8)] True e by (subst (1 2) sim_rounds.simps) (simp add: Let_def)
  next
    case False
    then show ?thesis using 1(2) by (subst (1 2) sim_rounds.simps) (simp add: run_ok_def)
  qed
qed

text \<open>
  C14. The bounded producer and consumer always completes: with a window of at least one layer, whatever the
  preparation and compute times, the run ends with every layer consumed; it never deadlocks with the
  consumer waiting for a layer nobody prepares.  The preparation debt never exceeds the window or the
  initial prefix, whichever is larger, and the stall time is not negative.
\<close>

theorem lookahead_completes:
  assumes "0 < window" "list_all (\<lambda>t. 0 \<le> t) prep_times" "list_all (\<lambda>t. 0 \<le> t) compute_times" "length prep_times = length compute_times"
  shows "sm_c_next (sim_rounds window prep_times compute_times (length compute_times) (sim_begin prefix (length compute_times))) = length compute_times \<and>
    la_max_debt (simulate_lookahead prefix window prep_times compute_times) \<le> max (min prefix (length compute_times)) window \<and>
    0 \<le> la_stall_ms (simulate_lookahead prefix window prep_times compute_times)"
proof -
  let ?n = "length compute_times" and ?s = "sim_rounds window prep_times compute_times (length compute_times) (sim_begin prefix (length compute_times))"
  have "run_ok ?n (max (min prefix ?n) window) (sim_begin prefix ?n)"
    using layers_begin by (auto simp: run_ok_def debt_ok_def clock_ok_def sim_begin_def)
  from rounds_complete[OF this assms(1) _ assms(2,3,4) refl]
  have r: "run_ok ?n (max (min prefix ?n) window) ?s" "sm_c_next ?s = ?n" by simp_all
  then have "0 \<le> close_stall ?s" by (auto simp: run_ok_def clock_ok_def close_stall_def split: option.splits)
  then show ?thesis using r by (simp add: simulate_lookahead_def Let_def run_ok_def debt_ok_def)
qed

theorem lookahead_completes_witness:
  "la_max_debt (simulate_lookahead 1 2 [5, 5, 5] [1, 1, 1]) \<le> max (min 1 3) 2 \<and> 0 \<le> la_stall_ms (simulate_lookahead 1 2 [5, 5, 5] [1, 1, 1])"
  using lookahead_completes[of 2 "[5, 5, 5]" "[1, 1, 1]" 1] by simp

end
