(* ===== verification/Placement.thy ===== *)
theory Placement
  imports Gguf V06_Geometry "HOL-Library.Multiset"
begin

text \<open>
  Simulated layouts of \<open>scripts/qualify_step16.py\<close>: the sort keys of \<open>layout_order\<close>, \<open>simulate\<close>,
  interval merging and the placement metrics.  \<open>placement_start\<close>, a dictionary on every tensor, is
  passed as the list of (ordinal, start) that \<open>simulate\<close> returns.  The amplification factors, float
  quotients of two modelled fields, are left out.
\<close>

section \<open>Orders\<close>

definition token_rank :: "string list \<Rightarrow> string \<Rightarrow> int" where
  "token_rank ranks role = (case find (\<lambda>i. contains (ranks ! i) role) [0..<length ranks] of
       None \<Rightarrow> int (length ranks) | Some i \<Rightarrow> int i)"

text \<open>\<open>role_key\<close>: the first component is the routed flag of the deepseek variant, zero otherwise.\<close>

definition role_key :: "tensor \<Rightarrow> bool \<Rightarrow> int \<times> int \<times> string \<times> int" where
  "role_key t deepseek = (let role = lower (tn_role_detail t) in
     if deepseek then
       (of_bool (any_token [''ffn_gate_exps'', ''ffn_up_exps'', ''ffn_down_exps''] role),
        token_rank [''attn_norm'', ''attn_q'', ''attn_k'', ''attn_v'', ''attn_output'', ''ffn_norm'', ''ffn_gate_inp'',
          ''ffn_exp_probs_b'', ''ffn_gate_shexp'', ''ffn_up_shexp'', ''ffn_down_shexp'', ''ffn_gate_exps'', ''ffn_up_exps'',
          ''ffn_down_exps'', ''ffn_gate'', ''ffn_up'', ''ffn_down''] role, role, tn_ordinal t)
     else
       (0, token_rank [''attn_norm'', ''attn_q'', ''attn_k'', ''attn_v'', ''attn_output'', ''ffn_norm'', ''ffn_gate'',
          ''ffn_up'', ''ffn_down''] role, role, tn_ordinal t))"

definition name_key :: "tensor \<Rightarrow> int \<times> int \<times> string \<times> int" where
  "name_key t = (0, 0, tn_name t, tn_ordinal t)"

text \<open>
  The nested function \<open>key\<close>; the tuples of different groups differ in their first component, so
  the padding of \<open>name_key\<close> never decides a comparison.
\<close>

definition layout_key :: "string \<Rightarrow> bool \<Rightarrow> bool \<Rightarrow> tensor \<Rightarrow> int \<times> int \<times> int \<times> int \<times> string \<times> int" where
  "layout_key name roles prefix t = (let deepseek = (name = ''DEEPSEEK_HOT_ROLE_ORDER'') in
     if tn_group t = ''GlobalPre'' then (0, -1, if roles then role_key t deepseek else name_key t)
     else if tn_group t = ''Layer'' then
       (1, (case tn_layer t of None \<Rightarrow> push_bit 60 1 | Some l \<Rightarrow> l), if roles then role_key t deepseek else name_key t)
     else if tn_group t = ''GlobalPost'' then (if prefix then 3 else 2, push_bit 60 1, name_key t)
     else (4, push_bit 60 1, name_key t))"

definition layout_order :: "artifact \<Rightarrow> string \<Rightarrow> tensor list res" where
  "layout_order a name =
     (if name = ''GGUF_SOURCE_ORDER'' then Inr (source_order (ar_tensors a))
      else if name = ''NAME_ORDER'' then Inr (sort_key tn_name (ar_tensors a))
      else if name = ''LAYER_MAJOR'' then Inr (sort_key (layout_key name False False) (ar_tensors a))
      else if name = ''LAYER_MAJOR_ROLE_ORDER'' then Inr (sort_key (layout_key name True False) (ar_tensors a))
      else if name = ''DEEPSEEK_HOT_ROLE_ORDER'' then Inr (sort_key (layout_key name True False) (ar_tensors a))
      else if name = ''PREFIX_FRIENDLY'' then Inr (sort_key (layout_key name True True) (ar_tensors a))
      else Inl (ValueError ''unknown layout''))"

section \<open>Placement\<close>

definition payload_res :: "tensor \<Rightarrow> int res" where
  "payload_res t = (case tn_payload_size t of None \<Rightarrow> Inl (ValueError ''cannot simulate unresolved payload size'')
     | Some n \<Rightarrow> Inr n)"

text \<open>The two loops of \<open>simulate\<close>: placements, payload and padding (and the final cursor).\<close>

fun place_source :: "tensor list \<Rightarrow> ((int \<times> int) list \<times> int \<times> int) res" where
  "place_source [] = Inr ([], 0, 0)"
| "place_source (t # ts) = bind_res (payload_res t) (\<lambda>n.
     bind_res (place_source ts) (\<lambda>(ps, payload, padding).
     Inr ((tn_ordinal t, tn_absolute_start t) # ps, n + payload,
          (case tn_gap_before t of None \<Rightarrow> 0 | Some g \<Rightarrow> g) + padding)))"

fun place_packed :: "int \<Rightarrow> int \<Rightarrow> tensor list \<Rightarrow> ((int \<times> int) list \<times> int \<times> int \<times> int) res" where
  "place_packed alignment cursor [] = Inr ([], 0, 0, cursor)"
| "place_packed alignment cursor (t # ts) = bind_res (payload_res t) (\<lambda>n.
     bind_res (align_up16 cursor alignment) (\<lambda>start.
     bind_res (place_packed alignment (start + n) ts) (\<lambda>(ps, payload, padding, stop).
     Inr ((tn_ordinal t, start) # ps, n + payload, (start - cursor) + padding, stop))))"

definition simulate_layout :: "artifact \<Rightarrow> string \<Rightarrow> (tensor list \<times> (int \<times> int) list \<times> int \<times> int) res" where
  "simulate_layout a layout =
     bind_res (layout_order a layout) (\<lambda>ordered.
     if layout = ''GGUF_SOURCE_ORDER'' then
       bind_res (place_source ordered) (\<lambda>(ps, payload, padding). Inr (ordered, ps, payload, padding))
     else
       bind_res (place_packed (ar_alignment a) (ar_data_start a) ordered) (\<lambda>(ps, payload, padding, _).
       Inr (ordered, ps, payload, padding)))"

section \<open>Intervals\<close>

definition interval :: "(int \<times> int) list \<Rightarrow> tensor \<Rightarrow> (int \<times> int) res" where
  "interval ps t = bind_res (lookup_res ps (tn_ordinal t)) (\<lambda>start.
     case tn_payload_size t of None \<Rightarrow> Inl (AssertionError '''') | Some n \<Rightarrow> Inr (start, start + n))"

text \<open>The merging loop; \<open>merged\<close> is kept in reverse, so \<open>merged[-1]\<close> is its head.\<close>

fun merge_loop :: "bool \<Rightarrow> (int \<times> int) list \<Rightarrow> (int \<times> int) list \<Rightarrow> (int \<times> int) list" where
  "merge_loop adjacent merged [] = rev merged"
| "merge_loop adjacent [] ((s, e) # rs) = merge_loop adjacent [(s, e)] rs"
| "merge_loop adjacent ((s0, e0) # ms) ((s, e) # rs) =
     (if (if adjacent then s \<le> e0 else s < e0) then merge_loop adjacent ((s0, max e0 e) # ms) rs
      else merge_loop adjacent ((s, e) # (s0, e0) # ms) rs)"

definition merge_ranges :: "bool \<Rightarrow> (int \<times> int) list \<Rightarrow> (int \<times> int) list" where
  "merge_ranges adjacent ranges = merge_loop adjacent [] (sort ranges)"

definition merge_intervals :: "(int \<times> int) list \<Rightarrow> tensor list \<Rightarrow> bool \<Rightarrow> (int \<times> int) list res" where
  "merge_intervals ps ts adjacent = bind_res (map_res (interval ps) ts) (\<lambda>ranges. Inr (merge_ranges adjacent ranges))"

record metric_row =
  mr_tensor_count :: int
  mr_semantic_bytes :: int
  mr_physical_bytes :: int
  mr_range_count :: int
  mr_first_byte :: "int option"
  mr_last_byte :: "int option"
  mr_physical_span :: int

definition metric :: "(int \<times> int) list \<Rightarrow> tensor list \<Rightarrow> bool \<Rightarrow> metric_row res" where
  "metric ps ts adjacent = (let known = filter (\<lambda>t. tn_payload_size t \<noteq> None) ts;
       semantic = sum_list (map (\<lambda>t. case tn_payload_size t of None \<Rightarrow> 0 | Some n \<Rightarrow> n) known) in
     bind_res (merge_intervals ps known adjacent) (\<lambda>extents.
     let first = (case map fst extents of [] \<Rightarrow> None | x # xs \<Rightarrow> Some (fold min xs x));
         last = (case map snd extents of [] \<Rightarrow> None | x # xs \<Rightarrow> Some (fold max xs x)) in
     Inr \<lparr>mr_tensor_count = int (length ts), mr_semantic_bytes = semantic,
          mr_physical_bytes = sum_list (map (\<lambda>(s, e). e - s) extents), mr_range_count = int (length extents),
          mr_first_byte = first, mr_last_byte = last,
          mr_physical_span = (case (first, last) of (Some f, Some l) \<Rightarrow> l - f | _ \<Rightarrow> 0)\<rparr>))"

section \<open>Packed placement\<close>

text \<open>\<open>align_up16\<close> on the alignments it accepts, as an instance of the alignment interface.\<close>

definition ceil_to :: "int \<Rightarrow> int \<Rightarrow> int" where
  "ceil_to value alignment = (value + alignment - 1) div alignment * alignment"

interpretation ceil_al: aligner ceil_to "\<lambda>a. 0 < a"
  by unfold_locales (auto simp: ceil_to_def ceil_mult_bounds)

lemma align_up16_Inr: "align_up16 v a = Inr w \<longleftrightarrow> is_pow2 a \<and> w = ceil_to v a"
  by (auto simp: align_up16_def is_pow2_def ceil_to_def)

lemma payload_res_Inr [simp]: "payload_res t = Inr n \<longleftrightarrow> tn_payload_size t = Some n"
  by (auto simp: payload_res_def split: option.splits)

definition payload_of :: "tensor \<Rightarrow> int" where
  "payload_of t = (case tn_payload_size t of None \<Rightarrow> 0 | Some n \<Rightarrow> n)"

text \<open>Consecutive extents: each starts aligned, at or after the end of the one before.\<close>

fun laid_out :: "int \<Rightarrow> int \<Rightarrow> tensor list \<Rightarrow> (int \<times> int) list \<Rightarrow> int \<Rightarrow> bool" where
  "laid_out a cursor [] [] stop = (stop = cursor)"
| "laid_out a cursor (t # ts) ((k, start) # ps) stop =
     (k = tn_ordinal t \<and> a dvd start \<and> cursor \<le> start \<and> start < cursor + a \<and> laid_out a (start + payload_of t) ts ps stop)"
| "laid_out a cursor ts ps stop = False"

lemma place_packed_laid_out:
  "place_packed a cursor ts = Inr (ps, payload, padding, stop) \<Longrightarrow>
     laid_out a cursor ts ps stop \<and> payload = (\<Sum>t\<leftarrow>ts. payload_of t) \<and> stop = cursor + payload + padding \<and>
     0 \<le> padding \<and> padding \<le> int (length ts) * (a - 1)"
proof (induction ts arbitrary: cursor ps payload padding stop)
  case (Cons t ts)
  then obtain n ps' payload' padding' where n: "tn_payload_size t = Some n" and a: "is_pow2 a"
    and rest: "place_packed a (ceil_to cursor a + n) ts = Inr (ps', payload', padding', stop)"
    and eqs: "ps = (tn_ordinal t, ceil_to cursor a) # ps'" "payload = n + payload'"
      "padding = ceil_to cursor a - cursor + padding'"
    by (auto simp: bind_res_Inr_iff align_up16_Inr)
  have "0 < a" using a is_pow2_pos by blast
  note al = ceil_al.al_dvd[OF this, of cursor] ceil_al.al_ge[OF this, of cursor] ceil_al.al_lt[OF this, of cursor]
  note IH = Cons.IH[OF rest]
  have A: "laid_out a (ceil_to cursor a + n) ts ps' stop" "payload' = (\<Sum>t\<leftarrow>ts. payload_of t)"
    "stop = ceil_to cursor a + n + payload' + padding'" "0 \<le> padding'" "padding' \<le> int (length ts) * (a - 1)"
    using IH by blast+
  have "laid_out a cursor (t # ts) ps stop" using A(1) al n by (simp add: eqs payload_of_def)
  moreover have "payload = (\<Sum>t\<leftarrow>t # ts. payload_of t)" using A(2) n by (simp add: eqs payload_of_def)
  moreover have "stop = cursor + payload + padding" "0 \<le> padding" using A(3,4) al by (simp_all add: eqs)
  moreover have "padding \<le> int (length (t # ts)) * (a - 1)"
    using A(5) al(3) by (simp add: eqs algebra_simps)
  ultimately show ?case by blast
qed simp

lemma layout_order_mset: "layout_order a name = Inr ordered \<Longrightarrow> mset ordered = mset (ar_tensors a)"
  by (auto simp: layout_order_def source_order_def split: if_splits)

text \<open>
  C21. A packed layout is a repacking of the same tensors: whenever \<open>simulate\<close> returns for a layout
  other than the source order, the ordered tensors are a permutation of the artifact's, each start
  is aligned and at or after the end of the tensor before it, by less than one alignment, the
  payload is the sum of the sizes, and the padding is between zero and \<open>alignment - 1\<close> per tensor.
\<close>

theorem packed_layout:
  assumes "simulate_layout a layout = Inr (ordered, ps, payload, padding)" and "layout \<noteq> ''GGUF_SOURCE_ORDER''"
  shows "mset ordered = mset (ar_tensors a) \<and>
    laid_out (ar_alignment a) (ar_data_start a) ordered ps (ar_data_start a + payload + padding) \<and>
    payload = (\<Sum>t\<leftarrow>ar_tensors a. payload_of t) \<and>
    0 \<le> padding \<and> padding \<le> int (length (ar_tensors a)) * (ar_alignment a - 1)"
proof -
  obtain stop where lo: "layout_order a layout = Inr ordered"
    and pl: "place_packed (ar_alignment a) (ar_data_start a) ordered = Inr (ps, payload, padding, stop)"
    using assms by (auto simp: simulate_layout_def bind_res_Inr_iff)
  note m = layout_order_mset[OF lo]
  have "(\<Sum>t\<leftarrow>ordered. payload_of t) = (\<Sum>t\<leftarrow>ar_tensors a. payload_of t)"
    using m by (metis mset_map sum_mset_sum_list)
  moreover have "length ordered = length (ar_tensors a)" using m by (metis size_mset)
  moreover note A = place_packed_laid_out[OF pl]
  moreover have "stop = ar_data_start a + payload + padding" using A by blast
  ultimately show ?thesis using m by metis
qed

definition sample_layer :: artifact where
  "sample_layer = (let t = \<lparr>tn_ordinal = 0, tn_name = ''blk.0.b'', tn_shape = [1], tn_type_id = 0, tn_type_name = ''F32'',
       tn_elements = Some 1, tn_payload_size = Some 4, tn_relative_offset = 0, tn_absolute_start = 0, tn_absolute_end = Some 4,
       tn_layer = Some 0, tn_role = ''b'', tn_group = ''Layer'', tn_role_detail = ''b'', tn_gap_before = Some 0\<rparr> in
     \<lparr>ar_sha256 = [], ar_size = 0, ar_version = 3, ar_tensor_count = 2, ar_metadata_count = 0, ar_metadata = [],
      ar_alignment = 32, ar_data_start = 0, ar_tensors = [t, t\<lparr>tn_ordinal := 1, tn_name := ''blk.0.a''\<rparr>], ar_tensor_info_end = 0\<rparr>)"

theorem packed_layout_witness:
  "\<exists>ordered ps. simulate_layout sample_layer ''NAME_ORDER'' = Inr (ordered, ps, 8, 28) \<and>
     mset ordered = mset (ar_tensors sample_layer) \<and> laid_out 32 0 ordered ps (0 + 8 + 28)"
proof -
  have "case simulate_layout sample_layer ''NAME_ORDER'' of Inl _ \<Rightarrow> False | Inr (_, _, n, p) \<Rightarrow> n = 8 \<and> p = 28" by code_simp
  then obtain ordered ps where s: "simulate_layout sample_layer ''NAME_ORDER'' = Inr (ordered, ps, 8, 28)"
    by (cases "simulate_layout sample_layer ''NAME_ORDER''") auto
  have a: "ar_alignment sample_layer = 32" "ar_data_start sample_layer = 0" by (simp_all add: sample_layer_def Let_def)
  have "''NAME_ORDER'' \<noteq> ''GGUF_SOURCE_ORDER''" by simp
  note P = packed_layout[OF s this, unfolded a]
  then show ?thesis using s by blast
qed

section \<open>Merged intervals\<close>

definition covered :: "(int \<times> int) list \<Rightarrow> int set" where
  "covered rs = (\<Union>(s, e) \<in> set rs. {s..<e})"

lemma covered_simps [simp]: "covered [] = {}" "covered ((s, e) # rs) = {s..<e} \<union> covered rs"
  "covered (xs @ ys) = covered xs \<union> covered ys"
  by (auto simp: covered_def)

lemma covered_rev [simp]: "covered (rev rs) = covered rs"
  by (simp add: covered_def)


fun starts_sorted :: "int \<Rightarrow> (int \<times> int) list \<Rightarrow> bool" where
  "starts_sorted low [] \<longleftrightarrow> True"
| "starts_sorted low ((s, e) # rs) \<longleftrightarrow> low \<le> s \<and> s \<le> e \<and> starts_sorted s rs"

lemma starts_sorted_mono: "starts_sorted s rs \<Longrightarrow> low \<le> s \<Longrightarrow> starts_sorted low rs"
  by (cases rs) auto

lemma join_ranges: "s0 \<le> s \<Longrightarrow> s \<le> e0 \<Longrightarrow> {s0..<e0} \<union> {s..<e} = {s0..<max e0 (e :: int)}"
  by auto

lemma merge_loop_covered:
  "starts_sorted (case ms of [] \<Rightarrow> low | (s0, _) # _ \<Rightarrow> s0) rs \<Longrightarrow>
     covered (merge_loop adjacent ms rs) = covered ms \<union> covered rs"
proof (induction adjacent ms rs arbitrary: low rule: merge_loop.induct)
  case (3 adjacent s0 e0 ms s e rs)
  then have le: "s0 \<le> s" "s \<le> e" "starts_sorted s rs" by simp_all
  let ?joins = "if adjacent then s \<le> e0 else s < e0"
  show ?case
  proof (cases ?joins)
    case True
    then have "s \<le> e0" by (auto split: if_splits)
    then have J: "{s0..<e0} \<union> {s..<e} = {s0..<max e0 e}" using le by (intro join_ranges)
    have "covered (merge_loop adjacent ((s0, max e0 e) # ms) rs) = covered ((s0, max e0 e) # ms) \<union> covered rs"
      using 3(1)[OF True] le starts_sorted_mono by simp
    then show ?thesis using True J by (simp del: max_def) blast
  next
    case False
    have "covered (merge_loop adjacent ((s, e) # (s0, e0) # ms) rs) = covered ((s, e) # (s0, e0) # ms) \<union> covered rs"
      using 3(2)[OF False] le by simp
    then show ?thesis using False by auto
  qed
next
  case (2 adjacent s e rs)
  then show ?case by simp
qed simp


definition gap_between :: "bool \<Rightarrow> int \<times> int \<Rightarrow> int \<times> int \<Rightarrow> bool" where
  "gap_between adjacent x y \<longleftrightarrow> (if adjacent then snd x < fst y else snd x \<le> fst y)"

text \<open>Ranges in order, none empty-reversed, with a gap (or only no overlap) between any two.\<close>

definition separated :: "bool \<Rightarrow> (int \<times> int) list \<Rightarrow> bool" where
  "separated adjacent rs \<longleftrightarrow> list_all (\<lambda>(s, e). s \<le> e) rs \<and> sorted_wrt (gap_between adjacent) rs"

lemma separated_rev_Cons: "separated adjacent (rev (m # ms)) \<longleftrightarrow>
    fst m \<le> snd m \<and> (\<forall>y \<in> set ms. gap_between adjacent y m) \<and> separated adjacent (rev ms)"
  by (cases m) (auto simp: separated_def sorted_wrt_append)

lemma separated_extend:
  "separated adjacent (rev ((s0, e0) # ms)) \<Longrightarrow> separated adjacent (rev ((s0, max e0 e) # ms))"
  unfolding separated_rev_Cons by (auto simp: gap_between_def)

lemma gap_trans: "gap_between adjacent y (s0, e0) \<Longrightarrow> s0 \<le> e0 \<Longrightarrow> gap_between adjacent (s0, e0) m \<Longrightarrow> gap_between adjacent y m"
  by (auto simp: gap_between_def split: if_splits)

lemma separated_push:
  assumes "separated adjacent (rev ((s0, e0) # ms))" and "s \<le> e" and "gap_between adjacent (s0, e0) (s, e)"
  shows "separated adjacent (rev ((s, e) # (s0, e0) # ms))"
proof -
  have A: "s0 \<le> e0" "\<forall>y \<in> set ms. gap_between adjacent y (s0, e0)" using assms(1) unfolding separated_rev_Cons by simp_all
  have "\<forall>y \<in> set ((s0, e0) # ms). gap_between adjacent y (s, e)"
    using A assms(3) gap_trans by auto
  then show ?thesis using assms unfolding separated_rev_Cons[of adjacent "(s, e)"] by simp
qed

lemma merge_loop_separated:
  "starts_sorted (case ms of [] \<Rightarrow> low | (s0, _) # _ \<Rightarrow> s0) rs \<Longrightarrow> separated adjacent (rev ms) \<Longrightarrow>
     separated adjacent (merge_loop adjacent ms rs)"
proof (induction adjacent ms rs arbitrary: low rule: merge_loop.induct)
  case (3 adjacent s0 e0 ms s e rs)
  then have le: "s0 \<le> s" "s \<le> e" "starts_sorted s rs" by simp_all
  let ?joins = "if adjacent then s \<le> e0 else s < e0"
  show ?case
  proof (cases ?joins)
    case True
    have "separated adjacent (merge_loop adjacent ((s0, max e0 e) # ms) rs)"
      using 3(1)[OF True] le starts_sorted_mono separated_extend[OF 3(4)] by (simp only: list.case prod.case)
    then show ?thesis using True by (simp del: max_def)
  next
    case False
    have "gap_between adjacent (s0, e0) (s, e)" using False by (auto simp: gap_between_def split: if_splits)
    then have "separated adjacent (merge_loop adjacent ((s, e) # (s0, e0) # ms) rs)"
      using 3(2)[OF False] le separated_push[OF 3(4)] by (simp only: list.case prod.case)
    then show ?thesis using False by simp
  qed
next
  case (2 adjacent s e rs)
  then have "separated adjacent (rev [(s, e)])" by (simp add: separated_def)
  then show ?case using 2 by simp
qed simp

lemma sorted_starts: "sorted rs \<Longrightarrow> list_all (\<lambda>(s, e). s \<le> e) rs \<Longrightarrow> (\<And>r. r \<in> set rs \<Longrightarrow> low \<le> fst r) \<Longrightarrow> starts_sorted low rs"
proof (induction rs arbitrary: low)
  case (Cons r rs)
  obtain s e where r: "r = (s, e)" by (cases r)
  have "s \<le> fst q" if "q \<in> set rs" for q
  proof -
    have "(s, e) \<le> q" using Cons.prems(1) that r by simp
    then show ?thesis by (cases q) (auto simp: less_eq_prod_def)
  qed
  then have "starts_sorted s rs" using Cons.IH Cons.prems by simp
  moreover have "low \<le> s" using Cons.prems(3)[of "(s, e)"] r by simp
  ultimately show ?case using Cons.prems r by simp
qed simp

lemma merge_ranges_result:
  assumes "list_all (\<lambda>(s, e). s \<le> e) ranges"
  shows "separated adjacent (merge_ranges adjacent ranges) \<and> covered (merge_ranges adjacent ranges) = covered ranges"
proof -
  have all: "list_all (\<lambda>(s, e). s \<le> e) (sort ranges)" using assms by (simp add: list_all_iff)
  obtain low where low: "\<And>r. r \<in> set (sort ranges) \<Longrightarrow> low \<le> fst r"
  proof
    show "\<And>r. r \<in> set (sort ranges) \<Longrightarrow> Min (insert 0 (fst ` set ranges)) \<le> fst r" by simp
  qed
  have "starts_sorted (case [] of [] \<Rightarrow> low | (s0, _) # _ \<Rightarrow> s0) (sort ranges)"
    using sorted_starts[OF sorted_sort all low] by simp
  moreover have "covered (sort ranges) = covered ranges" by (simp add: covered_def)
  ultimately show ?thesis
    using merge_loop_separated[where ms = "[]" and low = low] merge_loop_covered[where ms = "[]" and low = low]
    by (simp add: merge_ranges_def separated_def)
qed


definition total_length :: "(int \<times> int) list \<Rightarrow> int" where
  "total_length rs = (\<Sum>(s, e)\<leftarrow>rs. e - s)"

lemma total_length_simps [simp]: "total_length [] = 0" "total_length ((s, e) # rs) = e - s + total_length rs"
  "total_length (rev rs) = total_length rs"
  by (simp_all add: total_length_def rev_map sum_list_rev flip: rev_map)

lemma merge_loop_length:
  "starts_sorted (case ms of [] \<Rightarrow> low | (s0, _) # _ \<Rightarrow> s0) rs \<Longrightarrow>
     total_length (merge_loop adjacent ms rs) \<le> total_length ms + total_length rs"
proof (induction adjacent ms rs arbitrary: low rule: merge_loop.induct)
  case (3 adjacent s0 e0 ms s e rs)
  then have le: "s0 \<le> s" "s \<le> e" "starts_sorted s rs" by simp_all
  let ?joins = "if adjacent then s \<le> e0 else s < e0"
  show ?case
  proof (cases ?joins)
    case True
    then have "s \<le> e0" by (auto split: if_splits)
    moreover have "total_length (merge_loop adjacent ((s0, max e0 e) # ms) rs) \<le> total_length ((s0, max e0 e) # ms) + total_length rs"
      using 3(1)[OF True] le starts_sorted_mono by simp
    moreover have "max e0 e \<le> e0 + (e - s)" using \<open>s \<le> e0\<close> le by simp
    ultimately have "total_length (merge_loop adjacent ((s0, max e0 e) # ms) rs)
        \<le> total_length ((s0, e0) # ms) + total_length ((s, e) # rs)" unfolding total_length_simps by linarith
    then show ?thesis unfolding merge_loop.simps(3) if_P[OF True] .
  next
    case False
    then show ?thesis using 3(2)[OF False] le by simp
  qed
next
  case (2 adjacent s e rs)
  then show ?case by simp
qed simp

lemma starts_sorted_sort:
  assumes "list_all (\<lambda>(s, e). s \<le> e) ranges"
  obtains low where "starts_sorted low (sort ranges)"
proof -
  have all: "list_all (\<lambda>(s, e). s \<le> e) (sort ranges)" using assms by (simp add: list_all_iff)
  have "Min (insert 0 (fst ` set ranges)) \<le> fst r" if "r \<in> set (sort ranges)" for r using that by simp
  from sorted_starts[OF sorted_sort all this] show ?thesis using that by blast
qed

lemma merge_ranges_length:
  assumes "list_all (\<lambda>(s, e). s \<le> e) ranges"
  shows "total_length (merge_ranges adjacent ranges) \<le> total_length ranges"
proof -
  obtain low where "starts_sorted low (sort ranges)" using assms by (rule starts_sorted_sort)
  then have "total_length (merge_loop adjacent [] (sort ranges)) \<le> total_length (sort ranges)"
    using merge_loop_length[where ms = "[]" and low = low] by simp
  moreover have "total_length (sort ranges) = total_length ranges"
    unfolding total_length_def by (metis mset_map mset_sort sum_mset_sum_list)
  ultimately show ?thesis by (simp add: merge_ranges_def)
qed

text \<open>
  Interval merging is exact: on ranges that do not end before they start, the merged extents are
  in order with a gap between any two (no overlap, when adjacent ranges are kept apart), they cover
  exactly the bytes the ranges cover, and their total length is at most the ranges' total.
\<close>

theorem merge_exact:
  assumes "list_all (\<lambda>(s, e). s \<le> e) ranges"
  shows "separated adjacent (merge_ranges adjacent ranges) \<and> covered (merge_ranges adjacent ranges) = covered ranges \<and>
    total_length (merge_ranges adjacent ranges) \<le> total_length ranges"
  using merge_ranges_result[OF assms] merge_ranges_length[OF assms] by blast

theorem merge_exact_witness:
  "merge_ranges True [(4, 8), (0, 4), (10, 12)] = [(0, 8), (10, 12)] \<and>
   covered (merge_ranges True [(4, 8), (0, 4), (10, 12)]) = covered [(4, 8), (0, 4), (10, 12)]"
proof -
  have "list_all (\<lambda>(s, e). s \<le> e) [(4, 8), (0, 4), (10, 12 :: int)]" by simp
  moreover have "merge_ranges True [(4, 8), (0, 4), (10, 12)] = [(0, 8), (10, 12)]" by code_simp
  ultimately show ?thesis using merge_exact by blast
qed

end
