(* ===== verification/Manifest18.thy ===== *)
theory Manifest18
  imports Geometry17 Placement
begin

text \<open>
  The conversion manifest of \<open>scripts/build_step18_manifest.py\<close>: tensor plans in placement order, the
  metadata and tokenizer plans, merge resolution, and the validator.

  Parameters: \<open>sha\<close> is SHA-256 as a hexadecimal string, \<open>coerce\<close> the conversion \<open>int()\<close> of a float or
  a string, \<open>render\<close> the conversion \<open>str()\<close> of a float or a list.  The source file is its bytes, \<open>None\<close>
  when it is absent.  The exception texts leave out the names they interpolate.
\<close>

section \<open>Constants\<close>

definition TENSOR_KEY_ID :: int where "TENSOR_KEY_ID = 0x0200"
definition BOOTSTRAP_KEY_ID :: int where "BOOTSTRAP_KEY_ID = 0xF000"

definition CONTROL_KEY_IDS :: "(string \<times> int) list" where
  "CONTROL_KEY_IDS = [(''TensorDirectory'', 0x0201), (''ModelMetadata'', 0x0202), (''TokenizerMetadata'', 0x0203),
     (''IntegrityMetadata'', 0x0204)]"

definition PLACEMENT :: string where "PLACEMENT = ''LAYER_MAJOR_ROLE_ORDER''"
definition DEEPSEEK_PLACEMENT :: string where "DEEPSEEK_PLACEMENT = ''DEEPSEEK_HOT_ROLE_ORDER''"

definition SUPPORTED_TYPES :: "(string \<times> string \<times> string) list" where
  "SUPPORTED_TYPES =
     [(''F32'', ''CanonicalPrimitive'', ''primitive''), (''BF16'', ''BF16'', ''opaque_bytes''), (''Q8_0'',
     ''GGML_Q8_0'', ''opaque_bytes''), (''Q4_0'', ''GGML_Q4_0'', ''opaque_bytes''), (''Q2_K'', ''GGML_Q2_K'',
     ''opaque_bytes''), (''Q2_K_S'', ''GGML_Q2_K'', ''opaque_bytes''), (''Q2_K_M'', ''GGML_Q2_K'',
     ''opaque_bytes''), (''IQ1_S'', ''GGML_IQ1_S'', ''opaque_bytes''), (''Q4_K'', ''GGML_Q4_K'',
     ''opaque_bytes''), (''Q4_K_S'', ''GGML_Q4_K'', ''opaque_bytes''), (''Q4_K_M'', ''GGML_Q4_K'',
     ''opaque_bytes''), (''Q6_K'', ''GGML_Q6_K'', ''opaque_bytes''), (''IQ4_NL'', ''GGML_IQ4_NL'',
     ''opaque_bytes''), (''IQ4_XS'', ''GGML_IQ4_XS'', ''opaque_bytes''), (''Q3_K'', ''GGML_Q3_K'',
     ''opaque_bytes''), (''Q3_K_S'', ''GGML_Q3_K'', ''opaque_bytes''), (''Q3_K_M'', ''GGML_Q3_K'',
     ''opaque_bytes''), (''IQ2_XXS'', ''GGML_IQ2_XXS'', ''opaque_bytes''), (''IQ2_XS'', ''GGML_IQ2_XS'',
     ''opaque_bytes''), (''IQ2_S'', ''GGML_IQ2_S'', ''opaque_bytes''), (''Q5_K'', ''GGML_Q5_K'',
     ''opaque_bytes'')]"

definition EXPECTED :: "(string \<times> string \<times> string) list" where
  "EXPECTED = [
     (''Q8_0'', ''Qwen3-0.6B-Q8_0.gguf'', ''9465e63a22add5354d9bb4b99e90117043c7124007664907259bd16d043bb031''),
     (''BF16'', ''Qwen3-0.6B-BF16.gguf'', ''65a16246f5814dc0587acadcf0328186b17febf6dcaeb1b13efa9243b551d38e''),
     (''DEEPSEEK_IQ1_S'', ''DeepSeek-V2-Lite.IQ1_S.gguf'', ''9d3bc4a5bc25b7acb8bc31436745bd8cfaf94509fd1322bb36ab155b0daf1616'')]"

definition PINNED_COMMIT :: string where "PINNED_COMMIT = ''4c1a0af40d88c7fbb3b15c85bf2e8016d1d5b64c''"

section \<open>Values\<close>

definition truthy :: "meta_value option \<Rightarrow> bool" where
  "truthy v = (case v of None \<Rightarrow> False | Some (MInt n) \<Rightarrow> n \<noteq> 0 | Some (MBool b) \<Rightarrow> b | Some (MStr s) \<Rightarrow> s \<noteq> []
     | Some (MArr vs) \<Rightarrow> vs \<noteq> [] | Some (MFloat w n) \<Rightarrow> n mod 2 ^ (8 * w - 1) \<noteq> 0)"

definition meta_get :: "artifact \<Rightarrow> string \<Rightarrow> json" where
  "meta_get a k = (case map_of (ar_metadata a) k of None \<Rightarrow> JNull | Some v \<Rightarrow> meta_json v)"

definition architecture_of :: "(meta_value \<Rightarrow> string) \<Rightarrow> artifact \<Rightarrow> string \<Rightarrow> string" where
  "architecture_of render a fallback = py_str render (get_default (ar_metadata a) ''general.architecture'' (MStr fallback))"

section \<open>Ranges\<close>

definition tensor_extent :: "tensor \<Rightarrow> (int \<times> int) res" where
  "tensor_extent t = (case tn_absolute_end t of None \<Rightarrow> Inl TypeError | Some e \<Rightarrow> Inr (tn_absolute_start t, e))"

text \<open>The merging loop is the one of \<open>merge_intervals\<close> with adjacent ranges joined.\<close>

definition source_range_summary :: "tensor list \<Rightarrow> json res" where
  "source_range_summary ts = bind_res (map_res tensor_extent ts) (\<lambda>extents.
     let ranges = sort extents; merged = merge_loop True [] ranges in
     Inr (JObj [(''range_count'', JInt (int (length merged))),
       (''physical_bytes'', JInt (\<Sum>(s, e)\<leftarrow>merged. e - s)), (''semantic_bytes'', JInt (\<Sum>(s, e)\<leftarrow>ranges. e - s))]))"

definition payload_sha256 :: "(bytes \<Rightarrow> string) \<Rightarrow> bytes \<Rightarrow> int \<Rightarrow> int option \<Rightarrow> string res" where
  "payload_sha256 sha file start len = (case len of None \<Rightarrow> Inr (sha []) | Some n \<Rightarrow>
     let payload = take (nat n) (drop (nat start) file) in
     if int (length payload) < n then Inl (ValueError ''source payload ended before its checked range'') else Inr (sha payload))"

section \<open>Metadata plan\<close>

definition metadata_fields :: "string \<Rightarrow> string \<Rightarrow> (string \<times> string \<times> string) list" where
  "metadata_fields prefix feed_forward_key = [
     (''general.architecture'', ''architecture'', ''Architecture''),
     (prefix @ ''.context_length'', ''context length'', ''ContextLength''),
     (prefix @ ''.embedding_length'', ''embedding length'', ''EmbeddingLength''),
     (prefix @ ''.block_count'', ''layer count'', ''LayerCount''),
     (prefix @ ''.attention.head_count'', ''attention head count'', ''HeadCount''),
     (prefix @ ''.attention.head_count_kv'', ''KV head count'', ''KVHeadCount''),
     (prefix @ ''.attention.key_length'', ''key head dimension'', ''KeyHeadDimension''),
     (prefix @ ''.attention.value_length'', ''value head dimension'', ''ValueHeadDimension''),
     (feed_forward_key, ''feed-forward length'', ''FeedForwardLength''),
     (prefix @ ''.attention.layer_norm_rms_epsilon'', ''RMS normalization epsilon'', ''NormalizationEpsilon''),
     (prefix @ ''.rope.freq_base'', ''RoPE base'', ''RopeTheta'')]"

definition metadata_row :: "string \<Rightarrow> string \<Rightarrow> string \<Rightarrow> string \<Rightarrow> json \<Rightarrow> json" where
  "metadata_row source consumer target status value = JObj [(''source_key'', JStr source), (''consumer_semantic'', JStr consumer),
     (''target'', JStr target), (''status'', JStr status), (''source_value'', value)]"

definition metadata_plan :: "(meta_value \<Rightarrow> string) \<Rightarrow> artifact \<Rightarrow> json list" where
  "metadata_plan render a = (let
       prefix = architecture_of render a ''qwen3'';
       key = prefix @ ''.feed_forward_length'';
       feed_forward_key = (if map_of (ar_metadata a) key = None then prefix @ ''.expert_feed_forward_length'' else key);
       tokens = (case map_of (ar_metadata a) ''tokenizer.ggml.tokens'' of Some (MArr vs) \<Rightarrow> JInt (int (length vs)) | _ \<Rightarrow> JNull) in
     map (\<lambda>(source, consumer, target). metadata_row source consumer target ''DIRECTLY_REPRESENTED'' (meta_get a source))
       (metadata_fields prefix feed_forward_key) @
     [metadata_row ''tokenizer.ggml.tokens'' ''vocabulary size'' ''VocabularySize'' ''DERIVABLE'' tokens])"

section \<open>Tokenizer plans\<close>

text \<open>The vocabulary loop: every entry a string, none repeated; the result maps a token to its ordinal.\<close>

fun vocabulary :: "int \<Rightarrow> (string \<times> int) list \<Rightarrow> meta_value list \<Rightarrow> (string \<times> int) list res" where
  "vocabulary index ids [] = Inr ids"
| "vocabulary index ids (v # vs) = (case v of
       MStr token \<Rightarrow> if map_of ids token \<noteq> None then Inl (ValueError ''token vocabulary is not a unique string ordinal table'')
         else vocabulary (index + 1) (AList.update token index ids) vs
     | _ \<Rightarrow> Inl (ValueError ''token vocabulary is not a unique string ordinal table''))"

text \<open>\<open>merge.find(" ", 1)\<close> and the two slices around it.\<close>

definition split_merge :: "string \<Rightarrow> (string \<times> string) option" where
  "split_merge s = (case s of [] \<Rightarrow> None | c # cs \<Rightarrow>
     if CHR '' '' \<in> set cs
     then Some (c # takeWhile (\<lambda>x. x \<noteq> CHR '' '') cs, tl (dropWhile (\<lambda>x. x \<noteq> CHR '' '') cs)) else None)"

definition resolve_merge :: "(string \<times> int) list \<Rightarrow> meta_value \<Rightarrow> (int \<times> int) res" where
  "resolve_merge ids v = (case v of
       MStr merge \<Rightarrow> (case split_merge merge of
           None \<Rightarrow> Inl (ValueError ''merge has no pinned separator'')
         | Some (left, right) \<Rightarrow> (case (map_of ids left, map_of ids right) of
               (Some l, Some r) \<Rightarrow> Inr (l, r) | _ \<Rightarrow> Inl (ValueError ''merge component is absent from vocabulary'')))
     | _ \<Rightarrow> Inl (ValueError ''merge source is not a string''))"

definition tokenizer_conversion_plan :: "(meta_value \<Rightarrow> string) \<Rightarrow> artifact \<Rightarrow> json res" where
  "tokenizer_conversion_plan render a =
     (case (map_of (ar_metadata a) ''tokenizer.ggml.tokens'', map_of (ar_metadata a) ''tokenizer.ggml.merges'') of
        (Some (MArr tokens), Some (MArr merges)) \<Rightarrow>
          bind_res (vocabulary 0 [] tokens) (\<lambda>token_ids.
          bind_res (map_res (resolve_merge token_ids) merges) (\<lambda>pairs.
          let pre_tokenizer = (if starts_with ''deepseek'' (architecture_of render a '''') then 2 else 1) in
          Inr (JObj [(''kind'', JStr ''Gpt2BpeQwen2''), (''model_id'', JInt 1), (''pre_tokenizer_id'', JInt pre_tokenizer),
            (''add_bos'', meta_get a ''tokenizer.ggml.add_bos_token''),
            (''merge_left_ids'', int_list (map fst pairs)), (''merge_right_ids'', int_list (map snd pairs)),
            (''merge_count'', JInt (int (length merges)))])))
      | _ \<Rightarrow> Inl (ValueError ''GPT2BpeQwen2 conversion requires tokens and merges''))"

text \<open>\<open>len\<close> of a string held as UTF-8 counts the bytes that start a code point.\<close>

definition utf8_length :: "string \<Rightarrow> int" where
  "utf8_length s = int (length (filter (\<lambda>c. \<not> (128 \<le> (of_char c :: int) \<and> (of_char c :: int) < 192)) s))"

definition value_shape :: "meta_value \<Rightarrow> json" where
  "value_shape v = (case v of MArr vs \<Rightarrow> JStr (''array['' @ show_int (int (length vs)) @ '']'')
     | MStr s \<Rightarrow> JStr (if utf8_length s < 120 then s else ''string['' @ show_int (utf8_length s) @ '']'')
     | _ \<Rightarrow> meta_json v)"

definition tokenizer_status :: "string \<Rightarrow> string \<times> string" where
  "tokenizer_status key =
     (if key \<in> {''tokenizer.ggml.tokens'', ''tokenizer.ggml.token_type''} then (''DIRECTLY_REPRESENTED'', ''GPT2BpeQwen2 vocabulary'')
      else if key = ''tokenizer.ggml.merges'' then (''DIRECTLY_REPRESENTED'', ''GPT2BpeQwen2 MergeLeftIds+MergeRightIds'')
      else if key = ''tokenizer.ggml.model'' then (''DIRECTLY_REPRESENTED'', ''GPT2BpeQwen2 TokenizerModelIdentity'')
      else if key = ''tokenizer.ggml.pre'' then (''DIRECTLY_REPRESENTED'', ''GPT2BpeQwen2 PreTokenizerIdentity'')
      else if key = ''tokenizer.ggml.add_bos_token'' then (''DIRECTLY_REPRESENTED'', ''GPT2BpeQwen2 AddBos'')
      else if key = ''tokenizer.chat_template'' then (''DIRECTLY_REPRESENTED'', ''GPT2BpeQwen2 ChatTemplate (optional raw target)'')
      else if ends_with ''_token_id'' key then (''DIRECTLY_REPRESENTED'', ''GPT2BpeQwen2 special ID'')
      else if key = ''tokenizer.ggml.scores'' then (''DIRECTLY_REPRESENTED'', ''GPT2BpeQwen2 optional scores'')
      else (''IGNORE_WITH_REASON'', ''not consumed by pinned first target''))"

definition tokenizer_row :: "artifact \<Rightarrow> string \<Rightarrow> json" where
  "tokenizer_row a key = (let (status, target) = tokenizer_status key in
     JObj [(''source_key'', JStr key), (''meaning'', JStr ''tokenizer metadata''),
       (''source_shape_or_value'', case map_of (ar_metadata a) key of None \<Rightarrow> JNull | Some v \<Rightarrow> value_shape v),
       (''target'', JStr target), (''status'', JStr status)])"

definition tokenizer_plan :: "artifact \<Rightarrow> json list" where
  "tokenizer_plan a = map (tokenizer_row a) (sort (filter (starts_with ''tokenizer.'') (map fst (ar_metadata a))))"

section \<open>Placement, experts and tensors\<close>

definition placement_for_artifact :: "(meta_value \<Rightarrow> string) \<Rightarrow> artifact \<Rightarrow> string" where
  "placement_for_artifact render a = (if starts_with ''deepseek'' (architecture_of render a '''') then DEEPSEEK_PLACEMENT else PLACEMENT)"

definition moe_plan :: "(meta_value \<Rightarrow> string) \<Rightarrow> (meta_value \<Rightarrow> int res) \<Rightarrow> artifact \<Rightarrow> json res" where
  "moe_plan render coerce a = (let
       architecture = architecture_of render a '''';
       number = (\<lambda>k. bind_res (lookup_res (ar_metadata a) (architecture @ k)) (meta_int coerce));
       shared = get_default (ar_metadata a) (architecture @ ''.expert_shared_count'')
         (MInt (if truthy (map_of (ar_metadata a) (architecture @ ''.expert_shared_feed_forward_length'')) then 1 else 0)) in
     if \<not> starts_with ''deepseek'' architecture \<and> architecture \<noteq> ''qwen35moe'' then Inr JNull else
     bind_res (number ''.expert_count'') (\<lambda>experts. bind_res (number ''.expert_used_count'') (\<lambda>active.
     bind_res (number ''.block_count'') (\<lambda>layers. bind_res (meta_int coerce shared) (\<lambda>shared_count.
     Inr (JObj [(''architecture'', JStr architecture), (''expert_count'', JInt experts), (''active_expert_count'', JInt active),
       (''layer_count'', JInt layers), (''shared_experts'', JBool (truthy (Some shared))),
       (''shared_expert_count'', JInt shared_count)]))))))"

definition tensor_plan_row :: "int \<Rightarrow> tensor \<Rightarrow> string \<times> string \<Rightarrow> json" where
  "tensor_plan_row target_order t = (\<lambda>(representation, storage). JObj [
     (''source_name'', JStr (tn_name t)), (''source_ordinal'', JInt (tn_ordinal t)), (''source_shape'', int_list (tn_shape t)),
     (''source_ggml_type_id'', JInt (tn_type_id t)), (''source_ggml_type'', JStr (tn_type_name t)),
     (''source_offset'', JInt (tn_absolute_start t)), (''source_payload_bytes'', opt_json (tn_payload_size t)),
     (''semantic_role'', JStr (tn_role t)), (''layer_group'', JStr (tn_group t)), (''layer'', opt_json (tn_layer t)),
     (''target_name'', JStr (tn_name t)), (''target_representation'', JStr representation), (''target_storage'', JStr storage),
     (''target_key_id'', JInt TENSOR_KEY_ID), (''target_occurrence'', JInt target_order), (''target_order'', JInt target_order),
     (''payload_action'', JStr ''COPY_BYTES'')])"

definition tensor_plan :: "nat \<times> tensor \<Rightarrow> json res" where
  "tensor_plan = (\<lambda>(target_order, t). case map_of SUPPORTED_TYPES (tn_type_name t) of
       None \<Rightarrow> Inl (ValueError ''unsupported source representation'')
     | Some target \<Rightarrow> bind_res (expected_bytes (tn_type_name t) (tn_shape t)) (\<lambda>expected.
         if Some expected \<noteq> tn_payload_size t then Inl (ValueError ''representation geometry mismatch'')
         else Inr (tensor_plan_row (int target_order) t target)))"

definition tensor_plans :: "artifact \<Rightarrow> string \<Rightarrow> json list res" where
  "tensor_plans a placement = bind_res (layout_order a placement) (\<lambda>ordered. map_res tensor_plan (List.enumerate 0 ordered))"

section \<open>Validation\<close>

definition jlen :: "json \<Rightarrow> int res" where
  "jlen v = (case v of JArr xs \<Rightarrow> Inr (int (length xs)) | JObj kvs \<Rightarrow> Inr (int (length kvs)) | JStr s \<Rightarrow> Inr (utf8_length s)
     | _ \<Rightarrow> Inl TypeError)"

definition distinct_field :: "json list \<Rightarrow> (json \<Rightarrow> json list res) \<Rightarrow> string \<Rightarrow> unit res" where
  "distinct_field plans f msg = bind_res (map_res f plans) (\<lambda>vs.
     require (length (remdups vs) = length plans) (ValueError msg))"

definition key_of :: "string \<Rightarrow> json \<Rightarrow> json res" where
  "key_of k plan = bind_res (jget plan k) hkey"

definition tokenizer_valid :: "json \<Rightarrow> bool res" where
  "tokenizer_valid t = (case t of
       JObj _ \<Rightarrow>
         bind_res (jget_default t ''kind'' JNull) (\<lambda>kind.
         if \<not> jeq kind (JStr ''Gpt2BpeQwen2'') then Inr False else
         bind_res (jget_default t ''merge_count'' JNull) (\<lambda>count.
         bind_res (jget_default t ''merge_left_ids'' (JArr [])) (\<lambda>left. bind_res (jlen left) (\<lambda>l.
         if \<not> jeq count (JInt l) then Inr False else
         bind_res (jget_default t ''merge_right_ids'' (JArr [])) (\<lambda>right. bind_res (jlen right) (\<lambda>r.
         Inr (jeq count (JInt r))))))))
     | _ \<Rightarrow> Inr False)"

definition validate_manifest :: "json \<Rightarrow> artifact \<Rightarrow> unit res" where
  "validate_manifest manifest a =
     bind_res (jget_list manifest ''tensor_plans'') (\<lambda>plans.
     bind_res (require (length plans = length (ar_tensors a)) (ValueError ''source tensor accounting count mismatch'')) (\<lambda>_.
     bind_res (distinct_field plans (\<lambda>p. bind_res (key_of ''source_name'' p) (\<lambda>k. Inr [k])) ''duplicate source tensor plan'') (\<lambda>_.
     bind_res (distinct_field plans (\<lambda>p. bind_res (key_of ''target_name'' p) (\<lambda>k. Inr [k])) ''duplicate target tensor name'') (\<lambda>_.
     bind_res (map_res (\<lambda>p. jget_int p ''target_order'') plans) (\<lambda>orders.
     bind_res (require (sort orders = map int [0..<length plans])
        (ValueError ''target order is not a complete deterministic sequence'')) (\<lambda>_.
     bind_res (distinct_field plans (\<lambda>p. bind_res (key_of ''target_key_id'' p) (\<lambda>k.
        bind_res (key_of ''target_occurrence'' p) (\<lambda>n. Inr [k, n]))) ''duplicate target identity'') (\<lambda>_.
     bind_res (each (\<lambda>p. bind_res (jget p ''payload_action'') (\<lambda>v.
        require (jeq v (JStr ''COPY_BYTES'')) (ValueError ''unexpected payload action''))) plans) (\<lambda>_.
     bind_res (jpath manifest [''accounting'', ''unaccounted'']) (\<lambda>unaccounted.
     bind_res (require (jeq unaccounted (JInt 0)) (ValueError ''unaccounted source tensors'')) (\<lambda>_.
     bind_res (jget_default manifest ''tokenizer_conversion_plan'' JNull) (\<lambda>tokenizer.
     bind_res (tokenizer_valid tokenizer) (\<lambda>ok. require ok (ValueError ''invalid tokenizer conversion plan'')))))))))))))"

section \<open>The manifest\<close>

definition control_plan :: json where
  "control_plan = JArr (JObj [(''role'', JStr ''Bootstrap''), (''target_key_id'', JInt BOOTSTRAP_KEY_ID), (''action'', JStr ''DERIVED'')] #
     map (\<lambda>(role, key_id). JObj [(''role'', JStr role), (''target_key_id'', JInt key_id), (''action'', JStr ''DERIVED'')])
       (filter (\<lambda>(role, _). role \<noteq> ''IntegrityMetadata'') CONTROL_KEY_IDS))"

definition blockers :: "string \<Rightarrow> string \<Rightarrow> json list \<Rightarrow> json list res" where
  "blockers status field rows = bind_res (map_res (\<lambda>row. bind_res (jget row ''status'') (\<lambda>s.
     if jeq s (JStr status) then bind_res (jget row field) (\<lambda>v. Inr [v]) else Inr [])) rows) (\<lambda>vs. Inr (concat vs))"

definition readiness_of :: "json list \<Rightarrow> json list \<Rightarrow> string list" where
  "readiness_of metadata_blockers tokenizer_blockers = (let
     readiness = (if metadata_blockers \<noteq> [] then [''BLOCKED_BY_METADATA_GAP''] else []) @
       (if tokenizer_blockers \<noteq> [] then [''BLOCKED_BY_TOKENIZER_GAP''] else []) in
     if readiness = [] then [''READY_FOR_CONVERSION''] else readiness)"

definition name_order :: "json list \<Rightarrow> json list res" where
  "name_order plans = bind_res (map_res (\<lambda>p. bind_res (jget_str p ''target_name'') (\<lambda>n. Inr (n, p))) plans) (\<lambda>ps.
     Inr (map snd (sort_key fst ps)))"

definition directory_row :: "nat \<times> json \<Rightarrow> json res" where
  "directory_row = (\<lambda>(index, plan).
     bind_res (jget plan ''target_name'') (\<lambda>name. bind_res (jget plan ''source_shape'') (\<lambda>shape.
     bind_res (jget plan ''target_representation'') (\<lambda>representation. bind_res (jget plan ''target_key_id'') (\<lambda>key_id.
     bind_res (jget plan ''target_occurrence'') (\<lambda>occurrence.
     Inr (JObj [(''name'', name), (''shape'', shape), (''representation'', representation), (''key_id'', key_id),
       (''occurrence'', occurrence), (''directory_order'', JInt (int index))])))))))"

definition manifest_document :: "artifact \<Rightarrow> string \<Rightarrow> string \<Rightarrow> string \<Rightarrow> string \<Rightarrow> json list \<Rightarrow> json list \<Rightarrow> json \<Rightarrow> json list \<Rightarrow>
    json list \<Rightarrow> json \<Rightarrow> json \<Rightarrow> json \<Rightarrow> (string \<times> json) list \<Rightarrow> json \<Rightarrow> string list \<Rightarrow> json list \<Rightarrow> json list \<Rightarrow> json" where
  "manifest_document a filename actual_hash architecture placement metadata tokenizer tokenizer_conversion directory
     plans moe tied output_decision special_hashes source_read readiness metadata_blockers tokenizer_blockers =
     JObj [(''manifest_version'', JInt 1), (''source_identity'', JObj [(''path'', JStr (''research-models/''
     @ filename)), (''filename'', JStr filename), (''size'', JInt (ar_size a)), (''sha256'', JStr
     actual_hash), (''gguf_version'', JInt (ar_version a)), (''architecture'', JStr architecture),
     (''metadata_kv_count'', JInt (ar_metadata_count a)), (''tensor_count'', JInt (ar_tensor_count a))]),
     (''consumer_revision'', JObj [(''repository'', JStr ''https://github.com/ggml-org/llama.cpp.git''),
     (''commit'', JStr PINNED_COMMIT)]), (''profile_version'', JStr ''vbuf-ml-0.1''),
     (''conversion_options'', JObj [(''placement'', JStr placement), (''base_shift'', JInt 3),
     (''integrity'', JObj [(''enabled'', JBool False), (''algorithm'', JStr ''SHA-256''), (''coverage'', JStr
     ''payload bytes'')])]), (''control_plan'', control_plan), (''model_metadata_plan'', JArr metadata),
     (''tokenizer_plan'', JArr tokenizer), (''tokenizer_conversion_plan'', tokenizer_conversion),
     (''tensor_directory_plan'', JArr directory), (''tensor_plans'', JArr plans), (''moe_plan'', moe),
     (''shared_reference_plan'', tied), (''output_decision'', output_decision), (''payload_evidence'', JObj
     [(''selected_source_payload_sha256'', JObj special_hashes)]), (''placement_plan'', JObj [(''policy'',
     JStr placement), (''target_order_is_non_normative'', JBool True)]), (''source_read_plan'', source_read),
     (''accounting'', JObj [(''source_tensors'', JInt (int (length (ar_tensors a)))), (''copy_bytes'', JInt
     (int (length plans))), (''shared_reference'', JInt (if tied = JNull then 0 else 1)), (''derived'', JInt
     (int (length CONTROL_KEY_IDS) - 1)), (''reject'', JInt 0), (''unaccounted'', JInt 0)]), (''validation'',
     JObj [(''manifest_structurally_valid'', JBool True), (''conversion_readiness'', str_list readiness),
     (''raw_inference_tokenizer_readiness'', JStr ''READY''), (''chat_template_readiness'', JStr
     ''READY_FOR_CONSUMER_EXECUTION''), (''metadata_blockers'', JArr metadata_blockers),
     (''tokenizer_blockers'', JArr tokenizer_blockers)])]"

definition sources_by_name :: "artifact \<Rightarrow> (string \<times> tensor) list" where
  "sources_by_name a = fold (\<lambda>t d. AList.update (tn_name t) t d) (ar_tensors a) []"

definition special_hashes_of :: "(bytes \<Rightarrow> string) \<Rightarrow> bytes \<Rightarrow> (string \<times> tensor) list \<Rightarrow> (string \<times> json) list res" where
  "special_hashes_of sha file by_name = bind_res (map_res (\<lambda>name. case map_of by_name name of
       None \<Rightarrow> Inr []
     | Some t \<Rightarrow> bind_res (payload_sha256 sha file (tn_absolute_start t) (tn_payload_size t)) (\<lambda>h. Inr [(name, JStr h)]))
     [''token_embd.weight'', ''output.weight'']) (\<lambda>hs. Inr (concat hs))"

definition tied_plan :: "string \<Rightarrow> (string \<times> tensor) list \<Rightarrow> json" where
  "tied_plan label by_name = (if label = ''Q8_0'' \<and> map_of by_name ''output.weight'' = None
     then JObj [(''logical_role'', JStr ''output.weight''), (''action'', JStr ''SHARED_REFERENCE''),
       (''source_name'', JStr ''token_embd.weight''), (''emitted_target_tensor'', JBool False),
       (''consumer_behavior'', JStr ''pinned Qwen3 fallback via TENSOR_DUPLICATED'')] else JNull)"

definition output_decision_of :: "(string \<times> json) list \<Rightarrow> (string \<times> tensor) list \<Rightarrow> json res" where
  "output_decision_of hashes by_name =
     (if map_of by_name ''output.weight'' \<noteq> None \<and> map_of by_name ''token_embd.weight'' \<noteq> None then
        bind_res (lookup_res hashes ''output.weight'') (\<lambda>out. bind_res (lookup_res hashes ''token_embd.weight'') (\<lambda>embd.
        Inr (JObj [(''source_descriptors_distinct'', JBool True), (''payload_hashes_equal'', JBool (jeq out embd)),
          (''action'', JStr ''COPY_BYTES independently''),
          (''reason'', JStr ''explicit output.weight remains a distinct source tensor'')])))
      else Inr JNull)"

definition plan_sources :: "(string \<times> tensor) list \<Rightarrow> json list \<Rightarrow> tensor list res" where
  "plan_sources by_name plans = map_res (\<lambda>p. bind_res (jget_str p ''source_name'') (lookup_res by_name)) plans"

text \<open>Everything after \<open>artifact = parse(path)\<close>.\<close>

definition manifest_of :: "(bytes \<Rightarrow> string) \<Rightarrow> (meta_value \<Rightarrow> int res) \<Rightarrow> (meta_value \<Rightarrow> string) \<Rightarrow> string \<Rightarrow> string \<Rightarrow> bytes \<Rightarrow>
    artifact \<Rightarrow> json res" where
  "manifest_of sha coerce render label filename file a = (let architecture = architecture_of render a '''' in
     if architecture \<notin> {''qwen3'', ''qwen35moe'', ''deepseek2'', ''deepseek32'', ''deepseek2-ocr''}
     then Inl (ValueError ''source architecture is not a supported Qwen/DeepSeek architecture'') else
     let placement = placement_for_artifact render a in
     bind_res (tensor_plans a placement) (\<lambda>plans.
     let metadata = metadata_plan render a; tokenizer = tokenizer_plan a in
     bind_res (tokenizer_conversion_plan render a) (\<lambda>tokenizer_conversion.
     let by_name = sources_by_name a in
     bind_res (special_hashes_of sha file by_name) (\<lambda>special_hashes.
     let tied = tied_plan label by_name in
     bind_res (output_decision_of special_hashes by_name) (\<lambda>output_decision.
     bind_res (blockers ''MISSING'' ''consumer_semantic'' metadata) (\<lambda>metadata_blockers.
     bind_res (blockers ''UNSUPPORTED_REQUIRED'' ''source_key'' tokenizer) (\<lambda>tokenizer_blockers.
     let readiness = readiness_of metadata_blockers tokenizer_blockers in
     bind_res (plan_sources by_name plans) (\<lambda>sources.
     bind_res (source_range_summary sources) (\<lambda>source_read.
     bind_res (name_order plans) (\<lambda>by_target.
     bind_res (map_res directory_row (List.enumerate 0 by_target)) (\<lambda>directory.
     bind_res (moe_plan render coerce a) (\<lambda>moe.
     let manifest = manifest_document a filename (sha file) architecture placement metadata tokenizer tokenizer_conversion directory
       plans moe tied output_decision special_hashes source_read readiness metadata_blockers tokenizer_blockers in
     bind_res (validate_manifest manifest a) (\<lambda>_. Inr manifest)))))))))))))"

definition build_manifest :: "(bytes \<Rightarrow> string) \<Rightarrow> (meta_value \<Rightarrow> int res) \<Rightarrow> (meta_value \<Rightarrow> string) \<Rightarrow> string \<Rightarrow> bool \<Rightarrow>
    bytes option \<Rightarrow> json res" where
  "build_manifest sha coerce render label override file =
     bind_res (lookup_res EXPECTED label) (\<lambda>(filename, expected_hash).
     case file of None \<Rightarrow> Inl FileNotFoundError | Some raw \<Rightarrow>
       if \<not> override \<and> sha raw \<noteq> expected_hash then Inl (ValueError ''hash mismatch'') else
       bind_res (parse_gguf sha coerce raw) (manifest_of sha coerce render label filename raw))"


section \<open>Merges resolve\<close>

lemma vocabulary_ids:
  "vocabulary i ids vs = Inr ids' \<Longrightarrow> map_of ids' s = Some k \<Longrightarrow>
     map_of ids s = Some k \<or> (i \<le> k \<and> k < i + int (length vs) \<and> vs ! nat (k - i) = MStr s)"
proof (induction vs arbitrary: i ids)
  case (Cons v vs)
  then obtain token where v: "v = MStr token"
    and rest: "vocabulary (i + 1) (AList.update token i ids) vs = Inr ids'"
    by (auto split: meta_value.splits if_splits)
  from Cons.IH[OF rest Cons.prems(2)] show ?case
  proof
    assume "map_of (AList.update token i ids) s = Some k"
    then show ?thesis using v by (auto simp: update_conv split: if_splits)
  next
    assume A: "i + 1 \<le> k \<and> k < i + 1 + int (length vs) \<and> vs ! nat (k - (i + 1)) = MStr s"
    then have "nat (k - i) = Suc (nat (k - (i + 1)))" by linarith
    then show ?thesis using A by simp
  qed
qed simp

lemma split_merge_Some: "split_merge s = Some (l, r) \<Longrightarrow> s = l @ '' '' @ r \<and> l \<noteq> []"
proof -
  assume A: "split_merge s = Some (l, r)"
  then obtain c cs where s: "s = c # cs" and sp: "CHR '' '' \<in> set cs"
    and l: "l = c # takeWhile (\<lambda>x. x \<noteq> CHR '' '') cs" and r: "r = tl (dropWhile (\<lambda>x. x \<noteq> CHR '' '') cs)"
    by (auto simp: split_merge_def split: list.splits if_splits)
  have ne: "dropWhile (\<lambda>x. x \<noteq> CHR '' '') cs \<noteq> []" using sp by (simp add: dropWhile_eq_Nil_conv)
  have "hd (dropWhile (\<lambda>x. x \<noteq> CHR '' '') cs) = CHR '' ''" using hd_dropWhile[OF ne] by simp
  then have "dropWhile (\<lambda>x. x \<noteq> CHR '' '') cs = '' '' @ r" using r ne by (metis append_Cons append_Nil list.collapse)
  then have "cs = takeWhile (\<lambda>x. x \<noteq> CHR '' '') cs @ '' '' @ r" by (metis takeWhile_dropWhile_id)
  then show ?thesis using s l by simp
qed

definition token_at :: "meta_value list \<Rightarrow> int \<Rightarrow> string" where
  "token_at tokens i = (case tokens ! nat i of MStr s \<Rightarrow> s | _ \<Rightarrow> [])"

lemma resolve_merge_text:
  assumes voc: "vocabulary 0 [] tokens = Inr ids" and r: "resolve_merge ids merge = Inr (l, r)"
  shows "merge = MStr (token_at tokens l @ '' '' @ token_at tokens r) \<and>
    0 \<le> l \<and> l < int (length tokens) \<and> 0 \<le> r \<and> r < int (length tokens)"
proof -
  obtain s left right where m: "merge = MStr s" "split_merge s = Some (left, right)"
    and ids: "map_of ids left = Some l" "map_of ids right = Some r"
    using r unfolding resolve_merge_def by (auto split: meta_value.splits option.splits)
  show ?thesis
    using vocabulary_ids[OF voc ids(1)] vocabulary_ids[OF voc ids(2)] split_merge_Some[OF m(2)] m(1)
    by (simp add: token_at_def)
qed

lemma tokenizer_conversion_result:
  assumes "map_of (ar_metadata a) ''tokenizer.ggml.tokens'' = Some (MArr tokens)"
    and "map_of (ar_metadata a) ''tokenizer.ggml.merges'' = Some (MArr merges)"
    and "tokenizer_conversion_plan render a = Inr plan"
  shows "\<exists>pairs. jget plan ''merge_left_ids'' = Inr (int_list (map fst pairs)) \<and>
    jget plan ''merge_right_ids'' = Inr (int_list (map snd pairs)) \<and>
    merges = map (\<lambda>(l, r). MStr (token_at tokens l @ '' '' @ token_at tokens r)) pairs \<and>
    list_all (\<lambda>(l, r). l \<in> {0..<int (length tokens)} \<and> r \<in> {0..<int (length tokens)}) pairs"
proof -
  obtain ids pairs where voc: "vocabulary 0 [] tokens = Inr ids" and pairs: "map_res (resolve_merge ids) merges = Inr pairs"
    and plan: "jget plan ''merge_left_ids'' = Inr (int_list (map fst pairs))"
      "jget plan ''merge_right_ids'' = Inr (int_list (map snd pairs))"
    using assms unfolding tokenizer_conversion_plan_def Let_def by (auto simp: bind_res_Inr_iff)
  have P: "list_all2 (\<lambda>m p. resolve_merge ids m = Inr p) merges pairs" using pairs by (simp add: map_res_list_all2)
  have "list_all2 (\<lambda>m p. m = (\<lambda>(l, r). MStr (token_at tokens l @ '' '' @ token_at tokens r)) p \<and>
      (\<lambda>(l, r). l \<in> {0..<int (length tokens)} \<and> r \<in> {0..<int (length tokens)}) p) merges pairs"
    by (rule list_all2_mono[OF P]) (use resolve_merge_text[OF voc] in auto)
  then have "merges = map (\<lambda>(l, r). MStr (token_at tokens l @ '' '' @ token_at tokens r)) pairs \<and>
    list_all (\<lambda>(l, r). l \<in> {0..<int (length tokens)} \<and> r \<in> {0..<int (length tokens)}) pairs"
    by (induction rule: list_all2_induct) auto
  then show ?thesis using plan by blast
qed

text \<open>
  C37. Merge resolution loses nothing: when the tokenizer plan is built, its left and right ids are
  ordinals of the vocabulary, and the texts at each pair, joined by one space, are exactly the source
  merges, in order.
\<close>

theorem merges_resolve:
  assumes "map_of (ar_metadata a) ''tokenizer.ggml.tokens'' = Some (MArr tokens)"
    and "map_of (ar_metadata a) ''tokenizer.ggml.merges'' = Some (MArr merges)"
    and "tokenizer_conversion_plan render a = Inr plan"
  shows "\<exists>pairs. jget plan ''merge_left_ids'' = Inr (int_list (map fst pairs)) \<and>
    jget plan ''merge_right_ids'' = Inr (int_list (map snd pairs)) \<and>
    merges = map (\<lambda>(l, r). MStr (token_at tokens l @ '' '' @ token_at tokens r)) pairs \<and>
    list_all (\<lambda>(l, r). l \<in> {0..<int (length tokens)} \<and> r \<in> {0..<int (length tokens)}) pairs"
  by (rule tokenizer_conversion_result[OF assms])

definition sample_artifact :: artifact where
  "sample_artifact = \<lparr>ar_sha256 = ''00'', ar_size = 0, ar_version = 3, ar_tensor_count = 0, ar_metadata_count = 2,
     ar_metadata = [(''tokenizer.ggml.tokens'', MArr [MStr ''a'', MStr ''bc'', MStr '' '']),
       (''tokenizer.ggml.merges'', MArr [MStr ''a bc'', MStr ''  a'']),
       (''general.architecture'', MStr ''qwen3'')],
     ar_alignment = 32, ar_data_start = 0, ar_tensors = [], ar_tensor_info_end = 0\<rparr>"

theorem merges_resolve_witness:
  "\<exists>plan pairs. tokenizer_conversion_plan (\<lambda>_. []) sample_artifact = Inr plan \<and>
    jget plan ''merge_left_ids'' = Inr (int_list (map fst pairs)) \<and>
    [MStr ''a bc'', MStr ''  a''] = map (\<lambda>(l, r). MStr (token_at [MStr ''a'', MStr ''bc'', MStr '' ''] l @ '' '' @
      token_at [MStr ''a'', MStr ''bc'', MStr '' ''] r)) pairs"
proof -
  have "case tokenizer_conversion_plan (\<lambda>_. []) sample_artifact of Inl _ \<Rightarrow> False | Inr p \<Rightarrow> True" by code_simp
  then obtain plan where plan: "tokenizer_conversion_plan (\<lambda>_. []) sample_artifact = Inr plan"
    by (cases "tokenizer_conversion_plan (\<lambda>_. []) sample_artifact") simp_all
  have m: "map_of (ar_metadata sample_artifact) ''tokenizer.ggml.tokens'' = Some (MArr [MStr ''a'', MStr ''bc'', MStr '' ''])"
    "map_of (ar_metadata sample_artifact) ''tokenizer.ggml.merges'' = Some (MArr [MStr ''a bc'', MStr ''  a''])"
    by (simp_all add: sample_artifact_def)
  show ?thesis using merges_resolve[OF m plan] plan by (elim exE conjE) (intro exI conjI)
qed


section \<open>Tensor plans\<close>

definition plan_row :: "nat \<times> tensor \<Rightarrow> json" where
  "plan_row = (\<lambda>(i, t). tensor_plan_row (int i) t (the (map_of SUPPORTED_TYPES (tn_type_name t))))"

definition payload_expected :: "tensor \<Rightarrow> bool" where
  "payload_expected t \<longleftrightarrow> (\<exists>n. tn_payload_size t = Some n \<and> expected_bytes (tn_type_name t) (tn_shape t) = Inr n)"

lemma tensor_plan_Inr: "tensor_plan x = Inr row \<Longrightarrow> row = plan_row x \<and> payload_expected (snd x)"
  by (cases x) (auto simp: tensor_plan_def plan_row_def payload_expected_def bind_res_Inr_iff split: option.splits if_splits)

lemma tensor_plans_rows:
  assumes "map_res tensor_plan xs = Inr plans"
  shows "plans = map plan_row xs \<and> list_all (\<lambda>x. payload_expected (snd x)) xs"
proof -
  have "list_all2 (\<lambda>x row. tensor_plan x = Inr row) xs plans" using assms by (simp add: map_res_list_all2)
  then show ?thesis by (induction rule: list_all2_induct) (auto dest: tensor_plan_Inr)
qed

lemma row_fields:
  "key_of ''source_name'' (plan_row (i, t)) = Inr (JStr (tn_name t))"
  "key_of ''target_name'' (plan_row (i, t)) = Inr (JStr (tn_name t))"
  "jget_int (plan_row (i, t)) ''target_order'' = Inr (int i)"
  "key_of ''target_key_id'' (plan_row (i, t)) = Inr (JInt TENSOR_KEY_ID)"
  "key_of ''target_occurrence'' (plan_row (i, t)) = Inr (JInt (int i))"
  "jget (plan_row (i, t)) ''payload_action'' = Inr (JStr ''COPY_BYTES'')"
  "jget_str (plan_row (i, t)) ''source_name'' = Inr (tn_name t)"
  by (simp_all add: plan_row_def tensor_plan_row_def key_of_def jget_int_def jget_str_def jint_def jstr_def
      split: prod.split)

lemma distinct_field_rows:
  assumes "\<And>i t. f (plan_row (i, t)) = Inr (g (i, t))"
  shows "distinct_field (map plan_row xs) f msg = (if distinct (map g xs) then Inr () else Inl (ValueError msg))"
proof -
  have "map_res f (map plan_row xs) = Inr (map g xs)" using assms by (induction xs) auto
  moreover have "length (remdups (map g xs)) = length xs \<longleftrightarrow> distinct (map g xs)"
    by (metis length_map length_remdups_eq distinct_remdups remdups_id_iff_distinct)
  ultimately show ?thesis by (simp add: distinct_field_def require_def)
qed

lemma names_of_enumerate: "map (\<lambda>(i, t). [JStr (tn_name t)]) (List.enumerate k ts) = map (\<lambda>t. [JStr (tn_name t)]) ts"
  by (induction ts arbitrary: k) auto

lemma distinct_names: "distinct (map (\<lambda>t. [JStr (tn_name t)]) ts) \<longleftrightarrow> distinct (map tn_name ts)"
  by (induction ts) auto

lemma distinct_orders: "distinct (map (\<lambda>(i, t). [JInt c, JInt (int i)]) (List.enumerate k ts))"
proof -
  have "map (\<lambda>(i, t). [JInt c, JInt (int i)]) (List.enumerate k ts) = map (\<lambda>i. [JInt c, JInt (int i)]) [k..<k + length ts]"
    by (induction ts arbitrary: k) (simp_all add: upt_rec)
  then show ?thesis by (simp add: distinct_map inj_on_def)
qed

lemma orders_of_rows: "map_res (\<lambda>p. jget_int p ''target_order'') (map plan_row (List.enumerate k ts)) = Inr (map int [k..<k + length ts])"
  by (induction ts arbitrary: k) (simp_all add: row_fields upt_rec)

lemma actions_of_rows: "each (\<lambda>p. bind_res (jget p ''payload_action'') (\<lambda>v.
    require (jeq v (JStr ''COPY_BYTES'')) e)) (map plan_row xs) = Inr ()"
  by (induction xs) (auto simp: row_fields)


lemma sort_upt_int: "sort (map int [k..<n]) = map int [k..<n]"
proof (rule sort_key_id_if_sorted)
  show "sorted (map (\<lambda>x. x) (map int [k..<n]))" by (simp add: sorted_map sorted_wrt_mono_rel[OF _ sorted_upt])
qed

text \<open>The validator on a built manifest: the only check that can fail is the first name check.\<close>

definition validates_by_names :: "artifact \<Rightarrow> unit res" where
  "validates_by_names a = (if distinct (map tn_name (ar_tensors a)) then Inr ()
     else Inl (ValueError ''duplicate source tensor plan''))"

lemma validate_rows:
  assumes plans: "jget_list m ''tensor_plans'' = Inr (map plan_row (List.enumerate 0 ordered))"
    and acc: "jpath m [''accounting'', ''unaccounted''] = Inr (JInt 0)"
    and tok: "jget_default m ''tokenizer_conversion_plan'' JNull = Inr tokenizer" "tokenizer_valid tokenizer = Inr True"
    and ordered: "mset ordered = mset (ar_tensors a)"
  shows "validate_manifest m a = validates_by_names a"
proof -
  have len: "length ordered = length (ar_tensors a)" using ordered by (metis size_mset)
  have names: "distinct (map tn_name ordered) = distinct (map tn_name (ar_tensors a))"
    using ordered by (metis mset_eq_imp_distinct_iff mset_map)
  let ?rows = "map plan_row (List.enumerate 0 ordered)"
  have src: "distinct_field ?rows (\<lambda>p. bind_res (key_of ''source_name'' p) (\<lambda>k. Inr [k])) msg =
      (if distinct (map tn_name ordered) then Inr () else Inl (ValueError msg))" for msg
    by (subst distinct_field_rows[where g = "\<lambda>(i, t). [JStr (tn_name t)]"]) (simp_all add: row_fields names_of_enumerate distinct_names)
  have tgt: "distinct_field ?rows (\<lambda>p. bind_res (key_of ''target_name'' p) (\<lambda>k. Inr [k])) msg =
      (if distinct (map tn_name ordered) then Inr () else Inl (ValueError msg))" for msg
    by (subst distinct_field_rows[where g = "\<lambda>(i, t). [JStr (tn_name t)]"]) (simp_all add: row_fields names_of_enumerate distinct_names)
  have ids: "distinct_field ?rows (\<lambda>p. bind_res (key_of ''target_key_id'' p) (\<lambda>k.
        bind_res (key_of ''target_occurrence'' p) (\<lambda>n. Inr [k, n]))) msg = Inr ()" for msg
    by (subst distinct_field_rows[where g = "\<lambda>(i, t). [JInt TENSOR_KEY_ID, JInt (int i)]"]) (simp_all add: row_fields distinct_orders)
  show ?thesis
    unfolding validate_manifest_def plans bind_res_simps acc tok src tgt ids actions_of_rows orders_of_rows names
    by (simp add: len sort_upt_int validates_by_names_def)
qed


lemma blockers_none:
  assumes "\<And>row. row \<in> set rows \<Longrightarrow> \<exists>s. jget row ''status'' = Inr (JStr s) \<and> s \<noteq> status"
  shows "blockers status field rows = Inr []"
proof -
  have "map_res (\<lambda>row. bind_res (jget row ''status'') (\<lambda>s.
     if jeq s (JStr status) then bind_res (jget row field) (\<lambda>v. Inr [v]) else Inr [])) rows = Inr (map (\<lambda>_. []) rows)"
    by (rule map_res_Inr) (use assms in fastforce)
  then show ?thesis by (simp add: blockers_def)
qed

lemma metadata_blockers_none: "blockers ''MISSING'' field (metadata_plan render a) = Inr []"
proof (rule blockers_none)
  fix row assume "row \<in> set (metadata_plan render a)"
  then obtain s c t st v where "row = metadata_row s c t st v" "st = ''DIRECTLY_REPRESENTED'' \<or> st = ''DERIVABLE''"
    unfolding metadata_plan_def Let_def by auto
  then show "\<exists>s. jget row ''status'' = Inr (JStr s) \<and> s \<noteq> ''MISSING''" by (auto simp: metadata_row_def)
qed

lemma tokenizer_blockers_none: "blockers ''UNSUPPORTED_REQUIRED'' field (tokenizer_plan a) = Inr []"
proof (rule blockers_none)
  fix row assume "row \<in> set (tokenizer_plan a)"
  then obtain key where row: "row = tokenizer_row a key" unfolding tokenizer_plan_def by auto
  have "fst (tokenizer_status key) = ''DIRECTLY_REPRESENTED'' \<or> fst (tokenizer_status key) = ''IGNORE_WITH_REASON''"
    by (simp add: tokenizer_status_def)
  then show "\<exists>s. jget row ''status'' = Inr (JStr s) \<and> s \<noteq> ''UNSUPPORTED_REQUIRED''"
    by (auto simp: row tokenizer_row_def Let_def split: prod.split)
qed

lemma manifest_document_fields:
  "jget_list (manifest_document a f h ar pl meta tok conv dir plans moe tied od sh sr rd mb tb) ''tensor_plans'' = Inr plans"
  "jpath (manifest_document a f h ar pl meta tok conv dir plans moe tied od sh sr rd mb tb) [''accounting'', ''unaccounted''] = Inr (JInt 0)"
  "jget_default (manifest_document a f h ar pl meta tok conv dir plans moe tied od sh sr rd mb tb) ''tokenizer_conversion_plan'' JNull = Inr conv"
  "jpath (manifest_document a f h ar pl meta tok conv dir plans moe tied od sh sr rd mb tb) [''validation'', ''conversion_readiness''] = Inr (str_list rd)"
  by (simp_all add: manifest_document_def jget_list_def jget_default_def get_default_def)

lemma tokenizer_conversion_valid:
  assumes "tokenizer_conversion_plan render a = Inr conv"
  shows "tokenizer_valid conv = Inr True"
proof -
  obtain pairs merges p b where "conv = JObj [(''kind'', JStr ''Gpt2BpeQwen2''), (''model_id'', JInt 1), (''pre_tokenizer_id'', JInt p),
            (''add_bos'', b), (''merge_left_ids'', int_list (map fst pairs)), (''merge_right_ids'', int_list (map snd pairs)),
            (''merge_count'', JInt (int (length merges)))]" "length pairs = length (merges :: meta_value list)"
    using assms unfolding tokenizer_conversion_plan_def Let_def
    by (auto simp: bind_res_Inr_iff dest!: map_res_length split: option.splits meta_value.splits)
  then show ?thesis by (simp add: tokenizer_valid_def jget_default_def get_default_def jlen_def int_list_def)
qed

lemma manifest_result:
  assumes "manifest_of sha coerce render label filename file a = Inr m"
  shows "\<exists>ordered. mset ordered = mset (ar_tensors a) \<and> distinct (map tn_name ordered) \<and> list_all payload_expected ordered \<and>
    jget_list m ''tensor_plans'' = Inr (map plan_row (List.enumerate 0 ordered)) \<and> validate_manifest m a = Inr () \<and>
    jpath m [''validation'', ''conversion_readiness''] = Inr (str_list [''READY_FOR_CONVERSION''])"
proof -
  obtain pl plans conv f h ar meta tok dir moe tied od sh sr where
    plans: "tensor_plans a pl = Inr plans" and conv: "tokenizer_conversion_plan render a = Inr conv"
    and m: "m = manifest_document a f h ar pl meta tok conv dir plans moe tied od sh sr (readiness_of [] []) [] []"
    and val: "validate_manifest m a = Inr ()"
    using assms unfolding manifest_of_def Let_def
    by (auto simp: bind_res_Inr_iff metadata_blockers_none tokenizer_blockers_none simp del: jpath.simps split: if_splits)
  obtain ordered where lo: "layout_order a pl = Inr ordered" and rows: "map_res tensor_plan (List.enumerate 0 ordered) = Inr plans"
    using plans unfolding tensor_plans_def bind_res_Inr_iff by blast
  note R = tensor_plans_rows[OF rows]
  have ms: "mset ordered = mset (ar_tensors a)" by (rule layout_order_mset[OF lo])
  have "list_all payload_expected (map snd (List.enumerate 0 ordered))" using R by (simp only: list.pred_map o_def)
  then have pay: "list_all payload_expected ordered" by simp
  have jp: "jget_list m ''tensor_plans'' = Inr (map plan_row (List.enumerate 0 ordered))"
    using R by (simp add: m manifest_document_fields)
  have "validate_manifest m a = validates_by_names a"
    by (rule validate_rows[OF jp _ _ tokenizer_conversion_valid[OF conv] ms])
      (simp_all add: m manifest_document_fields del: jpath.simps)
  then have "distinct (map tn_name (ar_tensors a))" using val by (auto simp: validates_by_names_def split: if_splits)
  then have "distinct (map tn_name ordered)" using ms by (metis mset_eq_imp_distinct_iff mset_map)
  moreover have "jpath m [''validation'', ''conversion_readiness''] = Inr (str_list [''READY_FOR_CONVERSION''])"
    by (simp add: m manifest_document_fields readiness_of_def del: jpath.simps)
  ultimately show ?thesis using ms pay jp val by blast
qed


text \<open>
  C7. A built manifest is sound: its tensor plans are, in order, the plan rows of a permutation of
  the artifact's tensors with distinct names, each with a payload of exactly the size its type and
  shape require; it passes the validator.  It also always reads \<open>READY_FOR_CONVERSION\<close>: the metadata
  and tokenizer gap checks never report a gap, because no row is ever given a blocking status.
\<close>

theorem manifest_sound:
  assumes "manifest_of sha coerce render label filename file a = Inr m"
  shows "\<exists>ordered. mset ordered = mset (ar_tensors a) \<and> distinct (map tn_name ordered) \<and> list_all payload_expected ordered \<and>
    jget_list m ''tensor_plans'' = Inr (map plan_row (List.enumerate 0 ordered)) \<and> validate_manifest m a = Inr () \<and>
    jpath m [''validation'', ''conversion_readiness''] = Inr (str_list [''READY_FOR_CONVERSION''])"
  by (rule manifest_result[OF assms])

definition sample_tensor :: tensor where
  "sample_tensor = \<lparr>tn_ordinal = 0, tn_name = ''token_embd.weight'', tn_shape = [2], tn_type_id = 0, tn_type_name = ''F32'',
     tn_elements = Some 2, tn_payload_size = Some 8, tn_relative_offset = 0, tn_absolute_start = 0, tn_absolute_end = Some 8,
     tn_layer = None, tn_role = ''TokenEmbedding'', tn_group = ''GlobalPre'', tn_role_detail = ''token_embd.weight'', tn_gap_before = Some 0\<rparr>"

theorem manifest_sound_witness:
  "\<exists>m ordered. manifest_of (\<lambda>_. ''00'') (\<lambda>_. Inl TypeError) (\<lambda>_. []) ''BF16'' ''f'' (replicate 8 0)
      (sample_artifact\<lparr>ar_tensors := [sample_tensor]\<rparr>) = Inr m \<and>
    mset ordered = mset [sample_tensor] \<and> jget_list m ''tensor_plans'' = Inr (map plan_row (List.enumerate 0 ordered))"
proof -
  let ?a = "sample_artifact\<lparr>ar_tensors := [sample_tensor]\<rparr>"
  have "case manifest_of (\<lambda>_. ''00'') (\<lambda>_. Inl TypeError) (\<lambda>_. []) ''BF16'' ''f'' (replicate 8 0) ?a of Inl _ \<Rightarrow> False | Inr _ \<Rightarrow> True"
    by code_simp
  then obtain m where m: "manifest_of (\<lambda>_. ''00'') (\<lambda>_. Inl TypeError) (\<lambda>_. []) ''BF16'' ''f'' (replicate 8 0) ?a = Inr m"
    by (cases "manifest_of (\<lambda>_. ''00'') (\<lambda>_. Inl TypeError) (\<lambda>_. []) ''BF16'' ''f'' (replicate 8 0) ?a") simp_all
  obtain ordered where "mset ordered = mset (ar_tensors ?a)"
    "jget_list m ''tensor_plans'' = Inr (map plan_row (List.enumerate 0 ordered))"
    using manifest_sound[OF m] by blast
  then have "mset ordered = mset [sample_tensor]" "jget_list m ''tensor_plans'' = Inr (map plan_row (List.enumerate 0 ordered))"
    by simp_all
  with m show ?thesis by blast
qed

end
