(* ===== verification/Mutation.thy ===== *)
theory Mutation
  imports Json "HOL-Library.Word"
begin

text \<open>
  The integer mutation families of \<open>scripts/qualify_simd_traceable_mutation.py\<close>.  The numpy code
  broadcasts elementwise, so each routine is given on one element: a 32-bit seed, an ordinal and a
  lane.  A \<open>uint32\<close> is a \<open>32 word\<close>, a \<open>uint64\<close> a \<open>64 word\<close>; \<open>u32\<close> is the truncation between them.
  The loops that a zero shift or a negative step count would run forever are partial functions.
  The floating-point family and the search over seeds are not modelled.
\<close>

section \<open>Constants\<close>

definition LCG_A :: int where "LCG_A = 0x9E3779B1"
definition LCG_B :: int where "LCG_B = 0x7F4A7C15"
definition LANE_C :: int where "LANE_C = 0x6D2B79F5"
definition POS_C :: int where "POS_C = 0x85EBCA77"
definition TENSOR_C :: int where "TENSOR_C = 0x243F6A89"
definition A_mul :: "int list" where "A_mul = [0x9E3779B1, 0x85EBCA77, 0xC2B2AE3D, 0x27D4EB2F]"
definition B_add :: "int list" where "B_add = [0x7F4A7C15, 0x165667B1, 0xD3A2646D, 0xFD7046C5]"
definition C_mul :: "int list" where "C_mul = [0x94D049BB, 0x369DEA0F, 0x7FEB352D, 0x846CA68B]"
definition K_shift :: "nat list" where "K_shift = [7, 11, 9, 13]"
definition MASK32 :: int where "MASK32 = push_bit 32 1 - 1"

definition u32 :: "64 word \<Rightarrow> 32 word" where
  "u32 v = ucast v"

definition wide :: "32 word \<Rightarrow> 64 word" where
  "wide v = ucast v"

section \<open>Inverses\<close>

text \<open>\<open>pow(value, -1, 1 << 32)\<close>: Newton's iteration, correct to 3, 6, 12, 24 and 48 bits.\<close>

definition newton :: "int \<Rightarrow> int \<Rightarrow> int" where
  "newton a x = x * (2 - a * x) mod 2 ^ 32"

definition modular_inverse :: "int \<Rightarrow> int res" where
  "modular_inverse value = (if value AND 1 = 0 then Inl (ValueError ''only odd values are invertible modulo 2^32'')
     else Inr (newton value (newton value (newton value (newton value value)))))"

partial_function (option) undo_loop :: "32 word \<Rightarrow> nat \<Rightarrow> 32 word option" where
  "undo_loop result distance = (if distance < 32 then undo_loop (result XOR drop_bit distance result) (distance * 2) else Some result)"

definition undo_xor_right :: "32 word \<Rightarrow> nat \<Rightarrow> 32 word option" where
  "undo_xor_right v shift = undo_loop v shift"

partial_function (option) jump_loop :: "int \<Rightarrow> int \<Rightarrow> int \<Rightarrow> int \<Rightarrow> int \<Rightarrow> (int \<times> int) option" where
  "jump_loop acc_a acc_b a b steps = (if steps = 0 then Some (acc_a, acc_b) else
     let (acc_a', acc_b') = (if steps AND 1 \<noteq> 0 then (acc_a * a AND MASK32, (acc_b * a + b) AND MASK32) else (acc_a, acc_b)) in
     jump_loop acc_a' acc_b' (a * a AND MASK32) (b * (a + 1) AND MASK32) (drop_bit 1 steps))"

definition affine_jump :: "int \<Rightarrow> int \<Rightarrow> int \<Rightarrow> (int \<times> int) option" where
  "affine_jump a b steps = jump_loop 1 0 a b steps"

section \<open>States\<close>

definition position_key :: "32 word \<Rightarrow> bool \<Rightarrow> 32 word" where
  "position_key ordinal position_aware =
     (if \<not> position_aware then 0 else u32 (wide ordinal * word_of_int POS_C + word_of_int TENSOR_C))"

text \<open>One round of the loop of \<open>integer_states\<close>; a round index past the tables raises.\<close>

definition mutate_round :: "string \<Rightarrow> 32 word \<Rightarrow> nat \<Rightarrow> 32 word \<Rightarrow> 32 word res" where
  "mutate_round family lane index state = (if index \<ge> length A_mul then Inl IndexError else
     let state = u32 (wide state * word_of_int (A_mul ! index) + word_of_int (B_add ! index)
                      + wide lane * word_of_int (B_add ! index OR 1)) in
     if family = ''M2_AFFINE_XOR'' then
       let state = state XOR drop_bit (K_shift ! index) state in
       Inr (u32 (wide state * word_of_int (C_mul ! index)))
     else Inr state)"

fun mutate_rounds :: "string \<Rightarrow> 32 word \<Rightarrow> nat \<Rightarrow> 32 word \<Rightarrow> 32 word res" where
  "mutate_rounds family lane 0 state = Inr state"
| "mutate_rounds family lane (Suc n) state = bind_res (mutate_rounds family lane n state) (mutate_round family lane n)"

definition jump_of :: "32 word \<Rightarrow> nat \<Rightarrow> (int \<times> int) res" where
  "jump_of lane rounds = (case affine_jump LCG_A LCG_B (uint lane + 1 + int rounds) of
     None \<Rightarrow> Inl (RuntimeError ''no result'') | Some ab \<Rightarrow> Inr ab)"

definition integer_state :: "string \<Rightarrow> nat \<Rightarrow> 32 word \<Rightarrow> 32 word \<Rightarrow> 32 word \<Rightarrow> bool \<Rightarrow> 32 word res" where
  "integer_state family rounds seed ordinal lane position_aware = (let pos = position_key ordinal position_aware in
     if family = ''M0_LCG_JUMP'' then
       bind_res (jump_of lane rounds) (\<lambda>(jump_a, jump_b).
       let root = seed + pos in Inr (u32 (wide root * word_of_int jump_a + word_of_int jump_b)))
     else mutate_rounds family lane rounds (seed + pos + lane * word_of_int LANE_C))"

definition inverse_word :: "int \<Rightarrow> 64 word res" where
  "inverse_word a = bind_res (modular_inverse a) (\<lambda>i. Inr (word_of_int i))"

definition undo_res :: "32 word \<Rightarrow> nat \<Rightarrow> 32 word res" where
  "undo_res v k = (case undo_xor_right v k of None \<Rightarrow> Inl (RuntimeError ''no result'') | Some x \<Rightarrow> Inr x)"

definition reverse_round :: "string \<Rightarrow> 32 word \<Rightarrow> nat \<Rightarrow> 32 word \<Rightarrow> 32 word res" where
  "reverse_round family lane index state = (if index \<ge> length A_mul then Inl IndexError else
     bind_res (if family = ''M2_AFFINE_XOR'' then
         bind_res (inverse_word (C_mul ! index)) (\<lambda>ci. undo_res (u32 (wide state * ci)) (K_shift ! index))
       else Inr state) (\<lambda>state.
     let add = u32 (word_of_int (B_add ! index) + wide lane * word_of_int (B_add ! index OR 1)) in
     bind_res (inverse_word (A_mul ! index)) (\<lambda>ai. Inr (u32 ((wide state - wide add) * ai)))))"

fun reverse_rounds :: "string \<Rightarrow> 32 word \<Rightarrow> nat \<Rightarrow> 32 word \<Rightarrow> 32 word res" where
  "reverse_rounds family lane 0 state = Inr state"
| "reverse_rounds family lane (Suc n) state = bind_res (reverse_round family lane n state) (reverse_rounds family lane n)"

definition reverse_integer_state :: "string \<Rightarrow> nat \<Rightarrow> 32 word \<Rightarrow> 32 word \<Rightarrow> 32 word \<Rightarrow> bool \<Rightarrow> 32 word res" where
  "reverse_integer_state family rounds state ordinal lane position_aware = (let pos = position_key ordinal position_aware in
     if family = ''M0_LCG_JUMP'' then
       bind_res (jump_of lane rounds) (\<lambda>(jump_a, jump_b). bind_res (inverse_word jump_a) (\<lambda>ai.
       Inr (u32 ((wide state - word_of_int jump_b) * ai - wide pos))))
     else bind_res (reverse_rounds family lane rounds state) (\<lambda>state.
       Inr (u32 (wide state - wide pos - wide lane * word_of_int LANE_C))))"

section \<open>Seeds, splits and accounting\<close>

definition random_seed :: "32 word \<Rightarrow> nat \<Rightarrow> int \<Rightarrow> 32 word" where
  "random_seed ordinal candidate salt = (let
     v = wide ordinal * 0x9E3779B1 + of_nat candidate * 0x85EBCA77 + (word_of_int salt :: 64 word);
     v = v XOR drop_bit 16 v; v = v * 0x7FEB352D; v = v XOR drop_bit 15 v in u32 v)"

definition split_hash :: "nat \<Rightarrow> 64 word" where
  "split_hash i = (let v = (of_nat i :: 64 word);
     v = v XOR drop_bit 30 v; v = v * 0xBF58476D1CE4E5B9;
     v = v XOR drop_bit 27 v; v = v * 0x94D049BB133111EB in v XOR drop_bit 31 v)"

definition vector_split :: "nat \<Rightarrow> nat list \<times> nat list" where
  "vector_split count = (let order = sort_key split_hash [0..<count] in
     (sort (take (count div 2) order), sort (drop (count div 2) order)))"

text \<open>\<open>math.ceil(segment_count * bits / 8)\<close> is the exact ceiling below 2 to the 53.\<close>

definition descriptor_accounting :: "string \<Rightarrow> int \<Rightarrow> int \<Rightarrow> bool \<Rightarrow> json res" where
  "descriptor_accounting family len elements mixed_rounds = (if len = 0 then Inl ZeroDivisionError else
     let segment_count = elements div len;
         seed_bits = 32; scale_bits = 16; round_bits = (if mixed_rounds then 3 else 0);
         bits = seed_bits + scale_bits + round_bits;
         descriptor_bytes = - ((- (segment_count * bits)) div 8);
         metadata_bytes = 32;
         base = descriptor_bytes + metadata_bytes;
         aligned = (base + 63) div 64 * 64;
         shared_constants = (if family = ''M0_LCG_JUMP'' then 2560 else 128) in
     if elements = 0 then Inl ZeroDivisionError else
     Inr (JObj [(''length'', JInt len), (''segment_count'', JInt segment_count), (''seed_bits_per_segment'', JInt seed_bits),
       (''scale_bits_per_segment'', JInt scale_bits), (''round_bits_per_segment'', JInt round_bits),
       (''mode_bits_per_segment'', JInt 0), (''position_bits_per_segment'', JInt 0),
       (''descriptor_bits_per_segment'', JInt bits), (''descriptor_bytes'', JInt descriptor_bytes),
       (''metadata_bytes'', JInt metadata_bytes), (''alignment_padding_bytes'', JInt (aligned - base)),
       (''shared_constants_bytes'', JInt shared_constants), (''total_true_bytes'', JInt (aligned + shared_constants)),
       (''true_bpw'', JQuot ((aligned + shared_constants) * 8) elements)]))"

section \<open>Undoing the shift\<close>

lemma undo_loop_inverse:
  "0 < d \<Longrightarrow> undo_loop (x XOR drop_bit d x) d = Some x"
proof (induction "32 - d" arbitrary: d rule: less_induct)
  case less
  show ?case
  proof (cases "d < 32")
    case True
    have "(x XOR drop_bit d x) XOR drop_bit d (x XOR drop_bit d x) = x XOR drop_bit (d * 2) x"
      by (rule bit_word_eqI) (auto simp: bit_simps mult_2_right add.assoc)
    then show ?thesis using less.hyps[of "d * 2"] less.prems True by (subst undo_loop.simps) simp
  next
    case False
    then have "drop_bit d x = 0" by (intro bit_word_eqI) (auto simp: bit_simps dest: bit_imp_le_length)
    then show ?thesis using False by (subst undo_loop.simps) simp
  qed
qed

section \<open>Arithmetic modulo two to the 32\<close>

lemma take_32_64: "take_bit 32 (take_bit 64 a) = take_bit 32 (a :: int)"
  by simp

lemma u32_add [simp]: "u32 (a + b) = u32 a + u32 b"
  unfolding u32_def by transfer (simp, metis take_bit_add take_32_64)

lemma u32_diff [simp]: "u32 (a - b) = u32 a - u32 b"
  unfolding u32_def by transfer (simp, metis take_bit_diff take_32_64)

lemma u32_mult [simp]: "u32 (a * b) = u32 a * u32 b"
  unfolding u32_def by transfer (simp, metis take_bit_mult take_32_64)

lemma u32_wide [simp]: "u32 (wide v) = v"
  unfolding u32_def wide_def by transfer simp

lemma u32_of_int [simp]: "u32 (word_of_int n) = word_of_int n"
  unfolding u32_def by transfer simp

lemma newton_word: "(word_of_int (newton a x) :: 32 word) = word_of_int x * (2 - word_of_int a * word_of_int x)"
proof -
  have "(word_of_int (n mod 2 ^ 32) :: 32 word) = word_of_int n" for n
    by transfer (simp add: take_bit_eq_mod)
  then show ?thesis by (simp add: newton_def)
qed

lemma newton_error: "1 - a * (x * (2 - a * x)) = (1 - a * x) ^ 2" for a x :: "'a :: comm_ring_1"
  by (simp add: power2_eq_square algebra_simps)

lemma odd_square_error: "odd a \<Longrightarrow> (1 - word_of_int a * word_of_int a :: 32 word) ^ 16 = 0"
proof -
  assume "odd a"
  then obtain b where b: "a = 2 * b + 1" by (auto elim: oddE)
  have "2 dvd b * (b + 1)" by simp
  then obtain k where k: "b * (b + 1) = 2 * k" by blast
  have "1 - a * a = 8 * (- k)" using k by (simp add: b algebra_simps)
  then have "(1 - a * a) ^ 16 = 2 ^ 32 * (2 ^ 16 * k ^ 16)" by (simp add: power_mult_distrib)
  then have "(word_of_int ((1 - a * a) ^ 16) :: 32 word) = word_of_int (2 ^ 32 * (2 ^ 16 * k ^ 16))" by simp
  also have "\<dots> = 0" by transfer (simp add: take_bit_eq_mod)
  finally show ?thesis by simp
qed

lemma modular_inverse_word:
  assumes "modular_inverse a = Inr i"
  shows "(word_of_int a :: 32 word) * word_of_int i = 1"
proof -
  have odd: "odd a" and i: "i = newton a (newton a (newton a (newton a a)))"
    using assms by (auto simp: modular_inverse_def and_one_eq odd_iff_mod_2_eq_one split: if_splits)
  let ?w = "word_of_int a :: 32 word"
  have step: "1 - ?w * word_of_int (newton a x) = (1 - ?w * word_of_int x) ^ 2" for x
    by (simp only: newton_word newton_error)
  have "1 - ?w * word_of_int i = ((((1 - ?w * ?w) ^ 2) ^ 2) ^ 2) ^ 2" by (simp only: i step)
  also have "\<dots> = (1 - ?w * ?w) ^ 16" by (simp flip: power_mult)
  also have "\<dots> = 0" by (rule odd_square_error[OF odd])
  finally show ?thesis by simp
qed


section \<open>Jumping ahead\<close>

abbreviation word :: "int \<Rightarrow> 32 word" where
  "word n \<equiv> word_of_int n"

definition affine :: "int \<Rightarrow> int \<Rightarrow> 32 word \<Rightarrow> 32 word" where
  "affine a b x = word a * x + word b"

lemma word_mask [simp]: "word (n AND MASK32) = word n"
proof -
  have "n AND MASK32 = take_bit 32 n" unfolding take_bit_eq_mask by (simp add: MASK32_def mask_eq_exp_minus_1)
  then show ?thesis by transfer simp
qed

lemma even_mask: "even (n AND MASK32) \<longleftrightarrow> even n"
  by (simp add: even_and_iff MASK32_def)

lemma affine_twice: "affine (a * a AND MASK32) (b * (a + 1) AND MASK32) = affine a b ^^ 2"
  by (rule ext) (simp add: affine_def numeral_2_eq_2 algebra_simps)

lemma jump_loop_correct:
  "0 \<le> steps \<Longrightarrow> \<exists>ja jb. jump_loop acc_a acc_b a b steps = Some (ja, jb) \<and>
     (\<forall>x. affine ja jb x = (affine a b ^^ nat steps) (affine acc_a acc_b x)) \<and> (odd a \<longrightarrow> odd acc_a \<longrightarrow> odd ja)"
proof (induction "nat steps" arbitrary: acc_a acc_b a b steps rule: less_induct)
  case less
  show ?case
  proof (cases "steps = 0")
    case True
    then show ?thesis by (subst jump_loop.simps) simp
  next
    case False
    define half where "half = steps div 2"
    define acc_a' where "acc_a' = (if odd steps then acc_a * a AND MASK32 else acc_a)"
    define acc_b' where "acc_b' = (if odd steps then (acc_b * a + b) AND MASK32 else acc_b)"
    have half: "nat half < nat steps" "0 \<le> half" "drop_bit 1 steps = half"
      using False less.prems by (auto simp: half_def drop_bit_eq_div)
    from less.hyps[OF half(1) half(2), of acc_a' acc_b' "a * a AND MASK32" "b * (a + 1) AND MASK32"]
    obtain ja jb where j: "jump_loop acc_a' acc_b' (a * a AND MASK32) (b * (a + 1) AND MASK32) half = Some (ja, jb)"
      and f: "\<And>x. affine ja jb x = ((affine a b ^^ 2) ^^ nat half) (affine acc_a' acc_b' x)"
      and o: "odd (a * a AND MASK32) \<longrightarrow> odd acc_a' \<longrightarrow> odd ja"
      unfolding affine_twice by blast
    have "jump_loop acc_a acc_b a b steps = Some (ja, jb)"
      using j False half(3) by (subst jump_loop.simps) (auto simp: acc_a'_def acc_b'_def and_one_eq odd_iff_mod_2_eq_one)
    moreover have "affine acc_a' acc_b' x = (affine a b ^^ (nat steps mod 2)) (affine acc_a acc_b x)" for x
    proof (cases "odd steps")
      case True
      then have "nat steps mod 2 = 1" using less.prems by (metis even_nat_iff odd_iff_mod_2_eq_one)
      then show ?thesis using True by (simp add: acc_a'_def acc_b'_def affine_def algebra_simps)
    next
      case even: False
      then have "nat steps mod 2 = 0" using less.prems by (metis even_nat_iff even_iff_mod_2_eq_zero)
      then show ?thesis using even by (simp add: acc_a'_def acc_b'_def)
    qed
    moreover have "nat steps = 2 * nat half + nat steps mod 2"
      using less.prems by (simp add: half_def nat_div_distrib)
    ultimately have "affine ja jb x = (affine a b ^^ nat steps) (affine acc_a acc_b x)" for x
      using f by (metis (no_types, lifting) comp_apply funpow_add funpow_mult)
    moreover have "odd a \<longrightarrow> odd acc_a \<longrightarrow> odd ja" using o by (auto simp: acc_a'_def even_mask)
    ultimately show ?thesis using \<open>jump_loop acc_a acc_b a b steps = Some (ja, jb)\<close> by blast
  qed
qed

lemma affine_jump_correct:
  assumes "0 \<le> steps"
  shows "\<exists>ja jb. affine_jump a b steps = Some (ja, jb) \<and> affine ja jb = affine a b ^^ nat steps \<and> (odd a \<longrightarrow> odd ja)"
proof -
  obtain ja jb where "affine_jump a b steps = Some (ja, jb)"
    and f: "\<And>x. affine ja jb x = (affine a b ^^ nat steps) (affine 1 0 x)" and o: "odd a \<longrightarrow> odd ja"
    using jump_loop_correct[OF assms, of 1 0 a b] unfolding affine_jump_def by auto
  moreover have "affine ja jb = affine a b ^^ nat steps" using f by (intro ext) (simp add: affine_def)
  ultimately show ?thesis by blast
qed


section \<open>Reversing a state\<close>

lemma inverse_word_odd: "odd a \<Longrightarrow> \<exists>w. inverse_word a = Inr w \<and> word a * u32 w = 1"
proof -
  assume "odd a"
  then obtain i where i: "modular_inverse a = Inr i" by (simp add: modular_inverse_def and_one_eq odd_iff_mod_2_eq_one)
  have "inverse_word a = Inr (word_of_int i)" "word a * u32 (word_of_int i) = 1"
    using i modular_inverse_word[OF i] by (simp_all add: inverse_word_def)
  then show ?thesis by blast
qed

lemma tables: "i < 4 \<Longrightarrow> odd (A_mul ! i) \<and> odd (C_mul ! i) \<and> 0 < K_shift ! i" "length A_mul = 4"
  by (auto simp: A_mul_def C_mul_def K_shift_def less_Suc_eq numeral_eq_Suc)

lemma undo_res_xor: "0 < k \<Longrightarrow> undo_res (x XOR drop_bit k x) k = Inr x"
  by (simp add: undo_res_def undo_xor_right_def undo_loop_inverse)

lemma mutate_round_total: "i < 4 \<Longrightarrow> \<exists>s'. mutate_round family lane i s = Inr s'"
  by (simp add: mutate_round_def tables Let_def)

lemma reverse_mutate_round:
  assumes "i < 4" and "mutate_round family lane i s = Inr s'"
  shows "reverse_round family lane i s' = Inr s"
proof -
  note t = tables(1)[OF assms(1)]
  obtain ai where ai: "inverse_word (A_mul ! i) = Inr ai" "word (A_mul ! i) * u32 ai = 1" using inverse_word_odd t by blast
  obtain ci where ci: "inverse_word (C_mul ! i) = Inr ci" "word (C_mul ! i) * u32 ci = 1" using inverse_word_odd t by blast
  define m where "m = s * word (A_mul ! i) + word (B_add ! i) + lane * word (B_add ! i OR 1)"
  have s': "s' = (if family = ''M2_AFFINE_XOR'' then (m XOR drop_bit (K_shift ! i) m) * word (C_mul ! i) else m)"
    using assms by (auto simp: mutate_round_def tables Let_def m_def split: if_splits)
  have x: "(m XOR drop_bit (K_shift ! i) m) * word (C_mul ! i) * u32 ci = m XOR drop_bit (K_shift ! i) m"
    using ci(2) by (metis mult.assoc mult.right_neutral)
  have "(m - (word (B_add ! i) + lane * word (B_add ! i OR 1))) * u32 ai = s * (word (A_mul ! i) * u32 ai)"
    by (simp add: m_def algebra_simps)
  then have a: "(m - (word (B_add ! i) + lane * word (B_add ! i OR 1))) * u32 ai = s" using ai(2) by simp
  show ?thesis
    using assms(1) t by (simp add: reverse_round_def tables Let_def s' ci(1) ai(1) x a undo_res_xor)
qed

lemma mutate_rounds_total: "n \<le> 4 \<Longrightarrow> \<exists>s'. mutate_rounds family lane n s = Inr s'"
proof (induction n)
  case (Suc n)
  then obtain t where "mutate_rounds family lane n s = Inr t" by auto
  moreover have "n < 4" using Suc.prems by simp
  then obtain s' where "mutate_round family lane n t = Inr s'" using mutate_round_total by blast
  ultimately show ?case by simp
qed simp

lemma reverse_mutate_rounds:
  "n \<le> 4 \<Longrightarrow> mutate_rounds family lane n s = Inr s' \<Longrightarrow> reverse_rounds family lane n s' = Inr s"
proof (induction n arbitrary: s')
  case (Suc n)
  then obtain t where t: "mutate_rounds family lane n s = Inr t" "mutate_round family lane n t = Inr s'"
    by (auto simp: bind_res_Inr_iff)
  then show ?case using reverse_mutate_round[of n] Suc by simp
qed simp

lemma jump_of_correct:
  "\<exists>ja jb. jump_of lane rounds = Inr (ja, jb) \<and> affine ja jb = affine LCG_A LCG_B ^^ (nat (uint lane) + 1 + rounds) \<and> odd ja"
proof -
  have "0 \<le> uint lane + 1 + int rounds" by simp
  moreover have "nat (uint lane + 1 + int rounds) = nat (uint lane) + 1 + rounds" by (simp add: nat_add_distrib)
  moreover have "odd LCG_A" by (simp add: LCG_A_def)
  ultimately obtain ja jb where "affine_jump LCG_A LCG_B (uint lane + 1 + int rounds) = Some (ja, jb)"
    "affine ja jb = affine LCG_A LCG_B ^^ (nat (uint lane) + 1 + rounds)" "odd ja"
    using affine_jump_correct[of "uint lane + 1 + int rounds" LCG_A LCG_B] by auto
  then show ?thesis by (simp add: jump_of_def)
qed

lemma reverse_state:
  assumes "rounds \<le> 4"
  shows "bind_res (integer_state family rounds seed ordinal lane aware)
    (\<lambda>state. reverse_integer_state family rounds state ordinal lane aware) = Inr seed"
proof (cases "family = ''M0_LCG_JUMP''")
  case True
  obtain ja jb where j: "jump_of lane rounds = Inr (ja, jb)" "odd ja" using jump_of_correct by blast
  obtain ai where ai: "inverse_word ja = Inr ai" "word ja * u32 ai = 1" using inverse_word_odd j(2) by blast
  have "(seed + position_key ordinal aware) * word ja * u32 ai = seed + position_key ordinal aware"
    using ai(2) by (metis mult.assoc mult.right_neutral)
  then show ?thesis using True by (simp add: integer_state_def reverse_integer_state_def Let_def j(1) ai(1))
next
  case False
  obtain s' where s': "mutate_rounds family lane rounds (seed + position_key ordinal aware + lane * word LANE_C) = Inr s'"
    using mutate_rounds_total assms by blast
  show ?thesis using False reverse_mutate_rounds[OF assms s'] s'
    by (simp add: integer_state_def reverse_integer_state_def Let_def)
qed

text \<open>
  C32. The mutation is traceable: for every integer family, every seed, ordinal and lane and up to
  four rounds, generating a state returns, and reversing that state returns and gives the seed back.
\<close>

theorem mutation_reversible:
  assumes "rounds \<le> 4"
  shows "bind_res (integer_state family rounds seed ordinal lane aware)
    (\<lambda>state. reverse_integer_state family rounds state ordinal lane aware) = Inr seed"
  by (rule reverse_state[OF assms])

theorem mutation_reversible_witness:
  "bind_res (integer_state ''M2_AFFINE_XOR'' 4 7 3 5 True) (\<lambda>state. reverse_integer_state ''M2_AFFINE_XOR'' 4 state 3 5 True) = Inr 7"
  by (rule mutation_reversible) simp

text \<open>
  Jumping ahead is iterating: the \<open>M0\<close> state of a lane is the position-shifted seed after
  \<open>lane + 1 + rounds\<close> steps of the congruential generator, computed by repeated squaring.
\<close>

theorem lcg_state_iterates:
  "integer_state ''M0_LCG_JUMP'' rounds seed ordinal lane aware =
     Inr ((affine LCG_A LCG_B ^^ (nat (uint lane) + 1 + rounds)) (seed + position_key ordinal aware))"
proof -
  obtain ja jb where j: "jump_of lane rounds = Inr (ja, jb)"
    and f: "affine ja jb = affine LCG_A LCG_B ^^ (nat (uint lane) + 1 + rounds)" using jump_of_correct by blast
  have "integer_state ''M0_LCG_JUMP'' rounds seed ordinal lane aware = Inr (affine ja jb (seed + position_key ordinal aware))"
    by (simp add: integer_state_def Let_def j affine_def mult.commute)
  then show ?thesis unfolding f .
qed

end
