(* ===== verification/Navigation.thy ===== *)
theory Navigation
  imports Text Json "HOL-Library.Product_Lexorder"
begin

text \<open>
  The acceptance check of the raw navigation benchmark, \<open>scripts/validate_v06_navigation.py\<close>: the required
  base steps, layouts and operation variants, and the checks of \<open>main\<close> up to the report, over the rows of the
  CSV as dictionaries of strings.  The Markdown report is left out but for its table of pooled medians.
  The error messages that list a set are shortened to their fixed part.
\<close>

type_synonym raw_row = "(string \<times> string) list"

definition BASE_STEPS :: "int list" where
  "BASE_STEPS = [8, 16, 32, 64, 128, 256]"

definition LAYOUTS :: "string list" where
  "LAYOUTS = [''many-tiny'', ''few-large'', ''mixed'', ''aos'', ''soa'', ''composite-continuation'', ''large-opaque'', ''zero-and-partial'']"

definition REQUIRED_VARIANTS :: "(string \<times> string) list" where
  "REQUIRED_VARIANTS = [
    (''canonical-validation'', ''parse-and-describe''),
    (''nano-construction'', ''reconstruct-from-validated-canonical''),
    (''nano-deployment'', ''embedded-load''),
    (''nano-deployment'', ''local-reconstruction''),
    (''nano-deployment'', ''reconstructed-cache-load''),
    (''canonical-block-traversal'', ''canonical''),
    (''physical-start-enumeration'', ''nano''),
    (''nth-start-plus-next-boundary'', ''raw-nano-linear-select''),
    (''nth-start-plus-next-boundary'', ''nano+checkpoint-512''),
    (''nth-start-plus-next-boundary'', ''nano+checkpoint-4096''),
    (''nth-start-plus-next-boundary'', ''nano+checkpoint-65536''),
    (''directory-construction'', ''sorted-validated-ranges''),
    (''key-lookup'', ''canonical-linear-scan''),
    (''key-lookup'', ''directory-binary-search''),
    (''parallel-payload-sum'', ''canonical-rayon''),
    (''parallel-payload-sum'', ''nano-guided-rayon''),
    (''parallel-payload-sum'', ''dynamic-queue-control''),
    (''parallel-start-enumeration'', ''nano-rayon'')]"

section \<open>Rows and groups\<close>

record nav_row =
  nr_layout :: string
  nr_base_step :: int
  nr_operation :: string
  nr_variant :: string
  nr_sample :: int
  nr_nanos :: int
  nr_file_bytes :: int
  nr_header_bytes :: int
  nr_padding_bytes :: int
  nr_payload_bytes :: int
  nr_block_count :: int
  nr_nano_bytes :: int
  nr_checkpoint_bytes :: int
  nr_directory_bytes :: int

definition row_int :: "raw_row \<Rightarrow> string \<Rightarrow> int res" where
  "row_int row k = bind_res (lookup_res row k) parse_int"

definition nav_row_of :: "raw_row \<Rightarrow> nav_row res" where
  "nav_row_of row =
     bind_res (map_res (row_int row) [''base_step'', ''sample'', ''nanos'', ''file_bytes'', ''header_bytes'', ''padding_bytes'',
       ''payload_bytes'', ''block_count'', ''nano_bytes'', ''checkpoint_bytes'', ''directory_bytes'']) (\<lambda>n.
     bind_res (lookup_res row ''layout'') (\<lambda>layout. bind_res (lookup_res row ''operation'') (\<lambda>operation.
     bind_res (lookup_res row ''variant'') (\<lambda>variant.
     Inr \<lparr>nr_layout = layout, nr_base_step = n ! 0, nr_operation = operation, nr_variant = variant, nr_sample = n ! 1,
       nr_nanos = n ! 2, nr_file_bytes = n ! 3, nr_header_bytes = n ! 4, nr_padding_bytes = n ! 5, nr_payload_bytes = n ! 6,
       nr_block_count = n ! 7, nr_nano_bytes = n ! 8, nr_checkpoint_bytes = n ! 9, nr_directory_bytes = n ! 10\<rparr>))))"

type_synonym group_key = "string \<times> int \<times> string \<times> string"

definition group_key_of :: "nav_row \<Rightarrow> group_key" where
  "group_key_of r = (nr_layout r, nr_base_step r, nr_operation r, nr_variant r)"

definition add_row :: "nav_row \<Rightarrow> (group_key \<times> nav_row list) list \<Rightarrow> (group_key \<times> nav_row list) list" where
  "add_row r groups = AList.update (group_key_of r) (get_default groups (group_key_of r) [] @ [r]) groups"

section \<open>The checks\<close>

definition single :: "(nav_row \<Rightarrow> int) \<Rightarrow> nav_row list \<Rightarrow> bool" where
  "single f rows \<longleftrightarrow> card (f ` set rows) = 1"

definition check_group :: "group_key \<times> nav_row list \<Rightarrow> unit res" where
  "check_group kg = (case kg of (key, samples) \<Rightarrow>
     bind_res (require (length samples = 20 \<and> nr_sample ` set samples = set (map int [0..<20])) (SystemExit ''sample shape mismatch'')) (\<lambda>_.
     require (list_all (\<lambda>r. 0 \<le> nr_nanos r) samples) (SystemExit ''negative duration'')))"

definition metadata_rows :: "(group_key \<times> nav_row list) list \<Rightarrow> string \<Rightarrow> int \<Rightarrow> nav_row list" where
  "metadata_rows groups layout base =
     concat (map (\<lambda>(key, samples). if fst key = layout \<and> fst (snd key) = base then take 1 samples else []) groups)"

definition check_metadata :: "(group_key \<times> nav_row list) list \<Rightarrow> string \<times> int \<Rightarrow> unit res" where
  "check_metadata groups lb = (case lb of (layout, base) \<Rightarrow> (let metadata = metadata_rows groups layout base in
     bind_res (require (single nr_payload_bytes metadata \<and> single nr_block_count metadata \<and> single nr_header_bytes metadata \<and>
       single nr_padding_bytes metadata) (SystemExit ''metadata is not stable'')) (\<lambda>_.
     require (list_all (\<lambda>r. nr_file_bytes r = nr_header_bytes r + nr_padding_bytes r + nr_payload_bytes r) metadata)
       (SystemExit ''metadata is not stable''))))"

definition validate_navigation :: "raw_row list \<Rightarrow> (group_key \<times> nav_row list) list res" where
  "validate_navigation rows =
     bind_res (require (rows \<noteq> []) (SystemExit ''raw report is empty'')) (\<lambda>_.
     bind_res (map_res (\<lambda>row. row_int row ''base_step'') rows) (\<lambda>bases.
     bind_res (map_res (\<lambda>row. lookup_res row ''layout'') rows) (\<lambda>layouts.
     bind_res (require (set bases = set BASE_STEPS) (SystemExit ''BaseStep set mismatch'')) (\<lambda>_.
     bind_res (require (set layouts = set LAYOUTS) (SystemExit ''layout set mismatch'')) (\<lambda>_.
     bind_res (map_res nav_row_of rows) (\<lambda>parsed.
     let groups = fold add_row parsed [] in
     bind_res (require ((\<lambda>kg. snd (snd (fst kg))) ` set groups = set REQUIRED_VARIANTS) (SystemExit ''operation/variant mismatch'')) (\<lambda>_.
     bind_res (require (length groups = length LAYOUTS * length BASE_STEPS * length REQUIRED_VARIANTS)
       (SystemExit ''expected groups'')) (\<lambda>_.
     bind_res (map_res check_group groups) (\<lambda>_.
     bind_res (map_res (check_metadata groups) (List.product LAYOUTS BASE_STEPS)) (\<lambda>_.
     Inr groups))))))))))"

section \<open>The table of the report\<close>

definition nav_median :: "nav_row list \<Rightarrow> json" where
  "nav_median rows = (let s = sort (map nr_nanos rows); n = length s in
     if odd n then JInt (s ! (n div 2)) else JQuot (s ! (n div 2 - 1) + s ! (n div 2)) 2)"

definition pool_group :: "group_key \<times> nav_row list \<Rightarrow> ((int \<times> string \<times> string) \<times> nav_row list) list \<Rightarrow>
    ((int \<times> string \<times> string) \<times> nav_row list) list" where
  "pool_group kg pooled = (case kg of ((layout, base, operation, variant), samples) \<Rightarrow>
     AList.update (base, operation, variant) (get_default pooled (base, operation, variant) [] @ samples) pooled)"

definition median_table :: "(group_key \<times> nav_row list) list \<Rightarrow> ((int \<times> string \<times> string) \<times> json) list" where
  "median_table groups = map (\<lambda>(k, g). (k, nav_median g)) (sort_key fst (fold pool_group groups []))"

section \<open>What an accepted report is\<close>

definition own_rows :: "group_key \<times> nav_row list \<Rightarrow> bool" where
  "own_rows kg \<longleftrightarrow> snd kg \<noteq> [] \<and> (\<forall>r \<in> set (snd kg). group_key_of r = fst kg)"

lemma add_row_groups:
  assumes "distinct (map fst groups)" "\<forall>kg \<in> set groups. own_rows kg"
  shows "distinct (map fst (add_row r groups))" "\<forall>kg \<in> set (add_row r groups). own_rows kg"
    "sum_list (map (length \<circ> snd) (add_row r groups)) = Suc (sum_list (map (length \<circ> snd) groups))"
proof -
  let ?k = "group_key_of r"
  show d: "distinct (map fst (add_row r groups))" using assms(1) by (simp add: add_row_def distinct_update)
  have old: "group_key_of x = ?k" if "x \<in> set (get_default groups ?k [])" for x
  proof (cases "map_of groups ?k")
    case None
    then show ?thesis using that by simp
  next
    case (Some g)
    then have "own_rows (?k, g)" using assms(2) map_of_SomeD by fast
    then show ?thesis using that Some by (simp add: own_rows_def)
  qed
  show "\<forall>kg \<in> set (add_row r groups). own_rows kg"
  proof
    fix kg
    assume "kg \<in> set (add_row r groups)"
    then have m: "map_of (add_row r groups) (fst kg) = Some (snd kg)" using d by (intro map_of_is_SomeI) simp_all
    show "own_rows kg"
    proof (cases "fst kg = ?k")
      case True
      then have "snd kg = get_default groups ?k [] @ [r]" using m by (simp add: add_row_def update_conv')
      then have "snd kg \<noteq> []" "set (snd kg) = insert r (set (get_default groups ?k []))" by simp_all
      then show ?thesis unfolding own_rows_def True by (metis insert_iff old)
    next
      case False
      then have "map_of groups (fst kg) = Some (snd kg)" using m by (simp add: add_row_def update_conv')
      then have "kg \<in> set groups" using map_of_SomeD[of groups "fst kg" "snd kg"] by simp
      then show ?thesis using assms(2) by blast
    qed
  qed
  show "sum_list (map (length \<circ> snd) (add_row r groups)) = Suc (sum_list (map (length \<circ> snd) groups))"
    unfolding add_row_def using assms(1)
  proof (induction groups)
    case (Cons kv groups)
    have "fst kv \<notin> fst ` set groups" using Cons.prems by simp
    then show ?case using Cons by (cases kv; cases "fst kv = ?k") (auto simp: get_default_def)
  qed simp
qed

lemma groups_of:
  "distinct (map fst (fold add_row rows [])) \<and> (\<forall>kg \<in> set (fold add_row rows []). own_rows kg) \<and>
   sum_list (map (length \<circ> snd) (fold add_row rows [])) = length rows"
proof (induction rows rule: rev_induct)
  case (snoc r rows)
  have e: "fold add_row (rows @ [r]) [] = add_row r (fold add_row rows [])" by simp
  have l: "length (rows @ [r]) = Suc (length rows)" by simp
  note IH = snoc.IH
  note step = add_row_groups[OF IH[THEN conjunct1] IH[THEN conjunct2, THEN conjunct1], of r]
  show ?case unfolding e l using step(1,2) step(3)[unfolded IH[THEN conjunct2, THEN conjunct2]] by blast
qed simp

lemma add_row_keys: "fst ` set (fold add_row rows []) = group_key_of ` set rows"
proof (induction rows rule: rev_induct)
  case (snoc r rows)
  have "fst ` set (AList.update k v d) = insert k (fst ` set d)" for k v and d :: "(group_key \<times> nav_row list) list"
    using dom_update[of k v d] unfolding dom_map_of_conv_image_fst by blast
  then show ?case using snoc.IH by (simp add: add_row_def)
qed simp

lemma check_groups:
  assumes "map_res check_group groups = Inr us" "(k, g) \<in> set groups"
  shows "length g = 20 \<and> nr_sample ` set g = int ` {..<20} \<and> distinct (map nr_sample g) \<and> list_all (\<lambda>r. 0 \<le> nr_nanos r) g"
proof -
  have "check_group (k, g) = Inr ()" using map_res_mem[OF assms] by auto
  then have c: "length g = 20" "nr_sample ` set g = set (map int [0..<20])" "list_all (\<lambda>r. 0 \<le> nr_nanos r) g"
    by (simp_all add: check_group_def bind_res_Inr_iff)
  have s: "set (map int [0..<20]) = int ` {..<20}" by (simp add: atLeast_upt lessThan_atLeast0 del: upt_rec_numeral)
  have "card (nr_sample ` set g) = length (map nr_sample g)" unfolding c(2) s using c(1) by (simp add: card_image)
  then have "distinct (map nr_sample g)" by (intro card_distinct) simp
  then show ?thesis using c s by simp
qed

lemma required_keys:
  "card ((\<lambda>((layout, base), operation, variant). (layout, base, operation, variant)) `
      set (List.product (List.product LAYOUTS BASE_STEPS) REQUIRED_VARIANTS)) = 864"
proof -
  have d: "distinct (List.product (List.product LAYOUTS BASE_STEPS) REQUIRED_VARIANTS)"
    by (intro distinct_product) (simp_all add: LAYOUTS_def BASE_STEPS_def REQUIRED_VARIANTS_def)
  have i: "inj_on (\<lambda>((layout, base), operation, variant). (layout, base, operation, variant)) A" for A :: "((string \<times> int) \<times> string \<times> string) set"
    by (auto simp: inj_on_def)
  show ?thesis unfolding card_image[OF i] distinct_card[OF d] by (simp add: LAYOUTS_def BASE_STEPS_def REQUIRED_VARIANTS_def)
qed

lemma nav_row_fields: "nav_row_of row = Inr r \<Longrightarrow> row_int row ''base_step'' = Inr (nr_base_step r) \<and> lookup_res row ''layout'' = Inr (nr_layout r)"
  by (auto simp: nav_row_of_def bind_res_Inr_iff)

lemma nav_rows_fields:
  "map_res nav_row_of rows = Inr parsed \<Longrightarrow> map_res (\<lambda>row. row_int row ''base_step'') rows = Inr (map nr_base_step parsed) \<and>
    map_res (\<lambda>row. lookup_res row ''layout'') rows = Inr (map nr_layout parsed)"
proof (induction rows arbitrary: parsed)
  case (Cons row rows)
  then obtain r ps where r: "nav_row_of row = Inr r" and ps: "map_res nav_row_of rows = Inr ps" and p: "parsed = r # ps"
    by (auto simp: bind_res_Inr_iff)
  show ?case using Cons.IH[OF ps] nav_row_fields[OF r] p by (simp del: lookup_res_iff)
qed simp

lemma accepted_cases:
  assumes "validate_navigation rows = Inr groups"
  obtains parsed us where "map_res nav_row_of rows = Inr parsed" "groups = fold add_row parsed []"
    "set (map nr_base_step parsed) = set BASE_STEPS" "set (map nr_layout parsed) = set LAYOUTS"
    "(\<lambda>kg. snd (snd (fst kg))) ` set groups = set REQUIRED_VARIANTS" "length groups = 864"
    "map_res check_group groups = Inr us"
proof -
  note a = assms[unfolded validate_navigation_def Let_def]
  obtain bases where b: "map_res (\<lambda>row. row_int row ''base_step'') rows = Inr bases" and a1: "set bases = set BASE_STEPS"
    using a by (auto simp: bind_res_Inr_iff simp del: set_map)
  obtain layouts where l: "map_res (\<lambda>row. lookup_res row ''layout'') rows = Inr layouts" and a2: "set layouts = set LAYOUTS"
    using a by (auto simp: bind_res_Inr_iff simp del: set_map)
  obtain parsed where p: "map_res nav_row_of rows = Inr parsed" using a by (auto simp: bind_res_Inr_iff simp del: set_map)
  obtain us where rest: "groups = fold add_row parsed []" "(\<lambda>kg. snd (snd (fst kg))) ` set groups = set REQUIRED_VARIANTS"
      "length groups = length LAYOUTS * length BASE_STEPS * length REQUIRED_VARIANTS" "map_res check_group groups = Inr us"
    using a p by (auto simp: bind_res_Inr_iff simp del: set_map)
  have "bases = map nr_base_step parsed" "layouts = map nr_layout parsed" using nav_rows_fields[OF p] b l by simp_all
  then show ?thesis using that[OF p rest(1) _ _ rest(2) _ rest(4)] a1 a2 rest(3)
    by (simp add: LAYOUTS_def BASE_STEPS_def REQUIRED_VARIANTS_def)
qed

text \<open>
  A report that is accepted has exactly one group for each of the 8 layouts, 6 base steps and 18 operation
  variants, and every group has each of the samples 0 to 19 exactly once, so the report has 17280 rows, none
  missing and none in excess; all durations are non-negative.
\<close>

theorem accepted_report_complete:
  assumes "validate_navigation rows = Inr groups"
  shows "fst ` set groups = (\<lambda>((layout, base), operation, variant). (layout, base, operation, variant)) `
      set (List.product (List.product LAYOUTS BASE_STEPS) REQUIRED_VARIANTS) \<and>
    distinct (map fst groups) \<and> length rows = 17280 \<and>
    list_all (\<lambda>(k, g). nr_sample ` set g = int ` {..<20} \<and> distinct (map nr_sample g) \<and> list_all (\<lambda>r. 0 \<le> nr_nanos r) g) groups"
proof -
  obtain parsed us where p: "map_res nav_row_of rows = Inr parsed" and g: "groups = fold add_row parsed []"
    and sets: "set (map nr_base_step parsed) = set BASE_STEPS" "set (map nr_layout parsed) = set LAYOUTS"
      "(\<lambda>kg. snd (snd (fst kg))) ` set groups = set REQUIRED_VARIANTS"
    and n: "length groups = 864" and c: "map_res check_group groups = Inr us"
    by (rule accepted_cases[OF assms])
  let ?all = "(\<lambda>((layout, base), operation, variant). (layout, base, operation, variant)) `
      set (List.product (List.product LAYOUTS BASE_STEPS) REQUIRED_VARIANTS)"
  have d: "distinct (map fst groups)" and own: "\<forall>kg \<in> set groups. own_rows kg"
    and total: "sum_list (map (length \<circ> snd) groups) = length parsed" using groups_of[of parsed] g by simp_all
  have keys: "fst ` set groups = group_key_of ` set parsed" using add_row_keys g by simp
  have sub: "fst ` set groups \<subseteq> ?all"
  proof
    fix k
    assume k: "k \<in> fst ` set groups"
    obtain r where r: "r \<in> set parsed" "k = group_key_of r" using k keys by auto
    have "nr_base_step r \<in> set BASE_STEPS" "nr_layout r \<in> set LAYOUTS" using sets(1,2) r(1) by auto
    moreover have "snd (snd k) \<in> set REQUIRED_VARIANTS" using sets(3) k by auto
    ultimately show "k \<in> ?all" using r(2) by (force simp: group_key_of_def)
  qed
  have "card (fst ` set groups) = 864" using d n by (metis distinct_card length_map list.set_map)
  then have "fst ` set groups = ?all" using sub required_keys by (intro card_subset_eq) auto
  moreover have "length rows = 17280"
  proof -
    have "map (length \<circ> snd) groups = map (\<lambda>_. 20) groups" (is "?m = _") using check_groups[OF c] by (intro map_cong) auto
    then have "sum_list ?m = sum_list (map (\<lambda>_. 20) groups)" by (rule arg_cong)
    then have "sum_list ?m = 20 * length groups" by (simp add: sum_list_triv)
    then show ?thesis using total n map_res_length[OF p] by simp
  qed
  moreover have "list_all (\<lambda>(k, g). nr_sample ` set g = int ` {..<20} \<and> distinct (map nr_sample g) \<and> list_all (\<lambda>r. 0 \<le> nr_nanos r) g) groups"
    unfolding list_all_iff using check_groups[OF c] by (intro ballI, clarify) (simp add: list_all_iff)
  ultimately show ?thesis using d by blast
qed

section \<open>A complete report is accepted\<close>

definition all_keys :: "group_key list" where
  "all_keys = map (\<lambda>((layout, base), operation, variant). (layout, base, operation, variant))
     (List.product (List.product LAYOUTS BASE_STEPS) REQUIRED_VARIANTS)"

definition plain_row :: "group_key \<Rightarrow> nat \<Rightarrow> nav_row" where
  "plain_row k i = \<lparr>nr_layout = fst k, nr_base_step = fst (snd k), nr_operation = fst (snd (snd k)), nr_variant = snd (snd (snd k)),
     nr_sample = int i, nr_nanos = 5, nr_file_bytes = 7, nr_header_bytes = 4, nr_padding_bytes = 2, nr_payload_bytes = 1,
     nr_block_count = 1, nr_nano_bytes = 3, nr_checkpoint_bytes = 0, nr_directory_bytes = 0\<rparr>"

definition raw_of :: "nav_row \<Rightarrow> raw_row" where
  "raw_of r = [(''layout'', nr_layout r), (''base_step'', show_int (nr_base_step r)), (''operation'', nr_operation r),
     (''variant'', nr_variant r), (''sample'', show_int (nr_sample r)), (''nanos'', show_int (nr_nanos r)),
     (''file_bytes'', show_int (nr_file_bytes r)), (''header_bytes'', show_int (nr_header_bytes r)),
     (''padding_bytes'', show_int (nr_padding_bytes r)), (''payload_bytes'', show_int (nr_payload_bytes r)),
     (''block_count'', show_int (nr_block_count r)), (''nano_bytes'', show_int (nr_nano_bytes r)),
     (''checkpoint_bytes'', show_int (nr_checkpoint_bytes r)), (''directory_bytes'', show_int (nr_directory_bytes r))]"

definition plain_report :: "nav_row list" where
  "plain_report = concat (map (\<lambda>k. map (plain_row k) [0..<20]) all_keys)"

lemma nav_row_raw: "nav_row_of (raw_of r) = Inr r"
  by (simp add: nav_row_of_def row_int_def raw_of_def lookup_res_def parse_show_int)

lemma update_append: "k \<notin> fst ` set d \<Longrightarrow> AList.update k v (d @ e) = d @ AList.update k v e"
  by (induction d) auto

lemma map_of_append_none: "k \<notin> fst ` set d \<Longrightarrow> map_of (d @ e) k = map_of e k"
  by (induction d) auto

lemma fold_add_block:
  assumes "k \<notin> fst ` set d" "\<forall>r \<in> set rs. group_key_of r = k" "rs \<noteq> []"
  shows "fold add_row rs d = d @ [(k, rs)]"
  using assms(2,3)
proof (induction rs rule: rev_induct)
  case (snoc r rs)
  have k: "group_key_of r = k" using snoc.prems by simp
  show ?case
  proof (cases "rs = []")
    case True
    then show ?thesis using assms(1) k by (simp add: add_row_def get_default_def update_append[of k d _ "[]", simplified] map_of_append_none[of k d "[]", simplified])
  next
    case False
    then have "fold add_row (rs @ [r]) d = add_row r (d @ [(k, rs)])" using snoc by simp
    also have "\<dots> = d @ [(k, rs @ [r])]"
    proof -
      have "map_of (d @ [(k, rs)]) k = Some rs" using map_of_append_none[OF assms(1), of "[(k, rs)]"] by (simp del: map_of_append)
      moreover have "AList.update k v (d @ [(k, rs)]) = d @ [(k, v)]" for v using update_append[OF assms(1), of v "[(k, rs)]"] by simp
      ultimately show ?thesis by (simp only: add_row_def k get_default_def option.case)
    qed
    finally show ?thesis .
  qed
qed simp

lemma fold_add_blocks:
  assumes "distinct ks" "\<forall>k \<in> set ks. f k \<noteq> [] \<and> (\<forall>r \<in> set (f k). group_key_of r = k)" "set ks \<inter> fst ` set d = {}"
  shows "fold add_row (concat (map f ks)) d = d @ map (\<lambda>k. (k, f k)) ks"
  using assms
proof (induction ks arbitrary: d)
  case (Cons k ks)
  have "fold add_row (f k) d = d @ [(k, f k)]" using Cons.prems by (intro fold_add_block) auto
  then show ?case using Cons.IH[of "d @ [(k, f k)]"] Cons.prems by auto
qed simp

lemma distinct_keys: "distinct all_keys" "length all_keys = 864"
proof -
  show l: "length all_keys = 864" by (simp add: all_keys_def LAYOUTS_def BASE_STEPS_def REQUIRED_VARIANTS_def)
  have "set all_keys = (\<lambda>((layout, base), operation, variant). (layout, base, operation, variant)) `
      set (List.product (List.product LAYOUTS BASE_STEPS) REQUIRED_VARIANTS)" by (simp only: all_keys_def set_map)
  then show "distinct all_keys" using required_keys l by (intro card_distinct) simp
qed

lemma key_set: "set all_keys = (\<lambda>x. (fst (fst x), snd (fst x), snd x)) ` ((set LAYOUTS \<times> set BASE_STEPS) \<times> set REQUIRED_VARIANTS)"
  unfolding all_keys_def set_map set_product by (rule image_cong) auto

lemma key_parts:
  "(\<lambda>k. fst k) ` set all_keys = set LAYOUTS" "(\<lambda>k. fst (snd k)) ` set all_keys = set BASE_STEPS"
  "(\<lambda>k. snd (snd k)) ` set all_keys = set REQUIRED_VARIANTS"
proof -
  have ne: "set LAYOUTS \<noteq> {}" "set BASE_STEPS \<noteq> {}" "set REQUIRED_VARIANTS \<noteq> {}"
    by (simp_all add: LAYOUTS_def BASE_STEPS_def REQUIRED_VARIANTS_def)
  have "(\<lambda>x. fst (fst x)) ` ((set LAYOUTS \<times> set BASE_STEPS) \<times> set REQUIRED_VARIANTS) = fst ` fst ` ((set LAYOUTS \<times> set BASE_STEPS) \<times> set REQUIRED_VARIANTS)"
    by (simp only: image_image)
  also have "\<dots> = set LAYOUTS" using ne by (simp add: fst_image_times)
  finally show "(\<lambda>k. fst k) ` set all_keys = set LAYOUTS"
    unfolding key_set image_image by (simp only: fst_conv)
  have "(\<lambda>x. snd (fst x)) ` ((set LAYOUTS \<times> set BASE_STEPS) \<times> set REQUIRED_VARIANTS) = snd ` fst ` ((set LAYOUTS \<times> set BASE_STEPS) \<times> set REQUIRED_VARIANTS)"
    by (simp only: image_image)
  also have "\<dots> = set BASE_STEPS" using ne by (simp add: fst_image_times snd_image_times)
  finally show "(\<lambda>k. fst (snd k)) ` set all_keys = set BASE_STEPS"
    unfolding key_set image_image by (simp only: fst_conv snd_conv)
  show "(\<lambda>k. snd (snd k)) ` set all_keys = set REQUIRED_VARIANTS"
    unfolding key_set image_image using ne by (simp add: snd_image_times)
qed

lemma some_key:
  assumes "l \<in> set LAYOUTS" "b \<in> set BASE_STEPS"
  shows "\<exists>k \<in> set all_keys. fst k = l \<and> fst (snd k) = b"
proof -
  have v: "hd REQUIRED_VARIANTS \<in> set REQUIRED_VARIANTS" by (simp add: REQUIRED_VARIANTS_def)
  have "(l, b, hd REQUIRED_VARIANTS) \<in> set all_keys"
    unfolding key_set by (rule image_eqI[of _ _ "((l, b), hd REQUIRED_VARIANTS)"]) (use assms v in simp_all)
  then show ?thesis by force
qed

lemma plain_own: "\<forall>k \<in> set all_keys. map (plain_row k) [0..<20] \<noteq> [] \<and> (\<forall>r \<in> set (map (plain_row k) [0..<20]). group_key_of r = k)"
  by (simp add: group_key_of_def plain_row_def ball_conj_distrib del: upt_rec_numeral split_paired_All)

lemma plain_groups: "fold add_row plain_report [] = map (\<lambda>k. (k, map (plain_row k) [0..<20])) all_keys"
  unfolding plain_report_def using fold_add_blocks[OF distinct_keys(1) plain_own, of "[]"] by (simp del: upt_rec_numeral)

lemma plain_fields: "nr_base_step ` set plain_report = set BASE_STEPS" "nr_layout ` set plain_report = set LAYOUTS" "plain_report \<noteq> []"
proof -
  have s: "set plain_report = (\<Union>k \<in> set all_keys. plain_row k ` {0..<20})" by (auto simp: plain_report_def simp del: upt_rec_numeral split_paired_Ex)
  have i: "f ` (\<Union>k \<in> set all_keys. plain_row k ` {0..<20 :: nat}) = g ` set all_keys" if "\<And>k i. f (plain_row k i) = g k" for f :: "nav_row \<Rightarrow> 'a" and g
  proof -
    have "f ` (\<Union>k \<in> set all_keys. plain_row k ` {0..<20 :: nat}) = (\<Union>k \<in> set all_keys. g ` (\<lambda>_. k) ` {0..<20 :: nat})"
      unfolding image_UN image_image that ..
    also have "\<dots> = g ` set all_keys" by (auto simp: image_constant_conv simp del: split_paired_All split_paired_Ex)
    finally show ?thesis .
  qed
  show "nr_base_step ` set plain_report = set BASE_STEPS" unfolding s using i[of nr_base_step "\<lambda>k. fst (snd k)"] key_parts(2) by (simp add: plain_row_def)
  show "nr_layout ` set plain_report = set LAYOUTS" unfolding s using i[of nr_layout fst] key_parts(1) by (simp add: plain_row_def)
  show "plain_report \<noteq> []"   proof -
    have "all_keys \<noteq> []" using distinct_keys(2) by (metis list.size(3) zero_neq_numeral)
    then show ?thesis by (simp add: plain_report_def upt_rec neq_Nil_conv del: split_paired_Ex)
  qed
qed

lemma plain_checks: "map_res check_group (map (\<lambda>k. (k, map (plain_row k) [0..<20])) ks) = Inr (map (\<lambda>_. ()) ks)"
proof -
  have "check_group (k, map (plain_row k) [0..<20]) = Inr ()" for k
    by (simp add: check_group_def plain_row_def list_all_iff image_image del: upt_rec_numeral)
  then show ?thesis by (induction ks) simp_all
qed

lemma plain_metadata:
  assumes "l \<in> set LAYOUTS" "b \<in> set BASE_STEPS"
  shows "check_metadata (map (\<lambda>k. (k, map (plain_row k) [0..<20])) all_keys) (l, b) = Inr ()"
proof -
  let ?m = "metadata_rows (map (\<lambda>k. (k, map (plain_row k) [0..<20])) all_keys) l b"
  have all: "\<exists>k. r = plain_row k 0" if "r \<in> set ?m" for r
    using that by (auto simp: metadata_rows_def upt_rec split: if_splits)
  have ne: "?m \<noteq> []" using some_key[OF assms] by (auto simp: metadata_rows_def upt_rec)
  have one: "single f ?m" if "\<And>k. f (plain_row k 0) = c" for f c
  proof -
    have "f ` set ?m = (\<lambda>_. c) ` set ?m" proof (intro image_cong refl)
      fix r
      assume "r \<in> set ?m"
      then obtain k where "r = plain_row k 0" using all by blast
      then show "f r = c" using that[of k] by (simp only:)
    qed
    then have "f ` set ?m = {c}" using ne by (simp add: image_constant_conv)
    then show ?thesis by (simp add: single_def)
  qed
  have "list_all (\<lambda>r. nr_file_bytes r = nr_header_bytes r + nr_padding_bytes r + nr_payload_bytes r) ?m"
    unfolding list_all_iff using all by (force simp: plain_row_def)
  then show ?thesis
    by (simp add: check_metadata_def Let_def one[where c = 1] one[where c = 4] one[where c = 2] plain_row_def)
qed

lemma plain_accepted: "validate_navigation (map raw_of plain_report) = Inr (map (\<lambda>k. (k, map (plain_row k) [0..<20])) all_keys)"
proof -
  have p: "map_res nav_row_of (map raw_of rs) = Inr rs" for rs by (induction rs) (simp_all add: nav_row_raw)
  have meta: "map_res (check_metadata (map (\<lambda>k. (k, map (plain_row k) [0..<20])) all_keys)) lbs = Inr (map (\<lambda>_. ()) lbs)"
    if "set lbs \<subseteq> set LAYOUTS \<times> set BASE_STEPS" for lbs using that plain_metadata by (induction lbs) auto
  have v: "(\<lambda>kg. snd (snd (fst kg))) ` (\<lambda>k. (k, map (plain_row k) [0..<20])) ` set all_keys = set REQUIRED_VARIANTS"
    using key_parts(3) by (simp only: image_image fst_conv)
  have n: "864 = length LAYOUTS * length BASE_STEPS * length REQUIRED_VARIANTS" by (simp add: LAYOUTS_def BASE_STEPS_def REQUIRED_VARIANTS_def)
  show ?thesis unfolding validate_navigation_def
    using nav_rows_fields[OF p, of plain_report] plain_fields meta[of "List.product LAYOUTS BASE_STEPS"] n distinct_keys(2)
    by (simp only: p plain_groups plain_checks Let_def bind_res_simps require_simps set_map v length_map set_product subset_refl map_is_Nil_conv simp_thms)
qed

theorem accepted_report_complete_witness:
  "length (map raw_of plain_report) = 17280 \<and>
   distinct (map fst (map (\<lambda>k. (k, map (plain_row k) [0..<20])) all_keys))"
  using accepted_report_complete[OF plain_accepted] by blast

end
