(* ===== verification/Planner26.thy ===== *)
theory Planner26
  imports Manifest18 Wire_Format
begin

text \<open>
  The placement planner of \<open>scripts/qualify_step26_qwen32b.py\<close>: the requests of an artifact, the block
  layout for a base step, its locality metrics, and the Pareto selection of the base shift.

  \<open>render\<close> is \<open>str\<close> of a metadata float or list, \<open>fdiv\<close> the float division of two integers, of
  which only the order is used.  The percentages and densities that are only reported are left out.
\<close>

section \<open>Tables\<close>

definition METADATA_IDS :: "(string \<times> int) list" where
  "METADATA_IDS = [(''Architecture'', 1), (''ContextLength'', 2), (''EmbeddingLength'', 3), (''LayerCount'', 4),
     (''HeadCount'', 5), (''FeedForwardLength'', 6), (''NormalizationEpsilon'', 7), (''RopeTheta'', 8),
     (''KVHeadCount'', 9), (''KeyHeadDimension'', 10), (''ValueHeadDimension'', 11)]"

definition ROLE_IDS :: "(string \<times> int) list" where
  "ROLE_IDS = [(''TokenTextBytes'', 1), (''TokenOffsets'', 2), (''TokenScores'', 3), (''TokenTypes'', 4),
     (''BosId'', 5), (''EosId'', 6), (''UnkId'', 7), (''PadId'', 8), (''MergeLeftIds'', 9), (''MergeRightIds'', 10),
     (''TokenizerModelIdentity'', 11), (''PreTokenizerIdentity'', 12), (''AddBos'', 13), (''ChatTemplate'', 14)]"

definition align26 :: "int \<Rightarrow> int \<Rightarrow> int" where
  "align26 value step = (value + step - 1) div step * step"

section \<open>Sizes and requests\<close>

definition directory_bytes :: "json list \<Rightarrow> int res" where
  "directory_bytes plans = bind_res (map_res (\<lambda>row. bind_res (jget_str row ''target_name'') (\<lambda>name.
     bind_res (jget_list row ''source_shape'') (\<lambda>shape. Inr (10 + int (length name) + 8 * int (length shape))))) plans) (\<lambda>ns.
     Inr (20 + sum_list ns))"

definition json_str :: "(json \<Rightarrow> string) \<Rightarrow> json \<Rightarrow> string" where
  "json_str jrender v = (case v of JStr s \<Rightarrow> s | JInt n \<Rightarrow> show_int n | JBool b \<Rightarrow> if b then ''True'' else ''False''
     | JNull \<Rightarrow> ''None'' | _ \<Rightarrow> jrender v)"

definition metadata_value :: "(json \<Rightarrow> string) \<Rightarrow> json \<Rightarrow> (int \<times> string \<times> string) res" where
  "metadata_value jrender row = bind_res (jget_str row ''target'') (\<lambda>target. bind_res (jget row ''source_value'') (\<lambda>v.
     Inr (if target = ''Architecture'' then (int (length (json_str jrender v)), ''opaque'', target)
          else (8, if target \<in> {''NormalizationEpsilon'', ''RopeTheta''} then ''float'' else ''u64'', target))))"

definition metadata_bytes :: "(meta_value \<Rightarrow> string) \<Rightarrow> (json \<Rightarrow> string) \<Rightarrow> artifact \<Rightarrow> (int \<times> (int \<times> string \<times> string) list) res" where
  "metadata_bytes render jrender a = bind_res (map_res (\<lambda>row. bind_res (jget_str row ''target'') (\<lambda>t. Inr (t, row))) (metadata_plan render a)) (\<lambda>rows.
     let rows = map snd (filter (\<lambda>(t, _). map_of METADATA_IDS t \<noteq> None) rows) in
     bind_res (map_res (metadata_value jrender) rows) (\<lambda>values. Inr (16 + 8 * int (length rows), values)))"

definition manifest26_document :: "artifact \<Rightarrow> string \<Rightarrow> string \<Rightarrow> json list \<Rightarrow> json list \<Rightarrow> json \<Rightarrow> json list \<Rightarrow> json list \<Rightarrow> bool \<Rightarrow> bool \<Rightarrow> json" where
  "manifest26_document a path filename metadata tokenizer conversion directory plans has_output has_embedding =
     JObj [(''manifest_version'', JInt 1), (''source_identity'', JObj [(''path'', JStr path), (''filename'',
     JStr filename), (''size'', JInt (ar_size a)), (''sha256'', JStr (ar_sha256 a)), (''gguf_version'', JInt
     (ar_version a)), (''architecture'', JStr ''qwen3''), (''metadata_kv_count'', JInt (ar_metadata_count
     a)), (''tensor_count'', JInt (ar_tensor_count a))]), (''consumer_revision'', JObj [(''repository'', JStr
     ''https://github.com/ggml-org/llama.cpp.git''), (''commit'', JStr PINNED_COMMIT)]),
     (''profile_version'', JStr ''vbuf-ml-0.1''), (''conversion_options'', JObj [(''placement'', JStr
     PLACEMENT), (''base_shift'', JInt 3), (''integrity'', JObj [(''enabled'', JBool False), (''algorithm'',
     JStr ''SHA-256''), (''coverage'', JStr ''payload bytes'')])]), (''control_plan'', control_plan),
     (''model_metadata_plan'', JArr metadata), (''tokenizer_plan'', JArr tokenizer),
     (''tokenizer_conversion_plan'', conversion), (''tensor_directory_plan'', JArr directory),
     (''tensor_plans'', JArr plans), (''shared_reference_plan'', JNull), (''output_decision'', JObj
     [(''source_descriptors_distinct'', JBool (has_output \<and> has_embedding)), (''action'', JStr (if
     has_output then ''COPY_BYTES independently'' else ''ABSENT''))]), (''placement_plan'', JObj
     [(''policy'', JStr PLACEMENT), (''target_order_is_non_normative'', JBool True)]), (''accounting'', JObj
     [(''source_tensors'', JInt (int (length plans))), (''copy_bytes'', JInt (int (length plans))),
     (''shared_reference'', JInt 0), (''derived'', JInt (int (length CONTROL_KEY_IDS) - 1)), (''reject'',
     JInt 0), (''unaccounted'', JInt 0)]), (''validation'', JObj [(''manifest_structurally_valid'', JBool
     True), (''conversion_readiness'', str_list [''READY_FOR_CONVERSION'']),
     (''raw_inference_tokenizer_readiness'', JStr ''READY''), (''chat_template_readiness'', JStr
     ''READY_FOR_CONSUMER_EXECUTION''), (''metadata_blockers'', JArr []), (''tokenizer_blockers'', JArr [])])]"

definition build_manifest26 :: "(meta_value \<Rightarrow> string) \<Rightarrow> string \<Rightarrow> string \<Rightarrow> artifact \<Rightarrow> json res" where
  "build_manifest26 render path filename a =
     bind_res (tensor_plans a (placement_for_artifact render a)) (\<lambda>plans.
     let metadata = metadata_plan render a; tokenizer = tokenizer_plan a in
     bind_res (tokenizer_conversion_plan render a) (\<lambda>conversion.
     let by_name = sources_by_name a in
     bind_res (name_order plans) (\<lambda>by_target.
     bind_res (map_res directory_row (List.enumerate 0 by_target)) (\<lambda>directory.
     let manifest = manifest26_document a path filename metadata tokenizer conversion directory plans
       (map_of by_name ''output.weight'' \<noteq> None) (map_of by_name ''token_embd.weight'' \<noteq> None) in
     bind_res (validate_manifest manifest a) (\<lambda>_. Inr manifest)))))"

record request =
  rq_name :: string
  rq_class :: int
  rq_order :: int
  rq_payload :: int
  rq_group :: string
  rq_layer :: "int option"

definition control :: "string \<Rightarrow> int \<Rightarrow> int \<Rightarrow> int \<Rightarrow> request" where
  "control name class order payload = \<lparr>rq_name = name, rq_class = class, rq_order = order, rq_payload = payload,
     rq_group = ''control'', rq_layer = None\<rparr>"

definition tokenizer_request :: "string \<times> int \<times> int \<Rightarrow> request" where
  "tokenizer_request = (\<lambda>(name, order, size). \<lparr>rq_name = name, rq_class = 4, rq_order = order, rq_payload = size,
     rq_group = ''tokenizer'', rq_layer = None\<rparr>)"

definition tensor_request :: "json \<Rightarrow> request res" where
  "tensor_request p = bind_res (jget_str p ''target_name'') (\<lambda>name. bind_res (jget_int p ''target_order'') (\<lambda>order.
     bind_res (jget_int p ''source_payload_bytes'') (\<lambda>payload. bind_res (jget p ''layer'') (\<lambda>layer.
     Inr \<lparr>rq_name = name, rq_class = 5, rq_order = 1000000 + order, rq_payload = payload, rq_group = ''tensor'',
          rq_layer = (case layer of JInt l \<Rightarrow> Some l | _ \<Rightarrow> None)\<rparr>))))"

definition meta_length :: "artifact \<Rightarrow> string \<Rightarrow> int res" where
  "meta_length a k = bind_res (lookup_res (ar_metadata a) k) (\<lambda>v. case v of MArr vs \<Rightarrow> Inr (int (length vs))
     | MStr s \<Rightarrow> Inr (utf8_length s) | _ \<Rightarrow> Inl TypeError)"

definition encoded_length :: "meta_value \<Rightarrow> int res" where
  "encoded_length v = (case v of MStr s \<Rightarrow> Inr (int (length s)) | _ \<Rightarrow> Inl AttributeError)"

definition text_bytes_of :: "meta_value \<Rightarrow> int res" where
  "text_bytes_of v = (case v of MArr ts \<Rightarrow> bind_res (map_res encoded_length ts) (\<lambda>ns. Inr (sum_list ns))
     | MStr s \<Rightarrow> Inr (int (length s)) | _ \<Rightarrow> Inl TypeError)"

definition requests26 :: "(meta_value \<Rightarrow> string) \<Rightarrow> (json \<Rightarrow> string) \<Rightarrow> artifact \<Rightarrow> json \<Rightarrow> request list res" where
  "requests26 render jrender a manifest =
     bind_res (lookup_res (ar_metadata a) ''tokenizer.ggml.tokens'') (\<lambda>tokens.
     bind_res (metadata_bytes render jrender a) (\<lambda>(md_control, md_values).
     bind_res (jget_list manifest ''tensor_plans'') (\<lambda>plans.
     bind_res (map_res (\<lambda>(n, _, target). bind_res (lookup_res METADATA_IDS target) (\<lambda>i.
        Inr (control (''Metadata.'' @ target) 1 (100 + i) n))) md_values) (\<lambda>metas.
     bind_res (directory_bytes plans) (\<lambda>directory.
     bind_res (text_bytes_of tokens) (\<lambda>text_bytes.
     bind_res (meta_length a ''tokenizer.ggml.tokens'') (\<lambda>token_count.
     bind_res (meta_length a ''tokenizer.ggml.token_type'') (\<lambda>type_count.
     bind_res (meta_length a ''tokenizer.ggml.merges'') (\<lambda>merge_count.
     bind_res (lookup_res (ar_metadata a) ''tokenizer.chat_template'') (\<lambda>template. bind_res (encoded_length template) (\<lambda>chat.
     let tok_entries = 8 + 1 + 3;
         payloads = [(''TokenTextBytes'', 200, text_bytes), (''TokenOffsets'', 201, 8 * (token_count + 1)),
           (''TokenTypes'', 202, 4 * type_count), (''MergeLeftIds'', 203, 4 * merge_count), (''MergeRightIds'', 204, 4 * merge_count),
           (''TokenizerModelIdentity'', 205, 1), (''PreTokenizerIdentity'', 206, 1), (''AddBos'', 207, 1), (''ChatTemplate'', 208, chat)] in
     bind_res (map_res (\<lambda>role. bind_res (lookup_res ROLE_IDS role) (\<lambda>i. Inr (''Special.'' @ role, 220 + i, 8)))
       [''BosId'', ''EosId'', ''PadId'']) (\<lambda>specials.
     bind_res (map_res tensor_request plans) (\<lambda>tensors.
     Inr (sort_key (\<lambda>e. (rq_class e, rq_order e))
       ([control ''Bootstrap'' 0 0 (16 + 16 * 3), control ''ModelMetadataControl'' 1 1 md_control] @ metas @
        [control ''TensorDirectory'' 2 2 directory, control ''TokenizerControl'' 3 3 (20 + 12 * tok_entries)] @
        map tokenizer_request (payloads @ specials) @ tensors)))))))))))))))"

section \<open>Block layout\<close>

record placed = request +
  pl_index :: nat
  pl_block_start :: int
  pl_payload_start :: int
  pl_payload_end :: int
  pl_block_padding :: int
  pl_header_bytes :: int
  pl_inner_padding :: int
  pl_extended :: bool

definition place_entry :: "int \<Rightarrow> int \<Rightarrow> nat \<Rightarrow> request \<Rightarrow> placed" where
  "place_entry step cursor i e = (let
       block_start = align26 cursor step; extended = (rq_payload e > 65535); header = (if extended then 16 else 8);
       payload_start = align26 (block_start + header) step in
     request.extend e (placed.fields i block_start payload_start (payload_start + rq_payload e) (block_start - cursor) header
       (payload_start - (block_start + header)) extended))"

fun place_entries :: "int \<Rightarrow> int \<Rightarrow> nat \<Rightarrow> request list \<Rightarrow> placed list" where
  "place_entries step cursor i [] = []"
| "place_entries step cursor i (e # es) = (let r = place_entry step cursor i e in r # place_entries step (pl_payload_end r) (Suc i) es)"

definition final_cursor :: "int \<Rightarrow> placed list \<Rightarrow> int" where
  "final_cursor cursor rows = (if rows = [] then cursor else pl_payload_end (last rows))"

definition by_layer :: "placed list \<Rightarrow> (int \<times> placed list) list" where
  "by_layer rows = fold (\<lambda>r d. case rq_layer r of
       Some l \<Rightarrow> if rq_group r = ''tensor'' then AList.update l (get_default d l [] @ [r]) d else d | None \<Rightarrow> d) rows []"

definition gaps_of :: "placed list \<Rightarrow> int list" where
  "gaps_of rs = filter (\<lambda>g. g \<noteq> 0) (map (\<lambda>(x, y). pl_block_start y - pl_payload_end x) (zip rs (tl rs)))"

definition layer_metric :: "int \<times> placed list \<Rightarrow> int \<times> int \<times> int \<times> int" where
  "layer_metric = (\<lambda>(layer, rs). (layer, 1 + int (length (gaps_of rs)), pl_payload_end (last rs) - pl_block_start (hd rs),
     \<Sum>r\<leftarrow>rs. rq_payload r))"

text \<open>The coalescing loop: the runs closed so far, the bytes they cover, and the open run.\<close>

fun coalesce :: "int \<Rightarrow> int \<Rightarrow> (int \<times> int) option \<Rightarrow> placed list \<Rightarrow> int \<times> int" where
  "coalesce runs covered_bytes open_run [] = (runs, case open_run of None \<Rightarrow> covered_bytes | Some (s, e) \<Rightarrow> covered_bytes + (e - s))"
| "coalesce runs covered_bytes None (r # rs) = coalesce (runs + 1) covered_bytes (Some (pl_block_start r, pl_payload_end r)) rs"
| "coalesce runs covered_bytes (Some (s, e)) (r # rs) = (if pl_block_start r \<noteq> e
     then coalesce (runs + 1) (covered_bytes + (e - s)) (Some (pl_block_start r, pl_payload_end r)) rs
     else coalesce runs covered_bytes (Some (s, pl_payload_end r)) rs)"

record candidate =
  cd_base_shift :: int
  cd_base_step :: int
  cd_entries :: "placed list"
  cd_final_size :: int
  cd_data_start :: int
  cd_payload_bytes :: int
  cd_control_bytes :: int
  cd_header_bytes :: int
  cd_padding_bytes :: int
  cd_nano_slots :: int
  cd_nano_bytes :: int
  cd_layer_count :: int
  cd_layer_spans :: int
  cd_max_spans :: int
  cd_gap_bytes :: int
  cd_max_gap :: int
  cd_coalesced :: int
  cd_useful :: int
  cd_covered :: int
  cd_tensor_count :: int
  cd_layer_metrics :: "(int \<times> int \<times> int \<times> int) list"

definition plan_candidate :: "request list \<Rightarrow> nat \<Rightarrow> candidate res" where
  "plan_candidate entries base_shift = (let
       step = push_bit base_shift 1; data_start = align26 24 step; rows = place_entries step data_start 0 entries;
       final_size = final_cursor data_start rows; payload = (\<Sum>r\<leftarrow>rows. rq_payload r); headers = (\<Sum>r\<leftarrow>rows. pl_header_bytes r);
       layers = sort_key fst (by_layer rows); metrics = map layer_metric layers; gaps = concat (map (\<lambda>(_, rs). gaps_of rs) layers);
       (runs, covered_bytes) = coalesce 0 0 None rows;
       slots = (final_size - data_start + step - 1) div step in
     case map (\<lambda>(_, n, _). n) metrics of [] \<Rightarrow> Inl (ValueError ''max of an empty sequence'') | n # ns \<Rightarrow>
     Inr \<lparr>cd_base_shift = int base_shift, cd_base_step = step, cd_entries = rows, cd_final_size = final_size,
       cd_data_start = data_start, cd_payload_bytes = payload,
       cd_control_bytes = (\<Sum>r\<leftarrow>filter (\<lambda>r. rq_group r \<noteq> ''tensor'') rows. rq_payload r), cd_header_bytes = headers,
       cd_padding_bytes = final_size - 24 - payload - headers, cd_nano_slots = slots, cd_nano_bytes = (slots + 7) div 8,
       cd_layer_count = int (length metrics), cd_layer_spans = sum_list (n # ns), cd_max_spans = fold max ns n,
       cd_gap_bytes = sum_list gaps, cd_max_gap = (case gaps of [] \<Rightarrow> 0 | g # gs \<Rightarrow> fold max gs g), cd_coalesced = runs,
       cd_useful = payload, cd_covered = covered_bytes, cd_tensor_count = int (length (filter (\<lambda>r. rq_group r = ''tensor'') rows)),
       cd_layer_metrics = metrics\<rparr>)"

section \<open>Selection\<close>

definition criteria :: "(int \<Rightarrow> int \<Rightarrow> 'q :: linorder) \<Rightarrow> candidate \<Rightarrow> int list \<times> 'q" where
  "criteria fdiv c = ([cd_final_size c, cd_padding_bytes c, cd_nano_bytes c, cd_layer_spans c],
     fdiv (cd_covered c) (max 1 (cd_useful c)))"

definition dominates :: "(int \<Rightarrow> int \<Rightarrow> 'q :: linorder) \<Rightarrow> candidate \<Rightarrow> candidate \<Rightarrow> bool" where
  "dominates fdiv b a = (let (bs, bq) = criteria fdiv b; (as, aq) = criteria fdiv a in
     (list_all2 (\<le>) bs as \<and> bq \<le> aq) \<and> (list_ex (\<lambda>(x, y). x < y) (zip bs as) \<or> bq < aq))"

definition pareto :: "(int \<Rightarrow> int \<Rightarrow> 'q :: linorder) \<Rightarrow> candidate list \<Rightarrow> int list" where
  "pareto fdiv candidates =
     map cd_base_shift (filter (\<lambda>a. \<not> list_ex (\<lambda>b. dominates fdiv b a) candidates) candidates)"

definition select_candidate :: "(int \<Rightarrow> int \<Rightarrow> 'q :: linorder) \<Rightarrow> candidate list \<Rightarrow> candidate res" where
  "select_candidate fdiv candidates = (case filter (\<lambda>c. cd_base_shift c \<in> set (pareto fdiv candidates)) candidates of
       [] \<Rightarrow> Inl (ValueError ''min of an empty sequence'')
     | c # cs \<Rightarrow> Inr (arg_min_list (\<lambda>c. (cd_final_size c, cd_padding_bytes c, cd_base_step c)) (c # cs)))"

text \<open>The gates of \<open>main\<close> before planning, and the planning itself.\<close>

definition qualify_geometry :: "(meta_value \<Rightarrow> string) \<Rightarrow> artifact \<Rightarrow> unit res" where
  "qualify_geometry render a =
     (if map_of (ar_metadata a) ''general.architecture'' \<noteq> Some (MStr ''qwen3'') then Inl (SystemExit ''not dense Qwen3'') else
      if (case map_of (ar_metadata a) ''general.type'' of None \<Rightarrow> ''None'' | Some v \<Rightarrow> py_str render v) \<noteq> ''model''
      then Inl (SystemExit ''unexpected model type'') else
      let layers = layer_count a;
          ids = sort (remdups (concat (map (\<lambda>t. case tn_layer t of None \<Rightarrow> [] | Some l \<Rightarrow> [l]) (ar_tensors a)))) in
      if layers \<noteq> Some 64 \<or> ids \<noteq> [0..63] then Inl (SystemExit ''unexpected layer geometry'') else
      if list_ex (\<lambda>t. tn_group t = ''Unknown'' \<or> tn_type_name t \<notin> {''Q8_0'', ''F32''}) (ar_tensors a)
      then Inl (SystemExit ''unknown tensor classification/representation'') else Inr ())"

definition plan_all :: "(int \<Rightarrow> int \<Rightarrow> 'q :: linorder) \<Rightarrow> request list \<Rightarrow> (candidate \<times> candidate list) res" where
  "plan_all fdiv entries = bind_res (map_res (plan_candidate entries) [3..<9]) (\<lambda>candidates.
     bind_res (select_candidate fdiv candidates) (\<lambda>selected. Inr (selected, candidates)))"

definition placement_entry :: "placed \<Rightarrow> json" where
  "placement_entry r = JObj [(''name'', JStr (rq_name r)), (''class'', JInt (rq_class r)), (''order'', JInt (rq_order r)),
     (''block_start'', JInt (pl_block_start r)), (''payload_start'', JInt (pl_payload_start r)), (''payload_end'', JInt (pl_payload_end r)),
     (''payload'', JInt (rq_payload r)), (''block_padding'', JInt (pl_block_padding r)), (''inner_padding'', JInt (pl_inner_padding r))]"

definition placement_plan_of :: "candidate \<Rightarrow> json" where
  "placement_plan_of selected = JObj [(''policy'', JStr PLACEMENT), (''base_shift'', JInt (cd_base_shift selected)),
     (''base_step'', JInt (cd_base_step selected)), (''final_size'', JInt (cd_final_size selected)),
     (''entries'', JArr (map placement_entry (cd_entries selected)))]"


section \<open>Layout lemmas\<close>

interpretation plan_al: aligner align26 "\<lambda>a. 0 < a"
  by unfold_locales (auto simp: align26_def ceil_mult_bounds)

text \<open>The layout the planner promises: aligned blocks in order, each after the end of the one before.\<close>

fun chained :: "int \<Rightarrow> int \<Rightarrow> placed list \<Rightarrow> bool" where
  "chained step cursor [] = True"
| "chained step cursor (r # rs) = (
     step dvd pl_block_start r \<and> cursor \<le> pl_block_start r \<and> pl_block_start r < cursor + step \<and>
     pl_block_padding r = pl_block_start r - cursor \<and>
     pl_header_bytes r = (if rq_payload r > 65535 then 16 else 8) \<and>
     step dvd pl_payload_start r \<and> pl_block_start r + pl_header_bytes r \<le> pl_payload_start r \<and>
     pl_payload_start r < pl_block_start r + pl_header_bytes r + step \<and>
     pl_inner_padding r = pl_payload_start r - (pl_block_start r + pl_header_bytes r) \<and>
     pl_payload_end r = pl_payload_start r + rq_payload r \<and>
     chained step (pl_payload_end r) rs)"

lemma place_entry_fields:
  "pl_block_start (place_entry step cursor i e) = align26 cursor step"
  "rq_payload (place_entry step cursor i e) = rq_payload e"
  "pl_header_bytes (place_entry step cursor i e) = (if rq_payload e > 65535 then 16 else 8)"
  "pl_block_padding (place_entry step cursor i e) = align26 cursor step - cursor"
  "pl_payload_start (place_entry step cursor i e) = align26 (align26 cursor step + (if rq_payload e > 65535 then 16 else 8)) step"
  "pl_inner_padding (place_entry step cursor i e) = align26 (align26 cursor step + (if rq_payload e > 65535 then 16 else 8)) step
     - (align26 cursor step + (if rq_payload e > 65535 then 16 else 8))"
  "pl_payload_end (place_entry step cursor i e) =
     align26 (align26 cursor step + (if rq_payload e > 65535 then 16 else 8)) step + rq_payload e"
  "request.truncate (place_entry step cursor i e) = e"
  by (simp_all add: place_entry_def Let_def request.defs placed.defs)

lemma place_entries_chained:
  "0 < step \<Longrightarrow> chained step cursor (place_entries step cursor i es)"
proof (induction es arbitrary: cursor i)
  case (Cons e es)
  show ?case
    using Cons plan_al.al_dvd[OF Cons.prems] plan_al.al_ge[OF Cons.prems] plan_al.al_lt[OF Cons.prems]
    by (simp add: Let_def place_entry_fields)
qed simp

lemma place_entries_requests: "map request.truncate (place_entries step cursor i es) = es"
  by (induction es arbitrary: cursor i) (simp_all add: Let_def place_entry_fields)

lemma place_entries_length: "length (place_entries step cursor i es) = length es"
  using place_entries_requests[of step cursor i es] by (metis length_map)

definition paddings :: "placed list \<Rightarrow> int" where
  "paddings rows = (\<Sum>r\<leftarrow>rows. pl_block_padding r + pl_inner_padding r)"

lemma chained_size:
  "chained step cursor rows \<Longrightarrow> final_cursor cursor rows = cursor + (\<Sum>r\<leftarrow>rows. rq_payload r) + (\<Sum>r\<leftarrow>rows. pl_header_bytes r) + paddings rows"
  by (induction step cursor rows rule: chained.induct) (auto simp: final_cursor_def paddings_def split: if_splits)

lemma chained_paddings:
  "chained step cursor rows \<Longrightarrow> 0 \<le> paddings rows \<and> paddings rows \<le> 2 * int (length rows) * (step - 1)"
  by (induction step cursor rows rule: chained.induct) (auto simp: paddings_def algebra_simps)

lemma coalesce_open:
  "chained step e rows \<Longrightarrow> coalesce runs acc (Some (s, e)) rows =
     (runs + int (length (filter (\<lambda>r. pl_block_padding r \<noteq> 0) rows)),
      acc + (e - s) + (\<Sum>r\<leftarrow>rows. pl_payload_end r - pl_block_start r))"
  by (induction rows arbitrary: runs acc s e) auto

lemma coalesce_rows:
  "chained step cursor (r # rs) \<Longrightarrow> coalesce 0 0 None (r # rs) =
     (1 + int (length (filter (\<lambda>r. pl_block_padding r \<noteq> 0) rs)), \<Sum>r\<leftarrow>r # rs. pl_payload_end r - pl_block_start r)"
proof -
  assume "chained step cursor (r # rs)"
  then have "chained step (pl_payload_end r) rs" unfolding chained.simps by blast
  from coalesce_open[OF this, of 1 0 "pl_block_start r"] show ?thesis
    by (simp only: coalesce.simps sum_list.Cons list.map add_0 add_0_right)
qed

lemma chained_covered:
  "chained step cursor rows \<Longrightarrow> (\<Sum>r\<leftarrow>rows. pl_payload_end r - pl_block_start r) =
     (\<Sum>r\<leftarrow>rows. rq_payload r) + (\<Sum>r\<leftarrow>rows. pl_header_bytes r) + (\<Sum>r\<leftarrow>rows. pl_inner_padding r)"
  by (induction step cursor rows rule: chained.induct) auto

lemma plan_candidate_result:
  assumes "plan_candidate es bs = Inr c"
  shows "cd_base_shift c = int bs \<and> cd_base_step c = 2 ^ bs \<and> cd_data_start c = align26 24 (2 ^ bs) \<and>
    cd_entries c = place_entries (2 ^ bs) (cd_data_start c) 0 es \<and> cd_final_size c = final_cursor (cd_data_start c) (cd_entries c) \<and>
    cd_payload_bytes c = (\<Sum>r\<leftarrow>cd_entries c. rq_payload r) \<and> cd_header_bytes c = (\<Sum>r\<leftarrow>cd_entries c. pl_header_bytes r) \<and>
    cd_padding_bytes c = cd_final_size c - 24 - cd_payload_bytes c - cd_header_bytes c \<and>
    (cd_coalesced c, cd_covered c) = coalesce 0 0 None (cd_entries c) \<and> cd_useful c = cd_payload_bytes c \<and>
    cd_nano_slots c = (cd_final_size c - cd_data_start c + cd_base_step c - 1) div cd_base_step c"
  using assms by (auto simp: plan_candidate_def Let_def push_bit_eq_mult split: list.splits prod.splits)

lemma plan_candidate_chained:
  assumes "plan_candidate es bs = Inr c"
  shows "chained (cd_base_step c) (cd_data_start c) (cd_entries c)" "map request.truncate (cd_entries c) = es"
  using plan_candidate_result[OF assms] by (simp_all add: place_entries_chained place_entries_requests)


section \<open>Selection lemmas\<close>

lemma by_layer_Nil: "by_layer rows = [] \<longleftrightarrow> \<not> list_ex (\<lambda>r. rq_group r = ''tensor'' \<and> rq_layer r \<noteq> None) rows"
proof (induction rows rule: rev_induct)
  case (snoc r rows)
  have "AList.update k v al \<noteq> []" for k :: int and v :: "placed list" and al by (cases al) (auto split: if_splits)
  then show ?case using snoc by (simp add: by_layer_def split: option.splits)
qed (simp add: by_layer_def)

lemma plan_candidate_total:
  "(\<exists>c. plan_candidate es bs = Inr c) \<longleftrightarrow> list_ex (\<lambda>e. rq_group e = ''tensor'' \<and> rq_layer e \<noteq> None) es"
proof -
  let ?rows = "place_entries (2 ^ bs) (align26 24 (2 ^ bs)) 0 es"
  have "(\<exists>c. plan_candidate es bs = Inr c) \<longleftrightarrow> by_layer ?rows \<noteq> []"
  proof (cases "map (\<lambda>(_, n, _). n) (map layer_metric (sort_key fst (by_layer ?rows)))")
    case Nil
    then have "by_layer ?rows = []" by (metis list.map_disc_iff set_sort set_empty)
    then show ?thesis by (auto simp: plan_candidate_def Let_def push_bit_eq_mult split: prod.splits)
  next
    case (Cons n ns)
    then have "by_layer ?rows \<noteq> []" by auto
    moreover have "\<exists>c. plan_candidate es bs = Inr c"
      unfolding plan_candidate_def Let_def push_bit_eq_mult mult_1 Cons by (simp split: prod.split)
    ultimately show ?thesis by blast
  qed
  also have "\<dots> \<longleftrightarrow> list_ex (\<lambda>e. rq_group e = ''tensor'' \<and> rq_layer e \<noteq> None) (map request.truncate ?rows)"
    unfolding by_layer_Nil by (simp add: list_ex_iff request.defs)
  finally show ?thesis by (simp add: place_entries_requests)
qed

definition rank_of :: "(int \<Rightarrow> int \<Rightarrow> 'q :: linorder) \<Rightarrow> candidate \<Rightarrow> int \<times> int \<times> int \<times> int \<times> 'q" where
  "rank_of fdiv c = (cd_final_size c, cd_padding_bytes c, cd_nano_bytes c, cd_layer_spans c, fdiv (cd_covered c) (max 1 (cd_useful c)))"

lemma dominates_rank: "dominates fdiv b a \<Longrightarrow> rank_of fdiv b < rank_of fdiv a"
  by (auto simp: dominates_def criteria_def rank_of_def less_prod_def Let_def)

lemma rank_minimal:
  assumes "cs \<noteq> []"
  obtains m where "m \<in> set cs" "\<And>b. b \<in> set cs \<Longrightarrow> \<not> dominates fdiv b m \<and> cd_final_size m \<le> cd_final_size b"
proof
  let ?m = "arg_min_list (rank_of fdiv) cs"
  show "?m \<in> set cs" using assms by (rule arg_min_list_in)
  fix b assume "b \<in> set cs"
  then have "rank_of fdiv ?m \<le> rank_of fdiv b" by (rule arg_min_list_le)
  then show "\<not> dominates fdiv b ?m \<and> cd_final_size ?m \<le> cd_final_size b"
    using dominates_rank[of fdiv b ?m] by (auto simp: rank_of_def)
qed

lemma pareto_iff:
  assumes "distinct (map cd_base_shift cs)" "c \<in> set cs"
  shows "cd_base_shift c \<in> set (pareto fdiv cs) \<longleftrightarrow> (\<forall>b \<in> set cs. \<not> dominates fdiv b c)"
  using assms inj_onD[of cd_base_shift "set cs"] by (auto simp: pareto_def list_ex_iff distinct_map)

lemma select_candidate_result:
  assumes d: "distinct (map cd_base_shift cs)" and "cs \<noteq> []"
  obtains s where "select_candidate fdiv cs = Inr s" "s \<in> set cs"
    "\<And>b. b \<in> set cs \<Longrightarrow> \<not> dominates fdiv b s \<and> cd_final_size s \<le> cd_final_size b"
proof -
  obtain m where m: "m \<in> set cs" "\<And>b. b \<in> set cs \<Longrightarrow> \<not> dominates fdiv b m \<and> cd_final_size m \<le> cd_final_size b"
    using rank_minimal[OF assms(2)] by metis
  let ?ps = "filter (\<lambda>c. cd_base_shift c \<in> set (pareto fdiv cs)) cs"
  let ?key = "\<lambda>c. (cd_final_size c, cd_padding_bytes c, cd_base_step c)"
  have mem: "c \<in> set ?ps \<longleftrightarrow> c \<in> set cs \<and> (\<forall>b \<in> set cs. \<not> dominates fdiv b c)" for c
    using pareto_iff[OF d] by auto
  have "m \<in> set ?ps" unfolding mem using m by blast
  then have ne: "?ps \<noteq> []" by (metis empty_iff empty_set)
  let ?s = "arg_min_list ?key ?ps"
  have s: "?s \<in> set ?ps" using ne by (rule arg_min_list_in)
  have "?key ?s \<le> ?key m" using \<open>m \<in> set ?ps\<close> by (rule arg_min_list_le)
  then have "cd_final_size ?s \<le> cd_final_size m" by auto
  moreover have "select_candidate fdiv cs = Inr ?s"
    using ne by (auto simp: select_candidate_def split: list.split)
  ultimately show thesis using that s[unfolded mem] m(2) by (meson order_trans)
qed


lemma map_list_all2: "list_all2 P xs ys \<Longrightarrow> (\<And>x y. P x y \<Longrightarrow> f y = g x) \<Longrightarrow> map f ys = map g xs"
  by (induction rule: list_all2_induct) auto

lemma plan_all_result:
  assumes "plan_all fdiv es = Inr (sel, cands)"
  shows "sel \<in> set cands \<and> map cd_base_shift cands = [3..8] \<and>
    (\<forall>b \<in> set cands. \<not> dominates fdiv b sel \<and> cd_final_size sel \<le> cd_final_size b)"
proof -
  from assms have c: "map_res (plan_candidate es) [3..<9] = Inr cands" and s: "select_candidate fdiv cands = Inr sel"
    by (auto simp: plan_all_def bind_res_Inr_iff)
  have "list_all2 (\<lambda>b c. plan_candidate es b = Inr c) [3..<9] cands" using c by (simp only: map_res_list_all2)
  then have "map cd_base_shift cands = map int [3..<9]"
    by (rule map_list_all2) (simp add: plan_candidate_result)
  then have shifts: "map cd_base_shift cands = [3..8]" by (simp add: upt_rec upto.simps)
  then have "distinct (map cd_base_shift cands)" "cands \<noteq> []" by auto
  from select_candidate_result[OF this, of fdiv] s show ?thesis using shifts by (metis Inr_inject)
qed

lemma plan_all_total:
  "(\<exists>r. plan_all fdiv es = Inr r) \<longleftrightarrow> list_ex (\<lambda>e. rq_group e = ''tensor'' \<and> rq_layer e \<noteq> None) es"
proof (cases "list_ex (\<lambda>e. rq_group e = ''tensor'' \<and> rq_layer e \<noteq> None) es")
  case True
  then have "\<forall>b. \<exists>c. plan_candidate es b = Inr c" using plan_candidate_total by blast
  then obtain f where f: "\<And>b. plan_candidate es b = Inr (f b)" by metis
  have c: "map_res (plan_candidate es) [3..<9] = Inr (map f [3..<9])" by (simp add: f map_res_Inr upt_rec)
  have "map cd_base_shift (map f [3..<9]) = map int [3..<9]" using plan_candidate_result[OF f] by simp
  then have "distinct (map cd_base_shift (map f [3..<9]))" "map f [3..<9] \<noteq> []"
    by (simp_all only: distinct_map) (auto simp: inj_on_def)
  from select_candidate_result[OF this, of fdiv] obtain s where "select_candidate fdiv (map f [3..<9]) = Inr s" by metis
  then have "plan_all fdiv es = Inr (s, map f [3..<9])" unfolding plan_all_def c by simp
  then show ?thesis using True by blast
next
  case False
  then have "\<nexists>c. plan_candidate es 3 = Inr c" using plan_candidate_total by blast
  then obtain e where "plan_candidate es 3 = Inl e" by (metis sum.exhaust)
  then have "map_res (plan_candidate es) [3..<9] = Inl e" by (simp add: upt_rec)
  then show ?thesis using False by (simp add: plan_all_def)
qed

definition sample_requests :: "request list" where
  "sample_requests = [control ''Bootstrap'' 0 0 64, tokenizer_request (''AddBos'', 207, 1),
     \<lparr>rq_name = ''blk.0.attn_q.weight'', rq_class = 5, rq_order = 1000000, rq_payload = 70000, rq_group = ''tensor'', rq_layer = Some 0\<rparr>,
     \<lparr>rq_name = ''blk.0.attn_k.weight'', rq_class = 5, rq_order = 1000001, rq_payload = 12, rq_group = ''tensor'', rq_layer = Some 0\<rparr>,
     \<lparr>rq_name = ''blk.1.attn_q.weight'', rq_class = 5, rq_order = 1000002, rq_payload = 48, rq_group = ''tensor'', rq_layer = Some 1\<rparr>]"

definition plan_outcome :: "((candidate \<times> candidate list) res) \<Rightarrow> (int \<times> int list \<times> int list \<times> int list) option" where
  "plan_outcome r = (case r of Inl _ \<Rightarrow> None
     | Inr (s, cs) \<Rightarrow> Some (cd_base_shift s, map cd_final_size cs, map cd_covered cs, map cd_coalesced cs))"
lemma sample_plans: "plan_outcome (plan_all (\<lambda>a b. a * 1000 div b) sample_requests) =
    Some (3, [70208, 70256, 70384, 70640, 71216, 72496], [70173, 70205, 70285, 70445, 70765, 71405], [3, 3, 4, 4, 5, 5])"
  by code_simp

lemma sample_candidate: "(case plan_candidate sample_requests 5 of Inl _ \<Rightarrow> False
    | Inr c \<Rightarrow> cd_final_size c = 70384 \<and> cd_padding_bytes c = 187 \<and> cd_coalesced c = 4)"
  by code_simp

section \<open>Properties\<close>

text \<open>
  C20. The selection is sound: a returned plan holds the candidates of the base shifts 3 to 8, and the
  selected one is among them, is dominated by none of them on the five criteria, and has the smallest
  final size of all of them.
\<close>

theorem plan_selection:
  "plan_all fdiv es = Inr (sel, cands) \<Longrightarrow>
     sel \<in> set cands \<and> map cd_base_shift cands = [3..8] \<and>
     list_all (\<lambda>b. \<not> dominates fdiv b sel \<and> cd_final_size sel \<le> cd_final_size b) cands"
  using plan_all_result[of fdiv es sel cands] by (simp add: list_all_iff)

theorem plan_selection_witness:
  "\<exists>sel cands. plan_all (\<lambda>a b. a * 1000 div b) sample_requests = Inr (sel, cands) \<and> cd_base_shift sel = 3 \<and>
     list_all (\<lambda>b. cd_final_size sel \<le> cd_final_size b) cands"
proof -
  obtain sel cands where r: "plan_all (\<lambda>a b. a * 1000 div b) sample_requests = Inr (sel, cands)"
    and "cd_base_shift sel = 3"
    using sample_plans by (auto simp: plan_outcome_def split: sum.splits)
  then show ?thesis using plan_selection[OF r] by (auto simp: list_all_iff)
qed

text \<open>
  C19. The accounts of a candidate layout: its rows are the requests in order, every block and payload
  start is a multiple of the base step and follows the end before it by less than one step; the file
  is the 24-byte header, the payloads, the block headers and the padding, and the padding is at most
  one step less a byte for the header and twice that for each block.
\<close>

theorem plan_accounts:
  assumes "plan_candidate es bs = Inr c"
  shows "map request.truncate (cd_entries c) = es \<and> chained (2 ^ bs) (cd_data_start c) (cd_entries c) \<and>
    cd_final_size c = 24 + cd_payload_bytes c + cd_header_bytes c + cd_padding_bytes c \<and>
    cd_payload_bytes c = (\<Sum>e\<leftarrow>es. rq_payload e) \<and>
    cd_padding_bytes c = cd_data_start c - 24 + paddings (cd_entries c) \<and>
    0 \<le> cd_padding_bytes c \<and> cd_padding_bytes c \<le> (2 * int (length es) + 1) * (2 ^ bs - 1)"
proof -
  note r = plan_candidate_result[OF assms] and ch = plan_candidate_chained[OF assms]
  have pos: "(0::int) < 2 ^ bs" by simp
  have len: "length (cd_entries c) = length es" using ch(2) by (metis length_map)
  have pay: "(\<Sum>r\<leftarrow>cd_entries c. rq_payload r) = (\<Sum>e\<leftarrow>es. rq_payload e)"
    unfolding ch(2)[symmetric] by (simp add: o_def request.defs)
  have d: "24 \<le> cd_data_start c" "cd_data_start c \<le> 24 + (2 ^ bs - 1)"
    using r plan_al.al_ge[OF pos, of 24] plan_al.al_lt[OF pos, of 24] by auto
  have pad: "cd_padding_bytes c = cd_data_start c - 24 + paddings (cd_entries c)"
    using r chained_size[OF ch(1)] by simp
  moreover have "0 \<le> paddings (cd_entries c)" "paddings (cd_entries c) \<le> 2 * int (length es) * (2 ^ bs - 1)"
    using chained_paddings[OF ch(1)] r len by auto
  ultimately have "0 \<le> cd_padding_bytes c" "cd_padding_bytes c \<le> (2 * int (length es) + 1) * (2 ^ bs - 1)"
    using d by (simp_all add: algebra_simps)
  moreover have "cd_base_step c = 2 ^ bs" "cd_payload_bytes c = (\<Sum>e\<leftarrow>es. rq_payload e)"
    using r pay by argo+
  moreover have "cd_padding_bytes c = cd_final_size c - 24 - cd_payload_bytes c - cd_header_bytes c" using r by blast
  then have "cd_final_size c = 24 + cd_payload_bytes c + cd_header_bytes c + cd_padding_bytes c" by linarith
  ultimately show ?thesis using ch pad by metis
qed

theorem plan_accounts_witness:
  "\<exists>c. plan_candidate sample_requests 5 = Inr c \<and> cd_final_size c = 70384 \<and> cd_padding_bytes c = 187 \<and>
     cd_final_size c = 24 + cd_payload_bytes c + cd_header_bytes c + cd_padding_bytes c"
proof -
  obtain c where r: "plan_candidate sample_requests 5 = Inr c"
    and "cd_final_size c = 70384" "cd_padding_bytes c = 187"
    using sample_candidate by (auto split: sum.splits)
  then show ?thesis using plan_accounts[OF r] by blast
qed

text \<open>
  The locality metrics of a candidate: coalescing blocks that touch gives one run and one more for
  every later block with padding in front, and the runs cover exactly the payloads, the headers and
  the padding between header and payload.
\<close>

theorem plan_coalesced:
  assumes "plan_candidate es bs = Inr c"
  shows "cd_coalesced c = 1 + int (length (filter (\<lambda>r. pl_block_padding r \<noteq> 0) (tl (cd_entries c)))) \<and>
    cd_covered c = cd_useful c + cd_header_bytes c + (\<Sum>r\<leftarrow>cd_entries c. pl_inner_padding r)"
proof -
  note r = plan_candidate_result[OF assms] and ch = plan_candidate_chained[OF assms]
  have "es \<noteq> []" using plan_candidate_total[of es bs] assms by auto
  then obtain x xs where x: "cd_entries c = x # xs" using ch(2) by (metis list.exhaust list.map_disc_iff)
  have "(cd_coalesced c, cd_covered c) = coalesce 0 0 None (x # xs)" using r unfolding x by blast
  then have "cd_coalesced c = 1 + int (length (filter (\<lambda>r. pl_block_padding r \<noteq> 0) xs))"
    "cd_covered c = (\<Sum>r\<leftarrow>x # xs. pl_payload_end r - pl_block_start r)"
    unfolding coalesce_rows[OF ch(1)[unfolded x]] by simp_all
  moreover have "(\<Sum>r\<leftarrow>x # xs. pl_payload_end r - pl_block_start r) =
      cd_useful c + cd_header_bytes c + (\<Sum>r\<leftarrow>x # xs. pl_inner_padding r)"
    using r chained_covered[OF ch(1)] unfolding x by argo
  ultimately show ?thesis unfolding x list.sel by argo
qed


theorem plan_coalesced_witness:
  "\<exists>c. plan_candidate sample_requests 5 = Inr c \<and> cd_coalesced c = 4 \<and>
     cd_covered c = cd_useful c + cd_header_bytes c + (\<Sum>r\<leftarrow>cd_entries c. pl_inner_padding r)"
proof -
  obtain c where r: "plan_candidate sample_requests 5 = Inr c" and "cd_coalesced c = 4"
    using sample_candidate by (auto split: sum.splits)
  then show ?thesis using plan_coalesced[OF r] by blast
qed

end
