(* ===== verification/Plan20.thy ===== *)
theory Plan20
  imports Planner26 Gguf_Roundtrip
begin

text \<open>
  The conversion plan: the binary file that \<open>scripts/convert_gguf_to_vbuf_ml.py\<close> writes for the Rust
  converter, and the converter's reader of it (\<open>parse_plan\<close> in \<open>vbuf-ml-convert.rs\<close>).

  Parameters: \<open>digest\<close> is the hexadecimal SHA-256 of a file, \<open>to_int\<close> is \<open>int\<close> on a value that is
  not an integer or a boolean, \<open>to_double\<close> packs \<open>float\<close> of a value, \<open>jrender\<close> is \<open>str\<close> of a
  float or a container.
\<close>

section \<open>Writing\<close>

definition PLAN_MAGIC :: bytes where "PLAN_MAGIC = [0x56, 0x42, 0x55, 0x46, 0x32, 0x30, 0x50, 0x4C]"
definition PLAN_VERSION :: int where "PLAN_VERSION = 2"

definition REPRESENTATIONS :: "(string \<times> int) list" where
  "REPRESENTATIONS = [(''CanonicalPrimitive'', 0), (''BF16'', 1), (''GGML_Q8_0'', 2), (''GGML_Q4_0'', 3), (''GGML_Q2_K'', 4),
     (''GGML_IQ1_S'', 5), (''GGML_Q4_K'', 6), (''GGML_IQ4_NL'', 7), (''GGML_IQ4_XS'', 8), (''GGML_Q3_K'', 9),
     (''GGML_IQ2_XXS'', 10), (''GGML_IQ2_XS'', 11), (''GGML_IQ2_S'', 12), (''GGML_Q5_K'', 13), (''GGML_Q6_K'', 14)]"

definition plan_METADATA_IDS :: "(string \<times> int) list" where
  "plan_METADATA_IDS = [(''Architecture'', 1), (''ContextLength'', 2), (''EmbeddingLength'', 3), (''LayerCount'', 4),
     (''HeadCount'', 5), (''FeedForwardLength'', 6), (''NormalizationEpsilon'', 7), (''RopeTheta'', 8),
     (''KVHeadCount'', 9), (''KeyHeadDimension'', 10), (''ValueHeadDimension'', 11)]"

definition plan_ROLE_IDS :: "(string \<times> int) list" where
  "plan_ROLE_IDS = [(''TokenTextBytes'', 1), (''TokenOffsets'', 2), (''TokenScores'', 3), (''TokenTypes'', 4),
     (''BosId'', 5), (''EosId'', 6), (''UnkId'', 7), (''PadId'', 8), (''MergeLeftIds'', 9), (''MergeRightIds'', 10),
     (''TokenizerModelIdentity'', 11), (''PreTokenizerIdentity'', 12), (''AddBos'', 13), (''ChatTemplate'', 14)]"

text \<open>\<open>u8\<close> to \<open>u64\<close> on a JSON value, \<open>blob\<close>, and the parts of the file written one after another.\<close>

definition u_json :: "nat \<Rightarrow> json \<Rightarrow> bytes res" where
  "u_json n v = (case v of JInt k \<Rightarrow> pack_le n k | JBool b \<Rightarrow> pack_le n (of_bool b) | _ \<Rightarrow> Inl StructError)"

definition blob :: "bytes \<Rightarrow> bytes res" where
  "blob value = bind_res (pack_le 8 (int (length value))) (\<lambda>n. Inr (n @ value))"

definition string_blob :: "string \<Rightarrow> bytes res" where
  "string_blob s = blob (str_bytes s)"

definition written :: "bytes res list \<Rightarrow> bytes res" where
  "written parts = bind_res (map_res id parts) (\<lambda>bs. Inr (concat bs))"

definition py_int :: "(json \<Rightarrow> int res) \<Rightarrow> json \<Rightarrow> int res" where
  "py_int to_int v = (case v of JInt n \<Rightarrow> Inr n | JBool b \<Rightarrow> Inr (of_bool b) | JNull \<Rightarrow> Inl TypeError
     | JArr _ \<Rightarrow> Inl TypeError | JObj _ \<Rightarrow> Inl TypeError | _ \<Rightarrow> to_int v)"

definition u_int :: "(json \<Rightarrow> int res) \<Rightarrow> nat \<Rightarrow> json \<Rightarrow> bytes res" where
  "u_int to_int n v = bind_res (py_int to_int v) (pack_le n)"

fun json_bool :: "json \<Rightarrow> bool" where
  "json_bool JNull = False"
| "json_bool (JBool b) = b"
| "json_bool (JInt n) = (n \<noteq> 0)"
| "json_bool (JDec m e) = (m \<noteq> 0)"
| "json_bool (JBits w n) = (n mod 2 ^ (8 * w - 1) \<noteq> 0)"
| "json_bool (JQuot p q) = (p \<noteq> 0)"
| "json_bool (JStr s) = (s \<noteq> [])"
| "json_bool (JArr xs) = (xs \<noteq> [])"
| "json_bool (JObj kvs) = (kvs \<noteq> [])"

text \<open>\<open>bytes.fromhex\<close>: pairs of digits, with white space allowed between the pairs.\<close>

definition hex_digit :: "char \<Rightarrow> int option" where
  "hex_digit c = (let n = of_char c :: int in
     if 48 \<le> n \<and> n \<le> 57 then Some (n - 48) else if 97 \<le> n \<and> n \<le> 102 then Some (n - 87)
     else if 65 \<le> n \<and> n \<le> 70 then Some (n - 55) else None)"

definition is_space :: "char \<Rightarrow> bool" where
  "is_space c \<longleftrightarrow> (of_char c :: int) \<in> {9, 10, 11, 12, 13, 32}"

fun fromhex :: "string \<Rightarrow> bytes res" where
  "fromhex [] = Inr []"
| "fromhex (c # cs) = (if is_space c then fromhex cs else case cs of [] \<Rightarrow> Inl (ValueError ''non-hexadecimal number'')
     | d # ds \<Rightarrow> (case (hex_digit c, hex_digit d) of
         (Some h, Some l) \<Rightarrow> bind_res (fromhex ds) (\<lambda>bs. Inr (word_of_int (16 * h + l) # bs))
       | _ \<Rightarrow> Inl (ValueError ''non-hexadecimal number'')))"

text \<open>Iterating over a metadata value: a list, or the code points of a string.\<close>

fun utf8_chars :: "string \<Rightarrow> string list" where
  "utf8_chars [] = []"
| "utf8_chars (c # cs) = (case utf8_chars cs of [] \<Rightarrow> [[c]]
     | s # ss \<Rightarrow> if 128 \<le> (of_char (hd s) :: int) \<and> (of_char (hd s) :: int) < 192 then (c # s) # ss else [c] # s # ss)"

definition meta_items :: "meta_value \<Rightarrow> meta_value list res" where
  "meta_items v = (case v of MArr vs \<Rightarrow> Inr vs | MStr s \<Rightarrow> Inr (map MStr (utf8_chars s)) | _ \<Rightarrow> Inl TypeError)"

definition meta_field :: "artifact \<Rightarrow> string \<Rightarrow> meta_value list res" where
  "meta_field a k = bind_res (lookup_res (ar_metadata a) k) meta_items"

definition encoded :: "meta_value \<Rightarrow> bytes res" where
  "encoded v = (case v of MStr s \<Rightarrow> Inr (str_bytes s) | _ \<Rightarrow> Inl AttributeError)"

subsection \<open>The checks\<close>

definition stop_if :: "bool \<Rightarrow> string \<Rightarrow> unit res" where
  "stop_if b msg = (if b then Inl (ValueError msg) else Inr ())"

definition check_identity :: "(bytes \<Rightarrow> string) \<Rightarrow> bytes \<Rightarrow> json \<Rightarrow> unit res" where
  "check_identity digest file identity = bind_res (jget identity ''size'') (\<lambda>size.
     bind_res (if \<not> jeq size (JInt (int (length file))) then Inr True
       else bind_res (jget identity ''sha256'') (\<lambda>h. Inr (\<not> jeq h (JStr (digest file))))) (\<lambda>bad.
     stop_if bad ''source identity does not match manifest''))"

definition check_policy :: "(json \<Rightarrow> int res) \<Rightarrow> json \<Rightarrow> string \<Rightarrow> unit res" where
  "check_policy to_int manifest integrity =
     bind_res (jget manifest ''profile_version'') (\<lambda>profile.
     bind_res (if \<not> jeq profile (JStr ''vbuf-ml-0.1'') then Inr True
       else bind_res (jpath manifest [''consumer_revision'', ''commit'']) (\<lambda>c. Inr (\<not> jeq c (JStr PINNED_COMMIT)))) (\<lambda>stale.
     bind_res (stop_if stale ''manifest profile or pinned consumer revision is stale'') (\<lambda>_.
     bind_res (jpath manifest [''validation'', ''conversion_readiness'']) (\<lambda>ready.
     bind_res (stop_if (\<not> jeq ready (str_list [''READY_FOR_CONVERSION''])) ''manifest is not conversion-ready'') (\<lambda>_.
     bind_res (jget manifest ''conversion_options'') (\<lambda>options.
     bind_res (jget options ''placement'') (\<lambda>placement.
     bind_res (in_keys placement [JStr ''LAYER_MAJOR_ROLE_ORDER'', JStr ''DEEPSEEK_HOT_ROLE_ORDER'']) (\<lambda>known.
     bind_res (if \<not> known then Inr True
       else bind_res (jget_default options ''base_shift'' (JInt (- 1))) (\<lambda>v. bind_res (py_int to_int v) (\<lambda>n. Inr (\<not> (3 \<le> n \<and> n \<le> 8))))) (\<lambda>bad.
     bind_res (stop_if bad ''manifest placement or BaseShift policy is not qualified'') (\<lambda>_.
     stop_if (integrity \<noteq> ''none'') ''Step 20 currently supports only --integrity none''))))))))))"

definition source_of :: "(string \<times> tensor) list \<Rightarrow> json \<Rightarrow> tensor option res" where
  "source_of by_name v = bind_res (hkey v) (\<lambda>k. case k of JStr s \<Rightarrow> Inr (map_of by_name s) | _ \<Rightarrow> Inr None)"

definition check_row :: "(string \<times> tensor) list \<Rightarrow> json \<Rightarrow> unit res" where
  "check_row by_name row =
     bind_res (jget row ''source_name'') (\<lambda>name. bind_res (source_of by_name name) (\<lambda>src. case src of
       None \<Rightarrow> Inl (ValueError ''manifest tensor name mismatch'')
     | Some t \<Rightarrow>
         bind_res (jget row ''target_name'') (\<lambda>target.
         bind_res (stop_if (\<not> jeq target name) ''manifest tensor name mismatch'') (\<lambda>_.
         bind_res (jget row ''source_offset'') (\<lambda>off.
         bind_res (if \<not> jeq off (JInt (tn_absolute_start t)) then Inr True
           else bind_res (jget row ''source_payload_bytes'') (\<lambda>n. Inr (\<not> jeq n (opt_json (tn_payload_size t))))) (\<lambda>bad.
         bind_res (stop_if bad ''manifest source range mismatch'') (\<lambda>_.
         bind_res (jget row ''target_key_id'') (\<lambda>key.
         bind_res (if \<not> jeq key (JInt TENSOR_KEY_ID) then Inr True
           else bind_res (jget row ''target_occurrence'') (\<lambda>n. bind_res (jget row ''target_order'') (\<lambda>m. Inr (\<not> jeq n m)))) (\<lambda>bad.
         bind_res (stop_if bad ''manifest tensor identity mismatch'') (\<lambda>_.
         bind_res (jget row ''payload_action'') (\<lambda>action.
         bind_res (if \<not> jeq action (JStr ''COPY_BYTES'') then Inr True
           else bind_res (jget row ''target_representation'') (\<lambda>r. bind_res (in_keys r (map (JStr \<circ> fst) REPRESENTATIONS)) (\<lambda>b. Inr (\<not> b)))) (\<lambda>bad.
         stop_if bad ''manifest tensor action or representation is unsupported''))))))))))))"

definition check_tokenizer :: "json \<Rightarrow> unit res" where
  "check_tokenizer tokenizer = bind_res (jget tokenizer ''kind'') (\<lambda>kind.
     bind_res (if \<not> jeq kind (JStr ''Gpt2BpeQwen2'') then Inr True else
       bind_res (jget tokenizer ''model_id'') (\<lambda>m. if \<not> jeq m (JInt 1) then Inr True else
       bind_res (jget tokenizer ''pre_tokenizer_id'') (\<lambda>p. bind_res (in_keys p [JInt 1, JInt 2]) (\<lambda>b. Inr (\<not> b))))) (\<lambda>bad.
     stop_if bad ''unsupported tokenizer conversion plan''))"

subsection \<open>The sections of the file\<close>

definition header_section :: "bytes \<Rightarrow> json \<Rightarrow> bytes res" where
  "header_section file manifest = written [Inr PLAN_MAGIC, pack_le 4 PLAN_VERSION,
     bind_res (jpath manifest [''conversion_options'', ''base_shift'']) (u_json 1), pack_le 1 0, pack_le 2 0,
     pack_le 8 (int (length file)), bind_res (jpath manifest [''source_identity'', ''sha256'']) (\<lambda>h. bind_res (jstr h) fromhex)]"

definition metadata_record :: "(json \<Rightarrow> int res) \<Rightarrow> (json \<Rightarrow> bytes res) \<Rightarrow> (json \<Rightarrow> string) \<Rightarrow> int \<times> json \<Rightarrow> bytes res" where
  "metadata_record to_int to_double jrender = (\<lambda>(key_id, row). bind_res (jget row ''source_value'') (\<lambda>value.
     written [pack_le 2 key_id, pack_le 1 (of_bool (key_id \<in> {1, 2, 3, 4, 5})),
       if key_id = 1 then written [pack_le 1 1, string_blob (json_str jrender value)]
       else if key_id \<in> {7, 8} then written [pack_le 1 3, bind_res (to_double value) blob]
       else written [pack_le 1 2, bind_res (u_int to_int 8 value) blob]]))"

definition metadata_rows :: "json \<Rightarrow> (int \<times> json) list res" where
  "metadata_rows manifest = bind_res (jget_list manifest ''model_metadata_plan'') (\<lambda>rows.
     bind_res (map_res (\<lambda>row. bind_res (jget row ''target'') (\<lambda>t. bind_res (hkey t) (\<lambda>k.
       Inr (case k of JStr s \<Rightarrow> map_of plan_METADATA_IDS s | _ \<Rightarrow> None, row)))) rows) (\<lambda>ids.
     Inr (sort_key fst (concat (map (\<lambda>(k, row). case k of None \<Rightarrow> [] | Some key_id \<Rightarrow> [(key_id, row)]) ids)))))"

definition metadata_section :: "(json \<Rightarrow> int res) \<Rightarrow> (json \<Rightarrow> bytes res) \<Rightarrow> (json \<Rightarrow> string) \<Rightarrow> json \<Rightarrow> bytes res" where
  "metadata_section to_int to_double jrender manifest = bind_res (metadata_rows manifest) (\<lambda>rows.
     written (pack_le 2 (int (length rows)) # map (metadata_record to_int to_double jrender) rows))"

fun offsets_from :: "int \<Rightarrow> bytes list \<Rightarrow> int list" where
  "offsets_from n [] = [n]"
| "offsets_from n (t # ts) = n # offsets_from (n + int (length t)) ts"

definition token_section :: "meta_value list \<Rightarrow> bytes res" where
  "token_section tokens = bind_res (map_res encoded tokens) (\<lambda>texts. let offsets = offsets_from 0 texts in
     written (blob (concat texts) # pack_le 8 (int (length offsets)) # map (pack_le 8) offsets))"

definition tokenizer_section :: "(json \<Rightarrow> int res) \<Rightarrow> artifact \<Rightarrow> json \<Rightarrow> meta_value list \<Rightarrow> json list \<Rightarrow> json list \<Rightarrow> bytes res" where
  "tokenizer_section to_int a tokenizer token_types left right = written
     (pack_le 8 (int (length token_types)) # map (u_int to_int 4 \<circ> meta_json) token_types @
      pack_le 8 (int (length left)) # map (u_int to_int 4) left @ map (u_int to_int 4) right @
      [bind_res (jget tokenizer ''add_bos'') (\<lambda>v. pack_le 1 (of_bool (json_bool v))),
       bind_res (jget tokenizer ''pre_tokenizer_id'') (u_int to_int 1)])"

definition special_section :: "(json \<Rightarrow> int res) \<Rightarrow> artifact \<Rightarrow> bytes res" where
  "special_section to_int a = bind_res (map_res (\<lambda>(role, key). bind_res (lookup_res (ar_metadata a) key) (\<lambda>v. Inr (role, v)))
       [(''BosId'', ''tokenizer.ggml.bos_token_id''), (''EosId'', ''tokenizer.ggml.eos_token_id''),
        (''PadId'', ''tokenizer.ggml.padding_token_id'')]) (\<lambda>specials.
     written (pack_le 1 (int (length specials)) # concat (map (\<lambda>(role, v).
       [bind_res (lookup_res plan_ROLE_IDS role) (pack_le 1), u_int to_int 8 (meta_json v)]) specials) @
       [bind_res (lookup_res (ar_metadata a) ''tokenizer.chat_template'') (\<lambda>v. bind_res (encoded v) blob)]))"

definition tensor_record :: "json \<Rightarrow> bytes res" where
  "tensor_record row = written
     [bind_res (jget_str row ''target_name'') string_blob,
      bind_res (jget_list row ''source_shape'') (\<lambda>shape. written (pack_le 1 (int (length shape)) # map (u_json 8) shape)),
      bind_res (jget_str row ''target_representation'') (\<lambda>r. bind_res (lookup_res REPRESENTATIONS r) (pack_le 1)),
      bind_res (jget row ''source_offset'') (u_json 8), bind_res (jget row ''source_payload_bytes'') (u_json 8),
      bind_res (jget row ''target_order'') (u_json 4)]"

definition tensor_section :: "json list \<Rightarrow> bytes res" where
  "tensor_section plans = written (pack_le 4 (int (length plans)) # map tensor_record plans)"

definition moe_section :: "(json \<Rightarrow> int res) \<Rightarrow> json \<Rightarrow> bytes res" where
  "moe_section to_int manifest = bind_res (jget_default manifest ''moe_plan'' JNull) (\<lambda>moe.
     if moe = JNull then pack_le 1 0 else
     written (pack_le 1 1 # map (\<lambda>key. bind_res (jget moe key) (u_int to_int 4))
         [''expert_count'', ''active_expert_count'', ''layer_count'', ''shared_expert_count''] @
       [bind_res (jget moe ''shared_experts'') (\<lambda>v. pack_le 1 (of_bool (json_bool v)))]))"

text \<open>\<open>sorted\<close> by \<open>target_order\<close>, and the whole of \<open>build_plan\<close>.\<close>

definition sorted_plans :: "json \<Rightarrow> json list res" where
  "sorted_plans manifest = bind_res (jget_list manifest ''tensor_plans'') (\<lambda>rows.
     bind_res (map_res (\<lambda>row. bind_res (jget_int row ''target_order'') (\<lambda>n. Inr (n, row))) rows) (\<lambda>keyed.
     Inr (map snd (sort_key fst keyed))))"

definition build_plan ::
  "(bytes \<Rightarrow> string) \<Rightarrow> (json \<Rightarrow> int res) \<Rightarrow> (json \<Rightarrow> bytes res) \<Rightarrow> (json \<Rightarrow> string) \<Rightarrow> bytes \<Rightarrow> json \<Rightarrow> artifact \<Rightarrow> string \<Rightarrow> bytes res" where
  "build_plan digest to_int to_double jrender file manifest a integrity =
     bind_res (jget manifest ''source_identity'') (\<lambda>identity.
     bind_res (check_identity digest file identity) (\<lambda>_.
     bind_res (check_policy to_int manifest integrity) (\<lambda>_.
     let by_name = sources_by_name a in
     bind_res (sorted_plans manifest) (\<lambda>plans.
     bind_res (stop_if (length plans \<noteq> length by_name) ''manifest tensor count mismatch'') (\<lambda>_.
     bind_res (each (check_row by_name) plans) (\<lambda>_.
     bind_res (jget manifest ''tokenizer_conversion_plan'') (\<lambda>tokenizer.
     bind_res (check_tokenizer tokenizer) (\<lambda>_.
     bind_res (lookup_res (ar_metadata a) ''tokenizer.ggml.tokens'') (\<lambda>tokens_value.
     bind_res (lookup_res (ar_metadata a) ''tokenizer.ggml.token_type'') (\<lambda>types_value.
     bind_res (lookup_res (ar_metadata a) ''tokenizer.ggml.merges'') (\<lambda>merges_value.
     bind_res (jget tokenizer ''merge_left_ids'') (\<lambda>left_value. bind_res (jget tokenizer ''merge_right_ids'') (\<lambda>right_value.
     bind_res (meta_items tokens_value) (\<lambda>tokens. bind_res (meta_items types_value) (\<lambda>token_types.
     bind_res (meta_items merges_value) (\<lambda>merges. bind_res (jlist left_value) (\<lambda>left. bind_res (jlist right_value) (\<lambda>right.
     bind_res (stop_if (length tokens \<noteq> length token_types \<or> length merges \<noteq> length left \<or> length left \<noteq> length right)
       ''manifest tokenizer counts do not match source'') (\<lambda>_.
     written [header_section file manifest, metadata_section to_int to_double jrender manifest, token_section tokens,
       tokenizer_section to_int a tokenizer token_types left right, special_section to_int a, tensor_section plans,
       moe_section to_int manifest])))))))))))))))))))"

section \<open>Reading\<close>

text \<open>\<open>take\<close> and the readers on it; an \<open>Err\<close> is a \<open>ValueError\<close> with its message.\<close>

definition pv_take :: "nat \<Rightarrow> bytes parser" where
  "pv_take n r = (case r of (stream, pos) \<Rightarrow>
     if length stream < n then Inl (ValueError ''truncated conversion plan'')
     else Inr (take n stream, (drop n stream, pos + int n)))"

definition pv :: "nat \<Rightarrow> int parser" where
  "pv n = rbind (pv_take n) (\<lambda>b. rreturn (le_dec b))"

definition pv_blob :: "bytes parser" where
  "pv_blob = rbind (pv 8) (\<lambda>n. pv_take (nat n))"

definition pv_text :: "string parser" where
  "pv_text = rbind pv_blob (\<lambda>b. rlift (case decode_utf8 b of Inl _ \<Rightarrow> Inl (ValueError ''plan text is not UTF-8'') | Inr s \<Rightarrow> Inr s))"

definition pv_require :: "bool \<Rightarrow> string \<Rightarrow> unit parser" where
  "pv_require b msg = rlift (require b (ValueError msg))"

record plan_meta =
  mt_key :: int
  mt_required :: bool
  mt_kind :: int
  mt_bytes :: bytes

record plan_tensor =
  tp_name :: string
  tp_dims :: "int list"
  tp_repr :: int
  tp_offset :: int
  tp_bytes :: int
  tp_order :: int

record plan_moe =
  me_experts :: int
  me_active :: int
  me_layers :: int
  me_shared_count :: int
  me_shared :: bool

record conversion_plan =
  cp_base_shift :: int
  cp_source_size :: int
  cp_source_hash :: bytes
  cp_metadata :: "plan_meta list"
  cp_text :: bytes
  cp_offsets :: "int list"
  cp_types :: "int list"
  cp_left :: "int list"
  cp_right :: "int list"
  cp_add_bos :: bool
  cp_pre_tokenizer :: int
  cp_specials :: "(int \<times> int) list"
  cp_chat :: bytes
  cp_tensors :: "plan_tensor list"
  cp_moe :: "plan_moe option"

definition pv_meta :: "plan_meta parser" where
  "pv_meta = rbind (pv 2) (\<lambda>key. rbind (pv 1) (\<lambda>required. rbind (pv 1) (\<lambda>kind. rbind pv_blob (\<lambda>b.
     rreturn \<lparr>mt_key = key, mt_required = (required \<noteq> 0), mt_kind = kind, mt_bytes = b\<rparr>))))"

definition pv_list :: "nat \<Rightarrow> 'a parser \<Rightarrow> 'a list parser" where
  "pv_list width p = rbind (pv width) (\<lambda>n. rtimes (nat n) p)"

definition pv_special :: "(int \<times> int) parser" where
  "pv_special = rbind (pv 1) (\<lambda>role. rbind (pv 8) (\<lambda>v. rreturn (role, v)))"

definition pv_tensor :: "plan_tensor parser" where
  "pv_tensor = rbind pv_text (\<lambda>name. rbind (pv_list 1 (pv 8)) (\<lambda>dims. rbind (pv 1) (\<lambda>repr.
     rbind (pv_require (repr \<le> 15) ''unknown tensor representation in plan'') (\<lambda>_.
     rbind (pv 8) (\<lambda>offset. rbind (pv 8) (\<lambda>n. rbind (pv 4) (\<lambda>order.
     rreturn \<lparr>tp_name = name, tp_dims = dims, tp_repr = repr, tp_offset = offset, tp_bytes = n, tp_order = order\<rparr>)))))))"

definition pv_moe :: "plan_moe option parser" where
  "pv_moe = rbind (pv 1) (\<lambda>flag. if flag = 0 then rreturn None else
     rbind (pv 4) (\<lambda>experts. rbind (pv 4) (\<lambda>active. rbind (pv 4) (\<lambda>layers. rbind (pv 4) (\<lambda>shared_count. rbind (pv 1) (\<lambda>shared.
     rreturn (Some \<lparr>me_experts = experts, me_active = active, me_layers = layers, me_shared_count = shared_count,
       me_shared = (shared \<noteq> 0)\<rparr>)))))))"

definition pv_header :: "(int \<times> int \<times> bytes) parser" where
  "pv_header = rbind (pv_take 8) (\<lambda>magic. rbind (pv_require (magic = PLAN_MAGIC) ''conversion plan magic mismatch'') (\<lambda>_.
     rbind (pv 4) (\<lambda>version. rbind (pv_require (version = PLAN_VERSION) ''unsupported conversion plan version'') (\<lambda>_.
     rbind (pv 1) (\<lambda>base_shift. rbind (pv 1) (\<lambda>flag. rbind (pv_require (flag = 0) ''conversion plan flags are nonzero'') (\<lambda>_.
     rbind (pv 2) (\<lambda>flags. rbind (pv_require (flags = 0) ''conversion plan flags are nonzero'') (\<lambda>_.
     rbind (pv 8) (\<lambda>size. rbind (pv_take 32) (\<lambda>hash. rreturn (base_shift, size, hash))))))))))))"

definition pv_merges :: "(int list \<times> int list) parser" where
  "pv_merges = rbind (pv 8) (\<lambda>n. rbind (rtimes (nat n) (pv 4)) (\<lambda>left. rbind (rtimes (nat n) (pv 4)) (\<lambda>right.
     rreturn (left, right))))"

definition pv_plan :: "conversion_plan parser" where
  "pv_plan = rbind pv_header (\<lambda>(base_shift, size, hash). rbind (pv_list 2 pv_meta) (\<lambda>metadata.
     rbind pv_blob (\<lambda>text. rbind (pv_list 8 (pv 8)) (\<lambda>offsets. rbind (pv_list 8 (pv 4)) (\<lambda>types.
     rbind pv_merges (\<lambda>(left, right). rbind (pv 1) (\<lambda>add_bos. rbind (pv 1) (\<lambda>pre_tokenizer.
     rbind (pv_list 1 pv_special) (\<lambda>specials. rbind pv_blob (\<lambda>chat. rbind (pv_list 4 pv_tensor) (\<lambda>tensors.
     rbind pv_moe (\<lambda>moe.
     rreturn \<lparr>cp_base_shift = base_shift, cp_source_size = size, cp_source_hash = hash, cp_metadata = metadata,
       cp_text = text, cp_offsets = offsets, cp_types = types, cp_left = left, cp_right = right,
       cp_add_bos = (add_bos \<noteq> 0), cp_pre_tokenizer = pre_tokenizer, cp_specials = specials, cp_chat = chat,
       cp_tensors = tensors, cp_moe = moe\<rparr>))))))))))))"

definition parse_plan :: "bytes \<Rightarrow> conversion_plan res" where
  "parse_plan raw = bind_res (pv_plan (raw, 0)) (\<lambda>(plan, (rest, _)).
     if rest \<noteq> [] then Inl (ValueError ''conversion plan has trailing bytes'') else Inr plan)"

end
