(* ===== verification/Plan20_Roundtrip.thy ===== *)
theory Plan20_Roundtrip
  imports Plan20
begin

text \<open>
  The conversion plan, read back: each section of the file that \<open>build_plan\<close> writes is parsed by the
  reader of the converter to the entries of the manifest and of the artifact it was written from.
\<close>

section \<open>What the reader sees of each section\<close>

lemma written_simps:
  "written [] = Inr []" "written (p # ps) = bind_res p (\<lambda>b. bind_res (written ps) (\<lambda>bs. Inr (b @ bs)))"
  by (simp_all add: written_def bind_res_assoc)

lemma written_append: "written (ps @ qs) = bind_res (written ps) (\<lambda>b. bind_res (written qs) (\<lambda>bs. Inr (b @ bs)))"
proof -
  have "bind_res r Inr = r" for r :: "bytes res" by (cases r) simp_all
  then show ?thesis by (induction ps) (simp_all add: written_simps bind_res_assoc)
qed

lemma written_Cons_Inr: "written (p # ps) = Inr bs \<longleftrightarrow> (\<exists>b c. p = Inr b \<and> written ps = Inr c \<and> bs = b @ c)"
  by (auto simp: written_simps bind_res_Inr_iff)

lemma written_single: "written [p] = p"
  by (cases p) (simp_all add: written_simps)

lemma written_concat: "written ps = Inr bs \<longleftrightarrow> (\<exists>bss. list_all2 (\<lambda>p b. p = Inr b) ps bss \<and> bs = concat bss)"
  by (auto simp: written_def bind_res_Inr_iff map_res_list_all2)

lemma parses_take: "length bs = n \<Longrightarrow> parses (pv_take n) bs bs"
  by (simp add: parses_def pv_take_def)

lemma parses_pv: "pack_le n v = Inr bs \<Longrightarrow> parses (pv n) bs v"
  unfolding pv_def by (rule parses_bind_nil[OF parses_take]) (auto simp: le_dec_enc_id)

lemma parses_blob: "blob b = Inr bs \<Longrightarrow> parses pv_blob bs b"
  unfolding pv_blob_def blob_def
  by (auto simp: bind_res_Inr_iff simp del: pack_le_Inr intro!: parses_bind[OF parses_pv] parses_take)

lemma parses_text: "string_blob s = Inr bs \<Longrightarrow> utf8_valid (map of_char s) \<Longrightarrow> parses pv_text bs s"
proof -
  assume b: "string_blob s = Inr bs" and u: "utf8_valid (map of_char s)"
  have "parses pv_text (bs @ []) s" unfolding pv_text_def
    by (rule parses_bind[OF parses_blob[OF b[unfolded string_blob_def]] parses_lift]) (simp add: decode_str_bytes[OF u])
  then show ?thesis by simp
qed

lemma parses_require: "b \<Longrightarrow> parses (pv_require b msg) [] ()"
  by (simp add: pv_require_def parses_lift)

lemma parses_require_bind: "b \<Longrightarrow> parses (f ()) bs x \<Longrightarrow> parses (rbind (pv_require b msg) f) bs x"
  using parses_bind[OF parses_require] by fastforce

lemma u_json_Inr: "u_json n v = Inr bs \<longleftrightarrow> (\<exists>k. jint v = Inr k \<and> pack_le n k = Inr bs)"
  by (auto simp: u_json_def jint_def split: json.splits)

lemma u_int_Inr: "u_int to_int n v = Inr bs \<longleftrightarrow> (\<exists>k. py_int to_int v = Inr k \<and> pack_le n k = Inr bs)"
  by (simp add: u_int_def bind_res_Inr_iff)

text \<open>Lists: if every element is written so that the element reader reads it back, so is the list.\<close>

lemma parses_elements:
  assumes "list_all2 (\<lambda>r b. f r = Inr b) rows bss" and "\<And>r b. r \<in> set rows \<Longrightarrow> f r = Inr b \<Longrightarrow> \<exists>x. parses p b x \<and> Q r x"
  shows "\<exists>xs. list_all2 Q rows xs \<and> list_all2 (parses p) bss xs"
  using assms
proof (induction rule: list_all2_induct)
  case (Cons r rows b bss)
  then obtain x xs where "parses p b x" "Q r x" "list_all2 Q rows xs" "list_all2 (parses p) bss xs"
    by (metis list.set_intros)
  then show ?case by (intro exI[of _ "x # xs"]) simp
qed simp

lemma written_map: "written (map f rows) = Inr bs \<Longrightarrow> \<exists>bss. list_all2 (\<lambda>r b. f r = Inr b) rows bss \<and> bs = concat bss"
  by (auto simp: written_concat list_all2_map1)

lemma parses_rows:
  assumes "written (map f rows) = Inr bs" and "\<And>r b. r \<in> set rows \<Longrightarrow> f r = Inr b \<Longrightarrow> \<exists>x. parses p b x \<and> Q r x"
  shows "\<exists>xs. list_all2 Q rows xs \<and> parses (rtimes (length rows) p) bs xs"
proof -
  obtain bss where b: "list_all2 (\<lambda>r b. f r = Inr b) rows bss" "bs = concat bss" using written_map[OF assms(1)] by blast
  obtain xs where x: "list_all2 Q rows xs" "list_all2 (parses p) bss xs" using parses_elements[OF b(1), of p Q] assms(2) by blast
  then have "length xs = length rows" by (metis list_all2_lengthD)
  then show ?thesis using x parses_times[OF x(2)] b(2) by auto
qed

lemma parses_counted:
  assumes "written (pack_le w (int (length rows)) # map f rows) = Inr bs"
    and "\<And>r b. r \<in> set rows \<Longrightarrow> f r = Inr b \<Longrightarrow> \<exists>x. parses p b x \<and> Q r x"
  shows "\<exists>xs. list_all2 Q rows xs \<and> parses (pv_list w p) bs xs"
proof -
  obtain n cs where n: "pack_le w (int (length rows)) = Inr n" and cs: "written (map f rows) = Inr cs" and bs: "bs = n @ cs"
    using assms(1) by (auto simp: written_simps bind_res_Inr_iff simp del: pack_le_Inr)
  obtain xs where "list_all2 Q rows xs" "parses (rtimes (length rows) p) cs xs" using parses_rows[OF cs, of p Q] assms(2) by blast
  then show ?thesis unfolding bs pv_list_def
    by (intro exI[of _ xs] conjI parses_bind[OF parses_pv[OF n]]) simp_all
qed

lemma parses_header:
  assumes "header_section file manifest = Inr bs"
    and "jpath manifest [''source_identity'', ''sha256''] = Inr (JStr d)" "fromhex d = Inr h" "length h = 32"
  shows "\<exists>v k. jpath manifest [''conversion_options'', ''base_shift''] = Inr v \<and> jint v = Inr k \<and>
    parses pv_header bs (k, int (length file), h)"
proof -
  have z: "pack_le 1 0 = Inr [0]" "pack_le 2 0 = Inr [0, 0]" by (simp_all add: eval_nat_numeral)
  obtain v k b1 b2 b3 where v: "jpath manifest [''conversion_options'', ''base_shift''] = Inr v" "jint v = Inr k"
    and b: "pack_le 1 k = Inr b1" "pack_le 8 (int (length file)) = Inr b2" "pack_le 4 PLAN_VERSION = Inr b3"
    and bs: "bs = PLAN_MAGIC @ b3 @ b1 @ [0] @ [0, 0] @ b2 @ h @ []"
    using assms by (auto simp: header_section_def written_simps bind_res_Inr_iff u_json_Inr jstr_def z
        simp del: pack_le_Inr jpath.simps One_nat_def)
  have "parses pv_header bs (k, int (length file), h)"
    unfolding pv_header_def bs using assms(4)
    by (intro parses_bind[OF parses_take] parses_require_bind parses_bind[OF parses_pv[OF b(1)]] parses_bind[OF parses_pv[OF b(2)]]
        parses_bind[OF parses_pv[OF b(3)]] parses_bind[OF parses_pv[OF z(1)]] parses_bind[OF parses_pv[OF z(2)]] parses_return)
      (simp_all add: PLAN_MAGIC_def)
  then show ?thesis using v by blast
qed

text \<open>The content of the plan, entry by entry.\<close>

definition meta_written :: "(json \<Rightarrow> int res) \<Rightarrow> (json \<Rightarrow> bytes res) \<Rightarrow> (json \<Rightarrow> string) \<Rightarrow> int \<times> json \<Rightarrow> plan_meta \<Rightarrow> bool" where
  "meta_written to_int to_double jrender = (\<lambda>(key_id, row) m. \<exists>v. jget row ''source_value'' = Inr v \<and>
     mt_key m = key_id \<and> mt_required m = (key_id \<in> {1, 2, 3, 4, 5}) \<and>
     (if key_id = 1 then mt_kind m = 1 \<and> mt_bytes m = str_bytes (json_str jrender v)
      else if key_id \<in> {7, 8} then mt_kind m = 3 \<and> to_double v = Inr (mt_bytes m)
      else mt_kind m = 2 \<and> (\<exists>n. py_int to_int v = Inr n \<and> pack_le 8 n = Inr (mt_bytes m))))"

lemma parses_meta:
  assumes "metadata_record to_int to_double jrender r = Inr b"
  shows "\<exists>m. parses pv_meta b m \<and> meta_written to_int to_double jrender r m"
proof -
  obtain key_id row where r: "r = (key_id, row)" by (cases r)
  let ?req = "of_bool (key_id \<in> {1, 2, 3, 4, 5}) :: int"
  obtain v b1 b2 b3 where v: "jget row ''source_value'' = Inr v"
    and p: "pack_le 2 key_id = Inr b1" "pack_le 1 ?req = Inr b2" and b: "b = b1 @ b2 @ b3"
    and b3: "(if key_id = 1 then written [pack_le 1 1, string_blob (json_str jrender v)]
       else if key_id \<in> {7, 8} then written [pack_le 1 3, bind_res (to_double v) blob]
       else written [pack_le 1 2, bind_res (u_int to_int 8 v) blob]) = Inr b3"
    using assms unfolding metadata_record_def r prod.case bind_res_Inr_iff
      written_Cons_Inr[of "pack_le 2 key_id"] written_Cons_Inr[of "pack_le 1 ?req"] written_single by blast
  have "\<exists>kind c d e. b3 = d @ e \<and> pack_le 1 kind = Inr d \<and> blob c = Inr e \<and>
      (if key_id = 1 then kind = 1 \<and> c = str_bytes (json_str jrender v)
      else if key_id \<in> {7, 8} then kind = 3 \<and> to_double v = Inr c
      else kind = 2 \<and> (\<exists>n. py_int to_int v = Inr n \<and> pack_le 8 n = Inr c))"
    using b3 by (auto simp: written_simps bind_res_Inr_iff string_blob_def u_int_Inr simp del: pack_le_Inr split: if_splits)
  then obtain kind c d e where k: "b3 = d @ e" "pack_le 1 kind = Inr d" "blob c = Inr e"
    "if key_id = 1 then kind = 1 \<and> c = str_bytes (json_str jrender v)
      else if key_id \<in> {7, 8} then kind = 3 \<and> to_double v = Inr c
      else kind = 2 \<and> (\<exists>n. py_int to_int v = Inr n \<and> pack_le 8 n = Inr c)" by blast
  let ?m = "\<lparr>mt_key = key_id, mt_required = (?req \<noteq> 0), mt_kind = kind, mt_bytes = c\<rparr>"
  have "parses pv_meta (b1 @ b2 @ d @ e @ []) ?m"
    unfolding pv_meta_def
    by (intro parses_bind[OF parses_pv[OF p(1)]] parses_bind[OF parses_pv[OF p(2)]] parses_bind[OF parses_pv[OF k(2)]]
        parses_bind[OF parses_blob[OF k(3)]] parses_return)
  moreover have "meta_written to_int to_double jrender r ?m"
    using v k(4) by (auto simp: meta_written_def r)
  ultimately show ?thesis using b k(1) by auto
qed

definition tensor_written :: "json \<Rightarrow> plan_tensor \<Rightarrow> bool" where
  "tensor_written row t \<longleftrightarrow> jget row ''target_name'' = Inr (JStr (tp_name t)) \<and>
     bind_res (jget_list row ''source_shape'') (map_res jint) = Inr (tp_dims t) \<and>
     bind_res (jget_str row ''target_representation'') (lookup_res REPRESENTATIONS) = Inr (tp_repr t) \<and>
     bind_res (jget row ''source_offset'') jint = Inr (tp_offset t) \<and>
     bind_res (jget row ''source_payload_bytes'') jint = Inr (tp_bytes t) \<and>
     bind_res (jget row ''target_order'') jint = Inr (tp_order t)"

lemma jget_str_Inr: "jget_str d k = Inr s \<longleftrightarrow> jget d k = Inr (JStr s)"
proof -
  have "jstr v = Inr s \<longleftrightarrow> v = JStr s" for v by (cases v) (auto simp: jstr_def)
  then show ?thesis by (auto simp: jget_str_def bind_res_Inr_iff)
qed

lemma representation_code: "lookup_res REPRESENTATIONS r = Inr n \<Longrightarrow> 0 \<le> n \<and> n \<le> 15"
  by (auto simp: REPRESENTATIONS_def lookup_res_def split: if_splits option.splits)

lemma parses_tensor_record:
  assumes "tensor_record row = Inr b" and "\<And>s. jget row ''target_name'' = Inr (JStr s) \<Longrightarrow> utf8_valid (map of_char s)"
  shows "\<exists>t. parses pv_tensor b t \<and> tensor_written row t"
proof -
  obtain name shape r repr v1 off v2 n v3 order b1 b2 b3 b4 b5 b6 where
    name: "jget row ''target_name'' = Inr (JStr name)" "string_blob name = Inr b1"
    and shape: "jget_list row ''source_shape'' = Inr shape"
      "written (pack_le 1 (int (length shape)) # map (u_json 8) shape) = Inr b2"
    and repr: "jget_str row ''target_representation'' = Inr r" "lookup_res REPRESENTATIONS r = Inr repr" "pack_le 1 repr = Inr b3"
    and off: "jget row ''source_offset'' = Inr v1" "jint v1 = Inr off" "pack_le 8 off = Inr b4"
    and n: "jget row ''source_payload_bytes'' = Inr v2" "jint v2 = Inr n" "pack_le 8 n = Inr b5"
    and order: "jget row ''target_order'' = Inr v3" "jint v3 = Inr order" "pack_le 4 order = Inr b6"
    and b: "b = b1 @ b2 @ b3 @ b4 @ b5 @ b6"
    using assms(1) unfolding tensor_record_def written_simps(2)[of _ "[_, _, _, _, _]"] written_simps(2)[of _ "[_, _, _, _]"]
      written_simps(2)[of _ "[_, _, _]"] written_simps(2)[of _ "[_, _]"] written_simps(2)[of _ "[_]"] written_simps(2)[of _ "[]"]
      written_simps(1)
    by (auto simp: bind_res_Inr_iff u_json_Inr jget_str_Inr simp del: pack_le_Inr)
  have "\<And>v c. v \<in> set shape \<Longrightarrow> u_json 8 v = Inr c \<Longrightarrow> \<exists>k. parses (pv 8) c k \<and> jint v = Inr k"
    using parses_pv by (auto simp: u_json_Inr simp del: pack_le_Inr)
  from parses_counted[OF shape(2), where p = "pv 8" and Q = "\<lambda>v k. jint v = Inr k", OF this] obtain dims where
    dims: "list_all2 (\<lambda>v k. jint v = Inr k) shape dims" "parses (pv_list 1 (pv 8)) b2 dims" by blast
  let ?t = "\<lparr>tp_name = name, tp_dims = dims, tp_repr = repr, tp_offset = off, tp_bytes = n, tp_order = order\<rparr>"
  have "parses pv_tensor (b1 @ b2 @ b3 @ b4 @ b5 @ b6 @ []) ?t"
    unfolding pv_tensor_def
    by (intro parses_bind[OF parses_text[OF name(2) assms(2)[OF name(1)]]] parses_bind[OF dims(2)]
        parses_bind[OF parses_pv[OF repr(3)]] parses_require_bind[OF representation_code[OF repr(2), THEN conjunct2]] parses_bind[OF parses_pv[OF off(3)]] parses_bind[OF parses_pv[OF n(3)]] parses_bind[OF parses_pv[OF order(3)]]
        parses_return)
  moreover have "tensor_written row ?t"
    using name shape repr off n order dims(1) by (simp add: tensor_written_def map_res_list_all2)
  ultimately show ?thesis using b by auto
qed

lemma parses_metadata:
  assumes "metadata_section to_int to_double jrender manifest = Inr bs"
  shows "\<exists>rows ms. metadata_rows manifest = Inr rows \<and> list_all2 (meta_written to_int to_double jrender) rows ms \<and>
    parses (pv_list 2 pv_meta) bs ms"
proof -
  obtain rows where r: "metadata_rows manifest = Inr rows"
    and w: "written (pack_le 2 (int (length rows)) # map (metadata_record to_int to_double jrender) rows) = Inr bs"
    using assms by (auto simp: metadata_section_def bind_res_Inr_iff)
  from parses_counted[OF w, where p = pv_meta and Q = "meta_written to_int to_double jrender", OF parses_meta] r
  show ?thesis by blast
qed

lemma written_split: "written (ps @ qs) = Inr bs \<longleftrightarrow> (\<exists>b c. written ps = Inr b \<and> written qs = Inr c \<and> bs = b @ c)"
  by (auto simp: written_append bind_res_Inr_iff)

lemma parses_tokens:
  assumes "token_section tokens = Inr bs"
  shows "\<exists>texts b c. map_res encoded tokens = Inr texts \<and> bs = b @ c \<and> parses pv_blob b (concat texts) \<and>
    parses (pv_list 8 (pv 8)) c (offsets_from 0 texts)"
proof -
  obtain texts b c where t: "map_res encoded tokens = Inr texts" and bs: "bs = b @ c" and b: "blob (concat texts) = Inr b"
    and c: "written (pack_le 8 (int (length (offsets_from 0 texts))) # map (pack_le 8) (offsets_from 0 texts)) = Inr c"
    using assms by (auto simp: token_section_def bind_res_Inr_iff Let_def written_Cons_Inr[of "blob _"] simp del: pack_le_Inr)
  have "\<And>r d. pack_le 8 r = Inr d \<Longrightarrow> \<exists>x. parses (pv 8) d x \<and> r = x" using parses_pv by blast
  from parses_counted[OF c, where p = "pv 8" and Q = "(=)", OF this] obtain xs
    where "list_all2 (=) (offsets_from 0 texts) xs" "parses (pv_list 8 (pv 8)) c xs" by blast
  then show ?thesis using t bs parses_blob[OF b] by (auto simp: list.rel_eq)
qed

lemma parses_ints:
  "f = u_int to_int n \<Longrightarrow> f r = Inr d \<Longrightarrow> \<exists>x. parses (pv n) d x \<and> py_int to_int r = Inr x"
  using parses_pv by (auto simp: u_int_Inr simp del: pack_le_Inr)

lemma parses_tokenizer:
  assumes w: "tokenizer_section to_int a tokenizer token_types left right = Inr bs" and len: "length right = length left"
  shows "\<exists>types ls rs flag pre b1 b2 b3 b4. bs = b1 @ b2 @ b3 @ b4 \<and> parses (pv_list 8 (pv 4)) b1 types \<and>
    parses pv_merges b2 (ls, rs) \<and> parses (pv 1) b3 flag \<and> parses (pv 1) b4 pre \<and>
    list_all2 (\<lambda>v n. py_int to_int (meta_json v) = Inr n) token_types types \<and>
    list_all2 (\<lambda>v n. py_int to_int v = Inr n) left ls \<and> list_all2 (\<lambda>v n. py_int to_int v = Inr n) right rs"
proof -
  have split: "pack_le 8 (int (length token_types)) # map (u_int to_int 4 \<circ> meta_json) token_types @
      pack_le 8 (int (length left)) # map (u_int to_int 4) left @ map (u_int to_int 4) right @ rest =
    (pack_le 8 (int (length token_types)) # map (u_int to_int 4 \<circ> meta_json) token_types) @
      [pack_le 8 (int (length left))] @ map (u_int to_int 4) left @ map (u_int to_int 4) right @ rest" for rest by simp
  obtain b1 n c1 c2 b3 b4 f p where b: "bs = b1 @ (n @ c1 @ c2) @ b3 @ b4"
    and b1: "written (pack_le 8 (int (length token_types)) # map (u_int to_int 4 \<circ> meta_json) token_types) = Inr b1"
    and n: "pack_le 8 (int (length left)) = Inr n"
    and c: "written (map (u_int to_int 4) left) = Inr c1" "written (map (u_int to_int 4) right) = Inr c2"
    and f: "pack_le 1 f = Inr b3" and p: "pack_le 1 p = Inr b4"
    using w unfolding tokenizer_section_def split written_split written_Cons_Inr[of _ "[]"] written_Cons_Inr[of _ "[_]"]
    by (auto simp: bind_res_Inr_iff u_int_Inr written_simps(1) simp del: pack_le_Inr)
  have "\<And>r d. (u_int to_int 4 \<circ> meta_json) r = Inr d \<Longrightarrow> \<exists>x. parses (pv 4) d x \<and> py_int to_int (meta_json r) = Inr x"
    using parses_ints by auto
  from parses_counted[OF b1, where p = "pv 4" and Q = "\<lambda>v n. py_int to_int (meta_json v) = Inr n", OF this] obtain types
    where t: "list_all2 (\<lambda>v n. py_int to_int (meta_json v) = Inr n) token_types types" "parses (pv_list 8 (pv 4)) b1 types" by blast
  note rows = parses_rows[where p = "pv 4" and Q = "\<lambda>v n. py_int to_int v = Inr n", OF _ parses_ints[OF refl]]
  obtain ls where l: "list_all2 (\<lambda>v n. py_int to_int v = Inr n) left ls" "parses (rtimes (length left) (pv 4)) c1 ls"
    using rows[OF c(1)] by blast
  obtain rs where r: "list_all2 (\<lambda>v n. py_int to_int v = Inr n) right rs" "parses (rtimes (length left) (pv 4)) c2 rs"
    using rows[OF c(2)] unfolding len by blast
  have "parses pv_merges (n @ c1 @ c2 @ []) (ls, rs)" unfolding pv_merges_def
    by (rule parses_bind[OF parses_pv[OF n]], simp only: nat_int,
      intro parses_bind[OF l(2)] parses_bind[OF r(2)] parses_return)
  then have m: "parses pv_merges (n @ c1 @ c2) (ls, rs)" by simp
  show ?thesis
    by (intro exI conjI, rule b, rule t(2), rule m, rule parses_pv[OF f], rule parses_pv[OF p], rule t(1), rule l(1), rule r(1))
qed

lemma written_concat_map: "written (concat (map g xs)) = written (map (\<lambda>x. written (g x)) xs)"
  by (induction xs) (simp_all add: written_append written_simps)

definition special_written :: "(json \<Rightarrow> int res) \<Rightarrow> string \<times> meta_value \<Rightarrow> int \<times> int \<Rightarrow> bool" where
  "special_written to_int = (\<lambda>(role, v) (i, n). lookup_res plan_ROLE_IDS role = Inr i \<and> py_int to_int (meta_json v) = Inr n)"

lemma parses_specials:
  assumes "special_section to_int a = Inr bs"
  shows "\<exists>specials chat b c. bs = b @ c \<and> parses (pv_list 1 pv_special) b specials \<and> parses pv_blob c chat"
proof -
  let ?pair = "\<lambda>(role, v). [bind_res (lookup_res plan_ROLE_IDS role) (pack_le 1), u_int to_int 8 (meta_json v)]"
  let ?chat = "bind_res (lookup_res (ar_metadata a) ''tokenizer.chat_template'') (\<lambda>v. bind_res (encoded v) blob)"
  obtain xs where "written (pack_le 1 (int (length xs)) # concat (map ?pair xs) @ [?chat]) = Inr bs"
    using assms unfolding special_section_def bind_res_Inr_iff by blast
  then have "written ((pack_le 1 (int (length xs)) # concat (map ?pair xs)) @ [?chat]) = Inr bs" by simp
  then obtain b c where b: "written (pack_le 1 (int (length xs)) # concat (map ?pair xs)) = Inr b"
    and w: "written [?chat] = Inr c" and bs: "bs = b @ c"
    unfolding written_split by blast
  obtain chat where c: "blob chat = Inr c" using w by (auto simp: written_simps bind_res_Inr_iff)
  have "written (pack_le 1 (int (length xs)) # map (\<lambda>x. written (?pair x)) xs) = Inr b"
    using b by (simp add: written_simps written_concat_map)
  moreover have "\<And>r d. written (?pair r) = Inr d \<Longrightarrow> \<exists>x. parses pv_special d x \<and> special_written to_int r x"
  proof -
    fix r d assume "written (?pair r) = Inr d"
    then obtain role v i n d1 d2 where r: "r = (role, v)" "lookup_res plan_ROLE_IDS role = Inr i" "pack_le 1 i = Inr d1"
      "py_int to_int (meta_json v) = Inr n" "pack_le 8 n = Inr d2" "d = d1 @ d2"
      by (cases r) (auto simp: written_simps bind_res_Inr_iff u_int_Inr simp del: pack_le_Inr)
    have "parses pv_special (d1 @ d2 @ []) (i, n)" unfolding pv_special_def
      by (intro parses_bind[OF parses_pv[OF r(3)]] parses_bind[OF parses_pv[OF r(5)]] parses_return)
    then show "\<exists>x. parses pv_special d x \<and> special_written to_int r x"
      using r by (intro exI[of _ "(i, n)"]) (simp add: special_written_def)
  qed
  ultimately obtain specials where "parses (pv_list 1 pv_special) b specials"
    using parses_counted[where p = pv_special and Q = "special_written to_int"] by blast
  then show ?thesis using bs parses_blob[OF c] by blast
qed

lemma parses_tensors_section:
  assumes "tensor_section plans = Inr bs"
    and "\<And>row s. row \<in> set plans \<Longrightarrow> jget row ''target_name'' = Inr (JStr s) \<Longrightarrow> utf8_valid (map of_char s)"
  shows "\<exists>ts. list_all2 tensor_written plans ts \<and> parses (pv_list 4 pv_tensor) bs ts"
  by (rule parses_counted[OF assms(1)[unfolded tensor_section_def]]) (use parses_tensor_record assms(2) in blast)

lemma parses_moe:
  assumes "moe_section to_int manifest = Inr bs"
  shows "\<exists>m. parses pv_moe bs m"
proof -
  obtain moe where w: "(if moe = JNull then pack_le 1 0 else
     written (pack_le 1 1 # map (\<lambda>key. bind_res (jget moe key) (u_int to_int 4))
         [''expert_count'', ''active_expert_count'', ''layer_count'', ''shared_expert_count''] @
       [bind_res (jget moe ''shared_experts'') (\<lambda>v. pack_le 1 (of_bool (json_bool v)))])) = Inr bs"
    using assms unfolding moe_section_def bind_res_Inr_iff by blast
  consider "pack_le 1 0 = Inr bs" | b0 b1 b2 b3 b4 b5 n1 n2 n3 n4 f where "pack_le 1 1 = Inr b0"
      "pack_le 4 n1 = Inr b1" "pack_le 4 n2 = Inr b2" "pack_le 4 n3 = Inr b3" "pack_le 4 n4 = Inr b4" "pack_le 1 f = Inr b5"
      "bs = b0 @ b1 @ b2 @ b3 @ b4 @ b5 @ []"
    using w by (cases "moe = JNull") (auto simp: written_simps bind_res_Inr_iff u_int_Inr simp del: pack_le_Inr One_nat_def)
  then show ?thesis
  proof cases
    case 1
    have "parses pv_moe (bs @ []) None" unfolding pv_moe_def by (rule parses_bind[OF parses_pv[OF 1]]) (simp add: parses_return)
    then show ?thesis by auto
  next
    case 2
    have "parses pv_moe bs (Some \<lparr>me_experts = n1, me_active = n2, me_layers = n3, me_shared_count = n4, me_shared = (f \<noteq> 0)\<rparr>)"
      unfolding pv_moe_def 2(7)
      by (rule parses_bind[OF parses_pv[OF 2(1)]], simp only: one_neq_zero if_False,
        intro parses_bind[OF parses_pv[OF 2(2)]] parses_bind[OF parses_pv[OF 2(3)]] parses_bind[OF parses_pv[OF 2(4)]]
        parses_bind[OF parses_pv[OF 2(5)]] parses_bind[OF parses_pv[OF 2(6)]] parses_return)
    then show ?thesis by blast
  qed
qed

section \<open>The plan file\<close>

lemma jeq_JStr: "jeq v (JStr s) \<longleftrightarrow> v = JStr s"
  by (cases v) auto

lemma jeq_JInt_value: "jeq v (JInt n) \<Longrightarrow> jint v = Inr k \<Longrightarrow> k = n"
  by (cases v) (auto simp: jint_def same_number_def)

lemma jeq_opt_value: "jeq v (opt_json m) \<Longrightarrow> jint v = Inr k \<Longrightarrow> m = Some k"
proof (cases m)
  case None
  assume "jeq v (opt_json m)" "jint v = Inr k"
  then show ?thesis using None by (cases v) (auto simp: opt_json_def jint_def)
qed (auto simp: opt_json_def dest: jeq_JInt_value)

lemma hkey_JStr: "hkey v = Inr (JStr s) \<longleftrightarrow> v = JStr s"
proof -
  have "decimal_key m e \<noteq> JStr s" for m e by (induction m e rule: decimal_key.induct) auto
  then show ?thesis by (cases v) auto
qed

lemma sources_by_name_Some: "map_of (sources_by_name a) s = Some t \<Longrightarrow> tn_name t = s \<and> t \<in> set (ar_tensors a)"
proof -
  have "map_of (fold (\<lambda>t d. AList.update (tn_name t) t d) ts []) s = Some t \<Longrightarrow> tn_name t = s \<and> t \<in> set ts" for ts
    by (induction ts rule: rev_induct) (auto simp: update_conv' split: if_splits)
  then show "map_of (sources_by_name a) s = Some t \<Longrightarrow> ?thesis" by (simp add: sources_by_name_def)
qed

lemma check_rowE:
  assumes "check_row by_name row = Inr ()"
  obtains s t off where "jget row ''target_name'' = Inr (JStr s)" "map_of by_name s = Some t"
    "jget row ''source_offset'' = Inr off" "jeq off (JInt (tn_absolute_start t))"
    "\<exists>n. jget row ''source_payload_bytes'' = Inr n \<and> jeq n (opt_json (tn_payload_size t))"
proof -
  obtain name src where name: "jget row ''source_name'' = Inr name" and src: "source_of by_name name = Inr src"
    and rest: "src \<noteq> None" using assms by (auto simp: check_row_def bind_res_Inr_iff split: option.splits)
  obtain t where t: "src = Some t" using rest by blast
  have s: "\<exists>s. name = JStr s \<and> map_of by_name s = Some t"
  proof -
    obtain k where "hkey name = Inr k" "(case k of JStr s \<Rightarrow> Inr (map_of by_name s) | _ \<Rightarrow> Inr None) = (Inr (Some t) :: tensor option res)"
      using src unfolding source_of_def t bind_res_Inr_iff by blast
    then show ?thesis by (cases k) (auto simp: hkey_JStr)
  qed
  then obtain s where s: "name = JStr s" "map_of by_name s = Some t" by blast
  obtain target off where "jget row ''target_name'' = Inr target" "jeq target name"
    "jget row ''source_offset'' = Inr off" "jeq off (JInt (tn_absolute_start t))"
    "\<exists>n. jget row ''source_payload_bytes'' = Inr n \<and> jeq n (opt_json (tn_payload_size t))"
    using assms unfolding check_row_def name bind_res_simps src t option.case
    by (auto simp: bind_res_Inr_iff stop_if_def simp del: jeq.simps split: if_splits)
  then show thesis using that s by (simp add: jeq_JStr)
qed

text \<open>A tensor of the plan is written from its row and copies the range of the source tensor of its name.\<close>

definition copies_source :: "artifact \<Rightarrow> json \<Rightarrow> plan_tensor \<Rightarrow> bool" where
  "copies_source a row t \<longleftrightarrow> tensor_written row t \<and> (\<exists>s. map_of (sources_by_name a) (tp_name t) = Some s \<and>
     tp_offset t = tn_absolute_start s \<and> tn_payload_size s = Some (tp_bytes t))"

lemma copies_sourceI:
  assumes "check_row (sources_by_name a) row = Inr ()" "tensor_written row t"
  shows "copies_source a row t"
proof -
  obtain s src off where r: "jget row ''target_name'' = Inr (JStr s)" "map_of (sources_by_name a) s = Some src"
    "jget row ''source_offset'' = Inr off" "jeq off (JInt (tn_absolute_start src))"
    "\<exists>n. jget row ''source_payload_bytes'' = Inr n \<and> jeq n (opt_json (tn_payload_size src))"
    using check_rowE[OF assms(1)] by metis
  then obtain n where n: "jget row ''source_payload_bytes'' = Inr n" "jeq n (opt_json (tn_payload_size src))" by blast
  have w: "s = tp_name t" "jint off = Inr (tp_offset t)" "jint n = Inr (tp_bytes t)"
    using assms(2) r(1,3) n(1) by (auto simp: tensor_written_def)
  show ?thesis
    using assms(2) r(2) jeq_JInt_value[OF r(4) w(2)] jeq_opt_value[OF n(2) w(3)] by (auto simp: copies_source_def w(1))
qed

lemma list_all2_each:
  "list_all2 P xs ys \<Longrightarrow> each f xs = Inr () \<Longrightarrow> (\<And>x y. f x = Inr () \<Longrightarrow> P x y \<Longrightarrow> Q x y) \<Longrightarrow> list_all2 Q xs ys"
  by (induction rule: list_all2_induct) (auto simp: bind_res_Inr_iff)

lemma policy_base_shift:
  assumes "check_policy to_int manifest integrity = Inr ()" "jpath manifest [''conversion_options'', ''base_shift''] = Inr v" "jint v = Inr k"
  shows "3 \<le> k \<and> k \<le> 8"
proof -
  obtain kvs where o: "jget manifest ''conversion_options'' = Inr (JObj kvs)" "lookup_res kvs ''base_shift'' = Inr v"
  proof -
    obtain opts where "jget manifest ''conversion_options'' = Inr opts" "jget opts ''base_shift'' = Inr v"
      using assms(2) by (auto simp: bind_res_Inr_iff)
    then show thesis using that by (cases opts) (auto simp: jget_def)
  qed
  have v: "get_default kvs ''base_shift'' (JInt (- 1)) = v" using o(2) by (auto simp: get_default_def lookup_res_def split: option.splits)
  have "py_int to_int v = Inr k" using assms(3) by (cases v) (auto simp: jint_def py_int_def)
  then show ?thesis
    using assms(1) unfolding check_policy_def o(1)
    by (auto simp: bind_res_Inr_iff stop_if_def jget_default_def v split: if_splits)
qed

lemma identity_digest:
  assumes "check_identity digest file identity = Inr ()"
  shows "jget identity ''sha256'' = Inr (JStr (digest file))"
  using assms by (auto simp: check_identity_def bind_res_Inr_iff stop_if_def jeq_JStr split: if_splits)

lemma ex_unit: "(\<exists>u :: unit. P u) \<longleftrightarrow> P ()"
  by (metis unit.exhaust)

lemma build_plan_parts:
  assumes "build_plan digest to_int to_double jrender file manifest a integrity = Inr raw"
  obtains identity plans tokenizer toks types left right where
    "jget manifest ''source_identity'' = Inr identity" "check_identity digest file identity = Inr ()"
    "check_policy to_int manifest integrity = Inr ()" "sorted_plans manifest = Inr plans"
    "length plans = length (sources_by_name a)" "each (check_row (sources_by_name a)) plans = Inr ()"
    "meta_field a ''tokenizer.ggml.tokens'' = Inr toks" "length types = length toks" "length right = length left"
    "written [header_section file manifest, metadata_section to_int to_double jrender manifest, token_section toks,
       tokenizer_section to_int a tokenizer types left right, special_section to_int a, tensor_section plans,
       moe_section to_int manifest] = Inr raw"
    "bind_res (jpath manifest [''tokenizer_conversion_plan'', ''merge_left_ids'']) jlist = Inr left"
    "bind_res (jpath manifest [''tokenizer_conversion_plan'', ''merge_right_ids'']) jlist = Inr right"
proof -
  from assms[unfolded build_plan_def Let_def bind_res_Inr_iff ex_unit] obtain identity plans tokenizer tv yv mv lv rv toks types merges left right where
    *: "jget manifest ''source_identity'' = Inr identity" "check_identity digest file identity = Inr ()"
    "check_policy to_int manifest integrity = Inr ()" "sorted_plans manifest = Inr plans"
    "stop_if (length plans \<noteq> length (sources_by_name a)) ''manifest tensor count mismatch'' = Inr ()"
    "each (check_row (sources_by_name a)) plans = Inr ()" "jget manifest ''tokenizer_conversion_plan'' = Inr tokenizer"
    "lookup_res (ar_metadata a) ''tokenizer.ggml.tokens'' = Inr tv"
    "lookup_res (ar_metadata a) ''tokenizer.ggml.token_type'' = Inr yv" "lookup_res (ar_metadata a) ''tokenizer.ggml.merges'' = Inr mv"
    "jget tokenizer ''merge_left_ids'' = Inr lv" "jget tokenizer ''merge_right_ids'' = Inr rv"
    "meta_items tv = Inr toks" "meta_items yv = Inr types" "meta_items mv = Inr merges" "jlist lv = Inr left" "jlist rv = Inr right"
    "stop_if (length toks \<noteq> length types \<or> length merges \<noteq> length left \<or> length left \<noteq> length right)
       ''manifest tokenizer counts do not match source'' = Inr ()"
    "written [header_section file manifest, metadata_section to_int to_double jrender manifest, token_section toks,
       tokenizer_section to_int a tokenizer types left right, special_section to_int a, tensor_section plans,
       moe_section to_int manifest] = Inr raw"
    by (elim exE conjE) (rule that)
  have len: "length plans = length (sources_by_name a)" "length types = length toks" "length right = length left"
    using *(5,18) by (auto simp: stop_if_def split: if_splits)
  show thesis by (rule that[OF *(1-4) len(1) *(6) _ len(2,3) *(19)]) (simp_all add: *(7-17) meta_field_def)
qed

text \<open>The texts of the vocabulary, as the converter encodes them.\<close>

definition token_texts :: "artifact \<Rightarrow> bytes list res" where
  "token_texts a = bind_res (meta_field a ''tokenizer.ggml.tokens'') (map_res encoded)"

definition merge_ids :: "(json \<Rightarrow> int res) \<Rightarrow> json \<Rightarrow> string \<Rightarrow> int list res" where
  "merge_ids to_int manifest k = bind_res (jpath manifest [''tokenizer_conversion_plan'', k]) (\<lambda>v.
     bind_res (jlist v) (map_res (py_int to_int)))"

lemma plan_read_back:
  assumes built: "build_plan digest to_int to_double jrender file manifest a integrity = Inr raw"
    and hash: "fromhex (digest file) = Inr h" "length h = 32"
    and names: "list_all (\<lambda>t. utf8_valid (map of_char (tn_name t))) (ar_tensors a)"
  shows "\<exists>p plans texts rows. parse_plan raw = Inr p \<and>
    cp_source_size p = int (length file) \<and> cp_source_hash p = h \<and> 3 \<le> cp_base_shift p \<and> cp_base_shift p \<le> 8 \<and>
    sorted_plans manifest = Inr plans \<and> length plans = length (sources_by_name a) \<and>
    list_all2 (copies_source a) plans (cp_tensors p) \<and>
    token_texts a = Inr texts \<and> cp_text p = concat texts \<and> cp_offsets p = offsets_from 0 texts \<and>
    length (cp_types p) = length texts \<and>
    merge_ids to_int manifest ''merge_left_ids'' = Inr (cp_left p) \<and> merge_ids to_int manifest ''merge_right_ids'' = Inr (cp_right p) \<and>
    metadata_rows manifest = Inr rows \<and> list_all2 (meta_written to_int to_double jrender) rows (cp_metadata p)"
proof -
  obtain identity plans tokenizer toks types left right where
    *: "jget manifest ''source_identity'' = Inr identity" "check_identity digest file identity = Inr ()"
    "check_policy to_int manifest integrity = Inr ()" "sorted_plans manifest = Inr plans"
    "length plans = length (sources_by_name a)" "each (check_row (sources_by_name a)) plans = Inr ()"
    "meta_field a ''tokenizer.ggml.tokens'' = Inr toks" "length types = length toks" "length right = length left"
    "written [header_section file manifest, metadata_section to_int to_double jrender manifest, token_section toks,
       tokenizer_section to_int a tokenizer types left right, special_section to_int a, tensor_section plans,
       moe_section to_int manifest] = Inr raw"
    "bind_res (jpath manifest [''tokenizer_conversion_plan'', ''merge_left_ids'']) jlist = Inr left"
    "bind_res (jpath manifest [''tokenizer_conversion_plan'', ''merge_right_ids'']) jlist = Inr right"
    by (rule build_plan_parts[OF built])
  obtain s1 s2 s3 s4 s5 s6 s7 where s: "header_section file manifest = Inr s1"
    "metadata_section to_int to_double jrender manifest = Inr s2" "token_section toks = Inr s3"
    "tokenizer_section to_int a tokenizer types left right = Inr s4" "special_section to_int a = Inr s5"
    "tensor_section plans = Inr s6" "moe_section to_int manifest = Inr s7"
    and raw: "raw = s1 @ s2 @ s3 @ s4 @ s5 @ s6 @ s7 @ []"
    using *(10) unfolding written_Cons_Inr written_simps(1) by auto
  have "jpath manifest [''source_identity'', ''sha256''] = Inr (JStr (digest file))"
    using identity_digest[OF *(2)] *(1) by simp
  from parses_header[OF s(1) this hash] obtain v k where k: "jpath manifest [''conversion_options'', ''base_shift''] = Inr v"
    "jint v = Inr k" "parses pv_header s1 (k, int (length file), h)" by blast
  obtain rows ms where m: "metadata_rows manifest = Inr rows" "list_all2 (meta_written to_int to_double jrender) rows ms"
    "parses (pv_list 2 pv_meta) s2 ms" using parses_metadata[OF s(2)] by blast
  obtain texts t1 t2 where t: "map_res encoded toks = Inr texts" "s3 = t1 @ t2" "parses pv_blob t1 (concat texts)"
    "parses (pv_list 8 (pv 8)) t2 (offsets_from 0 texts)" using parses_tokens[OF s(3)] by blast
  obtain tys ls rs flag pre b1 b2 b3 b4 where b: "s4 = b1 @ b2 @ b3 @ b4" "parses (pv_list 8 (pv 4)) b1 tys"
    "parses pv_merges b2 (ls, rs)" "parses (pv 1) b3 flag" "parses (pv 1) b4 pre"
    "list_all2 (\<lambda>v n. py_int to_int (meta_json v) = Inr n) types tys"
    "list_all2 (\<lambda>v n. py_int to_int v = Inr n) left ls" "list_all2 (\<lambda>v n. py_int to_int v = Inr n) right rs"
    using parses_tokenizer[OF s(4) *(9)] by blast
  obtain specials chat c1 c2 where c: "s5 = c1 @ c2" "parses (pv_list 1 pv_special) c1 specials" "parses pv_blob c2 chat"
    using parses_specials[OF s(5)] by blast
  have valid: "utf8_valid (map of_char s)" if "row \<in> set plans" "jget row ''target_name'' = Inr (JStr s)" for row s
  proof -
    have "check_row (sources_by_name a) row = Inr ()" using *(6) that(1) by (simp add: each_Inr)
    then obtain s' t where "jget row ''target_name'' = Inr (JStr s')" "map_of (sources_by_name a) s' = Some t"
      by (rule check_rowE) blast
    then show ?thesis using that(2) sources_by_name_Some names by (force simp: list_all_iff)
  qed
  obtain ts where ts: "list_all2 tensor_written plans ts" "parses (pv_list 4 pv_tensor) s6 ts"
    using parses_tensors_section[OF s(6)] valid by blast
  obtain moe where moe: "parses pv_moe s7 moe" using parses_moe[OF s(7)] by blast
  let ?p = "\<lparr>cp_base_shift = k, cp_source_size = int (length file), cp_source_hash = h, cp_metadata = ms,
       cp_text = concat texts, cp_offsets = offsets_from 0 texts, cp_types = tys, cp_left = ls, cp_right = rs,
       cp_add_bos = (flag \<noteq> 0), cp_pre_tokenizer = pre, cp_specials = specials, cp_chat = chat, cp_tensors = ts, cp_moe = moe\<rparr>"
  have "parses pv_plan (s1 @ s2 @ t1 @ t2 @ b1 @ b2 @ b3 @ b4 @ c1 @ c2 @ s6 @ s7 @ []) ?p"
    unfolding pv_plan_def
    by (rule parses_bind[OF k(3)], simp only: prod.case,
      intro parses_bind[OF m(3)] parses_bind[OF t(3)] parses_bind[OF t(4)] parses_bind[OF b(2)], rule parses_bind[OF b(3)],
      simp only: prod.case, intro parses_bind[OF b(4)] parses_bind[OF b(5)] parses_bind[OF c(2)] parses_bind[OF c(3)]
      parses_bind[OF ts(2)] parses_bind[OF moe] parses_return)
  then have "pv_plan (raw @ [], 0) = Inr (?p, ([], int (length raw)))"
    unfolding parses_def raw t(2) b(1) c(1) append_assoc by (metis add_0)
  then have "parse_plan raw = Inr ?p" by (simp add: parse_plan_def)
  moreover have "list_all2 (copies_source a) plans ts"
    using list_all2_each[OF ts(1) *(6)] copies_sourceI by blast
  moreover have "length tys = length texts"
    using b(6) *(8) map_res_length[OF t(1)] by (metis list_all2_lengthD)
  moreover have "merge_ids to_int manifest ''merge_left_ids'' = Inr ls" "merge_ids to_int manifest ''merge_right_ids'' = Inr rs"
    using *(11,12) b(7,8) by (auto simp: merge_ids_def map_res_list_all2 bind_res_Inr_iff simp del: jpath.simps)
  moreover have "token_texts a = Inr texts" using *(7) t(1) by (simp add: token_texts_def)
  ultimately show ?thesis using policy_base_shift[OF *(3) k(1,2)] *(4,5) m(1,2)
    by (intro exI[of _ ?p] exI[of _ plans] exI[of _ texts] exI[of _ rows]) simp
qed

text \<open>A plan for two tokens, one merge and one tensor.\<close>

definition plan_sample_artifact :: artifact where
  "plan_sample_artifact = \<lparr>ar_sha256 = '''', ar_size = 4, ar_version = 3, ar_tensor_count = 1, ar_metadata_count = 7,
     ar_metadata = [(''tokenizer.ggml.tokens'', MArr [MStr ''a'', MStr ''bc'']),
       (''tokenizer.ggml.token_type'', MArr [MInt 1, MInt 3]), (''tokenizer.ggml.merges'', MArr [MStr ''a bc'']),
       (''tokenizer.ggml.bos_token_id'', MInt 0), (''tokenizer.ggml.eos_token_id'', MInt 1),
       (''tokenizer.ggml.padding_token_id'', MInt 1), (''tokenizer.chat_template'', MStr ''x'')],
     ar_alignment = 32, ar_data_start = 0, ar_tensors =
       [\<lparr>tn_ordinal = 0, tn_name = ''w'', tn_shape = [1, 1], tn_type_id = 0, tn_type_name = ''F32'', tn_elements = Some 1,
         tn_payload_size = Some 4, tn_relative_offset = 0, tn_absolute_start = 0, tn_absolute_end = Some 4, tn_layer = None,
         tn_role = '''', tn_group = '''', tn_role_detail = '''', tn_gap_before = None\<rparr>], ar_tensor_info_end = 0\<rparr>"

definition zero_digest :: string where
  "zero_digest = replicate 64 (CHR ''0'')"

definition plan_sample_manifest :: json where
  "plan_sample_manifest = JObj [
     (''source_identity'', JObj [(''size'', JInt 4), (''sha256'', JStr zero_digest)]),
     (''profile_version'', JStr ''vbuf-ml-0.1''), (''consumer_revision'', JObj [(''commit'', JStr PINNED_COMMIT)]),
     (''validation'', JObj [(''conversion_readiness'', str_list [''READY_FOR_CONVERSION''])]),
     (''conversion_options'', JObj [(''placement'', JStr ''LAYER_MAJOR_ROLE_ORDER''), (''base_shift'', JInt 3)]),
     (''tensor_plans'', JArr [JObj [(''source_name'', JStr ''w''), (''target_name'', JStr ''w''), (''source_offset'', JInt 0),
       (''source_payload_bytes'', JInt 4), (''source_shape'', int_list [1, 1]), (''target_representation'', JStr ''CanonicalPrimitive''),
       (''target_key_id'', JInt TENSOR_KEY_ID), (''target_occurrence'', JInt 0), (''target_order'', JInt 0),
       (''payload_action'', JStr ''COPY_BYTES'')]]),
     (''tokenizer_conversion_plan'', JObj [(''kind'', JStr ''Gpt2BpeQwen2''), (''model_id'', JInt 1), (''pre_tokenizer_id'', JInt 1),
       (''add_bos'', JBool False), (''merge_left_ids'', int_list [0]), (''merge_right_ids'', int_list [1])]),
     (''model_metadata_plan'', JArr [JObj [(''target'', JStr ''LayerCount''), (''source_value'', JInt 1)],
       JObj [(''target'', JStr ''Architecture''), (''source_value'', JStr ''qwen3'')]])]"

abbreviation sample_build :: "bytes res" where
  "sample_build \<equiv> build_plan (\<lambda>_. zero_digest) (\<lambda>_. Inl TypeError) (\<lambda>_. Inr []) (\<lambda>_. []) [1, 2, 3, 4]
     plan_sample_manifest plan_sample_artifact ''none''"

lemma sample_build_returns: "case sample_build of Inl _ \<Rightarrow> False | Inr raw \<Rightarrow> length raw = 261"
  by code_simp

lemma zero_digest_bytes: "fromhex zero_digest = Inr (replicate 32 0)"
  by code_simp

text \<open>
  C2. The converter reads back the plan that the orchestrator writes: whenever \<open>build_plan\<close> returns a
  file, \<open>parse_plan\<close> accepts it to the last byte, and the plan it reads has the identity of the source
  file and a base shift between 3 and 8, one tensor per source tensor, in target order, each with the
  name, shape and representation of its manifest row and exactly the byte range of the source tensor
  of that name, the texts of the vocabulary at consecutive offsets, the merges of the manifest in
  order, and the metadata of the manifest in the order of their ids.  (The digest is 64 hexadecimal
  digits and names are UTF-8, as \<open>hexdigest\<close> and \<open>parse\<close> guarantee.)
\<close>

theorem plan_roundtrip:
  assumes "build_plan digest to_int to_double jrender file manifest a integrity = Inr raw"
    and "fromhex (digest file) = Inr h" "length h = 32"
    and "list_all (\<lambda>t. utf8_valid (map of_char (tn_name t))) (ar_tensors a)"
  shows "\<exists>p plans texts rows. parse_plan raw = Inr p \<and>
    cp_source_size p = int (length file) \<and> cp_source_hash p = h \<and> 3 \<le> cp_base_shift p \<and> cp_base_shift p \<le> 8 \<and>
    sorted_plans manifest = Inr plans \<and> length plans = length (sources_by_name a) \<and>
    list_all2 (copies_source a) plans (cp_tensors p) \<and>
    token_texts a = Inr texts \<and> cp_text p = concat texts \<and> cp_offsets p = offsets_from 0 texts \<and>
    length (cp_types p) = length texts \<and>
    merge_ids to_int manifest ''merge_left_ids'' = Inr (cp_left p) \<and> merge_ids to_int manifest ''merge_right_ids'' = Inr (cp_right p) \<and>
    metadata_rows manifest = Inr rows \<and> list_all2 (meta_written to_int to_double jrender) rows (cp_metadata p)"
  using assms by (rule plan_read_back)

theorem plan_roundtrip_witness:
  "\<exists>raw p. sample_build = Inr raw \<and> parse_plan raw = Inr p \<and> cp_source_size p = 4 \<and> length (cp_tensors p) = 1"
proof -
  obtain raw where raw: "sample_build = Inr raw" using sample_build_returns by (cases sample_build) auto
  have names: "list_all (\<lambda>t. utf8_valid (map of_char (tn_name t))) (ar_tensors plan_sample_artifact)"
    by (simp add: plan_sample_artifact_def)
  obtain p plans where p: "parse_plan raw = Inr p" "cp_source_size p = int (length [1 :: 8 word, 2, 3, 4])"
    "length plans = length (sources_by_name plan_sample_artifact)" "list_all2 (copies_source plan_sample_artifact) plans (cp_tensors p)"
    using plan_roundtrip[OF raw zero_digest_bytes _ names] by auto
  moreover have "length (sources_by_name plan_sample_artifact) = 1" by (simp add: sources_by_name_def plan_sample_artifact_def)
  ultimately have "length (cp_tensors p) = 1" by (metis list_all2_lengthD)
  then show ?thesis using raw p(1,2) by auto
qed

end
