(* ===== verification/Planner_Writer.thy ===== *)
theory Planner_Writer
  imports Planner26
begin

text \<open>
  The planner of Step 26 against the writer of the conformance fixtures: for opaque byte payloads the
  layout that \<open>plan_candidate\<close> computes is the one that \<open>canonical\<close> writes.
\<close>

text \<open>A block with the defaults of \<open>canonical\<close>: one byte per element, no payload shift.\<close>

definition byte_block :: "bytes \<Rightarrow> block_spec" where
  "byte_block p = \<lparr>bs_semantic = None, bs_physical = None, bs_continuation = None, bs_count64 = None,
     bs_payload_shift = None, bs_key = None, bs_width = None, bs_count = int (length p), bs_payload = Some p\<rparr>"

lemma align26_eq: "is_pow2 step \<Longrightarrow> fixture_align_up v step = align26 v step"
  unfolding fixture_align_up_eq
  by (rule plan_al.al_unique[symmetric]) (auto simp: is_pow2_pos mask_al.al_dvd mask_al.al_ge mask_al.al_lt)

lemma byte_anchor_packs: "pack_le 8 (block_anchor (byte_block p)) = Inr (le_enc 8 (block_anchor (byte_block p)))"
proof -
  have "anchor_in_range \<lparr>av_semantic = 0, av_physical = 1, av_continuation = False, av_count64 = int (length p) > 65535,
      av_payload_shift = 0, av_key = 1, av_width = 8, av_inline = (if int (length p) > 65535 then 0 else int (length p))\<rparr>"
    by (auto simp: anchor_in_range_def)
  from anchor_fields[where ov = None, simplified, OF this] show ?thesis
    by (simp add: block_anchor_def byte_block_def block_count64_def opt_get_def)
qed

lemma emit_byte_block:
  assumes pw: "is_pow2 step" and at: "(ds + int (length data)) mod step = 0" and n: "int (length p) < 2 ^ 64"
  obtains hdr where "emit_block step ds data (byte_block p) = Inr (data @ hdr @ p)"
    "ds + int (length (data @ hdr)) = align26 (ds + int (length data) + (if int (length p) > 65535 then 16 else 8)) step"
proof -
  let ?big = "int (length p) > 65535"
  let ?a = "le_enc 8 (block_anchor (byte_block p))" and ?c = "if ?big then le_enc 8 (int (length p)) else []"
  let ?at = "ds + int (length data) + (if ?big then 16 else 8)"
  let ?pad = "replicate (nat (align26 ?at step - ?at)) (0 :: 8 word)"
  have ge: "?at \<le> align26 ?at step" using pw by (intro plan_al.al_ge) (rule is_pow2_pos)
  have at': "ds + int (length (data @ ?a @ ?c)) = ?at" by simp
  have c: "(if block_count64 (byte_block p) then pack_le 8 (bs_count (byte_block p)) else Inr []) = Inr ?c"
    using n by (simp add: block_count64_def byte_block_def opt_get_def)
  have sh: "shift_left step (opt_get 0 (bs_payload_shift (byte_block p))) = Inr step"
    by (simp add: byte_block_def opt_get_def)
  have pd: "zero_bytes (fixture_align_up ?at step - ?at) = Inr ?pad"
    using ge by (simp add: align26_eq[OF pw])
  have "emit_block step ds data (byte_block p) = Inr (data @ ?a @ ?c @ ?pad @ opt_get [] (bs_payload (byte_block p)))"
    unfolding emit_block_def at byte_anchor_packs c sh Let_def bind_res_simps at' pd by simp
  then have "emit_block step ds data (byte_block p) = Inr (data @ (?a @ ?c @ ?pad) @ p)"
    by (simp add: byte_block_def opt_get_def)
  moreover have "ds + int (length (data @ ?a @ ?c @ ?pad)) = align26 ?at step" using ge by simp
  ultimately show thesis by (rule that)
qed

definition holds_at :: "int \<Rightarrow> bytes \<Rightarrow> placed \<Rightarrow> bytes \<Rightarrow> bool" where
  "holds_at base raw r p \<longleftrightarrow> base \<le> pl_payload_start r \<and> take (length p) (drop (nat (pl_payload_start r - base)) raw) = p"

lemma pad_byte_block:
  assumes pw: "is_pow2 step"
  obtains pad where "pad_block step ds d = Inr (d @ pad)" "ds + int (length (d @ pad)) = align26 (ds + int (length d)) step"
proof -
  let ?e = "ds + int (length d)"
  let ?pad = "replicate (nat (align26 ?e step - ?e)) (0 :: 8 word)"
  have ge: "?e \<le> align26 ?e step" using pw by (intro plan_al.al_ge) (rule is_pow2_pos)
  have "zero_bytes (fixture_align_up ?e step - ?e) = Inr ?pad" using ge by (simp add: align26_eq[OF pw])
  then have "pad_block step ds d = Inr (d @ ?pad)" unfolding pad_block_def Let_def by (simp only: bind_res_simps)
  moreover have "ds + int (length (d @ ?pad)) = align26 ?e step" using ge by simp
  ultimately show thesis by (rule that)
qed

lemma canonical_byte_blocks:
  assumes "is_pow2 step" "ps \<noteq> []" "list_all2 (\<lambda>e p. rq_payload e = int (length p)) es ps"
    "list_all (\<lambda>p. int (length p) < 2 ^ 64) ps" "ds + int (length data) = align26 cursor step"
  shows "\<exists>suf. canonical_blocks step ds data (map byte_block ps) = Inr (data @ suf) \<and>
    ds + int (length (data @ suf)) = final_cursor cursor (place_entries step cursor i es) \<and>
    list_all2 (holds_at ds (data @ suf)) (place_entries step cursor i es) ps"
  using assms(2-5)
proof (induction ps arbitrary: es data cursor i)
  case (Cons p ps)
  have pos: "0 < step" using assms(1) by (rule is_pow2_pos)
  obtain e es' where es: "es = e # es'" and e: "rq_payload e = int (length p)"
    and rest: "list_all2 (\<lambda>e p. rq_payload e = int (length p)) es' ps"
    using Cons.prems(2) by (auto simp: list_all2_Cons2)
  let ?r = "place_entry step cursor i e"
  have dvd: "(ds + int (length data)) mod step = 0"
    using plan_al.al_dvd[OF pos, of cursor] Cons.prems(4) by (simp add: dvd_eq_mod_eq_0)
  obtain hdr where emit: "emit_block step ds data (byte_block p) = Inr (data @ hdr @ p)"
    and start: "ds + int (length (data @ hdr)) = pl_payload_start ?r"
    using emit_byte_block[OF assms(1) dvd, of p] Cons.prems(3,4) by (auto simp: place_entry_fields e)
  have stop: "ds + int (length (data @ hdr @ p)) = pl_payload_end ?r"
    using start by (simp add: place_entry_fields e)
  have hold: "holds_at ds ((data @ hdr @ p) @ suf) ?r p" for suf
    using start by (simp add: holds_at_def)
  show ?case
  proof (cases "ps = []")
    case True
    then have "es' = []" using rest by simp
    then show ?thesis using emit stop hold[of "[]"] True
      by (intro exI[of _ "hdr @ p"]) (simp add: es Let_def final_cursor_def)
  next
    case False
    obtain pad where pad: "pad_block step ds (data @ hdr @ p) = Inr ((data @ hdr @ p) @ pad)"
      and len: "ds + int (length ((data @ hdr @ p) @ pad)) = align26 (pl_payload_end ?r) step"
      using pad_byte_block[OF assms(1), of ds "data @ hdr @ p"] unfolding stop by blast
    obtain suf where suf: "canonical_blocks step ds ((data @ hdr @ p) @ pad) (map byte_block ps) = Inr (((data @ hdr @ p) @ pad) @ suf)"
      "ds + int (length (((data @ hdr @ p) @ pad) @ suf)) =
         final_cursor (pl_payload_end ?r) (place_entries step (pl_payload_end ?r) (Suc i) es')"
      "list_all2 (holds_at ds (((data @ hdr @ p) @ pad) @ suf)) (place_entries step (pl_payload_end ?r) (Suc i) es') ps"
      using Cons.IH[OF False rest _ len] Cons.prems(3) by auto
    have "es' \<noteq> []" using rest False by auto
    then have "place_entries step (pl_payload_end ?r) (Suc i) es' \<noteq> []" by (metis length_0_conv place_entries_length)
    then have fc: "final_cursor cursor (place_entries step cursor i es) =
        final_cursor (pl_payload_end ?r) (place_entries step (pl_payload_end ?r) (Suc i) es')"
      by (simp add: es Let_def final_cursor_def)
    have "canonical_blocks step ds data (map byte_block (p # ps)) = Inr (data @ hdr @ p @ pad @ suf)"
      using emit pad suf(1) False by simp
    moreover have "list_all2 (holds_at ds (data @ hdr @ p @ pad @ suf)) (place_entries step cursor i es) (p # ps)"
      using suf(3) hold[of "pad @ suf"] by (simp add: es Let_def)
    ultimately show ?thesis using suf(2) fc by (intro exI[of _ "hdr @ p @ pad @ suf"]) (simp only: append_assoc)
  qed
qed simp

lemma holds_at_append:
  assumes "holds_at (int (length h)) data r p"
  shows "holds_at 0 (h @ data) r p"
proof -
  have ge: "int (length h) \<le> pl_payload_start r" using assms by (simp add: holds_at_def)
  then have "drop (nat (pl_payload_start r)) (h @ data) = drop (nat (pl_payload_start r - int (length h))) data"
    by (simp add: nat_diff_distrib)
  then show ?thesis using assms ge unfolding holds_at_def by (simp del: drop_append)
qed

text \<open>
  C12. The writer follows the plan: for requests whose payloads are given as bytes, the canonical file
  of one-byte-element blocks with the planned base shift is built, has exactly the planned final size,
  and holds every payload at the planned position.
\<close>

theorem writer_follows_plan:
  assumes "plan_candidate es bs = Inr c" and "3 \<le> bs"
    and "list_all2 (\<lambda>e p. rq_payload e = int (length p)) es ps" and "cd_final_size c < 2 ^ 64" and "bs \<le> 8"
  shows "\<exists>raw. canonical (map byte_block ps) (int bs) 0 24 [] = Inr raw \<and> int (length raw) = cd_final_size c \<and>
    list_all2 (holds_at 0 raw) (cd_entries c) ps"
proof -
  let ?step = "2 ^ bs :: int"
  let ?ds = "align26 24 ?step"
  note r = plan_candidate_result[OF assms(1)] and ac = plan_candidate_chained[OF assms(1)]
  have step: "cd_base_step c = ?step" and ds: "cd_data_start c = ?ds"
    and rows: "cd_entries c = place_entries ?step ?ds 0 es" and fin: "cd_final_size c = final_cursor ?ds (cd_entries c)"
    using r by metis+
  have pw: "is_pow2 ?step" by simp
  have ds24: "24 \<le> ?ds" by (rule plan_al.al_ge) simp
  have pay: "(\<Sum>r\<leftarrow>cd_entries c. rq_payload r) = (\<Sum>p\<leftarrow>ps. int (length p))"
  proof -
    have "(\<Sum>r\<leftarrow>cd_entries c. rq_payload r) = (\<Sum>e\<leftarrow>es. rq_payload e)"
      unfolding ac(2)[symmetric] by (simp add: o_def request.defs)
    also have "\<dots> = (\<Sum>p\<leftarrow>ps. int (length p))" using assms(3) by (induction rule: list_all2_induct) auto
    finally show ?thesis .
  qed
  have hdrs: "0 \<le> (\<Sum>r\<leftarrow>rows. pl_header_bytes r)" if "chained st cur rows" for st cur rows
    using that by (induction st cur rows rule: chained.induct) auto
  have "(\<Sum>p\<leftarrow>ps. int (length p)) \<le> cd_final_size c"
    using chained_size[OF ac(1)] chained_paddings[OF ac(1)] hdrs[OF ac(1)] ds24 unfolding step ds fin pay by linarith
  then have small: "int (length p) < 2 ^ 64" if "p \<in> set ps" for p
    using member_le_sum_list[of "int (length p)" "map (\<lambda>p. int (length p)) ps"] that assms(4) by force
  have "es \<noteq> []" using plan_candidate_total[of es bs] assms(1) by auto
  then have ne: "ps \<noteq> []" using assms(3) by auto
  have al: "list_all (\<lambda>p. int (length p) < 2 ^ 64) ps" using small by (simp add: list_all_iff)
  have at: "?ds + int (length ([] :: bytes)) = align26 ?ds ?step" using plan_al.al_idem[of ?step 24] by simp
  obtain data where data: "canonical_blocks ?step ?ds [] (map byte_block ps) = Inr data"
    and len: "?ds + int (length data) = cd_final_size c"
    and holds: "list_all2 (holds_at ?ds data) (cd_entries c) ps"
    using canonical_byte_blocks[OF pw ne assms(3) al at, of 0] unfolding fin rows append_Nil by blast
  let ?h = "plain_header (int bs) (int (length data)) 0 @ replicate (nat (?ds - 24)) 0"
  have "global_header (int bs) (int (length data)) 0 24 [] 0 = Inr ?h"
    using assms(2,4,5) len ds24 align26_eq[OF pw, of 24] by (subst global_header_plain) (simp_all add: fixture_align_up_eq)
  then have "canonical (map byte_block ps) (int bs) 0 24 [] = Inr (?h @ data)"
    using data align26_eq[OF pw, of 24] by (simp add: canonical_def shift_left_def push_bit_eq_mult Let_def)
  moreover have hl: "int (length ?h) = ?ds" using ds24 by (simp add: plain_header_def)
  moreover have "list_all2 (holds_at 0 (?h @ data)) (cd_entries c) ps"
    using holds by (rule list_all2_mono) (rule holds_at_append[where h = ?h, unfolded hl])
  ultimately show ?thesis using len by (intro exI[of _ "?h @ data"]) simp
qed

definition sample_sources :: "request list" where
  "sample_sources = [control ''Bootstrap'' 0 0 3, tokenizer_request (''AddBos'', 207, 1),
     \<lparr>rq_name = ''blk.0.attn_q.weight'', rq_class = 5, rq_order = 1000000, rq_payload = 5, rq_group = ''tensor'', rq_layer = Some 0\<rparr>]"

lemma sample_sources_plan: "(case plan_candidate sample_sources 4 of Inl _ \<Rightarrow> False | Inr c \<Rightarrow> cd_final_size c = 117)"
  by code_simp

theorem writer_follows_plan_witness:
  "\<exists>raw. canonical (map byte_block [[1, 2, 3], [1], [9, 8, 7, 6, 5]]) 4 0 24 [] = Inr raw \<and> length raw = 117"
proof -
  obtain c where c: "plan_candidate sample_sources 4 = Inr c" "cd_final_size c = 117"
    using sample_sources_plan by (auto split: sum.splits)
  have "list_all2 (\<lambda>e p. rq_payload e = int (length p)) sample_sources [[1, 2, 3], [1], [9, 8, 7, 6, 5]]"
    by (simp add: sample_sources_def control_def tokenizer_request_def)
  from writer_follows_plan[OF c(1) _ this] c(2) show ?thesis by auto
qed

end
