(* ===== verification/Range_Server.thy ===== *)
theory Range_Server
  imports Text Bytes
begin

text \<open>
  The HTTP servers the remote-loading experiments fetch byte ranges from: \<open>RangeHandler.do_GET\<close> of
  \<open>scripts/range_server.py\<close>, the copy that POC 6 ran
  (\<open>research/results/vbuf-remote-range-poc6-x86/range_server.py\<close>), and the handler of the ARM32 runs
  (\<open>vbuf-arm32-range-server.py\<close>).  A reply is the status, the headers in the order they are sent, and the
  bytes written to the connection; the lines a handler logs itself are kept, those of the base class
  (one per \<open>send_response\<close>) and its own \<open>Server\<close> and \<open>Date\<close> headers are left out.  The file served is a byte
  string; a request is the value of its \<open>Range\<close> header, if it has one.
\<close>

section \<open>Replies\<close>

datatype mode = Range_Mode | Status500 | Ignore_Range | Truncate | Wrong_Range

record reply =
  status :: int
  headers :: "(string \<times> string) list"
  body :: bytes
  logged :: "string list"

definition bare :: "int \<Rightarrow> reply" where
  "bare code = \<lparr>status = code, headers = [], body = [], logged = []\<rparr>"

definition read_at :: "bytes \<Rightarrow> int \<Rightarrow> int \<Rightarrow> bytes" where
  "read_at source start n = take (nat n) (drop (nat start) source)"

definition content_range :: "int \<Rightarrow> int \<Rightarrow> int \<Rightarrow> string" where
  "content_range start stop file_size = ''bytes '' @ show_int start @ ''-'' @ show_int stop @ ''/'' @ show_int file_size"

definition partial :: "int \<Rightarrow> int \<Rightarrow> int \<Rightarrow> bytes \<Rightarrow> reply" where
  "partial start stop file_size content = \<lparr>status = 206,
     headers = [(''Accept-Ranges'', ''bytes''), (''Content-Range'', content_range start stop file_size),
       (''Content-Length'', show_int (int (length content)))],
     body = content, logged = []\<rparr>"

definition log_line :: "string \<Rightarrow> string \<Rightarrow> int \<Rightarrow> string" where
  "log_line requested code n = ''range='' @ requested @ '' status='' @ code @ '' bytes='' @ show_int n"

section \<open>The handlers\<close>

definition two_ints :: "string \<Rightarrow> (int \<times> int) res" where
  "two_ints s = (case split_once (CHR ''-'') s of
       None \<Rightarrow> Inl (ValueError ''not enough values to unpack (expected 2, got 1)'')
     | Some (a, b) \<Rightarrow> bind_res (parse_int a) (\<lambda>start. bind_res (parse_int b) (\<lambda>stop. Inr (start, stop))))"

definition do_GET :: "mode \<Rightarrow> bool \<Rightarrow> bytes \<Rightarrow> string option \<Rightarrow> reply res" where
  "do_GET mode log_enabled source field =
     (if mode = Status500 then Inr (bare 500)
      else let file_size = int (length source);
               requested = (case field of None \<Rightarrow> [] | Some r \<Rightarrow> r) in
        if mode = Ignore_Range \<or> \<not> starts_with ''bytes='' requested then
          Inr \<lparr>status = 200, headers = [(''Content-Length'', show_int file_size)], body = [],
            logged = (if log_enabled then [log_line (if requested = [] then ''none'' else requested) ''200'' file_size] else [])\<rparr>
        else bind_res (two_ints (drop 6 requested)) (\<lambda>(start, stop).
          if start < 0 \<or> stop < start \<or> stop \<ge> file_size then Inr (bare 416)
          else let content = read_at source start (stop - start + 1);
                   content' = (if mode = Truncate then butlast content else content);
                   advertised_start = (if mode = Wrong_Range then start + 1 else start) in
            Inr ((partial advertised_start stop file_size content')
              \<lparr>logged := if log_enabled then [log_line requested ''206'' (int (length content'))] else []\<rparr>)))"

definition poc6_do_GET :: "mode \<Rightarrow> bytes \<Rightarrow> string option \<Rightarrow> reply res" where
  "poc6_do_GET mode source field =
     (if mode = Status500 then Inr (bare 500)
      else let file_size = int (length source);
               requested = (case field of None \<Rightarrow> [] | Some r \<Rightarrow> r) in
        if mode = Ignore_Range \<or> \<not> starts_with ''bytes='' requested then
          Inr \<lparr>status = 200, headers = [(''Content-Length'', show_int file_size)], body = [], logged = []\<rparr>
        else bind_res (two_ints (drop 6 requested)) (\<lambda>(start, stop).
          if start < 0 \<or> stop < start \<or> stop \<ge> file_size then Inr (bare 416)
          else let content = read_at source start (stop - start + 1);
                   content' = (if mode = Truncate then butlast content else content);
                   advertised_start = (if mode = Wrong_Range then start + 1 else start) in
            Inr (partial advertised_start stop file_size content')))"

definition arm_do_HEAD :: "bytes \<Rightarrow> reply" where
  "arm_do_HEAD source = \<lparr>status = 200,
     headers = [(''Content-Length'', show_int (int (length source))), (''Accept-Ranges'', ''bytes'')], body = [], logged = []\<rparr>"

text \<open>A missing header is \<open>None\<close>, which cannot be sliced.\<close>

definition arm_do_GET :: "bytes \<Rightarrow> string option \<Rightarrow> reply res" where
  "arm_do_GET source field = (case field of None \<Rightarrow> Inl TypeError | Some r \<Rightarrow>
     bind_res (two_ints (drop 6 r)) (\<lambda>(start, stop). let file_size = int (length source) in
       if start < 0 \<or> stop < start \<or> stop \<ge> file_size then Inr (bare 416)
       else Inr (partial start stop file_size (read_at source start (stop - start + 1)))))"

section \<open>A source of ranges\<close>

text \<open>The request of one range, as a client writes it.\<close>

definition request :: "int \<Rightarrow> int \<Rightarrow> string option" where
  "request start stop = Some (''bytes='' @ show_int start @ ''-'' @ show_int stop)"

text \<open>A client's loop over consecutive pieces of the object, by their lengths.\<close>

fun fetch :: "(bytes \<Rightarrow> string option \<Rightarrow> reply res) \<Rightarrow> bytes \<Rightarrow> int \<Rightarrow> int list \<Rightarrow> bytes res" where
  "fetch get source a [] = Inr []"
| "fetch get source a (n # ns) = bind_res (get source (request a (a + n - 1))) (\<lambda>r.
     bind_res (fetch get source (a + n) ns) (\<lambda>rest. Inr (body r @ rest)))"

text \<open>
  The contract of a range server towards a client that knows the length of the object: a request inside
  it is answered with 206, exactly the bytes asked for, and headers that say which bytes these are.
\<close>

locale range_source =
  fixes get :: "bytes \<Rightarrow> string option \<Rightarrow> reply res"
  assumes get_range: "0 \<le> a \<Longrightarrow> a \<le> b \<Longrightarrow> b < int (length source) \<Longrightarrow>
      \<exists>r. get source (request a b) = Inr r \<and> status r = 206 \<and>
        body r = take (nat (b - a + 1)) (drop (nat a) source) \<and>
        headers r = [(''Accept-Ranges'', ''bytes''), (''Content-Range'', content_range a b (int (length source))),
          (''Content-Length'', show_int (b - a + 1))]"
begin

lemma fetch_exact:
  assumes "\<forall>n \<in> set ns. 0 < n" "0 \<le> a" "a + sum_list ns \<le> int (length source)"
  shows "fetch get source a ns = Inr (take (nat (sum_list ns)) (drop (nat a) source))"
  using assms
proof (induction ns arbitrary: a)
  case Nil
  then show ?case by simp
next
  case (Cons n ns)
  have n: "0 < n" and pos: "\<forall>n \<in> set ns. 0 < n" using Cons.prems by auto
  have s0: "0 \<le> sum_list ns" using pos by (intro sum_list_nonneg) auto
  have "a + n + sum_list ns \<le> int (length source)" using Cons.prems(3) by simp
  then have IH: "fetch get source (a + n) ns = Inr (take (nat (sum_list ns)) (drop (nat (a + n)) source))"
    using Cons.IH[OF pos, of "a + n"] Cons.prems(2) n by simp
  have len: "a + n - 1 < int (length source)" using Cons.prems(3) s0 by simp
  obtain r where r: "get source (request a (a + n - 1)) = Inr r" "body r = take (nat n) (drop (nat a) source)"
    using get_range[of a "a + n - 1" source] n Cons.prems(2) len by auto
  have "nat (n + sum_list ns) = nat n + nat (sum_list ns)" using n s0 by simp
  moreover have "nat (a + n) = nat n + nat a" using n Cons.prems(2) by simp
  ultimately show ?case using r IH by (simp add: take_add drop_drop)
qed

end

section \<open>The handlers keep the contract\<close>

lemma split_once_digits: "list_all is_digit s \<Longrightarrow> split_once (CHR ''-'') (s @ CHR ''-'' # t) = Some (s, t)"
  using minus_not_digit(1) by (induction s) auto

lemma show_nonneg_digits: "0 \<le> n \<Longrightarrow> list_all is_digit (show_int n)"
  by (simp add: show_int_def show_nat_is_digits)

lemma two_ints_request: "0 \<le> a \<Longrightarrow> two_ints (show_int a @ ''-'' @ show_int b) = Inr (a, b)"
  using split_once_digits[OF show_nonneg_digits[of a], of "show_int b"] by (simp add: two_ints_def parse_show_int)

lemma length_read_at: "0 \<le> a \<Longrightarrow> 0 \<le> n \<Longrightarrow> a + n \<le> int (length source) \<Longrightarrow> int (length (read_at source a n)) = n"
  by (simp add: read_at_def)

lemmas handler_defs = do_GET_def poc6_do_GET_def arm_do_GET_def request_def partial_def bare_def Let_def

lemma starts_request: "starts_with ''bytes='' (CHR ''b'' # CHR ''y'' # CHR ''t'' # CHR ''e'' # CHR ''s'' # CHR ''='' # s)"
  by (simp add: starts_with_def)

interpretation served: range_source "do_GET Range_Mode log_enabled" for log_enabled
proof
  fix a b :: int and source :: bytes
  assume "0 \<le> a" "a \<le> b" "b < int (length source)"
  then show "\<exists>r. do_GET Range_Mode log_enabled source (request a b) = Inr r \<and> status r = 206 \<and>
      body r = take (nat (b - a + 1)) (drop (nat a) source) \<and>
      headers r = [(''Accept-Ranges'', ''bytes''), (''Content-Range'', content_range a b (int (length source))),
        (''Content-Length'', show_int (b - a + 1))]"
    using two_ints_request[of a b] length_read_at[of a "b - a + 1" source]
    by (simp add: handler_defs starts_request read_at_def)
qed

interpretation poc6: range_source "poc6_do_GET Range_Mode"
proof
  fix a b :: int and source :: bytes
  assume "0 \<le> a" "a \<le> b" "b < int (length source)"
  then show "\<exists>r. poc6_do_GET Range_Mode source (request a b) = Inr r \<and> status r = 206 \<and>
      body r = take (nat (b - a + 1)) (drop (nat a) source) \<and>
      headers r = [(''Accept-Ranges'', ''bytes''), (''Content-Range'', content_range a b (int (length source))),
        (''Content-Length'', show_int (b - a + 1))]"
    using two_ints_request[of a b] length_read_at[of a "b - a + 1" source]
    by (simp add: handler_defs starts_request read_at_def)
qed

interpretation arm: range_source arm_do_GET
proof
  fix a b :: int and source :: bytes
  assume "0 \<le> a" "a \<le> b" "b < int (length source)"
  then show "\<exists>r. arm_do_GET source (request a b) = Inr r \<and> status r = 206 \<and>
      body r = take (nat (b - a + 1)) (drop (nat a) source) \<and>
      headers r = [(''Accept-Ranges'', ''bytes''), (''Content-Range'', content_range a b (int (length source))),
        (''Content-Length'', show_int (b - a + 1))]"
    using two_ints_request[of a b] length_read_at[of a "b - a + 1" source]
    by (simp add: handler_defs read_at_def)
qed

section \<open>Correctness\<close>

text \<open>
  C33. A client that fetches an object in consecutive pieces, whatever their lengths, gets exactly the
  object from each of the three servers (the first in its \<open>range\<close> mode, logging or not): the three
  handlers parse the request the client prints and answer it with the right slice.
\<close>

theorem ranges_rebuild_object:
  assumes "\<forall>n \<in> set ns. 0 < n" "sum_list ns = int (length source)"
  shows "fetch (do_GET Range_Mode log_enabled) source 0 ns = Inr source \<and>
    fetch (poc6_do_GET Range_Mode) source 0 ns = Inr source \<and> fetch arm_do_GET source 0 ns = Inr source"
  using served.fetch_exact[of ns 0 source log_enabled] poc6.fetch_exact[of ns 0 source] arm.fetch_exact[of ns 0 source] assms
  by simp

theorem ranges_rebuild_object_witness:
  "fetch (do_GET Range_Mode True) [1, 2, 3, 4, 5] 0 [2, 3] = Inr [1, 2, 3, 4, 5] \<and>
    fetch (poc6_do_GET Range_Mode) [1, 2, 3, 4, 5] 0 [2, 3] = Inr [1, 2, 3, 4, 5] \<and>
    fetch arm_do_GET [1, 2, 3, 4, 5] 0 [2, 3] = Inr [1, 2, 3, 4, 5]"
  by (rule ranges_rebuild_object) simp_all

section \<open>The checks of the client\<close>

text \<open>
  What \<open>vbuf_range_source.cpp\<close> requires of a reply before it counts it: status 206, a Content-Length (if any)
  equal to the length asked for, a body of that length, and a Content-Range (if any) whose unit contains \<open>bytes\<close>
  and whose bounds are those of the request; the size after the slash is not looked at.  The fields are read
  from a stream: white space is skipped, a number is its digits (below \<open>2^64\<close>, without a sign).
\<close>

definition stream_uint :: "string \<Rightarrow> (int \<times> string) option" where
  "stream_uint s = (let t = dropWhile py_space s in
     map_option (\<lambda>n. (n, dropWhile is_digit t)) (digits 0 False (takeWhile is_digit t)))"

definition range_matches :: "string \<Rightarrow> int \<Rightarrow> int \<Rightarrow> bool" where
  "range_matches value_text a b = (let t = dropWhile py_space value_text in
     (case stream_uint (dropWhile non_space t) of None \<Rightarrow> False
      | Some (start, rest) \<Rightarrow> (case dropWhile py_space rest of [] \<Rightarrow> False
        | dash # rest' \<Rightarrow> (case stream_uint rest' of None \<Rightarrow> False
          | Some (last', _) \<Rightarrow> is_infix ''bytes'' (takeWhile non_space t) \<and> start = a \<and> last' = b))))"

definition accepts :: "reply \<Rightarrow> int \<Rightarrow> int \<Rightarrow> bool" where
  "accepts r a b \<longleftrightarrow> status r = 206 \<and>
     (case map_of (headers r) ''Content-Length'' of None \<Rightarrow> True | Some t \<Rightarrow> map_option fst (stream_uint t) = Some (b - a + 1)) \<and>
     int (length (body r)) = b - a + 1 \<and>
     (case map_of (headers r) ''Content-Range'' of None \<Rightarrow> True | Some t \<Rightarrow> t = '''' \<or> range_matches t a b)"

lemma stream_uint_show: "0 \<le> n \<Longrightarrow> rest = [] \<or> \<not> is_digit (hd rest) \<Longrightarrow> stream_uint (show_int n @ rest) = Some (n, rest)"
proof -
  assume n: "0 \<le> n" and r: "rest = [] \<or> \<not> is_digit (hd rest)"
  have s: "show_int n = show_nat_digits (nat n)" using n by (simp add: show_int_def)
  have d: "list_all is_digit (show_nat_digits (nat n))" "show_nat_digits (nat n) \<noteq> []"
    "digits 0 False (show_nat_digits (nat n)) = Some n" using show_nat_is_digits[of "nat n"] n by simp_all
  have "dropWhile py_space (show_nat_digits (nat n) @ rest) = show_nat_digits (nat n) @ rest"
    using d(1,2) digit_not_space by (cases "show_nat_digits (nat n)") auto
  moreover have "takeWhile is_digit (show_nat_digits (nat n) @ rest) = show_nat_digits (nat n)"
    using run_first[OF d(1) r] .
  moreover have "dropWhile is_digit (show_nat_digits (nat n) @ rest) = rest"
    using d(1) r by (cases rest) (auto simp: list_all_iff dropWhile_append)
  ultimately show ?thesis using d(3) by (simp add: stream_uint_def s Let_def)
qed

lemma content_range_read: "0 \<le> a \<Longrightarrow> 0 \<le> b \<Longrightarrow> range_matches (content_range a b n) c d \<longleftrightarrow> a = c \<and> b = d"
proof -
  assume a: "0 \<le> a" and b: "0 \<le> b"
  have t: "dropWhile py_space (content_range a b n) = ''bytes'' @ CHR '' '' # show_int a @ CHR ''-'' # show_int b @ ''/'' @ show_int n"
    by (simp add: content_range_def py_space_def)
  have w: "takeWhile non_space (''bytes'' @ CHR '' '' # z) = ''bytes''" "dropWhile non_space (''bytes'' @ CHR '' '' # z) = CHR '' '' # z" for z
    by (simp_all add: non_space_def py_space_def)
  have s: "stream_uint (CHR '' '' # z) = stream_uint z" for z by (simp add: stream_uint_def py_space_def)
  have nd: "\<not> is_digit (CHR ''-'')" "\<not> is_digit (CHR ''/'')" "\<not> py_space (CHR ''-'')" by (simp_all add: is_digit_def py_space_def)
  have r: "stream_uint (show_int a @ CHR ''-'' # z) = Some (a, CHR ''-'' # z)" for z
    using stream_uint_show[OF a, of "CHR ''-'' # z"] nd by simp
  have l: "stream_uint (show_int b @ CHR ''/'' # z) = Some (b, CHR ''/'' # z)" for z
    using stream_uint_show[OF b, of "CHR ''/'' # z"] nd by simp
  have i: "is_infix ''bytes'' ''bytes''" by simp
  show ?thesis unfolding range_matches_def t Let_def w s r using l nd i by (simp del: is_infix.simps)
qed

text \<open>
  C34. Every fault the server can be told to inject is visible to the client: whatever the mode, a reply to
  a range inside the object passes the client's checks exactly when the mode is \<open>range\<close>, and then its
  body is the range asked for.
\<close>

theorem faults_detected:
  assumes "0 \<le> a" "a \<le> b" "b < int (length source)"
  shows "\<exists>r. do_GET mode log_enabled source (request a b) = Inr r \<and>
    (accepts r a b \<longleftrightarrow> mode = Range_Mode) \<and>
    (mode = Range_Mode \<longrightarrow> body r = take (nat (b - a + 1)) (drop (nat a) source))"
proof -
  have cr: "range_matches (content_range a b n) a b" "\<not> range_matches (content_range (a + 1) b n) a b" for n
    using content_range_read[of a b n a b] content_range_read[of "a + 1" b n a b] assms by simp_all
  have ne: "content_range c b n \<noteq> []" for c n by (simp add: content_range_def)
  have cl: "map_option fst (stream_uint (show_int k)) = Some k" if "0 \<le> k" for k
    using stream_uint_show[OF that, of "[]"] by simp
  have len: "int (length (read_at source a (b - a + 1))) = b - a + 1"
    using length_read_at[of a "b - a + 1" source] assms by simp
  then have short: "int (length (butlast (read_at source a (b - a + 1)))) \<noteq> b - a + 1" using assms by simp
  show ?thesis
    using two_ints_request[of a b] assms len short cr ne cl[of "b - a + 1"]
    by (cases mode) (simp_all add: handler_defs starts_request accepts_def read_at_def)
qed

theorem faults_detected_witness:
  "\<exists>r. do_GET Truncate True [1, 2, 3, 4, 5] (request 1 3) = Inr r \<and>
    (accepts r 1 3 \<longleftrightarrow> Truncate = Range_Mode) \<and>
    (Truncate = Range_Mode \<longrightarrow> body r = take (nat (3 - 1 + 1)) (drop (nat 1) [1, 2, 3, 4, 5]))"
  by (rule faults_detected) simp_all

text \<open>
  What a reply of the first server can be: one of four statuses; with 206, the range is non-empty and
  inside the object, the body is that slice (less its last byte when truncating) and Content-Length its
  length.  With 200 the advertised length is that of the object, but no byte of it is written, so a client
  of a server that ignores ranges waits for a body that never comes.
\<close>

theorem reply_sound:
  assumes "do_GET mode log_enabled source field = Inr r"
  shows "status r \<in> {200, 206, 416, 500} \<and>
    (status r = 206 \<longrightarrow> (\<exists>q a b. field = Some q \<and> starts_with ''bytes='' q \<and> two_ints (drop 6 q) = Inr (a, b) \<and>
       0 \<le> a \<and> a \<le> b \<and> b < int (length source) \<and>
       body r = (if mode = Truncate then butlast else id) (take (nat (b - a + 1)) (drop (nat a) source)) \<and>
       map_of (headers r) ''Content-Length'' = Some (show_int (int (length (body r)))))) \<and>
    (status r = 200 \<longrightarrow> headers r = [(''Content-Length'', show_int (int (length source)))] \<and> body r = [])"
proof (cases "mode = Status500")
  case True
  then show ?thesis using assms by (auto simp: do_GET_def bare_def)
next
  case False
  note mode = this
  let ?q = "case field of None \<Rightarrow> [] | Some q \<Rightarrow> q"
  show ?thesis
  proof (cases "mode = Ignore_Range \<or> \<not> starts_with ''bytes='' ?q")
    case True
    then show ?thesis using assms mode unfolding do_GET_def Let_def by auto
  next
    case False
    then obtain q where q: "field = Some q" by (cases field) (auto simp: starts_with_def)
    then obtain a b where ab: "two_ints (drop 6 q) = Inr (a, b)"
      using assms mode False by (auto simp: do_GET_def Let_def bind_res_Inr_iff)
    then show ?thesis using assms mode False q
      by (auto simp: do_GET_def bare_def partial_def Let_def read_at_def split: if_splits)
  qed
qed

theorem reply_sound_witness:
  "\<exists>r. do_GET Range_Mode True [1, 2, 3] (Some ''bytes=1-2'') = Inr r \<and> status r = 206 \<and> status r \<in> {200, 206, 416, 500}"
proof -
  have "case do_GET Range_Mode True [1, 2, 3] (Some ''bytes=1-2'') of Inl _ \<Rightarrow> False | Inr r \<Rightarrow> status r = 206"
    by code_simp
  then obtain r where r: "do_GET Range_Mode True [1, 2, 3] (Some ''bytes=1-2'') = Inr r" "status r = 206"
    by (auto split: sum.splits)
  then show ?thesis using reply_sound[OF r(1)] by auto
qed

end
