(* ===== verification/Report_Validators.thy ===== *)
theory Report_Validators
  imports Text "HOL-Library.Multiset"
begin

text \<open>
  The validators of the benchmark reports: \<open>scripts/validate_protobuf_reports.py\<close> and
  \<open>scripts/validate_vbuf_baseline.py\<close>.  A report is a text of metadata lines and CSV rows; it is accepted when its samples
  fill the rotation of rounds and positions and its summaries can be computed again from the samples.  The
  arithmetic of floats is the parameter \<open>floats\<close>; a text with a quoted CSV field is read as the \<open>csv\<close>
  module reads it.  The Markdown documents that \<open>--write-readme\<close> renders are left out.
\<close>

section \<open>CSV lines\<close>

datatype csv_state = Start | Plain | Quoted | Quote_Seen

text \<open>One line of the default dialect, without its line break; the field is kept reversed.\<close>

fun csv_chars :: "csv_state \<Rightarrow> string \<Rightarrow> string \<Rightarrow> string list" where
  "csv_chars st field [] = [rev field]"
| "csv_chars Start field (c # cs) = (if c = CHR 0x22 then csv_chars Quoted [] cs
     else if c = CHR '','' then [] # csv_chars Start [] cs else csv_chars Plain [c] cs)"
| "csv_chars Plain field (c # cs) = (if c = CHR '','' then rev field # csv_chars Start [] cs else csv_chars Plain (c # field) cs)"
| "csv_chars Quoted field (c # cs) = (if c = CHR 0x22 then csv_chars Quote_Seen field cs else csv_chars Quoted (c # field) cs)"
| "csv_chars Quote_Seen field (c # cs) = (if c = CHR 0x22 then csv_chars Quoted (c # field) cs
     else if c = CHR '','' then rev field # csv_chars Start [] cs else csv_chars Plain (c # field) cs)"

definition csv_fields :: "string \<Rightarrow> string list" where
  "csv_fields line = csv_chars Start [] line"

type_synonym row = "(string \<times> string) list"

text \<open>\<open>dict(zip(header, fields, strict=True))\<close>\<close>

definition csv_row :: "string list \<Rightarrow> string \<Rightarrow> row res" where
  "csv_row header line = (let fields = csv_fields line in
     bind_res (require (length header = length fields) (ValueError ''zip() argument lengths differ'')) (\<lambda>_.
     Inr (fold (\<lambda>(k, v). AList.update k v) (zip header fields) [])))"

section \<open>Reports\<close>

record 'k report =
  rp_metadata :: row
  rp_header :: "string list option"
  rp_summaries :: "('k \<times> row) list"
  rp_samples :: "('k \<times> row list) list"

definition empty_report :: "'k report" where
  "empty_report = \<lparr>rp_metadata = [], rp_header = None, rp_summaries = [], rp_samples = []\<rparr>"

definition add_summary :: "'k \<Rightarrow> row \<Rightarrow> 'k report \<Rightarrow> 'k report" where
  "add_summary k row r = r\<lparr>rp_summaries := AList.update k row (rp_summaries r)\<rparr>"

definition add_sample :: "'k \<Rightarrow> row \<Rightarrow> 'k report \<Rightarrow> 'k report" where
  "add_sample k row r = r\<lparr>rp_samples := AList.update k (get_default (rp_samples r) k [] @ [row]) (rp_samples r)\<rparr>"

text \<open>One line; \<open>add_row\<close> files a CSV row, which the two scripts do in different orders.\<close>

definition report_line :: "(row \<Rightarrow> 'k report \<Rightarrow> 'k report res) \<Rightarrow> 'k report \<Rightarrow> string \<Rightarrow> 'k report res" where
  "report_line add_row r line =
     (if line = [] \<or> starts_with ''#'' line then Inr r
      else if starts_with ''kind,'' line then Inr (r\<lparr>rp_header := Some (csv_fields line)\<rparr>)
      else case rp_header r of
        None \<Rightarrow> (case split_once (CHR ''='') line of
            None \<Rightarrow> Inl (ValueError ''not enough values to unpack'')
          | Some (k, v) \<Rightarrow> Inr (r\<lparr>rp_metadata := AList.update k v (rp_metadata r)\<rparr>))
      | Some header \<Rightarrow> bind_res (csv_row header line) (\<lambda>row. add_row row r))"

definition pb_add_row :: "row \<Rightarrow> string report \<Rightarrow> string report res" where
  "pb_add_row row r = bind_res (lookup_res row ''kind'') (\<lambda>kind.
     if kind = ''summary'' then bind_res (lookup_res row ''workload'') (\<lambda>w. Inr (add_summary w row r))
     else if kind = ''sample'' then bind_res (lookup_res row ''workload'') (\<lambda>w. Inr (add_sample w row r))
     else Inl (ValueError ''unknown row kind''))"

definition pb_parse_report :: "string \<Rightarrow> string report res" where
  "pb_parse_report text = fold_res (report_line pb_add_row) empty_report (splitlines text)"

type_synonym target_key = "string \<times> string \<times> string"

definition vb_add_row :: "row \<Rightarrow> target_key report \<Rightarrow> target_key report res" where
  "vb_add_row row r = bind_res (lookup_res row ''target'') (\<lambda>t. bind_res (lookup_res row ''category'') (\<lambda>c.
     bind_res (lookup_res row ''workload'') (\<lambda>w. bind_res (lookup_res row ''kind'') (\<lambda>kind.
     if kind = ''summary'' then Inr (add_summary (t, c, w) row r)
     else if kind = ''sample'' then Inr (add_sample (t, c, w) row r)
     else Inl (ValueError ''unknown row kind'')))))"

definition vb_parse :: "string \<Rightarrow> target_key report res" where
  "vb_parse text = fold_res (report_line vb_add_row) empty_report (splitlines text)"

section \<open>Statistics\<close>

text \<open>
  The float operations: \<open>float(text)\<close>, the quotient and its error, the sum of a list, \<open>int(n * p / 100)\<close>, and
  the test \<open>abs(a - b) > 5e-7\<close>; comparisons are the order of the type (there are no NaNs).
\<close>

record 'f floats =
  fl_of :: "string \<Rightarrow> 'f res"
  fl_nat :: "nat \<Rightarrow> 'f"
  fl_div :: "'f \<Rightarrow> 'f \<Rightarrow> 'f res"
  fl_add :: "'f \<Rightarrow> 'f \<Rightarrow> 'f"
  fl_sum :: "'f list \<Rightarrow> 'f"
  fl_square_diff :: "'f \<Rightarrow> 'f \<Rightarrow> 'f"
  fl_sqrt :: "'f \<Rightarrow> 'f"
  fl_index :: "nat \<Rightarrow> nat \<Rightarrow> nat"
  fl_far :: "'f \<Rightarrow> 'f \<Rightarrow> bool"

definition nth_res :: "'a list \<Rightarrow> nat \<Rightarrow> 'a res" where
  "nth_res xs i = (if i < length xs then Inr (xs ! i) else Inl IndexError)"

text \<open>An empty list has the negative index \<open>-1\<close>, which is out of range as well.\<close>

definition quantile_floor :: "('f :: linorder) floats \<Rightarrow> 'f list \<Rightarrow> nat \<Rightarrow> 'f res" where
  "quantile_floor fl xs p = nth_res (sort xs) (min (fl_index fl (length xs) p) (length xs - 1))"

definition fl_median :: "('f :: linorder) floats \<Rightarrow> 'f list \<Rightarrow> 'f res" where
  "fl_median fl xs = (let ordered = sort xs; middle = length ordered div 2 in
     if length ordered mod 2 = 0 then
       bind_res (require (ordered \<noteq> []) IndexError) (\<lambda>_. fl_div fl (fl_add fl (ordered ! (middle - 1)) (ordered ! middle)) (fl_nat fl 2))
     else Inr (ordered ! middle))"

definition float_col :: "'f floats \<Rightarrow> string \<Rightarrow> row \<Rightarrow> 'f res" where
  "float_col fl k row = bind_res (lookup_res row k) (fl_of fl)"

definition summary :: "('f :: linorder) floats \<Rightarrow> row list \<Rightarrow> (string \<times> 'f) list res" where
  "summary fl rows =
     bind_res (map_res (\<lambda>row. bind_res (float_col fl ''duration_ns'' row) (\<lambda>d. fl_div fl d (fl_nat fl 1000000))) rows) (\<lambda>xs.
     bind_res (fl_div fl (fl_sum fl xs) (fl_nat fl (length xs))) (\<lambda>mean.
     bind_res (map_res (\<lambda>row. bind_res (float_col fl ''tsc_ticks'' row) (\<lambda>t. bind_res (float_col fl ''duration_ns'' row) (fl_div fl t))) rows) (\<lambda>rates.
     bind_res (fl_median fl xs) (\<lambda>median_ms.
     bind_res (fl_div fl (fl_sum fl (map (\<lambda>x. fl_square_diff fl x mean) xs)) (fl_nat fl (length xs))) (\<lambda>variance.
     bind_res (quantile_floor fl xs 5) (\<lambda>p5.
     bind_res (quantile_floor fl xs 95) (\<lambda>p95.
     bind_res (fl_median fl rates) (\<lambda>rate.
     Inr [(''median_ms'', median_ms), (''mean_ms'', mean), (''population_stddev_ms'', fl_sqrt fl variance), (''p5_ms'', p5), (''p95_ms'', p95),
       (''min_ms'', Min (set xs)), (''max_ms'', Max (set xs)), (''median_diagnostic_tsc_rate_ghz'', rate)]))))))))"

section \<open>Validation\<close>

definition WORKLOADS :: "string list" where "WORKLOADS = [''Value-Only'', ''Full-Record'']"
definition EXPECTED_SAMPLES :: nat where "EXPECTED_SAMPLES = 30"

definition ROUNDS :: "int list" where "ROUNDS = [0..29]"

definition pb_required :: "string list" where
  "pb_required = [''run_label'', ''commit'', ''source_sha256'', ''rustc'', ''affinity'', ''worktree_status'', ''rustflags'',
     ''effective_rustc_flags'', ''cpu_identification'', ''records'', ''warm_up_runs'', ''measured_runs'', ''execution_order'',
     ''timed_operation'', ''timing_windows'', ''black_box'', ''quantiles'', ''standard_deviation'']"

definition vb_required :: "string list" where
  "vb_required = [''commit'', ''source_sha256'', ''vbuf_core_sha256'', ''rustc'', ''affinity'', ''worktree_status'', ''records'',
     ''warm_up_runs'', ''measured_runs'', ''execution_order'']"

fun any_res :: "('a \<Rightarrow> bool res) \<Rightarrow> 'a list \<Rightarrow> bool res" where
  "any_res p [] = Inr False"
| "any_res p (x # xs) = bind_res (p x) (\<lambda>b. if b then Inr True else any_res p xs)"

definition col_differs :: "string \<Rightarrow> string \<Rightarrow> row \<Rightarrow> bool res" where
  "col_differs k v row = bind_res (lookup_res row k) (\<lambda>w. Inr (w \<noteq> v))"

text \<open>\<open>a or b\<close>, the second only when the first is false.\<close>

definition or_res :: "bool res \<Rightarrow> bool res \<Rightarrow> bool res" where
  "or_res a b = bind_res a (\<lambda>x. if x then Inr True else b)"

definition int_col :: "string \<Rightarrow> row \<Rightarrow> int res" where
  "int_col k row = bind_res (lookup_res row k) parse_int"

definition refuse :: "bool res \<Rightarrow> string \<Rightarrow> unit res" where
  "refuse b msg = bind_res b (\<lambda>x. require (\<not> x) (ValueError msg))"

text \<open>\<open>[f(row) for row in rows if int(row["round"]) == n]\<close>\<close>

definition in_round :: "(row \<Rightarrow> 'a res) \<Rightarrow> int \<Rightarrow> row list \<Rightarrow> 'a list res" where
  "in_round f n rows = bind_res (map_res (\<lambda>row. bind_res (int_col ''round'' row) (\<lambda>r.
     if r = n then bind_res (f row) (\<lambda>x. Inr [x]) else Inr [])) rows) (\<lambda>xss. Inr (concat xss))"

definition check_summary :: "('f :: linorder) floats \<Rightarrow> row list \<Rightarrow> row \<Rightarrow> unit res" where
  "check_summary fl rows stated = bind_res (summary fl rows) (each (\<lambda>(k, v).
     bind_res (float_col fl k stated) (\<lambda>w. require (\<not> fl_far fl v w) (ValueError ''summary mismatch''))))"

definition pb_check_workload :: "('f :: linorder) floats \<Rightarrow> string report \<Rightarrow> string \<Rightarrow> unit res" where
  "pb_check_workload fl r w = (let rows = get_default (rp_samples r) w [] in
     bind_res (require (length rows = EXPECTED_SAMPLES) (ValueError ''sample count'')) (\<lambda>_.
     bind_res (require (map_of (get_default (rp_summaries r) w []) ''accepted_samples'' = Some ''30'') (ValueError ''accepted count mismatch'')) (\<lambda>_.
     bind_res (lookup_res (rp_summaries r) w) (\<lambda>stated.
     bind_res (refuse (col_differs ''rejected_migration_samples'' ''0'' stated) ''rejected migration count is nonzero'') (\<lambda>_.
     bind_res (map_res (int_col ''round'') rows) (\<lambda>rounds.
     bind_res (require (sort rounds = ROUNDS) (ValueError ''does not contain every round exactly once'')) (\<lambda>_.
     bind_res (refuse (any_res (\<lambda>row. bind_res (lookup_res row ''position'') (\<lambda>p. Inr (p \<notin> {''0'', ''1''}))) rows) ''invalid position'') (\<lambda>_.
     bind_res (refuse (any_res (\<lambda>row. or_res (col_differs ''cpu_before'' ''0'' row) (col_differs ''cpu_after'' ''0'' row)) rows) ''not pinned'') (\<lambda>_.
     bind_res (refuse (any_res (col_differs ''migrated'' ''false'') rows) ''accepted a migration'') (\<lambda>_.
     check_summary fl rows stated))))))))))"

definition pb_check_round :: "string report \<Rightarrow> int \<Rightarrow> unit res" where
  "pb_check_round r n =
     bind_res (map_res (\<lambda>w. bind_res (lookup_res (rp_samples r) w) (in_round (\<lambda>row. lookup_res row ''position'') n)) WORKLOADS) (\<lambda>pss.
     require (sort (concat pss) = [''0'', ''1'']) (ValueError ''round does not contain one target at each position''))"

definition configured :: "row \<Rightarrow> bool" where
  "configured metadata \<longleftrightarrow> map_of metadata ''records'' = Some ''1000000'' \<and> map_of metadata ''warm_up_runs'' = Some ''5'' \<and>
     map_of metadata ''measured_runs'' = Some ''30''"

definition pb_validate_report :: "('f :: linorder) floats \<Rightarrow> string report \<Rightarrow> unit res" where
  "pb_validate_report fl r =
     bind_res (require (list_all (\<lambda>k. map_of (rp_metadata r) k \<noteq> None) pb_required) (ValueError ''missing metadata'')) (\<lambda>_.
     bind_res (require (configured (rp_metadata r)) (ValueError ''configuration metadata mismatch'')) (\<lambda>_.
     bind_res (each (pb_check_workload fl r) WORKLOADS) (\<lambda>_.
     each (pb_check_round r) ROUNDS)))"

text \<open>\<open>main\<close> over the parsed reports; the two sets are compared last.\<close>

definition all_same :: "'a list \<Rightarrow> bool" where
  "all_same xs \<longleftrightarrow> length (remdups xs) = 1"

definition pb_main :: "('f :: linorder) floats \<Rightarrow> string report list \<Rightarrow> unit res" where
  "pb_main fl reports =
     bind_res (require (length reports = 5) (SystemExit ''expected exactly five final reports'')) (\<lambda>_.
     bind_res (each (pb_validate_report fl) reports) (\<lambda>_.
     bind_res (map_res (\<lambda>r. lookup_res (rp_metadata r) ''commit'') reports) (\<lambda>commits.
     bind_res (map_res (\<lambda>r. lookup_res (rp_metadata r) ''source_sha256'') reports) (\<lambda>sources.
     require (all_same commits \<and> all_same sources) (SystemExit ''reports do not share one runner commit and source hash'')))))"

definition vb_check_key :: "('f :: linorder) floats \<Rightarrow> target_key report \<Rightarrow> target_key \<times> row list \<Rightarrow> unit res" where
  "vb_check_key fl r kr = (case kr of (key, rows) \<Rightarrow>
     bind_res (require (length rows = EXPECTED_SAMPLES) (ValueError ''sample count'')) (\<lambda>_.
     bind_res (map_res (int_col ''round'') rows) (\<lambda>rounds.
     bind_res (require (sort rounds = ROUNDS) (ValueError ''rounds invalid'')) (\<lambda>_.
     bind_res (refuse (any_res (\<lambda>row. or_res (col_differs ''cpu_before'' ''0'' row) (or_res (col_differs ''cpu_after'' ''0'' row)
       (col_differs ''migrated'' ''false'' row))) rows) ''CPU/migration invalid'') (\<lambda>_.
     bind_res (lookup_res (rp_summaries r) key) (\<lambda>stated.
     bind_res (refuse (or_res (col_differs ''accepted_samples'' ''30'' stated) (col_differs ''rejected_migration_samples'' ''0'' stated)) ''count mismatch'') (\<lambda>_.
     check_summary fl rows stated)))))))"

definition vb_check_round :: "target_key report \<Rightarrow> int \<Rightarrow> unit res" where
  "vb_check_round r n =
     bind_res (map_res (\<lambda>(_, rows). in_round (int_col ''position'') n rows) (rp_samples r)) (\<lambda>pss.
     require (sort (concat pss) = [0..15]) (ValueError ''position rotation invalid''))"

definition vb_validate :: "('f :: linorder) floats \<Rightarrow> target_key report \<Rightarrow> unit res" where
  "vb_validate fl r =
     bind_res (require (list_all (\<lambda>k. map_of (rp_metadata r) k \<noteq> None) vb_required) (ValueError ''missing metadata'')) (\<lambda>_.
     bind_res (require (configured (rp_metadata r)) (ValueError ''configuration mismatch'')) (\<lambda>_.
     bind_res (require (length (rp_samples r) = 16) (ValueError ''expected 16 targets'')) (\<lambda>_.
     bind_res (each (vb_check_key fl r) (rp_samples r)) (\<lambda>_.
     each (vb_check_round r) ROUNDS))))"

definition vb_main :: "('f :: linorder) floats \<Rightarrow> target_key report list \<Rightarrow> unit res" where
  "vb_main fl reports =
     bind_res (require (length reports = 5) (SystemExit ''expected final reports'')) (\<lambda>_.
     bind_res (each (vb_validate fl) reports) (\<lambda>_.
     each (\<lambda>key. bind_res (map_res (\<lambda>r. lookup_res (rp_metadata r) key) reports) (\<lambda>vs.
       require (all_same vs) (SystemExit ''reports disagree''))) [''commit'', ''source_sha256'', ''vbuf_core_sha256'']))"

section \<open>One sample in every cell\<close>

lemma refuse_Inr [res_simps]: "refuse b msg = Inr u \<longleftrightarrow> b = Inr False"
  by (cases b) (auto simp: refuse_def)

lemma any_res_False: "any_res p xs = Inr False \<longleftrightarrow> (\<forall>x \<in> set xs. p x = Inr False)"
  by (induction xs) (auto simp: bind_res_Inr_iff split: if_splits)

lemma in_round_rows:
  assumes "in_round f n rows = Inr ys"
  shows "map_res f (filter (\<lambda>row. int_col ''round'' row = Inr n) rows) = Inr ys"
proof -
  have "map_res (\<lambda>row. bind_res (int_col ''round'' row) (\<lambda>r. if r = n then bind_res (f row) (\<lambda>x. Inr [x]) else Inr [])) rows = Inr xss \<Longrightarrow>
      map_res f (filter (\<lambda>row. int_col ''round'' row = Inr n) rows) = Inr (concat xss)" for xss
    by (induction rows arbitrary: xss) (auto simp: bind_res_Inr_iff split: if_splits)
  then show ?thesis using assms by (auto simp: in_round_def bind_res_Inr_iff)
qed

lemma single_round:
  assumes "map_res g xs = Inr ns" "distinct ns" "n \<in> set ns"
  shows "\<exists>x \<in> set xs. filter (\<lambda>x. g x = Inr n) xs = [x] \<and> g x = Inr n"
  using assms
proof (induction xs arbitrary: ns)
  case (Cons x xs)
  then obtain m ms where m: "g x = Inr m" "map_res g xs = Inr ms" "ns = m # ms" by (auto simp: bind_res_Inr_iff)
  show ?case
  proof (cases "m = n")
    case True
    have "\<forall>y \<in> set xs. g y \<noteq> Inr n" using m Cons.prems(2) True by (auto dest: map_res_mem)
    then show ?thesis using m True by (simp add: filter_False)
  next
    case False
    then show ?thesis using Cons.IH [OF m(2)] Cons.prems m by auto
  qed
qed simp

lemma sorted_rounds: "sort rounds = ROUNDS \<Longrightarrow> distinct rounds \<and> set rounds = set ROUNDS \<and> length rounds = 30"
proof -
  assume s: "sort rounds = ROUNDS"
  have "distinct ROUNDS" "length ROUNDS = 30" by (simp_all add: ROUNDS_def)
  then show ?thesis using s by (metis distinct_sort length_sort set_sort)
qed

text \<open>The rows of a target: one for every round, on CPU 0 and without migration.\<close>

definition clean_row :: "row \<Rightarrow> bool" where
  "clean_row row \<longleftrightarrow> lookup_res row ''cpu_before'' = Inr ''0'' \<and> lookup_res row ''cpu_after'' = Inr ''0'' \<and> lookup_res row ''migrated'' = Inr ''false''"

definition the_sample :: "row list \<Rightarrow> int \<Rightarrow> row \<Rightarrow> bool" where
  "the_sample rows n row \<longleftrightarrow> filter (\<lambda>row. int_col ''round'' row = Inr n) rows = [row] \<and> clean_row row"

lemma or_res_False [res_simps]: "or_res a b = Inr False \<longleftrightarrow> a = Inr False \<and> b = Inr False"
  by (cases a) (auto simp: or_res_def)

lemma col_differs_False [res_simps]: "col_differs k v row = Inr False \<longleftrightarrow> lookup_res row k = Inr v"
  by (auto simp: col_differs_def bind_res_Inr_iff simp del: lookup_res_iff)

lemma pb_workload_samples:
  assumes "pb_check_workload fl r w = Inr ()"
  shows "length (get_default (rp_samples r) w []) = 30 \<and> (\<forall>n \<in> set ROUNDS. \<exists>row. the_sample (get_default (rp_samples r) w []) n row)"
proof -
  let ?rows = "get_default (rp_samples r) w []"
  obtain rounds where c: "length ?rows = 30" "map_res (int_col ''round'') ?rows = Inr rounds" "sort rounds = ROUNDS"
      "\<forall>row \<in> set ?rows. clean_row row"
    using assms unfolding pb_check_workload_def Let_def bind_res_Inr_iff require_iff refuse_Inr any_res_False or_res_False col_differs_False
      EXPECTED_SAMPLES_def clean_row_def by (elim exE conjE, intro that) (assumption | simp add: clean_row_def)+
  then show ?thesis using single_round [OF c(2)] sorted_rounds [OF c(3)] by (fastforce simp: the_sample_def)
qed

lemma vb_key_samples:
  assumes "vb_check_key fl r (key, rows) = Inr ()"
  shows "length rows = 30 \<and> (\<forall>n \<in> set ROUNDS. \<exists>row. the_sample rows n row)"
proof -
  obtain rounds where c: "length rows = 30" "map_res (int_col ''round'') rows = Inr rounds" "sort rounds = ROUNDS" "\<forall>row \<in> set rows. clean_row row"
    using assms unfolding vb_check_key_def prod.case bind_res_Inr_iff require_iff refuse_Inr any_res_False or_res_False col_differs_False
      EXPECTED_SAMPLES_def clean_row_def by (elim exE conjE, intro that) (assumption | simp add: clean_row_def)+
  then show ?thesis using single_round [OF c(2)] sorted_rounds [OF c(3)] by (fastforce simp: the_sample_def)
qed

lemma round_position:
  assumes "the_sample rows n row" "in_round f n rows = Inr ps"
  shows "\<exists>p. f row = Inr p \<and> ps = [p]"
  using in_round_rows [OF assms(2)] assms(1) by (auto simp: the_sample_def bind_res_Inr_iff)

lemma two_sorted: "sort [a, b] = [''0'', ''1''] \<Longrightarrow> (a, b) = (''0'', ''1'') \<or> (a, b) = (''1'', ''0'')" for a b :: string
  by (auto split: if_splits)

lemma same_value:
  assumes "all_same vs" "v \<in> set vs" "w \<in> set vs"
  shows "v = w"
proof -
  obtain x where "remdups vs = [x]" using assms(1) by (auto simp: all_same_def length_Suc_conv)
  then have "set vs = {x}" by (metis set_remdups list.set(1) list.simps(15))
  then show ?thesis using assms(2,3) by simp
qed

lemma same_metadata:
  assumes "map_res (\<lambda>r. lookup_res (rp_metadata r) key) reports = Inr vs" "all_same vs" "r \<in> set reports" "r' \<in> set reports"
  shows "map_of (rp_metadata r) key = map_of (rp_metadata r') key"
proof -
  obtain v v' where "v \<in> set vs" "map_of (rp_metadata r) key = Some v" "v' \<in> set vs" "map_of (rp_metadata r') key = Some v'"
    using map_res_mem [OF assms(1,3)] map_res_mem [OF assms(1,4)] by auto
  then show ?thesis using same_value [OF assms(2)] by simp
qed

text \<open>
  An accepted set of Protobuf reports has the rotation it claims: in each of the five reports, every round has
  exactly one sample of either workload, both on CPU 0 without migration and one at either position; there are 300
  samples of the two workloads, and the reports share one commit.
\<close>

theorem protobuf_reports_sound:
  assumes "pb_main fl reports = Inr ()"
  shows "(\<forall>r \<in> set reports. \<forall>n \<in> set ROUNDS. \<exists>a b. the_sample (get_default (rp_samples r) ''Value-Only'' []) n a \<and>
      the_sample (get_default (rp_samples r) ''Full-Record'' []) n b \<and>
      {lookup_res a ''position'', lookup_res b ''position''} = {Inr ''0'', Inr ''1''}) \<and>
    (\<Sum>r\<leftarrow>reports. \<Sum>w\<leftarrow>WORKLOADS. length (get_default (rp_samples r) w [])) = 300 \<and>
    (\<forall>r \<in> set reports. \<forall>r' \<in> set reports. map_of (rp_metadata r) ''commit'' = map_of (rp_metadata r') ''commit'')"
proof (intro conjI ballI)
  have valid: "pb_validate_report fl r = Inr ()" if "r \<in> set reports" for r
    using assms that by (auto simp: pb_main_def bind_res_Inr_iff each_Inr)
  have work: "pb_check_workload fl r w = Inr ()" if "r \<in> set reports" "w \<in> set WORKLOADS" for r w
    using valid [OF that(1)] that(2) by (auto simp: pb_validate_report_def bind_res_Inr_iff each_Inr)
  show "\<exists>a b. the_sample (get_default (rp_samples r) ''Value-Only'' []) n a \<and> the_sample (get_default (rp_samples r) ''Full-Record'' []) n b \<and>
      {lookup_res a ''position'', lookup_res b ''position''} = {Inr ''0'', Inr ''1''}"
    if r: "r \<in> set reports" and n: "n \<in> set ROUNDS" for r n
  proof -
    obtain a b where ab: "the_sample (get_default (rp_samples r) ''Value-Only'' []) n a" "the_sample (get_default (rp_samples r) ''Full-Record'' []) n b"
      using pb_workload_samples [OF work [OF r]] n by (fastforce simp: WORKLOADS_def)
    have "pb_check_round r n = Inr ()" using valid [OF r] n by (auto simp: pb_validate_report_def bind_res_Inr_iff each_Inr)
    then obtain v f ps qs where q: "lookup_res (rp_samples r) ''Value-Only'' = Inr v" "lookup_res (rp_samples r) ''Full-Record'' = Inr f"
        "in_round (\<lambda>row. lookup_res row ''position'') n v = Inr ps" "in_round (\<lambda>row. lookup_res row ''position'') n f = Inr qs"
        "sort (ps @ qs) = [''0'', ''1'']"
      by (auto simp: pb_check_round_def bind_res_Inr_iff WORKLOADS_def)
    have s: "the_sample v n a" "the_sample f n b" using ab q(1,2) by simp_all
    obtain p where p: "lookup_res a ''position'' = Inr p" "ps = [p]" using round_position [OF s(1) q(3)] by blast
    obtain p' where p': "lookup_res b ''position'' = Inr p'" "qs = [p']" using round_position [OF s(2) q(4)] by blast
    have v: "(p, p') = (''0'', ''1'') \<or> (p, p') = (''1'', ''0'')" using two_sorted q(5) p(2) p'(2) by simp
    then have "{lookup_res a ''position'', lookup_res b ''position''} = {Inr ''0'', Inr ''1''}"
      unfolding p(1) p'(1) by (elim disjE) (simp_all add: insert_commute)
    then show ?thesis using ab by blast
  qed
  have "(\<Sum>w\<leftarrow>WORKLOADS. length (get_default (rp_samples r) w [])) = 60" if "r \<in> set reports" for r
    using pb_workload_samples [OF work [OF that]] by (simp add: WORKLOADS_def)
  then have "(\<Sum>r\<leftarrow>reports. \<Sum>w\<leftarrow>WORKLOADS. length (get_default (rp_samples r) w [])) = (\<Sum>r\<leftarrow>reports. 60)"
    by (intro arg_cong [where f = sum_list] map_cong) simp_all
  then show "(\<Sum>r\<leftarrow>reports. \<Sum>w\<leftarrow>WORKLOADS. length (get_default (rp_samples r) w [])) = 300"
    using assms by (simp add: pb_main_def bind_res_Inr_iff sum_list_triv)
  show "map_of (rp_metadata r) ''commit'' = map_of (rp_metadata r') ''commit''" if "r \<in> set reports" "r' \<in> set reports" for r r'
  proof -
    obtain vs where "map_res (\<lambda>r. lookup_res (rp_metadata r) ''commit'') reports = Inr vs" "all_same vs"
      using assms by (auto simp: pb_main_def bind_res_Inr_iff)
    then show ?thesis using same_metadata that by metis
  qed
qed

text \<open>
  C36. The same for the baseline reports: in each of the five reports there are 16 targets, every round has exactly one
  clean sample of each of them, and the positions of these 16 samples are a permutation of 0 to 15; this makes the
  2400 samples that the script announces.
\<close>

theorem baseline_reports_sound:
  assumes "vb_main fl reports = Inr ()"
  shows "(\<forall>r \<in> set reports. length (rp_samples r) = 16 \<and> (\<forall>n \<in> set ROUNDS. \<exists>rows ps.
      list_all2 (\<lambda>(_, samples) row. the_sample samples n row) (rp_samples r) rows \<and>
      map_res (int_col ''position'') rows = Inr ps \<and> mset ps = mset [0..15])) \<and>
    (\<Sum>r\<leftarrow>reports. \<Sum>(_, samples)\<leftarrow>rp_samples r. length samples) = 2400"
proof (intro conjI ballI)
  have valid: "vb_validate fl r = Inr ()" if "r \<in> set reports" for r
    using assms that by (auto simp: vb_main_def bind_res_Inr_iff each_Inr)
  then show size: "length (rp_samples r) = 16" if "r \<in> set reports" for r
    using that by (auto simp: vb_validate_def bind_res_Inr_iff)
  have key: "vb_check_key fl r kr = Inr ()" if "r \<in> set reports" "kr \<in> set (rp_samples r)" for r kr
    using valid [OF that(1)] that(2) by (auto simp: vb_validate_def bind_res_Inr_iff each_Inr)
  show "\<exists>rows ps. list_all2 (\<lambda>(_, samples) row. the_sample samples n row) (rp_samples r) rows \<and>
      map_res (int_col ''position'') rows = Inr ps \<and> mset ps = mset [0..15]"
    if r: "r \<in> set reports" and n: "n \<in> set ROUNDS" for r n
  proof -
    have "vb_check_round r n = Inr ()" using valid [OF r] n by (auto simp: vb_validate_def bind_res_Inr_iff each_Inr)
    then obtain pss where pss: "map_res (\<lambda>(_, rows). in_round (int_col ''position'') n rows) (rp_samples r) = Inr pss" "sort (concat pss) = [0..15]"
      by (auto simp: vb_check_round_def bind_res_Inr_iff)
    have "\<exists>row. the_sample (snd kr) n row" if "kr \<in> set (rp_samples r)" for kr
      using vb_key_samples [of fl r "fst kr" "snd kr"] key [OF r that] n by auto
    then have "\<exists>rows. list_all2 (\<lambda>(_, samples) row. the_sample samples n row) krs rows \<and> map_res (int_col ''position'') rows = Inr (concat qss)"
      if "map_res (\<lambda>(_, rows). in_round (int_col ''position'') n rows) krs = Inr qss" "set krs \<subseteq> set (rp_samples r)" for krs qss
      using that
    proof (induction krs arbitrary: qss)
      case (Cons kr krs)
      obtain k samples where k: "kr = (k, samples)" by (cases kr)
      obtain ps qss' where q: "in_round (int_col ''position'') n samples = Inr ps" "qss = ps # qss'"
          "map_res (\<lambda>(_, rows). in_round (int_col ''position'') n rows) krs = Inr qss'"
        using Cons.prems(2) by (auto simp: k bind_res_Inr_iff)
      obtain row where row: "the_sample samples n row" using Cons.prems(1) [of kr] Cons.prems(3) k by auto
      obtain p where p: "int_col ''position'' row = Inr p" "ps = [p]" using round_position [OF row q(1)] by blast
      obtain rows where "list_all2 (\<lambda>(_, samples) row. the_sample samples n row) krs rows" "map_res (int_col ''position'') rows = Inr (concat qss')"
        using Cons.IH [OF Cons.prems(1) q(3)] Cons.prems(3) by auto
      then show ?case using row p q(2) by (intro exI [of _ "row # rows"]) (simp add: k)
    qed simp
    then obtain rows where "list_all2 (\<lambda>(_, samples) row. the_sample samples n row) (rp_samples r) rows"
        "map_res (int_col ''position'') rows = Inr (concat pss)"
      using pss(1) by blast
    moreover have "mset (concat pss) = mset [0..15]" using pss(2) by (metis mset_sort)
    ultimately show ?thesis by blast
  qed
  have "(\<Sum>(_, samples)\<leftarrow>rp_samples r. length samples) = 480" if r: "r \<in> set reports" for r
  proof -
    have "length (snd kr) = 30" if "kr \<in> set (rp_samples r)" for kr
      using vb_key_samples [of fl r "fst kr" "snd kr"] key [OF r that] by simp
    then have "(\<Sum>(_, samples)\<leftarrow>rp_samples r. length samples) = (\<Sum>kr\<leftarrow>rp_samples r. 30)"
      by (intro arg_cong [where f = sum_list] map_cong) (auto simp: split_def)
    then show ?thesis using size [OF r] by (simp add: sum_list_triv)
  qed
  then have "(\<Sum>r\<leftarrow>reports. \<Sum>(_, samples)\<leftarrow>rp_samples r. length samples) = (\<Sum>r\<leftarrow>reports. 480)"
    by (intro arg_cong [where f = sum_list] map_cong) simp_all
  then show "(\<Sum>r\<leftarrow>reports. \<Sum>(_, samples)\<leftarrow>rp_samples r. length samples) = 2400"
    using assms by (simp add: vb_main_def bind_res_Inr_iff sum_list_triv)
qed

section \<open>Samples\<close>

text \<open>A report whose rows follow a given arrangement of positions, and a float arithmetic over the integers.\<close>

definition int_floats :: "int floats" where
  "int_floats = \<lparr>fl_of = parse_int, fl_nat = int, fl_div = (\<lambda>a b. if b = 0 then Inl ZeroDivisionError else Inr (a div b)), fl_add = (+),
     fl_sum = sum_list, fl_square_diff = (\<lambda>x m. (x - m) * (x - m)), fl_sqrt = (\<lambda>x. x), fl_index = (\<lambda>n p. n * p div 100), fl_far = (\<noteq>)\<rparr>"

definition sample_row :: "(int \<Rightarrow> string) \<Rightarrow> int \<Rightarrow> row" where
  "sample_row pos n = [(''duration_ns'', ''3000000''), (''tsc_ticks'', ''6000000''), (''round'', show_int n), (''position'', pos n),
     (''cpu_before'', ''0''), (''cpu_after'', ''0''), (''migrated'', ''false'')]"

definition sample_summary :: row where
  "sample_summary = [(''accepted_samples'', ''30''), (''rejected_migration_samples'', ''0''), (''median_ms'', ''3''), (''mean_ms'', ''3''),
     (''population_stddev_ms'', ''0''), (''p5_ms'', ''3''), (''p95_ms'', ''3''), (''min_ms'', ''3''), (''max_ms'', ''3''),
     (''median_diagnostic_tsc_rate_ghz'', ''2'')]"

definition sample_metadata :: "string list \<Rightarrow> row" where
  "sample_metadata required = [(''records'', ''1000000''), (''warm_up_runs'', ''5''), (''measured_runs'', ''30'')] @ map (\<lambda>k. (k, ''x'')) required"

definition sample_rows :: "(int \<Rightarrow> string) \<Rightarrow> row list" where
  "sample_rows pos = map (sample_row pos) ROUNDS"

lemma rounds_of_samples: "map_res (int_col ''round'') (map (sample_row pos) ns) = Inr ns"
  by (induction ns) (simp_all add: int_col_def sample_row_def parse_show_int)

lemma sample_in_round:
  assumes "f (sample_row pos n) = Inr p" "distinct ns" "n \<in> set ns"
  shows "in_round f n (map (sample_row pos) ns) = Inr [p]"
proof -
  have r: "int_col ''round'' (sample_row pos k) = Inr k" for k by (simp add: int_col_def sample_row_def parse_show_int)
  define g where "g row = bind_res (int_col ''round'' row) (\<lambda>r. if r = n then bind_res (f row) (\<lambda>x. Inr [x]) else Inr [])" for row
  have g: "g (sample_row pos k) = Inr (if k = n then [p] else [])" for k using assms(1) by (simp add: g_def r)
  have "map_res g (map (sample_row pos) ms) = Inr (map (\<lambda>k. if k = n then [p] else []) ms)" for ms by (induction ms) (simp_all add: g)
  moreover have "concat (map (\<lambda>k. if k = n then [p] else []) ns) = [p]"
    using assms(2,3) by (induction ns) (auto simp: concat_eq_Nil_conv)
  ultimately show ?thesis unfolding in_round_def g_def [symmetric] by simp
qed

lemma summary_of_samples: "summary int_floats (sample_rows pos) = Inr [(''median_ms'', 3), (''mean_ms'', 3), (''population_stddev_ms'', 0),
    (''p5_ms'', 3), (''p95_ms'', 3), (''min_ms'', 3), (''max_ms'', 3), (''median_diagnostic_tsc_rate_ghz'', 2)]"
proof -
  have p: "parse_int ''3000000'' = Inr 3000000" "parse_int ''6000000'' = Inr 6000000" by code_simp+
  have d: "map_res (\<lambda>row. bind_res (float_col int_floats ''duration_ns'' row) (\<lambda>d. fl_div int_floats d (fl_nat int_floats 1000000))) (sample_rows pos) =
      Inr (replicate 30 3)"
    unfolding sample_rows_def ROUNDS_def by (subst map_res_Inr [where g = "\<lambda>_. 3"]) (auto simp: float_col_def int_floats_def sample_row_def p map_replicate_const)
  have t: "map_res (\<lambda>row. bind_res (float_col int_floats ''tsc_ticks'' row) (\<lambda>t. bind_res (float_col int_floats ''duration_ns'' row) (fl_div int_floats t)))
      (sample_rows pos) = Inr (replicate 30 2)"
    unfolding sample_rows_def ROUNDS_def by (subst map_res_Inr [where g = "\<lambda>_. 2"]) (auto simp: float_col_def int_floats_def sample_row_def p map_replicate_const)
  show ?thesis unfolding summary_def d t
    by (simp add: int_floats_def fl_median_def quantile_floor_def nth_res_def sum_list_triv sum_list_replicate Let_def sort_replicate)
qed

lemma check_sample_summary: "check_summary int_floats (sample_rows pos) sample_summary = Inr ()"
proof -
  have "parse_int ''0'' = Inr 0" "parse_int ''2'' = Inr 2" "parse_int ''3'' = Inr 3" by code_simp+
  then show ?thesis unfolding check_summary_def summary_of_samples
    by (simp add: float_col_def sample_summary_def int_floats_def)
qed

definition pb_sample :: "string report" where
  "pb_sample = \<lparr>rp_metadata = sample_metadata pb_required, rp_header = None, rp_summaries = map (\<lambda>w. (w, sample_summary)) WORKLOADS,
     rp_samples = [(''Value-Only'', sample_rows (\<lambda>_. ''0'')), (''Full-Record'', sample_rows (\<lambda>_. ''1''))]\<rparr>"

lemma samples_clean: "any_res (\<lambda>row. or_res (col_differs ''cpu_before'' ''0'' row) (col_differs ''cpu_after'' ''0'' row)) (sample_rows pos) = Inr False"
    "any_res (col_differs ''migrated'' ''false'') (sample_rows pos) = Inr False"
  by (auto simp: any_res_False res_simps sample_rows_def sample_row_def)

lemma pb_sample_workload:
  assumes "get_default (rp_samples r) w [] = sample_rows pos" "map_of (rp_summaries r) w = Some sample_summary" "\<forall>n. pos n \<in> {''0'', ''1''}"
  shows "pb_check_workload fl r w = check_summary fl (sample_rows pos) sample_summary"
proof -
  have "length (sample_rows pos) = EXPECTED_SAMPLES" by (simp add: sample_rows_def ROUNDS_def EXPECTED_SAMPLES_def)
  moreover have "map_res (int_col ''round'') (sample_rows pos) = Inr ROUNDS" by (simp add: sample_rows_def rounds_of_samples)
  moreover have "sort ROUNDS = ROUNDS" by (simp add: ROUNDS_def)
  moreover have "any_res (\<lambda>row. bind_res (lookup_res row ''position'') (\<lambda>p. Inr (p \<notin> {''0'', ''1''}))) (sample_rows pos) = Inr False"
    using assms(3) by (auto simp: any_res_False sample_rows_def sample_row_def)
  moreover have "refuse (col_differs ''rejected_migration_samples'' ''0'' sample_summary) msg = Inr ()" for msg
    by (simp add: refuse_Inr col_differs_False sample_summary_def)
  moreover have "map_of sample_summary ''accepted_samples'' = Some ''30''" by (simp add: sample_summary_def)
  moreover have "lookup_res (rp_summaries r) w = Inr sample_summary" using assms(2) by simp
  ultimately show ?thesis using assms(1,2) samples_clean [of pos]
    by (simp add: pb_check_workload_def refuse_def Let_def del: lookup_res_iff)
qed

lemma pb_sample_valid: "pb_validate_report int_floats pb_sample = Inr ()"
proof -
  have "list_all (\<lambda>k. map_of (rp_metadata pb_sample) k \<noteq> None) pb_required" "configured (rp_metadata pb_sample)"
    by (simp_all add: pb_sample_def sample_metadata_def pb_required_def configured_def)
  moreover have "each (pb_check_workload int_floats pb_sample) WORKLOADS = Inr ()"
  proof -
    have "pb_check_workload int_floats pb_sample ''Value-Only'' = Inr ()"
      by (subst pb_sample_workload [of _ _ "\<lambda>_. ''0''"]) (simp_all add: pb_sample_def WORKLOADS_def get_default_def check_sample_summary)
    moreover have "pb_check_workload int_floats pb_sample ''Full-Record'' = Inr ()"
      by (subst pb_sample_workload [of _ _ "\<lambda>_. ''1''"]) (simp_all add: pb_sample_def WORKLOADS_def get_default_def check_sample_summary)
    ultimately show ?thesis by (simp add: each_Inr WORKLOADS_def)
  qed
  moreover have "each (pb_check_round pb_sample) ROUNDS = Inr ()"
  proof -
    have "in_round (\<lambda>row. lookup_res row ''position'') n (sample_rows pos) = Inr [pos n]" if "n \<in> set ROUNDS" for n pos
      unfolding sample_rows_def by (rule sample_in_round) (use that in \<open>simp_all add: sample_row_def ROUNDS_def\<close>)
    then show ?thesis by (auto simp: each_Inr pb_check_round_def pb_sample_def WORKLOADS_def lookup_res_def)
  qed
  ultimately show ?thesis by (simp add: pb_validate_report_def)
qed

text \<open>
  Nothing checks the balance that the document claims (15 samples of a workload at either position, 75 in the five reports):
  five reports in which every value-only sample has position 0 are accepted.
\<close>

lemma same_replicate: "all_same (replicate 5 x)"
  by (simp add: all_same_def numeral_eq_Suc)

lemma field_replicate: "map_of (rp_metadata r) k = Some v \<Longrightarrow> map_res (\<lambda>r. lookup_res (rp_metadata r) k) (replicate n r) = Inr (replicate n v)"
proof (induction n)
  case (Suc n)
  then have "lookup_res (rp_metadata r) k = Inr v" by simp
  then show ?case using Suc by (simp del: lookup_res_iff)
qed simp

lemma unbalanced_sample: "pb_main int_floats (replicate 5 pb_sample) = Inr ()"
proof -
  have "map_of (rp_metadata pb_sample) ''commit'' = Some ''x''" "map_of (rp_metadata pb_sample) ''source_sha256'' = Some ''x''"
    by (simp_all add: pb_sample_def sample_metadata_def pb_required_def)
  moreover have "each (pb_validate_report int_floats) (replicate 5 pb_sample) = Inr ()" by (simp add: each_Inr pb_sample_valid)
  ultimately show ?thesis by (simp add: pb_main_def field_replicate same_replicate)
qed

text \<open>
  The balance of the positions is not checked: five reports in which the first workload holds position 0 in each of
  its thirty rounds pass the whole validation, though the document rendered from accepted reports states that each
  target is measured as often first as second.
\<close>

theorem unbalanced_reports_accepted:
  "pb_main int_floats (replicate 5 pb_sample) = Inr () \<and>
     map (\<lambda>row. map_of row ''position'') (get_default (rp_samples pb_sample) ''Value-Only'' []) = replicate 30 (Some ''0'')"
  using unbalanced_sample by (simp add: pb_sample_def sample_rows_def sample_row_def get_default_def ROUNDS_def map_replicate_const comp_def)

theorem protobuf_reports_sound_witness:
  "pb_main int_floats (replicate 5 pb_sample) = Inr () \<and>
     (\<Sum>r\<leftarrow>replicate 5 pb_sample. \<Sum>w\<leftarrow>WORKLOADS. length (get_default (rp_samples r) w [])) = 300"
  using unbalanced_sample protobuf_reports_sound [OF unbalanced_sample] by blast

text \<open>Sixteen targets in cyclic rotation: target \<open>i\<close> has position \<open>(i + round) mod 16\<close>.\<close>

definition vb_sample :: "target_key report" where
  "vb_sample = \<lparr>rp_metadata = sample_metadata vb_required, rp_header = None,
     rp_summaries = map (\<lambda>i. ((show_int i, [], []), sample_summary)) [0..15],
     rp_samples = map (\<lambda>i. ((show_int i, [], []), sample_rows (\<lambda>n. show_int ((i + n) mod 16)))) [0..15]\<rparr>"

lemma vb_sample_key: "map_of (rp_summaries r) key = Some sample_summary \<Longrightarrow>
    vb_check_key fl r (key, sample_rows pos) = check_summary fl (sample_rows pos) sample_summary"
proof -
  assume s: "map_of (rp_summaries r) key = Some sample_summary"
  have "length (sample_rows pos) = EXPECTED_SAMPLES" by (simp add: sample_rows_def ROUNDS_def EXPECTED_SAMPLES_def)
  moreover have "map_res (int_col ''round'') (sample_rows pos) = Inr ROUNDS" by (simp add: sample_rows_def rounds_of_samples)
  moreover have "sort ROUNDS = ROUNDS" by (simp add: ROUNDS_def)
  moreover have "refuse (any_res (\<lambda>row. or_res (col_differs ''cpu_before'' ''0'' row) (or_res (col_differs ''cpu_after'' ''0'' row)
       (col_differs ''migrated'' ''false'' row))) (sample_rows pos)) msg = Inr ()" for msg
    using samples_clean [of pos] by (auto simp: refuse_Inr any_res_False or_res_False)
  moreover have "refuse (or_res (col_differs ''accepted_samples'' ''30'' sample_summary) (col_differs ''rejected_migration_samples'' ''0'' sample_summary)) msg = Inr ()" for msg
    by (simp add: refuse_Inr or_res_False col_differs_False sample_summary_def)
  moreover have "lookup_res (rp_summaries r) key = Inr sample_summary" using s by simp
  ultimately show ?thesis by (simp add: vb_check_key_def del: lookup_res_iff)
qed

lemma show_int_eq: "show_int i = show_int j \<longleftrightarrow> i = j"
  by (metis parse_show_int sum.inject(2))

lemma rotation_sorted: "n \<in> set ROUNDS \<Longrightarrow> sort (map (\<lambda>i. (i + n) mod 16) [0..15]) = [0..15]"
proof -
  have "\<forall>n \<in> set ROUNDS. sort (map (\<lambda>i. (i + n) mod 16) [0..15]) = [0..15]" by code_simp
  then show "n \<in> set ROUNDS \<Longrightarrow> sort (map (\<lambda>i. (i + n) mod 16) [0..15]) = [0..15]" by blast
qed

lemma vb_sample_valid: "vb_validate int_floats vb_sample = Inr ()"
proof -
  have "list_all (\<lambda>k. map_of (rp_metadata vb_sample) k \<noteq> None) vb_required" "configured (rp_metadata vb_sample)" "length (rp_samples vb_sample) = 16"
    by (simp_all add: vb_sample_def sample_metadata_def vb_required_def configured_def)
  moreover have "each (vb_check_key int_floats vb_sample) (rp_samples vb_sample) = Inr ()"
  proof -
    have "map_of (rp_summaries vb_sample) (show_int i, [], []) = Some sample_summary" if "i \<in> set [0..15]" for i
      using that by (auto simp: vb_sample_def image_iff distinct_map inj_on_def show_int_eq intro!: map_of_is_SomeI)
    then show ?thesis by (auto simp: each_Inr vb_sample_def vb_sample_key check_sample_summary)
  qed
  moreover have "each (vb_check_round vb_sample) ROUNDS = Inr ()"
  proof -
    have one: "in_round (int_col ''position'') n (sample_rows (\<lambda>n. show_int ((i + n) mod 16))) = Inr [(i + n) mod 16]" if "n \<in> set ROUNDS" for n i
      unfolding sample_rows_def by (rule sample_in_round) (use that in \<open>simp_all add: sample_row_def ROUNDS_def int_col_def parse_show_int\<close>)
    have "map_res (\<lambda>(_, rows). in_round (int_col ''position'') n rows) (rp_samples vb_sample) = Inr (map (\<lambda>i. [(i + n) mod 16]) [0..15])"
      if "n \<in> set ROUNDS" for n
    proof -
      have "map_res (\<lambda>(_, rows). in_round (int_col ''position'') n rows)
          (map (\<lambda>i. ((show_int i, [], []), sample_rows (\<lambda>n. show_int ((i + n) mod 16)))) is) = Inr (map (\<lambda>i. [(i + n) mod 16]) is)" for "is"
        by (induction "is") (simp_all add: one [OF that])
      then show ?thesis by (simp add: vb_sample_def)
    qed
    moreover have "concat (map (\<lambda>i. [(i + n) mod 16]) is) = map (\<lambda>i. (i + n) mod 16) is" for n :: int and "is" by (induction "is") simp_all
    ultimately show ?thesis by (simp add: each_Inr vb_check_round_def rotation_sorted del: upto_rec_numeral)
  qed
  ultimately show ?thesis by (simp add: vb_validate_def)
qed

theorem baseline_reports_sound_witness:
  "vb_main int_floats (replicate 5 vb_sample) = Inr () \<and> (\<Sum>r\<leftarrow>replicate 5 vb_sample. \<Sum>(_, samples)\<leftarrow>rp_samples r. length samples) = 2400"
proof -
  have "map_of (rp_metadata vb_sample) k = Some ''x''" if "k \<in> {''commit'', ''source_sha256'', ''vbuf_core_sha256''}" for k
    using that by (auto simp: vb_sample_def sample_metadata_def vb_required_def)
  moreover have "each (vb_validate int_floats) (replicate 5 vb_sample) = Inr ()" by (simp add: each_Inr vb_sample_valid)
  ultimately have v: "vb_main int_floats (replicate 5 vb_sample) = Inr ()"
    by (simp add: vb_main_def field_replicate same_replicate)
  then show ?thesis using baseline_reports_sound [OF v] by blast
qed

end
