(* ===== verification/Reports16.thy ===== *)
theory Reports16
  imports Placement
begin

text \<open>
  The report rows of \<open>scripts/qualify_step16.py\<close>: inventories, distributions, prefix and layer
  locality, and the comparisons that \<open>qualify\<close> writes for the parsed artifacts.  A CSV row is the
  JSON object of its fields.  \<open>tensor.placement_start[layout]\<close> is the list \<open>ps\<close> that \<open>simulate\<close>
  returns for the layout.  \<open>math.ceil(n * .9)\<close> is the exact ceiling, which it is for every count
  below 2 to the 50.
\<close>

section \<open>Statistics\<close>

definition stats :: "int list \<Rightarrow> json" where
  "stats values = (if values = [] then JObj [(''count'', JInt 0), (''min'', JNull), (''median'', JNull), (''p90'', JNull),
       (''max'', JNull), (''total'', JInt 0)]
     else let ordered = sort values; n = length ordered in
       JObj [(''count'', JInt (int (length values))), (''min'', JInt (ordered ! 0)), (''median'', JInt (ordered ! ((n - 1) div 2))),
         (''p90'', JInt (ordered ! min (n - 1) ((9 * n + 9) div 10 - 1))), (''max'', JInt (last ordered)),
         (''total'', JInt (sum_list values))])"

definition json_fields :: "json \<Rightarrow> (string \<times> json) list" where
  "json_fields v = (case v of JObj kvs \<Rightarrow> kvs | _ \<Rightarrow> [])"

section \<open>Rows of one artifact\<close>

definition join_x :: "int list \<Rightarrow> string" where
  "join_x ns = (case map show_int ns of [] \<Rightarrow> [] | d # ds \<Rightarrow> d @ concat (map (\<lambda>e. CHR ''x'' # e) ds))"

definition artifact_row :: "(int \<times> int) list \<Rightarrow> string \<Rightarrow> tensor \<Rightarrow> json" where
  "artifact_row ps layout t = JObj [(''ordinal'', JInt (tn_ordinal t)), (''name'', JStr (tn_name t)),
     (''shape'', JStr (join_x (tn_shape t))), (''ggml_type_id'', JInt (tn_type_id t)), (''ggml_type'', JStr (tn_type_name t)),
     (''elements'', opt_json (tn_elements t)), (''payload_bytes'', opt_json (tn_payload_size t)),
     (''relative_offset'', JInt (tn_relative_offset t)), (''absolute_start'', JInt (tn_absolute_start t)),
     (''absolute_end'', opt_json (tn_absolute_end t)), (''gap_before'', opt_json (tn_gap_before t)),
     (''layer'', opt_json (tn_layer t)), (''group'', JStr (tn_group t)), (''role'', JStr (tn_role t)),
     (''role_detail'', JStr (tn_role_detail t)), (''simulated_start'', opt_json (map_of ps (tn_ordinal t))),
     (''layout'', JStr layout)]"

definition artifact_rows :: "artifact \<Rightarrow> (int \<times> int) list \<Rightarrow> string \<Rightarrow> json list" where
  "artifact_rows a ps layout = map (artifact_row ps layout) (source_order (ar_tensors a))"

definition layers_of :: "tensor list \<Rightarrow> int list" where
  "layers_of ts = concat (map (\<lambda>t. case tn_layer t of None \<Rightarrow> [] | Some l \<Rightarrow> [l]) ts)"

definition all_layers :: "artifact \<Rightarrow> int list" where
  "all_layers a = sort (remdups (layers_of (ar_tensors a)))"

definition size_or_zero :: "tensor \<Rightarrow> int" where
  "size_or_zero t = (case tn_payload_size t of None \<Rightarrow> 0 | Some n \<Rightarrow> n)"

definition placement_row :: "(int \<times> int) list \<Rightarrow> string \<Rightarrow> nat \<times> tensor \<Rightarrow> json res" where
  "placement_row ps layout = (\<lambda>(simulated_ordinal, t). bind_res (lookup_res ps (tn_ordinal t)) (\<lambda>start.
     Inr (JObj [(''layout'', JStr layout), (''simulated_ordinal'', JInt (int simulated_ordinal)),
       (''source_ordinal'', JInt (tn_ordinal t)), (''name'', JStr (tn_name t)), (''layer'', opt_json (tn_layer t)),
       (''group'', JStr (tn_group t)), (''role'', JStr (tn_role t)), (''payload_bytes'', opt_json (tn_payload_size t)),
       (''simulated_start'', JInt start), (''simulated_end'', JInt (start + size_or_zero t))])))"

definition placement_rows :: "artifact \<Rightarrow> (int \<times> int) list \<Rightarrow> string \<Rightarrow> json list res" where
  "placement_rows a ps layout = bind_res (layout_order a layout) (\<lambda>ordered.
     map_res (placement_row ps layout) (List.enumerate 0 ordered))"

section \<open>Prefix and layer locality\<close>

definition in_prefix :: "int \<Rightarrow> tensor \<Rightarrow> bool" where
  "in_prefix last_layer t = (case tn_layer t of None \<Rightarrow> False | Some l \<Rightarrow> l \<le> last_layer)"

definition prefix_selection :: "artifact \<Rightarrow> int \<Rightarrow> tensor list" where
  "prefix_selection a last_layer = filter (\<lambda>t. tn_group t = ''GlobalPre'') (ar_tensors a) @ filter (in_prefix last_layer) (ar_tensors a)"

definition full_end_of :: "artifact \<Rightarrow> (int \<times> int) list \<Rightarrow> int res" where
  "full_end_of a ps = bind_res (map_res (interval ps) (filter (\<lambda>t. tn_payload_size t \<noteq> None) (ar_tensors a))) (\<lambda>ranges.
     Inr (case map snd ranges of [] \<Rightarrow> ar_data_start a | e # es \<Rightarrow> fold max es e))"

definition prefix_row :: "artifact \<Rightarrow> (int \<times> int) list \<Rightarrow> string \<Rightarrow> int \<Rightarrow> int \<Rightarrow> int \<Rightarrow> json res" where
  "prefix_row a ps layout total_payload full_end last_layer = (let selected = prefix_selection a last_layer in
     bind_res (metric ps selected False) (\<lambda>none_values.
     bind_res (metric ps selected True) (\<lambda>exact_values.
     let highest = (case mr_last_byte exact_values of None \<Rightarrow> ar_data_start a | Some b \<Rightarrow> if b = 0 then ar_data_start a else b) in
     Inr (JObj [(''layer_prefix'', JInt last_layer), (''semantic_bytes'', JInt (mr_semantic_bytes exact_values)),
       (''none_physical_read_bytes'', JInt (mr_physical_bytes none_values)),
       (''none_physical_range_count'', JInt (mr_range_count none_values)),
       (''physical_read_bytes'', JInt (mr_physical_bytes exact_values)),
       (''physical_range_count'', JInt (mr_range_count exact_values)),
       (''highest_byte_required'', JInt highest), (''prefix_span_bytes'', JInt (highest - ar_data_start a)),
       (''fraction_model_payload'', quot_json (mr_physical_bytes exact_values) total_payload),
       (''fraction_model_span'', if full_end > ar_data_start a then JQuot (highest - ar_data_start a) (full_end - ar_data_start a) else JNull),
       (''layout'', JStr layout)]))))"

definition prefix_rows :: "artifact \<Rightarrow> (int \<times> int) list \<Rightarrow> string \<Rightarrow> json list res" where
  "prefix_rows a ps layout = (let total_payload = (\<Sum>t\<leftarrow>ar_tensors a. size_or_zero t) in
     bind_res (full_end_of a ps) (\<lambda>full_end.
     map_res (prefix_row a ps layout total_payload full_end) (-1 # all_layers a)))"

definition layer_row :: "artifact \<Rightarrow> (int \<times> int) list \<Rightarrow> string \<Rightarrow> int \<Rightarrow> json res" where
  "layer_row a ps layout layer = (let selected = filter (\<lambda>t. tn_layer t = Some layer) (ar_tensors a) in
     bind_res (metric ps selected False) (\<lambda>none_values.
     bind_res (metric ps selected True) (\<lambda>exact_values.
     Inr (JObj [(''layer'', JInt layer), (''tensor_count'', JInt (mr_tensor_count exact_values)),
       (''semantic_bytes'', JInt (mr_semantic_bytes exact_values)),
       (''none_physical_bytes'', JInt (mr_physical_bytes none_values)), (''none_range_count'', JInt (mr_range_count none_values)),
       (''exact_adjacent_physical_bytes'', JInt (mr_physical_bytes exact_values)),
       (''exact_adjacent_range_count'', JInt (mr_range_count exact_values)),
       (''first_byte'', opt_json (mr_first_byte exact_values)), (''last_byte'', opt_json (mr_last_byte exact_values)),
       (''physical_span'', JInt (mr_physical_span exact_values)),
       (''span_amplification'', quot_json (mr_physical_span exact_values) (mr_semantic_bytes exact_values)),
       (''range_amplification'', quot_json (mr_physical_bytes exact_values) (mr_semantic_bytes exact_values)),
       (''layout'', JStr layout)]))))"

definition layer_rows :: "artifact \<Rightarrow> (int \<times> int) list \<Rightarrow> string \<Rightarrow> json list res" where
  "layer_rows a ps layout = map_res (layer_row a ps layout) (all_layers a)"

section \<open>Distributions\<close>

definition group_append :: "'k \<Rightarrow> 'v \<Rightarrow> ('k \<times> 'v list) list \<Rightarrow> ('k \<times> 'v list) list" where
  "group_append k v d = AList.update k (get_default d k [] @ [v]) d"

fun size_groups :: "((string \<times> string) \<times> int list) list \<Rightarrow> tensor list \<Rightarrow> ((string \<times> string) \<times> int list) list" where
  "size_groups groups [] = groups"
| "size_groups groups (t # ts) = (case tn_payload_size t of None \<Rightarrow> size_groups groups ts
     | Some n \<Rightarrow> size_groups (group_append (''role'', tn_role t) n
         (group_append (''layer'', case tn_layer t of None \<Rightarrow> ''unclassified'' | Some l \<Rightarrow> show_int l) n groups)) ts)"

definition known_sizes :: "tensor list \<Rightarrow> int list" where
  "known_sizes ts = concat (map (\<lambda>t. case tn_payload_size t of None \<Rightarrow> [] | Some n \<Rightarrow> [n]) ts)"

definition distribution_rows :: "artifact \<Rightarrow> json list" where
  "distribution_rows a = map (\<lambda>((scope, group), values).
       JObj ([(''scope'', JStr scope), (''group'', JStr group)] @ json_fields (stats values)))
     (sort_key fst (size_groups [((''all'', ''all''), known_sizes (ar_tensors a))] (ar_tensors a)))"

definition type_step :: "((int \<times> string) \<times> int \<times> int) list \<Rightarrow> tensor \<Rightarrow> ((int \<times> string) \<times> int \<times> int) list" where
  "type_step totals t = (let key = (tn_type_id t, tn_type_name t); (n, b) = get_default totals key (0, 0) in
     AList.update key (n + 1, b + size_or_zero t) totals)"

definition type_totals :: "tensor list \<Rightarrow> ((int \<times> string) \<times> int \<times> int) list" where
  "type_totals ts = fold (\<lambda>t totals. type_step totals t) ts []"

definition type_rows :: "artifact \<Rightarrow> json list" where
  "type_rows a = (let totals = type_totals (ar_tensors a); total = (\<Sum>(_, n, b)\<leftarrow>totals. b) in
     map (\<lambda>((type_id, type_name), n, b). JObj [(''ggml_type_id'', JInt type_id), (''ggml_type'', JStr type_name),
       (''tensor_count'', JInt n), (''payload_bytes'', JInt b), (''payload_fraction'', quot_json b total)])
     (sort_key fst totals))"

section \<open>The reports of \<open>qualify\<close>\<close>

definition LAYOUTS :: "string list" where
  "LAYOUTS = [''GGUF_SOURCE_ORDER'', ''NAME_ORDER'', ''LAYER_MAJOR'', ''LAYER_MAJOR_ROLE_ORDER'', ''DEEPSEEK_HOT_ROLE_ORDER'',
     ''PREFIX_FRIENDLY'']"

text \<open>\<open>sorted(..., reverse=True)\<close> keeps the order of equal elements.\<close>

definition sort_descending :: "('a \<Rightarrow> 'b :: linorder) \<Rightarrow> 'a list \<Rightarrow> 'a list" where
  "sort_descending f xs = rev (sort_key f (rev xs))"

definition largest_rows :: "artifact \<Rightarrow> json list" where
  "largest_rows a = (let largest = take 20 (sort_descending
       (\<lambda>t. (if size_or_zero t = 0 then -1 else size_or_zero t, tn_name t)) (ar_tensors a)) in
     map (\<lambda>(rank, t). JObj [(''rank'', JInt (int rank)), (''name'', JStr (tn_name t)), (''payload_bytes'', opt_json (tn_payload_size t)),
       (''type'', JStr (tn_type_name t)), (''layer'', opt_json (tn_layer t)), (''group'', JStr (tn_group t)), (''role'', JStr (tn_role t))])
     (List.enumerate 1 largest))"

definition comparison_row :: "string \<Rightarrow> artifact \<Rightarrow> string \<Rightarrow> json res" where
  "comparison_row label a layout = bind_res (simulate_layout a layout) (\<lambda>(ordered, ps, payload, padding).
     bind_res (metric ps ordered True) (\<lambda>values.
     Inr (JObj [(''artifact'', JStr label), (''layout'', JStr layout), (''tensor_count'', JInt (int (length ordered))),
       (''payload_bytes'', JInt payload), (''alignment_padding_bytes'', JInt padding),
       (''modeled_tensor_data_span'', JInt (payload + padding)), (''range_count_all_tensors'', JInt (mr_range_count values)),
       (''range_amplification_all_tensors'', quot_json (mr_physical_bytes values) (mr_semantic_bytes values))])))"

definition names_of :: "artifact \<Rightarrow> (string \<times> tensor) list" where
  "names_of a = fold (\<lambda>t d. AList.update (tn_name t) t d) (ar_tensors a) []"

definition inventory_row :: "string \<Rightarrow> tensor option \<Rightarrow> tensor option \<Rightarrow> json" where
  "inventory_row name left right = (let opt = (\<lambda>f t. case t of None \<Rightarrow> JNull | Some t \<Rightarrow> JStr (f t)) in
     JObj [(''name'', JStr name), (''q8_present'', JBool (left \<noteq> None)), (''bf16_present'', JBool (right \<noteq> None)),
       (''classification'', JStr (case (left, right) of
          (Some l, Some r) \<Rightarrow> if tn_shape l = tn_shape r then ''same_logical_tensor'' else ''shape_difference''
        | (Some _, None) \<Rightarrow> ''q8_only'' | _ \<Rightarrow> ''bf16_only'')),
       (''q8_shape'', opt (\<lambda>t. join_x (tn_shape t)) left), (''bf16_shape'', opt (\<lambda>t. join_x (tn_shape t)) right),
       (''q8_type'', opt tn_type_name left), (''bf16_type'', opt tn_type_name right),
       (''q8_group'', opt tn_group left), (''bf16_group'', opt tn_group right)])"

definition inventory_rows :: "artifact \<Rightarrow> artifact \<Rightarrow> json list" where
  "inventory_rows q8 bf16 = (let l = names_of q8; r = names_of bf16 in
     map (\<lambda>name. inventory_row name (map_of l name) (map_of r name)) (sort (remdups (map fst l @ map fst r))))"

definition windows_of :: "int list \<Rightarrow> int list list" where
  "windows_of layers = map (\<lambda>l. [l]) (take 1 layers) @ [take 2 layers, take 4 layers, take 8 layers, layers] @
     (if length layers > 10 then [[10], [10..min 14 (int (length layers)) - 1]] else [])"

definition partial_row :: "string \<Rightarrow> artifact \<Rightarrow> (int \<times> int) list \<Rightarrow> string \<Rightarrow> int list \<Rightarrow> json res" where
  "partial_row label a ps layout window = (let selected = filter (\<lambda>t. case tn_layer t of None \<Rightarrow> False | Some l \<Rightarrow> l \<in> set window) (ar_tensors a) in
     bind_res (metric ps selected False) (\<lambda>none_values.
     bind_res (metric ps selected True) (\<lambda>exact_values.
     if window = [] then Inl IndexError else
     Inr (JObj [(''artifact'', JStr label), (''layout'', JStr layout),
       (''selection'', JStr (''layers:'' @ show_int (hd window) @ ''-'' @ show_int (last window))),
       (''semantic_bytes'', JInt (mr_semantic_bytes exact_values)),
       (''none_physical_bytes'', JInt (mr_physical_bytes none_values)), (''none_range_count'', JInt (mr_range_count none_values)),
       (''exact_adjacent_physical_bytes'', JInt (mr_physical_bytes exact_values)),
       (''exact_adjacent_range_count'', JInt (mr_range_count exact_values)),
       (''span_amplification'', quot_json (mr_physical_span exact_values) (mr_semantic_bytes exact_values))]))))"

definition partial_rows :: "string \<Rightarrow> artifact \<Rightarrow> (string \<times> (int \<times> int) list) list \<Rightarrow> json list res" where
  "partial_rows label a placements = bind_res (map_res (\<lambda>(layout, ps).
     map_res (partial_row label a ps layout) (windows_of (all_layers a))) placements) (\<lambda>rows. Inr (concat rows))"

definition boundary_row :: "string \<Rightarrow> artifact \<Rightarrow> (int \<times> int) list \<Rightarrow> string \<Rightarrow> int \<Rightarrow> json res" where
  "boundary_row label a ps layout layer =
     bind_res (map_res (interval ps) (filter (\<lambda>t. tn_layer t = Some layer) (ar_tensors a))) (\<lambda>ranges.
     let furthest = (case map snd ranges of [] \<Rightarrow> None | e # es \<Rightarrow> Some (fold max es e)) in
     Inr (JObj [(''artifact'', JStr label), (''layout'', JStr layout), (''boundary'', JStr (''after_layer_'' @ show_int layer)),
       (''layer'', JInt layer), (''cumulative_end'', opt_json furthest),
       (''offset_from_data_start'', opt_json (map_option (\<lambda>e. e - ar_data_start a) furthest))]))"

definition summary_row :: "(meta_value \<Rightarrow> int res) \<Rightarrow> string \<Rightarrow> string \<Rightarrow> artifact \<Rightarrow> json res" where
  "summary_row coerce label filename a = (let
       meta = (\<lambda>k. case map_of (ar_metadata a) k of None \<Rightarrow> JNull | Some v \<Rightarrow> meta_json v);
       tokens = (case map_of (ar_metadata a) ''tokenizer.ggml.tokens'' of Some (MArr vs) \<Rightarrow> Some (int (length vs)) | _ \<Rightarrow> None) in
     bind_res (metadata_number coerce a [''qwen3.embedding_length'', ''llama.embedding_length'', ''embedding_length'']) (\<lambda>embedding.
     bind_res (metadata_number coerce a [''qwen3.attention.head_count'', ''llama.attention.head_count'']) (\<lambda>heads.
     bind_res (metadata_number coerce a [''qwen3.attention.head_count_kv'', ''llama.attention.head_count_kv'']) (\<lambda>kv_heads.
     bind_res (metadata_number coerce a [''qwen3.vocab_size'', ''llama.vocab_size'']) (\<lambda>vocab.
     Inr (JObj [(''artifact'', JStr label), (''filename'', JStr filename), (''file_size'', JInt (ar_size a)),
       (''sha256'', JStr (ar_sha256 a)), (''gguf_version'', JInt (ar_version a)),
       (''metadata_kv_count'', JInt (ar_metadata_count a)), (''tensor_count'', JInt (ar_tensor_count a)),
       (''data_start'', JInt (ar_data_start a)), (''alignment'', JInt (ar_alignment a)),
       (''architecture'', meta ''general.architecture''), (''name'', meta ''general.name''), (''layer_count'', opt_json (layer_count a)),
       (''embedding_dimension'', opt_json embedding), (''attention_heads'', opt_json heads), (''kv_heads'', opt_json kv_heads),
       (''vocabulary_size'', opt_json (case vocab of None \<Rightarrow> tokens | Some n \<Rightarrow> if n = 0 then tokens else Some n))]))))))"

definition type_label :: "meta_value \<Rightarrow> string" where
  "type_label v = (case v of MInt _ \<Rightarrow> ''int'' | MFloat _ _ \<Rightarrow> ''float'' | MBool _ \<Rightarrow> ''bool'' | MStr _ \<Rightarrow> ''str'' | MArr _ \<Rightarrow> ''list'')"

definition key_row :: "(meta_value \<Rightarrow> string) \<Rightarrow> string \<Rightarrow> string \<times> meta_value \<Rightarrow> json" where
  "key_row render label = (\<lambda>(key, v).
     JObj [(''artifact'', JStr label), (''key'', JStr key), (''value_type'', JStr (type_label v)),
       (''value_or_shape'', JStr (case v of MArr vs \<Rightarrow> ''array['' @ show_int (int (length vs)) @ '']'' | _ \<Rightarrow> py_str render v))])"

definition key_rows :: "(meta_value \<Rightarrow> string) \<Rightarrow> string \<Rightarrow> artifact \<Rightarrow> json list" where
  "key_rows render label a = map (key_row render label) (sort_key fst (ar_metadata a))"

definition placements_of :: "artifact \<Rightarrow> (string \<times> (int \<times> int) list) list res" where
  "placements_of a = map_res (\<lambda>layout. bind_res (simulate_layout a layout) (\<lambda>(_, ps, _, _). Inr (layout, ps))) LAYOUTS"

definition labelled :: "string \<Rightarrow> json \<Rightarrow> json" where
  "labelled label row = JObj (AList.update ''artifact'' (JStr label) (json_fields row))"

text \<open>The per-artifact files of the first loop of \<open>qualify\<close>, by the suffix of their names.\<close>

definition artifact_report :: "string \<Rightarrow> artifact \<Rightarrow> (string \<times> json list) list res" where
  "artifact_report label a = bind_res (placements_of a) (\<lambda>placements.
     bind_res (lookup_res placements ''GGUF_SOURCE_ORDER'') (\<lambda>source.
     bind_res (map_res (\<lambda>(layout, ps). placement_rows a ps layout) placements) (\<lambda>placed.
     bind_res (map_res (\<lambda>(layout, ps). bind_res (layer_rows a ps layout) (\<lambda>ls. bind_res (prefix_rows a ps layout) (\<lambda>prs.
        Inr (map (labelled label) ls, map (labelled label) prs)))) placements) (\<lambda>locality.
     Inr [(''tensors'', artifact_rows a source ''GGUF_SOURCE_ORDER''), (''placements'', concat placed), (''types'', type_rows a),
       (''size-distribution'', distribution_rows a), (''largest-tensors'', largest_rows a),
       (''layer-locality'', concat (map fst locality)), (''prefix-readiness'', concat (map snd locality))]))))"

definition placement_comparison :: "(string \<times> artifact) list \<Rightarrow> json list res" where
  "placement_comparison artifacts = bind_res (map_res (\<lambda>(label, a). map_res (comparison_row label a) LAYOUTS) artifacts) (\<lambda>rows.
     Inr (concat rows))"

definition natural_boundaries :: "(string \<times> artifact) list \<Rightarrow> json list res" where
  "natural_boundaries artifacts = bind_res (map_res (\<lambda>(label, a). bind_res (placements_of a) (\<lambda>placements.
     bind_res (map_res (\<lambda>(layout, ps). map_res (boundary_row label a ps layout) (all_layers a)) placements) (\<lambda>rows.
     Inr (concat rows)))) artifacts) (\<lambda>rows. Inr (concat rows))"


section \<open>The totals add up\<close>

definition counted :: "('k \<times> int \<times> int) list \<Rightarrow> int \<times> int" where
  "counted d = (\<Sum>(_, n, _)\<leftarrow>d. n, \<Sum>(_, _, b)\<leftarrow>d. b)"

lemma counted_update:
  "distinct (map fst d) \<Longrightarrow> counted (AList.update k (n, b) d) =
     (fst (counted d) + n - fst (get_default d k (0, 0)), snd (counted d) + b - snd (get_default d k (0, 0)))"
  by (induction d) (auto simp: counted_def get_default_def split: option.splits)

lemma type_fold:
  "distinct (map fst d) \<Longrightarrow> distinct (map fst (fold (\<lambda>t totals. type_step totals t) ts d)) \<and>
     counted (fold (\<lambda>t totals. type_step totals t) ts d) =
       (fst (counted d) + int (length ts), snd (counted d) + (\<Sum>t\<leftarrow>ts. size_or_zero t))"
proof (induction ts arbitrary: d)
  case (Cons t ts)
  have st: "distinct (map fst (type_step d t)) \<and> counted (type_step d t) = (fst (counted d) + 1, snd (counted d) + size_or_zero t)"
    using Cons.prems by (auto simp: type_step_def Let_def distinct_update counted_update split: prod.split)
  show ?case using Cons.IH[of "type_step d t"] st by simp
qed simp

lemma prefix_monotone:
  assumes "l \<le> l'" and "list_all (\<lambda>t. 0 \<le> size_or_zero t) (ar_tensors a)"
  shows "(\<Sum>t\<leftarrow>prefix_selection a l. size_or_zero t) \<le> (\<Sum>t\<leftarrow>prefix_selection a l'. size_or_zero t)"
proof -
  have "(\<Sum>t\<leftarrow>filter (in_prefix l) ts. size_or_zero t) \<le> (\<Sum>t\<leftarrow>filter (in_prefix l') ts. size_or_zero t)"
    if "list_all (\<lambda>t. 0 \<le> size_or_zero t) ts" for ts
    using that assms(1) by (induction ts) (auto simp: in_prefix_def split: option.splits)
  then show ?thesis using assms(2) by (simp add: prefix_selection_def)
qed

lemma filter_known_sum: "(\<Sum>t\<leftarrow>filter (\<lambda>t. tn_payload_size t \<noteq> None) ts. size_or_zero t) = (\<Sum>t\<leftarrow>ts. size_or_zero t)"
  by (induction ts) (auto simp: size_or_zero_def)

lemma metric_semantic: "metric ps ts adjacent = Inr m \<Longrightarrow> mr_semantic_bytes m = (\<Sum>t\<leftarrow>ts. size_or_zero t)"
  using filter_known_sum[of ts]
  by (auto simp: metric_def Let_def bind_res_Inr_iff size_or_zero_def[abs_def])

lemma interval_ok: "interval ps t = Inr r \<Longrightarrow> 0 \<le> size_or_zero t \<Longrightarrow> fst r \<le> snd r \<and> snd r - fst r = size_or_zero t"
  by (auto simp: interval_def bind_res_Inr_iff size_or_zero_def split: option.splits)

lemma intervals_length:
  "map_res (interval ps) ts = Inr rs \<Longrightarrow> list_all (\<lambda>t. 0 \<le> size_or_zero t) ts \<Longrightarrow>
     list_all (\<lambda>(s, e). s \<le> e) rs \<and> total_length rs = (\<Sum>t\<leftarrow>ts. size_or_zero t)"
proof (induction ts arbitrary: rs)
  case (Cons t ts)
  then obtain r rs' where r: "interval ps t = Inr r" and rs: "map_res (interval ps) ts = Inr rs'" "rs = r # rs'"
    by (auto simp: bind_res_Inr_iff)
  show ?case using Cons.IH[OF rs(1)] Cons.prems(2) interval_ok[OF r] rs(2) by (cases r) auto
qed simp

lemma metric_physical:
  assumes m: "metric ps ts adjacent = Inr m" and nn: "list_all (\<lambda>t. 0 \<le> size_or_zero t) ts"
  shows "mr_physical_bytes m \<le> mr_semantic_bytes m"
proof -
  let ?known = "filter (\<lambda>t. tn_payload_size t \<noteq> None) ts"
  obtain ranges where ranges: "map_res (interval ps) ?known = Inr ranges"
    and ph: "mr_physical_bytes m = total_length (merge_ranges adjacent ranges)"
    using m by (auto simp: metric_def Let_def bind_res_Inr_iff merge_intervals_def total_length_def)
  have "list_all (\<lambda>t. 0 \<le> size_or_zero t) ?known" using nn by (simp add: list_all_iff)
  note L = intervals_length[OF ranges this]
  have "total_length (merge_ranges adjacent ranges) \<le> total_length ranges" using merge_ranges_length L by blast
  also have "\<dots> = (\<Sum>t\<leftarrow>ts. size_or_zero t)" using L filter_known_sum by metis
  finally show ?thesis using ph metric_semantic[OF m] by simp
qed

text \<open>
  The type table of an artifact accounts for every tensor once: its keys are distinct, its counts
  add up to the number of tensors and its bytes to the sum of the payloads.
\<close>

theorem type_totals_complete:
  "distinct (map fst (type_totals ts)) \<and>
   counted (type_totals ts) = (int (length ts), \<Sum>t\<leftarrow>ts. size_or_zero t)"
  using type_fold[of "[]" ts] by (simp add: type_totals_def counted_def)

text \<open>
  Reading a selection of tensors never needs more physical bytes than their payloads: for tensors
  of non-negative size, \<open>metric\<close> reports the sum of the payloads as semantic bytes and at most that as
  physical bytes, for both merging modes.
\<close>

theorem metric_reads_at_most_payload:
  assumes "metric ps ts adjacent = Inr m" and "list_all (\<lambda>t. 0 \<le> size_or_zero t) ts"
  shows "mr_semantic_bytes m = (\<Sum>t\<leftarrow>ts. size_or_zero t) \<and> mr_physical_bytes m \<le> mr_semantic_bytes m"
  using metric_semantic[OF assms(1)] metric_physical[OF assms] by blast

theorem metric_reads_at_most_payload_witness:
  "\<exists>m. metric [(0, 0), (1, 4)] (ar_tensors sample_layer) True = Inr m \<and> mr_semantic_bytes m = 8 \<and> mr_physical_bytes m \<le> 8"
proof -
  have "case metric [(0, 0), (1, 4)] (ar_tensors sample_layer) True of Inl _ \<Rightarrow> False | Inr m \<Rightarrow> mr_semantic_bytes m = 8" by code_simp
  then obtain m where m: "metric [(0, 0), (1, 4)] (ar_tensors sample_layer) True = Inr m" "mr_semantic_bytes m = 8"
    by (cases "metric [(0, 0), (1, 4)] (ar_tensors sample_layer) True") auto
  have nn: "list_all (\<lambda>t. 0 \<le> size_or_zero t) (ar_tensors sample_layer)" by code_simp
  show ?thesis using metric_reads_at_most_payload[OF m(1) nn] m by auto
qed

end
