(* ===== verification/Tiered.thy ===== *)
theory Tiered
  imports Trace Eviction "HOL-Library.Product_Lexorder"
begin

text \<open>
  The two-tier replay of \<open>scripts/qualify_tiered_residency_poc18.py\<close>: \<open>run_tiered\<close> with its nested
  functions \<open>evict_warm\<close> and \<open>make_hot_room\<close> as state transformers.  An entry of the dictionary
  \<open>entries\<close> is a Python dictionary held by reference: the assignment to the promoted entry
  changes \<open>entries\<close> only if the entry is still in it.  Metrics are one counter per key.
\<close>

section \<open>State\<close>

datatype tier = HOT | WARM
datatype generation = NEW | YOUNG | OLD

record tier_entry =
  te_bytes :: int
  te_tier :: tier
  te_generation :: generation
  te_count :: int
  te_last :: int
  te_last_epoch :: nat

record movement =
  mv_ref :: int
  mv_bytes :: int
  mv_epoch :: nat

record promotion = movement +
  pr_prior_requests :: int
  pr_generation :: generation

record tier_state =
  ts_entries :: "(int \<times> tier_entry) list"
  ts_clock :: int
  ts_hot_bytes :: int
  ts_warm_bytes :: int
  ts_hot_peak :: int
  ts_warm_peak :: int
  ts_warm_evictions :: int
  ts_warm_drops :: int
  ts_warm_drop_bytes :: int
  ts_demotions :: int
  ts_demotion_bytes :: int
  ts_hot_evictions :: int
  ts_backing_misses :: int
  ts_backing_source_bytes :: int
  ts_warm_admissions :: int
  ts_hot_hits :: int
  ts_warm_hits :: int
  ts_promotions :: int
  ts_promotion_bytes :: int
  ts_promotion_rows :: "promotion list"
  ts_demotion_rows :: "movement list"

definition tier_start :: tier_state where
  "tier_start = \<lparr>ts_entries = [], ts_clock = 0, ts_hot_bytes = 0, ts_warm_bytes = 0, ts_hot_peak = 0,
     ts_warm_peak = 0, ts_warm_evictions = 0, ts_warm_drops = 0, ts_warm_drop_bytes = 0, ts_demotions = 0,
     ts_demotion_bytes = 0, ts_hot_evictions = 0, ts_backing_misses = 0, ts_backing_source_bytes = 0,
     ts_warm_admissions = 0, ts_hot_hits = 0, ts_warm_hits = 0, ts_promotions = 0, ts_promotion_bytes = 0,
     ts_promotion_rows = [], ts_demotion_rows = []\<rparr>"

definition tier_refs :: "tier \<Rightarrow> tier_state \<Rightarrow> int list" where
  "tier_refs t s = map fst (filter (\<lambda>p. te_tier (snd p) = t) (ts_entries s))"

definition entry_at :: "tier_state \<Rightarrow> int \<Rightarrow> tier_entry" where
  "entry_at s r = get_default (ts_entries s) r
     \<lparr>te_bytes = 0, te_tier = WARM, te_generation = NEW, te_count = 0, te_last = 0, te_last_epoch = 0\<rparr>"

text \<open>\<open>min(candidates, key=lambda ref: (entries[ref]["last"], ref))\<close>\<close>

definition oldest :: "tier_state \<Rightarrow> int list \<Rightarrow> int" where
  "oldest s candidates = arg_min_list (\<lambda>r. (te_last (entry_at s r), r)) candidates"

definition drop_warm :: "int \<Rightarrow> tier_state \<Rightarrow> tier_state" where
  "drop_warm victim s = (let value = entry_at s victim in
     s\<lparr>ts_entries := AList.delete victim (ts_entries s), ts_warm_bytes := ts_warm_bytes s - te_bytes value,
       ts_warm_evictions := ts_warm_evictions s + 1, ts_warm_drops := ts_warm_drops s + 1,
       ts_warm_drop_bytes := ts_warm_drop_bytes s + te_bytes value\<rparr>)"

section \<open>Making room\<close>

lemma tier_refs_iff: "r \<in> set (tier_refs t s) \<longleftrightarrow> (\<exists>v. (r, v) \<in> set (ts_entries s) \<and> te_tier v = t)"
  by (force simp: tier_refs_def)

lemma tier_refs_mem: "r \<in> set (tier_refs t s) \<Longrightarrow> map_of (ts_entries s) r \<noteq> None"
  unfolding tier_refs_iff map_of_eq_None_iff by force

lemma oldest_in: "cs \<noteq> [] \<Longrightarrow> oldest s cs \<in> set cs"
  by (simp add: oldest_def arg_min_list_in)

lemma drop_warm_entries [simp]: "ts_entries (drop_warm v s) = AList.delete v (ts_entries s)"
  by (simp add: drop_warm_def Let_def)

function evict_warm :: "int \<Rightarrow> int \<Rightarrow> tier_state \<Rightarrow> bool \<times> tier_state" where
  "evict_warm warm_capacity required s =
     (if ts_warm_bytes s + required > warm_capacity then
        let candidates = tier_refs WARM s in
        if candidates = [] then (False, s)
        else evict_warm warm_capacity required (drop_warm (oldest s candidates) s)
      else (True, s))"
  by pat_completeness auto

termination evict_warm
  by (relation "measure (\<lambda>(c, r, s). length (ts_entries s))")
    (auto intro!: length_delete_less dest!: oldest_in[of _ s for s] tier_refs_mem)

declare evict_warm.simps [simp del]

text \<open>\<open>entries[ref]["tier"] = t\<close>\<close>

definition set_tier :: "int \<Rightarrow> tier \<Rightarrow> (int \<times> tier_entry) list \<Rightarrow> (int \<times> tier_entry) list" where
  "set_tier r t entries = map (\<lambda>(k, v). (k, if k = r then v\<lparr>te_tier := t\<rparr> else v)) entries"

definition demote :: "nat \<Rightarrow> int \<Rightarrow> tier_state \<Rightarrow> tier_state" where
  "demote epoch victim s = (let value = entry_at s victim in
     s\<lparr>ts_entries := set_tier victim WARM (ts_entries s),
       ts_hot_bytes := ts_hot_bytes s - te_bytes value, ts_warm_bytes := ts_warm_bytes s + te_bytes value,
       ts_demotions := ts_demotions s + 1, ts_demotion_bytes := ts_demotion_bytes s + te_bytes value,
       ts_hot_evictions := ts_hot_evictions s + 1,
       ts_demotion_rows := ts_demotion_rows s @ [\<lparr>mv_ref = victim, mv_bytes = te_bytes value, mv_epoch = epoch\<rparr>]\<rparr>)"

lemma set_tier_iff:
  "(x, v) \<in> set (set_tier r t al) \<longleftrightarrow> (\<exists>w. (x, w) \<in> set al \<and> v = (if x = r then w\<lparr>te_tier := t\<rparr> else w))"
  by (force simp: set_tier_def)

lemma evict_warm_hot_subset:
  "evict_warm c r s = (ok, s') \<Longrightarrow> set (tier_refs HOT s') \<subseteq> set (tier_refs HOT s)"
proof (induction c r s rule: evict_warm.induct)
  case (1 c r s)
  show ?case
  proof (cases "ts_warm_bytes s + r > c \<and> tier_refs WARM s \<noteq> []")
    case True
    have "set (tier_refs HOT (drop_warm v s)) \<subseteq> set (tier_refs HOT s)" for v
      by (auto simp: tier_refs_iff AList.delete_eq)
    moreover have "set (tier_refs HOT s') \<subseteq> set (tier_refs HOT (drop_warm (oldest s (tier_refs WARM s)) s))"
      using 1 True by (subst (asm) (2) evict_warm.simps) (auto simp: Let_def)
    ultimately show ?thesis by blast
  next
    case False
    then show ?thesis using 1(2) by (subst (asm) evict_warm.simps) (auto simp: Let_def split: if_splits)
  qed
qed

lemma demote_hot: "set (tier_refs HOT (demote epoch v s)) \<subseteq> set (tier_refs HOT s) - {v}"
  by (auto simp: tier_refs_iff demote_def Let_def set_tier_iff split: if_splits)

lemma demote_hot_less:
  assumes "(ok, s1) = evict_warm c r s" and "v \<in> set (tier_refs HOT s)"
  shows "card (set (tier_refs HOT (demote epoch v s1))) < card (set (tier_refs HOT s))"
proof (rule psubset_card_mono)
  show "set (tier_refs HOT (demote epoch v s1)) \<subset> set (tier_refs HOT s)"
    using demote_hot[of epoch v s1] evict_warm_hot_subset[OF assms(1)[symmetric]] assms(2) by blast
qed simp

function make_hot_room :: "int \<Rightarrow> int \<Rightarrow> int \<Rightarrow> nat \<Rightarrow> tier_state \<Rightarrow> bool \<times> tier_state" where
  "make_hot_room hot_capacity warm_capacity required epoch s =
     (if ts_hot_bytes s + required > hot_capacity then
        let candidates = tier_refs HOT s in
        if candidates = [] then (False, s)
        else let victim = oldest s candidates in
          (case evict_warm warm_capacity (te_bytes (entry_at s victim)) s of (ok, s1) \<Rightarrow>
             if \<not> ok then (False, s1)
             else make_hot_room hot_capacity warm_capacity required epoch (demote epoch victim s1))
      else (True, s))"
  by pat_completeness auto

termination make_hot_room
  by (relation "measure (\<lambda>(h, w, r, e, s). card (set (tier_refs HOT s)))")
    (auto intro!: demote_hot_less oldest_in)

declare make_hot_room.simps [simp del]

section \<open>The request loop\<close>

definition epoch_length :: "event list \<Rightarrow> nat" where
  "epoch_length sequence = max 1 (length sequence div 4)"

definition touch :: "int \<Rightarrow> int \<Rightarrow> nat \<Rightarrow> tier_entry \<Rightarrow> tier_entry" where
  "touch old_after_reuses clock epoch v = (let count = te_count v + 1 in
     v\<lparr>te_count := count,
       te_generation := (if count \<ge> old_after_reuses + 1 then OLD else if count = 2 then YOUNG else te_generation v),
       te_last := clock, te_last_epoch := epoch\<rparr>)"

text \<open>
  \<open>value["tier"] = "HOT"\<close> on the object \<open>value\<close>: visible in \<open>entries\<close> if the entry is still
  there; the byte counters change in any case.
\<close>

definition promote :: "nat \<Rightarrow> int \<Rightarrow> tier_entry \<Rightarrow> tier_state \<Rightarrow> tier_state" where
  "promote epoch r v s =
     s\<lparr>ts_entries := set_tier r HOT (ts_entries s),
       ts_warm_bytes := ts_warm_bytes s - te_bytes v, ts_hot_bytes := ts_hot_bytes s + te_bytes v,
       ts_promotions := ts_promotions s + 1, ts_promotion_bytes := ts_promotion_bytes s + te_bytes v,
       ts_promotion_rows := ts_promotion_rows s @ [\<lparr>mv_ref = r, mv_bytes = te_bytes v, mv_epoch = epoch,
         pr_prior_requests = te_count v - 1, pr_generation = te_generation v\<rparr>]\<rparr>"

definition update_peaks :: "tier_state \<Rightarrow> tier_state" where
  "update_peaks s = s\<lparr>ts_hot_peak := max (ts_hot_peak s) (ts_hot_bytes s),
     ts_warm_peak := max (ts_warm_peak s) (ts_warm_bytes s)\<rparr>"

definition admit_warm :: "int \<Rightarrow> nat \<Rightarrow> event \<Rightarrow> tier_state \<Rightarrow> tier_state" where
  "admit_warm warm_capacity epoch e s0 = (let s = s0\<lparr>ts_backing_misses := ts_backing_misses s0 + 1,
       ts_backing_source_bytes := ts_backing_source_bytes s0 + ev_bytes e\<rparr> in
     case evict_warm warm_capacity (ev_bytes e) s of (ok, s1) \<Rightarrow>
       if \<not> ok then s1
       else update_peaks (s1\<lparr>ts_entries := AList.update (ev_ref e) \<lparr>te_bytes = ev_bytes e, te_tier = WARM,
              te_generation = NEW, te_count = 1, te_last = ts_clock s1, te_last_epoch = epoch\<rparr> (ts_entries s1),
            ts_warm_bytes := ts_warm_bytes s1 + ev_bytes e, ts_warm_admissions := ts_warm_admissions s1 + 1\<rparr>))"

definition hit_entry :: "int \<Rightarrow> int \<Rightarrow> int \<Rightarrow> nat \<Rightarrow> event \<Rightarrow> tier_state \<Rightarrow> tier_state" where
  "hit_entry hot_capacity warm_capacity old_after_reuses epoch e s0 = (let r = ev_ref e;
     v0 = entry_at s0 r; v = touch old_after_reuses (ts_clock s0) epoch v0;
     s = s0\<lparr>ts_hot_hits := ts_hot_hits s0 + (if te_tier v0 = HOT then 1 else 0),
            ts_warm_hits := ts_warm_hits s0 + (if te_tier v0 = HOT then 0 else 1),
            ts_entries := AList.update r v (ts_entries s0)\<rparr> in
     update_peaks (if te_tier v = WARM \<and> te_generation v = OLD then
         (case make_hot_room hot_capacity warm_capacity (te_bytes v) epoch s of (ok, s1) \<Rightarrow>
            if ok then promote epoch r v s1 else s1)
       else s))"

definition tier_step :: "int \<Rightarrow> int \<Rightarrow> int \<Rightarrow> nat \<Rightarrow> event \<Rightarrow> tier_state \<Rightarrow> tier_state" where
  "tier_step hot_capacity warm_capacity old_after_reuses epoch e s0 = (let s = s0\<lparr>ts_clock := ts_clock s0 + 1\<rparr> in
     if map_of (ts_entries s) (ev_ref e) = None then admit_warm warm_capacity epoch e s
     else hit_entry hot_capacity warm_capacity old_after_reuses epoch e s)"

fun tier_loop :: "int \<Rightarrow> int \<Rightarrow> int \<Rightarrow> nat \<Rightarrow> nat \<Rightarrow> event list \<Rightarrow> tier_state \<Rightarrow> tier_state" where
  "tier_loop hot_capacity warm_capacity old_after_reuses elen index [] s = s"
| "tier_loop hot_capacity warm_capacity old_after_reuses elen index (e # es) s =
     tier_loop hot_capacity warm_capacity old_after_reuses elen (Suc index) es
       (tier_step hot_capacity warm_capacity old_after_reuses (index div elen) e s)"

record tier_report =
  tr_state :: tier_state
  tr_total_peak :: int
  tr_generation_new :: int
  tr_generation_young :: int
  tr_generation_old :: int
  tr_total_inter_tier_movement_bytes :: int
  tr_total_data_movement_bytes :: int

definition generation_count :: "generation \<Rightarrow> tier_state \<Rightarrow> int" where
  "generation_count g s = int (length (filter (\<lambda>p. te_generation (snd p) = g) (ts_entries s)))"

definition run_tiered :: "event list \<Rightarrow> int \<Rightarrow> int \<Rightarrow> int \<Rightarrow> tier_report" where
  "run_tiered sequence hot_capacity warm_capacity old_after_reuses =
     (let s = tier_loop hot_capacity warm_capacity old_after_reuses (epoch_length sequence) 0 sequence tier_start in
      \<lparr>tr_state = s, tr_total_peak = ts_hot_peak s + ts_warm_peak s,
       tr_generation_new = generation_count NEW s, tr_generation_young = generation_count YOUNG s,
       tr_generation_old = generation_count OLD s,
       tr_total_inter_tier_movement_bytes = ts_promotion_bytes s + ts_demotion_bytes s,
       tr_total_data_movement_bytes = ts_backing_source_bytes s + ts_promotion_bytes s + ts_demotion_bytes s\<rparr>)"

definition tier_bytes :: "tier \<Rightarrow> tier_state \<Rightarrow> int" where
  "tier_bytes t s = used (\<lambda>v. if te_tier v = t then te_bytes v else 0) (ts_entries s)"

section \<open>Exact accounts\<close>

text \<open>The hot counter is ahead of the hot entries by \<open>d\<close> bytes, the warm counter behind the warm ones by as many.\<close>

definition accounts_off :: "int \<Rightarrow> tier_state \<Rightarrow> bool" where
  "accounts_off d s \<longleftrightarrow> distinct (map fst (ts_entries s)) \<and>
     ts_hot_bytes s = tier_bytes HOT s + d \<and> ts_warm_bytes s = tier_bytes WARM s - d"

lemma set_tier_update:
  "distinct (map fst al) \<Longrightarrow> map_of al r = Some w \<Longrightarrow> set_tier r t al = AList.update r (w\<lparr>te_tier := t\<rparr>) al"
proof -
  assume d: "distinct (map fst al)" and m: "map_of al r = Some w"
  have "r \<in> set (map fst al)" using m by (metis map_of_eq_None_iff option.distinct(1) list.set_map)
  moreover have same: "(r, v) \<in> set al \<Longrightarrow> v = w" for v using d m by (auto dest: eq_key_imp_eq_value)
  have "set_tier r t al = map (\<lambda>(k, v). if k = r then (k, w\<lparr>te_tier := t\<rparr>) else (k, v)) al"
    unfolding set_tier_def by (rule map_cong) (auto dest: same)
  ultimately show ?thesis using d by (simp add: update_map)
qed

lemma set_tier_absent: "map_of al r = None \<Longrightarrow> set_tier r t al = al"
  by (induction al) (auto simp: set_tier_def split: if_splits)

lemma tier_bytes_total: "tier_bytes HOT s + tier_bytes WARM s = (\<Sum>p\<leftarrow>ts_entries s. te_bytes (snd p))"
proof -
  have "used (\<lambda>v. if te_tier v = HOT then te_bytes v else 0) al + used (\<lambda>v. if te_tier v = WARM then te_bytes v else 0) al =
      (\<Sum>p\<leftarrow>al. te_bytes (snd p))" for al :: "(int \<times> tier_entry) list"
  proof (induction al)
    case (Cons a al)
    then show ?case by (cases "te_tier (snd a)") (simp_all add: used_def)
  qed (simp add: used_def)
  then show ?thesis by (simp add: tier_bytes_def)
qed

lemma entry_at_Some: "map_of (ts_entries s) r = Some v \<Longrightarrow> entry_at s r = v"
  by (simp add: entry_at_def)

lemma tier_refs_entry:
  assumes "distinct (map fst (ts_entries s))" "r \<in> set (tier_refs t s)"
  obtains v where "map_of (ts_entries s) r = Some v" "te_tier v = t" "entry_at s r = v"
proof -
  from assms(2) obtain v where "(r, v) \<in> set (ts_entries s)" "te_tier v = t" by (auto simp: tier_refs_iff)
  with assms(1) that show ?thesis by (auto simp: entry_at_Some)
qed

lemma accounts_drop_warm:
  assumes "accounts_off d s" "v \<in> set (tier_refs WARM s)"
  shows "accounts_off d (drop_warm v s)"
proof -
  have d: "distinct (map fst (ts_entries s))" using assms(1) by (simp add: accounts_off_def)
  obtain w where w: "map_of (ts_entries s) v = Some w" "te_tier w = WARM" "entry_at s v = w"
    using tier_refs_entry[OF d assms(2)] .
  show ?thesis using assms(1) w d
    by (simp add: accounts_off_def tier_bytes_def drop_warm_def Let_def used_delete[OF d w(1)] distinct_delete
        del: map_of_eq_Some_iff)
qed

lemma accounts_demote:
  assumes "accounts_off d s" "v \<in> set (tier_refs HOT s)"
  shows "accounts_off d (demote epoch v s)"
proof -
  have d: "distinct (map fst (ts_entries s))" using assms(1) by (simp add: accounts_off_def)
  obtain w where w: "map_of (ts_entries s) v = Some w" "te_tier w = HOT" "entry_at s v = w"
    using tier_refs_entry[OF d assms(2)] .
  let ?z = "w\<lparr>te_tier := WARM, te_bytes := 0\<rparr>"
  show ?thesis using assms(1) w d
    by (simp add: accounts_off_def tier_bytes_def demote_def Let_def set_tier_update[OF d w(1)] distinct_update
        used_update[where z = ?z] del: map_of_eq_Some_iff)
qed

text \<open>What survives room-making: a warm entry is unchanged or gone.\<close>

definition warm_kept :: "int \<Rightarrow> tier_state \<Rightarrow> tier_state \<Rightarrow> bool" where
  "warm_kept r s s' \<longleftrightarrow> (\<forall>v. map_of (ts_entries s) r = Some v \<longrightarrow> te_tier v = WARM \<longrightarrow>
     map_of (ts_entries s') r = None \<or> map_of (ts_entries s') r = Some v) \<and>
     (map_of (ts_entries s) r = None \<longrightarrow> map_of (ts_entries s') r = None)"

lemma warm_kept_trans: "warm_kept r s t \<Longrightarrow> warm_kept r t u \<Longrightarrow> warm_kept r s u"
  by (fastforce simp: warm_kept_def)

lemma warm_kept_drop: "distinct (map fst (ts_entries s)) \<Longrightarrow> warm_kept r s (drop_warm v s)"
  by (simp add: warm_kept_def delete_conv')

lemma warm_kept_demote:
  assumes "distinct (map fst (ts_entries s))" "v \<in> set (tier_refs HOT s)"
  shows "warm_kept r s (demote epoch v s)"
proof -
  obtain w where w: "map_of (ts_entries s) v = Some w" "te_tier w = HOT" using tier_refs_entry[OF assms] .
  then show ?thesis
    by (auto simp: warm_kept_def demote_def Let_def set_tier_update[OF assms(1) w(1)] update_conv'
        simp del: map_of_eq_Some_iff)
qed

lemma evict_warm_accounts:
  "evict_warm c r s = (ok, s') \<Longrightarrow> accounts_off d s \<Longrightarrow>
     accounts_off d s' \<and> warm_kept k s s' \<and> (\<forall>x. x \<in> set (tier_refs HOT s) \<longrightarrow> x \<in> set (tier_refs HOT s'))"
proof (induction c r s rule: evict_warm.induct)
  case (1 c r s)
  have d: "distinct (map fst (ts_entries s))" using 1(3) by (simp add: accounts_off_def)
  show ?case
  proof (cases "ts_warm_bytes s + r > c \<and> tier_refs WARM s \<noteq> []")
    case True
    let ?v = "oldest s (tier_refs WARM s)"
    have v: "?v \<in> set (tier_refs WARM s)" using True oldest_in by blast
    have run: "evict_warm c r (drop_warm ?v s) = (ok, s')"
      using 1(2) True by (subst (asm) evict_warm.simps) (simp add: Let_def)
    have IH: "accounts_off d s'" "warm_kept k (drop_warm ?v s) s'"
      "\<And>x. x \<in> set (tier_refs HOT (drop_warm ?v s)) \<Longrightarrow> x \<in> set (tier_refs HOT s')"
      using 1(1)[OF _ refl _ run accounts_drop_warm[OF 1(3) v]] True by auto
    obtain w where w: "map_of (ts_entries s) ?v = Some w" "te_tier w = WARM" using tier_refs_entry[OF d v] .
    have "x \<in> set (tier_refs HOT s) \<Longrightarrow> x \<in> set (tier_refs HOT (drop_warm ?v s))" for x
    proof -
      assume "x \<in> set (tier_refs HOT s)"
      then obtain u where u: "(x, u) \<in> set (ts_entries s)" "te_tier u = HOT" by (auto simp: tier_refs_iff)
      have "x \<noteq> ?v" using eq_key_imp_eq_value[OF d, of x u w] u w(2) map_of_SomeD[OF w(1)] by auto
      then show ?thesis using u by (auto simp: tier_refs_iff AList.delete_eq)
    qed
    then show ?thesis using IH warm_kept_trans[OF warm_kept_drop[OF d]] by blast
  next
    case False
    then show ?thesis using 1(2,3)
      by (subst (asm) evict_warm.simps) (auto simp: Let_def warm_kept_def split: if_splits)
  qed
qed

lemma make_hot_room_accounts:
  "make_hot_room h c r epoch s = (ok, s') \<Longrightarrow> accounts_off d s \<Longrightarrow> accounts_off d s' \<and> warm_kept k s s'"
proof (induction h c r epoch s rule: make_hot_room.induct)
  case (1 h c r epoch s)
  show ?case
  proof (cases "ts_hot_bytes s + r > h \<and> tier_refs HOT s \<noteq> []")
    case True
    let ?v = "oldest s (tier_refs HOT s)"
    have v: "?v \<in> set (tier_refs HOT s)" using True oldest_in by blast
    obtain b s1 where ev: "evict_warm c (te_bytes (entry_at s ?v)) s = (b, s1)" by fastforce
    note e = evict_warm_accounts[OF ev 1(3)]
    show ?thesis
    proof (cases b)
      case False
      then have "s' = s1" using 1(2) True ev by (subst (asm) make_hot_room.simps) (simp add: Let_def)
      with e show ?thesis by blast
    next
      case b: True
      have run: "make_hot_room h c r epoch (demote epoch ?v s1) = (ok, s')"
        using 1(2) True ev b by (subst (asm) make_hot_room.simps) (simp add: Let_def)
      have "accounts_off d (demote epoch ?v s1)" "warm_kept k s1 (demote epoch ?v s1)"
        using e v accounts_demote warm_kept_demote by (auto simp: accounts_off_def)
      then show ?thesis using 1(1)[OF _ refl _ refl ev[symmetric] _ run] True b e warm_kept_trans by blast
    qed
  next
    case False
    then show ?thesis using 1(2,3)
      by (subst (asm) make_hot_room.simps) (auto simp: Let_def warm_kept_def split: if_splits)
  qed
qed

lemma accounts_promote:
  assumes "accounts_off d s" "map_of (ts_entries s) r = Some v" "te_tier v = WARM"
  shows "accounts_off d (promote epoch r v s)"
proof -
  have d: "distinct (map fst (ts_entries s))" using assms(1) by (simp add: accounts_off_def)
  let ?z = "v\<lparr>te_tier := WARM, te_bytes := 0\<rparr>"
  show ?thesis using assms d
    by (simp add: accounts_off_def tier_bytes_def promote_def set_tier_update[OF d assms(2)] distinct_update
        used_update[where z = ?z] del: map_of_eq_Some_iff)
qed

lemma update_peaks_simps [simp]:
  "ts_entries (update_peaks s) = ts_entries s" "ts_hot_bytes (update_peaks s) = ts_hot_bytes s"
  "ts_warm_bytes (update_peaks s) = ts_warm_bytes s"
  by (simp_all add: update_peaks_def)

lemma touch_simps [simp]: "te_tier (touch n c e v) = te_tier v" "te_bytes (touch n c e v) = te_bytes v"
  by (simp_all add: touch_def Let_def)

lemma accounts_touch:
  assumes "accounts_off d s" "map_of (ts_entries s) r = Some v" "te_tier w = te_tier v" "te_bytes w = te_bytes v"
    "ts_entries s' = AList.update r w (ts_entries s)" "ts_hot_bytes s' = ts_hot_bytes s" "ts_warm_bytes s' = ts_warm_bytes s"
  shows "accounts_off d s'"
  using assms by (simp add: accounts_off_def tier_bytes_def distinct_update used_update_same del: map_of_eq_Some_iff)

lemma hit_step:
  assumes "map_of (ts_entries s) (ev_ref e) = Some v"
  shows "tier_step h c n epoch e s =
      update_peaks (if te_tier (touch n (ts_clock s + 1) epoch v) = WARM \<and>
           te_generation (touch n (ts_clock s + 1) epoch v) = OLD then
         (case make_hot_room h c (te_bytes (touch n (ts_clock s + 1) epoch v)) epoch
              (s\<lparr>ts_clock := ts_clock s + 1,
                ts_hot_hits := ts_hot_hits s + (if te_tier v = HOT then 1 else 0),
                ts_warm_hits := ts_warm_hits s + (if te_tier v = HOT then 0 else 1),
                ts_entries := AList.update (ev_ref e) (touch n (ts_clock s + 1) epoch v) (ts_entries s)\<rparr>) of (ok, s1) \<Rightarrow>
            if ok then promote epoch (ev_ref e) (touch n (ts_clock s + 1) epoch v) s1 else s1)
       else s\<lparr>ts_clock := ts_clock s + 1,
                ts_hot_hits := ts_hot_hits s + (if te_tier v = HOT then 1 else 0),
                ts_warm_hits := ts_warm_hits s + (if te_tier v = HOT then 0 else 1),
                ts_entries := AList.update (ev_ref e) (touch n (ts_clock s + 1) epoch v) (ts_entries s)\<rparr>)"
proof -
  have e0: "entry_at (s\<lparr>ts_clock := ts_clock s + 1\<rparr>) (ev_ref e) = v" using assms by (simp add: entry_at_def)
  have c0: "ts_clock (s\<lparr>ts_clock := ts_clock s + 1\<rparr>) = ts_clock s + 1" by simp
  show ?thesis using assms unfolding tier_step_def Let_def hit_entry_def e0 c0 by simp
qed

lemma evict_warm_promotions: "evict_warm c r s = (ok, s') \<Longrightarrow> ts_promotions s' = ts_promotions s"
proof (induction c r s rule: evict_warm.induct)
  case (1 c r s)
  show ?case using 1(1)[OF _ refl] 1(2)
    by (subst (asm) (2) evict_warm.simps) (auto simp: Let_def drop_warm_def split: if_splits)
qed

lemma make_hot_room_promotions: "make_hot_room h c r epoch s = (ok, s') \<Longrightarrow> ts_promotions s' = ts_promotions s"
proof (induction h c r epoch s rule: make_hot_room.induct)
  case (1 h c r epoch s)
  show ?case
  proof (cases "ts_hot_bytes s + r > h \<and> tier_refs HOT s \<noteq> []")
    case True
    let ?v = "oldest s (tier_refs HOT s)"
    obtain b s1 where ev: "evict_warm c (te_bytes (entry_at s ?v)) s = (b, s1)" by fastforce
    note p = evict_warm_promotions[OF ev]
    show ?thesis
    proof (cases b)
      case False
      then show ?thesis using 1(2) True ev p by (subst (asm) make_hot_room.simps) (simp add: Let_def)
    next
      case b: True
      then have "make_hot_room h c r epoch (demote epoch ?v s1) = (ok, s')"
        using 1(2) True ev by (subst (asm) make_hot_room.simps) (simp add: Let_def)
      from 1(1)[OF _ refl _ refl ev[symmetric] _ this] True b p show ?thesis by (simp add: demote_def Let_def)
    qed
  next
    case False
    then show ?thesis using 1(2) by (subst (asm) make_hot_room.simps) (auto simp: Let_def split: if_splits)
  qed
qed

text \<open>The bytes a request adds to the error: those of an entry that is promoted although its own promotion dropped it.\<close>

definition lost_promotion :: "int \<Rightarrow> int \<Rightarrow> int \<Rightarrow> nat \<Rightarrow> event \<Rightarrow> tier_state \<Rightarrow> int" where
  "lost_promotion hot_capacity warm_capacity old_after_reuses epoch e s =
     (let s' = tier_step hot_capacity warm_capacity old_after_reuses epoch e s in
      if map_of (ts_entries s) (ev_ref e) \<noteq> None \<and> map_of (ts_entries s') (ev_ref e) = None \<and> ts_promotions s' \<noteq> ts_promotions s
      then te_bytes (entry_at s (ev_ref e)) else 0)"

fun lost_bytes :: "int \<Rightarrow> int \<Rightarrow> int \<Rightarrow> nat \<Rightarrow> nat \<Rightarrow> event list \<Rightarrow> tier_state \<Rightarrow> int" where
  "lost_bytes hot_capacity warm_capacity old_after_reuses elen index [] s = 0"
| "lost_bytes hot_capacity warm_capacity old_after_reuses elen index (e # es) s =
     lost_promotion hot_capacity warm_capacity old_after_reuses (index div elen) e s +
     lost_bytes hot_capacity warm_capacity old_after_reuses elen (Suc index) es
       (tier_step hot_capacity warm_capacity old_after_reuses (index div elen) e s)"

lemma accounts_miss:
  assumes "accounts_off d s" "map_of (ts_entries s) (ev_ref e) = None"
  shows "accounts_off d (tier_step h c n epoch e s)"
proof -
  define s0 where "s0 = s\<lparr>ts_clock := ts_clock s + 1, ts_backing_misses := ts_backing_misses s + 1,
      ts_backing_source_bytes := ts_backing_source_bytes s + ev_bytes e\<rparr>"
  have a0: "accounts_off d s0" using assms(1) by (simp add: accounts_off_def tier_bytes_def s0_def)
  obtain ok s1 where ev: "evict_warm c (ev_bytes e) s0 = (ok, s1)" by fastforce
  have "accounts_off d s1" "map_of (ts_entries s1) (ev_ref e) = None"
    using evict_warm_accounts[OF ev a0, of "ev_ref e"] assms(2) by (auto simp: warm_kept_def s0_def)
  then show ?thesis using ev assms(2)
    by (simp add: tier_step_def Let_def admit_warm_def s0_def[symmetric] accounts_off_def tier_bytes_def
        distinct_update used_update_new)
qed

text \<open>A promotion after its room was made: the entry is still there and moves, or it is gone and only the counters move.\<close>

lemma accounts_promoted:
  assumes "accounts_off d s1" "warm_kept r s0 s1" "map_of (ts_entries s0) r = Some w" "te_tier w = WARM"
  shows "accounts_off (if map_of (ts_entries (promote epoch r w s1)) r = None then d + te_bytes w else d) (promote epoch r w s1)"
proof (cases "map_of (ts_entries s1) r")
  case None
  then show ?thesis using assms(1) by (simp add: accounts_off_def tier_bytes_def promote_def set_tier_absent)
next
  case (Some v)
  then have v: "map_of (ts_entries s1) r = Some w" using assms(2-4) by (auto simp: warm_kept_def)
  have "distinct (map fst (ts_entries s1))" using assms(1) by (simp add: accounts_off_def)
  then have kept: "map_of (ts_entries (promote epoch r w s1)) r \<noteq> None" using v by (simp add: promote_def set_tier_update update_conv')
  show ?thesis unfolding if_not_P[OF kept] by (intro accounts_promote[OF assms(1) v assms(4)])
qed

lemma accounts_step:
  assumes "accounts_off d s"
  shows "accounts_off (d + lost_promotion h c n epoch e s) (tier_step h c n epoch e s)"
proof (cases "map_of (ts_entries s) (ev_ref e)")
  case None
  then show ?thesis using accounts_miss[OF assms None] by (simp add: lost_promotion_def)
next
  case (Some v)
  let ?w = "touch n (ts_clock s + 1) epoch v"
  define s0 where "s0 = s\<lparr>ts_clock := ts_clock s + 1,
      ts_hot_hits := ts_hot_hits s + (if te_tier v = HOT then 1 else 0),
      ts_warm_hits := ts_warm_hits s + (if te_tier v = HOT then 0 else 1),
      ts_entries := AList.update (ev_ref e) ?w (ts_entries s)\<rparr>"
  have a0: "accounts_off d s0" by (rule accounts_touch[OF assms Some]) (simp_all add: s0_def)
  have k0: "map_of (ts_entries s0) (ev_ref e) = Some ?w" "ts_promotions s0 = ts_promotions s" by (simp_all add: s0_def update_conv')
  have pk: "ts_promotions (update_peaks x) = ts_promotions x" "accounts_off d' (update_peaks x) = accounts_off d' x" for x d'
    by (simp_all add: update_peaks_def accounts_off_def tier_bytes_def)
  note step = hit_step[OF Some, of h c n epoch, folded s0_def]
  note lost = lost_promotion_def[of h c n epoch e s, unfolded step Let_def, simplified pk update_peaks_simps Some entry_at_Some[OF Some]]
  show ?thesis
  proof (cases "te_tier ?w = WARM \<and> te_generation ?w = OLD")
    case False
    then show ?thesis using a0 k0 unfolding step lost by (auto simp: pk)
  next
    case True
    obtain ok s1 where mk: "make_hot_room h c (te_bytes ?w) epoch s0 = (ok, s1)" by fastforce
    have a1: "accounts_off d s1" "warm_kept (ev_ref e) s0 s1" "ts_promotions s1 = ts_promotions s"
      using make_hot_room_accounts[OF mk a0] make_hot_room_promotions[OF mk] k0 by auto
    have p: "ts_promotions (promote epoch (ev_ref e) ?w s1) \<noteq> ts_promotions s" using a1(3) by (simp add: promote_def)
    have w: "te_tier ?w = WARM" using True by simp
    show ?thesis using accounts_promoted[OF a1(1,2) k0(1) w, of epoch] a1 p True unfolding step lost mk
      by (cases ok; cases "map_of (ts_entries (promote epoch (ev_ref e) ?w s1)) (ev_ref e)") (simp_all add: pk)
  qed
qed

lemma accounts_loop:
  "accounts_off d s \<Longrightarrow> accounts_off (d + lost_bytes h c n elen i es s) (tier_loop h c n elen i es s)"
proof (induction es arbitrary: d i s)
  case (Cons e es)
  from Cons.IH[OF accounts_step[OF Cons.prems]] show ?case by (simp add: add.assoc)
qed simp

lemma accounts_start: "accounts_off 0 tier_start"
  by (simp add: accounts_off_def tier_bytes_def tier_start_def used_def)

text \<open>
  C30. What the byte counters of a tiered replay mean, exactly: after any number of requests, whatever the trace and
  the capacities, the hot counter exceeds the bytes of the hot entries by the bytes of those promotions that
  dropped their own entry, the warm counter falls short of the warm entries by the same amount, and the sum of
  both counters is the sum of all entries.  So the counters are right exactly as long as these
  promotions add up to no bytes, in particular as long as there are none.
\<close>

theorem tiered_accounts_exact:
  "let s = tier_loop hot_capacity warm_capacity n (epoch_length sequence) 0 (take k sequence) tier_start;
       lost = lost_bytes hot_capacity warm_capacity n (epoch_length sequence) 0 (take k sequence) tier_start
   in distinct (map fst (ts_entries s)) \<and> ts_hot_bytes s = tier_bytes HOT s + lost \<and> ts_warm_bytes s = tier_bytes WARM s - lost \<and>
     ts_hot_bytes s + ts_warm_bytes s = (\<Sum>p\<leftarrow>ts_entries s. te_bytes (snd p))"
proof -
  define s where "s = tier_loop hot_capacity warm_capacity n (epoch_length sequence) 0 (take k sequence) tier_start"
  have "tier_bytes HOT s + tier_bytes WARM s = (\<Sum>p\<leftarrow>ts_entries s. te_bytes (snd p))" by (rule tier_bytes_total)
  then show ?thesis
    using accounts_loop[OF accounts_start, of hot_capacity warm_capacity n "epoch_length sequence" 0 "take k sequence"]
    by (simp add: accounts_off_def Let_def flip: s_def)
qed

section \<open>Tracked peaks\<close>

definition tracked_ok :: "int \<Rightarrow> int \<Rightarrow> tier_state \<Rightarrow> bool" where
  "tracked_ok hot_capacity warm_capacity s \<longleftrightarrow> ts_hot_bytes s \<le> hot_capacity \<and> ts_warm_bytes s \<le> warm_capacity \<and>
     ts_hot_peak s \<le> hot_capacity \<and> ts_warm_peak s \<le> warm_capacity \<and> distinct (map fst (ts_entries s)) \<and>
     (\<forall>v \<in> snd ` set (ts_entries s). 0 \<le> te_bytes v)"

lemma entry_at_nonneg: "tracked_ok h w s \<Longrightarrow> 0 \<le> te_bytes (entry_at s r)"
  by (cases "map_of (ts_entries s) r") (force simp: tracked_ok_def entry_at_def dest: map_of_SomeD)+

lemma tracked_drop_warm: "tracked_ok h w s \<Longrightarrow> tracked_ok h w (drop_warm v s)"
proof -
  assume t: "tracked_ok h w s"
  have "snd ` set (AList.delete v (ts_entries s)) \<subseteq> snd ` set (ts_entries s)" by (auto simp: AList.delete_eq)
  then have "\<forall>u \<in> snd ` set (AList.delete v (ts_entries s)). 0 \<le> te_bytes u"
    using t unfolding tracked_ok_def by blast
  then show ?thesis using t entry_at_nonneg[OF t, of v]
    by (simp add: tracked_ok_def drop_warm_def Let_def distinct_delete)
qed

lemma evict_warm_tracked:
  "evict_warm w r s = (ok, s') \<Longrightarrow> tracked_ok h w s \<Longrightarrow>
     tracked_ok h w s' \<and> (ok \<longrightarrow> ts_warm_bytes s' + r \<le> w) \<and>
     (map_of (ts_entries s) v = Some x \<longrightarrow> te_tier x = HOT \<longrightarrow> map_of (ts_entries s') v = Some x)"
proof (induction w r s rule: evict_warm.induct)
  case (1 w r s)
  have d: "distinct (map fst (ts_entries s))" using 1(3) by (simp add: tracked_ok_def)
  show ?case
  proof (cases "ts_warm_bytes s + r > w \<and> tier_refs WARM s \<noteq> []")
    case True
    let ?v = "oldest s (tier_refs WARM s)"
    have "?v \<in> set (tier_refs WARM s)" using True oldest_in by blast
    then obtain u where u: "map_of (ts_entries s) ?v = Some u" "te_tier u = WARM" using tier_refs_entry[OF d] by blast
    have run: "evict_warm w r (drop_warm ?v s) = (ok, s')"
      using 1(2) True by (subst (asm) evict_warm.simps) (simp add: Let_def)
    have "map_of (ts_entries s) v = Some x \<Longrightarrow> te_tier x = HOT \<Longrightarrow> map_of (ts_entries (drop_warm ?v s)) v = Some x"
      using u by (cases "v = ?v") (simp_all add: delete_conv' del: map_of_eq_Some_iff)
    then show ?thesis using 1(1)[OF _ refl _ run tracked_drop_warm[OF 1(3)]] True by blast
  next
    case False
    then show ?thesis using 1(2,3) by (subst (asm) evict_warm.simps) (auto simp: Let_def split: if_splits)
  qed
qed

lemma tracked_demote:
  assumes "tracked_ok h w s" "ts_warm_bytes s + te_bytes (entry_at s v) \<le> w"
  shows "tracked_ok h w (demote epoch v s)"
proof -
  have "\<forall>u \<in> snd ` set (set_tier v WARM (ts_entries s)). 0 \<le> te_bytes u"
    using assms(1) by (fastforce simp: tracked_ok_def set_tier_def)
  moreover have "map fst (set_tier v WARM (ts_entries s)) = map fst (ts_entries s)"
    by (simp add: set_tier_def split_beta comp_def)
  ultimately show ?thesis using assms entry_at_nonneg[OF assms(1), of v]
    by (simp add: tracked_ok_def demote_def Let_def)
qed

lemma make_hot_room_tracked:
  "make_hot_room h w r epoch s = (ok, s') \<Longrightarrow> tracked_ok h w s \<Longrightarrow>
     tracked_ok h w s' \<and> (ok \<longrightarrow> ts_hot_bytes s' + r \<le> h)"
proof (induction h w r epoch s rule: make_hot_room.induct)
  case (1 h w r epoch s)
  have d: "distinct (map fst (ts_entries s))" using 1(3) by (simp add: tracked_ok_def)
  show ?case
  proof (cases "ts_hot_bytes s + r > h \<and> tier_refs HOT s \<noteq> []")
    case True
    let ?v = "oldest s (tier_refs HOT s)"
    have "?v \<in> set (tier_refs HOT s)" using True oldest_in by blast
    then obtain u where u: "map_of (ts_entries s) ?v = Some u" "te_tier u = HOT" "entry_at s ?v = u"
      using tier_refs_entry[OF d] by blast
    obtain b s1 where ev: "evict_warm w (te_bytes (entry_at s ?v)) s = (b, s1)" by fastforce
    have t1: "tracked_ok h w s1" "b \<Longrightarrow> ts_warm_bytes s1 + te_bytes u \<le> w" "entry_at s1 ?v = u"
      using evict_warm_tracked[OF ev 1(3), of ?v u] u by (auto simp: entry_at_Some)
    show ?thesis
    proof (cases b)
      case False
      then have "s' = s1 \<and> \<not> ok" using 1(2) True ev by (subst (asm) make_hot_room.simps) (simp add: Let_def)
      with t1 show ?thesis by blast
    next
      case b: True
      have run: "make_hot_room h w r epoch (demote epoch ?v s1) = (ok, s')"
        using 1(2) True ev b by (subst (asm) make_hot_room.simps) (simp add: Let_def)
      have "tracked_ok h w (demote epoch ?v s1)" using t1 b by (intro tracked_demote) auto
      then show ?thesis using 1(1)[OF _ refl _ refl ev[symmetric] _ run] True b by blast
    qed
  next
    case False
    then show ?thesis using 1(2,3) by (subst (asm) make_hot_room.simps) (auto simp: Let_def split: if_splits)
  qed
qed

lemma tracked_update:
  assumes "tracked_ok h w s" "0 \<le> te_bytes v" "ts_entries s' = AList.update r v (ts_entries s)"
    "ts_hot_bytes s' \<le> h" "ts_warm_bytes s' \<le> w" "ts_hot_peak s' \<le> h" "ts_warm_peak s' \<le> w"
  shows "tracked_ok h w s'"
proof -
  have "snd ` set (AList.update r v al) \<subseteq> insert v (snd ` set al)" for al by (induction al) auto
  then show ?thesis using assms by (fastforce simp: tracked_ok_def distinct_update)
qed

lemma tracked_promote:
  assumes "tracked_ok h w s" "0 \<le> te_bytes v" "ts_hot_bytes s + te_bytes v \<le> h"
  shows "tracked_ok h w (promote epoch r v s)"
proof -
  have "\<forall>u \<in> snd ` set (set_tier r HOT (ts_entries s)). 0 \<le> te_bytes u"
    using assms(1) by (fastforce simp: tracked_ok_def set_tier_def)
  moreover have "map fst (set_tier r HOT (ts_entries s)) = map fst (ts_entries s)"
    by (simp add: set_tier_def split_beta comp_def)
  ultimately show ?thesis using assms by (simp add: tracked_ok_def promote_def)
qed

lemma tracked_peaks: "tracked_ok h w s \<Longrightarrow> tracked_ok h w (update_peaks s)"
  by (simp add: tracked_ok_def update_peaks_def)

lemma tracked_step:
  assumes "tracked_ok h w s" "0 \<le> ev_bytes e"
  shows "tracked_ok h w (tier_step h w n epoch e s)"
proof (cases "map_of (ts_entries s) (ev_ref e)")
  case None
  define s0 where "s0 = s\<lparr>ts_clock := ts_clock s + 1, ts_backing_misses := ts_backing_misses s + 1,
      ts_backing_source_bytes := ts_backing_source_bytes s + ev_bytes e\<rparr>"
  have a0: "tracked_ok h w s0" using assms(1) by (simp add: tracked_ok_def s0_def)
  obtain ok s1 where ev: "evict_warm w (ev_bytes e) s0 = (ok, s1)" by fastforce
  have t1: "tracked_ok h w s1" "ok \<Longrightarrow> ts_warm_bytes s1 + ev_bytes e \<le> w"
    using evict_warm_tracked[OF ev a0] by auto
  then have "ok \<Longrightarrow> tracked_ok h w (update_peaks (s1\<lparr>ts_entries := AList.update (ev_ref e) \<lparr>te_bytes = ev_bytes e,
      te_tier = WARM, te_generation = NEW, te_count = 1, te_last = ts_clock s1, te_last_epoch = epoch\<rparr> (ts_entries s1),
      ts_warm_bytes := ts_warm_bytes s1 + ev_bytes e, ts_warm_admissions := ts_warm_admissions s1 + 1\<rparr>))"
    by (intro tracked_peaks tracked_update[OF t1(1)]) (use assms(2) t1 in \<open>auto simp: tracked_ok_def\<close>)
  then show ?thesis using t1 ev None
    by (simp add: tier_step_def Let_def admit_warm_def s0_def[symmetric])
next
  case (Some v)
  let ?w = "touch n (ts_clock s + 1) epoch v"
  define s0 where "s0 = s\<lparr>ts_clock := ts_clock s + 1,
      ts_hot_hits := ts_hot_hits s + (if te_tier v = HOT then 1 else 0),
      ts_warm_hits := ts_warm_hits s + (if te_tier v = HOT then 0 else 1),
      ts_entries := AList.update (ev_ref e) ?w (ts_entries s)\<rparr>"
  have v0: "0 \<le> te_bytes v" using entry_at_nonneg[OF assms(1), of "ev_ref e"] Some by (simp add: entry_at_Some)
  have t0: "tracked_ok h w s0"
    by (rule tracked_update[OF assms(1), where r = "ev_ref e" and v = ?w])
      (use v0 assms(1) in \<open>auto simp: s0_def tracked_ok_def\<close>)
  obtain ok s1 where mk: "make_hot_room h w (te_bytes ?w) epoch s0 = (ok, s1)" by fastforce
  have t1: "tracked_ok h w s1" "ok \<Longrightarrow> ts_hot_bytes s1 + te_bytes ?w \<le> h"
    using make_hot_room_tracked[OF mk t0] by auto
  have "ok \<Longrightarrow> tracked_ok h w (promote epoch (ev_ref e) ?w s1)" using t1 v0 by (intro tracked_promote) auto
  then show ?thesis unfolding hit_step[OF Some] s0_def[symmetric] mk using t0 t1 by (simp add: tracked_peaks)
qed

lemma lost_nonneg: "tracked_ok h w s \<Longrightarrow> 0 \<le> lost_promotion h w n epoch e s"
  using entry_at_nonneg by (simp add: lost_promotion_def Let_def)

lemma tracked_loop:
  "tracked_ok h w s \<Longrightarrow> list_all (\<lambda>e. 0 \<le> ev_bytes e) es \<Longrightarrow>
     tracked_ok h w (tier_loop h w n el i es s) \<and> 0 \<le> lost_bytes h w n el i es s"
proof (induction es arbitrary: i s)
  case (Cons e es)
  then show ?case using Cons.IH[OF tracked_step[OF Cons.prems(1)]] lost_nonneg[OF Cons.prems(1)] by simp
qed simp

text \<open>
  C31. How far the two tiers respect their capacities: at every point of a replay of requests of nonnegative size
  the hot entries fit in the hot capacity and all entries together in the sum of both, but the warm entries
  are only bounded by the warm capacity and the bytes of the promotions that dropped their own entry.  The
  peaks that the report shows are those of the counters, always within the capacities.
\<close>

theorem tiered_capacity:
  assumes "list_all (\<lambda>e. 0 \<le> ev_bytes e) sequence" and "0 \<le> hot_capacity" and "0 \<le> warm_capacity"
  shows "let s = tier_loop hot_capacity warm_capacity n (epoch_length sequence) 0 (take k sequence) tier_start;
      lost = lost_bytes hot_capacity warm_capacity n (epoch_length sequence) 0 (take k sequence) tier_start in
    tier_bytes HOT s \<le> hot_capacity \<and> tier_bytes HOT s + tier_bytes WARM s \<le> hot_capacity + warm_capacity \<and>
    tier_bytes WARM s \<le> warm_capacity + lost \<and>
    ts_hot_peak (tr_state (run_tiered sequence hot_capacity warm_capacity n)) \<le> hot_capacity \<and>
    ts_warm_peak (tr_state (run_tiered sequence hot_capacity warm_capacity n)) \<le> warm_capacity \<and>
    tr_total_peak (run_tiered sequence hot_capacity warm_capacity n) \<le> hot_capacity + warm_capacity"
proof -
  define s where "s = tier_loop hot_capacity warm_capacity n (epoch_length sequence) 0 (take k sequence) tier_start"
  have t0: "tracked_ok hot_capacity warm_capacity tier_start"
    using assms(2,3) by (simp add: tracked_ok_def tier_start_def)
  have "list_all (\<lambda>e. 0 \<le> ev_bytes e) (take k sequence)" using assms(1) by (auto simp: list_all_iff dest: in_set_takeD)
  from tracked_loop[OF t0 this, of n "epoch_length sequence" 0] accounts_loop[OF accounts_start, of hot_capacity warm_capacity n "epoch_length sequence" 0 "take k sequence"]
  have now: "tier_bytes HOT s \<le> hot_capacity \<and> tier_bytes HOT s + tier_bytes WARM s \<le> hot_capacity + warm_capacity \<and>
    tier_bytes WARM s \<le> warm_capacity + lost_bytes hot_capacity warm_capacity n (epoch_length sequence) 0 (take k sequence) tier_start"
    unfolding s_def[symmetric] tracked_ok_def accounts_off_def by linarith
  have "tracked_ok hot_capacity warm_capacity (tr_state (run_tiered sequence hot_capacity warm_capacity n))"
    using tracked_loop[OF t0 assms(1)] by (simp add: run_tiered_def Let_def)
  then show ?thesis using now by (simp add: tracked_ok_def run_tiered_def Let_def flip: s_def)
qed

definition sample_run :: "event list" where
  "sample_run = sample_requests [(1, 8), (1, 8), (1, 8), (2, 4), (2, 4), (2, 4), (3, 4)]"

theorem tiered_capacity_witness:
  "tier_bytes WARM (tier_loop 8 8 2 1 0 sample_run tier_start) = 12 \<and> lost_bytes 8 8 2 1 0 sample_run tier_start = 4 \<and>
   tier_bytes WARM (tier_loop 8 8 2 1 0 sample_run tier_start) \<le> 8 + lost_bytes 8 8 2 1 0 sample_run tier_start \<and>
   tr_total_peak (run_tiered sample_run 8 8 2) \<le> 16"
proof -
  have "list_all (\<lambda>e. 0 \<le> ev_bytes e) sample_run" by code_simp
  moreover have "epoch_length sample_run = 1" "take 7 sample_run = sample_run" by code_simp+
  moreover have "tier_bytes WARM (tier_loop 8 8 2 1 0 sample_run tier_start) = 12" "lost_bytes 8 8 2 1 0 sample_run tier_start = 4"
    by code_simp+
  ultimately show ?thesis using tiered_capacity[of sample_run 8 8 2 7] by (simp add: Let_def)
qed

text \<open>
  The loss in that run, step by step: making room for the promotion of the second tensor demotes the first, whose warm
  space is taken from the least recently used warm entry, the one being promoted.  The counters then report four hot
  and four warm bytes while the only entry holds eight warm bytes; the last request leaves twelve in a warm tier of eight.
\<close>

lemma tiered_promotion_double_counts:
  "(let s = tier_loop 8 8 2 1 0 (take 6 sample_run) tier_start in
     (ts_hot_bytes s, ts_warm_bytes s) = (4, 4) \<and> (tier_bytes HOT s, tier_bytes WARM s) = (0, 8))"
  by code_simp

text \<open>
  A promotion can also drop its own entry and fail: then nothing is lost, the counters stay exact.
\<close>

lemma tiered_failed_promotion_exact:
  "(let q = sample_requests [(1, 8), (1, 8), (1, 8), (2, 12), (2, 12), (2, 12)]; s = tier_loop 8 16 2 1 0 q tier_start in
     map fst (ts_entries s) = [1] \<and> lost_bytes 8 16 2 1 0 q tier_start = 0)"
  by code_simp

end
