(* ===== verification/Runs.thy ===== *)
theory Runs
  imports Deep_Stack Cost_Aware Tiered
begin

text \<open>
  The \<open>main\<close> functions of the residency scripts, from the text of a log to the numbers of the report:
  POC 17 (\<open>qualify_residency_policy_poc17.py\<close>), POC 18 (\<open>qualify_tiered_residency_poc18.py\<close>), the offline
  and the runtime reports of POC 20 (\<open>qualify_cost_aware_residency_poc20.py\<close>,
  \<open>report_cost_aware_residency_poc20.py\<close>).  Files are their contents; JSON, CSV and Markdown rendering is
  left out, the rows they are rendered from are here.  Float quotients are \<open>JQuot\<close>.
\<close>

definition MIB :: int where "MIB = 1024 * 1024"

definition float_quotient :: "int \<Rightarrow> int \<Rightarrow> json" where
  "float_quotient a b = (if b \<noteq> 0 then JQuot a b else JDec 0 1)"

section \<open>POC 17\<close>

record poc17_result =
  p17_baseline :: sim_report
  p17_minimum :: sim_report
  p17_avoidable_bytes :: int
  p17_avoidable_fraction :: json
  p17_phases :: "(string \<times> int) list"
  p17_identity_count :: int
  p17_events :: int
  p17_reuse :: reuse_summary
  p17_sweep :: "sim_report list"
  p17_classes :: "class_row list"
  p17_capacity_miss :: "int \<times> int"
  p17_top :: "(int \<times> string \<times> int) list"
  p17_sweep_rows :: "json list list"

definition hit_rate :: "sim_report \<Rightarrow> json" where
  "hit_rate r = float_quotient (sr_hits r) (sr_requests r)"

definition sweep_row :: "sim_report \<Rightarrow> json list" where
  "sweep_row r = [JStr (sr_policy r), JInt (sr_capacity r), JInt (sr_requests r), JInt (sr_unique r), JInt (sr_hits r),
     JInt (sr_loads r), JInt (sr_evictions r), JInt (sr_reload_events r), JInt (sr_load_bytes r), JInt (sr_reload_bytes r), hit_rate r]"

definition top_offenders :: "event list \<Rightarrow> sim_report \<Rightarrow> (int \<times> string \<times> int) list" where
  "top_offenders sequence baseline =
     map (\<lambda>(ref, n). (ref, case find (\<lambda>e. ev_ref e = ref) sequence of None \<Rightarrow> ''unknown'' | Some e \<Rightarrow> ev_name e, n))
       (take 10 (sort_key (\<lambda>(ref, n). - n) (sr_reload_bytes_by_ref baseline)))"

definition poc17_main :: "string \<Rightarrow> int \<Rightarrow> poc17_result res" where
  "poc17_main content capacity =
     bind_res (parse_trace_text content) (\<lambda>(identities, events, phases).
     let sequence = requests events; active = active_sets events in
     bind_res (simulate sequence capacity ''lru'' (Some active)) (\<lambda>baseline.
     bind_res (simulate sequence capacity ''min'' (Some active)) (\<lambda>minimum.
     bind_res (map_res (\<lambda>(mib, policy). simulate sequence (mib * MIB) policy (Some active))
       (List.product [4, 6, 8, 10, 12, 16, 24, 32] [''lru'', ''min''])) (\<lambda>sweep.
     let avoidable = sr_reload_bytes baseline - sr_reload_bytes minimum in
     Inr \<lparr>p17_baseline = baseline, p17_minimum = minimum, p17_avoidable_bytes = avoidable,
       p17_avoidable_fraction = float_quotient avoidable (sr_reload_bytes baseline), p17_phases = phases,
       p17_identity_count = int (length identities), p17_events = int (length events),
       p17_reuse = reuse_report sequence events capacity (set (sr_loaded_indices baseline)), p17_sweep = sweep,
       p17_classes = class_report sequence baseline,
       p17_capacity_miss = (sr_reload_events baseline, sr_reload_bytes baseline),
       p17_top = top_offenders sequence baseline, p17_sweep_rows = map sweep_row sweep\<rparr>))))"

section \<open>POC 18\<close>

datatype tier_result = Flat int sim_report | Two_Tiers int int tier_report

definition tier_config :: "(int \<times> int \<times> string) list" where
  "tier_config = [(8, 0, ''flat_8m''), (40, 0, ''flat_40m''), (8, 8, ''tiered_8_plus_8m''), (8, 16, ''tiered_8_plus_16m''),
     (8, 32, ''tiered_8_plus_32m''), (8, 56, ''tiered_8_plus_56m''), (8, 64, ''tiered_8_plus_64m'')]"

definition tier_run :: "event list \<Rightarrow> int \<times> int \<times> string \<Rightarrow> (string \<times> tier_result) res" where
  "tier_run sequence config = (case config of (hot, warm, name) \<Rightarrow>
     if warm = 0 then bind_res (simulate sequence (hot * MIB) ''lru'' None) (\<lambda>flat. Inr (name, Flat (hot * MIB) flat))
     else Inr (name, Two_Tiers (hot * MIB) (warm * MIB) (run_tiered sequence (hot * MIB) (warm * MIB) 2)))"

text \<open>The columns of the sweep: capacities, source bytes, misses, hits by tier, movements, total traffic.\<close>

definition tier_columns :: "string \<times> tier_result \<Rightarrow> string \<times> int list" where
  "tier_columns p = (case p of (name, r) \<Rightarrow> (name, (case r of
       Flat hot flat \<Rightarrow> [hot, 0, hot, sr_load_bytes flat, sr_loads flat, sr_hits flat, 0, 0, 0, 0, 0, sr_load_bytes flat]
     | Two_Tiers hot warm t \<Rightarrow> (let s = tr_state t in
         [hot, warm, hot + warm, ts_backing_source_bytes s, ts_backing_misses s, ts_hot_hits s, ts_warm_hits s, ts_promotions s,
          ts_promotion_bytes s, ts_demotions s, ts_demotion_bytes s, tr_total_data_movement_bytes t]))))"

definition tier_moves :: "tier_result \<Rightarrow> promotion list \<times> movement list" where
  "tier_moves r = (case r of Flat _ _ \<Rightarrow> ([], []) | Two_Tiers _ _ t \<Rightarrow> (ts_promotion_rows (tr_state t), ts_demotion_rows (tr_state t)))"

record poc18_result =
  p18_results :: "(string \<times> tier_result) list"
  p18_moves :: "(string \<times> promotion list \<times> movement list) list"
  p18_columns :: "(string \<times> int list) list"

definition poc18_main :: "string \<Rightarrow> poc18_result res" where
  "poc18_main content =
     bind_res (parse_trace_text content) (\<lambda>(identities, events, phases).
     bind_res (map_res (tier_run (requests events)) tier_config) (\<lambda>results.
     Inr \<lparr>p18_results = results, p18_moves = map (\<lambda>(name, r). (name, tier_moves r)) results,
       p18_columns = map tier_columns results\<rparr>))"

section \<open>POC 20, offline\<close>

record poc20_result =
  p20_rows :: "cost_report list"
  p20_representative :: "decision list"
  p20_gate :: "(int \<times> gate_row) list"

definition row_for :: "cost_report list \<Rightarrow> int \<Rightarrow> string \<Rightarrow> cost_report res" where
  "row_for rows mib policy = (case find (\<lambda>r. co_capacity r = mib * MIB \<and> co_policy r = policy) (rev rows) of
     None \<Rightarrow> Inl KeyError | Some r \<Rightarrow> Inr r)"

definition poc20_main :: "'s :: linorder scoring \<Rightarrow> string \<Rightarrow> poc20_result res" where
  "poc20_main score content =
     bind_res (parse_trace_text content) (\<lambda>(identities, events, phases).
     bind_res (map_res (\<lambda>(mib, policy). cost_simulate score (requests events) (active_sets events) (mib * MIB) policy)
       (List.product [8, 64, 128, 256] [''lru'', ''cost-aware'', ''min''])) (\<lambda>rows.
     bind_res (map_res (\<lambda>mib. bind_res (row_for rows mib ''lru'') (\<lambda>lru. bind_res (row_for rows mib ''cost-aware'') (\<lambda>cost.
       bind_res (row_for rows mib ''min'') (\<lambda>oracle. Inr (mib, acceptance_gate lru cost oracle))))) [64, 128]) (\<lambda>gate.
     Inr \<lparr>p20_rows = rows,
       p20_representative = take 20 (filter (\<lambda>d. de_policy d = ''cost-aware'') (concat (map co_decision_rows rows))),
       p20_gate = gate\<rparr>)))"

section \<open>POC 20, the runtime report\<close>

definition POLICY :: "pat list" where
  "POLICY = [Lit ''policy_decisions='', number, Lit '' policy_candidates_evaluated='', number, Lit '' policy_cpu_time_ns='', number,
     Lit '' policy_max_decision_ns='', number]"

type_synonym run20 = "log \<times> run_summary \<times> string \<times> int list"

definition parse20 :: "string \<Rightarrow> run20 res" where
  "parse20 content = bind_res (parse_log content) (\<lambda>(l, s).
     let policy = (case search [Lit ''replacement_policy='', word_pat] content of None \<Rightarrow> ''LRU'' | Some v \<Rightarrow> v ! 0) in
     bind_res (case search POLICY content of None \<Rightarrow> Inr [0, 0, 0, 0] | Some v \<Rightarrow> map_res parse_int v) (\<lambda>values.
     Inr (l, s, policy, values)))"

record retention20_row =
  r20_reusable_bytes :: int
  r20_retained_bytes :: int
  r20_useful_retained_bytes :: int
  r20_dead_retained_bytes :: int
  r20_retention_rate :: json

definition retention20 :: "identities \<Rightarrow> event list \<Rightarrow> phases \<Rightarrow> retention20_row res" where
  "retention20 identities events phases =
     bind_res (phase_events events phases ''warm1_token0'') (\<lambda>token0.
     bind_res (phase_events events phases ''warm1_token1'') (\<lambda>token1.
     bind_res (lookup_res phases ''warm1_token1'') (\<lambda>boundary.
     let used0 = refs_used token0; used1 = refs_used token1; resident = resident_at boundary events;
         reusable = used0 \<inter> used1; retained = reusable \<inter> resident; dead = resident - used1 in
     bind_res (require (reusable = {} \<or> byte_total identities reusable \<noteq> 0) ZeroDivisionError) (\<lambda>_.
     Inr \<lparr>r20_reusable_bytes = byte_total identities reusable, r20_retained_bytes = byte_total identities retained,
       r20_useful_retained_bytes = byte_total identities retained, r20_dead_retained_bytes = byte_total identities dead,
       r20_retention_rate = (if reusable \<noteq> {} then JQuot (byte_total identities retained) (byte_total identities reusable)
         else JDec 0 1)\<rparr>))))"

record eviction_quality_row =
  eq_never_reused :: int
  eq_reused :: int
  eq_bytes_reused :: int
  eq_median_distance :: json

fun future_of :: "nat \<Rightarrow> event list \<Rightarrow> (int \<times> (int \<times> nat) list) list \<Rightarrow> (int \<times> (int \<times> nat) list) list" where
  "future_of i [] d = d"
| "future_of i (e # es) d = future_of (Suc i) es (AList.update (ev_ref e) (get_default d (ev_ref e) [] @ [(ev_ordinal e, i)]) d)"

definition median :: "int list \<Rightarrow> json" where
  "median xs = (let s = sort xs; n = length s in
     if odd n then JInt (s ! (n div 2)) else JQuot (s ! (n div 2 - 1) + s ! (n div 2)) 2)"

definition next_use_of :: "(int \<times> (int \<times> nat) list) list \<Rightarrow> event \<Rightarrow> int option" where
  "next_use_of future e = map_option fst (find (\<lambda>item. fst item > ev_ordinal e) (get_default future (ev_ref e) []))"

definition quality_step :: "(int \<times> (int \<times> nat) list) list \<Rightarrow> event \<Rightarrow> int \<times> int \<times> int \<times> int list \<Rightarrow> int \<times> int \<times> int \<times> int list" where
  "quality_step future e acc = (case acc of (never, reused, reused_bytes, distances) \<Rightarrow>
     if ev_kind e \<noteq> ''EVICT'' then acc
     else (case next_use_of future e of
         None \<Rightarrow> (never + 1, reused, reused_bytes, distances)
       | Some next_use \<Rightarrow> (never, reused + 1, reused_bytes + ev_bytes e, distances @ [next_use - ev_ordinal e])))"

definition eviction_quality :: "event list \<Rightarrow> eviction_quality_row" where
  "eviction_quality events =
     (case fold (quality_step (future_of 0 (requests events) [])) events (0, 0, 0, []) of
       (never, reused, reused_bytes, distances) \<Rightarrow>
         \<lparr>eq_never_reused = never, eq_reused = reused, eq_bytes_reused = reused_bytes,
          eq_median_distance = (if distances \<noteq> [] then median distances else JInt 0)\<rparr>)"

definition MIN_RELOAD :: "(int \<times> int) list" where
  "MIN_RELOAD = [(8, 495354880), (64, 319285248), (128, 118007808), (256, 0)]"

record runtime_gate_row =
  rg_lru_reload_bytes :: int
  rg_min_reload_bytes :: int
  rg_cost_aware_reload_bytes :: int
  rg_reload_bytes_saved :: int
  rg_headroom_capture_percent :: json
  rg_source_bytes_saved :: int

definition runtime_gate :: "(string \<times> run20) list \<Rightarrow> int \<Rightarrow> runtime_gate_row res" where
  "runtime_gate comparison mib =
     bind_res (lookup_res comparison (show_int mib @ ''_lru'')) (\<lambda>(_, lru, _).
     bind_res (lookup_res comparison (show_int mib @ ''_cost'')) (\<lambda>(_, cost, _).
     bind_res (lookup_res MIN_RELOAD mib) (\<lambda>min_reload.
     let available = su_reload_bytes lru - min_reload; saved = su_reload_bytes lru - su_reload_bytes cost in
     Inr \<lparr>rg_lru_reload_bytes = su_reload_bytes lru, rg_min_reload_bytes = min_reload,
       rg_cost_aware_reload_bytes = su_reload_bytes cost, rg_reload_bytes_saved = saved,
       rg_headroom_capture_percent = float_quotient (100 * saved) available,
       rg_source_bytes_saved = su_source_bytes lru - su_source_bytes cost\<rparr>)))"

definition table_line :: "(string \<times> run20) list \<Rightarrow> (string \<times> retention20_row) list \<Rightarrow> string \<Rightarrow> string res" where
  "table_line comparison retention_rows key =
     bind_res (lookup_res comparison key) (\<lambda>(_, s, policy, _). bind_res (lookup_res retention_rows key) (\<lambda>r.
     Inr (''| '' @ show_int (su_capacity s div MIB) @ '' MiB | '' @ policy @ '' | '' @ show_int (su_source_bytes s) @ '' | '' @
       show_int (su_reload_bytes s) @ '' | '' @ show_int (su_reload_events s) @ '' | '' @ show_int (su_evictions s) @ '' | '' @
       show_int (r20_useful_retained_bytes r) @ '' | '' @ show_int (su_peak_resident s) @ '' |'')))"

definition run_keys :: "string list" where
  "run_keys = [''8_lru'', ''8_cost'', ''64_lru'', ''64_cost'', ''128_lru'', ''128_cost'', ''256_lru'', ''256_cost'']"

record report20 =
  rp_comparison :: "(string \<times> run20) list"
  rp_retention :: "(string \<times> retention20_row) list"
  rp_eviction :: "(string \<times> eviction_quality_row) list"
  rp_lines :: "string list"
  rp_gate :: "(int \<times> runtime_gate_row) list"

definition report20_main :: "(string \<times> string) list \<Rightarrow> report20 res" where
  "report20_main files =
     bind_res (map_res (\<lambda>(key, content). bind_res (parse20 content) (\<lambda>r. Inr (key, r))) files) (\<lambda>comparison.
     bind_res (map_res (\<lambda>(key, (identities, events, phases), _). bind_res (retention20 identities events phases) (\<lambda>r. Inr (key, r)))
       comparison) (\<lambda>retention_rows.
     let eviction_rows = map (\<lambda>(key, (identities, events, phases), _). (key, eviction_quality events)) comparison in
     bind_res (map_res (table_line comparison retention_rows) run_keys) (\<lambda>lines.
     bind_res (map_res (\<lambda>mib. bind_res (runtime_gate comparison mib) (\<lambda>g. Inr (mib, g))) [8, 64, 128, 256]) (\<lambda>gate.
     Inr \<lparr>rp_comparison = comparison, rp_retention = retention_rows, rp_eviction = eviction_rows, rp_lines = lines, rp_gate = gate\<rparr>))))"

section \<open>Results\<close>

lemma simulate_each: "\<exists>ss. map_res (\<lambda>(mib, p). simulate (requests es) (mib * MIB) p (Some (active_sets es))) cs = Inr ss"
proof (induction cs)
  case (Cons c cs)
  obtain mib p where c: "c = (mib, p)" by (cases c)
  obtain s where "simulate (requests es) (mib * MIB) p (Some (active_sets es)) = Inr s" using replay_total by blast
  then show ?case using Cons.IH c by auto
qed simp

text \<open>
  C39. Once its log parses, the POC 17 analysis always produces its report: all eighteen replays end, whatever
  the capacity and the lease schedule observed.  The sweep holds, in order, the replays of the eight capacities under
  both policies, and the avoidable bytes are those that the baseline reloads beyond the minimum.  The reuse table has a row
  for each request and its next use, and marks as reloads exactly the rows whose second request the baseline
  replay loaded; the class table is that of the baseline.
\<close>

theorem poc17_main_total:
  assumes "parse_trace_text content = Inr (identities, events, phases)"
  shows "\<exists>r. poc17_main content capacity = Inr r \<and>
    list_all2 (\<lambda>(mib, policy) s. simulate (requests events) (mib * MIB) policy (Some (active_sets events)) = Inr s)
      (List.product [4, 6, 8, 10, 12, 16, 24, 32] [''lru'', ''min'']) (p17_sweep r) \<and>
    simulate (requests events) capacity ''lru'' (Some (active_sets events)) = Inr (p17_baseline r) \<and>
    simulate (requests events) capacity ''min'' (Some (active_sets events)) = Inr (p17_minimum r) \<and>
    p17_avoidable_bytes r = sr_reload_bytes (p17_baseline r) - sr_reload_bytes (p17_minimum r) \<and>
    p17_reuse r = reuse_report (requests events) events capacity (set (sr_loaded_indices (p17_baseline r))) \<and>
    (\<forall>a b ref. (a, b, ref) \<in> (\<lambda>w. (rr_from w, rr_to w, rr_ref w)) ` set (rs_rows (p17_reuse r)) \<longleftrightarrow>
       a < length (requests events) \<and> next_uses (requests events) ! a = Some b \<and> ev_ref (requests events ! a) = ref) \<and>
    (\<forall>w \<in> set (rs_rows (p17_reuse r)). rr_reload w \<longleftrightarrow> rr_to w \<in> set (sr_loaded_indices (p17_baseline r))) \<and>
    p17_events r = int (length events) \<and> p17_classes r = class_report (requests events) (p17_baseline r)"
proof -
  let ?sim = "\<lambda>c p. simulate (requests events) c p (Some (active_sets events))"
  let ?cs = "List.product [4, 6, 8, 10, 12, 16, 24, 32] [''lru'', ''min'']"
  obtain b where b: "?sim capacity ''lru'' = Inr b" using replay_total by blast
  obtain m where m: "?sim capacity ''min'' = Inr m" using replay_total by blast
  obtain ss where ss: "map_res (\<lambda>(mib, p). ?sim (mib * MIB) p) ?cs = Inr ss" using simulate_each by blast
  then have sweep: "list_all2 (\<lambda>(mib, p) s. ?sim (mib * MIB) p = Inr s) ?cs ss"
    unfolding map_res_list_all2 by (rule list_all2_mono) auto
  obtain r where r: "poc17_main content capacity = Inr r" "p17_sweep r = ss" "p17_baseline r = b" "p17_minimum r = m"
    "p17_avoidable_bytes r = sr_reload_bytes b - sr_reload_bytes m"
    "p17_reuse r = reuse_report (requests events) events capacity (set (sr_loaded_indices b))"
    "p17_events r = int (length events)" "p17_classes r = class_report (requests events) b"
    unfolding poc17_main_def assms using b m ss by (simp add: Let_def del: List.product.simps)
  show ?thesis using r b m sweep reuse_rows_next_uses[of _ _ _ "requests events" events capacity] reuse_rows_reload
    by (intro exI[of _ r]) (simp del: List.product.simps)
qed

text \<open>
  The runtime report of POC 20 and the POC 19 analysis agree on what was retained: on every log for
  which both return, the reusable and the retained bytes are the same, and the retention rate is their
  quotient.  The POC 20 version alone fails with a division by zero, exactly when there are reusable
  tensors and they have no bytes (their identity lines are missing from the log).
\<close>

theorem retention_reports_agree:
  assumes "retention ids es phs = Inr (rows, blocks, s)"
  shows "retention20 ids es phs = Inl ZeroDivisionError \<and> rows \<noteq> [] \<and> re_reusable_bytes s = 0 \<or>
    (\<exists>r. retention20 ids es phs = Inr r \<and> (rows = [] \<or> re_reusable_bytes s \<noteq> 0) \<and>
       r20_reusable_bytes r = re_reusable_bytes s \<and> r20_retained_bytes r = re_retained_bytes s \<and>
       r20_useful_retained_bytes r = re_retained_bytes s \<and>
       r20_retention_rate r = retention_rate (re_retained_bytes s) (re_reusable_bytes s))"
proof -
  obtain token0 token1 boundary where p: "phase_events es phs ''warm1_token0'' = Inr token0"
      "phase_events es phs ''warm1_token1'' = Inr token1" "map_of phs ''warm1_token1'' = Some boundary"
    and rows: "rows = [] \<longleftrightarrow> refs_used token0 \<inter> refs_used token1 = {}"
    and s: "re_reusable_bytes s = byte_total ids (refs_used token0 \<inter> refs_used token1)"
      "re_retained_bytes s = byte_total ids (refs_used token0 \<inter> refs_used token1 \<inter> resident_at boundary es)"
    by (rule retention_cases[OF assms], rule that) (assumption | simp)+
  have l: "lookup_res phs ''warm1_token1'' = Inr boundary" using p(3) by simp
  note eq = retention20_def[of ids es phs, unfolded p(1,2) l bind_res_simps Let_def]
  have e: "byte_total ids {} = 0" by (simp add: byte_total_def)
  show ?thesis
  proof (cases "refs_used token0 \<inter> refs_used token1 = {}")
    case True
    then show ?thesis using rows s e by (simp add: eq retention_rate_def)
  next
    case False
    then show ?thesis using rows s
      by (cases "re_reusable_bytes s = 0") (simp_all add: eq retention_rate_def)
  qed
qed

theorem retention_reports_agree_witness:
  "\<exists>rows blocks s. retention (fst sample_log) (fst (snd sample_log)) (snd (snd sample_log)) = Inr (rows, blocks, s) \<and>
    (\<exists>r. retention20 (fst sample_log) (fst (snd sample_log)) (snd (snd sample_log)) = Inr r \<and> r20_retained_bytes r = re_retained_bytes s)"
proof -
  have "case retention (fst sample_log) (fst (snd sample_log)) (snd (snd sample_log)) of Inl _ \<Rightarrow> False
      | Inr (rows, blocks, s) \<Rightarrow> re_reusable_bytes s = 96" by code_simp
  then obtain rows blocks s where r: "retention (fst sample_log) (fst (snd sample_log)) (snd (snd sample_log)) = Inr (rows, blocks, s)"
      and "re_reusable_bytes s = 96" by (auto split: sum.splits)
  then show ?thesis using retention_reports_agree[OF r] by auto
qed

theorem poc17_main_total_witness:
  "\<exists>r. poc17_main (text_of (map print_line (map Event_Output (fst (snd sample_log))))) 64 = Inr r \<and>
    (0, 2, 10001) \<in> (\<lambda>w. (rr_from w, rr_to w, rr_ref w)) ` set (rs_rows (p17_reuse r)) \<and> length (p17_sweep r) = 16"
proof -
  have p: "list_all printable_line (map Event_Output (fst (snd sample_log)))" by code_simp
  have "case parse_trace (map logged_line (map Event_Output (fst (snd sample_log)))) of Inl _ \<Rightarrow> False
      | Inr (ids, es, ps) \<Rightarrow> es = fst (snd sample_log)" by code_simp
  then obtain ids ps where t: "parse_trace_text (text_of (map print_line (map Event_Output (fst (snd sample_log))))) =
      Inr (ids, fst (snd sample_log), ps)" unfolding parse_printed[OF p] by (auto split: sum.splits)
  have n: "0 < length (requests (fst (snd sample_log)))" "next_uses (requests (fst (snd sample_log))) ! 0 = Some 2"
    "ev_ref (requests (fst (snd sample_log)) ! 0) = 10001" by code_simp+
  have l: "length (List.product [4, 6, 8, 10, 12, 16, 24, 32 :: int] [''lru'', ''min'']) = 16" by simp
  from poc17_main_total[OF t, of 64] n show ?thesis by (auto dest!: list_all2_lengthD simp: l simp del: List.product.simps)
qed

lemma future_of_get: "fst ` set (get_default (future_of i es d) r []) =
    fst ` set (get_default d r []) \<union> ev_ordinal ` {e \<in> set es. ev_ref e = r}"
proof (induction es arbitrary: i d)
  case (Cons e es)
  then show ?case by (cases "ev_ref e = r") auto
qed simp

lemma next_use_some: "next_use_of (future_of 0 (requests es) []) e \<noteq> None \<longleftrightarrow>
    (\<exists>x \<in> set es. ev_kind x = ''REQUEST'' \<and> ev_ref x = ev_ref e \<and> ev_ordinal e < ev_ordinal x)"
proof -
  have "next_use_of (future_of 0 (requests es) []) e \<noteq> None \<longleftrightarrow>
      (\<exists>o' \<in> fst ` set (get_default (future_of 0 (requests es) []) (ev_ref e) []). ev_ordinal e < o')"
    unfolding next_use_of_def by (force simp: find_None_iff not_le)
  also have "\<dots> \<longleftrightarrow> (\<exists>x \<in> set (requests es). ev_ref x = ev_ref e \<and> ev_ordinal e < ev_ordinal x)"
    unfolding future_of_get by auto
  finally show ?thesis by (auto simp: requests_def)
qed

lemma quality_fold:
  "fold (quality_step future) es (n, m, b, ds) = (n', m', b', ds') \<Longrightarrow>
     n' = n + int (length (filter (\<lambda>e. ev_kind e = ''EVICT'' \<and> next_use_of future e = None) es)) \<and>
     m' = m + int (length (filter (\<lambda>e. ev_kind e = ''EVICT'' \<and> next_use_of future e \<noteq> None) es)) \<and>
     b' = b + (\<Sum>e\<leftarrow>filter (\<lambda>e. ev_kind e = ''EVICT'' \<and> next_use_of future e \<noteq> None) es. ev_bytes e)"
proof (induction es arbitrary: n m b ds)
  case (Cons e es)
  obtain n1 m1 b1 d1 where s: "quality_step future e (n, m, b, ds) = (n1, m1, b1, d1)" by (cases "quality_step future e (n, m, b, ds)")
  then have v: "n1 = n + of_bool (ev_kind e = ''EVICT'' \<and> next_use_of future e = None)"
    "m1 = m + of_bool (ev_kind e = ''EVICT'' \<and> next_use_of future e \<noteq> None)"
    "b1 = b + (if ev_kind e = ''EVICT'' \<and> next_use_of future e \<noteq> None then ev_bytes e else 0)"
    by (auto simp: quality_step_def split: if_splits option.splits)
  show ?case using Cons.IH[of n1 m1 b1 d1] Cons.prems s v
    by (cases "ev_kind e = ''EVICT''"; cases "next_use_of future e") simp_all
qed simp

text \<open>The evictions that a later request of the same tensor makes regrettable.\<close>

fun regretted :: "event list \<Rightarrow> event list" where
  "regretted [] = []"
| "regretted (e # es) = (if ev_kind e = ''EVICT'' \<and> list_ex (\<lambda>x. ev_kind x = ''REQUEST'' \<and> ev_ref x = ev_ref e) es
     then e # regretted es else regretted es)"

lemma regretted_filter:
  assumes "sorted_wrt (<) (map ev_ordinal (pre @ es))"
  shows "filter (\<lambda>e. ev_kind e = ''EVICT'' \<and> (\<exists>x \<in> set (pre @ es). ev_kind x = ''REQUEST'' \<and> ev_ref x = ev_ref e \<and>
     ev_ordinal e < ev_ordinal x)) es = regretted es"
  using assms
proof (induction es arbitrary: pre)
  case (Cons e es)
  have o: "\<forall>x \<in> set pre. ev_ordinal x < ev_ordinal e" "\<forall>x \<in> set es. ev_ordinal e < ev_ordinal x"
    using Cons.prems by (auto simp: sorted_wrt_append)
  define Q where "Q y \<longleftrightarrow> (\<exists>x \<in> set (pre @ e # es). ev_kind x = ''REQUEST'' \<and> ev_ref x = ev_ref y \<and> ev_ordinal y < ev_ordinal x)" for y :: event
  have "Q e \<longleftrightarrow> list_ex (\<lambda>x. ev_kind x = ''REQUEST'' \<and> ev_ref x = ev_ref e) es"
    unfolding list_ex_iff Q_def using o by (auto dest: less_not_sym)
  moreover have "filter (\<lambda>y. ev_kind y = ''EVICT'' \<and> Q y) es = regretted es"
    unfolding Q_def using Cons.IH[of "pre @ [e]"] Cons.prems by simp
  ultimately show ?case unfolding Q_def[symmetric] by simp
qed simp

text \<open>
  On a trace in order of its ordinals, the eviction quality of the runtime report is what it claims: the
  evictions it counts as reused, and their bytes, are those of the tensors requested again later, and every
  other eviction is counted as never reused.
\<close>

theorem eviction_quality_exact:
  assumes "sorted_wrt (<) (map ev_ordinal events)"
  shows "eq_reused (eviction_quality events) = int (length (regretted events)) \<and>
    eq_bytes_reused (eviction_quality events) = (\<Sum>e\<leftarrow>regretted events. ev_bytes e) \<and>
    eq_never_reused (eviction_quality events) + eq_reused (eviction_quality events) =
      int (length (filter (\<lambda>e. ev_kind e = ''EVICT'') events))"
proof -
  let ?f = "future_of 0 (requests events) []"
  obtain n m b ds where f: "fold (quality_step ?f) events (0, 0, 0, []) = (n, m, b, ds)"
    by (cases "fold (quality_step ?f) events (0, 0, 0, [])")
  have reg: "filter (\<lambda>e. ev_kind e = ''EVICT'' \<and> next_use_of ?f e \<noteq> None) events = regretted events"
    unfolding next_use_some using regretted_filter[of "[]" events] assms by simp
  have "length (filter (\<lambda>e. ev_kind e = ''EVICT'') events) =
      length (filter (\<lambda>e. ev_kind e = ''EVICT'' \<and> next_use_of ?f e = None) events) + length (regretted events)"
    unfolding reg[symmetric] using sum_length_filter_compl[of "\<lambda>e. next_use_of ?f e = None" "filter (\<lambda>e. ev_kind e = ''EVICT'') events"]
    by (simp add: conj_commute)
  then show ?thesis using quality_fold[OF f] reg f by (simp add: eviction_quality_def)
qed

theorem eviction_quality_exact_witness:
  "eq_reused (eviction_quality (fst (snd sample_log))) = int (length (regretted (fst (snd sample_log)))) \<and>
    eq_reused (eviction_quality (fst (snd sample_log))) = 1"
proof -
  have "sorted_wrt (<) (map ev_ordinal (fst (snd sample_log)))" by code_simp
  from eviction_quality_exact[OF this] show ?thesis by (simp add: sample_log_def)
qed


lemma row_for_sim:
  assumes rows: "map_res (\<lambda>(mib, policy). cost_simulate score q active (mib * MIB) policy) cs = Inr rows" and c: "(mib, policy) \<in> set cs"
  shows "row_for rows mib policy = cost_simulate score q active (mib * MIB) policy"
proof -
  have key: "co_capacity r = m * MIB \<and> co_policy r = p" if "cost_simulate score q active (m * MIB) p = Inr r" for m p r
    using that by (auto simp: cost_simulate_def bind_res_Inr_iff)
  obtain r where r: "r \<in> set rows" "cost_simulate score q active (mib * MIB) policy = Inr r"
    using map_res_mem[OF rows c] by auto
  have "y = r" if y: "y \<in> set rows" "co_capacity y = mib * MIB" "co_policy y = policy" for y
  proof -
    obtain m p where mp: "cost_simulate score q active (m * MIB) p = Inr y"
      using map_res_origin[OF rows y(1)] by (auto split: prod.splits)
    then have "m * MIB = mib * MIB" "p = policy" using key[OF mp] y by auto
    then show ?thesis using mp r(2) by (auto simp: MIB_def)
  qed
  note uniq = this
  let ?P = "\<lambda>x. co_capacity x = mib * MIB \<and> co_policy x = policy"
  have "find ?P (rev rows) \<noteq> None" using r(1) key[OF r(2)] by (auto simp: find_None_iff)
  then obtain y where y: "find ?P (rev rows) = Some y" by blast
  then have "y \<in> set (rev rows) \<and> ?P y" unfolding find_Some_iff by (metis nth_mem)
  then have "y = r" using uniq by simp
  then have "find ?P (rev rows) = Some r" using y by simp
  then show ?thesis using r(2) by (simp add: row_for_def)
qed

text \<open>
  The gate of the offline POC 20 report measures against the POC 17 replay: at both capacities its LRU
  and its oracle figures are the reload bytes of that replay under \<open>lru\<close> and \<open>min\<close>, so the headroom is the
  avoidable reload traffic POC 17 reports, whatever the cost policy's score.
\<close>

theorem poc20_gate_agrees:
  assumes "poc20_main score content = Inr r" and "parse_trace_text content = Inr (identities, events, phases)" and "mib = 64 \<or> mib = 128"
  shows "\<exists>g b m. map_of (p20_gate r) mib = Some g \<and>
    simulate (requests events) (mib * MIB) ''lru'' (Some (active_sets events)) = Inr b \<and>
    simulate (requests events) (mib * MIB) ''min'' (Some (active_sets events)) = Inr m \<and>
    ga_lru_reload_bytes g = sr_reload_bytes b \<and> ga_min_reload_bytes g = sr_reload_bytes m \<and>
    snd (ga_headroom g) = sr_reload_bytes b - sr_reload_bytes m"
proof -
  let ?c = "\<lambda>policy. cost_simulate score (requests events) (active_sets events) (mib * MIB) policy"
  let ?cs = "List.product [8, 64, 128, 256] [''lru'', ''cost-aware'', ''min'']"
  let ?gate = "\<lambda>rows m. bind_res (row_for rows m ''lru'') (\<lambda>lru. bind_res (row_for rows m ''cost-aware'') (\<lambda>cost.
       bind_res (row_for rows m ''min'') (\<lambda>oracle. Inr (m, acceptance_gate lru cost oracle))))"
  obtain rows gate where rows: "map_res (\<lambda>(m, policy). cost_simulate score (requests events) (active_sets events) (m * MIB) policy) ?cs = Inr rows"
    and gate: "map_res (?gate rows) [64, 128] = Inr gate" and r: "p20_gate r = gate"
    using assms(1,2) by (auto simp: poc20_main_def bind_res_Inr_iff simp del: List.product.simps map_res.simps)
  have mem: "(mib, p) \<in> set ?cs" if "p \<in> {''lru'', ''cost-aware'', ''min''}" for p using assms(3) that by auto
  note row = row_for_sim[OF rows mem]
  obtain b where b: "simulate (requests events) (mib * MIB) ''lru'' (Some (active_sets events)) = Inr b" using replay_total by blast
  obtain m where m: "simulate (requests events) (mib * MIB) ''min'' (Some (active_sets events)) = Inr m" using replay_total by blast
  obtain l where l: "?c ''lru'' = Inr l" "co_reload_bytes l = sr_reload_bytes b" using replay_reports[OF b] by auto
  obtain n where n: "?c ''min'' = Inr n" "co_reload_bytes n = sr_reload_bytes m" using replay_reports[OF m] by auto
  obtain g64 g128 where g: "?gate rows 64 = Inr g64" "?gate rows 128 = Inr g128" "gate = [g64, g128]"
    using gate by (auto simp: bind_res_Inr_iff simp del: bind_res_simps)
  have fst: "?gate rows k = Inr x \<Longrightarrow> fst x = k" for k x by (auto simp: bind_res_Inr_iff)
  have k: "fst g64 = 64" "fst g128 = 128" using fst g by blast+
  obtain x where x: "?gate rows mib = Inr x" "map_of gate mib = Some (snd x)"
    using assms(3) g k by (cases g64; cases g128) auto
  then have "\<exists>c. snd x = acceptance_gate l c n" using row l n by (auto simp: bind_res_Inr_iff)
  then show ?thesis using b m l n x r by (auto simp: acceptance_gate_def Let_def)
qed

theorem poc20_gate_agrees_witness:
  "\<exists>r g. poc20_main (\<lambda>i facts c. length facts) (text_of (map print_line (map Event_Output (fst (snd sample_log))))) = Inr r \<and>
    map_of (p20_gate r) 64 = Some g \<and> ga_lru_reload_bytes g - ga_min_reload_bytes g = snd (ga_headroom g)"
proof -
  have p: "list_all printable_line (map Event_Output (fst (snd sample_log)))" by code_simp
  have "case parse_trace (map logged_line (map Event_Output (fst (snd sample_log)))) of Inl _ \<Rightarrow> False | Inr t \<Rightarrow> True" by code_simp
  then obtain ids es ps where t: "parse_trace (map logged_line (map Event_Output (fst (snd sample_log)))) = Inr (ids, es, ps)"
    by (auto split: sum.splits)
  note c = parse_printed[OF p]
  have "case poc20_main (\<lambda>i facts c. length facts) (text_of (map print_line (map Event_Output (fst (snd sample_log))))) of Inl _ \<Rightarrow> False | Inr t \<Rightarrow> True"
    unfolding poc20_main_def c by code_simp
  then obtain r where "poc20_main (\<lambda>i facts c. length facts) (text_of (map print_line (map Event_Output (fst (snd sample_log))))) = Inr r"
    by (auto split: sum.splits)
  then show ?thesis using poc20_gate_agrees[OF _ c[unfolded t], of "\<lambda>i facts c. length facts" r 64] by auto
qed

end
