(* ===== verification/Slack.thy ===== *)
theory Slack
  imports Complex_Main Planner26
begin

text \<open>
  The slack audit of \<open>scripts/audit_step30_slack.py\<close>: the slack account of one block, the packed codes, the rows of
  the audit over a plan of \<open>Planner26\<close> (blocks, artifact, base shifts, layers, roles, groups, stranded bytes).
  Quotients that are only reported (percentages, bits per weight, quantiles) and the floating point
  codebook sweep are left out.
\<close>

section \<open>Slack account and packed codes\<close>

record slack_account =
  sk_used :: int
  sk_remaining :: int
  sk_overflow :: int
  sk_free :: bool

definition slack_usage :: "int \<Rightarrow> int \<Rightarrow> slack_account res" where
  "slack_usage capacity requested =
     (if capacity < 0 \<or> requested < 0 then Inl (ValueError ''negative slack accounting'')
      else Inr \<lparr>sk_used = (if requested \<le> capacity then requested else 0),
        sk_remaining = (if requested \<le> capacity then capacity - requested else capacity),
        sk_overflow = (if requested \<le> capacity then 0 else requested - capacity), sk_free = (requested \<le> capacity)\<rparr>)"

text \<open>\<open>out[pos // 8] |= 1 << (pos % 8)\<close>; the array is long enough for every position (\<open>pack_codes_bits\<close>).\<close>

definition or_bit :: "nat \<Rightarrow> bytes \<Rightarrow> bytes" where
  "or_bit pos out = out[pos div 8 := out ! (pos div 8) OR push_bit (pos mod 8) 1]"

definition put_code :: "nat \<Rightarrow> nat \<Rightarrow> int \<Rightarrow> bytes \<Rightarrow> bytes" where
  "put_code bits cursor value' out = fold (\<lambda>b out. if drop_bit b value' AND 1 \<noteq> 0 then or_bit (cursor + b) out else out) [0..<bits] out"

fun pack_loop :: "nat \<Rightarrow> int list \<Rightarrow> nat \<Rightarrow> bytes \<Rightarrow> bytes res" where
  "pack_loop bits [] cursor out = Inr out"
| "pack_loop bits (v # vs) cursor out =
     bind_res (require (0 \<le> v \<and> v < 2 ^ bits) (ValueError ''code'')) (\<lambda>_. pack_loop bits vs (cursor + bits) (put_code bits cursor v out))"

definition pack_codes :: "int list \<Rightarrow> int \<Rightarrow> bytes res" where
  "pack_codes codes bits = bind_res (require (1 \<le> bits \<and> bits \<le> 8) (ValueError ''bits'')) (\<lambda>_.
     pack_loop (nat bits) codes 0 (replicate ((length codes * nat bits + 7) div 8) 0))"

definition raw_byte :: "bytes \<Rightarrow> nat \<Rightarrow> int res" where
  "raw_byte raw i = (if i < length raw then Inr (uint (raw ! i)) else Inl IndexError)"

definition get_code :: "bytes \<Rightarrow> nat \<Rightarrow> nat \<Rightarrow> int res" where
  "get_code raw bits cursor = fold_res (\<lambda>v b. bind_res (raw_byte raw ((cursor + b) div 8)) (\<lambda>byte.
     Inr (v OR push_bit b (drop_bit ((cursor + b) mod 8) byte AND 1)))) 0 [0..<bits]"

definition unpack_codes :: "bytes \<Rightarrow> int \<Rightarrow> nat \<Rightarrow> int list res" where
  "unpack_codes raw bits n = map_res (\<lambda>k. get_code raw (nat bits) (k * nat bits)) [0..<n]"

section \<open>Codes are read back\<close>

definition bit_at :: "bytes \<Rightarrow> nat \<Rightarrow> bool" where
  "bit_at out p \<longleftrightarrow> p div 8 < length out \<and> bit (out ! (p div 8)) (p mod 8)"

lemma bit_at_or_bit:
  assumes "p div 8 < length out"
  shows "bit_at (or_bit p out) q \<longleftrightarrow> bit_at out q \<or> q = p"
proof (cases "q div 8 = p div 8")
  case True
  have "bit (push_bit (p mod 8) 1 :: 8 word) (q mod 8) \<longleftrightarrow> q mod 8 = p mod 8" by (auto simp: bit_exp_iff)
  moreover have "q mod 8 = p mod 8 \<longleftrightarrow> q = p" using True by (metis div_mult_mod_eq)
  ultimately show ?thesis using assms True by (simp add: bit_at_def or_bit_def bit_or_iff)
next
  case False
  then show ?thesis by (auto simp: bit_at_def or_bit_def)
qed

lemma length_or_bit [simp]: "length (or_bit p out) = length out"
  by (simp add: or_bit_def)

lemma low_bit: "drop_bit b (v :: int) AND 1 \<noteq> 0 \<longleftrightarrow> bit v b"
  by (simp add: and_one_eq bit_iff_odd_drop_bit odd_iff_mod_2_eq_one)

lemma put_code_bits:
  "cursor + bits \<le> 8 * length out \<Longrightarrow> length (put_code bits cursor v out) = length out \<and>
     bit_at (put_code bits cursor v out) q = (bit_at out q \<or> (cursor \<le> q \<and> q < cursor + bits \<and> bit v (q - cursor)))"
proof (induction bits)
  case (Suc bits)
  have step: "put_code (Suc bits) cursor v out = (if bit v bits then or_bit (cursor + bits) (put_code bits cursor v out) else put_code bits cursor v out)"
    by (simp add: put_code_def low_bit)
  have "(cursor + bits) div 8 < length out" using Suc.prems by linarith
  then have "bit_at (or_bit (cursor + bits) (put_code bits cursor v out)) q \<longleftrightarrow> bit_at (put_code bits cursor v out) q \<or> q = cursor + bits"
    using Suc by (intro bit_at_or_bit) simp
  then show ?case using Suc unfolding step by (auto simp: less_Suc_eq)
qed (auto simp: put_code_def)

text \<open>The packed bytes hold, at position \<open>k * bits + b\<close>, bit \<open>b\<close> of the \<open>k\<close>-th code.\<close>

lemma pack_loop_bits:
  assumes "pack_loop bits vs cursor out = Inr raw" "cursor + length vs * bits \<le> 8 * length out" "\<forall>q \<ge> cursor. \<not> bit_at out q"
  shows "length raw = length out \<and> (\<forall>q < cursor. bit_at raw q = bit_at out q) \<and>
     (\<forall>k < length vs. 0 \<le> vs ! k \<and> vs ! k < 2 ^ bits \<and> (\<forall>b < bits. bit_at raw (cursor + k * bits + b) = bit (vs ! k) b))"
  using assms
proof (induction bits vs cursor out rule: pack_loop.induct)
  case (2 bits v vs cursor out)
  let ?out = "put_code bits cursor v out"
  have put: "length ?out = length out" "bit_at ?out q = (bit_at out q \<or> (cursor \<le> q \<and> q < cursor + bits \<and> bit v (q - cursor)))" for q
    using put_code_bits [of cursor bits out v] "2.prems"(2) by simp_all
  have v: "0 \<le> v" "v < 2 ^ bits" "pack_loop bits vs (cursor + bits) ?out = Inr raw"
    using "2.prems"(1) by (auto simp: bind_res_Inr_iff)
  have "cursor + bits + length vs * bits \<le> 8 * length ?out" using "2.prems"(2) put(1) by (simp add: add.assoc)
  moreover have "\<forall>q \<ge> cursor + bits. \<not> bit_at ?out q" using "2.prems"(3) put(2) by simp
  ultimately have ih: "length raw = length ?out" "\<forall>q < cursor + bits. bit_at raw q = bit_at ?out q"
      "\<forall>k < length vs. 0 \<le> vs ! k \<and> vs ! k < 2 ^ bits \<and> (\<forall>b < bits. bit_at raw (cursor + bits + k * bits + b) = bit (vs ! k) b)"
    using "2.IH" [OF _ v(3)] v(1,2) by auto
  have "0 \<le> (v # vs) ! k \<and> (v # vs) ! k < 2 ^ bits \<and> (\<forall>b < bits. bit_at raw (cursor + k * bits + b) = bit ((v # vs) ! k) b)"
    if "k < length (v # vs)" for k
  proof (cases k)
    case 0
    then show ?thesis using v ih(2) put(2) "2.prems"(3) by simp
  next
    case (Suc j)
    then show ?thesis using ih(3) [rule_format, of j] that by (simp add: add.assoc)
  qed
  then show ?case using ih put "2.prems"(3) by simp
qed simp

lemma get_code_Suc: "get_code raw (Suc n) cursor = bind_res (get_code raw n cursor) (\<lambda>v.
    bind_res (raw_byte raw ((cursor + n) div 8)) (\<lambda>byte. Inr (v OR push_bit n (drop_bit ((cursor + n) mod 8) byte AND 1))))"
  by (simp only: get_code_def upt_Suc_append [OF le0] fold_res_append fold_res.simps) (simp add: bind_res_def split: sum.splits)

lemma get_code_value:
  assumes "cursor + bits \<le> 8 * length raw" "\<forall>b < bits. bit_at raw (cursor + b) = bit v b" "n \<le> bits"
  shows "get_code raw n cursor = Inr (take_bit n v)"
  using assms(3)
proof (induction n)
  case (Suc n)
  have idx: "(cursor + n) div 8 < length raw" using assms(1) Suc.prems by linarith
  have "drop_bit ((cursor + n) mod 8) (uint (raw ! ((cursor + n) div 8))) AND 1 = of_bool (bit v n)"
    using assms(2) [rule_format, of n] Suc.prems idx
    by (simp add: bit_at_def and_one_eq mod_2_eq_odd bit_uint_iff flip: bit_iff_odd_drop_bit)
  moreover have "take_bit n v OR push_bit n (of_bool (bit v n)) = take_bit (Suc n) v"
    by (rule bit_eqI) (auto simp: bit_or_iff bit_take_bit_iff bit_push_bit_iff bit_1_iff less_Suc_eq of_bool_def)
  ultimately show ?case using Suc idx unfolding get_code_Suc by (simp only: raw_byte_def if_True bind_res_simps Suc_leD simp_thms)
qed (simp add: get_code_def)

text \<open>
  Packed codes are read back: whatever list of codes \<open>pack_codes\<close> accepts, it packs into the fewest whole
  bytes, and \<open>unpack_codes\<close> returns the list; it raises exactly on a width outside 1 to 8 and on a code that does
  not fit into the width.
\<close>

theorem codes_roundtrip:
  "case pack_codes codes bits of
       Inl e \<Rightarrow> bits < 1 \<or> 8 < bits \<or> (\<exists>c \<in> set codes. c < 0 \<or> 2 ^ nat bits \<le> c)
     | Inr raw \<Rightarrow> 1 \<le> bits \<and> bits \<le> 8 \<and> length raw = (length codes * nat bits + 7) div 8 \<and>
         unpack_codes raw bits (length codes) = Inr codes"
proof (cases "1 \<le> bits \<and> bits \<le> 8")
  case True
  define n where "n = nat bits"
  define out where "out = replicate ((length codes * n + 7) div 8) (0 :: 8 word)"
  have p: "pack_codes codes bits = pack_loop n codes 0 out" using True by (simp add: pack_codes_def n_def out_def)
  have clear: "\<not> bit_at out q" for q
    by (auto simp: bit_at_def out_def)
  show ?thesis
  proof (cases "pack_loop n codes 0 out")
    case (Inl e)
    have "\<exists>c \<in> set codes. c < 0 \<or> 2 ^ n \<le> c" if "pack_loop n codes cursor out' = Inl e" for cursor out'
      using that by (induction n codes cursor out' rule: pack_loop.induct) (auto simp: bind_res_Inl_iff not_le not_less)
    then show ?thesis using Inl p unfolding n_def by simp
  next
    case (Inr raw)
    have room: "length codes * n \<le> 8 * length out" by (simp add: out_def)
    have bits: "length raw = length out" "\<forall>k < length codes. 0 \<le> codes ! k \<and> codes ! k < 2 ^ n \<and>
        (\<forall>b < n. bit_at raw (k * n + b) = bit (codes ! k) b)"
      using pack_loop_bits [OF Inr] room clear by simp_all
    have "get_code raw n (k * n) = Inr (codes ! k)" if "k < length codes" for k
    proof -
      have "Suc k * n \<le> length codes * n" using that by (intro mult_le_mono1) simp
      then have "k * n + n \<le> 8 * length raw" using room bits(1) by simp
      then have "get_code raw n (k * n) = Inr (take_bit n (codes ! k))" using get_code_value bits(2) that by blast
      then show ?thesis using bits(2) that by (simp add: take_bit_int_eq_self)
    qed
    then have "unpack_codes raw bits (length codes) = Inr (map ((!) codes) [0..<length codes])"
      unfolding unpack_codes_def n_def [symmetric] by (intro map_res_Inr) simp
    then show ?thesis using p Inr True bits(1) by (simp add: map_nth out_def n_def)
  qed
next
  case False
  then have "pack_codes codes bits = Inl (ValueError ''bits'')" by (auto simp: pack_codes_def require_def)
  then show ?thesis using False by (auto simp: not_le)
qed

section \<open>Rows of the audit\<close>

definition bucket :: "int \<Rightarrow> string" where
  "bucket n = (if n = 0 then ''0'' else if n \<le> 3 then ''1-3'' else if n \<le> 7 then ''4-7'' else if n \<le> 15 then ''8-15''
     else if n \<le> 31 then ''16-31'' else if n \<le> 63 then ''32-63'' else if n \<le> 127 then ''64-127'' else ''>=128'')"

definition BUCKETS :: "string list" where
  "BUCKETS = [''0'', ''1-3'', ''4-7'', ''8-15'', ''16-31'', ''32-63'', ''64-127'', ''>=128'']"

definition ROLES :: "(string \<times> string) list" where
  "ROLES = [(''attn_q.'', ''Q''), (''attn_k.'', ''K''), (''attn_v.'', ''V''), (''attn_output.'', ''AttentionOutput''),
     (''ffn_gate.'', ''FFNGate''), (''ffn_up.'', ''FFNUp''), (''ffn_down.'', ''FFNDown''), (''norm.'', ''Norm''),
     (''token_embd.'', ''TokenEmbedding''), (''output.'', ''Output'')]"

definition role :: "string \<Rightarrow> string" where
  "role name = (case first_some (\<lambda>(x, r). if contains x name then Some r else None) ROLES of Some r \<Rightarrow> r | None \<Rightarrow> ''Control/Other'')"

record block_row =
  bk_artifact :: string
  bk_index :: nat
  bk_role :: string
  bk_layer :: "int option"
  bk_name :: string
  bk_group :: string
  bk_quantization :: string
  bk_payload :: int
  bk_extent :: int
  bk_header :: int
  bk_slack :: int
  bk_base_shift :: int
  bk_base_step :: int
  bk_offset :: int
  bk_payload_offset :: int
  bk_slack_location :: string
  bk_size_bucket :: string

text \<open>\<open>next_start\<close> is the start of the next block, or the end of the payload for the last one.\<close>

definition block_row_of :: "string \<Rightarrow> (string \<times> tensor) list \<Rightarrow> candidate \<Rightarrow> nat \<Rightarrow> placed \<Rightarrow> int \<Rightarrow> block_row" where
  "block_row_of model by_name p i r next_start = (let extent = next_start - pl_block_start r;
       slack = extent - pl_header_bytes r - rq_payload r in
     \<lparr>bk_artifact = model, bk_index = i, bk_role = role (rq_name r), bk_layer = rq_layer r, bk_name = rq_name r, bk_group = rq_group r,
       bk_quantization = (case map_of by_name (rq_name r) of Some t \<Rightarrow> tn_type_name t | None \<Rightarrow> ''control''),
       bk_payload = rq_payload r, bk_extent = extent, bk_header = pl_header_bytes r, bk_slack = slack,
       bk_base_shift = cd_base_shift p, bk_base_step = cd_base_step p, bk_offset = pl_block_start r, bk_payload_offset = pl_payload_start r,
       bk_slack_location = (if slack \<noteq> 0 then ''between payload end and next canonical block'' else ''none''),
       bk_size_bucket = (if rq_payload r < 4096 then ''<4KiB'' else if rq_payload r < 1048576 then ''4KiB-1MiB''
         else if rq_payload r < 67108864 then ''1-64MiB'' else ''>=64MiB'')\<rparr>)"

fun detailed_from :: "string \<Rightarrow> (string \<times> tensor) list \<Rightarrow> candidate \<Rightarrow> nat \<Rightarrow> placed list \<Rightarrow> block_row list" where
  "detailed_from model by_name p i [] = []"
| "detailed_from model by_name p i [r] = [block_row_of model by_name p i r (pl_payload_end r)]"
| "detailed_from model by_name p i (r # r' # rs) =
     block_row_of model by_name p i r (pl_block_start r') # detailed_from model by_name p (Suc i) (r' # rs)"

definition detailed :: "string \<Rightarrow> artifact \<Rightarrow> candidate \<Rightarrow> block_row list" where
  "detailed model a p = detailed_from model (fold (\<lambda>t d. AList.update (tn_name t) t d) (ar_tensors a) []) p 0 (cd_entries p)"

text \<open>\<open>planner\<close>, without the parse of the GGUF file, which gives the artifact.\<close>

definition planner30 :: "(meta_value \<Rightarrow> string) \<Rightarrow> (json \<Rightarrow> string) \<Rightarrow> string \<Rightarrow> string \<Rightarrow> artifact \<Rightarrow> nat \<Rightarrow> candidate res" where
  "planner30 render jrender path filename a bs = bind_res (build_manifest26 render path filename a) (\<lambda>m.
     bind_res (requests26 render jrender a m) (\<lambda>entries. plan_candidate entries bs))"

section \<open>Totals\<close>

record slack_summary =
  su_artifact :: string
  su_payload :: int
  su_physical :: int
  su_slack :: int
  su_median :: rat
  su_max :: int
  su_weights :: int
  su_buckets :: "(string \<times> int) list"

record base_row =
  bs_base_shift :: nat
  bs_base_step :: int
  bs_physical :: int
  bs_alignment_slack :: int
  bs_free :: int
  bs_additional :: int
  bs_net_cost :: int
  bs_meaningful :: int

record layer_slack_row =
  ly_layer :: "int option"
  ly_payload :: int
  ly_extent :: int
  ly_header :: int
  ly_theoretical :: int
  ly_usable :: int
  ly_stranded :: int

record role_row =
  ro_role :: string
  ro_payload :: int
  ro_slack :: int

definition median :: "int list \<Rightarrow> rat res" where
  "median xs = (let ys = sort xs; n = length ys in
     if n = 0 then Inl (ValueError ''no median for empty data'')
     else if n mod 2 = 1 then Inr (of_int (ys ! (n div 2)))
     else Inr ((of_int (ys ! (n div 2 - 1)) + of_int (ys ! (n div 2))) / 2))"

definition summary_row :: "string \<Rightarrow> artifact \<Rightarrow> candidate \<Rightarrow> block_row list \<Rightarrow> slack_summary res" where
  "summary_row model a p blocks = (let sl = map bk_slack blocks; weights = (\<Sum>t\<leftarrow>ar_tensors a. case tn_elements t of Some n \<Rightarrow> n | None \<Rightarrow> 0) in
     bind_res (require (cd_final_size p \<noteq> 0) ZeroDivisionError) (\<lambda>_.
     bind_res (median sl) (\<lambda>middle.
     bind_res (require (weights \<noteq> 0) ZeroDivisionError) (\<lambda>_.
     Inr \<lparr>su_artifact = model, su_payload = cd_payload_bytes p, su_physical = cd_final_size p, su_slack = sum_list sl, su_median = middle,
       su_max = Max (set sl), su_weights = weights,
       su_buckets = map (\<lambda>k. (k, int (length (filter (\<lambda>x. bucket x = k) sl)))) BUCKETS\<rparr>))))"

definition base_row_of :: "candidate \<Rightarrow> nat \<Rightarrow> candidate \<Rightarrow> base_row" where
  "base_row_of p bs q = \<lparr>bs_base_shift = bs, bs_base_step = push_bit bs 1, bs_physical = cd_final_size q, bs_alignment_slack = cd_padding_bytes q,
     bs_free = (if bs = 3 then cd_padding_bytes p else 0), bs_additional = cd_padding_bytes q - cd_padding_bytes p,
     bs_net_cost = cd_final_size q - cd_final_size p,
     bs_meaningful = int (length (filter (\<lambda>r. 8 \<le> pl_block_padding r + pl_inner_padding r) (cd_entries q)))\<rparr>"

text \<open>A dictionary of three running totals; \<open>defaultdict(lambda: [0, 0, 0])\<close>.\<close>

type_synonym triple = "int \<times> int \<times> int"

fun add3 :: "triple \<Rightarrow> triple \<Rightarrow> triple" where
  "add3 (a, b, c) (x, y, z) = (a + x, b + y, c + z)"

definition tally :: "('r \<Rightarrow> 'k) \<Rightarrow> ('r \<Rightarrow> triple) \<Rightarrow> 'r list \<Rightarrow> ('k \<times> triple) list" where
  "tally key amount rows = fold (\<lambda>r d. AList.update (key r) (add3 (get_default d (key r) (0, 0, 0)) (amount r)) d) rows []"

text \<open>The key \<open>'global'\<close> of blocks without a layer is \<open>None\<close>.\<close>

definition layer_rows :: "artifact \<Rightarrow> block_row list \<Rightarrow> layer_slack_row list res" where
  "layer_rows a blocks = (let tensors = filter (\<lambda>r. bk_group r = ''tensor'') blocks in
     bind_res (map_res (\<lambda>r. case find (\<lambda>t. tn_name t = bk_name r) (ar_tensors a) of
         None \<Rightarrow> Inl StopIteration
       | Some t \<Rightarrow> Inr (r, case tn_elements t of Some n \<Rightarrow> n | None \<Rightarrow> 0)) tensors) (\<lambda>found.
     Inr (map (\<lambda>(k, payload, extent, elements).
         let header = (\<Sum>r\<leftarrow>filter (\<lambda>r. bk_layer r = k) tensors. bk_header r); slack = extent - payload - header in
         \<lparr>ly_layer = k, ly_payload = payload, ly_extent = extent, ly_header = header, ly_theoretical = slack, ly_usable = 0, ly_stranded = slack\<rparr>)
       (tally (\<lambda>(r, _). bk_layer r) (\<lambda>(r, n). (bk_payload r, bk_extent r, n)) found))))"

definition role_rows :: "block_row list \<Rightarrow> role_row list" where
  "role_rows blocks = map (\<lambda>(k, payload, slack, _). \<lparr>ro_role = k, ro_payload = payload, ro_slack = slack\<rparr>)
     (tally bk_role (\<lambda>r. (bk_payload r, bk_slack r, 0)) blocks)"

record slack_audit =
  sa_summary :: slack_summary
  sa_blocks :: "block_row list"
  sa_base :: "base_row list"
  sa_layers :: "layer_slack_row list"
  sa_roles :: "role_row list"

definition audit_model :: "(nat \<Rightarrow> candidate res) \<Rightarrow> string \<Rightarrow> artifact \<Rightarrow> int \<Rightarrow> slack_audit res" where
  "audit_model plan model a vbuf_size =
     bind_res (plan 3) (\<lambda>p. bind_res (require (cd_final_size p = vbuf_size) (AssertionError ''p.final_size == st_size'')) (\<lambda>_.
     let blocks = detailed model a p in
     bind_res (summary_row model a p blocks) (\<lambda>summary.
     bind_res (map_res (\<lambda>bs. bind_res (plan bs) (\<lambda>q. bind_res (require (cd_final_size p \<noteq> 0) ZeroDivisionError) (\<lambda>_. Inr (base_row_of p bs q))))
       [3..<9]) (\<lambda>base.
     bind_res (layer_rows a blocks) (\<lambda>layers.
     Inr \<lparr>sa_summary = summary, sa_blocks = blocks, sa_base = base, sa_layers = layers, sa_roles = role_rows blocks\<rparr>)))))"

definition main_audit :: "(meta_value \<Rightarrow> string) \<Rightarrow> (json \<Rightarrow> string) \<Rightarrow> string \<Rightarrow> string \<Rightarrow> string \<Rightarrow> artifact \<Rightarrow> int \<Rightarrow> slack_audit res" where
  "main_audit render jrender path filename model a vbuf_size = audit_model (planner30 render jrender path filename a) model a vbuf_size"

section \<open>Groups and stranded bytes\<close>

definition DIMENSIONS :: "(string \<times> (block_row \<Rightarrow> string)) list" where
  "DIMENSIONS = [(''semantic_role'', bk_role), (''layer'', \<lambda>r. case bk_layer r of None \<Rightarrow> ''None'' | Some l \<Rightarrow> show_int l),
     (''quantization'', bk_quantization), (''size_bucket'', bk_size_bucket), (''base_step'', \<lambda>r. show_int (bk_base_step r))]"

record group_row =
  gr_artifact :: string
  gr_dimension :: string
  gr_value :: string
  gr_blocks :: int
  gr_payload :: int
  gr_slack :: int

definition group_rows :: "block_row list \<Rightarrow> group_row list" where
  "group_rows blocks = concat (map (\<lambda>(dimension, show_value). map (\<lambda>((artifact, v), n, payload, slack).
       \<lparr>gr_artifact = artifact, gr_dimension = dimension, gr_value = v, gr_blocks = n, gr_payload = payload, gr_slack = slack\<rparr>)
     (tally (\<lambda>r. (bk_artifact r, show_value r)) (\<lambda>r. (1, bk_payload r, bk_slack r)) blocks)) DIMENSIONS)"

text \<open>Artifact, tensor, existing, usable and stranded bytes.\<close>

definition stranded_rows :: "block_row list \<Rightarrow> (string \<times> string \<times> int \<times> int \<times> int) list" where
  "stranded_rows blocks = (let usable = map (\<lambda>r. (bk_artifact r, bk_name r, bk_slack r, 0, bk_slack r)) (filter (\<lambda>r. bk_slack r \<noteq> 0) blocks) in
     if usable = [] then [(''none'', ''none'', 0, 0, 0)] else usable)"

section \<open>The slack is the padding of the plan\<close>

lemma block_row_fields [simp]:
  "bk_payload (block_row_of model d p i r e) = rq_payload r" "bk_header (block_row_of model d p i r e) = pl_header_bytes r"
  "bk_extent (block_row_of model d p i r e) = e - pl_block_start r" "bk_offset (block_row_of model d p i r e) = pl_block_start r"
  "bk_slack (block_row_of model d p i r e) = e - pl_block_start r - pl_header_bytes r - rq_payload r"
  by (simp_all add: block_row_of_def Let_def)

lemma detailed_sums:
  assumes "chained step cursor rows" "rows \<noteq> []"
  shows "(\<Sum>b\<leftarrow>detailed_from model d p i rows. bk_slack b) = paddings rows - pl_block_padding (hd rows) \<and>
    (\<Sum>b\<leftarrow>detailed_from model d p i rows. bk_extent b) = final_cursor cursor rows - pl_block_start (hd rows)"
  using assms
proof (induction model d p i rows arbitrary: cursor rule: detailed_from.induct)
  case (3 model d p i r r' rs)
  have ch: "chained step (pl_payload_end r) (r' # rs)" using "3.prems"(1) unfolding chained.simps by blast
  note ih = "3.IH" [OF ch]
  have "pl_block_padding r' = pl_block_start r' - pl_payload_end r" using ch unfolding chained.simps by blast
  moreover have "pl_inner_padding r = pl_payload_end r - rq_payload r - pl_block_start r - pl_header_bytes r"
    using "3.prems"(1) unfolding chained.simps by linarith
  ultimately show ?case using ih by (simp add: paddings_def final_cursor_def)
qed (auto simp: paddings_def final_cursor_def)

lemma no_inner_padding: "(8 :: int) dvd b \<Longrightarrow> 8 dvd p \<Longrightarrow> h = 8 \<or> h = 16 \<Longrightarrow> b + h \<le> p \<Longrightarrow> p < b + h + 8 \<Longrightarrow> p = b + h"
  by presburger

lemma chained_row:
  assumes "chained step cursor (r # rs)"
  shows "pl_block_start r + pl_header_bytes r \<le> pl_payload_start r" "pl_payload_start r < pl_block_start r + pl_header_bytes r + step"
    "pl_payload_end r = pl_payload_start r + rq_payload r" "step = 8 \<Longrightarrow> pl_payload_start r = pl_block_start r + pl_header_bytes r"
    "chained step (pl_payload_end r) rs" "cursor \<le> pl_block_start r" "pl_block_start r < cursor + step"
proof -
  have h: "pl_header_bytes r = (if rq_payload r > 65535 then 16 else 8)" "step dvd pl_block_start r" "step dvd pl_payload_start r"
    and c: "pl_block_start r + pl_header_bytes r \<le> pl_payload_start r" "pl_payload_start r < pl_block_start r + pl_header_bytes r + step"
    using assms unfolding chained.simps by blast+
  show "pl_payload_end r = pl_payload_start r + rq_payload r" "chained step (pl_payload_end r) rs" "cursor \<le> pl_block_start r"
      "pl_block_start r < cursor + step"
    using assms unfolding chained.simps by blast+
  show "step = 8 \<Longrightarrow> pl_payload_start r = pl_block_start r + pl_header_bytes r"
    using no_inner_padding h c by (auto split: if_splits)
qed (use assms in \<open>unfold chained.simps, blast+\<close>)

lemma detailed_bounds:
  assumes "chained step cursor rows"
  shows "\<forall>b \<in> set (detailed_from model d p i rows). 0 \<le> bk_slack b \<and> bk_slack b \<le> 2 * (step - 1) \<and> (step = 8 \<longrightarrow> bk_slack b < 8)"
  using assms
proof (induction model d p i rows arbitrary: cursor rule: detailed_from.induct)
  case (2 model d p i r)
  then show ?case using chained_row [OF "2.prems"] by auto
next
  case (3 model d p i r r' rs)
  note c = chained_row [OF "3.prems"]
  note n = chained_row(6,7) [OF c(5)]
  have "0 \<le> bk_slack (block_row_of model d p i r (pl_block_start r')) \<and>
      bk_slack (block_row_of model d p i r (pl_block_start r')) \<le> 2 * (step - 1) \<and>
      (step = 8 \<longrightarrow> bk_slack (block_row_of model d p i r (pl_block_start r')) < 8)"
    using n c(1-4) by simp linarith
  then show ?case using "3.IH" [OF c(5)] by simp
qed simp

section \<open>The totals\<close>

definition total3 :: "('k \<times> triple) list \<Rightarrow> triple" where
  "total3 d = foldr add3 (map snd d) (0, 0, 0)"

lemma add3_assoc: "add3 (add3 x y) z = add3 x (add3 y z)" and add3_left: "add3 x (add3 y z) = add3 y (add3 x z)"
  by (cases x; cases y; cases z; simp)+

lemma add3_zero [simp]: "add3 (0, 0, 0) x = x" "add3 x (0, 0, 0) = x"
  by (cases x; simp)+

lemma total3_update: "total3 (AList.update k (add3 (get_default d k (0, 0, 0)) v) d) = add3 v (total3 d)"
  by (induction d) (auto simp: total3_def get_default_def add3_assoc add3_left [of v])

lemma total3_tally: "total3 (tally key amount rows) = foldr add3 (map amount rows) (0, 0, 0)"
proof -
  have "total3 (fold (\<lambda>r d. AList.update (key r) (add3 (get_default d (key r) (0, 0, 0)) (amount r)) d) rows d0) =
      add3 (foldr add3 (map amount rows) (0, 0, 0)) (total3 d0)" for d0
    by (induction rows arbitrary: d0) (simp_all add: total3_update add3_assoc add3_left)
  from this [of "[]"] show ?thesis by (simp add: tally_def total3_def)
qed

lemma tally_get: "get_default (tally key amount rows) k (0, 0, 0) = foldr add3 (map amount (filter (\<lambda>r. key r = k) rows)) (0, 0, 0)"
proof -
  have "get_default (fold (\<lambda>r d. AList.update (key r) (add3 (get_default d (key r) (0, 0, 0)) (amount r)) d) rows d0) k (0, 0, 0) =
      add3 (get_default d0 k (0, 0, 0)) (foldr add3 (map amount (filter (\<lambda>r. key r = k) rows)) (0, 0, 0))" for d0
    by (induction rows arbitrary: d0) (simp_all add: add3_assoc)
  from this [of "[]"] show ?thesis by (simp add: tally_def get_default_def)
qed

lemma tally_distinct: "distinct (map fst (tally key amount rows))"
proof -
  have "distinct (map fst d0) \<Longrightarrow> distinct (map fst (fold (\<lambda>r d. AList.update (key r) (add3 (get_default d (key r) (0, 0, 0)) (amount r)) d) rows d0))" for d0
    by (induction rows arbitrary: d0) (simp_all add: distinct_update)
  from this [of "[]"] show ?thesis by (simp add: tally_def)
qed

lemma foldr_add3: "foldr add3 xs (0, 0, 0) = (\<Sum>x\<leftarrow>xs. fst x, \<Sum>x\<leftarrow>xs. fst (snd x), \<Sum>x\<leftarrow>xs. snd (snd x))"
  by (induction xs) auto

lemma tally_mem: "(k, x, y, z) \<in> set (tally key amount rows) \<Longrightarrow>
    (x, y, z) = foldr add3 (map amount (filter (\<lambda>r. key r = k) rows)) (0, 0, 0)"
  using tally_get [of key amount rows k] map_of_is_SomeI [OF tally_distinct [of key amount rows], of k "(x, y, z)"] by simp

lemma role_rows_total:
  "(\<Sum>r\<leftarrow>role_rows blocks. ro_payload r) = (\<Sum>b\<leftarrow>blocks. bk_payload b)" "(\<Sum>r\<leftarrow>role_rows blocks. ro_slack r) = (\<Sum>b\<leftarrow>blocks. bk_slack b)"
proof -
  have "total3 d = (\<Sum>(_, x, _, _)\<leftarrow>d. x, \<Sum>(_, _, y, _)\<leftarrow>d. y, \<Sum>(_, _, _, z)\<leftarrow>d. z)" for d :: "(string \<times> triple) list"
    by (simp add: total3_def foldr_add3 comp_def split_def)
  note t = this [of "tally bk_role (\<lambda>r. (bk_payload r, bk_slack r, 0)) blocks", unfolded total3_tally foldr_add3]
  show "(\<Sum>r\<leftarrow>role_rows blocks. ro_payload r) = (\<Sum>b\<leftarrow>blocks. bk_payload b)" "(\<Sum>r\<leftarrow>role_rows blocks. ro_slack r) = (\<Sum>b\<leftarrow>blocks. bk_slack b)"
    using t by (simp_all add: role_rows_def comp_def split_def)
qed

lemma found_rows:
  assumes "map_res (\<lambda>r. case f r of None \<Rightarrow> Inl e | Some t \<Rightarrow> Inr (r, g t)) rs = Inr found"
  shows "map fst found = rs"
  using assms by (induction rs arbitrary: found) (auto simp: bind_res_Inr_iff split: option.splits)

lemma layer_rows_slack:
  assumes "layer_rows a blocks = Inr layers" "l \<in> set layers" "\<forall>b \<in> set blocks. bk_slack b = bk_extent b - bk_payload b - bk_header b"
  shows "ly_theoretical l = (\<Sum>b\<leftarrow>filter (\<lambda>b. bk_group b = ''tensor'' \<and> bk_layer b = ly_layer l) blocks. bk_slack b) \<and> ly_usable l = 0 \<and>
    ly_stranded l = ly_theoretical l"
proof -
  define tensors where "tensors = filter (\<lambda>r. bk_group r = ''tensor'') blocks"
  obtain found where f: "map_res (\<lambda>r. case find (\<lambda>t. tn_name t = bk_name r) (ar_tensors a) of None \<Rightarrow> Inl StopIteration
      | Some t \<Rightarrow> Inr (r, case tn_elements t of Some n \<Rightarrow> n | None \<Rightarrow> 0)) tensors = Inr found"
    using assms(1) by (auto simp: layer_rows_def tensors_def bind_res_Inr_iff Let_def)
  then have map_found: "map fst found = tensors" by (rule found_rows)
  obtain k x y z where m: "(k, x, y, z) \<in> set (tally (\<lambda>(r, _). bk_layer r) (\<lambda>(r, n). (bk_payload r, bk_extent r, n)) found)"
    and l: "l = \<lparr>ly_layer = k, ly_payload = x, ly_extent = y, ly_header = (\<Sum>r\<leftarrow>filter (\<lambda>r. bk_layer r = k) tensors. bk_header r),
      ly_theoretical = y - x - (\<Sum>r\<leftarrow>filter (\<lambda>r. bk_layer r = k) tensors. bk_header r), ly_usable = 0,
      ly_stranded = y - x - (\<Sum>r\<leftarrow>filter (\<lambda>r. bk_layer r = k) tensors. bk_header r)\<rparr>"
    using assms(1,2) f by (auto simp: layer_rows_def tensors_def [symmetric] Let_def)
  have same: "map fst (filter (\<lambda>(r, _). bk_layer r = k) found) = filter (\<lambda>r. bk_layer r = k) tensors"
    unfolding map_found [symmetric] by (simp add: filter_map comp_def split_def)
  have "x = (\<Sum>r\<leftarrow>filter (\<lambda>r. bk_layer r = k) tensors. bk_payload r) \<and> y = (\<Sum>r\<leftarrow>filter (\<lambda>r. bk_layer r = k) tensors. bk_extent r)"
    using tally_mem [OF m] unfolding same [symmetric] by (simp add: foldr_add3 comp_def split_def)
  moreover have "(\<Sum>b\<leftarrow>filter (\<lambda>r. bk_layer r = k) tensors. bk_slack b) = (\<Sum>b\<leftarrow>filter (\<lambda>r. bk_layer r = k) tensors. bk_extent b - bk_payload b - bk_header b)"
    using assms(3) by (intro arg_cong [where f = sum_list] map_cong) (auto simp: tensors_def)
  moreover have "filter (\<lambda>b. bk_group b = ''tensor'' \<and> bk_layer b = k) blocks = filter (\<lambda>r. bk_layer r = k) tensors"
    by (simp add: tensors_def conj_commute)
  ultimately show ?thesis unfolding l by (simp add: sum_list_subtractf)
qed

lemma detailed_slack: "b \<in> set (detailed_from model d p i rows) \<Longrightarrow> bk_slack b = bk_extent b - bk_payload b - bk_header b"
  by (induction model d p i rows rule: detailed_from.induct) auto

lemma detailed_payload: "(\<Sum>b\<leftarrow>detailed_from model d p i rows. bk_payload b) = (\<Sum>r\<leftarrow>rows. rq_payload r)"
  by (induction model d p i rows rule: detailed_from.induct) auto

lemma small_buckets: "0 \<le> n \<Longrightarrow> n < 8 \<Longrightarrow> bucket n \<in> {''0'', ''1-3'', ''4-7''}"
  by (simp add: bucket_def)

lemma count_keys:
  assumes "distinct ks" "\<forall>x \<in> set xs. f x \<in> set ks"
  shows "(\<Sum>k\<leftarrow>ks. int (length (filter (\<lambda>x. f x = k) xs))) = int (length xs)"
  using assms(2)
proof (induction xs)
  case (Cons x xs)
  have "(\<Sum>k\<leftarrow>ks. int (length (filter (\<lambda>y. f y = k) (x # xs)))) =
      (\<Sum>k\<leftarrow>ks. of_bool (f x = k) + int (length (filter (\<lambda>y. f y = k) xs)))"
    by (intro arg_cong [where f = sum_list] map_cong) auto
  also have "\<dots> = (\<Sum>k\<leftarrow>ks. of_bool (f x = k)) + int (length xs)" using Cons by (simp add: sum_list_addf)
  also have "(\<Sum>k\<leftarrow>ks. of_bool (f x = k) :: int) = 1"
    using assms(1) Cons.prems by (simp add: sum_list_distinct_conv_sum_set of_bool_def)
  finally show ?case by simp
qed simp

lemma bucket_counts: "(\<Sum>k\<leftarrow>BUCKETS. int (length (filter (\<lambda>x. bucket x = k) sl))) = int (length sl)"
  by (rule count_keys) (simp_all add: BUCKETS_def bucket_def)

text \<open>What the rows of shift 3 hold for any plan.\<close>

lemma detailed_plan:
  assumes "plan_candidate es 3 = Inr p"
  shows "(\<Sum>b\<leftarrow>detailed model a p. bk_slack b) = cd_padding_bytes p" "(\<Sum>b\<leftarrow>detailed model a p. bk_payload b) = cd_payload_bytes p"
    "\<forall>b \<in> set (detailed model a p). 0 \<le> bk_slack b \<and> bk_slack b < 8"
proof -
  note r = plan_candidate_result [OF assms] and ch = plan_candidate_chained [OF assms]
  have s: "cd_base_step p = 8" "cd_data_start p = 24" using r by (simp_all add: align26_def)
  have "es \<noteq> []" using plan_candidate_total [of es 3] assms by auto
  then have ne: "cd_entries p \<noteq> []" using ch(2) by auto
  have ch8: "chained 8 24 (cd_entries p)" using ch(1) s by simp
  obtain x xs where x: "cd_entries p = x # xs" using ne by (meson list.exhaust)
  have first: "pl_block_padding (hd (cd_entries p)) = 0"
  proof -
    have "(8 :: int) dvd pl_block_start x" "24 \<le> pl_block_start x" "pl_block_start x < 32" "pl_block_padding x = pl_block_start x - 24"
      using ch8 unfolding x chained.simps by auto
    then show ?thesis unfolding x list.sel by presburger
  qed
  have pad: "cd_padding_bytes p = paddings (cd_entries p)"
    using r chained_size [OF ch8] s by simp
  show "(\<Sum>b\<leftarrow>detailed model a p. bk_slack b) = cd_padding_bytes p"
    using detailed_sums [OF ch8 ne] first pad by (simp add: detailed_def)
  show "(\<Sum>b\<leftarrow>detailed model a p. bk_payload b) = cd_payload_bytes p" using r by (simp add: detailed_def detailed_payload)
  show "\<forall>b \<in> set (detailed model a p). 0 \<le> bk_slack b \<and> bk_slack b < 8"
    using detailed_bounds [OF ch8] by (simp add: detailed_def)
qed

text \<open>The audit returns whenever there is a plan, the size matches, there are weights and the artifact has every tensor of the plan.\<close>

lemma median_total: "xs \<noteq> [] \<Longrightarrow> median xs = Inr (if length xs mod 2 = 1 then of_int (sort xs ! (length xs div 2))
    else (of_int (sort xs ! (length xs div 2 - 1)) + of_int (sort xs ! (length xs div 2))) / 2)"
proof -
  assume "xs \<noteq> []"
  then have "sort xs \<noteq> []" by (metis set_empty set_sort)
  then show ?thesis by (simp add: median_def Let_def)
qed

lemma layer_rows_total:
  assumes "\<forall>b \<in> set blocks. bk_group b = ''tensor'' \<longrightarrow> bk_name b \<in> tn_name ` set (ar_tensors a)"
  shows "\<exists>layers. layer_rows a blocks = Inr layers"
proof -
  have "\<forall>b \<in> set (filter (\<lambda>r. bk_group r = ''tensor'') blocks). \<exists>t. find (\<lambda>t. tn_name t = bk_name b) (ar_tensors a) = Some t"
    using assms by (fastforce simp: find_None_iff simp flip: not_None_eq)
  then have "map_res (\<lambda>r. case find (\<lambda>t. tn_name t = bk_name r) (ar_tensors a) of None \<Rightarrow> Inl StopIteration
      | Some t \<Rightarrow> Inr (r, case tn_elements t of Some n \<Rightarrow> n | None \<Rightarrow> 0)) (filter (\<lambda>r. bk_group r = ''tensor'') blocks) =
    Inr (map (\<lambda>r. (r, case tn_elements (the (find (\<lambda>t. tn_name t = bk_name r) (ar_tensors a))) of Some n \<Rightarrow> n | None \<Rightarrow> 0))
      (filter (\<lambda>r. bk_group r = ''tensor'') blocks))"
    by (intro map_res_Inr) force
  then show ?thesis by (simp add: layer_rows_def Let_def)
qed

lemma detailed_names: "b \<in> set (detailed_from model d p i rows) \<Longrightarrow> \<exists>r \<in> set rows. bk_name b = rq_name r \<and> bk_group b = rq_group r"
  by (induction model d p i rows rule: detailed_from.induct) (auto simp: block_row_of_def Let_def)

lemma detailed_from_Nil: "detailed_from model d p i rows = [] \<longleftrightarrow> rows = []"
  by (cases "(model, d, p, i, rows)" rule: detailed_from.cases) auto

lemma audit_returns:
  assumes "plan_candidate es 3 = Inr p" "list_ex (\<lambda>e. rq_group e = ''tensor'' \<and> rq_layer e \<noteq> None) es"
    "\<forall>e \<in> set es. rq_group e = ''tensor'' \<longrightarrow> rq_name e \<in> tn_name ` set (ar_tensors a)"
    "cd_final_size p \<noteq> 0" "(\<Sum>t\<leftarrow>ar_tensors a. case tn_elements t of Some n \<Rightarrow> n | None \<Rightarrow> 0) \<noteq> 0"
  shows "\<exists>r. audit_model (plan_candidate es) model a (cd_final_size p) = Inr r"
proof -
  note ch = plan_candidate_chained [OF assms(1)]
  have "\<forall>r \<in> set (cd_entries p). rq_group r = ''tensor'' \<longrightarrow> rq_name r \<in> tn_name ` set (ar_tensors a)"
    using assms(3) unfolding ch(2) [symmetric] by (auto simp: request.defs)
  then have "\<forall>b \<in> set (detailed model a p). bk_group b = ''tensor'' \<longrightarrow> bk_name b \<in> tn_name ` set (ar_tensors a)"
    using detailed_names [of _ model _ p 0 "cd_entries p"] unfolding detailed_def by fastforce
  then obtain layers where layers: "layer_rows a (detailed model a p) = Inr layers" using layer_rows_total by blast
  have "cd_entries p \<noteq> []" using ch(2) assms(2) by auto
  then have "map bk_slack (detailed model a p) \<noteq> []" by (simp add: detailed_def detailed_from_Nil)
  then obtain m where m: "median (map bk_slack (detailed model a p)) = Inr m" using median_total by blast
  obtain summary where summary: "summary_row model a p (detailed model a p) = Inr summary"
    using m assms(4,5) by (simp add: summary_row_def Let_def)
  have "\<exists>q. plan_candidate es bs = Inr q" for bs using plan_candidate_total assms(2) by blast
  then obtain q where q: "plan_candidate es bs = Inr (q bs)" for bs by metis
  have base: "map_res (\<lambda>bs. bind_res (plan_candidate es bs) (\<lambda>q. bind_res (require (cd_final_size p \<noteq> 0) ZeroDivisionError)
      (\<lambda>_. Inr (base_row_of p bs q)))) [3..<9] = Inr (map (\<lambda>bs. base_row_of p bs (q bs)) [3..<9])"
    using assms(4) by (intro map_res_Inr) (simp add: q)
  show ?thesis using assms(1) summary base layers by (simp add: audit_model_def Let_def del: upt_rec_numeral)
qed

text \<open>
  C23. The slack audit agrees with the planner.  For every artifact it accepts: the slack of the blocks adds up to the
  padding the planner reports for base shift 3, for which the comparison shows no cost; every block has between
  0 and 7 bytes, so of the eight buckets only the first three can be filled, and the buckets count every
  block; the roles add up to the totals; the slack of a layer is that of its tensor blocks, all stranded.
\<close>

theorem slack_audit_consistent:
  assumes "main_audit render jrender path filename model a vbuf_size = Inr r"
  shows "su_slack (sa_summary r) = (\<Sum>b\<leftarrow>sa_blocks r. bk_slack b) \<and> su_physical (sa_summary r) = vbuf_size \<and>
    (\<forall>b \<in> set (sa_blocks r). 0 \<le> bk_slack b \<and> bk_slack b < 8) \<and>
    (\<forall>(k, n) \<in> set (su_buckets (sa_summary r)). k \<notin> {''0'', ''1-3'', ''4-7''} \<longrightarrow> n = 0) \<and>
    (\<Sum>(k, n)\<leftarrow>su_buckets (sa_summary r). n) = int (length (sa_blocks r)) \<and>
    bs_alignment_slack (hd (sa_base r)) = su_slack (sa_summary r) \<and> bs_net_cost (hd (sa_base r)) = 0 \<and>
    (\<Sum>x\<leftarrow>sa_roles r. ro_slack x) = su_slack (sa_summary r) \<and> (\<Sum>x\<leftarrow>sa_roles r. ro_payload x) = su_payload (sa_summary r) \<and>
    (\<forall>l \<in> set (sa_layers r). ly_usable l = 0 \<and> ly_stranded l =
      (\<Sum>b\<leftarrow>filter (\<lambda>b. bk_group b = ''tensor'' \<and> bk_layer b = ly_layer l) (sa_blocks r). bk_slack b))"
proof -
  define blocks where "blocks = detailed model a"
  obtain p es summary base layers where p: "planner30 render jrender path filename a 3 = Inr p" "plan_candidate es 3 = Inr p" "cd_final_size p = vbuf_size"
    and su: "summary_row model a p (blocks p) = Inr summary"
    and base: "map_res (\<lambda>bs. bind_res (planner30 render jrender path filename a bs) (\<lambda>q. bind_res (require (cd_final_size p \<noteq> 0) ZeroDivisionError)
        (\<lambda>_. Inr (base_row_of p bs q)))) [3..<9] = Inr base"
    and layers: "layer_rows a (blocks p) = Inr layers"
    and r: "r = \<lparr>sa_summary = summary, sa_blocks = blocks p, sa_base = base, sa_layers = layers, sa_roles = role_rows (blocks p)\<rparr>"
    using assms by (auto simp: main_audit_def audit_model_def planner30_def bind_res_Inr_iff Let_def blocks_def)
  note d = detailed_plan [OF p(2), of model a, folded blocks_def]
  have su': "su_slack summary = (\<Sum>b\<leftarrow>blocks p. bk_slack b)" "su_physical summary = cd_final_size p" "su_payload summary = cd_payload_bytes p"
    "su_buckets summary = map (\<lambda>k. (k, int (length (filter (\<lambda>x. bucket x = k) (map bk_slack (blocks p)))))) BUCKETS"
    using su by (auto simp: summary_row_def Let_def bind_res_Inr_iff)
  have "hd base = base_row_of p 3 p"
    using base p(1) by (auto simp: bind_res_Inr_iff upt_conv_Cons)
  then have b: "bs_alignment_slack (hd base) = cd_padding_bytes p" "bs_net_cost (hd base) = 0" by (simp_all add: base_row_of_def)
  have bs: "bucket (bk_slack x) = ''0'' \<or> bucket (bk_slack x) = ''1-3'' \<or> bucket (bk_slack x) = ''4-7''" if "x \<in> set (blocks p)" for x
    using d(3) that small_buckets by blast
  then have none: "n = 0" if "(k, n) \<in> set (su_buckets summary)" "k \<notin> {''0'', ''1-3'', ''4-7''}" for k n
    using that unfolding su'(4) by (auto simp: filter_empty_conv) (blast dest: bs)
  have "\<forall>x \<in> set (blocks p). bk_slack x = bk_extent x - bk_payload x - bk_header x"
    using detailed_slack by (auto simp: blocks_def detailed_def)
  note ly = layer_rows_slack [OF layers _ this]
  have total: "(\<Sum>(k, n)\<leftarrow>su_buckets summary. n) = int (length (blocks p))"
    unfolding su'(4) using bucket_counts [of "map bk_slack (blocks p)"] by (simp add: comp_def split_def)
  show ?thesis using su'(1-3) d b none total ly p(3) by (auto simp: r role_rows_total)
qed

definition audited_tensor :: "string \<Rightarrow> int \<Rightarrow> tensor" where
  "audited_tensor name layer = \<lparr>tn_ordinal = 0, tn_name = name, tn_shape = [3], tn_type_id = 0, tn_type_name = ''F32'', tn_elements = Some 3,
     tn_payload_size = Some 12, tn_relative_offset = 0, tn_absolute_start = 0, tn_absolute_end = Some 12, tn_layer = Some layer,
     tn_role = ''AttentionQ'', tn_group = ''Attention'', tn_role_detail = name, tn_gap_before = Some 0\<rparr>"

definition audited_artifact :: artifact where
  "audited_artifact = \<lparr>ar_sha256 = ''00'', ar_size = 0, ar_version = 3, ar_tensor_count = 0, ar_metadata_count = 2,
     ar_metadata = [(''tokenizer.ggml.tokens'', MArr [MStr ''a'', MStr ''bc'', MStr '' '']), (''tokenizer.ggml.token_type'', MArr []),
       (''tokenizer.ggml.merges'', MArr [MStr ''a bc'']), (''tokenizer.chat_template'', MStr ''x''), (''general.architecture'', MStr ''qwen3'')],
     ar_alignment = 32, ar_data_start = 0, ar_tensors = [audited_tensor ''blk.0.attn_q.weight'' 0, audited_tensor ''blk.1.attn_q.weight'' 1],
     ar_tensor_info_end = 0\<rparr>"


definition audited_requests :: "request list" where
  "audited_requests = [control ''Bootstrap'' 0 0 64, control ''ModelMetadataControl'' 1 1 104, control ''Metadata.Architecture'' 1 101 5] @
     map (\<lambda>(name, order). control (''Metadata.'' @ name) 1 (100 + order) 8) (tl METADATA_IDS) @
     [control ''TensorDirectory'' 2 2 94, control ''TokenizerControl'' 3 3 164] @
     map tokenizer_request [(''TokenTextBytes'', 200, 4), (''TokenOffsets'', 201, 32), (''TokenTypes'', 202, 0), (''MergeLeftIds'', 203, 4),
       (''MergeRightIds'', 204, 4), (''TokenizerModelIdentity'', 205, 1), (''PreTokenizerIdentity'', 206, 1), (''AddBos'', 207, 1),
       (''ChatTemplate'', 208, 1), (''Special.BosId'', 225, 8), (''Special.EosId'', 226, 8), (''Special.PadId'', 228, 8)] @
     [\<lparr>rq_name = ''blk.0.attn_q.weight'', rq_class = 5, rq_order = 1000000, rq_payload = 12, rq_group = ''tensor'', rq_layer = Some 0\<rparr>,
      \<lparr>rq_name = ''blk.1.attn_q.weight'', rq_class = 5, rq_order = 1000001, rq_payload = 12, rq_group = ''tensor'', rq_layer = Some 1\<rparr>]"

lemma audited_entries: "bind_res (build_manifest26 (\<lambda>_. []) ''p'' ''f'' audited_artifact) (requests26 (\<lambda>_. []) (\<lambda>_. []) audited_artifact) = Inr audited_requests"
  by code_simp

lemma audited_plan: "planner30 (\<lambda>_. []) (\<lambda>_. []) ''p'' ''f'' audited_artifact = plan_candidate audited_requests"
  using audited_entries by (auto simp: planner30_def fun_eq_iff bind_res_Inr_iff)

lemma audited_candidate: "(case plan_candidate audited_requests 3 of Inl _ \<Rightarrow> False | Inr p \<Rightarrow> cd_final_size p = 916 \<and> cd_padding_bytes p = 53)"
  by code_simp

theorem slack_audit_consistent_witness:
  "\<exists>r. main_audit (\<lambda>_. []) (\<lambda>_. []) ''p'' ''f'' ''0.6B'' audited_artifact 916 = Inr r \<and> su_slack (sa_summary r) = 53 \<and>
     (\<Sum>x\<leftarrow>sa_roles r. ro_slack x) = 53 \<and> bs_net_cost (hd (sa_base r)) = 0"
proof -
  obtain p where p: "plan_candidate audited_requests 3 = Inr p" "cd_final_size p = 916" "cd_padding_bytes p = 53"
    using audited_candidate by (auto split: sum.splits)
  have t: "list_ex (\<lambda>e. rq_group e = ''tensor'' \<and> rq_layer e \<noteq> None) audited_requests" by (simp add: audited_requests_def)
  have names: "\<forall>e \<in> set audited_requests. rq_group e = ''tensor'' \<longrightarrow> rq_name e \<in> tn_name ` set (ar_tensors audited_artifact)"
    by (simp add: audited_requests_def control_def tokenizer_request_def METADATA_IDS_def audited_artifact_def audited_tensor_def)
  obtain r where r: "audit_model (plan_candidate audited_requests) ''0.6B'' audited_artifact 916 = Inr r"
    using audit_returns [OF p(1) t names, of "''0.6B''"] p(2) by (auto simp: audited_artifact_def audited_tensor_def)
  then have m: "main_audit (\<lambda>_. []) (\<lambda>_. []) ''p'' ''f'' ''0.6B'' audited_artifact 916 = Inr r" by (simp add: main_audit_def audited_plan)
  moreover have "sa_blocks r = detailed ''0.6B'' audited_artifact p"
    using r p(1) by (auto simp: audit_model_def bind_res_Inr_iff Let_def)
  ultimately show ?thesis using slack_audit_consistent [OF m] detailed_plan(1) [OF p(1)] p(3) by simp
qed

end
