(* ===== verification/Weight_Prep.thy ===== *)
theory Weight_Prep
  imports Procedural
begin

text \<open>
  The equivalent coordinate systems of \<open>scripts/qualify_weight_space_preparation.py\<close>: the block Hadamard
  transform, the transforms of weights and activations, the channel permutations, the metadata account, the split of
  the activations and the decision of \<open>main\<close> over its result rows.

  A matrix is the list of its rows.  The scripts compute in float32; here the numbers are those of any
  field, so that the equations are exact, and \<open>1 / sqrt(block)\<close> is the parameter \<open>inv_sqrt\<close>.  Statistics of
  columns, centroids, random draws and the codec objective are arguments.  The codecs and error metrics are left out.
\<close>

section \<open>The block Hadamard transform\<close>

text \<open>One pass of the inner loop over a block: sums and differences of neighbouring slices of \<open>width\<close>.\<close>

definition butterfly_pass :: "nat \<Rightarrow> 'a :: field list \<Rightarrow> 'a list" where
  "butterfly_pass width source = concat (map (\<lambda>k. let first = k * (2 * width); left = take width (drop first source);
       right = take width (drop (first + width) source) in map2 (+) left right @ map2 (-) left right) [0..<length source div (2 * width)])"

text \<open>
  The loop over the widths.  When a slice on the right runs past the block, the shapes do not fit and numpy
  raises; that happens exactly when the block is not a multiple of two slices.
\<close>

function hadamard_passes :: "nat \<Rightarrow> nat \<Rightarrow> 'a :: field list \<Rightarrow> 'a list res" where
  "hadamard_passes block width output =
     (if 0 < width \<and> width < block then
        if 2 * width dvd block then hadamard_passes block (2 * width) (butterfly_pass width output)
        else Inl (ValueError ''operands could not be broadcast'')
      else Inr output)"
  by pat_completeness auto
termination by (relation "measure (\<lambda>(block, width, _). block - width)") auto

declare hadamard_passes.simps [simp del]

definition pieces_of :: "nat \<Rightarrow> nat \<Rightarrow> 'a list \<Rightarrow> 'a list list" where
  "pieces_of block q values = map (\<lambda>k. take block (drop (k * block) values)) [0..<q]"

definition hadamard :: "(nat \<Rightarrow> 'a :: field) \<Rightarrow> 'a list \<Rightarrow> nat \<Rightarrow> 'a list res" where
  "hadamard inv_sqrt values block =
     (if block = 0 then Inl ZeroDivisionError
      else if length values mod block \<noteq> 0 then Inl (ValueError ''Hadamard block does not divide input'')
      else bind_res (map_res (hadamard_passes block 1) (pieces_of block (length values div block) values)) (\<lambda>output.
        Inr (map ((*) (inv_sqrt block)) (concat output))))"

section \<open>Transforms\<close>

record 'a transform =
  tf_name :: string
  tf_family :: string
  tf_permutation :: "nat list option"
  tf_signs :: "'a list option"
  tf_scales :: "'a list option"
  tf_hadamard_block :: nat
  tf_metadata_bytes :: int
  tf_fixed_decoder_bytes :: int
  tf_optimizer :: string
  tf_runtime_placement :: string

text \<open>\<open>result[:, permutation]\<close> and \<open>result * v[None, :]\<close> on one row; an axis of length 1 is broadcast.\<close>

definition gather :: "nat list \<Rightarrow> 'a list \<Rightarrow> 'a list res" where
  "gather permutation row = map_res (\<lambda>i. if i < length row then Inr (row ! i) else Inl IndexError) permutation"

definition combine :: "('a \<Rightarrow> 'a \<Rightarrow> 'a) \<Rightarrow> 'a list \<Rightarrow> 'a list \<Rightarrow> 'a list res" where
  "combine f row v =
     (if length v = length row then Inr (map2 f row v)
      else if length v = 1 then Inr (map (\<lambda>x. f x (hd v)) row)
      else if length row = 1 then Inr (map (f (hd row)) v)
      else Inl (ValueError ''operands could not be broadcast''))"

definition optionally :: "('b \<Rightarrow> 'a \<Rightarrow> 'a res) \<Rightarrow> 'b option \<Rightarrow> 'a \<Rightarrow> 'a res" where
  "optionally f o' x = (case o' of None \<Rightarrow> Inr x | Some v \<Rightarrow> f v x)"

definition transform_row :: "('a \<Rightarrow> 'a \<Rightarrow> 'a) \<Rightarrow> (nat \<Rightarrow> 'a :: field) \<Rightarrow> 'a transform \<Rightarrow> 'a list \<Rightarrow> 'a list res" where
  "transform_row rescale inv_sqrt t row =
     bind_res (optionally gather (tf_permutation t) row) (\<lambda>result.
     bind_res (optionally (\<lambda>v r. combine (*) r v) (tf_signs t) result) (\<lambda>result.
     bind_res (optionally (\<lambda>v r. combine rescale r v) (tf_scales t) result) (\<lambda>result.
     if tf_hadamard_block t \<noteq> 0 then hadamard inv_sqrt result (tf_hadamard_block t) else Inr result)))"

definition weights :: "(nat \<Rightarrow> 'a :: field) \<Rightarrow> 'a transform \<Rightarrow> 'a list list \<Rightarrow> 'a list list res" where
  "weights inv_sqrt t ws = map_res (transform_row (/) inv_sqrt t) ws"

definition activations :: "(nat \<Rightarrow> 'a :: field) \<Rightarrow> 'a transform \<Rightarrow> 'a list list \<Rightarrow> 'a list list res" where
  "activations inv_sqrt t xs = map_res (transform_row (*) inv_sqrt t) xs"

text \<open>
  The list of \<open>main\<close>: \<open>signed\<close> are the signs of the column means, the scales those of the columns.  The texts
  that describe the optimizers are left out.
\<close>

definition signs_of :: "'a :: linordered_field list \<Rightarrow> 'a list" where
  "signs_of means = map (\<lambda>m. if 0 \<le> m then 1 else -1) means"

definition plain_transform :: "string \<Rightarrow> string \<Rightarrow> string \<Rightarrow> 'a transform" where
  "plain_transform name family placement = \<lparr>tf_name = name, tf_family = family, tf_permutation = None, tf_signs = None, tf_scales = None,
     tf_hadamard_block = 0, tf_metadata_bytes = 0, tf_fixed_decoder_bytes = 0, tf_optimizer = ''fixed'', tf_runtime_placement = placement\<rparr>"

definition main_transforms :: "nat list \<Rightarrow> nat list \<Rightarrow> nat list \<Rightarrow> nat list \<Rightarrow> 'a :: linordered_field list \<Rightarrow> 'a list \<Rightarrow> 'a list \<Rightarrow> 'a transform list" where
  "main_transforms statistic shape codec_perm random_perm column_means power_scales fp16_scales =
     (let folded = ''FOLDABLE_INTO_MODEL_CONVERSION''; adjacent = ''FOLDABLE_INTO_ADJACENT_WEIGHTS'';
          costly = ''EXPENSIVE_RUNTIME_ACTIVATION_TRANSFORM'' in
     [plain_transform ''identity'' ''identity'' ''LAYOUT_ONLY'',
      (plain_transform ''statistic_sort'' ''permutation'' folded)\<lparr>tf_permutation := Some statistic, tf_metadata_bytes := 8320\<rparr>,
      (plain_transform ''shape_cluster'' ''permutation'' folded)\<lparr>tf_permutation := Some shape, tf_metadata_bytes := 8320\<rparr>,
      (plain_transform ''codec_aware_order'' ''permutation'' folded)\<lparr>tf_permutation := Some codec_perm, tf_metadata_bytes := 8320\<rparr>,
      (plain_transform ''random_permutation_control'' ''permutation_control'' folded)\<lparr>tf_permutation := Some random_perm, tf_metadata_bytes := 8320\<rparr>,
      (plain_transform ''signed_shape_cluster'' ''signed_permutation'' folded)
        \<lparr>tf_permutation := Some shape, tf_signs := Some (signs_of column_means), tf_metadata_bytes := 8960\<rparr>,
      (plain_transform ''power2_column_equalization'' ''diagonal_scaling'' adjacent)\<lparr>tf_scales := Some power_scales, tf_metadata_bytes := 2560\<rparr>,
      (plain_transform ''fp16_column_equalization'' ''diagonal_scaling'' adjacent)\<lparr>tf_scales := Some fp16_scales, tf_metadata_bytes := 10240\<rparr>,
      (plain_transform ''hadamard8'' ''fixed_orthogonal'' costly)\<lparr>tf_hadamard_block := 8\<rparr>,
      (plain_transform ''hadamard16'' ''fixed_orthogonal'' costly)\<lparr>tf_hadamard_block := 16\<rparr>,
      (plain_transform ''hadamard32'' ''fixed_orthogonal'' costly)\<lparr>tf_hadamard_block := 32\<rparr>])"

section \<open>Channel orders\<close>

text \<open>\<open>np.lexsort\<close> sorts by its last key and keeps the order of the others.\<close>

definition statistic_permutation :: "(nat \<Rightarrow> 'k :: linorder) \<Rightarrow> (nat \<Rightarrow> 'k) \<Rightarrow> nat \<Rightarrow> nat list" where
  "statistic_permutation rms means columns = sort_key rms (sort_key means (sort_key (\<lambda>i. i) [0..<columns]))"

text \<open>The order of the channels from the labels of the clustering.\<close>

definition shape_order :: "nat list \<Rightarrow> nat list \<Rightarrow> (nat \<Rightarrow> nat \<Rightarrow> 'k :: linorder) \<Rightarrow> nat \<Rightarrow> nat list res" where
  "shape_order labels cluster_order projection columns =
     (let order = concat (map (\<lambda>cluster. let members = filter (\<lambda>i. labels ! i = cluster) [0..<length labels] in
        if members \<noteq> [] then sort_key (projection cluster) (sort_key (\<lambda>i. i) members) else []) cluster_order) in
      bind_res (require (length order = columns) (RuntimeError ''shape clustering lost channels'')) (\<lambda>_. Inr order))"

definition swap :: "nat list \<Rightarrow> nat \<times> nat \<Rightarrow> nat list" where
  "swap current lr = (case lr of (left, right) \<Rightarrow> current[left := current ! right, right := current ! left])"

text \<open>The local search over swaps; \<open>draws\<close> are the pairs the generator chooses.\<close>

definition codec_aware_permutation :: "(nat list \<Rightarrow> 'k :: linorder) \<Rightarrow> (nat \<times> nat) list \<Rightarrow> nat list \<Rightarrow> nat list \<times> 'k \<times> nat" where
  "codec_aware_permutation codec_rmse draws initial =
     fold (\<lambda>lr (current, objective, accepted).
       let candidate = swap current lr; value' = codec_rmse candidate in
       if value' < objective then (candidate, value', accepted + 1) else (current, objective, accepted))
     draws (initial, codec_rmse initial, 0)"

section \<open>Account and split\<close>

record metadata_row =
  md_fixed :: int
  md_per_tensor :: int
  md_alignment :: int
  md_total :: int
  md_bpw :: rat

definition transform_metadata :: "'a transform \<Rightarrow> int \<Rightarrow> metadata_row" where
  "transform_metadata t elements =
     (let aligned = (if tf_metadata_bytes t \<noteq> 0 then (tf_metadata_bytes t + 63) div 64 * 64 else 0) in
      \<lparr>md_fixed = tf_fixed_decoder_bytes t, md_per_tensor = tf_metadata_bytes t, md_alignment = aligned - tf_metadata_bytes t,
       md_total = aligned, md_bpw = of_int (aligned * 8) / of_int elements\<rparr>)"

text \<open>\<open>qualified[::2]\<close> and \<open>qualified[1::2]\<close>.\<close>

fun evens :: "'a list \<Rightarrow> 'a list" where
  "evens [] = []"
| "evens [x] = [x]"
| "evens (x # y # xs) = x # evens xs"

definition prepared_split :: "nat \<Rightarrow> (nat list \<times> nat list \<times> nat list) res" where
  "prepared_split total_count = (case vector_split total_count of (qualified_validation, functional_test) \<Rightarrow>
     let fit = evens qualified_validation; validation = evens (drop 1 qualified_validation) in
     bind_res (require (\<not> (set fit \<inter> set validation \<noteq> {} \<or> set qualified_validation \<inter> set functional_test \<noteq> {} \<or>
         length fit + length validation \<noteq> length qualified_validation)) (RuntimeError ''activation split isolation failed'')) (\<lambda>_.
     Inr (fit, validation, functional_test)))"

section \<open>Hadamard: the passes compute Sylvester's matrix\<close>

text \<open>The reference: the transform of twice the size is the sum and the difference of the transforms of the halves.\<close>

fun sylvester :: "nat \<Rightarrow> 'a :: field list \<Rightarrow> 'a list" where
  "sylvester 0 xs = xs"
| "sylvester (Suc n) xs = (let a = sylvester n (take (2 ^ n) xs); b = sylvester n (drop (2 ^ n) xs) in map2 (+) a b @ map2 (-) a b)"

definition dot :: "'a :: field list \<Rightarrow> 'a list \<Rightarrow> 'a" where
  "dot xs ys = sum_list (map2 (*) xs ys)"

lemma pass_two: "0 < w \<Longrightarrow> length l = w \<Longrightarrow> length r = w \<Longrightarrow> butterfly_pass w (l @ r) = map2 (+) l r @ map2 (-) l r"
  by (simp add: butterfly_pass_def flip: mult_2)

lemma pass_Cons:
  assumes "0 < w" "length h = 2 * w"
  shows "butterfly_pass w (h @ rest) = butterfly_pass w h @ butterfly_pass w rest"
proof -
  define bf :: "'a list \<Rightarrow> nat \<Rightarrow> 'a list" where
    "bf = (\<lambda>s k. let first = k * (2 * w); left = take w (drop first s); right = take w (drop (first + w) s) in
       map2 (+) left right @ map2 (-) left right)"
  have expand: "butterfly_pass w s = concat (map (bf s) [0..<length s div (2 * w)])" for s
    by (simp add: butterfly_pass_def bf_def)
  have n: "(length h + length rest) div (2 * w) = Suc (length rest div (2 * w))" "length h div (2 * w) = 1"
    using assms by simp_all
  have d: "drop (Suc k * (2 * w)) (h @ rest) = drop (k * (2 * w)) rest"
    "drop (Suc k * (2 * w) + w) (h @ rest) = drop (k * (2 * w) + w) rest" for k
    using assms(2) by (simp_all add: add.commute)
  have "bf (h @ rest) (Suc k) = bf rest k" for k
    by (simp only: bf_def Let_def d)
  moreover have "bf (h @ rest) 0 = bf h 0" using assms(2) by (simp add: bf_def)
  ultimately show ?thesis
    unfolding expand length_append n by (simp add: map_upt_Suc del: upt_Suc)
qed

lemma block_cases:
  assumes "2 * w dvd length xs" "0 < w" "xs \<noteq> []"
  obtains h rest where "xs = h @ rest" "length h = 2 * w" "2 * w dvd length rest" "length rest < length xs"
proof (rule that)
  have "2 * w \<le> length xs" using assms by (auto intro: dvd_imp_le)
  then show "length (take (2 * w) xs) = 2 * w" "2 * w dvd length (drop (2 * w) xs)" "length (drop (2 * w) xs) < length xs"
    using assms by (auto simp: dvd_minus_self)
qed simp

lemma pass_append:
  "2 * w dvd length xs \<Longrightarrow> 0 < w \<Longrightarrow> butterfly_pass w (xs @ ys) = butterfly_pass w xs @ butterfly_pass w ys"
proof (induction "length xs" arbitrary: xs rule: less_induct)
  case less
  show ?case
  proof (cases "xs = []")
    case False
    then obtain h rest where "xs = h @ rest" "length h = 2 * w" "2 * w dvd length rest" "length rest < length xs"
      using block_cases less.prems by blast
    then show ?thesis using less.hyps[of rest] less.prems(2) pass_Cons[of w h] by simp
  qed (simp add: butterfly_pass_def)
qed

lemma pass_length: "2 * w dvd length xs \<Longrightarrow> 0 < w \<Longrightarrow> length (butterfly_pass w xs) = length xs"
proof (induction "length xs" arbitrary: xs rule: less_induct)
  case less
  show ?case
  proof (cases "xs = []")
    case False
    then obtain h rest where x: "xs = h @ rest" "length h = 2 * w" "2 * w dvd length rest" "length rest < length xs"
      using block_cases less.prems by blast
    then have "length (butterfly_pass w h) = 2 * w"
      using pass_two[of w "take w h" "drop w h"] less.prems(2) by simp
    then show ?thesis using x less.hyps[of rest] less.prems(2) pass_Cons[of w h] by simp
  qed (simp add: butterfly_pass_def)
qed

definition passes :: "nat \<Rightarrow> nat \<Rightarrow> 'a :: field list \<Rightarrow> 'a list" where
  "passes k n xs = fold (\<lambda>j. butterfly_pass (2 ^ j)) [k..<n] xs"

lemma hadamard_passes_fold: "k \<le> n \<Longrightarrow> hadamard_passes (2 ^ n) (2 ^ k) xs = Inr (passes k n xs)"
proof (induction "n - k" arbitrary: k xs)
  case 0
  then show ?case by (subst hadamard_passes.simps) (simp add: passes_def)
next
  case (Suc d)
  then have kn: "k < n" by simp
  then have "[k..<n] = k # [Suc k..<n]" by (simp add: upt_conv_Cons)
  moreover have "hadamard_passes (2 ^ n) (2 * 2 ^ k) (butterfly_pass (2 ^ k) xs) = Inr (passes (Suc k) n (butterfly_pass (2 ^ k) xs))"
    using Suc.hyps(1)[of "Suc k"] Suc.hyps(2) kn by simp
  moreover have "(2::nat) ^ k < 2 ^ n" "(2::nat) * 2 ^ k dvd 2 ^ n" using kn le_imp_power_dvd[of "Suc k" n "2::nat"] by simp_all
  ultimately show ?case by (subst hadamard_passes.simps) (simp add: passes_def)
qed

lemma passes_length: "2 ^ n dvd length xs \<Longrightarrow> m \<le> n \<Longrightarrow> length (passes 0 m xs) = length xs"
proof (induction m)
  case (Suc m)
  have "2 * 2 ^ m dvd length xs" using Suc.prems le_imp_power_dvd[of "Suc m" n "2::nat"] by (auto intro: dvd_trans)
  then show ?case using Suc pass_length[of "2 ^ m" "passes 0 m xs"] by (simp add: passes_def)
qed (simp add: passes_def)

lemma passes_append:
  "m \<le> n \<Longrightarrow> 2 ^ n dvd length xs \<Longrightarrow> passes 0 m (xs @ ys) = passes 0 m xs @ passes 0 m ys"
proof (induction m)
  case (Suc m)
  have "2 * 2 ^ m dvd length xs" using Suc.prems le_imp_power_dvd[of "Suc m" n "2::nat"] by (auto intro: dvd_trans)
  moreover have "length (passes 0 m xs) = length xs" using Suc.prems by (intro passes_length[of n]) simp_all
  ultimately show ?case using Suc pass_append[of "2 ^ m" "passes 0 m xs" "passes 0 m ys"] by (simp add: passes_def)
qed (simp add: passes_def)

lemma passes_sylvester: "length xs = 2 ^ n \<Longrightarrow> passes 0 n xs = sylvester n xs"
proof (induction n arbitrary: xs)
  case (Suc n)
  let ?a = "take (2 ^ n) xs" and ?b = "drop (2 ^ n) xs"
  have ab: "length ?a = 2 ^ n" "length ?b = 2 ^ n" using Suc.prems by simp_all
  have "passes 0 n xs = sylvester n ?a @ sylvester n ?b"
    using passes_append[of n n ?a ?b] Suc.IH[OF ab(1)] Suc.IH[OF ab(2)] ab by simp
  moreover have "length (sylvester n ?a) = 2 ^ n" "length (sylvester n ?b) = 2 ^ n"
    using passes_length[of n ?a n] passes_length[of n ?b n] Suc.IH[OF ab(1)] Suc.IH[OF ab(2)] ab by simp_all
  ultimately show ?case using pass_two[of "2 ^ n" "sylvester n ?a" "sylvester n ?b"] by (simp add: passes_def Let_def)
qed (simp add: passes_def)

lemma hadamard_passes_sylvester: "length xs = 2 ^ n \<Longrightarrow> hadamard_passes (2 ^ n) 1 xs = Inr (sylvester n xs)"
  using hadamard_passes_fold[of 0 n xs] passes_sylvester[of xs n] by simp

section \<open>Hadamard: products and inverse\<close>

lemma sylvester_length [simp]: "length xs = 2 ^ n \<Longrightarrow> length (sylvester n xs) = 2 ^ n"
  using passes_length[of n xs n] passes_sylvester[of xs n] by simp

lemma dot_append: "length xs = length ys \<Longrightarrow> dot (xs @ xs') (ys @ ys') = dot xs ys + dot xs' ys'"
  by (simp add: dot_def)

lemma dot_sum_difference:
  assumes "length a = length b" "length b = length c" "length c = length d"
  shows "dot (map2 (+) a b) (map2 (+) c d) + dot (map2 (-) a b) (map2 (-) c d) = 2 * (dot a c + dot b d)"
  using assms by (induction a b c d rule: list_induct4) (simp_all add: dot_def algebra_simps)

lemma dot_scaled: "dot (map ((*) c) xs) (map ((*) c) ys) = c * c * dot xs ys"
  by (induction xs ys rule: list_induct2') (simp_all add: dot_def algebra_simps)

lemma sylvester_dot:
  "length xs = 2 ^ n \<Longrightarrow> length ys = 2 ^ n \<Longrightarrow> dot (sylvester n xs) (sylvester n ys) = 2 ^ n * dot xs ys"
proof (induction n arbitrary: xs ys)
  case (Suc n)
  let ?m = "2 ^ n"
  let ?a = "sylvester n (take ?m xs)" and ?b = "sylvester n (drop ?m xs)" and ?c = "sylvester n (take ?m ys)" and ?d = "sylvester n (drop ?m ys)"
  have l: "length ?a = ?m" "length ?b = ?m" "length ?c = ?m" "length ?d = ?m" using Suc.prems by simp_all
  have "dot (sylvester (Suc n) xs) (sylvester (Suc n) ys) = 2 * (dot ?a ?c + dot ?b ?d)"
    using l by (simp add: Let_def dot_append dot_sum_difference)
  also have "\<dots> = 2 * (2 ^ n * (dot (take ?m xs) (take ?m ys) + dot (drop ?m xs) (drop ?m ys)))"
    using Suc.IH[of "take ?m xs" "take ?m ys"] Suc.IH[of "drop ?m xs" "drop ?m ys"] Suc.prems by (simp add: algebra_simps)
  also have "dot (take ?m xs) (take ?m ys) + dot (drop ?m xs) (drop ?m ys) = dot xs ys"
    using dot_append[of "take ?m xs" "take ?m ys" "drop ?m xs" "drop ?m ys"] Suc.prems by simp
  finally show ?case by simp
qed simp

lemma sylvester_additive:
  fixes f :: "'a :: field \<Rightarrow> 'a \<Rightarrow> 'a"
  assumes "\<And>x y u v. f (x + y) (u + v) = f x u + f y v" "\<And>x y u v. f (x - y) (u - v) = f x u - f y v"
  shows "length xs = 2 ^ n \<Longrightarrow> length ys = 2 ^ n \<Longrightarrow> sylvester n (map2 f xs ys) = map2 f (sylvester n xs) (sylvester n ys)"
proof (induction n arbitrary: xs ys)
  case (Suc n)
  let ?m = "2 ^ n"
  have IH: "sylvester n (map2 f (take ?m xs) (take ?m ys)) = map2 f (sylvester n (take ?m xs)) (sylvester n (take ?m ys))"
    "sylvester n (map2 f (drop ?m xs) (drop ?m ys)) = map2 f (sylvester n (drop ?m xs)) (sylvester n (drop ?m ys))"
    using Suc.IH Suc.prems by simp_all
  have swap: "map2 g (map2 f a c) (map2 f b d) = map2 f (map2 g a b) (map2 g c d)"
    if "length a = length b" "length b = length c" "length c = length d" "\<And>x y u v. g (f x u) (f y v) = f (g x y) (g u v)" for g :: "'a \<Rightarrow> 'a \<Rightarrow> 'a" and a b c d
    using that(1-3) by (induction a b c d rule: list_induct4) (simp_all add: that(4))
  have l: "length (take ?m xs) = ?m" "length (take ?m ys) = ?m" "length (drop ?m xs) = ?m" "length (drop ?m ys) = ?m" using Suc.prems by simp_all
  have sides: "map2 (+) (sylvester n (map2 f (take ?m xs) (take ?m ys))) (sylvester n (map2 f (drop ?m xs) (drop ?m ys))) =
      map2 f (map2 (+) (sylvester n (take ?m xs)) (sylvester n (drop ?m xs))) (map2 (+) (sylvester n (take ?m ys)) (sylvester n (drop ?m ys)))"
    "map2 (-) (sylvester n (map2 f (take ?m xs) (take ?m ys))) (sylvester n (map2 f (drop ?m xs) (drop ?m ys))) =
      map2 f (map2 (-) (sylvester n (take ?m xs)) (sylvester n (drop ?m xs))) (map2 (-) (sylvester n (take ?m ys)) (sylvester n (drop ?m ys)))"
    unfolding IH using l by (auto intro!: swap simp: assms)
  then show ?case using l by (simp add: Let_def take_map drop_map take_zip drop_zip del: map_map)
qed simp

text \<open>Transforming twice multiplies by the size, so the normalised transform is its own inverse.\<close>

lemma sylvester_involution: "length xs = 2 ^ n \<Longrightarrow> sylvester n (sylvester n xs) = map ((*) (2 ^ n)) xs"
proof (induction n arbitrary: xs)
  case (Suc n)
  let ?m = "2 ^ n"
  let ?a = "sylvester n (take ?m xs)" and ?b = "sylvester n (drop ?m xs)"
  have l: "length ?a = ?m" "length ?b = ?m" using Suc.prems by simp_all
  have s: "sylvester n (map2 (+) ?a ?b) = map2 (+) (sylvester n ?a) (sylvester n ?b)"
    "sylvester n (map2 (-) ?a ?b) = map2 (-) (sylvester n ?a) (sylvester n ?b)"
    using l by (auto intro!: sylvester_additive)
  have "map2 (+) (map2 (+) u v) (map2 (-) u v) = map ((*) 2) u \<and> map2 (-) (map2 (+) u v) (map2 (-) u v) = map ((*) 2) v"
    if "length u = length v" for u v :: "'a list"
    using that by (induction u v rule: list_induct2) (simp_all add: algebra_simps)
  moreover have "sylvester n ?a = map ((*) (2 ^ n)) (take ?m xs)" "sylvester n ?b = map ((*) (2 ^ n)) (drop ?m xs)"
    using Suc.IH Suc.prems by simp_all
  ultimately have "sylvester (Suc n) (sylvester (Suc n) xs) =
      map ((*) 2) (map ((*) (2 ^ n)) (take ?m xs)) @ map ((*) 2) (map ((*) (2 ^ n)) (drop ?m xs))"
    using l Suc.prems by (simp add: Let_def s)
  also have "\<dots> = map ((*) (2 ^ Suc n)) (take ?m xs @ drop ?m xs)"
    by (simp add: comp_def mult.assoc del: append_take_drop_id)
  finally show ?case by simp
qed (simp add: map_idI)

lemma sylvester_scaled: "length xs = 2 ^ n \<Longrightarrow> sylvester n (map ((*) c) xs) = map ((*) c) (sylvester n xs)"
proof (induction n arbitrary: xs)
  case (Suc n)
  let ?a = "sylvester n (take (2 ^ n) xs)" and ?b = "sylvester n (drop (2 ^ n) xs)"
  have "map2 (+) (map ((*) c) u) (map ((*) c) v) = map ((*) c) (map2 (+) u v) \<and>
    map2 (-) (map ((*) c) u) (map ((*) c) v) = map ((*) c) (map2 (-) u v)" for u v :: "'a list"
    by (induction u v rule: list_induct2') (simp_all add: algebra_simps)
  then show ?case using Suc.IH[of "take (2 ^ n) xs"] Suc.IH[of "drop (2 ^ n) xs"] Suc.prems
    by (simp add: Let_def take_map drop_map del: map_map)
qed simp

lemma pieces_Suc: "pieces_of b (Suc q) v = take b v # pieces_of b q (drop b v)"
  by (simp add: pieces_of_def map_upt_Suc add.commute del: upt_Suc)

lemma pieces_0 [simp]: "pieces_of b 0 v = []"
  by (simp add: pieces_of_def)

lemma concat_pieces: "length v = q * b \<Longrightarrow> concat (pieces_of b q v) = v"
  by (induction q arbitrary: v) (simp_all add: pieces_Suc)

lemma pieces_concat: "\<forall>p \<in> set ps. length p = b \<Longrightarrow> pieces_of b (length ps) (concat ps) = ps"
  by (induction ps) (simp_all add: pieces_Suc)

lemma pieces_lengths: "length v = q * b \<Longrightarrow> \<forall>p \<in> set (pieces_of b q v). length p = b"
proof (induction q arbitrary: v)
  case (Suc q)
  have l: "length (drop b v) = q * b" "length (take b v) = b" using Suc.prems by simp_all
  show ?case using Suc.IH[OF l(1)] l(2) by (metis pieces_Suc set_ConsD)
qed simp

lemma pieces_count [simp]: "length (pieces_of b q v) = q"
  by (simp add: pieces_of_def)

lemma hadamard_value:
  assumes "length v = q * 2 ^ n"
  shows "hadamard inv_sqrt v (2 ^ n) = Inr (map ((*) (inv_sqrt (2 ^ n))) (concat (map (sylvester n) (pieces_of (2 ^ n) q v))))"
proof -
  have "map_res (hadamard_passes (2 ^ n) 1) (pieces_of (2 ^ n) q v) = Inr (map (sylvester n) (pieces_of (2 ^ n) q v))"
    using pieces_lengths[OF assms] by (intro map_res_Inr hadamard_passes_sylvester) blast
  then show ?thesis by (simp add: hadamard_def assms)
qed

lemma sylvester_pieces_length: "length v = q * 2 ^ n \<Longrightarrow> length (concat (map (sylvester n) (pieces_of (2 ^ n) q v))) = length v"
  by (induction q arbitrary: v) (simp_all add: pieces_Suc)

lemma sylvester_pieces_dot:
  "length v = q * 2 ^ n \<Longrightarrow> length u = q * 2 ^ n \<Longrightarrow>
   dot (concat (map (sylvester n) (pieces_of (2 ^ n) q v))) (concat (map (sylvester n) (pieces_of (2 ^ n) q u))) = 2 ^ n * dot v u"
proof (induction q arbitrary: v u)
  case (Suc q)
  have "dot v u = dot (take (2 ^ n) v) (take (2 ^ n) u) + dot (drop (2 ^ n) v) (drop (2 ^ n) u)"
    using dot_append[of "take (2 ^ n) v" "take (2 ^ n) u" "drop (2 ^ n) v" "drop (2 ^ n) u"] Suc.prems by simp
  then show ?case using Suc by (simp add: pieces_Suc dot_append sylvester_dot algebra_simps)
qed (simp add: dot_def)

lemma hadamard_dot:
  assumes "length v = q * 2 ^ n" "length u = q * 2 ^ n" "inv_sqrt (2 ^ n) * inv_sqrt (2 ^ n) * 2 ^ n = 1"
  shows "\<exists>a b. hadamard inv_sqrt v (2 ^ n) = Inr a \<and> hadamard inv_sqrt u (2 ^ n) = Inr b \<and> dot a b = dot v u"
  using assms(3) by (simp add: hadamard_value[OF assms(1)] hadamard_value[OF assms(2)] dot_scaled sylvester_pieces_dot[OF assms(1,2)] flip: mult.assoc)

text \<open>
  The normalised block Hadamard transform is its own inverse: on a vector that its blocks divide, in exact arithmetic,
  transforming twice gives the vector back.
\<close>

theorem hadamard_inverse:
  assumes "length v = q * 2 ^ n" "inv_sqrt (2 ^ n) * inv_sqrt (2 ^ n) * 2 ^ n = 1"
  shows "bind_res (hadamard inv_sqrt v (2 ^ n)) (\<lambda>u. hadamard inv_sqrt u (2 ^ n)) = Inr v"
proof -
  let ?c = "inv_sqrt (2 ^ n)"
  let ?ps = "pieces_of (2 ^ n) q v"
  let ?hs = "map (map ((*) ?c) \<circ> sylvester n) ?ps"
  have l: "length p = 2 ^ n" if "p \<in> set ?ps" for p using pieces_lengths[OF assms(1)] that by blast
  have u: "map ((*) ?c) (concat (map (sylvester n) ?ps)) = concat ?hs" by (simp add: map_concat comp_def)
  have len: "length (concat ?hs) = q * 2 ^ n" using sylvester_pieces_length[OF assms(1)] assms(1) unfolding u [symmetric] by simp
  have "pieces_of (2 ^ n) q (concat ?hs) = ?hs" using pieces_concat[of ?hs "2 ^ n"] l by simp
  moreover have "map (sylvester n) ?hs = map (map ((*) (?c * 2 ^ n))) ?ps"
    using l by (simp add: sylvester_scaled sylvester_involution comp_def mult.assoc)
  ultimately have "hadamard inv_sqrt (concat ?hs) (2 ^ n) = Inr (map ((*) ?c) (concat (map (map ((*) (?c * 2 ^ n))) ?ps)))"
    by (simp only: hadamard_value[OF len])
  also have "map ((*) ?c) (concat (map (map ((*) (?c * 2 ^ n))) ?ps)) = v"
    using assms(2) concat_pieces[OF assms(1)] by (simp add: map_concat comp_def flip: mult.assoc)
  finally show ?thesis by (simp only: hadamard_value[OF assms(1)] u bind_res_simps)
qed

theorem hadamard_inverse_witness:
  "bind_res (hadamard (\<lambda>_. 1 / 2) [1, 2, 3, 5, -1, 0, 7, 1 :: rat] 4) (\<lambda>u. hadamard (\<lambda>_. 1 / 2) u 4) = Inr [1, 2, 3, 5, -1, 0, 7, 1]"
  using hadamard_inverse[of "[1, 2, 3, 5, -1, 0, 7, 1 :: rat]" 2 2 "\<lambda>_. 1 / 2"] by simp

section \<open>Transforms keep the products\<close>

definition products :: "'a :: field list list \<Rightarrow> 'a list list \<Rightarrow> 'a list list" where
  "products xs ws = map (\<lambda>x. map (dot x) ws) xs"

definition valid_transform :: "(nat \<Rightarrow> 'a :: field) \<Rightarrow> 'a transform \<Rightarrow> nat \<Rightarrow> bool" where
  "valid_transform inv_sqrt t n \<longleftrightarrow>
     (case tf_permutation t of None \<Rightarrow> True | Some p \<Rightarrow> mset p = mset [0..<n]) \<and>
     (case tf_signs t of None \<Rightarrow> True | Some v \<Rightarrow> length v = n \<and> set v \<subseteq> {1, -1}) \<and>
     (case tf_scales t of None \<Rightarrow> True | Some v \<Rightarrow> length v = n \<and> 0 \<notin> set v) \<and>
     (tf_hadamard_block t = 0 \<or> (\<exists>k \<le> n. tf_hadamard_block t = 2 ^ k \<and> 2 ^ k dvd n \<and> inv_sqrt (2 ^ k) * inv_sqrt (2 ^ k) * 2 ^ k = 1))"

lemma dot_commute: "dot x y = dot y x"
  by (induction x y rule: list_induct2') (simp_all add: dot_def mult.commute)

lemma gather_Inr: "set p \<subseteq> {0..<length row} \<Longrightarrow> gather p row = Inr (map ((!) row) p)"
  unfolding gather_def by (rule map_res_Inr) auto

lemma dot_nth: "length x = n \<Longrightarrow> length w = n \<Longrightarrow> dot x w = sum_list (map (\<lambda>i. x ! i * w ! i) [0..<n])"
  by (auto simp: dot_def intro!: arg_cong[of _ _ sum_list] nth_equalityI)

lemma dot_gather:
  assumes "mset p = mset [0..<n]" "length x = n" "length w = n"
  shows "dot (map ((!) x) p) (map ((!) w) p) = dot x w"
proof -
  have "dot (map ((!) x) p) (map ((!) w) p) = sum_list (map (\<lambda>i. x ! i * w ! i) p)"
    by (simp add: dot_def zip_map_map zip_same_conv_map comp_def)
  also have "\<dots> = sum_mset (image_mset (\<lambda>i. x ! i * w ! i) (mset [0..<n]))"
    unfolding assms(1) [symmetric] mset_map [symmetric] sum_mset_sum_list ..
  also have "\<dots> = sum_list (map (\<lambda>i. x ! i * w ! i) [0..<n])"
    unfolding mset_map [symmetric] sum_mset_sum_list ..
  finally show ?thesis unfolding dot_nth[OF assms(2,3)] .
qed

lemma dot_signs:
  "length x = length w \<Longrightarrow> length w = length v \<Longrightarrow> set v \<subseteq> {1, -1} \<Longrightarrow> dot (map2 (*) x v) (map2 (*) w v) = dot x w"
  by (induction x w v rule: list_induct3) (auto simp: dot_def)

lemma dot_scales:
  "length x = length w \<Longrightarrow> length w = length v \<Longrightarrow> 0 \<notin> set v \<Longrightarrow> dot (map2 (*) x v) (map2 (/) w v) = dot x w"
  by (induction x w v rule: list_induct3) (auto simp: dot_def)

lemma transform_row_dot:
  assumes "valid_transform inv_sqrt t n" "length x = n" "length w = n"
  shows "\<exists>x' w'. transform_row (*) inv_sqrt t x = Inr x' \<and> transform_row (/) inv_sqrt t w = Inr w' \<and> dot x' w' = dot x w"
proof -
  obtain x1 w1 where 1: "optionally gather (tf_permutation t) x = Inr x1" "optionally gather (tf_permutation t) w = Inr w1"
      "length x1 = n" "length w1 = n" "dot x1 w1 = dot x w"
  proof (cases "tf_permutation t")
    case (Some p)
    then have p: "mset p = mset [0..<n]" using assms(1) by (simp add: valid_transform_def)
    then have "set p = {0..<n}" "length p = n" by (metis set_mset_mset set_upt, metis length_upt diff_zero size_mset)
    then show ?thesis using that Some gather_Inr[of p x] gather_Inr[of p w] dot_gather[OF p assms(2,3)] assms(2,3)
      by (simp add: optionally_def)
  qed (use assms that in \<open>simp add: optionally_def\<close>)
  obtain x2 w2 where 2: "optionally (\<lambda>v r. combine (*) r v) (tf_signs t) x1 = Inr x2" "optionally (\<lambda>v r. combine (*) r v) (tf_signs t) w1 = Inr w2"
      "length x2 = n" "length w2 = n" "dot x2 w2 = dot x1 w1"
    using assms(1) 1(3,4) dot_signs[of x1 w1] by (cases "tf_signs t") (simp_all add: valid_transform_def optionally_def combine_def)
  obtain x3 w3 where 3: "optionally (\<lambda>v r. combine (*) r v) (tf_scales t) x2 = Inr x3" "optionally (\<lambda>v r. combine (/) r v) (tf_scales t) w2 = Inr w3"
      "length x3 = n" "length w3 = n" "dot x3 w3 = dot x2 w2"
    using assms(1) 2(3,4) dot_scales[of x2 w2] by (cases "tf_scales t") (simp_all add: valid_transform_def optionally_def combine_def)
  show ?thesis
  proof (cases "tf_hadamard_block t = 0")
    case False
    then obtain k where k: "tf_hadamard_block t = 2 ^ k" "2 ^ k dvd n" "inv_sqrt (2 ^ k) * inv_sqrt (2 ^ k) * 2 ^ k = 1"
      using assms(1) by (auto simp: valid_transform_def)
    then obtain q where "n = q * 2 ^ k" by (metis dvdE mult.commute)
    then show ?thesis using hadamard_dot[of x3 q k w3 inv_sqrt] 1 2 3 k by (auto simp: transform_row_def)
  qed (use 1 2 3 in \<open>simp add: transform_row_def\<close>)
qed

text \<open>
  C29. Every transform is an equivalent coordinate system: for a permutation of the channels, signs, nonzero scales and
  a block of a power of two that divides the channels, the prepared weights and activations exist and every
  product of an activation with a row of the weights is what it was.
\<close>

theorem transform_equivalence:
  assumes "valid_transform inv_sqrt t n" "\<forall>w \<in> set ws. length w = n" "\<forall>x \<in> set xs. length x = n"
  shows "\<exists>wp xp. weights inv_sqrt t ws = Inr wp \<and> activations inv_sqrt t xs = Inr xp \<and> products xp wp = products xs ws"
proof -
  define f where "f x = projr (transform_row (*) inv_sqrt t x)" for x
  define g where "g w = projr (transform_row (/) inv_sqrt t w)" for w
  have f: "transform_row (*) inv_sqrt t x = Inr (f x)" and g: "transform_row (/) inv_sqrt t x = Inr (g x)" if "length x = n" for x
    using transform_row_dot[OF assms(1) that that] by (auto simp: f_def g_def)
  have "dot (f x) (g w) = dot x w" if "length x = n" "length w = n" for x w
    using transform_row_dot[OF assms(1) that] f[OF that(1)] g[OF that(2)] by auto
  moreover have "weights inv_sqrt t ws = Inr (map g ws)" "activations inv_sqrt t xs = Inr (map f xs)"
    unfolding weights_def activations_def using assms(2,3) f g by (auto intro!: map_res_Inr)
  ultimately show ?thesis using assms(2,3) by (auto simp: products_def)
qed

definition sample_transform :: "rat transform" where
  "sample_transform = \<lparr>tf_name = ''sample'', tf_family = ''signed_permutation'', tf_permutation = Some [2, 0, 3, 1], tf_signs = Some [1, -1, -1, 1],
     tf_scales = Some [2, 1, 1 / 4, 4], tf_hadamard_block = 4, tf_metadata_bytes = 0, tf_fixed_decoder_bytes = 0, tf_optimizer = ''fixed'',
     tf_runtime_placement = ''LAYOUT_ONLY''\<rparr>"

lemma sample_transform_valid: "valid_transform (\<lambda>_. 1 / 2) sample_transform 4"
proof -
  have "mset [2, 0, 3, 1] = mset [0..<4]" by (simp add: upt_rec numeral_eq_Suc add_mset_commute)
  moreover have "\<exists>k \<le> 4. (4::nat) = 2 ^ k \<and> 2 ^ k dvd (4::nat) \<and> (1 / 2) * (1 / 2) * 2 ^ k = (1 :: rat)"
    by (intro exI[of _ 2]) simp
  ultimately show ?thesis by (simp add: valid_transform_def sample_transform_def)
qed

theorem transform_equivalence_witness:
  "\<exists>wp xp. weights (\<lambda>_. 1 / 2) sample_transform [[1, 2, 3, 4], [0, 5, -1, 7]] = Inr wp \<and>
     activations (\<lambda>_. 1 / 2) sample_transform [[1, 1, 0, 2]] = Inr xp \<and> products xp wp = [[11, 19]]"
proof -
  have "products [[1, 1, 0, 2]] [[1, 2, 3, 4], [0, 5, -1, 7]] = [[11, 19 :: rat]]" by (simp add: products_def dot_def)
  then show ?thesis
    using transform_equivalence[OF sample_transform_valid, of "[[1, 2, 3, 4], [0, 5, -1, 7]]" "[[1, 1, 0, 2]]"] by auto
qed

section \<open>The channel orders are permutations\<close>

lemma statistic_mset: "mset (statistic_permutation rms means n) = mset [0..<n]"
  by (simp add: statistic_permutation_def)

lemma mset_by_cluster:
  assumes "distinct cs" "\<forall>i \<in> set xs. f i \<in> set cs"
  shows "mset (concat (map (\<lambda>c. filter (\<lambda>i. f i = c) xs) cs)) = mset xs"
  using assms
proof (induction cs arbitrary: xs)
  case (Cons c cs)
  let ?rest = "filter (\<lambda>i. f i \<noteq> c) xs"
  have "map (\<lambda>c'. filter (\<lambda>i. f i = c') xs) cs = map (\<lambda>c'. filter (\<lambda>i. f i = c') ?rest) cs"
    using Cons.prems(1) by (auto intro!: filter_cong)
  moreover have "mset (concat (map (\<lambda>c'. filter (\<lambda>i. f i = c') ?rest) cs)) = mset ?rest"
    using Cons.prems by (intro Cons.IH) auto
  moreover have "mset xs = mset (filter (\<lambda>i. f i = c) xs) + mset ?rest"
    using multiset_partition[of "mset xs" "\<lambda>i. f i = c"] by simp
  ultimately show ?case by (simp only: list.map concat.simps mset_append)
qed simp

lemma shape_order_Inr:
  assumes "length labels = n" "set labels \<subseteq> {0..<k}" "mset cluster_order = mset [0..<k]"
  shows "\<exists>order. shape_order labels cluster_order projection n = Inr order \<and> mset order = mset [0..<n]"
proof -
  let ?m = "\<lambda>c. filter (\<lambda>i. labels ! i = c) [0..<length labels]"
  let ?s = "\<lambda>c. if ?m c \<noteq> [] then sort_key (projection c) (sort_key (\<lambda>i. i) (?m c)) else []"
  have cs: "distinct cluster_order" "set cluster_order = {0..<k}"
    using assms(3) by (metis distinct_upt mset_eq_imp_distinct_iff, metis set_mset_mset set_upt)
  have "mset (?s c) = mset (?m c)" for c by (simp add: mset_sort del: mset_filter mset_upt)
  then have s: "mset (concat (map ?s cs)) = mset (concat (map ?m cs))" for cs
    by (induction cs) (simp_all only: list.map concat.simps mset_append)
  have "labels ! i < k" if "i < n" for i using assms(1,2) that by (metis atLeastLessThan_iff nth_mem subset_iff)
  then have "mset (concat (map ?m cluster_order)) = mset [0..<n]"
    unfolding assms(1) using cs by (intro mset_by_cluster) auto
  with s[of cluster_order] have m: "mset (concat (map ?s cluster_order)) = mset [0..<n]" by (rule trans)
  have "size (mset (concat (map ?s cluster_order))) = size (mset [0..<n])" using m by (rule arg_cong)
  then have "length (concat (map ?s cluster_order)) = n" by (simp only: size_mset length_upt diff_zero)
  then show ?thesis unfolding shape_order_def Let_def using m by (intro exI[of _ "concat (map ?s cluster_order)"]) (simp only: require_simps bind_res_simps simp_thms)
qed

lemma swap_mset:
  assumes "left < length current" "right < length current"
  shows "mset (swap current (left, right)) = mset current"
  using mset_swap[OF assms(2,1)] by (simp add: swap_def)

lemma codec_aware_invariant:
  assumes "\<forall>(l, r) \<in> set draws. l < length initial \<and> r < length initial"
    and "codec_aware_permutation codec_rmse draws initial = (current, objective, accepted)"
  shows "mset current = mset initial \<and> objective = codec_rmse current \<and> objective \<le> codec_rmse initial \<and> accepted \<le> length draws"
  using assms
proof (induction draws arbitrary: current objective accepted rule: rev_induct)
  case (snoc lr draws)
  obtain c o' a where c: "codec_aware_permutation codec_rmse draws initial = (c, o', a)" by (metis prod_cases3)
  have IH: "mset c = mset initial" "o' = codec_rmse c" "o' \<le> codec_rmse initial" "a \<le> length draws"
    using snoc.IH[OF _ c] snoc.prems(1) by auto
  obtain l r where lr: "lr = (l, r)" by (cases lr)
  have "length c = length initial" using IH(1) by (rule mset_eq_length)
  then have "mset (swap c lr) = mset initial" using swap_mset[of l c r] snoc.prems(1) IH(1) lr by auto
  then show ?case using snoc.prems(2) c IH by (auto simp: codec_aware_permutation_def Let_def split: if_splits)
qed (auto simp: codec_aware_permutation_def)

text \<open>
  The orders the transforms are built from are permutations of the channels, whatever the statistics: the sort by
  statistics always; the clustering, which never loses a channel, when every label names one of the clusters; the
  local search, whose objective never grows, from any permutation.
\<close>

theorem channel_orders_valid:
  assumes "length labels = n" "set labels \<subseteq> {0..<k}" "mset cluster_order = mset [0..<k]"
    and "\<forall>(l, r) \<in> set draws. l < n \<and> r < n"
  shows "mset (statistic_permutation rms means n) = mset [0..<n] \<and>
    (\<exists>order current objective accepted. shape_order labels cluster_order projection n = Inr order \<and> mset order = mset [0..<n] \<and>
       codec_aware_permutation codec_rmse draws order = (current, objective, accepted) \<and> mset current = mset [0..<n] \<and>
       objective = codec_rmse current \<and> objective \<le> codec_rmse order)"
proof -
  obtain order where o': "shape_order labels cluster_order projection n = Inr order" "mset order = mset [0..<n]"
    using shape_order_Inr[OF assms(1-3)] by blast
  then have len: "length order = n" by (metis diff_zero length_upt size_mset)
  obtain c ob a where c: "codec_aware_permutation codec_rmse draws order = (c, ob, a)" by (metis prod_cases3)
  show ?thesis using statistic_mset o' c codec_aware_invariant[OF _ c] assms(4) len by auto
qed

theorem channel_orders_valid_witness:
  "\<exists>order current objective accepted. shape_order [1, 0, 1, 1] [1, 0] (\<lambda>_ i. - int i) 4 = Inr order \<and> mset order = mset [0..<4] \<and>
     codec_aware_permutation (\<lambda>p. int (hd p)) [(0, 3), (1, 2)] order = (current, objective, accepted) \<and>
     mset current = mset [0..<4] \<and> objective \<le> int (hd order)"
proof -
  have "mset [1, 0] = mset [0..<2]" by (simp add: upt_rec numeral_eq_Suc add_mset_commute)
  then show ?thesis
    using channel_orders_valid[of "[1, 0, 1, 1]" 4 2 "[1, 0]" "[(0, 3), (1, 2)]" "\<lambda>_. 0 :: int" "\<lambda>_. 0" "\<lambda>_ i. - int i" "\<lambda>p. int (hd p)"]
    by auto
qed

section \<open>The split of the activations\<close>

lemma evens_Cons: "evens (x # xs) = x # evens (drop 1 xs)"
  by (cases xs) simp_all

lemma evens_odds: "mset (evens xs) + mset (evens (drop 1 xs)) = mset xs"
proof (induction xs)
  case (Cons x xs)
  then show ?case by (simp add: evens_Cons add.commute)
qed simp

text \<open>The check that the three sets of activations are isolated never fails.\<close>

theorem prepared_split_isolated:
  "\<exists>fit validation functional_test. prepared_split n = Inr (fit, validation, functional_test) \<and>
     mset fit + mset validation + mset functional_test = mset [0..<n]"
proof -
  obtain q t where qt: "vector_split n = (q, t)" by (cases "vector_split n")
  have p: "set q \<inter> set t = {}" "set q \<union> set t = {0..<n}" "distinct q" "distinct t"
    using split_is_partition[of n] qt by auto
  have m: "mset (evens q) + mset (evens (drop 1 q)) = mset q" by (rule evens_odds)
  then have l: "length (evens q) + length (evens (drop 1 q)) = length q" by (metis size_mset size_union)
  have "distinct (evens q @ evens (drop 1 q))" using p(3) mset_eq_imp_distinct_iff[of "evens q @ evens (drop 1 q)" q] m by simp
  then have "set (evens q) \<inter> set (evens (drop 1 q)) = {}" by simp
  moreover have "mset q + mset t = mset [0..<n]"
    using p set_eq_iff_mset_eq_distinct[of "q @ t" "[0..<n]"] by simp
  ultimately show ?thesis using qt p(1) m l by (simp add: prepared_split_def Let_def)
qed

section \<open>The decision over the result rows\<close>

record 'k stage_row =
  sr_transform :: string
  sr_family :: string
  sr_codec :: string
  sr_length :: nat
  sr_bpw :: 'k
  sr_error :: 'k
  sr_reduction :: 'k

text \<open>\<open>max\<close> with a key: the first row that no later one beats.\<close>

fun max_by :: "('a \<Rightarrow> 'a \<Rightarrow> bool) \<Rightarrow> 'a list \<Rightarrow> 'a res" where
  "max_by beat [] = Inl (ValueError ''max() arg is an empty sequence'')"
| "max_by beat (x # xs) = Inr (foldl (\<lambda>best y. if beat best y then y else best) x xs)"

definition candidate_rows :: "'k stage_row list \<Rightarrow> 'k stage_row list" where
  "candidate_rows stage_rows = filter (\<lambda>r. sr_transform r \<notin> {''identity'', ''random_permutation_control''}) stage_rows"

definition best_row :: "('k :: linordered_field) stage_row list \<Rightarrow> 'k stage_row res" where
  "best_row candidates = max_by (\<lambda>r s. sr_reduction r < sr_reduction s \<or> (sr_reduction r = sr_reduction s \<and> - sr_bpw r < - sr_bpw s)) candidates"

definition reduction_families :: "string list" where
  "reduction_families = [''permutation'', ''signed_permutation'', ''diagonal_scaling'', ''fixed_orthogonal'']"

definition family_best :: "('k :: linordered_field) stage_row list \<Rightarrow> 'k stage_row list" where
  "family_best candidates = concat (map (\<lambda>family.
     case max_by (\<lambda>r s. sr_reduction r < sr_reduction s) (filter (\<lambda>r. sr_family r = family) candidates) of Inl _ \<Rightarrow> [] | Inr r \<Rightarrow> [r])
     reduction_families)"

text \<open>The loop over the sorted families, which stops when two rows are promoted.\<close>

fun promote :: "('k :: linordered_field) stage_row list \<Rightarrow> 'k stage_row list \<Rightarrow> 'k stage_row list" where
  "promote promoted [] = promoted"
| "promote promoted (row # rows) =
     (let promoted' = (if 3 / 10 \<le> sr_reduction row \<and> list_all (\<lambda>existing. sr_family existing \<noteq> sr_family row) promoted
        then promoted @ [row] else promoted) in
      if length promoted' = 2 then promoted' else promote promoted' rows)"

definition promoted_rows :: "('k :: linordered_field) stage_row list \<Rightarrow> 'k stage_row list" where
  "promoted_rows candidates = promote [] (rev (sort_key sr_reduction (rev (family_best candidates))))"

record 'k decision =
  dc_promoted :: "'k stage_row list"
  dc_signal :: string
  dc_interaction :: string
  dc_direction :: string
  dc_recommendation :: string
  dc_gates :: "string list"
  dc_status :: string

text \<open>\<open>canonical\<close> holds the prepared and the raw error of every canonical control, \<open>raw_errors\<close> those of all raw controls.\<close>

definition decide :: "('k :: linordered_field) stage_row list \<Rightarrow> ('k \<times> 'k) list \<Rightarrow> 'k list \<Rightarrow> 'k decision res" where
  "decide stage_rows canonical raw_errors =
     (let candidates = candidate_rows stage_rows; promoted = promoted_rows candidates in
      bind_res (best_row candidates) (\<lambda>best.
      bind_res (max_by (<) (map sr_reduction candidates)) (\<lambda>max_gain.
      let procedural_benefit = (1 / 10 \<le> max_gain);
          canonical_benefit = (1 / 10 \<le> (case max_by (<) (map (\<lambda>(prepared, raw). 1 - prepared / raw) canonical) of Inl _ \<Rightarrow> 0 | Inr g \<Rightarrow> g));
          prep_signal = (if 1 / 2 \<le> max_gain then ''WEIGHT_PREPARATION_STRONG_SIGNAL'' else if 3 / 10 \<le> max_gain then ''WEIGHT_PREPARATION_MATERIAL_SIGNAL''
            else if 1 / 10 \<le> max_gain then ''WEIGHT_PREPARATION_WEAK_SIGNAL'' else ''WEIGHT_PREPARATION_NO_SIGNAL'');
          final_direction = (if prep_signal \<in> {''WEIGHT_PREPARATION_NO_SIGNAL'', ''WEIGHT_PREPARATION_WEAK_SIGNAL''} \<or> promoted = []
            then ''WEIGHT_SPACE_PREPARATION_REJECTED'' else ''WEIGHT_SPACE_PREPARATION_INTERESTING'');
          materially_improved = filter (\<lambda>r. 3 / 10 \<le> sr_reduction r) candidates in
      bind_res (max_by (>) raw_errors) (\<lambda>least_raw.
      Inr \<lparr>dc_promoted = promoted, dc_signal = prep_signal,
        dc_interaction = (if procedural_benefit \<and> canonical_benefit then ''BOTH_CODEC_CLASSES_BENEFIT''
          else if procedural_benefit then ''PROCEDURAL_CODEC_SPECIFIC_BENEFIT''
          else if canonical_benefit then ''GENERAL_QUANTIZATION_BENEFIT'' else ''NO_CODEC_BENEFIT''),
        dc_direction = final_direction,
        dc_recommendation = (if final_direction = ''WEIGHT_SPACE_PREPARATION_REJECTED'' then ''STOP_WEIGHT_PREPARATION_RESEARCH''
          else ''RUN_GRAPH_LEVEL_REPARAMETERIZATION_GATE''),
        dc_gates = (if max_gain < 1 / 10 then [''WEIGHT_PREPARATION_NO_SIGNAL''] else []) @
          (if materially_improved \<noteq> [] \<and> list_all (\<lambda>r. sr_length r = 16) materially_improved then [''SEGMENT_LENGTH_PROBLEM_UNCHANGED''] else []) @
          (if least_raw < sr_error best then [''PROCEDURAL_REPRESENTATION_STILL_FUNCTIONALLY_REJECTED''] else []),
        dc_status = (if final_direction = ''WEIGHT_SPACE_PREPARATION_REJECTED'' then ''COMPLETE / REJECTED'' else ''COMPLETE / INTERESTING'')\<rparr>))))"

lemma foldl_max:
  fixes key :: "'a \<Rightarrow> 'b :: linorder"
  defines "best_of \<equiv> foldl (\<lambda>best y. if key best < key y then y else best)"
  shows "best_of x xs \<in> set (x # xs) \<and> (\<forall>y \<in> set (x # xs). key y \<le> key (best_of x xs))"
proof (induction xs rule: rev_induct)
  case (snoc z xs)
  have "best_of x (xs @ [z]) = (if key (best_of x xs) < key z then z else best_of x xs)" by (simp add: best_of_def)
  moreover have "\<forall>y \<in> set (x # xs). key y \<le> key z" if "key (best_of x xs) < key z"
    using snoc that by (meson le_less_trans less_imp_le)
  ultimately show ?case using snoc by auto
qed (simp add: best_of_def)

lemma max_by_key:
  fixes key :: "'a \<Rightarrow> 'b :: linorder"
  assumes "max_by (\<lambda>r s. key r < key s) xs = Inr m"
  shows "m \<in> set xs \<and> (\<forall>y \<in> set xs. key y \<le> key m)"
proof (cases xs)
  case (Cons x ys)
  then show ?thesis using foldl_max[of key x ys] assms by simp
qed (use assms in simp)

lemma max_by_Inr: "xs \<noteq> [] \<Longrightarrow> \<exists>m. max_by beat xs = Inr m"
  by (cases xs) auto

lemma family_best_mem:
  assumes "r \<in> set (family_best candidates)"
  shows "r \<in> set candidates \<and> (\<forall>s \<in> set candidates. sr_family s = sr_family r \<longrightarrow> sr_reduction s \<le> sr_reduction r)"
proof -
  obtain family where "max_by (\<lambda>r s. sr_reduction r < sr_reduction s) (filter (\<lambda>r. sr_family r = family) candidates) = Inr r"
    using assms by (auto simp: family_best_def split: sum.splits)
  from max_by_key[OF this] show ?thesis by auto
qed

lemma family_best_exists:
  assumes "s \<in> set candidates" "sr_family s \<in> set reduction_families"
  shows "\<exists>r \<in> set (family_best candidates). sr_family r = sr_family s \<and> sr_reduction s \<le> sr_reduction r"
proof -
  let ?rows = "filter (\<lambda>r. sr_family r = sr_family s) candidates"
  have "?rows \<noteq> []" using assms(1) by (auto simp: filter_empty_conv)
  then obtain r where r: "max_by (\<lambda>r s. sr_reduction r < sr_reduction s) ?rows = Inr r" using max_by_Inr by blast
  then have "r \<in> set (family_best candidates)" using assms(2) by (force simp: family_best_def)
  moreover have "sr_family r = sr_family s \<and> sr_reduction s \<le> sr_reduction r" using max_by_key[OF r] assms(1) by auto
  ultimately show ?thesis by blast
qed

lemma promote_mem:
  "distinct (map sr_family promoted) \<Longrightarrow> length promoted < 2 \<Longrightarrow> \<forall>r \<in> set promoted. 3 / 10 \<le> sr_reduction r \<Longrightarrow>
   distinct (map sr_family (promote promoted rows)) \<and> length (promote promoted rows) \<le> 2 \<and> set promoted \<subseteq> set (promote promoted rows) \<and>
   set (promote promoted rows) \<subseteq> set promoted \<union> set rows \<and> (\<forall>r \<in> set (promote promoted rows). 3 / 10 \<le> sr_reduction r)"
proof (induction rows arbitrary: promoted)
  case (Cons row rows)
  show ?case
  proof (cases "3 / 10 \<le> sr_reduction row \<and> list_all (\<lambda>existing. sr_family existing \<noteq> sr_family row) promoted")
    case True
    then have d: "distinct (map sr_family (promoted @ [row]))" using Cons.prems(1) by (auto simp: list_all_iff)
    show ?thesis
    proof (cases promoted)
      case Nil
      then show ?thesis using True Cons.IH[of "[row]"] by (auto simp: Let_def)
    next
      case (Cons p ps)
      then have "promote promoted (row # rows) = promoted @ [row]" using True Cons.prems(2) by (simp add: Let_def)
      then show ?thesis using d True Cons.prems by auto
    qed
  next
    case False
    then have "promote promoted (row # rows) = promote promoted rows" using Cons.prems(2) by (simp only: promote.simps Let_def if_False) auto
    then show ?thesis using Cons.IH[OF Cons.prems] by (simp del: promote.simps) blast
  qed
qed auto

lemma promote_nonempty: "\<exists>r \<in> set rows. 3 / 10 \<le> sr_reduction r \<Longrightarrow> promote [] rows \<noteq> []"
proof (induction rows)
  case (Cons row rows)
  show ?case
  proof (cases "3 / 10 \<le> sr_reduction row")
    case True
    have "set [row] \<subseteq> set (promote [row] rows)" using promote_mem[of "[row]" rows] True by simp
    then show ?thesis using True by (auto simp: Let_def)
  next
    case False
    then show ?thesis using Cons by (simp add: Let_def)
  qed
qed simp

text \<open>
  The decision is consistent: when every candidate belongs to one of the four families, a row is promoted exactly
  when the largest reduction reaches the threshold, which is exactly when the direction is not rejected (the second
  condition of the rejection adds nothing); at most two rows are promoted, of different families, each the best of its
  family.
\<close>

theorem decision_consistent:
  assumes "decide stage_rows canonical raw_errors = Inr d" "\<forall>r \<in> set (candidate_rows stage_rows). sr_family r \<in> set reduction_families"
  shows "(dc_promoted d \<noteq> [] \<longleftrightarrow> (\<exists>r \<in> set (candidate_rows stage_rows). 3 / 10 \<le> sr_reduction r)) \<and>
    (dc_direction d = ''WEIGHT_SPACE_PREPARATION_REJECTED'' \<longleftrightarrow> dc_promoted d = []) \<and>
    length (dc_promoted d) \<le> 2 \<and> distinct (map sr_family (dc_promoted d)) \<and>
    (\<forall>r \<in> set (dc_promoted d). r \<in> set (candidate_rows stage_rows) \<and>
       (\<forall>s \<in> set (candidate_rows stage_rows). sr_family s = sr_family r \<longrightarrow> sr_reduction s \<le> sr_reduction r))"
proof -
  let ?cs = "candidate_rows stage_rows"
  let ?rows = "rev (sort_key sr_reduction (rev (family_best ?cs)))"
  obtain gain where gain: "max_by (<) (map sr_reduction ?cs) = Inr gain" and p: "dc_promoted d = promoted_rows ?cs"
    and dir: "dc_direction d = ''WEIGHT_SPACE_PREPARATION_REJECTED'' \<longleftrightarrow> gain < 3 / 10 \<or> dc_promoted d = []"
    using assms(1) by (auto simp: decide_def bind_res_Inr_iff Let_def)
  have g: "gain \<in> sr_reduction ` set ?cs" "\<forall>r \<in> set ?cs. sr_reduction r \<le> gain"
    using max_by_key[of "\<lambda>x. x" "map sr_reduction ?cs" gain] gain by auto
  have P: "length (promoted_rows ?cs) \<le> 2" "distinct (map sr_family (promoted_rows ?cs))" "set (promoted_rows ?cs) \<subseteq> set (family_best ?cs)"
    "\<forall>r \<in> set (promoted_rows ?cs). 3 / 10 \<le> sr_reduction r"
    using promote_mem[of "[]" ?rows] by (auto simp: promoted_rows_def)
  have some: "promoted_rows ?cs \<noteq> []" if s: "s \<in> set ?cs" "3 / 10 \<le> sr_reduction s" for s
  proof -
    obtain r where "r \<in> set (family_best ?cs)" "sr_reduction s \<le> sr_reduction r"
      using family_best_exists[OF s(1)] assms(2) s(1) by blast
    then show ?thesis unfolding promoted_rows_def using s(2) by (intro promote_nonempty) (auto intro!: bexI[of _ r])
  qed
  have none: "\<exists>r \<in> set ?cs. 3 / 10 \<le> sr_reduction r" if "promoted_rows ?cs \<noteq> []"
    using that P(3,4) family_best_mem by (metis list.set_sel(1) subset_iff)
  show ?thesis
    unfolding dir p using some none P g family_best_mem by (force simp: not_less)
qed

definition sample_rows :: "rat stage_row list" where
  "sample_rows = map (\<lambda>(t, f, n, b, e, r). \<lparr>sr_transform = t, sr_family = f, sr_codec = ''G2_CENTER_DENSE'', sr_length = n, sr_bpw = b, sr_error = e, sr_reduction = r\<rparr>)
     [(''identity'', ''identity'', 16, 3, 1, 0), (''statistic_sort'', ''permutation'', 16, 3, 1 / 2, 1 / 2),
      (''random_permutation_control'', ''permutation_control'', 16, 3, 1 / 4, 3 / 4), (''shape_cluster'', ''permutation'', 32, 3, 1 / 2, 1 / 3),
      (''hadamard8'', ''fixed_orthogonal'', 16, 3, 1 / 3, 2 / 3), (''power2_column_equalization'', ''diagonal_scaling'', 16, 3, 3 / 5, 2 / 5)]"

theorem decision_consistent_witness:
  "\<exists>d. decide sample_rows [(1 / 2, 1)] [1, 1 / 4] = Inr d \<and> dc_direction d \<noteq> ''WEIGHT_SPACE_PREPARATION_REJECTED'' \<and>
     dc_promoted d \<noteq> [] \<and> length (dc_promoted d) \<le> 2"
proof -
  have "\<exists>d. decide sample_rows [(1 / 2, 1)] [1, 1 / 4] = Inr d"
    by (simp add: decide_def sample_rows_def candidate_rows_def best_row_def Let_def)
  then obtain d where d: "decide sample_rows [(1 / 2, 1)] [1, 1 / 4] = Inr d" by blast
  have f: "\<forall>r \<in> set (candidate_rows sample_rows). sr_family r \<in> set reduction_families"
    by (simp add: candidate_rows_def sample_rows_def reduction_families_def)
  have "\<exists>r \<in> set (candidate_rows sample_rows). 3 / 10 \<le> sr_reduction r"
    by (simp add: candidate_rows_def sample_rows_def)
  then show ?thesis using decision_consistent[OF d f] d by blast
qed

section \<open>The transforms of main\<close>

text \<open>With permutations of the channels and nonzero scales, all transforms of \<open>main\<close> are valid, and their metadata needs no padding.\<close>

lemma main_transforms_valid:
  assumes "mset statistic = mset [0..<5120]" "mset shape = mset [0..<5120]" "mset codec_perm = mset [0..<5120]" "mset random_perm = mset [0..<5120]"
    and "length column_means = 5120" "length power_scales = 5120" "length fp16_scales = 5120" "0 \<notin> set power_scales" "0 \<notin> set fp16_scales"
    and "\<forall>b \<in> {8, 16, 32}. inv_sqrt b * inv_sqrt b * of_nat b = 1"
    and "t \<in> set (main_transforms statistic shape codec_perm random_perm column_means power_scales fp16_scales)"
  shows "valid_transform inv_sqrt t 5120 \<and> md_alignment (transform_metadata t elements) = 0"
proof -
  have h: "\<exists>k \<le> 5120. (2::nat) ^ j = 2 ^ k \<and> 2 ^ k dvd (5120::nat) \<and> inv_sqrt (2 ^ k) * inv_sqrt (2 ^ k) * 2 ^ k = 1" if "j \<in> {3, 4, 5}" for j
    using that assms(10) by (intro exI[of _ j]) auto
  have s: "length (signs_of column_means) = 5120" "set (signs_of column_means) \<subseteq> {1, -1}" using assms(5) by (auto simp: signs_of_def)
  have "\<forall>t \<in> set (main_transforms statistic shape codec_perm random_perm column_means power_scales fp16_scales).
      valid_transform inv_sqrt t 5120 \<and> md_alignment (transform_metadata t elements) = 0"
    using h[of 3] h[of 4] h[of 5] assms(1-9) s
    by (simp add: main_transforms_def plain_transform_def valid_transform_def transform_metadata_def Let_def)
  then show ?thesis using assms(11) by blast
qed

end
