(* ===== verification/Tensor_Screen.thy ===== *)
theory Tensor_Screen
  imports Weight_Prep Gguf
begin

text \<open>
  The compact representations screened in step 30 (\<open>scripts/run_step30_tensor_screen.py\<close>,
  \<open>run_step30_continuation.py\<close>): each comes with a dense reconstruction and with a direct application that
  never forms the matrix, and the screen reports errors of both.  Modelled are, for one column of the input, the
  families whose two sides are computed differently; their storage account; the Pareto front of the continuation.  Matrices are lists
  of rows over a field, so the equations are exact; the fits, timings and error metrics are left out, and so are the
  families that apply by reconstructing.
\<close>

section \<open>Matrices\<close>

text \<open>\<open>w @ x\<close> and \<open>u @ v\<close>, where \<open>v\<close> has \<open>n\<close> columns.\<close>

definition mv :: "'a :: field list list \<Rightarrow> 'a list \<Rightarrow> 'a list" where
  "mv w x = map (\<lambda>row. dot row x) w"

definition mm :: "nat \<Rightarrow> 'a :: field list list \<Rightarrow> 'a list list \<Rightarrow> 'a list list" where
  "mm n u v = map (\<lambda>row. map (\<lambda>j. dot row (map (\<lambda>r. r ! j) v)) [0..<n]) u"

definition unit_vector :: "nat \<Rightarrow> nat \<Rightarrow> 'a :: field list" where
  "unit_vector n j = (replicate n 0)[j := 1]"

text \<open>\<open>apply(np.eye(n))\<close>: the columns are the images of the unit vectors.\<close>

definition probe :: "('a :: field list \<Rightarrow> 'a list) \<Rightarrow> nat \<Rightarrow> 'a list list" where
  "probe f n = map (\<lambda>i. map (\<lambda>j. f (unit_vector n j) ! i) [0..<n]) [0..<n]"

section \<open>Families\<close>

definition low_rank_apply :: "'a :: field list list \<Rightarrow> 'a list list \<Rightarrow> 'a list \<Rightarrow> 'a list" where
  "low_rank_apply u v x = mv u (mv v x)"

definition low_rank_reconstruct :: "nat \<Rightarrow> 'a :: field list list \<Rightarrow> 'a list list \<Rightarrow> 'a list list" where
  "low_rank_reconstruct n u v = mm n u v"

text \<open>\<open>np.add.at\<close> on a vector, and the assignment of entries of a matrix; an entry is row, column and value.\<close>

definition scatter :: "(nat \<times> nat \<times> 'a :: field) list \<Rightarrow> 'a list \<Rightarrow> 'a list \<Rightarrow> 'a list" where
  "scatter entries x y = fold (\<lambda>(r, c, s) y. y[r := y ! r + s * x ! c]) entries y"

definition put_entries :: "(nat \<times> nat \<times> 'a) list \<Rightarrow> 'a list list \<Rightarrow> 'a list list" where
  "put_entries entries z = fold (\<lambda>(r, c, s) z. z[r := (z ! r)[c := s]]) entries z"

definition sparse_apply :: "nat \<Rightarrow> (nat \<times> nat \<times> 'a :: field) list \<Rightarrow> 'a list \<Rightarrow> 'a list" where
  "sparse_apply m entries x = scatter entries x (replicate m 0)"

definition sparse_reconstruct :: "nat \<Rightarrow> nat \<Rightarrow> (nat \<times> nat \<times> 'a :: field) list \<Rightarrow> 'a list list" where
  "sparse_reconstruct m n entries = put_entries entries (replicate m (replicate n 0))"

definition low_rank_sparse_apply :: "'a :: field list list \<Rightarrow> 'a list list \<Rightarrow> (nat \<times> nat \<times> 'a) list \<Rightarrow> 'a list \<Rightarrow> 'a list" where
  "low_rank_sparse_apply u v entries x = scatter entries x (mv u (mv v x))"

definition low_rank_sparse_reconstruct :: "nat \<Rightarrow> 'a :: field list list \<Rightarrow> 'a list list \<Rightarrow> (nat \<times> nat \<times> 'a) list \<Rightarrow> 'a list list" where
  "low_rank_sparse_reconstruct n u v entries =
     (let z = mm n u v in put_entries (map (\<lambda>(r, c, s). (r, c, z ! r ! c + s)) entries) z)"

text \<open>One Kronecker product: the input is read as a square of \<open>q\<close> rows.\<close>

definition kronecker_apply :: "nat \<Rightarrow> 'a :: field list list \<Rightarrow> 'a list list \<Rightarrow> 'a list \<Rightarrow> 'a list" where
  "kronecker_apply q a b x = concat (map (mv b) (mm q a (pieces_of q q x)))"

definition kron :: "'a :: field list list \<Rightarrow> 'a list list \<Rightarrow> 'a list list" where
  "kron a b = concat (map (\<lambda>ra. map (\<lambda>rb. concat (map (\<lambda>c. map ((*) c) rb) ra)) b) a)"

text \<open>\<open>np.convolve\<close> in the mode \<open>full\<close>, and its slice.\<close>

definition convolve :: "'a :: field list \<Rightarrow> 'a list \<Rightarrow> 'a list" where
  "convolve g x = map (\<lambda>k. sum_list (map (\<lambda>j. if j \<le> k \<and> k - j < length g then g ! (k - j) * x ! j else 0) [0..<length x]))
     [0..<length g + length x - 1]"

definition toeplitz_apply :: "nat \<Rightarrow> nat \<Rightarrow> 'a :: field list \<Rightarrow> 'a list \<Rightarrow> 'a list" where
  "toeplitz_apply m n g x = take m (drop (n - 1) (convolve g x))"

definition toeplitz_reconstruct :: "nat \<Rightarrow> nat \<Rightarrow> 'a :: field list \<Rightarrow> 'a list list" where
  "toeplitz_reconstruct m n g = map (\<lambda>i. map (\<lambda>j. g ! (i + n - 1 - j)) [0..<n]) [0..<m]"

text \<open>Vectors of \<open>width\<close> from a code book.\<close>

definition vq_apply :: "nat \<Rightarrow> 'a :: field list list \<Rightarrow> nat list list \<Rightarrow> 'a list \<Rightarrow> 'a list" where
  "vq_apply width c idx x = map (\<lambda>row. foldl (+) 0 (map (\<lambda>b. dot (c ! (row ! b)) (take width (drop (b * width) x))) [0..<length row])) idx"

definition vq_reconstruct :: "'a :: field list list \<Rightarrow> nat list list \<Rightarrow> 'a list list" where
  "vq_reconstruct c idx = map (\<lambda>row. concat (map ((!) c) row)) idx"

text \<open>A core between two bases; \<open>k\<close> is the number of basis vectors.\<close>

definition transposed :: "nat \<Rightarrow> 'a list list \<Rightarrow> 'a list list" where
  "transposed k b = map (\<lambda>j. map (\<lambda>row. row ! j) b) [0..<k]"

definition basis_apply :: "nat \<Rightarrow> 'a :: field list list \<Rightarrow> 'a list list \<Rightarrow> 'a list list \<Rightarrow> 'a list \<Rightarrow> 'a list" where
  "basis_apply k a c b x = mv a (mv c (mv (transposed k b) x))"

definition basis_reconstruct :: "nat \<Rightarrow> nat \<Rightarrow> 'a :: field list list \<Rightarrow> 'a list list \<Rightarrow> 'a list list \<Rightarrow> 'a list list" where
  "basis_reconstruct k n a c b = mm n (mm k a c) (transposed k b)"

text \<open>The exact permutation; \<open>blank\<close> is the row of the uninitialised array that is filled.\<close>

definition permuted_apply :: "nat list \<Rightarrow> 'a :: field list list \<Rightarrow> 'a list \<Rightarrow> 'a list" where
  "permuted_apply p z x = mv z (map ((!) x) p)"

definition permuted_reconstruct :: "nat list \<Rightarrow> 'a list \<Rightarrow> 'a list list \<Rightarrow> 'a list list" where
  "permuted_reconstruct p blank z = map (\<lambda>row. fold (\<lambda>k result. result[p ! k := row ! k]) [0..<length p] blank) z"

text \<open>Low displacement rank: the rounds of the application, and the recurrence of the reconstruction.\<close>

definition shifted_rows :: "'a :: field \<Rightarrow> 'a list list \<Rightarrow> 'a list list" where
  "shifted_rows sign ug = replicate (length (hd ug)) 0 # map (map ((*) sign)) (butlast ug)"

primrec ldr_rounds :: "nat \<Rightarrow> 'a :: field \<Rightarrow> 'a list list \<Rightarrow> 'a list list \<Rightarrow> 'a list \<Rightarrow> 'a list \<Rightarrow> 'a list" where
  "ldr_rounds 0 sign v ug xs y = y"
| "ldr_rounds (Suc k) sign v ug xs y = ldr_rounds k sign v (shifted_rows sign ug) (tl xs @ [0]) (map2 (+) y (mv ug (mv v xs)))"

definition ldr_apply :: "nat \<Rightarrow> 'a :: field list list \<Rightarrow> 'a list list \<Rightarrow> 'a \<Rightarrow> 'a list \<Rightarrow> 'a list" where
  "ldr_apply n u v sign x = ldr_rounds n sign v u x (replicate n 0)"

fun ldr_recurrence :: "'a :: field \<Rightarrow> 'a list \<Rightarrow> 'a list list \<Rightarrow> 'a list list" where
  "ldr_recurrence sign previous [] = []"
| "ldr_recurrence sign previous (row # rows) =
     (let row' = hd row # map2 (+) (tl row) (map ((*) sign) (butlast previous)) in row' # ldr_recurrence sign row' rows)"

definition ldr_reconstruct :: "nat \<Rightarrow> 'a :: field list list \<Rightarrow> 'a list list \<Rightarrow> 'a \<Rightarrow> 'a list list" where
  "ldr_reconstruct n u v sign = (case mm n u v of [] \<Rightarrow> [] | row # rows \<Rightarrow> row # ldr_recurrence sign row rows)"

text \<open>The displacement the factors are fitted to.\<close>

fun displacement_rows :: "'a :: field \<Rightarrow> 'a list \<Rightarrow> 'a list list \<Rightarrow> 'a list list" where
  "displacement_rows sign previous [] = []"
| "displacement_rows sign previous (row # rows) =
     (hd row # map2 (-) (tl row) (map ((*) sign) (butlast previous))) # displacement_rows sign row rows"

definition displacement :: "'a :: field \<Rightarrow> 'a list list \<Rightarrow> 'a list list" where
  "displacement sign w = (case w of [] \<Rightarrow> [] | row # rows \<Rightarrow> row # displacement_rows sign row rows)"

text \<open>Householder reflections between two diagonals; reconstructed by probing.\<close>

definition house_apply :: "'a :: field list list \<Rightarrow> 'a list \<Rightarrow> 'a list" where
  "house_apply vecs x = fold (\<lambda>v y. map2 (\<lambda>a b. a - 2 * b * dot v y) y v) vecs x"

definition orthogonal_apply :: "'a :: field list list \<Rightarrow> 'a list \<Rightarrow> 'a list \<Rightarrow> 'a list \<Rightarrow> 'a list" where
  "orthogonal_apply hv l r x = map2 (*) l (house_apply hv (map2 (*) r x))"

text \<open>\<open>fwht\<close> between two diagonals; the dense side multiplies the probed matrix by both diagonals.\<close>

definition fwht :: "(nat \<Rightarrow> 'a :: field) \<Rightarrow> 'a list \<Rightarrow> 'a list res" where
  "fwht inv_sqrt x = bind_res (hadamard_passes (length x) 1 x) (\<lambda>y. Inr (map (\<lambda>a. a * inv_sqrt (length x)) y))"

definition hadamard_matrix :: "(nat \<Rightarrow> 'a :: field) \<Rightarrow> nat \<Rightarrow> 'a list list res" where
  "hadamard_matrix inv_sqrt n = bind_res (map_res (\<lambda>j. fwht inv_sqrt (unit_vector n j)) [0..<n]) (\<lambda>columns. Inr (transposed n columns))"

definition diagonal_hadamard_apply :: "(nat \<Rightarrow> 'a :: field) \<Rightarrow> 'a list \<Rightarrow> 'a list \<Rightarrow> 'a list \<Rightarrow> 'a list res" where
  "diagonal_hadamard_apply inv_sqrt a b x = bind_res (fwht inv_sqrt (map2 (*) b x)) (\<lambda>y. Inr (map2 (*) a y))"

definition diagonal_hadamard_reconstruct :: "(nat \<Rightarrow> 'a :: field) \<Rightarrow> nat \<Rightarrow> 'a list \<Rightarrow> 'a list \<Rightarrow> 'a list list res" where
  "diagonal_hadamard_reconstruct inv_sqrt n a b =
     bind_res (hadamard_matrix inv_sqrt n) (\<lambda>h. Inr (map2 (\<lambda>c row. map2 (\<lambda>e d. c * e * d) row b) a h))"

text \<open>The pilot of \<open>run_step30_reparameterization.py\<close>: row means, outer scales, and permuted columns around a low-rank core.\<close>

definition row_centered_apply :: "'a :: field list \<Rightarrow> 'a list list \<Rightarrow> 'a list list \<Rightarrow> 'a list \<Rightarrow> 'a list" where
  "row_centered_apply mean u v x = map2 (+) (map (\<lambda>a. a * sum_list x) mean) (mv u (mv v x))"

definition row_centered_reconstruct :: "nat \<Rightarrow> 'a :: field list \<Rightarrow> 'a list list \<Rightarrow> 'a list list \<Rightarrow> 'a list list" where
  "row_centered_reconstruct n mean u v = map2 (\<lambda>row a. map (\<lambda>b. b + a) row) (mm n u v) mean"

definition diag_scaled_apply :: "'a :: field list \<Rightarrow> 'a list \<Rightarrow> 'a list list \<Rightarrow> 'a list list \<Rightarrow> 'a list \<Rightarrow> 'a list" where
  "diag_scaled_apply row col u v x = map2 (*) row (mv u (mv v (map2 (*) col x)))"

definition diag_scaled_reconstruct :: "nat \<Rightarrow> 'a :: field list \<Rightarrow> 'a list \<Rightarrow> 'a list list \<Rightarrow> 'a list list \<Rightarrow> 'a list list" where
  "diag_scaled_reconstruct n row col u v = map2 (\<lambda>c w. map2 (\<lambda>e d. c * e * d) w col) row (mm n u v)"

definition permuted_low_rank_apply :: "nat list \<Rightarrow> 'a :: field list list \<Rightarrow> 'a list list \<Rightarrow> 'a list \<Rightarrow> 'a list" where
  "permuted_low_rank_apply p u v x = mv u (mv v (map ((!) x) p))"

section \<open>Candidates\<close>

datatype 'a candidate =
    Low_Rank "'a list list" "'a list list"
  | Row_Centered "'a list" "'a list list" "'a list list"
  | Diag_Scaled "'a list" "'a list" "'a list list" "'a list list"
  | Permuted_Low_Rank "nat list" "'a list" "'a list list" "'a list list"
  | Sparse "(nat \<times> nat \<times> 'a) list"
  | Low_Rank_Sparse "'a list list" "'a list list" "(nat \<times> nat \<times> 'a) list"
  | Kronecker nat "'a list list" "'a list list"
  | Toeplitz "'a list"
  | Vector_Quantization nat "'a list list" "nat list list"
  | Basis nat "'a list list" "'a list list" "'a list list"
  | Column_Permutation "nat list" "'a list" "'a list list"
  | Low_Displacement "'a list list" "'a list list" 'a
  | Structured_Orthogonal "'a list list" "'a list" "'a list"
  | Hadamard_Walsh "'a list" "'a list"

fun cand_apply :: "(nat \<Rightarrow> 'a :: field) \<Rightarrow> nat \<Rightarrow> nat \<Rightarrow> 'a candidate \<Rightarrow> 'a list \<Rightarrow> 'a list res" where
  "cand_apply inv_sqrt m n (Low_Rank u v) x = Inr (low_rank_apply u v x)"
| "cand_apply inv_sqrt m n (Row_Centered mean u v) x = Inr (row_centered_apply mean u v x)"
| "cand_apply inv_sqrt m n (Diag_Scaled row col u v) x = Inr (diag_scaled_apply row col u v x)"
| "cand_apply inv_sqrt m n (Permuted_Low_Rank p blank u v) x = Inr (permuted_low_rank_apply p u v x)"
| "cand_apply inv_sqrt m n (Sparse entries) x = Inr (sparse_apply m entries x)"
| "cand_apply inv_sqrt m n (Low_Rank_Sparse u v entries) x = Inr (low_rank_sparse_apply u v entries x)"
| "cand_apply inv_sqrt m n (Kronecker q a b) x = Inr (kronecker_apply q a b x)"
| "cand_apply inv_sqrt m n (Toeplitz g) x = Inr (toeplitz_apply m n g x)"
| "cand_apply inv_sqrt m n (Vector_Quantization width c idx) x = Inr (vq_apply width c idx x)"
| "cand_apply inv_sqrt m n (Basis k a c b) x = Inr (basis_apply k a c b x)"
| "cand_apply inv_sqrt m n (Column_Permutation p blank z) x = Inr (permuted_apply p z x)"
| "cand_apply inv_sqrt m n (Low_Displacement u v sign) x = Inr (ldr_apply n u v sign x)"
| "cand_apply inv_sqrt m n (Structured_Orthogonal hv l r) x = Inr (orthogonal_apply hv l r x)"
| "cand_apply inv_sqrt m n (Hadamard_Walsh a b) x = diagonal_hadamard_apply inv_sqrt a b x"

fun cand_reconstruct :: "(nat \<Rightarrow> 'a :: field) \<Rightarrow> nat \<Rightarrow> nat \<Rightarrow> 'a candidate \<Rightarrow> 'a list list res" where
  "cand_reconstruct inv_sqrt m n (Low_Rank u v) = Inr (low_rank_reconstruct n u v)"
| "cand_reconstruct inv_sqrt m n (Row_Centered mean u v) = Inr (row_centered_reconstruct n mean u v)"
| "cand_reconstruct inv_sqrt m n (Diag_Scaled row col u v) = Inr (diag_scaled_reconstruct n row col u v)"
| "cand_reconstruct inv_sqrt m n (Permuted_Low_Rank p blank u v) = Inr (permuted_reconstruct p blank (mm n u v))"
| "cand_reconstruct inv_sqrt m n (Sparse entries) = Inr (sparse_reconstruct m n entries)"
| "cand_reconstruct inv_sqrt m n (Low_Rank_Sparse u v entries) = Inr (low_rank_sparse_reconstruct n u v entries)"
| "cand_reconstruct inv_sqrt m n (Kronecker q a b) = Inr (kron a b)"
| "cand_reconstruct inv_sqrt m n (Toeplitz g) = Inr (toeplitz_reconstruct m n g)"
| "cand_reconstruct inv_sqrt m n (Vector_Quantization width c idx) = Inr (vq_reconstruct c idx)"
| "cand_reconstruct inv_sqrt m n (Basis k a c b) = Inr (basis_reconstruct k n a c b)"
| "cand_reconstruct inv_sqrt m n (Column_Permutation p blank z) = Inr (permuted_reconstruct p blank z)"
| "cand_reconstruct inv_sqrt m n (Low_Displacement u v sign) = Inr (ldr_reconstruct n u v sign)"
| "cand_reconstruct inv_sqrt m n (Structured_Orthogonal hv l r) = Inr (probe (orthogonal_apply hv l r) n)"
| "cand_reconstruct inv_sqrt m n (Hadamard_Walsh a b) = diagonal_hadamard_reconstruct inv_sqrt n a b"

section \<open>Storage account\<close>

definition align :: "int \<Rightarrow> int \<Rightarrow> int" where
  "align v a = (v + a - 1) div a * a"

text \<open>The category of an array in the screen and in the continuation.\<close>

definition screen_category :: "string \<Rightarrow> string" where
  "screen_category name =
     (if contains ''index'' name then ''indexes''
      else if contains ''perm'' name then ''permutations''
      else if any_token [''scale'', ''offset'', ''exponent''] name then ''scales''
      else if contains ''residual'' name \<or> contains ''sparse'' name then ''residual''
      else if drop (length name - 7) name = ''_factor'' \<or> any_token [''core'', ''coeff'', ''generator'', ''codebook'', ''prototype''] name then ''factor''
      else ''payload'')"

definition screen_keys :: "string list" where
  "screen_keys = [''factor'', ''indexes'', ''permutations'', ''scales'', ''residual'', ''payload'']"

definition account_category :: "string \<Rightarrow> string" where
  "account_category name =
     (if contains ''index'' name \<or> contains ''code'' name then ''indexes_bytes''
      else if contains ''residual'' name \<or> contains ''correction'' name then ''residual_table_bytes''
      else if contains ''primary'' name \<or> contains ''prototype'' name then ''primary_table_bytes''
      else if contains ''scale'' name \<or> contains ''diagonal'' name then ''scales_bytes''
      else if contains ''sign'' name then ''signs_bytes''
      else if contains ''perm'' name then ''permutations_bytes''
      else if any_token [''core'', ''factor'', ''stage'', ''householder'', ''generator''] name then ''factor_bytes''
      else ''payload_bytes'')"

definition account_keys :: "string list" where
  "account_keys = [''indexes_bytes'', ''primary_table_bytes'', ''residual_table_bytes'', ''scales_bytes'', ''signs_bytes'', ''factor_bytes'',
     ''permutations_bytes'', ''payload_bytes'']"

record storage_account =
  st_categories :: "(string \<times> int) list"
  st_metadata :: int
  st_padding :: int
  st_serialized :: int

text \<open>The loop over the arrays, given by name and size; \<open>metadata\<close> is the length of the rendered descriptor.\<close>

definition storage_step :: "(string \<Rightarrow> string) \<Rightarrow> (string \<times> int) list \<times> int \<times> int \<Rightarrow> string \<times> int \<Rightarrow> (string \<times> int) list \<times> int \<times> int" where
  "storage_step category s entry = (case (s, entry) of ((cats, cursor, padding), (name, nbytes)) \<Rightarrow>
     let nxt = align cursor 64; cat = category name in
     (AList.update cat (get_default cats cat 0 + nbytes) cats, nxt + nbytes, padding + (nxt - cursor)))"

definition storage :: "(string \<Rightarrow> string) \<Rightarrow> string list \<Rightarrow> int \<Rightarrow> (string \<times> int) list \<Rightarrow> storage_account" where
  "storage category keys metadata arrays =
     (case foldl (storage_step category) (map (\<lambda>k. (k, 0)) keys, metadata, 0) arrays of (cats, cursor, padding) \<Rightarrow>
        let final = align cursor 64 in
        \<lparr>st_categories = cats, st_metadata = metadata, st_padding = padding + (final - cursor), st_serialized = final\<rparr>)"

section \<open>The front of the continuation\<close>

record 'k screen_row =
  sc_bytes :: int
  sc_error :: 'k
  sc_ms :: 'k

definition dominates :: "('k :: linorder) screen_row \<Rightarrow> 'k screen_row \<Rightarrow> bool" where
  "dominates q r \<longleftrightarrow> sc_bytes q \<le> sc_bytes r \<and> sc_error q \<le> sc_error r \<and> sc_ms q \<le> sc_ms r \<and>
     (sc_bytes q < sc_bytes r \<or> sc_error q < sc_error r \<or> sc_ms q < sc_ms r)"

definition tensor_pareto :: "('k :: linorder) screen_row list \<Rightarrow> 'k screen_row list" where
  "tensor_pareto combined = filter (\<lambda>r. \<not> list_ex (\<lambda>q. dominates q r) combined) combined"

section \<open>Products as sums\<close>

lemma dot_sum: "length x = n \<Longrightarrow> length y = n \<Longrightarrow> dot x y = (\<Sum>i<n. x ! i * y ! i)"
  by (simp add: dot_nth interv_sum_list_conv_sum_set_nat atLeast0LessThan)

lemma mv_length [simp]: "length (mv w x) = length w"
  by (simp add: mv_def)

lemma mm_length [simp]: "length (mm n u v) = length u"
  by (simp add: mm_def)

lemma mv_mm:
  assumes "\<forall>row \<in> set u. length row = length v" "\<forall>row \<in> set v. length row = n" "length x = n"
  shows "mv (mm n u v) x = mv u (mv v x)"
proof -
  have "dot (map (\<lambda>j. dot row (map (\<lambda>r. r ! j) v)) [0..<n]) x = dot row (mv v x)" if "row \<in> set u" for row
  proof -
    have l: "length row = length v" using assms(1) that by blast
    have "dot (map (\<lambda>j. dot row (map (\<lambda>r. r ! j) v)) [0..<n]) x = (\<Sum>j<n. (\<Sum>k<length v. row ! k * v ! k ! j) * x ! j)"
      using assms(3) l by (simp add: dot_sum[where n = n] dot_sum[where n = "length v"])
    also have "\<dots> = (\<Sum>k<length v. \<Sum>j<n. row ! k * (v ! k ! j * x ! j))"
      by (subst sum.swap) (simp add: sum_distrib_right mult.assoc)
    also have "\<dots> = dot row (mv v x)"
      using assms(2,3) l by (simp add: dot_sum[where n = n] dot_sum[where n = "length v"] mv_def sum_distrib_left)
    finally show ?thesis .
  qed
  then show ?thesis by (simp add: mm_def mv_def)
qed

lemma low_rank_exact:
  "\<forall>row \<in> set u. length row = length v \<Longrightarrow> \<forall>row \<in> set v. length row = n \<Longrightarrow> length x = n \<Longrightarrow>
   low_rank_apply u v x = mv (low_rank_reconstruct n u v) x"
  by (simp add: low_rank_apply_def low_rank_reconstruct_def mv_mm)

lemma basis_exact:
  assumes "\<forall>row \<in> set a. length row = length c" "\<forall>row \<in> set c. length row = k" "length b = n" "length x = n"
  shows "basis_apply k a c b x = mv (basis_reconstruct k n a c b) x"
proof -
  have "\<forall>row \<in> set (mm k a c). length row = length (transposed k b)" "\<forall>row \<in> set (transposed k b). length row = n"
    using assms(3) by (auto simp: mm_def transposed_def)
  then show ?thesis using assms by (simp add: basis_apply_def basis_reconstruct_def mv_mm transposed_def)
qed

section \<open>Sparse families\<close>

lemma dot_update:
  "length row = length x \<Longrightarrow> c < length x \<Longrightarrow> dot (row[c := s]) x = dot row x + (s - row ! c) * x ! c"
proof (induction row x arbitrary: c rule: list_induct2)
  case (Cons a row b x)
  then show ?case by (cases c) (simp_all add: dot_def algebra_simps)
qed simp

definition entries_in :: "nat \<Rightarrow> nat \<Rightarrow> (nat \<times> nat \<times> 'a) list \<Rightarrow> bool" where
  "entries_in m n entries \<longleftrightarrow> (\<forall>(r, c, s) \<in> set entries. r < m \<and> c < n) \<and> distinct (map (\<lambda>(r, c, s). (r, c)) entries)"

lemma put_entries_mv:
  assumes "entries_in (length z) n entries" "\<forall>row \<in> set z. length row = n" "length x = n"
  shows "mv (put_entries entries z) x = scatter (map (\<lambda>(r, c, s). (r, c, s - z ! r ! c)) entries) x (mv z x)"
  using assms
proof (induction entries arbitrary: z)
  case (Cons e entries)
  obtain r c s where e: "e = (r, c, s)" by (cases e)
  let ?z = "z[r := (z ! r)[c := s]]"
  have rc: "r < length z" "c < n" and other: "(r, c, s') \<notin> set entries" for s'
    using Cons.prems(1) by (force simp: entries_in_def e)+
  have row: "length (z ! r) = n" using Cons.prems(2) rc by simp
  have update: "mv ?z x = (mv z x)[r := mv z x ! r + (s - z ! r ! c) * x ! c]"
    using dot_update[of "z ! r" x c s] row rc Cons.prems(3) by (simp add: mv_def map_update)
  have same: "map (\<lambda>(r', c', s'). (r', c', s' - ?z ! r' ! c')) entries = map (\<lambda>(r', c', s'). (r', c', s' - z ! r' ! c')) entries"
    using rc row other by (auto simp: nth_list_update)
  have "\<forall>row \<in> set ?z. length row = n" using Cons.prems(2) row by (auto dest!: set_update_subset_insert[THEN subsetD])
  moreover have "entries_in (length ?z) n entries" using Cons.prems(1) by (auto simp: entries_in_def)
  ultimately have "mv (put_entries entries ?z) x = scatter (map (\<lambda>(r', c', s'). (r', c', s' - z ! r' ! c')) entries) x (mv ?z x)"
    using Cons.IH[of ?z] Cons.prems(3) unfolding same by blast
  then show ?case unfolding update by (simp add: e put_entries_def scatter_def)
qed (simp add: put_entries_def scatter_def)

lemma dot_zeros [simp]: "dot (replicate n 0) x = 0"
proof (induction n arbitrary: x)
  case (Suc n)
  then show ?case by (cases x) (simp_all add: dot_def)
qed (simp add: dot_def)

lemma sparse_exact:
  assumes "entries_in m n entries" "length x = n"
  shows "sparse_apply m entries x = mv (sparse_reconstruct m n entries) x"
proof -
  have "map (\<lambda>(r, c, s). (r, c, s - replicate m (replicate n 0) ! r ! c)) entries = entries"
    using assms(1) by (auto simp: entries_in_def intro!: map_idI)
  moreover have "mv (replicate m (replicate n 0)) x = replicate m 0" by (simp add: mv_def map_replicate)
  ultimately show ?thesis
    using put_entries_mv[of "replicate m (replicate n 0)" n entries x] assms by (simp add: sparse_apply_def sparse_reconstruct_def)
qed

lemma low_rank_sparse_exact:
  assumes "entries_in (length u) n entries" "\<forall>row \<in> set u. length row = length v" "\<forall>row \<in> set v. length row = n" "length x = n"
  shows "low_rank_sparse_apply u v entries x = mv (low_rank_sparse_reconstruct n u v entries) x"
proof -
  let ?z = "mm n u v"
  let ?es = "map (\<lambda>(r, c, s). (r, c, ?z ! r ! c + s)) entries"
  have "map (\<lambda>(r, c, s). (r, c)) ?es = map (\<lambda>(r, c, s). (r, c)) entries" by auto
  then have "distinct (map (\<lambda>(r, c, s). (r, c)) ?es)" using assms(1) by (simp only: entries_in_def)
  moreover have "\<forall>(r, c, s) \<in> set ?es. r < length ?z \<and> c < n" using assms(1) by (auto simp: entries_in_def)
  ultimately have "entries_in (length ?z) n ?es" by (simp only: entries_in_def simp_thms)
  moreover have "map (\<lambda>(r, c, s). (r, c, s - ?z ! r ! c)) ?es = entries" by (auto simp: comp_def intro!: map_idI)
  moreover have "\<forall>row \<in> set ?z. length row = n" by (auto simp: mm_def)
  ultimately show ?thesis
    using put_entries_mv[of ?z n ?es x] mv_mm[OF assms(2-4)] assms(4)
    by (simp add: low_rank_sparse_apply_def low_rank_sparse_reconstruct_def Let_def)
qed

section \<open>Structured families\<close>

lemma toeplitz_exact:
  assumes "length g = n + m - 1" "length x = n" "0 < n"
  shows "toeplitz_apply m n g x = mv (toeplitz_reconstruct m n g) x"
proof (rule nth_equalityI)
  show "length (toeplitz_apply m n g x) = length (mv (toeplitz_reconstruct m n g) x)"
    using assms by (simp add: toeplitz_apply_def convolve_def toeplitz_reconstruct_def)
next
  fix i assume "i < length (toeplitz_apply m n g x)"
  then have i: "i < m" by (simp add: toeplitz_apply_def)
  then have k: "n - 1 + i < length g + length x - 1" using assms by simp
  have "toeplitz_apply m n g x ! i = convolve g x ! (n - 1 + i)"
    using i k assms by (simp add: toeplitz_apply_def convolve_def)
  also have "\<dots> = sum_list (map (\<lambda>j. g ! (n - 1 + i - j) * x ! j) [0..<n])"
    using k i assms by (auto simp: convolve_def intro!: arg_cong[of _ _ sum_list])
  also have "\<dots> = dot (map (\<lambda>j. g ! (i + n - 1 - j)) [0..<n]) x"
    using assms i by (auto simp: dot_nth[where n = n] add.commute intro!: arg_cong[of _ _ sum_list])
  finally show "toeplitz_apply m n g x ! i = mv (toeplitz_reconstruct m n g) x ! i"
    using i by (simp add: mv_def toeplitz_reconstruct_def)
qed

lemma dot_concat:
  "\<forall>p \<in> set ps. length p = b \<Longrightarrow> length x = length ps * b \<Longrightarrow>
   dot (concat ps) x = sum_list (map2 dot ps (pieces_of b (length ps) x))"
proof (induction ps arbitrary: x)
  case (Cons p ps)
  have "dot (concat (p # ps)) x = dot p (take b x) + dot (concat ps) (drop b x)"
    using dot_append[of p "take b x" "concat ps" "drop b x"] Cons.prems by simp
  then show ?case using Cons.IH[of "drop b x"] Cons.prems by (simp add: pieces_Suc)
qed (simp add: dot_def)

lemma vq_exact:
  assumes "\<forall>p \<in> set c. length p = width" "\<forall>row \<in> set idx. length x = length row * width \<and> (\<forall>i \<in> set row. i < length c)"
  shows "vq_apply width c idx x = mv (vq_reconstruct c idx) x"
proof -
  have "foldl (+) 0 (map (\<lambda>b. dot (c ! (row ! b)) (take width (drop (b * width) x))) [0..<length row]) = dot (concat (map ((!) c) row)) x"
    if "row \<in> set idx" for row
  proof -
    have "dot (concat (map ((!) c) row)) x = sum_list (map2 dot (map ((!) c) row) (pieces_of width (length row) x))"
      using dot_concat[of "map ((!) c) row" width x] assms that by simp
    also have "map2 dot (map ((!) c) row) (pieces_of width (length row) x) =
        map (\<lambda>b. dot (c ! (row ! b)) (take width (drop (b * width) x))) [0..<length row]"
      by (auto simp: pieces_of_def intro!: nth_equalityI)
    finally show ?thesis by (simp add: foldl_conv_fold fold_plus_sum_list_rev add.commute)
  qed
  then show ?thesis by (simp add: vq_apply_def vq_reconstruct_def mv_def)
qed

lemma fill_permuted:
  assumes "distinct p" "length row = length p" "set p \<subseteq> {0..<length result}" "m \<le> length p"
  shows "let result' = fold (\<lambda>k result. result[p ! k := row ! k]) [0..<m] result in
    length result' = length result \<and> (\<forall>k<m. result' ! (p ! k) = row ! k)"
  using assms(4)
proof (induction m)
  case (Suc m)
  have "p ! k < length result" if "k < length p" for k using assms(3) that nth_mem by fastforce
  then show ?case using Suc assms(1) by (auto simp: Let_def less_Suc_eq nth_list_update nth_eq_iff_index_eq)
qed simp

lemma permuted_exact:
  assumes "mset p = mset [0..<n]" "\<forall>row \<in> set z. length row = n" "length blank = n" "length x = n"
  shows "permuted_apply p z x = mv (permuted_reconstruct p blank z) x"
proof -
  have p: "distinct p" "set p = {0..<n}" "length p = n"
    using assms(1) by (metis distinct_upt mset_eq_imp_distinct_iff, metis set_mset_mset set_upt, metis length_upt diff_zero size_mset)
  have "dot row (map ((!) x) p) = dot (fold (\<lambda>k result. result[p ! k := row ! k]) [0..<length p] blank) x" if "row \<in> set z" for row
  proof -
    let ?r = "fold (\<lambda>k result. result[p ! k := row ! k]) [0..<length p] blank"
    have r: "length ?r = n" "\<forall>k<n. ?r ! (p ! k) = row ! k"
      using fill_permuted[of p row blank "length p"] p assms(2,3) that by (auto simp: Let_def)
    have "map ((!) ?r) p = row" using r(2) p(3) assms(2) that by (auto intro!: nth_equalityI)
    then show ?thesis using dot_gather[OF assms(1) r(1) assms(4)] by simp
  qed
  then show ?thesis by (simp add: permuted_apply_def permuted_reconstruct_def mv_def)
qed

section \<open>Kronecker product\<close>

lemma dot_map_scaled: "dot (map ((*) c) xs) ys = c * dot xs ys"
  by (induction xs ys rule: list_induct2') (simp_all add: dot_def algebra_simps)

lemma kronecker_exact:
  assumes "length a = q" "\<forall>ra \<in> set a. length ra = q" "\<forall>rb \<in> set b. length rb = q" "length x = q * q"
  shows "kronecker_apply q a b x = mv (kron a b) x"
proof -
  let ?X = "pieces_of q q x"
  have X: "\<forall>p \<in> set ?X. length p = q" "length ?X = q" using pieces_lengths[of x q q] assms(4) by simp_all
  have "dot (concat (map (\<lambda>c. map ((*) c) rb) ra)) x = dot rb (map (\<lambda>j. dot ra (map (\<lambda>r. r ! j) ?X)) [0..<q])"
    if "ra \<in> set a" "rb \<in> set b" for ra rb
  proof -
    have l: "length ra = q" "length rb = q" using assms(2,3) that by auto
    have "dot (concat (map (\<lambda>c. map ((*) c) rb) ra)) x = sum_list (map2 dot (map (\<lambda>c. map ((*) c) rb) ra) ?X)"
      using dot_concat[of "map (\<lambda>c. map ((*) c) rb) ra" q x] l assms(4) by simp
    also have "map2 dot (map (\<lambda>c. map ((*) c) rb) ra) ?X = map (\<lambda>i. ra ! i * dot rb (?X ! i)) [0..<q]"
      using l X(2) by (auto simp: dot_map_scaled intro!: nth_equalityI)
    also have "sum_list \<dots> = (\<Sum>i<q. ra ! i * (\<Sum>j<q. rb ! j * ?X ! i ! j))"
      using l X by (auto simp: interv_sum_list_conv_sum_set_nat atLeast0LessThan dot_sum[where n = q] intro!: sum.cong)
    also have "\<dots> = (\<Sum>j<q. rb ! j * (\<Sum>i<q. ra ! i * ?X ! i ! j))"
      by (subst (2) sum_distrib_left, subst sum_distrib_left, subst sum.swap) (simp add: algebra_simps)
    also have "\<dots> = dot rb (map (\<lambda>j. dot ra (map (\<lambda>r. r ! j) ?X)) [0..<q])"
      using l X by (simp add: dot_sum[where n = q])
    finally show ?thesis .
  qed
  then have "map (\<lambda>rb. dot rb (map (\<lambda>j. dot ra (map (\<lambda>r. r ! j) ?X)) [0..<q])) b =
      map (\<lambda>rb. dot (concat (map (\<lambda>c. map ((*) c) rb) ra)) x) b" if "ra \<in> set a" for ra
    using that by simp
  then have "map (mv b) (mm q a ?X) = map (\<lambda>ra. mv (map (\<lambda>rb. concat (map (\<lambda>c. map ((*) c) rb) ra)) b) x) a"
    by (simp add: mm_def mv_def)
  then show ?thesis by (simp add: kronecker_apply_def kron_def mv_def map_concat comp_def)
qed

section \<open>Low displacement rank\<close>

definition shift_up :: "'a :: field list \<Rightarrow> 'a list" where
  "shift_up xs = tl xs @ [0]"

lemma shift_up_length [simp]: "xs \<noteq> [] \<Longrightarrow> length (shift_up xs) = length xs"
  by (simp add: shift_up_def)

text \<open>Row \<open>i\<close> of the result, by the recurrence both sides follow.\<close>

fun displaced :: "'a :: field \<Rightarrow> 'a list list \<Rightarrow> nat \<Rightarrow> 'a list \<Rightarrow> 'a" where
  "displaced sign w 0 x = dot (w ! 0) x"
| "displaced sign w (Suc i) x = dot (w ! Suc i) x + sign * displaced sign w i (shift_up x)"

lemma dot_shift: "length row = length x \<Longrightarrow> x \<noteq> [] \<Longrightarrow> dot (map ((*) s) (butlast row)) (tl x) = s * dot row (shift_up x)"
proof -
  assume a: "length row = length x" "x \<noteq> []"
  then have "dot row (shift_up x) = dot (butlast row @ [last row]) (tl x @ [0])"
    by (metis append_butlast_last_id length_0_conv shift_up_def)
  also have "\<dots> = dot (butlast row) (tl x)" using a by (simp add: dot_append) (simp add: dot_def)
  finally show ?thesis by (simp add: dot_map_scaled)
qed

lemma dot_plus: "length a = length b \<Longrightarrow> length b = length x \<Longrightarrow> dot (map2 (+) a b) x = dot a x + dot b x"
  by (induction a b x rule: list_induct3) (simp_all add: dot_def algebra_simps)

lemma ldr_row_dot:
  assumes "length row = length x" "length previous = length x" "x \<noteq> []"
  shows "dot (hd row # map2 (+) (tl row) (map ((*) s) (butlast previous))) x = dot row x + s * dot previous (shift_up x)"
proof -
  obtain a r where r: "row = a # r" using assms(1,3) by (cases row) auto
  obtain b y where y: "x = b # y" using assms(3) by (cases x) auto
  have "dot (map2 (+) r (map ((*) s) (butlast previous))) y = dot r y + dot (map ((*) s) (butlast previous)) y"
    using assms r y by (intro dot_plus) simp_all
  moreover have "dot (map ((*) s) (butlast previous)) y = s * dot previous (shift_up x)"
    using dot_shift[of previous x s] assms y by simp
  ultimately show ?thesis by (simp add: r y dot_def algebra_simps)
qed

lemma ldr_recurrence_dot:
  assumes "\<forall>row \<in> set (previous # rows). length row = n" "length x = n" "0 < n" "i < length rows"
  shows "dot (ldr_recurrence s previous rows ! i) x = displaced s (previous # rows) (Suc i) x"
  using assms
proof (induction i arbitrary: previous rows x)
  case 0
  then show ?case by (cases rows) (auto simp: Let_def ldr_row_dot)
next
  case (Suc i)
  obtain row rest where rows: "rows = row # rest" using Suc.prems(4) by (cases rows) auto
  let ?row = "hd row # map2 (+) (tl row) (map ((*) s) (butlast previous))"
  have l: "length ?row = n" using Suc.prems(1,3) rows by (cases row) auto
  have general: "displaced s (?row # rest) j y = displaced s (previous # row # rest) (Suc j) y" if "length y = n" "j \<le> length rest" for j y
    using that
  proof (induction j arbitrary: y)
    case 0
    then show ?case using ldr_row_dot[of row y previous s] Suc.prems(1,3) rows by auto
  next
    case (Suc j)
    have "y \<noteq> []" using Suc.prems(1) \<open>0 < n\<close> by auto
    then show ?case using Suc.IH[of "shift_up y"] Suc.prems by simp
  qed
  show ?case using Suc.IH[of ?row rest x] l Suc.prems rows general[of x "Suc i"] by (simp add: Let_def)
qed

text \<open>The same recurrence over the factors, as the rounds follow it.\<close>

fun displaced_factors :: "'a :: field \<Rightarrow> 'a list list \<Rightarrow> 'a list list \<Rightarrow> nat \<Rightarrow> 'a list \<Rightarrow> 'a" where
  "displaced_factors sign v ug 0 x = dot (ug ! 0) (mv v x)"
| "displaced_factors sign v ug (Suc i) x = dot (ug ! Suc i) (mv v x) + sign * displaced_factors sign v ug i (shift_up x)"

lemma displaced_mm:
  assumes "\<forall>row \<in> set u. length row = length v" "\<forall>row \<in> set v. length row = n" "0 < n"
  shows "length x = n \<Longrightarrow> i < length u \<Longrightarrow> displaced sign (mm n u v) i x = displaced_factors sign v u i x"
proof (induction i arbitrary: x)
  have row: "dot (mm n u v ! i) x = dot (u ! i) (mv v x)" if "length x = n" "i < length u" for i x
    using arg_cong[OF mv_mm[OF assms(1,2) that(1)], of "\<lambda>y. y ! i"] that(2) by (simp add: mv_def)
  case 0
  then show ?case using row by simp
next
  case (Suc i)
  then have "length (shift_up x) = n" using assms(3) by (cases x) (simp_all add: shift_up_def)
  moreover have "dot (mm n u v ! Suc i) x = dot (u ! Suc i) (mv v x)"
    using arg_cong[OF mv_mm[OF assms(1,2) Suc.prems(1)], of "\<lambda>y. y ! Suc i"] Suc.prems(2) by (simp add: mv_def)
  ultimately show ?case using Suc by simp
qed

definition zero_rows :: "nat \<Rightarrow> nat \<Rightarrow> 'a :: field list list \<Rightarrow> bool" where
  "zero_rows z k ug \<longleftrightarrow> (\<forall>r < z. r < length ug \<longrightarrow> ug ! r = replicate k 0)"

lemma displaced_zero: "zero_rows z k ug \<Longrightarrow> i < z \<Longrightarrow> i < length ug \<Longrightarrow> displaced_factors sign v ug i x = 0"
  by (induction i arbitrary: x) (simp_all add: zero_rows_def)

lemma shifted_rows_nth:
  assumes "i < length ug" "ug \<noteq> []"
  shows "length (shifted_rows sign ug) = length ug"
    "shifted_rows sign ug ! i = (if i = 0 then replicate (length (hd ug)) 0 else map ((*) sign) (ug ! (i - 1)))"
  using assms by (auto simp: shifted_rows_def nth_Cons' nth_butlast)

lemma displaced_shifted:
  "i < length ug \<Longrightarrow> ug \<noteq> [] \<Longrightarrow>
   displaced_factors sign v (shifted_rows sign ug) i x = (case i of 0 \<Rightarrow> 0 | Suc j \<Rightarrow> sign * displaced_factors sign v ug j x)"
proof (induction i arbitrary: x)
  case (Suc i)
  then show ?case using Suc.IH[of "shift_up x"] by (cases i) (simp_all add: shifted_rows_nth dot_map_scaled algebra_simps)
qed (simp add: shifted_rows_nth)

lemma ldr_rounds_nth:
  assumes "zero_rows z (length v) ug" "i < length ug" "i < k + z" "length y = length ug" "\<forall>row \<in> set ug. length row = length v" "xs \<noteq> []"
  shows "ldr_rounds k sign v ug xs y ! i = y ! i + displaced_factors sign v ug i xs"
  using assms
proof (induction k arbitrary: z ug xs y)
  case 0
  then show ?case using displaced_zero[of z "length v" ug i] by simp
next
  case (Suc k)
  have ne: "ug \<noteq> []" using Suc.prems(2) by auto
  then have hd: "length (hd ug) = length v" using Suc.prems(5) by simp
  let ?ug = "shifted_rows sign ug" and ?y = "map2 (+) y (mv ug (mv v xs))"
  have l: "length ?ug = length ug" using shifted_rows_nth(1)[OF Suc.prems(2) ne] .
  have "zero_rows (Suc z) (length v) ?ug"
    using Suc.prems(1) hd ne by (auto simp: zero_rows_def l shifted_rows_nth(2) map_replicate)
  moreover have "\<forall>row \<in> set ?ug. length row = length v"
    using Suc.prems(5) hd by (auto simp: shifted_rows_def dest: in_set_butlastD)
  ultimately have "ldr_rounds k sign v ?ug (shift_up xs) ?y ! i = ?y ! i + displaced_factors sign v ?ug i (shift_up xs)"
    using Suc.prems(2,3,4,6) by (intro Suc.IH[of "Suc z"]) (simp_all add: l shift_up_def)
  moreover have "?y ! i = y ! i + dot (ug ! i) (mv v xs)" using Suc.prems(2,4) by (simp add: mv_def)
  ultimately show ?case
    using displaced_shifted[OF Suc.prems(2) ne, of sign v "shift_up xs"] by (cases i) (simp_all add: shift_up_def)
qed

lemma ldr_rounds_length: "length y = length ug \<Longrightarrow> ug \<noteq> [] \<Longrightarrow> length (ldr_rounds k sign v ug xs y) = length ug"
  by (induction k arbitrary: ug xs y) (auto simp: shifted_rows_def)

text \<open>
  Low displacement rank: the application that shifts the left factor down and the input up in every round computes the
  product with the matrix that the recurrence along the diagonals reconstructs.
\<close>

lemma ldr_exact:
  assumes "length u = n" "\<forall>row \<in> set u. length row = length v" "\<forall>row \<in> set v. length row = n" "length x = n" "0 < n"
  shows "ldr_apply n u v sign x = mv (ldr_reconstruct n u v sign) x"
proof (rule nth_equalityI)
  have ne: "u \<noteq> []" "x \<noteq> []" using assms by auto
  obtain row rows where w: "mm n u v = row # rows" using ne(1) by (cases "mm n u v") (auto simp: mm_def)
  have lw: "length rows = n - 1" "\<forall>r \<in> set (row # rows). length r = n"
    using w assms(1) mm_length[of n u v] by (simp, auto simp: mm_def)
  have lr: "length (ldr_recurrence sign p rs) = length rs" for p rs by (induction rs arbitrary: p) (simp_all add: Let_def)
  show "length (ldr_apply n u v sign x) = length (mv (ldr_reconstruct n u v sign) x)"
    using assms(1,5) ne(1) lw(1) by (simp add: ldr_apply_def ldr_rounds_length ldr_reconstruct_def w lr)
  fix i assume "i < length (ldr_apply n u v sign x)"
  then have i: "i < n" using assms(1) ne(1) by (simp add: ldr_apply_def ldr_rounds_length)
  have "ldr_apply n u v sign x ! i = displaced_factors sign v u i x"
    using ldr_rounds_nth[of 0 v u i n "replicate n 0" x sign] i ne(2) assms(1,2) by (simp add: ldr_apply_def zero_rows_def)
  also have "\<dots> = displaced sign (row # rows) i x"
    using displaced_mm[OF assms(2,3,5,4), of i sign] i assms(1) w by simp
  also have "\<dots> = mv (ldr_reconstruct n u v sign) x ! i"
    using ldr_recurrence_dot[of row rows n x "i - 1" sign] lw assms(4,5) i lr
    by (cases i) (simp_all add: ldr_reconstruct_def w mv_def)
  finally show "ldr_apply n u v sign x ! i = mv (ldr_reconstruct n u v sign) x ! i" .
qed

text \<open>The reconstruction inverts the displacement: with factors that fit it exactly, the matrix comes back.\<close>

lemma ldr_recurrence_inverse:
  "\<forall>row \<in> set (previous # rows). length row = n \<Longrightarrow> 0 < n \<Longrightarrow> ldr_recurrence sign previous (displacement_rows sign previous rows) = rows"
proof (induction rows arbitrary: previous)
  case (Cons row rows)
  have "map2 (+) (map2 (-) a b) b = a" if "length a = length b" for a b :: "'a list"
    using that by (induction a b rule: list_induct2) simp_all
  then have "map2 (+) (map2 (-) (tl row) (map ((*) sign) (butlast previous))) (map ((*) sign) (butlast previous)) = tl row"
    using Cons.prems(1) by simp
  moreover have "hd row # tl row = row" using Cons.prems by (cases row) auto
  ultimately show ?case using Cons by (simp add: Let_def)
qed simp

theorem ldr_inverse:
  assumes "mm n u v = displacement sign w" "\<forall>row \<in> set w. length row = n" "0 < n"
  shows "ldr_reconstruct n u v sign = w"
  using assms ldr_recurrence_inverse[of _ _ n sign] by (cases w) (simp_all add: ldr_reconstruct_def displacement_def)

section \<open>Probed matrices\<close>

lemma dot_unit: "length x = n \<Longrightarrow> i < n \<Longrightarrow> dot (unit_vector n i) x = x ! i"
  using dot_update[of "replicate n 0" x i 1] by (simp add: unit_vector_def)

text \<open>A map with an adjoint is given by its images of the unit vectors.\<close>

lemma probe_exact:
  assumes "\<And>x. length x = n \<Longrightarrow> length (f x) = n" "\<And>x. length x = n \<Longrightarrow> length (g x) = n"
    and "\<And>x y. length x = n \<Longrightarrow> length y = n \<Longrightarrow> dot (f x) y = dot x (g y)" "length x = n"
  shows "mv (probe f n) x = f x"
proof (rule nth_equalityI)
  show "length (mv (probe f n) x) = length (f x)" using assms(1,4) by (simp add: probe_def)
  fix i assume "i < length (mv (probe f n) x)"
  then have i: "i < n" by (simp add: probe_def)
  have e: "length (unit_vector n j :: 'a list) = n" for j by (simp add: unit_vector_def)
  have "f y ! i = dot y (g (unit_vector n i))" if "length y = n" for y
    using dot_unit[of "f y" n i] assms(1,3) e i that by (metis dot_commute)
  moreover from this have "map (\<lambda>j. f (unit_vector n j) ! i) [0..<n] = g (unit_vector n i)"
    using e assms(2) dot_unit[of "g (unit_vector n i)" n] by (intro nth_equalityI) simp_all
  ultimately show "mv (probe f n) x ! i = f x ! i" using i assms(4) by (simp add: probe_def mv_def dot_commute)
qed

lemma dot_weighted: "length l = length y \<Longrightarrow> length y = length z \<Longrightarrow> dot (map2 (*) l y) z = dot y (map2 (*) l z)"
  by (induction l y z rule: list_induct3) (simp_all add: dot_def algebra_simps)

lemma dot_reflected:
  "length y = length v \<Longrightarrow> length v = length z \<Longrightarrow> dot (map2 (\<lambda>a b. a - 2 * b * c) y v) z = dot y z - 2 * c * dot v z"
  by (induction y v z rule: list_induct3) (simp_all add: dot_def algebra_simps)

lemma house_length: "\<forall>v \<in> set vecs. length v = length x \<Longrightarrow> length (house_apply vecs x) = length x"
  by (induction vecs arbitrary: x) (simp_all add: house_apply_def)

lemma house_adjoint:
  "\<forall>v \<in> set vecs. length v = n \<Longrightarrow> length x = n \<Longrightarrow> length y = n \<Longrightarrow> dot (house_apply vecs x) y = dot x (house_apply (rev vecs) y)"
proof (induction vecs arbitrary: x)
  case (Cons v vecs)
  let ?r = "\<lambda>x. map2 (\<lambda>a b. a - 2 * b * dot v x) x v"
  have l: "length v = n" "length (house_apply (rev vecs) y) = n" using Cons.prems house_length[of "rev vecs" y] by simp_all
  have "dot (house_apply (v # vecs) x) y = dot (?r x) (house_apply (rev vecs) y)"
    using Cons.IH[of "?r x"] Cons.prems l by (simp add: house_apply_def)
  also have "\<dots> = dot x (?r (house_apply (rev vecs) y))"
    using dot_reflected[of x v "house_apply (rev vecs) y" "dot v x"] dot_reflected[of "house_apply (rev vecs) y" v x "dot v (house_apply (rev vecs) y)"]
      Cons.prems l by (simp add: dot_commute[of x] mult.commute)
  also have "?r (house_apply (rev vecs) y) = house_apply (rev (v # vecs)) y" by (simp add: house_apply_def)
  finally show ?case .
qed (simp add: house_apply_def)

lemma orthogonal_exact:
  assumes "\<forall>v \<in> set hv. length v = n" "length l = n" "length r = n" "length x = n"
  shows "orthogonal_apply hv l r x = mv (probe (orthogonal_apply hv l r) n) x"
proof (rule probe_exact[symmetric])
  let ?g = "\<lambda>y. map2 (*) r (house_apply (rev hv) (map2 (*) l y))"
  fix x y :: "'a list" assume x: "length x = n"
  then show "length (orthogonal_apply hv l r x) = n" "length (?g x) = n"
    using assms by (simp_all add: orthogonal_apply_def house_length)
  assume y: "length y = n"
  have "dot (orthogonal_apply hv l r x) y = dot (house_apply hv (map2 (*) r x)) (map2 (*) l y)"
    using x y assms by (simp add: orthogonal_apply_def dot_weighted house_length)
  also have "\<dots> = dot (map2 (*) r x) (house_apply (rev hv) (map2 (*) l y))"
    using house_adjoint[of hv n "map2 (*) r x" "map2 (*) l y"] x y assms by simp
  also have "\<dots> = dot x (?g y)" using x y assms by (simp add: dot_weighted house_length)
  finally show "dot (orthogonal_apply hv l r x) y = dot x (?g y)" .
qed (use assms in simp)

lemma dot_sum_left: "length a = length b \<Longrightarrow> length b = length y \<Longrightarrow> dot (map2 (-) a b) y = dot a y - dot b y"
  by (induction a b y rule: list_induct3) (simp_all add: dot_def algebra_simps)

lemma regroup: "a + b + (c - d) = a + c + (b - d)" for a b c d :: "'a :: field"
  by simp

lemma sylvester_self_adjoint:
  "length x = 2 ^ n \<Longrightarrow> length y = 2 ^ n \<Longrightarrow> dot (sylvester n x) y = dot x (sylvester n y)"
proof (induction n arbitrary: x y)
  case (Suc n)
  let ?m = "2 ^ n"
  let ?x1 = "take ?m x" and ?x2 = "drop ?m x" and ?y1 = "take ?m y" and ?y2 = "drop ?m y"
  have l: "length ?x1 = ?m" "length ?x2 = ?m" "length ?y1 = ?m" "length ?y2 = ?m" using Suc.prems by simp_all
  have split: "dot (sylvester (Suc n) u) z =
      dot (sylvester n (take ?m u)) (take ?m z) + dot (sylvester n (drop ?m u)) (take ?m z) +
      (dot (sylvester n (take ?m u)) (drop ?m z) - dot (sylvester n (drop ?m u)) (drop ?m z))"
    if "length u = 2 ^ Suc n" "length z = 2 ^ Suc n" for u z :: "'a list"
  proof -
    let ?a = "sylvester n (take ?m u)" and ?b = "sylvester n (drop ?m u)"
    have l: "length ?a = ?m" "length ?b = ?m" "length (take ?m z) = ?m" "length (drop ?m z) = ?m" using that by simp_all
    have "dot (sylvester (Suc n) u) z = dot (map2 (+) ?a ?b) (take ?m z) + dot (map2 (-) ?a ?b) (drop ?m z)"
      using dot_append[of "map2 (+) ?a ?b" "take ?m z" "map2 (-) ?a ?b" "drop ?m z"] l by (simp add: Let_def)
    then show ?thesis using l by (simp add: dot_plus dot_sum_left)
  qed
  have IH: "dot (sylvester n u) z = dot (sylvester n z) u" if "length u = ?m" "length z = ?m" for u z :: "'a list"
    using Suc.IH[OF that] by (simp add: dot_commute)
  have "dot (sylvester (Suc n) x) y = dot (sylvester (Suc n) y) x"
    unfolding split[OF Suc.prems] split[OF Suc.prems(2,1)] IH[OF l(1,3)] IH[OF l(2,3)] IH[OF l(1,4)] IH[OF l(2,4)]
    by (rule regroup)
  also have "\<dots> = dot x (sylvester (Suc n) y)" by (rule dot_commute)
  finally show ?case .
qed simp

lemma fwht_value: "length x = 2 ^ k \<Longrightarrow> fwht inv_sqrt x = Inr (map (\<lambda>a. a * inv_sqrt (2 ^ k)) (sylvester k x))"
  unfolding fwht_def by (simp only: hadamard_passes_sylvester bind_res_simps)

lemma dot_scaled_left: "dot (map (\<lambda>a. a * c) x) y = c * dot x y"
  by (induction x y rule: list_induct2') (simp_all add: dot_def algebra_simps)

lemma hadamard_matrix_value:
  assumes "n = 2 ^ k"
  shows "hadamard_matrix inv_sqrt n = Inr (probe (\<lambda>x. map (\<lambda>a. a * inv_sqrt (2 ^ k)) (sylvester k x)) n)"
proof -
  have "map_res (\<lambda>j. fwht inv_sqrt (unit_vector n j)) [0..<n] =
      Inr (map (\<lambda>j. map (\<lambda>a. a * inv_sqrt (2 ^ k)) (sylvester k (unit_vector n j))) [0..<n])"
    using assms by (intro map_res_Inr fwht_value) (simp add: unit_vector_def)
  then show ?thesis by (simp add: hadamard_matrix_def probe_def transposed_def comp_def)
qed

lemma diagonal_hadamard_exact:
  assumes "n = 2 ^ k" "length a = n" "length b = n" "length x = n"
  shows "\<exists>y w. diagonal_hadamard_apply inv_sqrt a b x = Inr y \<and> diagonal_hadamard_reconstruct inv_sqrt n a b = Inr w \<and> y = mv w x"
proof -
  let ?f = "\<lambda>x. map (\<lambda>e. e * inv_sqrt (2 ^ k)) (sylvester k x)"
  let ?h = "probe ?f n"
  have "dot (?f x) y = dot x (?f y)" if "length x = n" "length y = n" for x y
    using that assms(1) sylvester_self_adjoint[of x k y] by (simp add: dot_scaled_left dot_commute[of x])
  then have "mv ?h z = ?f z" if "length z = n" for z
    using that assms(1) by (intro probe_exact[of n ?f ?f]) simp_all
  then have f: "?f (map2 (*) b x) = mv ?h (map2 (*) b x)" using assms by simp
  have "dot (map2 (\<lambda>e d. c * e * d) row b) x = c * dot row (map2 (*) b x)" if "length row = n" for c row
  proof -
    have "length row = length b" "length b = length x" using that assms by simp_all
    then show ?thesis by (induction row b x rule: list_induct3) (simp_all add: dot_def algebra_simps)
  qed
  moreover have "\<forall>row \<in> set ?h. length row = n" "length ?h = n" by (auto simp: probe_def)
  ultimately have "map2 (*) a (mv ?h (map2 (*) b x)) = mv (map2 (\<lambda>c row. map2 (\<lambda>e d. c * e * d) row b) a ?h) x"
    using assms(2) by (intro nth_equalityI) (simp_all add: mv_def)
  then have "map2 (*) a (?f (map2 (*) b x)) = mv (map2 (\<lambda>c row. map2 (\<lambda>e d. c * e * d) row b) a ?h) x" unfolding f .
  moreover have "diagonal_hadamard_apply inv_sqrt a b x = Inr (map2 (*) a (?f (map2 (*) b x)))"
    using assms by (simp add: diagonal_hadamard_apply_def fwht_value[of "map2 (*) b x" k])
  moreover have "diagonal_hadamard_reconstruct inv_sqrt n a b = Inr (map2 (\<lambda>c row. map2 (\<lambda>e d. c * e * d) row b) a ?h)"
    by (simp add: diagonal_hadamard_reconstruct_def hadamard_matrix_value[OF assms(1)])
  ultimately show ?thesis by blast
qed

section \<open>Every direct application is exact\<close>

lemma row_centered_exact:
  assumes "\<forall>row \<in> set u. length row = length v" "\<forall>row \<in> set v. length row = n" "length mean = length u" "length x = n"
  shows "row_centered_apply mean u v x = mv (row_centered_reconstruct n mean u v) x"
proof -
  have "dot (map (\<lambda>b. b + a) row) x = a * sum_list x + dot row x" if "length row = n" for row a
  proof -
    have "length row = length x" using that assms(4) by simp
    then show ?thesis by (induction row x rule: list_induct2) (simp_all add: dot_def algebra_simps)
  qed
  moreover have "\<forall>row \<in> set (mm n u v). length row = n" by (auto simp: mm_def)
  moreover have "mv u (mv v x) = mv (mm n u v) x" using mv_mm[OF assms(1,2,4)] by simp
  ultimately show ?thesis using assms(3)
    by (intro nth_equalityI) (simp_all add: row_centered_apply_def row_centered_reconstruct_def mv_def)
qed

lemma diag_scaled_exact:
  assumes "\<forall>r \<in> set u. length r = length v" "\<forall>r \<in> set v. length r = n" "length row = length u" "length col = n" "length x = n"
  shows "diag_scaled_apply row col u v x = mv (diag_scaled_reconstruct n row col u v) x"
proof -
  have "dot (map2 (\<lambda>e d. c * e * d) w col) x = c * dot w (map2 (*) col x)" if "length w = n" for w c
  proof -
    have "length w = length col" "length col = length x" using that assms(4,5) by simp_all
    then show ?thesis by (induction w col x rule: list_induct3) (simp_all add: dot_def algebra_simps)
  qed
  moreover have "\<forall>w \<in> set (mm n u v). length w = n" by (auto simp: mm_def)
  moreover have "mv u (mv v (map2 (*) col x)) = mv (mm n u v) (map2 (*) col x)" using mv_mm[OF assms(1,2)] assms(4,5) by simp
  ultimately show ?thesis using assms(3)
    by (intro nth_equalityI) (simp_all add: diag_scaled_apply_def diag_scaled_reconstruct_def mv_def)
qed

lemma permuted_low_rank_exact:
  assumes "mset p = mset [0..<n]" "\<forall>r \<in> set u. length r = length v" "\<forall>r \<in> set v. length r = n" "length blank = n" "length x = n"
  shows "permuted_low_rank_apply p u v x = mv (permuted_reconstruct p blank (mm n u v)) x"
proof -
  have "length p = n" using assms(1) by (metis length_upt diff_zero size_mset)
  then have "permuted_low_rank_apply p u v x = permuted_apply p (mm n u v) x"
    using mv_mm[OF assms(2,3), of "map ((!) x) p"] by (simp add: permuted_low_rank_apply_def permuted_apply_def)
  also have "\<forall>row \<in> set (mm n u v). length row = n" by (auto simp: mm_def)
  note permuted_exact[OF assms(1) this assms(4,5)]
  finally show ?thesis .
qed

text \<open>The shapes the fits produce for a matrix of \<open>m\<close> rows and \<open>n\<close> columns.\<close>

definition factors :: "nat \<Rightarrow> nat \<Rightarrow> 'a list list \<Rightarrow> 'a list list \<Rightarrow> bool" where
  "factors m n u v \<longleftrightarrow> length u = m \<and> (\<forall>row \<in> set u. length row = length v) \<and> (\<forall>row \<in> set v. length row = n)"

fun well_formed :: "nat \<Rightarrow> nat \<Rightarrow> 'a candidate \<Rightarrow> bool" where
  "well_formed m n (Low_Rank u v) \<longleftrightarrow> factors m n u v"
| "well_formed m n (Row_Centered mean u v) \<longleftrightarrow> factors m n u v \<and> length mean = m"
| "well_formed m n (Diag_Scaled row col u v) \<longleftrightarrow> factors m n u v \<and> length row = m \<and> length col = n"
| "well_formed m n (Permuted_Low_Rank p blank u v) \<longleftrightarrow> factors m n u v \<and> mset p = mset [0..<n] \<and> length blank = n"
| "well_formed m n (Sparse entries) \<longleftrightarrow> entries_in m n entries"
| "well_formed m n (Low_Rank_Sparse u v entries) \<longleftrightarrow> factors m n u v \<and> entries_in m n entries"
| "well_formed m n (Kronecker q a b) \<longleftrightarrow> length a = q \<and> (\<forall>ra \<in> set a. length ra = q) \<and> (\<forall>rb \<in> set b. length rb = q) \<and> n = q * q"
| "well_formed m n (Toeplitz g) \<longleftrightarrow> length g = n + m - 1"
| "well_formed m n (Vector_Quantization width c idx) \<longleftrightarrow>
     (\<forall>p \<in> set c. length p = width) \<and> (\<forall>row \<in> set idx. n = length row * width \<and> (\<forall>i \<in> set row. i < length c))"
| "well_formed m n (Basis k a c b) \<longleftrightarrow> (\<forall>row \<in> set a. length row = length c) \<and> (\<forall>row \<in> set c. length row = k) \<and> length b = n"
| "well_formed m n (Column_Permutation p blank z) \<longleftrightarrow> mset p = mset [0..<n] \<and> (\<forall>row \<in> set z. length row = n) \<and> length blank = n"
| "well_formed m n (Low_Displacement u v sign) \<longleftrightarrow> factors n n u v"
| "well_formed m n (Structured_Orthogonal hv l r) \<longleftrightarrow> (\<forall>v \<in> set hv. length v = n) \<and> length l = n \<and> length r = n"
| "well_formed m n (Hadamard_Walsh a b) \<longleftrightarrow> (\<exists>k \<le> n. n = 2 ^ k) \<and> length a = n \<and> length b = n"

text \<open>
  C11. The direct application of every modelled family is exact: for a candidate of the right shapes and an input of the
  right length, both sides of the candidate return, and what the direct application computes is the product of
  the reconstructed matrix with the input.  So where rounding does not matter the action error of a row is that of
  its matrix.
\<close>

theorem direct_application_exact:
  assumes "well_formed m n c" "length x = n" "0 < n"
  shows "\<exists>y w. cand_apply inv_sqrt m n c x = Inr y \<and> cand_reconstruct inv_sqrt m n c = Inr w \<and> y = mv w x"
proof (cases c)
  case (Hadamard_Walsh a b)
  then show ?thesis using assms diagonal_hadamard_exact[of n _ a b x inv_sqrt] by auto
next
  case (Structured_Orthogonal hv l r)
  then show ?thesis using assms orthogonal_exact[of hv n l r x] by simp
next
  case (Permuted_Low_Rank p blank u v)
  then show ?thesis using assms permuted_low_rank_exact[of p n u v blank x] by (simp add: factors_def)
next
  case (Column_Permutation p blank z)
  then show ?thesis using assms permuted_exact[of p n z blank x] by simp
qed (use assms in \<open>auto simp: factors_def low_rank_exact row_centered_exact diag_scaled_exact sparse_exact
    low_rank_sparse_exact kronecker_exact toeplitz_exact vq_exact basis_exact ldr_exact\<close>)

theorem direct_application_exact_witness:
  "\<exists>y w. cand_apply (\<lambda>_. 1) 3 3 (Low_Displacement [[1], [2], [3]] [[1, 0, 2]] (-1 :: rat)) [1, 2, 4] = Inr y \<and>
     cand_reconstruct (\<lambda>_. 1) 3 3 (Low_Displacement [[1], [2], [3]] [[1, 0, 2]] (-1)) = Inr w \<and> y = mv w [1, 2, 4] \<and> y = [9, 16, 27]"
proof -
  have "well_formed 3 3 (Low_Displacement [[1], [2], [3]] [[1, 0, 2]] (-1 :: rat))" by (simp add: factors_def)
  moreover have "cand_apply (\<lambda>_. 1) 3 3 (Low_Displacement [[1], [2], [3]] [[1, 0, 2]] (-1 :: rat)) [1, 2, 4] = Inr [9, 16, 27]"
    by code_simp
  ultimately show ?thesis
    using direct_application_exact[of 3 3 "Low_Displacement [[1], [2], [3]] [[1, 0, 2]] (-1 :: rat)" "[1, 2, 4]" "\<lambda>_. 1"] by simp
qed

section \<open>The account is exact\<close>

interpretation screen_al: aligner align "\<lambda>a. 0 < a"
proof
  fix a v :: int
  assume a: "0 < a"
  have eq: "align v a = v + a - 1 - (v + a - 1) mod a" by (simp add: align_def minus_mod_eq_div_mult)
  show "v \<le> align v a" "align v a < v + a" using eq a pos_mod_bound[of a "v + a - 1"] pos_mod_sign[of a "v + a - 1"] by linarith+
qed (simp_all add: align_def)

lemma sum_update:
  assumes "k \<in> set (map fst cats)" "distinct (map fst cats)"
  shows "sum_list (map snd (AList.update k (get_default cats k 0 + v) cats)) = sum_list (map snd cats) + (v :: int)"
  using assms
proof (induction cats)
  case (Cons c cats)
  obtain k' w where c: "c = (k', w)" by (cases c)
  show ?case
  proof (cases "k' = k")
    case False
    moreover from this have "get_default (c # cats) k 0 = get_default cats k 0" by (simp add: c get_default_def)
    ultimately show ?thesis using Cons by (simp add: c)
  qed (simp add: c get_default_def)
qed simp

lemma storage_loop:
  assumes "\<forall>name. category name \<in> set keys" "distinct keys"
    and "foldl (storage_step category) (map (\<lambda>k. (k, 0)) keys, metadata, 0) arrays = (cats, cursor, padding)"
  shows "map fst cats = keys \<and> cursor = metadata + padding + sum_list (map snd cats) \<and>
    sum_list (map snd cats) = sum_list (map snd arrays) \<and> 0 \<le> padding \<and> padding \<le> 63 * int (length arrays)"
  using assms(3)
proof (induction arrays arbitrary: cats cursor padding rule: rev_induct)
  case (snoc entry arrays)
  obtain cats' cursor' padding' where s: "foldl (storage_step category) (map (\<lambda>k. (k, 0)) keys, metadata, 0) arrays = (cats', cursor', padding')"
    by (metis prod_cases3)
  obtain name nbytes where e: "entry = (name, nbytes)" by (cases entry)
  note IH = snoc.IH[OF s]
  have k: "category name \<in> set (map fst cats')" "distinct (map fst cats')" using IH assms(1,2) by simp_all
  have "map fst (AList.update (category name) v cats') = map fst cats'" for v using k by (simp add: update_keys)
  moreover have "storage_step category (cats', cursor', padding') entry = (cats, cursor, padding)" using snoc.prems by (simp add: s)
  ultimately show ?case
    using IH sum_update[OF k, of nbytes] screen_al.al_ge[of 64 cursor'] screen_al.al_lt[of 64 cursor']
    by (auto simp: e storage_step_def Let_def)
qed (auto simp: comp_def)

lemma categories_listed: "screen_category name \<in> set screen_keys" "account_category name \<in> set account_keys"
  by (simp_all add: screen_category_def screen_keys_def account_category_def account_keys_def)

lemma keys_distinct: "distinct screen_keys" "distinct account_keys"
  by (simp_all add: screen_keys_def account_keys_def)

text \<open>
  The storage account is exact in both scripts: the serialized size is the smallest multiple of 64 that ends after the
  last array, it is the metadata, the padding and the categories, each byte of an array is counted in exactly one category,
  and the padding is less than 64 bytes for each array and for the end.
\<close>

theorem storage_exact:
  "\<forall>(category, keys) \<in> {(screen_category, screen_keys), (account_category, account_keys)}.
     let st = storage category keys metadata arrays in
     64 dvd st_serialized st \<and> st_serialized st = st_metadata st + st_padding st + sum_list (map snd (st_categories st)) \<and>
     map fst (st_categories st) = keys \<and> sum_list (map snd (st_categories st)) = sum_list (map snd arrays) \<and>
     0 \<le> st_padding st \<and> st_padding st \<le> 63 * (int (length arrays) + 1)"
proof -
  have "let st = storage category keys metadata arrays in
     64 dvd st_serialized st \<and> st_serialized st = st_metadata st + st_padding st + sum_list (map snd (st_categories st)) \<and>
     map fst (st_categories st) = keys \<and> sum_list (map snd (st_categories st)) = sum_list (map snd arrays) \<and>
     0 \<le> st_padding st \<and> st_padding st \<le> 63 * (int (length arrays) + 1)"
    if k: "\<forall>name. category name \<in> set keys" "distinct keys" for category keys
  proof -
    obtain cats cursor padding where s: "foldl (storage_step category) (map (\<lambda>k. (k, 0)) keys, metadata, 0) arrays = (cats, cursor, padding)"
      by (metis prod_cases3)
    show ?thesis
      using storage_loop[OF k s] screen_al.al_ge[of 64 cursor] screen_al.al_lt[of 64 cursor] screen_al.al_dvd[of 64 cursor]
      by (simp add: storage_def s Let_def)
  qed
  then show ?thesis using categories_listed keys_distinct by blast
qed

section \<open>The front is complete\<close>

lemma dominates_trans: "dominates p q \<Longrightarrow> dominates q r \<Longrightarrow> dominates p r"
  by (auto simp: dominates_def)

text \<open>Every row that is not on the front is dominated by a row that is.\<close>

theorem tensor_pareto_complete:
  assumes "r \<in> set combined" "r \<notin> set (tensor_pareto combined)"
  shows "\<exists>p \<in> set (tensor_pareto combined). dominates p r"
  using assms
proof (induction "card {q \<in> set combined. dominates q r}" arbitrary: r rule: less_induct)
  case less
  obtain q where q: "q \<in> set combined" "dominates q r" using less.prems by (auto simp: tensor_pareto_def list_ex_iff)
  show ?case
  proof (cases "q \<in> set (tensor_pareto combined)")
    case False
    have "{p \<in> set combined. dominates p q} \<subset> {p \<in> set combined. dominates p r}"
      using q dominates_trans[of _ q r] by (auto simp: dominates_def)
    then have "card {p \<in> set combined. dominates p q} < card {p \<in> set combined. dominates p r}"
      by (intro psubset_card_mono) auto
    from less.hyps[OF this q(1) False] show ?thesis using q(2) dominates_trans by blast
  qed (use q in blast)
qed

theorem tensor_pareto_complete_witness:
  "\<exists>p \<in> set (tensor_pareto [\<lparr>sc_bytes = 5, sc_error = 2, sc_ms = 1 :: rat\<rparr>, \<lparr>sc_bytes = 4, sc_error = 2, sc_ms = 1\<rparr>]).
     dominates p \<lparr>sc_bytes = 5, sc_error = 2, sc_ms = 1\<rparr>"
  using tensor_pareto_complete[of "\<lparr>sc_bytes = 5, sc_error = 2, sc_ms = 1 :: rat\<rparr>"
      "[\<lparr>sc_bytes = 5, sc_error = 2, sc_ms = 1\<rparr>, \<lparr>sc_bytes = 4, sc_error = 2, sc_ms = 1\<rparr>]"]
  by (simp add: tensor_pareto_def dominates_def)

end
