(* ===== verification/Tokenizer19.thy ===== *)
theory Tokenizer19
  imports Manifest18
begin

text \<open>
  The tokenizer qualification of step 19b, \<open>scripts/qualify_step19b.py\<close>: the type inventory, a second pass
  over the GGUF header, the digest of a sequence, the checks every artifact has to pass before its tokenizer
  counts as qualified, and the rows of the inventory, merge and parity reports.  SHA-256 is the parameter
  \<open>sha\<close>; \<open>repr\<close> of a float and \<open>int\<close> of one are \<open>render\<close> and \<open>coerce\<close>.  The pinned checkout of the
  consumer, the hash check of the models and the output files are left out.
\<close>

definition TOKENIZER_KEYS :: "string list" where
  "TOKENIZER_KEYS = [''tokenizer.ggml.model'', ''tokenizer.ggml.pre'', ''tokenizer.ggml.tokens'',
     ''tokenizer.ggml.token_type'', ''tokenizer.ggml.merges'', ''tokenizer.ggml.bos_token_id'',
     ''tokenizer.ggml.eos_token_id'', ''tokenizer.ggml.padding_token_id'',
     ''tokenizer.ggml.add_bos_token'', ''tokenizer.chat_template'']"

section \<open>Types\<close>

definition type_label :: "int \<Rightarrow> string" where
  "type_label value_type = (case map_of [(0, ''u8''), (1, ''i8''), (2, ''u16''), (3, ''i16''), (4, ''u32''), (5, ''i32''), (6, ''f32''),
     (7, ''bool''), (10, ''u64''), (11, ''i64''), (12, ''f64'')] value_type of Some n \<Rightarrow> n | None \<Rightarrow> ''type-'' @ show_int value_type)"

text \<open>One entry; the fuel bounds the nesting of arrays, as in \<open>rd_value\<close>.\<close>

definition rd_type_entry :: "nat \<Rightarrow> (string \<times> string) parser" where
  "rd_type_entry fuel = rbind rd_string (\<lambda>key. rbind (rd_unsigned 4) (\<lambda>value_type.
     if value_type = 8 then rbind rd_string (\<lambda>_. rreturn (key, ''string''))
     else if value_type = 9 then
       rbind (rd_unsigned 4) (\<lambda>element_type. rbind (rd_unsigned 8) (\<lambda>count.
       rbind (rtimes (nat count) (rd_value (fuel - 1) element_type)) (\<lambda>_.
       rreturn (key, ''array['' @ show_int element_type @ '']''))))
     else rbind (rd_value fuel value_type) (\<lambda>_. rreturn (key, type_label value_type))))"

definition rd_type_inventory :: "nat \<Rightarrow> (string \<times> string) list parser" where
  "rd_type_inventory fuel = rbind (rd_read 4) (\<lambda>magic.
     if magic \<noteq> [0x47, 0x47, 0x55, 0x46] then rlift (Inl (ValueError ''invalid GGUF magic'')) else
     rbind (rd_read 4) (\<lambda>_. rbind (rd_unsigned 8) (\<lambda>tensor_count. rbind (rd_unsigned 8) (\<lambda>metadata_count.
     rtimes (nat metadata_count) (rd_type_entry fuel)))))"

definition type_inventory :: "bytes \<Rightarrow> (string \<times> string) list res" where
  "type_inventory file = bind_res (rd_type_inventory (length file) (file, 0)) (\<lambda>(entries, _).
     Inr (fold (\<lambda>(k, t) d. AList.update k t d) entries []))"

section \<open>Sequence digests\<close>

definition value_bytes :: "(meta_value \<Rightarrow> int res) \<Rightarrow> meta_value \<Rightarrow> bytes res" where
  "value_bytes coerce v = (case v of
       MStr s \<Rightarrow> Inr (map (\<lambda>c. word_of_int (of_char c)) s)
     | MArr _ \<Rightarrow> Inl TypeError
     | _ \<Rightarrow> bind_res (meta_int coerce v) (\<lambda>n. if - (2 ^ 63) \<le> n \<and> n < 2 ^ 63 then Inr (le_enc 8 n) else Inl StructError))"

definition sequence_bytes :: "(meta_value \<Rightarrow> int res) \<Rightarrow> meta_value list \<Rightarrow> bytes res" where
  "sequence_bytes coerce values = bind_res (map_res (value_bytes coerce) values) (\<lambda>raws.
     Inr (concat (map (\<lambda>raw. le_enc 8 (int (length raw)) @ raw) raws)))"

definition sequence_digest :: "(bytes \<Rightarrow> string) \<Rightarrow> (meta_value \<Rightarrow> int res) \<Rightarrow> meta_value list \<Rightarrow> string res" where
  "sequence_digest sha coerce values = bind_res (sequence_bytes coerce values) (\<lambda>b. Inr (sha b))"

section \<open>The checks of an artifact\<close>

text \<open>The characters of a string held as UTF-8, for a value that is used as a sequence.\<close>

definition continues :: "char \<Rightarrow> bool" where
  "continues c \<longleftrightarrow> 0x80 \<le> (of_char c :: int) \<and> (of_char c :: int) \<le> 0xBF"

function code_points :: "string \<Rightarrow> string list" where
  "code_points [] = []"
| "code_points (c # cs) = (c # takeWhile continues cs) # code_points (dropWhile continues cs)"
  by pat_completeness auto

termination code_points
  by (relation "measure length") (simp_all add: le_imp_less_Suc length_dropWhile_le)

definition py_list :: "meta_value \<Rightarrow> meta_value list res" where
  "py_list v = (case v of MArr vs \<Rightarrow> Inr vs | MStr s \<Rightarrow> Inr (map MStr (code_points s)) | _ \<Rightarrow> Inl TypeError)"

fun index_tokens :: "int \<Rightarrow> (string \<times> int) list \<Rightarrow> meta_value list \<Rightarrow> (string \<times> int) list res" where
  "index_tokens i d [] = Inr d"
| "index_tokens i d (MStr s # vs) = index_tokens (i + 1) (AList.update s i d) vs"
| "index_tokens i d (MArr _ # vs) = Inl TypeError"
| "index_tokens i d (_ # vs) = index_tokens (i + 1) d vs"

record merge_state =
  ms_left :: "int list"
  ms_right :: "int list"
  ms_malformed :: int
  ms_missing :: int

definition merge_step :: "(string \<times> int) list \<Rightarrow> merge_state \<Rightarrow> meta_value \<Rightarrow> merge_state res" where
  "merge_step ids s v = (case v of
       MStr merge \<Rightarrow> (case split_merge merge of
           None \<Rightarrow> Inr (s\<lparr>ms_malformed := ms_malformed s + 1\<rparr>)
         | Some (left, right) \<Rightarrow> (case (map_of ids left, map_of ids right) of
               (Some l, Some r) \<Rightarrow> Inr (s\<lparr>ms_left := ms_left s @ [l], ms_right := ms_right s @ [r]\<rparr>)
             | _ \<Rightarrow> Inr (s\<lparr>ms_missing := ms_missing s + 1\<rparr>)))
     | _ \<Rightarrow> Inl AttributeError)"

definition fail_check :: "string \<Rightarrow> py_error" where
  "fail_check what = SystemExit (''FAIL '' @ what)"

definition qualify_tokenizer :: "artifact \<Rightarrow> (int list \<times> int list) res" where
  "qualify_tokenizer a = (let get = (\<lambda>k. lookup_res (ar_metadata a) k) in
     bind_res (require (\<forall>k \<in> set TOKENIZER_KEYS. map_of (ar_metadata a) k \<noteq> None) (fail_check ''missing tokenizer keys'')) (\<lambda>_.
     bind_res (get ''tokenizer.ggml.model'') (\<lambda>model. bind_res (get ''tokenizer.ggml.pre'') (\<lambda>pre.
     bind_res (require (model = MStr ''gpt2'' \<and> pre = MStr ''qwen2'') (fail_check ''not the qualified pair'')) (\<lambda>_.
     bind_res (get ''tokenizer.ggml.add_bos_token'') (\<lambda>add_bos.
     bind_res (require (add_bos = MBool False) (fail_check ''add_bos is not false'')) (\<lambda>_.
     bind_res (bind_res (get ''tokenizer.ggml.tokens'') py_list) (\<lambda>tokens.
     bind_res (bind_res (get ''tokenizer.ggml.token_type'') py_list) (\<lambda>token_type.
     bind_res (require (length tokens = length token_type) (fail_check ''vocabulary/type lengths differ'')) (\<lambda>_.
     bind_res (index_tokens 0 [] tokens) (\<lambda>token_ids.
     bind_res (bind_res (get ''tokenizer.ggml.merges'') py_list) (\<lambda>merges.
     bind_res (fold_res (merge_step token_ids) \<lparr>ms_left = [], ms_right = [], ms_malformed = 0, ms_missing = 0\<rparr> merges) (\<lambda>s.
     bind_res (require (ms_malformed s = 0 \<and> ms_missing s = 0 \<and> length (ms_left s) = length merges) (fail_check ''merge resolution'')) (\<lambda>_.
     bind_res (require (card (set (zip (ms_left s) (ms_right s))) = length merges) (fail_check ''duplicate merge pairs'')) (\<lambda>_.
     Inr (ms_left s, ms_right s))))))))))))))))"

section \<open>Reports\<close>

definition key_semantic :: "string \<Rightarrow> string" where
  "key_semantic key = the (map_of [(''tokenizer.ggml.model'', ''algorithm identity''), (''tokenizer.ggml.pre'', ''pre-tokenizer identity''),
     (''tokenizer.ggml.tokens'', ''vocabulary ordinal text''), (''tokenizer.ggml.token_type'', ''consumer token attributes''),
     (''tokenizer.ggml.merges'', ''ranked BPE source pairs''), (''tokenizer.ggml.bos_token_id'', ''BOS ID''),
     (''tokenizer.ggml.eos_token_id'', ''EOS ID''), (''tokenizer.ggml.padding_token_id'', ''PAD ID''),
     (''tokenizer.ggml.add_bos_token'', ''BOS insertion policy''), (''tokenizer.chat_template'', ''opaque chat-template source'')] key)"

definition element_size :: "meta_value \<Rightarrow> int" where
  "element_size v = (case v of MStr s \<Rightarrow> int (length s) | _ \<Rightarrow> 4)"

definition inventory_row :: "(meta_value \<Rightarrow> string) \<Rightarrow> string \<Rightarrow> (string \<times> string) list \<Rightarrow> artifact \<Rightarrow> artifact \<Rightarrow> string \<Rightarrow> json res" where
  "inventory_row render label inventory common a key =
     bind_res (lookup_res (ar_metadata a) key) (\<lambda>value. bind_res (lookup_res (ar_metadata common) key) (\<lambda>reference.
     let shape = (case value of MArr vs \<Rightarrow> ''array['' @ show_int (int (length vs)) @ '']''
           | MStr s \<Rightarrow> ''string['' @ show_int (int (length s)) @ '' bytes]'' | _ \<Rightarrow> render value);
         n = (case value of MArr vs \<Rightarrow> (\<Sum>v\<leftarrow>vs. element_size v) | MStr s \<Rightarrow> int (length s) | MBool _ \<Rightarrow> 1 | _ \<Rightarrow> 4) in
     Inr (JObj [(''artifact'', JStr label), (''key'', JStr key), (''gguf_type'', JStr (get_default inventory key ''unknown'')),
       (''value_count_or_size'', JStr shape), (''semantic'', JStr (key_semantic key)), (''payload_bytes_estimate'', JInt n),
       (''same_across_artifacts'', JBool (jeq (meta_json value) (meta_json reference)))])))"

definition merge_row :: "string \<Rightarrow> artifact \<Rightarrow> json res" where
  "merge_row label a =
     bind_res (bind_res (lookup_res (ar_metadata a) ''tokenizer.ggml.merges'') py_list) (\<lambda>merges.
     bind_res (map_res (\<lambda>v. case v of MStr s \<Rightarrow> Inr (int (length s)) | _ \<Rightarrow> Inl AttributeError) merges) (\<lambda>lengths.
     let n = int (length merges); source_bytes = sum_list lengths + (n + 1) * 8; numeric_bytes = n * 4 * 2 in
     Inr (JObj [(''artifact'', JStr label), (''merge_count'', JInt n), (''source_string_utf8_plus_u64_offsets'', JInt source_bytes),
       (''numeric_pair_u32_arrays'', JInt numeric_bytes), (''numeric_savings_bytes'', JInt (source_bytes - numeric_bytes)),
       (''source_split_rule'', JStr ''first ASCII space at or after byte index 1''),
       (''selected'', JStr ''numeric pair arrays; rank is array ordinal''),
       (''resolution'', JStr ''all pairs resolve against vocabulary ordinals''), (''duplicate_pairs'', JInt 0),
       (''runtime_work'', JStr ''resolve IDs to vocabulary text while constructing pinned bpe_ranks'')])))"

type_synonym qualified_artifact = "artifact \<times> int list \<times> int list"

definition list_check :: "(bytes \<Rightarrow> string) \<Rightarrow> (meta_value \<Rightarrow> int res) \<Rightarrow> meta_value list \<Rightarrow> (int \<times> meta_value) res" where
  "list_check sha coerce vs = bind_res (sequence_digest sha coerce vs) (\<lambda>d. Inr (int (length vs), MStr d))"

definition parity_value :: "(bytes \<Rightarrow> string) \<Rightarrow> (meta_value \<Rightarrow> int res) \<Rightarrow> string \<Rightarrow> qualified_artifact \<Rightarrow> (int \<times> meta_value) res" where
  "parity_value sha coerce name q = (case q of (a, left, right) \<Rightarrow> (let get = (\<lambda>k. lookup_res (ar_metadata a) k);
       items = (\<lambda>k. bind_res (bind_res (get k) py_list) (list_check sha coerce)); plain = (\<lambda>k. bind_res (get k) (\<lambda>v. Inr (1, v))) in
     if name = ''vocabulary'' then items ''tokenizer.ggml.tokens''
     else if name = ''token_types'' then items ''tokenizer.ggml.token_type''
     else if name = ''merges'' then items ''tokenizer.ggml.merges''
     else if name = ''resolved_merge_left_ids'' then list_check sha coerce (map MInt left)
     else if name = ''resolved_merge_right_ids'' then list_check sha coerce (map MInt right)
     else if name = ''model_identity'' then plain ''tokenizer.ggml.model''
     else if name = ''pre_tokenizer_identity'' then plain ''tokenizer.ggml.pre''
     else if name = ''bos_id'' then plain ''tokenizer.ggml.bos_token_id''
     else if name = ''eos_id'' then plain ''tokenizer.ggml.eos_token_id''
     else if name = ''pad_id'' then plain ''tokenizer.ggml.padding_token_id''
     else if name = ''add_bos'' then plain ''tokenizer.ggml.add_bos_token''
     else bind_res (get ''tokenizer.chat_template'') (\<lambda>v. case v of
         MStr s \<Rightarrow> Inr (int (length s), MStr (sha (map (\<lambda>c. word_of_int (of_char c)) s))) | _ \<Rightarrow> Inl AttributeError)))"

definition CHECKS :: "string list" where
  "CHECKS = [''vocabulary'', ''token_types'', ''merges'', ''resolved_merge_left_ids'', ''resolved_merge_right_ids'', ''model_identity'',
     ''pre_tokenizer_identity'', ''bos_id'', ''eos_id'', ''pad_id'', ''add_bos'', ''chat_template'']"

definition parity_row :: "(bytes \<Rightarrow> string) \<Rightarrow> (meta_value \<Rightarrow> int res) \<Rightarrow> qualified_artifact \<Rightarrow> qualified_artifact \<Rightarrow> string \<Rightarrow> json res" where
  "parity_row sha coerce q8_0 bf16 name =
     bind_res (parity_value sha coerce name q8_0) (\<lambda>(n, v). bind_res (parity_value sha coerce name bf16) (\<lambda>(m, w).
     Inr (JObj [(''semantic'', JStr name), (''q8_0_count_or_size'', JInt n), (''bf16_count_or_size'', JInt m),
       (''q8_0_digest_or_value'', meta_json v), (''bf16_digest_or_value'', meta_json w),
       (''match'', JBool (n = m \<and> jeq (meta_json v) (meta_json w))), (''classification'', JStr ''DIRECTLY_REPRESENTED'')])))"

definition step19b_reports ::
  "(bytes \<Rightarrow> string) \<Rightarrow> (meta_value \<Rightarrow> int res) \<Rightarrow> (meta_value \<Rightarrow> string) \<Rightarrow> bytes \<Rightarrow> bytes \<Rightarrow> (json list \<times> json list \<times> json list) res" where
  "step19b_reports sha coerce render q8_file bf16_file =
     bind_res (map_res (\<lambda>(label, file). bind_res (parse_gguf sha coerce file) (\<lambda>a. bind_res (type_inventory file) (\<lambda>inventory.
       bind_res (require (\<forall>k \<in> set TOKENIZER_KEYS. map_of (ar_metadata a) k \<noteq> None) (fail_check ''missing tokenizer keys'')) (\<lambda>_.
       Inr (label, inventory, a))))) [(''Q8_0'', q8_file), (''BF16'', bf16_file)]) (\<lambda>artifacts.
     bind_res (map_res (\<lambda>(label, inventory, a). bind_res (qualify_tokenizer a) (\<lambda>(left, right). Inr (a, left, right))) artifacts) (\<lambda>checked.
     let common = snd (snd (hd artifacts)) in
     bind_res (map_res (\<lambda>((label, inventory, a), key). inventory_row render label inventory common a key)
       (List.product artifacts TOKENIZER_KEYS)) (\<lambda>inventory_rows.
     bind_res (map_res (\<lambda>(label, inventory, a). merge_row label a) artifacts) (\<lambda>merge_rows.
     bind_res (map_res (parity_row sha coerce (checked ! 0) (checked ! 1)) CHECKS) (\<lambda>parity_rows.
     Inr (inventory_rows, merge_rows, parity_rows))))))"

section \<open>The two passes over the header\<close>

definition typed_as :: "meta_value \<Rightarrow> string \<Rightarrow> bool" where
  "typed_as v t \<longleftrightarrow> (case v of MStr _ \<Rightarrow> t = ''string'' | MArr _ \<Rightarrow> starts_with ''array['' t | MBool _ \<Rightarrow> t = ''bool''
     | MFloat n _ \<Rightarrow> t = (if n = 4 then ''f32'' else ''f64'') | MInt _ \<Rightarrow> t \<in> {''u8'', ''i8'', ''u16'', ''i16'', ''u32'', ''i32'', ''u64'', ''i64''})"

lemma scalar_typed:
  assumes "map_of META_TYPES t = Some (k, n)"
  shows "typed_as (scalar_of k n v) (type_label t)"
proof -
  have "(t, k, n) \<in> set META_TYPES" using assms by (rule map_of_SomeD)
  then show ?thesis by (auto simp: META_TYPES_def typed_as_def scalar_of_def type_label_def)
qed

lemma type_entry:
  assumes "rd_meta_entry fuel r = Inr ((k, v), r')"
  shows "\<exists>t. rd_type_entry fuel r = Inr ((k, t), r') \<and> typed_as v t"
proof -
  obtain r1 vt r2 where k: "rd_string r = Inr (k, r1)" and vt: "rd_unsigned 4 r1 = Inr (vt, r2)" and v: "rd_value fuel vt r2 = Inr (v, r')"
    using assms by (auto simp: rd_meta_entry_def rbind_Inr rreturn_def)
  obtain f where f: "fuel = Suc f" using v by (cases fuel) (auto simp: rlift_def)
  show ?thesis
  proof (cases "vt = 8")
    case True
    then obtain s where "rd_string r2 = Inr (s, r')" "v = MStr s"
      using v f by (auto simp: META_TYPES_def rbind_Inr rreturn_def)
    then show ?thesis using True k vt by (auto simp: rd_type_entry_def rbind_def rreturn_def typed_as_def)
  next
    case n8: False
    show ?thesis
    proof (cases "vt = 9")
      case True
      then obtain et r3 count r4 vs where "rd_unsigned 4 r2 = Inr (et, r3)" "rd_unsigned 8 r3 = Inr (count, r4)"
          "rtimes (nat count) (rd_value f et) r4 = Inr (vs, r')" "v = MArr vs"
        using v f by (auto simp: META_TYPES_def rbind_Inr rreturn_def rlift_def split: if_splits)
      then show ?thesis using True f k vt
        by (auto simp: rd_type_entry_def rbind_def rreturn_def typed_as_def starts_with_def)
    next
      case False
      then obtain kd n x where m: "map_of META_TYPES vt = Some (kd, n)" and "v = scalar_of kd n x"
        using v f n8 by (auto simp: rbind_Inr rreturn_def rlift_def split: option.splits)
      then have "typed_as v (type_label vt)" using scalar_typed by simp
      then show ?thesis using False n8 k vt v by (auto simp: rd_type_entry_def rbind_def rreturn_def)
    qed
  qed
qed

definition same_entry :: "string \<times> meta_value \<Rightarrow> string \<times> string \<Rightarrow> bool" where
  "same_entry e t \<longleftrightarrow> fst e = fst t \<and> typed_as (snd e) (snd t)"

lemma same_entry_pair [simp]: "same_entry (k, v) (l, t) \<longleftrightarrow> k = l \<and> typed_as v t"
  by (simp add: same_entry_def)

lemma type_entries:
  "rtimes n (rd_meta_entry fuel) r = Inr (es, r') \<Longrightarrow>
     \<exists>ts. rtimes n (rd_type_entry fuel) r = Inr (ts, r') \<and> list_all2 same_entry es ts"
proof (induction n arbitrary: r es)
  case 0
  then show ?case by (simp add: rreturn_def)
next
  case (Suc n)
  then obtain k v r1 es' where e: "rd_meta_entry fuel r = Inr ((k, v), r1)" and rest: "rtimes n (rd_meta_entry fuel) r1 = Inr (es', r')"
    and es: "es = (k, v) # es'" by (auto simp: rbind_Inr rreturn_def)
  obtain t where t: "rd_type_entry fuel r = Inr ((k, t), r1)" "typed_as v t" using type_entry[OF e] by blast
  obtain ts where "rtimes n (rd_type_entry fuel) r1 = Inr (ts, r')" "list_all2 same_entry es' ts" using Suc.IH[OF rest] by blast
  then show ?case using t es by (auto simp: rbind_def rreturn_def)
qed

lemma update_same: "list_all2 same_entry d e \<Longrightarrow> typed_as v t \<Longrightarrow> list_all2 same_entry (AList.update k v d) (AList.update k t e)"
proof (induction d e rule: list_all2_induct)
  case (Cons x xs y ys)
  then show ?case by (cases x; cases y) auto
qed simp

lemma fold_same: "list_all2 same_entry es ts \<Longrightarrow> list_all2 same_entry d e \<Longrightarrow>
    list_all2 same_entry (fold (\<lambda>(k, v) d. AList.update k v d) es d) (fold (\<lambda>(k, t) d. AList.update k t d) ts e)"
proof (induction es ts arbitrary: d e rule: list_all2_induct)
  case (Cons x xs y ys)
  then show ?case using update_same[of d e "snd x" "snd y" "fst x"] by (cases x; cases y) auto
qed simp

text \<open>
  The type inventory, which reads the header a second time and skips over the values, agrees with
  the parser: for every file the parser accepts, it succeeds, lists the same metadata keys in the same order,
  and gives each the type of the value the parser read.
\<close>

theorem inventory_agrees:
  assumes "parse_gguf sha coerce file = Inr a"
  shows "\<exists>inventory. type_inventory file = Inr inventory \<and> map fst inventory = map fst (ar_metadata a) \<and>
    list_all2 (\<lambda>e t. typed_as (snd e) (snd t)) (ar_metadata a) inventory"
proof -
  obtain version tensor_count metadata_count entries tensors rest where
    h: "rd_header (length file) (file, 0) = Inr ((version, tensor_count, metadata_count, entries, tensors), rest)"
    and m: "ar_metadata a = fold (\<lambda>(k, v) d. AList.update k v d) entries []"
    using assms by (auto simp: parse_gguf_def bind_res_Inr_iff Let_def)
  obtain r1 vb r2 tc r3 mc r4 r5 where r: "rd_read 4 (file, 0) = Inr ([0x47, 0x47, 0x55, 0x46], r1)" "rd_unsigned 4 r1 = Inr (vb, r2)"
      "rd_unsigned 8 r2 = Inr (tc, r3)" "rd_unsigned 8 r3 = Inr (mc, r4)"
      "rtimes (nat mc) (rd_meta_entry (length file)) r4 = Inr (entries, r5)"
    using h by (auto simp: rd_header_def rbind_Inr rreturn_def rlift_def split: if_splits)
  obtain ts where ts: "rtimes (nat mc) (rd_type_entry (length file)) r4 = Inr (ts, r5)" "list_all2 same_entry entries ts"
    using type_entries[OF r(5)] by blast
  obtain b where b: "rd_read 4 r1 = Inr (b, r2)" using r(2) by (auto simp: rd_unsigned_def rbind_Inr rreturn_def)
  have "rd_type_inventory (length file) (file, 0) = Inr (ts, r5)"
    using r b ts(1) by (simp add: rd_type_inventory_def rbind_def)
  then have i: "type_inventory file = Inr (fold (\<lambda>(k, t) d. AList.update k t d) ts [])" by (simp add: type_inventory_def)
  have s: "list_all2 same_entry (ar_metadata a) (fold (\<lambda>(k, t) d. AList.update k t d) ts [])"
    unfolding m using fold_same[OF ts(2)] by simp
  have "map fst (fold (\<lambda>(k, t) d. AList.update k t d) ts []) = map fst (ar_metadata a)"
    using s by (simp add: list_eq_iff_nth_eq list_all2_conv_all_nth same_entry_def)
  then show ?thesis using i s by (auto simp: same_entry_def elim!: list_all2_mono)
qed

definition tiny_gguf :: bytes where
  "tiny_gguf = [0x47, 0x47, 0x55, 0x46, 3, 0, 0, 0, 0, 0, 0, 0, 0, 0, 0, 0, 1, 0, 0, 0, 0, 0, 0, 0,
     1, 0, 0, 0, 0, 0, 0, 0, 0x61, 7, 0, 0, 0, 1]"

theorem inventory_agrees_witness:
  "\<exists>a inventory. parse_gguf (\<lambda>_. '''') (\<lambda>_. Inl TypeError) tiny_gguf = Inr a \<and> type_inventory tiny_gguf = Inr inventory \<and>
    map fst inventory = map fst (ar_metadata a) \<and> length (ar_metadata a) = 1"
proof -
  have "case parse_gguf (\<lambda>_. '''') (\<lambda>_. Inl TypeError) tiny_gguf of Inl _ \<Rightarrow> False | Inr a \<Rightarrow> length (ar_metadata a) = 1"
    by code_simp
  then obtain a where a: "parse_gguf (\<lambda>_. '''') (\<lambda>_. Inl TypeError) tiny_gguf = Inr a" "length (ar_metadata a) = 1"
    by (auto split: sum.splits)
  then show ?thesis using inventory_agrees[OF a(1)] by blast
qed

section \<open>Sequence digests are faithful\<close>

lemma char_byte: "of_char c < (256 :: int)"
proof -
  have "of_char c < (256 :: nat)" by (rule nat_of_char_less_256)
  then show ?thesis by (metis of_nat_less_iff of_nat_numeral of_nat_of_char)
qed

lemma char_bytes_inj: "map (\<lambda>c. word_of_int (of_char c) :: 8 word) s = map (\<lambda>c. word_of_int (of_char c)) t \<Longrightarrow> s = t"
proof -
  have u: "uint (word_of_int (of_char c) :: 8 word) = of_char c" for c
    using char_byte[of c] by (simp add: uint_word_of_int)
  assume "map (\<lambda>c. word_of_int (of_char c) :: 8 word) s = map (\<lambda>c. word_of_int (of_char c)) t"
  then have "map uint (map (\<lambda>c. word_of_int (of_char c) :: 8 word) s) = map uint (map (\<lambda>c. word_of_int (of_char c) :: 8 word) t)" by simp
  then have "map (of_char :: char \<Rightarrow> int) s = map of_char t" by (simp add: u comp_def)
  then show ?thesis by (rule map_injective) (simp add: inj_def)
qed

definition framed :: "bytes list \<Rightarrow> bytes" where
  "framed raws = concat (map (\<lambda>raw. le_enc 8 (int (length raw)) @ raw) raws)"

lemma framed_inj:
  "list_all (\<lambda>r. int (length r) < 256 ^ 8) xs \<Longrightarrow> list_all (\<lambda>r. int (length r) < 256 ^ 8) ys \<Longrightarrow> framed xs = framed ys \<Longrightarrow> xs = ys"
proof (induction xs arbitrary: ys)
  case Nil
  then show ?case by (cases ys) (auto simp: framed_def dest: arg_cong[of _ _ length])
next
  case (Cons x xs)
  show ?case
  proof (cases ys)
    case Nil
    then show ?thesis using Cons.prems(3) by (auto simp: framed_def dest: arg_cong[of _ _ length])
  next
    case (Cons y zs)
    have e: "le_enc 8 (int (length x)) @ (x @ framed xs) = le_enc 8 (int (length y)) @ (y @ framed zs)"
      using Cons.prems(3) Cons by (simp add: framed_def)
    then have h: "le_enc 8 (int (length x)) = le_enc 8 (int (length y))" and r: "x @ framed xs = y @ framed zs"
      by (simp_all add: append_eq_append_conv)
    have small: "int (length x) < 256 ^ 8" "int (length y) < 256 ^ 8"
      using Cons.prems(1,2) Cons by simp_all
    have "length x = length y" using arg_cong[OF h, of le_dec] small by (simp add: le_dec_enc_id)
    then have "x = y" "framed xs = framed zs" using r by (simp_all add: append_eq_append_conv)
    then show ?thesis using Cons.IH[of zs] Cons.prems(1,2) Cons by simp
  qed
qed

definition token_text :: "meta_value \<Rightarrow> bool" where
  "token_text v \<longleftrightarrow> (case v of MStr s \<Rightarrow> int (length s) < 256 ^ 8 | _ \<Rightarrow> False)"

lemma text_bytes:
  assumes "list_all token_text vs" "map_res (value_bytes coerce) vs = Inr raws"
  shows "list_all (\<lambda>r. int (length r) < 256 ^ 8) raws \<and> list_all2 (\<lambda>v r. \<exists>s. v = MStr s \<and> r = map (\<lambda>c. word_of_int (of_char c)) s) vs raws"
  using assms
proof (induction vs arbitrary: raws)
  case (Cons v vs)
  then obtain s where s: "v = MStr s" "int (length s) < 256 ^ 8" by (auto simp: token_text_def split: meta_value.splits)
  then show ?case using Cons by (auto simp: value_bytes_def bind_res_Inr_iff)
qed simp

lemma texts_equal:
  assumes "list_all2 (\<lambda>v r. \<exists>s. v = MStr s \<and> r = map (\<lambda>c. word_of_int (of_char c)) s) vs raws"
    and "list_all2 (\<lambda>v r. \<exists>s. v = MStr s \<and> r = map (\<lambda>c. word_of_int (of_char c)) s) ws (raws :: bytes list)"
  shows "vs = ws"
  using assms
proof (induction vs raws arbitrary: ws rule: list_all2_induct)
  case (Cons v vs r rs)
  obtain w ws' where ws: "ws = w # ws'" using Cons.prems by (cases ws) auto
  obtain s where s: "v = MStr s" "r = map (\<lambda>c. word_of_int (of_char c)) s" using Cons.hyps(1) by blast
  obtain t where t: "w = MStr t" "r = map (\<lambda>c. word_of_int (of_char c)) t" using Cons.prems ws by auto
  have "s = t" using s(2) t(2) by (intro char_bytes_inj) simp
  moreover have "vs = ws'" using Cons.IH[of ws'] Cons.prems ws by simp
  ultimately show ?case using s(1) t(1) ws by simp
qed simp

lemma sequence_bytes_inj:
  assumes "list_all token_text vs" "list_all token_text ws" "sequence_bytes coerce vs = Inr b" "sequence_bytes coerce ws = Inr b"
  shows "vs = ws"
proof -
  obtain r q where r: "map_res (value_bytes coerce) vs = Inr r" "map_res (value_bytes coerce) ws = Inr q" "framed r = framed q"
    using assms(3,4) by (auto simp: sequence_bytes_def bind_res_Inr_iff framed_def)
  note t = text_bytes[OF assms(1) r(1)] text_bytes[OF assms(2) r(2)]
  have "r = q" using framed_inj t r(3) by blast
  then show ?thesis using texts_equal t by blast
qed

text \<open>
  A parity row that reports a match for the vocabulary or the merges means the two artifacts hold the
  same strings in the same order, if the hash separates the two byte sequences: the length prefixes make the
  encoding of a list of strings unambiguous, so no two lists share it.
\<close>

theorem parity_match_exact:
  assumes "parity_row sha coerce (a, left, right) (b, left', right') name = Inr row" "jget row ''match'' = Inr (JBool True)"
    and "name = ''vocabulary'' \<and> key = ''tokenizer.ggml.tokens'' \<or> name = ''merges'' \<and> key = ''tokenizer.ggml.merges''"
    and "map_of (ar_metadata a) key = Some (MArr vs)" "map_of (ar_metadata b) key = Some (MArr ws)"
    and "list_all token_text vs" "list_all token_text ws"
    and "\<And>x y. sequence_bytes coerce vs = Inr x \<Longrightarrow> sequence_bytes coerce ws = Inr y \<Longrightarrow> sha x = sha y \<Longrightarrow> x = y"
  shows "vs = ws"
proof -
  have get: "lookup_res (ar_metadata a) key = Inr (MArr vs)" "lookup_res (ar_metadata b) key = Inr (MArr ws)"
    using assms(4,5) by simp_all
  have v: "parity_value sha coerce name (a, left, right) = list_check sha coerce vs"
      "parity_value sha coerce name (b, left', right') = list_check sha coerce ws"
    using assms(3) get by (elim disjE conjE; simp add: parity_value_def Let_def py_list_def del: lookup_res_iff)+
  obtain x y where x: "sequence_bytes coerce vs = Inr x" and y: "sequence_bytes coerce ws = Inr y"
    using assms(1) unfolding parity_row_def v by (auto simp: list_check_def sequence_digest_def bind_res_Inr_iff)
  have "sha x = sha y"
    using assms(1,2) unfolding parity_row_def v by (auto simp: list_check_def sequence_digest_def x y jget_def lookup_res_def)
  then have "x = y" using assms(8)[OF x y] by simp
  then show ?thesis using sequence_bytes_inj[OF assms(6,7) x] y by simp
qed

definition with_metadata :: "(string \<times> meta_value) list \<Rightarrow> artifact" where
  "with_metadata metadata = \<lparr>ar_sha256 = '''', ar_size = 0, ar_version = 3, ar_tensor_count = 0, ar_metadata_count = int (length metadata),
     ar_metadata = metadata, ar_alignment = 32, ar_data_start = 0, ar_tensors = [], ar_tensor_info_end = 0\<rparr>"

definition sample_tokenizer :: artifact where
  "sample_tokenizer = with_metadata [(''tokenizer.ggml.model'', MStr ''gpt2''), (''tokenizer.ggml.pre'', MStr ''qwen2''),
     (''tokenizer.ggml.tokens'', MArr [MStr ''a'', MStr ''b'', MStr ''ab'']), (''tokenizer.ggml.token_type'', MArr [MInt 1, MInt 1, MInt 1]),
     (''tokenizer.ggml.merges'', MArr [MStr ''a b'', MStr ''ab a'']), (''tokenizer.ggml.bos_token_id'', MInt 0),
     (''tokenizer.ggml.eos_token_id'', MInt 1), (''tokenizer.ggml.padding_token_id'', MInt 1),
     (''tokenizer.ggml.add_bos_token'', MBool False), (''tokenizer.chat_template'', MStr '''')]"

theorem parity_match_exact_witness:
  "[MStr ''a'', MStr ''b'', MStr ''ab''] = [MStr ''a'', MStr ''b'', MStr ''ab''] \<and>
   (\<exists>row. parity_row (map (\<lambda>b. char_of (uint b))) (\<lambda>_. Inl TypeError) (sample_tokenizer, [], []) (sample_tokenizer, [], []) ''vocabulary'' = Inr row)"
proof -
  let ?sha = "map (\<lambda>b :: 8 word. char_of (uint b) :: char)" and ?vs = "[MStr ''a'', MStr ''b'', MStr ''ab'']"
  have "case parity_row ?sha (\<lambda>_. Inl TypeError) (sample_tokenizer, [], []) (sample_tokenizer, [], []) ''vocabulary'' of
      Inl _ \<Rightarrow> False | Inr row \<Rightarrow> jget row ''match'' = Inr (JBool True)" by code_simp
  then obtain row where row: "parity_row ?sha (\<lambda>_. Inl TypeError) (sample_tokenizer, [], []) (sample_tokenizer, [], []) ''vocabulary'' = Inr row"
      "jget row ''match'' = Inr (JBool True)" by (auto split: sum.splits)
  have m: "map_of (ar_metadata sample_tokenizer) ''tokenizer.ggml.tokens'' = Some (MArr ?vs)" by code_simp
  have "?vs = ?vs"
    by (rule parity_match_exact[OF row _ m m]) (simp_all add: token_text_def)
  then show ?thesis using row(1) by blast
qed

section \<open>The two resolvers\<close>

lemma vocabulary_index: "vocabulary i ids vs = Inr ids' \<Longrightarrow> index_tokens i ids vs = Inr ids'"
  by (induction i ids vs rule: index_tokens.induct) (auto split: if_splits)

lemma merges_index:
  assumes "map_res (resolve_merge ids) merges = Inr pairs"
  shows "fold_res (merge_step ids) s merges = Inr (s\<lparr>ms_left := ms_left s @ map fst pairs, ms_right := ms_right s @ map snd pairs\<rparr>)"
  using assms
proof (induction merges arbitrary: s pairs)
  case (Cons m ms)
  then obtain p ps where p: "resolve_merge ids m = Inr p" "map_res (resolve_merge ids) ms = Inr ps" "pairs = p # ps"
    by (auto simp: bind_res_Inr_iff)
  then have "merge_step ids s m = Inr (s\<lparr>ms_left := ms_left s @ [fst p], ms_right := ms_right s @ [snd p]\<rparr>)"
    by (auto simp: resolve_merge_def merge_step_def split: meta_value.splits option.splits)
  then show ?case using Cons.IH[OF p(2)] p(3) by simp
qed simp

text \<open>
  The merge pairs the qualification resolves are those the conversion writes: whenever the step 18
  conversion plan of a tokenizer and its step 19b qualification both succeed, the left and right ordinals of
  the plan are the qualified ones, in order, and no pair occurs twice.
\<close>

theorem resolvers_agree:
  assumes "qualify_tokenizer a = Inr (left, right)" "tokenizer_conversion_plan render a = Inr plan"
  shows "jget plan ''merge_left_ids'' = Inr (int_list left) \<and> jget plan ''merge_right_ids'' = Inr (int_list right) \<and>
    distinct (zip left right) \<and> length left = length right"
proof -
  obtain tokens merges ids pairs where m: "map_of (ar_metadata a) ''tokenizer.ggml.tokens'' = Some (MArr tokens)"
      "map_of (ar_metadata a) ''tokenizer.ggml.merges'' = Some (MArr merges)"
      and v: "vocabulary 0 [] tokens = Inr ids" and p: "map_res (resolve_merge ids) merges = Inr pairs"
      and plan: "jget plan ''merge_left_ids'' = Inr (int_list (map fst pairs))" "jget plan ''merge_right_ids'' = Inr (int_list (map snd pairs))"
    using assms(2) by (auto simp: tokenizer_conversion_plan_def bind_res_Inr_iff jget_def lookup_res_def split: option.splits meta_value.splits)
  let ?s = "\<lparr>ms_left = map fst pairs, ms_right = map snd pairs, ms_malformed = 0, ms_missing = 0\<rparr>"
  have i: "index_tokens 0 [] tokens = Inr ids" using v by (rule vocabulary_index)
  have f: "fold_res (merge_step ids) \<lparr>ms_left = [], ms_right = [], ms_malformed = 0, ms_missing = 0\<rparr> merges = Inr ?s"
    using merges_index[OF p, of "\<lparr>ms_left = [], ms_right = [], ms_malformed = 0, ms_missing = 0\<rparr>"] by simp
  have lr: "left = map fst pairs \<and> right = map snd pairs \<and> card (set (zip left right)) = length merges"
    using assms(1) by (auto simp: qualify_tokenizer_def Let_def bind_res_Inr_iff py_list_def m i f)
  then have "length (zip left right) = length merges" using map_res_length[OF p] by simp
  then have "card (set (zip left right)) = length (zip left right)" using lr by metis
  then have "distinct (zip left right)" by (rule card_distinct)
  then show ?thesis using lr plan by simp
qed

theorem resolvers_agree_witness:
  "\<exists>left right plan. qualify_tokenizer sample_tokenizer = Inr (left, right) \<and>
    tokenizer_conversion_plan (\<lambda>_. '''') sample_tokenizer = Inr plan \<and> jget plan ''merge_left_ids'' = Inr (int_list left)"
proof -
  have "case qualify_tokenizer sample_tokenizer of Inl _ \<Rightarrow> False | Inr p \<Rightarrow> True" by code_simp
  then obtain left right where q: "qualify_tokenizer sample_tokenizer = Inr (left, right)" by (auto split: sum.splits)
  have "case tokenizer_conversion_plan (\<lambda>_. '''') sample_tokenizer of Inl _ \<Rightarrow> False | Inr p \<Rightarrow> True" by code_simp
  then obtain plan where t: "tokenizer_conversion_plan (\<lambda>_. '''') sample_tokenizer = Inr plan" by (auto split: sum.splits)
  show ?thesis using q t resolvers_agree[OF q t] by blast
qed

end
