(* ===== verification/Typed_Programs.thy ===== *)
theory Typed_Programs
  imports Json Gguf
begin

text \<open>
  The typed-program importers: \<open>scripts/build_qwen_typed_program.py\<close>,
  \<open>build_deepseek_typed_program.py\<close>, \<open>build_phi_typed_program.py\<close> and
  \<open>build_gemma_typed_program.py\<close>.  Each builds a sidecar document that binds semantic names to tensors
  and describes the program over them, and validates it before it is written.

  \<open>artifact.path.name\<close> is the parameter \<open>name\<close>.
\<close>

definition tensor_ref :: "json \<Rightarrow> json" where
  "tensor_ref key = JObj [(''directory'', JStr ''TensorDirectory''), (''semantic_key'', key)]"

text \<open>The checks the validators share: no two bindings with one name, every weight bound.\<close>

definition distinct_by :: "(json \<Rightarrow> json res) \<Rightarrow> json list \<Rightarrow> string \<Rightarrow> unit res" where
  "distinct_by f items msg = bind_res (map_res f items) (\<lambda>vs. bind_res (key_set vs) (\<lambda>keys.
     require (length (remdups keys) = length items) (ValueError msg)))"

definition weights_bound :: "string \<Rightarrow> json list \<Rightarrow> json list \<Rightarrow> unit res" where
  "weights_bound msg refs program = each (\<lambda>operation.
     bind_res (jget_default operation ''weights'' (JArr [])) (\<lambda>ws. bind_res (jlist ws) (each (\<lambda>weight.
     bind_res (in_keys weight refs) (\<lambda>b. require b (ValueError msg)))))) program"

definition operation_named :: "string \<Rightarrow> json list \<Rightarrow> json res" where
  "operation_named name program = next_res (\<lambda>op. bind_res (jget op ''id'') (\<lambda>v. Inr (jeq v (JStr name)))) program"

section \<open>Qwen3.6\<close>

definition SIDECAR_VERSION :: int where "SIDECAR_VERSION = 1"
definition ATTENTION_LAYER :: int where "ATTENTION_LAYER = 3"
definition SSM_LAYER :: int where "SSM_LAYER = 0"
definition MOE_LAYER :: int where "MOE_LAYER = 0"

fun split_dots :: "string \<Rightarrow> string list" where
  "split_dots [] = [[]]"
| "split_dots (c # cs) = (if c = CHR ''.'' then [] # split_dots cs
     else case split_dots cs of [] \<Rightarrow> [[c]] | p # ps \<Rightarrow> (c # p) # ps)"

definition tensor_key :: "string \<Rightarrow> string" where
  "tensor_key name = (let parts = rev (split_dots name) in
     if ends_with ''.weight'' name then parts ! 1 else parts ! 0)"

definition tensor_map :: "artifact \<Rightarrow> int \<Rightarrow> (string \<times> tensor) list" where
  "tensor_map a layer = fold (\<lambda>t d. AList.update (tensor_key (tn_name t)) t d)
     (filter (\<lambda>t. tn_layer t = Some layer) (ar_tensors a)) []"

definition qwen_representation :: "string \<Rightarrow> json" where
  "qwen_representation type_name = JObj [
     (''kind'', JStr (if starts_with ''Q'' type_name then ''opaque_block_quantized'' else ''f32'')),
     (''block_elements'', JInt (if starts_with ''Q'' type_name then 256 else 1)),
     (''block_bytes'', get_default [(''Q4_K'', JInt 144), (''Q5_K'', JInt 176), (''Q8_0'', JInt 34)] type_name
        (if type_name = ''F32'' then JInt 4 else JNull))]"

definition qwen_binding :: "tensor \<Rightarrow> string \<Rightarrow> json res" where
  "qwen_binding t semantic = (case tn_payload_size t of None \<Rightarrow> Inl (ValueError ''unresolved payload size'')
     | Some payload \<Rightarrow> Inr (JObj [
         (''semantic'', JStr semantic), (''tensor_ref'', tensor_ref (JStr semantic)),
         (''shape'', int_list (tn_shape t)), (''representation'', qwen_representation (tn_type_name t)),
         (''source_provenance'', JObj [(''name'', JStr (tn_name t)), (''source_ordinal'', JInt (tn_ordinal t)),
            (''ggml_type'', JStr (tn_type_name t)), (''payload_bytes'', JInt payload),
            (''source_offset'', JInt (tn_absolute_start t))])]))"

definition qwen_require :: "(string \<times> tensor) list \<Rightarrow> string \<Rightarrow> string \<Rightarrow> json res" where
  "qwen_require tensors name semantic = (case map_of tensors name of
     None \<Rightarrow> Inl (ValueError ''missing required Qwen3.6 tensor'') | Some t \<Rightarrow> qwen_binding t semantic)"

definition qwen_binding_table :: "(int \<times> string \<times> string) list" where
  "qwen_binding_table =
     [(ATTENTION_LAYER, ''attn_q'', ''layer.3.attention.query_weight''), (ATTENTION_LAYER, ''attn_k'',
     ''layer.3.attention.key_weight''), (ATTENTION_LAYER, ''attn_v'', ''layer.3.attention.value_weight''),
     (ATTENTION_LAYER, ''attn_output'', ''layer.3.attention.output_weight''), (ATTENTION_LAYER, ''attn_norm'',
     ''layer.3.attention.input_norm''), (SSM_LAYER, ''ssm_alpha'', ''layer.0.ssm.alpha''), (SSM_LAYER,
     ''ssm_beta'', ''layer.0.ssm.beta''), (SSM_LAYER, ''ssm_conv1d'', ''layer.0.ssm.depthwise_conv''),
     (SSM_LAYER, ''ssm_out'', ''layer.0.ssm.output_weight''), (MOE_LAYER, ''ffn_gate_inp'',
     ''layer.0.moe.router_weight''), (MOE_LAYER, ''ffn_gate_exps'', ''layer.0.moe.expert_gate_weight''),
     (MOE_LAYER, ''ffn_up_exps'', ''layer.0.moe.expert_up_weight''), (MOE_LAYER, ''ffn_down_exps'',
     ''layer.0.moe.expert_down_weight'')]"

definition qwen_program :: "json" where
  "qwen_program =
     JArr [JObj [(''id'', JStr ''attention.layer3''), (''kind'', JStr ''attention''), (''inputs'',
     str_list [''hidden'', ''position'']), (''outputs'', str_list [''attention_output'']), (''attributes'',
     JObj [(''heads'', JInt 16), (''kv_heads'', JInt 2), (''head_dimension'', JInt 256), (''causal'',
     JBool True), (''position_source'', JStr ''sequence.position'')]), (''weights'',
     str_list [''layer.3.attention.input_norm'', ''layer.3.attention.query_weight'',
     ''layer.3.attention.key_weight'', ''layer.3.attention.value_weight'',
     ''layer.3.attention.output_weight''])], JObj [(''id'', JStr ''ssm.layer0''), (''kind'',
     JStr ''ssm_scan''), (''inputs'', str_list [''hidden'', ''sequence.position'']), (''outputs'',
     str_list [''ssm_output'', ''ssm_state_next'']), (''attributes'', JObj [(''state_size'', JInt 128),
     (''group_count'', JInt 16), (''inner_size'', JInt 4096), (''conv_kernel'', JInt 4), (''time_step_rank'',
     JInt 32), (''equation'', JStr ''importer_defined_qwen35moe_ssm_v1'')]), (''weights'',
     str_list [''layer.0.ssm.alpha'', ''layer.0.ssm.beta'', ''layer.0.ssm.depthwise_conv'',
     ''layer.0.ssm.output_weight''])], JObj [(''id'', JStr ''moe.layer0''), (''kind'',
     JStr ''mixture_of_experts''), (''inputs'', str_list [''hidden'']), (''outputs'',
     str_list [''moe_output'']), (''attributes'', JObj [(''expert_count'', JInt 256), (''top_k'', JInt 8),
     (''selection'', JStr ''router_top_k''), (''weighting'', JStr ''router_scores''), (''capacity'',
     JStr ''unspecified''), (''drop_policy'', JStr ''unspecified'')]), (''router'',
     JStr ''layer.0.moe.router_weight''), (''alternatives'', JObj [(''selector'',
     JStr ''moe.layer0.selected_expert_ids''), (''set'', JStr ''layer.0.moe.expert_parameters''), (''members'',
     str_list [''layer.0.moe.expert_gate_weight'', ''layer.0.moe.expert_up_weight'',
     ''layer.0.moe.expert_down_weight'']), (''cardinality'', JInt 256)])]]"

definition qwen_state_schema :: "json" where
  "qwen_state_schema =
     JArr [JObj [(''ref'', JStr ''sequence.position''), (''kind'', JStr ''position''), (''shape'',
     int_list [1]), (''element_type'', JStr ''u64''), (''transition'',
     JStr ''position_next = position + token_count'')], JObj [(''ref'', JStr ''attention.layer3.kv''),
     (''kind'', JStr ''kv_cache''), (''shape'', JArr [JInt 2, JInt 256, JInt 2, JStr ''sequence_length'']),
     (''element_type'', JStr ''model_storage''), (''transition'', JStr ''append_current_key_value'')],
     JObj [(''ref'', JStr ''ssm.layer0.state''), (''kind'', JStr ''recurrent''), (''shape'', int_list [16, 128,
     256]), (''element_type'', JStr ''f32''), (''transition'', JStr ''ssm_scan_state_next'')]]"

definition qwen_document ::
  "artifact \<Rightarrow> string \<Rightarrow> json list \<Rightarrow> json \<Rightarrow> json \<Rightarrow> json \<Rightarrow> json \<Rightarrow> json \<Rightarrow> json \<Rightarrow> json \<Rightarrow> json" where
  "qwen_document a name bindings layers embedding heads kv_heads head_dimension experts active =
     JObj [(''sidecar'', JStr ''vbuf-ml.qwen35moe.typed-program''), (''version'', JInt SIDECAR_VERSION),
     (''source'', JObj [(''architecture'', JStr ''qwen35moe''), (''artifact'', JStr name), (''sha256'',
     JStr (ar_sha256 a)), (''layer_count'', layers)]), (''portable_boundary'', JObj [(''excludes'',
     str_list [''ggml_type_ids'', ''backend_buffers'', ''device_placement'', ''source_read_plan'',
     ''current_dispatch'', ''runtime_schedule'']), (''tensor_identity'',
     JStr ''semantic TensorRef (directory plus occurrence)'')]), (''model_parameters'', JObj [(''embedding'',
     embedding), (''attention_heads'', heads), (''kv_heads'', kv_heads), (''head_dimension'', head_dimension),
     (''expert_count'', experts), (''active_experts'', active)]), (''tensor_bindings'', JArr bindings),
     (''program'', qwen_program), (''state_schema'', qwen_state_schema)]"

definition qwen_build :: "string \<Rightarrow> artifact \<Rightarrow> json res" where
  "qwen_build name a = (let meta = (\<lambda>k. bind_res (lookup_res (ar_metadata a) k) (\<lambda>v. Inr (meta_json v))) in
     if map_of (ar_metadata a) ''general.architecture'' \<noteq> Some (MStr ''qwen35moe'')
     then Inl (ValueError ''sidecar requires qwen35moe'') else
     bind_res (map_res (\<lambda>(layer, key, semantic). qwen_require (tensor_map a layer) key semantic) qwen_binding_table) (\<lambda>bindings.
     bind_res (meta ''qwen35moe.block_count'') (\<lambda>layers.
     bind_res (meta ''qwen35moe.embedding_length'') (\<lambda>embedding.
     bind_res (meta ''qwen35moe.attention.head_count'') (\<lambda>heads.
     bind_res (meta ''qwen35moe.attention.head_count_kv'') (\<lambda>kv_heads.
     bind_res (meta ''qwen35moe.attention.key_length'') (\<lambda>head_dimension.
     bind_res (meta ''qwen35moe.expert_count'') (\<lambda>experts.
     bind_res (meta ''qwen35moe.expert_used_count'') (\<lambda>active.
     Inr (qwen_document a name bindings layers embedding heads kv_heads head_dimension experts active))))))))))"

definition qwen_validate :: "json \<Rightarrow> unit res" where
  "qwen_validate sidecar =
     bind_res (jget sidecar ''version'') (\<lambda>version.
     bind_res (require (jeq version (JInt SIDECAR_VERSION)) (ValueError ''unsupported sidecar version'')) (\<lambda>_.
     bind_res (jget_list sidecar ''tensor_bindings'') (\<lambda>bindings.
     bind_res (distinct_by (\<lambda>item. jget item ''semantic'') bindings ''duplicate semantic binding'') (\<lambda>_.
     bind_res (map_res (\<lambda>item. bind_res (jpath item [''tensor_ref'', ''directory'']) (\<lambda>d.
        bind_res (jpath item [''tensor_ref'', ''semantic_key'']) (\<lambda>k. bind_res (hkey d) (\<lambda>d. bind_res (hkey k) (\<lambda>k.
        Inr (d, k)))))) bindings) (\<lambda>refs2.
     bind_res (require (length (remdups refs2) = length bindings) (ValueError ''duplicate TensorRef'')) (\<lambda>_.
     bind_res (map_res (\<lambda>item. jget item ''semantic'') bindings) (\<lambda>names. bind_res (key_set names) (\<lambda>refs.
     bind_res (jget_list sidecar ''program'') (\<lambda>program.
     bind_res (weights_bound ''operation references unbound weight'' refs program) (\<lambda>_.
     bind_res (operation_named ''moe.layer0'' program) (\<lambda>moe.
     bind_res (jpath moe [''attributes'', ''expert_count'']) (\<lambda>experts.
     bind_res (jpath moe [''alternatives'', ''cardinality'']) (\<lambda>cardinality.
     require (jeq experts cardinality) (ValueError ''dynamic alternative cardinality mismatch''))))))))))))))"

section \<open>DeepSeek\<close>

definition plans_by_name :: "json \<Rightarrow> (json \<times> json) list res" where
  "plans_by_name manifest = bind_res (jget_list manifest ''tensor_plans'') (\<lambda>plans.
     fold_res (\<lambda>d plan. bind_res (jget plan ''source_name'') (\<lambda>v. bind_res (hkey v) (\<lambda>k.
       Inr (AList.update k plan d)))) [] plans)"

definition deepseek_binding :: "json \<Rightarrow> string \<Rightarrow> json res" where
  "deepseek_binding plan semantic =
     bind_res (jget plan ''target_name'') (\<lambda>target. bind_res (jget plan ''source_shape'') (\<lambda>shape.
     bind_res (jget plan ''source_name'') (\<lambda>source. bind_res (jget plan ''source_ggml_type'') (\<lambda>ty.
     Inr (JObj [(''semantic'', JStr semantic), (''tensor_ref'', tensor_ref target), (''shape'', shape),
       (''representation'', JObj [(''kind'', JStr ''source_representation_contract''),
          (''storage'', JStr ''opaque_or_primitive'')]),
       (''source_provenance'', JObj [(''name'', source), (''source_shape'', shape), (''source_representation'', ty)])])))))"

definition deepseek_required :: "(json \<times> json) list \<Rightarrow> string \<Rightarrow> string \<Rightarrow> json res" where
  "deepseek_required plans name semantic = (case map_of plans (JStr name) of
     None \<Rightarrow> Inl (ValueError ''missing DeepSeek source tensor'') | Some plan \<Rightarrow> deepseek_binding plan semantic)"

definition deepseek_binding_table :: "(string \<times> string) list" where
  "deepseek_binding_table =
     [(''token_embd.weight'', ''embedding.token''), (''output_norm.weight'', ''output.norm''),
     (''output.weight'', ''lm_head.weight''), (''blk.0.attn_norm.weight'', ''layer.0.attention.input_norm''),
     (''blk.0.attn_q.weight'', ''layer.0.attention.query_weight''), (''blk.0.attn_kv_a_mqa.weight'',
     ''layer.0.attention.compressed_kv_weight''), (''blk.0.attn_kv_a_norm.weight'',
     ''layer.0.attention.compressed_kv_norm''), (''blk.0.attn_kv_b.weight'',
     ''layer.0.attention.kv_reconstruction_weight''), (''blk.0.attn_output.weight'',
     ''layer.0.attention.output_weight''), (''blk.0.ffn_norm.weight'', ''layer.0.mlp.input_norm''),
     (''blk.0.ffn_gate.weight'', ''layer.0.mlp.gate_weight''), (''blk.0.ffn_up.weight'',
     ''layer.0.mlp.up_weight''), (''blk.0.ffn_down.weight'', ''layer.0.mlp.down_weight''),
     (''blk.1.ffn_gate_inp.weight'', ''layer.1.moe.router_weight''), (''blk.1.ffn_gate_shexp.weight'',
     ''layer.1.moe.shared_gate_weight''), (''blk.1.ffn_up_shexp.weight'', ''layer.1.moe.shared_up_weight''),
     (''blk.1.ffn_down_shexp.weight'', ''layer.1.moe.shared_down_weight''), (''blk.1.ffn_gate_exps.weight'',
     ''layer.1.moe.routed_gate_weight''), (''blk.1.ffn_up_exps.weight'', ''layer.1.moe.routed_up_weight''),
     (''blk.1.ffn_down_exps.weight'', ''layer.1.moe.routed_down_weight'')]"

definition deepseek_program :: "json \<Rightarrow> json \<Rightarrow> json \<Rightarrow> json" where
  "deepseek_program experts active shared =
     JArr [JObj [(''id'', JStr ''embedding''), (''kind'', JStr ''embedding''), (''weights'',
     str_list [''embedding.token''])], JObj [(''id'', JStr ''layer.0.attention''), (''kind'',
     JStr ''attention''), (''weights'', str_list [''layer.0.attention.input_norm'',
     ''layer.0.attention.query_weight'', ''layer.0.attention.compressed_kv_weight'',
     ''layer.0.attention.compressed_kv_norm'', ''layer.0.attention.kv_reconstruction_weight'',
     ''layer.0.attention.output_weight'']), (''attributes'', JObj [(''variant'',
     JStr ''compressed_kv_attention''), (''heads'', JInt 16), (''causal'', JBool True),
     (''position_transform'', JStr ''position.rope'')]), (''state'', str_list [''attention.kv.compressed'',
     ''attention.kv.decoupled_position''])], JObj [(''id'', JStr ''layer.1.moe''), (''kind'',
     JStr ''mixture_of_experts''), (''weights'', str_list [''layer.1.moe.router_weight'',
     ''layer.1.moe.shared_gate_weight'', ''layer.1.moe.shared_up_weight'', ''layer.1.moe.shared_down_weight'',
     ''layer.1.moe.routed_gate_weight'', ''layer.1.moe.routed_up_weight'',
     ''layer.1.moe.routed_down_weight'']), (''attributes'', JObj [(''expert_count'', experts), (''top_k'',
     active), (''shared_expert_count'', shared), (''selection'', JStr ''router_top_k''), (''weighting'',
     JStr ''router_scores'')]), (''alternatives'', JObj [(''selector'',
     JStr ''layer.1.moe.selected_expert_ids''), (''cardinality'', experts), (''members'',
     str_list [''layer.1.moe.routed_gate_weight'', ''layer.1.moe.routed_up_weight'',
     ''layer.1.moe.routed_down_weight''])])], JObj [(''id'', JStr ''output''), (''kind'', JStr ''lm_head''),
     (''weights'', str_list [''output.norm'', ''lm_head.weight''])]]"

definition deepseek_state_schema :: "json" where
  "deepseek_state_schema =
     JArr [JObj [(''ref'', JStr ''attention.kv.compressed''), (''kind'', JStr ''kv_key''), (''scope'',
     JStr ''layer''), (''lifetime'', JStr ''sequence''), (''access'', JStr ''read-write''), (''transition'',
     JStr ''append(position, compressed_kv); read(position_range)'')], JObj [(''ref'',
     JStr ''attention.kv.decoupled_position''), (''kind'', JStr ''kv_value''), (''scope'', JStr ''layer''),
     (''lifetime'', JStr ''sequence''), (''access'', JStr ''read-write''), (''transition'',
     JStr ''append(position, positional_kv); read(position_range)'')], JObj [(''ref'',
     JStr ''sequence.position''), (''kind'', JStr ''position''), (''scope'', JStr ''sequence''), (''lifetime'',
     JStr ''sequence''), (''access'', JStr ''read-write''), (''transition'',
     JStr ''position_next = position + token_count''), (''reset'', JStr ''sequence_start'')]]"

definition deepseek_document ::
  "json list \<Rightarrow> json \<Rightarrow> json \<Rightarrow> json \<Rightarrow> json \<Rightarrow> json \<Rightarrow> json \<Rightarrow> json" where
  "deepseek_document bindings filename sha tensor_count experts active shared =
     JObj [(''sidecar'', JStr ''vbuf-ml.deepseek2.typed-program''), (''version'', JInt 1), (''source'',
     JObj [(''architecture'', JStr ''deepseek2''), (''artifact'', filename), (''sha256'', sha),
     (''tensor_count'', tensor_count)]), (''portable_boundary'', JObj [(''excludes'',
     str_list [''ggml_type_ids'', ''backend_buffers'', ''device_placement'', ''source_read_plan'',
     ''runtime_schedule'', ''current_dispatch'']), (''tensor_identity'', JStr ''semantic TensorRef'')]),
     (''model_parameters'', JObj [(''embedding'', JInt 2048), (''layers'', JInt 27), (''heads'', JInt 16),
     (''context'', JInt 163840), (''expert_count'', experts), (''active_experts'', active),
     (''shared_experts'', shared)]), (''tensor_bindings'', JArr bindings), (''program'', deepseek_program
     experts active shared), (''state_schema'', deepseek_state_schema), (''legacy_control'',
     JObj [(''fixture'', JStr ''DeepSeek-V2-Lite.IQ1_S''), (''legacy_poc22_known_correct'', JBool True),
     (''comparison_only'', JBool True)])]"

definition deepseek_build :: "json \<Rightarrow> json res" where
  "deepseek_build manifest =
     bind_res (jget manifest ''source_identity'') (\<lambda>identity.
     bind_res (jget identity ''architecture'') (\<lambda>architecture.
     bind_res (require (jeq architecture (JStr ''deepseek2'')) (ValueError ''DeepSeek importer requires deepseek2'')) (\<lambda>_.
     bind_res (plans_by_name manifest) (\<lambda>plans.
     bind_res (map_res (\<lambda>(name, semantic). deepseek_required plans name semantic) deepseek_binding_table) (\<lambda>bindings.
     bind_res (jget manifest ''moe_plan'') (\<lambda>moe.
     bind_res (jget identity ''filename'') (\<lambda>filename.
     bind_res (jget identity ''sha256'') (\<lambda>sha.
     bind_res (jget identity ''tensor_count'') (\<lambda>tensor_count.
     bind_res (jget moe ''expert_count'') (\<lambda>experts.
     bind_res (jget moe ''active_expert_count'') (\<lambda>active.
     bind_res (jget moe ''shared_expert_count'') (\<lambda>shared.
     Inr (deepseek_document bindings filename sha tensor_count experts active shared)))))))))))))"

definition deepseek_validate :: "json \<Rightarrow> unit res" where
  "deepseek_validate sidecar =
     bind_res (jget_list sidecar ''tensor_bindings'') (\<lambda>bindings.
     bind_res (distinct_by (\<lambda>item. jget item ''semantic'') bindings ''duplicate semantic binding'') (\<lambda>_.
     bind_res (map_res (\<lambda>item. jget item ''semantic'') bindings) (\<lambda>names. bind_res (key_set names) (\<lambda>refs.
     bind_res (jget_list sidecar ''program'') (\<lambda>program.
     bind_res (weights_bound ''unbound operation weight'' refs program) (\<lambda>_.
     bind_res (operation_named ''layer.1.moe'' program) (\<lambda>moe.
     bind_res (jpath moe [''alternatives'', ''cardinality'']) (\<lambda>cardinality.
     bind_res (jpath sidecar [''model_parameters'', ''expert_count'']) (\<lambda>experts.
     require (jeq cardinality experts) (ValueError ''expert alternative cardinality mismatch''))))))))))"

section \<open>Phi-4-mini\<close>

definition phi_REPOSITORY :: string where "phi_REPOSITORY = ''microsoft/Phi-4-mini-instruct''"
definition phi_REVISION :: string where "phi_REVISION = ''cfbefacb99257ffa30c83adab238a50856ac3083''"

definition phi_CONFIG :: "json" where
  "phi_CONFIG =
     JObj [(''architecture'', JStr ''Phi3ForCausalLM''), (''model_type'', JStr ''phi3''), (''parameter_count'',
     JInt 3836021760), (''vocab_size'', JInt 200064), (''layer_count'', JInt 32), (''hidden_size'', JInt 3072),
     (''attention_heads'', JInt 24), (''kv_heads'', JInt 8), (''head_dimension'', JInt 128),
     (''intermediate_size'', JInt 8192), (''max_context'', JInt 131072), (''original_context'', JInt 4096),
     (''rope_theta'', JDec 100000 1), (''partial_rotary_factor'', JDec 75 2), (''rotary_dimensions'', JInt 96),
     (''sliding_window'', JInt 262144), (''weight_tying'', JBool True), (''hidden_act'', JStr ''silu''),
     (''dtype'', JStr ''BF16''), (''long_factor'', JArr [JInt 1, JDec 1118320672 9, JDec 1250641126 9,
     JDec 1398617824 9, JDec 1564103225 9, JDec 174916897 8, JDec 1956131817 9, JDec 2187582649 9,
     JDec 2446418898 9, JDec 2735880826 9, JDec 3059592084 9, JDec 3421605075 9, JDec 3826451687 9,
     JDec 4279200023 9, JDec 4785517845 9, JDec 5351743533 9, JDec 5984965424 9, JDec 6693110555 9,
     JDec 7485043894 9, JDec 8370679318 9, JDec 936110372 8, JDec 104687158 7, JDec 1170738129 8,
     JDec 1309260651 8, JDec 1464173252 8, JDec 1637415215 8, JDec 1831155283 8, JDec 2047818807 8,
     JDec 2290118105 8, JDec 2561086418 8, JDec 2864115884 8, JDec 3203 2, JDec 321 1, JDec 3213 2, JDec 3223
     2, JDec 326 1, JDec 3261 2, JDec 3264 2, JDec 3266 2, JDec 327 1, JDec 3271 2, JDec 3293 2, JDec 3297 2,
     JDec 3328 2, JDec 3349 2, JDec 335 1, JDec 4416 2, JDec 4777 2]), (''short_factor'', JArr (replicate 48
     (JDec 10 1)))]"

definition phi_TENSORS :: "(string \<times> string \<times> int list \<times> string) list" where
  "phi_TENSORS =
     [(''token_embedding'', ''model.embed_tokens.weight'', [200064, 3072],
     ''model-00001-of-00002.safetensors''), (''input_norm'', ''model.layers.0.input_layernorm.weight'', [3072],
     ''model-00001-of-00002.safetensors''), (''qkv'', ''model.layers.0.self_attn.qkv_proj.weight'', [5120,
     3072], ''model-00001-of-00002.safetensors''), (''attention_output'',
     ''model.layers.0.self_attn.o_proj.weight'', [3072, 3072], ''model-00001-of-00002.safetensors''),
     (''post_attention_norm'', ''model.layers.0.post_attention_layernorm.weight'', [3072],
     ''model-00001-of-00002.safetensors''), (''gate_up'', ''model.layers.0.mlp.gate_up_proj.weight'', [16384,
     3072], ''model-00001-of-00002.safetensors''), (''down'', ''model.layers.0.mlp.down_proj.weight'', [3072,
     8192], ''model-00001-of-00002.safetensors'')]"

definition phi_binding :: "string \<Rightarrow> string \<Rightarrow> (int \<times> int \<times> int) option \<Rightarrow> json res" where
  "phi_binding semantic storage_key view = bind_res (lookup_res phi_TENSORS storage_key) (\<lambda>(name, shape, shard).
     Inr (JObj ([(''semantic'', JStr semantic), (''tensor_ref'', tensor_ref (JStr storage_key)),
       (''shape'', int_list shape),
       (''representation'', JObj [(''kind'', JStr ''bf16''), (''element_type'', JStr ''bf16'')]),
       (''source_provenance'', JObj [(''name'', JStr name), (''shard'', JStr shard),
          (''repository'', JStr phi_REPOSITORY), (''revision'', JStr phi_REVISION)])] @
       (case view of None \<Rightarrow> [] | Some (axis, start, len) \<Rightarrow>
          [(''view'', JObj [(''axis'', JInt axis), (''start'', JInt start), (''length'', JInt len)])]))))"

definition phi_binding_table :: "(string \<times> string \<times> (int \<times> int \<times> int) option) list" where
  "phi_binding_table =
     [(''embedding.token'', ''token_embedding'', None), (''layer.0.attention.input_norm'', ''input_norm'',
     None), (''layer.0.attention.query_weight'', ''qkv'', Some (0, 0, 3072)),
     (''layer.0.attention.key_weight'', ''qkv'', Some (0, 3072, 1024)), (''layer.0.attention.value_weight'',
     ''qkv'', Some (0, 4096, 1024)), (''layer.0.attention.output_weight'', ''attention_output'', None),
     (''layer.0.mlp.input_norm'', ''post_attention_norm'', None), (''layer.0.mlp.gate_weight'', ''gate_up'',
     Some (0, 0, 8192)), (''layer.0.mlp.up_weight'', ''gate_up'', Some (0, 8192, 8192)),
     (''layer.0.mlp.down_weight'', ''down'', None)]"

definition phi_program :: "json" where
  "phi_program =
     JArr [JObj [(''id'', JStr ''embedding''), (''kind'', JStr ''embedding''), (''inputs'',
     str_list [''token_ids'']), (''outputs'', str_list [''hidden'']), (''weights'',
     str_list [''embedding.token''])], JObj [(''id'', JStr ''layer.0.attention''), (''kind'',
     JStr ''attention''), (''inputs'', str_list [''hidden'', ''position'', ''kv_read'']), (''outputs'',
     str_list [''attention_output'', ''kv_write'']), (''weights'', str_list [''layer.0.attention.input_norm'',
     ''layer.0.attention.query_weight'', ''layer.0.attention.key_weight'', ''layer.0.attention.value_weight'',
     ''layer.0.attention.output_weight'']), (''attributes'', JObj [(''heads'', JInt 24), (''kv_heads'',
     JInt 8), (''head_dimension'', JInt 128), (''causal'', JBool True), (''scale'',
     JStr ''derived:head_dimension^-0.5''), (''mask_window'', JInt 262144), (''position_transform'',
     JStr ''position.longrope.partial_rotary'')])], JObj [(''id'', JStr ''layer.0.mlp''), (''kind'',
     JStr ''composed_dense_mlp''), (''inputs'', str_list [''attention_residual'']), (''outputs'',
     str_list [''mlp_output'']), (''weights'', str_list [''layer.0.mlp.input_norm'',
     ''layer.0.mlp.gate_weight'', ''layer.0.mlp.up_weight'', ''layer.0.mlp.down_weight'']), (''composition'',
     str_list [''rms_norm'', ''matmul_gate_up'', ''split_gate_up'', ''silu'', ''mul'', ''matmul_down'',
     ''residual_add''])]]"

definition phi_position_schema :: "json \<Rightarrow> json \<Rightarrow> json" where
  "phi_position_schema short_factor long_factor =
     JObj [(''ref'', JStr ''position.longrope.partial_rotary''), (''kind'',
     JStr ''rotary_position_transform''), (''rotary_dimensions'', JInt 96), (''head_dimension'', JInt 128),
     (''theta'', JDec 100000 1), (''mode'', JStr ''longrope''), (''original_context'', JInt 4096),
     (''max_context'', JInt 131072), (''short_factor'', short_factor), (''long_factor'', long_factor),
     (''switch'', JStr ''sequence_length > original_context'')]"

definition phi_state_schema :: "json" where
  "phi_state_schema =
     JArr [JObj [(''ref'', JStr ''layer.0.kv.key''), (''kind'', JStr ''kv_key''), (''shape'', JArr [JInt 8,
     JStr ''sequence_length'', JInt 128]), (''scope'', JStr ''layer''), (''lifetime'', JStr ''sequence''),
     (''access'', JStr ''read-write''), (''transition'',
     JStr ''append(position, key); read(position_range)'')], JObj [(''ref'', JStr ''layer.0.kv.value''),
     (''kind'', JStr ''kv_value''), (''shape'', JArr [JInt 8, JStr ''sequence_length'', JInt 128]), (''scope'',
     JStr ''layer''), (''lifetime'', JStr ''sequence''), (''access'', JStr ''read-write''), (''transition'',
     JStr ''append(position, value); read(position_range)'')], JObj [(''ref'', JStr ''sequence.position''),
     (''kind'', JStr ''position''), (''shape'', int_list [1]), (''element_type'', JStr ''u64''), (''scope'',
     JStr ''sequence''), (''lifetime'', JStr ''sequence''), (''access'', JStr ''read-write''), (''transition'',
     JStr ''position_next = position + token_count''), (''reset'', JStr ''sequence_start'')]]"

definition phi_tokenizer :: "json" where
  "phi_tokenizer =
     JObj [(''kind'', JStr ''gpt2_bpe''), (''vocab_size'', JInt 200064), (''tokenizer_class'',
     JStr ''GPT2Tokenizer''), (''vocabulary'', JStr ''vocab.json''), (''merges'', JStr ''merges.txt''),
     (''special_tokens'', int_list [199999, 200018, 200019, 200020, 200021, 200022, 200028]), (''bos'',
     JBool False), (''eos'', JBool False), (''chat_template'', JStr ''application_profile_only'')]"

definition phi_document :: "json list \<Rightarrow> json \<Rightarrow> json \<Rightarrow> json" where
  "phi_document bindings short_factor long_factor =
     JObj [(''sidecar'', JStr ''vbuf-ml.phi3.dense-typed-program''), (''version'', JInt 1), (''source'',
     JObj [(''repository'', JStr phi_REPOSITORY), (''revision'', JStr phi_REVISION), (''config_revision'',
     JStr phi_REVISION), (''tokenizer_revision'', JStr phi_REVISION)]), (''portable_boundary'',
     JObj [(''excludes'', str_list [''safetensors_offsets_as_identity'', ''backend_buffers'',
     ''device_placement'', ''source_read_plan'', ''runtime_schedule'', ''cache_contents'']), (''identity'',
     JStr ''semantic TensorRef plus generic storage view/alias'')]), (''model_parameters'', phi_CONFIG),
     (''tensor_bindings'', JArr bindings), (''aliases'', JArr [JObj [(''semantic'', JStr ''lm_head.weight''),
     (''target'', JStr ''embedding.token''), (''relation'', JStr ''same_storage''), (''reason'',
     JStr ''config.tie_word_embeddings and absent lm_head tensor'')]]), (''program'', phi_program),
     (''position_schema'', phi_position_schema short_factor long_factor), (''state_schema'', phi_state_schema),
     (''tokenizer'', phi_tokenizer)]"

definition phi_build :: "json res" where
  "phi_build =
     bind_res (map_res (\<lambda>(semantic, key, view). phi_binding semantic key view) phi_binding_table) (\<lambda>bindings.
     bind_res (jget phi_CONFIG ''short_factor'') (\<lambda>short_factor.
     bind_res (jget phi_CONFIG ''long_factor'') (\<lambda>long_factor.
     Inr (phi_document bindings short_factor long_factor))))"

definition phi_view_ok :: "json \<Rightarrow> int \<Rightarrow> unit res" where
  "phi_view_ok view rows =
     bind_res (jget_int view ''start'') (\<lambda>start. bind_res (jget_int view ''length'') (\<lambda>len.
     require (\<not> (start < 0 \<or> len \<le> 0 \<or> start + len > rows)) (ValueError ''invalid view'')))"

definition phi_check_binding :: "json \<Rightarrow> unit res" where
  "phi_check_binding item =
     bind_res (jpath item [''tensor_ref'', ''semantic_key'']) (\<lambda>v. bind_res (hkey v) (\<lambda>key.
     case (case key of JStr s \<Rightarrow> map_of phi_TENSORS s | _ \<Rightarrow> None) of
       None \<Rightarrow> Inl (ValueError ''unknown storage binding'')
     | Some (_, shape, _) \<Rightarrow> bind_res (jhas item ''view'') (\<lambda>b. if b then
           bind_res (jget item ''view'') (\<lambda>view. case shape of [] \<Rightarrow> Inl IndexError | rows # _ \<Rightarrow> phi_view_ok view rows)
         else Inr ())))"

definition phi_validate :: "json \<Rightarrow> unit res" where
  "phi_validate sidecar =
     bind_res (jget_list sidecar ''tensor_bindings'') (\<lambda>bindings.
     bind_res (distinct_by (\<lambda>item. jget item ''semantic'') bindings ''duplicate semantic binding'') (\<lambda>_.
     bind_res (map_res (\<lambda>item. jpath item [''tensor_ref'', ''semantic_key'']) bindings) (\<lambda>storages.
     bind_res (key_set storages) (\<lambda>storage.
     bind_res (each phi_check_binding bindings) (\<lambda>_.
     bind_res (jget_list sidecar ''aliases'') (\<lambda>aliases.
     bind_res (case aliases of [] \<Rightarrow> Inl IndexError | alias # _ \<Rightarrow> Inr alias) (\<lambda>alias.
     bind_res (jget alias ''target'') (\<lambda>target.
     bind_res (map_res (\<lambda>item. jget item ''semantic'') bindings) (\<lambda>names. bind_res (key_set names) (\<lambda>refs.
     bind_res (in_keys target refs) (\<lambda>bound.
     bind_res (if bound then in_keys target [JStr ''embedding.token''] else Inr False) (\<lambda>tied.
     bind_res (require tied (ValueError ''invalid tied alias'')) (\<lambda>_.
     bind_res (require (length (remdups storage) = 7) (ValueError ''unexpected representative storage count'')) (\<lambda>_.
     bind_res (jpath sidecar [''position_schema'', ''rotary_dimensions'']) (\<lambda>rotary.
     require (jeq rotary (JInt 96)) (ValueError ''partial rotary semantics missing''))))))))))))))))"

section \<open>Gemma 3\<close>

definition gemma_MODEL :: string where "gemma_MODEL = ''google/gemma-3-270m-it''"
definition gemma_REVISION :: string where "gemma_REVISION = ''ac82b4e820549b854eebf28ce6dedaf9fdfa17b3''"
definition gemma_CONFIG_FILE_OID :: string where
  "gemma_CONFIG_FILE_OID = ''48bf8ed00bfb682ff0d4713914e9934c85caae4f''"

definition gemma_CONFIG :: "json" where
  "gemma_CONFIG =
     JObj [(''architecture'', JStr ''Gemma3ForCausalLM''), (''model_type'', JStr ''gemma3_text''),
     (''parameter_count'', JInt 268098176), (''vocab_size'', JInt 262144), (''layer_count'', JInt 18),
     (''hidden_size'', JInt 640), (''intermediate_size'', JInt 2048), (''attention_heads'', JInt 4),
     (''kv_heads'', JInt 1), (''head_dimension'', JInt 256), (''max_context'', JInt 32768), (''local_window'',
     JInt 512), (''sliding_window_pattern'', JInt 6), (''rope_theta_global'', JDec 10000000 1),
     (''rope_theta_local'', JDec 100000 1), (''rms_norm_epsilon'', JDec 1 6), (''query_pre_attention_scalar'',
     JInt 256), (''activation'', JStr ''gelu_pytorch_tanh''), (''attention_softcap'', JNull),
     (''logit_softcap'', JNull), (''weight_tying'', JBool True), (''dtype'', JStr ''BF16'')]"

definition LAYER_TYPES :: "string list" where
  "LAYER_TYPES = map (\<lambda>index. if (index + 1) mod 6 \<noteq> 0 then ''sliding_attention'' else ''full_attention'') [0..17]"

definition gemma_pattern_row :: "nat \<times> string \<Rightarrow> json" where
  "gemma_pattern_row = (\<lambda>(index, scope). JObj [(''layer'', JInt (int index)), (''scope'', JStr scope),
     (''window'', if scope = ''sliding_attention'' then JInt 512 else JNull),
     (''position_transform'',
        JStr (if scope = ''sliding_attention'' then ''position.local_rope'' else ''position.global_rope''))])"

definition gemma_binding :: "string \<Rightarrow> string \<Rightarrow> json" where
  "gemma_binding semantic source_role = JObj [(''semantic'', JStr semantic), (''tensor_ref'', tensor_ref (JStr source_role)),
     (''source_provenance'', JObj [(''role'', JStr source_role), (''repository'', JStr gemma_MODEL),
        (''revision'', JStr gemma_REVISION)]),
     (''representation'', JObj [(''kind'', JStr ''bf16''), (''element_type'', JStr ''bf16'')])]"

definition gemma_binding_table :: "(string \<times> string) list" where
  "gemma_binding_table =
     [(''embedding.token'', ''embedding.token''), (''attention.query_weight'', ''attention.query_weight''),
     (''attention.key_weight'', ''attention.key_weight''), (''attention.value_weight'',
     ''attention.value_weight''), (''attention.query_norm'', ''attention.query_norm''),
     (''attention.key_norm'', ''attention.key_norm''), (''attention.output_weight'',
     ''attention.output_weight''), (''mlp.gate_weight'', ''mlp.gate_weight''), (''mlp.up_weight'',
     ''mlp.up_weight''), (''mlp.down_weight'', ''mlp.down_weight'')]"

definition gemma_program :: "json" where
  "gemma_program =
     JArr [JObj [(''id'', JStr ''layer.patterned_attention_mlp''), (''kind'', JStr ''layer_template''),
     (''for_each'', JStr ''attention_pattern''), (''composition'',
     str_list [''rms_norm(parameterization=one_plus_weight)'', ''q_proj'', ''k_proj'', ''v_proj'', ''q_norm'',
     ''k_norm'', ''position_transform(scope)'', ''attention(scope, causal, window)'', ''o_proj'',
     ''residual_add'', ''rms_norm(parameterization=one_plus_weight)'', ''gelu(gate_proj(x))'',
     ''mul(up_proj(x))'', ''down_proj'', ''rms_norm(parameterization=one_plus_weight)'', ''residual_add'']),
     (''attributes'', JObj [(''heads'', JInt 4), (''kv_heads'', JInt 1), (''head_dimension'', JInt 256),
     (''causal'', JBool True), (''query_scale'', JStr ''derived:query_pre_attention_scalar^-0.5''),
     (''norm_parameterization'', JStr ''one_plus_weight''), (''attention_pattern_ref'',
     JStr ''attention_pattern'')])]]"

definition gemma_position_schema :: "json" where
  "gemma_position_schema =
     JArr [JObj [(''ref'', JStr ''position.global_rope''), (''kind'', JStr ''rotary_position_transform''),
     (''theta'', JDec 10000000 1), (''head_dimension'', JInt 256), (''scope'', JStr ''global_attention'')],
     JObj [(''ref'', JStr ''position.local_rope''), (''kind'', JStr ''rotary_position_transform''), (''theta'',
     JDec 100000 1), (''head_dimension'', JInt 256), (''scope'', JStr ''sliding_attention'')]]"

definition gemma_state_schema :: "json" where
  "gemma_state_schema =
     JArr [JObj [(''ref'', JStr ''layered.kv.key''), (''kind'', JStr ''kv_key''), (''scope'', JStr ''layer''),
     (''lifetime'', JStr ''sequence''), (''access'', JStr ''read-write''), (''transition'',
     JStr ''append(position, key); read(scope.window, position_range)''), (''variants'',
     JObj [(''sliding_attention'', JObj [(''window'', JInt 512)]), (''full_attention'', JObj [(''window'',
     JNull)])])], JObj [(''ref'', JStr ''layered.kv.value''), (''kind'', JStr ''kv_value''), (''scope'',
     JStr ''layer''), (''lifetime'', JStr ''sequence''), (''access'', JStr ''read-write''), (''transition'',
     JStr ''append(position, value); read(scope.window, position_range)'')], JObj [(''ref'',
     JStr ''sequence.position''), (''kind'', JStr ''position''), (''scope'', JStr ''sequence''), (''lifetime'',
     JStr ''sequence''), (''access'', JStr ''read-write''), (''transition'',
     JStr ''position_next = position + token_count''), (''reset'', JStr ''sequence_start'')]]"

definition gemma_tokenizer :: "json" where
  "gemma_tokenizer =
     JObj [(''kind'', JStr ''sentencepiece''), (''model'', JStr ''tokenizer.model''), (''vocabulary_size'',
     JInt 262144), (''bos_id'', JInt 2), (''eos_id'', JInt 106), (''pad_id'', JInt 0), (''added_tokens'',
     JStr ''added_tokens.json''), (''chat_template'', JStr ''chat_template.jinja''),
     (''chat_template_application_profile'', JBool True)]"

definition gemma_sidecar :: "json" where
  "gemma_sidecar =
     JObj [(''sidecar'', JStr ''vbuf-ml.gemma3_text.typed-program''), (''version'', JInt 1), (''source'',
     JObj [(''repository'', JStr gemma_MODEL), (''revision'', JStr gemma_REVISION), (''config_file_oid'',
     JStr gemma_CONFIG_FILE_OID), (''config_access'',
     JStr ''official_manifest_plus_public_implementation_cross_check''), (''weights_downloaded'',
     JBool False)]), (''portable_boundary'', JObj [(''excludes'', str_list [''vision_backend'',
     ''image_features'', ''backend_buffers'', ''device_placement'', ''mask_buffers'', ''frequency_tables'',
     ''cache_contents'']), (''text_path'', JStr ''Gemma3ForCausalLM'')]), (''model_parameters'', gemma_CONFIG),
     (''attention_pattern'', JArr (map gemma_pattern_row (List.enumerate 0 LAYER_TYPES))),
     (''tensor_bindings'', JArr (map (\<lambda>(s, r). gemma_binding s r) gemma_binding_table)), (''aliases'',
     JArr [JObj [(''semantic'', JStr ''lm_head.weight''), (''target'', JStr ''embedding.token''),
     (''relation'', JStr ''same_storage'')]]), (''position_schema'', gemma_position_schema), (''program'',
     gemma_program), (''state_schema'', gemma_state_schema), (''tokenizer'', gemma_tokenizer),
     (''multimodal_boundary'', JObj [(''selected_path'', JStr ''text_only''), (''vision_semantics'',
     JStr ''outside_selected_program''), (''image_adapter'', JStr ''not imported''), (''language_model_input'',
     JStr ''token_or_embedded_sequence'')])]"

definition gemma_validate :: "json \<Rightarrow> unit res" where
  "gemma_validate sidecar =
     bind_res (jget_list sidecar ''attention_pattern'') (\<lambda>pattern.
     bind_res (jpath sidecar [''model_parameters'', ''layer_count'']) (\<lambda>layers.
     bind_res (require (jeq (JInt (int (length pattern))) layers) (ValueError ''attention pattern does not cover all layers'')) (\<lambda>_.
     bind_res (map_res (\<lambda>item. jget item ''scope'') pattern) (\<lambda>scopes.
     bind_res (require (jeq (JArr scopes) (str_list LAYER_TYPES)) (ValueError ''attention pattern is not deterministic'')) (\<lambda>_.
     bind_res (jpath sidecar [''model_parameters'', ''local_window'']) (\<lambda>window.
     bind_res (require (jeq window (JInt 512)) (ValueError ''local window is not preserved'')) (\<lambda>_.
     bind_res (jget_list sidecar ''aliases'') (\<lambda>aliases.
     bind_res (case aliases of [] \<Rightarrow> Inl IndexError | alias # _ \<Rightarrow> jget alias ''relation'') (\<lambda>relation.
     bind_res (require (jeq relation (JStr ''same_storage'')) (ValueError ''embedding/head alias missing'')) (\<lambda>_.
     bind_res (jpath sidecar [''multimodal_boundary'', ''selected_path'']) (\<lambda>path.
     require (jeq path (JStr ''text_only'')) (ValueError ''selected text boundary changed''))))))))))))"


section \<open>Built sidecars validate\<close>

lemma map_res_proj:
  "map_res f xs = Inr ys \<Longrightarrow> (\<And>x y. f x = Inr y \<Longrightarrow> g y = Inr (h x)) \<Longrightarrow> map_res g ys = Inr (map h xs)"
  by (induction xs arbitrary: ys) (auto simp: bind_res_Inr_iff)

lemma key_set_strs [simp]: "key_set (map JStr xs) = Inr (map JStr xs)"
  by (induction xs) (simp_all add: key_set_def)

lemma length_remdups_map_JStr: "distinct xs \<Longrightarrow> length (remdups (map JStr xs)) = length xs"
  by (simp add: distinct_map inj_on_def remdups_id_iff_distinct[THEN iffD2])

lemma distinct_by_strs:
  assumes "map_res f items = Inr (map JStr xs)" and "distinct xs"
  shows "distinct_by f items msg = Inr ()"
proof -
  have "length items = length xs" using map_res_length[OF assms(1)] by simp
  then show ?thesis using assms by (simp add: distinct_by_def length_remdups_map_JStr)
qed

text \<open>Each importer names its bindings as its table says.\<close>

lemma qwen_binding_names:
  assumes "map_res (\<lambda>(layer, key, semantic). qwen_require (tm layer) key semantic) tbl = Inr bs"
  shows "map_res (\<lambda>item. jget item ''semantic'') bs = Inr (map JStr (map (\<lambda>(_, _, s). s) tbl))"
    and "map_res (\<lambda>item. bind_res (jpath item [''tensor_ref'', ''directory'']) (\<lambda>d.
        bind_res (jpath item [''tensor_ref'', ''semantic_key'']) (\<lambda>k. bind_res (hkey d) (\<lambda>d. bind_res (hkey k) (\<lambda>k.
        Inr (d, k)))))) bs = Inr (map (\<lambda>s. (JStr ''TensorDirectory'', JStr s)) (map (\<lambda>(_, _, s). s) tbl))"
proof -
  have A: "jget b ''semantic'' = Inr (JStr s) \<and> jget b ''tensor_ref'' = Inr (tensor_ref (JStr s))"
    if "qwen_require tm' key s = Inr b" for tm' key s b
    using that by (auto simp: qwen_require_def qwen_binding_def split: option.splits)
  have "map_res (\<lambda>item. jget item ''semantic'') bs = Inr (map (\<lambda>(_, _, s). JStr s) tbl)"
    by (rule map_res_proj[OF assms]) (auto dest: A)
  then show "map_res (\<lambda>item. jget item ''semantic'') bs = Inr (map JStr (map (\<lambda>(_, _, s). s) tbl))"
    by (simp add: case_prod_unfold o_def)
  have "map_res (\<lambda>item. bind_res (jpath item [''tensor_ref'', ''directory'']) (\<lambda>d.
        bind_res (jpath item [''tensor_ref'', ''semantic_key'']) (\<lambda>k. bind_res (hkey d) (\<lambda>d. bind_res (hkey k) (\<lambda>k.
        Inr (d, k)))))) bs = Inr (map (\<lambda>(_, _, s). (JStr ''TensorDirectory'', JStr s)) tbl)"
    by (rule map_res_proj[OF assms]) (auto dest!: A simp: tensor_ref_def)
  then show "map_res (\<lambda>item. bind_res (jpath item [''tensor_ref'', ''directory'']) (\<lambda>d.
        bind_res (jpath item [''tensor_ref'', ''semantic_key'']) (\<lambda>k. bind_res (hkey d) (\<lambda>d. bind_res (hkey k) (\<lambda>k.
        Inr (d, k)))))) bs = Inr (map (\<lambda>s. (JStr ''TensorDirectory'', JStr s)) (map (\<lambda>(_, _, s). s) tbl))"
    by (simp add: case_prod_unfold o_def)
qed

definition qwen_names :: "string list" where
  "qwen_names = map (\<lambda>(_, _, s). s) qwen_binding_table"

lemma qwen_names_ok: "distinct qwen_names"
  "weights_bound msg (map JStr qwen_names) (case qwen_program of JArr ops \<Rightarrow> ops) = Inr ()"
  by code_simp+


lemma qwen_document_fields:
  "jget (qwen_document a name bs l e h kh dim x act) ''version'' = Inr (JInt SIDECAR_VERSION)"
  "jget_list (qwen_document a name bs l e h kh dim x act) ''tensor_bindings'' = Inr bs"
  "jget_list (qwen_document a name bs l e h kh dim x act) ''program'' = Inr (case qwen_program of JArr ops \<Rightarrow> ops)"
  by (simp_all add: qwen_document_def jget_list_def qwen_program_def)

lemma qwen_moe:
  "bind_res (operation_named ''moe.layer0'' (case qwen_program of JArr ops \<Rightarrow> ops)) (\<lambda>moe.
     bind_res (jpath moe [''attributes'', ''expert_count'']) (\<lambda>experts.
     bind_res (jpath moe [''alternatives'', ''cardinality'']) (\<lambda>cardinality.
     require (jeq experts cardinality) e))) = Inr ()"
  by (simp add: qwen_program_def operation_named_def)

lemma distinct_names_pairs:
  "distinct xs \<Longrightarrow> length (remdups (map (\<lambda>s. (JStr d, JStr s)) xs)) = length xs"
  by (simp add: distinct_map inj_on_def remdups_id_iff_distinct[THEN iffD2])

lemma qwen_document_validates:
  assumes "map_res (\<lambda>(layer, key, semantic). qwen_require (tm layer) key semantic) qwen_binding_table = Inr bs"
  shows "qwen_validate (qwen_document a name bs l e h kh dim x act) = Inr ()"
proof -
  note names = qwen_binding_names[OF assms, folded qwen_names_def]
  have len: "length bs = length qwen_names" using map_res_length[OF names(1)] by simp
  note [simp] = names distinct_by_strs[OF names(1) qwen_names_ok(1)] len
    distinct_names_pairs[OF qwen_names_ok(1)] qwen_document_fields qwen_names_ok(2) qwen_moe
  show ?thesis unfolding qwen_validate_def by (simp del: jpath.simps)
qed

lemma qwen_built_validates:
  "bind_res (qwen_build name a) qwen_validate = bind_res (qwen_build name a) (\<lambda>_. Inr ())"
proof (cases "qwen_build name a")
  case (Inr s)
  then obtain bs l e h kh dim x act where
    "map_res (\<lambda>(layer, key, semantic). qwen_require (tensor_map a layer) key semantic) qwen_binding_table = Inr bs"
    and s: "s = qwen_document a name bs l e h kh dim x act"
    unfolding qwen_build_def Let_def by (auto simp: bind_res_Inr_iff split: if_splits)
  then show ?thesis using qwen_document_validates Inr by (simp del: jpath.simps)
qed simp

section \<open>What a binding refers to\<close>

lemma map_of_fold_update:
  "map_of (fold (\<lambda>t d. AList.update (f t) t d) ts d0) k = Some t \<Longrightarrow> (t \<in> set ts \<and> f t = k) \<or> map_of d0 k = Some t"
proof (induction ts arbitrary: d0)
  case (Cons u ts)
  from Cons.IH[of "AList.update (f u) u d0"] Cons.prems show ?case
    by (auto simp: update_conv split: if_splits)
qed simp

lemma tensor_map_Some:
  assumes "map_of (tensor_map a layer) key = Some t"
  shows "t \<in> set (ar_tensors a) \<and> tn_layer t = Some layer \<and> tensor_key (tn_name t) = key"
  using map_of_fold_update[OF assms[unfolded tensor_map_def]] by auto

text \<open>
  What the Qwen importer builds, its own validator accepts: on every artifact, building and then
  validating fails only where building fails, with the same exception, and a built sidecar always
  validates (distinct semantic names and tensor references, every operation's weights bound, expert
  cardinality as declared).
\<close>

theorem qwen_sidecar_validates:
  "bind_res (qwen_build name a) qwen_validate = bind_res (qwen_build name a) (\<lambda>_. Inr ())"
  by (rule qwen_built_validates)

text \<open>
  The block geometry a sidecar declares, against the GGML type table: it is right for three types
  only.  A \<open>Q8_0\<close> tensor is declared with 256 elements in 34 bytes, where the type has 32; the other
  quantised types get no block size or the wrong one, and \<open>BF16\<close> and \<open>F16\<close> are declared as \<open>f32\<close>.
\<close>

definition declared_geometry :: "string \<Rightarrow> (int \<times> int) option" where
  "declared_geometry type_name =
     (case (jget_int (qwen_representation type_name) ''block_elements'', jget_int (qwen_representation type_name) ''block_bytes'') of
        (Inr n, Inr b) \<Rightarrow> Some (n, b) | _ \<Rightarrow> None)"

definition type_geometry :: "string \<Rightarrow> (int \<times> int) option" where
  "type_geometry type_name = map_of (map snd TYPES) type_name"

text \<open>
  The representation that the Qwen importer records agrees with the GGML type table of
  \<open>qualify_step16.py\<close> for \<open>F32\<close>, \<open>Q4_K\<close> and \<open>Q5_K\<close> only; for \<open>Q8_0\<close>, which the importer lists, it
  records 256 elements per 34-byte block where the table has 32, and \<open>BF16\<close> is recorded as \<open>f32\<close>.
\<close>

theorem qwen_representation_geometry:
  "filter (\<lambda>n. declared_geometry n = type_geometry n) (map (\<lambda>(_, n, _). n) TYPES) = [''F32'', ''Q4_K'', ''Q5_K''] \<and>
   declared_geometry ''Q8_0'' = Some (256, 34) \<and> type_geometry ''Q8_0'' = Some (32, 34) \<and>
   jget_str (qwen_representation ''BF16'') ''kind'' = Inr ''f32''"
  by code_simp

section \<open>DeepSeek\<close>

lemma distinct_keys_jget: "distinct_keys d \<Longrightarrow> jget d k = Inr v \<Longrightarrow> distinct_keys v"
  by (cases d) (auto simp: jget_def dest!: map_of_SomeD)

lemma deepseek_binding_names:
  assumes "map_res (\<lambda>(name, semantic). deepseek_required plans name semantic) tbl = Inr bs"
  shows "map_res (\<lambda>item. jget item ''semantic'') bs = Inr (map JStr (map snd tbl))"
proof -
  have A: "jget b ''semantic'' = Inr (JStr s)" if "deepseek_required plans n s = Inr b" for n s b
    using that by (auto simp: deepseek_required_def deepseek_binding_def bind_res_Inr_iff split: option.splits)
  have "map_res (\<lambda>item. jget item ''semantic'') bs = Inr (map (\<lambda>(n, s). JStr s) tbl)"
    by (rule map_res_proj[OF assms]) (auto dest: A)
  then show ?thesis by (simp add: case_prod_unfold o_def)
qed

lemma deepseek_names_ok: "distinct (map snd deepseek_binding_table)"
  "weights_bound msg (map JStr (map snd deepseek_binding_table)) (case deepseek_program e act sh of JArr ops \<Rightarrow> ops) = Inr ()"
   by code_simp+

lemma deepseek_document_fields:
  "jget_list (deepseek_document bs f s n e act sh) ''tensor_bindings'' = Inr bs"
  "jget_list (deepseek_document bs f s n e act sh) ''program'' = Inr (case deepseek_program e act sh of JArr ops \<Rightarrow> ops)"
  "jpath (deepseek_document bs f s n e act sh) [''model_parameters'', ''expert_count''] = Inr e"
  by (simp_all add: deepseek_document_def jget_list_def deepseek_program_def)

lemma deepseek_moe:
  "bind_res (operation_named ''layer.1.moe'' (case deepseek_program e act sh of JArr ops \<Rightarrow> ops)) (\<lambda>moe.
     bind_res (jpath moe [''alternatives'', ''cardinality'']) k) = k e"
  by (simp add: deepseek_program_def operation_named_def)

lemma deepseek_document_validates:
  assumes "map_res (\<lambda>(name, semantic). deepseek_required plans name semantic) deepseek_binding_table = Inr bs"
    and e: "distinct_keys e"
  shows "deepseek_validate (deepseek_document bs f s n e act sh) = Inr ()"
proof -
  note names = deepseek_binding_names[OF assms(1)]
  note [simp] = names distinct_by_strs[OF names deepseek_names_ok(1)] deepseek_document_fields
    deepseek_names_ok(2) deepseek_moe jeq_refl[OF e]
  show ?thesis unfolding deepseek_validate_def by (simp del: jpath.simps map_map jeq.simps)
qed

lemma deepseek_built_validates:
  assumes "distinct_keys manifest" and "deepseek_build manifest = Inr s"
  shows "deepseek_validate s = Inr ()"
proof -
  obtain plans bs f sh n moe e act shared where
    bs: "map_res (\<lambda>(name, semantic). deepseek_required plans name semantic) deepseek_binding_table = Inr bs"
    and moe: "jget manifest ''moe_plan'' = Inr moe" "jget moe ''expert_count'' = Inr e"
    and s: "s = deepseek_document bs f sh n e act shared"
    using assms(2) unfolding deepseek_build_def by (auto simp: bind_res_Inr_iff)
  have "distinct_keys e" using assms(1) moe distinct_keys_jget by blast
  then show ?thesis using bs s deepseek_document_validates by blast
qed

text \<open>
  What the DeepSeek importer builds from a manifest (a Python document: no object has a key
  twice), its validator accepts, whatever the manifest's plans and expert counts are.
\<close>

theorem deepseek_sidecar_validates:
  assumes "distinct_keys manifest" and "deepseek_build manifest = Inr s"
  shows "deepseek_validate s = Inr ()"
  by (rule deepseek_built_validates[OF assms])

definition sample_manifest :: json where
  "sample_manifest = JObj [
     (''source_identity'', JObj [(''architecture'', JStr ''deepseek2''), (''filename'', JStr ''f''),
        (''sha256'', JStr ''00''), (''tensor_count'', JInt 377)]),
     (''tensor_plans'', JArr (map (\<lambda>(n, s). JObj [(''source_name'', JStr n), (''target_name'', JStr s),
        (''source_shape'', int_list [2048]), (''source_ggml_type'', JStr ''F32'')]) deepseek_binding_table)),
     (''moe_plan'', JObj [(''expert_count'', JInt 64), (''active_expert_count'', JInt 6), (''shared_expert_count'', JInt 2)])]"

lemma sample_manifest_ok: "distinct_keys sample_manifest"
  "case deepseek_build sample_manifest of Inl _ \<Rightarrow> False | Inr _ \<Rightarrow> True"
  by code_simp+

theorem deepseek_sidecar_validates_witness:
  "\<exists>s. deepseek_build sample_manifest = Inr s \<and> deepseek_validate s = Inr ()"
proof -
  obtain s where "deepseek_build sample_manifest = Inr s"
    using sample_manifest_ok(2) by (cases "deepseek_build sample_manifest") auto
  then show ?thesis using deepseek_sidecar_validates[OF sample_manifest_ok(1)] by blast
qed

section \<open>Phi and Gemma\<close>

text \<open>The views of a storage tile its rows when they follow one another from 0 to the first dimension.\<close>

fun tiles :: "(int \<times> int) list \<Rightarrow> int \<Rightarrow> int \<Rightarrow> bool" where
  "tiles [] from_row rows \<longleftrightarrow> from_row = rows"
| "tiles ((start, len) # vs) from_row rows \<longleftrightarrow> start = from_row \<and> 0 < len \<and> tiles vs (start + len) rows"

definition phi_views :: "string \<Rightarrow> (int \<times> int) list" where
  "phi_views key = concat (map (\<lambda>(_, k, v). case v of Some (_, s, n) \<Rightarrow> if k = key then [(s, n)] else [] | None \<Rightarrow> [])
     phi_binding_table)"

text \<open>
  The Phi sidecar builds and passes its validator; every weight its operations name is bound; and
  the views of the two fused storages tile their rows exactly: query, key and value the 5120 rows of
  \<open>qkv\<close>, gate and up the 16384 rows of \<open>gate_up\<close>.
\<close>

theorem phi_sidecar_valid:
  "bind_res phi_build phi_validate = Inr () \<and>
   weights_bound '''' (map JStr (map fst phi_binding_table)) (case phi_program of JArr ops \<Rightarrow> ops) = Inr () \<and>
   list_all (\<lambda>key. case map_of phi_TENSORS key of Some (_, rows # _, _) \<Rightarrow> tiles (phi_views key) 0 rows | _ \<Rightarrow> False)
     [''qkv'', ''gate_up'']"
  by code_simp

text \<open>
  The Gemma sidecar passes its validator; its attention pattern covers the 18 layers of the
  configuration, every sixth one global (layers 5, 11 and 17) and unwindowed, the others local with
  the configured window of 512.
\<close>

theorem gemma_sidecar_valid:
  "gemma_validate gemma_sidecar = Inr () \<and> length LAYER_TYPES = 18 \<and>
   map fst (filter (\<lambda>(i, s). s = ''full_attention'') (List.enumerate 0 LAYER_TYPES)) = [5, 11, 17] \<and>
   list_all (\<lambda>(i, s). case gemma_pattern_row (i, s) of row \<Rightarrow>
      (jget row ''window'' = Inr (if s = ''full_attention'' then JNull else JInt 512))) (List.enumerate 0 LAYER_TYPES)"
  by code_simp

end
