(* ===== verification/Spec2Isabelle.thy ===== *)
theory Spec2Isabelle
  imports Bench_Trace Block_Formats Bytes Ccc_Data Checkpoint Correction_Codec Cost_Aware Deep_Stack
    Eviction Expert_Bank Fast_Gguf Fixtures Generation Generation_Runs Geometry17 Gguf
    Gguf_Roundtrip Json Legacy_Fixtures Log_Reader Lookahead Manifest18 Mutation Navigation
    Placement Plan20 Plan20_Roundtrip Planner26 Planner_Writer Prelude Procedural Range_Server
    Report_Validators Reports16 Residency Reuse Runs Slack Tensor_Screen Text Tiered
    Tokenizer19 Trace Typed_Programs V06_Geometry V06_Vectors Weight_Prep Wire_Format
begin

text \<open>
  The Python tooling of vBuf.

  vBuf is a binary container whose blocks are aligned to a base step chosen by the file, with readers
  and writers in several languages and a body of Python scripts (\<open>scripts/\<close>, and some under
  \<open>research/results/\<close>) that specify the format by example, convert models from GGUF, and qualify the
  policies by which a runtime keeps tensors in memory.  This library models those scripts: their data,
  their operations with every exception, and the promises they make to each other.

  \<^bold>\<open>The parts of the program and how they meet.\<close>

  \<^item> The format.  \<open>build_v06_conformance_fixtures.py\<close> writes a corpus of files, valid ones and ones with a
    single fault; \<open>verify_v06_spec_vectors.py\<close> recomputes the geometry of a file of vectors;
    \<open>verify_vbuf_fixtures.py\<close> guards the frozen v0.5 evidence.
  \<^item> The model files.  \<open>qualify_step16.py\<close> reads GGUF and simulates placements; \<open>qualify_step17.py\<close>
    compares its payload geometry with the consumer's; \<open>qualify_step19b.py\<close> checks the tokenizers;
    \<open>build_step18_manifest.py\<close> turns an artifact into a manifest; \<open>convert_gguf_to_vbuf_ml.py\<close> writes
    manifest and artifact as a binary plan, which the Rust converter reads; the \<open>build_*_typed_program.py\<close>
    scripts describe the model over the converted tensors; \<open>qualify_step26_qwen32b.py\<close> chooses the base step
    for a manifest, and \<open>audit_step30_slack.py\<close> and \<open>audit_step31n_expert_bank_rank.py\<close> audit the result.
  \<^item> Residency.  A C++ runtime logs which tensors it asked for.  \<open>qualify_residency_policy_poc17.py\<close> parses
    the log and replays it under cache policies, \<open>qualify_tiered_residency_poc18.py\<close> with two tiers,
    \<open>qualify_deep_stack_poc19.py\<close> over the blocks of a deep stack, \<open>qualify_cost_aware_residency_poc20.py\<close> and
    \<open>report_cost_aware_residency_poc20.py\<close> with cost-aware policies against the runtime's own decisions.
  \<^item> Loading and running.  Three HTTP range servers; the layer lookahead of \<open>run_step29_layer_io.py\<close>; the
    resumable reference run \<open>step32g_bounded_reference.py\<close>; the validators of the benchmark reports.
  \<^item> Compression experiments.  Generators, codecs, block decoders and tensor finders around floating point
    kernels that are not themselves modelled; the changes of coordinates of
    \<open>qualify_weight_space_preparation.py\<close> and the structured operators of \<open>run_step30_continuation.py\<close>, exactly.

  \<^bold>\<open>Which theory models what.\<close>  A definition has the name of the function or class it translates, with a
  suffix where the name is taken; a dataclass is a record, a dictionary an association list in insertion
  order, an exception a value of \<open>py_error\<close> in a result \<open>'a res\<close>.

  \<^item> Foundations.  \<open>Prelude\<close>: errors, sequencing of fallible code, dictionaries, the interface \<open>aligner\<close>.
    \<open>Bytes\<close>: byte strings and \<open>struct\<close>.  \<open>Json\<close>: documents.  \<open>Text\<close>: \<open>int\<close>, \<open>split\<close>, \<open>splitlines\<close> and
    regular expressions.
  \<^item> Format.  \<open>V06_Geometry\<close> (\<open>align_up\<close>, \<open>data_start\<close>, payload alignment and size, count form), \<open>V06_Vectors\<close> (one function
    per \<open>verify_*\<close>, and \<open>main\<close>), \<open>Wire_Format\<close> (the writer \<open>canonical\<close> and its patches, with a reference
    reader transcribed from the specification), \<open>Fixtures\<close> (the corpus), \<open>Legacy_Fixtures\<close>.
  \<^item> GGUF.  \<open>Gguf\<close> (the class \<open>Reader\<close>, \<open>tensor_size\<close>, \<open>parse\<close>), \<open>Gguf_Roundtrip\<close> (a reference encoder),
    \<open>Placement\<close> (\<open>layout_order\<close>, \<open>simulate\<close>), \<open>Reports16\<close> (the rows of \<open>qualify\<close>), \<open>Geometry17\<close>
    (\<open>expected_bytes\<close>), \<open>Tokenizer19\<close> (the second pass and the parity rows), \<open>Fast_Gguf\<close> (the seeking finders).
  \<^item> Conversion.  \<open>Manifest18\<close> (\<open>build_manifest\<close>, \<open>validate\<close>), \<open>Plan20\<close> (\<open>build_plan\<close> and the reader
    \<open>parse_plan\<close> of the Rust converter), \<open>Plan20_Roundtrip\<close>, \<open>Typed_Programs\<close>, \<open>Planner26\<close> (\<open>plan_candidate\<close>,
    the Pareto filter, the selection), \<open>Planner_Writer\<close> (planner against writer), \<open>Slack\<close>, \<open>Expert_Bank\<close>.
  \<^item> Residency.  \<open>Trace\<close> (events, requests, next use, leases), \<open>Log_Reader\<close> (the text of the log),
    \<open>Eviction\<close> (the loop both replays share), \<open>Residency\<close>, \<open>Cost_Aware\<close>, \<open>Tiered\<close> (the three replays),
    \<open>Reuse\<close>, \<open>Deep_Stack\<close> (reports), \<open>Runs\<close> (the \<open>main\<close> functions, from text to report).
  \<^item> Loading and reports.  \<open>Range_Server\<close>, \<open>Lookahead\<close>, \<open>Checkpoint\<close> (files and tensors of the reference run),
    \<open>Generation\<close> (its state file and loop), \<open>Generation_Runs\<close> (its processes, killed and started again), \<open>Navigation\<close>, \<open>Report_Validators\<close>, \<open>Bench_Trace\<close>.
  \<^item> Compression.  \<open>Mutation\<close>, \<open>Procedural\<close>, \<open>Correction_Codec\<close>, \<open>Block_Formats\<close>, \<open>Ccc_Data\<close>,
    \<open>Weight_Prep\<close> (transforms, channel orders, the split of a prepared matrix), \<open>Tensor_Screen\<close> (the
    candidate families with their direct application, reconstruction and storage account).

  \<^bold>\<open>Interfaces.\<close>  Three contracts are locales, each interpreted on the model's own definitions.

  \<^item> \<open>aligner\<close> (\<open>Prelude\<close>): the least aligned value at or above a given one.  Its providers are the bit mask of
    the vector verifier (\<open>mask_al\<close>) and of the fixture writer (\<open>fixture_al\<close>), the ceiling of step 16
    (\<open>ceil_al\<close>), of the planner (\<open>plan_al\<close>) and of the tensor screen (\<open>screen_al\<close>); placement and padding bounds rest on its facts, and since the laws
    determine the value, all five agree where they are defined.
  \<^item> \<open>eviction_policy\<close> (\<open>Eviction\<close>): a choice of a victim among the resident entries that are not leased.  Its
    providers are the policies of both replays (\<open>sim_policy\<close>, \<open>cost_policy\<close>); that the loop ends, makes room,
    keeps leased entries and removes nothing but its victims is proved once inside it.
  \<^item> \<open>range_source\<close> (\<open>Range_Server\<close>): a server that answers a range inside its object with exactly that slice.
    Its providers are the three handlers (\<open>served\<close>, \<open>poc6\<close>, \<open>arm\<close>); that a client can rebuild the object from
    pieces is proved once inside it.

  \<^bold>\<open>What the theorems show.\<close>

  \<^item> Round trips: the writer of the format is inverted by the reader of the specification, the GGUF reader
    inverts the encoding, the Rust reader inverts the plan, the log reader inverts the log's printer, and likewise for
    checkpoint records, packed codes, corrections, quantised blocks, mutations and the minimal container; the hash behind the code books gives back
    its seed and its position.
  \<^item> Refinement and equivalence: a generation check that is killed any number of times ends with the same result (a
    step relation over files and pending operations, with its invariant by rule induction); pieces fetched
    from a range server are the object; the writer follows the planner's layout; the replays of POC 17 and
    POC 20 agree; the fast finder agrees with the checked reader; optimised unpacking agrees with the format;
    an operator applied directly is its reconstructed matrix; a change of coordinates of weights and inputs
    leaves the outputs as they were.
  \<^item> Invariants and safety: the accounts of every replay, table, plan and audit balance; the cache stays within its
    capacity and keeps what is leased; manifests, banks and reports that pass their validators have the
    properties that those validators are there for.
  \<^item> Optimality: the selection of the base step, the Pareto marks (up to ties) and the segmentation.
  \<^item> Termination: the lookahead simulation, the replays and the scans end and return a value.
  \<^item> Defects that the model exhibits, as theorems on the code as it is: the counters of the two-tier replay
    are off by exactly the promotions that dropped their own entry; two size tables disagree on \<open>IQ2_S\<close>; the manifest's readiness can never be refused by its gap
    checks; the hard gate evaluates a scrambled matrix; equal bits per weight break the Pareto marks; the
    validator of one benchmark accepts reports whose rounds are not balanced.

  \<^bold>\<open>Loops, fuel and bounds.\<close>  Loops over data are structural or have a measure.  Three have fuel.  Nested metadata
  arrays in the GGUF readers (\<open>Gguf\<close>, \<open>Tokenizer19\<close>, \<open>Fast_Gguf\<close>) have one unit for each level; the length of
  the file is enough because every level consumes at least its header, which \<open>gguf_header_roundtrip\<close> and
  \<open>finder_never_out_of_fuel\<close> show.  The reference reader of the format (\<open>Wire_Format\<close>) has one unit for each block or extension, and
  \<open>canonical_roundtrip\<close> shows that it does not run out.  The walk back of the segmentation (\<open>Procedural\<close>)
  has one unit for each step, and \<open>segmentation_optimal\<close> shows that it ends.  The step and undo loops of
  \<open>Mutation\<close>, which some arguments make run forever, are partial functions, and \<open>mutation_reversible\<close> shows that
  they return.  Integers are kept at
  their width where the code has a width: words of 8, 16, 32 and 64 bits for bytes, hashes, code books,
  mutations and block scales, the checked 64-bit arithmetic of the format and of the GGUF reader written out;
  Python integers are \<open>int\<close>.

  \<^bold>\<open>Parameters.\<close>  Code that is not in the repository is an argument: SHA-256 (\<open>sha\<close>, \<open>digest\<close>), \<open>int\<close>, \<open>str\<close> and
  \<open>repr\<close> of a float (\<open>coerce\<close>, \<open>to_int\<close>, \<open>render\<close>), float arithmetic (\<open>fdiv\<close>, \<open>score\<close>, the records \<open>f32\<close>,
  \<open>floats\<close> and \<open>numerics\<close>), the outputs of the native readers.  The hypotheses on them are documented behaviour: a hexadecimal
  digest has 64 digits; a float that \<open>json.dump\<close> writes is read back as it was.

  \<^bold>\<open>Not modelled.\<close>

  \<^item> Floating point kernels: fits, error metrics, sweeps, attention and expert arithmetic (numpy).  They are
    numerical code whose results the scripts only report; the decidable bookkeeping around them is in the
    theories above.
  \<^item> Process runners: scripts that start binaries on machines, time them and collect their output.
  \<^item> Rendering: CSV, Markdown and JSON text, command lines, and progress output.  The rows that are rendered
    are modelled; exception texts leave out the names that they interpolate.
  \<^item> The Rust, C++ and TypeScript implementations, but for the plan reader of the Rust converter and the
    \<open>printf\<close> formats of the residency log and the checks that the C++ range client makes of a reply, which are the
    other ends of three Python interfaces.
  \<^item> Unicode beyond what the scripts' own inputs need: decoded texts are their UTF-8 bytes, and the
    classes of \<open>re\<close> and \<open>str\<close> are those of ASCII.
\<close>


end
